(* ===== verification/Prelude.thy ===== *)
theory Prelude
  imports Main "HOL-Library.Word"
begin

text \<open>
  Shared vocabulary of the development: the exceptions the framework throws, the result type
  of fallible operations, the machine types of the C++ code, and the generic lemmas on lists,
  options and results that the component theories rest on.

  A C++ operation that may throw is a function into \<open>'a result\<close>; \<open>Inl e\<close> is the
  exception \<open>e\<close> leaving the operation. \<open>out_of_range\<close> is thrown by \<open>std::string\<close>. \<open>Undefined\<close> is not an exception of the framework:
  it marks undefined behaviour (a null pointer dereferenced, an access outside an array), so
  that a theorem which rules it out says that the code is memory safe.
\<close>

unbundle bit_operations_syntax

section \<open>Exceptions and results\<close>

datatype exception =
    IllegalArgumentException
  | IllegalStateException
  | IllegalMonitorStateException
  | NullPointerException
  | IndexOutOfBoundsException
  | NoSuchElementException
  | NumberFormatException
  | RuntimeException
  | UnsupportedOperationException
  | BufferOverflowException
  | BufferUnderflowException
  | IOException
  | EOFException
  | URISyntaxException
  | CancellationException
  | ExecutionException
  | CompletionException
  | TimeoutException
  | RemoteException
  | out_of_range
  | Undefined

type_synonym 'a result = "exception + 'a"

definition bind_result :: "'a result \<Rightarrow> ('a \<Rightarrow> 'b result) \<Rightarrow> 'b result" where
  "bind_result r f = (case r of Inl e \<Rightarrow> Inl e | Inr x \<Rightarrow> f x)"

lemma bind_result_simps [simp]:
  "bind_result (Inl e) f = Inl e"
  "bind_result (Inr x) f = f x"
  by (simp_all add: bind_result_def)

lemma bind_result_eq_Inr:
  "bind_result r f = Inr y \<longleftrightarrow> (\<exists>x. r = Inr x \<and> f x = Inr y)"
  by (cases r) auto

lemma bind_result_assoc:
  "bind_result (bind_result r f) g = bind_result r (\<lambda>x. bind_result (f x) g)"
  by (cases r) auto

definition deref :: "'a option \<Rightarrow> 'a result" where
  "deref p = (case p of None \<Rightarrow> Inl Undefined | Some a \<Rightarrow> Inr a)"

lemma deref_simps [simp]:
  "deref None = Inl Undefined"
  "deref (Some a) = Inr a"
  by (simp_all add: deref_def)

section \<open>Machine types\<close>

type_synonym uint8 = "8 word"
type_synonym int16 = "16 word"
type_synonym int32 = "32 word"
type_synonym uint32 = "32 word"
type_synonym int64 = "64 word"
type_synonym uint64 = "64 word"

lemma unat_plus_one_less: "x < y \<Longrightarrow> unat (x + 1) = Suc (unat x)" for x y :: "'a::len word"
  by unat_arith

lemma unat_minus_one_pos: "x \<noteq> 0 \<Longrightarrow> unat (x - 1) = unat x - 1" for x :: "'a::len word"
  by (simp add: unat_minus_one)

section \<open>Rule collections\<close>

named_theorems heap_simps \<open>reading a store after a write\<close>
named_theorems link_simps \<open>linked structures in the store\<close>

section \<open>First and last elements as pointers\<close>

text \<open>
  The pointer to the first (last) element of a list of addresses, and what stands in its place
  when the list is empty.
\<close>

definition hd_or :: "'a list \<Rightarrow> 'a option \<Rightarrow> 'a option" where
  "hd_or xs n = (case xs of [] \<Rightarrow> n | x # _ \<Rightarrow> Some x)"

definition last_or :: "'a option \<Rightarrow> 'a list \<Rightarrow> 'a option" where
  "last_or p xs = (if xs = [] then p else Some (last xs))"

abbreviation hd_opt :: "'a list \<Rightarrow> 'a option" where
  "hd_opt xs \<equiv> hd_or xs None"

abbreviation last_opt :: "'a list \<Rightarrow> 'a option" where
  "last_opt xs \<equiv> last_or None xs"

lemma hd_or_simps [simp]:
  "hd_or [] n = n"
  "hd_or (x # xs) n = Some x"
  "hd_or (xs @ ys) n = hd_or xs (hd_or ys n)"
  "hd_opt xs = None \<longleftrightarrow> xs = []"
  by (auto simp: hd_or_def split: list.splits)

lemma last_or_simps [simp]:
  "last_or p [] = p"
  "last_or p (x # xs) = last_or (Some x) xs"
  "last_or p (xs @ ys) = last_or (last_or p xs) ys"
  "last_opt xs = None \<longleftrightarrow> xs = []"
  by (auto simp: last_or_def)

lemma last_or_Some_mem: "last_or (Some x) xs = Some y \<Longrightarrow> y \<in> insert x (set xs)"
  by (auto simp: last_or_def split: if_splits)

lemma hd_opt_mem: "hd_opt xs = Some a \<Longrightarrow> a \<in> set xs"
  by (cases xs) auto

lemma last_opt_mem: "last_opt xs = Some a \<Longrightarrow> a \<in> set xs"
  by (auto simp: last_or_def split: if_splits)

lemma hd_last_opt_nonempty:
  "xs \<noteq> [] \<Longrightarrow> hd_opt xs = Some (hd xs)"
  "xs \<noteq> [] \<Longrightarrow> last_opt xs = Some (last xs)"
  by (cases xs) (auto simp: last_or_def)

lemma hd_opt_SomeE:
  assumes "hd_opt xs = Some a"
  obtains ys where "xs = a # ys"
  using assms by (cases xs) auto

lemma last_opt_SomeE:
  assumes "last_opt xs = Some a"
  obtains ys where "xs = ys @ [a]"
  using assms by (cases xs rule: rev_cases) auto

section \<open>Counting\<close>

lemma distinct_if_counts: "(\<And>x. count_list xs x \<le> 1) \<Longrightarrow> distinct xs"
proof (induction xs)
  case (Cons y ys)
  then have "count_list ys x \<le> 1" for x by (metis count_list.simps(2) le_SucI le_add1 order_trans)
  moreover have "count_list ys y = 0" using Cons.prems[of y] by simp
  ultimately show ?case using Cons.IH by (simp add: count_list_0_iff)
qed simp

section \<open>Sorted lists with a key\<close>

lemma sorted_map_le_last: "sorted (map f xs) \<Longrightarrow> x \<in> set xs \<Longrightarrow> f x \<le> f (last xs)"
  by (induction xs) auto

lemma sorted_map_cong: "(\<And>x. x \<in> set xs \<Longrightarrow> f x = g x) \<Longrightarrow> sorted (map f xs) = sorted (map g xs)"
  by (intro arg_cong[where f = sorted] map_cong) auto

lemma sorted_map_takeWhile_eq_filter:
  "sorted (map f xs) \<Longrightarrow> takeWhile (\<lambda>x. f x \<le> w) xs = filter (\<lambda>x. f x \<le> w) xs"
  by (induction xs) (auto intro!: filter_False[symmetric] dest: order_trans)

lemma sorted_map_dropWhile_eq_filter:
  "sorted (map f xs) \<Longrightarrow> dropWhile (\<lambda>x. f x \<le> w) xs = filter (\<lambda>x. w < f x) xs"
proof (induction xs)
  case (Cons x xs)
  then show ?case
    by (cases "f x \<le> w") (auto intro!: filter_True[symmetric] simp: less_le_trans not_le)
qed simp

end
