(* ===== verification/Messages.thy ===== *)
theory Messages
  imports Prelude
begin

text \<open>
  Messages and the message pool (\<open>src/src/mindroid/os/Message.h\<close> and
  \<open>src/src/mindroid/os/Message.cpp\<close>).

  Message objects live in an explicit store: an address is a natural number, \<open>messages h a\<close>
  the object at \<open>a\<close>, and \<open>new Message()\<close> takes the next address that was never used.
  Pointers are \<open>addr option\<close>, with \<open>None\<close> for \<open>nullptr\<close>. Handlers, runnables, objects and
  promises are opaque references. The lock of the pool is held for the whole of each pool
  access, so an access is one atomic state change. A call of \<open>result->cancel()\<close> on the promise
  of a message is recorded, in order, in \<open>cancelled\<close>. Reference counting only decides when the
  memory of an unreachable message is freed, so it does not appear here.
\<close>

type_synonym addr = nat
type_synonym ref = nat

section \<open>State\<close>

record message =
  what :: int32
  arg1 :: int32
  arg2 :: int32
  obj :: "ref option"
  flags :: int32
  whenMs :: uint64
  data :: "ref option"
  target :: "ref option"
  callback :: "ref option"
  prevMessage :: "addr option"
  nextMessage :: "addr option"
  result :: "ref option"

record 'b message_heap =
  messages :: "addr \<Rightarrow> message"
  nextAddr :: addr
  bundles :: "ref \<Rightarrow> 'b"
  nextBundle :: ref
  poolMaxSize :: uint32
  pool :: "addr option"
  poolSize :: uint32
  cancelled :: "ref list"

definition FLAG_IN_USE :: int32 where
  "FLAG_IN_USE = 1"

definition Message_new :: message where
  "Message_new =
     \<lparr>what = 0, arg1 = 0, arg2 = 0, obj = None, flags = 0, whenMs = 0, data = None, target = None,
      callback = None, prevMessage = None, nextMessage = None, result = None\<rparr>"

definition MessagePool_new :: "(ref \<Rightarrow> 'b) \<Rightarrow> 'b message_heap" where
  "MessagePool_new bs =
     \<lparr>messages = (\<lambda>_. Message_new), nextAddr = 0, bundles = bs, nextBundle = 0,
      poolMaxSize = 42, pool = None, poolSize = 0, cancelled = []\<rparr>"

definition MessagePool_destroy :: "'b message_heap \<Rightarrow> 'b message_heap" where
  "MessagePool_destroy h = h\<lparr>poolMaxSize := 0, poolSize := 0, pool := None\<rparr>"

definition upd_msg :: "addr \<Rightarrow> (message \<Rightarrow> message) \<Rightarrow> 'b message_heap \<Rightarrow> 'b message_heap" where
  "upd_msg a f h = h\<lparr>messages := (messages h)(a := f (messages h a))\<rparr>"

section \<open>Operations of a message\<close>

definition isInUse :: "message \<Rightarrow> bool" where
  "isInUse m \<longleftrightarrow> flags m AND FLAG_IN_USE = FLAG_IN_USE"

definition markInUse :: "message \<Rightarrow> message" where
  "markInUse m = m\<lparr>flags := flags m OR FLAG_IN_USE\<rparr>"

definition Message_alloc :: "'b message_heap \<Rightarrow> addr \<times> 'b message_heap" where
  "Message_alloc h =
     (nextAddr h, h\<lparr>messages := (messages h)(nextAddr h := Message_new), nextAddr := nextAddr h + 1\<rparr>)"

definition Message_obtain :: "'b message_heap \<Rightarrow> addr \<times> 'b message_heap" where
  "Message_obtain h =
     (case pool h of
        Some a \<Rightarrow>
          let h1 = h\<lparr>pool := nextMessage (messages h a)\<rparr>;
              h2 = upd_msg a (\<lambda>m. m\<lparr>nextMessage := None, flags := 0\<rparr>) h1
          in (a, h2\<lparr>poolSize := poolSize h2 - 1\<rparr>)
      | None \<Rightarrow> Message_alloc h)"

definition Bundle_copy :: "ref \<Rightarrow> 'b message_heap \<Rightarrow> ref \<times> 'b message_heap" where
  "Bundle_copy b h =
     (nextBundle h, h\<lparr>bundles := (bundles h)(nextBundle h := bundles h b), nextBundle := nextBundle h + 1\<rparr>)"

definition Message_obtain_copy :: "addr \<Rightarrow> 'b message_heap \<Rightarrow> addr \<times> 'b message_heap" where
  "Message_obtain_copy orig h =
     (let (a, h1) = Message_obtain h;
          h2 = upd_msg a (\<lambda>m. m\<lparr>what := what (messages h1 orig), arg1 := arg1 (messages h1 orig),
                                 arg2 := arg2 (messages h1 orig), obj := obj (messages h1 orig)\<rparr>) h1;
          h3 = (case data (messages h2 orig) of
                  None \<Rightarrow> h2
                | Some b \<Rightarrow> let (b', h') = Bundle_copy b h2 in upd_msg a (\<lambda>m. m\<lparr>data := Some b'\<rparr>) h')
      in (a, upd_msg a (\<lambda>m. m\<lparr>target := target (messages h3 orig), callback := callback (messages h3 orig)\<rparr>) h3))"

definition Message_obtain_handler :: "ref option \<Rightarrow> 'b message_heap \<Rightarrow> addr \<times> 'b message_heap" where
  "Message_obtain_handler handler h =
     (let (a, h1) = Message_obtain h in (a, upd_msg a (\<lambda>m. m\<lparr>target := handler\<rparr>) h1))"

definition Message_obtain_callback ::
  "ref option \<Rightarrow> ref option \<Rightarrow> 'b message_heap \<Rightarrow> addr \<times> 'b message_heap" where
  "Message_obtain_callback handler cb h =
     (let (a, h1) = Message_obtain h in (a, upd_msg a (\<lambda>m. m\<lparr>target := handler, callback := cb\<rparr>) h1))"

definition Message_obtain_what :: "ref option \<Rightarrow> int32 \<Rightarrow> 'b message_heap \<Rightarrow> addr \<times> 'b message_heap" where
  "Message_obtain_what handler w h =
     (let (a, h1) = Message_obtain h in (a, upd_msg a (\<lambda>m. m\<lparr>target := handler, what := w\<rparr>) h1))"

definition Message_obtain_obj ::
  "ref option \<Rightarrow> int32 \<Rightarrow> ref option \<Rightarrow> 'b message_heap \<Rightarrow> addr \<times> 'b message_heap" where
  "Message_obtain_obj handler w ob h =
     (let (a, h1) = Message_obtain h in (a, upd_msg a (\<lambda>m. m\<lparr>target := handler, what := w, obj := ob\<rparr>) h1))"

definition Message_obtain_args ::
  "ref option \<Rightarrow> int32 \<Rightarrow> int32 \<Rightarrow> int32 \<Rightarrow> 'b message_heap \<Rightarrow> addr \<times> 'b message_heap" where
  "Message_obtain_args handler w a1 a2 h =
     (let (a, h1) = Message_obtain h
      in (a, upd_msg a (\<lambda>m. m\<lparr>target := handler, what := w, arg1 := a1, arg2 := a2\<rparr>) h1))"

definition Message_obtain_args_obj ::
  "ref option \<Rightarrow> int32 \<Rightarrow> int32 \<Rightarrow> int32 \<Rightarrow> ref option \<Rightarrow> 'b message_heap \<Rightarrow> addr \<times> 'b message_heap" where
  "Message_obtain_args_obj handler w a1 a2 ob h =
     (let (a, h1) = Message_obtain h
      in (a, upd_msg a (\<lambda>m. m\<lparr>target := handler, what := w, arg1 := a1, arg2 := a2, obj := ob\<rparr>) h1))"

definition Message_recycle :: "addr \<Rightarrow> 'b message_heap \<Rightarrow> 'b message_heap" where
  "Message_recycle a h =
     (let h1 = (case result (messages h a) of
                  None \<Rightarrow> h
                | Some r \<Rightarrow> h\<lparr>cancelled := cancelled h @ [r]\<rparr>);
          h2 = upd_msg a (\<lambda>m. m\<lparr>flags := FLAG_IN_USE, what := 0, arg1 := 0, arg2 := 0, obj := None,
                                 whenMs := 0, target := None, callback := None, data := None,
                                 result := None, prevMessage := None, nextMessage := None\<rparr>) h1
      in if poolSize h2 < poolMaxSize h2
         then let h3 = upd_msg a (\<lambda>m. m\<lparr>nextMessage := pool h2\<rparr>) h2
              in h3\<lparr>pool := Some a, poolSize := poolSize h3 + 1\<rparr>
         else h2)"

definition Message_copyFrom :: "addr \<Rightarrow> addr \<Rightarrow> 'b message_heap \<Rightarrow> 'b message_heap" where
  "Message_copyFrom self other h =
     (let h1 = upd_msg self (\<lambda>m. m\<lparr>what := what (messages h other), arg1 := arg1 (messages h other),
                                    arg2 := arg2 (messages h other), obj := obj (messages h other)\<rparr>) h
      in case data (messages h1 other) of
           Some b \<Rightarrow> (let (b', h2) = Bundle_copy b h1 in upd_msg self (\<lambda>m. m\<lparr>data := Some b'\<rparr>) h2)
         | None \<Rightarrow> upd_msg self (\<lambda>m. m\<lparr>data := None\<rparr>) h1)"

definition Message_getData :: "'b \<Rightarrow> addr \<Rightarrow> 'b message_heap \<Rightarrow> ref \<times> 'b message_heap" where
  "Message_getData emptyBundle a h =
     (case data (messages h a) of
        Some b \<Rightarrow> (b, h)
      | None \<Rightarrow>
          let b = nextBundle h;
              h1 = h\<lparr>bundles := (bundles h)(b := emptyBundle), nextBundle := b + 1\<rparr>
          in (b, upd_msg a (\<lambda>m. m\<lparr>data := Some b\<rparr>) h1))"

definition Message_setData :: "ref option \<Rightarrow> addr \<Rightarrow> 'b message_heap \<Rightarrow> 'b message_heap" where
  "Message_setData b a h = upd_msg a (\<lambda>m. m\<lparr>data := b\<rparr>) h"

definition Message_setTarget :: "ref option \<Rightarrow> addr \<Rightarrow> 'b message_heap \<Rightarrow> 'b message_heap" where
  "Message_setTarget t a h = upd_msg a (\<lambda>m. m\<lparr>target := t\<rparr>) h"

section \<open>Reading the store after a write\<close>

lemma messages_upd_msg [simp]:
  "messages (upd_msg a f h) = (messages h)(a := f (messages h a))"
  by (simp add: upd_msg_def)

lemma upd_msg_frame [simp]:
  "nextAddr (upd_msg a f h) = nextAddr h"
  "bundles (upd_msg a f h) = bundles h"
  "nextBundle (upd_msg a f h) = nextBundle h"
  "poolMaxSize (upd_msg a f h) = poolMaxSize h"
  "pool (upd_msg a f h) = pool h"
  "poolSize (upd_msg a f h) = poolSize h"
  "cancelled (upd_msg a f h) = cancelled h"
  by (simp_all add: upd_msg_def)

lemma isInUse_FLAG [simp]:
  "flags m = FLAG_IN_USE \<Longrightarrow> isInUse m"
  "isInUse (markInUse m)"
  "flags m = 0 \<Longrightarrow> \<not> isInUse m"
  by (simp_all add: isInUse_def markInUse_def FLAG_IN_USE_def or.commute)

lemma markInUse_frame [simp]:
  "what (markInUse m) = what m" "arg1 (markInUse m) = arg1 m" "arg2 (markInUse m) = arg2 m"
  "obj (markInUse m) = obj m" "whenMs (markInUse m) = whenMs m" "data (markInUse m) = data m"
  "target (markInUse m) = target m" "callback (markInUse m) = callback m"
  "prevMessage (markInUse m) = prevMessage m" "nextMessage (markInUse m) = nextMessage m"
  "result (markInUse m) = result m"
  by (simp_all add: markInUse_def)

lemma isInUse_upd [simp]:
  "isInUse (m\<lparr>prevMessage := p\<rparr>) = isInUse m" "isInUse (m\<lparr>nextMessage := p\<rparr>) = isInUse m"
  "isInUse (m\<lparr>target := t\<rparr>) = isInUse m" "isInUse (m\<lparr>whenMs := w\<rparr>) = isInUse m"
  "isInUse (m\<lparr>what := x\<rparr>) = isInUse m" "isInUse (m\<lparr>callback := c\<rparr>) = isInUse m"
  "isInUse (m\<lparr>obj := ob\<rparr>) = isInUse m" "isInUse (m\<lparr>data := d\<rparr>) = isInUse m"
  "isInUse (m\<lparr>arg1 := x\<rparr>) = isInUse m" "isInUse (m\<lparr>arg2 := x\<rparr>) = isInUse m"
  "isInUse (m\<lparr>result := r\<rparr>) = isInUse m"
  by (simp_all add: isInUse_def)

section \<open>The pool invariant\<close>

text \<open>
  \<open>recycled p\<close> is the state of a message in the pool: cleared, marked as in use, and linked to
  the rest of the pool. \<open>pool_chain ms p as\<close> says that the list of the pool that starts at \<open>p\<close>
  is \<open>as\<close>.
\<close>

definition recycled :: "addr option \<Rightarrow> message" where
  "recycled p = Message_new\<lparr>flags := FLAG_IN_USE, nextMessage := p\<rparr>"

fun pool_chain :: "(addr \<Rightarrow> message) \<Rightarrow> addr list \<Rightarrow> bool" where
  "pool_chain ms [] \<longleftrightarrow> True"
| "pool_chain ms (a # as) \<longleftrightarrow> ms a = recycled (hd_opt as) \<and> pool_chain ms as"

definition pool_inv :: "'b message_heap \<Rightarrow> addr list \<Rightarrow> bool" where
  "pool_inv h ps \<longleftrightarrow>
     pool h = hd_opt ps \<and> pool_chain (messages h) ps \<and> distinct ps \<and>
     unat (poolSize h) = length ps \<and> length ps \<le> unat (poolMaxSize h) \<and> (\<forall>a \<in> set ps. a < nextAddr h)"

lemma recycled_fields [simp]:
  "flags (recycled p) = FLAG_IN_USE" "nextMessage (recycled p) = p" "prevMessage (recycled p) = None"
  "target (recycled p) = None" "isInUse (recycled p)"
  by (simp_all add: recycled_def Message_new_def)

lemma pool_chain_frame [simp]:
  "a \<notin> set as \<Longrightarrow> pool_chain (ms(a := m)) as = pool_chain ms as"
  by (induction as) auto

lemma pool_chain_recycled: "pool_chain ms as \<Longrightarrow> a \<in> set as \<Longrightarrow> \<exists>p. ms a = recycled p"
  by (induction as) auto

lemma Message_recycle_alt:
  "Message_recycle a h =
     h\<lparr>messages := (messages h)(a := recycled (if poolSize h < poolMaxSize h then pool h else None)),
       pool := (if poolSize h < poolMaxSize h then Some a else pool h),
       poolSize := (if poolSize h < poolMaxSize h then poolSize h + 1 else poolSize h),
       cancelled := cancelled h @ (case result (messages h a) of None \<Rightarrow> [] | Some r \<Rightarrow> [r])\<rparr>"
  by (auto simp: Message_recycle_def Let_def recycled_def Message_new_def
      intro!: message_heap.equality message.equality split: option.splits)

lemma Message_recycle_frame [simp]:
  "b \<noteq> a \<Longrightarrow> messages (Message_recycle a h) b = messages h b"
  "nextAddr (Message_recycle a h) = nextAddr h"
  "bundles (Message_recycle a h) = bundles h"
  "nextBundle (Message_recycle a h) = nextBundle h"
  "poolMaxSize (Message_recycle a h) = poolMaxSize h"
  by (simp_all add: Message_recycle_alt)

lemma pool_inv_recycle:
  assumes "pool_inv h ps" "a \<notin> set ps" "a < nextAddr h"
  shows "pool_inv (Message_recycle a h) (if poolSize h < poolMaxSize h then a # ps else ps)"
proof -
  have "unat (poolSize h + 1) = unat (poolSize h) + 1" if "poolSize h < poolMaxSize h"
    using that by (simp add: unat_plus_one_less)
  then show ?thesis
    using assms by (auto simp: pool_inv_def Message_recycle_alt word_less_nat_alt)
qed

lemma Message_obtain_cases:
  assumes "pool_inv h ps"
  shows "Message_obtain h =
    (case ps of
       [] \<Rightarrow> (nextAddr h, h\<lparr>messages := (messages h)(nextAddr h := Message_new), nextAddr := nextAddr h + 1\<rparr>)
     | a # as \<Rightarrow> (a, h\<lparr>messages := (messages h)(a := Message_new), pool := hd_opt as,
                     poolSize := poolSize h - 1\<rparr>))"
  using assms
  by (cases ps) (auto simp: pool_inv_def Message_obtain_def Message_alloc_def Let_def
      Message_new_def recycled_def intro!: message_heap.equality message.equality)

lemma pool_inv_obtain:
  assumes inv: "pool_inv h ps" and ob: "Message_obtain h = (a, h')"
  shows "messages h' a = Message_new" "pool_inv h' (tl ps)" "a \<notin> set (tl ps)" "a < nextAddr h'"
    "\<And>b. b \<noteq> a \<Longrightarrow> messages h' b = messages h b"
proof -
  have *: "messages h' a = Message_new \<and> pool_inv h' (tl ps) \<and> a \<notin> set (tl ps) \<and> a < nextAddr h' \<and>
     (\<forall>b. b \<noteq> a \<longrightarrow> messages h' b = messages h b)"
  proof (cases ps)
    case Nil
    then show ?thesis
      using inv ob by (auto simp: Message_obtain_cases[OF inv] pool_inv_def)
  next
    case (Cons p ps')
    have "unat (poolSize h - 1) = length ps'"
      using inv Cons by (subst unat_minus_one_pos) (auto simp: pool_inv_def)
    then show ?thesis
      using inv ob Cons by (auto simp: Message_obtain_cases[OF inv] pool_inv_def)
  qed
  then show "messages h' a = Message_new" "pool_inv h' (tl ps)" "a \<notin> set (tl ps)" "a < nextAddr h'"
    "\<And>b. b \<noteq> a \<Longrightarrow> messages h' b = messages h b"
    by simp_all
qed

end
