(* ===== verification/Timed_Queue.thy ===== *)
theory Timed_Queue
  imports Prelude "HOL-Library.Multiset"
begin

text \<open>
  The interface between the message queue and its clients (handlers and the looper): a queue of
  messages with due times. The locale \<open>timed_queue\<close> states what enqueueing and dequeueing promise
  over the list of pending messages; the lemmas about delivery are proved once from these laws and
  hold for every queue that satisfies them. \<open>Message_Queue\<close> interprets the locale on the doubly
  linked list of the code.
\<close>

section \<open>Where a message goes\<close>

text \<open>The abstract queue: a list of messages, and where a message with the due time \<open>w\<close> goes.\<close>

definition insert_by_time :: "('a \<Rightarrow> uint64) \<Rightarrow> 'a \<Rightarrow> uint64 \<Rightarrow> 'a list \<Rightarrow> 'a list" where
  "insert_by_time due m w xs =
     (if w = 0 then m # xs
      else takeWhile (\<lambda>a. due a \<le> w) xs @ m # dropWhile (\<lambda>a. due a \<le> w) xs)"

lemma set_insert_by_time [simp]: "set (insert_by_time due m w xs) = insert m (set xs)"
proof -
  have "set (takeWhile P xs) \<union> set (dropWhile P xs) = set xs" for P
    by (metis set_append takeWhile_dropWhile_id)
  then show ?thesis
    by (simp add: insert_by_time_def)
qed

lemma distinct_insert_by_time [simp]:
  "distinct (insert_by_time due m w xs) \<longleftrightarrow> m \<notin> set xs \<and> distinct xs"
proof -
  have "distinct (takeWhile P xs @ m # dropWhile P xs) \<longleftrightarrow> m \<notin> set (takeWhile P xs @ dropWhile P xs) \<and>
      distinct (takeWhile P xs @ dropWhile P xs)" for P
    unfolding distinct_append set_append by auto
  then show ?thesis
    by (simp add: insert_by_time_def)
qed

lemma length_insert_by_time: "length (insert_by_time due m w xs) = Suc (length xs)"
proof -
  have "length (takeWhile P xs) + length (dropWhile P xs) = length xs" for P
    by (metis length_append takeWhile_dropWhile_id)
  then show ?thesis by (simp add: insert_by_time_def)
qed

lemma mset_insert_by_time: "mset (insert_by_time due m w xs) = add_mset m (mset xs)"
proof -
  have "mset (takeWhile P xs) + mset (dropWhile P xs) = mset xs" for P
    by (metis mset_append takeWhile_dropWhile_id)
  then show ?thesis by (simp add: insert_by_time_def)
qed

lemma insert_by_time_cong:
  assumes "\<And>a. a \<in> set xs \<Longrightarrow> due a = due' a"
  shows "insert_by_time due m w xs = insert_by_time due' m w xs"
proof -
  have "takeWhile (\<lambda>a. due a \<le> w) xs = takeWhile (\<lambda>a. due' a \<le> w) xs"
    "dropWhile (\<lambda>a. due a \<le> w) xs = dropWhile (\<lambda>a. due' a \<le> w) xs"
    using assms by (auto intro!: takeWhile_cong dropWhile_cong)
  then show ?thesis
    by (simp add: insert_by_time_def)
qed

lemma sorted_insert_by_time:
  assumes "sorted (map due xs)" "due m = w"
  shows "sorted (map due (insert_by_time due m w xs))"
  using assms
  by (auto simp: insert_by_time_def sorted_map_takeWhile_eq_filter sorted_map_dropWhile_eq_filter
      sorted_append sorted_filter)

text \<open>Position of elements: \<open>x\<close> stands before \<open>y\<close> in a list.\<close>

definition stands_before :: "'a \<Rightarrow> 'a \<Rightarrow> 'a list \<Rightarrow> bool" where
  "stands_before x y xs \<longleftrightarrow> (\<exists>as bs cs. xs = as @ x # bs @ y # cs)"

lemma stands_before_appendI: "x \<in> set xs \<Longrightarrow> y \<in> set ys \<Longrightarrow> stands_before x y (xs @ ys)"
  unfolding stands_before_def by (metis append.assoc append_Cons split_list)

lemma stands_before_append_middle:
  "stands_before x y xs \<Longrightarrow> \<exists>as bs cs. xs = as @ x # bs @ y # cs"
  by (simp add: stands_before_def)

lemma stands_before_filter: "stands_before x y xs \<Longrightarrow> P x \<Longrightarrow> P y \<Longrightarrow> stands_before x y (filter P xs)"
  unfolding stands_before_def by fastforce

lemma insert_by_time_behind_earlier:
  assumes "sorted (map due xs)" "x \<in> set xs" "due x \<le> w" "w \<noteq> 0"
  shows "stands_before x m (insert_by_time due m w xs)"
  unfolding insert_by_time_def
  using assms by (auto simp: sorted_map_takeWhile_eq_filter intro!: stands_before_appendI)

lemma insert_by_time_before_later:
  assumes "sorted (map due xs)" "x \<in> set xs" "w < due x"
  shows "stands_before m x (insert_by_time due m w xs)"
proof (cases "w = 0")
  case True
  then show ?thesis
    using assms(2) stands_before_appendI[of m "[m]" x xs] by (simp add: insert_by_time_def)
next
  case False
  have "x \<in> set (dropWhile (\<lambda>a. due a \<le> w) xs)"
    using assms by (simp add: sorted_map_dropWhile_eq_filter)
  then show ?thesis
    using False stands_before_appendI[of m "takeWhile (\<lambda>a. due a \<le> w) xs @ [m]" x
        "dropWhile (\<lambda>a. due a \<le> w) xs"]
    by (simp add: insert_by_time_def)
qed

section \<open>The interface\<close>

text \<open>Dequeue until the queue has no due message, at most \<open>n\<close> times.\<close>

fun drain_with :: "(uint64 \<Rightarrow> 's \<Rightarrow> ('m \<times> 's) option) \<Rightarrow> nat \<Rightarrow> uint64 \<Rightarrow> 's \<Rightarrow> 'm list \<times> 's" where
  "drain_with deq 0 now s = ([], s)"
| "drain_with deq (Suc n) now s =
     (case deq now s of
        None \<Rightarrow> ([], s)
      | Some (m, s') \<Rightarrow> let (ms, s'') = drain_with deq n now s' in (m # ms, s''))"

locale timed_queue =
  fixes rep :: "'s \<Rightarrow> 'm list \<Rightarrow> bool"
    and due :: "'s \<Rightarrow> 'm \<Rightarrow> uint64"
    and admits :: "'s \<Rightarrow> 'm \<Rightarrow> bool"
    and enq :: "'m \<Rightarrow> uint64 \<Rightarrow> 's \<Rightarrow> 's option"
    and deq :: "uint64 \<Rightarrow> 's \<Rightarrow> ('m \<times> 's) option"
  assumes rep_sorted: "rep s xs \<Longrightarrow> sorted (map (due s) xs)"
    and enq_rep: "rep s xs \<Longrightarrow> admits s m \<Longrightarrow>
      \<exists>s'. enq m w s = Some s' \<and> rep s' (insert_by_time (due s) m w xs) \<and> due s' = (due s)(m := w)"
    and enq_admits: "rep s xs \<Longrightarrow> admits s m \<Longrightarrow> m' \<noteq> m \<Longrightarrow> enq m w s = Some s' \<Longrightarrow> admits s' m' = admits s m'"
    and admits_fresh: "rep s xs \<Longrightarrow> admits s m \<Longrightarrow> m \<notin> set xs"
    and deq_due: "rep s (m # xs) \<Longrightarrow> due s m \<le> now \<Longrightarrow> \<exists>s'. deq now s = Some (m, s') \<and> rep s' xs \<and> due s' = due s"
    and deq_early: "rep s xs \<Longrightarrow> (\<And>m. m \<in> set xs \<Longrightarrow> now < due s m) \<Longrightarrow> deq now s = None"
begin

lemma drain_delivers_due:
  assumes "rep s xs" "length xs \<le> n"
  shows "\<exists>s'. drain_with deq n now s = (filter (\<lambda>m. due s m \<le> now) xs, s') \<and>
    rep s' (filter (\<lambda>m. now < due s m) xs) \<and> due s' = due s"
  using assms
proof (induction xs arbitrary: s n)
  case Nil
  then have "deq now s = None" by (intro deq_early[of s "[]"]) auto
  with Nil show ?case by (cases n) auto
next
  case (Cons m xs)
  then obtain k where n: "n = Suc k" "length xs \<le> k"
    by (cases n) auto
  have srt: "sorted (map (due s) (m # xs))"
    using Cons.prems(1) by (rule rep_sorted)
  show ?case
  proof (cases "due s m \<le> now")
    case True
    then obtain s1 where s1: "deq now s = Some (m, s1)" "rep s1 xs" "due s1 = due s"
      using deq_due[OF Cons.prems(1)] by blast
    with Cons.IH[OF s1(2) n(2)] True n show ?thesis by (auto simp: not_le)
  next
    case False
    then have later: "now < due s x" if "x \<in> set (m # xs)" for x
      using srt that by (auto simp: not_le intro: less_le_trans)
    then have "deq now s = None"
      using Cons.prems(1) by (intro deq_early[of s "m # xs"]) auto
    moreover have "filter (\<lambda>x. due s x \<le> now) (m # xs) = []" "filter (\<lambda>x. now < due s x) (m # xs) = m # xs"
      using later by (auto simp: filter_empty_conv not_le filter_id_conv)
    ultimately show ?thesis
      using Cons.prems(1) n by auto
  qed
qed

lemma drain_sorted:
  assumes "rep s xs" "length xs \<le> n" "drain_with deq n now s = (ms, s')"
  shows "sorted (map (due s) ms)"
  using drain_delivers_due[OF assms(1,2), of now] assms(3) rep_sorted[OF assms(1)]
  by (auto simp: sorted_filter)

text \<open>Two messages enqueued one after the other, the second due no earlier, are delivered in this order.\<close>

lemma deliver_in_order:
  assumes "rep s xs" "admits s m" "admits s m'" "m \<noteq> m'" "w \<le> w'" "w' \<noteq> 0" "w' \<le> now"
    and "enq m w s = Some s1" "enq m' w' s1 = Some s2" "length xs + 2 \<le> n"
  shows "\<exists>ms s3. drain_with deq n now s2 = (ms, s3) \<and> stands_before m m' ms"
proof -
  have s1: "rep s1 (insert_by_time (due s) m w xs)" "due s1 = (due s)(m := w)"
    using enq_rep[OF assms(1,2), of w] assms(8) by auto
  have "admits s1 m'"
    using enq_admits[OF assms(1,2) not_sym[OF assms(4)] assms(8)] assms(3) by simp
  let ?ys = "insert_by_time (due s) m w xs"
  let ?zs = "insert_by_time (due s1) m' w' ?ys"
  have s2: "rep s2 ?zs" "due s2 = (due s1)(m' := w')"
    using enq_rep[OF s1(1) \<open>admits s1 m'\<close>, of w'] assms(9) by auto
  have "stands_before m m' ?zs"
    using assms(5,6) s1(2) by (intro insert_by_time_behind_earlier rep_sorted[OF s1(1)]) auto
  then have "stands_before m m' (filter (\<lambda>x. due s2 x \<le> now) ?zs)"
    using assms(4,5,7) s1(2) s2(2) by (intro stands_before_filter) auto
  moreover have "length ?zs \<le> n"
    using assms(10) by (simp add: length_insert_by_time)
  ultimately show ?thesis
    using drain_delivers_due[OF s2(1), of n now] by blast
qed

end

end
