(* ===== verification/Message_Queue.thy ===== *)
theory Message_Queue
  imports Messages Timed_Queue
begin

text \<open>
  The message queue (\<open>src/src/mindroid/os/MessageQueue.h\<close> and
  \<open>src/src/mindroid/os/MessageQueue.cpp\<close>): a doubly linked list of messages ordered by due time.

  Every method holds the lock of the queue from its first access of a link to its return, so each
  method is one atomic change of the queue and the store. \<open>dequeueMessage\<close> releases the lock while
  it waits on the condition; it is modelled by the body of its loop, whose result says whether
  the method returns or waits, and for how long. \<open>mSignals\<close> counts the calls of
  \<open>mCondition->signal()\<close>. A loop that follows links is a partial function: \<open>None\<close> is a loop that
  does not end, and \<open>Inl Undefined\<close> a null pointer that is dereferenced. The theorems of this
  file show that neither happens on a queue that satisfies \<open>mq_inv\<close>.
\<close>

section \<open>State\<close>

record message_queue =
  mHeadMessage :: "addr option"
  mTailMessage :: "addr option"
  mQuitAllowed :: bool
  mQuitting :: bool
  mSignals :: nat

definition MessageQueue_new :: "bool \<Rightarrow> message_queue" where
  "MessageQueue_new quitAllowed =
     \<lparr>mHeadMessage = None, mTailMessage = None, mQuitAllowed = quitAllowed, mQuitting = False, mSignals = 0\<rparr>"

definition signal :: "message_queue \<Rightarrow> message_queue" where
  "signal q = q\<lparr>mSignals := mSignals q + 1\<rparr>"

section \<open>Operations\<close>

partial_function (option) recycle_chain :: "addr option \<Rightarrow> 'b message_heap \<Rightarrow> 'b message_heap option" where
  "recycle_chain curMessage h =
     (case curMessage of
        None \<Rightarrow> Some h
      | Some a \<Rightarrow> recycle_chain (nextMessage (messages h a)) (Message_recycle a h))"

definition MessageQueue_quit ::
  "message_queue \<Rightarrow> 'b message_heap \<Rightarrow> (bool \<times> message_queue \<times> 'b message_heap) option" where
  "MessageQueue_quit q h =
     (if \<not> mQuitAllowed q then Some (False, q, h)
      else if mQuitting q then Some (True, q, h)
      else Option.bind (recycle_chain (mHeadMessage q) h)
             (\<lambda>h'. Some (True, signal (q\<lparr>mQuitting := True, mHeadMessage := None, mTailMessage := None\<rparr>), h')))"

text \<open>The loop of \<open>enqueueMessage\<close>: from \<open>curMessage\<close> back to the first message that is not due later.\<close>

partial_function (option) find_position ::
  "(addr \<Rightarrow> message) \<Rightarrow> uint64 \<Rightarrow> addr \<Rightarrow> (addr \<times> addr) result option" where
  "find_position ms w curMessage =
     (case prevMessage (ms curMessage) of
        None \<Rightarrow> Some (Inl Undefined)
      | Some a \<Rightarrow> if w \<ge> whenMs (ms a) then Some (Inr (a, curMessage)) else find_position ms w a)"

definition link_head :: "addr \<Rightarrow> message_queue \<Rightarrow> 'b message_heap \<Rightarrow> message_queue \<times> 'b message_heap" where
  "link_head m q h =
     (case mHeadMessage q of
        Some oldHead \<Rightarrow>
          (q\<lparr>mHeadMessage := Some m\<rparr>,
           upd_msg m (\<lambda>x. x\<lparr>nextMessage := Some oldHead\<rparr>)
             (upd_msg oldHead (\<lambda>x. x\<lparr>prevMessage := Some m\<rparr>) h))
      | None \<Rightarrow>
          (q\<lparr>mHeadMessage := Some m, mTailMessage := Some m\<rparr>,
           upd_msg m (\<lambda>x. x\<lparr>nextMessage := None\<rparr>) h))"

definition link_tail :: "addr \<Rightarrow> addr \<Rightarrow> message_queue \<Rightarrow> 'b message_heap \<Rightarrow> message_queue \<times> 'b message_heap" where
  "link_tail tail m q h =
     (q\<lparr>mTailMessage := Some m\<rparr>,
      upd_msg tail (\<lambda>x. x\<lparr>nextMessage := Some m\<rparr>) (upd_msg m (\<lambda>x. x\<lparr>prevMessage := Some tail\<rparr>) h))"

definition link_between :: "addr \<Rightarrow> addr \<Rightarrow> addr \<Rightarrow> 'b message_heap \<Rightarrow> 'b message_heap" where
  "link_between cur next m h =
     upd_msg cur (\<lambda>x. x\<lparr>nextMessage := Some m\<rparr>)
       (upd_msg next (\<lambda>x. x\<lparr>prevMessage := Some m\<rparr>)
         (upd_msg m (\<lambda>x. x\<lparr>nextMessage := Some next, prevMessage := Some cur\<rparr>) h))"

definition MessageQueue_enqueueMessage ::
  "addr \<Rightarrow> uint64 \<Rightarrow> message_queue \<Rightarrow> 'b message_heap \<Rightarrow>
     (bool \<times> message_queue \<times> 'b message_heap) result option" where
  "MessageQueue_enqueueMessage m w q h =
     (if target (messages h m) = None then Some (Inl IllegalArgumentException)
      else if isInUse (messages h m) then Some (Inl IllegalStateException)
      else if mQuitting q then Some (Inr (False, q, Message_recycle m h))
      else
        let h0 = upd_msg m (\<lambda>x. (markInUse x)\<lparr>whenMs := w\<rparr>) h in
        if mHeadMessage q = None \<or> w = 0 \<or> w < whenMs (messages h0 (the (mHeadMessage q)))
        then let (q1, h1) = link_head m q h0 in Some (Inr (True, signal q1, h1))
        else case mTailMessage q of
          None \<Rightarrow> Some (Inl Undefined)
        | Some tail \<Rightarrow>
            if w \<ge> whenMs (messages h0 tail)
            then let (q1, h1) = link_tail tail m q h0 in Some (Inr (True, signal q1, h1))
            else Option.bind (find_position (messages h0) w tail)
              (\<lambda>r. case r of
                 Inl e \<Rightarrow> Some (Inl e)
               | Inr (cur, next) \<Rightarrow> Some (Inr (True, signal q, link_between cur next m h0))))"

text \<open>One pass of the loop of \<open>dequeueMessage\<close> at the time \<open>now\<close>.\<close>

datatype dequeue_outcome =
    Dequeue_null
  | Dequeue_message addr
  | Dequeue_await "uint64 option"

definition Integer_MAX_VALUE :: uint64 where
  "Integer_MAX_VALUE = 0x7FFFFFFF"

definition MessageQueue_dequeueMessage ::
  "uint64 \<Rightarrow> message_queue \<Rightarrow> 'b message_heap \<Rightarrow> dequeue_outcome \<times> message_queue \<times> 'b message_heap" where
  "MessageQueue_dequeueMessage now q h =
     (if mQuitting q then (Dequeue_null, q, h)
      else case mHeadMessage q of
        None \<Rightarrow> (Dequeue_await None, q, h)
      | Some m \<Rightarrow>
          if now < whenMs (messages h m)
          then (Dequeue_await (Some (min (whenMs (messages h m) - now) Integer_MAX_VALUE)), q, h)
          else
            let q1 = q\<lparr>mHeadMessage := nextMessage (messages h m)\<rparr>;
                (q2, h1) = (case mHeadMessage q1 of
                              Some n \<Rightarrow> (q1, upd_msg n (\<lambda>x. x\<lparr>prevMessage := None\<rparr>) h)
                            | None \<Rightarrow> (q1\<lparr>mTailMessage := None\<rparr>, h))
            in (Dequeue_message m, q2, upd_msg m (\<lambda>x. x\<lparr>prevMessage := None, nextMessage := None\<rparr>) h1))"

definition match_what :: "ref \<Rightarrow> int32 \<Rightarrow> ref option \<Rightarrow> message \<Rightarrow> bool" where
  "match_what handler w object m \<longleftrightarrow>
     target m = Some handler \<and> what m = w \<and> (object = None \<or> obj m = object)"

definition match_callback :: "ref \<Rightarrow> ref option \<Rightarrow> ref option \<Rightarrow> message \<Rightarrow> bool" where
  "match_callback handler runnable object m \<longleftrightarrow>
     target m = Some handler \<and> callback m = runnable \<and> (object = None \<or> obj m = object)"

definition match_token :: "ref \<Rightarrow> ref option \<Rightarrow> message \<Rightarrow> bool" where
  "match_token handler object m \<longleftrightarrow> target m = Some handler \<and> (object = None \<or> obj m = object)"

partial_function (option) scan_queue ::
  "(message \<Rightarrow> bool) \<Rightarrow> (addr \<Rightarrow> message) \<Rightarrow> addr option \<Rightarrow> bool option" where
  "scan_queue p ms curMessage =
     (case curMessage of
        None \<Rightarrow> Some False
      | Some a \<Rightarrow> if p (ms a) then Some True else scan_queue p ms (nextMessage (ms a)))"

definition MessageQueue_hasMessages ::
  "ref option \<Rightarrow> int32 \<Rightarrow> ref option \<Rightarrow> message_queue \<Rightarrow> 'b message_heap \<Rightarrow> bool option" where
  "MessageQueue_hasMessages handler w object q h =
     (case handler of
        None \<Rightarrow> Some False
      | Some tgt \<Rightarrow> scan_queue (match_what tgt w object) (messages h) (mHeadMessage q))"

definition MessageQueue_hasCallbacks ::
  "ref option \<Rightarrow> ref option \<Rightarrow> ref option \<Rightarrow> message_queue \<Rightarrow> 'b message_heap \<Rightarrow> bool option" where
  "MessageQueue_hasCallbacks handler runnable object q h =
     (case handler of
        None \<Rightarrow> Some False
      | Some tgt \<Rightarrow> scan_queue (match_callback tgt runnable object) (messages h) (mHeadMessage q))"

text \<open>The two loops that the three remove operations share, with the test as a parameter.\<close>

partial_function (option) remove_front ::
  "(message \<Rightarrow> bool) \<Rightarrow> addr option \<Rightarrow> bool \<Rightarrow> message_queue \<Rightarrow> 'b message_heap \<Rightarrow>
     (addr option \<times> bool \<times> message_queue \<times> 'b message_heap) option" where
  "remove_front p curMessage found q h =
     (case curMessage of
        None \<Rightarrow> Some (None, found, q, h)
      | Some a \<Rightarrow>
          if p (messages h a)
          then
            let next = nextMessage (messages h a);
                q1 = q\<lparr>mHeadMessage := next\<rparr>;
                (q2, h1) = (case next of
                              Some n \<Rightarrow> (q1, upd_msg n (\<lambda>x. x\<lparr>prevMessage := None\<rparr>) h)
                            | None \<Rightarrow> (q1\<lparr>mTailMessage := None\<rparr>, h))
            in remove_front p next True q2 (Message_recycle a h1)
          else Some (Some a, found, q, h))"

partial_function (option) remove_rest ::
  "(message \<Rightarrow> bool) \<Rightarrow> addr option \<Rightarrow> bool \<Rightarrow> message_queue \<Rightarrow> 'b message_heap \<Rightarrow>
     (bool \<times> message_queue \<times> 'b message_heap) option" where
  "remove_rest p curMessage found q h =
     (case curMessage of
        None \<Rightarrow> Some (found, q, h)
      | Some a \<Rightarrow>
          (case nextMessage (messages h a) of
             None \<Rightarrow> remove_rest p None found q h
           | Some n \<Rightarrow>
               if p (messages h n)
               then
                 let nextButOne = nextMessage (messages h n);
                     (q1, h1) = (case nextButOne of
                                   Some b \<Rightarrow> (q, upd_msg b (\<lambda>x. x\<lparr>prevMessage := Some a\<rparr>) h)
                                 | None \<Rightarrow> (q\<lparr>mTailMessage := Some a\<rparr>, h));
                     h2 = upd_msg a (\<lambda>x. x\<lparr>nextMessage := nextButOne\<rparr>) h1
                 in remove_rest p (Some a) True q1 (Message_recycle n h2)
               else remove_rest p (Some n) found q h))"

definition remove_matching ::
  "(message \<Rightarrow> bool) \<Rightarrow> message_queue \<Rightarrow> 'b message_heap \<Rightarrow> (bool \<times> message_queue \<times> 'b message_heap) option" where
  "remove_matching p q h =
     Option.bind (remove_front p (mHeadMessage q) False q h)
       (\<lambda>(cur, found, q1, h1). remove_rest p cur found q1 h1)"

definition MessageQueue_removeMessages ::
  "ref option \<Rightarrow> int32 \<Rightarrow> ref option \<Rightarrow> message_queue \<Rightarrow> 'b message_heap \<Rightarrow>
     (bool \<times> message_queue \<times> 'b message_heap) option" where
  "MessageQueue_removeMessages handler w object q h =
     (case handler of
        None \<Rightarrow> Some (False, q, h)
      | Some tgt \<Rightarrow> remove_matching (match_what tgt w object) q h)"

definition MessageQueue_removeCallbacks ::
  "ref option \<Rightarrow> ref option \<Rightarrow> ref option \<Rightarrow> message_queue \<Rightarrow> 'b message_heap \<Rightarrow>
     (bool \<times> message_queue \<times> 'b message_heap) option" where
  "MessageQueue_removeCallbacks handler runnable object q h =
     (if handler = None \<or> runnable = None then Some (False, q, h)
      else remove_matching (match_callback (the handler) runnable object) q h)"

definition MessageQueue_removeCallbacksAndMessages ::
  "ref option \<Rightarrow> ref option \<Rightarrow> message_queue \<Rightarrow> 'b message_heap \<Rightarrow>
     (bool \<times> message_queue \<times> 'b message_heap) option" where
  "MessageQueue_removeCallbacksAndMessages handler object q h =
     (case handler of
        None \<Rightarrow> Some (False, q, h)
      | Some tgt \<Rightarrow> remove_matching (match_token tgt object) q h)"

section \<open>Doubly linked segments\<close>

text \<open>
  \<open>dll_seg ms p xs n\<close>: the messages \<open>xs\<close> are linked in this order in both directions, between
  the predecessor \<open>p\<close> and the successor \<open>n\<close>.
\<close>

fun dll_seg :: "(addr \<Rightarrow> message) \<Rightarrow> addr option \<Rightarrow> addr list \<Rightarrow> addr option \<Rightarrow> bool" where
  "dll_seg ms p [] n \<longleftrightarrow> True"
| "dll_seg ms p (a # as) n \<longleftrightarrow>
     prevMessage (ms a) = p \<and> nextMessage (ms a) = hd_or as n \<and> dll_seg ms (Some a) as n"

lemma dll_seg_append [simp]:
  "dll_seg ms p (xs @ ys) n \<longleftrightarrow> dll_seg ms p xs (hd_or ys n) \<and> dll_seg ms (last_or p xs) ys n"
  by (induction xs arbitrary: p) auto

lemma dll_seg_frame [simp]:
  "a \<notin> set xs \<Longrightarrow> dll_seg (ms(a := m)) p xs n = dll_seg ms p xs n"
  by (induction xs arbitrary: p) auto

lemma dll_seg_links_cong:
  "(\<And>a. a \<in> set xs \<Longrightarrow> prevMessage (ms' a) = prevMessage (ms a) \<and> nextMessage (ms' a) = nextMessage (ms a)) \<Longrightarrow>
     dll_seg ms' p xs n = dll_seg ms p xs n"
  by (induction xs arbitrary: p) auto

section \<open>The invariant\<close>

text \<open>
  \<open>mq_inv q h xs ps\<close>: the queue \<open>q\<close> holds the messages \<open>xs\<close>, from head to tail, and the pool the
  messages \<open>ps\<close>. The list is well linked and has no cycle, its messages are marked as in use, have
  a target and are ordered by due time, the pool is disjoint from it, and a message that is not in
  use is linked to nothing. A queue that quits is empty.
\<close>

definition mq_rep :: "message_queue \<Rightarrow> (addr \<Rightarrow> message) \<Rightarrow> addr list \<Rightarrow> bool" where
  "mq_rep q ms xs \<longleftrightarrow>
     mHeadMessage q = hd_opt xs \<and> mTailMessage q = last_opt xs \<and> dll_seg ms None xs None \<and> distinct xs"

definition idle_unlinked :: "'b message_heap \<Rightarrow> bool" where
  "idle_unlinked h \<longleftrightarrow>
     (\<forall>a. \<not> isInUse (messages h a) \<longrightarrow> prevMessage (messages h a) = None \<and> nextMessage (messages h a) = None)"

definition queued_ok :: "'b message_heap \<Rightarrow> addr list \<Rightarrow> bool" where
  "queued_ok h xs \<longleftrightarrow>
     (\<forall>a \<in> set xs. isInUse (messages h a) \<and> target (messages h a) \<noteq> None \<and> a < nextAddr h) \<and>
     sorted (map (\<lambda>a. whenMs (messages h a)) xs)"

definition mq_inv :: "message_queue \<Rightarrow> 'b message_heap \<Rightarrow> addr list \<Rightarrow> addr list \<Rightarrow> bool" where
  "mq_inv q h xs ps \<longleftrightarrow>
     mq_rep q (messages h) xs \<and> pool_inv h ps \<and> set xs \<inter> set ps = {} \<and> queued_ok h xs \<and>
     idle_unlinked h \<and> (mQuitting q \<longrightarrow> xs = [])"

section \<open>Enqueueing\<close>

lemma find_position_eq:
  assumes "dll_seg ms p (as @ bs) n" "as \<noteq> []" "bs \<noteq> []"
    and "whenMs (ms (last as)) \<le> w" "\<forall>b \<in> set bs. w < whenMs (ms b)"
  shows "find_position ms w (last bs) = Some (Inr (last as, hd bs))"
  using assms
proof (induction bs arbitrary: n rule: rev_induct)
  case (snoc c bs)
  show ?case
  proof (cases "bs = []")
    case True
    with snoc.prems have "prevMessage (ms c) = Some (last as)"
      by (simp add: last_or_def)
    with True snoc.prems(4) show ?thesis
      by (simp add: find_position.simps[of ms w c])
  next
    case False
    with snoc.prems have "prevMessage (ms c) = Some (last bs)" and "w < whenMs (ms (last bs))"
      by (simp_all add: last_or_def)
    moreover have "find_position ms w (last bs) = Some (Inr (last as, hd bs))"
      using snoc.IH[of "Some c"] snoc.prems False by simp
    ultimately show ?thesis
      using False by (auto simp: find_position.simps[of ms w c])
  qed
qed simp

lemma mq_rep_link_head:
  assumes "mq_rep q (messages h) xs" "m \<notin> set xs" "prevMessage (messages h m) = None"
    and "link_head m q h = (q', h')"
  shows "mq_rep q' (messages h') (m # xs)"
  using assms by (cases xs) (auto simp: mq_rep_def link_head_def)

lemma mq_rep_link_tail:
  assumes "mq_rep q (messages h) xs" "m \<notin> set xs" "nextMessage (messages h m) = None"
    and "mTailMessage q = Some t" "link_tail t m q h = (q', h')"
  shows "mq_rep q' (messages h') (xs @ [m])"
  using assms by (cases xs rule: rev_cases) (auto simp: mq_rep_def link_tail_def)

lemma mq_rep_link_between:
  assumes "mq_rep q (messages h) (as @ bs)" "m \<notin> set (as @ bs)" "as \<noteq> []" "bs \<noteq> []"
  shows "mq_rep q (messages (link_between (last as) (hd bs) m h)) (as @ m # bs)"
proof -
  obtain as' a bs' b where "as = as' @ [a]" "bs = b # bs'"
    using assms(3,4) by (metis list.exhaust rev_exhaust)
  then show ?thesis
    using assms(1,2) by (auto simp: mq_rep_def link_between_def)
qed

text \<open>\<open>relinked A h h'\<close>: the stores differ in the links of the messages in \<open>A\<close> only.\<close>

definition unlinked :: "message \<Rightarrow> message" where
  "unlinked m = m\<lparr>prevMessage := None, nextMessage := None\<rparr>"

definition relinked :: "addr set \<Rightarrow> 'b message_heap \<Rightarrow> 'b message_heap \<Rightarrow> bool" where
  "relinked A h h' \<longleftrightarrow>
     h'\<lparr>messages := messages h\<rparr> = h \<and> (\<forall>a. a \<notin> A \<longrightarrow> messages h' a = messages h a) \<and>
     (\<forall>a. unlinked (messages h' a) = unlinked (messages h a))"

lemma unlinked_links [simp]:
  "unlinked (m\<lparr>prevMessage := p\<rparr>) = unlinked m"
  "unlinked (m\<lparr>nextMessage := n\<rparr>) = unlinked m"
  "unlinked (unlinked m) = unlinked m"
  by (simp_all add: unlinked_def)

lemma unlinked_eqD:
  assumes "unlinked m = unlinked m'"
  shows "whenMs m = whenMs m'" "isInUse m = isInUse m'" "target m = target m'" "what m = what m'"
    "callback m = callback m'" "obj m = obj m'" "result m = result m'" "data m = data m'"
proof -
  have "f (unlinked m) = f (unlinked m')" for f :: "message \<Rightarrow> 'c"
    using assms by simp
  note this[of whenMs] this[of isInUse] this[of target] this[of what] this[of callback]
    this[of obj] this[of result] this[of data]
  then show "whenMs m = whenMs m'" "isInUse m = isInUse m'" "target m = target m'" "what m = what m'"
    "callback m = callback m'" "obj m = obj m'" "result m = result m'" "data m = data m'"
    by (simp_all add: unlinked_def)
qed

lemma relinked_refl [simp]: "relinked A h h"
  by (simp add: relinked_def)

lemma relinked_upd_msg:
  "relinked A h h' \<Longrightarrow> a \<in> A \<Longrightarrow> (\<And>m. unlinked (f m) = unlinked m) \<Longrightarrow> relinked A h (upd_msg a f h')"
  by (auto simp: relinked_def upd_msg_def)

lemma relinked_fields:
  assumes "relinked A h h'"
  shows "nextAddr h' = nextAddr h" "pool h' = pool h" "poolSize h' = poolSize h"
    "poolMaxSize h' = poolMaxSize h" "cancelled h' = cancelled h" "bundles h' = bundles h"
    "nextBundle h' = nextBundle h"
    "whenMs (messages h' a) = whenMs (messages h a)" "isInUse (messages h' a) = isInUse (messages h a)"
    "target (messages h' a) = target (messages h a)" "result (messages h' a) = result (messages h a)"
proof -
  have h: "h = h'\<lparr>messages := messages h\<rparr>"
    using assms by (simp add: relinked_def)
  show "nextAddr h' = nextAddr h" "pool h' = pool h" "poolSize h' = poolSize h"
    "poolMaxSize h' = poolMaxSize h" "cancelled h' = cancelled h" "bundles h' = bundles h"
    "nextBundle h' = nextBundle h"
    by (subst h, simp)+
  have "unlinked (messages h' a) = unlinked (messages h a)"
    using assms by (simp add: relinked_def)
  then show "whenMs (messages h' a) = whenMs (messages h a)" "isInUse (messages h' a) = isInUse (messages h a)"
    "target (messages h' a) = target (messages h a)" "result (messages h' a) = result (messages h a)"
    by (rule unlinked_eqD)+
qed

lemma pool_chain_cong:
  "(\<And>a. a \<in> set ps \<Longrightarrow> ms' a = ms a) \<Longrightarrow> pool_chain ms' ps = pool_chain ms ps"
  by (induction ps) auto

lemma pool_inv_relinked:
  assumes "relinked A h h'" "A \<inter> set ps = {}" "pool_inv h ps"
  shows "pool_inv h' ps"
proof -
  have "pool_chain (messages h') ps = pool_chain (messages h) ps"
    using assms(1,2) by (intro pool_chain_cong) (auto simp: relinked_def)
  then show ?thesis
    using assms(3) by (simp add: pool_inv_def relinked_fields[OF assms(1)])
qed

lemma queued_ok_cong:
  assumes "\<And>a. a \<in> set xs \<Longrightarrow> unlinked (messages h' a) = unlinked (messages h a)" "nextAddr h' = nextAddr h"
  shows "queued_ok h' xs = queued_ok h xs"
proof -
  have "sorted (map (\<lambda>a. whenMs (messages h' a)) xs) = sorted (map (\<lambda>a. whenMs (messages h a)) xs)"
    using assms(1) by (intro sorted_map_cong) (auto dest: unlinked_eqD(1))
  moreover have "isInUse (messages h' a) = isInUse (messages h a) \<and> target (messages h' a) = target (messages h a)"
    if "a \<in> set xs" for a
    using unlinked_eqD(2,3)[OF assms(1)[OF that]] by simp
  ultimately show ?thesis
    using assms(2) unfolding queued_ok_def by simp
qed

lemma queued_ok_relinked: "relinked A h h' \<Longrightarrow> queued_ok h' xs = queued_ok h xs"
  by (rule queued_ok_cong) (simp add: relinked_def, erule relinked_fields(1))

lemma idle_unlinked_relinked:
  assumes "relinked A h h'" "\<forall>a \<in> A. isInUse (messages h a)" "idle_unlinked h"
  shows "idle_unlinked h'"
  unfolding idle_unlinked_def
proof (intro allI impI)
  fix a
  assume "\<not> isInUse (messages h' a)"
  then have "a \<notin> A" and idle: "\<not> isInUse (messages h a)"
    using assms(1,2) by (auto simp: relinked_fields)
  then have "messages h' a = messages h a"
    using assms(1) by (simp add: relinked_def)
  then show "prevMessage (messages h' a) = None \<and> nextMessage (messages h' a) = None"
    using assms(3) idle by (simp add: idle_unlinked_def)
qed

lemma relinked_link_ops:
  "m \<in> A \<Longrightarrow> (\<And>a. mHeadMessage q = Some a \<Longrightarrow> a \<in> A) \<Longrightarrow> link_head m q h = (q', h') \<Longrightarrow> relinked A h h'"
  "m \<in> A \<Longrightarrow> t \<in> A \<Longrightarrow> link_tail t m q h = (q', h') \<Longrightarrow> relinked A h h'"
  "m \<in> A \<Longrightarrow> c \<in> A \<Longrightarrow> n \<in> A \<Longrightarrow> relinked A h (link_between c n m h)"
  by (auto simp: link_head_def link_tail_def link_between_def split: option.splits
      intro!: relinked_upd_msg)


text \<open>
  What \<open>enqueueMessage\<close> does to a queue that accepts the message, up to where the message goes:
  \<open>enqueue_gives q h m w xs ys\<close> says that the list \<open>xs\<close> becomes \<open>ys\<close>.
\<close>

abbreviation stamped :: "addr \<Rightarrow> uint64 \<Rightarrow> 'b message_heap \<Rightarrow> 'b message_heap" where
  "stamped m w h \<equiv> upd_msg m (\<lambda>x. (markInUse x)\<lparr>whenMs := w\<rparr>) h"

definition enqueue_gives ::
  "message_queue \<Rightarrow> 'b message_heap \<Rightarrow> addr \<Rightarrow> uint64 \<Rightarrow> addr list \<Rightarrow> addr list \<Rightarrow> bool" where
  "enqueue_gives q h m w xs ys \<longleftrightarrow>
     (\<exists>q' h'. MessageQueue_enqueueMessage m w q h = Some (Inr (True, signal q', h')) \<and>
        mq_rep q' (messages h') ys \<and> mQuitting q' = mQuitting q \<and> mQuitAllowed q' = mQuitAllowed q \<and>
        mSignals q' = mSignals q \<and> relinked (insert m (set xs)) (stamped m w h) h')"

definition accepts :: "message_queue \<Rightarrow> 'b message_heap \<Rightarrow> addr list \<Rightarrow> addr \<Rightarrow> bool" where
  "accepts q h xs m \<longleftrightarrow>
     mq_rep q (messages h) xs \<and> m \<notin> set xs \<and> target (messages h m) \<noteq> None \<and>
     \<not> isInUse (messages h m) \<and> prevMessage (messages h m) = None \<and>
     nextMessage (messages h m) = None \<and> \<not> mQuitting q"

lemma accepts_rep:
  assumes "accepts q h xs m"
  shows "mq_rep q (messages h) xs" "mq_rep q (messages (stamped m w h)) xs"
    "a \<in> set xs \<Longrightarrow> whenMs (messages (stamped m w h) a) = whenMs (messages h a)"
    "xs \<noteq> [] \<Longrightarrow> mTailMessage q = Some (last xs)" "xs \<noteq> [] \<Longrightarrow> mHeadMessage q = Some (hd xs)"
  using assms by (auto simp: accepts_def mq_rep_def hd_last_opt_nonempty)

lemma enqueue_head:
  assumes ac: "accepts q h xs m" and head: "xs = [] \<or> w = 0 \<or> w < whenMs (messages h (hd xs))"
  shows "enqueue_gives q h m w xs (m # xs)"
proof -
  obtain q' h' where l: "link_head m q (stamped m w h) = (q', h')"
    by fastforce
  have "mq_rep q' (messages h') (m # xs)"
    using l ac by (intro mq_rep_link_head[OF accepts_rep(2)[OF ac]]) (auto simp: accepts_def)
  moreover have "relinked (insert m (set xs)) (stamped m w h) h'"
    using l accepts_rep(1)[OF ac] by (intro relinked_link_ops(1)) (auto simp: mq_rep_def hd_opt_mem)
  moreover have "MessageQueue_enqueueMessage m w q h = Some (Inr (True, signal q', h'))"
    using head l ac by (cases xs) (auto simp: MessageQueue_enqueueMessage_def accepts_def mq_rep_def)
  ultimately show ?thesis
    using l by (auto simp: enqueue_gives_def link_head_def split: option.splits)
qed

lemma enqueue_tail:
  assumes ac: "accepts q h xs m" and tail: "xs \<noteq> []" "w \<noteq> 0" "whenMs (messages h (hd xs)) \<le> w"
    "whenMs (messages h (last xs)) \<le> w"
  shows "enqueue_gives q h m w xs (xs @ [m])"
proof -
  obtain q' h' where l: "link_tail (last xs) m q (stamped m w h) = (q', h')"
    by fastforce
  note t = accepts_rep(4,5)[OF ac tail(1)]
  have "mq_rep q' (messages h') (xs @ [m])"
    using l ac t by (intro mq_rep_link_tail[OF accepts_rep(2)[OF ac]]) (auto simp: accepts_def)
  moreover have "relinked (insert m (set xs)) (stamped m w h) h'"
    using l tail(1) by (intro relinked_link_ops(2)) auto
  moreover have "MessageQueue_enqueueMessage m w q h = Some (Inr (True, signal q', h'))"
    using tail l t ac accepts_rep(3)[OF ac]
    by (auto simp: MessageQueue_enqueueMessage_def accepts_def Let_def)
  ultimately show ?thesis
    using l by (auto simp: enqueue_gives_def link_tail_def)
qed

lemma enqueue_mid:
  assumes ac: "accepts q h (as @ bs) m" and mid: "as \<noteq> []" "bs \<noteq> []" "w \<noteq> 0"
    "whenMs (messages h (hd as)) \<le> w" "whenMs (messages h (last as)) \<le> w"
    "\<forall>b \<in> set bs. w < whenMs (messages h b)"
  shows "enqueue_gives q h m w (as @ bs) (as @ m # bs)"
proof -
  let ?h0 = "stamped m w h" and ?h' = "link_between (last as) (hd bs) m (stamped m w h)"
  have t: "mTailMessage q = Some (last bs)" "mHeadMessage q = Some (hd as)"
    using accepts_rep(4,5)[OF ac] mid(1,2) by auto
  have last: "w < whenMs (messages h (last bs))"
    using mid(2,6) by simp
  note due = accepts_rep(3)[OF ac]
  have "dll_seg (messages ?h0) None (as @ bs) None"
    using accepts_rep(2)[OF ac] by (simp only: mq_rep_def)
  then have "find_position (messages ?h0) w (last bs) = Some (Inr (last as, hd bs))"
    using mid due by (intro find_position_eq) auto
  then have "MessageQueue_enqueueMessage m w q h = Some (Inr (True, signal q, ?h'))"
    using mid(1-5) t ac due last
    by (auto simp: MessageQueue_enqueueMessage_def accepts_def Let_def)
  moreover have "mq_rep q (messages ?h') (as @ m # bs)"
    using accepts_rep(2)[OF ac] ac mid by (intro mq_rep_link_between) (auto simp: accepts_def)
  moreover have "relinked (insert m (set (as @ bs))) ?h0 ?h'"
    using mid by (intro relinked_link_ops(3)) auto
  ultimately show ?thesis
    by (auto simp: enqueue_gives_def)
qed

lemma enqueue_gives_insert_by_time:
  assumes ac: "accepts q h xs m" and srt: "sorted (map (\<lambda>a. whenMs (messages h a)) xs)"
  shows "enqueue_gives q h m w xs (insert_by_time (\<lambda>a. whenMs (messages h a)) m w xs)"
proof -
  let ?due = "\<lambda>a. whenMs (messages h a)"
  let ?as = "takeWhile (\<lambda>a. ?due a \<le> w) xs" and ?bs = "dropWhile (\<lambda>a. ?due a \<le> w) xs"
  consider (head) "xs = [] \<or> w = 0 \<or> w < ?due (hd xs)"
    | (tail) "xs \<noteq> []" "w \<noteq> 0" "?due (hd xs) \<le> w" "?due (last xs) \<le> w"
    | (mid) "xs \<noteq> []" "w \<noteq> 0" "?due (hd xs) \<le> w" "w < ?due (last xs)"
    by force
  then show ?thesis
  proof cases
    case head
    then have "insert_by_time ?due m w xs = m # xs"
      by (cases xs) (auto simp: insert_by_time_def)
    then show ?thesis using enqueue_head[OF ac head] by simp
  next
    case tail
    have "\<forall>a \<in> set xs. ?due a \<le> w"
      using sorted_map_le_last[OF srt] tail(4) by (blast intro: order_trans)
    then have "insert_by_time ?due m w xs = xs @ [m]"
      using tail(2) by (simp add: insert_by_time_def)
    then show ?thesis using enqueue_tail[OF ac tail] by simp
  next
    case mid
    have ne: "?as \<noteq> []" "?bs \<noteq> []"
      using mid by (auto simp: takeWhile_eq_Nil_iff dropWhile_eq_Nil_conv not_le)
    moreover have "?due (last ?as) \<le> w" "\<forall>b \<in> set ?bs. w < ?due b"
      using srt ne by (simp_all add: sorted_map_dropWhile_eq_filter)
        (metis last_in_set set_takeWhileD)
    moreover have "?due (hd ?as) \<le> w"
      using ne(1) by (metis hd_in_set set_takeWhileD)
    ultimately have "enqueue_gives q h m w (?as @ ?bs) (?as @ m # ?bs)"
      using ac mid(2) by (intro enqueue_mid) simp_all
    then show ?thesis using mid(2) by (simp add: insert_by_time_def)
  qed
qed

lemma mq_inv_accepts:
  "mq_inv q h xs ps \<Longrightarrow> target (messages h m) \<noteq> None \<Longrightarrow> \<not> isInUse (messages h m) \<Longrightarrow> \<not> mQuitting q \<Longrightarrow>
     accepts q h xs m \<and> m \<notin> set ps"
  by (auto simp: mq_inv_def accepts_def queued_ok_def idle_unlinked_def pool_inv_def
      dest: pool_chain_recycled)

lemma queued_ok_stamped:
  assumes "queued_ok h xs" "m \<notin> set xs" "target (messages h m) \<noteq> None" "m < nextAddr h"
  shows "queued_ok (stamped m w h) (insert_by_time (\<lambda>a. whenMs (messages h a)) m w xs)"
proof -
  let ?due = "\<lambda>a. whenMs (messages (stamped m w h) a)"
  have eq: "map ?due xs = map (\<lambda>a. whenMs (messages h a)) xs"
    using assms(2) by auto
  then have "sorted (map ?due xs)"
    using assms(1) by (simp only: queued_ok_def)
  then have "sorted (map ?due (insert_by_time ?due m w xs))"
    by (rule sorted_insert_by_time) simp
  moreover have "insert_by_time (\<lambda>a. whenMs (messages h a)) m w xs = insert_by_time ?due m w xs"
    using assms(2) by (intro insert_by_time_cong) auto
  ultimately show ?thesis
    using assms by (auto simp: queued_ok_def)
qed

lemma enqueueMessage_inv:
  assumes inv: "mq_inv q h xs ps"
    and m: "target (messages h m) \<noteq> None" "\<not> isInUse (messages h m)" "m < nextAddr h"
    and "\<not> mQuitting q"
  shows "\<exists>q' h'. MessageQueue_enqueueMessage m w q h = Some (Inr (True, q', h')) \<and>
    mq_inv q' h' (insert_by_time (\<lambda>a. whenMs (messages h a)) m w xs) ps \<and>
    mSignals q' = mSignals q + 1 \<and> mQuitting q' = mQuitting q \<and> mQuitAllowed q' = mQuitAllowed q \<and>
    relinked (insert m (set xs)) (stamped m w h) h'"
proof -
  let ?due = "\<lambda>a. whenMs (messages h a)" and ?h0 = "stamped m w h"
  let ?ys = "insert_by_time ?due m w xs"
  have ac: "accepts q h xs m" and mps: "m \<notin> set ps"
    using mq_inv_accepts[OF inv m(1,2) assms(5)] by auto
  then have mxs: "m \<notin> set xs" by (simp add: accepts_def)
  have "sorted (map ?due xs)" using inv by (simp add: mq_inv_def queued_ok_def)
  from enqueue_gives_insert_by_time[OF ac this, of w] obtain q' h' where
    call: "MessageQueue_enqueueMessage m w q h = Some (Inr (True, signal q', h'))" and
    rep: "mq_rep q' (messages h') ?ys" and
    fr: "mQuitting q' = mQuitting q" "mQuitAllowed q' = mQuitAllowed q" "mSignals q' = mSignals q" and
    rl: "relinked (insert m (set xs)) ?h0 h'"
    by (auto simp: enqueue_gives_def)
  have "queued_ok ?h0 ?ys"
    using inv m mxs by (intro queued_ok_stamped) (auto simp: mq_inv_def)
  moreover have "idle_unlinked ?h0" "pool_inv ?h0 ps"
    using inv mps by (auto simp: mq_inv_def idle_unlinked_def pool_inv_def)
  moreover have "\<forall>a \<in> insert m (set xs). isInUse (messages ?h0 a)"
    using inv by (auto simp: mq_inv_def queued_ok_def)
  ultimately have "mq_inv (signal q') h' ?ys ps"
    using rep rl fr mps inv assms(5)
    by (auto simp: mq_inv_def mq_rep_def signal_def queued_ok_relinked
        intro: pool_inv_relinked idle_unlinked_relinked)
  then show ?thesis
    using call fr rl by (auto simp: signal_def)
qed

section \<open>Dequeueing\<close>

lemma dequeueMessage_take:
  assumes inv: "mq_inv q h (m # xs) ps" and due: "whenMs (messages h m) \<le> now"
  shows "\<exists>q' h'. MessageQueue_dequeueMessage now q h = (Dequeue_message m, q', h') \<and>
    mq_inv q' h' xs ps \<and> messages h' m = unlinked (messages h m) \<and> relinked (set (m # xs)) h h' \<and>
    mSignals q' = mSignals q \<and> mQuitting q' = mQuitting q \<and> mQuitAllowed q' = mQuitAllowed q"
proof -
  have h: "mHeadMessage q = Some m" "\<not> mQuitting q" "\<not> now < whenMs (messages h m)"
    using inv due by (auto simp: mq_inv_def mq_rep_def)
  obtain q' h' where call: "MessageQueue_dequeueMessage now q h = (Dequeue_message m, q', h')"
    using h by (fastforce simp: MessageQueue_dequeueMessage_def Let_def split: option.splits)
  then have m: "messages h' m = unlinked (messages h m)" and rep: "mq_rep q' (messages h') xs"
    and fr: "mSignals q' = mSignals q" "mQuitting q' = mQuitting q" "mQuitAllowed q' = mQuitAllowed q"
    and rl: "relinked (set (m # xs)) h h'"
    using inv h by (cases xs; auto simp: MessageQueue_dequeueMessage_def mq_inv_def mq_rep_def Let_def
        unlinked_def intro!: relinked_upd_msg)+
  have "queued_ok h xs" "\<forall>a \<in> set (m # xs). isInUse (messages h a)"
    using inv by (auto simp: mq_inv_def queued_ok_def)
  then have "mq_inv q' h' xs ps"
    using inv rep rl fr
    by (auto simp: mq_inv_def queued_ok_relinked[OF rl] intro: pool_inv_relinked idle_unlinked_relinked)
  then show ?thesis
    using call m rl fr by blast
qed

section \<open>Removing\<close>

text \<open>
  \<open>trimmed A R h h'\<close>: the messages \<open>R\<close> were recycled, in this order; of the other messages only
  links changed, and only in \<open>A\<close>.
\<close>

definition results_of :: "'b message_heap \<Rightarrow> addr list \<Rightarrow> ref list" where
  "results_of h as = List.map_filter (\<lambda>a. result (messages h a)) as"

definition trimmed :: "addr set \<Rightarrow> addr list \<Rightarrow> 'b message_heap \<Rightarrow> 'b message_heap \<Rightarrow> bool" where
  "trimmed A R h h' \<longleftrightarrow>
     (\<forall>a. a \<notin> A \<longrightarrow> messages h' a = messages h a) \<and>
     (\<forall>a. a \<notin> set R \<longrightarrow> unlinked (messages h' a) = unlinked (messages h a)) \<and>
     (\<forall>a \<in> set R. \<exists>p. messages h' a = recycled p) \<and>
     nextAddr h' = nextAddr h \<and> poolMaxSize h' = poolMaxSize h \<and>
     cancelled h' = cancelled h @ results_of h R"

lemma results_of_simps [simp]:
  "results_of h [] = []"
  "results_of h (a # as) = (case result (messages h a) of None \<Rightarrow> [] | Some r \<Rightarrow> [r]) @ results_of h as"
  "results_of h (as @ bs) = results_of h as @ results_of h bs"
  by (induction as) (auto simp: results_of_def map_filter_def split: option.splits)

lemma results_of_cong:
  "(\<And>a. a \<in> set as \<Longrightarrow> unlinked (messages h' a) = unlinked (messages h a)) \<Longrightarrow> results_of h' as = results_of h as"
  by (induction as) (simp_all add: unlinked_eqD(7)[of "messages h' a" "messages h a" for a])

lemma trimmed_refl [simp]: "trimmed A [] h h"
  by (simp add: trimmed_def)

lemma trimmed_trans:
  assumes "trimmed A R h h1" "trimmed A' R' h1 h2" "A' \<subseteq> A" "A' \<inter> set R = {}" "set R' \<subseteq> A'"
  shows "trimmed A (R @ R') h h2"
proof -
  have "results_of h1 R' = results_of h R'"
    using assms by (intro results_of_cong) (auto simp: trimmed_def)
  moreover have "messages h2 a = messages h1 a" if "a \<in> set R" for a
    using assms that by (auto simp: trimmed_def)
  ultimately show ?thesis
    using assms by (auto simp: trimmed_def)
qed

lemma recycle_unlinked_inv:
  assumes inv: "mq_inv q h xs ps" and rl: "relinked (set xs) h h1" and rep: "mq_rep q1 (messages h1) ys"
    and ys: "set ys \<subseteq> set xs" "queued_ok h ys" and a: "a \<in> set xs" "a \<notin> set ys"
    and quitting: "mQuitting q1 = mQuitting q"
  shows "\<exists>ps'. mq_inv q1 (Message_recycle a h1) ys ps' \<and> set ps' \<subseteq> insert a (set ps) \<and>
    trimmed (set xs) [a] h (Message_recycle a h1)"
proof -
  let ?h = "Message_recycle a h1" and ?ps = "if poolSize h1 < poolMaxSize h1 then a # ps else ps"
  have "pool_inv h1 ps"
    using inv rl by (auto simp: mq_inv_def intro: pool_inv_relinked)
  then have "pool_inv ?h ?ps"
    using inv a rl by (intro pool_inv_recycle) (auto simp: mq_inv_def queued_ok_def relinked_fields)
  moreover have "mq_rep q1 (messages ?h) ys"
    using rep a(2) by (simp add: mq_rep_def Message_recycle_alt)
  moreover have "queued_ok ?h ys"
  proof -
    have "queued_ok ?h ys = queued_ok h1 ys"
      using a(2) by (intro queued_ok_cong) (auto simp: Message_recycle_alt)
    then show ?thesis using ys(2) by (simp add: queued_ok_relinked[OF rl])
  qed
  moreover have "idle_unlinked h1"
    using inv rl by (auto simp: mq_inv_def queued_ok_def intro: idle_unlinked_relinked)
  then have "idle_unlinked ?h"
    by (auto simp: idle_unlinked_def Message_recycle_alt)
  ultimately have "mq_inv q1 ?h ys ?ps"
    using inv ys(1) a quitting by (auto simp: mq_inv_def)
  moreover have "trimmed (set xs) [a] h ?h"
    using rl a(1) relinked_fields[OF rl]
    by (auto simp: trimmed_def relinked_def Message_recycle_alt)
  ultimately show ?thesis by (intro exI[of _ ?ps]) auto
qed


lemma trimmed_recycle: "a \<in> A \<Longrightarrow> trimmed A [a] h (Message_recycle a h)"
  by (auto simp: trimmed_def Message_recycle_alt)

lemma recycle_chain_inv:
  assumes "dll_seg (messages h) p xs None" "distinct xs" "pool_inv h ps" "set xs \<inter> set ps = {}"
    "idle_unlinked h" "\<forall>a \<in> set xs. a < nextAddr h"
  shows "\<exists>h' ps'. recycle_chain (hd_opt xs) h = Some h' \<and> pool_inv h' ps' \<and> idle_unlinked h' \<and>
    trimmed (set xs) xs h h'"
  using assms
proof (induction xs arbitrary: p h ps)
  case Nil
  then show ?case by (auto simp: recycle_chain.simps intro!: exI)
next
  case (Cons a xs)
  let ?h = "Message_recycle a h" and ?ps = "if poolSize h < poolMaxSize h then a # ps else ps"
  have "dll_seg (messages ?h) (Some a) xs None" "idle_unlinked ?h"
    using Cons.prems by (auto simp: Message_recycle_alt idle_unlinked_def)
  moreover have "pool_inv ?h ?ps"
    using Cons.prems by (intro pool_inv_recycle) auto
  moreover have "set xs \<inter> set ?ps = {}"
    using Cons.prems by auto
  ultimately obtain h' ps' where h': "recycle_chain (hd_opt xs) ?h = Some h'" "pool_inv h' ps'"
    "idle_unlinked h'" "trimmed (set xs) xs ?h h'"
    using Cons.IH[of ?h "Some a" ?ps] Cons.prems by auto
  have "trimmed (set (a # xs)) ([a] @ xs) h h'"
    using Cons.prems(2) by (intro trimmed_trans[OF trimmed_recycle h'(4)]) auto
  moreover have "recycle_chain (hd_opt (a # xs)) h = Some h'"
    using Cons.prems(1) h'(1) by (subst recycle_chain.simps) simp
  ultimately show ?case
    using h' by auto
qed

lemma quit_inv:
  assumes inv: "mq_inv q h xs ps" and "mQuitAllowed q"
  shows "\<exists>q' h' ps'. MessageQueue_quit q h = Some (True, q', h') \<and> mq_inv q' h' [] ps' \<and> mQuitting q' \<and>
    trimmed (set xs) xs h h' \<and> (\<not> mQuitting q \<longrightarrow> mSignals q' = mSignals q + 1)"
proof (cases "mQuitting q")
  case True
  then show ?thesis
    using assms by (auto simp: MessageQueue_quit_def mq_inv_def intro!: exI)
next
  case False
  obtain h' ps' where h': "recycle_chain (hd_opt xs) h = Some h'" "pool_inv h' ps'" "idle_unlinked h'"
    "trimmed (set xs) xs h h'"
    using recycle_chain_inv[of h None xs ps] inv by (auto simp: mq_inv_def mq_rep_def queued_ok_def)
  then have "mq_inv (signal (q\<lparr>mQuitting := True, mHeadMessage := None, mTailMessage := None\<rparr>)) h' [] ps'"
    by (auto simp: mq_inv_def mq_rep_def queued_ok_def signal_def)
  then show ?thesis
    using h' assms False by (auto simp: MessageQueue_quit_def signal_def mq_inv_def mq_rep_def intro!: exI)
qed

text \<open>The test of a remove operation reads no link.\<close>

definition reads_no_link :: "(message \<Rightarrow> bool) \<Rightarrow> bool" where
  "reads_no_link p \<longleftrightarrow> (\<forall>m. p (unlinked m) = p m)"

lemma match_reads_no_link [simp]:
  "reads_no_link (match_what t w ob)" "reads_no_link (match_callback t r ob)" "reads_no_link (match_token t ob)"
  by (simp_all add: reads_no_link_def match_what_def match_callback_def match_token_def unlinked_def)

lemma reads_no_link_cong:
  "reads_no_link p \<Longrightarrow> unlinked m = unlinked m' \<Longrightarrow> p m = p m'"
  unfolding reads_no_link_def by metis

lemma scan_queue_eq:
  "dll_seg ms pr xs None \<Longrightarrow> scan_queue p ms (hd_opt xs) = Some (\<exists>a \<in> set xs. p (ms a))"
  by (induction xs arbitrary: pr) (auto simp: scan_queue.simps[of p ms "Some _"] scan_queue.simps[of p ms None])


lemma queued_ok_filter: "queued_ok h xs \<Longrightarrow> queued_ok h (filter P xs)"
  by (auto simp: queued_ok_def sorted_filter)

lemma queued_ok_append: "queued_ok h (xs @ ys) \<Longrightarrow> queued_ok h xs \<and> queued_ok h ys"
  by (auto simp: queued_ok_def sorted_append)

lemma queued_ok_remove_mid: "queued_ok h (xs @ y # ys) \<Longrightarrow> queued_ok h (xs @ ys)"
  by (auto simp: queued_ok_def sorted_append)

text \<open>The state after one turn of each loop: the head, or the message after \<open>a\<close>, is unlinked.\<close>

lemma unlink_front_inv:
  assumes inv: "mq_inv q h (a # xs) ps"
    and unlink: "(case hd_opt xs of
        Some n \<Rightarrow> (q\<lparr>mHeadMessage := hd_opt xs\<rparr>, upd_msg n (\<lambda>x. x\<lparr>prevMessage := None\<rparr>) h)
      | None \<Rightarrow> (q\<lparr>mHeadMessage := hd_opt xs, mTailMessage := None\<rparr>, h)) = (q1, h1)"
  shows "\<exists>ps'. mq_inv q1 (Message_recycle a h1) xs ps' \<and> trimmed (set (a # xs)) [a] h (Message_recycle a h1) \<and>
    mSignals q1 = mSignals q \<and> mQuitting q1 = mQuitting q \<and> mQuitAllowed q1 = mQuitAllowed q"
proof -
  have fr: "mSignals q1 = mSignals q" "mQuitting q1 = mQuitting q" "mQuitAllowed q1 = mQuitAllowed q"
    using unlink by (auto split: option.splits)
  have "relinked (set (a # xs)) h h1" "mq_rep q1 (messages h1) xs"
    using inv unlink by (cases xs; auto simp: mq_inv_def mq_rep_def intro!: relinked_upd_msg)+
  moreover have "queued_ok h xs" "a \<notin> set xs"
    using inv by (auto simp: mq_inv_def queued_ok_def mq_rep_def)
  ultimately show ?thesis
    using recycle_unlinked_inv[OF inv, of h1 q1 xs a] fr by auto
qed

lemma unlink_next_inv:
  assumes inv: "mq_inv q h (as @ a # n # bs) ps"
    and unlink: "(case hd_opt bs of
        Some b \<Rightarrow> (q, upd_msg b (\<lambda>x. x\<lparr>prevMessage := Some a\<rparr>) h)
      | None \<Rightarrow> (q\<lparr>mTailMessage := Some a\<rparr>, h)) = (q1, h1)"
    and h2: "h2 = Message_recycle n (upd_msg a (\<lambda>x. x\<lparr>nextMessage := hd_opt bs\<rparr>) h1)"
  shows "\<exists>ps'. mq_inv q1 h2 (as @ a # bs) ps' \<and> trimmed (set (as @ a # n # bs)) [n] h h2 \<and>
    mSignals q1 = mSignals q \<and> mQuitting q1 = mQuitting q \<and> mQuitAllowed q1 = mQuitAllowed q"
proof -
  let ?h = "upd_msg a (\<lambda>x. x\<lparr>nextMessage := hd_opt bs\<rparr>) h1"
  have fr: "mSignals q1 = mSignals q" "mQuitting q1 = mQuitting q" "mQuitAllowed q1 = mQuitAllowed q"
    using unlink by (auto split: option.splits)
  have "relinked (set (as @ a # n # bs)) h ?h" "mq_rep q1 (messages ?h) (as @ a # bs)"
    using inv unlink by (cases bs; auto simp: mq_inv_def mq_rep_def intro!: relinked_upd_msg)+
  moreover have "queued_ok h (as @ a # bs)" "n \<notin> set (as @ a # bs)"
    using inv queued_ok_remove_mid[of h "as @ [a]" n bs] by (auto simp: mq_inv_def mq_rep_def)
  ultimately show ?thesis
    using recycle_unlinked_inv[OF inv, of ?h q1 "as @ a # bs" n] fr h2 by auto
qed

lemma trimmed_filter:
  assumes "trimmed A R h h'" "reads_no_link p" "set xs \<inter> set R = {}"
  shows "filter (\<lambda>b. p (messages h' b)) xs = filter (\<lambda>b. p (messages h b)) xs"
    "filter (\<lambda>b. \<not> p (messages h' b)) xs = filter (\<lambda>b. \<not> p (messages h b)) xs"
    "(\<exists>b \<in> set xs. p (messages h' b)) = (\<exists>b \<in> set xs. p (messages h b))"
proof -
  have "p (messages h' b) = p (messages h b)" if "b \<in> set xs" for b
    using assms that by (intro reads_no_link_cong) (auto simp: trimmed_def)
  then show "filter (\<lambda>b. p (messages h' b)) xs = filter (\<lambda>b. p (messages h b)) xs"
    "filter (\<lambda>b. \<not> p (messages h' b)) xs = filter (\<lambda>b. \<not> p (messages h b)) xs"
    "(\<exists>b \<in> set xs. p (messages h' b)) = (\<exists>b \<in> set xs. p (messages h b))"
    by (auto intro: filter_cong)
qed

lemma remove_front_inv:
  assumes "mq_inv q h xs ps" "reads_no_link p"
  shows "\<exists>q' h' ps'. remove_front p (hd_opt xs) f q h =
      Some (hd_opt (dropWhile (\<lambda>b. p (messages h b)) xs), f \<or> takeWhile (\<lambda>b. p (messages h b)) xs \<noteq> [], q', h') \<and>
    mq_inv q' h' (dropWhile (\<lambda>b. p (messages h b)) xs) ps' \<and>
    trimmed (set xs) (takeWhile (\<lambda>b. p (messages h b)) xs) h h' \<and>
    mSignals q' = mSignals q \<and> mQuitting q' = mQuitting q \<and> mQuitAllowed q' = mQuitAllowed q"
  using assms
proof (induction xs arbitrary: q h ps f)
  case Nil
  then show ?case by (subst remove_front.simps) auto
next
  case (Cons a xs)
  have nx: "nextMessage (messages h a) = hd_opt xs"
    using Cons.prems(1) by (simp add: mq_inv_def mq_rep_def)
  show ?case
  proof (cases "p (messages h a)")
    case False
    with Cons.prems(1) show ?thesis by (subst remove_front.simps) auto
  next
    case True
    obtain q1 h1 where un: "(case hd_opt xs of
        Some n \<Rightarrow> (q\<lparr>mHeadMessage := hd_opt xs\<rparr>, upd_msg n (\<lambda>x. x\<lparr>prevMessage := None\<rparr>) h)
      | None \<Rightarrow> (q\<lparr>mHeadMessage := hd_opt xs, mTailMessage := None\<rparr>, h)) = (q1, h1)"
      by fastforce
    let ?h2 = "Message_recycle a h1"
    obtain ps1 where st: "mq_inv q1 ?h2 xs ps1" "trimmed (set (a # xs)) [a] h ?h2"
      "mSignals q1 = mSignals q" "mQuitting q1 = mQuitting q" "mQuitAllowed q1 = mQuitAllowed q"
      using unlink_front_inv[OF Cons.prems(1) un] by blast
    have "a \<notin> set xs"
      using Cons.prems(1) by (simp add: mq_inv_def mq_rep_def)
    then have pe: "p (messages ?h2 b) = p (messages h b)" if "b \<in> set xs" for b
      using st(2) that reads_no_link_cong[OF Cons.prems(2)] unfolding trimmed_def
      by (metis empty_iff list.set(1) set_ConsD)
    have tw: "takeWhile (\<lambda>b. p (messages ?h2 b)) xs = takeWhile (\<lambda>b. p (messages h b)) xs"
      "dropWhile (\<lambda>b. p (messages ?h2 b)) xs = dropWhile (\<lambda>b. p (messages h b)) xs"
      by (auto intro!: takeWhile_cong dropWhile_cong simp: pe)
    obtain q' h' ps' where r: "remove_front p (hd_opt xs) True q1 ?h2 =
        Some (hd_opt (dropWhile (\<lambda>b. p (messages h b)) xs), True, q', h')"
      "mq_inv q' h' (dropWhile (\<lambda>b. p (messages h b)) xs) ps'"
      "trimmed (set xs) (takeWhile (\<lambda>b. p (messages h b)) xs) ?h2 h'"
      "mSignals q' = mSignals q1" "mQuitting q' = mQuitting q1" "mQuitAllowed q' = mQuitAllowed q1"
      using Cons.IH[OF st(1) Cons.prems(2), of True] unfolding tw by auto
    have "remove_front p (hd_opt (a # xs)) f q h = remove_front p (hd_opt xs) True q1 ?h2"
      using True un nx by (subst remove_front.simps) (simp add: Let_def split: prod.splits)
    moreover have "trimmed (set (a # xs)) ([a] @ takeWhile (\<lambda>b. p (messages h b)) xs) h h'"
      using \<open>a \<notin> set xs\<close> by (intro trimmed_trans[OF st(2) r(3)]) (auto dest: set_takeWhileD)
    ultimately show ?thesis
      using True r st(3-5) by auto
  qed
qed

lemma remove_rest_inv:
  assumes "mq_inv q h (as @ a # bs) ps" "reads_no_link p"
  shows "\<exists>q' h' ps'. remove_rest p (Some a) f q h = Some (f \<or> (\<exists>b \<in> set bs. p (messages h b)), q', h') \<and>
    mq_inv q' h' (as @ a # filter (\<lambda>b. \<not> p (messages h b)) bs) ps' \<and>
    trimmed (set (as @ a # bs)) (filter (\<lambda>b. p (messages h b)) bs) h h' \<and>
    mSignals q' = mSignals q \<and> mQuitting q' = mQuitting q \<and> mQuitAllowed q' = mQuitAllowed q"
  using assms
proof (induction bs arbitrary: as a q h ps f)
  case Nil
  then have "nextMessage (messages h a) = None"
    by (simp add: mq_inv_def mq_rep_def)
  with Nil show ?case
    by (subst remove_rest.simps, subst remove_rest.simps) auto
next
  case (Cons n bs)
  have nx: "nextMessage (messages h a) = Some n" "nextMessage (messages h n) = hd_opt bs"
    and dist: "distinct (as @ a # n # bs)"
    using Cons.prems(1) by (simp_all add: mq_inv_def mq_rep_def)
  show ?case
  proof (cases "p (messages h n)")
    case False
    have "remove_rest p (Some a) f q h = remove_rest p (Some n) f q h"
      using nx False by (subst remove_rest.simps) simp
    with False Cons.IH[of q h "as @ [a]" n ps f] Cons.prems show ?thesis by simp
  next
    case True
    obtain q1 h1 where un: "(case hd_opt bs of
        Some b \<Rightarrow> (q, upd_msg b (\<lambda>x. x\<lparr>prevMessage := Some a\<rparr>) h)
      | None \<Rightarrow> (q\<lparr>mTailMessage := Some a\<rparr>, h)) = (q1, h1)"
      by fastforce
    define h2 where h2: "h2 = Message_recycle n (upd_msg a (\<lambda>x. x\<lparr>nextMessage := hd_opt bs\<rparr>) h1)"
    obtain ps1 where st: "mq_inv q1 h2 (as @ a # bs) ps1" "trimmed (set (as @ a # n # bs)) [n] h h2"
      "mSignals q1 = mSignals q" "mQuitting q1 = mQuitting q" "mQuitAllowed q1 = mQuitAllowed q"
      using unlink_next_inv[OF Cons.prems(1) un h2] by blast
    note eqs = trimmed_filter[OF st(2) Cons.prems(2), of bs]
    obtain q' h' ps' where r: "remove_rest p (Some a) True q1 h2 = Some (True, q', h')"
      "mq_inv q' h' (as @ a # filter (\<lambda>b. \<not> p (messages h b)) bs) ps'"
      "trimmed (set (as @ a # bs)) (filter (\<lambda>b. p (messages h b)) bs) h2 h'"
      "mSignals q' = mSignals q1" "mQuitting q' = mQuitting q1" "mQuitAllowed q' = mQuitAllowed q1"
      using Cons.IH[OF st(1) Cons.prems(2), of True] eqs dist by auto
    have "remove_rest p (Some a) f q h = remove_rest p (Some a) True q1 h2"
      using True un nx by (subst remove_rest.simps) (simp add: Let_def h2 split: prod.splits)
    moreover have "trimmed (set (as @ a # n # bs)) ([n] @ filter (\<lambda>b. p (messages h b)) bs) h h'"
      using dist by (intro trimmed_trans[OF st(2) r(3)]) auto
    ultimately show ?thesis
      using True r st(3-5) by auto
  qed
qed

lemma remove_matching_inv:
  assumes inv: "mq_inv q h xs ps" and p: "reads_no_link p"
  shows "\<exists>q' h' ps'. remove_matching p q h = Some (\<exists>a \<in> set xs. p (messages h a), q', h') \<and>
    mq_inv q' h' (filter (\<lambda>b. \<not> p (messages h b)) xs) ps' \<and>
    trimmed (set xs) (filter (\<lambda>b. p (messages h b)) xs) h h' \<and>
    mSignals q' = mSignals q \<and> mQuitting q' = mQuitting q \<and> mQuitAllowed q' = mQuitAllowed q"
proof -
  let ?p = "\<lambda>b. p (messages h b)"
  let ?ts = "takeWhile ?p xs" and ?ds = "dropWhile ?p xs"
  have hd: "mHeadMessage q = hd_opt xs" and dist: "distinct (?ts @ ?ds)"
    using inv by (simp_all add: mq_inv_def mq_rep_def)
  obtain q1 h1 ps1 where f: "remove_front p (hd_opt xs) False q h = Some (hd_opt ?ds, ?ts \<noteq> [], q1, h1)"
    "mq_inv q1 h1 ?ds ps1" "trimmed (set xs) ?ts h h1"
    "mSignals q1 = mSignals q" "mQuitting q1 = mQuitting q" "mQuitAllowed q1 = mQuitAllowed q"
    using remove_front_inv[OF inv p, of False] by auto
  have split: "xs = ?ts @ ?ds" "\<forall>b \<in> set ?ts. ?p b"
    by (auto dest: set_takeWhileD)
  show ?thesis
  proof (cases ?ds)
    case Nil
    then have ts: "?ts = xs" and all: "\<forall>x \<in> set xs. ?p x"
      by (auto simp: dropWhile_eq_Nil_conv takeWhile_eq_all_conv)
    then have "filter ?p xs = xs" "filter (\<lambda>b. \<not> ?p b) xs = []" "(\<exists>a \<in> set xs. ?p a) = (xs \<noteq> [])"
      by (auto simp: filter_empty_conv) (cases xs, auto)
    then show ?thesis
      using f[unfolded ts Nil] hd by (auto simp: remove_matching_def remove_rest.simps[of _ None])
  next
    case (Cons d ds)
    then have nd: "\<not> ?p d"
      by (metis (mono_tags) dropWhile_eq_Cons_conv)
    have disj: "set (d # ds) \<inter> set ?ts = {}"
      using dist Cons by auto
    have "filter P xs = filter P (?ts @ d # ds)" for P
      using split(1) Cons by simp
    then have eqs: "filter ?p xs = ?ts @ filter ?p ds" "filter (\<lambda>b. \<not> ?p b) xs = d # filter (\<lambda>b. \<not> ?p b) ds"
      using split(2) nd by (simp_all add: filter_empty_conv)
    have "set xs = set ?ts \<union> set (d # ds)"
      using split(1) Cons by (metis set_append)
    moreover have "?ts \<noteq> [] \<longleftrightarrow> (\<exists>a \<in> set ?ts. ?p a)"
      using split(2) by (cases ?ts) auto
    ultimately have found: "(?ts \<noteq> [] \<or> (\<exists>b \<in> set ds. ?p b)) = (\<exists>a \<in> set xs. ?p a)" "set (d # ds) \<subseteq> set xs"
      using nd by auto
    note tf = trimmed_filter[OF f(3) p, of ds]
    obtain q' h' ps' where r: "remove_rest p (Some d) (?ts \<noteq> []) q1 h1 = Some (\<exists>a \<in> set xs. ?p a, q', h')"
      "mq_inv q' h' (d # filter (\<lambda>b. \<not> ?p b) ds) ps'" "trimmed (set (d # ds)) (filter ?p ds) h1 h'"
      "mSignals q' = mSignals q1" "mQuitting q' = mQuitting q1" "mQuitAllowed q' = mQuitAllowed q1"
      using remove_rest_inv[of q1 h1 "[]" d ds ps1 p "?ts \<noteq> []"] f(2) p tf disj found(1) Cons by auto
    have "trimmed (set xs) (filter ?p xs) h h'"
      using disj found(2) unfolding eqs by (intro trimmed_trans[OF f(3) r(3)]) auto
    then show ?thesis
      using r f hd Cons eqs(2) by (auto simp: remove_matching_def)
  qed
qed

definition removes ::
  "(message \<Rightarrow> bool) \<Rightarrow> addr list \<Rightarrow> message_queue \<Rightarrow> 'b message_heap \<Rightarrow>
     (bool \<times> message_queue \<times> 'b message_heap) option \<Rightarrow> bool" where
  "removes p xs q h out \<longleftrightarrow>
     (\<exists>q' h' ps'. out = Some (\<exists>a \<in> set xs. p (messages h a), q', h') \<and>
        mq_inv q' h' (filter (\<lambda>a. \<not> p (messages h a)) xs) ps' \<and>
        trimmed (set xs) (filter (\<lambda>a. p (messages h a)) xs) h h' \<and> mSignals q' = mSignals q \<and>
        mQuitting q' = mQuitting q \<and> mQuitAllowed q' = mQuitAllowed q)"

lemma remove_matching_removes:
  assumes "mq_inv q h xs ps"
  shows "removes (match_what t w ob) xs q h (remove_matching (match_what t w ob) q h)"
    "removes (match_callback t r ob) xs q h (remove_matching (match_callback t r ob) q h)"
    "removes (match_token t ob) xs q h (remove_matching (match_token t ob) q h)"
  unfolding removes_def by (rule remove_matching_inv[OF assms], simp)+

section \<open>Obtaining a message leaves every queue as it is\<close>

lemma mq_inv_new: "mq_inv (MessageQueue_new b) (MessagePool_new bs) [] []"
  by (simp add: mq_inv_def mq_rep_def MessageQueue_new_def MessagePool_new_def pool_inv_def queued_ok_def
      idle_unlinked_def Message_new_def)

lemma mq_inv_obtain:
  assumes inv: "mq_inv q h xs ps" and ob: "Message_obtain h = (a, h')"
  shows "mq_inv q h' xs (tl ps)" "a \<notin> set xs" "a < nextAddr h'" "messages h' a = Message_new"
    "\<And>b. b \<in> set xs \<Longrightarrow> messages h' b = messages h b"
proof -
  have pinv: "pool_inv h ps" using inv by (simp add: mq_inv_def)
  note po = pool_inv_obtain[OF pinv ob]
  have "a \<in> set ps \<or> a = nextAddr h"
    using ob by (cases ps) (auto simp: Message_obtain_cases[OF pinv])
  then show a: "a \<notin> set xs"
    using inv by (auto simp: mq_inv_def queued_ok_def)
  have na: "nextAddr h \<le> nextAddr h'"
    using ob by (cases ps) (auto simp: Message_obtain_cases[OF pinv])
  have eq: "messages h' b = messages h b" if "b \<in> set xs" for b
    using po(5)[of b] a that by blast
  have seg: "dll_seg (messages h') None xs None = dll_seg (messages h) None xs None"
    using eq by (intro dll_seg_links_cong) simp
  have "sorted (map (\<lambda>b. whenMs (messages h' b)) xs) = sorted (map (\<lambda>b. whenMs (messages h b)) xs)"
    using eq by (intro sorted_map_cong) simp
  then have "queued_ok h' xs"
    using inv eq na unfolding queued_ok_def by (auto simp: mq_inv_def queued_ok_def)
  moreover have "idle_unlinked h'"
    unfolding idle_unlinked_def
  proof (intro allI impI)
    fix b assume "\<not> isInUse (messages h' b)"
    then show "prevMessage (messages h' b) = None \<and> nextMessage (messages h' b) = None"
      using po(4) po(5)[of b] po(1) inv
      by (cases "b = a") (auto simp: mq_inv_def idle_unlinked_def Message_new_def)
  qed
  ultimately show "mq_inv q h' xs (tl ps)"
    using inv po(2) seg by (cases ps) (auto simp: mq_inv_def mq_rep_def)
  show "a < nextAddr h'" "messages h' a = Message_new"
    by (rule po)+
  show "messages h' b = messages h b" if "b \<in> set xs" for b
    using eq that .
qed

lemma mq_inv_upd_idle:
  assumes "mq_inv q h xs ps" "\<not> isInUse (messages h a)"
    "\<And>m. prevMessage (f m) = prevMessage m \<and> nextMessage (f m) = nextMessage m \<and> flags (f m) = flags m"
  shows "mq_inv q (upd_msg a f h) xs ps"
proof -
  have "a \<notin> set xs" "a \<notin> set ps"
    using assms(1,2) by (auto simp: mq_inv_def queued_ok_def pool_inv_def dest: pool_chain_recycled)
  moreover from this have "queued_ok (upd_msg a f h) xs = queued_ok h xs"
    by (intro queued_ok_cong) auto
  moreover have "isInUse (f (messages h a)) = isInUse (messages h a)"
    using assms(3) by (simp add: isInUse_def)
  ultimately show ?thesis
    using assms by (auto simp: mq_inv_def mq_rep_def pool_inv_def idle_unlinked_def)
qed

lemma mq_inv_obtain_handler:
  assumes inv: "mq_inv q h xs ps" and ob: "Message_obtain_handler t h = (a, h')"
  shows "mq_inv q h' xs (tl ps)" "a \<notin> set xs" "a < nextAddr h'"
    "messages h' a = Message_new\<lparr>target := t\<rparr>" "\<not> isInUse (messages h' a)"
proof -
  obtain h1 where h1: "Message_obtain h = (a, h1)" "h' = upd_msg a (\<lambda>m. m\<lparr>target := t\<rparr>) h1"
    using ob by (auto simp: Message_obtain_handler_def split: prod.splits)
  note mo = mq_inv_obtain[OF inv h1(1)]
  have idle: "\<not> isInUse (messages h1 a)"
    by (simp add: mo(4) Message_new_def)
  show "mq_inv q h' xs (tl ps)"
    unfolding h1(2) using mo(1) idle by (rule mq_inv_upd_idle) simp
  show "a \<notin> set xs" "a < nextAddr h'" "messages h' a = Message_new\<lparr>target := t\<rparr>" "\<not> isInUse (messages h' a)"
    using mo idle by (simp_all add: h1(2))
qed

section \<open>The queue implements the timed queue\<close>

type_synonym 'b mq_state = "message_queue \<times> 'b message_heap"

definition mq_state_rep :: "'b mq_state \<Rightarrow> addr list \<Rightarrow> bool" where
  "mq_state_rep s xs \<longleftrightarrow> (\<exists>ps. mq_inv (fst s) (snd s) xs ps)"

definition mq_due :: "'b mq_state \<Rightarrow> addr \<Rightarrow> uint64" where
  "mq_due s a = whenMs (messages (snd s) a)"

definition mq_admits :: "'b mq_state \<Rightarrow> addr \<Rightarrow> bool" where
  "mq_admits s m \<longleftrightarrow>
     \<not> mQuitting (fst s) \<and> target (messages (snd s) m) \<noteq> None \<and> \<not> isInUse (messages (snd s) m) \<and> m < nextAddr (snd s)"

definition mq_enq :: "addr \<Rightarrow> uint64 \<Rightarrow> 'b mq_state \<Rightarrow> 'b mq_state option" where
  "mq_enq m w s =
     (case MessageQueue_enqueueMessage m w (fst s) (snd s) of
        Some (Inr (True, q, h)) \<Rightarrow> Some (q, h)
      | _ \<Rightarrow> None)"

definition mq_deq :: "uint64 \<Rightarrow> 'b mq_state \<Rightarrow> (addr \<times> 'b mq_state) option" where
  "mq_deq now s =
     (case MessageQueue_dequeueMessage now (fst s) (snd s) of
        (Dequeue_message m, q, h) \<Rightarrow> Some (m, q, h)
      | _ \<Rightarrow> None)"

lemma mq_due_eq: "mq_due s = (\<lambda>a. whenMs (messages (snd s) a))"
  by (auto simp: mq_due_def)

lemma mq_enq_rep:
  assumes "mq_state_rep s xs" "mq_admits s m"
  shows "\<exists>s'. mq_enq m w s = Some s' \<and> mq_state_rep s' (insert_by_time (mq_due s) m w xs) \<and>
    mq_due s' = (mq_due s)(m := w) \<and> (\<forall>m'. m' \<noteq> m \<longrightarrow> mq_admits s' m' = mq_admits s m')"
proof -
  obtain q h ps where s: "s = (q, h)" "mq_inv q h xs ps"
    using assms(1) by (cases s) (auto simp: mq_state_rep_def)
  obtain q' h' where r: "MessageQueue_enqueueMessage m w q h = Some (Inr (True, q', h'))"
    "mq_inv q' h' (insert_by_time (\<lambda>a. whenMs (messages h a)) m w xs) ps" "mQuitting q' = mQuitting q"
    "relinked (insert m (set xs)) (stamped m w h) h'"
    using enqueueMessage_inv[OF s(2), of m w] assms(2) s(1) by (auto simp: mq_admits_def)
  note f = relinked_fields[OF r(4)]
  have "mq_admits (q', h') m' = mq_admits s m'" if "m' \<noteq> m" for m'
    using that r(3) s(1) f(1) f(9)[of m'] f(10)[of m'] by (simp add: mq_admits_def)
  moreover have "mq_due (q', h') = (mq_due s)(m := w)"
    by (auto simp: mq_due_def s(1) f(8))
  ultimately show ?thesis
    using r(1,2) s(1) by (auto simp: mq_enq_def mq_state_rep_def mq_due_eq)
qed

lemma mq_deq_due:
  assumes "mq_state_rep s (m # xs)" "mq_due s m \<le> now"
  shows "\<exists>s'. mq_deq now s = Some (m, s') \<and> mq_state_rep s' xs \<and> mq_due s' = mq_due s"
proof -
  obtain q h ps where s: "s = (q, h)" "mq_inv q h (m # xs) ps"
    using assms(1) by (cases s) (auto simp: mq_state_rep_def)
  obtain q' h' where r: "MessageQueue_dequeueMessage now q h = (Dequeue_message m, q', h')"
    "mq_inv q' h' xs ps" "relinked (set (m # xs)) h h'"
    using dequeueMessage_take[OF s(2), of now] assms(2) s(1) by (auto simp: mq_due_def)
  have "mq_due (q', h') = mq_due s"
    by (auto simp: mq_due_def s(1) relinked_fields(8)[OF r(3)])
  then show ?thesis
    using r s(1) by (auto simp: mq_deq_def mq_state_rep_def)
qed

interpretation mqueue: timed_queue mq_state_rep mq_due mq_admits mq_enq mq_deq
proof unfold_locales
  show "sorted (map (mq_due s) xs)" if "mq_state_rep s xs" for s :: "'b mq_state" and xs
    using that by (auto simp: mq_state_rep_def mq_inv_def queued_ok_def mq_due_eq)
  show "\<exists>s'. mq_enq m w s = Some s' \<and> mq_state_rep s' (insert_by_time (mq_due s) m w xs) \<and> mq_due s' = (mq_due s)(m := w)"
    if "mq_state_rep s xs" "mq_admits s m" for s :: "'b mq_state" and xs m w
    using mq_enq_rep[OF that] by blast
  show "mq_admits s' m' = mq_admits s m'"
    if "mq_state_rep s xs" "mq_admits s m" "m' \<noteq> m" "mq_enq m w s = Some s'" for s s' :: "'b mq_state" and xs m m' w
    using mq_enq_rep[OF that(1,2), of w] that(3,4) by auto
  show "m \<notin> set xs" if "mq_state_rep s xs" "mq_admits s m" for s :: "'b mq_state" and xs m
    using that by (auto simp: mq_state_rep_def mq_admits_def mq_inv_def queued_ok_def)
  show "\<exists>s'. mq_deq now s = Some (m, s') \<and> mq_state_rep s' xs \<and> mq_due s' = mq_due s"
    if "mq_state_rep s (m # xs)" "mq_due s m \<le> now" for s :: "'b mq_state" and m xs now
    using mq_deq_due[OF that] .
  show "mq_deq now s = None" if "mq_state_rep s xs" "\<And>m. m \<in> set xs \<Longrightarrow> now < mq_due s m" for s :: "'b mq_state" and xs now
    using that by (cases xs) (auto simp: mq_deq_def mq_state_rep_def mq_due_def mq_inv_def mq_rep_def
        MessageQueue_dequeueMessage_def)
qed

section \<open>Properties\<close>

text \<open>A message obtained for the handler 7 from a fresh pool, for the witnesses below.\<close>

definition example_heap :: "nat message_heap" where
  "example_heap = snd (Message_obtain_handler (Some 7) (MessagePool_new (\<lambda>_. 0)))"

lemma example_heap_inv:
  "mq_inv (MessageQueue_new b) example_heap [] []" "messages example_heap 0 = Message_new\<lparr>target := Some 7\<rparr>"
  "\<not> isInUse (messages example_heap 0)" "nextAddr example_heap = 1"
proof -
  have ob: "Message_obtain_handler (Some 7) (MessagePool_new (\<lambda>_. 0 :: nat)) = (0, example_heap)"
    by (simp add: example_heap_def Message_obtain_handler_def Message_obtain_def Message_alloc_def MessagePool_new_def)
  show "mq_inv (MessageQueue_new b) example_heap [] []"
    using mq_inv_obtain_handler(1)[OF mq_inv_new ob] by simp
  show "messages example_heap 0 = Message_new\<lparr>target := Some 7\<rparr>" "\<not> isInUse (messages example_heap 0)"
    using mq_inv_obtain_handler(4,5)[OF mq_inv_new ob] by simp_all
  show "nextAddr example_heap = 1"
    by (simp add: example_heap_def Message_obtain_handler_def Message_obtain_def Message_alloc_def MessagePool_new_def)
qed

text \<open>
  (C2) \<open>MessageQueue::enqueueMessage\<close> on a live queue ends, never dereferences a null pointer,
  returns true, signals the condition once, keeps the linked list and the pool well formed, and
  inserts the message at its due time: at the head for the time 0, else behind every message that
  is due no later and before every message that is due later. No other field of any message changes.
\<close>

theorem enqueueMessage_inserts_by_due_time:
  assumes "mq_inv q h xs ps" and "\<not> mQuitting q"
    and "target (messages h m) \<noteq> None" and "\<not> isInUse (messages h m)" and "m < nextAddr h"
  shows "\<exists>q' h'. MessageQueue_enqueueMessage m w q h = Some (Inr (True, q', h')) \<and>
    mq_inv q' h' (insert_by_time (\<lambda>a. whenMs (messages h a)) m w xs) ps \<and>
    mSignals q' = mSignals q + 1 \<and> whenMs (messages h' m) = w \<and>
    (\<forall>a. a \<noteq> m \<longrightarrow> unlinked (messages h' a) = unlinked (messages h a))"
proof -
  obtain q' h' where r: "MessageQueue_enqueueMessage m w q h = Some (Inr (True, q', h'))"
    "mq_inv q' h' (insert_by_time (\<lambda>a. whenMs (messages h a)) m w xs) ps" "mSignals q' = mSignals q + 1"
    "relinked (insert m (set xs)) (stamped m w h) h'"
    using enqueueMessage_inv[OF assms(1,3,4,5,2), of w] by blast
  have "whenMs (messages h' m) = w"
    using relinked_fields(8)[OF r(4), of m] by simp
  moreover have "unlinked (messages h' a) = unlinked (messages h a)" if "a \<noteq> m" for a
    using r(4) that by (simp add: relinked_def)
  ultimately show ?thesis using r by blast
qed

theorem enqueueMessage_inserts_by_due_time_witness:
  "\<exists>q' h'. MessageQueue_enqueueMessage 0 5 (MessageQueue_new True) example_heap = Some (Inr (True, q', h')) \<and>
     mq_inv q' h' [0] [] \<and> whenMs (messages h' 0) = 5"
  using enqueueMessage_inserts_by_due_time[OF example_heap_inv(1)[of True], of 0 5] example_heap_inv(2-4)
  by (auto simp: MessageQueue_new_def insert_by_time_def)

text \<open>
  The other branches of \<open>enqueueMessage\<close>: a message without a target is refused with
  \<open>IllegalArgumentException\<close>, a message that is still in use with \<open>IllegalStateException\<close>, and a queue
  that quits recycles the message, cancels its promise and returns false; the queue itself stays
  as it is.
\<close>

theorem enqueueMessage_refusals:
  "(target (messages h m) = None \<longrightarrow>
      MessageQueue_enqueueMessage m w q h = Some (Inl IllegalArgumentException)) \<and>
   (target (messages h m) \<noteq> None \<longrightarrow> isInUse (messages h m) \<longrightarrow>
      MessageQueue_enqueueMessage m w q h = Some (Inl IllegalStateException)) \<and>
   (target (messages h m) \<noteq> None \<longrightarrow> \<not> isInUse (messages h m) \<longrightarrow> mQuitting q \<longrightarrow> mq_inv q h [] ps \<longrightarrow> m < nextAddr h \<longrightarrow>
      (\<exists>h' ps'. MessageQueue_enqueueMessage m w q h = Some (Inr (False, q, h')) \<and> mq_inv q h' [] ps' \<and>
         trimmed {m} [m] h h'))"
proof (intro conjI impI)
  assume a: "target (messages h m) \<noteq> None" "\<not> isInUse (messages h m)" "mQuitting q" "mq_inv q h [] ps" "m < nextAddr h"
  let ?h = "Message_recycle m h"
  have "m \<notin> set ps"
    using a by (auto simp: mq_inv_def pool_inv_def dest: pool_chain_recycled)
  then have "pool_inv ?h (if poolSize h < poolMaxSize h then m # ps else ps)"
    using a by (intro pool_inv_recycle) (auto simp: mq_inv_def)
  then have "mq_inv q ?h [] (if poolSize h < poolMaxSize h then m # ps else ps)"
    using a by (auto simp: mq_inv_def mq_rep_def queued_ok_def idle_unlinked_def Message_recycle_alt)
  moreover have "MessageQueue_enqueueMessage m w q h = Some (Inr (False, q, ?h))"
    using a by (auto simp: MessageQueue_enqueueMessage_def)
  ultimately show "\<exists>h' ps'. MessageQueue_enqueueMessage m w q h = Some (Inr (False, q, h')) \<and> mq_inv q h' [] ps' \<and>
         trimmed {m} [m] h h'"
    using trimmed_recycle[of m "{m}" h] by blast
qed (auto simp: MessageQueue_enqueueMessage_def)

theorem enqueueMessage_refusals_witness:
  "MessageQueue_enqueueMessage 3 5 (MessageQueue_new True) example_heap = Some (Inl IllegalArgumentException) \<and>
   (\<exists>h' ps'. MessageQueue_enqueueMessage 0 5 ((MessageQueue_new True)\<lparr>mQuitting := True\<rparr>) example_heap =
      Some (Inr (False, (MessageQueue_new True)\<lparr>mQuitting := True\<rparr>, h')) \<and>
      mq_inv ((MessageQueue_new True)\<lparr>mQuitting := True\<rparr>) h' [] ps')"
proof -
  have "messages example_heap 3 = Message_new"
    by (simp add: example_heap_def Message_obtain_handler_def Message_obtain_def Message_alloc_def MessagePool_new_def)
  moreover have "mq_inv ((MessageQueue_new True)\<lparr>mQuitting := True\<rparr>) example_heap [] []"
    using example_heap_inv(1)[of True] by (simp add: mq_inv_def mq_rep_def)
  ultimately show ?thesis
    using enqueueMessage_refusals[of example_heap 3 5 "MessageQueue_new True" "[]"]
      enqueueMessage_refusals[of example_heap 0 5 "(MessageQueue_new True)\<lparr>mQuitting := True\<rparr>" "[]"]
      example_heap_inv(2-4)
    by (auto simp: Message_new_def)
qed

text \<open>A queue that holds the message of \<open>example_heap\<close>, due at 5.\<close>

definition example_queue :: message_queue where
  "example_queue = (MessageQueue_new True)\<lparr>mHeadMessage := Some 0, mTailMessage := Some 0\<rparr>"

definition example_queued_heap :: "nat message_heap" where
  "example_queued_heap = stamped 0 5 example_heap"

lemma example_queue_inv: "mq_inv example_queue example_queued_heap [0] []"
proof -
  have "queued_ok example_queued_heap [0]"
    using example_heap_inv(2,4) by (simp add: queued_ok_def example_queued_heap_def)
  then show ?thesis
    using example_heap_inv(1)[of True] example_heap_inv(2)
    by (auto simp: mq_inv_def mq_rep_def example_queue_def example_queued_heap_def pool_inv_def
        idle_unlinked_def MessageQueue_new_def Message_new_def)
qed

lemma example_queued_fields:
  "target (messages example_queued_heap 0) = Some 7" "what (messages example_queued_heap 0) = 0"
  "obj (messages example_queued_heap 0) = None" "callback (messages example_queued_heap 0) = None"
  "whenMs (messages example_queued_heap 0) = 5" "\<not> mQuitting example_queue" "mQuitAllowed example_queue"
  using example_heap_inv(2)
  by (simp_all add: example_queued_heap_def example_queue_def MessageQueue_new_def Message_new_def)

text \<open>
  (C3) One pass of \<open>MessageQueue::dequeueMessage\<close> at the time \<open>now\<close>, on every branch: a queue that
  quits returns null; an empty queue waits without a bound; a queue whose head is due later waits, and
  the wait never lasts beyond the due time; otherwise the head is returned, unlinked, and the rest
  remains a well-formed queue.
\<close>

theorem dequeueMessage_returns_due_head:
  assumes "mq_inv q h xs ps"
  shows "case xs of
      [] \<Rightarrow> MessageQueue_dequeueMessage now q h = (if mQuitting q then Dequeue_null else Dequeue_await None, q, h)
    | m # ms \<Rightarrow>
        if now < whenMs (messages h m)
        then \<exists>t. MessageQueue_dequeueMessage now q h = (Dequeue_await (Some t), q, h) \<and> 0 < t \<and>
               unat now + unat t \<le> unat (whenMs (messages h m))
        else \<exists>q' h'. MessageQueue_dequeueMessage now q h = (Dequeue_message m, q', h') \<and> mq_inv q' h' ms ps \<and>
               messages h' m = unlinked (messages h m) \<and>
               (\<forall>a. unlinked (messages h' a) = unlinked (messages h a))"
proof (cases xs)
  case Nil
  then show ?thesis
    using assms by (auto simp: MessageQueue_dequeueMessage_def mq_inv_def mq_rep_def)
next
  case (Cons m ms)
  then have hd: "mHeadMessage q = Some m" "\<not> mQuitting q"
    using assms by (auto simp: mq_inv_def mq_rep_def)
  show ?thesis
  proof (cases "now < whenMs (messages h m)")
    case True
    let ?t = "min (whenMs (messages h m) - now) Integer_MAX_VALUE"
    have "0 < ?t"
      using True by (auto simp: min_def Integer_MAX_VALUE_def word_gt_0)
    moreover have "unat ?t \<le> unat (whenMs (messages h m) - now)"
      by (simp add: word_le_nat_alt[symmetric])
    then have "unat now + unat ?t \<le> unat (whenMs (messages h m))"
      using True by (simp add: unat_sub word_less_nat_alt)
    ultimately show ?thesis
      using True hd Cons by (simp add: MessageQueue_dequeueMessage_def)
  next
    case False
    then obtain q' h' where r: "MessageQueue_dequeueMessage now q h = (Dequeue_message m, q', h')"
      "mq_inv q' h' ms ps" "messages h' m = unlinked (messages h m)" "relinked (set (m # ms)) h h'"
      using dequeueMessage_take[of q h m ms ps now] assms Cons by (auto simp: not_less)
    have "\<forall>a. unlinked (messages h' a) = unlinked (messages h a)"
      using r(4) by (simp add: relinked_def)
    then show ?thesis
      using r(1-3) False Cons by auto
  qed
qed

theorem dequeueMessage_returns_due_head_witness:
  "(\<exists>t. MessageQueue_dequeueMessage 2 example_queue example_queued_heap =
       (Dequeue_await (Some t), example_queue, example_queued_heap) \<and> 0 < t \<and> 2 + unat t \<le> 5) \<and>
   (\<exists>q' h'. MessageQueue_dequeueMessage 9 example_queue example_queued_heap = (Dequeue_message 0, q', h') \<and>
       mq_inv q' h' [] [])"
  using dequeueMessage_returns_due_head[OF example_queue_inv, of 2]
    dequeueMessage_returns_due_head[OF example_queue_inv, of 9]
  by (auto simp: example_queued_fields)

text \<open>
  \<open>MessageQueue::quit\<close>: without permission it refuses and changes nothing. Otherwise it ends and
  returns true; every pending message is recycled, in queue order, and the promise of each is
  cancelled; the queue is empty and quits, and a waiting thread is signalled.
\<close>

theorem quit_recycles_all_pending:
  assumes "mq_inv q h xs ps"
  shows "if mQuitAllowed q
    then \<exists>q' h' ps'. MessageQueue_quit q h = Some (True, q', h') \<and> mq_inv q' h' [] ps' \<and> mQuitting q' \<and>
           trimmed (set xs) xs h h' \<and> (\<not> mQuitting q \<longrightarrow> mSignals q' = mSignals q + 1)
    else MessageQueue_quit q h = Some (False, q, h)"
  using quit_inv[OF assms] by (simp add: MessageQueue_quit_def)

theorem quit_recycles_all_pending_witness:
  "\<exists>q' h' ps'. MessageQueue_quit example_queue example_queued_heap = Some (True, q', h') \<and> mq_inv q' h' [] ps' \<and>
     mQuitting q' \<and> trimmed {0} [0] example_queued_heap h'"
  using quit_recycles_all_pending[OF example_queue_inv] example_queued_fields(7) by auto

text \<open>
  (C4) \<open>removeMessages\<close>, \<open>removeCallbacks\<close> and \<open>removeCallbacksAndMessages\<close> end, remove exactly the
  messages that match, recycle them in queue order (which cancels their promises), leave the other
  messages in their order, and say whether anything was removed.
\<close>

theorem remove_operations_filter_queue:
  assumes "mq_inv q h xs ps"
  shows "removes (match_what t w ob) xs q h (MessageQueue_removeMessages (Some t) w ob q h) \<and>
    removes (match_callback t (Some r) ob) xs q h (MessageQueue_removeCallbacks (Some t) (Some r) ob q h) \<and>
    removes (match_token t ob) xs q h (MessageQueue_removeCallbacksAndMessages (Some t) ob q h) \<and>
    MessageQueue_removeMessages None w ob q h = Some (False, q, h) \<and>
    MessageQueue_removeCallbacks None (Some r) ob q h = Some (False, q, h) \<and>
    MessageQueue_removeCallbacks (Some t) None ob q h = Some (False, q, h) \<and>
    MessageQueue_removeCallbacksAndMessages None ob q h = Some (False, q, h)"
  by (simp add: MessageQueue_removeMessages_def MessageQueue_removeCallbacks_def
      MessageQueue_removeCallbacksAndMessages_def remove_matching_removes[OF assms])

theorem remove_operations_filter_queue_witness:
  "removes (match_what 7 0 None) [0] example_queue example_queued_heap
     (MessageQueue_removeMessages (Some 7) 0 None example_queue example_queued_heap) \<and>
   match_what 7 0 None (messages example_queued_heap 0)"
  using remove_operations_filter_queue[OF example_queue_inv, of 7 0 None 1]
  by (simp add: match_what_def example_queued_fields)

text \<open>
  \<open>hasMessages\<close> ends and says, for a message code or for a callback, whether a pending message
  of the handler matches.
\<close>

theorem hasMessages_exact:
  assumes "mq_inv q h xs ps"
  shows "MessageQueue_hasMessages (Some t) w ob q h = Some (\<exists>a \<in> set xs. match_what t w ob (messages h a)) \<and>
    MessageQueue_hasCallbacks (Some t) r ob q h = Some (\<exists>a \<in> set xs. match_callback t r ob (messages h a)) \<and>
    MessageQueue_hasMessages None w ob q h = Some False \<and> MessageQueue_hasCallbacks None r ob q h = Some False"
  using assms scan_queue_eq[of "messages h" None xs]
  by (simp add: MessageQueue_hasMessages_def MessageQueue_hasCallbacks_def mq_inv_def mq_rep_def)

theorem hasMessages_exact_witness:
  "MessageQueue_hasMessages (Some 7) 0 None example_queue example_queued_heap = Some True \<and>
   MessageQueue_hasMessages (Some 7) 1 None example_queue example_queued_heap = Some False"
  using hasMessages_exact[OF example_queue_inv, of 7 0 None None]
    hasMessages_exact[OF example_queue_inv, of 7 1 None None]
  by (simp add: match_what_def example_queued_fields)

text \<open>
  (C5) Delivery order. Calling \<open>dequeueMessage\<close> at the time \<open>now\<close> until nothing is due delivers
  exactly the messages due by then, ordered by due time, and leaves the others pending.
\<close>

theorem dequeue_delivers_due_in_order:
  assumes "mq_inv q h xs ps" and "length xs \<le> n"
  shows "\<exists>s'. drain_with mq_deq n now (q, h) = (filter (\<lambda>m. whenMs (messages h m) \<le> now) xs, s') \<and>
    mq_state_rep s' (filter (\<lambda>m. now < whenMs (messages h m)) xs) \<and>
    sorted (map (\<lambda>m. whenMs (messages h m)) (filter (\<lambda>m. whenMs (messages h m) \<le> now) xs))"
proof -
  have rep: "mq_state_rep (q, h) xs"
    using assms(1) by (auto simp: mq_state_rep_def)
  show ?thesis
    using mqueue.drain_delivers_due[OF rep assms(2), of now] mqueue.drain_sorted[OF rep assms(2), of now]
    by (auto simp: mq_due_eq)
qed

theorem dequeue_delivers_due_in_order_witness:
  "\<exists>s'. drain_with mq_deq 1 9 (example_queue, example_queued_heap) = ([0], s') \<and> mq_state_rep s' []"
  using dequeue_delivers_due_in_order[OF example_queue_inv, of 1 9] by (auto simp: example_queued_fields)

text \<open>
  First in, first out: of two messages enqueued one after the other, the second for a time that
  is not earlier (and not 0), the first is delivered before the second, whatever else is pending.
\<close>

theorem enqueue_order_is_delivery_order:
  assumes "mq_inv q h xs ps" and "mq_admits (q, h) m" and "mq_admits (q, h) m'" and "m \<noteq> m'"
    and "w \<le> w'" and "w' \<noteq> 0" and "w' \<le> now"
  shows "\<exists>s1 s2 ms s3. mq_enq m w (q, h) = Some s1 \<and> mq_enq m' w' s1 = Some s2 \<and>
    drain_with mq_deq (length xs + 2) now s2 = (ms, s3) \<and> stands_before m m' ms"
proof -
  have rep: "mq_state_rep (q, h) xs"
    using assms(1) by (auto simp: mq_state_rep_def)
  obtain s1 where s1: "mq_enq m w (q, h) = Some s1" "mq_state_rep s1 (insert_by_time (mq_due (q, h)) m w xs)"
    "mq_admits s1 m'"
    using mq_enq_rep[OF rep assms(2), of w] assms(3,4) by auto
  obtain s2 where s2: "mq_enq m' w' s1 = Some s2"
    using mq_enq_rep[OF s1(2,3), of w'] by auto
  show ?thesis
    using mqueue.deliver_in_order[OF rep assms(2-7) s1(1) s2 order_refl] s1(1) s2 by blast
qed

theorem enqueue_order_is_delivery_order_witness:
  "\<exists>s1 s2 ms s3. mq_enq 0 5 (MessageQueue_new True, snd (Message_obtain_handler (Some 7) example_heap)) = Some s1 \<and>
    mq_enq 1 5 s1 = Some s2 \<and> drain_with mq_deq 2 5 s2 = (ms, s3) \<and> stands_before 0 1 ms"
proof -
  let ?h = "snd (Message_obtain_handler (Some 7) example_heap)"
  have "Message_obtain_handler (Some 7) example_heap = (1, ?h)"
    using example_heap_inv(4)
    by (simp add: Message_obtain_handler_def Message_obtain_def Message_alloc_def example_heap_def MessagePool_new_def)
  note ob = mq_inv_obtain_handler[OF example_heap_inv(1)[of True] this]
  have adm: "mq_admits (MessageQueue_new True, ?h) 0" "mq_admits (MessageQueue_new True, ?h) 1"
    by (auto simp: mq_admits_def MessageQueue_new_def example_heap_def Message_obtain_handler_def
        Message_obtain_def Message_alloc_def MessagePool_new_def Message_new_def)
  have "(5 :: uint64) \<noteq> 0" by simp
  from enqueue_order_is_delivery_order[OF ob(1) adm zero_neq_one order_refl this order_refl]
  show ?thesis by (simp only: list.size(3) add_0)
qed

end
