(* ===== verification/Looper.thy ===== *)
theory Looper
  imports Message_Queue "HOL-Library.Multiset"
begin

text \<open>
  Handlers and the looper (\<open>src/src/mindroid/os/Handler.h\<close>, \<open>src/src/mindroid/os/Handler.cpp\<close>,
  \<open>src/src/mindroid/os/Looper.h\<close>, \<open>src/src/mindroid/os/Looper.cpp\<close>).

  A handler is a reference bound to one looper; its operations act on the queue of that looper. The
  current time, \<open>SystemClock::uptimeMillis()\<close>, is the argument \<open>now\<close>. What a handler does with a
  message (\<open>handleMessage\<close>, the callback object, a runnable) is code of the application: dispatching
  is modelled by the sequence of calls it makes.
  The second half of the theory is the interleaving of a looper thread with its clients as a step
  relation, and the invariant of every reachable state.
\<close>

section \<open>Handler\<close>

record handler =
  hSelf :: ref
  hLooper :: ref
  mCallback :: "ref option"

definition Handler_new :: "ref \<Rightarrow> ref option \<Rightarrow> ref option \<Rightarrow> handler result" where
  "Handler_new self looper cb =
     (case looper of
        None \<Rightarrow> Inl NullPointerException
      | Some l \<Rightarrow> Inr \<lparr>hSelf = self, hLooper = l, mCallback = cb\<rparr>)"

datatype dispatch_call =
    Runnable_run ref
  | Callback_handleMessage ref addr
  | Handler_handleMessage ref addr

text \<open>\<open>handled c m\<close> is what the callback object \<open>c\<close> returns for the message \<open>m\<close>.\<close>

definition Handler_dispatchMessage ::
  "(ref \<Rightarrow> addr \<Rightarrow> bool) \<Rightarrow> handler \<Rightarrow> addr \<Rightarrow> 'b message_heap \<Rightarrow> dispatch_call list" where
  "Handler_dispatchMessage handled self m h =
     (case callback (messages h m) of
        Some r \<Rightarrow> [Runnable_run r]
      | None \<Rightarrow>
          (case mCallback self of
             Some c \<Rightarrow>
               if handled c m then [Callback_handleMessage c m]
               else [Callback_handleMessage c m, Handler_handleMessage (hSelf self) m]
           | None \<Rightarrow> [Handler_handleMessage (hSelf self) m]))"

type_synonym 'b send_out = "(bool result \<times> message_queue \<times> 'b message_heap) option"

definition Handler_sendMessageAtTime ::
  "ref \<Rightarrow> addr \<Rightarrow> uint64 \<Rightarrow> message_queue \<Rightarrow> 'b message_heap \<Rightarrow> 'b send_out" where
  "Handler_sendMessageAtTime self m uptimeMillis q h =
     (let h1 = upd_msg m (\<lambda>x. x\<lparr>target := Some self\<rparr>) h
      in map_option (\<lambda>r. case r of Inl e \<Rightarrow> (Inl e, q, h1) | Inr (b, q', h') \<Rightarrow> (Inr b, q', h'))
           (MessageQueue_enqueueMessage m uptimeMillis q h1))"

definition Handler_sendMessageDelayed ::
  "uint64 \<Rightarrow> ref \<Rightarrow> addr \<Rightarrow> uint32 \<Rightarrow> message_queue \<Rightarrow> 'b message_heap \<Rightarrow> 'b send_out" where
  "Handler_sendMessageDelayed now self m delayMillis q h =
     Handler_sendMessageAtTime self m (now + ucast delayMillis) q h"

definition Handler_sendMessage ::
  "uint64 \<Rightarrow> ref \<Rightarrow> addr \<Rightarrow> message_queue \<Rightarrow> 'b message_heap \<Rightarrow> 'b send_out" where
  "Handler_sendMessage now self m q h = Handler_sendMessageDelayed now self m 0 q h"

definition Handler_sendEmptyMessageDelayed ::
  "uint64 \<Rightarrow> ref \<Rightarrow> int32 \<Rightarrow> uint64 \<Rightarrow> message_queue \<Rightarrow> 'b message_heap \<Rightarrow> 'b send_out" where
  "Handler_sendEmptyMessageDelayed now self w delayMillis q h =
     (let (m, h1) = Message_obtain h
      in Handler_sendMessageDelayed now self m (ucast delayMillis) q (upd_msg m (\<lambda>x. x\<lparr>what := w\<rparr>) h1))"

definition Handler_sendEmptyMessage ::
  "uint64 \<Rightarrow> ref \<Rightarrow> int32 \<Rightarrow> message_queue \<Rightarrow> 'b message_heap \<Rightarrow> 'b send_out" where
  "Handler_sendEmptyMessage now self w q h = Handler_sendEmptyMessageDelayed now self w 0 q h"

definition Handler_sendEmptyMessageAtTime ::
  "ref \<Rightarrow> int32 \<Rightarrow> uint64 \<Rightarrow> message_queue \<Rightarrow> 'b message_heap \<Rightarrow> 'b send_out" where
  "Handler_sendEmptyMessageAtTime self w uptimeMillis q h =
     (let (m, h1) = Message_obtain h
      in Handler_sendMessageAtTime self m uptimeMillis q (upd_msg m (\<lambda>x. x\<lparr>what := w\<rparr>) h1))"

definition Message_sendToTarget ::
  "uint64 \<Rightarrow> addr \<Rightarrow> message_queue \<Rightarrow> 'b message_heap \<Rightarrow> 'b send_out" where
  "Message_sendToTarget now m q h =
     (case target (messages h m) of
        None \<Rightarrow> Some (Inl Undefined, q, h)
      | Some t \<Rightarrow> Handler_sendMessage now t m q h)"

definition Handler_getPostMessage :: "ref option \<Rightarrow> 'b message_heap \<Rightarrow> addr \<times> 'b message_heap" where
  "Handler_getPostMessage runnable h =
     (let (m, h1) = Message_obtain h in (m, upd_msg m (\<lambda>x. x\<lparr>callback := runnable\<rparr>) h1))"

definition Handler_getPostMessage_token ::
  "ref option \<Rightarrow> ref option \<Rightarrow> 'b message_heap \<Rightarrow> addr \<times> 'b message_heap" where
  "Handler_getPostMessage_token runnable token h =
     (let (m, h1) = Message_obtain h in (m, upd_msg m (\<lambda>x. x\<lparr>obj := token, callback := runnable\<rparr>) h1))"

text \<open>The post operations return the runnable, or null when the message was not accepted.\<close>

type_synonym 'b post_out = "(ref option result \<times> message_queue \<times> 'b message_heap) option"

definition posted :: "ref option \<Rightarrow> 'b send_out \<Rightarrow> 'b post_out" where
  "posted runnable out =
     map_option (\<lambda>(r, q, h). (case r of Inl e \<Rightarrow> Inl e | Inr b \<Rightarrow> Inr (if b then runnable else None), q, h)) out"

definition Handler_postDelayed ::
  "uint64 \<Rightarrow> ref \<Rightarrow> ref option \<Rightarrow> uint64 \<Rightarrow> message_queue \<Rightarrow> 'b message_heap \<Rightarrow> 'b post_out" where
  "Handler_postDelayed now self runnable delayMillis q h =
     (let (m, h1) = Handler_getPostMessage runnable h
      in posted runnable (Handler_sendMessageDelayed now self m (ucast delayMillis) q h1))"

definition Handler_post ::
  "uint64 \<Rightarrow> ref \<Rightarrow> ref option \<Rightarrow> message_queue \<Rightarrow> 'b message_heap \<Rightarrow> 'b post_out" where
  "Handler_post now self runnable q h =
     (let (m, h1) = Handler_getPostMessage runnable h
      in posted runnable (Handler_sendMessageDelayed now self m 0 q h1))"

definition Handler_postAtTime ::
  "ref \<Rightarrow> ref option \<Rightarrow> uint64 \<Rightarrow> message_queue \<Rightarrow> 'b message_heap \<Rightarrow> 'b post_out" where
  "Handler_postAtTime self runnable uptimeMillis q h =
     (let (m, h1) = Handler_getPostMessage runnable h
      in posted runnable (Handler_sendMessageAtTime self m uptimeMillis q h1))"

definition Handler_postAtTime_token ::
  "ref \<Rightarrow> ref option \<Rightarrow> ref option \<Rightarrow> uint64 \<Rightarrow> message_queue \<Rightarrow> 'b message_heap \<Rightarrow> 'b post_out" where
  "Handler_postAtTime_token self runnable token uptimeMillis q h =
     (let (m, h1) = Handler_getPostMessage_token runnable token h
      in posted runnable (Handler_sendMessageAtTime self m uptimeMillis q h1))"

definition Handler_removeCallbacks where
  "Handler_removeCallbacks self runnable q h = MessageQueue_removeCallbacks (Some self) runnable None q h"

definition Handler_removeCallbacks_token where
  "Handler_removeCallbacks_token self runnable token q h = MessageQueue_removeCallbacks (Some self) runnable token q h"

definition Handler_removeMessages where
  "Handler_removeMessages self w q h = MessageQueue_removeMessages (Some self) w None q h"

definition Handler_removeMessages_obj where
  "Handler_removeMessages_obj self w object q h = MessageQueue_removeMessages (Some self) w object q h"

definition Handler_removeCallbacksAndMessages where
  "Handler_removeCallbacksAndMessages self token q h = MessageQueue_removeCallbacksAndMessages (Some self) token q h"

definition Handler_hasMessages where
  "Handler_hasMessages self w q h = MessageQueue_hasMessages (Some self) w None q h"

definition Handler_hasMessages_obj where
  "Handler_hasMessages_obj self w object q h = MessageQueue_hasMessages (Some self) w object q h"

definition Handler_hasCallbacks where
  "Handler_hasCallbacks self runnable q h = MessageQueue_hasCallbacks (Some self) runnable None q h"

section \<open>Looper\<close>

type_synonym tid = nat

record looper =
  mMessageQueue :: message_queue
  mThread :: tid

text \<open>The thread-local variable \<open>tlsLooper\<close>, for every thread.\<close>

type_synonym tls = "tid \<Rightarrow> looper option"

definition Looper_new :: "bool \<Rightarrow> tid \<Rightarrow> looper" where
  "Looper_new quitAllowed t = \<lparr>mMessageQueue = MessageQueue_new quitAllowed, mThread = t\<rparr>"

definition Looper_prepare :: "bool \<Rightarrow> tid \<Rightarrow> tls \<Rightarrow> tls result" where
  "Looper_prepare quitAllowed t tls =
     (if tls t \<noteq> None then Inl RuntimeException else Inr (tls(t \<mapsto> Looper_new quitAllowed t)))"

definition Looper_myLooper :: "tid \<Rightarrow> tls \<Rightarrow> looper option" where
  "Looper_myLooper t tls = tls t"

definition Looper_quit ::
  "looper \<Rightarrow> 'b message_heap \<Rightarrow> (looper \<times> 'b message_heap) option" where
  "Looper_quit l h =
     map_option (\<lambda>(b, q, h'). (l\<lparr>mMessageQueue := q\<rparr>, h')) (MessageQueue_quit (mMessageQueue l) h)"

text \<open>One turn of the loop of \<open>Looper::loop\<close>; \<open>dispatch\<close> is the effect of the handler's code.\<close>

datatype loop_outcome =
    Loop_return
  | Loop_await "uint64 option"
  | Loop_again addr

definition Looper_loop_turn ::
  "(ref \<Rightarrow> addr \<Rightarrow> 'b mq_state \<Rightarrow> 'b mq_state) \<Rightarrow> uint64 \<Rightarrow> message_queue \<Rightarrow> 'b message_heap \<Rightarrow>
     (loop_outcome \<times> message_queue \<times> 'b message_heap) result" where
  "Looper_loop_turn dispatch now q h =
     (case MessageQueue_dequeueMessage now q h of
        (Dequeue_null, q1, h1) \<Rightarrow> Inr (Loop_return, q1, h1)
      | (Dequeue_await t, q1, h1) \<Rightarrow> Inr (Loop_await t, q1, h1)
      | (Dequeue_message m, q1, h1) \<Rightarrow>
          (case target (messages h1 m) of
             None \<Rightarrow> Inl Undefined
           | Some t \<Rightarrow> let (q2, h2) = dispatch t m (q1, h1) in Inr (Loop_again m, q2, Message_recycle m h2)))"

definition Looper_loop_enter :: "tid \<Rightarrow> tls \<Rightarrow> looper result" where
  "Looper_loop_enter t tls =
     (case Looper_myLooper t tls of None \<Rightarrow> Inl RuntimeException | Some l \<Rightarrow> Inr l)"

section \<open>Sending\<close>

abbreviation retargeted :: "ref \<Rightarrow> addr \<Rightarrow> 'b message_heap \<Rightarrow> 'b message_heap" where
  "retargeted self m h \<equiv> upd_msg m (\<lambda>x. x\<lparr>target := Some self\<rparr>) h"

lemma sendMessageAtTime_idle:
  assumes inv: "mq_inv q h xs ps" and "\<not> mQuitting q" and m: "\<not> isInUse (messages h m)" "m < nextAddr h"
  shows "\<exists>q' h'. Handler_sendMessageAtTime self m w q h = Some (Inr True, q', h') \<and>
    mq_inv q' h' (insert_by_time (\<lambda>a. whenMs (messages h a)) m w xs) ps \<and> mSignals q' = mSignals q + 1 \<and>
    mQuitting q' = mQuitting q \<and>
    relinked (insert m (set xs)) (stamped m w (retargeted self m h)) h'"
proof -
  let ?h = "retargeted self m h"
  have "mq_inv q ?h xs ps"
    using inv m(1) by (rule mq_inv_upd_idle) simp
  moreover have "m \<notin> set xs"
    using inv m(1) by (auto simp: mq_inv_def queued_ok_def)
  then have "insert_by_time (\<lambda>a. whenMs (messages ?h a)) m w xs = insert_by_time (\<lambda>a. whenMs (messages h a)) m w xs"
    by (intro insert_by_time_cong) auto
  ultimately show ?thesis
    using enqueueMessage_inv[of q ?h xs ps m w] m assms(2)
    by (fastforce simp: Handler_sendMessageAtTime_def Let_def)
qed

lemma sendMessageAtTime_quitting:
  assumes "\<not> isInUse (messages h m)" "mQuitting q"
  shows "Handler_sendMessageAtTime self m w q h = Some (Inr False, q, Message_recycle m (retargeted self m h))"
  using assms by (simp add: Handler_sendMessageAtTime_def MessageQueue_enqueueMessage_def Let_def)

lemma sendMessageAtTime_in_use:
  assumes "isInUse (messages h m)"
  shows "Handler_sendMessageAtTime self m w q h = Some (Inl IllegalStateException, q, retargeted self m h)"
  using assms by (simp add: Handler_sendMessageAtTime_def MessageQueue_enqueueMessage_def Let_def)

text \<open>Obtaining a message, filling in fields other than links and flags, and sending it.\<close>

lemma send_obtained:
  assumes inv: "mq_inv q h xs ps" and "\<not> mQuitting q" and ob: "Message_obtain h = (m, h1)"
    and f: "\<And>x. prevMessage (f x) = prevMessage x \<and> nextMessage (f x) = nextMessage x \<and> flags (f x) = flags x"
  shows "\<exists>q' h'. Handler_sendMessageAtTime self m w q (upd_msg m f h1) = Some (Inr True, q', h') \<and>
    mq_inv q' h' (insert_by_time (\<lambda>a. whenMs (messages h a)) m w xs) (tl ps) \<and> m \<notin> set xs \<and>
    unlinked (messages h' m) = unlinked ((markInUse ((f Message_new)\<lparr>target := Some self\<rparr>))\<lparr>whenMs := w\<rparr>)"
proof -
  note mo = mq_inv_obtain[OF inv ob]
  have idle: "\<not> isInUse (messages h1 m)"
    by (simp add: mo(4) Message_new_def)
  have idle': "\<not> isInUse (messages (upd_msg m f h1) m)"
    using idle f by (simp add: isInUse_def)
  have "mq_inv q (upd_msg m f h1) xs (tl ps)"
    using mo(1) idle f by (rule mq_inv_upd_idle)
  from sendMessageAtTime_idle[OF this assms(2) idle', of self w] mo(3) obtain q' h' where
    r: "Handler_sendMessageAtTime self m w q (upd_msg m f h1) = Some (Inr True, q', h')"
    "mq_inv q' h' (insert_by_time (\<lambda>a. whenMs (messages (upd_msg m f h1) a)) m w xs) (tl ps)"
    "relinked (insert m (set xs)) (stamped m w (retargeted self m (upd_msg m f h1))) h'"
    by auto
  have "insert_by_time (\<lambda>a. whenMs (messages (upd_msg m f h1) a)) m w xs = insert_by_time (\<lambda>a. whenMs (messages h a)) m w xs"
    using mo(2,5) by (intro insert_by_time_cong) auto
  moreover have "unlinked (messages h' m) = unlinked ((markInUse ((f Message_new)\<lparr>target := Some self\<rparr>))\<lparr>whenMs := w\<rparr>)"
    using r(3) mo(4) by (simp add: relinked_def)
  ultimately show ?thesis
    using r(1,2) mo(2) by auto
qed

text \<open>
  \<open>Handler::postDelayed\<close> on a live queue posts the runnable: a message with this callback and this
  handler as its target enters the queue, ordered by its due time. The due time is the current time plus the
  delay modulo \<open>2 ^ 32\<close> (and modulo \<open>2 ^ 64\<close>), because \<open>sendMessageDelayed\<close> takes the delay as a
  32-bit value.
\<close>

theorem postDelayed_due_time:
  assumes "mq_inv q h xs ps" and "\<not> mQuitting q"
  shows "\<exists>m w q' h'. Handler_postDelayed now self (Some r) delay q h = Some (Inr (Some r), q', h') \<and>
    mq_inv q' h' (insert_by_time (\<lambda>a. whenMs (messages h a)) m w xs) (tl ps) \<and> m \<notin> set xs \<and>
    callback (messages h' m) = Some r \<and> target (messages h' m) = Some self \<and> whenMs (messages h' m) = w \<and>
    unat w = (unat now + unat delay mod 2 ^ 32) mod 2 ^ 64"
proof -
  obtain m h1 where ob: "Message_obtain h = (m, h1)" by fastforce
  let ?w = "now + ucast (ucast delay :: uint32) :: uint64"
  obtain q' h' where r: "Handler_sendMessageAtTime self m ?w q (upd_msg m (\<lambda>x. x\<lparr>callback := Some r\<rparr>) h1) = Some (Inr True, q', h')"
    "mq_inv q' h' (insert_by_time (\<lambda>a. whenMs (messages h a)) m ?w xs) (tl ps)" "m \<notin> set xs"
    "unlinked (messages h' m) = unlinked ((markInUse (Message_new\<lparr>callback := Some r, target := Some self\<rparr>))\<lparr>whenMs := ?w\<rparr>)"
    using send_obtained[OF assms ob, of "\<lambda>x. x\<lparr>callback := Some r\<rparr>" self ?w] by auto
  have "Handler_postDelayed now self (Some r) delay q h = Some (Inr (Some r), q', h')"
    using r(1) ob by (simp add: Handler_postDelayed_def Handler_getPostMessage_def Handler_sendMessageDelayed_def posted_def)
  moreover have "callback (messages h' m) = Some r" "target (messages h' m) = Some self" "whenMs (messages h' m) = ?w"
    using unlinked_eqD(1,3,5)[OF r(4)] by simp_all
  moreover have "unat ?w = (unat now + unat delay mod 2 ^ 32) mod 2 ^ 64"
    by (simp add: unat_word_ariths unsigned_ucast_eq take_bit_eq_mod)
  ultimately show ?thesis
    using r(2,3) by blast
qed

theorem postDelayed_due_time_witness:
  "\<exists>m w q' h'. Handler_postDelayed 100 7 (Some 3) (2 ^ 32 + 5) (MessageQueue_new True) example_heap =
      Some (Inr (Some 3), q', h') \<and> whenMs (messages h' m) = w \<and> unat w = 105"
proof -
  have *: "\<not> mQuitting (MessageQueue_new True)" by (simp add: MessageQueue_new_def)
  show ?thesis
    using postDelayed_due_time[OF example_heap_inv(1) *, of 100 7 3 "2 ^ 32 + 5"] by auto
qed

lemma mq_inv_retarget:
  assumes inv: "mq_inv q h xs ps" and iu: "isInUse (messages h m)" and mps: "m \<notin> set ps"
  shows "mq_inv q (retargeted self m h) xs ps"
proof -
  let ?h = "retargeted self m h"
  have seg: "dll_seg (messages ?h) None xs None = dll_seg (messages h) None xs None"
    by (intro dll_seg_links_cong) auto
  have "sorted (map (\<lambda>a. whenMs (messages ?h a)) xs) = sorted (map (\<lambda>a. whenMs (messages h a)) xs)"
    by (intro sorted_map_cong) auto
  then have "queued_ok ?h xs"
    using inv unfolding queued_ok_def mq_inv_def by (auto simp: queued_ok_def)
  moreover have "idle_unlinked ?h"
    using inv iu by (auto simp: mq_inv_def idle_unlinked_def)
  ultimately show ?thesis
    using inv seg mps by (auto simp: mq_inv_def mq_rep_def pool_inv_def)
qed

text \<open>
  Sending a message that is still in use (pending, or being dispatched) is refused with
  \<open>IllegalStateException\<close>, and the queue keeps its list; but the refused call has already changed the
  target of the message, so a pending message of another handler is redirected.
\<close>

theorem sendMessage_in_use_redirects:
  assumes "mq_inv q h xs ps" and "m \<in> set xs"
  shows "\<exists>h'. Handler_sendMessage now self m q h = Some (Inl IllegalStateException, q, h') \<and>
    mq_inv q h' xs ps \<and> target (messages h' m) = Some self"
proof -
  have iu: "isInUse (messages h m)" "m \<notin> set ps"
    using assms by (auto simp: mq_inv_def queued_ok_def)
  show ?thesis
    using mq_inv_retarget[OF assms(1) iu, of self] sendMessageAtTime_in_use[OF iu(1), of self "now + 0" q]
    by (auto simp: Handler_sendMessage_def Handler_sendMessageDelayed_def)
qed

theorem sendMessage_in_use_redirects_witness:
  "target (messages example_queued_heap 0) = Some 7 \<and>
   (\<exists>h'. Handler_sendMessage 1 8 0 example_queue example_queued_heap = Some (Inl IllegalStateException, example_queue, h') \<and>
      mq_inv example_queue h' [0] [] \<and> target (messages h' 0) = Some 8)"
  using sendMessage_in_use_redirects[OF example_queue_inv, of 0 1 8] by (simp add: example_queued_fields)

section \<open>The loop\<close>

lemma mq_inv_recycle_foreign:
  assumes inv: "mq_inv q h xs ps" and m: "m \<notin> set xs" "m \<notin> set ps" "m < nextAddr h"
  shows "\<exists>ps'. mq_inv q (Message_recycle m h) xs ps' \<and> set ps' \<subseteq> insert m (set ps)"
proof -
  let ?h = "Message_recycle m h" and ?ps = "if poolSize h < poolMaxSize h then m # ps else ps"
  have "pool_inv ?h ?ps"
    using inv m by (intro pool_inv_recycle) (auto simp: mq_inv_def)
  moreover have "queued_ok ?h xs = queued_ok h xs"
    using m(1) by (intro queued_ok_cong) (auto simp: Message_recycle_alt)
  moreover have "idle_unlinked ?h"
    using inv by (auto simp: mq_inv_def idle_unlinked_def Message_recycle_alt)
  moreover have "mq_rep q (messages ?h) xs"
    using inv m(1) by (simp add: mq_inv_def mq_rep_def Message_recycle_alt)
  ultimately have "mq_inv q ?h xs ?ps"
    using inv m by (auto simp: mq_inv_def)
  then show ?thesis by (intro exI[of _ ?ps]) auto
qed

text \<open>
  A turn of \<open>Looper::loop\<close> on a well-formed queue never dereferences a null target. It returns from
  the loop exactly when the queue quits, waits when nothing is due, and otherwise hands the head
  to its target and recycles it; a handler that leaves the queue alone then finds the rest of
  the queue well formed.
\<close>

theorem loop_turn_safe:
  assumes inv: "mq_inv q h xs ps"
  shows "case xs of
      [] \<Rightarrow> Looper_loop_turn dispatch now q h = Inr (if mQuitting q then Loop_return else Loop_await None, q, h)
    | m # ms \<Rightarrow>
        if now < whenMs (messages h m) then \<exists>t. Looper_loop_turn dispatch now q h = Inr (Loop_await (Some t), q, h)
        else \<exists>tgt q' h' ps'. target (messages h m) = Some tgt \<and>
          mq_inv q' h' ms ps \<and> messages h' m = unlinked (messages h m) \<and>
          Looper_loop_turn dispatch now q h =
            Inr (Loop_again m, fst (dispatch tgt m (q', h')), Message_recycle m (snd (dispatch tgt m (q', h')))) \<and>
          mq_inv q' (Message_recycle m h') ms ps'"
proof (cases xs)
  case Nil
  then show ?thesis
    using inv by (auto simp: Looper_loop_turn_def MessageQueue_dequeueMessage_def mq_inv_def mq_rep_def)
next
  case (Cons m ms)
  show ?thesis
  proof (cases "now < whenMs (messages h m)")
    case True
    then show ?thesis
      using inv Cons by (auto simp: Looper_loop_turn_def MessageQueue_dequeueMessage_def mq_inv_def mq_rep_def)
  next
    case False
    then obtain q' h' where r: "MessageQueue_dequeueMessage now q h = (Dequeue_message m, q', h')"
      "mq_inv q' h' ms ps" "messages h' m = unlinked (messages h m)" "relinked (set (m # ms)) h h'"
      using dequeueMessage_take[of q h m ms ps now] inv Cons by (auto simp: not_less)
    obtain tgt where t: "target (messages h m) = Some tgt" and m: "m \<notin> set ms" "m \<notin> set ps" "m < nextAddr h'"
      using inv Cons relinked_fields(1)[OF r(4)] by (auto simp: mq_inv_def mq_rep_def queued_ok_def)
    have "target (messages h' m) = Some tgt"
      using t r(3) by (simp add: unlinked_def)
    then have "Looper_loop_turn dispatch now q h =
        Inr (Loop_again m, fst (dispatch tgt m (q', h')), Message_recycle m (snd (dispatch tgt m (q', h'))))"
      using r(1) by (simp add: Looper_loop_turn_def split: prod.splits)
    then show ?thesis
      using mq_inv_recycle_foreign[OF r(2) m] r(2,3) t Cons False by auto
  qed
qed

theorem loop_turn_safe_witness:
  "\<exists>q' h' ps'. Looper_loop_turn (\<lambda>t m s. s) 9 example_queue example_queued_heap =
      Inr (Loop_again 0, q', Message_recycle 0 h') \<and> mq_inv q' (Message_recycle 0 h') [] ps'"
  using loop_turn_safe[OF example_queue_inv, of "\<lambda>t m s. s" 9] by (auto simp: example_queued_fields)

section \<open>Interleaving of a looper with its clients\<close>

text \<open>
  The state of one looper thread and its clients. \<open>current\<close> is the message that the loop dispatches,
  \<open>returned\<close> says that \<open>Looper::loop\<close> has returned. \<open>sent\<close>, \<open>dispatched\<close> (with the due time and the time of
  dispatch) and \<open>dropped\<close> record the history.
\<close>

record 'b loop_state =
  lsQueue :: message_queue
  lsHeap :: "'b message_heap"
  lsNow :: uint64
  current :: "addr option"
  returned :: bool
  sent :: "addr list"
  dispatched :: "(addr \<times> uint64 \<times> uint64) list"
  dropped :: "addr list"

definition loop_init :: "bool \<Rightarrow> (ref \<Rightarrow> 'b) \<Rightarrow> 'b loop_state" where
  "loop_init quitAllowed bs =
     \<lparr>lsQueue = MessageQueue_new quitAllowed, lsHeap = MessagePool_new bs, lsNow = 0, current = None,
      returned = False, sent = [], dispatched = [], dropped = []\<rparr>"

text \<open>
  A client step obtains a message, sends one that is not in use, tries to send one that is in use and has
  a target, removes messages or quits; the loop takes a due message, recycles it after its
  dispatch, or returns; time passes.
\<close>

inductive loop_step :: "'b loop_state \<Rightarrow> 'b loop_state \<Rightarrow> bool" where
  tick: "lsNow s \<le> t \<Longrightarrow> loop_step s (s\<lparr>lsNow := t\<rparr>)"
| obtain_message: "Message_obtain_handler tgt (lsHeap s) = (a, h) \<Longrightarrow> loop_step s (s\<lparr>lsHeap := h\<rparr>)"
| send: "\<not> isInUse (messages (lsHeap s) m) \<Longrightarrow> m < nextAddr (lsHeap s) \<Longrightarrow>
    Handler_sendMessageAtTime self m w (lsQueue s) (lsHeap s) = Some (Inr ok, q, h) \<Longrightarrow>
    loop_step s (s\<lparr>lsQueue := q, lsHeap := h, sent := (if ok then sent s @ [m] else sent s)\<rparr>)"
| send_in_use: "isInUse (messages (lsHeap s) m) \<Longrightarrow> target (messages (lsHeap s) m) \<noteq> None \<Longrightarrow>
    Handler_sendMessageAtTime self m w (lsQueue s) (lsHeap s) = Some (r, q, h) \<Longrightarrow>
    loop_step s (s\<lparr>lsQueue := q, lsHeap := h\<rparr>)"
| remove: "mq_rep (lsQueue s) (messages (lsHeap s)) xs \<Longrightarrow>
    MessageQueue_removeCallbacksAndMessages (Some tgt) ob (lsQueue s) (lsHeap s) = Some (found, q, h) \<Longrightarrow>
    loop_step s (s\<lparr>lsQueue := q, lsHeap := h,
      dropped := dropped s @ filter (\<lambda>a. match_token tgt ob (messages (lsHeap s) a)) xs\<rparr>)"
| quit: "mq_rep (lsQueue s) (messages (lsHeap s)) xs \<Longrightarrow> MessageQueue_quit (lsQueue s) (lsHeap s) = Some (True, q, h) \<Longrightarrow>
    loop_step s (s\<lparr>lsQueue := q, lsHeap := h, dropped := dropped s @ xs\<rparr>)"
| loop_take: "current s = None \<Longrightarrow> \<not> returned s \<Longrightarrow>
    MessageQueue_dequeueMessage (lsNow s) (lsQueue s) (lsHeap s) = (Dequeue_message m, q, h) \<Longrightarrow>
    loop_step s (s\<lparr>lsQueue := q, lsHeap := h, current := Some m,
      dispatched := dispatched s @ [(m, whenMs (messages (lsHeap s) m), lsNow s)]\<rparr>)"
| loop_recycle: "current s = Some m \<Longrightarrow>
    loop_step s (s\<lparr>lsHeap := Message_recycle m (lsHeap s), current := None\<rparr>)"
| loop_return: "current s = None \<Longrightarrow> \<not> returned s \<Longrightarrow>
    MessageQueue_dequeueMessage (lsNow s) (lsQueue s) (lsHeap s) = (Dequeue_null, q, h) \<Longrightarrow>
    loop_step s (s\<lparr>lsQueue := q, lsHeap := h, returned := True\<rparr>)"

inductive loop_reachable :: "bool \<Rightarrow> (ref \<Rightarrow> 'b) \<Rightarrow> 'b loop_state \<Rightarrow> bool" for quitAllowed bs where
  init: "loop_reachable quitAllowed bs (loop_init quitAllowed bs)"
| step: "loop_reachable quitAllowed bs s \<Longrightarrow> loop_step s s' \<Longrightarrow> loop_reachable quitAllowed bs s'"

definition current_ok :: "'b loop_state \<Rightarrow> addr list \<Rightarrow> bool" where
  "current_ok s xs \<longleftrightarrow>
     (\<forall>m. current s = Some m \<longrightarrow>
        m \<notin> set xs \<and> m < nextAddr (lsHeap s) \<and> isInUse (messages (lsHeap s) m) \<and>
        target (messages (lsHeap s) m) \<noteq> None)"

definition accounted :: "'b loop_state \<Rightarrow> addr list \<Rightarrow> bool" where
  "accounted s xs \<longleftrightarrow> mset (sent s) = mset (map fst (dispatched s)) + mset (dropped s) + mset xs"

definition never_early :: "'b loop_state \<Rightarrow> bool" where
  "never_early s \<longleftrightarrow> (\<forall>(m, due, t) \<in> set (dispatched s). due \<le> t \<and> t \<le> lsNow s)"

definition loop_list_inv :: "'b loop_state \<Rightarrow> addr list \<Rightarrow> bool" where
  "loop_list_inv s xs \<longleftrightarrow> (\<exists>ps. mq_inv (lsQueue s) (lsHeap s) xs ps) \<and> current_ok s xs \<and> accounted s xs"

definition loop_inv :: "'b loop_state \<Rightarrow> bool" where
  "loop_inv s \<longleftrightarrow>
     (\<exists>xs. loop_list_inv s xs) \<and> never_early s \<and> (returned s \<longrightarrow> mQuitting (lsQueue s))"

lemma loop_list_invI:
  "mq_inv (lsQueue s) (lsHeap s) xs ps \<Longrightarrow> current_ok s xs \<Longrightarrow> accounted s xs \<Longrightarrow> loop_list_inv s xs"
  by (auto simp: loop_list_inv_def)

lemma dll_seg_unique:
  "dll_seg ms p xs None \<Longrightarrow> dll_seg ms p' ys None \<Longrightarrow> hd_opt xs = hd_opt ys \<Longrightarrow> xs = ys"
proof (induction xs arbitrary: p p' ys)
  case Nil
  then show ?case by (metis hd_or_simps(1,4))
next
  case (Cons x xs)
  then obtain ys' where "ys = x # ys'"
    by (metis hd_opt_SomeE hd_or_simps(2))
  with Cons show ?case by auto
qed

lemma mq_rep_unique: "mq_rep q ms xs \<Longrightarrow> mq_rep q ms ys \<Longrightarrow> xs = ys"
  unfolding mq_rep_def by (metis dll_seg_unique)

lemma target_not_pooled: "mq_inv q h xs ps \<Longrightarrow> target (messages h m) \<noteq> None \<Longrightarrow> m \<notin> set ps"
  by (auto simp: mq_inv_def pool_inv_def dest: pool_chain_recycled)

lemma loop_inv_send:
  assumes inv: "loop_list_inv s xs" and m: "\<not> isInUse (messages (lsHeap s) m)" "m < nextAddr (lsHeap s)"
    and snd: "Handler_sendMessageAtTime self m w (lsQueue s) (lsHeap s) = Some (Inr ok, q, h)"
  shows "\<exists>ys. loop_list_inv (s\<lparr>lsQueue := q, lsHeap := h, sent := (if ok then sent s @ [m] else sent s)\<rparr>) ys"
    "mQuitting q = mQuitting (lsQueue s)"
proof -
  let ?q = "lsQueue s" and ?h = "lsHeap s"
  obtain ps where mi: "mq_inv ?q ?h xs ps"
    using inv by (auto simp: loop_list_inv_def)
  have "(\<exists>ys. loop_list_inv (s\<lparr>lsQueue := q, lsHeap := h, sent := (if ok then sent s @ [m] else sent s)\<rparr>) ys) \<and>
    mQuitting q = mQuitting ?q"
  proof (cases "mQuitting ?q")
    case True
    then have r: "ok = False" "q = ?q" "h = Message_recycle m (retargeted self m ?h)"
      using snd sendMessageAtTime_quitting[OF m(1) True] by auto
    have "mq_inv ?q (retargeted self m ?h) xs ps"
      using mi m(1) by (rule mq_inv_upd_idle) simp
    moreover have "m \<notin> set xs" "m \<notin> set ps"
      using mi m(1) by (auto simp: mq_inv_def queued_ok_def pool_inv_def dest: pool_chain_recycled)
    ultimately obtain ps' where "mq_inv ?q h xs ps'"
      using mq_inv_recycle_foreign[of ?q "retargeted self m ?h" xs ps m] m(2) r(3) by auto
    moreover have "current s \<noteq> Some m"
      using inv m(1) by (auto simp: loop_list_inv_def current_ok_def)
    ultimately have "loop_list_inv (s\<lparr>lsQueue := ?q, lsHeap := h\<rparr>) xs"
      using inv by (intro loop_list_invI[of _ _ ps'])
        (auto simp: loop_list_inv_def current_ok_def accounted_def r(3) Message_recycle_alt)
    then show ?thesis
      using r by auto
  next
    case False
    let ?ys = "insert_by_time (\<lambda>a. whenMs (messages ?h a)) m w xs"
    have r: "ok" "mq_inv q h ?ys ps" "mQuitting q = mQuitting ?q"
      and rl: "relinked (insert m (set xs)) (stamped m w (retargeted self m ?h)) h"
      using sendMessageAtTime_idle[OF mi False m, of self w] snd by auto
    note f = relinked_fields[OF rl]
    have "current s \<noteq> Some m"
      using inv m(1) by (auto simp: loop_list_inv_def current_ok_def)
    then have "loop_list_inv (s\<lparr>lsQueue := q, lsHeap := h, sent := sent s @ [m]\<rparr>) ?ys"
      using inv r f(1) f(9) f(10) by (auto simp: loop_list_inv_def current_ok_def accounted_def mset_insert_by_time)
    then show ?thesis
      using r by auto
  qed
  then show "\<exists>ys. loop_list_inv (s\<lparr>lsQueue := q, lsHeap := h, sent := (if ok then sent s @ [m] else sent s)\<rparr>) ys"
    "mQuitting q = mQuitting (lsQueue s)" by auto
qed

lemma loop_inv_take:
  assumes inv: "loop_list_inv s xs" and c: "current s = None"
    and deq: "MessageQueue_dequeueMessage (lsNow s) (lsQueue s) (lsHeap s) = (Dequeue_message m, q, h)"
  shows "\<exists>ys. loop_list_inv (s\<lparr>lsQueue := q, lsHeap := h, current := Some m,
      dispatched := dispatched s @ [(m, whenMs (messages (lsHeap s) m), lsNow s)]\<rparr>) ys \<and>
    whenMs (messages (lsHeap s) m) \<le> lsNow s \<and> mQuitting q = mQuitting (lsQueue s)"
proof -
  obtain ps where mi: "mq_inv (lsQueue s) (lsHeap s) xs ps"
    using inv by (auto simp: loop_list_inv_def)
  obtain ys where xs: "xs = m # ys" and due: "whenMs (messages (lsHeap s) m) \<le> lsNow s"
    using deq mi by (cases xs) (auto simp: MessageQueue_dequeueMessage_def mq_inv_def mq_rep_def Let_def not_less
        split: if_splits option.splits prod.splits)
  have r: "mq_inv q h ys ps" "mQuitting q = mQuitting (lsQueue s)" and rl: "relinked (set (m # ys)) (lsHeap s) h"
    using dequeueMessage_take[of "lsQueue s" "lsHeap s" m ys ps "lsNow s"] mi xs due deq by auto
  note f = relinked_fields[OF rl]
  have "m \<notin> set ys" "m < nextAddr h" "isInUse (messages h m)" "target (messages h m) \<noteq> None"
    using mi xs by (auto simp: mq_inv_def mq_rep_def queued_ok_def f(1) f(9) f(10))
  then have "loop_list_inv (s\<lparr>lsQueue := q, lsHeap := h, current := Some m,
      dispatched := dispatched s @ [(m, whenMs (messages (lsHeap s) m), lsNow s)]\<rparr>) ys"
    using r(1) inv xs by (intro loop_list_invI[of _ _ ps])
      (auto simp: loop_list_inv_def current_ok_def accounted_def)
  then show ?thesis
    using r(2) due by blast
qed


lemma loop_inv_trimmed:
  assumes inv: "loop_list_inv s xs" and mi: "mq_inv q h (filter (\<lambda>a. \<not> P a) xs) ps"
    and tr: "trimmed (set xs) (filter P xs) (lsHeap s) h"
  shows "loop_list_inv (s\<lparr>lsQueue := q, lsHeap := h, dropped := dropped s @ filter P xs\<rparr>) (filter (\<lambda>a. \<not> P a) xs)"
proof -
  have "messages h m = messages (lsHeap s) m" if "current s = Some m" for m
    using that inv tr by (auto simp: loop_list_inv_def current_ok_def trimmed_def)
  moreover have "nextAddr h = nextAddr (lsHeap s)"
    using tr by (simp add: trimmed_def)
  moreover have "mset xs = mset (filter P xs) + mset (filter (\<lambda>a. \<not> P a) xs)"
    by simp
  ultimately show ?thesis
    using inv mi by (intro loop_list_invI[of _ _ ps])
      (auto simp: loop_list_inv_def current_ok_def accounted_def simp del: mset_filter)
qed

lemma loop_inv_obtain:
  assumes inv: "loop_list_inv s xs" and ob: "Message_obtain_handler tgt (lsHeap s) = (a, h)"
  shows "loop_list_inv (s\<lparr>lsHeap := h\<rparr>) xs"
proof -
  obtain ps where mi: "mq_inv (lsQueue s) (lsHeap s) xs ps"
    using inv by (auto simp: loop_list_inv_def)
  then have pinv: "pool_inv (lsHeap s) ps" by (simp add: mq_inv_def)
  obtain h1 where h1: "Message_obtain (lsHeap s) = (a, h1)" "h = upd_msg a (\<lambda>m. m\<lparr>target := tgt\<rparr>) h1"
    using ob by (auto simp: Message_obtain_handler_def split: prod.splits)
  have a: "a \<in> set ps \<or> a = nextAddr (lsHeap s)" and na: "nextAddr (lsHeap s) \<le> nextAddr h"
    using h1 by (cases ps; auto simp: Message_obtain_cases[OF pinv])+
  have "m \<noteq> a \<and> messages h m = messages (lsHeap s) m" if "current s = Some m" for m
  proof -
    have m: "m < nextAddr (lsHeap s)" "m \<notin> set ps"
      using that inv target_not_pooled[OF mi] by (auto simp: loop_list_inv_def current_ok_def)
    then have "m \<noteq> a" using a by auto
    then show ?thesis
      using pool_inv_obtain(5)[OF pinv h1(1)] by (simp add: h1(2))
  qed
  then show ?thesis
    using inv na mq_inv_obtain_handler(1)[OF mi ob] by (intro loop_list_invI[of _ _ "tl ps"])
      (auto simp: loop_list_inv_def current_ok_def accounted_def)
qed

lemma loop_step_preserves_inv:
  assumes "loop_step s s'" "loop_inv s"
  shows "loop_inv s'"
proof -
  obtain xs ps where li: "loop_list_inv s xs" and mi: "mq_inv (lsQueue s) (lsHeap s) xs ps"
    and ne: "never_early s" and rq: "returned s \<longrightarrow> mQuitting (lsQueue s)"
    using assms(2) by (auto simp: loop_inv_def loop_list_inv_def)
  have rep: "ys = xs" if "mq_rep (lsQueue s) (messages (lsHeap s)) ys" for ys
    using that mi mq_rep_unique by (auto simp: mq_inv_def)
  show ?thesis
    using assms(1)
  proof cases
    case (tick t)
    then show ?thesis
      using li ne rq
      by (fastforce simp: loop_inv_def loop_list_inv_def current_ok_def accounted_def never_early_def)
  next
    case (obtain_message tgt a h)
    then show ?thesis
      using loop_inv_obtain[OF li] ne rq by (auto simp: loop_inv_def never_early_def)
  next
    case (send m self w ok q h)
    then show ?thesis
      using loop_inv_send[OF li send(2-4)] ne rq by (auto simp: loop_inv_def never_early_def)
  next
    case (send_in_use m self w r q h)
    then have eqs: "q = lsQueue s" "h = retargeted self m (lsHeap s)"
      using sendMessageAtTime_in_use[OF send_in_use(2)] by auto
    have "mq_inv q h xs ps"
      using mq_inv_retarget[OF mi send_in_use(2) target_not_pooled[OF mi send_in_use(3)]] eqs by simp
    then have "loop_list_inv s' xs"
      using li send_in_use(1) eqs by (intro loop_list_invI[of _ _ ps])
        (auto simp: loop_list_inv_def current_ok_def accounted_def)
    then show ?thesis
      using send_in_use(1) eqs ne rq by (auto simp: loop_inv_def never_early_def)
  next
    case (remove ys tgt ob found q h)
    obtain ps' where r: "mq_inv q h (filter (\<lambda>a. \<not> match_token tgt ob (messages (lsHeap s) a)) xs) ps'"
      "trimmed (set xs) (filter (\<lambda>a. match_token tgt ob (messages (lsHeap s) a)) xs) (lsHeap s) h"
      "mQuitting q = mQuitting (lsQueue s)"
      using remove_matching_removes(3)[OF mi, of tgt ob] remove(3)
      by (auto simp: removes_def MessageQueue_removeCallbacksAndMessages_def)
    then show ?thesis
      using loop_inv_trimmed[OF li r(1,2)] remove(1) rep[OF remove(2)] ne rq by (auto simp: loop_inv_def never_early_def)
  next
    case (quit ys q h)
    then have "mQuitAllowed (lsQueue s)"
      by (auto simp: MessageQueue_quit_def split: if_splits)
    then obtain ps' where r: "mq_inv q h [] ps'" "mQuitting q" "trimmed (set xs) xs (lsHeap s) h"
      using quit_inv[OF mi] quit(3) by auto
    then show ?thesis
      using loop_inv_trimmed[OF li, of q h "\<lambda>_. True" ps'] quit(1) rep[OF quit(2)] ne
      by (auto simp: loop_inv_def never_early_def)
  next
    case (loop_take m q h)
    then show ?thesis
      using loop_inv_take[OF li loop_take(2,4)] ne rq by (auto simp: loop_inv_def never_early_def)
  next
    case (loop_recycle m)
    have m: "m \<notin> set xs" "m \<notin> set ps" "m < nextAddr (lsHeap s)"
      using li loop_recycle(2) target_not_pooled[OF mi] by (auto simp: loop_list_inv_def current_ok_def)
    obtain ps' where "mq_inv (lsQueue s) (Message_recycle m (lsHeap s)) xs ps'"
      using mq_inv_recycle_foreign[OF mi m] by auto
    then have "loop_list_inv s' xs"
      using li loop_recycle(1) by (intro loop_list_invI[of _ _ ps'])
        (auto simp: loop_list_inv_def current_ok_def accounted_def)
    then show ?thesis
      using loop_recycle(1) ne rq by (auto simp: loop_inv_def never_early_def)
  next
    case (loop_return q h)
    then have "q = lsQueue s" "h = lsHeap s" "mQuitting q"
      by (auto simp: MessageQueue_dequeueMessage_def Let_def split: if_splits option.splits prod.splits)
    then show ?thesis
      using loop_return(1) li ne
      by (auto simp: loop_inv_def loop_list_inv_def current_ok_def accounted_def never_early_def)
  qed
qed

lemma loop_reachable_inv: "loop_reachable quitAllowed bs s \<Longrightarrow> loop_inv s"
proof (induction rule: loop_reachable.induct)
  case init
  have "loop_list_inv (loop_init quitAllowed bs) []"
    using mq_inv_new by (intro loop_list_invI) (auto simp: loop_init_def current_ok_def accounted_def)
  then show ?case
    by (auto simp: loop_inv_def never_early_def loop_init_def)
next
  case (step s s')
  then show ?case by (blast intro: loop_step_preserves_inv)
qed

text \<open>
  (C1) In every state that a looper and its clients can reach, whatever the interleaving of sends,
  removals, a quit and the turns of the loop: the queue is well formed; every message that was
  accepted has been dispatched, has been dropped by a removal or by quit, or is still pending, each
  exactly once per send; no message was dispatched before its due time; and once the loop has
  returned nothing is pending.
\<close>

theorem loop_accounts_for_every_message:
  assumes "loop_reachable quitAllowed bs s"
  shows "\<exists>xs ps. mq_inv (lsQueue s) (lsHeap s) xs ps \<and>
    mset (sent s) = mset (map fst (dispatched s)) + mset (dropped s) + mset xs \<and>
    (\<forall>(m, due, t) \<in> set (dispatched s). due \<le> t \<and> t \<le> lsNow s) \<and> (returned s \<longrightarrow> xs = [])"
proof -
  obtain xs ps where i: "mq_inv (lsQueue s) (lsHeap s) xs ps" "accounted s xs" "never_early s"
    "returned s \<longrightarrow> mQuitting (lsQueue s)"
    using loop_reachable_inv[OF assms] by (auto simp: loop_inv_def loop_list_inv_def)
  then have "returned s \<longrightarrow> xs = []"
    by (simp add: mq_inv_def)
  then show ?thesis
    using i by (auto simp: accounted_def never_early_def)
qed

lemma loop_example:
  "\<exists>s. loop_reachable True (\<lambda>_. 0 :: nat) s \<and> sent s = [0] \<and> dispatched s = [(0, 5, 9)]"
proof -
  let ?R = "loop_reachable True (\<lambda>_. 0 :: nat)" and ?s0 = "loop_init True (\<lambda>_. 0 :: nat)"
  have "Message_obtain_handler (Some 7) (lsHeap ?s0) = (0, example_heap)"
    by (simp add: loop_init_def example_heap_def Message_obtain_handler_def Message_obtain_def
        Message_alloc_def MessagePool_new_def)
  then have r1: "?R (?s0\<lparr>lsHeap := example_heap\<rparr>)"
    by (rule loop_reachable.step[OF loop_reachable.init loop_step.obtain_message])
  have "\<not> mQuitting (MessageQueue_new True)" by (simp add: MessageQueue_new_def)
  then obtain q h where q: "Handler_sendMessageAtTime 7 0 5 (MessageQueue_new True) example_heap = Some (Inr True, q, h)"
    "mq_inv q h [0] []" "relinked {0} (stamped 0 5 (retargeted 7 0 example_heap)) h"
    using sendMessageAtTime_idle[OF example_heap_inv(1)[of True], of 0 7 5] example_heap_inv(3,4)
    by (auto simp: insert_by_time_def)
  let ?s2 = "?s0\<lparr>lsQueue := q, lsHeap := h, sent := [0]\<rparr>"
  have r2: "?R ?s2"
    using loop_step.send[of "?s0\<lparr>lsHeap := example_heap\<rparr>" 0 7 5 True q h] q(1) example_heap_inv(3,4)
    by (auto intro: loop_reachable.step[OF r1] simp: loop_init_def)
  have r3: "?R (?s2\<lparr>lsNow := 9\<rparr>)"
    by (rule loop_reachable.step[OF r2 loop_step.tick]) (simp add: loop_init_def)
  have w: "whenMs (messages h 0) = 5"
    using relinked_fields(8)[OF q(3), of 0] by simp
  then obtain q' h' where "MessageQueue_dequeueMessage 9 q h = (Dequeue_message 0, q', h')"
    using dequeueMessage_take[OF q(2), of 9] by auto
  then have "?R (?s2\<lparr>lsNow := 9, lsQueue := q', lsHeap := h', current := Some 0, dispatched := [(0, 5, 9)]\<rparr>)"
    using loop_step.loop_take[of "?s2\<lparr>lsNow := 9\<rparr>" 0 q' h'] w
    by (auto intro: loop_reachable.step[OF r3] simp: loop_init_def)
  then show ?thesis
    by (rule exI[of _ "?s2\<lparr>lsNow := 9, lsQueue := q', lsHeap := h', current := Some 0, dispatched := [(0, 5, 9)]\<rparr>",
          OF conjI]) (simp add: loop_init_def)
qed

theorem loop_accounts_for_every_message_witness:
  "\<exists>s xs ps. loop_reachable True (\<lambda>_. 0 :: nat) s \<and> mq_inv (lsQueue s) (lsHeap s) xs ps \<and>
     mset (sent s) = mset (map fst (dispatched s)) + mset (dropped s) + mset xs \<and> dispatched s = [(0, 5, 9)]"
proof -
  obtain s where "loop_reachable True (\<lambda>_. 0 :: nat) s" "dispatched s = [(0, 5, 9)]"
    using loop_example by blast
  then show ?thesis
    using loop_accounts_for_every_message[of True "\<lambda>_. 0" s] by blast
qed

text \<open>
  A thread has at most one looper: \<open>Looper::prepare\<close> gives a thread without a looper a fresh one,
  with an empty queue, and changes no other thread; a second call throws \<open>RuntimeException\<close>, and so does
  \<open>Looper::loop\<close> on a thread that was not prepared.
\<close>

theorem looper_once_per_thread:
  "(tls t = None \<longrightarrow>
      Looper_loop_enter t tls = Inl RuntimeException \<and>
      (\<exists>tls'. Looper_prepare quitAllowed t tls = Inr tls' \<and> (\<forall>u. u \<noteq> t \<longrightarrow> tls' u = tls u) \<and>
         Looper_prepare quitAllowed' t tls' = Inl RuntimeException \<and>
         (\<exists>l. Looper_loop_enter t tls' = Inr l \<and> mThread l = t \<and> mq_inv (mMessageQueue l) (MessagePool_new bs) [] []))) \<and>
   (tls t \<noteq> None \<longrightarrow> Looper_prepare quitAllowed t tls = Inl RuntimeException)"
  using mq_inv_new
  by (auto simp: Looper_prepare_def Looper_loop_enter_def Looper_myLooper_def Looper_new_def)

theorem looper_once_per_thread_witness:
  "\<exists>tls'. Looper_prepare True 4 (\<lambda>_. None) = Inr tls' \<and> Looper_prepare True 4 tls' = Inl RuntimeException"
  using looper_once_per_thread[of "\<lambda>_. None" 4 True True] by auto

end
