(* ===== verification/Bytes.thy ===== *)
theory Bytes
  imports Prelude
begin

text \<open>
  Byte arrays (\<open>lang/ByteArray\<close>), the raw memory operations that the code applies to them, and the
  representation of integers as bytes.

  A byte array is the list of its bytes. \<open>size_t\<close> is a 64-bit word, so that the sums in the bounds checks
  wrap; an array is shorter than \<open>2 ^ 64\<close> bytes. Access through a raw pointer is \<open>Undefined\<close> unless all its
  bytes lie inside the array. \<open>float\<close> and \<open>double\<close> are their IEEE bit patterns.
\<close>

type_synonym size_t = uint64
type_synonym bytes = "uint8 list"

section \<open>Raw memory\<close>

definition read_at :: "nat \<Rightarrow> nat \<Rightarrow> 'a list \<Rightarrow> 'a list" where
  "read_at p n xs = take n (drop p xs)"

definition write_at :: "nat \<Rightarrow> 'a list \<Rightarrow> 'a list \<Rightarrow> 'a list" where
  "write_at p new xs = take p xs @ new @ drop (p + length new) xs"

definition raw_read :: "nat \<Rightarrow> nat \<Rightarrow> bytes \<Rightarrow> bytes result" where
  "raw_read p n bs = (if p + n \<le> length bs then Inr (read_at p n bs) else Inl Undefined)"

definition raw_write :: "nat \<Rightarrow> bytes \<Rightarrow> bytes \<Rightarrow> bytes result" where
  "raw_write p new bs = (if p + length new \<le> length bs then Inr (write_at p new bs) else Inl Undefined)"

text \<open>\<open>std::memcmp\<close> of \<open>n\<close> bytes; only the sign of its result is specified.\<close>

fun memcmp :: "bytes \<Rightarrow> bytes \<Rightarrow> int" where
  "memcmp (x # xs) (y # ys) = (if x < y then - 1 else if y < x then 1 else memcmp xs ys)"
| "memcmp _ _ = 0"

section \<open>ByteArray\<close>

definition ByteArray_new :: "size_t \<Rightarrow> bytes" where
  "ByteArray_new n = replicate (unat n) 0"

definition ByteArray_size :: "bytes \<Rightarrow> size_t" where
  "ByteArray_size bs = of_nat (length bs)"

definition ByteArray_of_buffer :: "bytes \<Rightarrow> size_t \<Rightarrow> bytes result" where
  "ByteArray_of_buffer buffer n = raw_read 0 (unat n) buffer"

definition ByteArray_clone :: "bytes \<Rightarrow> bytes" where
  "ByteArray_clone bs = bs"

definition ByteArray_get :: "size_t \<Rightarrow> bytes \<Rightarrow> uint8 result" where
  "ByteArray_get position bs =
     (if position \<ge> ByteArray_size bs then Inl IndexOutOfBoundsException else Inr (bs ! unat position))"

definition ByteArray_set :: "size_t \<Rightarrow> uint8 \<Rightarrow> bytes \<Rightarrow> bytes result" where
  "ByteArray_set position value bs =
     (if position \<ge> ByteArray_size bs then Inl IndexOutOfBoundsException else Inr (bs[unat position := value]))"

definition ByteArray_equals :: "bytes \<Rightarrow> bytes option \<Rightarrow> bool" where
  "ByteArray_equals a other =
     (case other of
        None \<Rightarrow> False
      | Some b \<Rightarrow> ByteArray_size a = ByteArray_size b \<and> memcmp (read_at 0 (length a) a) (read_at 0 (length a) b) = 0)"

section \<open>System::arraycopy\<close>

text \<open>
  Between two different arrays. The check adds in \<open>size_t\<close>; \<open>memcpy\<close> then touches the bytes themselves.
\<close>

definition arraycopy :: "bytes option \<Rightarrow> size_t \<Rightarrow> bytes option \<Rightarrow> size_t \<Rightarrow> size_t \<Rightarrow> bytes result" where
  "arraycopy src srcPos dst destPos n =
     (case (src, dst) of
        (Some s, Some d) \<Rightarrow>
          if srcPos + n > ByteArray_size s \<or> destPos + n > ByteArray_size d
          then Inl IndexOutOfBoundsException
          else bind_result (raw_read (unat srcPos) (unat n) s) (\<lambda>bs. raw_write (unat destPos) bs d)
      | _ \<Rightarrow> Inl NullPointerException)"

text \<open>Within one array: \<open>memcpy\<close> on overlapping ranges is undefined.\<close>

definition arraycopy_within :: "size_t \<Rightarrow> size_t \<Rightarrow> size_t \<Rightarrow> bytes \<Rightarrow> bytes result" where
  "arraycopy_within srcPos destPos n bs =
     (if srcPos + n > ByteArray_size bs \<or> destPos + n > ByteArray_size bs
      then Inl IndexOutOfBoundsException
      else if n \<noteq> 0 \<and> unat srcPos < unat destPos + unat n \<and> unat destPos < unat srcPos + unat n
      then Inl Undefined
      else bind_result (raw_read (unat srcPos) (unat n) bs) (\<lambda>new. raw_write (unat destPos) new bs))"

section \<open>Integers as bytes\<close>

text \<open>The bytes of a word in memory, least significant first (a little-endian host).\<close>

definition word_bytes :: "nat \<Rightarrow> 'a::len word \<Rightarrow> bytes" where
  "word_bytes n w = map (\<lambda>i. ucast (drop_bit (8 * i) w)) [0..<n]"

fun bytes_word :: "bytes \<Rightarrow> 'a::len word" where
  "bytes_word [] = 0"
| "bytes_word (b # bs) = ucast b OR push_bit 8 (bytes_word bs)"

lemma length_word_bytes [simp]: "length (word_bytes n w) = n"
  by (simp add: word_bytes_def)

lemma bit_bytes_word:
  "bit (bytes_word bs :: 'a::len word) i \<longleftrightarrow> i < LENGTH('a) \<and> i div 8 < length bs \<and> bit (bs ! (i div 8)) (i mod 8)"
proof (induction bs arbitrary: i)
  case (Cons b bs)
  show ?case
  proof (cases "i < 8")
    case True
    then show ?thesis by (auto simp: bit_simps)
  next
    case False
    then obtain j where j: "i = 8 + j" by (metis le_Suc_ex not_less)
    have "\<not> bit b i" using False by (auto dest: bit_imp_le_length)
    moreover have "(8 + j) div 8 = Suc (j div 8)" by simp
    ultimately show ?thesis using Cons.IH[of j] by (auto simp: bit_simps j)
  qed
qed (simp add: bit_simps)

lemma bytes_word_word_bytes [simp]:
  assumes "LENGTH('a) \<le> 8 * n"
  shows "bytes_word (word_bytes n w) = (w :: 'a::len word)"
proof (rule bit_word_eqI)
  fix i assume i: "i < LENGTH('a)"
  then have "i div 8 < n" using assms by linarith
  then show "bit (bytes_word (word_bytes n w) :: 'a word) i \<longleftrightarrow> bit w i"
    using i by (simp add: bit_bytes_word word_bytes_def bit_simps)
qed

section \<open>Memory lemmas\<close>

lemma length_write_at [simp]: "p + length new \<le> length xs \<Longrightarrow> length (write_at p new xs) = length xs"
  by (simp add: write_at_def)

lemma length_read_at [simp]: "p + n \<le> length xs \<Longrightarrow> length (read_at p n xs) = n"
  by (simp add: read_at_def)

lemma nth_write_at:
  "p + length new \<le> length xs \<Longrightarrow> i < length xs \<Longrightarrow>
     write_at p new xs ! i = (if p \<le> i \<and> i < p + length new then new ! (i - p) else xs ! i)"
  by (auto simp: write_at_def nth_append min_def)

lemma nth_read_at: "i < n \<Longrightarrow> p + n \<le> length xs \<Longrightarrow> read_at p n xs ! i = xs ! (p + i)"
  by (simp add: read_at_def)

lemma read_write_same [simp]: "p + length new \<le> length xs \<Longrightarrow> read_at p (length new) (write_at p new xs) = new"
  by (simp add: read_at_def write_at_def)

lemma read_write_other:
  "p + length new \<le> length xs \<Longrightarrow> q + n \<le> length xs \<Longrightarrow> q + n \<le> p \<or> p + length new \<le> q \<Longrightarrow>
     read_at q n (write_at p new xs) = read_at q n xs"
  by (rule nth_equalityI) (auto simp: nth_read_at nth_write_at)

lemma memcmp_eq_0: "length xs = length ys \<Longrightarrow> memcmp xs ys = 0 \<longleftrightarrow> xs = ys"
  by (induction xs ys rule: list_induct2) auto

lemma of_nat_size: "length bs < 2 ^ 64 \<Longrightarrow> unat (ByteArray_size bs) = length bs"
  by (simp add: ByteArray_size_def take_bit_nat_eq_self unat_of_nat)

end
