(* ===== verification/Byte_Buffers.thy ===== *)
theory Byte_Buffers
  imports Bytes
begin

text \<open>
  The buffers of \<open>src/mindroid/nio\<close>: \<open>Buffer\<close> (position, limit, capacity), \<open>ByteBuffer\<close> and its only
  implementation \<open>ByteArrayBuffer\<close>.

  \<open>duplicate\<close>, \<open>slice\<close> and \<open>wrap\<close> share a byte array between buffers, so the arrays live in a store and a
  buffer holds the reference. An operation returns its result (or the exception) together with the buffer
  it leaves behind, because some operations change the position before they throw. Every size and index is
  a 64-bit word, and every sum of the code wraps. Reads and writes of more than a byte go through
  a raw pointer and are \<open>Undefined\<close> outside the array.

  The first group of lemmas is about the invariant \<open>bb_inv\<close>, the second about reading back what was written.
\<close>

section \<open>Buffer\<close>

record buffer =
  mPosition :: size_t
  mLimit :: size_t
  mCapacity :: size_t
  mReadOnly :: bool

definition Buffer_clear :: "'z buffer_scheme \<Rightarrow> 'z buffer_scheme" where
  "Buffer_clear b = b\<lparr>mLimit := mCapacity b, mPosition := 0\<rparr>"

definition Buffer_flip :: "'z buffer_scheme \<Rightarrow> 'z buffer_scheme" where
  "Buffer_flip b = b\<lparr>mLimit := mPosition b, mPosition := 0\<rparr>"

definition Buffer_hasRemaining :: "'z buffer_scheme \<Rightarrow> bool" where
  "Buffer_hasRemaining b = (mPosition b < mLimit b)"

definition Buffer_setLimit :: "size_t \<Rightarrow> 'z buffer_scheme \<Rightarrow> 'z buffer_scheme result" where
  "Buffer_setLimit newLimit b =
     (if newLimit > mCapacity b then Inl BufferOverflowException else Inr (b\<lparr>mLimit := newLimit\<rparr>))"

definition Buffer_setPosition :: "size_t \<Rightarrow> 'z buffer_scheme \<Rightarrow> 'z buffer_scheme result" where
  "Buffer_setPosition newPosition b =
     (if newPosition > mLimit b then Inl BufferOverflowException else Inr (b\<lparr>mPosition := newPosition\<rparr>))"

definition Buffer_remaining :: "'z buffer_scheme \<Rightarrow> size_t" where
  "Buffer_remaining b = (if mPosition b < mLimit b then mLimit b - mPosition b else 0)"

definition Buffer_rewind :: "'z buffer_scheme \<Rightarrow> 'z buffer_scheme" where
  "Buffer_rewind b = b\<lparr>mPosition := 0\<rparr>"

section \<open>ByteBuffer\<close>

type_synonym array_ref = nat
type_synonym arrays = "array_ref \<Rightarrow> bytes"

record byte_buffer = buffer +
  mBuffer :: array_ref
  mOffset :: size_t

definition ByteBuffer_new ::
  "array_ref \<Rightarrow> size_t \<Rightarrow> size_t \<Rightarrow> size_t \<Rightarrow> bool \<Rightarrow> size_t \<Rightarrow> arrays \<Rightarrow> byte_buffer result" where
  "ByteBuffer_new buffer position limit capacity readOnly offset s =
     (if position > limit then Inl IndexOutOfBoundsException
      else if limit > capacity then Inl IndexOutOfBoundsException
      else if capacity > ByteArray_size (s buffer) then Inl IndexOutOfBoundsException
      else if offset + limit > ByteArray_size (s buffer) then Inl IndexOutOfBoundsException
      else Inr \<lparr>mPosition = position, mLimit = limit, mCapacity = capacity, mReadOnly = readOnly,
             mBuffer = buffer, mOffset = offset\<rparr>)"

definition ByteArrayBuffer_new :: "array_ref option \<Rightarrow> size_t \<Rightarrow> size_t \<Rightarrow> arrays \<Rightarrow> byte_buffer result" where
  "ByteArrayBuffer_new byteArray offset count s =
     bind_result (deref byteArray) (\<lambda>r. ByteBuffer_new r 0 count count False offset s)"

text \<open>\<open>fresh\<close> is the reference of the new array.\<close>

definition ByteBuffer_allocate :: "array_ref \<Rightarrow> size_t \<Rightarrow> arrays \<Rightarrow> byte_buffer result \<times> arrays" where
  "ByteBuffer_allocate fresh capacity s =
     (let s' = s(fresh := ByteArray_new capacity)
      in (ByteArrayBuffer_new (Some fresh) 0 (ByteArray_size (s' fresh)) s', s'))"

definition ByteBuffer_wrap :: "array_ref option \<Rightarrow> arrays \<Rightarrow> byte_buffer result" where
  "ByteBuffer_wrap array s =
     bind_result (deref array) (\<lambda>r. ByteArrayBuffer_new array 0 (ByteArray_size (s r)) s)"

definition ByteBuffer_wrap_part :: "array_ref option \<Rightarrow> size_t \<Rightarrow> size_t \<Rightarrow> arrays \<Rightarrow> byte_buffer result" where
  "ByteBuffer_wrap_part array offset count s = ByteArrayBuffer_new array offset count s"

definition checkBufferOverflow :: "size_t \<Rightarrow> size_t \<Rightarrow> byte_buffer \<Rightarrow> unit result" where
  "checkBufferOverflow index amount b =
     (if index + amount > mLimit b then Inl BufferOverflowException else Inr ())"

definition checkBufferUnderflow :: "size_t \<Rightarrow> size_t \<Rightarrow> byte_buffer \<Rightarrow> unit result" where
  "checkBufferUnderflow index amount b =
     (if index + amount > mLimit b then Inl BufferUnderflowException else Inr ())"

text \<open>\<open>memcmp\<close> from \<open>c_arr() + mPosition\<close>, without \<open>mOffset\<close>, and the difference of the remaining counts as \<open>int32_t\<close>.\<close>

definition ByteBuffer_compareTo :: "byte_buffer \<Rightarrow> byte_buffer \<Rightarrow> arrays \<Rightarrow> int result" where
  "ByteBuffer_compareTo a b s =
     (let count = (if Buffer_remaining a < Buffer_remaining b then Buffer_remaining a else Buffer_remaining b)
      in bind_result (raw_read (unat (mPosition a)) (unat count) (s (mBuffer a))) (\<lambda>x.
         bind_result (raw_read (unat (mPosition b)) (unat count) (s (mBuffer b))) (\<lambda>y.
           let comparison = memcmp x y in
           if comparison \<noteq> 0 then Inr comparison
           else Inr (sint (ucast (Buffer_remaining a - Buffer_remaining b) :: int32)))))"

definition ByteBuffer_equals :: "byte_buffer \<Rightarrow> byte_buffer \<Rightarrow> arrays \<Rightarrow> bool result" where
  "ByteBuffer_equals a b s = bind_result (ByteBuffer_compareTo a b s) (\<lambda>c. Inr (c = 0))"

subsection \<open>Reading\<close>

text \<open>The bytes behind the raw pointer \<open>c_arr() + mOffset + index\<close>, after the bounds check.\<close>

definition ByteBuffer_load :: "nat \<Rightarrow> size_t \<Rightarrow> byte_buffer \<Rightarrow> arrays \<Rightarrow> bytes result" where
  "ByteBuffer_load n index b s =
     bind_result (checkBufferUnderflow index (of_nat n) b)
       (\<lambda>_. raw_read (unat (mOffset b) + unat index) n (s (mBuffer b)))"

definition ByteBuffer_get_at :: "size_t \<Rightarrow> byte_buffer \<Rightarrow> arrays \<Rightarrow> uint8 result" where
  "ByteBuffer_get_at index b s =
     bind_result (checkBufferUnderflow index 1 b) (\<lambda>_. ByteArray_get (mOffset b + index) (s (mBuffer b)))"

definition ByteBuffer_get :: "byte_buffer \<Rightarrow> arrays \<Rightarrow> uint8 result \<times> byte_buffer" where
  "ByteBuffer_get b s =
     (let b' = b\<lparr>mPosition := mPosition b + 1\<rparr> in (ByteBuffer_get_at (mPosition b) b' s, b'))"

definition advance_after :: "size_t \<Rightarrow> 'a result \<Rightarrow> byte_buffer \<Rightarrow> 'a result \<times> byte_buffer" where
  "advance_after n r b = (case r of Inl e \<Rightarrow> (Inl e, b) | Inr v \<Rightarrow> (Inr v, b\<lparr>mPosition := mPosition b + n\<rparr>))"

definition ByteBuffer_getChar_at :: "size_t \<Rightarrow> byte_buffer \<Rightarrow> arrays \<Rightarrow> uint8 result" where
  "ByteBuffer_getChar_at index b s =
     bind_result (checkBufferUnderflow index 1 b) (\<lambda>_. ByteArray_get (mOffset b + index) (s (mBuffer b)))"

definition ByteBuffer_getChar :: "byte_buffer \<Rightarrow> arrays \<Rightarrow> uint8 result \<times> byte_buffer" where
  "ByteBuffer_getChar b s = advance_after 1 (ByteBuffer_getChar_at (mPosition b) b s) b"

definition ByteBuffer_getDouble_at :: "size_t \<Rightarrow> byte_buffer \<Rightarrow> arrays \<Rightarrow> uint64 result" where
  "ByteBuffer_getDouble_at index b s = bind_result (ByteBuffer_load 8 index b s) (\<lambda>bs. Inr (bytes_word bs))"

definition ByteBuffer_getDouble :: "byte_buffer \<Rightarrow> arrays \<Rightarrow> uint64 result \<times> byte_buffer" where
  "ByteBuffer_getDouble b s = advance_after 8 (ByteBuffer_getDouble_at (mPosition b) b s) b"

definition ByteBuffer_getFloat_at :: "size_t \<Rightarrow> byte_buffer \<Rightarrow> arrays \<Rightarrow> uint32 result" where
  "ByteBuffer_getFloat_at index b s = bind_result (ByteBuffer_load 4 index b s) (\<lambda>bs. Inr (bytes_word bs))"

definition ByteBuffer_getFloat :: "byte_buffer \<Rightarrow> arrays \<Rightarrow> uint32 result \<times> byte_buffer" where
  "ByteBuffer_getFloat b s = advance_after 4 (ByteBuffer_getFloat_at (mPosition b) b s) b"

definition ByteBuffer_getInt_at :: "size_t \<Rightarrow> byte_buffer \<Rightarrow> arrays \<Rightarrow> int32 result" where
  "ByteBuffer_getInt_at index b s = bind_result (ByteBuffer_load 4 index b s) (\<lambda>bs. Inr (bytes_word bs))"

definition ByteBuffer_getInt :: "byte_buffer \<Rightarrow> arrays \<Rightarrow> int32 result \<times> byte_buffer" where
  "ByteBuffer_getInt b s = advance_after 4 (ByteBuffer_getInt_at (mPosition b) b s) b"

definition ByteBuffer_getLong_at :: "size_t \<Rightarrow> byte_buffer \<Rightarrow> arrays \<Rightarrow> int64 result" where
  "ByteBuffer_getLong_at index b s = bind_result (ByteBuffer_load 8 index b s) (\<lambda>bs. Inr (bytes_word bs))"

definition ByteBuffer_getLong :: "byte_buffer \<Rightarrow> arrays \<Rightarrow> int64 result \<times> byte_buffer" where
  "ByteBuffer_getLong b s = advance_after 8 (ByteBuffer_getLong_at (mPosition b) b s) b"

definition ByteBuffer_getShort_at :: "size_t \<Rightarrow> byte_buffer \<Rightarrow> arrays \<Rightarrow> int16 result" where
  "ByteBuffer_getShort_at index b s = bind_result (ByteBuffer_load 2 index b s) (\<lambda>bs. Inr (bytes_word bs))"

definition ByteBuffer_getShort :: "byte_buffer \<Rightarrow> arrays \<Rightarrow> int16 result \<times> byte_buffer" where
  "ByteBuffer_getShort b s = advance_after 2 (ByteBuffer_getShort_at (mPosition b) b s) b"

text \<open>A copy between two arrays of the store, which may be the same array.\<close>

definition store_arraycopy ::
  "array_ref option \<Rightarrow> size_t \<Rightarrow> array_ref option \<Rightarrow> size_t \<Rightarrow> size_t \<Rightarrow> arrays \<Rightarrow> arrays result" where
  "store_arraycopy src srcPos dst destPos n s =
     (case (src, dst) of
        (Some a, Some d) \<Rightarrow>
          bind_result (if a = d then arraycopy_within srcPos destPos n (s a)
                       else arraycopy (Some (s a)) srcPos (Some (s d)) destPos n)
            (\<lambda>bs. Inr (s(d := bs)))
      | _ \<Rightarrow> Inl NullPointerException)"

definition ByteBuffer_get_bytes ::
  "array_ref option \<Rightarrow> size_t \<Rightarrow> size_t \<Rightarrow> byte_buffer \<Rightarrow> arrays \<Rightarrow> arrays result \<times> byte_buffer" where
  "ByteBuffer_get_bytes dst offset count b s =
     (case dst of
        None \<Rightarrow> (Inl NullPointerException, b)
      | Some d \<Rightarrow>
          if offset + count > ByteArray_size (s d) then (Inl IndexOutOfBoundsException, b)
          else advance_after count
            (bind_result (checkBufferUnderflow (mPosition b) count b)
               (\<lambda>_. store_arraycopy (Some (mBuffer b)) (mOffset b + mPosition b) dst offset count s)) b)"

definition ByteBuffer_get_all :: "array_ref option \<Rightarrow> byte_buffer \<Rightarrow> arrays \<Rightarrow> arrays result \<times> byte_buffer" where
  "ByteBuffer_get_all dst b s =
     (case dst of
        None \<Rightarrow> (Inl Undefined, b)
      | Some d \<Rightarrow> ByteBuffer_get_bytes dst 0 (ByteArray_size (s d)) b s)"

subsection \<open>Writing\<close>

definition ByteBuffer_store :: "size_t \<Rightarrow> bytes \<Rightarrow> byte_buffer \<Rightarrow> arrays \<Rightarrow> arrays result" where
  "ByteBuffer_store index new b s =
     bind_result (checkBufferOverflow index (of_nat (length new)) b) (\<lambda>_.
       bind_result (raw_write (unat (mOffset b) + unat index) new (s (mBuffer b)))
         (\<lambda>bs. Inr (s(mBuffer b := bs))))"

definition ByteBuffer_put_at :: "size_t \<Rightarrow> uint8 \<Rightarrow> byte_buffer \<Rightarrow> arrays \<Rightarrow> arrays result" where
  "ByteBuffer_put_at index value b s =
     bind_result (checkBufferOverflow index 1 b) (\<lambda>_.
       bind_result (ByteArray_set (mOffset b + index) value (s (mBuffer b))) (\<lambda>bs. Inr (s(mBuffer b := bs))))"

definition ByteBuffer_put :: "uint8 \<Rightarrow> byte_buffer \<Rightarrow> arrays \<Rightarrow> arrays result \<times> byte_buffer" where
  "ByteBuffer_put value b s =
     (let b' = b\<lparr>mPosition := mPosition b + 1\<rparr> in (ByteBuffer_put_at (mPosition b) value b' s, b'))"

definition ByteBuffer_putChar_at :: "size_t \<Rightarrow> uint8 \<Rightarrow> byte_buffer \<Rightarrow> arrays \<Rightarrow> arrays result" where
  "ByteBuffer_putChar_at index value b s =
     bind_result (checkBufferOverflow index 1 b) (\<lambda>_.
       bind_result (ByteArray_set (mOffset b + index) value (s (mBuffer b))) (\<lambda>bs. Inr (s(mBuffer b := bs))))"

definition ByteBuffer_putChar :: "uint8 \<Rightarrow> byte_buffer \<Rightarrow> arrays \<Rightarrow> arrays result \<times> byte_buffer" where
  "ByteBuffer_putChar value b s =
     (let b' = b\<lparr>mPosition := mPosition b + 1\<rparr> in (ByteBuffer_put_at (mPosition b) value b' s, b'))"

definition ByteBuffer_putDouble_at :: "size_t \<Rightarrow> uint64 \<Rightarrow> byte_buffer \<Rightarrow> arrays \<Rightarrow> arrays result" where
  "ByteBuffer_putDouble_at index value b s = ByteBuffer_store index (word_bytes 8 value) b s"

definition ByteBuffer_putDouble :: "uint64 \<Rightarrow> byte_buffer \<Rightarrow> arrays \<Rightarrow> arrays result \<times> byte_buffer" where
  "ByteBuffer_putDouble value b s = advance_after 8 (ByteBuffer_putDouble_at (mPosition b) value b s) b"

definition ByteBuffer_putFloat_at :: "size_t \<Rightarrow> uint32 \<Rightarrow> byte_buffer \<Rightarrow> arrays \<Rightarrow> arrays result" where
  "ByteBuffer_putFloat_at index value b s = ByteBuffer_store index (word_bytes 4 value) b s"

definition ByteBuffer_putFloat :: "uint32 \<Rightarrow> byte_buffer \<Rightarrow> arrays \<Rightarrow> arrays result \<times> byte_buffer" where
  "ByteBuffer_putFloat value b s = advance_after 4 (ByteBuffer_putFloat_at (mPosition b) value b s) b"

definition ByteBuffer_putInt_at :: "size_t \<Rightarrow> int32 \<Rightarrow> byte_buffer \<Rightarrow> arrays \<Rightarrow> arrays result" where
  "ByteBuffer_putInt_at index value b s = ByteBuffer_store index (word_bytes 4 value) b s"

definition ByteBuffer_putInt :: "int32 \<Rightarrow> byte_buffer \<Rightarrow> arrays \<Rightarrow> arrays result \<times> byte_buffer" where
  "ByteBuffer_putInt value b s = advance_after 4 (ByteBuffer_putInt_at (mPosition b) value b s) b"

definition ByteBuffer_putLong_at :: "size_t \<Rightarrow> int64 \<Rightarrow> byte_buffer \<Rightarrow> arrays \<Rightarrow> arrays result" where
  "ByteBuffer_putLong_at index value b s = ByteBuffer_store index (word_bytes 8 value) b s"

definition ByteBuffer_putLong :: "int64 \<Rightarrow> byte_buffer \<Rightarrow> arrays \<Rightarrow> arrays result \<times> byte_buffer" where
  "ByteBuffer_putLong value b s = advance_after 8 (ByteBuffer_putLong_at (mPosition b) value b s) b"

definition ByteBuffer_putShort_at :: "size_t \<Rightarrow> int16 \<Rightarrow> byte_buffer \<Rightarrow> arrays \<Rightarrow> arrays result" where
  "ByteBuffer_putShort_at index value b s = ByteBuffer_store index (word_bytes 2 value) b s"

definition ByteBuffer_putShort :: "int16 \<Rightarrow> byte_buffer \<Rightarrow> arrays \<Rightarrow> arrays result \<times> byte_buffer" where
  "ByteBuffer_putShort value b s = advance_after 2 (ByteBuffer_putShort_at (mPosition b) value b s) b"

definition ByteBuffer_put_bytes ::
  "array_ref option \<Rightarrow> size_t \<Rightarrow> size_t \<Rightarrow> byte_buffer \<Rightarrow> arrays \<Rightarrow> arrays result \<times> byte_buffer" where
  "ByteBuffer_put_bytes src offset count b s =
     (case src of
        None \<Rightarrow> (Inl NullPointerException, b)
      | Some r \<Rightarrow>
          if offset + count > ByteArray_size (s r) then (Inl IndexOutOfBoundsException, b)
          else advance_after count
            (bind_result (checkBufferOverflow (mPosition b) count b)
               (\<lambda>_. store_arraycopy src offset (Some (mBuffer b)) (mOffset b + mPosition b) count s)) b)"

definition ByteBuffer_put_all :: "array_ref option \<Rightarrow> byte_buffer \<Rightarrow> arrays \<Rightarrow> arrays result \<times> byte_buffer" where
  "ByteBuffer_put_all byteArray b s =
     (case byteArray of
        None \<Rightarrow> (Inl Undefined, b)
      | Some r \<Rightarrow> ByteBuffer_put_bytes byteArray 0 (ByteArray_size (s r)) b s)"

section \<open>ByteArrayBuffer\<close>

definition ByteArrayBuffer_compact :: "byte_buffer \<Rightarrow> arrays \<Rightarrow> (byte_buffer \<times> arrays) result" where
  "ByteArrayBuffer_compact b s =
     bind_result (raw_read (unat (mOffset b) + unat (mPosition b)) (unat (Buffer_remaining b)) (s (mBuffer b))) (\<lambda>x.
     bind_result (raw_write (unat (mOffset b)) x (s (mBuffer b))) (\<lambda>bs.
       Inr (b\<lparr>mPosition := mLimit b - mPosition b, mLimit := mCapacity b\<rparr>, s(mBuffer b := bs))))"

definition ByteArrayBuffer_duplicate :: "byte_buffer \<Rightarrow> arrays \<Rightarrow> byte_buffer result" where
  "ByteArrayBuffer_duplicate b s =
     ByteBuffer_new (mBuffer b) (mPosition b) (mLimit b) (mCapacity b) False (mOffset b) s"

definition ByteArrayBuffer_slice :: "byte_buffer \<Rightarrow> arrays \<Rightarrow> byte_buffer result" where
  "ByteArrayBuffer_slice b s =
     ByteBuffer_new (mBuffer b) 0 (Buffer_remaining b) (Buffer_remaining b) False (mPosition b + mOffset b) s"

section \<open>The invariant\<close>

definition bb_inv :: "byte_buffer \<Rightarrow> arrays \<Rightarrow> bool" where
  "bb_inv b s \<longleftrightarrow> mPosition b \<le> mLimit b \<and> mLimit b \<le> mCapacity b \<and>
     unat (mOffset b) + unat (mCapacity b) \<le> length (s (mBuffer b)) \<and> length (s (mBuffer b)) < 2 ^ 63"

lemma bb_inv_nat:
  assumes "bb_inv b s"
  shows "unat (mPosition b) \<le> unat (mLimit b)" and "unat (mLimit b) \<le> unat (mCapacity b)"
    and "unat (mOffset b) + unat (mCapacity b) \<le> length (s (mBuffer b))" and "length (s (mBuffer b)) < 2 ^ 63"
  using assms by (simp_all add: bb_inv_def word_le_nat_alt)

lemma unat_add_small: "unat (x :: size_t) + n < 2 ^ 64 \<Longrightarrow> unat (x + of_nat n) = unat x + n"
  by (simp add: unat_word_ariths unat_of_nat take_bit_nat_eq_self)

lemma unat_add_small': "unat (x :: size_t) + unat y < 2 ^ 64 \<Longrightarrow> unat (x + y) = unat x + unat y"
  using unat_add_small[of x "unat y"] by simp

lemma check_small:
  assumes "unat index + n < 2 ^ 64"
  shows "index + of_nat n > mLimit b \<longleftrightarrow> unat (mLimit b) < unat index + n"
  using unat_add_small[OF assms] by (simp add: word_less_nat_alt)

lemma load_eq:
  assumes "bb_inv b s" and "unat index + n < 2 ^ 64"
  shows "ByteBuffer_load n index b s =
    (if unat index + n \<le> unat (mLimit b)
     then Inr (read_at (unat (mOffset b) + unat index) n (s (mBuffer b))) else Inl BufferUnderflowException)"
  using bb_inv_nat[OF assms(1)] check_small[OF assms(2), of b]
  by (auto simp: ByteBuffer_load_def checkBufferUnderflow_def raw_read_def)

lemma store_eq:
  assumes "bb_inv b s" and "unat index + length new < 2 ^ 64"
  shows "ByteBuffer_store index new b s =
    (if unat index + length new \<le> unat (mLimit b)
     then Inr (s(mBuffer b := write_at (unat (mOffset b) + unat index) new (s (mBuffer b))))
     else Inl BufferOverflowException)"
  using bb_inv_nat[OF assms(1)] check_small[OF assms(2), of b]
  by (auto simp: ByteBuffer_store_def checkBufferOverflow_def raw_write_def)

lemma bb_inv_advance:
  assumes "bb_inv b s" and "unat (mPosition b) + n \<le> unat (mLimit b)"
  shows "bb_inv (b\<lparr>mPosition := mPosition b + of_nat n\<rparr>) s"
    and "unat (mPosition b + of_nat n) = unat (mPosition b) + n"
proof -
  show u: "unat (mPosition b + of_nat n) = unat (mPosition b) + n"
    using assms bb_inv_nat[OF assms(1)] by (intro unat_add_small) simp
  show "bb_inv (b\<lparr>mPosition := mPosition b + of_nat n\<rparr>) s"
    using assms u by (simp add: bb_inv_def word_le_nat_alt)
qed

lemma bb_inv_write:
  "bb_inv b s \<Longrightarrow> p + length new \<le> length (s r) \<Longrightarrow> bb_inv b (s(r := write_at p new (s r)))"
  by (auto simp: bb_inv_def)

text \<open>
  What a relative read of \<open>n\<close> bytes does: it takes the next \<open>n\<close> bytes and moves the position, or throws
  and leaves the buffer as it is; never anything undefined. A relative write likewise.
\<close>

definition reads :: "nat \<Rightarrow> (bytes \<Rightarrow> 'a) \<Rightarrow> byte_buffer \<Rightarrow> arrays \<Rightarrow> 'a result \<times> byte_buffer \<Rightarrow> bool" where
  "reads n decode b s r \<longleftrightarrow>
     (if unat (mPosition b) + n \<le> unat (mLimit b)
      then \<exists>b'. r = (Inr (decode (read_at (unat (mOffset b) + unat (mPosition b)) n (s (mBuffer b)))), b') \<and>
        b' = b\<lparr>mPosition := mPosition b + of_nat n\<rparr> \<and> bb_inv b' s \<and> unat (mPosition b') = unat (mPosition b) + n
      else r = (Inl BufferUnderflowException, b))"

definition writes :: "bytes \<Rightarrow> byte_buffer \<Rightarrow> arrays \<Rightarrow> arrays result \<times> byte_buffer \<Rightarrow> bool" where
  "writes new b s r \<longleftrightarrow>
     (if unat (mPosition b) + length new \<le> unat (mLimit b)
      then \<exists>s' b'. r = (Inr s', b') \<and>
        s' = s(mBuffer b := write_at (unat (mOffset b) + unat (mPosition b)) new (s (mBuffer b))) \<and>
        b' = b\<lparr>mPosition := mPosition b + of_nat (length new)\<rparr> \<and> bb_inv b' s' \<and>
        unat (mPosition b') = unat (mPosition b) + length new
      else r = (Inl BufferOverflowException, b))"

lemma reads_load:
  assumes "bb_inv b s" and "n \<le> 8"
  shows "reads n decode b s
    (advance_after (of_nat n) (bind_result (ByteBuffer_load n (mPosition b) b s) (\<lambda>bs. Inr (decode bs))) b)"
proof -
  have "unat (mPosition b) + n < 2 ^ 64" using bb_inv_nat[OF assms(1)] assms(2) by simp
  then show ?thesis
    using bb_inv_advance[OF assms(1)] by (simp add: load_eq[OF assms(1)] reads_def advance_after_def)
qed

lemma writes_store:
  assumes "bb_inv b s" and "length new \<le> 8"
  shows "writes new b s (advance_after (of_nat (length new)) (ByteBuffer_store (mPosition b) new b s) b)"
proof -
  have small: "unat (mPosition b) + length new < 2 ^ 64" using bb_inv_nat[OF assms(1)] assms(2) by simp
  show ?thesis
  proof (cases "unat (mPosition b) + length new \<le> unat (mLimit b)")
    case True
    then have "unat (mOffset b) + unat (mPosition b) + length new \<le> length (s (mBuffer b))"
      using bb_inv_nat[OF assms(1)] by linarith
    then show ?thesis
      using bb_inv_advance[OF assms(1) True] True
      by (simp add: store_eq[OF assms(1) small] writes_def advance_after_def bb_inv_write)
  qed (simp add: store_eq[OF assms(1) small] writes_def advance_after_def)
qed

lemmas typed_defs =
  ByteBuffer_getShort_def ByteBuffer_getInt_def ByteBuffer_getLong_def ByteBuffer_getFloat_def ByteBuffer_getDouble_def
  ByteBuffer_getShort_at_def ByteBuffer_getInt_at_def ByteBuffer_getLong_at_def ByteBuffer_getFloat_at_def
  ByteBuffer_getDouble_at_def ByteBuffer_putShort_def ByteBuffer_putInt_def ByteBuffer_putLong_def
  ByteBuffer_putFloat_def ByteBuffer_putDouble_def ByteBuffer_putShort_at_def ByteBuffer_putInt_at_def
  ByteBuffer_putLong_at_def ByteBuffer_putFloat_at_def ByteBuffer_putDouble_at_def

lemma typed_reads:
  assumes "bb_inv b s"
  shows "reads 2 bytes_word b s (ByteBuffer_getShort b s)" and "reads 4 bytes_word b s (ByteBuffer_getInt b s)"
    and "reads 8 bytes_word b s (ByteBuffer_getLong b s)" and "reads 4 bytes_word b s (ByteBuffer_getFloat b s)"
    and "reads 8 bytes_word b s (ByteBuffer_getDouble b s)"
  using reads_load[OF assms, of 2 bytes_word] reads_load[OF assms, of 4 bytes_word] reads_load[OF assms, of 8 bytes_word]
  by (simp_all add: typed_defs)

lemma typed_writes:
  assumes "bb_inv b s"
  shows "writes (word_bytes 2 v2) b s (ByteBuffer_putShort v2 b s)" and "writes (word_bytes 4 v4) b s (ByteBuffer_putInt v4 b s)"
    and "writes (word_bytes 8 v8) b s (ByteBuffer_putLong v8 b s)" and "writes (word_bytes 4 f) b s (ByteBuffer_putFloat f b s)"
    and "writes (word_bytes 8 d) b s (ByteBuffer_putDouble d b s)"
  using writes_store[OF assms, of "word_bytes 2 v2"] writes_store[OF assms, of "word_bytes 4 v4"]
    writes_store[OF assms, of "word_bytes 8 v8"] writes_store[OF assms, of "word_bytes 4 f"]
    writes_store[OF assms, of "word_bytes 8 d"]
  by (simp_all add: typed_defs)

section \<open>Properties\<close>


definition example_buffer :: byte_buffer where
  "example_buffer = \<lparr>mPosition = 0, mLimit = 14, mCapacity = 16, mReadOnly = False, mBuffer = 0, mOffset = 1\<rparr>"

definition example_arrays :: arrays where
  "example_arrays = (\<lambda>_. replicate 17 0)"

lemma example_buffer_inv: "bb_inv example_buffer example_arrays"
  by (simp add: bb_inv_def example_buffer_def example_arrays_def)


lemma flip_inv: "bb_inv b s \<Longrightarrow> bb_inv (Buffer_flip b) s"
  by (auto simp: bb_inv_def Buffer_flip_def dest: order_trans)

lemma writesE:
  assumes "writes new b s r" and "unat (mPosition b) + length new \<le> unat (mLimit b)"
  obtains b' where "r = (Inr (s(mBuffer b := write_at (unat (mOffset b) + unat (mPosition b)) new (s (mBuffer b)))), b')"
    and "bb_inv b' (s(mBuffer b := write_at (unat (mOffset b) + unat (mPosition b)) new (s (mBuffer b))))"
    and "unat (mPosition b') = unat (mPosition b) + length new"
    and "mBuffer b' = mBuffer b" and "mOffset b' = mOffset b" and "mLimit b' = mLimit b"
  using assms by (auto simp: writes_def)

lemma readsE:
  assumes "reads n decode b s r" and "unat (mPosition b) + n \<le> unat (mLimit b)"
  obtains b' where "r = (Inr (decode (read_at (unat (mOffset b) + unat (mPosition b)) n (s (mBuffer b)))), b')"
    and "bb_inv b' s" and "unat (mPosition b') = unat (mPosition b) + n"
    and "mBuffer b' = mBuffer b" and "mOffset b' = mOffset b" and "mLimit b' = mLimit b"
  using assms by (auto simp: reads_def)

text \<open>
  Round trip. Writing a short, an int and a long with the relative operations at the start of a buffer with at least
  14 bytes, flipping it, and reading a short, an int and a long gives the three values back, for every
  value, and then nothing remains: a further read throws \<open>BufferUnderflowException\<close>.
\<close>

theorem ByteBuffer_put_flip_get:
  assumes inv: "bb_inv b s" and "mPosition b = 0" and lim: "14 \<le> unat (mLimit b)"
  shows "\<exists>s1 b1 s2 b2 s3 b3 r1 r2 r3. ByteBuffer_putShort x b s = (Inr s1, b1) \<and> ByteBuffer_putInt y b1 s1 = (Inr s2, b2) \<and>
    ByteBuffer_putLong z b2 s2 = (Inr s3, b3) \<and> ByteBuffer_getShort (Buffer_flip b3) s3 = (Inr x, r1) \<and>
    ByteBuffer_getInt r1 s3 = (Inr y, r2) \<and> ByteBuffer_getLong r2 s3 = (Inr z, r3) \<and> \<not> Buffer_hasRemaining r3 \<and>
    ByteBuffer_getShort r3 s3 = (Inl BufferUnderflowException, r3)"
proof -
  let ?o = "unat (mOffset b)" and ?r = "mBuffer b"
  have len: "?o + 14 \<le> length (s ?r)"
    using bb_inv_nat[OF inv] lim by linarith
  obtain b1 where 1: "ByteBuffer_putShort x b s = (Inr (s(?r := write_at ?o (word_bytes 2 x) (s ?r))), b1)"
    "bb_inv b1 (s(?r := write_at ?o (word_bytes 2 x) (s ?r)))" "unat (mPosition b1) = 2"
    "mBuffer b1 = ?r" "mOffset b1 = mOffset b" "mLimit b1 = mLimit b"
    using typed_writes(1)[OF inv, of x] assms by (auto elim: writesE)
  let ?s1 = "s(?r := write_at ?o (word_bytes 2 x) (s ?r))"
  let ?s2 = "s(?r := write_at (?o + 2) (word_bytes 4 y) (?s1 ?r))"
  obtain b2 where 2: "ByteBuffer_putInt y b1 ?s1 = (Inr ?s2, b2)" "bb_inv b2 ?s2" "unat (mPosition b2) = 6"
    "mBuffer b2 = ?r" "mOffset b2 = mOffset b" "mLimit b2 = mLimit b"
    using typed_writes(2)[OF 1(2), of y] 1(3-6) lim by (auto elim: writesE)
  let ?m = "write_at (?o + 6) (word_bytes 8 z) (?s2 ?r)"
  let ?s3 = "s(?r := ?m)"
  obtain b3 where 3: "ByteBuffer_putLong z b2 ?s2 = (Inr ?s3, b3)" "bb_inv b3 ?s3" "unat (mPosition b3) = 14"
    "mBuffer b3 = ?r" "mOffset b3 = mOffset b"
    using typed_writes(3)[OF 2(2), of z] 2(3-6) lim by (auto elim: writesE)
  have m: "read_at ?o 2 ?m = word_bytes 2 x" "read_at (?o + 2) 4 ?m = word_bytes 4 y" "read_at (?o + 6) 8 ?m = word_bytes 8 z"
    using len read_write_same[of ?o "word_bytes 2 x" "s ?r"] read_write_same[of "?o + 2" "word_bytes 4 y" "?s1 ?r"]
      read_write_same[of "?o + 6" "word_bytes 8 z" "?s2 ?r"] by (simp_all add: read_write_other)
  let ?f = "Buffer_flip b3"
  have f: "mPosition ?f = 0" "unat (mLimit ?f) = 14" "mBuffer ?f = ?r" "mOffset ?f = mOffset b"
    using 3 by (simp_all add: Buffer_flip_def)
  obtain r1 where r1: "ByteBuffer_getShort ?f ?s3 = (Inr x, r1)" "bb_inv r1 ?s3" "unat (mPosition r1) = 2"
    "mBuffer r1 = ?r" "mOffset r1 = mOffset b" "unat (mLimit r1) = 14"
    using typed_reads(1)[OF flip_inv[OF 3(2)]] f m(1) by (auto elim!: readsE)
  obtain r2 where r2: "ByteBuffer_getInt r1 ?s3 = (Inr y, r2)" "bb_inv r2 ?s3" "unat (mPosition r2) = 6"
    "mBuffer r2 = ?r" "mOffset r2 = mOffset b" "unat (mLimit r2) = 14"
    using typed_reads(2)[OF r1(2)] r1(3-6) m(2) by (auto elim!: readsE)
  obtain r3 where r3: "ByteBuffer_getLong r2 ?s3 = (Inr z, r3)" "bb_inv r3 ?s3" "unat (mPosition r3) = 14"
    "unat (mLimit r3) = 14"
    using typed_reads(3)[OF r2(2)] r2(3-6) m(3) by (auto elim!: readsE)
  have "\<not> Buffer_hasRemaining r3" "ByteBuffer_getShort r3 ?s3 = (Inl BufferUnderflowException, r3)"
    using r3 typed_reads(1)[OF r3(2)] by (simp_all add: Buffer_hasRemaining_def reads_def word_less_nat_alt)
  then show ?thesis
    using 1(1) 2(1) 3(1) r1(1) r2(1) r3(1) by blast
qed

theorem ByteBuffer_put_flip_get_witness:
  "\<exists>s1 b1 s2 b2 s3 b3 r1 r2. ByteBuffer_putShort 0xABCD example_buffer example_arrays = (Inr s1, b1) \<and>
     ByteBuffer_putInt 5 b1 s1 = (Inr s2, b2) \<and> ByteBuffer_putLong (- 1) b2 s2 = (Inr s3, b3) \<and>
     ByteBuffer_getShort (Buffer_flip b3) s3 = (Inr 0xABCD, r1) \<and> ByteBuffer_getInt r1 s3 = (Inr 5, r2)"
proof -
  have "mPosition example_buffer = 0" "14 \<le> unat (mLimit example_buffer)"
    by (simp_all add: example_buffer_def)
  from ByteBuffer_put_flip_get[OF example_buffer_inv this, of "0xABCD" 5 "- 1"] show ?thesis by blast
qed

text \<open>
  \<open>get\<close> and \<open>put\<close> of a single byte evaluate \<open>mPosition++\<close> before the bounds check. At the limit they throw, but
  the position is then one beyond the limit: the invariant is broken, \<open>duplicate\<close> of the buffer throws, and a
  second attempt moves it further. The typed operations leave the position alone when they throw.
\<close>

theorem ByteBuffer_get_at_limit_moves_position:
  assumes "bb_inv b s" and "mPosition b = mLimit b"
  shows "\<exists>b'. ByteBuffer_get b s = (Inl BufferUnderflowException, b') \<and> mPosition b' = mLimit b' + 1 \<and> \<not> bb_inv b' s \<and>
    ByteBuffer_put v b s = (Inl BufferOverflowException, b') \<and>
    ByteArrayBuffer_duplicate b' s = Inl IndexOutOfBoundsException \<and>
    ByteBuffer_getInt b s = (Inl BufferUnderflowException, b) \<and> ByteBuffer_putInt w b s = (Inl BufferOverflowException, b)"
proof -
  have up: "mLimit b < mLimit b + 1"
    using bb_inv_nat[OF assms(1)] unat_add_small[of "mLimit b" 1] by (simp add: word_less_nat_alt)
  then have "\<not> mLimit b + 1 \<le> mLimit b" by simp
  then show ?thesis
    using typed_reads(2)[OF assms(1)] typed_writes(2)[OF assms(1), of w] up assms
    by (simp add: ByteBuffer_get_def ByteBuffer_get_at_def ByteBuffer_put_def ByteBuffer_put_at_def
        checkBufferUnderflow_def checkBufferOverflow_def ByteArrayBuffer_duplicate_def ByteBuffer_new_def
        bb_inv_def reads_def writes_def)
qed

theorem ByteBuffer_get_at_limit_moves_position_witness:
  "\<exists>b'. ByteBuffer_get (example_buffer\<lparr>mPosition := 14\<rparr>) example_arrays = (Inl BufferUnderflowException, b') \<and> \<not> bb_inv b' example_arrays"
proof -
  have "bb_inv (example_buffer\<lparr>mPosition := 14\<rparr>) example_arrays" "mPosition (example_buffer\<lparr>mPosition := 14\<rparr>) = mLimit (example_buffer\<lparr>mPosition := 14\<rparr>)"
    by (simp_all add: example_buffer_def example_arrays_def bb_inv_def)
  from ByteBuffer_get_at_limit_moves_position[OF this] show ?thesis by blast
qed

text \<open>
  (C28) The bounds check of the absolute operations adds the size of the value to the index in \<open>size_t\<close>. An index within
  4 bytes of \<open>2 ^ 64\<close> wraps and passes the check of any buffer with a limit of 4 or more, and the access goes through
  a pointer outside the array; for every other index the check is exact.
\<close>

theorem ByteBuffer_absolute_index_wraps:
  assumes "bb_inv b s" and "4 \<le> unat (mLimit b)"
  shows "if unat index + 4 < 2 ^ 64
    then ByteBuffer_getInt_at index b s =
        (if unat index + 4 \<le> unat (mLimit b)
         then Inr (bytes_word (read_at (unat (mOffset b) + unat index) 4 (s (mBuffer b)))) else Inl BufferUnderflowException) \<and>
      (ByteBuffer_putInt_at index v b s = Inl BufferOverflowException \<longleftrightarrow> unat (mLimit b) < unat index + 4)
    else ByteBuffer_getInt_at index b s = Inl Undefined \<and> ByteBuffer_putInt_at index v b s = Inl Undefined"
proof (cases "unat index + 4 < 2 ^ 64")
  case True
  then show ?thesis
    using load_eq[OF assms(1), of index 4] store_eq[OF assms(1), of index "word_bytes 4 v"] by (simp add: typed_defs)
next
  case False
  moreover have "unat index < 2 ^ 64"
    using unsigned_less[of index] by simp
  ultimately have "(unat index + 4) mod 2 ^ 64 = unat index + 4 - 2 ^ 64" "unat index + 4 - 2 ^ 64 < 4"
    by (simp_all add: le_mod_geq)
  then have "unat (index + 4) < 4"
    by (simp add: unat_word_ariths)
  then have pass: "\<not> mLimit b < index + 4" "\<not> mLimit b < 4 + index"
    using assms(2) by (simp_all add: word_less_nat_alt add.commute)
  have "\<not> unat (mOffset b) + unat index + 4 \<le> length (s (mBuffer b))"
    using False bb_inv_nat[OF assms(1)] by simp
  then show ?thesis
    using False pass
    by (simp add: typed_defs ByteBuffer_load_def ByteBuffer_store_def checkBufferUnderflow_def
        checkBufferOverflow_def raw_read_def raw_write_def)
qed

theorem ByteBuffer_absolute_index_wraps_witness:
  "ByteBuffer_getInt_at (- 2) example_buffer example_arrays = Inl Undefined \<and>
   ByteBuffer_getInt_at 12 example_buffer example_arrays = Inl BufferUnderflowException"
proof -
  have "4 \<le> unat (mLimit example_buffer)" by (simp add: example_buffer_def)
  from ByteBuffer_absolute_index_wraps[OF example_buffer_inv this, of "- 2"]
    ByteBuffer_absolute_index_wraps[OF example_buffer_inv this, of 12]
  show ?thesis by (simp add: example_buffer_def)
qed

text \<open>
  Views. \<open>slice\<close> of a well-formed buffer succeeds, is well formed, has exactly the remaining bytes, and shares them: its
  byte at an index is the byte of the buffer at its position plus that index, and a byte put through the slice is the byte
  that the buffer then reads. \<open>compact\<close> keeps the invariant, moves the remaining bytes to the front and sets the position
  behind them.
\<close>

theorem ByteArrayBuffer_views:
  assumes inv: "bb_inv b s" and i: "i < Buffer_remaining b"
  shows "\<exists>v s' c sc. ByteArrayBuffer_slice b s = Inr v \<and> bb_inv v s \<and> Buffer_remaining v = Buffer_remaining b \<and>
    ByteBuffer_get_at i v s = ByteBuffer_get_at (mPosition b + i) b s \<and>
    ByteBuffer_put_at i x v s = Inr s' \<and> ByteBuffer_get_at (mPosition b + i) b s' = Inr x \<and> bb_inv b s' \<and>
    ByteArrayBuffer_compact b s = Inr (c, sc) \<and> bb_inv c sc \<and> mPosition c = Buffer_remaining b \<and>
    ByteBuffer_get_at i (Buffer_flip c) sc = ByteBuffer_get_at (mPosition b + i) b s"
proof -
  let ?n = "unat (Buffer_remaining b)" and ?p = "unat (mPosition b)" and ?o = "unat (mOffset b)" and ?m = "s (mBuffer b)"
  note nat = bb_inv_nat[OF inv]
  have less: "mPosition b < mLimit b"
    using i by (auto simp: Buffer_remaining_def split: if_splits)
  have n: "?n = unat (mLimit b) - ?p" "Buffer_remaining b = mLimit b - mPosition b"
    using less by (auto simp: Buffer_remaining_def unat_sub)
  have i': "unat i < ?n" using i by (simp add: word_less_nat_alt)
  have po: "unat (mPosition b + mOffset b) = ?p + ?o"
    using nat by (intro unat_add_small') simp
  have size: "unat (ByteArray_size ?m) = length ?m"
    using nat by (simp add: of_nat_size)
  have idx: "unat (mPosition b + i) = ?p + unat i" "unat (mOffset b + (mPosition b + i)) = ?o + ?p + unat i"
    "unat (mPosition b + mOffset b + i) = ?p + ?o + unat i" "unat (i + 1) = unat i + 1"
    "unat (mPosition b + i + 1) = ?p + unat i + 1" "unat (mOffset b + i) = ?o + unat i"
    using nat n i' po unat_add_small'[of "mPosition b" i] unat_add_small'[of "mOffset b" "mPosition b + i"]
      unat_add_small'[of "mPosition b + mOffset b" i] unat_add_small'[of i 1] unat_add_small'[of "mPosition b + i" 1]
      unat_add_small'[of "mOffset b" i] by simp_all
  define v where "v = \<lparr>mPosition = 0, mLimit = Buffer_remaining b, mCapacity = Buffer_remaining b, mReadOnly = False,
    mBuffer = mBuffer b, mOffset = mPosition b + mOffset b\<rparr>"
  have "unat (mPosition b + mOffset b + Buffer_remaining b) = ?p + ?o + ?n"
    using nat n po unat_add_small'[of "mPosition b + mOffset b" "Buffer_remaining b"] by simp
  then have sl: "ByteArrayBuffer_slice b s = Inr v" and vinv: "bb_inv v s"
    using nat n size po
    by (auto simp: ByteArrayBuffer_slice_def ByteBuffer_new_def v_def bb_inv_def word_less_nat_alt)
  have gv: "ByteBuffer_get_at i v s = Inr (?m ! (?o + ?p + unat i))"
    using idx i' n nat size
    by (simp add: ByteBuffer_get_at_def checkBufferUnderflow_def v_def ByteArray_get_def word_less_nat_alt word_le_nat_alt add.commute add.left_commute)
  have gb: "ByteBuffer_get_at (mPosition b + i) b t = Inr (t (mBuffer b) ! (?o + ?p + unat i))"
    if "length (t (mBuffer b)) = length ?m" for t
    using idx i' n nat size that
    by (simp add: ByteBuffer_get_at_def checkBufferUnderflow_def ByteArray_get_def word_less_nat_alt word_le_nat_alt ByteArray_size_def)
  let ?s' = "s(mBuffer b := ?m[?o + ?p + unat i := x])"
  have pv: "ByteBuffer_put_at i x v s = Inr ?s'"
    using idx i' n nat size
    by (simp add: ByteBuffer_put_at_def checkBufferOverflow_def v_def ByteArray_set_def word_less_nat_alt word_le_nat_alt add.commute add.left_commute)
  have bound: "?o + ?p + unat i < length ?m" using nat n i' by linarith
  have compact: "\<exists>c sc. ByteArrayBuffer_compact b s = Inr (c, sc) \<and> bb_inv c sc \<and> mPosition c = Buffer_remaining b \<and>
      ByteBuffer_get_at i (Buffer_flip c) sc = Inr (?m ! (?o + ?p + unat i))"
  proof -
    let ?x = "read_at (?o + ?p) ?n ?m"
    let ?c = "b\<lparr>mPosition := mLimit b - mPosition b, mLimit := mCapacity b\<rparr>" and ?sc = "s(mBuffer b := write_at ?o ?x ?m)"
    have len: "length ?x = ?n" "?o + ?n \<le> length ?m" "?o + ?p + ?n \<le> length ?m"
      using nat n by simp_all
    then have "ByteArrayBuffer_compact b s = Inr (?c, ?sc)"
      by (simp add: ByteArrayBuffer_compact_def raw_read_def raw_write_def)
    moreover have cinv: "bb_inv ?c ?sc"
      using nat n len by (simp add: bb_inv_def word_le_nat_alt)
    moreover have "write_at ?o ?x ?m ! (?o + unat i) = ?m ! (?o + ?p + unat i)"
      using len i' bound by (simp add: nth_write_at nth_read_at)
    then have "ByteBuffer_get_at i (Buffer_flip ?c) ?sc = Inr (?m ! (?o + ?p + unat i))"
      using idx i' n nat size len
      by (simp add: ByteBuffer_get_at_def checkBufferUnderflow_def Buffer_flip_def ByteArray_get_def word_less_nat_alt
          word_le_nat_alt ByteArray_size_def)
    ultimately show ?thesis
      using n(2) by (intro exI[of _ ?c] exI[of _ ?sc]) simp
  qed
  have "ByteBuffer_get_at (mPosition b + i) b ?s' = Inr x" "bb_inv b ?s'"
    using gb[of ?s'] bound inv by (simp_all add: bb_inv_def)
  moreover have "Buffer_remaining v = Buffer_remaining b"
    by (subst Buffer_remaining_def) (simp add: v_def word_gt_0)
  ultimately show ?thesis
    using sl vinv gv gb[of s, OF refl] pv compact by metis
qed

theorem ByteArrayBuffer_views_witness:
  "\<exists>v s'. ByteArrayBuffer_slice (example_buffer\<lparr>mPosition := 3\<rparr>) example_arrays = Inr v \<and>
     ByteBuffer_put_at 2 9 v example_arrays = Inr s' \<and> ByteBuffer_get_at 5 (example_buffer\<lparr>mPosition := 3\<rparr>) s' = Inr 9"
proof -
  have "bb_inv (example_buffer\<lparr>mPosition := 3\<rparr>) example_arrays" "2 < Buffer_remaining (example_buffer\<lparr>mPosition := 3\<rparr>)"
    by (simp_all add: example_buffer_def example_arrays_def bb_inv_def Buffer_remaining_def)
  from ByteArrayBuffer_views[OF this, of 9] show ?thesis by (auto simp: example_buffer_def)
qed

end
