(* ===== verification/Output_Streams.thy ===== *)
theory Output_Streams
  imports Bytes
begin

text \<open>
  The output streams of \<open>src/mindroid/io\<close>: the default loop of \<open>OutputStream\<close>, \<open>ByteArrayOutputStream\<close>,
  \<open>BufferedOutputStream\<close> and \<open>DataOutputStream\<close>.

  A stream operation maps the state of the stream to a result and the state it leaves behind. The streams that wrap
  another stream take the operations of that stream as parameters. The locale \<open>output_stream\<close> states
  what they rely on: a write appends the bytes to what was sent. \<open>ByteArrayOutputStream\<close> interprets it, and
  \<open>BufferedOutputStream\<close> gives it for every stream that has it. The laws are stated for streams of
  less than \<open>2 ^ 62\<close> bytes, where no size of the code wraps.
\<close>

type_synonym ('a, 's) io = "'s \<Rightarrow> 'a result \<times> 's"

section \<open>OutputStream\<close>

function OutputStream_write_loop :: "(int32 \<Rightarrow> (unit, 's) io) \<Rightarrow> bytes \<Rightarrow> size_t \<Rightarrow> size_t \<Rightarrow> (unit, 's) io" where
  "OutputStream_write_loop wr1 buffer i limit s =
     (if i < limit
      then case ByteArray_get i buffer of
          Inl e \<Rightarrow> (Inl e, s)
        | Inr b \<Rightarrow>
            (case wr1 (ucast b) s of
               (Inl e, s') \<Rightarrow> (Inl e, s')
             | (Inr _, s') \<Rightarrow> OutputStream_write_loop wr1 buffer (i + 1) limit s')
      else (Inr (), s))"
  by pat_completeness auto
termination
  by (relation "measure (\<lambda>(_, _, i, limit, _). unat limit - unat i)")
    (auto simp: word_less_nat_alt unat_plus_one_less[unfolded word_less_nat_alt])

definition OutputStream_write ::
  "(int32 \<Rightarrow> (unit, 's) io) \<Rightarrow> bytes option \<Rightarrow> size_t \<Rightarrow> size_t \<Rightarrow> (unit, 's) io" where
  "OutputStream_write wr1 buffer offset n s =
     (case buffer of
        None \<Rightarrow> (Inl NullPointerException, s)
      | Some b \<Rightarrow>
          if offset + n > ByteArray_size b then (Inl IndexOutOfBoundsException, s)
          else if n = 0 then (Inr (), s)
          else OutputStream_write_loop wr1 b offset (offset + n) s)"

declare OutputStream_write_loop.simps [simp del]

section \<open>ByteArrayOutputStream\<close>

record byte_array_output =
  outBuffer :: bytes
  outCount :: size_t

definition ByteArrayOutputStream_new :: byte_array_output where
  "ByteArrayOutputStream_new = \<lparr>outBuffer = ByteArray_new 64, outCount = 0\<rparr>"

definition ByteArrayOutputStream_sized :: "size_t \<Rightarrow> byte_array_output" where
  "ByteArrayOutputStream_sized n = \<lparr>outBuffer = ByteArray_new n, outCount = 0\<rparr>"

definition ByteArrayOutputStream_of :: "bytes option \<Rightarrow> byte_array_output result" where
  "ByteArrayOutputStream_of buffer =
     bind_result (deref buffer) (\<lambda>b. Inr \<lparr>outBuffer = b, outCount = ByteArray_size b\<rparr>)"

definition ByteArrayOutputStream_reset :: "byte_array_output \<Rightarrow> byte_array_output" where
  "ByteArrayOutputStream_reset s = s\<lparr>outCount := 0\<rparr>"

definition ByteArrayOutputStream_size :: "byte_array_output \<Rightarrow> size_t" where
  "ByteArrayOutputStream_size s = outCount s"

definition ByteArrayOutputStream_getByteArray :: "byte_array_output \<Rightarrow> bytes" where
  "ByteArrayOutputStream_getByteArray s = outBuffer s"

definition ByteArrayOutputStream_toByteArray :: "byte_array_output \<Rightarrow> bytes result" where
  "ByteArrayOutputStream_toByteArray s = ByteArray_of_buffer (outBuffer s) (outCount s)"

definition ByteArrayOutputStream_expand :: "size_t \<Rightarrow> byte_array_output \<Rightarrow> byte_array_output result" where
  "ByteArrayOutputStream_expand i s =
     (if outCount s + i \<le> ByteArray_size (outBuffer s) then Inr s
      else bind_result (arraycopy (Some (outBuffer s)) 0 (Some (ByteArray_new ((outCount s + i) * 2))) 0 (outCount s))
        (\<lambda>buffer. Inr (s\<lparr>outBuffer := buffer\<rparr>)))"

definition ByteArrayOutputStream_write_bytes ::
  "bytes option \<Rightarrow> size_t \<Rightarrow> size_t \<Rightarrow> (unit, byte_array_output) io" where
  "ByteArrayOutputStream_write_bytes buffer offset n s =
     (case buffer of
        None \<Rightarrow> (Inl NullPointerException, s)
      | Some b \<Rightarrow>
          if offset + n > ByteArray_size b then (Inl IndexOutOfBoundsException, s)
          else if n = 0 then (Inr (), s)
          else case ByteArrayOutputStream_expand n s of
            Inl e \<Rightarrow> (Inl e, s)
          | Inr s1 \<Rightarrow>
              (case arraycopy (Some b) offset (Some (outBuffer s1)) (outCount s1) n of
                 Inl e \<Rightarrow> (Inl e, s1)
               | Inr new \<Rightarrow> (Inr (), s1\<lparr>outBuffer := new, outCount := outCount s1 + n\<rparr>)))"

definition ByteArrayOutputStream_write_all :: "bytes option \<Rightarrow> (unit, byte_array_output) io" where
  "ByteArrayOutputStream_write_all buffer s =
     (case buffer of
        None \<Rightarrow> (Inl Undefined, s)
      | Some b \<Rightarrow> ByteArrayOutputStream_write_bytes buffer 0 (ByteArray_size b) s)"

definition ByteArrayOutputStream_write :: "int32 \<Rightarrow> (unit, byte_array_output) io" where
  "ByteArrayOutputStream_write b s =
     (case (if outCount s = ByteArray_size (outBuffer s) then ByteArrayOutputStream_expand 1 s else Inr s) of
        Inl e \<Rightarrow> (Inl e, s)
      | Inr s1 \<Rightarrow>
          (case ByteArray_set (outCount s1) (ucast b) (outBuffer s1) of
             Inl e \<Rightarrow> (Inl e, s1\<lparr>outCount := outCount s1 + 1\<rparr>)
           | Inr new \<Rightarrow> (Inr (), s1\<lparr>outBuffer := new, outCount := outCount s1 + 1\<rparr>)))"

definition ByteArrayOutputStream_flush :: "(unit, byte_array_output) io" where
  "ByteArrayOutputStream_flush s = (Inr (), s)"

definition ByteArrayOutputStream_close :: "(unit, byte_array_output) io" where
  "ByteArrayOutputStream_close s = (Inr (), s)"

text \<open>\<open>writeTo\<close> another stream, whose operation is \<open>wr\<close>.\<close>

definition ByteArrayOutputStream_writeTo ::
  "(bytes option \<Rightarrow> size_t \<Rightarrow> size_t \<Rightarrow> (unit, 's) io) \<Rightarrow> byte_array_output \<Rightarrow> (unit, 's) io" where
  "ByteArrayOutputStream_writeTo wr o1 s = wr (Some (outBuffer o1)) 0 (outCount o1) s"

section \<open>BufferedOutputStream\<close>

text \<open>\<open>wr\<close>, \<open>fl\<close> and \<open>cl\<close> are \<open>write(buffer, offset, count)\<close>, \<open>flush\<close> and \<open>close\<close> of the wrapped stream.\<close>

record 's buffered_output =
  boStream :: "'s option"
  boBuffer :: "bytes option"
  boCount :: size_t

definition BufferedOutputStream_new :: "'s option \<Rightarrow> size_t \<Rightarrow> 's buffered_output result" where
  "BufferedOutputStream_new outputStream n =
     (if n = 0 then Inl IllegalArgumentException
      else Inr \<lparr>boStream = outputStream, boBuffer = Some (ByteArray_new n), boCount = 0\<rparr>)"

text \<open>\<open>close\<close> drops the reference to the stream; the closed stream is part of the result.\<close>

definition BufferedOutputStream_close ::
  "('s \<Rightarrow> unit result \<times> 's) \<Rightarrow> 's buffered_output \<Rightarrow> unit result \<times> 's option \<times> 's buffered_output" where
  "BufferedOutputStream_close cl s =
     (let s1 = s\<lparr>boBuffer := None, boStream := None\<rparr> in
      case boStream s of
        None \<Rightarrow> (Inr (), None, s1)
      | Some o1 \<Rightarrow> let (r, o2) = cl o1 in (r, Some o2, s1))"

definition BufferedOutputStream_checkValidity :: "'s buffered_output \<Rightarrow> ('s \<times> bytes) result" where
  "BufferedOutputStream_checkValidity s =
     (case (boBuffer s, boStream s) of (Some b, Some o1) \<Rightarrow> Inr (o1, b) | _ \<Rightarrow> Inl IOException)"

definition BufferedOutputStream_flushBuffer ::
  "(bytes option \<Rightarrow> size_t \<Rightarrow> size_t \<Rightarrow> (unit, 's) io) \<Rightarrow> (unit, 's buffered_output) io" where
  "BufferedOutputStream_flushBuffer wr s =
     (if boCount s > 0
      then case boStream s of
          None \<Rightarrow> (Inl Undefined, s)
        | Some o1 \<Rightarrow>
            (case wr (boBuffer s) 0 (boCount s) o1 of
               (Inl e, o2) \<Rightarrow> (Inl e, s\<lparr>boStream := Some o2\<rparr>)
             | (Inr _, o2) \<Rightarrow> (Inr (), s\<lparr>boStream := Some o2, boCount := 0\<rparr>))
      else (Inr (), s))"

definition BufferedOutputStream_flush ::
  "(bytes option \<Rightarrow> size_t \<Rightarrow> size_t \<Rightarrow> (unit, 's) io) \<Rightarrow> (unit, 's) io \<Rightarrow> (unit, 's buffered_output) io" where
  "BufferedOutputStream_flush wr fl s =
     (case BufferedOutputStream_checkValidity s of
        Inl e \<Rightarrow> (Inl e, s)
      | Inr _ \<Rightarrow>
          (case BufferedOutputStream_flushBuffer wr s of
             (Inl e, s1) \<Rightarrow> (Inl e, s1)
           | (Inr _, s1) \<Rightarrow>
               (case boStream s1 of
                  None \<Rightarrow> (Inl Undefined, s1)
                | Some o1 \<Rightarrow> let (r, o2) = fl o1 in (r, s1\<lparr>boStream := Some o2\<rparr>))))"

definition BufferedOutputStream_write_bytes ::
  "(bytes option \<Rightarrow> size_t \<Rightarrow> size_t \<Rightarrow> (unit, 's) io) \<Rightarrow> bytes option \<Rightarrow> size_t \<Rightarrow> size_t \<Rightarrow>
     (unit, 's buffered_output) io" where
  "BufferedOutputStream_write_bytes wr buffer offset n s =
     (case BufferedOutputStream_checkValidity s of
        Inl e \<Rightarrow> (Inl e, s)
      | Inr (_, localBuffer) \<Rightarrow>
          (case buffer of
             None \<Rightarrow> (Inl NullPointerException, s)
           | Some b \<Rightarrow>
               if n \<ge> ByteArray_size localBuffer
               then (case BufferedOutputStream_flushBuffer wr s of
                       (Inl e, s1) \<Rightarrow> (Inl e, s1)
                     | (Inr _, s1) \<Rightarrow>
                         (case boStream s1 of
                            None \<Rightarrow> (Inl Undefined, s1)
                          | Some o1 \<Rightarrow> let (r, o2) = wr buffer offset n o1 in (r, s1\<lparr>boStream := Some o2\<rparr>)))
               else if offset > ByteArray_size b \<or> ByteArray_size b - offset < n
               then (Inl IndexOutOfBoundsException, s)
               else case (if n > ByteArray_size localBuffer - boCount s
                          then BufferedOutputStream_flushBuffer wr s else (Inr (), s)) of
                   (Inl e, s1) \<Rightarrow> (Inl e, s1)
                 | (Inr _, s1) \<Rightarrow>
                     (case arraycopy buffer offset (boBuffer s1) (boCount s1) n of
                        Inl e \<Rightarrow> (Inl e, s1)
                      | Inr new \<Rightarrow> (Inr (), s1\<lparr>boBuffer := Some new, boCount := boCount s1 + n\<rparr>))))"

definition BufferedOutputStream_write ::
  "(bytes option \<Rightarrow> size_t \<Rightarrow> size_t \<Rightarrow> (unit, 's) io) \<Rightarrow> int32 \<Rightarrow> (unit, 's buffered_output) io" where
  "BufferedOutputStream_write wr b s =
     (case BufferedOutputStream_checkValidity s of
        Inl e \<Rightarrow> (Inl e, s)
      | Inr (o1, buf) \<Rightarrow>
          (case (if boCount s = ByteArray_size buf
                 then case wr (Some buf) 0 (boCount s) o1 of
                     (Inl e, o2) \<Rightarrow> (Inl e, s\<lparr>boStream := Some o2\<rparr>)
                   | (Inr _, o2) \<Rightarrow> (Inr (), s\<lparr>boStream := Some o2, boCount := 0\<rparr>)
                 else (Inr (), s)) of
             (Inl e, s1) \<Rightarrow> (Inl e, s1)
           | (Inr _, s1) \<Rightarrow>
               (case ByteArray_set (boCount s1) (ucast b) buf of
                  Inl e \<Rightarrow> (Inl e, s1\<lparr>boCount := boCount s1 + 1\<rparr>)
                | Inr new \<Rightarrow> (Inr (), s1\<lparr>boBuffer := Some new, boCount := boCount s1 + 1\<rparr>))))"

section \<open>DataOutputStream\<close>

text \<open>
  \<open>wr1\<close> and \<open>wr\<close> are \<open>write(int)\<close> and \<open>write(buffer, offset, count)\<close> of the wrapped stream; \<open>write(buffer)\<close>
  writes the whole buffer. The scratchpad keeps the bytes of the last value written.
\<close>

record 's data_output =
  doStream :: 's
  doScratchpad :: bytes

definition DataOutputStream_new :: "'s \<Rightarrow> 's data_output" where
  "DataOutputStream_new outputStream = \<lparr>doStream = outputStream, doScratchpad = ByteArray_new 8\<rparr>"

definition do_write :: "(unit, 's) io \<Rightarrow> (unit, 's data_output) io" where
  "do_write w s = (let (r, o1) = w (doStream s) in (r, s\<lparr>doStream := o1\<rparr>))"

definition DataOutputStream_flush :: "(unit, 's) io \<Rightarrow> (unit, 's data_output) io" where
  "DataOutputStream_flush fl s = do_write fl s"

definition DataOutputStream_close :: "(unit, 's) io \<Rightarrow> (unit, 's) io \<Rightarrow> (unit, 's data_output) io" where
  "DataOutputStream_close fl cl s =
     (case DataOutputStream_flush fl s of (Inl e, s1) \<Rightarrow> (Inl e, s1) | (Inr _, s1) \<Rightarrow> do_write cl s1)"

definition DataOutputStream_write ::
  "(int32 \<Rightarrow> (unit, 's) io) \<Rightarrow> int32 \<Rightarrow> (unit, 's data_output) io" where
  "DataOutputStream_write wr1 b s = do_write (wr1 b) s"

definition DataOutputStream_write_bytes ::
  "(bytes option \<Rightarrow> size_t \<Rightarrow> size_t \<Rightarrow> (unit, 's) io) \<Rightarrow> bytes option \<Rightarrow> size_t \<Rightarrow> size_t \<Rightarrow> (unit, 's data_output) io" where
  "DataOutputStream_write_bytes wr buffer offset n s = do_write (wr buffer offset n) s"

definition DataOutputStream_writeBoolean :: "(int32 \<Rightarrow> (unit, 's) io) \<Rightarrow> bool \<Rightarrow> (unit, 's data_output) io" where
  "DataOutputStream_writeBoolean wr1 value s = do_write (wr1 (if value then 1 else 0)) s"

definition DataOutputStream_writeByte :: "(int32 \<Rightarrow> (unit, 's) io) \<Rightarrow> uint8 \<Rightarrow> (unit, 's data_output) io" where
  "DataOutputStream_writeByte wr1 value s = do_write (wr1 (ucast value)) s"

definition DataOutputStream_writeChar :: "(int32 \<Rightarrow> (unit, 's) io) \<Rightarrow> uint8 \<Rightarrow> (unit, 's data_output) io" where
  "DataOutputStream_writeChar wr1 value s = DataOutputStream_writeByte wr1 value s"

text \<open>\<open>writeBytes\<close> and \<open>writeChars\<close> are the same code; a \<open>String\<close> is its bytes.\<close>

definition DataOutputStream_writeBytes ::
  "(bytes option \<Rightarrow> size_t \<Rightarrow> size_t \<Rightarrow> (unit, 's) io) \<Rightarrow> bytes option \<Rightarrow> (unit, 's data_output) io" where
  "DataOutputStream_writeBytes wr string s =
     (case string of
        None \<Rightarrow> (Inl NullPointerException, s)
      | Some str \<Rightarrow>
          if ByteArray_size str = 0 then (Inr (), s)
          else do_write (wr (Some str) 0 (ByteArray_size str)) s)"

definition DataOutputStream_writeChars ::
  "(bytes option \<Rightarrow> size_t \<Rightarrow> size_t \<Rightarrow> (unit, 's) io) \<Rightarrow> bytes option \<Rightarrow> (unit, 's data_output) io" where
  "DataOutputStream_writeChars wr string s =
     (case string of
        None \<Rightarrow> (Inl NullPointerException, s)
      | Some str \<Rightarrow>
          if ByteArray_size str = 0 then (Inr (), s)
          else do_write (wr (Some str) 0 (ByteArray_size str)) s)"

definition DataOutputStream_writeShort ::
  "(bytes option \<Rightarrow> size_t \<Rightarrow> size_t \<Rightarrow> (unit, 's) io) \<Rightarrow> int16 \<Rightarrow> (unit, 's data_output) io" where
  "DataOutputStream_writeShort wr value s =
     (let scratchpad = (doScratchpad s)[0 := ucast (drop_bit 8 value AND 0xff), 1 := ucast (value AND 0xff)]
      in do_write (wr (Some scratchpad) 0 2) (s\<lparr>doScratchpad := scratchpad\<rparr>))"

definition DataOutputStream_writeInt ::
  "(bytes option \<Rightarrow> size_t \<Rightarrow> size_t \<Rightarrow> (unit, 's) io) \<Rightarrow> int32 \<Rightarrow> (unit, 's data_output) io" where
  "DataOutputStream_writeInt wr value s =
     (let scratchpad = (doScratchpad s)
        [0 := ucast (drop_bit 24 value AND 0xff), 1 := ucast (drop_bit 16 value AND 0xff),
         2 := ucast (drop_bit 8 value AND 0xff), 3 := ucast (value AND 0xff)]
      in do_write (wr (Some scratchpad) 0 4) (s\<lparr>doScratchpad := scratchpad\<rparr>))"

definition DataOutputStream_writeLong ::
  "(bytes option \<Rightarrow> size_t \<Rightarrow> size_t \<Rightarrow> (unit, 's) io) \<Rightarrow> int64 \<Rightarrow> (unit, 's data_output) io" where
  "DataOutputStream_writeLong wr value s =
     (let scratchpad = (doScratchpad s)
        [0 := ucast (drop_bit 56 value AND 0xff), 1 := ucast (drop_bit 48 value AND 0xff),
         2 := ucast (drop_bit 40 value AND 0xff), 3 := ucast (drop_bit 32 value AND 0xff),
         4 := ucast (drop_bit 24 value AND 0xff), 5 := ucast (drop_bit 16 value AND 0xff),
         6 := ucast (drop_bit 8 value AND 0xff), 7 := ucast (value AND 0xff)]
      in do_write (wr (Some scratchpad) 0 8) (s\<lparr>doScratchpad := scratchpad\<rparr>))"

text \<open>\<open>Float::floatToIntBits\<close> and \<open>Double::doubleToLongBits\<close> give every NaN one bit pattern.\<close>

definition Float_floatToIntBits :: "uint32 \<Rightarrow> uint32" where
  "Float_floatToIntBits v =
     (if drop_bit 23 v AND 0xff = 0xff \<and> v AND 0x7fffff \<noteq> 0 then 0x7fc00000 else v)"

definition Double_doubleToLongBits :: "uint64 \<Rightarrow> uint64" where
  "Double_doubleToLongBits v =
     (if drop_bit 52 v AND 0x7ff = 0x7ff \<and> v AND 0xfffffffffffff \<noteq> 0 then 0x7ff8000000000000 else v)"

definition DataOutputStream_writeFloat ::
  "(bytes option \<Rightarrow> size_t \<Rightarrow> size_t \<Rightarrow> (unit, 's) io) \<Rightarrow> uint32 \<Rightarrow> (unit, 's data_output) io" where
  "DataOutputStream_writeFloat wr value s = DataOutputStream_writeInt wr (Float_floatToIntBits value) s"

definition DataOutputStream_writeDouble ::
  "(bytes option \<Rightarrow> size_t \<Rightarrow> size_t \<Rightarrow> (unit, 's) io) \<Rightarrow> uint64 \<Rightarrow> (unit, 's data_output) io" where
  "DataOutputStream_writeDouble wr value s = DataOutputStream_writeLong wr (Double_doubleToLongBits value) s"

definition DataOutputStream_writeUTF ::
  "(bytes option \<Rightarrow> size_t \<Rightarrow> size_t \<Rightarrow> (unit, 's) io) \<Rightarrow> bytes option \<Rightarrow> (unit, 's data_output) io" where
  "DataOutputStream_writeUTF wr string s =
     (case string of
        None \<Rightarrow> (Inl NullPointerException, s)
      | Some str \<Rightarrow>
          if ByteArray_size str = 0 then (Inr (), s)
          else case DataOutputStream_writeShort wr (ucast (ByteArray_size str)) s of
              (Inl e, s1) \<Rightarrow> (Inl e, s1)
            | (Inr _, s1) \<Rightarrow> do_write (wr (Some str) 0 (ByteArray_size str)) s1)"

section \<open>The contract of an output stream\<close>

locale output_stream =
  fixes ok :: "'s \<Rightarrow> bool"
    and sent :: "'s \<Rightarrow> bytes"
    and wr1 :: "int32 \<Rightarrow> (unit, 's) io"
    and wr :: "bytes option \<Rightarrow> size_t \<Rightarrow> size_t \<Rightarrow> (unit, 's) io"
  assumes wr1_appends: "ok s \<Longrightarrow> length (sent s) + 1 < 2 ^ 62 \<Longrightarrow>
      \<exists>s'. wr1 b s = (Inr (), s') \<and> ok s' \<and> sent s' = sent s @ [ucast b]"
    and wr_appends: "ok s \<Longrightarrow> length (sent s) + unat n < 2 ^ 62 \<Longrightarrow> unat offset + unat n \<le> length buffer \<Longrightarrow>
      length buffer < 2 ^ 63 \<Longrightarrow>
      \<exists>s'. wr (Some buffer) offset n s = (Inr (), s') \<and> ok s' \<and> sent s' = sent s @ read_at (unat offset) (unat n) buffer"

subsection \<open>ByteArrayOutputStream\<close>

definition baos_ok :: "byte_array_output \<Rightarrow> bool" where
  "baos_ok s \<longleftrightarrow> unat (outCount s) \<le> length (outBuffer s) \<and> length (outBuffer s) < 2 ^ 63"

definition baos_sent :: "byte_array_output \<Rightarrow> bytes" where
  "baos_sent s = take (unat (outCount s)) (outBuffer s)"

lemma ucast_byte_int [simp]: "ucast (ucast (b :: uint8) :: int32) = b"
  by (rule bit_word_eqI) (auto simp: bit_simps)

lemma size_add_small: "unat (x :: size_t) + unat y < 2 ^ 64 \<Longrightarrow> unat (x + y) = unat x + unat y"
  by (simp add: unat_word_ariths)

lemma arraycopy_in_bounds:
  assumes "unat sp + unat n \<le> length src" and "unat dp + unat n \<le> length dst"
    and "length src < 2 ^ 63" and "length dst < 2 ^ 63"
  shows "arraycopy (Some src) sp (Some dst) dp n = Inr (write_at (unat dp) (read_at (unat sp) (unat n) src) dst)"
proof -
  have "unat (sp + n) = unat sp + unat n" "unat (dp + n) = unat dp + unat n"
    using assms by (auto intro!: size_add_small)
  then show ?thesis
    using assms of_nat_size[of src] of_nat_size[of dst]
    by (simp add: arraycopy_def raw_read_def raw_write_def word_less_nat_alt)
qed

lemma baos_sent_length [simp]: "baos_ok s \<Longrightarrow> length (baos_sent s) = unat (outCount s)"
  by (simp add: baos_ok_def baos_sent_def)

lemma baos_expand:
  assumes "baos_ok s" and "unat (outCount s) + unat i < 2 ^ 62"
  shows "\<exists>s'. ByteArrayOutputStream_expand i s = Inr s' \<and> baos_ok s' \<and> outCount s' = outCount s \<and>
    baos_sent s' = baos_sent s \<and> unat (outCount s) + unat i \<le> length (outBuffer s')"
proof (cases "outCount s + i \<le> ByteArray_size (outBuffer s)")
  case True
  have "unat (outCount s + i) = unat (outCount s) + unat i"
    using assms(2) by (intro size_add_small) simp
  then show ?thesis
    using assms True of_nat_size[of "outBuffer s"]
    by (auto simp: ByteArrayOutputStream_expand_def word_le_nat_alt baos_ok_def)
next
  case False
  let ?n = "(outCount s + i) * 2" and ?c = "unat (outCount s)"
  have sum: "unat (outCount s + i) = ?c + unat i"
    using assms(2) by (intro size_add_small) simp
  have n: "unat ?n = 2 * (?c + unat i)"
    using assms(2) sum by (simp add: unat_word_ariths)
  then have "arraycopy (Some (outBuffer s)) 0 (Some (ByteArray_new ?n)) 0 (outCount s) =
      Inr (write_at 0 (read_at 0 ?c (outBuffer s)) (ByteArray_new ?n))"
    using assms
    by (subst arraycopy_in_bounds) (auto simp: baos_ok_def ByteArray_new_def)
  then show ?thesis
    using False n assms
    by (auto simp: ByteArrayOutputStream_expand_def baos_ok_def baos_sent_def ByteArray_new_def write_at_def read_at_def)
qed

lemma baos_write_bytes_appends:
  assumes "baos_ok s" and "length (baos_sent s) + unat n < 2 ^ 62" and "unat offset + unat n \<le> length buffer"
    and "length buffer < 2 ^ 63"
  shows "\<exists>s'. ByteArrayOutputStream_write_bytes (Some buffer) offset n s = (Inr (), s') \<and> baos_ok s' \<and>
    baos_sent s' = baos_sent s @ read_at (unat offset) (unat n) buffer"
proof -
  have "unat (offset + n) = unat offset + unat n"
    using assms(3,4) by (intro size_add_small) simp
  then have check: "\<not> offset + n > ByteArray_size buffer"
    using assms(3,4) of_nat_size[of buffer] by (simp add: word_less_nat_alt)
  show ?thesis
  proof (cases "n = 0")
    case False
    obtain s1 where e: "ByteArrayOutputStream_expand n s = Inr s1" "baos_ok s1" "outCount s1 = outCount s"
      "baos_sent s1 = baos_sent s" "unat (outCount s) + unat n \<le> length (outBuffer s1)"
      using baos_expand[OF assms(1), of n] assms(1,2) by auto
    have cp: "arraycopy (Some buffer) offset (Some (outBuffer s1)) (outCount s) n =
        Inr (write_at (unat (outCount s)) (read_at (unat offset) (unat n) buffer) (outBuffer s1))"
      using e assms by (intro arraycopy_in_bounds) (auto simp: baos_ok_def)
    have sum: "unat (outCount s + n) = unat (outCount s) + unat n"
      using assms(1,2) by (intro size_add_small) simp
    show ?thesis
      using check False e cp sum assms(1,3)
      by (auto simp: ByteArrayOutputStream_write_bytes_def baos_ok_def baos_sent_def write_at_def)
  qed (use check assms(1) in \<open>auto simp: ByteArrayOutputStream_write_bytes_def read_at_def\<close>)
qed

lemma baos_write_appends:
  assumes "baos_ok s" and "length (baos_sent s) + 1 < 2 ^ 62"
  shows "\<exists>s'. ByteArrayOutputStream_write b s = (Inr (), s') \<and> baos_ok s' \<and> baos_sent s' = baos_sent s @ [ucast b]"
proof -
  let ?r = "if outCount s = ByteArray_size (outBuffer s) then ByteArrayOutputStream_expand 1 s else Inr s"
  obtain s1 where e: "?r = Inr s1" "baos_ok s1" "outCount s1 = outCount s" "baos_sent s1 = baos_sent s"
    "unat (outCount s) < length (outBuffer s1)"
  proof (cases "outCount s = ByteArray_size (outBuffer s)")
    case True
    then show ?thesis using baos_expand[OF assms(1), of 1] assms that by auto
  next
    case False
    then have "unat (outCount s) \<noteq> unat (ByteArray_size (outBuffer s))"
      by (metis word_unat_eq_iff)
    moreover have "unat (ByteArray_size (outBuffer s)) = length (outBuffer s)" "unat (outCount s) \<le> length (outBuffer s)"
      using assms(1) by (simp_all add: baos_ok_def of_nat_size)
    ultimately have "unat (outCount s) < length (outBuffer s)"
      by linarith
    then show ?thesis using False assms(1) that[of s] by simp
  qed
  have sz: "unat (ByteArray_size (outBuffer s1)) = length (outBuffer s1)"
    using e(2) by (simp add: baos_ok_def of_nat_size)
  then have "outCount s < ByteArray_size (outBuffer s1)"
    using e(5) by (simp add: word_less_nat_alt)
  moreover have "unat (outCount s + 1) = Suc (unat (outCount s))"
    using assms unat_plus_one_less[OF \<open>outCount s < ByteArray_size (outBuffer s1)\<close>] by simp
  ultimately show ?thesis
    using e by (auto simp: ByteArrayOutputStream_write_def ByteArray_set_def baos_ok_def baos_sent_def take_Suc_conv_app_nth)
qed

interpretation byte_array_output: output_stream baos_ok baos_sent ByteArrayOutputStream_write
  ByteArrayOutputStream_write_bytes
  by unfold_locales (use baos_write_appends baos_write_bytes_appends in auto)

lemma baos_new: "baos_ok ByteArrayOutputStream_new" "baos_sent ByteArrayOutputStream_new = []"
  by (simp_all add: baos_ok_def baos_sent_def ByteArrayOutputStream_new_def ByteArray_new_def)

lemma toByteArray_sent: "baos_ok s \<Longrightarrow> ByteArrayOutputStream_toByteArray s = Inr (baos_sent s)"
  by (simp add: ByteArrayOutputStream_toByteArray_def ByteArray_of_buffer_def raw_read_def read_at_def baos_ok_def baos_sent_def)

subsection \<open>The default loop of OutputStream\<close>

text \<open>
  A stream that only implements \<open>write(int)\<close> inherits the loop of \<open>OutputStream\<close>, which then satisfies the contract.
\<close>

locale byte_sink =
  fixes ok :: "'s \<Rightarrow> bool"
    and sent :: "'s \<Rightarrow> bytes"
    and wr1 :: "int32 \<Rightarrow> (unit, 's) io"
  assumes wr1_appends: "ok s \<Longrightarrow> length (sent s) + 1 < 2 ^ 62 \<Longrightarrow>
      \<exists>s'. wr1 b s = (Inr (), s') \<and> ok s' \<and> sent s' = sent s @ [ucast b]"
begin

lemma write_loop_appends:
  assumes "ok s" and "unat i \<le> unat limit" and "unat limit \<le> length buffer" and "length buffer < 2 ^ 63"
    and "length (sent s) + (unat limit - unat i) < 2 ^ 62"
  shows "\<exists>s'. OutputStream_write_loop wr1 buffer i limit s = (Inr (), s') \<and> ok s' \<and>
    sent s' = sent s @ read_at (unat i) (unat limit - unat i) buffer"
  using assms
proof (induction "unat limit - unat i" arbitrary: i s)
  case 0
  then show ?case by (subst OutputStream_write_loop.simps) (auto simp: word_less_nat_alt read_at_def)
next
  case (Suc n)
  have less: "i < limit" using Suc.hyps(2) by (simp add: word_less_nat_alt)
  have suc: "unat (i + 1) = Suc (unat i)" by (rule unat_plus_one_less[OF less])
  have get: "ByteArray_get i buffer = Inr (buffer ! unat i)"
    using Suc.prems(3,4) less of_nat_size[of buffer] by (simp add: ByteArray_get_def word_less_nat_alt word_le_nat_alt)
  have "length (sent s) + 1 < 2 ^ 62"
    using Suc.prems(5) unfolding Suc.hyps(2)[symmetric] by simp
  then obtain s1 where s1: "wr1 (ucast (buffer ! unat i)) s = (Inr (), s1)" "ok s1" "sent s1 = sent s @ [buffer ! unat i]"
    using wr1_appends[OF Suc.prems(1), of "ucast (buffer ! unat i)"] by auto
  obtain s2 where "OutputStream_write_loop wr1 buffer (i + 1) limit s1 = (Inr (), s2)" "ok s2"
    "sent s2 = sent s1 @ read_at (unat (i + 1)) (unat limit - unat (i + 1)) buffer"
  proof -
    have n: "n = unat limit - unat (i + 1)" "unat (i + 1) \<le> unat limit"
      using Suc.hyps(2) suc by linarith+
    have "length (sent s1) + (unat limit - unat (i + 1)) < 2 ^ 62"
      using Suc.prems(5) s1(3) n(1) unfolding Suc.hyps(2)[symmetric] by simp
    from Suc.hyps(1)[OF n(1) s1(2) n(2) Suc.prems(3,4) this] show thesis using that by blast
  qed
  moreover have "read_at (unat i) (unat limit - unat i) buffer =
      buffer ! unat i # read_at (unat (i + 1)) (unat limit - unat (i + 1)) buffer"
    using Suc.hyps(2) Suc.prems(3) suc less
    by (simp add: read_at_def word_less_nat_alt Cons_nth_drop_Suc[symmetric] take_Cons' flip: Suc_diff_Suc)
  ultimately show ?case
    using less get s1 by (subst OutputStream_write_loop.simps) simp
qed

lemma default_write_appends:
  assumes "ok s" and "length (sent s) + unat n < 2 ^ 62" and "unat offset + unat n \<le> length buffer"
    and "length buffer < 2 ^ 63"
  shows "\<exists>s'. OutputStream_write wr1 (Some buffer) offset n s = (Inr (), s') \<and> ok s' \<and>
    sent s' = sent s @ read_at (unat offset) (unat n) buffer"
proof -
  have sum: "unat (offset + n) = unat offset + unat n"
    using assms(3,4) by (intro size_add_small) simp
  then show ?thesis
    using assms write_loop_appends[of s offset "offset + n" buffer] of_nat_size[of buffer]
    by (auto simp: OutputStream_write_def word_less_nat_alt read_at_def)
qed

end

sublocale byte_sink \<subseteq> default_write: output_stream ok sent wr1 "OutputStream_write wr1"
  by unfold_locales (use wr1_appends default_write_appends in auto)

interpretation byte_array_sink: byte_sink baos_ok baos_sent ByteArrayOutputStream_write
  by unfold_locales (use baos_write_appends in auto)

subsection \<open>BufferedOutputStream\<close>

definition buffered_ok :: "('s \<Rightarrow> bool) \<Rightarrow> 's buffered_output \<Rightarrow> bool" where
  "buffered_ok ok s \<longleftrightarrow> (\<exists>o1 buf. boStream s = Some o1 \<and> boBuffer s = Some buf \<and> ok o1 \<and> buf \<noteq> [] \<and>
     length buf < 2 ^ 63 \<and> unat (boCount s) \<le> length buf)"

definition buffered_sent :: "('s \<Rightarrow> bytes) \<Rightarrow> 's buffered_output \<Rightarrow> bytes" where
  "buffered_sent sent s = sent (the (boStream s)) @ take (unat (boCount s)) (the (boBuffer s))"

context output_stream
begin

lemma buffered_okE:
  assumes "buffered_ok ok s"
  obtains o1 buf where "boStream s = Some o1" "boBuffer s = Some buf" "ok o1" "buf \<noteq> []" "length buf < 2 ^ 63"
    "unat (boCount s) \<le> length buf" "unat (ByteArray_size buf) = length buf"
    "buffered_sent sent s = sent o1 @ take (unat (boCount s)) buf"
  using assms of_nat_size that by (fastforce simp: buffered_ok_def buffered_sent_def)

lemma flushBuffer_empties:
  assumes "buffered_ok ok s" and "length (buffered_sent sent s) < 2 ^ 62"
  shows "\<exists>s' o2. BufferedOutputStream_flushBuffer wr s = (Inr (), s') \<and> buffered_ok ok s' \<and> boCount s' = 0 \<and>
    boBuffer s' = boBuffer s \<and> boStream s' = Some o2 \<and> ok o2 \<and> sent o2 = buffered_sent sent s \<and>
    buffered_sent sent s' = buffered_sent sent s"
proof -
  obtain o1 buf where b: "boStream s = Some o1" "boBuffer s = Some buf" "ok o1" "buf \<noteq> []" "length buf < 2 ^ 63"
    "unat (boCount s) \<le> length buf" "buffered_sent sent s = sent o1 @ take (unat (boCount s)) buf"
    using assms(1) by (rule buffered_okE)
  show ?thesis
  proof (cases "boCount s = 0")
    case False
    obtain o2 where "wr (Some buf) 0 (boCount s) o1 = (Inr (), o2)" "ok o2"
      "sent o2 = sent o1 @ read_at 0 (unat (boCount s)) buf"
      using wr_appends[OF b(3), of "boCount s" 0 buf] assms(2) b(5-7) by auto
    then show ?thesis
      using False b by (auto simp: BufferedOutputStream_flushBuffer_def buffered_ok_def buffered_sent_def read_at_def word_gt_0)
  next
    case True
    then show ?thesis
      using assms(1) b by (auto simp: BufferedOutputStream_flushBuffer_def buffered_sent_def)
  qed
qed

lemma checkValidity_ok: "buffered_ok ok s \<Longrightarrow> BufferedOutputStream_checkValidity s = Inr (the (boStream s), the (boBuffer s))"
  by (auto simp: buffered_ok_def BufferedOutputStream_checkValidity_def)

text \<open>Copying into the buffer when the bytes fit.\<close>

lemma buffer_append:
  assumes "buffered_ok ok s" and "boBuffer s = Some buf" and "unat (boCount s) + unat n \<le> length buf"
    and "unat offset + unat n \<le> length b" and "length b < 2 ^ 63"
  shows "\<exists>new. arraycopy (Some b) offset (boBuffer s) (boCount s) n = Inr new \<and>
    buffered_ok ok (s\<lparr>boBuffer := Some new, boCount := boCount s + n\<rparr>) \<and>
    buffered_sent sent (s\<lparr>boBuffer := Some new, boCount := boCount s + n\<rparr>) = buffered_sent sent s @ read_at (unat offset) (unat n) b"
proof -
  obtain o1 where b: "boStream s = Some o1" "ok o1" "buf \<noteq> []" "length buf < 2 ^ 63"
    "buffered_sent sent s = sent o1 @ take (unat (boCount s)) buf"
    using assms(1,2) by (auto elim: buffered_okE)
  have sum: "unat (boCount s + n) = unat (boCount s) + unat n"
    using assms(3) b(4) by (intro size_add_small) simp
  have "arraycopy (Some b) offset (Some buf) (boCount s) n =
      Inr (write_at (unat (boCount s)) (read_at (unat offset) (unat n) b) buf)"
    using assms b by (intro arraycopy_in_bounds) auto
  moreover have "take (unat (boCount s) + unat n) (write_at (unat (boCount s)) (read_at (unat offset) (unat n) b) buf) =
      take (unat (boCount s)) buf @ read_at (unat offset) (unat n) b"
    using assms(3,4) by (simp add: write_at_def)
  moreover have len: "length (write_at (unat (boCount s)) (read_at (unat offset) (unat n) b) buf) = length buf"
    using assms(3,4) by simp
  moreover have "write_at (unat (boCount s)) (read_at (unat offset) (unat n) b) buf \<noteq> []"
    using len b(3) by (metis length_0_conv)
  ultimately show ?thesis
    using assms(2,3) b sum by (simp add: buffered_ok_def buffered_sent_def)
qed

lemma buffered_write_bytes_appends:
  assumes "buffered_ok ok s" and lim: "length (buffered_sent sent s) + unat n < 2 ^ 62"
    and off: "unat offset + unat n \<le> length b" and len: "length b < 2 ^ 63"
  shows "\<exists>s'. BufferedOutputStream_write_bytes wr (Some b) offset n s = (Inr (), s') \<and> buffered_ok ok s' \<and>
    buffered_sent sent s' = buffered_sent sent s @ read_at (unat offset) (unat n) b"
proof -
  obtain o1 buf where o: "boStream s = Some o1" "boBuffer s = Some buf" "length buf < 2 ^ 63"
    "unat (boCount s) \<le> length buf" "unat (ByteArray_size buf) = length buf"
    using assms(1) by (rule buffered_okE)
  obtain s1 o2 where f: "BufferedOutputStream_flushBuffer wr s = (Inr (), s1)" "buffered_ok ok s1" "boCount s1 = 0"
    "boBuffer s1 = Some buf" "boStream s1 = Some o2" "ok o2" "sent o2 = buffered_sent sent s" "buffered_sent sent s1 = buffered_sent sent s"
    using flushBuffer_empties[OF assms(1)] lim o(2) by auto
  have valid: "BufferedOutputStream_checkValidity s = Inr (o1, buf)"
    using checkValidity_ok[OF assms(1)] o by simp
  have szb: "unat (ByteArray_size b) = length b" using len by (rule of_nat_size[OF order_less_trans]) simp
  have guard: "\<not> (offset > ByteArray_size b \<or> ByteArray_size b - offset < n)"
    using off szb by (auto simp: word_less_nat_alt word_le_nat_alt unat_sub)
  show ?thesis
  proof (cases "n \<ge> ByteArray_size buf")
    case True
    obtain o3 where o3: "wr (Some b) offset n o2 = (Inr (), o3)" "ok o3" "sent o3 = sent o2 @ read_at (unat offset) (unat n) b"
      using wr_appends[OF f(6), of n offset b] lim f(7) off len by auto
    have "buffered_ok ok (s1\<lparr>boStream := Some o3\<rparr>)" "buffered_sent sent (s1\<lparr>boStream := Some o3\<rparr>) = sent o3"
      using f o3(2) by (auto simp: buffered_ok_def buffered_sent_def)
    then show ?thesis
      using True valid f o3 by (simp add: BufferedOutputStream_write_bytes_def)
  next
    case False
    then have nb: "unat n < length buf" using o(5) by (simp add: word_le_nat_alt)
    have room: "n > ByteArray_size buf - boCount s \<longleftrightarrow> length buf - unat (boCount s) < unat n"
      using o(4,5) by (simp add: word_less_nat_alt unat_sub word_le_nat_alt)
    show ?thesis
    proof (cases "n > ByteArray_size buf - boCount s")
      case True
      then show ?thesis
        using buffer_append[OF f(2,4), of n offset b] False valid guard f nb off len
        by (auto simp: BufferedOutputStream_write_bytes_def)
    next
      case fits: False
      then have "unat (boCount s) + unat n \<le> length buf" using room o(4) by linarith
      then show ?thesis
        using buffer_append[OF assms(1) o(2), of n offset b] False fits valid guard off len
        by (auto simp: BufferedOutputStream_write_bytes_def)
    qed
  qed
qed

lemma buffered_put:
  assumes "buffered_ok ok s" and "boBuffer s = Some buf" and "unat (boCount s) < length buf"
  shows "ByteArray_set (boCount s) x buf = Inr (buf[unat (boCount s) := x]) \<and>
    buffered_ok ok (s\<lparr>boBuffer := Some (buf[unat (boCount s) := x]), boCount := boCount s + 1\<rparr>) \<and>
    buffered_sent sent (s\<lparr>boBuffer := Some (buf[unat (boCount s) := x]), boCount := boCount s + 1\<rparr>) = buffered_sent sent s @ [x]"
proof -
  have sz: "unat (ByteArray_size buf) = length buf"
    using assms(1,2) by (auto elim: buffered_okE)
  then have "boCount s < ByteArray_size buf" using assms(3) by (simp add: word_less_nat_alt)
  moreover from this have "unat (boCount s + 1) = Suc (unat (boCount s))" by (rule unat_plus_one_less)
  ultimately show ?thesis
    using assms by (auto simp: ByteArray_set_def buffered_ok_def buffered_sent_def take_Suc_conv_app_nth)
qed

lemma buffered_write_appends:
  assumes "buffered_ok ok s" and "length (buffered_sent sent s) + 1 < 2 ^ 62"
  shows "\<exists>s'. BufferedOutputStream_write wr b s = (Inr (), s') \<and> buffered_ok ok s' \<and> buffered_sent sent s' = buffered_sent sent s @ [ucast b]"
proof -
  obtain o1 buf where o: "boStream s = Some o1" "boBuffer s = Some buf" "ok o1" "buf \<noteq> []" "length buf < 2 ^ 63"
    "unat (boCount s) \<le> length buf" "unat (ByteArray_size buf) = length buf" "buffered_sent sent s = sent o1 @ take (unat (boCount s)) buf"
    using assms(1) by (rule buffered_okE)
  have valid: "BufferedOutputStream_checkValidity s = Inr (o1, buf)"
    using checkValidity_ok[OF assms(1)] o by simp
  show ?thesis
  proof (cases "boCount s = ByteArray_size buf")
    case True
    obtain o2 where w: "wr (Some buf) 0 (boCount s) o1 = (Inr (), o2)" "ok o2" "sent o2 = sent o1 @ read_at 0 (unat (boCount s)) buf"
      using wr_appends[OF o(3), of "boCount s" 0 buf] assms(2) o(5-8) by auto
    let ?s1 = "s\<lparr>boStream := Some o2, boCount := 0\<rparr>"
    have "buffered_ok ok ?s1" "buffered_sent sent ?s1 = buffered_sent sent s"
      using o w by (auto simp: buffered_ok_def buffered_sent_def read_at_def)
    then show ?thesis
      using buffered_put[of ?s1 buf "ucast b"] True valid w o(2,4) by (auto simp: BufferedOutputStream_write_def)
  next
    case False
    then have "unat (boCount s) \<noteq> unat (ByteArray_size buf)"
      by (metis word_unat_eq_iff)
    then have "unat (boCount s) \<noteq> length buf"
      using o(7) by simp
    then show ?thesis
      using buffered_put[OF assms(1) o(2), of "ucast b"] False valid o(6) by (simp add: BufferedOutputStream_write_def)
  qed
qed

lemma buffered_output_stream:
  "output_stream (buffered_ok ok) (buffered_sent sent) (BufferedOutputStream_write wr) (BufferedOutputStream_write_bytes wr)"
  by unfold_locales (use buffered_write_appends buffered_write_bytes_appends in auto)

end

interpretation buffered_byte_array: output_stream "buffered_ok baos_ok" "buffered_sent baos_sent"
  "BufferedOutputStream_write ByteArrayOutputStream_write_bytes"
  "BufferedOutputStream_write_bytes ByteArrayOutputStream_write_bytes"
  by (rule byte_array_output.buffered_output_stream)

subsection \<open>DataOutputStream\<close>

text \<open>The values of a data stream and the bytes that represent them: integers big-endian, a string behind its length.\<close>

datatype item =
    Boolean_item bool
  | Byte_item uint8
  | Char_item uint8
  | Short_item int16
  | Int_item int32
  | Long_item int64
  | Float_item uint32
  | Double_item uint64
  | UTF_item bytes

definition be_bytes :: "nat \<Rightarrow> 'a::len word \<Rightarrow> bytes" where
  "be_bytes n w = rev (word_bytes n w)"

fun item_bytes :: "item \<Rightarrow> bytes" where
  "item_bytes (Boolean_item b) = [if b then 1 else 0]"
| "item_bytes (Byte_item b) = [b]"
| "item_bytes (Char_item c) = [c]"
| "item_bytes (Short_item v) = be_bytes 2 v"
| "item_bytes (Int_item v) = be_bytes 4 v"
| "item_bytes (Long_item v) = be_bytes 8 v"
| "item_bytes (Float_item v) = be_bytes 4 (Float_floatToIntBits v)"
| "item_bytes (Double_item v) = be_bytes 8 (Double_doubleToLongBits v)"
| "item_bytes (UTF_item str) = (if str = [] then [] else be_bytes 2 (of_nat (length str) :: int16) @ str)"

fun write_item ::
  "(int32 \<Rightarrow> (unit, 's) io) \<Rightarrow> (bytes option \<Rightarrow> size_t \<Rightarrow> size_t \<Rightarrow> (unit, 's) io) \<Rightarrow> item \<Rightarrow> (unit, 's data_output) io" where
  "write_item wr1 wr (Boolean_item b) s = DataOutputStream_writeBoolean wr1 b s"
| "write_item wr1 wr (Byte_item b) s = DataOutputStream_writeByte wr1 b s"
| "write_item wr1 wr (Char_item c) s = DataOutputStream_writeChar wr1 c s"
| "write_item wr1 wr (Short_item v) s = DataOutputStream_writeShort wr v s"
| "write_item wr1 wr (Int_item v) s = DataOutputStream_writeInt wr v s"
| "write_item wr1 wr (Long_item v) s = DataOutputStream_writeLong wr v s"
| "write_item wr1 wr (Float_item v) s = DataOutputStream_writeFloat wr v s"
| "write_item wr1 wr (Double_item v) s = DataOutputStream_writeDouble wr v s"
| "write_item wr1 wr (UTF_item str) s = DataOutputStream_writeUTF wr (Some str) s"

fun write_items ::
  "(int32 \<Rightarrow> (unit, 's) io) \<Rightarrow> (bytes option \<Rightarrow> size_t \<Rightarrow> size_t \<Rightarrow> (unit, 's) io) \<Rightarrow> item list \<Rightarrow> (unit, 's data_output) io" where
  "write_items wr1 wr [] s = (Inr (), s)"
| "write_items wr1 wr (x # xs) s =
     (case write_item wr1 wr x s of (Inl e, s1) \<Rightarrow> (Inl e, s1) | (Inr _, s1) \<Rightarrow> write_items wr1 wr xs s1)"

definition items_bytes :: "item list \<Rightarrow> bytes" where
  "items_bytes xs = concat (map item_bytes xs)"

lemma word_bytes_2: "word_bytes 2 v = [ucast v, ucast (drop_bit 8 v)]"
  by (simp add: word_bytes_def upt_rec numeral_2_eq_2)

lemma word_bytes_4: "word_bytes 4 v = [ucast v, ucast (drop_bit 8 v), ucast (drop_bit 16 v), ucast (drop_bit 24 v)]"
  by (simp add: word_bytes_def upt_rec)

lemma word_bytes_8: "word_bytes 8 v = [ucast v, ucast (drop_bit 8 v), ucast (drop_bit 16 v), ucast (drop_bit 24 v),
    ucast (drop_bit 32 v), ucast (drop_bit 40 v), ucast (drop_bit 48 v), ucast (drop_bit 56 v)]"
  by (simp add: word_bytes_def upt_rec)

lemma ucast_and_ff: "ucast (w AND 0xff) = (ucast w :: uint8)" for w :: "'a::len word"
proof -
  have "(0xff :: 'a word) = mask 8" by (simp add: mask_eq_decr_exp)
  show ?thesis
    unfolding \<open>(0xff :: 'a word) = mask 8\<close> by (rule bit_word_eqI) (auto simp: bit_simps bit_imp_le_length)
qed

lemma eight_bytesE:
  assumes "length bs = (8 :: nat)"
  obtains b0 b1 b2 b3 b4 b5 b6 b7 where "bs = [b0, b1, b2, b3, b4, b5, b6, b7]"
  using assms by (auto simp: numeral_eq_Suc length_Suc_conv)

definition data_sends :: "('s \<Rightarrow> bool) \<Rightarrow> ('s \<Rightarrow> bytes) \<Rightarrow> bytes \<Rightarrow> 's data_output \<Rightarrow> unit result \<times> 's data_output \<Rightarrow> bool" where
  "data_sends ok sent bs s r \<longleftrightarrow> (\<exists>s'. r = (Inr (), s') \<and> ok (doStream s') \<and> length (doScratchpad s') = 8 \<and>
     sent (doStream s') = sent (doStream s) @ bs)"

context output_stream
begin

lemma data_write1:
  "ok (doStream s) \<Longrightarrow> length (doScratchpad s) = 8 \<Longrightarrow> length (sent (doStream s)) + 1 < 2 ^ 62 \<Longrightarrow>
     data_sends ok sent [ucast b] s (do_write (wr1 b) s)"
  using wr1_appends[of "doStream s" b] by (auto simp: do_write_def data_sends_def)

lemma data_write:
  assumes "ok (doStream s)" and "length (doScratchpad s) = 8" and "length (sent (doStream s)) + unat n < 2 ^ 62"
    and "unat n \<le> length buffer" and "length buffer < 2 ^ 63"
  shows "data_sends ok sent (take (unat n) buffer) s (do_write (wr (Some buffer) 0 n) s)"
  using wr_appends[OF assms(1,3), of 0 buffer] assms by (auto simp: do_write_def data_sends_def read_at_def)

lemma data_scratchpad:
  assumes "ok (doStream s)" and "length scratchpad = 8" and "length (sent (doStream s)) + unat n < 2 ^ 62" and "unat n \<le> 8"
  shows "data_sends ok sent (take (unat n) scratchpad) s (do_write (wr (Some scratchpad) 0 n) (s\<lparr>doScratchpad := scratchpad\<rparr>))"
  using data_write[of "s\<lparr>doScratchpad := scratchpad\<rparr>" n scratchpad] assms by (simp add: data_sends_def)

lemma data_writeShort:
  assumes "ok (doStream s)" and "length (doScratchpad s) = 8" and "length (sent (doStream s)) + 2 < 2 ^ 62"
  shows "data_sends ok sent (be_bytes 2 v) s (DataOutputStream_writeShort wr v s)"
  using assms(2)
proof (rule eight_bytesE)
  fix b0 b1 b2 b3 b4 b5 b6 b7
  assume b: "doScratchpad s = [b0, b1, b2, b3, b4, b5, b6, b7]"
  show ?thesis
    using data_scratchpad[OF assms(1), of "[ucast (drop_bit 8 v), ucast v, b2, b3, b4, b5, b6, b7]" 2] assms(3)
    by (simp add: DataOutputStream_writeShort_def b be_bytes_def word_bytes_2 ucast_and_ff Let_def)
qed

lemma data_writeInt:
  assumes "ok (doStream s)" and "length (doScratchpad s) = 8" and "length (sent (doStream s)) + 4 < 2 ^ 62"
  shows "data_sends ok sent (be_bytes 4 v) s (DataOutputStream_writeInt wr v s)"
  using assms(2)
proof (rule eight_bytesE)
  fix b0 b1 b2 b3 b4 b5 b6 b7
  assume b: "doScratchpad s = [b0, b1, b2, b3, b4, b5, b6, b7]"
  show ?thesis
    using data_scratchpad[OF assms(1), of "[ucast (drop_bit 24 v), ucast (drop_bit 16 v), ucast (drop_bit 8 v), ucast v, b4, b5, b6, b7]" 4] assms(3)
    by (simp add: DataOutputStream_writeInt_def b be_bytes_def word_bytes_4 ucast_and_ff Let_def)
qed

lemma data_writeLong:
  assumes "ok (doStream s)" and "length (doScratchpad s) = 8" and "length (sent (doStream s)) + 8 < 2 ^ 62"
  shows "data_sends ok sent (be_bytes 8 v) s (DataOutputStream_writeLong wr v s)"
  using assms(2)
proof (rule eight_bytesE)
  fix b0 b1 b2 b3 b4 b5 b6 b7
  assume b: "doScratchpad s = [b0, b1, b2, b3, b4, b5, b6, b7]"
  show ?thesis
    using data_scratchpad[OF assms(1), of "rev (word_bytes 8 v)" 8] assms(3)
    by (simp add: DataOutputStream_writeLong_def b be_bytes_def word_bytes_8 ucast_and_ff Let_def)
qed

lemma data_writeUTF:
  assumes "ok (doStream s)" and "length (doScratchpad s) = 8" and "str \<noteq> []"
    and "length (sent (doStream s)) + length str + 2 < 2 ^ 62"
  shows "data_sends ok sent (be_bytes 2 (of_nat (length str) :: int16) @ str) s (DataOutputStream_writeUTF wr (Some str) s)"
proof -
  have sz: "unat (ByteArray_size str) = length str" using assms(4) by (intro of_nat_size) simp
  then have "ByteArray_size str \<noteq> 0" using assms(3) by auto
  have len: "(ucast (ByteArray_size str) :: int16) = of_nat (length str)"
    unfolding ByteArray_size_def by (rule bit_word_eqI) (simp add: bit_simps)
  obtain s1 where s1: "DataOutputStream_writeShort wr (of_nat (length str)) s = (Inr (), s1)" "ok (doStream s1)"
    "length (doScratchpad s1) = 8" "sent (doStream s1) = sent (doStream s) @ be_bytes 2 (of_nat (length str) :: int16)"
    using data_writeShort[OF assms(1,2), of "of_nat (length str)"] assms(4) by (auto simp: data_sends_def)
  show ?thesis
    using data_write[OF s1(2,3), of "ByteArray_size str" str] s1 sz assms(4) \<open>ByteArray_size str \<noteq> 0\<close>
    by (simp add: DataOutputStream_writeUTF_def len data_sends_def be_bytes_def)
qed

lemma write_item_sends:
  assumes "ok (doStream s)" and "length (doScratchpad s) = 8"
    and "length (sent (doStream s)) + length (item_bytes x) < 2 ^ 62"
  shows "data_sends ok sent (item_bytes x) s (write_item wr1 wr x s)"
proof (cases x)
  case (UTF_item str)
  show ?thesis
  proof (cases "str = []")
    case True
    then show ?thesis
      using assms by (simp add: UTF_item DataOutputStream_writeUTF_def data_sends_def ByteArray_size_def)
  next
    case False
    then show ?thesis
      using data_writeUTF[OF assms(1,2) False] assms(3) by (simp add: UTF_item be_bytes_def)
  qed
next
  case (Boolean_item b)
  then show ?thesis
    using data_write1[OF assms(1,2), of "if b then 1 else 0"] assms(3) by (auto simp: DataOutputStream_writeBoolean_def)
next
  case (Byte_item b)
  then show ?thesis
    using data_write1[OF assms(1,2), of "ucast b"] assms(3) by (simp add: DataOutputStream_writeByte_def)
next
  case (Char_item b)
  then show ?thesis
    using data_write1[OF assms(1,2), of "ucast b"] assms(3)
    by (simp add: DataOutputStream_writeByte_def DataOutputStream_writeChar_def)
qed (use assms data_writeShort data_writeInt data_writeLong
     in \<open>auto simp: be_bytes_def DataOutputStream_writeFloat_def DataOutputStream_writeDouble_def\<close>)

lemma write_items_sends:
  assumes "ok (doStream s)" and "length (doScratchpad s) = 8"
    and "length (sent (doStream s)) + length (items_bytes xs) < 2 ^ 62"
  shows "data_sends ok sent (items_bytes xs) s (write_items wr1 wr xs s)"
  using assms
proof (induction xs arbitrary: s)
  case (Cons x xs)
  obtain s1 where "write_item wr1 wr x s = (Inr (), s1)" "ok (doStream s1)" "length (doScratchpad s1) = 8"
    "sent (doStream s1) = sent (doStream s) @ item_bytes x"
    using write_item_sends[OF Cons.prems(1,2), of x] Cons.prems(3) by (auto simp: data_sends_def items_bytes_def)
  then show ?case
    using Cons.IH[of s1] Cons.prems(3) by (simp add: data_sends_def items_bytes_def)
qed (simp add: data_sends_def items_bytes_def)

end

section \<open>Properties\<close>

text \<open>
  The format of \<open>DataOutputStream\<close>. Any sequence of values written to a \<open>DataOutputStream\<close> over a fresh
  \<open>ByteArrayOutputStream\<close> (of fewer than \<open>2 ^ 62\<close> bytes) succeeds, and \<open>toByteArray\<close> gives the representations of the
  values, in order, whatever reallocations of the buffer happened: integers are big-endian, NaN is one bit pattern, and a
  string follows the low 16 bits of its length.
\<close>

theorem DataOutputStream_writes_format:
  assumes "length (items_bytes xs) < 2 ^ 62"
  shows "\<exists>s. write_items ByteArrayOutputStream_write ByteArrayOutputStream_write_bytes xs
      (DataOutputStream_new ByteArrayOutputStream_new) = (Inr (), s) \<and>
    ByteArrayOutputStream_toByteArray (doStream s) = Inr (items_bytes xs)"
  using byte_array_output.write_items_sends[of "DataOutputStream_new ByteArrayOutputStream_new" xs] assms baos_new
  by (auto simp: data_sends_def DataOutputStream_new_def ByteArray_new_def toByteArray_sent)

theorem DataOutputStream_writes_format_witness:
  "\<exists>s. write_items ByteArrayOutputStream_write ByteArrayOutputStream_write_bytes
      [Short_item 0x1234, UTF_item [72, 105], Boolean_item True] (DataOutputStream_new ByteArrayOutputStream_new) = (Inr (), s) \<and>
    ByteArrayOutputStream_toByteArray (doStream s) = Inr [0x12, 0x34, 0, 2, 72, 105, 1]"
proof -
  have "items_bytes [Short_item 0x1234, UTF_item [72, 105], Boolean_item True] = [0x12, 0x34, 0, 2, 72, 105, 1]"
    by (simp add: items_bytes_def be_bytes_def word_bytes_2)
  then show ?thesis
    using DataOutputStream_writes_format[of "[Short_item 0x1234, UTF_item [72, 105], Boolean_item True]"] by simp
qed

text \<open>
  (C34) Buffering is transparent. Writing any sequence of values through a \<open>BufferedOutputStream\<close> of any positive size, and
  flushing it, leaves in the stream behind it exactly the bytes that writing without the buffer gives, in the
  same order, although a block larger than the buffer bypasses it.
\<close>

theorem BufferedOutputStream_is_transparent:
  assumes "n \<noteq> 0" and "unat n < 2 ^ 63" and "length (items_bytes xs) < 2 ^ 62"
  shows "\<exists>b s s' o1. BufferedOutputStream_new (Some ByteArrayOutputStream_new) n = Inr b \<and>
    write_items (BufferedOutputStream_write ByteArrayOutputStream_write_bytes)
      (BufferedOutputStream_write_bytes ByteArrayOutputStream_write_bytes) xs (DataOutputStream_new b) = (Inr (), s) \<and>
    BufferedOutputStream_flush ByteArrayOutputStream_write_bytes ByteArrayOutputStream_flush (doStream s) = (Inr (), s') \<and>
    boStream s' = Some o1 \<and> boCount s' = 0 \<and> ByteArrayOutputStream_toByteArray o1 = Inr (items_bytes xs)"
proof -
  let ?b = "\<lparr>boStream = Some ByteArrayOutputStream_new, boBuffer = Some (ByteArray_new n), boCount = 0\<rparr>"
  have "unat n \<noteq> 0" using assms(1) by (simp add: unat_eq_0)
  then have ok: "buffered_ok baos_ok ?b" and empty: "buffered_sent baos_sent ?b = []"
    using assms(2) baos_new by (auto simp: buffered_ok_def buffered_sent_def ByteArray_new_def)
  obtain s where s: "write_items (BufferedOutputStream_write ByteArrayOutputStream_write_bytes)
      (BufferedOutputStream_write_bytes ByteArrayOutputStream_write_bytes) xs (DataOutputStream_new ?b) = (Inr (), s)"
    "buffered_ok baos_ok (doStream s)" "buffered_sent baos_sent (doStream s) = items_bytes xs"
    using buffered_byte_array.write_items_sends[of "DataOutputStream_new ?b" xs] ok empty assms(3)
    by (auto simp: data_sends_def DataOutputStream_new_def ByteArray_new_def)
  obtain s' o2 where f: "BufferedOutputStream_flushBuffer ByteArrayOutputStream_write_bytes (doStream s) = (Inr (), s')"
    "boCount s' = 0" "boStream s' = Some o2" "baos_ok o2" "baos_sent o2 = items_bytes xs"
    using byte_array_output.flushBuffer_empties[OF s(2)] s(3) assms(3) by auto
  have "BufferedOutputStream_flush ByteArrayOutputStream_write_bytes ByteArrayOutputStream_flush (doStream s) = (Inr (), s'\<lparr>boStream := Some o2\<rparr>)"
    using f byte_array_output.checkValidity_ok[OF s(2)] by (simp add: BufferedOutputStream_flush_def ByteArrayOutputStream_flush_def)
  then show ?thesis
    using s(1) f assms(1)
    by (intro exI[of _ ?b] exI[of _ s] exI[of _ "s'\<lparr>boStream := Some o2\<rparr>"] exI[of _ o2])
      (simp add: BufferedOutputStream_new_def toByteArray_sent)
qed

theorem BufferedOutputStream_is_transparent_witness:
  "\<exists>b s s' o1. BufferedOutputStream_new (Some ByteArrayOutputStream_new) 3 = Inr b \<and>
    write_items (BufferedOutputStream_write ByteArrayOutputStream_write_bytes)
      (BufferedOutputStream_write_bytes ByteArrayOutputStream_write_bytes) [Byte_item 7, Int_item 5] (DataOutputStream_new b) = (Inr (), s) \<and>
    BufferedOutputStream_flush ByteArrayOutputStream_write_bytes ByteArrayOutputStream_flush (doStream s) = (Inr (), s') \<and>
    boStream s' = Some o1 \<and> ByteArrayOutputStream_toByteArray o1 = Inr [7, 0, 0, 0, 5]"
proof -
  have i: "items_bytes [Byte_item 7, Int_item 5] = [7, 0, 0, 0, 5]"
    by (simp add: items_bytes_def be_bytes_def word_bytes_4)
  have "(3 :: size_t) \<noteq> 0" "unat (3 :: size_t) < 2 ^ 63" "length (items_bytes [Byte_item 7, Int_item 5]) < 2 ^ 62"
    by (simp_all add: i)
  from BufferedOutputStream_is_transparent[OF this] show ?thesis unfolding i by blast
qed

text \<open>
  \<open>BufferedOutputStream::close\<close> does not flush: bytes that were written but are still in the buffer never reach
  the stream behind it, which is closed as it was. Every later write or flush throws \<open>IOException\<close>.
\<close>

theorem BufferedOutputStream_close_drops_buffer:
  assumes "boStream s = Some o1" and "boBuffer s = Some buf" and "unat (boCount s) < length buf" and "length buf < 2 ^ 63"
  shows "\<exists>s1 s2. BufferedOutputStream_write ByteArrayOutputStream_write_bytes b s = (Inr (), s1) \<and>
    BufferedOutputStream_close ByteArrayOutputStream_close s1 = (Inr (), Some o1, s2) \<and>
    BufferedOutputStream_write ByteArrayOutputStream_write_bytes c s2 = (Inl IOException, s2) \<and>
    BufferedOutputStream_flush ByteArrayOutputStream_write_bytes ByteArrayOutputStream_flush s2 = (Inl IOException, s2)"
proof -
  have "unat (ByteArray_size buf) = length buf" using assms(4) by (intro of_nat_size) simp
  then have "boCount s < ByteArray_size buf" using assms(3) by (simp add: word_less_nat_alt)
  then show ?thesis
    using assms(1,2)
    by (auto simp: BufferedOutputStream_write_def BufferedOutputStream_checkValidity_def ByteArray_set_def
        BufferedOutputStream_close_def ByteArrayOutputStream_close_def BufferedOutputStream_flush_def)
qed

theorem BufferedOutputStream_close_drops_buffer_witness:
  "\<exists>s1 s2. BufferedOutputStream_write ByteArrayOutputStream_write_bytes 65
      \<lparr>boStream = Some ByteArrayOutputStream_new, boBuffer = Some [0, 0], boCount = 0\<rparr> = (Inr (), s1) \<and>
    BufferedOutputStream_close ByteArrayOutputStream_close s1 = (Inr (), Some ByteArrayOutputStream_new, s2)"
  using BufferedOutputStream_close_drops_buffer[of "\<lparr>boStream = Some ByteArrayOutputStream_new, boBuffer = Some [0, 0], boCount = 0\<rparr>"
      ByteArrayOutputStream_new "[0, 0]" 65 66] by fastforce

end
