(* ===== verification/Input_Streams.thy ===== *)
theory Input_Streams
  imports Output_Streams
begin

text \<open>
  The input streams of \<open>src/mindroid/io\<close>: the default operations of \<open>InputStream\<close>, \<open>ByteArrayInputStream\<close> and
  \<open>DataInputStream\<close>.

  An operation that fills a buffer returns the result, the buffer and the state of the stream. A loop that
  a stream could keep running (by reading nothing for ever) is a partial function, \<open>None\<close> if it does not
  end. The locale \<open>input_stream\<close> is what the streams rely on: a read takes bytes from the front of the pending bytes
  and makes progress, or says -1 when nothing is pending; under it every loop ends.
\<close>

section \<open>InputStream\<close>

type_synonym 's read_op = "bytes option \<Rightarrow> size_t \<Rightarrow> size_t \<Rightarrow> 's \<Rightarrow> int result \<times> bytes option \<times> 's"

function InputStream_read_loop ::
  "(int32, 's) io \<Rightarrow> size_t \<Rightarrow> bytes \<Rightarrow> size_t \<Rightarrow> size_t \<Rightarrow> 's \<Rightarrow> int result \<times> bytes option \<times> 's" where
  "InputStream_read_loop rd1 i buffer offset n s =
     (if i < n
      then case rd1 s of
          (Inl e, s1) \<Rightarrow> (Inl e, Some buffer, s1)
        | (Inr c, s1) \<Rightarrow>
            if c = - 1 then (Inr (if i = 0 then - 1 else sint i), Some buffer, s1)
            else (case ByteArray_set (offset + i) (ucast c) buffer of
                    Inl e \<Rightarrow> (Inl e, Some buffer, s1)
                  | Inr buffer' \<Rightarrow> InputStream_read_loop rd1 (i + 1) buffer' offset n s1)
      else (Inr (sint n), Some buffer, s))"
  by pat_completeness auto
termination
  by (relation "measure (\<lambda>(_, i, _, _, n, _). unat n - unat i)")
    (auto simp: word_less_nat_alt unat_plus_one_less[unfolded word_less_nat_alt])

declare InputStream_read_loop.simps [simp del]

definition InputStream_read :: "(int32, 's) io \<Rightarrow> 's read_op" where
  "InputStream_read rd1 buffer offset n s =
     (case buffer of
        None \<Rightarrow> (Inl NullPointerException, buffer, s)
      | Some b \<Rightarrow>
          if offset + n > ByteArray_size b then (Inl IndexOutOfBoundsException, buffer, s)
          else InputStream_read_loop rd1 0 b offset n s)"

definition InputStream_reset :: "(unit, 's) io" where
  "InputStream_reset s = (Inl IOException, s)"

partial_function (option) InputStream_skip_loop ::
  "'s read_op \<Rightarrow> bytes \<Rightarrow> size_t \<Rightarrow> size_t \<Rightarrow> 's \<Rightarrow> (size_t result \<times> 's) option" where
  "InputStream_skip_loop rd buffer skipped n s =
     (if skipped < n
      then let k = min (n - skipped) (ByteArray_size buffer) in
        case rd (Some buffer) 0 k s of
          (Inl e, _, s1) \<Rightarrow> Some (Inl e, s1)
        | (Inr r, buffer', s1) \<Rightarrow>
            if r = - 1 then Some (Inr skipped, s1)
            else if of_int r < k then Some (Inr (skipped + of_int r), s1)
            else InputStream_skip_loop rd (the buffer') (skipped + of_int r) n s1
      else Some (Inr skipped, s))"

definition InputStream_skip :: "'s read_op \<Rightarrow> size_t \<Rightarrow> 's \<Rightarrow> (size_t result \<times> 's) option" where
  "InputStream_skip rd n s = InputStream_skip_loop rd (ByteArray_new 4096) 0 n s"

section \<open>ByteArrayInputStream\<close>

record byte_array_input =
  inBuffer :: bytes
  inPosition :: size_t
  inMark :: size_t
  inCount :: size_t

definition ByteArrayInputStream_new :: "bytes option \<Rightarrow> byte_array_input result" where
  "ByteArrayInputStream_new buffer =
     (case buffer of
        None \<Rightarrow> Inl NullPointerException
      | Some b \<Rightarrow> Inr \<lparr>inBuffer = b, inPosition = 0, inMark = 0, inCount = ByteArray_size b\<rparr>)"

definition ByteArrayInputStream_range :: "bytes option \<Rightarrow> size_t \<Rightarrow> size_t \<Rightarrow> byte_array_input result" where
  "ByteArrayInputStream_range buffer offset n =
     (case buffer of
        None \<Rightarrow> Inl NullPointerException
      | Some b \<Rightarrow> Inr \<lparr>inBuffer = b, inPosition = offset, inMark = offset,
          inCount = (if offset + n > ByteArray_size b then ByteArray_size b else offset + n)\<rparr>)"

definition ByteArrayInputStream_available :: "byte_array_input \<Rightarrow> size_t" where
  "ByteArrayInputStream_available s = inCount s - inPosition s"

definition ByteArrayInputStream_mark :: "size_t \<Rightarrow> byte_array_input \<Rightarrow> byte_array_input" where
  "ByteArrayInputStream_mark limit s = s\<lparr>inMark := inPosition s\<rparr>"

definition ByteArrayInputStream_read :: "(int32, byte_array_input) io" where
  "ByteArrayInputStream_read s =
     (if inPosition s < inCount s
      then (map_sum (\<lambda>e. e) (\<lambda>b. ucast b AND 0xFF) (ByteArray_get (inPosition s) (inBuffer s)),
            s\<lparr>inPosition := inPosition s + 1\<rparr>)
      else (Inr (- 1), s))"

definition ByteArrayInputStream_read_bytes :: "byte_array_input read_op" where
  "ByteArrayInputStream_read_bytes buffer offset n s =
     (case buffer of
        None \<Rightarrow> (Inl NullPointerException, buffer, s)
      | Some b \<Rightarrow>
          if offset + n > ByteArray_size b then (Inl IndexOutOfBoundsException, buffer, s)
          else if inPosition s \<ge> inCount s then (Inr (- 1), buffer, s)
          else if n = 0 then (Inr 0, buffer, s)
          else let k = (if inCount s - inPosition s < n then inCount s - inPosition s else n) in
            (case arraycopy (Some (inBuffer s)) (inPosition s) buffer offset k of
               Inl e \<Rightarrow> (Inl e, buffer, s)
             | Inr b' \<Rightarrow> (Inr (sint k), Some b', s\<lparr>inPosition := inPosition s + k\<rparr>)))"

definition ByteArrayInputStream_read_all ::
  "bytes option \<Rightarrow> byte_array_input \<Rightarrow> int result \<times> bytes option \<times> byte_array_input" where
  "ByteArrayInputStream_read_all buffer s =
     (case buffer of
        None \<Rightarrow> (Inl Undefined, buffer, s)
      | Some b \<Rightarrow> ByteArrayInputStream_read_bytes buffer 0 (ByteArray_size b) s)"

definition ByteArrayInputStream_reset :: "byte_array_input \<Rightarrow> byte_array_input" where
  "ByteArrayInputStream_reset s = s\<lparr>inPosition := inMark s\<rparr>"

definition ByteArrayInputStream_skip :: "size_t \<Rightarrow> byte_array_input \<Rightarrow> size_t \<times> byte_array_input" where
  "ByteArrayInputStream_skip n s =
     (if n \<le> 0 then (0, s)
      else let position = inPosition s;
               s1 = s\<lparr>inPosition := (if inCount s - inPosition s < n then inCount s else inPosition s + n)\<rparr>
           in (inPosition s1 - position, s1))"

section \<open>DataInputStream\<close>

text \<open>\<open>rd1\<close> and \<open>rd\<close> are \<open>read()\<close> and \<open>read(buffer, offset, count)\<close> of the wrapped stream.\<close>

record 's data_input =
  diStream :: 's
  diScratchpad :: bytes

definition DataInputStream_new :: "'s \<Rightarrow> 's data_input" where
  "DataInputStream_new inputStream = \<lparr>diStream = inputStream, diScratchpad = ByteArray_new 8\<rparr>"

definition DataInputStream_read :: "(int32, 's) io \<Rightarrow> (int32, 's data_input) io" where
  "DataInputStream_read rd1 s = (let (r, i1) = rd1 (diStream s) in (r, s\<lparr>diStream := i1\<rparr>))"

definition DataInputStream_readBoolean :: "(int32, 's) io \<Rightarrow> (bool, 's data_input) io" where
  "DataInputStream_readBoolean rd1 s =
     (let (r, i1) = rd1 (diStream s)
      in (bind_result r (\<lambda>value. if value <s 0 then Inl EOFException else Inr (value \<noteq> 0)), s\<lparr>diStream := i1\<rparr>))"

definition DataInputStream_readByte :: "(int32, 's) io \<Rightarrow> (uint8, 's data_input) io" where
  "DataInputStream_readByte rd1 s =
     (let (r, i1) = rd1 (diStream s)
      in (bind_result r (\<lambda>value. if value <s 0 then Inl EOFException else Inr (ucast value)), s\<lparr>diStream := i1\<rparr>))"

definition DataInputStream_readUnsignedByte :: "(int32, 's) io \<Rightarrow> (uint8, 's data_input) io" where
  "DataInputStream_readUnsignedByte rd1 s =
     (let (r, i1) = rd1 (diStream s)
      in (bind_result r (\<lambda>value. if value <s 0 then Inl EOFException else Inr (ucast value)), s\<lparr>diStream := i1\<rparr>))"

definition DataInputStream_readChar :: "(int32, 's) io \<Rightarrow> (uint8, 's data_input) io" where
  "DataInputStream_readChar rd1 s = DataInputStream_readByte rd1 s"

partial_function (option) readFully_loop ::
  "'s read_op \<Rightarrow> bytes option \<Rightarrow> size_t \<Rightarrow> size_t \<Rightarrow> 's \<Rightarrow> (unit result \<times> bytes option \<times> 's) option" where
  "readFully_loop rd buffer offset n s =
     (if n > 0
      then case rd buffer offset n s of
          (Inl e, buffer1, s1) \<Rightarrow> Some (Inl e, buffer1, s1)
        | (Inr r, buffer1, s1) \<Rightarrow>
            if r < 0 then Some (Inl EOFException, buffer1, s1)
            else readFully_loop rd buffer1 (offset + of_int r) (n - of_int r) s1
      else Some (Inr (), buffer, s))"

definition DataInputStream_readFully ::
  "'s read_op \<Rightarrow> bytes option \<Rightarrow> size_t \<Rightarrow> size_t \<Rightarrow> 's data_input \<Rightarrow> (unit result \<times> bytes option \<times> 's data_input) option" where
  "DataInputStream_readFully rd buffer offset n s =
     (if n = 0 then Some (Inr (), buffer, s)
      else case buffer of
        None \<Rightarrow> Some (Inl NullPointerException, buffer, s)
      | Some b \<Rightarrow>
          if offset + n > ByteArray_size b then Some (Inl IndexOutOfBoundsException, buffer, s)
          else map_option (\<lambda>(r, buffer1, i1). (r, buffer1, s\<lparr>diStream := i1\<rparr>))
            (readFully_loop rd buffer offset n (diStream s)))"

text \<open>Reading \<open>n\<close> bytes into the scratchpad and decoding them.\<close>

definition read_scratchpad :: "'s read_op \<Rightarrow> size_t \<Rightarrow> (bytes \<Rightarrow> 'a) \<Rightarrow> 's data_input \<Rightarrow> ('a result \<times> 's data_input) option" where
  "read_scratchpad rd n decode s =
     map_option (\<lambda>(r, scratchpad, s1).
         (map_sum (\<lambda>e. e) (\<lambda>_. decode (the scratchpad)) r, s1\<lparr>diScratchpad := the scratchpad\<rparr>))
       (DataInputStream_readFully rd (Some (diScratchpad s)) 0 n s)"

definition DataInputStream_readShort :: "'s read_op \<Rightarrow> 's data_input \<Rightarrow> (int16 result \<times> 's data_input) option" where
  "DataInputStream_readShort rd s =
     read_scratchpad rd 2 (\<lambda>sp. push_bit 8 (ucast (sp ! 0)) OR (ucast (sp ! 1) AND 0xff)) s"

definition DataInputStream_readInt :: "'s read_op \<Rightarrow> 's data_input \<Rightarrow> (int32 result \<times> 's data_input) option" where
  "DataInputStream_readInt rd s =
     read_scratchpad rd 4 (\<lambda>sp.
       push_bit 24 (ucast (sp ! 0) AND 0xff) OR push_bit 16 (ucast (sp ! 1) AND 0xff) OR
       push_bit 8 (ucast (sp ! 2) AND 0xff) OR (ucast (sp ! 3) AND 0xff)) s"

definition DataInputStream_readLong :: "'s read_op \<Rightarrow> 's data_input \<Rightarrow> (int64 result \<times> 's data_input) option" where
  "DataInputStream_readLong rd s =
     read_scratchpad rd 8 (\<lambda>sp.
       push_bit 56 (ucast (sp ! 0) AND 0xff) OR push_bit 48 (ucast (sp ! 1) AND 0xff) OR
       push_bit 40 (ucast (sp ! 2) AND 0xff) OR push_bit 32 (ucast (sp ! 3) AND 0xff) OR
       push_bit 24 (ucast (sp ! 4) AND 0xff) OR push_bit 16 (ucast (sp ! 5) AND 0xff) OR
       push_bit 8 (ucast (sp ! 6) AND 0xff) OR (ucast (sp ! 7) AND 0xff)) s"

definition DataInputStream_readUnsignedShort :: "'s read_op \<Rightarrow> 's data_input \<Rightarrow> (16 word result \<times> 's data_input) option" where
  "DataInputStream_readUnsignedShort rd s = DataInputStream_readShort rd s"

definition DataInputStream_readFloat :: "'s read_op \<Rightarrow> 's data_input \<Rightarrow> (uint32 result \<times> 's data_input) option" where
  "DataInputStream_readFloat rd s = DataInputStream_readInt rd s"

definition DataInputStream_readDouble :: "'s read_op \<Rightarrow> 's data_input \<Rightarrow> (uint64 result \<times> 's data_input) option" where
  "DataInputStream_readDouble rd s = DataInputStream_readLong rd s"

definition DataInputStream_readUTF :: "'s read_op \<Rightarrow> 's data_input \<Rightarrow> (bytes result \<times> 's data_input) option" where
  "DataInputStream_readUTF rd s =
     Option.bind (DataInputStream_readUnsignedShort rd s) (\<lambda>(r, s1).
       case r of
         Inl e \<Rightarrow> Some (Inl e, s1)
       | Inr len \<Rightarrow>
           let n = ucast len :: size_t in
           map_option (\<lambda>(r, string, s2). (map_sum (\<lambda>e. e) (\<lambda>_. the string) r, s2))
             (DataInputStream_readFully rd (Some (ByteArray_new n)) 0 n s1))"

partial_function (option) skipBytes_loop :: "(size_t \<Rightarrow> 's \<Rightarrow> size_t \<times> 's) \<Rightarrow> size_t \<Rightarrow> size_t \<Rightarrow> 's \<Rightarrow> (size_t \<times> 's) option" where
  "skipBytes_loop sk skipped n s =
     (if skipped < n
      then let (result, s1) = sk (n - skipped) s in
        if result \<noteq> 0 then skipBytes_loop sk (skipped + result) n s1 else Some (skipped, s1)
      else Some (skipped, s))"

definition DataInputStream_skipBytes ::
  "(size_t \<Rightarrow> 's \<Rightarrow> size_t \<times> 's) \<Rightarrow> size_t \<Rightarrow> 's data_input \<Rightarrow> (size_t \<times> 's data_input) option" where
  "DataInputStream_skipBytes sk n s =
     map_option (\<lambda>(r, i1). (r, s\<lparr>diStream := i1\<rparr>)) (skipBytes_loop sk 0 n (diStream s))"

section \<open>The contract of an input stream\<close>

locale input_stream =
  fixes ok :: "'s \<Rightarrow> bool"
    and pending :: "'s \<Rightarrow> bytes"
    and rd1 :: "(int32, 's) io"
    and rd :: "'s read_op"
  assumes rd1_end: "ok s \<Longrightarrow> pending s = [] \<Longrightarrow> \<exists>s'. rd1 s = (Inr (- 1), s') \<and> ok s' \<and> pending s' = []"
    and rd1_byte: "ok s \<Longrightarrow> pending s = b # bs \<Longrightarrow> \<exists>s'. rd1 s = (Inr (ucast b), s') \<and> ok s' \<and> pending s' = bs"
    and rd_end: "ok s \<Longrightarrow> 0 < n \<Longrightarrow> unat offset + unat n \<le> length buffer \<Longrightarrow> length buffer < 2 ^ 63 \<Longrightarrow> pending s = [] \<Longrightarrow>
      \<exists>s'. rd (Some buffer) offset n s = (Inr (- 1), Some buffer, s') \<and> ok s' \<and> pending s' = []"
    and rd_bytes: "ok s \<Longrightarrow> 0 < n \<Longrightarrow> unat offset + unat n \<le> length buffer \<Longrightarrow> length buffer < 2 ^ 63 \<Longrightarrow> pending s \<noteq> [] \<Longrightarrow>
      \<exists>k s'. 1 \<le> k \<and> k \<le> unat n \<and> k \<le> length (pending s) \<and>
        rd (Some buffer) offset n s = (Inr (int k), Some (write_at (unat offset) (take k (pending s)) buffer), s') \<and>
        ok s' \<and> pending s' = drop k (pending s)"

section \<open>Values read back\<close>

datatype item_kind =
    Boolean_kind | Byte_kind | Char_kind | Short_kind | Int_kind | Long_kind | Float_kind | Double_kind | UTF_kind

fun kind_of :: "item \<Rightarrow> item_kind" where
  "kind_of (Boolean_item _) = Boolean_kind"
| "kind_of (Byte_item _) = Byte_kind"
| "kind_of (Char_item _) = Char_kind"
| "kind_of (Short_item _) = Short_kind"
| "kind_of (Int_item _) = Int_kind"
| "kind_of (Long_item _) = Long_kind"
| "kind_of (Float_item _) = Float_kind"
| "kind_of (Double_item _) = Double_kind"
| "kind_of (UTF_item _) = UTF_kind"

definition result_map :: "('a \<Rightarrow> 'b) \<Rightarrow> 'a result \<times> 's \<Rightarrow> 'b result \<times> 's" where
  "result_map f = (\<lambda>(r, s). (map_sum (\<lambda>e. e) f r, s))"

fun read_item :: "(int32, 's) io \<Rightarrow> 's read_op \<Rightarrow> item_kind \<Rightarrow> 's data_input \<Rightarrow> (item result \<times> 's data_input) option" where
  "read_item rd1 rd Boolean_kind s = Some (result_map Boolean_item (DataInputStream_readBoolean rd1 s))"
| "read_item rd1 rd Byte_kind s = Some (result_map Byte_item (DataInputStream_readByte rd1 s))"
| "read_item rd1 rd Char_kind s = Some (result_map Char_item (DataInputStream_readChar rd1 s))"
| "read_item rd1 rd Short_kind s = map_option (result_map Short_item) (DataInputStream_readShort rd s)"
| "read_item rd1 rd Int_kind s = map_option (result_map Int_item) (DataInputStream_readInt rd s)"
| "read_item rd1 rd Long_kind s = map_option (result_map Long_item) (DataInputStream_readLong rd s)"
| "read_item rd1 rd Float_kind s = map_option (result_map Float_item) (DataInputStream_readFloat rd s)"
| "read_item rd1 rd Double_kind s = map_option (result_map Double_item) (DataInputStream_readDouble rd s)"
| "read_item rd1 rd UTF_kind s = map_option (result_map UTF_item) (DataInputStream_readUTF rd s)"

fun read_items :: "(int32, 's) io \<Rightarrow> 's read_op \<Rightarrow> item_kind list \<Rightarrow> 's data_input \<Rightarrow> (item list result \<times> 's data_input) option" where
  "read_items rd1 rd [] s = Some (Inr [], s)"
| "read_items rd1 rd (k # ks) s =
     Option.bind (read_item rd1 rd k s) (\<lambda>(r, s1).
       case r of
         Inl e \<Rightarrow> Some (Inl e, s1)
       | Inr x \<Rightarrow> map_option (result_map (\<lambda>xs. x # xs)) (read_items rd1 rd ks s1))"

text \<open>What survives the representation: a string that is neither empty nor longer than 16 bits can say; one NaN.\<close>

fun representable :: "item \<Rightarrow> bool" where
  "representable (UTF_item str) \<longleftrightarrow> str \<noteq> [] \<and> length str < 2 ^ 16"
| "representable _ \<longleftrightarrow> True"

fun one_NaN :: "item \<Rightarrow> item" where
  "one_NaN (Float_item v) = Float_item (Float_floatToIntBits v)"
| "one_NaN (Double_item v) = Double_item (Double_doubleToLongBits v)"
| "one_NaN x = x"

lemma write_at_append:
  "p + length xs + length ys \<le> length bs \<Longrightarrow> write_at (p + length xs) ys (write_at p xs bs) = write_at p (xs @ ys) bs"
  by (simp add: write_at_def ac_simps)

lemma and_ff_ucast: "(ucast (b :: uint8) :: 'a::len word) AND 0xff = ucast b" if "8 \<le> LENGTH('a)"
proof -
  have "(0xff :: 'a word) = mask 8" by (simp add: mask_eq_decr_exp)
  show ?thesis
    unfolding \<open>(0xff :: 'a word) = mask 8\<close> by (rule bit_word_eqI) (auto simp: bit_simps dest: bit_imp_le_length)
qed

lemma decode_short: "bytes_word [b1, b0] = (push_bit 8 (ucast b0) OR (ucast b1 AND 0xff) :: int16)"
  by (simp add: and_ff_ucast or.commute)

lemma decode_int: "bytes_word [b3, b2, b1, b0] =
    (push_bit 24 (ucast b0 AND 0xff) OR push_bit 16 (ucast b1 AND 0xff) OR push_bit 8 (ucast b2 AND 0xff) OR
     (ucast b3 AND 0xff) :: int32)"
  by (simp add: and_ff_ucast push_bit_or push_bit_push_bit or.commute or.left_commute or.assoc)

lemma decode_long: "bytes_word [b7, b6, b5, b4, b3, b2, b1, b0] =
    (push_bit 56 (ucast b0 AND 0xff) OR push_bit 48 (ucast b1 AND 0xff) OR push_bit 40 (ucast b2 AND 0xff) OR
     push_bit 32 (ucast b3 AND 0xff) OR push_bit 24 (ucast b4 AND 0xff) OR push_bit 16 (ucast b5 AND 0xff) OR
     push_bit 8 (ucast b6 AND 0xff) OR (ucast b7 AND 0xff) :: int64)"
  by (simp add: and_ff_ucast push_bit_or push_bit_push_bit or.commute or.left_commute or.assoc)

lemma bytes_word_be [simp]: "LENGTH('a) \<le> 8 * n \<Longrightarrow> bytes_word (rev (be_bytes n w)) = (w :: 'a::len word)"
  by (simp add: be_bytes_def)

lemma length_be_bytes [simp]: "length (be_bytes n w) = n"
  by (simp add: be_bytes_def)

definition data_reads :: "('s \<Rightarrow> bool) \<Rightarrow> ('s \<Rightarrow> bytes) \<Rightarrow> bytes \<Rightarrow> 'a \<Rightarrow> ('a result \<times> 's data_input) option \<Rightarrow> bool" where
  "data_reads ok pending rest v r \<longleftrightarrow> (\<exists>s'. r = Some (Inr v, s') \<and> ok (diStream s') \<and> length (diScratchpad s') = 8 \<and>
     pending (diStream s') = rest)"

context input_stream
begin

lemma readFully_loop_reads:
  assumes "ok s" and "unat n \<le> length (pending s)" and "unat offset + unat n \<le> length buffer" and "length buffer < 2 ^ 63"
  shows "\<exists>s'. readFully_loop rd (Some buffer) offset n s =
      Some (Inr (), Some (write_at (unat offset) (take (unat n) (pending s)) buffer), s') \<and> ok s' \<and>
    pending s' = drop (unat n) (pending s)"
  using assms
proof (induction "unat n" arbitrary: n offset buffer s rule: less_induct)
  case less
  show ?case
  proof (cases "n = 0")
    case True
    then show ?thesis
      using less.prems by (subst readFully_loop.simps) (simp add: write_at_def)
  next
    case False
    then have pos: "0 < n" "0 < unat n" by (simp_all add: word_gt_0 unat_gt_0)
    then have "pending s \<noteq> []" using less.prems(2) by auto
    then obtain k s1 where k: "1 \<le> k" "k \<le> unat n" "k \<le> length (pending s)"
      "rd (Some buffer) offset n s = (Inr (int k), Some (write_at (unat offset) (take k (pending s)) buffer), s1)"
      "ok s1" "pending s1 = drop k (pending s)"
      using rd_bytes[OF less.prems(1) pos(1) less.prems(3,4)] by blast
    let ?b1 = "write_at (unat offset) (take k (pending s)) buffer"
    have n1: "unat (n - of_nat k) = unat n - k"
      using k(2) less.prems(3,4) by (simp add: unat_sub word_le_nat_alt unat_of_nat take_bit_nat_eq_self)
    have o1: "unat (offset + of_nat k) = unat offset + k"
      using k(2) less.prems(3,4) by (simp add: unat_word_ariths unat_of_nat take_bit_nat_eq_self)
    have len: "length ?b1 = length buffer"
      using k(2,3) less.prems(3) by simp
    obtain s2 where s2: "readFully_loop rd (Some ?b1) (offset + of_nat k) (n - of_nat k) s1 =
        Some (Inr (), Some (write_at (unat offset + k) (take (unat n - k) (drop k (pending s))) ?b1), s2)" "ok s2"
      "pending s2 = drop (unat n) (pending s)"
      using less.hyps[of "n - of_nat k" s1 "offset + of_nat k" ?b1] n1 o1 k(1,2,3,5,6) less.prems(2,3,4) len
      by (auto simp: diff_le_mono)
    have "write_at (unat offset + k) (take (unat n - k) (drop k (pending s))) ?b1 =
        write_at (unat offset) (take (unat n) (pending s)) buffer"
      using write_at_append[of "unat offset" "take k (pending s)" "take (unat n - k) (drop k (pending s))" buffer]
        k(2,3) less.prems(2,3) take_add[of k "unat n - k" "pending s"] by simp
    then show ?thesis
      using s2 k(1,4) pos by (subst readFully_loop.simps) (auto simp: word_gt_0)
  qed
qed

lemma readFully_reads:
  assumes "ok (diStream s)" and "unat n \<le> length (pending (diStream s))" and "unat n \<le> length buffer" and "length buffer < 2 ^ 63"
  shows "\<exists>s'. DataInputStream_readFully rd (Some buffer) 0 n s =
      Some (Inr (), Some (take (unat n) (pending (diStream s)) @ drop (unat n) buffer), s') \<and> ok (diStream s') \<and>
    diScratchpad s' = diScratchpad s \<and> pending (diStream s') = drop (unat n) (pending (diStream s))"
proof (cases "n = 0")
  case False
  have "unat (ByteArray_size buffer) = length buffer" using assms(4) by (intro of_nat_size) simp
  then have "\<not> 0 + n > ByteArray_size buffer" using assms(3) by (simp add: word_less_nat_alt)
  then show ?thesis
    using False readFully_loop_reads[OF assms(1,2), of 0 buffer] assms
    by (auto simp: DataInputStream_readFully_def write_at_def min_def)
qed (use assms in \<open>simp add: DataInputStream_readFully_def\<close>)

lemma read_scratchpad_reads:
  assumes "ok (diStream s)" and "length (diScratchpad s) = 8" and "unat n \<le> 8" and "pending (diStream s) = bs @ rest"
    and "length bs = unat n"
  shows "data_reads ok pending rest (decode (bs @ drop (unat n) (diScratchpad s))) (read_scratchpad rd n decode s)"
  using readFully_reads[of s n "diScratchpad s"] assms
  by (auto simp: read_scratchpad_def data_reads_def)

lemma read_short:
  assumes "ok (diStream s)" and "length (diScratchpad s) = 8" and "pending (diStream s) = be_bytes 2 v @ rest"
  shows "data_reads ok pending rest v (DataInputStream_readShort rd s)"
proof -
  obtain b0 b1 where b: "be_bytes 2 v = [b0, b1]"
    by (simp add: be_bytes_def word_bytes_2)
  have "bytes_word (rev (be_bytes 2 v)) = v" by simp
  note v = this[unfolded b rev.simps append.simps decode_short]
  show ?thesis
    unfolding DataInputStream_readShort_def
    using read_scratchpad_reads[OF assms(1,2) _ assms(3), of 2 "\<lambda>sp. (push_bit 8 (ucast (sp ! 0)) OR (ucast (sp ! 1) AND 0xff) :: int16)"] v
    by (simp add: b)
qed

lemma read_int:
  assumes "ok (diStream s)" and "length (diScratchpad s) = 8" and "pending (diStream s) = be_bytes 4 v @ rest"
  shows "data_reads ok pending rest v (DataInputStream_readInt rd s)"
proof -
  obtain b0 b1 b2 b3 where b: "be_bytes 4 v = [b0, b1, b2, b3]"
    by (simp add: be_bytes_def word_bytes_4)
  have "bytes_word (rev (be_bytes 4 v)) = v" by simp
  note v = this[unfolded b rev.simps append.simps decode_int]
  show ?thesis
    unfolding DataInputStream_readInt_def
    using read_scratchpad_reads[OF assms(1,2) _ assms(3), of 4 "\<lambda>sp. (push_bit 24 (ucast (sp ! 0) AND 0xff) OR push_bit 16 (ucast (sp ! 1) AND 0xff) OR push_bit 8 (ucast (sp ! 2) AND 0xff) OR (ucast (sp ! 3) AND 0xff) :: int32)"] v
    by (simp add: b)
qed

lemma read_long:
  assumes "ok (diStream s)" and "length (diScratchpad s) = 8" and "pending (diStream s) = be_bytes 8 v @ rest"
  shows "data_reads ok pending rest v (DataInputStream_readLong rd s)"
proof -
  obtain b0 b1 b2 b3 b4 b5 b6 b7 where b: "be_bytes 8 v = [b0, b1, b2, b3, b4, b5, b6, b7]"
    by (simp add: be_bytes_def word_bytes_8)
  have "bytes_word (rev (be_bytes 8 v)) = v" by simp
  note v = this[unfolded b rev.simps append.simps decode_long]
  show ?thesis
    unfolding DataInputStream_readLong_def
    using read_scratchpad_reads[OF assms(1,2) _ assms(3), of 8 "\<lambda>sp. (push_bit 56 (ucast (sp ! 0) AND 0xff) OR push_bit 48 (ucast (sp ! 1) AND 0xff) OR push_bit 40 (ucast (sp ! 2) AND 0xff) OR push_bit 32 (ucast (sp ! 3) AND 0xff) OR push_bit 24 (ucast (sp ! 4) AND 0xff) OR push_bit 16 (ucast (sp ! 5) AND 0xff) OR push_bit 8 (ucast (sp ! 6) AND 0xff) OR (ucast (sp ! 7) AND 0xff) :: int64)"] v
    by (simp add: b)
qed

lemma read_utf:
  assumes "ok (diStream s)" and "length (diScratchpad s) = 8" and "length str < 2 ^ 16"
    and "pending (diStream s) = be_bytes 2 (of_nat (length str) :: int16) @ str @ rest"
  shows "data_reads ok pending rest str (DataInputStream_readUTF rd s)"
proof -
  let ?n = "ucast (of_nat (length str) :: int16) :: size_t"
  have n: "unat ?n = length str"
    using assms(3) by (simp add: unsigned_ucast_eq unat_of_nat take_bit_nat_eq_self)
  obtain s1 where s1: "DataInputStream_readUnsignedShort rd s = Some (Inr (of_nat (length str)), s1)" "ok (diStream s1)"
    "length (diScratchpad s1) = 8" "pending (diStream s1) = str @ rest"
    using read_short[OF assms(1,2,4)] by (auto simp: data_reads_def DataInputStream_readUnsignedShort_def)
  have "length (ByteArray_new ?n) = length str" by (simp add: ByteArray_new_def n)
  then show ?thesis
    using readFully_reads[OF s1(2), of ?n "ByteArray_new ?n"] s1 n assms(3)
    by (auto simp: DataInputStream_readUTF_def data_reads_def Let_def)
qed

lemma read_single:
  assumes "ok (diStream s)" and "length (diScratchpad s) = 8" and "pending (diStream s) = b # rest"
  shows "data_reads ok pending rest b (Some (DataInputStream_readByte rd1 s))"
    and "data_reads ok pending rest (b \<noteq> 0) (Some (DataInputStream_readBoolean rd1 s))"
proof -
  obtain i1 where i1: "rd1 (diStream s) = (Inr (ucast b), i1)" "ok i1" "pending i1 = rest"
    using rd1_byte[OF assms(1,3)] by blast
  have "uint b < 2 ^ 8"
    using unsigned_less[of b, where ?'a = int] by simp
  moreover have "0 \<le> uint b" by simp
  then have "- 2147483648 \<le> uint b" by linarith
  ultimately have "sint (ucast b :: int32) = uint b"
    by (simp add: sint_uint unsigned_ucast_eq take_bit_int_eq_self signed_take_bit_int_eq_self_iff)
  then have pos: "\<not> (ucast b :: int32) <s 0"
    by (simp add: word_sless_alt)
  have "(ucast b :: int32) = 0 \<longleftrightarrow> b = 0"
    by (metis ucast_byte_int unsigned_0)
  then show "data_reads ok pending rest b (Some (DataInputStream_readByte rd1 s))"
    "data_reads ok pending rest (b \<noteq> 0) (Some (DataInputStream_readBoolean rd1 s))"
    using i1 pos assms(2) by (simp_all add: data_reads_def DataInputStream_readByte_def DataInputStream_readBoolean_def)
qed

lemma data_reads_map:
  "data_reads ok pending rest v r \<Longrightarrow> data_reads ok pending rest (f v) (map_option (result_map f) r)"
  by (auto simp: data_reads_def result_map_def)

lemma read_item_reads:
  assumes "ok (diStream s)" and "length (diScratchpad s) = 8" and "pending (diStream s) = item_bytes x @ rest" and "representable x"
  shows "data_reads ok pending rest (one_NaN x) (read_item rd1 rd (kind_of x) s)"
proof (cases x)
  case (UTF_item str)
  then show ?thesis
    using data_reads_map[OF read_utf[OF assms(1,2), of str rest], of UTF_item] assms(3,4) by simp
next
  case (Boolean_item b)
  then show ?thesis
    using data_reads_map[OF read_single(2)[OF assms(1,2)], of "if b then 1 else 0" rest Boolean_item] assms(3)
    by (cases b) simp_all
next
  case (Byte_item b)
  then show ?thesis
    using data_reads_map[OF read_single(1)[OF assms(1,2)], of b rest Byte_item] assms(3) by simp
next
  case (Char_item b)
  then show ?thesis
    using data_reads_map[OF read_single(1)[OF assms(1,2)], of b rest Char_item] assms(3)
    by (simp add: DataInputStream_readChar_def)
next
  case (Short_item v)
  then show ?thesis using data_reads_map[OF read_short[OF assms(1,2)], of v rest Short_item] assms(3) by simp
next
  case (Int_item v)
  then show ?thesis using data_reads_map[OF read_int[OF assms(1,2)], of v rest Int_item] assms(3) by simp
next
  case (Long_item v)
  then show ?thesis using data_reads_map[OF read_long[OF assms(1,2)], of v rest Long_item] assms(3) by simp
next
  case (Float_item v)
  then show ?thesis
    using data_reads_map[OF read_int[OF assms(1,2)], of "Float_floatToIntBits v" rest Float_item] assms(3)
    by (simp add: DataInputStream_readFloat_def)
next
  case (Double_item v)
  then show ?thesis
    using data_reads_map[OF read_long[OF assms(1,2)], of "Double_doubleToLongBits v" rest Double_item] assms(3)
    by (simp add: DataInputStream_readDouble_def)
qed

lemma read_items_reads:
  assumes "ok (diStream s)" and "length (diScratchpad s) = 8" and "pending (diStream s) = items_bytes xs @ rest"
    and "\<forall>x \<in> set xs. representable x"
  shows "data_reads ok pending rest (map one_NaN xs) (read_items rd1 rd (map kind_of xs) s)"
  using assms
proof (induction xs arbitrary: s)
  case (Cons x xs)
  obtain s1 where "read_item rd1 rd (kind_of x) s = Some (Inr (one_NaN x), s1)" "ok (diStream s1)"
    "length (diScratchpad s1) = 8" "pending (diStream s1) = items_bytes xs @ rest"
    using read_item_reads[OF Cons.prems(1,2), of x "items_bytes xs @ rest"] Cons.prems(3,4)
    by (auto simp: data_reads_def items_bytes_def)
  then show ?case
    using data_reads_map[OF Cons.IH, of s1 "\<lambda>xs. one_NaN x # xs"] Cons.prems(4) by simp
qed (simp add: data_reads_def items_bytes_def)

text \<open>At the end of the stream.\<close>

lemma readFully_loop_end:
  assumes "ok s" and "length (pending s) < unat n" and "unat offset + unat n \<le> length buffer" and "length buffer < 2 ^ 63"
  shows "\<exists>b s'. readFully_loop rd (Some buffer) offset n s = Some (Inl EOFException, Some b, s') \<and> ok s' \<and>
    pending s' = [] \<and> length b = length buffer"
  using assms
proof (induction "unat n" arbitrary: n offset buffer s rule: less_induct)
  case less
  then have pos: "0 < n" by (auto simp: word_gt_0)
  show ?case
  proof (cases "pending s = []")
    case True
    then show ?thesis
      using rd_end[OF less.prems(1) pos less.prems(3,4) True] pos by (subst readFully_loop.simps) auto
  next
    case False
    obtain k s1 where k: "1 \<le> k" "k \<le> unat n" "k \<le> length (pending s)"
      "rd (Some buffer) offset n s = (Inr (int k), Some (write_at (unat offset) (take k (pending s)) buffer), s1)"
      "ok s1" "pending s1 = drop k (pending s)"
      using rd_bytes[OF less.prems(1) pos less.prems(3,4) False] by blast
    let ?b1 = "write_at (unat offset) (take k (pending s)) buffer"
    have n1: "unat (n - of_nat k) = unat n - k"
      using k(2) less.prems(3,4) by (simp add: unat_sub word_le_nat_alt unat_of_nat take_bit_nat_eq_self)
    have o1: "unat (offset + of_nat k) = unat offset + k"
      using k(2) less.prems(3,4) by (simp add: unat_word_ariths unat_of_nat take_bit_nat_eq_self)
    have len: "length ?b1 = length buffer"
      using k(2,3) less.prems(3) by simp
    have "\<exists>b s'. readFully_loop rd (Some ?b1) (offset + of_nat k) (n - of_nat k) s1 = Some (Inl EOFException, Some b, s') \<and>
        ok s' \<and> pending s' = [] \<and> length b = length ?b1"
      using less.hyps[of "n - of_nat k" s1 "offset + of_nat k" ?b1] n1 o1 k(1,2,3,5,6) less.prems(2,3,4) len
      by (auto simp: diff_less_mono)
    then show ?thesis
      using k(1,4) pos len by (subst readFully_loop.simps) (auto simp: word_gt_0)
  qed
qed

lemma read_scratchpad_end:
  assumes "ok (diStream s)" and "length (diScratchpad s) = 8" and "unat n \<le> 8" and "length (pending (diStream s)) < unat n"
  shows "\<exists>s'. read_scratchpad rd n decode s = Some (Inl EOFException, s') \<and> ok (diStream s') \<and> pending (diStream s') = [] \<and>
    length (diScratchpad s') = 8"
proof -
  have "unat (ByteArray_size (diScratchpad s)) = 8" using assms(2) by (simp add: of_nat_size)
  then have "\<not> 0 + n > ByteArray_size (diScratchpad s)" "n \<noteq> 0"
    using assms(3,4) by (auto simp: word_less_nat_alt)
  then show ?thesis
    using readFully_loop_end[OF assms(1,4), of 0 "diScratchpad s"] assms(2,3)
    by (auto simp: read_scratchpad_def DataInputStream_readFully_def)
qed

end

subsection \<open>ByteArrayInputStream\<close>

definition bais_ok :: "byte_array_input \<Rightarrow> bool" where
  "bais_ok s \<longleftrightarrow> unat (inPosition s) \<le> unat (inCount s) \<and> unat (inCount s) \<le> length (inBuffer s) \<and> length (inBuffer s) < 2 ^ 63"

definition bais_pending :: "byte_array_input \<Rightarrow> bytes" where
  "bais_pending s = read_at (unat (inPosition s)) (unat (inCount s) - unat (inPosition s)) (inBuffer s)"

lemma length_bais_pending [simp]: "bais_ok s \<Longrightarrow> length (bais_pending s) = unat (inCount s) - unat (inPosition s)"
  by (simp add: bais_ok_def bais_pending_def)

lemma bais_pending_Nil: "bais_ok s \<Longrightarrow> bais_pending s = [] \<longleftrightarrow> \<not> inPosition s < inCount s"
proof -
  assume "bais_ok s"
  moreover have "bais_pending s = [] \<longleftrightarrow> length (bais_pending s) = 0" by simp
  ultimately show ?thesis
    using length_bais_pending[of s] by (simp only: word_less_nat_alt) arith
qed

lemma bais_advance:
  assumes "bais_ok s" and "unat (inPosition s) + unat k \<le> unat (inCount s)"
  shows "bais_ok (s\<lparr>inPosition := inPosition s + k\<rparr>)"
    and "bais_pending (s\<lparr>inPosition := inPosition s + k\<rparr>) = drop (unat k) (bais_pending s)"
proof -
  have u: "unat (inPosition s + k) = unat (inPosition s) + unat k"
    using assms by (intro size_add_small) (simp add: bais_ok_def)
  show "bais_ok (s\<lparr>inPosition := inPosition s + k\<rparr>)"
    using assms u by (simp add: bais_ok_def)
  show "bais_pending (s\<lparr>inPosition := inPosition s + k\<rparr>) = drop (unat k) (bais_pending s)"
    using u by (simp add: bais_pending_def read_at_def drop_take add.commute)
qed

lemma sint_small:
  assumes "unat (k :: size_t) < 2 ^ 63"
  shows "sint k = int (unat k)"
proof -
  have "unat k < 9223372036854775808" using assms by simp
  then have "int (unat k) < 9223372036854775808" by linarith
  then have "uint k < 9223372036854775808" by simp
  moreover have "0 \<le> uint k" by simp
  then have "- 9223372036854775808 \<le> uint k" by linarith
  ultimately show ?thesis
    by (simp add: sint_uint signed_take_bit_int_eq_self_iff)
qed

lemma bais_read_byte:
  assumes "bais_ok s" and "bais_pending s = b # bs"
  shows "\<exists>s'. ByteArrayInputStream_read s = (Inr (ucast b), s') \<and> bais_ok s' \<and> bais_pending s' = bs"
proof -
  have less: "inPosition s < inCount s"
    using assms bais_pending_Nil[OF assms(1)] by auto
  then have pc: "unat (inPosition s) + unat (1 :: size_t) \<le> unat (inCount s)" by (simp add: word_less_nat_alt)
  have "b = bais_pending s ! 0" using assms(2) by simp
  also have "\<dots> = inBuffer s ! unat (inPosition s)"
    using assms(1) less unfolding bais_pending_def
    by (subst nth_read_at) (auto simp: bais_ok_def word_less_nat_alt)
  finally have b: "b = inBuffer s ! unat (inPosition s)" .
  have "unat (ByteArray_size (inBuffer s)) = length (inBuffer s)"
    using assms(1) by (intro of_nat_size) (simp add: bais_ok_def)
  then have "ByteArray_get (inPosition s) (inBuffer s) = Inr b"
    using less assms(1) by (simp add: ByteArray_get_def b bais_ok_def word_le_nat_alt word_less_nat_alt)
  then show ?thesis
    using less bais_advance[OF assms(1) pc] assms(2) by (simp add: ByteArrayInputStream_read_def and_ff_ucast)
qed

lemma bais_read_bytes:
  assumes ok: "bais_ok s" and n: "0 < n" and off: "unat offset + unat n \<le> length buffer" and len: "length buffer < 2 ^ 63"
    and ne: "bais_pending s \<noteq> []"
  shows "\<exists>k s'. 1 \<le> k \<and> k \<le> unat n \<and> k \<le> length (bais_pending s) \<and>
    ByteArrayInputStream_read_bytes (Some buffer) offset n s =
      (Inr (int k), Some (write_at (unat offset) (take k (bais_pending s)) buffer), s') \<and>
    bais_ok s' \<and> bais_pending s' = drop k (bais_pending s)"
proof -
  define k where "k = (if inCount s - inPosition s < n then inCount s - inPosition s else n)"
  have less: "inPosition s < inCount s" using bais_pending_Nil[OF ok] ne by simp
  then have d: "unat (inCount s - inPosition s) = unat (inCount s) - unat (inPosition s)"
    by (simp add: unat_sub word_less_nat_alt word_le_nat_alt)
  have n0: "0 < unat n" using n by (simp add: word_gt_0 unat_gt_0)
  have k: "1 \<le> unat k" "unat k \<le> unat n" "unat (inPosition s) + unat k \<le> unat (inCount s)"
    using d less n0 by (auto simp: k_def word_less_nat_alt)
  have "unat (offset + n) = unat offset + unat n" using off len by (intro size_add_small) simp
  moreover have "unat (ByteArray_size buffer) = length buffer" using len by (intro of_nat_size) simp
  ultimately have chk: "\<not> offset + n > ByteArray_size buffer" using off by (simp add: word_less_nat_alt)
  have cp: "arraycopy (Some (inBuffer s)) (inPosition s) (Some buffer) offset k =
      Inr (write_at (unat offset) (read_at (unat (inPosition s)) (unat k) (inBuffer s)) buffer)"
    using k ok off len by (intro arraycopy_in_bounds) (auto simp: bais_ok_def)
  have tk: "read_at (unat (inPosition s)) (unat k) (inBuffer s) = take (unat k) (bais_pending s)"
    using k(3) by (simp add: bais_pending_def read_at_def min_def)
  have sk: "sint k = int (unat k)" using k(2) off len by (intro sint_small) linarith
  have "n \<noteq> 0" "unat k \<le> unat (inCount s) - unat (inPosition s)"
    using n k(3) by (auto simp: word_gt_0)
  moreover have "\<not> inCount s \<le> inPosition s" using less by simp
  ultimately show ?thesis
    using k bais_advance[OF ok k(3)] chk cp sk ok
    by (intro exI[of _ "unat k"] exI[of _ "s\<lparr>inPosition := inPosition s + k\<rparr>"])
      (simp add: ByteArrayInputStream_read_bytes_def tk flip: k_def)
qed

interpretation byte_array_input: input_stream bais_ok bais_pending ByteArrayInputStream_read ByteArrayInputStream_read_bytes
proof (unfold_locales, goal_cases)
  case (1 s)
  then show ?case using bais_pending_Nil[of s] by (simp add: ByteArrayInputStream_read_def)
next
  case (2 s b bs)
  then show ?case by (rule bais_read_byte)
next
  case (3 s n offset buffer)
  then have "unat (offset + n) = unat offset + unat n" by (intro size_add_small) simp
  moreover have "unat (ByteArray_size buffer) = length buffer" using 3 by (intro of_nat_size) simp
  ultimately have "\<not> offset + n > ByteArray_size buffer" using 3 by (simp add: word_less_nat_alt)
  moreover have "inPosition s \<ge> inCount s" using 3 bais_pending_Nil[of s] by (simp add: not_less)
  ultimately show ?case
    using 3 by (simp add: ByteArrayInputStream_read_bytes_def)
next
  case (4 s n offset buffer)
  then show ?case by (intro bais_read_bytes)
qed

section \<open>Properties\<close>

lemma bais_new:
  assumes "length bs < 2 ^ 63"
  shows "\<exists>i. ByteArrayInputStream_new (Some bs) = Inr i \<and> bais_ok i \<and> bais_pending i = bs"
  using assms of_nat_size[of bs]
  by (simp add: ByteArrayInputStream_new_def bais_ok_def bais_pending_def read_at_def)

text \<open>
  Round trip of the data streams. Any sequence of values whose strings are not empty and shorter than \<open>2 ^ 16\<close> bytes,
  written with \<open>DataOutputStream\<close> and read back from the byte array with the matching operations of
  \<open>DataInputStream\<close>, comes back unchanged, except that every NaN comes back as one NaN; all loops end, and then
  the stream is exhausted.
\<close>

theorem data_stream_roundtrip:
  assumes "\<forall>x \<in> set xs. representable x" and "length (items_bytes xs) < 2 ^ 62"
  shows "\<exists>s bs i s'. write_items ByteArrayOutputStream_write ByteArrayOutputStream_write_bytes xs
      (DataOutputStream_new ByteArrayOutputStream_new) = (Inr (), s) \<and>
    ByteArrayOutputStream_toByteArray (doStream s) = Inr bs \<and> ByteArrayInputStream_new (Some bs) = Inr i \<and>
    read_items ByteArrayInputStream_read ByteArrayInputStream_read_bytes (map kind_of xs) (DataInputStream_new i) =
      Some (Inr (map one_NaN xs), s') \<and>
    fst (ByteArrayInputStream_read (diStream s')) = Inr (- 1)"
proof -
  obtain s where s: "write_items ByteArrayOutputStream_write ByteArrayOutputStream_write_bytes xs
      (DataOutputStream_new ByteArrayOutputStream_new) = (Inr (), s)" "baos_ok (doStream s)" "baos_sent (doStream s) = items_bytes xs"
    using byte_array_output.write_items_sends[of "DataOutputStream_new ByteArrayOutputStream_new" xs] assms(2) baos_new
    by (auto simp: data_sends_def DataOutputStream_new_def ByteArray_new_def)
  obtain i where i: "ByteArrayInputStream_new (Some (items_bytes xs)) = Inr i" "bais_ok i" "bais_pending i = items_bytes xs"
    using bais_new[of "items_bytes xs"] assms(2) by auto
  obtain s' where s': "read_items ByteArrayInputStream_read ByteArrayInputStream_read_bytes (map kind_of xs) (DataInputStream_new i) =
      Some (Inr (map one_NaN xs), s')" "bais_ok (diStream s')" "bais_pending (diStream s') = []"
    using byte_array_input.read_items_reads[of "DataInputStream_new i" xs "[]"] assms(1) i
    by (auto simp: data_reads_def DataInputStream_new_def ByteArray_new_def)
  show ?thesis
    using s i s' toByteArray_sent[OF s(2)] byte_array_input.rd1_end[OF s'(2,3)] by fastforce
qed

theorem data_stream_roundtrip_witness:
  "\<exists>s bs i s'. write_items ByteArrayOutputStream_write ByteArrayOutputStream_write_bytes [Long_item (- 2), UTF_item [79, 75]]
      (DataOutputStream_new ByteArrayOutputStream_new) = (Inr (), s) \<and>
    ByteArrayOutputStream_toByteArray (doStream s) = Inr bs \<and> ByteArrayInputStream_new (Some bs) = Inr i \<and>
    read_items ByteArrayInputStream_read ByteArrayInputStream_read_bytes [Long_kind, UTF_kind] (DataInputStream_new i) =
      Some (Inr [Long_item (- 2), UTF_item [79, 75]], s')"
proof -
  have "\<forall>x \<in> set [Long_item (- 2), UTF_item [79, 75]]. representable x"
    "length (items_bytes [Long_item (- 2), UTF_item [79, 75]]) < 2 ^ 62"
    by (simp_all add: items_bytes_def)
  from data_stream_roundtrip[OF this] show ?thesis by auto
qed

definition decodes_next :: "nat \<Rightarrow> byte_array_input data_input \<Rightarrow> ('a::len word result \<times> byte_array_input data_input) option \<Rightarrow> bool" where
  "decodes_next n s r \<longleftrightarrow> (\<exists>s'. bais_ok (diStream s') \<and> length (diScratchpad s') = 8 \<and>
     (if n \<le> length (bais_pending (diStream s))
      then r = Some (Inr (bytes_word (rev (take n (bais_pending (diStream s))))), s') \<and>
        bais_pending (diStream s') = drop n (bais_pending (diStream s))
      else r = Some (Inl EOFException, s') \<and> bais_pending (diStream s') = []))"

lemma be_bytes_bytes_word:
  assumes "length bs = n" and "LENGTH('a) = 8 * n"
  shows "be_bytes n (bytes_word (rev bs) :: 'a::len word) = bs"
proof -
  have "word_bytes n (bytes_word cs :: 'a word) = cs" if c: "length cs = n" for cs
  proof (rule nth_equalityI)
    fix i assume "i < length (word_bytes n (bytes_word cs :: 'a word))"
    then have i: "i < n" by simp
    show "word_bytes n (bytes_word cs :: 'a word) ! i = cs ! i"
    proof (rule bit_word_eqI)
      fix j assume "j < LENGTH(8)"
      then have "(8 * i + j) div 8 = i" "(8 * i + j) mod 8 = j" "8 * i + j < 8 * n" using i by auto
      then show "bit (word_bytes n (bytes_word cs :: 'a word) ! i) j \<longleftrightarrow> bit (cs ! i) j"
        using i c assms(2) \<open>j < LENGTH(8)\<close> by (simp add: word_bytes_def bit_simps bit_bytes_word)
    qed
  qed (simp add: c)
  then show ?thesis using assms(1) by (simp add: be_bytes_def)
qed

lemma decodes_nextI:
  assumes "bais_ok (diStream s)" and "length (diScratchpad s) = 8" and n: "LENGTH('a) = 8 * n"
    and "\<And>v rest. bais_pending (diStream s) = be_bytes n v @ rest \<Longrightarrow> data_reads bais_ok bais_pending rest v r"
    and "length (bais_pending (diStream s)) < n \<Longrightarrow>
      \<exists>s'. r = Some (Inl EOFException, s') \<and> bais_ok (diStream s') \<and> bais_pending (diStream s') = [] \<and> length (diScratchpad s') = 8"
  shows "decodes_next n s (r :: ('a::len word result \<times> byte_array_input data_input) option)"
proof (cases "n \<le> length (bais_pending (diStream s))")
  case True
  let ?p = "bais_pending (diStream s)"
  have "?p = be_bytes n (bytes_word (rev (take n ?p)) :: 'a word) @ drop n ?p"
    using True n by (simp add: be_bytes_bytes_word)
  from assms(4)[OF this] show ?thesis
    using True by (auto simp: decodes_next_def data_reads_def)
next
  case False
  then show ?thesis
    using assms(5) by (auto simp: decodes_next_def not_le)
qed

text \<open>
  The fixed-size reads of a \<open>DataInputStream\<close> over a \<open>ByteArrayInputStream\<close> always end: they decode the next 2, 4 or 8
  bytes (most significant first) and consume exactly those, or throw \<open>EOFException\<close> when fewer are left, which
  consumes the rest. None of them is ever undefined.
\<close>

theorem DataInputStream_reads_end:
  assumes "bais_ok (diStream s)" and "length (diScratchpad s) = 8"
  shows "decodes_next 2 s (DataInputStream_readShort ByteArrayInputStream_read_bytes s) \<and>
    decodes_next 4 s (DataInputStream_readInt ByteArrayInputStream_read_bytes s) \<and>
    decodes_next 8 s (DataInputStream_readLong ByteArrayInputStream_read_bytes s)"
  using byte_array_input.read_short[OF assms] byte_array_input.read_int[OF assms] byte_array_input.read_long[OF assms]
    byte_array_input.read_scratchpad_end[OF assms, of 2] byte_array_input.read_scratchpad_end[OF assms, of 4]
    byte_array_input.read_scratchpad_end[OF assms, of 8]
  by (intro conjI decodes_nextI[OF assms])
    (simp_all add: DataInputStream_readShort_def DataInputStream_readInt_def DataInputStream_readLong_def)

theorem DataInputStream_reads_end_witness:
  "\<exists>s'. DataInputStream_readShort ByteArrayInputStream_read_bytes
      (DataInputStream_new \<lparr>inBuffer = [1, 2, 3], inPosition = 0, inMark = 0, inCount = 3\<rparr>) = Some (Inr 0x102, s') \<and>
     bais_pending (diStream s') = [3]"
proof -
  let ?s = "DataInputStream_new \<lparr>inBuffer = [1, 2, 3], inPosition = 0, inMark = 0, inCount = 3\<rparr>"
  have "bais_ok (diStream ?s)" "length (diScratchpad ?s) = 8" "bais_pending (diStream ?s) = [1, 2, 3]"
    by (simp_all add: bais_ok_def bais_pending_def read_at_def DataInputStream_new_def ByteArray_new_def)
  then show ?thesis
    using DataInputStream_reads_end[of ?s] by (auto simp: decodes_next_def)
qed

text \<open>
  \<open>writeUTF\<close> and \<open>readUTF\<close> are not inverse to each other outside these bounds: \<open>writeUTF\<close> of the empty string writes
  nothing, not even a length, so that \<open>readUTF\<close> at that place throws \<open>EOFException\<close>; and of a string of \<open>2 ^ 16\<close> bytes or
  more it writes every byte behind a length modulo \<open>2 ^ 16\<close>, so that \<open>readUTF\<close> returns only a prefix and leaves the rest in
  the stream.
\<close>

theorem writeUTF_readUTF_mismatch:
  assumes "2 ^ 16 \<le> length str" and "length str < 2 ^ 17" and "ByteArrayInputStream_new (Some []) = Inr i0"
  shows "DataOutputStream_writeUTF ByteArrayOutputStream_write_bytes (Some []) s0 = (Inr (), s0) \<and>
    (\<exists>s'. DataInputStream_readUTF ByteArrayInputStream_read_bytes (DataInputStream_new i0) = Some (Inl EOFException, s')) \<and>
    (\<exists>s bs i s'. DataOutputStream_writeUTF ByteArrayOutputStream_write_bytes (Some str)
        (DataOutputStream_new ByteArrayOutputStream_new) = (Inr (), s) \<and>
      ByteArrayOutputStream_toByteArray (doStream s) = Inr bs \<and> length bs = length str + 2 \<and>
      ByteArrayInputStream_new (Some bs) = Inr i \<and>
      DataInputStream_readUTF ByteArrayInputStream_read_bytes (DataInputStream_new i) =
        Some (Inr (take (length str - 2 ^ 16) str), s') \<and>
      bais_pending (diStream s') = drop (length str - 2 ^ 16) str)"
proof -
  let ?m = "length str - 2 ^ 16" and ?w = "of_nat (length str) :: int16"
  have ne: "str \<noteq> []" and m: "?m < 2 ^ 16" using assms(1,2) by auto
  have w: "?w = of_nat (length (take ?m str))"
    using assms(1,2) by (simp add: word_of_nat_eq_iff take_bit_eq_mod le_mod_geq)
  obtain s where s: "DataOutputStream_writeUTF ByteArrayOutputStream_write_bytes (Some str)
      (DataOutputStream_new ByteArrayOutputStream_new) = (Inr (), s)" "baos_ok (doStream s)"
    "baos_sent (doStream s) = be_bytes 2 ?w @ str"
    using byte_array_output.data_writeUTF[of "DataOutputStream_new ByteArrayOutputStream_new" str] assms(2) ne baos_new
    by (auto simp: data_sends_def DataOutputStream_new_def ByteArray_new_def)
  obtain i where i: "ByteArrayInputStream_new (Some (be_bytes 2 ?w @ str)) = Inr i" "bais_ok i"
    "bais_pending i = be_bytes 2 ?w @ str"
    using bais_new[of "be_bytes 2 ?w @ str"] assms(2) by auto
  obtain s' where s': "DataInputStream_readUTF ByteArrayInputStream_read_bytes (DataInputStream_new i) =
      Some (Inr (take ?m str), s')" "bais_pending (diStream s') = drop ?m str"
    using byte_array_input.read_utf[of "DataInputStream_new i" "take ?m str" "drop ?m str"] i assms(2) w m
    by (auto simp: data_reads_def DataInputStream_new_def ByteArray_new_def)
  have "bais_ok i0" "bais_pending i0 = []"
    using bais_new[of "[]"] assms(3) by auto
  then obtain s2 where "DataInputStream_readShort ByteArrayInputStream_read_bytes (DataInputStream_new i0) = Some (Inl EOFException, s2)"
    using byte_array_input.read_scratchpad_end[of "DataInputStream_new i0" 2]
    by (auto simp: DataInputStream_readShort_def DataInputStream_new_def ByteArray_new_def)
  then have "DataInputStream_readUTF ByteArrayInputStream_read_bytes (DataInputStream_new i0) = Some (Inl EOFException, s2)"
    by (simp add: DataInputStream_readUTF_def DataInputStream_readUnsignedShort_def)
  moreover have "DataOutputStream_writeUTF ByteArrayOutputStream_write_bytes (Some []) s0 = (Inr (), s0)"
    by (simp add: DataOutputStream_writeUTF_def ByteArray_size_def)
  ultimately show ?thesis
    using s(1,3) toByteArray_sent[OF s(2)] i(1) s' by auto
qed

theorem writeUTF_readUTF_mismatch_witness:
  "\<exists>s bs i s'. DataOutputStream_writeUTF ByteArrayOutputStream_write_bytes (Some (replicate 65537 65))
      (DataOutputStream_new ByteArrayOutputStream_new) = (Inr (), s) \<and>
    ByteArrayOutputStream_toByteArray (doStream s) = Inr bs \<and> ByteArrayInputStream_new (Some bs) = Inr i \<and>
    DataInputStream_readUTF ByteArrayInputStream_read_bytes (DataInputStream_new i) = Some (Inr (take 1 (replicate 65537 65)), s')"
proof -
  obtain i0 where "ByteArrayInputStream_new (Some []) = Inr i0" by (simp add: ByteArrayInputStream_new_def)
  moreover have "2 ^ 16 \<le> length (replicate 65537 (65 :: uint8))" "length (replicate 65537 (65 :: uint8)) < 2 ^ 17"
    "length (replicate 65537 (65 :: uint8)) - 2 ^ 16 = 1"
    by (simp_all only: length_replicate) simp_all
  ultimately show ?thesis
    using writeUTF_readUTF_mismatch[of "replicate 65537 65" i0] by metis
qed

end
