(* ===== verification/Sequences.thy ===== *)
theory Sequences
  imports Prelude
begin

text \<open>
  The sequence containers of \<open>src/mindroid/util\<close>: \<open>ArrayList\<close> and \<open>LinkedList\<close>, each in its primary
  template and in its specialisation for smart pointers, and the iterator class that every container
  of the library declares.

  The contents of the \<open>std::vector\<close> or \<open>std::list\<close> inside a container are a HOL list. An element of
  a container of smart pointers is an \<open>'a option\<close>, with \<open>None\<close> for the null pointer; the virtual method
  \<open>Object::equals\<close> is the parameter \<open>equals\<close>, and calling it on a null element is \<open>Undefined\<close>. An index
  of type \<open>size_t\<close> is a natural number: no operation computes an index beyond the size of a container.

  The locale \<open>sequence\<close> states the contract that the four containers share, and is interpreted on each of
  them; the locale \<open>removing_iterator\<close> states the contract of the iterator.
\<close>

section \<open>The loops over the elements\<close>

text \<open>
  The loops the containers share. \<open>p\<close> is the comparison of an element with the wanted value, which may
  dereference a null pointer; the list is what the iterator has in front of it.
\<close>

fun contains_loop :: "('a \<Rightarrow> bool result) \<Rightarrow> 'a list \<Rightarrow> bool result" where
  "contains_loop p [] = Inr False"
| "contains_loop p (x # xs) = bind_result (p x) (\<lambda>b. if b then Inr True else contains_loop p xs)"

fun indexOf_loop :: "('a \<Rightarrow> bool result) \<Rightarrow> int \<Rightarrow> 'a list \<Rightarrow> int result" where
  "indexOf_loop p i [] = Inr (- 1)"
| "indexOf_loop p i (x # xs) = bind_result (p x) (\<lambda>b. if b then Inr i else indexOf_loop p (i + 1) xs)"

fun remove_loop :: "('a \<Rightarrow> bool result) \<Rightarrow> 'a list \<Rightarrow> (bool \<times> 'a list) result" where
  "remove_loop p [] = Inr (False, [])"
| "remove_loop p (x # xs) =
     bind_result (p x) (\<lambda>b. if b then Inr (True, xs)
       else bind_result (remove_loop p xs) (\<lambda>(r, ys). Inr (r, x # ys)))"

fun insert_loop :: "nat \<Rightarrow> nat \<Rightarrow> 'a \<Rightarrow> 'a list \<Rightarrow> 'a list" where
  "insert_loop i index value [] = []"
| "insert_loop i index value (x # xs) =
     (if i = index then value # x # xs else x # insert_loop (i + 1) index value xs)"

text \<open>\<open>None\<close> when the loop ends without having reached the index.\<close>

fun remove_at_loop :: "nat \<Rightarrow> nat \<Rightarrow> 'a list \<Rightarrow> ('a \<times> 'a list) option" where
  "remove_at_loop i index [] = None"
| "remove_at_loop i index (x # xs) =
     (if i = index then Some (x, xs)
      else map_option (\<lambda>(v, ys). (v, x # ys)) (remove_at_loop (i + 1) index xs))"

fun get_loop :: "nat \<Rightarrow> nat \<Rightarrow> 'a list \<Rightarrow> 'a option" where
  "get_loop i index [] = None"
| "get_loop i index (x # xs) = (if i = index then Some x else get_loop (i + 1) index xs)"

fun set_loop :: "nat \<Rightarrow> nat \<Rightarrow> 'a \<Rightarrow> 'a list \<Rightarrow> ('a \<times> 'a list) option" where
  "set_loop i index value [] = None"
| "set_loop i index value (x # xs) =
     (if i = index then Some (x, value # xs)
      else map_option (\<lambda>(v, ys). (v, x # ys)) (set_loop (i + 1) index value xs))"

section \<open>The iterator of a container\<close>

text \<open>
  \<open>mIterator\<close> is the position of the standard iterator, the length of the contents for \<open>end()\<close>.
  Dereferencing or advancing \<open>end()\<close> and erasing at \<open>end()\<close> are undefined. The class is the same in all
  containers: for a hash container the list is its elements in the order of its standard iterator.
\<close>

record list_iterator =
  mForwardIterator :: bool
  mIterator :: nat

definition Iterator_new :: list_iterator where
  "Iterator_new = \<lparr>mForwardIterator = False, mIterator = 0\<rparr>"

definition Iterator_hasNext :: "list_iterator \<Rightarrow> 'a list \<Rightarrow> bool result" where
  "Iterator_hasNext it xs =
     (if \<not> mForwardIterator it then Inr (mIterator it \<noteq> length xs)
      else if mIterator it < length xs then Inr (mIterator it + 1 \<noteq> length xs)
      else Inl Undefined)"

definition Iterator_next :: "list_iterator \<Rightarrow> 'a list \<Rightarrow> ('a \<times> list_iterator) result" where
  "Iterator_next it xs =
     (let it' = (if \<not> mForwardIterator it then it\<lparr>mForwardIterator := True\<rparr>
                 else it\<lparr>mIterator := mIterator it + 1\<rparr>)
      in if mIterator it' < length xs then Inr (xs ! mIterator it', it') else Inl Undefined)"

definition Iterator_remove :: "list_iterator \<Rightarrow> 'a list \<Rightarrow> (bool \<times> list_iterator \<times> 'a list) result" where
  "Iterator_remove it xs =
     (if mForwardIterator it
      then if mIterator it < length xs
           then Inr (True, it\<lparr>mForwardIterator := False\<rparr>, take (mIterator it) xs @ drop (mIterator it + 1) xs)
           else Inl Undefined
      else Inr (False, it, xs))"

text \<open>
  The loop \<open>while (itr.hasNext()) add(itr.next())\<close> of the copying constructors and of \<open>addAll\<close>, with
  the operation applied to each element as a parameter.
\<close>

partial_function (option) for_each_next ::
  "('a \<Rightarrow> 's \<Rightarrow> 's) \<Rightarrow> list_iterator \<Rightarrow> 'a list \<Rightarrow> 's \<Rightarrow> 's result option" where
  "for_each_next f it xs s =
     (case Iterator_hasNext it xs of
        Inl e \<Rightarrow> Some (Inl e)
      | Inr b \<Rightarrow>
          if b
          then (case Iterator_next it xs of
                  Inl e \<Rightarrow> Some (Inl e)
                | Inr (x, it') \<Rightarrow> for_each_next f it' xs (f x s))
          else Some (Inr s))"

definition copy_collection :: "('a \<Rightarrow> 's \<Rightarrow> 's) \<Rightarrow> 'a list option \<Rightarrow> 's \<Rightarrow> 's result option" where
  "copy_collection f collection s =
     (case collection of None \<Rightarrow> Some (Inr s) | Some xs \<Rightarrow> for_each_next f Iterator_new xs s)"

section \<open>ArrayList\<close>

definition ArrayList_add :: "'a \<Rightarrow> 'a list \<Rightarrow> bool \<times> 'a list" where
  "ArrayList_add value xs = (True, xs @ [value])"

definition ArrayList_copy :: "'a list option \<Rightarrow> 'a list result option" where
  "ArrayList_copy collection = copy_collection (\<lambda>x xs. snd (ArrayList_add x xs)) collection []"

text \<open>From a C array and its size; \<open>count\<close> elements must be read from a non-null array.\<close>

definition ArrayList_of_array :: "'a list option \<Rightarrow> nat \<Rightarrow> 'a list result" where
  "ArrayList_of_array collection count =
     (case collection of
        None \<Rightarrow> Inr []
      | Some xs \<Rightarrow> if count \<le> length xs then Inr (take count xs) else Inl Undefined)"

definition ArrayList_size :: "'a list \<Rightarrow> nat" where
  "ArrayList_size xs = length xs"

definition ArrayList_isEmpty :: "'a list \<Rightarrow> bool" where
  "ArrayList_isEmpty xs = (xs = [])"

definition ArrayList_clear :: "'a list \<Rightarrow> 'a list" where
  "ArrayList_clear xs = []"

definition ArrayList_add_at :: "nat \<Rightarrow> 'a \<Rightarrow> 'a list \<Rightarrow> 'a list result" where
  "ArrayList_add_at index value xs =
     (if index > ArrayList_size xs then Inl IndexOutOfBoundsException
      else if index < ArrayList_size xs then Inr (insert_loop 0 index value xs)
      else Inr (snd (ArrayList_add value xs)))"

definition ArrayList_contains :: "'a \<Rightarrow> 'a list \<Rightarrow> bool result" where
  "ArrayList_contains value xs = contains_loop (\<lambda>x. Inr (x = value)) xs"

definition ArrayList_get :: "nat \<Rightarrow> 'a list \<Rightarrow> 'a result" where
  "ArrayList_get index xs = (if index \<ge> ArrayList_size xs then Inl IndexOutOfBoundsException else Inr (xs ! index))"

definition ArrayList_indexOf :: "'a \<Rightarrow> 'a list \<Rightarrow> int result" where
  "ArrayList_indexOf value xs = indexOf_loop (\<lambda>x. Inr (x = value)) 0 xs"

definition ArrayList_remove_at :: "nat \<Rightarrow> 'a list \<Rightarrow> ('a \<times> 'a list) result" where
  "ArrayList_remove_at index xs =
     (if index \<ge> ArrayList_size xs then Inl IndexOutOfBoundsException
      else case remove_at_loop 0 index xs of None \<Rightarrow> Inl Undefined | Some r \<Rightarrow> Inr r)"

definition ArrayList_remove :: "'a \<Rightarrow> 'a list \<Rightarrow> (bool \<times> 'a list) result" where
  "ArrayList_remove value xs = remove_loop (\<lambda>x. Inr (x = value)) xs"

definition ArrayList_set :: "nat \<Rightarrow> 'a \<Rightarrow> 'a list \<Rightarrow> ('a \<times> 'a list) result" where
  "ArrayList_set index value xs =
     (if index \<ge> ArrayList_size xs then Inl IndexOutOfBoundsException
      else Inr (xs ! index, xs[index := value]))"

text \<open>The consumer gets a reference to the element and may change it.\<close>

fun ArrayList_forEach :: "('a \<Rightarrow> 's \<Rightarrow> 'a \<times> 's) \<Rightarrow> 'a list \<Rightarrow> 's \<Rightarrow> 'a list \<times> 's" where
  "ArrayList_forEach consumer [] s = ([], s)"
| "ArrayList_forEach consumer (x # xs) s =
     (let (x', s1) = consumer x s; (xs', s2) = ArrayList_forEach consumer xs s1 in (x' # xs', s2))"

section \<open>ArrayList of smart pointers\<close>

definition equals_null_unsafe :: "('a \<Rightarrow> 'a option \<Rightarrow> bool) \<Rightarrow> 'a option \<Rightarrow> 'a option \<Rightarrow> bool result" where
  "equals_null_unsafe equals value x = bind_result (deref x) (\<lambda>a. Inr (equals a value))"

definition ArrayListSp_add :: "'a option \<Rightarrow> 'a option list \<Rightarrow> bool \<times> 'a option list" where
  "ArrayListSp_add value xs = (True, xs @ [value])"

definition ArrayListSp_copy :: "'a option list option \<Rightarrow> 'a option list result option" where
  "ArrayListSp_copy collection = copy_collection (\<lambda>x xs. snd (ArrayListSp_add x xs)) collection []"

definition ArrayListSp_size :: "'a option list \<Rightarrow> nat" where
  "ArrayListSp_size xs = length xs"

definition ArrayListSp_isEmpty :: "'a option list \<Rightarrow> bool" where
  "ArrayListSp_isEmpty xs = (xs = [])"

definition ArrayListSp_clear :: "'a option list \<Rightarrow> 'a option list" where
  "ArrayListSp_clear xs = []"

definition ArrayListSp_add_at :: "nat \<Rightarrow> 'a option \<Rightarrow> 'a option list \<Rightarrow> 'a option list result" where
  "ArrayListSp_add_at index value xs =
     (if index > ArrayListSp_size xs then Inl IndexOutOfBoundsException
      else if index < ArrayListSp_size xs then Inr (insert_loop 0 index value xs)
      else Inr (snd (ArrayListSp_add value xs)))"

definition ArrayListSp_contains ::
  "('a \<Rightarrow> 'a option \<Rightarrow> bool) \<Rightarrow> 'a option \<Rightarrow> 'a option list \<Rightarrow> bool result" where
  "ArrayListSp_contains equals value xs =
     (if value \<noteq> None then contains_loop (equals_null_unsafe equals value) xs else Inr False)"

definition ArrayListSp_get :: "nat \<Rightarrow> 'a option list \<Rightarrow> 'a option result" where
  "ArrayListSp_get index xs =
     (if index \<ge> ArrayListSp_size xs then Inl IndexOutOfBoundsException else Inr (xs ! index))"

definition ArrayListSp_indexOf ::
  "('a \<Rightarrow> 'a option \<Rightarrow> bool) \<Rightarrow> 'a option \<Rightarrow> 'a option list \<Rightarrow> int result" where
  "ArrayListSp_indexOf equals value xs = indexOf_loop (equals_null_unsafe equals value) 0 xs"

definition ArrayListSp_remove_at :: "nat \<Rightarrow> 'a option list \<Rightarrow> ('a option \<times> 'a option list) result" where
  "ArrayListSp_remove_at index xs =
     (if index \<ge> ArrayListSp_size xs then Inl IndexOutOfBoundsException
      else case remove_at_loop 0 index xs of None \<Rightarrow> Inr (None, xs) | Some r \<Rightarrow> Inr r)"

definition ArrayListSp_remove ::
  "('a \<Rightarrow> 'a option \<Rightarrow> bool) \<Rightarrow> 'a option \<Rightarrow> 'a option list \<Rightarrow> (bool \<times> 'a option list) result" where
  "ArrayListSp_remove equals value xs =
     (if value \<noteq> None then remove_loop (equals_null_unsafe equals value) xs else Inr (False, xs))"

definition ArrayListSp_set ::
  "nat \<Rightarrow> 'a option \<Rightarrow> 'a option list \<Rightarrow> ('a option \<times> 'a option list) result" where
  "ArrayListSp_set index value xs =
     (if index \<ge> ArrayListSp_size xs then Inl IndexOutOfBoundsException
      else Inr (xs ! index, xs[index := value]))"

fun ArrayListSp_forEach :: "('a option \<Rightarrow> 's \<Rightarrow> 's) \<Rightarrow> 'a option list \<Rightarrow> 's \<Rightarrow> 's" where
  "ArrayListSp_forEach consumer [] s = s"
| "ArrayListSp_forEach consumer (x # xs) s = ArrayListSp_forEach consumer xs (consumer x s)"

section \<open>LinkedList\<close>

definition LinkedList_add :: "'a \<Rightarrow> 'a list \<Rightarrow> bool \<times> 'a list" where
  "LinkedList_add value xs = (True, xs @ [value])"

definition LinkedList_copy :: "'a list option \<Rightarrow> 'a list result option" where
  "LinkedList_copy collection = copy_collection (\<lambda>x xs. snd (LinkedList_add x xs)) collection []"

definition LinkedList_size :: "'a list \<Rightarrow> nat" where
  "LinkedList_size xs = length xs"

definition LinkedList_isEmpty :: "'a list \<Rightarrow> bool" where
  "LinkedList_isEmpty xs = (xs = [])"

definition LinkedList_clear :: "'a list \<Rightarrow> 'a list" where
  "LinkedList_clear xs = []"

definition LinkedList_add_at :: "nat \<Rightarrow> 'a \<Rightarrow> 'a list \<Rightarrow> 'a list result" where
  "LinkedList_add_at index value xs =
     (if index > LinkedList_size xs then Inl IndexOutOfBoundsException
      else if index < LinkedList_size xs then Inr (insert_loop 0 index value xs)
      else Inr (snd (LinkedList_add value xs)))"

definition LinkedList_contains :: "'a \<Rightarrow> 'a list \<Rightarrow> bool result" where
  "LinkedList_contains value xs = contains_loop (\<lambda>x. Inr (x = value)) xs"

definition LinkedList_get :: "nat \<Rightarrow> 'a list \<Rightarrow> 'a result" where
  "LinkedList_get index xs =
     (if index \<ge> LinkedList_size xs then Inl IndexOutOfBoundsException else deref (get_loop 0 index xs))"

definition LinkedList_indexOf :: "'a \<Rightarrow> 'a list \<Rightarrow> int result" where
  "LinkedList_indexOf value xs = indexOf_loop (\<lambda>x. Inr (x = value)) 0 xs"

definition LinkedList_remove_at :: "nat \<Rightarrow> 'a list \<Rightarrow> ('a \<times> 'a list) result" where
  "LinkedList_remove_at index xs =
     (if index \<ge> LinkedList_size xs then Inl IndexOutOfBoundsException
      else case remove_at_loop 0 index xs of None \<Rightarrow> Inl Undefined | Some r \<Rightarrow> Inr r)"

definition LinkedList_remove :: "'a \<Rightarrow> 'a list \<Rightarrow> (bool \<times> 'a list) result" where
  "LinkedList_remove value xs = remove_loop (\<lambda>x. Inr (x = value)) xs"

definition LinkedList_set :: "nat \<Rightarrow> 'a \<Rightarrow> 'a list \<Rightarrow> ('a \<times> 'a list) result" where
  "LinkedList_set index value xs =
     (if index \<ge> LinkedList_size xs then Inl IndexOutOfBoundsException
      else case set_loop 0 index value xs of None \<Rightarrow> Inl Undefined | Some r \<Rightarrow> Inr r)"

section \<open>LinkedList of smart pointers\<close>

definition LinkedListSp_add :: "'a option \<Rightarrow> 'a option list \<Rightarrow> bool \<times> 'a option list" where
  "LinkedListSp_add value xs = (True, xs @ [value])"

definition LinkedListSp_copy :: "'a option list option \<Rightarrow> 'a option list result option" where
  "LinkedListSp_copy collection = copy_collection (\<lambda>x xs. snd (LinkedListSp_add x xs)) collection []"

definition LinkedListSp_size :: "'a option list \<Rightarrow> nat" where
  "LinkedListSp_size xs = length xs"

definition LinkedListSp_isEmpty :: "'a option list \<Rightarrow> bool" where
  "LinkedListSp_isEmpty xs = (xs = [])"

definition LinkedListSp_clear :: "'a option list \<Rightarrow> 'a option list" where
  "LinkedListSp_clear xs = []"

definition LinkedListSp_add_at :: "nat \<Rightarrow> 'a option \<Rightarrow> 'a option list \<Rightarrow> 'a option list result" where
  "LinkedListSp_add_at index value xs =
     (if index > LinkedListSp_size xs then Inl IndexOutOfBoundsException
      else if index < LinkedListSp_size xs then Inr (insert_loop 0 index value xs)
      else Inr (snd (LinkedListSp_add value xs)))"

definition LinkedListSp_contains ::
  "('a \<Rightarrow> 'a option \<Rightarrow> bool) \<Rightarrow> 'a option \<Rightarrow> 'a option list \<Rightarrow> bool result" where
  "LinkedListSp_contains equals value xs =
     (if value \<noteq> None then contains_loop (equals_null_unsafe equals value) xs else Inr False)"

definition LinkedListSp_get :: "nat \<Rightarrow> 'a option list \<Rightarrow> 'a option result" where
  "LinkedListSp_get index xs =
     (if index \<ge> LinkedListSp_size xs then Inl IndexOutOfBoundsException else deref (get_loop 0 index xs))"

definition LinkedListSp_indexOf ::
  "('a \<Rightarrow> 'a option \<Rightarrow> bool) \<Rightarrow> 'a option \<Rightarrow> 'a option list \<Rightarrow> int result" where
  "LinkedListSp_indexOf equals value xs = indexOf_loop (equals_null_unsafe equals value) 0 xs"

definition LinkedListSp_remove_at :: "nat \<Rightarrow> 'a option list \<Rightarrow> ('a option \<times> 'a option list) result" where
  "LinkedListSp_remove_at index xs =
     (if index \<ge> LinkedListSp_size xs then Inl IndexOutOfBoundsException
      else case remove_at_loop 0 index xs of None \<Rightarrow> Inr (None, xs) | Some r \<Rightarrow> Inr r)"

definition LinkedListSp_remove ::
  "('a \<Rightarrow> 'a option \<Rightarrow> bool) \<Rightarrow> 'a option \<Rightarrow> 'a option list \<Rightarrow> (bool \<times> 'a option list) result" where
  "LinkedListSp_remove equals value xs =
     (if value \<noteq> None then remove_loop (equals_null_unsafe equals value) xs else Inr (False, xs))"

definition LinkedListSp_set ::
  "nat \<Rightarrow> 'a option \<Rightarrow> 'a option list \<Rightarrow> ('a option \<times> 'a option list) result" where
  "LinkedListSp_set index value xs =
     (if index \<ge> LinkedListSp_size xs then Inl IndexOutOfBoundsException
      else case set_loop 0 index value xs of None \<Rightarrow> Inr (None, xs) | Some r \<Rightarrow> Inr r)"

section \<open>What the loops compute\<close>

lemma insert_loop_eq:
  "insert_loop i index v xs =
     (if i \<le> index \<and> index < i + length xs then take (index - i) xs @ v # drop (index - i) xs else xs)"
  by (induction xs arbitrary: i) (auto simp: Suc_diff_Suc take_Cons' drop_Cons')

lemma remove_at_loop_eq:
  "remove_at_loop i index xs =
     (if i \<le> index \<and> index < i + length xs
      then Some (xs ! (index - i), take (index - i) xs @ drop (Suc (index - i)) xs) else None)"
  by (induction xs arbitrary: i) (auto simp: take_Cons' drop_Cons' nth_Cons' Suc_diff_Suc Suc_le_eq)

lemma get_loop_eq:
  "get_loop i index xs = (if i \<le> index \<and> index < i + length xs then Some (xs ! (index - i)) else None)"
  by (induction xs arbitrary: i) (auto simp: nth_Cons')

lemma set_loop_eq:
  "set_loop i index v xs =
     (if i \<le> index \<and> index < i + length xs then Some (xs ! (index - i), xs[index - i := v]) else None)"
  by (induction xs arbitrary: i) (auto simp: nth_Cons' list_update.simps diff_Suc split: nat.splits)

definition first_index :: "('a \<Rightarrow> bool) \<Rightarrow> 'a list \<Rightarrow> nat" where
  "first_index P xs = length (takeWhile (\<lambda>x. \<not> P x) xs)"

lemma first_index_less: "first_index P xs < length xs \<longleftrightarrow> (\<exists>x \<in> set xs. P x)"
  by (induction xs) (auto simp: first_index_def)

lemma first_index_holds: "first_index P xs < length xs \<Longrightarrow> P (xs ! first_index P xs)"
  using nth_length_takeWhile[of "\<lambda>x. \<not> P x" xs] by (simp add: first_index_def)

lemma first_index_least: "j < first_index P xs \<Longrightarrow> \<not> P (xs ! j)"
  unfolding first_index_def by (metis (no_types) nth_mem set_takeWhileD takeWhile_nth)

lemma contains_loop_total:
  "(\<And>x. x \<in> set xs \<Longrightarrow> p x = Inr (P x)) \<Longrightarrow> contains_loop p xs = Inr (first_index P xs < length xs)"
  by (induction xs) (auto simp: first_index_def)

lemma indexOf_loop_total:
  "(\<And>x. x \<in> set xs \<Longrightarrow> p x = Inr (P x)) \<Longrightarrow>
     indexOf_loop p i xs = Inr (if first_index P xs < length xs then i + int (first_index P xs) else - 1)"
  by (induction xs arbitrary: i) (auto simp: first_index_def)

lemma remove_loop_total:
  "(\<And>x. x \<in> set xs \<Longrightarrow> p x = Inr (P x)) \<Longrightarrow>
     remove_loop p xs = Inr (first_index P xs < length xs,
       take (first_index P xs) xs @ drop (Suc (first_index P xs)) xs)"
  by (induction xs) (auto simp: first_index_def)

lemmas loop_total = contains_loop_total indexOf_loop_total remove_loop_total

lemma loops_hit_null:
  assumes "xs = ys @ z # zs" and "\<And>y. y \<in> set ys \<Longrightarrow> p y = Inr False" and "p z = Inl e"
  shows "contains_loop p xs = Inl e" and "indexOf_loop p i xs = Inl e" and "remove_loop p xs = Inl e"
  using assms by (induction ys arbitrary: xs i) auto

section \<open>The contract of a sequence\<close>

text \<open>
  \<open>ok\<close> says that the contents can be searched (no null element), \<open>wanted\<close> that a value can be searched
  for, and \<open>eq\<close> is the comparison of an element with the wanted value.
\<close>

locale sequence =
  fixes ok :: "'a list \<Rightarrow> bool"
    and wanted :: "'a \<Rightarrow> bool"
    and eq :: "'a \<Rightarrow> 'a \<Rightarrow> bool"
    and add_at :: "nat \<Rightarrow> 'a \<Rightarrow> 'a list \<Rightarrow> 'a list result"
    and get :: "nat \<Rightarrow> 'a list \<Rightarrow> 'a result"
    and set_at :: "nat \<Rightarrow> 'a \<Rightarrow> 'a list \<Rightarrow> ('a \<times> 'a list) result"
    and remove_at :: "nat \<Rightarrow> 'a list \<Rightarrow> ('a \<times> 'a list) result"
    and contains :: "'a \<Rightarrow> 'a list \<Rightarrow> bool result"
    and indexOf :: "'a \<Rightarrow> 'a list \<Rightarrow> int result"
    and remove :: "'a \<Rightarrow> 'a list \<Rightarrow> (bool \<times> 'a list) result"
  assumes add_at_spec: "add_at i v xs =
      (if i \<le> length xs then Inr (take i xs @ v # drop i xs) else Inl IndexOutOfBoundsException)"
    and get_spec: "get i xs = (if i < length xs then Inr (xs ! i) else Inl IndexOutOfBoundsException)"
    and set_at_spec: "set_at i v xs =
      (if i < length xs then Inr (xs ! i, xs[i := v]) else Inl IndexOutOfBoundsException)"
    and remove_at_spec: "remove_at i xs =
      (if i < length xs then Inr (xs ! i, take i xs @ drop (Suc i) xs) else Inl IndexOutOfBoundsException)"
    and contains_spec: "ok xs \<Longrightarrow> wanted v \<Longrightarrow>
      contains v xs = Inr (first_index (\<lambda>x. eq x v) xs < length xs)"
    and indexOf_spec: "ok xs \<Longrightarrow> wanted v \<Longrightarrow> indexOf v xs =
      Inr (if first_index (\<lambda>x. eq x v) xs < length xs then int (first_index (\<lambda>x. eq x v) xs) else - 1)"
    and remove_spec: "ok xs \<Longrightarrow> wanted v \<Longrightarrow> remove v xs =
      Inr (first_index (\<lambda>x. eq x v) xs < length xs,
        take (first_index (\<lambda>x. eq x v) xs) xs @ drop (Suc (first_index (\<lambda>x. eq x v) xs)) xs)"
begin

lemma add_at_shifts:
  assumes "i \<le> length xs"
  shows "\<exists>ys. add_at i v xs = Inr ys \<and> length ys = length xs + 1 \<and> get i ys = Inr v \<and>
    (\<forall>j < i. get j ys = get j xs) \<and> (\<forall>j \<ge> i. get (j + 1) ys = get j xs) \<and> remove_at i ys = Inr (v, xs)"
  using assms by (auto simp: add_at_spec get_spec remove_at_spec nth_append)

lemma set_at_writes:
  assumes "i < length xs"
  shows "\<exists>ys. set_at i v xs = Inr (xs ! i, ys) \<and> get i ys = Inr v \<and> (\<forall>j. j \<noteq> i \<longrightarrow> get j ys = get j xs)"
  using assms by (auto simp: set_at_spec get_spec)

lemma out_of_range:
  "length xs < i \<Longrightarrow> add_at i v xs = Inl IndexOutOfBoundsException"
  "length xs \<le> i \<Longrightarrow> get i xs = Inl IndexOutOfBoundsException"
  "length xs \<le> i \<Longrightarrow> set_at i v xs = Inl IndexOutOfBoundsException"
  "length xs \<le> i \<Longrightarrow> remove_at i xs = Inl IndexOutOfBoundsException"
  by (simp_all add: add_at_spec get_spec set_at_spec remove_at_spec)

lemma search_agrees:
  assumes "ok xs" and "wanted v"
  shows "if \<exists>x \<in> set xs. eq x v
    then \<exists>i x ys. indexOf v xs = Inr (int i) \<and> get i xs = Inr x \<and> eq x v \<and> (\<forall>j < i. \<not> eq (xs ! j) v) \<and>
      contains v xs = Inr True \<and> remove_at i xs = Inr (x, ys) \<and> remove v xs = Inr (True, ys)
    else indexOf v xs = Inr (- 1) \<and> contains v xs = Inr False \<and> remove v xs = Inr (False, xs)"
proof (cases "first_index (\<lambda>x. eq x v) xs < length xs")
  case True
  then show ?thesis
    using first_index_less[of "\<lambda>x. eq x v" xs] first_index_holds[OF True] assms
    by (auto simp: contains_spec indexOf_spec remove_spec remove_at_spec get_spec dest: first_index_least)
next
  case False
  then show ?thesis
    using first_index_less[of "\<lambda>x. eq x v" xs] assms
    by (auto simp: contains_spec indexOf_spec remove_spec)
qed

end

lemmas sequence_defs =
  ArrayList_add_at_def ArrayList_add_def ArrayList_size_def ArrayList_get_def ArrayList_set_def
  ArrayList_remove_at_def ArrayList_contains_def ArrayList_indexOf_def ArrayList_remove_def
  ArrayListSp_add_at_def ArrayListSp_add_def ArrayListSp_size_def ArrayListSp_get_def ArrayListSp_set_def
  ArrayListSp_remove_at_def ArrayListSp_contains_def ArrayListSp_indexOf_def ArrayListSp_remove_def
  LinkedList_add_at_def LinkedList_add_def LinkedList_size_def LinkedList_get_def LinkedList_set_def
  LinkedList_remove_at_def LinkedList_contains_def LinkedList_indexOf_def LinkedList_remove_def
  LinkedListSp_add_at_def LinkedListSp_add_def LinkedListSp_size_def LinkedListSp_get_def LinkedListSp_set_def
  LinkedListSp_remove_at_def LinkedListSp_contains_def LinkedListSp_indexOf_def LinkedListSp_remove_def

lemmas loop_specs = insert_loop_eq remove_at_loop_eq get_loop_eq set_loop_eq loop_total

interpretation array_list: sequence "\<lambda>_. True" "\<lambda>_. True" "(=)" ArrayList_add_at ArrayList_get ArrayList_set
  ArrayList_remove_at ArrayList_contains ArrayList_indexOf ArrayList_remove
  by unfold_locales (auto simp: sequence_defs loop_specs)

interpretation linked_list: sequence "\<lambda>_. True" "\<lambda>_. True" "(=)" LinkedList_add_at LinkedList_get LinkedList_set
  LinkedList_remove_at LinkedList_contains LinkedList_indexOf LinkedList_remove
  by unfold_locales (auto simp: sequence_defs loop_specs)

text \<open>The comparison of smart pointers, on a list without null elements.\<close>

definition sp_equals :: "('a \<Rightarrow> 'a option \<Rightarrow> bool) \<Rightarrow> 'a option \<Rightarrow> 'a option \<Rightarrow> bool" where
  "sp_equals equals x value = (case x of None \<Rightarrow> False | Some a \<Rightarrow> equals a value)"

lemma equals_null_unsafe_total:
  "None \<notin> set xs \<Longrightarrow> x \<in> set xs \<Longrightarrow> equals_null_unsafe equals v x = Inr (sp_equals equals x v)"
  by (cases x) (auto simp: equals_null_unsafe_def sp_equals_def)

lemmas sp_loop_total = loop_total[OF equals_null_unsafe_total]

interpretation array_list_sp: sequence "\<lambda>xs. None \<notin> set xs" "\<lambda>v. v \<noteq> None" "sp_equals equals"
  ArrayListSp_add_at ArrayListSp_get ArrayListSp_set ArrayListSp_remove_at "ArrayListSp_contains equals"
  "ArrayListSp_indexOf equals" "ArrayListSp_remove equals" for equals
  by unfold_locales (auto simp: sequence_defs insert_loop_eq remove_at_loop_eq get_loop_eq set_loop_eq sp_loop_total)

interpretation linked_list_sp: sequence "\<lambda>xs. None \<notin> set xs" "\<lambda>v. v \<noteq> None" "sp_equals equals"
  LinkedListSp_add_at LinkedListSp_get LinkedListSp_set LinkedListSp_remove_at "LinkedListSp_contains equals"
  "LinkedListSp_indexOf equals" "LinkedListSp_remove equals" for equals
  by unfold_locales (auto simp: sequence_defs insert_loop_eq remove_at_loop_eq get_loop_eq set_loop_eq sp_loop_total)

section \<open>The contract of an iterator\<close>

text \<open>
  \<open>at it c done cur ahead\<close>: the iterator has passed the elements \<open>done\<close>, has returned the element of
  \<open>cur\<close> (none after a removal) last, and has \<open>ahead\<close> in front of it.
\<close>

fun sweep_with ::
  "('it \<Rightarrow> 'c \<Rightarrow> bool result) \<Rightarrow> ('it \<Rightarrow> 'c \<Rightarrow> ('a \<times> 'it) result) \<Rightarrow> ('it \<Rightarrow> 'c \<Rightarrow> (bool \<times> 'it \<times> 'c) result) \<Rightarrow>
     ('a \<Rightarrow> bool) \<Rightarrow> nat \<Rightarrow> 'it \<Rightarrow> 'c \<Rightarrow> ('a list \<times> 'c) result option" where
  "sweep_with hasNext nxt remove p 0 it c = None"
| "sweep_with hasNext nxt remove p (Suc n) it c =
     (case hasNext it c of
        Inl e \<Rightarrow> Some (Inl e)
      | Inr b \<Rightarrow>
          if \<not> b then Some (Inr ([], c))
          else case nxt it c of
            Inl e \<Rightarrow> Some (Inl e)
          | Inr (x, it1) \<Rightarrow>
              (case (if p x then bind_result (remove it1 c) (\<lambda>(r, it2, c2). Inr (it2, c2)) else Inr (it1, c)) of
                 Inl e \<Rightarrow> Some (Inl e)
               | Inr (it2, c2) \<Rightarrow>
                   map_option (\<lambda>r. bind_result r (\<lambda>(seen, c3). Inr (x # seen, c3)))
                     (sweep_with hasNext nxt remove p n it2 c2)))"

locale removing_iterator =
  fixes at :: "'it \<Rightarrow> 'c \<Rightarrow> 'a list \<Rightarrow> 'a list \<Rightarrow> 'a list \<Rightarrow> bool"
    and contents :: "'c \<Rightarrow> 'a list"
    and start :: 'it
    and hasNext :: "'it \<Rightarrow> 'c \<Rightarrow> bool result"
    and nxt :: "'it \<Rightarrow> 'c \<Rightarrow> ('a \<times> 'it) result"
    and remove :: "'it \<Rightarrow> 'c \<Rightarrow> (bool \<times> 'it \<times> 'c) result"
  assumes at_start: "at start c [] [] (contents c)"
    and at_contents: "at it c passed cur ahead \<Longrightarrow> contents c = passed @ cur @ ahead"
    and hasNext_at: "at it c passed cur ahead \<Longrightarrow> hasNext it c = Inr (ahead \<noteq> [])"
    and next_at: "at it c passed cur (x # ahead) \<Longrightarrow> \<exists>it'. nxt it c = Inr (x, it') \<and> at it' c (passed @ cur) [x] ahead"
    and remove_at: "at it c passed [x] ahead \<Longrightarrow>
      \<exists>it' c'. remove it c = Inr (True, it', c') \<and> at it' c' passed [] ahead"
begin

lemma sweep_from:
  assumes "at it c passed cur ahead" and "length ahead < n"
  shows "\<exists>c'. sweep_with hasNext nxt remove p n it c = Some (Inr (ahead, c')) \<and>
    contents c' = passed @ cur @ filter (\<lambda>x. \<not> p x) ahead"
  using assms
proof (induction n arbitrary: it c passed cur ahead)
  case (Suc n)
  show ?case
  proof (cases ahead)
    case Nil
    then show ?thesis
      using at_contents[OF Suc.prems(1)] hasNext_at[OF Suc.prems(1)] by simp
  next
    case (Cons x rest)
    obtain it1 where n1: "nxt it c = Inr (x, it1)" "at it1 c (passed @ cur) [x] rest"
      using next_at Suc.prems(1) unfolding Cons by blast
    show ?thesis
    proof (cases "p x")
      case True
      obtain it2 c2 where r: "remove it1 c = Inr (True, it2, c2)" "at it2 c2 (passed @ cur) [] rest"
        using remove_at[OF n1(2)] by blast
      show ?thesis
        using Suc.IH[OF r(2)] Suc.prems n1(1) r(1) hasNext_at[OF Suc.prems(1)] True Cons by auto
    next
      case False
      show ?thesis
        using Suc.IH[OF n1(2)] Suc.prems n1(1) hasNext_at[OF Suc.prems(1)] False Cons by auto
    qed
  qed
qed simp

lemma sweep_filters:
  "length (contents c) < n \<Longrightarrow>
     \<exists>c'. sweep_with hasNext nxt remove p n start c = Some (Inr (contents c, c')) \<and>
       contents c' = filter (\<lambda>x. \<not> p x) (contents c)"
  using sweep_from[OF at_start] by auto

end

definition iterator_at :: "list_iterator \<Rightarrow> 'a list \<Rightarrow> 'a list \<Rightarrow> 'a list \<Rightarrow> 'a list \<Rightarrow> bool" where
  "iterator_at it xs passed cur ahead \<longleftrightarrow> xs = passed @ cur @ ahead \<and> length cur \<le> 1 \<and>
     (mForwardIterator it \<longleftrightarrow> cur \<noteq> []) \<and> mIterator it = length passed"

lemma iterator_next_at:
  "iterator_at it xs passed cur (x # ahead) \<Longrightarrow>
     \<exists>it'. Iterator_next it xs = Inr (x, it') \<and> iterator_at it' xs (passed @ cur) [x] ahead"
  by (cases cur) (auto simp: iterator_at_def Iterator_next_def nth_append)

lemma iterator_hasNext_at:
  "iterator_at it xs passed cur ahead \<Longrightarrow> Iterator_hasNext it xs = Inr (ahead \<noteq> [])"
  by (cases cur) (auto simp: iterator_at_def Iterator_hasNext_def)

interpretation list_iter: removing_iterator iterator_at "\<lambda>xs. xs" Iterator_new Iterator_hasNext Iterator_next
  Iterator_remove
proof (unfold_locales, goal_cases)
  case (5 it c passed x ahead)
  then show ?case by (auto simp: iterator_at_def Iterator_remove_def)
qed (auto simp: iterator_hasNext_at iterator_next_at, auto simp: iterator_at_def Iterator_new_def)

lemma for_each_next_from:
  "iterator_at it xs passed cur ahead \<Longrightarrow> for_each_next f it xs s = Some (Inr (fold f ahead s))"
proof (induction ahead arbitrary: it passed cur s)
  case Nil
  then show ?case by (subst for_each_next.simps) (simp add: iterator_hasNext_at)
next
  case (Cons x ahead)
  then show ?case
    using iterator_next_at[OF Cons.prems] by (subst for_each_next.simps) (auto simp: iterator_hasNext_at)
qed

lemma copy_collection_eq [simp]:
  "copy_collection f c s = Some (Inr (case c of None \<Rightarrow> s | Some xs \<Rightarrow> fold f xs s))"
  by (auto simp: copy_collection_def list_iter.at_start[THEN for_each_next_from] split: option.splits)

lemma fold_snoc: "fold (\<lambda>x ys. ys @ [x]) xs acc = acc @ xs"
  by (induction xs arbitrary: acc) auto

section \<open>Properties\<close>

text \<open>
  \<open>ArrayList::add(index, value)\<close>, for both templates: an index beyond the size throws
  \<open>IndexOutOfBoundsException\<close>; otherwise the list grows by one, the value is found at the index, the elements
  before it stay where they are, those behind it move by one, and removing at the index restores the list.
\<close>

theorem ArrayList_add_at_shifts:
  "(if i \<le> length xs
    then \<exists>ys. ArrayList_add_at i v xs = Inr ys \<and> length ys = length xs + 1 \<and> ArrayList_get i ys = Inr v \<and>
      (\<forall>j < i. ArrayList_get j ys = ArrayList_get j xs) \<and> (\<forall>j \<ge> i. ArrayList_get (j + 1) ys = ArrayList_get j xs) \<and>
      ArrayList_remove_at i ys = Inr (v, xs)
    else ArrayList_add_at i v xs = Inl IndexOutOfBoundsException) \<and>
   (if i \<le> length zs
    then \<exists>ys. ArrayListSp_add_at i w zs = Inr ys \<and> length ys = length zs + 1 \<and> ArrayListSp_get i ys = Inr w \<and>
      (\<forall>j < i. ArrayListSp_get j ys = ArrayListSp_get j zs) \<and> (\<forall>j \<ge> i. ArrayListSp_get (j + 1) ys = ArrayListSp_get j zs) \<and>
      ArrayListSp_remove_at i ys = Inr (w, zs)
    else ArrayListSp_add_at i w zs = Inl IndexOutOfBoundsException)"
  using array_list.add_at_shifts[of i xs v] array_list_sp.add_at_shifts[of i zs w]
    array_list.out_of_range(1)[of xs i v] array_list_sp.out_of_range(1)[of zs i w]
  by (simp add: not_le)

theorem ArrayList_add_at_shifts_witness:
  "\<exists>ys. ArrayList_add_at 1 (7::nat) [1, 2] = Inr ys \<and> ArrayList_get 2 ys = ArrayList_get 1 [1, 2] \<and>
     ArrayList_remove_at 1 ys = Inr (7, [1, 2]) \<and> ArrayListSp_add_at 1 (None :: nat option) [] = Inl IndexOutOfBoundsException"
  using ArrayList_add_at_shifts[of 1 "[1, 2 :: nat]" 7 "[] :: nat option list" None]
  by (auto simp: numeral_2_eq_2)

text \<open>
  Searching an \<open>ArrayList\<close>: \<open>indexOf\<close>, \<open>contains\<close>, \<open>get\<close>, \<open>remove(value)\<close> and \<open>remove(index)\<close> agree. When
  some element equals the value, \<open>indexOf\<close> is the first such position and \<open>remove(value)\<close> removes
  exactly the element at that position; otherwise \<open>indexOf\<close> is -1 and nothing is removed. For smart pointers
  this holds, without undefined behaviour, as long as no element is null.
\<close>

theorem ArrayList_search_agrees:
  assumes "None \<notin> set zs"
  shows "(if v \<in> set xs
    then \<exists>i ys. ArrayList_indexOf v xs = Inr (int i) \<and> ArrayList_get i xs = Inr v \<and> (\<forall>j < i. xs ! j \<noteq> v) \<and>
      ArrayList_contains v xs = Inr True \<and> ArrayList_remove_at i xs = Inr (v, ys) \<and> ArrayList_remove v xs = Inr (True, ys)
    else ArrayList_indexOf v xs = Inr (- 1) \<and> ArrayList_contains v xs = Inr False \<and> ArrayList_remove v xs = Inr (False, xs)) \<and>
   (if \<exists>a. Some a \<in> set zs \<and> equals a (Some w)
    then \<exists>i a ys. ArrayListSp_indexOf equals (Some w) zs = Inr (int i) \<and> ArrayListSp_get i zs = Inr (Some a) \<and>
      equals a (Some w) \<and> (\<forall>j < i. \<not> sp_equals equals (zs ! j) (Some w)) \<and>
      ArrayListSp_contains equals (Some w) zs = Inr True \<and> ArrayListSp_remove_at i zs = Inr (Some a, ys) \<and>
      ArrayListSp_remove equals (Some w) zs = Inr (True, ys)
    else ArrayListSp_indexOf equals (Some w) zs = Inr (- 1) \<and> ArrayListSp_contains equals (Some w) zs = Inr False \<and>
      ArrayListSp_remove equals (Some w) zs = Inr (False, zs))"
proof -
  have "(\<exists>x \<in> set zs. sp_equals equals x (Some w)) \<longleftrightarrow> (\<exists>a. Some a \<in> set zs \<and> equals a (Some w))"
    by (auto simp: sp_equals_def split: option.splits)
  moreover have "x \<noteq> None" if "sp_equals equals x (Some w)" for x
    using that by (cases x) (auto simp: sp_equals_def)
  ultimately show ?thesis
    using array_list.search_agrees[of xs v] array_list_sp.search_agrees[OF assms, of "Some w" equals]
    by (auto simp: sp_equals_def split: if_splits option.splits)
qed

theorem ArrayList_search_agrees_witness:
  "\<exists>i ys. ArrayList_indexOf (5::nat) [4, 5, 6, 5] = Inr (int i) \<and> ArrayList_remove (5::nat) [4, 5, 6, 5] = Inr (True, ys) \<and>
     ArrayList_remove_at i [4, 5, 6, 5 :: nat] = Inr (5, ys)"
  using ArrayList_search_agrees[of "[] :: nat option list" 5 "[4, 5, 6, 5 :: nat]" "\<lambda>a v. v = Some a" 0] by auto

text \<open>
  A null element makes the search operations of an \<open>ArrayList\<close> or \<open>LinkedList\<close> of smart pointers
  undefined: they call \<open>equals\<close> on each element up to the first equal one, so a null element that
  stands before it is dereferenced, although \<open>add\<close> accepts null.
\<close>

theorem sp_lists_null_element_undefined:
  assumes "\<And>a. Some a \<in> set xs \<Longrightarrow> \<not> equals a (Some v)" and "None \<notin> set xs"
  shows "ArrayListSp_contains equals (Some v) (xs @ None # ys) = Inl Undefined \<and>
    ArrayListSp_indexOf equals (Some v) (xs @ None # ys) = Inl Undefined \<and>
    ArrayListSp_remove equals (Some v) (xs @ None # ys) = Inl Undefined \<and>
    LinkedListSp_contains equals (Some v) (xs @ None # ys) = Inl Undefined \<and>
    LinkedListSp_indexOf equals (Some v) (xs @ None # ys) = Inl Undefined \<and>
    LinkedListSp_remove equals (Some v) (xs @ None # ys) = Inl Undefined"
proof -
  have none: "equals_null_unsafe equals (Some v) None = Inl Undefined"
    by (simp add: equals_null_unsafe_def)
  have "equals_null_unsafe equals (Some v) x = Inr False" if "x \<in> set xs" for x
    by (cases x; use that assms in \<open>auto simp: equals_null_unsafe_def\<close>)
  note hit = loops_hit_null[where p = "equals_null_unsafe equals (Some v)", OF refl this none]
  show ?thesis
    by (simp add: sequence_defs hit)
qed

theorem sp_lists_null_element_undefined_witness:
  "ArrayListSp_contains (\<lambda>a w. w = Some a) (Some (3::nat)) [Some 1, None, Some 3] = Inl Undefined"
  using sp_lists_null_element_undefined[of "[Some 1]" "\<lambda>a w. w = Some a" "3 :: nat" "[Some 3]"] by auto

text \<open>
  \<open>LinkedList\<close> and \<open>ArrayList\<close> are interchangeable: although a linked list walks to an index where
  the array list jumps to it, every operation of the one, in both templates, gives the result and the
  exceptions of the other.
\<close>

theorem LinkedList_equals_ArrayList:
  "LinkedList_add = (ArrayList_add :: 'a \<Rightarrow> _) \<and> LinkedList_add_at = (ArrayList_add_at :: nat \<Rightarrow> 'a \<Rightarrow> _) \<and>
   LinkedList_get = (ArrayList_get :: nat \<Rightarrow> 'a list \<Rightarrow> _) \<and> LinkedList_set = (ArrayList_set :: nat \<Rightarrow> 'a \<Rightarrow> _) \<and>
   LinkedList_remove_at = (ArrayList_remove_at :: nat \<Rightarrow> 'a list \<Rightarrow> _) \<and> LinkedList_copy = (ArrayList_copy :: 'a list option \<Rightarrow> _) \<and>
   LinkedListSp_add = (ArrayListSp_add :: 'a option \<Rightarrow> _) \<and> LinkedListSp_add_at = (ArrayListSp_add_at :: nat \<Rightarrow> 'a option \<Rightarrow> _) \<and>
   LinkedListSp_get = (ArrayListSp_get :: nat \<Rightarrow> 'a option list \<Rightarrow> _) \<and> LinkedListSp_set = (ArrayListSp_set :: nat \<Rightarrow> 'a option \<Rightarrow> _) \<and>
   LinkedListSp_remove_at = (ArrayListSp_remove_at :: nat \<Rightarrow> 'a option list \<Rightarrow> _) \<and>
   LinkedListSp_contains = (ArrayListSp_contains :: ('a \<Rightarrow> _) \<Rightarrow> _) \<and> LinkedListSp_remove = (ArrayListSp_remove :: ('a \<Rightarrow> _) \<Rightarrow> _)"
  by (auto simp: fun_eq_iff sequence_defs loop_specs LinkedList_copy_def ArrayList_copy_def)

text \<open>
  The iterator. Walking over a container with \<open>hasNext\<close> and \<open>next\<close>, and calling \<open>remove\<close> for the elements
  that satisfy a test, ends without undefined behaviour, visits every element exactly once and in order, and
  leaves exactly the other elements. Without removals it copies: the copying constructors give
  an equal list, and the empty list for null.
\<close>

theorem iterator_sweep_filters:
  assumes "length xs < n"
  shows "sweep_with Iterator_hasNext Iterator_next Iterator_remove p n Iterator_new xs =
      Some (Inr (xs, filter (\<lambda>x. \<not> p x) xs)) \<and>
    ArrayList_copy (Some xs) = Some (Inr xs) \<and> LinkedListSp_copy (Some ys) = Some (Inr ys) \<and>
    ArrayList_copy (None :: 'b list option) = Some (Inr [])"
  using list_iter.sweep_filters[OF assms, of p]
  by (auto simp: ArrayList_copy_def LinkedListSp_copy_def ArrayList_add_def LinkedListSp_add_def fold_snoc)

theorem iterator_sweep_filters_witness:
  "sweep_with Iterator_hasNext Iterator_next Iterator_remove even 4 Iterator_new [1, 2, 4 :: nat] =
     Some (Inr ([1, 2, 4], [1]))"
proof -
  have "length [1, 2, 4 :: nat] < 4" "filter (\<lambda>x. odd x) [1, 2, 4 :: nat] = [1]" by simp_all
  then show ?thesis
    using iterator_sweep_filters[of "[1, 2, 4 :: nat]" 4 even "[] :: nat option list"] by metis
qed

end
