(* ===== verification/Strings.thy ===== *)
theory Strings
  imports Bytes Sequences "HOL-Library.Sublist"
begin

text \<open>
  The class \<open>String\<close> of \<open>src/mindroid/lang/String.h\<close> and \<open>String.cpp\<close>.

  A string refers to a buffer of characters (\<open>mData\<close>, null for the buffer \<open>NULL_STRING_BUFFER\<close>) and its
  size; the memory behind \<open>mData\<close> is the characters and a final NUL. Characters are bytes, and they may be
  NUL themselves: the functions of the C library then see only the part before the first NUL, while the
  operations that use the size see everything. A \<open>const char*\<close> is its memory up to the final NUL, or null.
  Passing null to a function of the C library and advancing a pointer beyond its memory are \<open>Undefined\<close>.
  Positions are natural numbers where the code cannot overflow; where it computes with them, \<open>size_t\<close>
  wraps. Characters are classified and converted as in the C locale, and \<open>char\<close> is a signed type.
\<close>

section \<open>The C library\<close>

type_synonym cstr = "bytes option"
type_synonym str = "bytes option"

definition c_string :: "bytes \<Rightarrow> bytes" where
  "c_string bs = takeWhile (\<lambda>c. c \<noteq> 0) bs"

definition strlen :: "bytes \<Rightarrow> nat" where
  "strlen bs = length (c_string bs)"

definition strcmp_eq :: "bytes \<Rightarrow> bytes \<Rightarrow> bool" where
  "strcmp_eq a b = (c_string a = c_string b)"

definition strncmp_eq :: "bytes \<Rightarrow> bytes \<Rightarrow> nat \<Rightarrow> bool" where
  "strncmp_eq a b n = (take n (c_string a @ [0]) = take n (c_string b @ [0]))"

fun find_index :: "('a \<Rightarrow> bool) \<Rightarrow> 'a list \<Rightarrow> nat option" where
  "find_index p [] = None"
| "find_index p (x # xs) = (if p x then Some 0 else map_option Suc (find_index p xs))"

fun find_last_index :: "('a \<Rightarrow> bool) \<Rightarrow> 'a list \<Rightarrow> nat option" where
  "find_last_index p [] = None"
| "find_last_index p (x # xs) =
     (case find_last_index p xs of Some i \<Rightarrow> Some (Suc i) | None \<Rightarrow> if p x then Some 0 else None)"

fun first_occurrence :: "'a list \<Rightarrow> 'a list \<Rightarrow> nat option" where
  "first_occurrence n [] = (if n = [] then Some 0 else None)"
| "first_occurrence n (x # xs) =
     (if prefix n (x # xs) then Some 0 else map_option Suc (first_occurrence n xs))"

definition strchr :: "bytes \<Rightarrow> uint8 \<Rightarrow> nat option" where
  "strchr bs c = find_index (\<lambda>b. b = c) (c_string bs @ [0])"

definition strrchr :: "bytes \<Rightarrow> uint8 \<Rightarrow> nat option" where
  "strrchr bs c = find_last_index (\<lambda>b. b = c) (c_string bs @ [0])"

definition strstr :: "bytes \<Rightarrow> bytes \<Rightarrow> nat option" where
  "strstr haystack needle = first_occurrence (c_string needle) (c_string haystack)"

definition tolower :: "uint8 \<Rightarrow> uint8" where
  "tolower c = (if 65 \<le> c \<and> c \<le> 90 then c + 32 else c)"

definition toupper :: "uint8 \<Rightarrow> uint8" where
  "toupper c = (if 97 \<le> c \<and> c \<le> 122 then c - 32 else c)"

definition isspace :: "uint8 \<Rightarrow> bool" where
  "isspace c = (c = 32 \<or> 9 \<le> c \<and> c \<le> 13)"

text \<open>A pointer into the memory of a string; \<open>p + n\<close> is defined up to the final NUL.\<close>

definition advance :: "cstr \<Rightarrow> nat \<Rightarrow> cstr result" where
  "advance p n =
     (case p of
        None \<Rightarrow> if n = 0 then Inr None else Inl Undefined
      | Some bs \<Rightarrow> if n \<le> length bs then Inr (Some (drop n bs)) else Inl Undefined)"

definition index_or_minus_one :: "nat option \<Rightarrow> int" where
  "index_or_minus_one i = (case i of Some n \<Rightarrow> int n | None \<Rightarrow> - 1)"

section \<open>Construction\<close>

definition StringBuffer_new :: "cstr \<Rightarrow> nat \<Rightarrow> str result" where
  "StringBuffer_new string n =
     (case string of
        None \<Rightarrow> Inr None
      | Some bs \<Rightarrow> bind_result (raw_read 0 n (bs @ [0])) (\<lambda>data. Inr (Some data)))"

definition StringBuffer_concat :: "cstr \<Rightarrow> nat \<Rightarrow> cstr \<Rightarrow> nat \<Rightarrow> str result" where
  "StringBuffer_concat string1 size1 string2 size2 =
     (case (string1, string2) of
        (Some a, Some b) \<Rightarrow>
          bind_result (raw_read 0 size1 (a @ [0])) (\<lambda>x.
          bind_result (raw_read 0 size2 (b @ [0])) (\<lambda>y. Inr (Some (x @ y))))
      | _ \<Rightarrow> Inr None)"

definition String_new :: str where
  "String_new = Some []"

definition String_of_cstr :: "cstr \<Rightarrow> str" where
  "String_of_cstr string = (case string of None \<Rightarrow> None | Some bs \<Rightarrow> Some (c_string bs))"

definition String_of_chars :: "cstr \<Rightarrow> nat \<Rightarrow> str result" where
  "String_of_chars string n =
     (if string = None then Inr None else if n > 0 then StringBuffer_new string n else Inr (Some []))"

definition String_of_char :: "uint8 \<Rightarrow> str" where
  "String_of_char c = Some [c]"

definition String_c_str :: "str \<Rightarrow> cstr" where
  "String_c_str s = s"

definition String_length :: "str \<Rightarrow> nat" where
  "String_length s = (case s of None \<Rightarrow> 0 | Some bs \<Rightarrow> length bs)"

definition String_isEmpty :: "str \<Rightarrow> bool" where
  "String_isEmpty s = (String_length s = 0)"

definition String_copy :: "str option \<Rightarrow> str result" where
  "String_copy string =
     (case string of None \<Rightarrow> Inr None | Some s \<Rightarrow> StringBuffer_new (String_c_str s) (String_length s))"

definition String_of_ByteArray :: "bytes option \<Rightarrow> str" where
  "String_of_ByteArray byteArray = byteArray"

definition String_valueOf_cstr :: "cstr \<Rightarrow> str option" where
  "String_valueOf_cstr string = (if string \<noteq> None then Some (String_of_cstr string) else None)"

definition String_valueOf_chars :: "cstr \<Rightarrow> nat \<Rightarrow> str option result" where
  "String_valueOf_chars string n =
     (if string \<noteq> None
      then if n > 0 then bind_result (String_of_chars string n) (\<lambda>s. Inr (Some s)) else Inr (Some (Some []))
      else Inr None)"

definition String_valueOf_bool :: "bool \<Rightarrow> str" where
  "String_valueOf_bool b = String_of_cstr (Some (if b then [116, 114, 117, 101] else [102, 97, 108, 115, 101]))"

definition String_valueOf_char :: "uint8 \<Rightarrow> str" where
  "String_valueOf_char c = String_of_char c"

definition String_getBytes :: "str \<Rightarrow> bytes" where
  "String_getBytes s = (case s of None \<Rightarrow> [] | Some bs \<Rightarrow> bs)"

section \<open>Comparison\<close>

definition String_equals_cstr :: "str \<Rightarrow> cstr \<Rightarrow> bool" where
  "String_equals_cstr s string =
     (case (s, string) of
        (Some a, Some b) \<Rightarrow> strcmp_eq a b
      | _ \<Rightarrow> s = None \<and> string = None)"

definition String_equals_string :: "str \<Rightarrow> str option \<Rightarrow> bool result" where
  "String_equals_string s string =
     bind_result (deref string) (\<lambda>t.
       Inr (case (s, t) of (Some a, Some b) \<Rightarrow> strcmp_eq a b | _ \<Rightarrow> s = None \<and> t = None))"

text \<open>
  \<open>equals(const sp<Object>&)\<close>: \<open>same\<close> says that \<open>other\<close> is this very object, and \<open>other\<close> is null when the
  object is null or not a \<open>String\<close>.
\<close>

definition String_equals :: "bool \<Rightarrow> str \<Rightarrow> str option \<Rightarrow> bool result" where
  "String_equals same s other =
     (if same then Inr True
      else if other \<noteq> None then String_equals_string s other
      else Inr False)"

fun hash_loop :: "size_t \<Rightarrow> bytes \<Rightarrow> size_t" where
  "hash_loop hash [] = hash"
| "hash_loop hash (c # cs) = hash_loop (31 * hash + scast c) cs"

definition String_hashCode :: "str \<Rightarrow> size_t" where
  "String_hashCode s = (case s of None \<Rightarrow> 0 | Some bs \<Rightarrow> hash_loop 0 bs)"

definition String_toLowerCase :: "str \<Rightarrow> str" where
  "String_toLowerCase s = Some (case s of None \<Rightarrow> [] | Some bs \<Rightarrow> map tolower bs)"

definition String_toUpperCase :: "str \<Rightarrow> str" where
  "String_toUpperCase s = Some (case s of None \<Rightarrow> [] | Some bs \<Rightarrow> map toupper bs)"

definition String_equalsIgnoreCase_cstr :: "str \<Rightarrow> cstr \<Rightarrow> bool result" where
  "String_equalsIgnoreCase_cstr s string =
     bind_result (deref (String_valueOf_cstr string)) (\<lambda>tmp.
       String_equals_string (String_toLowerCase s) (Some (String_toLowerCase tmp)))"

definition String_equalsIgnoreCase :: "str \<Rightarrow> str option \<Rightarrow> bool result" where
  "String_equalsIgnoreCase s string =
     (case string of
        None \<Rightarrow> Inr False
      | Some t \<Rightarrow> String_equals_string (String_toLowerCase s) (Some (String_toLowerCase t)))"

section \<open>Characters and parts\<close>

definition String_charAt :: "nat \<Rightarrow> str \<Rightarrow> uint8 result" where
  "String_charAt index s =
     (if index \<ge> String_length s then Inl IndexOutOfBoundsException
      else bind_result (deref s) (\<lambda>bs. Inr (bs ! index)))"

definition String_substring :: "nat \<Rightarrow> str \<Rightarrow> str option result" where
  "String_substring beginIndex s =
     (if beginIndex > String_length s then Inl IndexOutOfBoundsException
      else bind_result (advance (String_c_str s) beginIndex) (\<lambda>p.
        String_valueOf_chars p (String_length s - beginIndex)))"

definition String_substring2 :: "nat \<Rightarrow> nat \<Rightarrow> str \<Rightarrow> str option result" where
  "String_substring2 beginIndex endIndex s =
     (if beginIndex > String_length s \<or> beginIndex > endIndex \<or> endIndex > String_length s
      then Inl IndexOutOfBoundsException
      else bind_result (advance (String_c_str s) beginIndex) (\<lambda>p.
        String_valueOf_chars p (endIndex - beginIndex)))"

definition String_replace :: "uint8 \<Rightarrow> uint8 \<Rightarrow> str \<Rightarrow> str result" where
  "String_replace oldChar newChar s =
     bind_result (StringBuffer_new (String_c_str s) (String_length s)) (\<lambda>b.
       Inr (map_option (map (\<lambda>c. if c = oldChar then newChar else c)) b))"

text \<open>\<open>trim\<close>: the two loops, and the three results.\<close>

function trim_begin :: "bytes \<Rightarrow> nat \<Rightarrow> nat" where
  "trim_begin bs beginIndex =
     (if beginIndex < length bs \<and> isspace (bs ! beginIndex) then trim_begin bs (beginIndex + 1) else beginIndex)"
  by auto
termination by (relation "measure (\<lambda>(bs, i). length bs - i)") auto

function trim_end :: "bytes \<Rightarrow> int \<Rightarrow> int" where
  "trim_end bs endIndex =
     (if endIndex \<ge> 0 \<and> isspace (bs ! nat endIndex) then trim_end bs (endIndex - 1) else endIndex)"
  by auto
termination by (relation "measure (\<lambda>(bs, i). nat (i + 1))") auto

declare trim_begin.simps [simp del] trim_end.simps [simp del]

definition String_trim :: "str \<Rightarrow> str result" where
  "String_trim s =
     (let bs = String_getBytes s;
          beginIndex = trim_begin bs 0;
          endIndex = trim_end bs (int (length bs) - 1)
      in if beginIndex = 0 \<and> endIndex = int (length bs) - 1 then Inr s
         else if beginIndex \<noteq> length bs
         then bind_result (advance s beginIndex) (\<lambda>p. StringBuffer_new p (nat (endIndex - int beginIndex + 1)))
         else Inr (Some []))"

definition String_append_chars :: "cstr \<Rightarrow> nat \<Rightarrow> str \<Rightarrow> str result" where
  "String_append_chars string n s =
     (if string \<noteq> None \<and> n > 0 then StringBuffer_concat s (String_length s) string n else Inr s)"

definition String_append_at :: "cstr \<Rightarrow> nat \<Rightarrow> nat \<Rightarrow> str \<Rightarrow> str result" where
  "String_append_at string offset n s =
     (if string \<noteq> None \<and> n > 0
      then bind_result (advance string offset) (\<lambda>p. StringBuffer_concat s (String_length s) p n)
      else Inr s)"

definition String_append_part :: "str option \<Rightarrow> size_t \<Rightarrow> size_t \<Rightarrow> str \<Rightarrow> str result" where
  "String_append_part string offset n s =
     bind_result (deref string) (\<lambda>t.
       if offset + n > of_nat (String_length t) then Inl IndexOutOfBoundsException
       else String_append_at (String_c_str t) (unat offset) (unat n) s)"

definition String_append_char :: "uint8 \<Rightarrow> str \<Rightarrow> str result" where
  "String_append_char c s = String_append_chars (Some [c]) 1 s"

definition String_append_cstr :: "cstr \<Rightarrow> str \<Rightarrow> str result" where
  "String_append_cstr string s =
     bind_result (deref string) (\<lambda>bs. String_append_chars string (strlen bs) s)"

definition String_append :: "str option \<Rightarrow> str \<Rightarrow> str result" where
  "String_append string s = bind_result (deref string) (\<lambda>t. String_append_cstr (String_c_str t) s)"

section \<open>Searching\<close>

definition String_contains_cstr :: "cstr \<Rightarrow> str \<Rightarrow> bool" where
  "String_contains_cstr subString s =
     (case (String_c_str s, subString) of (Some h, Some n) \<Rightarrow> strstr h n \<noteq> None | _ \<Rightarrow> False)"

definition String_contains :: "str option \<Rightarrow> str \<Rightarrow> bool result" where
  "String_contains subString s =
     bind_result (deref subString) (\<lambda>t. Inr (String_contains_cstr (String_c_str t) s))"

definition String_startsWith_cstr :: "cstr \<Rightarrow> str \<Rightarrow> bool result" where
  "String_startsWith_cstr pre s =
     bind_result (deref pre) (\<lambda>p.
       let prefixSize = strlen p
       in if String_length s \<ge> prefixSize
          then bind_result (deref (String_c_str s)) (\<lambda>bs. Inr (strncmp_eq bs p prefixSize))
          else Inr False)"

definition String_startsWith :: "str option \<Rightarrow> str \<Rightarrow> bool result" where
  "String_startsWith pre s =
     bind_result (deref pre) (\<lambda>t.
       let prefixSize = String_length t
       in if String_length s \<ge> prefixSize
          then bind_result (deref (String_c_str s)) (\<lambda>bs.
               bind_result (deref (String_c_str t)) (\<lambda>p. Inr (strncmp_eq bs p prefixSize)))
          else Inr False)"

definition String_endsWith_cstr :: "cstr \<Rightarrow> str \<Rightarrow> bool result" where
  "String_endsWith_cstr suf s =
     bind_result (deref suf) (\<lambda>p.
       let suffixSize = strlen p
       in if String_length s \<ge> suffixSize
          then bind_result (advance (String_c_str s) (String_length s - suffixSize)) (\<lambda>q.
               bind_result (deref q) (\<lambda>bs. Inr (strncmp_eq bs p suffixSize)))
          else Inr False)"

definition String_endsWith :: "str option \<Rightarrow> str \<Rightarrow> bool result" where
  "String_endsWith suf s =
     bind_result (deref suf) (\<lambda>t.
       let suffixSize = String_length t
       in if String_length s \<ge> suffixSize
          then bind_result (advance (String_c_str s) (String_length s - suffixSize)) (\<lambda>q.
               bind_result (deref q) (\<lambda>bs.
               bind_result (deref (String_c_str t)) (\<lambda>p. Inr (strncmp_eq bs p suffixSize))))
          else Inr False)"

definition String_indexOf_char :: "uint8 \<Rightarrow> str \<Rightarrow> int result" where
  "String_indexOf_char c s =
     bind_result (deref (String_c_str s)) (\<lambda>bs. Inr (index_or_minus_one (strchr bs c)))"

definition String_indexOf_cstr :: "cstr \<Rightarrow> str \<Rightarrow> int result" where
  "String_indexOf_cstr string s =
     (case string of
        None \<Rightarrow> Inl NullPointerException
      | Some n \<Rightarrow> bind_result (deref (String_c_str s)) (\<lambda>bs. Inr (index_or_minus_one (strstr bs n))))"

definition String_indexOf :: "str option \<Rightarrow> str \<Rightarrow> int result" where
  "String_indexOf string s = bind_result (deref string) (\<lambda>t. String_indexOf_cstr (String_c_str t) s)"

definition String_indexOf_char_from :: "uint8 \<Rightarrow> nat \<Rightarrow> str \<Rightarrow> int result" where
  "String_indexOf_char_from c fromIndex s =
     (if fromIndex < String_length s
      then bind_result (advance (String_c_str s) fromIndex) (\<lambda>q. bind_result (deref q) (\<lambda>bs.
        Inr (index_or_minus_one (map_option (\<lambda>i. fromIndex + i) (strchr bs c)))))
      else Inr (- 1))"

definition String_indexOf_cstr_from :: "cstr \<Rightarrow> nat \<Rightarrow> str \<Rightarrow> int result" where
  "String_indexOf_cstr_from string fromIndex s =
     (case string of
        None \<Rightarrow> Inl NullPointerException
      | Some n \<Rightarrow>
          if fromIndex < String_length s
          then bind_result (advance (String_c_str s) fromIndex) (\<lambda>q. bind_result (deref q) (\<lambda>bs.
            Inr (index_or_minus_one (map_option (\<lambda>i. fromIndex + i) (strstr bs n)))))
          else Inr (- 1))"

text \<open>
  This overload advances the argument by \<open>fromIndex\<close> and searches the whole string for the rest.
\<close>

definition String_indexOf_from :: "str option \<Rightarrow> nat \<Rightarrow> str \<Rightarrow> int result" where
  "String_indexOf_from string fromIndex s =
     bind_result (deref string) (\<lambda>t.
     bind_result (advance (String_c_str t) fromIndex) (\<lambda>p. String_indexOf_cstr p s))"

definition String_lastIndexOf_char :: "uint8 \<Rightarrow> str \<Rightarrow> int result" where
  "String_lastIndexOf_char c s =
     bind_result (deref (String_c_str s)) (\<lambda>bs. Inr (index_or_minus_one (strrchr bs c)))"

definition String_lastIndexOf_cstr :: "cstr \<Rightarrow> str \<Rightarrow> int" where
  "String_lastIndexOf_cstr string s = - 1"

definition String_lastIndexOf :: "str option \<Rightarrow> str \<Rightarrow> int" where
  "String_lastIndexOf string s = - 1"

definition String_lastIndexOf_char_from :: "uint8 \<Rightarrow> nat \<Rightarrow> str \<Rightarrow> int result" where
  "String_lastIndexOf_char_from c fromIndex s =
     (if fromIndex < String_length s
      then bind_result (advance (String_c_str s) fromIndex) (\<lambda>q. bind_result (deref q) (\<lambda>bs.
        Inr (index_or_minus_one (map_option (\<lambda>i. fromIndex + i) (strrchr bs c)))))
      else Inr (- 1))"

definition String_regionMatches :: "size_t \<Rightarrow> str option \<Rightarrow> size_t \<Rightarrow> size_t \<Rightarrow> str \<Rightarrow> bool result" where
  "String_regionMatches toffset string ooffset len s =
     (case string of
        None \<Rightarrow> Inl NullPointerException
      | Some t \<Rightarrow>
          if of_nat (String_length t) - ooffset < len then Inr False
          else if of_nat (String_length s) - toffset < len then Inr False
          else if len \<le> 0 then Inr True
          else if s \<noteq> None
          then bind_result (advance s (unat toffset)) (\<lambda>p. bind_result (deref p) (\<lambda>a.
               bind_result (advance (String_c_str t) (unat ooffset)) (\<lambda>q. bind_result (deref q) (\<lambda>b.
                 Inr (strncmp_eq a b (unat len))))))
          else Inr False)"

definition String_regionMatches_cstr :: "size_t \<Rightarrow> cstr \<Rightarrow> size_t \<Rightarrow> size_t \<Rightarrow> str \<Rightarrow> bool result" where
  "String_regionMatches_cstr toffset string ooffset len s =
     String_regionMatches toffset (String_valueOf_cstr string) ooffset len s"

section \<open>split\<close>

text \<open>
  The loop may not end, because an empty separator is found at the current position every time.
\<close>

partial_function (option) split_loop :: "str \<Rightarrow> cstr \<Rightarrow> int \<Rightarrow> str option list \<Rightarrow> str option list result option" where
  "split_loop s separator curIndex strings =
     (if curIndex \<ge> 0 \<and> nat curIndex < String_length s
      then case String_indexOf_cstr_from separator (nat curIndex) s of
          Inl e \<Rightarrow> Some (Inl e)
        | Inr i \<Rightarrow>
            (case String_substring2 (nat curIndex) (if i \<ge> 0 then nat i else String_length s) s of
               Inl e \<Rightarrow> Some (Inl e)
             | Inr part \<Rightarrow>
                 split_loop s separator (if i \<ge> 0 then i + int (strlen (the separator)) else i)
                   (snd (ArrayListSp_add part strings)))
      else Some (Inr strings))"

definition String_split_cstr :: "cstr \<Rightarrow> str \<Rightarrow> str option list result option" where
  "String_split_cstr separator s = split_loop s separator 0 []"

definition String_split :: "str option \<Rightarrow> str \<Rightarrow> str option list result option" where
  "String_split separator s =
     (case separator of None \<Rightarrow> Some (Inl Undefined) | Some t \<Rightarrow> String_split_cstr (String_c_str t) s)"

section \<open>Integers as strings\<close>

text \<open>\<open>snprintf\<close> with \<open>%u\<close> and \<open>%d\<close>.\<close>

fun decimal :: "nat \<Rightarrow> bytes" where
  "decimal n = (if n < 10 then [of_nat (48 + n)] else decimal (n div 10) @ [of_nat (48 + n mod 10)])"

declare decimal.simps [simp del]

definition decimal_int :: "int \<Rightarrow> bytes" where
  "decimal_int i = (if i < 0 then 45 # decimal (nat (- i)) else decimal (nat i))"

definition String_valueOf_int8 :: "8 word \<Rightarrow> str" where
  "String_valueOf_int8 value = Some (decimal_int (sint value))"

definition String_valueOf_uint8 :: "uint8 \<Rightarrow> str" where
  "String_valueOf_uint8 value = Some (decimal (unat value))"

definition String_valueOf_int16 :: "int16 \<Rightarrow> str" where
  "String_valueOf_int16 value = Some (decimal_int (sint value))"

definition String_valueOf_uint16 :: "16 word \<Rightarrow> str" where
  "String_valueOf_uint16 value = Some (decimal (unat value))"

definition String_valueOf_int32 :: "int32 \<Rightarrow> str" where
  "String_valueOf_int32 value = Some (decimal_int (sint value))"

definition String_valueOf_uint32 :: "uint32 \<Rightarrow> str" where
  "String_valueOf_uint32 value = Some (decimal (unat value))"

section \<open>Searching in lists\<close>

lemma c_string_id [simp]: "0 \<notin> set bs \<Longrightarrow> c_string bs = bs"
  by (auto simp: c_string_def takeWhile_eq_all_conv)

lemma c_string_no_NUL: "0 \<notin> set (c_string bs)"
  by (auto simp: c_string_def dest: set_takeWhileD)

lemma strlen_eq [simp]: "0 \<notin> set bs \<Longrightarrow> strlen bs = length bs"
  by (simp add: strlen_def)

lemma first_occurrence_Some:
  "first_occurrence n h = Some i \<Longrightarrow> i \<le> length h \<and> prefix n (drop i h) \<and> (\<forall>j < i. \<not> prefix n (drop j h))"
proof (induction h arbitrary: i)
  case (Cons x h)
  show ?case
  proof (cases "prefix n (x # h)")
    case False
    then obtain k where k: "first_occurrence n h = Some k" "i = Suc k" using Cons.prems by auto
    have "\<not> prefix n (drop j (x # h))" if "j < i" for j
      using that False Cons.IH[OF k(1)] k(2) by (cases j) auto
    then show ?thesis using Cons.IH[OF k(1)] k(2) by auto
  qed (use Cons.prems in auto)
qed (auto split: if_splits)

lemma first_occurrence_None: "first_occurrence n h = None \<Longrightarrow> \<not> prefix n (drop j h)"
proof (induction h arbitrary: j)
  case (Cons x h)
  then show ?case by (cases j) (auto split: if_splits)
qed (auto split: if_splits)

lemma first_occurrence_0: "first_occurrence n h = Some 0 \<longleftrightarrow> prefix n h"
  by (cases h) auto

lemma strncmp_eq_prefix:
  assumes "0 \<notin> set bs" and "0 \<notin> set n" and "length n \<le> length bs"
  shows "strncmp_eq bs n (length n) \<longleftrightarrow> prefix n bs"
proof -
  have "prefix n bs \<longleftrightarrow> take (length n) bs = n"
    by (auto simp: prefix_def) (metis append_take_drop_id)
  then show ?thesis using assms by (simp add: strncmp_eq_def)
qed

lemma suffix_drop: "length n \<le> length bs \<Longrightarrow> prefix n (drop (length bs - length n) bs) \<longleftrightarrow> suffix n bs"
  by (auto simp: prefix_def suffix_def)
    (metis append_Nil2 append_eq_append_conv append_take_drop_id diff_diff_cancel length_append length_drop)

section \<open>split against a reference\<close>

function split_list :: "'a list \<Rightarrow> 'a list \<Rightarrow> 'a list list" where
  "split_list n h =
     (if n = [] \<or> h = [] then []
      else case first_occurrence n h of
        None \<Rightarrow> [h]
      | Some i \<Rightarrow> take i h # split_list n (drop (i + length n) h))"
  by auto
termination by (relation "measure (\<lambda>(n, h). length h)") auto

declare split_list.simps [simp del]

lemma split_list_steps:
  "split_list n [] = []"
  "n \<noteq> [] \<Longrightarrow> h \<noteq> [] \<Longrightarrow> first_occurrence n h = None \<Longrightarrow> split_list n h = [h]"
  "n \<noteq> [] \<Longrightarrow> h \<noteq> [] \<Longrightarrow> first_occurrence n h = Some i \<Longrightarrow>
     split_list n h = take i h # split_list n (drop (i + length n) h)"
  by (subst split_list.simps; simp)+

lemma prefix_drop_take:
  assumes "prefix n (drop j (take i h))"
  shows "prefix n (drop j h)"
proof -
  have "drop j (take i h) = take (i - j) (drop j h)" by (simp add: drop_take)
  then show ?thesis using assms take_is_prefix prefix_order.trans by metis
qed

lemma split_list_parts: "n \<noteq> [] \<Longrightarrow> part \<in> set (split_list n h) \<Longrightarrow> first_occurrence n part = None"
proof (induction n h rule: split_list.induct)
  case (1 n h)
  show ?case
  proof (cases "h = [] \<or> first_occurrence n h = None")
    case True
    then show ?thesis using 1(2,3) by (cases "h = []") (auto simp: split_list_steps)
  next
    case False
    then obtain i where i: "first_occurrence n h = Some i" by auto
    have "first_occurrence n (take i h) = None"
    proof (cases "first_occurrence n (take i h)")
      case (Some j)
      then have "j \<le> length (take i h)" and p: "prefix n (drop j (take i h))"
        using first_occurrence_Some by blast+
      moreover have "j \<noteq> length (take i h)" using p 1(2) by auto
      ultimately have "j < i" by auto
      then show ?thesis using first_occurrence_Some[OF i] prefix_drop_take[OF p] by blast
    qed
    then show ?thesis
      using 1 i False by (auto simp: split_list_steps(3))
  qed
qed

lemma split_list_joins:
  "n \<noteq> [] \<Longrightarrow> concat (map (\<lambda>part. part @ n) (split_list n h)) \<in> {h, h @ n}"
proof (induction n h rule: split_list.induct)
  case (1 n h)
  show ?case
  proof (cases "h = [] \<or> first_occurrence n h = None")
    case True
    then show ?thesis using 1(2) by (cases "h = []") (auto simp: split_list_steps)
  next
    case False
    then obtain i where i: "first_occurrence n h = Some i" by auto
    obtain zs where "drop i h = n @ zs"
      using first_occurrence_Some[OF i] by (auto simp: prefix_def)
    moreover from this have "drop (i + length n) h = zs"
      by (metis add.commute append_eq_conv_conj drop_drop)
    ultimately have h: "h = take i h @ n @ drop (i + length n) h"
      by (metis append_take_drop_id)
    moreover have "concat (map (\<lambda>part. part @ n) (split_list n h)) =
        take i h @ n @ concat (map (\<lambda>part. part @ n) (split_list n (drop (i + length n) h)))"
      using 1(2) i False by (simp add: split_list_steps(3))
    moreover have "concat (map (\<lambda>part. part @ n) (split_list n (drop (i + length n) h))) \<in>
        {drop (i + length n) h, drop (i + length n) h @ n}"
      using 1 i False by auto
    ultimately show ?thesis by (metis append.assoc insert_iff singletonD)
  qed
qed

lemma String_valueOf_chars_drop:
  "b + n \<le> length bs \<Longrightarrow> String_valueOf_chars (Some (drop b bs)) n = Inr (Some (Some (take n (drop b bs))))"
  by (auto simp: String_valueOf_chars_def String_of_chars_def StringBuffer_new_def raw_read_def read_at_def)

lemma String_substring2_eq:
  "b \<le> e \<Longrightarrow> e \<le> length bs \<Longrightarrow> String_substring2 b e (Some bs) = Inr (Some (Some (take (e - b) (drop b bs))))"
  by (auto simp: String_substring2_def String_length_def String_c_str_def advance_def String_valueOf_chars_drop)

lemma indexOf_cstr_from_eq:
  assumes "0 \<notin> set bs" and "0 \<notin> set n" and "b < length bs"
  shows "String_indexOf_cstr_from (Some n) b (Some bs) =
    Inr (index_or_minus_one (map_option (\<lambda>i. b + i) (first_occurrence n (drop b bs))))"
proof -
  have "0 \<notin> set (drop b bs)" using assms(1) by (blast dest: in_set_dropD)
  then show ?thesis
    using assms by (simp add: String_indexOf_cstr_from_def String_length_def String_c_str_def advance_def strstr_def)
qed

lemma split_loop_eq:
  assumes "n \<noteq> []" and "0 \<notin> set n" and "0 \<notin> set bs"
  shows "split_loop (Some bs) (Some n) (int cur) acc =
    Some (Inr (acc @ map (\<lambda>part. Some (Some part)) (split_list n (drop cur bs))))"
proof (induction "length bs - cur" arbitrary: cur acc rule: less_induct)
  case less
  show ?case
  proof (cases "cur < length bs")
    case False
    then show ?thesis by (subst split_loop.simps) (simp add: String_length_def split_list_steps)
  next
    case True
    then have ne: "drop cur bs \<noteq> []" by simp
    show ?thesis
    proof (cases "first_occurrence n (drop cur bs)")
      case None
      show ?thesis
        using True assms ne None
        by (subst split_loop.simps)
          (simp add: String_length_def indexOf_cstr_from_eq index_or_minus_one_def String_substring2_eq ArrayListSp_add_def
            split_list_steps(2), subst split_loop.simps, simp)
    next
      case (Some i)
      have i: "i \<le> length bs - cur" using first_occurrence_Some[OF Some] by simp
      have next_pos: "int (cur + i) + int (length n) = int (cur + i + length n)" by simp
      have "length bs - (cur + i + length n) < length bs - cur"
        using True assms(1) by (cases n) auto
      from less.hyps[OF this] show ?thesis
        using True assms ne Some i
        by (subst split_loop.simps)
          (simp add: String_length_def indexOf_cstr_from_eq index_or_minus_one_def String_substring2_eq ArrayListSp_add_def
            split_list_steps(3) next_pos del: of_nat_add, simp add: ac_simps drop_drop)
    qed
  qed
qed

lemma split_loop_empty_separator:
  assumes "split_loop (Some bs) (Some []) cur acc = Some r" and "0 \<le> cur" and "nat cur < length bs"
  shows False
proof -
  have "s = Some bs \<longrightarrow> sep = Some [] \<longrightarrow> 0 \<le> cur \<longrightarrow> nat cur < length bs \<longrightarrow> False"
    if "split_loop s sep cur acc = Some r" for s sep cur acc r
  proof (rule split_loop.raw_induct[OF _ that, where P = "\<lambda>s sep cur acc r. s = Some bs \<longrightarrow> sep = Some [] \<longrightarrow>
      0 \<le> cur \<longrightarrow> nat cur < length bs \<longrightarrow> False"], intro impI, goal_cases)
    case (1 loop s sep cur acc r)
    have "String_indexOf_cstr_from (Some []) (nat cur) (Some bs) = Inr cur"
      using 1(5,6) first_occurrence_0[of "[] :: uint8 list"]
      by (auto simp: String_indexOf_cstr_from_def String_length_def String_c_str_def advance_def strstr_def
          index_or_minus_one_def c_string_def)
    moreover have "String_substring2 (nat cur) (nat cur) (Some bs) = Inr (Some (Some []))"
      using 1(6) String_substring2_eq[of "nat cur" "nat cur" bs] by simp
    ultimately have "loop (Some bs) (Some []) cur (snd (ArrayListSp_add (Some (Some [])) acc)) = Some r"
      using 1(2-6) by (simp add: String_length_def strlen_def c_string_def)
    then show ?case using 1(1,5,6) by blast
  qed
  then show ?thesis using assms by blast
qed

section \<open>trim against a reference\<close>

definition strip_end :: "('a \<Rightarrow> bool) \<Rightarrow> 'a list \<Rightarrow> 'a list" where
  "strip_end p xs = rev (dropWhile p (rev xs))"

lemma strip_end_snoc: "strip_end p (xs @ [x]) = (if p x then strip_end p xs else xs @ [x])"
  by (simp add: strip_end_def)

lemma strip_end_drop:
  assumes "x \<in> set ys" and "\<not> p x"
  shows "strip_end p (xs @ ys) = xs @ strip_end p ys"
  using assms by (simp add: strip_end_def)

lemma strip_end_take: "strip_end p xs = take (length (strip_end p xs)) xs"
  by (simp add: strip_end_def) (metis append_eq_conv_conj length_rev rev_append rev_rev_ident takeWhile_dropWhile_id)

lemma length_strip_end: "length (strip_end p xs) \<le> length xs"
  using length_dropWhile_le[of p "rev xs"] by (simp add: strip_end_def)

lemma trim_begin_eq: "i \<le> length bs \<Longrightarrow> trim_begin bs i = i + length (takeWhile isspace (drop i bs))"
proof (induction bs i rule: trim_begin.induct)
  case (1 bs i)
  show ?case
  proof (cases "i < length bs")
    case True
    then have "drop i bs = bs ! i # drop (i + 1) bs" by (simp add: Cons_nth_drop_Suc)
    then show ?thesis using 1 True by (subst trim_begin.simps) auto
  qed (use 1 in \<open>subst trim_begin.simps; simp\<close>)
qed

lemma trim_end_eq: "k \<le> length bs \<Longrightarrow> trim_end bs (int k - 1) = int (length (strip_end isspace (take k bs))) - 1"
proof (induction k)
  case 0
  then show ?case by (subst trim_end.simps) (simp add: strip_end_def)
next
  case (Suc k)
  then have "take (Suc k) bs = take k bs @ [bs ! k]" by (simp add: take_Suc_conv_app_nth)
  then show ?case
    using Suc by (subst trim_end.simps) (simp add: strip_end_snoc)
qed

lemma String_trim_eq: "String_trim (Some bs) = Inr (Some (strip_end isspace (dropWhile isspace bs)))"
proof -
  let ?b = "length (takeWhile isspace bs)" and ?e = "length (strip_end isspace bs)"
  have b: "trim_begin bs 0 = ?b" using trim_begin_eq[of 0 bs] by simp
  have e: "trim_end bs (int (length bs) - 1) = int ?e - 1" using trim_end_eq[of "length bs" bs] by simp
  have lead: "bs = takeWhile isspace bs @ dropWhile isspace bs" by simp
  have drop_b: "drop ?b bs = dropWhile isspace bs" by (rule dropWhile_eq_drop[symmetric])
  have b_le: "?b \<le> length bs" by (rule length_takeWhile_le)
  consider (blank) "dropWhile isspace bs = []" | (letters) "dropWhile isspace bs \<noteq> []" by blast
  then show ?thesis
  proof cases
    case blank
    then have "?b = length bs" using lead by (metis append_Nil2)
    moreover have "strip_end isspace bs = []"
      using blank by (simp add: strip_end_def dropWhile_eq_Nil_conv)
    moreover have "strip_end isspace (dropWhile isspace bs) = []"
      unfolding blank by (simp add: strip_end_def)
    ultimately show ?thesis
      using e b by (auto simp: String_trim_def String_getBytes_def Let_def)
  next
    case letters
    then obtain x where x: "x \<in> set (dropWhile isspace bs)" "\<not> isspace x"
      using hd_dropWhile hd_in_set by metis
    have split: "strip_end isspace bs = takeWhile isspace bs @ strip_end isspace (dropWhile isspace bs)"
      using strip_end_drop[where p = isspace, OF x, of "takeWhile isspace bs"] by simp
    then have le: "?e = ?b + length (strip_end isspace (dropWhile isspace bs))" by (metis length_append)
    have ne: "?b \<noteq> length bs"
      using letters drop_b by (metis drop_all order_refl)
    have "strip_end isspace bs = bs" if "?e = length bs"
      using strip_end_take[of isspace bs] that by simp
    then have whole: "dropWhile isspace bs = bs \<and> strip_end isspace bs = bs" if "?b = 0" "?e = length bs"
      using that lead by (metis append_Nil length_0_conv)
    have "take (?e - ?b) (drop ?b bs) = strip_end isspace (dropWhile isspace bs)"
      using le drop_b strip_end_take[of isspace "dropWhile isspace bs"] by simp
    moreover have "?e \<le> length bs" by (rule length_strip_end)
    moreover have "nat (int ?e - 1 - int ?b + 1) = ?e - ?b" using le by simp
    ultimately have part: "StringBuffer_new (Some (drop ?b bs)) (nat (int ?e - 1 - int ?b + 1)) =
        Inr (Some (strip_end isspace (dropWhile isspace bs)))"
      by (simp add: StringBuffer_new_def raw_read_def read_at_def)
    show ?thesis
    proof (cases "?b = 0 \<and> ?e = length bs")
      case True
      then show ?thesis using whole by (simp add: String_trim_def String_getBytes_def Let_def b e)
    next
      case False
      then have "\<not> (?b = 0 \<and> int ?e - 1 = int (length bs) - 1)" by simp
      then show ?thesis
        by (simp only: String_trim_def String_getBytes_def Let_def b e option.case if_False ne not_False_eq_True if_True
            advance_def b_le bind_result_simps part)
    qed
  qed
qed

section \<open>Properties\<close>

text \<open>
  (C35) \<open>split\<close> of a string at a separator that is not empty ends; the parts, each followed by
  the separator, are the string again, or the string with one more separator at the end (a final separator
  gives no empty last part); no part contains the separator. An empty separator is found everywhere: \<open>split\<close> of
  a string that is not empty then never returns. A null separator is refused, or undefined as a null \<open>String\<close>.
\<close>

theorem String_split_joins:
  assumes "0 \<notin> set bs" and "0 \<notin> set n" and "n \<noteq> []"
  shows "(\<exists>parts. String_split_cstr (Some n) (Some bs) = Some (Inr (map (\<lambda>part. Some (Some part)) parts)) \<and>
      concat (map (\<lambda>part. part @ n) parts) \<in> {bs, bs @ n} \<and>
      (\<forall>part \<in> set parts. \<not> String_contains_cstr (Some n) (Some part))) \<and>
    (bs \<noteq> [] \<longrightarrow> String_split_cstr (Some []) (Some bs) = None \<and>
      String_split_cstr None (Some bs) = Some (Inl NullPointerException)) \<and>
    String_split None (Some bs) = Some (Inl Undefined)"
proof (intro conjI impI)
  have "\<not> String_contains_cstr (Some n) (Some part)" if "part \<in> set (split_list n bs)" for part
  proof -
    have parts: "first_occurrence n part = None" using split_list_parts[OF assms(3) that] .
    have "\<not> prefix n (drop j (c_string part))" for j
      using first_occurrence_None[OF parts, of j] c_string_def[of part] takeWhile_is_prefix[of _ part]
        prefix_drop_take[of n j "length (c_string part)" part] by (metis takeWhile_eq_take)
    then have "first_occurrence n (c_string part) = None"
      using first_occurrence_Some[of n "c_string part"] by (cases "first_occurrence n (c_string part)") auto
    then show ?thesis
      using assms(2) by (simp add: String_contains_cstr_def String_c_str_def strstr_def)
  qed
  then show "\<exists>parts. String_split_cstr (Some n) (Some bs) = Some (Inr (map (\<lambda>part. Some (Some part)) parts)) \<and>
      concat (map (\<lambda>part. part @ n) parts) \<in> {bs, bs @ n} \<and>
      (\<forall>part \<in> set parts. \<not> String_contains_cstr (Some n) (Some part))"
    using split_loop_eq[OF assms(3,2,1), of 0 "[]"] split_list_joins[OF assms(3), of bs]
    by (intro exI[of _ "split_list n bs"]) (simp add: String_split_cstr_def)
  show "String_split_cstr (Some []) (Some bs) = None" if "bs \<noteq> []"
    using split_loop_empty_separator[of bs 0 "[]"] that
    by (cases "split_loop (Some bs) (Some []) 0 []") (auto simp: String_split_cstr_def)
  show "String_split_cstr None (Some bs) = Some (Inl NullPointerException)" if "bs \<noteq> []"
    using that by (simp add: String_split_cstr_def)
      (subst split_loop.simps, simp add: String_length_def String_indexOf_cstr_from_def)
qed (simp add: String_split_def)

theorem String_split_joins_witness:
  "String_split_cstr (Some [44]) (Some [65, 44, 66]) \<noteq> None \<and> String_split_cstr (Some []) (Some [65, 44, 66]) = None"
proof -
  have "0 \<notin> set [65, 44, 66 :: uint8]" "0 \<notin> set [44 :: uint8]" "[44 :: uint8] \<noteq> []" by simp_all
  from String_split_joins[OF this] show ?thesis by auto
qed

text \<open>
  Searching in strings without NUL characters: \<open>indexOf\<close> gives the first position of the
  substring, or -1 exactly if it does not occur; \<open>contains\<close> says whether it occurs, \<open>startsWith\<close> and \<open>endsWith\<close> whether
  it is a prefix or a suffix. But \<open>lastIndexOf\<close> of a substring is always -1, and \<open>indexOf(const sp<String>&, fromIndex)\<close>
  ignores the first \<open>fromIndex\<close> characters of the argument instead of those of the string.
\<close>

theorem String_search:
  assumes "0 \<notin> set bs" and "0 \<notin> set n"
  shows "(\<exists>i. String_indexOf (Some (Some n)) (Some bs) = Inr i \<and> String_contains (Some (Some n)) (Some bs) = Inr (i \<noteq> - 1) \<and>
      (if i = - 1 then \<forall>j. \<not> prefix n (drop j bs)
       else 0 \<le> i \<and> nat i \<le> length bs \<and> prefix n (drop (nat i) bs) \<and> (\<forall>j < nat i. \<not> prefix n (drop j bs)))) \<and>
    String_startsWith (Some (Some n)) (Some bs) = Inr (prefix n bs) \<and>
    String_endsWith (Some (Some n)) (Some bs) = Inr (suffix n bs) \<and>
    String_lastIndexOf (Some (Some n)) (Some bs) = - 1 \<and>
    (k \<le> length n \<longrightarrow> String_indexOf_from (Some (Some n)) k (Some bs) = String_indexOf (Some (Some (drop k n))) (Some bs))"
proof (intro conjI impI)
  show "\<exists>i. String_indexOf (Some (Some n)) (Some bs) = Inr i \<and> String_contains (Some (Some n)) (Some bs) = Inr (i \<noteq> - 1) \<and>
      (if i = - 1 then \<forall>j. \<not> prefix n (drop j bs)
       else 0 \<le> i \<and> nat i \<le> length bs \<and> prefix n (drop (nat i) bs) \<and> (\<forall>j < nat i. \<not> prefix n (drop j bs)))"
    using assms first_occurrence_Some[of n bs] first_occurrence_None[of n bs]
    by (cases "first_occurrence n bs")
      (auto simp: String_indexOf_def String_indexOf_cstr_def String_contains_def String_contains_cstr_def
        String_c_str_def strstr_def index_or_minus_one_def)
  show "String_startsWith (Some (Some n)) (Some bs) = Inr (prefix n bs)"
    using assms strncmp_eq_prefix[of bs n] prefix_length_le[of n bs]
    by (auto simp: String_startsWith_def String_length_def String_c_str_def Let_def)
  have "0 \<notin> set (drop (length bs - length n) bs)" using assms(1) by (blast dest: in_set_dropD)
  then show "String_endsWith (Some (Some n)) (Some bs) = Inr (suffix n bs)"
    using assms strncmp_eq_prefix[of "drop (length bs - length n) bs" n] suffix_drop[of n bs] suffix_length_le[of n bs]
    by (auto simp: String_endsWith_def String_length_def String_c_str_def advance_def Let_def)
  show "String_indexOf_from (Some (Some n)) k (Some bs) = String_indexOf (Some (Some (drop k n))) (Some bs)" if "k \<le> length n"
    using that by (simp add: String_indexOf_from_def String_indexOf_def String_c_str_def advance_def)
qed (simp add: String_lastIndexOf_def)

theorem String_search_witness:
  "String_startsWith (Some (Some [65, 66])) (Some [65, 66, 67]) = Inr True \<and>
     String_endsWith (Some (Some [65, 66])) (Some [65, 66, 67]) = Inr False \<and>
     String_lastIndexOf (Some (Some [65, 66])) (Some [65, 66, 67]) = - 1"
proof -
  have "0 \<notin> set [65, 66, 67 :: uint8]" "0 \<notin> set [65, 66 :: uint8]" by simp_all
  note here = String_search[OF this, of 0]
  have "prefix [65, 66] [65, 66, 67 :: uint8]" "\<not> suffix [65, 66] [65, 66, 67 :: uint8]"
    by (simp, simp add: suffix_to_prefix)
  then show ?thesis using here by (elim conjE) simp
qed

text \<open>
  \<open>equals\<close> and \<open>hashCode\<close>. For strings without NUL characters \<open>equals\<close> is equality of the characters, and
  equal strings have equal hash codes. With NUL characters \<open>equals\<close> compares only what is before the first one,
  but \<open>hashCode\<close> uses all characters, so that equal strings with different hash codes exist. A string is
  never equal to null or to another kind of object.
\<close>

theorem String_equals_and_hash:
  assumes "0 \<notin> set a" and "0 \<notin> set b"
  shows "(String_equals same (Some a) (Some (Some b)) = Inr True) = (same \<or> a = b) \<and>
    (String_equals False (Some a) (Some (Some b)) = Inr True \<longrightarrow>
       String_hashCode (Some a) = String_hashCode (Some b)) \<and>
    String_equals False (Some a) None = Inr False \<and>
    (\<forall>x y. String_equals False (Some (a @ 0 # x)) (Some (Some (a @ 0 # y))) = Inr True) \<and>
    String_hashCode (Some (a @ [0, 1])) \<noteq> String_hashCode (Some (a @ [0, 2]))"
proof -
  have hash: "hash_loop h (xs @ [c]) = 31 * hash_loop h xs + scast c" for h xs c
    by (induction xs arbitrary: h) auto
  have "scast (1 :: uint8) \<noteq> (scast (2 :: uint8) :: size_t)"
    by (simp add: scast_eq)
  then have "hash_loop 0 ((a @ [0]) @ [1]) \<noteq> hash_loop 0 ((a @ [0]) @ [2])"
    unfolding hash by (metis add_left_cancel)
  then have "hash_loop 0 (a @ [0, 1]) \<noteq> hash_loop 0 (a @ [0, 2])" by simp
  moreover have "c_string (a @ 0 # x) = a" for x
    using assms(1) by (induction a) (auto simp: c_string_def)
  ultimately show ?thesis
    using assms by (simp add: String_equals_def String_equals_string_def strcmp_eq_def String_hashCode_def)
qed

theorem String_equals_and_hash_witness:
  "String_equals False (Some [65, 0, 1]) (Some (Some [65, 0, 2])) = Inr True \<and>
     String_hashCode (Some [65, 0, 1]) \<noteq> String_hashCode (Some [65, 0, 2])"
  using String_equals_and_hash[of "[65]" "[65]" False] by simp

text \<open>
  \<open>trim\<close> of any string removes exactly the white space at both ends: what it cuts off is white
  space, and what is left does not begin or end with any. It never reads outside the string.
\<close>

theorem String_trim_strips:
  "\<exists>pre t post. String_trim (Some bs) = Inr (Some t) \<and> bs = pre @ t @ post \<and>
     (\<forall>c \<in> set pre \<union> set post. isspace c) \<and> (t = [] \<or> \<not> isspace (hd t) \<and> \<not> isspace (last t))"
proof -
  define u where "u = dropWhile isspace bs"
  have whole: "bs = takeWhile isspace bs @ strip_end isspace u @ rev (takeWhile isspace (rev u))"
    by (simp add: u_def strip_end_def flip: rev_append)
  have "\<not> isspace (last (strip_end isspace u))" if "strip_end isspace u \<noteq> []"
    using that hd_dropWhile[of isspace "rev u"] by (auto simp: strip_end_def last_rev)
  moreover have "\<not> isspace (hd (strip_end isspace u))" if "strip_end isspace u \<noteq> []"
  proof -
    have "hd (strip_end isspace u) = hd u" using that strip_end_take[of isspace u] by (metis hd_take length_greater_0_conv)
    moreover have "u \<noteq> []" using that by (auto simp: strip_end_def)
    ultimately show ?thesis using hd_dropWhile[of isspace bs] by (simp add: u_def)
  qed
  ultimately show ?thesis
    using whole
    by (intro exI[of _ "takeWhile isspace bs"] exI[of _ "strip_end isspace u"] exI[of _ "rev (takeWhile isspace (rev u))"])
      (auto simp: String_trim_eq u_def dest: set_takeWhileD)
qed

theorem String_trim_strips_witness:
  "\<exists>pre t post. String_trim (Some [32, 65, 32, 66, 9]) = Inr (Some t) \<and> [32, 65, 32, 66, 9] = pre @ t @ post \<and>
     (\<forall>c \<in> set pre \<union> set post. isspace c) \<and> (t = [] \<or> \<not> isspace (hd t) \<and> \<not> isspace (last t))"
  by (rule String_trim_strips)

end
