(* ===== verification/Variants.thy ===== *)
theory Variants
  imports Strings Output_Streams
begin

text \<open>
  The class \<open>Variant\<close> of \<open>src/mindroid/util/Variant.h\<close> and \<open>Variant.cpp\<close>: a value tagged with its type.

  \<open>mValue\<close> is a union: the model keeps the member that was written last, and reading another member is
  \<open>Undefined\<close>. Objects are references, an address with the dynamic class of the object behind it; a
  \<open>static_cast\<close> to a class that the object does not have is \<open>Undefined\<close>. Reference counting has no effect on the
  values and is left out. Floating-point values are their bit patterns. The virtual \<open>equals\<close> and \<open>hashCode\<close> of
  objects and binders are parameters. Values are hashed from their memory, on a little-endian machine.
\<close>

section \<open>Types and values\<close>

datatype variant_type =
    Null_type
  | Bool_type
  | Byte_type
  | Char_type
  | Short_type
  | UnsignedShort_type
  | Int_type
  | UnsignedInt_type
  | Long_type
  | UnsignedLong_type
  | Float_type
  | Double_type
  | String_type
  | StringSet_type
  | StringArrayList_type
  | IntegerArrayList_type
  | Object_type
  | Bundle_type
  | Binder_type

fun variant_ordinal :: "variant_type \<Rightarrow> size_t" where
  "variant_ordinal Null_type = 0"
| "variant_ordinal Bool_type = 1"
| "variant_ordinal Byte_type = 2"
| "variant_ordinal Char_type = 3"
| "variant_ordinal Short_type = 4"
| "variant_ordinal UnsignedShort_type = 5"
| "variant_ordinal Int_type = 6"
| "variant_ordinal UnsignedInt_type = 7"
| "variant_ordinal Long_type = 8"
| "variant_ordinal UnsignedLong_type = 9"
| "variant_ordinal Float_type = 10"
| "variant_ordinal Double_type = 11"
| "variant_ordinal String_type = 12"
| "variant_ordinal StringSet_type = 13"
| "variant_ordinal StringArrayList_type = 14"
| "variant_ordinal IntegerArrayList_type = 15"
| "variant_ordinal Object_type = 16"
| "variant_ordinal Bundle_type = 17"
| "variant_ordinal Binder_type = 18"

datatype object_class =
    String_class
  | StringSet_class
  | StringArrayList_class
  | IntegerArrayList_class
  | Bundle_class
  | Variant_class
  | Other_class

record object_ref =
  ref_class :: object_class
  ref_addr :: nat

type_synonym object_ptr = "object_ref option"
type_synonym binder_ptr = "nat option"

datatype variant_value =
    No_value
  | boolValue bool
  | byteValue uint8
  | charValue uint8
  | shortValue int16
  | unsignedShortValue "16 word"
  | intValue int32
  | unsignedIntValue uint32
  | longValue int64
  | unsignedLongValue uint64
  | floatValue uint32
  | doubleValue uint64
  | objectValue object_ptr
  | binderValue binder_ptr

record variant =
  mType :: variant_type
  mValue :: variant_value

definition static_cast :: "object_class \<Rightarrow> object_ptr \<Rightarrow> object_ptr result" where
  "static_cast c p =
     (case p of None \<Rightarrow> Inr None | Some r \<Rightarrow> if ref_class r = c then Inr (Some r) else Inl Undefined)"

section \<open>Construction\<close>

definition Variant_new :: variant where
  "Variant_new = \<lparr>mType = Null_type, mValue = No_value\<rparr>"

definition Variant_of_bool :: "bool \<Rightarrow> variant" where
  "Variant_of_bool value = \<lparr>mType = Bool_type, mValue = boolValue value\<rparr>"

definition Variant_of_byte :: "uint8 \<Rightarrow> variant" where
  "Variant_of_byte value = \<lparr>mType = Byte_type, mValue = byteValue value\<rparr>"

definition Variant_of_char :: "uint8 \<Rightarrow> variant" where
  "Variant_of_char value = \<lparr>mType = Char_type, mValue = charValue value\<rparr>"

definition Variant_of_short :: "int16 \<Rightarrow> variant" where
  "Variant_of_short value = \<lparr>mType = Short_type, mValue = shortValue value\<rparr>"

definition Variant_of_unsigned_short :: "16 word \<Rightarrow> variant" where
  "Variant_of_unsigned_short value = \<lparr>mType = UnsignedShort_type, mValue = unsignedShortValue value\<rparr>"

definition Variant_of_int :: "int32 \<Rightarrow> variant" where
  "Variant_of_int value = \<lparr>mType = Int_type, mValue = intValue value\<rparr>"

definition Variant_of_unsigned_int :: "uint32 \<Rightarrow> variant" where
  "Variant_of_unsigned_int value = \<lparr>mType = UnsignedInt_type, mValue = unsignedIntValue value\<rparr>"

definition Variant_of_long :: "int64 \<Rightarrow> variant" where
  "Variant_of_long value = \<lparr>mType = Long_type, mValue = longValue value\<rparr>"

definition Variant_of_unsigned_long :: "uint64 \<Rightarrow> variant" where
  "Variant_of_unsigned_long value = \<lparr>mType = UnsignedLong_type, mValue = unsignedLongValue value\<rparr>"

definition Variant_of_float :: "uint32 \<Rightarrow> variant" where
  "Variant_of_float value = \<lparr>mType = Float_type, mValue = floatValue value\<rparr>"

definition Variant_of_double :: "uint64 \<Rightarrow> variant" where
  "Variant_of_double value = \<lparr>mType = Double_type, mValue = doubleValue value\<rparr>"

text \<open>\<open>Variant(const char*)\<close> makes a new string; \<open>fresh\<close> is its address.\<close>

definition Variant_of_cstr :: "nat \<Rightarrow> cstr \<Rightarrow> variant" where
  "Variant_of_cstr fresh string =
     \<lparr>mType = String_type,
      mValue = objectValue (map_option (\<lambda>_. \<lparr>ref_class = String_class, ref_addr = fresh\<rparr>) (String_valueOf_cstr string))\<rparr>"

definition Variant_of_string :: "object_ptr \<Rightarrow> variant" where
  "Variant_of_string string = \<lparr>mType = String_type, mValue = objectValue string\<rparr>"

definition Variant_of_string_set :: "object_ptr \<Rightarrow> variant" where
  "Variant_of_string_set value = \<lparr>mType = StringSet_type, mValue = objectValue value\<rparr>"

definition Variant_of_string_list :: "object_ptr \<Rightarrow> variant" where
  "Variant_of_string_list value = \<lparr>mType = StringArrayList_type, mValue = objectValue value\<rparr>"

definition Variant_of_integer_list :: "object_ptr \<Rightarrow> variant" where
  "Variant_of_integer_list value = \<lparr>mType = IntegerArrayList_type, mValue = objectValue value\<rparr>"

definition Variant_of_object :: "object_ptr \<Rightarrow> variant" where
  "Variant_of_object object = \<lparr>mType = Object_type, mValue = objectValue object\<rparr>"

definition Variant_of_bundle :: "object_ptr \<Rightarrow> variant" where
  "Variant_of_bundle bundle = \<lparr>mType = Bundle_type, mValue = objectValue bundle\<rparr>"

definition Variant_of_binder :: "binder_ptr \<Rightarrow> variant" where
  "Variant_of_binder binder = \<lparr>mType = Binder_type, mValue = binderValue binder\<rparr>"

section \<open>Access\<close>

definition Variant_isBool :: "variant \<Rightarrow> bool" where
  "Variant_isBool v = (mType v = Bool_type)"

definition Variant_getBool :: "variant \<Rightarrow> bool result" where
  "Variant_getBool v = (case mValue v of boolValue x \<Rightarrow> Inr x | _ \<Rightarrow> Inl Undefined)"

definition Variant_isByte :: "variant \<Rightarrow> bool" where
  "Variant_isByte v = (mType v = Byte_type)"

definition Variant_getByte :: "variant \<Rightarrow> uint8 result" where
  "Variant_getByte v = (case mValue v of byteValue x \<Rightarrow> Inr x | _ \<Rightarrow> Inl Undefined)"

definition Variant_isChar :: "variant \<Rightarrow> bool" where
  "Variant_isChar v = (mType v = Char_type)"

definition Variant_getChar :: "variant \<Rightarrow> uint8 result" where
  "Variant_getChar v = (case mValue v of charValue x \<Rightarrow> Inr x | _ \<Rightarrow> Inl Undefined)"

definition Variant_isShort :: "variant \<Rightarrow> bool" where
  "Variant_isShort v = (mType v = Short_type)"

definition Variant_getShort :: "variant \<Rightarrow> int16 result" where
  "Variant_getShort v = (case mValue v of shortValue x \<Rightarrow> Inr x | _ \<Rightarrow> Inl Undefined)"

definition Variant_isUnsignedShort :: "variant \<Rightarrow> bool" where
  "Variant_isUnsignedShort v = (mType v = UnsignedShort_type)"

definition Variant_getUnsignedShort :: "variant \<Rightarrow> (16 word) result" where
  "Variant_getUnsignedShort v = (case mValue v of unsignedShortValue x \<Rightarrow> Inr x | _ \<Rightarrow> Inl Undefined)"

definition Variant_isInt :: "variant \<Rightarrow> bool" where
  "Variant_isInt v = (mType v = Int_type)"

definition Variant_getInt :: "variant \<Rightarrow> int32 result" where
  "Variant_getInt v = (case mValue v of intValue x \<Rightarrow> Inr x | _ \<Rightarrow> Inl Undefined)"

definition Variant_isUnsignedInt :: "variant \<Rightarrow> bool" where
  "Variant_isUnsignedInt v = (mType v = UnsignedInt_type)"

definition Variant_getUnsignedInt :: "variant \<Rightarrow> uint32 result" where
  "Variant_getUnsignedInt v = (case mValue v of unsignedIntValue x \<Rightarrow> Inr x | _ \<Rightarrow> Inl Undefined)"

definition Variant_isLong :: "variant \<Rightarrow> bool" where
  "Variant_isLong v = (mType v = Long_type)"

definition Variant_getLong :: "variant \<Rightarrow> int64 result" where
  "Variant_getLong v = (case mValue v of longValue x \<Rightarrow> Inr x | _ \<Rightarrow> Inl Undefined)"

definition Variant_isUnsignedLong :: "variant \<Rightarrow> bool" where
  "Variant_isUnsignedLong v = (mType v = UnsignedLong_type)"

definition Variant_getUnsignedLong :: "variant \<Rightarrow> uint64 result" where
  "Variant_getUnsignedLong v = (case mValue v of unsignedLongValue x \<Rightarrow> Inr x | _ \<Rightarrow> Inl Undefined)"

definition Variant_isFloat :: "variant \<Rightarrow> bool" where
  "Variant_isFloat v = (mType v = Float_type)"

definition Variant_getFloat :: "variant \<Rightarrow> uint32 result" where
  "Variant_getFloat v = (case mValue v of floatValue x \<Rightarrow> Inr x | _ \<Rightarrow> Inl Undefined)"

definition Variant_isDouble :: "variant \<Rightarrow> bool" where
  "Variant_isDouble v = (mType v = Double_type)"

definition Variant_getDouble :: "variant \<Rightarrow> uint64 result" where
  "Variant_getDouble v = (case mValue v of doubleValue x \<Rightarrow> Inr x | _ \<Rightarrow> Inl Undefined)"

definition Variant_isString :: "variant \<Rightarrow> bool" where
  "Variant_isString v = (mType v = String_type)"

definition Variant_getString :: "variant \<Rightarrow> object_ptr result" where
  "Variant_getString v = (case mValue v of objectValue p \<Rightarrow> static_cast String_class p | _ \<Rightarrow> Inl Undefined)"

definition Variant_isStringSet :: "variant \<Rightarrow> bool" where
  "Variant_isStringSet v = (mType v = StringSet_type)"

definition Variant_getStringSet :: "variant \<Rightarrow> object_ptr result" where
  "Variant_getStringSet v = (case mValue v of objectValue p \<Rightarrow> static_cast StringSet_class p | _ \<Rightarrow> Inl Undefined)"

definition Variant_isStringArrayList :: "variant \<Rightarrow> bool" where
  "Variant_isStringArrayList v = (mType v = StringArrayList_type)"

definition Variant_getStringArrayList :: "variant \<Rightarrow> object_ptr result" where
  "Variant_getStringArrayList v = (case mValue v of objectValue p \<Rightarrow> static_cast StringArrayList_class p | _ \<Rightarrow> Inl Undefined)"

definition Variant_isIntegerArrayList :: "variant \<Rightarrow> bool" where
  "Variant_isIntegerArrayList v = (mType v = IntegerArrayList_type)"

definition Variant_getIntegerArrayList :: "variant \<Rightarrow> object_ptr result" where
  "Variant_getIntegerArrayList v = (case mValue v of objectValue p \<Rightarrow> static_cast IntegerArrayList_class p | _ \<Rightarrow> Inl Undefined)"

definition Variant_isObject :: "variant \<Rightarrow> bool" where
  "Variant_isObject v = (mType v = Object_type)"

definition Variant_getObject :: "variant \<Rightarrow> object_ptr result" where
  "Variant_getObject v = (case mValue v of objectValue p \<Rightarrow> Inr p | _ \<Rightarrow> Inl Undefined)"

definition Variant_isBundle :: "variant \<Rightarrow> bool" where
  "Variant_isBundle v = (mType v = Bundle_type)"

definition Variant_getBundle :: "variant \<Rightarrow> object_ptr result" where
  "Variant_getBundle v = (case mValue v of objectValue p \<Rightarrow> static_cast Bundle_class p | _ \<Rightarrow> Inl Undefined)"

definition Variant_isBinder :: "variant \<Rightarrow> bool" where
  "Variant_isBinder v = (mType v = Binder_type)"

definition Variant_getBinder :: "variant \<Rightarrow> binder_ptr result" where
  "Variant_getBinder v =
     (if mType v = Binder_type then case mValue v of binderValue b \<Rightarrow> Inr b | _ \<Rightarrow> Inl Undefined else Inr None)"

definition Variant_isNull :: "variant \<Rightarrow> bool" where
  "Variant_isNull v = (mType v = Null_type)"

definition Variant_getType :: "variant \<Rightarrow> variant_type" where
  "Variant_getType v = mType v"

definition Variant_isBasicType :: "variant \<Rightarrow> bool" where
  "Variant_isBasicType v =
     (mType v = Null_type \<or> mType v = Bool_type \<or> mType v = Byte_type \<or> mType v = Char_type \<or>
      mType v = Short_type \<or> mType v = UnsignedShort_type \<or> mType v = Int_type \<or> mType v = UnsignedInt_type \<or>
      mType v = Long_type \<or> mType v = UnsignedLong_type \<or> mType v = Float_type \<or> mType v = Double_type \<or>
      mType v = String_type)"

section \<open>Equality and hash codes\<close>

text \<open>Comparison of floating-point numbers by their bits: a NaN equals nothing, and the two zeros are equal.\<close>

definition float_equal :: "uint32 \<Rightarrow> uint32 \<Rightarrow> bool" where
  "float_equal a b =
     (\<not> a AND 0x7fffffff > 0x7f800000 \<and> \<not> b AND 0x7fffffff > 0x7f800000 \<and>
      (a = b \<or> (a OR b) AND 0x7fffffff = 0))"

definition double_equal :: "uint64 \<Rightarrow> uint64 \<Rightarrow> bool" where
  "double_equal a b =
     (\<not> a AND 0x7fffffffffffffff > 0x7ff0000000000000 \<and> \<not> b AND 0x7fffffffffffffff > 0x7ff0000000000000 \<and>
      (a = b \<or> (a OR b) AND 0x7fffffffffffffff = 0))"

text \<open>
  \<open>other\<close> is null for a null object and for one that is not a \<open>Variant\<close>. For equal types the members of both
  unions are read as the type says.
\<close>

definition both :: "(variant \<Rightarrow> 'a result) \<Rightarrow> ('a \<Rightarrow> 'a \<Rightarrow> bool result) \<Rightarrow> variant \<Rightarrow> variant \<Rightarrow> bool result" where
  "both get eq v w = bind_result (get v) (\<lambda>a. bind_result (get w) (\<lambda>b. eq a b))"

definition pointer_equals :: "('r \<Rightarrow> 'r option \<Rightarrow> bool result) \<Rightarrow> 'r option \<Rightarrow> 'r option \<Rightarrow> bool result" where
  "pointer_equals equals a b = (case a of Some r \<Rightarrow> equals r b | None \<Rightarrow> Inr (b = None))"

definition Variant_equals ::
  "(object_ref \<Rightarrow> object_ptr \<Rightarrow> bool result) \<Rightarrow> (nat \<Rightarrow> binder_ptr \<Rightarrow> bool result) \<Rightarrow>
     variant \<Rightarrow> variant option \<Rightarrow> bool result" where
  "Variant_equals object_equals binder_equals v other =
     (case other of
        None \<Rightarrow> Inr False
      | Some w \<Rightarrow>
          if mType v = mType w
          then (case mType v of
                  Null_type \<Rightarrow> Inr True
                | Bool_type \<Rightarrow> both Variant_getBool (\<lambda>a b. Inr (a = b)) v w
                | Byte_type \<Rightarrow> both Variant_getByte (\<lambda>a b. Inr (a = b)) v w
                | Char_type \<Rightarrow> both Variant_getChar (\<lambda>a b. Inr (a = b)) v w
                | Short_type \<Rightarrow> both Variant_getShort (\<lambda>a b. Inr (a = b)) v w
                | UnsignedShort_type \<Rightarrow> both Variant_getUnsignedShort (\<lambda>a b. Inr (a = b)) v w
                | Int_type \<Rightarrow> both Variant_getInt (\<lambda>a b. Inr (a = b)) v w
                | UnsignedInt_type \<Rightarrow> both Variant_getUnsignedInt (\<lambda>a b. Inr (a = b)) v w
                | Long_type \<Rightarrow> both Variant_getLong (\<lambda>a b. Inr (a = b)) v w
                | UnsignedLong_type \<Rightarrow> both Variant_getUnsignedLong (\<lambda>a b. Inr (a = b)) v w
                | Float_type \<Rightarrow> both Variant_getFloat (\<lambda>a b. Inr (float_equal a b)) v w
                | Double_type \<Rightarrow> both Variant_getDouble (\<lambda>a b. Inr (double_equal a b)) v w
                | Binder_type \<Rightarrow> both Variant_getBinder (pointer_equals binder_equals) v w
                | _ \<Rightarrow> both Variant_getObject (pointer_equals object_equals) v w)
          else Inr False)"

fun Variant_hash_loop :: "size_t \<Rightarrow> bytes \<Rightarrow> size_t" where
  "Variant_hash_loop hash [] = hash"
| "Variant_hash_loop hash (b # data) = Variant_hash_loop (31 * hash + ucast b) data"

definition Variant_hash :: "variant_type \<Rightarrow> bytes result \<Rightarrow> size_t result" where
  "Variant_hash seed data = bind_result data (\<lambda>bs. Inr (Variant_hash_loop (variant_ordinal seed) bs))"

definition memory :: "nat \<Rightarrow> 'a::len word result \<Rightarrow> bytes result" where
  "memory n r = bind_result r (\<lambda>w. Inr (word_bytes n w))"

definition pointer_hash :: "('r \<Rightarrow> size_t) \<Rightarrow> 'r option \<Rightarrow> size_t" where
  "pointer_hash hashCode p = (case p of Some r \<Rightarrow> hashCode r | None \<Rightarrow> 0)"

definition Variant_hashCode :: "(object_ref \<Rightarrow> size_t) \<Rightarrow> (nat \<Rightarrow> size_t) \<Rightarrow> variant \<Rightarrow> size_t result" where
  "Variant_hashCode object_hash binder_hash v =
     (let t = mType v in case t of
        Null_type \<Rightarrow> Inr (variant_ordinal t)
      | Bool_type \<Rightarrow> Variant_hash t (bind_result (Variant_getBool v) (\<lambda>b. Inr [if b then 1 else 0]))
      | Byte_type \<Rightarrow> Variant_hash t (memory 1 (Variant_getByte v))
      | Char_type \<Rightarrow> Variant_hash t (memory 1 (Variant_getChar v))
      | Short_type \<Rightarrow> Variant_hash t (memory 2 (Variant_getShort v))
      | UnsignedShort_type \<Rightarrow> Variant_hash t (memory 2 (Variant_getUnsignedShort v))
      | Int_type \<Rightarrow> Variant_hash t (memory 4 (Variant_getInt v))
      | UnsignedInt_type \<Rightarrow> Variant_hash t (memory 4 (Variant_getUnsignedInt v))
      | Long_type \<Rightarrow> Variant_hash t (memory 8 (Variant_getLong v))
      | UnsignedLong_type \<Rightarrow> Variant_hash t (memory 8 (Variant_getUnsignedLong v))
      | Float_type \<Rightarrow> Variant_hash t (memory 4 (Variant_getFloat v))
      | Double_type \<Rightarrow> Variant_hash t (memory 8 (Variant_getDouble v))
      | Binder_type \<Rightarrow> bind_result (Variant_getBinder v) (\<lambda>p. Inr (pointer_hash binder_hash p))
      | _ \<Rightarrow> bind_result (Variant_getObject v) (\<lambda>p. Inr (pointer_hash object_hash p)))"

section \<open>Well-formed variants\<close>

text \<open>The member of the union is the one of the type, and an object has the class of the type.\<close>

definition has_class :: "object_class \<Rightarrow> object_ptr \<Rightarrow> bool" where
  "has_class c p = (case p of None \<Rightarrow> True | Some r \<Rightarrow> ref_class r = c)"

fun member_ok :: "variant_type \<Rightarrow> variant_value \<Rightarrow> bool" where
  "member_ok Null_type x = True"
| "member_ok Bool_type x = (case x of boolValue _ \<Rightarrow> True | _ \<Rightarrow> False)"
| "member_ok Byte_type x = (case x of byteValue _ \<Rightarrow> True | _ \<Rightarrow> False)"
| "member_ok Char_type x = (case x of charValue _ \<Rightarrow> True | _ \<Rightarrow> False)"
| "member_ok Short_type x = (case x of shortValue _ \<Rightarrow> True | _ \<Rightarrow> False)"
| "member_ok UnsignedShort_type x = (case x of unsignedShortValue _ \<Rightarrow> True | _ \<Rightarrow> False)"
| "member_ok Int_type x = (case x of intValue _ \<Rightarrow> True | _ \<Rightarrow> False)"
| "member_ok UnsignedInt_type x = (case x of unsignedIntValue _ \<Rightarrow> True | _ \<Rightarrow> False)"
| "member_ok Long_type x = (case x of longValue _ \<Rightarrow> True | _ \<Rightarrow> False)"
| "member_ok UnsignedLong_type x = (case x of unsignedLongValue _ \<Rightarrow> True | _ \<Rightarrow> False)"
| "member_ok Float_type x = (case x of floatValue _ \<Rightarrow> True | _ \<Rightarrow> False)"
| "member_ok Double_type x = (case x of doubleValue _ \<Rightarrow> True | _ \<Rightarrow> False)"
| "member_ok String_type x = (case x of objectValue p \<Rightarrow> has_class String_class p | _ \<Rightarrow> False)"
| "member_ok StringSet_type x = (case x of objectValue p \<Rightarrow> has_class StringSet_class p | _ \<Rightarrow> False)"
| "member_ok StringArrayList_type x = (case x of objectValue p \<Rightarrow> has_class StringArrayList_class p | _ \<Rightarrow> False)"
| "member_ok IntegerArrayList_type x = (case x of objectValue p \<Rightarrow> has_class IntegerArrayList_class p | _ \<Rightarrow> False)"
| "member_ok Object_type x = (case x of objectValue _ \<Rightarrow> True | _ \<Rightarrow> False)"
| "member_ok Bundle_type x = (case x of objectValue p \<Rightarrow> has_class Bundle_class p | _ \<Rightarrow> False)"
| "member_ok Binder_type x = (case x of binderValue _ \<Rightarrow> True | _ \<Rightarrow> False)"

lemma member_ok_iff:
  "member_ok Bool_type x \<longleftrightarrow> (\<exists>a. x = boolValue a)"
  "member_ok Byte_type x \<longleftrightarrow> (\<exists>a. x = byteValue a)"
  "member_ok Char_type x \<longleftrightarrow> (\<exists>a. x = charValue a)"
  "member_ok Short_type x \<longleftrightarrow> (\<exists>a. x = shortValue a)"
  "member_ok UnsignedShort_type x \<longleftrightarrow> (\<exists>a. x = unsignedShortValue a)"
  "member_ok Int_type x \<longleftrightarrow> (\<exists>a. x = intValue a)"
  "member_ok UnsignedInt_type x \<longleftrightarrow> (\<exists>a. x = unsignedIntValue a)"
  "member_ok Long_type x \<longleftrightarrow> (\<exists>a. x = longValue a)"
  "member_ok UnsignedLong_type x \<longleftrightarrow> (\<exists>a. x = unsignedLongValue a)"
  "member_ok Float_type x \<longleftrightarrow> (\<exists>a. x = floatValue a)"
  "member_ok Double_type x \<longleftrightarrow> (\<exists>a. x = doubleValue a)"
  "member_ok Object_type x \<longleftrightarrow> (\<exists>a. x = objectValue a)"
  "member_ok Binder_type x \<longleftrightarrow> (\<exists>a. x = binderValue a)"
  "member_ok String_type x \<longleftrightarrow> (\<exists>a. x = objectValue a \<and> has_class String_class a)"
  "member_ok StringSet_type x \<longleftrightarrow> (\<exists>a. x = objectValue a \<and> has_class StringSet_class a)"
  "member_ok StringArrayList_type x \<longleftrightarrow> (\<exists>a. x = objectValue a \<and> has_class StringArrayList_class a)"
  "member_ok IntegerArrayList_type x \<longleftrightarrow> (\<exists>a. x = objectValue a \<and> has_class IntegerArrayList_class a)"
  "member_ok Bundle_type x \<longleftrightarrow> (\<exists>a. x = objectValue a \<and> has_class Bundle_class a)"
  by (cases x; simp)+

definition variant_ok :: "variant \<Rightarrow> bool" where
  "variant_ok v = member_ok (mType v) (mValue v)"

lemmas variant_of_defs =
  Variant_of_bool_def Variant_of_byte_def Variant_of_char_def Variant_of_short_def Variant_of_unsigned_short_def
  Variant_of_int_def Variant_of_unsigned_int_def Variant_of_long_def Variant_of_unsigned_long_def
  Variant_of_float_def Variant_of_double_def Variant_of_string_def Variant_of_string_list_def
  Variant_of_integer_list_def Variant_of_object_def Variant_of_binder_def

lemmas variant_is_defs =
  Variant_isBool_def Variant_isByte_def Variant_isChar_def Variant_isShort_def Variant_isUnsignedShort_def
  Variant_isInt_def Variant_isUnsignedInt_def Variant_isLong_def Variant_isUnsignedLong_def Variant_isFloat_def
  Variant_isDouble_def Variant_isString_def Variant_isStringSet_def Variant_isStringArrayList_def
  Variant_isIntegerArrayList_def Variant_isObject_def Variant_isBundle_def Variant_isBinder_def

lemmas variant_get_defs =
  Variant_getBool_def Variant_getByte_def Variant_getChar_def Variant_getShort_def Variant_getUnsignedShort_def
  Variant_getInt_def Variant_getUnsignedInt_def Variant_getLong_def Variant_getUnsignedLong_def Variant_getFloat_def
  Variant_getDouble_def Variant_getString_def Variant_getStringArrayList_def Variant_getIntegerArrayList_def
  Variant_getObject_def Variant_getBinder_def

lemmas read_simps =
  variant_ok_def variant_is_defs variant_get_defs static_cast_def has_class_def

lemmas variant_equality_defs =
  Variant_equals_def both_def pointer_equals_def Variant_hashCode_def Variant_hash_def memory_def pointer_hash_def Let_def

section \<open>Properties\<close>

text \<open>
  Equal variants have equal hash codes, and \<open>equals\<close> and \<open>hashCode\<close> of well-formed variants are defined, when the
  objects and binders inside obey the same law; the exception are floating-point values: the two zeros are equal but
  are hashed from their different bits. A variant with a NaN is not equal to itself, and variants of different types
  are never equal.
\<close>

theorem Variant_equals_and_hash:
  assumes "variant_ok v" and "variant_ok w"
    and "\<And>r p. object_equals r p = Inr True \<Longrightarrow> \<exists>q. p = Some q \<and> object_hash q = object_hash r"
    and "\<And>r p. binder_equals r p = Inr True \<Longrightarrow> \<exists>q. p = Some q \<and> binder_hash q = binder_hash r"
  shows "(Variant_equals object_equals binder_equals v (Some w) = Inr True \<longrightarrow> mType v = mType w \<and>
      (mType v \<notin> {Float_type, Double_type} \<longrightarrow>
        (\<exists>h. Variant_hashCode object_hash binder_hash v = Inr h \<and> Variant_hashCode object_hash binder_hash w = Inr h))) \<and>
    (mType v \<noteq> mType w \<longrightarrow> Variant_equals object_equals binder_equals v (Some w) = Inr False) \<and>
    Variant_equals object_equals binder_equals (Variant_of_float 0) (Some (Variant_of_float 0x80000000)) = Inr True \<and>
    Variant_hashCode object_hash binder_hash (Variant_of_float 0) \<noteq>
      Variant_hashCode object_hash binder_hash (Variant_of_float 0x80000000) \<and>
    Variant_equals object_equals binder_equals (Variant_of_float 0x7fc00000) (Some (Variant_of_float 0x7fc00000)) = Inr False"
proof (intro conjI impI)
  assume eq: "Variant_equals object_equals binder_equals v (Some w) = Inr True"
  then show same: "mType v = mType w" by (auto simp: Variant_equals_def split: if_splits)
  assume "mType v \<notin> {Float_type, Double_type}"
  then show "\<exists>h. Variant_hashCode object_hash binder_hash v = Inr h \<and> Variant_hashCode object_hash binder_hash w = Inr h"
    using eq same assms(1,2)
    by (cases "mType v")
      (auto simp: variant_equality_defs read_simps member_ok_iff simp del: member_ok.simps split: option.splits
        dest!: assms(3,4))
qed (simp_all add: variant_equality_defs read_simps variant_of_defs float_equal_def word_bytes_def upt_rec)

theorem Variant_equals_and_hash_witness:
  "Variant_equals (\<lambda>r p. Inr (p = Some r)) (\<lambda>r p. Inr (p = Some r)) (Variant_of_int 5) (Some (Variant_of_bool True)) = Inr False"
proof -
  have "variant_ok (Variant_of_int 5)" "variant_ok (Variant_of_bool True)"
    by (simp_all add: read_simps variant_of_defs)
  from Variant_equals_and_hash[OF this, of "\<lambda>r p. Inr (p = Some r)" "\<lambda>_. 0" "\<lambda>r p. Inr (p = Some r)" "\<lambda>_. 0"]
  show ?thesis by (simp add: variant_of_defs)
qed

end
