(* ===== verification/Hash_Tables.thy ===== *)
theory Hash_Tables
  imports Sequences
begin

text \<open>
  The hash containers of \<open>src/mindroid/util\<close>: \<open>HashMap\<close> with its four templates (plain or smart-pointer
  keys and values) and \<open>HashSet\<close> with its two.

  A \<open>std::unordered_map\<close> is the list of its entries in the order of its iterator, with at most one entry
  for equal keys; the standard leaves that order open, and no theorem below depends on where a new entry
  is placed. Keys that are smart pointers are hashed with \<open>hashCode\<close> and compared with \<open>equals\<close>
  (\<open>Hasher\<close> and \<open>EqualityComparator\<close> of \<open>lang/Object.h\<close>), which dereference them: a null key is \<open>Undefined\<close>, and a
  stored key is not null. \<open>equals\<close> is a parameter; what the containers need of it, an equivalence that
  \<open>hashCode\<close> respects, is the locale \<open>key_equality\<close>. The default value of a type is the parameter \<open>dflt\<close>.

  The locale \<open>dictionary\<close> is the contract of a map; it is interpreted on the four templates.
\<close>

section \<open>The standard containers\<close>

definition um_find :: "('k \<Rightarrow> 'k \<Rightarrow> bool) \<Rightarrow> 'k \<Rightarrow> ('k \<times> 'v) list \<Rightarrow> 'v option" where
  "um_find eq k m = map_option snd (find (\<lambda>e. eq k (fst e)) m)"

text \<open>\<open>mMap[key]\<close> inserts a default value under an absent key; \<open>um_store\<close> then writes through the reference.\<close>

definition um_index :: "'v \<Rightarrow> ('k \<Rightarrow> 'k \<Rightarrow> bool) \<Rightarrow> 'k \<Rightarrow> ('k \<times> 'v) list \<Rightarrow> ('k \<times> 'v) list" where
  "um_index dflt eq k m = (case um_find eq k m of None \<Rightarrow> m @ [(k, dflt)] | Some _ \<Rightarrow> m)"

fun um_store :: "('k \<Rightarrow> 'k \<Rightarrow> bool) \<Rightarrow> 'k \<Rightarrow> 'v \<Rightarrow> ('k \<times> 'v) list \<Rightarrow> ('k \<times> 'v) list" where
  "um_store eq k v [] = []"
| "um_store eq k v (e # m) = (if eq k (fst e) then (fst e, v) # m else e # um_store eq k v m)"

fun um_erase :: "('k \<Rightarrow> 'k \<Rightarrow> bool) \<Rightarrow> 'k \<Rightarrow> ('k \<times> 'v) list \<Rightarrow> ('k \<times> 'v) list" where
  "um_erase eq k [] = []"
| "um_erase eq k (e # m) = (if eq k (fst e) then m else e # um_erase eq k m)"

definition us_insert :: "('a \<Rightarrow> 'a \<Rightarrow> bool) \<Rightarrow> 'a \<Rightarrow> 'a list \<Rightarrow> bool \<times> 'a list" where
  "us_insert eq x s = (if \<exists>y \<in> set s. eq x y then (False, s) else (True, s @ [x]))"

fun us_erase :: "('a \<Rightarrow> 'a \<Rightarrow> bool) \<Rightarrow> 'a \<Rightarrow> 'a list \<Rightarrow> nat \<times> 'a list" where
  "us_erase eq x [] = (0, [])"
| "us_erase eq x (y # s) = (if eq x y then (1, s) else let (n, s') = us_erase eq x s in (n, y # s'))"

section \<open>HashSet\<close>

definition HashSet_add :: "'a \<Rightarrow> 'a list \<Rightarrow> bool \<times> 'a list" where
  "HashSet_add value s = us_insert (=) value s"

definition HashSet_addAll :: "'a list option \<Rightarrow> 'a list \<Rightarrow> (bool \<times> 'a list) result option" where
  "HashSet_addAll collection s =
     map_option (\<lambda>r. bind_result r (\<lambda>s'. Inr (True, s')))
       (copy_collection (\<lambda>x s. snd (HashSet_add x s)) collection s)"

definition HashSet_copy :: "'a list option \<Rightarrow> 'a list result option" where
  "HashSet_copy collection = copy_collection (\<lambda>x s. snd (HashSet_add x s)) collection []"

definition HashSet_clear :: "'a list \<Rightarrow> 'a list" where
  "HashSet_clear s = []"

definition HashSet_contains :: "'a \<Rightarrow> 'a list \<Rightarrow> bool" where
  "HashSet_contains value s = (\<exists>y \<in> set s. value = y)"

definition HashSet_isEmpty :: "'a list \<Rightarrow> bool" where
  "HashSet_isEmpty s = (s = [])"

definition HashSet_remove :: "'a \<Rightarrow> 'a list \<Rightarrow> bool \<times> 'a list" where
  "HashSet_remove value s = (let (n, s') = us_erase (=) value s in (n = 1, s'))"

definition HashSet_size :: "'a list \<Rightarrow> nat" where
  "HashSet_size s = length s"

definition HashSetSp_add :: "('a \<Rightarrow> 'a \<Rightarrow> bool) \<Rightarrow> 'a option \<Rightarrow> 'a list \<Rightarrow> (bool \<times> 'a list) result" where
  "HashSetSp_add equals value s = bind_result (deref value) (\<lambda>x. Inr (us_insert equals x s))"

definition HashSetSp_addAll :: "('a \<Rightarrow> 'a \<Rightarrow> bool) \<Rightarrow> 'a list option \<Rightarrow> 'a list \<Rightarrow> (bool \<times> 'a list) result option" where
  "HashSetSp_addAll equals collection s =
     map_option (\<lambda>r. bind_result (bind_result r (\<lambda>s'. s')) (\<lambda>s'. Inr (True, s')))
       (copy_collection (\<lambda>x r. bind_result r (\<lambda>s. map_sum (\<lambda>e. e) snd (HashSetSp_add equals (Some x) s))) collection (Inr s))"

definition HashSetSp_copy :: "('a \<Rightarrow> 'a \<Rightarrow> bool) \<Rightarrow> 'a list option \<Rightarrow> 'a list result option" where
  "HashSetSp_copy equals collection =
     map_option (\<lambda>r. bind_result r (\<lambda>s'. s'))
       (copy_collection (\<lambda>x r. bind_result r (\<lambda>s. map_sum (\<lambda>e. e) snd (HashSetSp_add equals (Some x) s))) collection (Inr []))"

definition HashSetSp_clear :: "'a list \<Rightarrow> 'a list" where
  "HashSetSp_clear s = []"

definition HashSetSp_contains :: "('a \<Rightarrow> 'a \<Rightarrow> bool) \<Rightarrow> 'a option \<Rightarrow> 'a list \<Rightarrow> bool result" where
  "HashSetSp_contains equals value s = bind_result (deref value) (\<lambda>x. Inr (\<exists>y \<in> set s. equals x y))"

definition HashSetSp_isEmpty :: "'a list \<Rightarrow> bool" where
  "HashSetSp_isEmpty s = (s = [])"

definition HashSetSp_remove :: "('a \<Rightarrow> 'a \<Rightarrow> bool) \<Rightarrow> 'a option \<Rightarrow> 'a list \<Rightarrow> (bool \<times> 'a list) result" where
  "HashSetSp_remove equals value s =
     bind_result (deref value) (\<lambda>x. let (n, s') = us_erase equals x s in Inr (n = 1, s'))"

definition HashSetSp_size :: "'a list \<Rightarrow> nat" where
  "HashSetSp_size s = length s"

section \<open>HashMap with plain keys and values\<close>

definition HashMap_clear :: "('k \<times> 'v) list \<Rightarrow> ('k \<times> 'v) list" where
  "HashMap_clear m = []"

definition HashMap_containsKey :: "'k \<Rightarrow> ('k \<times> 'v) list \<Rightarrow> bool" where
  "HashMap_containsKey key m = (um_find (=) key m \<noteq> None)"

definition HashMap_containsValue :: "'v \<Rightarrow> ('k \<times> 'v) list \<Rightarrow> bool" where
  "HashMap_containsValue value m = (\<exists>e \<in> set m. snd e = value)"

definition HashMap_get :: "'v \<Rightarrow> 'k \<Rightarrow> ('k \<times> 'v) list \<Rightarrow> 'v \<times> ('k \<times> 'v) list" where
  "HashMap_get dflt key m =
     (case um_find (=) key m of
        Some v \<Rightarrow> (v, m)
      | None \<Rightarrow> let m' = um_index dflt (=) key m in (the (um_find (=) key m'), m'))"

definition HashMap_isEmpty :: "('k \<times> 'v) list \<Rightarrow> bool" where
  "HashMap_isEmpty m = (m = [])"

definition HashMap_keySet :: "('k \<times> 'v) list \<Rightarrow> 'k list result option" where
  "HashMap_keySet m = for_each_next (\<lambda>(k, v) keys. snd (HashSet_add k keys)) Iterator_new m []"

definition HashMap_put :: "'v \<Rightarrow> 'k \<Rightarrow> 'v \<Rightarrow> ('k \<times> 'v) list \<Rightarrow> 'v \<times> ('k \<times> 'v) list" where
  "HashMap_put dflt key value m =
     (let m1 = um_index dflt (=) key m;
          oldValue = (case um_find (=) key m1 of Some v \<Rightarrow> v | None \<Rightarrow> dflt)
      in (oldValue, um_store (=) key value (um_index dflt (=) key m1)))"

definition HashMap_putAll :: "'v \<Rightarrow> ('k \<times> 'v) list option \<Rightarrow> ('k \<times> 'v) list \<Rightarrow> ('k \<times> 'v) list result option" where
  "HashMap_putAll dflt other m =
     (case other of
        None \<Rightarrow> Some (Inl Undefined)
      | Some n \<Rightarrow> for_each_next (\<lambda>(k, v) m. snd (HashMap_put dflt k v m)) Iterator_new n m)"

definition HashMap_copy :: "'v \<Rightarrow> ('k \<times> 'v) list option \<Rightarrow> ('k \<times> 'v) list result option" where
  "HashMap_copy dflt other = HashMap_putAll dflt other []"

definition HashMap_remove :: "'v \<Rightarrow> 'k \<Rightarrow> ('k \<times> 'v) list \<Rightarrow> 'v \<times> ('k \<times> 'v) list" where
  "HashMap_remove dflt key m =
     (let m1 = um_index dflt (=) key m;
          oldValue = (case um_find (=) key m1 of Some v \<Rightarrow> v | None \<Rightarrow> dflt)
      in (oldValue, um_erase (=) key m1))"

definition HashMap_size :: "('k \<times> 'v) list \<Rightarrow> nat" where
  "HashMap_size m = length m"

definition HashMap_values :: "('k \<times> 'v) list \<Rightarrow> 'v list result option" where
  "HashMap_values m = for_each_next (\<lambda>(k, v) values. snd (ArrayList_add v values)) Iterator_new m []"

text \<open>An \<open>Entry\<close> refers to the value inside the map: \<open>pos\<close> is the entry that the iterator stands on.\<close>

definition HashMap_Entry_setValue :: "nat \<Rightarrow> 'v \<Rightarrow> ('k \<times> 'v) list \<Rightarrow> 'v \<times> ('k \<times> 'v) list" where
  "HashMap_Entry_setValue pos value m = (snd (m ! pos), m[pos := (fst (m ! pos), value)])"

section \<open>HashMap with plain keys and smart-pointer values\<close>

definition HashMapV_clear :: "('k \<times> 'v option) list \<Rightarrow> ('k \<times> 'v option) list" where
  "HashMapV_clear m = []"

definition HashMapV_containsKey :: "'k \<Rightarrow> ('k \<times> 'v option) list \<Rightarrow> bool" where
  "HashMapV_containsKey key m = (um_find (=) key m \<noteq> None)"

definition HashMapV_containsValue ::
  "('v \<Rightarrow> 'v option \<Rightarrow> bool) \<Rightarrow> 'v option \<Rightarrow> ('k \<times> 'v option) list \<Rightarrow> bool result" where
  "HashMapV_containsValue equals value m =
     (if value \<noteq> None then contains_loop (\<lambda>e. equals_null_unsafe equals value (snd e)) m else Inr False)"

definition HashMapV_get :: "'k \<Rightarrow> ('k \<times> 'v option) list \<Rightarrow> 'v option" where
  "HashMapV_get key m = (case um_find (=) key m of Some v \<Rightarrow> v | None \<Rightarrow> None)"

definition HashMapV_isEmpty :: "('k \<times> 'v option) list \<Rightarrow> bool" where
  "HashMapV_isEmpty m = (m = [])"

definition HashMapV_keySet :: "('k \<times> 'v option) list \<Rightarrow> 'k list result option" where
  "HashMapV_keySet m = for_each_next (\<lambda>(k, v) keys. snd (HashSet_add k keys)) Iterator_new m []"

definition HashMapV_put ::
  "'k \<Rightarrow> 'v option \<Rightarrow> ('k \<times> 'v option) list \<Rightarrow> 'v option \<times> ('k \<times> 'v option) list" where
  "HashMapV_put key value m =
     (let oldValue = (case um_find (=) key m of Some v \<Rightarrow> v | None \<Rightarrow> None)
      in (oldValue, um_store (=) key value (um_index None (=) key m)))"

definition HashMapV_putAll ::
  "('k \<times> 'v option) list option \<Rightarrow> ('k \<times> 'v option) list \<Rightarrow> ('k \<times> 'v option) list result option" where
  "HashMapV_putAll other m =
     (case other of
        None \<Rightarrow> Some (Inl Undefined)
      | Some n \<Rightarrow> for_each_next (\<lambda>(k, v) m. snd (HashMapV_put k v m)) Iterator_new n m)"

definition HashMapV_copy :: "('k \<times> 'v option) list option \<Rightarrow> ('k \<times> 'v option) list result option" where
  "HashMapV_copy other = HashMapV_putAll other []"

definition HashMapV_remove :: "'k \<Rightarrow> ('k \<times> 'v option) list \<Rightarrow> 'v option \<times> ('k \<times> 'v option) list" where
  "HashMapV_remove key m =
     (let oldValue = (case um_find (=) key m of Some v \<Rightarrow> v | None \<Rightarrow> None)
      in (oldValue, um_erase (=) key m))"

definition HashMapV_size :: "('k \<times> 'v option) list \<Rightarrow> nat" where
  "HashMapV_size m = length m"

definition HashMapV_values :: "('k \<times> 'v option) list \<Rightarrow> 'v option list result option" where
  "HashMapV_values m = for_each_next (\<lambda>(k, v) values. snd (ArrayListSp_add v values)) Iterator_new m []"

text \<open>This \<open>Entry\<close> holds a copy of the value: \<open>setValue\<close> changes the entry, not the map.\<close>

definition HashMapV_Entry_setValue :: "'v option \<Rightarrow> 'k \<times> 'v option \<Rightarrow> 'v option \<times> ('k \<times> 'v option)" where
  "HashMapV_Entry_setValue value e = (snd e, (fst e, value))"

section \<open>HashMap with smart-pointer keys and plain values\<close>

definition HashMapK_clear :: "('k \<times> 'v) list \<Rightarrow> ('k \<times> 'v) list" where
  "HashMapK_clear m = []"

definition HashMapK_containsKey :: "('k \<Rightarrow> 'k \<Rightarrow> bool) \<Rightarrow> 'k option \<Rightarrow> ('k \<times> 'v) list \<Rightarrow> bool" where
  "HashMapK_containsKey equals key m = (case key of None \<Rightarrow> False | Some k \<Rightarrow> um_find equals k m \<noteq> None)"

definition HashMapK_containsValue :: "'v \<Rightarrow> ('k \<times> 'v) list \<Rightarrow> bool" where
  "HashMapK_containsValue value m = (\<exists>e \<in> set m. snd e = value)"

definition HashMapK_get ::
  "('k \<Rightarrow> 'k \<Rightarrow> bool) \<Rightarrow> 'v \<Rightarrow> 'k option \<Rightarrow> ('k \<times> 'v) list \<Rightarrow> ('v \<times> ('k \<times> 'v) list) result" where
  "HashMapK_get equals dflt key m =
     bind_result (deref key) (\<lambda>k.
       case um_find equals k m of
         Some v \<Rightarrow> Inr (v, m)
       | None \<Rightarrow> let m' = um_index dflt equals k m in Inr (the (um_find equals k m'), m'))"

definition HashMapK_isEmpty :: "('k \<times> 'v) list \<Rightarrow> bool" where
  "HashMapK_isEmpty m = (m = [])"

definition HashMapK_keySet :: "('k \<Rightarrow> 'k \<Rightarrow> bool) \<Rightarrow> ('k \<times> 'v) list \<Rightarrow> 'k list result option" where
  "HashMapK_keySet equals m =
     map_option (\<lambda>r. bind_result r (\<lambda>s. s))
       (for_each_next (\<lambda>(k, v) r. bind_result r (\<lambda>s. map_sum (\<lambda>e. e) snd (HashSetSp_add equals (Some k) s)))
          Iterator_new m (Inr []))"

definition HashMapK_put ::
  "('k \<Rightarrow> 'k \<Rightarrow> bool) \<Rightarrow> 'v \<Rightarrow> 'k option \<Rightarrow> 'v \<Rightarrow> ('k \<times> 'v) list \<Rightarrow> ('v \<times> ('k \<times> 'v) list) result" where
  "HashMapK_put equals dflt key value m =
     bind_result (deref key) (\<lambda>k.
       let m1 = um_index dflt equals k m;
           oldValue = (case um_find equals k m1 of Some v \<Rightarrow> v | None \<Rightarrow> dflt)
       in Inr (oldValue, um_store equals k value (um_index dflt equals k m1)))"

definition HashMapK_putAll ::
  "('k \<Rightarrow> 'k \<Rightarrow> bool) \<Rightarrow> 'v \<Rightarrow> ('k \<times> 'v) list option \<Rightarrow> ('k \<times> 'v) list \<Rightarrow> ('k \<times> 'v) list result option" where
  "HashMapK_putAll equals dflt other m =
     (case other of
        None \<Rightarrow> Some (Inl Undefined)
      | Some n \<Rightarrow>
          map_option (\<lambda>r. bind_result r (\<lambda>s. s))
            (for_each_next (\<lambda>(k, v) r. bind_result r (\<lambda>m. map_sum (\<lambda>e. e) snd (HashMapK_put equals dflt (Some k) v m)))
               Iterator_new n (Inr m)))"

definition HashMapK_copy ::
  "('k \<Rightarrow> 'k \<Rightarrow> bool) \<Rightarrow> 'v \<Rightarrow> ('k \<times> 'v) list option \<Rightarrow> ('k \<times> 'v) list result option" where
  "HashMapK_copy equals dflt other = HashMapK_putAll equals dflt other []"

definition HashMapK_remove ::
  "('k \<Rightarrow> 'k \<Rightarrow> bool) \<Rightarrow> 'v \<Rightarrow> 'k option \<Rightarrow> ('k \<times> 'v) list \<Rightarrow> ('v \<times> ('k \<times> 'v) list) result" where
  "HashMapK_remove equals dflt key m =
     bind_result (deref key) (\<lambda>k.
       let m1 = um_index dflt equals k m;
           oldValue = (case um_find equals k m1 of Some v \<Rightarrow> v | None \<Rightarrow> dflt)
       in Inr (oldValue, um_erase equals k m1))"

definition HashMapK_size :: "('k \<times> 'v) list \<Rightarrow> nat" where
  "HashMapK_size m = length m"

definition HashMapK_values :: "('k \<times> 'v) list \<Rightarrow> 'v list result option" where
  "HashMapK_values m = for_each_next (\<lambda>(k, v) values. snd (ArrayList_add v values)) Iterator_new m []"

definition HashMapK_Entry_setValue :: "nat \<Rightarrow> 'v \<Rightarrow> ('k \<times> 'v) list \<Rightarrow> 'v \<times> ('k \<times> 'v) list" where
  "HashMapK_Entry_setValue pos value m = (snd (m ! pos), m[pos := (fst (m ! pos), value)])"

section \<open>HashMap with smart-pointer keys and values\<close>

definition HashMapKV_clear :: "('k \<times> 'v option) list \<Rightarrow> ('k \<times> 'v option) list" where
  "HashMapKV_clear m = []"

definition HashMapKV_containsKey :: "('k \<Rightarrow> 'k \<Rightarrow> bool) \<Rightarrow> 'k option \<Rightarrow> ('k \<times> 'v option) list \<Rightarrow> bool" where
  "HashMapKV_containsKey equals key m = (case key of None \<Rightarrow> False | Some k \<Rightarrow> um_find equals k m \<noteq> None)"

definition HashMapKV_containsValue ::
  "('v \<Rightarrow> 'v option \<Rightarrow> bool) \<Rightarrow> 'v option \<Rightarrow> ('k \<times> 'v option) list \<Rightarrow> bool result" where
  "HashMapKV_containsValue equals value m =
     (if value \<noteq> None then contains_loop (\<lambda>e. equals_null_unsafe equals value (snd e)) m else Inr False)"

definition HashMapKV_get ::
  "('k \<Rightarrow> 'k \<Rightarrow> bool) \<Rightarrow> 'k option \<Rightarrow> ('k \<times> 'v option) list \<Rightarrow> 'v option result" where
  "HashMapKV_get equals key m =
     bind_result (deref key) (\<lambda>k. Inr (case um_find equals k m of Some v \<Rightarrow> v | None \<Rightarrow> None))"

definition HashMapKV_isEmpty :: "('k \<times> 'v option) list \<Rightarrow> bool" where
  "HashMapKV_isEmpty m = (m = [])"

definition HashMapKV_keySet :: "('k \<Rightarrow> 'k \<Rightarrow> bool) \<Rightarrow> ('k \<times> 'v option) list \<Rightarrow> 'k list result option" where
  "HashMapKV_keySet equals m =
     map_option (\<lambda>r. bind_result r (\<lambda>s. s))
       (for_each_next (\<lambda>(k, v) r. bind_result r (\<lambda>s. map_sum (\<lambda>e. e) snd (HashSetSp_add equals (Some k) s)))
          Iterator_new m (Inr []))"

definition HashMapKV_put ::
  "('k \<Rightarrow> 'k \<Rightarrow> bool) \<Rightarrow> 'k option \<Rightarrow> 'v option \<Rightarrow> ('k \<times> 'v option) list \<Rightarrow>
     ('v option \<times> ('k \<times> 'v option) list) result" where
  "HashMapKV_put equals key value m =
     bind_result (deref key) (\<lambda>k.
       let oldValue = (case um_find equals k m of Some v \<Rightarrow> v | None \<Rightarrow> None)
       in Inr (oldValue, um_store equals k value (um_index None equals k m)))"

definition HashMapKV_putAll ::
  "('k \<Rightarrow> 'k \<Rightarrow> bool) \<Rightarrow> ('k \<times> 'v option) list option \<Rightarrow> ('k \<times> 'v option) list \<Rightarrow>
     ('k \<times> 'v option) list result option" where
  "HashMapKV_putAll equals other m =
     (case other of
        None \<Rightarrow> Some (Inl Undefined)
      | Some n \<Rightarrow>
          map_option (\<lambda>r. bind_result r (\<lambda>s. s))
            (for_each_next (\<lambda>(k, v) r. bind_result r (\<lambda>m. map_sum (\<lambda>e. e) snd (HashMapKV_put equals (Some k) v m)))
               Iterator_new n (Inr m)))"

definition HashMapKV_copy ::
  "('k \<Rightarrow> 'k \<Rightarrow> bool) \<Rightarrow> ('k \<times> 'v option) list option \<Rightarrow> ('k \<times> 'v option) list result option" where
  "HashMapKV_copy equals other = HashMapKV_putAll equals other []"

definition HashMapKV_remove ::
  "('k \<Rightarrow> 'k \<Rightarrow> bool) \<Rightarrow> 'k option \<Rightarrow> ('k \<times> 'v option) list \<Rightarrow> ('v option \<times> ('k \<times> 'v option) list) result" where
  "HashMapKV_remove equals key m =
     bind_result (deref key) (\<lambda>k.
       let oldValue = (case um_find equals k m of Some v \<Rightarrow> v | None \<Rightarrow> None)
       in Inr (oldValue, um_erase equals k m))"

definition HashMapKV_size :: "('k \<times> 'v option) list \<Rightarrow> nat" where
  "HashMapKV_size m = length m"

definition HashMapKV_values :: "('k \<times> 'v option) list \<Rightarrow> 'v option list result option" where
  "HashMapKV_values m = for_each_next (\<lambda>(k, v) values. snd (ArrayListSp_add v values)) Iterator_new m []"

definition HashMapKV_Entry_setValue :: "'v option \<Rightarrow> 'k \<times> 'v option \<Rightarrow> 'v option \<times> ('k \<times> 'v option)" where
  "HashMapKV_Entry_setValue value e = (snd e, (fst e, value))"

section \<open>Key equality\<close>

definition um_inv :: "('k \<Rightarrow> 'k \<Rightarrow> bool) \<Rightarrow> ('k \<times> 'v) list \<Rightarrow> bool" where
  "um_inv eq m = sorted_wrt (\<lambda>a b. \<not> eq (fst a) (fst b)) m"

definition us_inv :: "('a \<Rightarrow> 'a \<Rightarrow> bool) \<Rightarrow> 'a list \<Rightarrow> bool" where
  "us_inv eq s = sorted_wrt (\<lambda>a b. \<not> eq a b) s"

lemma um_find_simps [simp]:
  "um_find eq k [] = None"
  "um_find eq k (e # m) = (if eq k (fst e) then Some (snd e) else um_find eq k m)"
  by (auto simp: um_find_def)

lemma um_inv_simps [simp]:
  "um_inv eq []"
  "um_inv eq (e # m) \<longleftrightarrow> (\<forall>e' \<in> set m. \<not> eq (fst e) (fst e')) \<and> um_inv eq m"
  "um_inv eq (m @ [e]) \<longleftrightarrow> (\<forall>e' \<in> set m. \<not> eq (fst e') (fst e)) \<and> um_inv eq m"
  by (auto simp: um_inv_def sorted_wrt_append)

lemma um_find_None: "um_find eq k m = None \<longleftrightarrow> (\<forall>e \<in> set m. \<not> eq k (fst e))"
  by (induction m) auto

lemma um_find_append: "um_find eq k (m @ n) = (case um_find eq k m of None \<Rightarrow> um_find eq k n | Some v \<Rightarrow> Some v)"
  by (induction m) auto

lemma set_um_store: "fst ` set (um_store eq k v m) = fst ` set m"
  by (induction m) auto

lemma um_erase_subset: "e \<in> set (um_erase eq k m) \<Longrightarrow> e \<in> set m"
  by (induction m) (auto split: if_splits)

locale key_equality =
  fixes eq :: "'k \<Rightarrow> 'k \<Rightarrow> bool"
  assumes eq_refl [simp]: "eq k k"
    and eq_sym: "eq k l \<Longrightarrow> eq l k"
    and eq_trans: "eq k l \<Longrightarrow> eq l n \<Longrightarrow> eq k n"
begin

lemma um_find_cong: "eq k l \<Longrightarrow> um_find eq k m = um_find eq l m"
  by (induction m) (auto dest: eq_sym eq_trans)

lemma um_find_index:
  "um_find eq l (um_index dflt eq k m) =
     (if eq k l \<and> um_find eq k m = None then Some dflt else um_find eq l m)"
  using um_find_cong[of k l m]
  by (auto simp: um_index_def um_find_append split: option.splits dest: eq_sym)

lemma um_index_present: "um_find eq k m \<noteq> None \<Longrightarrow> um_index dflt eq k m = m"
  by (auto simp: um_index_def)

lemma um_index_inv: "um_inv eq m \<Longrightarrow> um_inv eq (um_index dflt eq k m)"
  by (auto simp: um_index_def um_find_None split: option.splits dest: eq_sym)

lemma um_find_store:
  "um_find eq k m \<noteq> None \<Longrightarrow> um_find eq l (um_store eq k v m) = (if eq k l then Some v else um_find eq l m)"
  by (induction m) (auto dest: eq_sym eq_trans)

lemma um_store_inv: "um_inv eq m \<Longrightarrow> um_inv eq (um_store eq k v m)"
proof (induction m)
  case (Cons e m)
  have "\<not> eq (fst e) (fst e')" if "e' \<in> set (um_store eq k v m)" for e'
  proof -
    have "fst e' \<in> fst ` set m" using that set_um_store[of eq k v m] by force
    then show ?thesis using Cons.prems by auto
  qed
  then show ?case using Cons by auto
qed simp

lemma um_erase_inv: "um_inv eq m \<Longrightarrow> um_inv eq (um_erase eq k m)"
  by (induction m) (auto dest: um_erase_subset)

lemma um_find_erase_same: "um_inv eq m \<Longrightarrow> um_find eq k (um_erase eq k m) = None"
proof (induction m)
  case (Cons e m)
  have "\<not> eq k (fst e')" if "eq k (fst e)" "e' \<in> set m" for e'
    using Cons.prems that eq_trans[OF eq_sym[OF that(1)], of "fst e'"] by auto
  then show ?case using Cons by (auto simp: um_find_None)
qed simp

lemma um_find_erase_other: "\<not> eq k l \<Longrightarrow> um_find eq l (um_erase eq k m) = um_find eq l m"
proof (induction m)
  case (Cons e m)
  have "\<not> (eq k (fst e) \<and> eq l (fst e))"
    using Cons.prems eq_trans[of k "fst e" l] eq_sym[of l "fst e"] by blast
  then show ?case using Cons by auto
qed simp

lemma um_find_erase:
  "um_inv eq m \<Longrightarrow> um_find eq l (um_erase eq k m) = (if eq k l then None else um_find eq l m)"
  using um_find_cong[of k l "um_erase eq k m"] um_find_erase_same[of m k] um_find_erase_other[of k l m]
  by auto

lemma um_assign_find:
  "um_find eq l (um_store eq k v (um_index dflt eq k m)) = (if eq k l then Some v else um_find eq l m)"
  by (subst um_find_store) (auto simp: um_find_index)

lemma um_assign_inv: "um_inv eq m \<Longrightarrow> um_inv eq (um_store eq k v (um_index dflt eq k m))"
  by (intro um_store_inv um_index_inv)

lemma um_index_twice: "um_index dflt eq k (um_index dflt' eq k m) = um_index dflt' eq k m"
  by (rule um_index_present) (simp add: um_find_index)

end

section \<open>The contract of a map\<close>

definition put_all_with :: "('k \<Rightarrow> 'v \<Rightarrow> 'm \<Rightarrow> ('v \<times> 'm) result) \<Rightarrow> ('k \<times> 'v) list \<Rightarrow> 'm \<Rightarrow> 'm result" where
  "put_all_with put n m = fold (\<lambda>(k, v) r. bind_result r (\<lambda>m. map_sum (\<lambda>e. e) snd (put k v m))) n (Inr m)"

definition or_default :: "'v \<Rightarrow> 'v option \<Rightarrow> 'v" where
  "or_default dflt v = (case v of None \<Rightarrow> dflt | Some w \<Rightarrow> w)"

locale dictionary = key_equality eq for eq :: "'k \<Rightarrow> 'k \<Rightarrow> bool" +
  fixes inv :: "'m \<Rightarrow> bool"
    and lookup :: "'k \<Rightarrow> 'm \<Rightarrow> 'v option"
    and dflt :: 'v
    and put :: "'k \<Rightarrow> 'v \<Rightarrow> 'm \<Rightarrow> ('v \<times> 'm) result"
    and remove :: "'k \<Rightarrow> 'm \<Rightarrow> ('v \<times> 'm) result"
  assumes put_spec: "inv m \<Longrightarrow> \<exists>m'. put k v m = Inr (or_default dflt (lookup k m), m') \<and> inv m' \<and>
      (\<forall>l. lookup l m' = (if eq k l then Some v else lookup l m))"
    and remove_spec: "inv m \<Longrightarrow> \<exists>m'. remove k m = Inr (or_default dflt (lookup k m), m') \<and> inv m' \<and>
      (\<forall>l. lookup l m' = (if eq k l then None else lookup l m))"
begin

lemma put_put_remove:
  assumes "inv m"
  shows "\<exists>m1 m2 m3. put k v m = Inr (or_default dflt (lookup k m), m1) \<and> put k w m1 = Inr (v, m2) \<and>
    remove k m2 = Inr (w, m3) \<and> lookup k m1 = Some v \<and> lookup k m2 = Some w \<and> lookup k m3 = None \<and>
    (\<forall>l. \<not> eq k l \<longrightarrow> lookup l m1 = lookup l m \<and> lookup l m2 = lookup l m \<and> lookup l m3 = lookup l m) \<and>
    inv m1 \<and> inv m2 \<and> inv m3"
proof -
  obtain m1 where 1: "put k v m = Inr (or_default dflt (lookup k m), m1)" "inv m1"
    "\<And>l. lookup l m1 = (if eq k l then Some v else lookup l m)"
    using put_spec[OF assms] by blast
  obtain m2 where 2: "put k w m1 = Inr (or_default dflt (lookup k m1), m2)" "inv m2"
    "\<And>l. lookup l m2 = (if eq k l then Some w else lookup l m1)"
    using put_spec[OF 1(2)] by blast
  obtain m3 where 3: "remove k m2 = Inr (or_default dflt (lookup k m2), m3)" "inv m3"
    "\<And>l. lookup l m3 = (if eq k l then None else lookup l m2)"
    using remove_spec[OF 2(2)] by blast
  from 1 2 3 show ?thesis by (auto simp: or_default_def)
qed

lemma put_all_overrides:
  assumes "inv m" and "um_inv eq n"
  shows "\<exists>m'. put_all_with put n m = Inr m' \<and> inv m' \<and>
    (\<forall>l. lookup l m' = (case um_find eq l n of Some v \<Rightarrow> Some v | None \<Rightarrow> lookup l m))"
  using assms
proof (induction n arbitrary: m)
  case (Cons e n)
  obtain k v where e: "e = (k, v)" by fastforce
  obtain m1 where 1: "put k v m = Inr (or_default dflt (lookup k m), m1)" "inv m1"
    "\<And>l. lookup l m1 = (if eq k l then Some v else lookup l m)"
    using put_spec[OF Cons.prems(1)] by blast
  have "um_find eq l n = None" if "eq k l" for l
    using Cons.prems(2) that eq_trans by (fastforce simp: um_find_None e)
  moreover have "eq l k \<longleftrightarrow> eq k l" for l
    by (blast intro: eq_sym)
  moreover obtain m2 where 2: "put_all_with put n m1 = Inr m2" "inv m2"
    "\<And>l. lookup l m2 = (case um_find eq l n of Some v \<Rightarrow> Some v | None \<Rightarrow> lookup l m1)"
    using Cons.IH[OF 1(2)] Cons.prems(2) by auto
  moreover have "put_all_with put (e # n) m = put_all_with put n m1"
    using 1(1) by (simp add: put_all_with_def e)
  ultimately show ?case
    using 1(3) by (auto simp: e split: option.split)
qed (simp add: put_all_with_def)

end

lemmas hash_map_defs =
  HashMap_put_def HashMap_remove_def HashMapV_put_def HashMapV_remove_def
  HashMapK_put_def HashMapK_remove_def HashMapKV_put_def HashMapKV_remove_def or_default_def

sublocale key_equality \<subseteq> sp_keys: dictionary eq "um_inv eq" "um_find eq" dflt
  "\<lambda>k. HashMapK_put eq dflt (Some k)" "\<lambda>k. HashMapK_remove eq dflt (Some k)" for dflt
  by unfold_locales
    (auto simp: hash_map_defs Let_def um_index_twice um_find_index um_assign_find um_assign_inv um_erase_inv
      um_index_inv um_find_erase split: option.splits)

sublocale key_equality \<subseteq> sp_keys_values: dictionary eq "um_inv eq" "um_find eq" None
  "\<lambda>k. HashMapKV_put eq (Some k)" "\<lambda>k. HashMapKV_remove eq (Some k)"
  by unfold_locales
    (auto simp: hash_map_defs Let_def um_assign_find um_assign_inv um_erase_inv um_find_erase split: option.splits)

context key_equality
begin

lemma sp_map_put_put_remove:
  assumes "um_inv eq m"
  shows "\<exists>m1 m2 m3. HashMapKV_put eq (Some k) v m = Inr (or_default None (um_find eq k m), m1) \<and>
    HashMapKV_put eq (Some k) w m1 = Inr (v, m2) \<and> HashMapKV_remove eq (Some k) m2 = Inr (w, m3) \<and>
    um_find eq k m1 = Some v \<and> um_find eq k m2 = Some w \<and> um_find eq k m3 = None \<and>
    (\<forall>l. \<not> eq k l \<longrightarrow> um_find eq l m1 = um_find eq l m \<and> um_find eq l m2 = um_find eq l m \<and>
       um_find eq l m3 = um_find eq l m) \<and> um_inv eq m1 \<and> um_inv eq m2 \<and> um_inv eq m3"
  by (rule sp_keys_values.put_put_remove[OF assms])

end

interpretation plain_key: key_equality "(=)"
  by unfold_locales auto

interpretation plain_map: dictionary "(=)" "um_inv (=)" "um_find (=)" dflt
  "\<lambda>k v m. Inr (HashMap_put dflt k v m)" "\<lambda>k m. Inr (HashMap_remove dflt k m)" for dflt
  by unfold_locales
    (auto simp: hash_map_defs Let_def plain_key.um_index_twice plain_key.um_find_index plain_key.um_assign_find
      plain_key.um_assign_inv plain_key.um_erase_inv plain_key.um_index_inv plain_key.um_find_erase split: option.splits)

interpretation plain_map_sp: dictionary "(=)" "um_inv (=)" "um_find (=)" None
  "\<lambda>k v m. Inr (HashMapV_put k v m)" "\<lambda>k m. Inr (HashMapV_remove k m)"
  by unfold_locales
    (auto simp: hash_map_defs Let_def plain_key.um_assign_find plain_key.um_assign_inv plain_key.um_erase_inv
      plain_key.um_find_erase split: option.splits)

section \<open>Whole-container operations\<close>

lemma for_each_new: "for_each_next f Iterator_new xs s = Some (Inr (fold f xs s))"
  by (rule for_each_next_from[OF list_iter.at_start])

lemma fold_insert_keys:
  "um_inv eq m \<Longrightarrow> (\<And>e y. e \<in> set m \<Longrightarrow> y \<in> set acc \<Longrightarrow> \<not> eq (fst e) y) \<Longrightarrow> (\<And>k l. eq k l \<Longrightarrow> eq l k) \<Longrightarrow>
     fold (\<lambda>(k, v) s. snd (us_insert eq k s)) m acc = acc @ map fst m"
proof (induction m arbitrary: acc)
  case (Cons e m)
  have "snd (us_insert eq (fst e) acc) = acc @ [fst e]"
    using Cons.prems(2)[of e] by (auto simp: us_insert_def)
  moreover have "fold (\<lambda>(k, v) s. snd (us_insert eq k s)) m (acc @ [fst e]) = (acc @ [fst e]) @ map fst m"
    using Cons.prems by (intro Cons.IH) auto
  ultimately show ?case by (simp add: case_prod_unfold)
qed simp

lemma fold_add_values: "fold (\<lambda>(k, v) vs. vs @ [v]) m acc = acc @ map snd m"
  by (induction m arbitrary: acc) auto

lemma fold_result:
  "(\<And>x s. f x s = Inr (g x s)) \<Longrightarrow> fold (\<lambda>x r. bind_result r (f x)) xs (Inr s) = Inr (fold g xs s)"
  by (induction xs arbitrary: s) auto

lemma HashMap_putAll_alt:
  "HashMap_putAll dflt (Some n) m = Some (put_all_with (\<lambda>k v m. Inr (HashMap_put dflt k v m)) n m)"
proof -
  have "put_all_with (\<lambda>k v m. Inr (HashMap_put dflt k v m)) n m =
      Inr (fold (\<lambda>(k, v) m. snd (HashMap_put dflt k v m)) n m)"
    unfolding put_all_with_def case_prod_unfold by (rule fold_result) simp
  then show ?thesis by (simp add: HashMap_putAll_def for_each_new)
qed

lemma us_insert_inv: "us_inv eq s \<Longrightarrow> (\<And>k l. eq k l \<Longrightarrow> eq l k) \<Longrightarrow> us_inv eq (snd (us_insert eq x s))"
  by (auto simp: us_inv_def us_insert_def sorted_wrt_append)

lemma us_erase_plain: "us_erase (=) x s = (if x \<in> set s then 1 else 0, remove1 x s)"
  by (induction s) auto

lemma us_inv_plain: "us_inv (=) s \<longleftrightarrow> distinct s"
  by (induction s) (auto simp: us_inv_def)

lemma HashMap_get_alt:
  "HashMap_get dflt k m =
     (or_default dflt (um_find (=) k m), if um_find (=) k m = None then m @ [(k, dflt)] else m)"
  by (auto simp: HashMap_get_def or_default_def um_index_def um_find_append split: option.splits)

section \<open>Properties\<close>



text \<open>
  \<open>HashMap<sp<K>, sp<V>>\<close> with an \<open>equals\<close> that is an equivalence: the same laws hold up to equal keys,
  and \<open>get\<close> of an absent key is null and changes nothing. A null key is undefined for \<open>get\<close>, \<open>put\<close> and \<open>remove\<close>, and
  \<open>containsKey\<close> says false for it.
\<close>

theorem HashMapKV_put_put_remove:
  assumes "\<And>k. eq k k" and "\<And>k l. eq k l \<Longrightarrow> eq l k" and "\<And>k l n. eq k l \<Longrightarrow> eq l n \<Longrightarrow> eq k n" and "um_inv eq m"
  shows "(\<exists>old m1 m2 m3. HashMapKV_get eq (Some k) m = Inr old \<and> HashMapKV_put eq (Some k) v m = Inr (old, m1) \<and>
      HashMapKV_put eq (Some k) w m1 = Inr (v, m2) \<and> HashMapKV_remove eq (Some k) m2 = Inr (w, m3) \<and>
      um_inv eq m1 \<and> um_inv eq m2 \<and> um_inv eq m3 \<and>
      (\<forall>l. if eq k l
         then HashMapKV_get eq (Some l) m1 = Inr v \<and> HashMapKV_get eq (Some l) m2 = Inr w \<and>
           \<not> HashMapKV_containsKey eq (Some l) m3
         else HashMapKV_get eq (Some l) m3 = HashMapKV_get eq (Some l) m \<and>
           HashMapKV_containsKey eq (Some l) m3 = HashMapKV_containsKey eq (Some l) m)) \<and>
    HashMapKV_get eq None m = Inl Undefined \<and> HashMapKV_put eq None v m = Inl Undefined \<and>
    HashMapKV_remove eq None m = Inl Undefined \<and> \<not> HashMapKV_containsKey eq None m"
proof -
  have ke: "key_equality eq" using assms(1-3) by unfold_locales blast+
  obtain m1 m2 m3 where p: "HashMapKV_put eq (Some k) v m = Inr (or_default None (um_find eq k m), m1)"
    "HashMapKV_put eq (Some k) w m1 = Inr (v, m2)" "HashMapKV_remove eq (Some k) m2 = Inr (w, m3)"
    "um_find eq k m1 = Some v" "um_find eq k m2 = Some w" "um_find eq k m3 = None"
    "\<forall>l. \<not> eq k l \<longrightarrow> um_find eq l m1 = um_find eq l m \<and> um_find eq l m2 = um_find eq l m \<and> um_find eq l m3 = um_find eq l m"
    "um_inv eq m1" "um_inv eq m2" "um_inv eq m3"
    using key_equality.sp_map_put_put_remove[OF ke assms(4), of k v w] by blast
  have "um_find eq l n = um_find eq k n" if "eq k l" for l and n :: "('a \<times> 'b option) list"
    using key_equality.um_find_cong[OF ke that, of n] by simp
  with p show ?thesis
    by (intro conjI exI[of _ "or_default None (um_find eq k m)"] exI[of _ m1] exI[of _ m2] exI[of _ m3])
      (auto simp: HashMapKV_get_def HashMapKV_containsKey_def or_default_def HashMapKV_put_def HashMapKV_remove_def)
qed

theorem HashMapKV_put_put_remove_witness:
  "\<exists>m1 m2. HashMapKV_put (\<lambda>a b. a mod 10 = b mod 10) (Some (13::nat)) (Some True) [(4, None)] = Inr (None, m1) \<and>
     HashMapKV_put (\<lambda>a b. a mod 10 = b mod 10) (Some 13) None m1 = Inr (Some True, m2)"
  using HashMapKV_put_put_remove[of "\<lambda>a b. a mod 10 = b mod 10" "[(4 :: nat, None :: bool option)]" 13 "Some True" None]
  by (fastforce simp: HashMapKV_get_def)

text \<open>
  \<open>HashMap<K, V>::get\<close> is not a pure read: for an absent key it returns the default value and also
  inserts it, so that the map grows by one and \<open>containsKey\<close> and \<open>keySet\<close> report the key from then on; for a
  present key the map is unchanged. The template for smart-pointer keys does the same.
\<close>

theorem HashMap_get_inserts_default:
  assumes "\<not> HashMap_containsKey k m"
  shows "\<exists>m'. HashMap_get dflt k m = (dflt, m') \<and> HashMap_containsKey k m' \<and> HashMap_size m' = HashMap_size m + 1 \<and>
    HashMapK_get (=) dflt (Some k) m = Inr (dflt, m') \<and> HashMap_get dflt k m' = (dflt, m') \<and>
    (um_inv (=) m \<longrightarrow> HashMap_keySet m = Some (Inr (map fst m)) \<and> HashMap_keySet m' = Some (Inr (map fst m @ [k])))"
proof -
  let ?m' = "m @ [(k, dflt)]"
  have absent: "um_find (=) k m = None"
    using assms by (simp add: HashMap_containsKey_def)
  have "um_find (=) k ?m' = Some dflt" "um_index dflt (=) k m = ?m'"
    using absent by (simp_all add: um_find_append um_index_def)
  moreover have "HashMap_keySet m = Some (Inr (map fst m)) \<and> HashMap_keySet ?m' = Some (Inr (map fst m @ [k]))"
    if "um_inv (=) m"
    using that absent fold_insert_keys[of "(=)" m "[]"] fold_insert_keys[of "(=)" ?m' "[]"]
    by (auto simp: HashMap_keySet_def for_each_new HashSet_add_def um_find_None)
  ultimately show ?thesis
    using absent
    by (intro exI[of _ ?m']) (simp add: HashMap_get_alt HashMapK_get_def HashMap_containsKey_def HashMap_size_def or_default_def)
qed

theorem HashMap_get_inserts_default_witness:
  "\<exists>m'. HashMap_get 0 (2::nat) [(1, 7::nat)] = (0, m') \<and> HashMap_containsKey 2 m' \<and> \<not> HashMap_containsKey (2::nat) [(1, 7::nat)]"
  using HashMap_get_inserts_default[of 2 "[(1 :: nat, 7 :: nat)]" 0] by (auto simp: HashMap_containsKey_def)

text \<open>
  \<open>putAll\<close> ends and overrides: afterwards a key has the value of the other map if it occurs there, and its
  old value otherwise; from null it is undefined. The copying constructor copies the mapping, and \<open>keySet\<close> and
  \<open>values\<close> are the keys and the values of the entries, each once, in the order of the iterator.
\<close>

theorem HashMap_bulk_operations:
  assumes "um_inv (=) m" and "um_inv (=) n"
  shows "(\<exists>m'. HashMap_putAll dflt (Some n) m = Some (Inr m') \<and> um_inv (=) m' \<and>
      (\<forall>k. um_find (=) k m' = (case um_find (=) k n of Some v \<Rightarrow> Some v | None \<Rightarrow> um_find (=) k m))) \<and>
    (\<exists>n'. HashMap_copy dflt (Some n) = Some (Inr n') \<and> (\<forall>k. um_find (=) k n' = um_find (=) k n)) \<and>
    HashMap_putAll dflt None m = Some (Inl Undefined) \<and>
    HashMap_keySet m = Some (Inr (map fst m)) \<and> distinct (map fst m) \<and> HashMap_values m = Some (Inr (map snd m))"
proof -
  have "um_inv (=) ([] :: ('a \<times> 'b) list)" by simp
  note copy = plain_map.put_all_overrides[OF this assms(2), of dflt]
  have "distinct (map fst m)"
    using assms(1) by (induction m) auto
  then show ?thesis
    using plain_map.put_all_overrides[OF assms, of dflt] copy fold_insert_keys[OF assms(1), of "[]"]
    by (auto simp: HashMap_putAll_alt HashMap_copy_def HashMap_keySet_def HashMap_values_def for_each_new
        HashSet_add_def ArrayList_add_def fold_add_values split: option.splits)
      (simp add: HashMap_putAll_def)
qed

theorem HashMap_bulk_operations_witness:
  "\<exists>m'. HashMap_putAll 0 (Some [(1::nat, 9::nat)]) [(1, 5), (2, 6)] = Some (Inr m') \<and>
     um_find (=) 1 m' = Some 9 \<and> um_find (=) 2 m' = Some 6"
proof -
  have "um_inv (=) [(1::nat, 5::nat), (2, 6)]" "um_inv (=) [(1::nat, 9::nat)]" by simp_all
  from HashMap_bulk_operations[OF this, of 0] show ?thesis by auto
qed

text \<open>
  \<open>HashSet\<close>: \<open>add\<close> says whether the element is new, and an element is stored at most once; after \<open>add\<close> and
  \<open>remove\<close> exactly the element's membership has changed, \<open>remove\<close> says whether it was there, and \<open>addAll\<close> gives
  the union. A null smart pointer is undefined for \<open>add\<close>, \<open>contains\<close> and \<open>remove\<close>.
\<close>

theorem HashSet_is_a_set:
  assumes "distinct s"
  shows "(\<exists>s1 s2. HashSet_add x s = (\<not> HashSet_contains x s, s1) \<and> distinct s1 \<and> set s1 = insert x (set s) \<and>
      HashSet_remove x s = (HashSet_contains x s, s2) \<and> distinct s2 \<and> set s2 = set s - {x} \<and>
      HashSet_size s1 = card (set s1) \<and> HashSet_size s2 = card (set s2)) \<and>
    (\<exists>s3. HashSet_addAll (Some ys) s = Some (Inr (True, s3)) \<and> distinct s3 \<and> set s3 = set s \<union> set ys) \<and>
    HashSetSp_add eq None t = Inl Undefined \<and> HashSetSp_contains eq None t = Inl Undefined \<and>
    HashSetSp_remove eq None t = Inl Undefined"
proof -
  have "distinct (fold (\<lambda>x s. snd (HashSet_add x s)) ys s) \<and> set (fold (\<lambda>x s. snd (HashSet_add x s)) ys s) = set s \<union> set ys"
    using assms by (induction ys arbitrary: s) (auto simp: HashSet_add_def us_insert_def)
  then show ?thesis
    using assms
    by (auto simp: HashSet_addAll_def HashSet_add_def us_insert_def HashSet_contains_def HashSet_remove_def us_erase_plain
        HashSet_size_def distinct_card HashSetSp_add_def HashSetSp_contains_def HashSetSp_remove_def
        length_remove1)
qed

theorem HashSet_is_a_set_witness:
  "\<exists>s1. HashSet_add (3::nat) [1, 2] = (True, s1) \<and> set s1 = {1, 2, 3}"
proof -
  have "distinct [1, 2 :: nat]" by simp
  from HashSet_is_a_set[OF this, of 3 "[]" "(=)" "[] :: nat list"] show ?thesis
    by (auto simp: HashSet_contains_def insert_commute)
qed

end
