(* ===== verification/Bundles.thy ===== *)
theory Bundles
  imports Variants Hash_Tables
begin

text \<open>
  The class \<open>Bundle\<close> of \<open>src/mindroid/os/Bundle.h\<close> and \<open>Bundle.cpp\<close>: a map from strings to variants, with one
  operation per type of value.

  \<open>mMap\<close> is a pointer to a \<open>HashMap<sp<String>, sp<Variant>>\<close>; a bundle is this pointer (null after \<open>clear\<close>)
  with the map behind it, which no one else refers to. Keys are compared with \<open>String::equals\<close>. The overloads
  that take a \<open>const char*\<close> convert it with \<open>String::valueOf\<close>. A null bundle, a null map and a null
  key are dereferenced, which is \<open>Undefined\<close>.
\<close>

definition string_keys :: "str \<Rightarrow> str \<Rightarrow> bool" where
  "string_keys a b = (String_equals False a (Some b) = Inr True)"

interpretation string_key: key_equality string_keys
proof
  fix k l n :: str
  note d = string_keys_def String_equals_def String_equals_string_def strcmp_eq_def
  show "string_keys k k" by (cases k) (simp_all add: d)
  show "string_keys k l \<Longrightarrow> string_keys l k" by (cases k; cases l) (auto simp: d)
  show "string_keys k l \<Longrightarrow> string_keys l n \<Longrightarrow> string_keys k n" by (cases k; cases l; cases n) (auto simp: d)
qed

type_synonym variant_map = "(str \<times> variant option) list"
type_synonym bundle_state = "variant_map option"

section \<open>The map\<close>

definition Bundle_new :: bundle_state where
  "Bundle_new = Some []"

definition Bundle_putAll :: "bundle_state option \<Rightarrow> bundle_state \<Rightarrow> bundle_state result option" where
  "Bundle_putAll other b =
     (case b of
        None \<Rightarrow> Some (Inl Undefined)
      | Some m \<Rightarrow>
          case other of
            None \<Rightarrow> Some (Inl Undefined)
          | Some n \<Rightarrow> map_option (\<lambda>r. bind_result r (\<lambda>m'. Inr (Some m'))) (HashMapKV_putAll string_keys n m))"

definition Bundle_copy :: "bundle_state option \<Rightarrow> bundle_state result option" where
  "Bundle_copy other = Bundle_putAll other Bundle_new"

definition Bundle_clear :: "bundle_state \<Rightarrow> bundle_state" where
  "Bundle_clear b = None"

definition Bundle_size :: "bundle_state \<Rightarrow> nat result" where
  "Bundle_size b = bind_result (deref b) (\<lambda>m. Inr (HashMapKV_size m))"

definition Bundle_isEmpty :: "bundle_state \<Rightarrow> bool result" where
  "Bundle_isEmpty b = bind_result (deref b) (\<lambda>m. Inr (HashMapKV_isEmpty m))"

definition Bundle_keySet :: "bundle_state \<Rightarrow> str list option result option" where
  "Bundle_keySet b =
     (case b of
        None \<Rightarrow> Some (Inl Undefined)
      | Some m \<Rightarrow>
          if HashMapKV_isEmpty m then Some (Inr None)
          else map_option (\<lambda>r. bind_result (bind_result r (\<lambda>s. s)) (\<lambda>keys. Inr (Some keys)))
            (for_each_next (\<lambda>(k, v) r. bind_result r (\<lambda>s. map_sum (\<lambda>e. e) snd (HashSetSp_add string_keys (Some k) s)))
               Iterator_new m (Inr [])))"

definition Bundle_containsKey :: "str option \<Rightarrow> bundle_state \<Rightarrow> bool result" where
  "Bundle_containsKey key b = bind_result (deref b) (\<lambda>m. Inr (HashMapKV_containsKey string_keys key m))"

definition Bundle_get :: "str option \<Rightarrow> bundle_state \<Rightarrow> variant option result" where
  "Bundle_get key b = bind_result (deref b) (\<lambda>m. HashMapKV_get string_keys key m)"

definition Bundle_remove :: "str option \<Rightarrow> bundle_state \<Rightarrow> bundle_state result" where
  "Bundle_remove key b =
     bind_result (deref b) (\<lambda>m. bind_result (HashMapKV_remove string_keys key m) (\<lambda>(old, m'). Inr (Some m')))"

section \<open>Storing values\<close>

text \<open>The common body of the operations: \<open>mMap->put(key, new Variant(value))\<close>.\<close>

definition Bundle_put :: "str option \<Rightarrow> variant \<Rightarrow> bundle_state \<Rightarrow> bundle_state result" where
  "Bundle_put key v b =
     bind_result (deref b) (\<lambda>m. bind_result (HashMapKV_put string_keys key (Some v) m) (\<lambda>(old, m'). Inr (Some m')))"

definition Bundle_putBinder :: "str option \<Rightarrow> binder_ptr \<Rightarrow> bundle_state \<Rightarrow> bundle_state result" where
  "Bundle_putBinder key value b = Bundle_put key (Variant_of_binder value) b"

definition Bundle_putBoolean :: "str option \<Rightarrow> bool \<Rightarrow> bundle_state \<Rightarrow> bundle_state result" where
  "Bundle_putBoolean key value b = Bundle_put key (Variant_of_bool value) b"

definition Bundle_putBundle :: "str option \<Rightarrow> object_ptr \<Rightarrow> bundle_state \<Rightarrow> bundle_state result" where
  "Bundle_putBundle key value b = Bundle_put key (Variant_of_object value) b"

definition Bundle_putByte :: "str option \<Rightarrow> uint8 \<Rightarrow> bundle_state \<Rightarrow> bundle_state result" where
  "Bundle_putByte key value b = Bundle_put key (Variant_of_byte value) b"

definition Bundle_putChar :: "str option \<Rightarrow> uint8 \<Rightarrow> bundle_state \<Rightarrow> bundle_state result" where
  "Bundle_putChar key value b = Bundle_put key (Variant_of_char value) b"

definition Bundle_putDouble :: "str option \<Rightarrow> uint64 \<Rightarrow> bundle_state \<Rightarrow> bundle_state result" where
  "Bundle_putDouble key value b = Bundle_put key (Variant_of_double value) b"

definition Bundle_putFloat :: "str option \<Rightarrow> uint32 \<Rightarrow> bundle_state \<Rightarrow> bundle_state result" where
  "Bundle_putFloat key value b = Bundle_put key (Variant_of_float value) b"

definition Bundle_putInt :: "str option \<Rightarrow> int32 \<Rightarrow> bundle_state \<Rightarrow> bundle_state result" where
  "Bundle_putInt key value b = Bundle_put key (Variant_of_int value) b"

definition Bundle_putUnsignedInt :: "str option \<Rightarrow> uint32 \<Rightarrow> bundle_state \<Rightarrow> bundle_state result" where
  "Bundle_putUnsignedInt key value b = Bundle_put key (Variant_of_unsigned_int value) b"

definition Bundle_putIntegerArrayList :: "str option \<Rightarrow> object_ptr \<Rightarrow> bundle_state \<Rightarrow> bundle_state result" where
  "Bundle_putIntegerArrayList key value b = Bundle_put key (Variant_of_integer_list value) b"

definition Bundle_putLong :: "str option \<Rightarrow> int64 \<Rightarrow> bundle_state \<Rightarrow> bundle_state result" where
  "Bundle_putLong key value b = Bundle_put key (Variant_of_long value) b"

definition Bundle_putUnsignedLong :: "str option \<Rightarrow> uint64 \<Rightarrow> bundle_state \<Rightarrow> bundle_state result" where
  "Bundle_putUnsignedLong key value b = Bundle_put key (Variant_of_unsigned_long value) b"

definition Bundle_putObject :: "str option \<Rightarrow> object_ptr \<Rightarrow> bundle_state \<Rightarrow> bundle_state result" where
  "Bundle_putObject key value b = Bundle_put key (Variant_of_object value) b"

definition Bundle_putShort :: "str option \<Rightarrow> int16 \<Rightarrow> bundle_state \<Rightarrow> bundle_state result" where
  "Bundle_putShort key value b = Bundle_put key (Variant_of_short value) b"

definition Bundle_putUnsignedShort :: "str option \<Rightarrow> 16 word \<Rightarrow> bundle_state \<Rightarrow> bundle_state result" where
  "Bundle_putUnsignedShort key value b = Bundle_put key (Variant_of_unsigned_short value) b"

definition Bundle_putString :: "str option \<Rightarrow> object_ptr \<Rightarrow> bundle_state \<Rightarrow> bundle_state result" where
  "Bundle_putString key value b = Bundle_put key (Variant_of_string value) b"

definition Bundle_putStringArrayList :: "str option \<Rightarrow> object_ptr \<Rightarrow> bundle_state \<Rightarrow> bundle_state result" where
  "Bundle_putStringArrayList key value b = Bundle_put key (Variant_of_string_list value) b"

section \<open>Reading values\<close>

text \<open>The common body of the operations: the value if the variant has the type, and else the default.\<close>

definition typed_get :: "(variant \<Rightarrow> bool) \<Rightarrow> (variant \<Rightarrow> 'a result) \<Rightarrow> 'a \<Rightarrow> str option \<Rightarrow> bundle_state \<Rightarrow> 'a result" where
  "typed_get is_type get defaultValue key b =
     bind_result (Bundle_get key b) (\<lambda>value.
       case value of
         Some v \<Rightarrow> if is_type v then get v else Inr defaultValue
       | None \<Rightarrow> Inr defaultValue)"

definition Bundle_getBoolean :: "str option \<Rightarrow> bool \<Rightarrow> bundle_state \<Rightarrow> bool result" where
  "Bundle_getBoolean key defaultValue b = typed_get Variant_isBool Variant_getBool defaultValue key b"

definition Bundle_getByte :: "str option \<Rightarrow> uint8 \<Rightarrow> bundle_state \<Rightarrow> uint8 result" where
  "Bundle_getByte key defaultValue b = typed_get Variant_isByte Variant_getByte defaultValue key b"

definition Bundle_getChar :: "str option \<Rightarrow> uint8 \<Rightarrow> bundle_state \<Rightarrow> uint8 result" where
  "Bundle_getChar key defaultValue b = typed_get Variant_isChar Variant_getChar defaultValue key b"

definition Bundle_getDouble :: "str option \<Rightarrow> uint64 \<Rightarrow> bundle_state \<Rightarrow> uint64 result" where
  "Bundle_getDouble key defaultValue b = typed_get Variant_isDouble Variant_getDouble defaultValue key b"

definition Bundle_getFloat :: "str option \<Rightarrow> uint32 \<Rightarrow> bundle_state \<Rightarrow> uint32 result" where
  "Bundle_getFloat key defaultValue b = typed_get Variant_isFloat Variant_getFloat defaultValue key b"

definition Bundle_getInt :: "str option \<Rightarrow> int32 \<Rightarrow> bundle_state \<Rightarrow> int32 result" where
  "Bundle_getInt key defaultValue b = typed_get Variant_isInt Variant_getInt defaultValue key b"

definition Bundle_getUnsignedInt :: "str option \<Rightarrow> uint32 \<Rightarrow> bundle_state \<Rightarrow> uint32 result" where
  "Bundle_getUnsignedInt key defaultValue b = typed_get Variant_isUnsignedInt Variant_getUnsignedInt defaultValue key b"

definition Bundle_getLong :: "str option \<Rightarrow> int64 \<Rightarrow> bundle_state \<Rightarrow> int64 result" where
  "Bundle_getLong key defaultValue b = typed_get Variant_isLong Variant_getLong defaultValue key b"

definition Bundle_getUnsignedLong :: "str option \<Rightarrow> uint64 \<Rightarrow> bundle_state \<Rightarrow> uint64 result" where
  "Bundle_getUnsignedLong key defaultValue b = typed_get Variant_isUnsignedLong Variant_getUnsignedLong defaultValue key b"

definition Bundle_getShort :: "str option \<Rightarrow> int16 \<Rightarrow> bundle_state \<Rightarrow> int16 result" where
  "Bundle_getShort key defaultValue b = typed_get Variant_isShort Variant_getShort defaultValue key b"

definition Bundle_getUnsignedShort :: "str option \<Rightarrow> 16 word \<Rightarrow> bundle_state \<Rightarrow> (16 word) result" where
  "Bundle_getUnsignedShort key defaultValue b = typed_get Variant_isUnsignedShort Variant_getUnsignedShort defaultValue key b"

definition Bundle_getIntegerArrayList :: "str option \<Rightarrow> bundle_state \<Rightarrow> object_ptr result" where
  "Bundle_getIntegerArrayList key b = typed_get Variant_isIntegerArrayList Variant_getIntegerArrayList None key b"

definition Bundle_getObject :: "str option \<Rightarrow> bundle_state \<Rightarrow> object_ptr result" where
  "Bundle_getObject key b = typed_get Variant_isObject Variant_getObject None key b"

definition Bundle_getString :: "str option \<Rightarrow> bundle_state \<Rightarrow> object_ptr result" where
  "Bundle_getString key b = typed_get Variant_isString Variant_getString None key b"

definition Bundle_getStringArrayList :: "str option \<Rightarrow> bundle_state \<Rightarrow> object_ptr result" where
  "Bundle_getStringArrayList key b = typed_get Variant_isStringArrayList Variant_getStringArrayList None key b"

definition Bundle_getBinder :: "str option \<Rightarrow> bundle_state \<Rightarrow> binder_ptr result" where
  "Bundle_getBinder key b = typed_get Variant_isBinder Variant_getBinder None key b"

definition Bundle_getString_or :: "str option \<Rightarrow> object_ptr \<Rightarrow> bundle_state \<Rightarrow> object_ptr result" where
  "Bundle_getString_or key defaultValue b = typed_get Variant_isString Variant_getString defaultValue key b"

text \<open>A bundle is stored as an \<open>Object\<close>, and \<open>object_cast\<close> is a \<open>static_cast\<close>.\<close>

definition Bundle_getBundle :: "str option \<Rightarrow> bundle_state \<Rightarrow> object_ptr result" where
  "Bundle_getBundle key b =
     typed_get Variant_isObject (\<lambda>v. bind_result (Variant_getObject v) (static_cast Bundle_class)) None key b"

text \<open>This overload does not use its default value.\<close>

definition Bundle_getObject_or :: "str option \<Rightarrow> object_ptr \<Rightarrow> bundle_state \<Rightarrow> object_ptr result" where
  "Bundle_getObject_or key defaultValue b = typed_get Variant_isObject Variant_getObject None key b"

section \<open>retainBasicTypes\<close>

text \<open>
  \<open>object_cast<Bundle, Object>(value)\<close> casts the \<open>Variant\<close> itself to a \<open>Bundle\<close>, which it is not.
\<close>

partial_function (option) retain_loop :: "list_iterator \<Rightarrow> variant_map \<Rightarrow> variant_map result option" where
  "retain_loop it m =
     (case Iterator_hasNext it m of
        Inl e \<Rightarrow> Some (Inl e)
      | Inr b \<Rightarrow>
          if b
          then (case Iterator_next it m of
              Inl e \<Rightarrow> Some (Inl e)
            | Inr (entry, it') \<Rightarrow>
                (case snd entry of
                   None \<Rightarrow> Some (Inl Undefined)
                 | Some value \<Rightarrow>
                     if Variant_isBasicType value then retain_loop it' m
                     else if Variant_isBundle value then Some (Inl Undefined)
                     else (case Iterator_remove it' m of
                         Inl e \<Rightarrow> Some (Inl e)
                       | Inr (r, it2, m') \<Rightarrow> retain_loop it2 m')))
          else Some (Inr m))"

definition Bundle_retainBasicTypes :: "bundle_state \<Rightarrow> bundle_state result option" where
  "Bundle_retainBasicTypes b =
     (case b of
        None \<Rightarrow> Some (Inr None)
      | Some m \<Rightarrow> map_option (\<lambda>r. bind_result r (\<lambda>m'. Inr (Some m'))) (retain_loop Iterator_new m))"

section \<open>The overloads of the header\<close>

definition Bundle_containsKey_cstr :: "cstr \<Rightarrow> bundle_state \<Rightarrow> bool result" where
  "Bundle_containsKey_cstr key b = Bundle_containsKey (String_valueOf_cstr key) b"

definition Bundle_get_cstr :: "cstr \<Rightarrow> bundle_state \<Rightarrow> variant option result" where
  "Bundle_get_cstr key b = Bundle_get (String_valueOf_cstr key) b"

definition Bundle_remove_cstr :: "cstr \<Rightarrow> bundle_state \<Rightarrow> bundle_state result" where
  "Bundle_remove_cstr key b = Bundle_remove (String_valueOf_cstr key) b"

definition Bundle_putBinder_cstr :: "cstr \<Rightarrow> binder_ptr \<Rightarrow> bundle_state \<Rightarrow> bundle_state result" where
  "Bundle_putBinder_cstr key value b = Bundle_putBinder (String_valueOf_cstr key) value b"

definition Bundle_putBoolean_cstr :: "cstr \<Rightarrow> bool \<Rightarrow> bundle_state \<Rightarrow> bundle_state result" where
  "Bundle_putBoolean_cstr key value b = Bundle_putBoolean (String_valueOf_cstr key) value b"

definition Bundle_putBundle_cstr :: "cstr \<Rightarrow> object_ptr \<Rightarrow> bundle_state \<Rightarrow> bundle_state result" where
  "Bundle_putBundle_cstr key value b = Bundle_putBundle (String_valueOf_cstr key) value b"

definition Bundle_putByte_cstr :: "cstr \<Rightarrow> uint8 \<Rightarrow> bundle_state \<Rightarrow> bundle_state result" where
  "Bundle_putByte_cstr key value b = Bundle_putByte (String_valueOf_cstr key) value b"

definition Bundle_putChar_cstr :: "cstr \<Rightarrow> uint8 \<Rightarrow> bundle_state \<Rightarrow> bundle_state result" where
  "Bundle_putChar_cstr key value b = Bundle_putChar (String_valueOf_cstr key) value b"

definition Bundle_putDouble_cstr :: "cstr \<Rightarrow> uint64 \<Rightarrow> bundle_state \<Rightarrow> bundle_state result" where
  "Bundle_putDouble_cstr key value b = Bundle_putDouble (String_valueOf_cstr key) value b"

definition Bundle_putFloat_cstr :: "cstr \<Rightarrow> uint32 \<Rightarrow> bundle_state \<Rightarrow> bundle_state result" where
  "Bundle_putFloat_cstr key value b = Bundle_putFloat (String_valueOf_cstr key) value b"

definition Bundle_putInt_cstr :: "cstr \<Rightarrow> int32 \<Rightarrow> bundle_state \<Rightarrow> bundle_state result" where
  "Bundle_putInt_cstr key value b = Bundle_putInt (String_valueOf_cstr key) value b"

definition Bundle_putUnsignedInt_cstr :: "cstr \<Rightarrow> uint32 \<Rightarrow> bundle_state \<Rightarrow> bundle_state result" where
  "Bundle_putUnsignedInt_cstr key value b = Bundle_putUnsignedInt (String_valueOf_cstr key) value b"

definition Bundle_putIntegerArrayList_cstr :: "cstr \<Rightarrow> object_ptr \<Rightarrow> bundle_state \<Rightarrow> bundle_state result" where
  "Bundle_putIntegerArrayList_cstr key value b = Bundle_putIntegerArrayList (String_valueOf_cstr key) value b"

definition Bundle_putLong_cstr :: "cstr \<Rightarrow> int64 \<Rightarrow> bundle_state \<Rightarrow> bundle_state result" where
  "Bundle_putLong_cstr key value b = Bundle_putLong (String_valueOf_cstr key) value b"

definition Bundle_putUnsignedLong_cstr :: "cstr \<Rightarrow> uint64 \<Rightarrow> bundle_state \<Rightarrow> bundle_state result" where
  "Bundle_putUnsignedLong_cstr key value b = Bundle_putUnsignedLong (String_valueOf_cstr key) value b"

definition Bundle_putObject_cstr :: "cstr \<Rightarrow> object_ptr \<Rightarrow> bundle_state \<Rightarrow> bundle_state result" where
  "Bundle_putObject_cstr key value b = Bundle_putObject (String_valueOf_cstr key) value b"

definition Bundle_putShort_cstr :: "cstr \<Rightarrow> int16 \<Rightarrow> bundle_state \<Rightarrow> bundle_state result" where
  "Bundle_putShort_cstr key value b = Bundle_putShort (String_valueOf_cstr key) value b"

definition Bundle_putUnsignedShort_cstr :: "cstr \<Rightarrow> 16 word \<Rightarrow> bundle_state \<Rightarrow> bundle_state result" where
  "Bundle_putUnsignedShort_cstr key value b = Bundle_putUnsignedShort (String_valueOf_cstr key) value b"

definition Bundle_putString_cstr :: "cstr \<Rightarrow> object_ptr \<Rightarrow> bundle_state \<Rightarrow> bundle_state result" where
  "Bundle_putString_cstr key value b = Bundle_putString (String_valueOf_cstr key) value b"

definition Bundle_putStringArrayList_cstr :: "cstr \<Rightarrow> object_ptr \<Rightarrow> bundle_state \<Rightarrow> bundle_state result" where
  "Bundle_putStringArrayList_cstr key value b = Bundle_putStringArrayList (String_valueOf_cstr key) value b"

definition Bundle_getBoolean_cstr :: "cstr \<Rightarrow> bool \<Rightarrow> bundle_state \<Rightarrow> bool result" where
  "Bundle_getBoolean_cstr key defaultValue b = Bundle_getBoolean (String_valueOf_cstr key) defaultValue b"

definition Bundle_getBoolean_plain :: "str option \<Rightarrow> bundle_state \<Rightarrow> bool result" where
  "Bundle_getBoolean_plain key b = Bundle_getBoolean key False b"

definition Bundle_getBoolean_plain_cstr :: "cstr \<Rightarrow> bundle_state \<Rightarrow> bool result" where
  "Bundle_getBoolean_plain_cstr key b = Bundle_getBoolean (String_valueOf_cstr key) False b"

definition Bundle_getByte_cstr :: "cstr \<Rightarrow> uint8 \<Rightarrow> bundle_state \<Rightarrow> uint8 result" where
  "Bundle_getByte_cstr key defaultValue b = Bundle_getByte (String_valueOf_cstr key) defaultValue b"

definition Bundle_getByte_plain :: "str option \<Rightarrow> bundle_state \<Rightarrow> uint8 result" where
  "Bundle_getByte_plain key b = Bundle_getByte key 0 b"

definition Bundle_getByte_plain_cstr :: "cstr \<Rightarrow> bundle_state \<Rightarrow> uint8 result" where
  "Bundle_getByte_plain_cstr key b = Bundle_getByte (String_valueOf_cstr key) 0 b"

definition Bundle_getChar_cstr :: "cstr \<Rightarrow> uint8 \<Rightarrow> bundle_state \<Rightarrow> uint8 result" where
  "Bundle_getChar_cstr key defaultValue b = Bundle_getChar (String_valueOf_cstr key) defaultValue b"

definition Bundle_getChar_plain :: "str option \<Rightarrow> bundle_state \<Rightarrow> uint8 result" where
  "Bundle_getChar_plain key b = Bundle_getChar key 0 b"

definition Bundle_getChar_plain_cstr :: "cstr \<Rightarrow> bundle_state \<Rightarrow> uint8 result" where
  "Bundle_getChar_plain_cstr key b = Bundle_getChar (String_valueOf_cstr key) 0 b"

definition Bundle_getDouble_cstr :: "cstr \<Rightarrow> uint64 \<Rightarrow> bundle_state \<Rightarrow> uint64 result" where
  "Bundle_getDouble_cstr key defaultValue b = Bundle_getDouble (String_valueOf_cstr key) defaultValue b"

definition Bundle_getDouble_plain :: "str option \<Rightarrow> bundle_state \<Rightarrow> uint64 result" where
  "Bundle_getDouble_plain key b = Bundle_getDouble key 0 b"

definition Bundle_getDouble_plain_cstr :: "cstr \<Rightarrow> bundle_state \<Rightarrow> uint64 result" where
  "Bundle_getDouble_plain_cstr key b = Bundle_getDouble (String_valueOf_cstr key) 0 b"

definition Bundle_getFloat_cstr :: "cstr \<Rightarrow> uint32 \<Rightarrow> bundle_state \<Rightarrow> uint32 result" where
  "Bundle_getFloat_cstr key defaultValue b = Bundle_getFloat (String_valueOf_cstr key) defaultValue b"

definition Bundle_getFloat_plain :: "str option \<Rightarrow> bundle_state \<Rightarrow> uint32 result" where
  "Bundle_getFloat_plain key b = Bundle_getFloat key 0 b"

definition Bundle_getFloat_plain_cstr :: "cstr \<Rightarrow> bundle_state \<Rightarrow> uint32 result" where
  "Bundle_getFloat_plain_cstr key b = Bundle_getFloat (String_valueOf_cstr key) 0 b"

definition Bundle_getInt_cstr :: "cstr \<Rightarrow> int32 \<Rightarrow> bundle_state \<Rightarrow> int32 result" where
  "Bundle_getInt_cstr key defaultValue b = Bundle_getInt (String_valueOf_cstr key) defaultValue b"

definition Bundle_getInt_plain :: "str option \<Rightarrow> bundle_state \<Rightarrow> int32 result" where
  "Bundle_getInt_plain key b = Bundle_getInt key 0 b"

definition Bundle_getInt_plain_cstr :: "cstr \<Rightarrow> bundle_state \<Rightarrow> int32 result" where
  "Bundle_getInt_plain_cstr key b = Bundle_getInt (String_valueOf_cstr key) 0 b"

definition Bundle_getUnsignedInt_cstr :: "cstr \<Rightarrow> uint32 \<Rightarrow> bundle_state \<Rightarrow> uint32 result" where
  "Bundle_getUnsignedInt_cstr key defaultValue b = Bundle_getUnsignedInt (String_valueOf_cstr key) defaultValue b"

definition Bundle_getUnsignedInt_plain :: "str option \<Rightarrow> bundle_state \<Rightarrow> uint32 result" where
  "Bundle_getUnsignedInt_plain key b = Bundle_getUnsignedInt key 0 b"

definition Bundle_getUnsignedInt_plain_cstr :: "cstr \<Rightarrow> bundle_state \<Rightarrow> uint32 result" where
  "Bundle_getUnsignedInt_plain_cstr key b = Bundle_getUnsignedInt (String_valueOf_cstr key) 0 b"

definition Bundle_getLong_cstr :: "cstr \<Rightarrow> int64 \<Rightarrow> bundle_state \<Rightarrow> int64 result" where
  "Bundle_getLong_cstr key defaultValue b = Bundle_getLong (String_valueOf_cstr key) defaultValue b"

definition Bundle_getLong_plain :: "str option \<Rightarrow> bundle_state \<Rightarrow> int64 result" where
  "Bundle_getLong_plain key b = Bundle_getLong key 0 b"

definition Bundle_getLong_plain_cstr :: "cstr \<Rightarrow> bundle_state \<Rightarrow> int64 result" where
  "Bundle_getLong_plain_cstr key b = Bundle_getLong (String_valueOf_cstr key) 0 b"

definition Bundle_getUnsignedLong_cstr :: "cstr \<Rightarrow> uint64 \<Rightarrow> bundle_state \<Rightarrow> uint64 result" where
  "Bundle_getUnsignedLong_cstr key defaultValue b = Bundle_getUnsignedLong (String_valueOf_cstr key) defaultValue b"

definition Bundle_getUnsignedLong_plain :: "str option \<Rightarrow> bundle_state \<Rightarrow> uint64 result" where
  "Bundle_getUnsignedLong_plain key b = Bundle_getUnsignedLong key 0 b"

definition Bundle_getUnsignedLong_plain_cstr :: "cstr \<Rightarrow> bundle_state \<Rightarrow> uint64 result" where
  "Bundle_getUnsignedLong_plain_cstr key b = Bundle_getUnsignedLong (String_valueOf_cstr key) 0 b"

definition Bundle_getShort_cstr :: "cstr \<Rightarrow> int16 \<Rightarrow> bundle_state \<Rightarrow> int16 result" where
  "Bundle_getShort_cstr key defaultValue b = Bundle_getShort (String_valueOf_cstr key) defaultValue b"

definition Bundle_getShort_plain :: "str option \<Rightarrow> bundle_state \<Rightarrow> int16 result" where
  "Bundle_getShort_plain key b = Bundle_getShort key 0 b"

definition Bundle_getShort_plain_cstr :: "cstr \<Rightarrow> bundle_state \<Rightarrow> int16 result" where
  "Bundle_getShort_plain_cstr key b = Bundle_getShort (String_valueOf_cstr key) 0 b"

text \<open>This overload calls \<open>getShort\<close>, which looks for a signed value.\<close>

definition Bundle_getUnsignedShort_cstr :: "cstr \<Rightarrow> 16 word \<Rightarrow> bundle_state \<Rightarrow> (16 word) result" where
  "Bundle_getUnsignedShort_cstr key defaultValue b = Bundle_getShort (String_valueOf_cstr key) defaultValue b"

definition Bundle_getUnsignedShort_plain :: "str option \<Rightarrow> bundle_state \<Rightarrow> (16 word) result" where
  "Bundle_getUnsignedShort_plain key b = Bundle_getUnsignedShort key 0 b"

definition Bundle_getUnsignedShort_plain_cstr :: "cstr \<Rightarrow> bundle_state \<Rightarrow> (16 word) result" where
  "Bundle_getUnsignedShort_plain_cstr key b = Bundle_getUnsignedShort (String_valueOf_cstr key) 0 b"

definition Bundle_getIntegerArrayList_cstr :: "cstr \<Rightarrow> bundle_state \<Rightarrow> object_ptr result" where
  "Bundle_getIntegerArrayList_cstr key b = Bundle_getIntegerArrayList (String_valueOf_cstr key) b"

definition Bundle_getObject_cstr :: "cstr \<Rightarrow> bundle_state \<Rightarrow> object_ptr result" where
  "Bundle_getObject_cstr key b = Bundle_getObject (String_valueOf_cstr key) b"

definition Bundle_getString_cstr :: "cstr \<Rightarrow> bundle_state \<Rightarrow> object_ptr result" where
  "Bundle_getString_cstr key b = Bundle_getString (String_valueOf_cstr key) b"

definition Bundle_getStringArrayList_cstr :: "cstr \<Rightarrow> bundle_state \<Rightarrow> object_ptr result" where
  "Bundle_getStringArrayList_cstr key b = Bundle_getStringArrayList (String_valueOf_cstr key) b"

definition Bundle_getBundle_cstr :: "cstr \<Rightarrow> bundle_state \<Rightarrow> object_ptr result" where
  "Bundle_getBundle_cstr key b = Bundle_getBundle (String_valueOf_cstr key) b"

definition Bundle_getBinder_cstr :: "cstr \<Rightarrow> bundle_state \<Rightarrow> binder_ptr result" where
  "Bundle_getBinder_cstr key b = Bundle_getBinder (String_valueOf_cstr key) b"

definition Bundle_getObject_or_cstr :: "cstr \<Rightarrow> object_ptr \<Rightarrow> bundle_state \<Rightarrow> object_ptr result" where
  "Bundle_getObject_or_cstr key defaultValue b = Bundle_getObject_or (String_valueOf_cstr key) defaultValue b"

definition Bundle_getString_or_cstr :: "cstr \<Rightarrow> object_ptr \<Rightarrow> bundle_state \<Rightarrow> object_ptr result" where
  "Bundle_getString_or_cstr key defaultValue b = Bundle_getString_or (String_valueOf_cstr key) defaultValue b"

section \<open>Well-formed bundles\<close>

definition entry_ok :: "str \<times> variant option \<Rightarrow> bool" where
  "entry_ok e = (case snd e of None \<Rightarrow> False | Some v \<Rightarrow> variant_ok v)"

definition bundle_ok :: "bundle_state \<Rightarrow> bool" where
  "bundle_ok b = (case b of None \<Rightarrow> False | Some m \<Rightarrow> um_inv string_keys m \<and> list_all entry_ok m)"

lemmas bundle_put_defs =
  Bundle_putBinder_def Bundle_putBoolean_def Bundle_putBundle_def Bundle_putByte_def Bundle_putChar_def
  Bundle_putDouble_def Bundle_putFloat_def Bundle_putInt_def Bundle_putUnsignedInt_def
  Bundle_putIntegerArrayList_def Bundle_putLong_def Bundle_putUnsignedLong_def Bundle_putObject_def
  Bundle_putShort_def Bundle_putUnsignedShort_def Bundle_putString_def Bundle_putStringArrayList_def

lemmas bundle_get_defs =
  Bundle_getBoolean_def Bundle_getByte_def Bundle_getChar_def Bundle_getDouble_def Bundle_getFloat_def
  Bundle_getInt_def Bundle_getUnsignedInt_def Bundle_getLong_def Bundle_getUnsignedLong_def
  Bundle_getShort_def Bundle_getUnsignedShort_def Bundle_getIntegerArrayList_def Bundle_getObject_def
  Bundle_getString_def Bundle_getStringArrayList_def Bundle_getBinder_def Bundle_getString_or_def
  Bundle_getBundle_def Bundle_getObject_or_def

lemma bundle_okE:
  assumes "bundle_ok b"
  obtains m where "b = Some m" and "um_inv string_keys m" and "list_all entry_ok m"
  using assms by (auto simp: bundle_ok_def split: option.splits)

section \<open>The contract of a bundle entry\<close>

text \<open>
  A pair of operations that store and read values of one type: reading gives the stored value to every equal
  key, other keys keep their variants, and the bundle stays well formed.
\<close>

locale bundle_entry =
  fixes admissible :: "'a \<Rightarrow> bool"
    and put :: "str option \<Rightarrow> 'a \<Rightarrow> bundle_state \<Rightarrow> bundle_state result"
    and get :: "str option \<Rightarrow> bundle_state \<Rightarrow> 'a result"
  assumes put_get: "bundle_ok b \<Longrightarrow> admissible x \<Longrightarrow>
      \<exists>b'. put (Some k) x b = Inr b' \<and> bundle_ok b' \<and> (\<forall>l. string_keys k l \<longrightarrow> get (Some l) b' = Inr x) \<and>
        (\<forall>l. \<not> string_keys k l \<longrightarrow> Bundle_get (Some l) b' = Bundle_get (Some l) b)"
    and get_frame: "Bundle_get (Some l) b = Bundle_get (Some l) b' \<Longrightarrow> get (Some l) b = get (Some l) b'"
begin

lemma last_put_wins:
  assumes "bundle_ok b" and "admissible x" and "admissible y"
  shows "\<exists>b1 b2. put (Some k) x b = Inr b1 \<and> put (Some k) y b1 = Inr b2 \<and> bundle_ok b2 \<and> get (Some k) b2 = Inr y \<and>
    (\<forall>l. \<not> string_keys k l \<longrightarrow> get (Some l) b2 = get (Some l) b)"
proof -
  obtain b1 where 1: "put (Some k) x b = Inr b1" "bundle_ok b1"
    "\<forall>l. \<not> string_keys k l \<longrightarrow> Bundle_get (Some l) b1 = Bundle_get (Some l) b"
    using put_get[OF assms(1,2)] by blast
  obtain b2 where 2: "put (Some k) y b1 = Inr b2" "bundle_ok b2" "\<forall>l. string_keys k l \<longrightarrow> get (Some l) b2 = Inr y"
    "\<forall>l. \<not> string_keys k l \<longrightarrow> Bundle_get (Some l) b2 = Bundle_get (Some l) b1"
    using put_get[OF 1(2) assms(3)] by blast
  show ?thesis using 1 2 get_frame by (metis string_key.eq_refl)
qed

end

lemma um_store_all:
  "list_all P m \<Longrightarrow> (\<And>l. P (l, v)) \<Longrightarrow> list_all P (um_store eq k v m)"
  by (induction m) auto

lemma um_assign_all:
  assumes "list_all P m" and "\<And>l. P (l, v)" and "eq k k"
  shows "list_all P (um_store eq k v (um_index d eq k m))"
proof (cases "um_find eq k m")
  case None
  then have "um_store eq k v (m @ [(k, d)]) = m @ [(k, v)]"
    using assms(3) by (induction m) (auto split: if_splits)
  then show ?thesis using None assms(1,2) by (simp add: um_index_def)
qed (use assms in \<open>simp add: um_index_def um_store_all\<close>)

lemma Bundle_put_spec:
  assumes "bundle_ok b" and "variant_ok v"
  shows "\<exists>b'. Bundle_put (Some k) v b = Inr b' \<and> bundle_ok b' \<and>
    (\<forall>l. Bundle_get (Some l) b' = (if string_keys k l then Inr (Some v) else Bundle_get (Some l) b))"
proof -
  obtain m where m: "b = Some m" "um_inv string_keys m" "list_all entry_ok m"
    using assms(1) by (rule bundle_okE)
  let ?m' = "um_store string_keys k (Some v) (um_index None string_keys k m)"
  have "list_all entry_ok ?m'"
    by (rule um_assign_all[OF m(3)]) (use assms(2) in \<open>simp_all add: entry_ok_def\<close>)
  then show ?thesis
    using m string_key.um_assign_find[of _ k "Some v" None m] string_key.um_assign_inv[OF m(2), of k "Some v" None]
    by (auto simp: Bundle_put_def HashMapKV_put_def Bundle_get_def HashMapKV_get_def bundle_ok_def)
qed

lemma bundle_entry_law:
  assumes "\<And>k x b. put k x b = Bundle_put k (mk x) b" and "\<And>k b. get k b = typed_get is_type read dflt k b"
    and "\<And>x. admissible x \<Longrightarrow> variant_ok (mk x) \<and> is_type (mk x) \<and> read (mk x) = Inr x"
  shows "bundle_entry admissible put get"
proof
  fix b x k
  assume "bundle_ok b" and "admissible x"
  then show "\<exists>b'. put (Some k) x b = Inr b' \<and> bundle_ok b' \<and> (\<forall>l. string_keys k l \<longrightarrow> get (Some l) b' = Inr x) \<and>
      (\<forall>l. \<not> string_keys k l \<longrightarrow> Bundle_get (Some l) b' = Bundle_get (Some l) b)"
    using Bundle_put_spec[of b "mk x" k] assms(3)[of x] by (force simp: assms(1,2) typed_get_def)
qed (simp add: assms(2) typed_get_def)

lemmas bundle_entry_simps =
  variant_ok_def variant_of_defs bundle_put_defs bundle_get_defs variant_is_defs variant_get_defs
  static_cast_def has_class_def

interpretation boolean_entry: bundle_entry "\<lambda>_. True" Bundle_putBoolean "\<lambda>k. Bundle_getBoolean k d" for d
  by (rule bundle_entry_law[OF Bundle_putBoolean_def Bundle_getBoolean_def]) (simp_all add: bundle_entry_simps)

interpretation byte_entry: bundle_entry "\<lambda>_. True" Bundle_putByte "\<lambda>k. Bundle_getByte k d" for d
  by (rule bundle_entry_law[OF Bundle_putByte_def Bundle_getByte_def]) (simp_all add: bundle_entry_simps)

interpretation char_entry: bundle_entry "\<lambda>_. True" Bundle_putChar "\<lambda>k. Bundle_getChar k d" for d
  by (rule bundle_entry_law[OF Bundle_putChar_def Bundle_getChar_def]) (simp_all add: bundle_entry_simps)

interpretation short_entry: bundle_entry "\<lambda>_. True" Bundle_putShort "\<lambda>k. Bundle_getShort k d" for d
  by (rule bundle_entry_law[OF Bundle_putShort_def Bundle_getShort_def]) (simp_all add: bundle_entry_simps)

interpretation unsigned_short_entry: bundle_entry "\<lambda>_. True" Bundle_putUnsignedShort "\<lambda>k. Bundle_getUnsignedShort k d" for d
  by (rule bundle_entry_law[OF Bundle_putUnsignedShort_def Bundle_getUnsignedShort_def]) (simp_all add: bundle_entry_simps)

interpretation int_entry: bundle_entry "\<lambda>_. True" Bundle_putInt "\<lambda>k. Bundle_getInt k d" for d
  by (rule bundle_entry_law[OF Bundle_putInt_def Bundle_getInt_def]) (simp_all add: bundle_entry_simps)

interpretation unsigned_int_entry: bundle_entry "\<lambda>_. True" Bundle_putUnsignedInt "\<lambda>k. Bundle_getUnsignedInt k d" for d
  by (rule bundle_entry_law[OF Bundle_putUnsignedInt_def Bundle_getUnsignedInt_def]) (simp_all add: bundle_entry_simps)

interpretation long_entry: bundle_entry "\<lambda>_. True" Bundle_putLong "\<lambda>k. Bundle_getLong k d" for d
  by (rule bundle_entry_law[OF Bundle_putLong_def Bundle_getLong_def]) (simp_all add: bundle_entry_simps)

interpretation unsigned_long_entry: bundle_entry "\<lambda>_. True" Bundle_putUnsignedLong "\<lambda>k. Bundle_getUnsignedLong k d" for d
  by (rule bundle_entry_law[OF Bundle_putUnsignedLong_def Bundle_getUnsignedLong_def]) (simp_all add: bundle_entry_simps)

interpretation float_entry: bundle_entry "\<lambda>_. True" Bundle_putFloat "\<lambda>k. Bundle_getFloat k d" for d
  by (rule bundle_entry_law[OF Bundle_putFloat_def Bundle_getFloat_def]) (simp_all add: bundle_entry_simps)

interpretation double_entry: bundle_entry "\<lambda>_. True" Bundle_putDouble "\<lambda>k. Bundle_getDouble k d" for d
  by (rule bundle_entry_law[OF Bundle_putDouble_def Bundle_getDouble_def]) (simp_all add: bundle_entry_simps)

interpretation string_entry: bundle_entry "has_class String_class" Bundle_putString Bundle_getString
  by (rule bundle_entry_law[OF Bundle_putString_def Bundle_getString_def]) (auto simp: bundle_entry_simps split: option.splits)

interpretation string_list_entry: bundle_entry "has_class StringArrayList_class" Bundle_putStringArrayList Bundle_getStringArrayList
  by (rule bundle_entry_law[OF Bundle_putStringArrayList_def Bundle_getStringArrayList_def]) (auto simp: bundle_entry_simps split: option.splits)

interpretation integer_list_entry: bundle_entry "has_class IntegerArrayList_class" Bundle_putIntegerArrayList Bundle_getIntegerArrayList
  by (rule bundle_entry_law[OF Bundle_putIntegerArrayList_def Bundle_getIntegerArrayList_def]) (auto simp: bundle_entry_simps split: option.splits)

interpretation nested_bundle_entry: bundle_entry "has_class Bundle_class" Bundle_putBundle Bundle_getBundle
  by (rule bundle_entry_law[OF Bundle_putBundle_def Bundle_getBundle_def]) (auto simp: bundle_entry_simps split: option.splits)

interpretation object_entry: bundle_entry "\<lambda>_. True" Bundle_putObject Bundle_getObject
  by (rule bundle_entry_law[OF Bundle_putObject_def Bundle_getObject_def]) (auto simp: bundle_entry_simps split: option.splits)

interpretation binder_entry: bundle_entry "\<lambda>_. True" Bundle_putBinder Bundle_getBinder
  by (rule bundle_entry_law[OF Bundle_putBinder_def Bundle_getBinder_def]) (auto simp: bundle_entry_simps split: option.splits)

section \<open>Reading and filtering\<close>

definition stores_values ::
  "('a \<Rightarrow> bool) \<Rightarrow> (str option \<Rightarrow> 'a \<Rightarrow> bundle_state \<Rightarrow> bundle_state result) \<Rightarrow> (str option \<Rightarrow> bundle_state \<Rightarrow> 'a result) \<Rightarrow> bool" where
  "stores_values admissible put get \<longleftrightarrow>
     (\<forall>b k x. bundle_ok b \<and> admissible x \<longrightarrow>
       (\<exists>b'. put (Some k) x b = Inr b' \<and> bundle_ok b' \<and>
         (\<forall>l. if string_keys k l then get (Some l) b' = Inr x else Bundle_get (Some l) b' = Bundle_get (Some l) b)) \<and>
       put None x b = Inl Undefined \<and> put (Some k) x (Bundle_clear b) = Inl Undefined)"

text \<open>
  A read returns a value of its type, and the default when no variant of the type is stored under the key.
\<close>

definition reads_safely ::
  "variant_type \<Rightarrow> ('a \<Rightarrow> bool) \<Rightarrow> (str option \<Rightarrow> bundle_state \<Rightarrow> 'a result) \<Rightarrow> 'a \<Rightarrow> bool" where
  "reads_safely t typed get dflt \<longleftrightarrow>
     (\<forall>b k. bundle_ok b \<longrightarrow>
       (\<exists>x. get (Some k) b = Inr x \<and> typed x \<and>
         ((\<forall>v. Bundle_get (Some k) b = Inr (Some v) \<longrightarrow> mType v \<noteq> t) \<longrightarrow> x = dflt)) \<and>
       get None b = Inl Undefined \<and> get (Some k) (Bundle_clear b) = Inl Undefined)"

lemma um_find_all:
  "list_all P m \<Longrightarrow> um_find eq k m = Some x \<Longrightarrow> \<exists>l. P (l, x)"
proof (induction m)
  case (Cons e m)
  then show ?case by (cases e) (auto split: if_splits)
qed simp

lemma Bundle_get_ok:
  assumes "bundle_ok b"
  obtains "Bundle_get (Some k) b = Inr None" | v where "Bundle_get (Some k) b = Inr (Some v)" and "variant_ok v"
proof -
  obtain m where m: "b = Some m" "list_all entry_ok m"
    using assms by (rule bundle_okE)
  show thesis
  proof (cases "um_find string_keys k m")
    case None
    then show ?thesis using m that(1) by (simp add: Bundle_get_def HashMapKV_get_def)
  next
    case (Some x)
    then obtain v where "x = Some v" "variant_ok v"
      using um_find_all[OF m(2) Some] by (auto simp: entry_ok_def split: option.splits)
    then show ?thesis using m Some that(2) by (simp add: Bundle_get_def HashMapKV_get_def)
  qed
qed

lemma reads_safely_law:
  assumes "\<And>k b. get k b = typed_get is_type read dflt k b" and "typed dflt"
    and "\<And>v. is_type v \<longleftrightarrow> mType v = t" and "\<And>v. variant_ok v \<Longrightarrow> mType v = t \<Longrightarrow> \<exists>x. read v = Inr x \<and> typed x"
  shows "reads_safely t typed get dflt"
  unfolding reads_safely_def
proof (intro allI impI conjI)
  fix b k
  assume ok: "bundle_ok b"
  show "\<exists>x. get (Some k) b = Inr x \<and> typed x \<and>
      ((\<forall>v. Bundle_get (Some k) b = Inr (Some v) \<longrightarrow> mType v \<noteq> t) \<longrightarrow> x = dflt)"
    using Bundle_get_ok[OF ok, of k] by (cases; use assms in \<open>force simp: typed_get_def\<close>)
  obtain m where "b = Some m" using ok by (rule bundle_okE)
  then show "get None b = Inl Undefined" "get (Some k) (Bundle_clear b) = Inl Undefined"
    by (simp_all add: assms(1) typed_get_def Bundle_get_def HashMapKV_get_def Bundle_clear_def)
qed

lemma stores_values_law:
  assumes "bundle_entry admissible put get" and "\<And>k x b. put k x b = Bundle_put k (mk x) b"
  shows "stores_values admissible put get"
  unfolding stores_values_def
proof (intro allI impI conjI)
  fix b k x
  assume b: "bundle_ok b \<and> admissible x"
  then show "\<exists>b'. put (Some k) x b = Inr b' \<and> bundle_ok b' \<and>
      (\<forall>l. if string_keys k l then get (Some l) b' = Inr x else Bundle_get (Some l) b' = Bundle_get (Some l) b)"
    using bundle_entry.put_get[OF assms(1), of b x k] by auto
  obtain m where "b = Some m" using b by (auto elim: bundle_okE)
  then show "put None x b = Inl Undefined" "put (Some k) x (Bundle_clear b) = Inl Undefined"
    by (simp_all add: assms(2) Bundle_put_def HashMapKV_put_def Bundle_clear_def)
qed

lemma um_find_filter:
  "um_inv string_keys m \<Longrightarrow> um_find string_keys k m = Some x \<Longrightarrow> \<not> P x \<Longrightarrow>
     um_find string_keys k (filter (\<lambda>e. P (snd e)) m) = None"
proof (induction m)
  case (Cons e m)
  have "\<not> string_keys k (fst d)" if "string_keys k (fst e)" "d \<in> set m" for d
    using Cons.prems(1) that string_key.eq_trans[OF string_key.eq_sym[OF that(1)], of "fst d"] by auto
  then show ?case using Cons by (auto simp: um_find_None split: if_splits)
qed simp

lemma retain_loop_filters:
  "iterator_at it m passed cur ahead \<Longrightarrow> list_all (\<lambda>e. \<exists>v. snd e = Some v \<and> mType v \<noteq> Bundle_type) ahead \<Longrightarrow>
     retain_loop it m = Some (Inr (passed @ cur @ filter (\<lambda>e. Variant_isBasicType (the (snd e))) ahead))"
proof (induction ahead arbitrary: it m passed cur)
  case Nil
  then show ?case
    using list_iter.at_contents[OF Nil(1)] by (subst retain_loop.simps) (simp add: iterator_hasNext_at)
next
  case (Cons e ahead)
  obtain it1 where n: "Iterator_next it m = Inr (e, it1)" "iterator_at it1 m (passed @ cur) [e] ahead"
    using iterator_next_at[OF Cons.prems(1)] by blast
  obtain v where v: "snd e = Some v" "mType v \<noteq> Bundle_type" using Cons.prems(2) by auto
  obtain it2 m2 where r: "Iterator_remove it1 m = Inr (True, it2, m2)" "iterator_at it2 m2 (passed @ cur) [] ahead"
    using list_iter.remove_at[OF n(2)] by blast
  have "list_all (\<lambda>e. \<exists>v. snd e = Some v \<and> mType v \<noteq> Bundle_type) ahead" using Cons.prems(2) by simp
  note IH = Cons.IH[OF n(2) this] Cons.IH[OF r(2) this]
  show ?case
    using iterator_hasNext_at[OF Cons.prems(1)] n(1) r(1) v IH
    by (subst retain_loop.simps) (simp add: Variant_isBundle_def)
qed

lemma retain_loop_bundle:
  "iterator_at it m passed cur (ahead @ e # rest) \<Longrightarrow> list_all (\<lambda>e. \<exists>v. snd e = Some v \<and> mType v \<noteq> Bundle_type) ahead \<Longrightarrow>
     snd e = Some v \<Longrightarrow> mType v = Bundle_type \<Longrightarrow> retain_loop it m = Some (Inl Undefined)"
proof (induction ahead arbitrary: it m passed cur)
  case Nil
  then obtain it1 where "Iterator_next it m = Inr (e, it1)"
    using iterator_next_at[of it m passed cur e rest] by auto
  then show ?case
    using Nil iterator_hasNext_at[OF Nil(1)]
    by (subst retain_loop.simps) (simp add: Variant_isBundle_def Variant_isBasicType_def)
next
  case (Cons d ahead)
  have at: "iterator_at it m passed cur (d # ahead @ e # rest)" using Cons.prems(1) by simp
  obtain it1 where n: "Iterator_next it m = Inr (d, it1)" "iterator_at it1 m (passed @ cur) [d] (ahead @ e # rest)"
    using iterator_next_at[OF at] by blast
  obtain w where w: "snd d = Some w" "mType w \<noteq> Bundle_type" using Cons.prems(2) by auto
  obtain it2 m2 where r: "Iterator_remove it1 m = Inr (True, it2, m2)" "iterator_at it2 m2 (passed @ cur) [] (ahead @ e # rest)"
    using list_iter.remove_at[OF n(2)] by blast
  have rest: "list_all (\<lambda>e. \<exists>v. snd e = Some v \<and> mType v \<noteq> Bundle_type) ahead" using Cons.prems(2) by simp
  note IH = Cons.IH[OF n(2) rest Cons.prems(3,4)] Cons.IH[OF r(2) rest Cons.prems(3,4)]
  show ?case
    using iterator_hasNext_at[OF at] n(1) r(1) w IH
    by (subst retain_loop.simps) (simp add: Variant_isBundle_def)
qed

section \<open>Properties\<close>

text \<open>
  Every typed \<open>put\<close> of a well-formed bundle succeeds and keeps it well formed; the \<open>get\<close> of its type then
  returns the stored value for every equal key, and all other keys keep what they had. A null key is undefined, and so
  is every \<open>put\<close> after \<open>clear\<close>, which sets the pointer to the map to null.
\<close>

theorem Bundle_put_get:
  "stores_values (\<lambda>_. True) Bundle_putBoolean (\<lambda>k. Bundle_getBoolean k d0) \<and>
   stores_values (\<lambda>_. True) Bundle_putByte (\<lambda>k. Bundle_getByte k d1) \<and>
   stores_values (\<lambda>_. True) Bundle_putChar (\<lambda>k. Bundle_getChar k d2) \<and>
   stores_values (\<lambda>_. True) Bundle_putShort (\<lambda>k. Bundle_getShort k d3) \<and>
   stores_values (\<lambda>_. True) Bundle_putUnsignedShort (\<lambda>k. Bundle_getUnsignedShort k d4) \<and>
   stores_values (\<lambda>_. True) Bundle_putInt (\<lambda>k. Bundle_getInt k d5) \<and>
   stores_values (\<lambda>_. True) Bundle_putUnsignedInt (\<lambda>k. Bundle_getUnsignedInt k d6) \<and>
   stores_values (\<lambda>_. True) Bundle_putLong (\<lambda>k. Bundle_getLong k d7) \<and>
   stores_values (\<lambda>_. True) Bundle_putUnsignedLong (\<lambda>k. Bundle_getUnsignedLong k d8) \<and>
   stores_values (\<lambda>_. True) Bundle_putFloat (\<lambda>k. Bundle_getFloat k d9) \<and>
   stores_values (\<lambda>_. True) Bundle_putDouble (\<lambda>k. Bundle_getDouble k d10) \<and>
   stores_values (has_class String_class) Bundle_putString Bundle_getString \<and>
   stores_values (has_class StringArrayList_class) Bundle_putStringArrayList Bundle_getStringArrayList \<and>
   stores_values (has_class IntegerArrayList_class) Bundle_putIntegerArrayList Bundle_getIntegerArrayList \<and>
   stores_values (\<lambda>_. True) Bundle_putObject Bundle_getObject \<and>
   stores_values (\<lambda>_. True) Bundle_putBinder Bundle_getBinder \<and>
   stores_values (has_class Bundle_class) Bundle_putBundle Bundle_getBundle"
proof (intro conjI)
  show "stores_values (\<lambda>_. True) Bundle_putBoolean (\<lambda>k. Bundle_getBoolean k d0)"
    by (rule stores_values_law[OF boolean_entry.bundle_entry_axioms Bundle_putBoolean_def])
  show "stores_values (\<lambda>_. True) Bundle_putByte (\<lambda>k. Bundle_getByte k d1)"
    by (rule stores_values_law[OF byte_entry.bundle_entry_axioms Bundle_putByte_def])
  show "stores_values (\<lambda>_. True) Bundle_putChar (\<lambda>k. Bundle_getChar k d2)"
    by (rule stores_values_law[OF char_entry.bundle_entry_axioms Bundle_putChar_def])
  show "stores_values (\<lambda>_. True) Bundle_putShort (\<lambda>k. Bundle_getShort k d3)"
    by (rule stores_values_law[OF short_entry.bundle_entry_axioms Bundle_putShort_def])
  show "stores_values (\<lambda>_. True) Bundle_putUnsignedShort (\<lambda>k. Bundle_getUnsignedShort k d4)"
    by (rule stores_values_law[OF unsigned_short_entry.bundle_entry_axioms Bundle_putUnsignedShort_def])
  show "stores_values (\<lambda>_. True) Bundle_putInt (\<lambda>k. Bundle_getInt k d5)"
    by (rule stores_values_law[OF int_entry.bundle_entry_axioms Bundle_putInt_def])
  show "stores_values (\<lambda>_. True) Bundle_putUnsignedInt (\<lambda>k. Bundle_getUnsignedInt k d6)"
    by (rule stores_values_law[OF unsigned_int_entry.bundle_entry_axioms Bundle_putUnsignedInt_def])
  show "stores_values (\<lambda>_. True) Bundle_putLong (\<lambda>k. Bundle_getLong k d7)"
    by (rule stores_values_law[OF long_entry.bundle_entry_axioms Bundle_putLong_def])
  show "stores_values (\<lambda>_. True) Bundle_putUnsignedLong (\<lambda>k. Bundle_getUnsignedLong k d8)"
    by (rule stores_values_law[OF unsigned_long_entry.bundle_entry_axioms Bundle_putUnsignedLong_def])
  show "stores_values (\<lambda>_. True) Bundle_putFloat (\<lambda>k. Bundle_getFloat k d9)"
    by (rule stores_values_law[OF float_entry.bundle_entry_axioms Bundle_putFloat_def])
  show "stores_values (\<lambda>_. True) Bundle_putDouble (\<lambda>k. Bundle_getDouble k d10)"
    by (rule stores_values_law[OF double_entry.bundle_entry_axioms Bundle_putDouble_def])
  show "stores_values (has_class String_class) Bundle_putString Bundle_getString"
    by (rule stores_values_law[OF string_entry.bundle_entry_axioms Bundle_putString_def])
  show "stores_values (has_class StringArrayList_class) Bundle_putStringArrayList Bundle_getStringArrayList"
    by (rule stores_values_law[OF string_list_entry.bundle_entry_axioms Bundle_putStringArrayList_def])
  show "stores_values (has_class IntegerArrayList_class) Bundle_putIntegerArrayList Bundle_getIntegerArrayList"
    by (rule stores_values_law[OF integer_list_entry.bundle_entry_axioms Bundle_putIntegerArrayList_def])
  show "stores_values (\<lambda>_. True) Bundle_putObject Bundle_getObject"
    by (rule stores_values_law[OF object_entry.bundle_entry_axioms Bundle_putObject_def])
  show "stores_values (\<lambda>_. True) Bundle_putBinder Bundle_getBinder"
    by (rule stores_values_law[OF binder_entry.bundle_entry_axioms Bundle_putBinder_def])
  show "stores_values (has_class Bundle_class) Bundle_putBundle Bundle_getBundle"
    by (rule stores_values_law[OF nested_bundle_entry.bundle_entry_axioms Bundle_putBundle_def])
qed



text \<open>
  \<open>retainBasicTypes\<close> of a well-formed bundle ends and keeps exactly the entries of basic types and
  strings, in their order, with one entry per key. A bundle that was stored with \<open>putBundle\<close> has the type \<open>Object\<close> and is
  removed with the other objects, not filtered; the branch for \<open>Bundle\<close> variants casts the variant itself to a bundle and
  is undefined.
\<close>

theorem Bundle_retainBasicTypes_filters:
  assumes "bundle_ok (Some m)"
  shows "(if \<exists>e \<in> set m. mType (the (snd e)) = Bundle_type
      then Bundle_retainBasicTypes (Some m) = Some (Inl Undefined)
      else Bundle_retainBasicTypes (Some m) = Some (Inr (Some (filter (\<lambda>e. Variant_isBasicType (the (snd e))) m))) \<and>
        bundle_ok (Some (filter (\<lambda>e. Variant_isBasicType (the (snd e))) m)) \<and>
        (\<exists>m1 m2. Bundle_putBundle (Some k) p (Some m) = Inr (Some m1) \<and>
          Bundle_retainBasicTypes (Some m1) = Some (Inr (Some m2)) \<and> Bundle_containsKey (Some k) (Some m2) = Inr False))"
proof -
  have inv: "um_inv string_keys m" and all: "list_all entry_ok m"
    using assms by (auto simp: bundle_ok_def)
  have vals: "\<exists>v. snd e = Some v" if "e \<in> set m" for e
    using all that by (auto simp: list_all_iff entry_ok_def split: option.splits)
  note start = list_iter.at_start[of m]
  show ?thesis
  proof (cases "\<exists>e \<in> set m. mType (the (snd e)) = Bundle_type")
    case True
    then obtain xs e ys where split: "m = xs @ e # ys" "mType (the (snd e)) = Bundle_type"
      "\<forall>x \<in> set xs. mType (the (snd x)) \<noteq> Bundle_type"
      using split_list_first_prop[OF True] by auto
    obtain v where v: "snd e = Some v" using vals[of e] split(1) by auto
    have "\<exists>v. snd x = Some v \<and> mType v \<noteq> Bundle_type" if "x \<in> set xs" for x
      using vals[of x] split(1,3) that by auto
    then have "list_all (\<lambda>e. \<exists>v. snd e = Some v \<and> mType v \<noteq> Bundle_type) xs" by (simp add: list_all_iff)
    then show ?thesis
      using retain_loop_bundle[OF start[unfolded split(1)] _ v] v split True
      by (simp add: Bundle_retainBasicTypes_def)
  next
    case False
    let ?basic = "\<lambda>e :: str \<times> variant option. Variant_isBasicType (the (snd e))"
    let ?plain = "\<lambda>e :: str \<times> variant option. \<exists>v. snd e = Some v \<and> mType v \<noteq> Bundle_type"
    let ?v = "Some (Variant_of_object p)"
    let ?m1 = "um_store string_keys k ?v (um_index None string_keys k m)"
    have plain: "list_all ?plain m" using False vals by (fastforce simp: list_all_iff)
    have "list_all ?plain ?m1"
      by (rule um_assign_all[OF plain]) (simp_all add: Variant_of_object_def)
    from retain_loop_filters[OF list_iter.at_start this]
    have retain1: "Bundle_retainBasicTypes (Some ?m1) = Some (Inr (Some (filter ?basic ?m1)))"
      by (simp add: Bundle_retainBasicTypes_def)
    have "um_find string_keys k ?m1 = Some ?v" by (simp add: string_key.um_assign_find)
    then have "um_find string_keys k (filter ?basic ?m1) = None"
      by (rule um_find_filter[OF string_key.um_assign_inv[OF inv], where P = "\<lambda>x. Variant_isBasicType (the x)"])
        (simp add: Variant_isBasicType_def Variant_of_object_def)
    then have gone: "Bundle_containsKey (Some k) (Some (filter ?basic ?m1)) = Inr False"
      by (simp add: Bundle_containsKey_def HashMapKV_containsKey_def)
    have "Bundle_putBundle (Some k) p (Some m) = Inr (Some ?m1)"
      by (simp add: Bundle_putBundle_def Bundle_put_def HashMapKV_put_def)
    moreover have "Bundle_retainBasicTypes (Some m) = Some (Inr (Some (filter ?basic m)))"
      using retain_loop_filters[OF start plain] by (simp add: Bundle_retainBasicTypes_def)
    moreover have "bundle_ok (Some (filter ?basic m))"
      using inv all by (auto simp: bundle_ok_def um_inv_def sorted_wrt_filter list_all_iff)
    ultimately show ?thesis using False retain1 gone by auto
  qed
qed

theorem Bundle_retainBasicTypes_filters_witness:
  "Bundle_retainBasicTypes (Some [(Some [97], Some (Variant_of_object None)), (Some [98], Some (Variant_of_int 5))]) =
     Some (Inr (Some [(Some [98], Some (Variant_of_int 5))]))"
proof -
  have "bundle_ok (Some [(Some [97], Some (Variant_of_object None)), (Some [98], Some (Variant_of_int 5))])"
    by (simp add: bundle_ok_def entry_ok_def read_simps variant_of_defs string_keys_def String_equals_def
        String_equals_string_def strcmp_eq_def c_string_def)
  from Bundle_retainBasicTypes_filters[OF this] show ?thesis
    by (simp add: Variant_isBasicType_def variant_of_defs)
qed

end
