(* ===== verification/Parcels.thy ===== *)
theory Parcels
  imports Input_Streams Bundles
begin

text \<open>
  The class \<open>Parcel\<close> of \<open>src/mindroid/os/Parcel.h\<close> and \<open>Parcel.cpp\<close>: a message body that is first written and then
  read, with a bundle of extras.

  A parcel is in output mode while \<open>mInputStream\<close> is null. \<open>mOutputStream\<close> and \<open>mDataOutputStream\<close> are one stream in
  the model, as are \<open>mInputStream\<close> and \<open>mDataInputStream\<close>. The input stream reads the array of the output stream; the array
  does not change while the parcel is in input mode, as long as no one writes to the stream that \<open>asOutputStream\<close> returned
  earlier, so the model copies it. Strings are their bytes, and a null string is \<open>None\<close>. An \<open>IOException\<close>, and an
  \<open>EOFException\<close>, which extends it, becomes a \<open>RemoteException\<close>. Binders are passed as URIs, with classes that are not
  modelled; \<open>putBinder\<close>, \<open>getBinder\<close> and the URI operations are left out.
\<close>

record parcel =
  mOutputStream :: "byte_array_output data_output"
  mInputStream :: "byte_array_input data_input option"
  mExtras :: "bundle_state option"

definition to_remote :: "'a result \<Rightarrow> 'a result" where
  "to_remote r = (case r of Inl e \<Rightarrow> Inl (if e = IOException \<or> e = EOFException then RemoteException else e) | Inr x \<Rightarrow> Inr x)"

section \<open>Modes\<close>

definition Parcel_asInputStream :: "parcel \<Rightarrow> parcel result" where
  "Parcel_asInputStream p =
     (case mInputStream p of
        Some i \<Rightarrow> Inr p
      | None \<Rightarrow>
          let o1 = doStream (mOutputStream p) in
          bind_result (ByteArrayInputStream_range (Some (ByteArrayOutputStream_getByteArray o1)) 0 (ByteArrayOutputStream_size o1))
            (\<lambda>i. Inr (p\<lparr>mInputStream := Some (DataInputStream_new i)\<rparr>)))"

definition Parcel_asOutputStream :: "parcel \<Rightarrow> parcel" where
  "Parcel_asOutputStream p = (if mInputStream p \<noteq> None then p\<lparr>mInputStream := None\<rparr> else p)"

definition Parcel_asInput :: "parcel \<Rightarrow> parcel result" where
  "Parcel_asInput p = Parcel_asInputStream p"

definition Parcel_asOutput :: "parcel \<Rightarrow> parcel" where
  "Parcel_asOutput p = Parcel_asOutputStream p"

definition Parcel_checkOutput :: "parcel \<Rightarrow> unit result" where
  "Parcel_checkOutput p = (if mInputStream p \<noteq> None then Inl IllegalStateException else Inr ())"

definition Parcel_checkInput :: "parcel \<Rightarrow> unit result" where
  "Parcel_checkInput p = (if mInputStream p = None then Inl IllegalStateException else Inr ())"

section \<open>Construction\<close>

definition parcel_over :: "byte_array_output \<Rightarrow> parcel" where
  "parcel_over o1 = \<lparr>mOutputStream = DataOutputStream_new o1, mInputStream = None, mExtras = None\<rparr>"

definition Parcel_new :: parcel where
  "Parcel_new = parcel_over ByteArrayOutputStream_new"

definition Parcel_sized :: "size_t \<Rightarrow> parcel" where
  "Parcel_sized n = parcel_over (ByteArrayOutputStream_sized n)"

definition Parcel_of :: "bytes \<Rightarrow> size_t \<Rightarrow> size_t \<Rightarrow> parcel result" where
  "Parcel_of buffer offset n =
     bind_result
       (if offset = 0 \<and> n = ByteArray_size buffer then ByteArrayOutputStream_of (Some buffer)
        else case ByteArrayOutputStream_write_bytes (Some buffer) offset n (ByteArrayOutputStream_sized n) of
            (Inl e, _) \<Rightarrow> Inl e
          | (Inr _, o1) \<Rightarrow> Inr o1)
       (\<lambda>o1. Parcel_asInputStream (parcel_over o1))"

definition Parcel_obtain :: parcel where
  "Parcel_obtain = Parcel_new"

definition Parcel_obtain_sized :: "size_t \<Rightarrow> parcel" where
  "Parcel_obtain_sized n = Parcel_sized n"

definition Parcel_obtain_buffer :: "bytes option \<Rightarrow> parcel result" where
  "Parcel_obtain_buffer buffer =
     (case buffer of None \<Rightarrow> Inl NullPointerException | Some b \<Rightarrow> Parcel_of b 0 (ByteArray_size b))"

definition Parcel_obtain_range :: "bytes option \<Rightarrow> size_t \<Rightarrow> size_t \<Rightarrow> parcel result" where
  "Parcel_obtain_range buffer offset n =
     (case buffer of None \<Rightarrow> Inl NullPointerException | Some b \<Rightarrow> Parcel_of b offset n)"

definition Parcel_size :: "parcel \<Rightarrow> size_t" where
  "Parcel_size p = ByteArrayOutputStream_size (doStream (mOutputStream p))"

definition Parcel_getByteArray :: "parcel \<Rightarrow> bytes" where
  "Parcel_getByteArray p = ByteArrayOutputStream_getByteArray (doStream (mOutputStream p))"

section \<open>Writing\<close>

text \<open>The common body: \<open>checkOutput\<close>, then the operation of the data stream with its exceptions translated.\<close>

definition parcel_put :: "(unit, byte_array_output data_output) io \<Rightarrow> (unit, parcel) io" where
  "parcel_put write p =
     (case Parcel_checkOutput p of
        Inl e \<Rightarrow> (Inl e, p)
      | Inr _ \<Rightarrow> let (r, o1) = write (mOutputStream p) in (to_remote r, p\<lparr>mOutputStream := o1\<rparr>))"

definition Parcel_putBoolean :: "bool \<Rightarrow> (unit, parcel) io" where
  "Parcel_putBoolean value p = parcel_put (DataOutputStream_writeBoolean ByteArrayOutputStream_write value) p"

definition Parcel_putByte :: "uint8 \<Rightarrow> (unit, parcel) io" where
  "Parcel_putByte value p = parcel_put (DataOutputStream_writeByte ByteArrayOutputStream_write value) p"

definition Parcel_putChar :: "uint8 \<Rightarrow> (unit, parcel) io" where
  "Parcel_putChar value p = parcel_put (DataOutputStream_writeChar ByteArrayOutputStream_write value) p"

definition Parcel_putShort :: "int16 \<Rightarrow> (unit, parcel) io" where
  "Parcel_putShort value p = parcel_put (DataOutputStream_writeShort ByteArrayOutputStream_write_bytes value) p"

definition Parcel_putInt :: "int32 \<Rightarrow> (unit, parcel) io" where
  "Parcel_putInt value p = parcel_put (DataOutputStream_writeInt ByteArrayOutputStream_write_bytes value) p"

definition Parcel_putLong :: "int64 \<Rightarrow> (unit, parcel) io" where
  "Parcel_putLong value p = parcel_put (DataOutputStream_writeLong ByteArrayOutputStream_write_bytes value) p"

definition Parcel_putFloat :: "uint32 \<Rightarrow> (unit, parcel) io" where
  "Parcel_putFloat value p = parcel_put (DataOutputStream_writeFloat ByteArrayOutputStream_write_bytes value) p"

definition Parcel_putDouble :: "uint64 \<Rightarrow> (unit, parcel) io" where
  "Parcel_putDouble value p = parcel_put (DataOutputStream_writeDouble ByteArrayOutputStream_write_bytes value) p"

definition Parcel_putString :: "bytes option \<Rightarrow> (unit, parcel) io" where
  "Parcel_putString value p = parcel_put (DataOutputStream_writeUTF ByteArrayOutputStream_write_bytes value) p"

text \<open>\<open>putBytes\<close> writes to the byte stream and lets its exceptions pass.\<close>

definition Parcel_putBytes :: "bytes option \<Rightarrow> (unit, parcel) io" where
  "Parcel_putBytes buffer p =
     (case Parcel_checkOutput p of
        Inl e \<Rightarrow> (Inl e, p)
      | Inr _ \<Rightarrow> let (r, o1) = do_write (ByteArrayOutputStream_write_all buffer) (mOutputStream p) in (r, p\<lparr>mOutputStream := o1\<rparr>))"

definition Parcel_putBytes_range :: "bytes option \<Rightarrow> size_t \<Rightarrow> size_t \<Rightarrow> (unit, parcel) io" where
  "Parcel_putBytes_range buffer offset n p =
     (case Parcel_checkOutput p of
        Inl e \<Rightarrow> (Inl e, p)
      | Inr _ \<Rightarrow>
          let (r, o1) = do_write (ByteArrayOutputStream_write_bytes buffer offset n) (mOutputStream p)
          in (r, p\<lparr>mOutputStream := o1\<rparr>))"

section \<open>Reading\<close>

definition parcel_get ::
  "(byte_array_input data_input \<Rightarrow> ('a result \<times> byte_array_input data_input) option) \<Rightarrow> parcel \<Rightarrow> ('a result \<times> parcel) option" where
  "parcel_get read p =
     (case mInputStream p of
        None \<Rightarrow> Some (Inl IllegalStateException, p)
      | Some i \<Rightarrow> map_option (\<lambda>(r, i1). (to_remote r, p\<lparr>mInputStream := Some i1\<rparr>)) (read i))"

definition Parcel_getBoolean :: "parcel \<Rightarrow> (bool result \<times> parcel) option" where
  "Parcel_getBoolean p = parcel_get (\<lambda>i. Some (DataInputStream_readBoolean ByteArrayInputStream_read i)) p"

definition Parcel_getByte :: "parcel \<Rightarrow> (uint8 result \<times> parcel) option" where
  "Parcel_getByte p = parcel_get (\<lambda>i. Some (DataInputStream_readByte ByteArrayInputStream_read i)) p"

definition Parcel_getChar :: "parcel \<Rightarrow> (uint8 result \<times> parcel) option" where
  "Parcel_getChar p = parcel_get (\<lambda>i. Some (DataInputStream_readChar ByteArrayInputStream_read i)) p"

definition Parcel_getShort :: "parcel \<Rightarrow> (16 word result \<times> parcel) option" where
  "Parcel_getShort p = parcel_get (DataInputStream_readShort ByteArrayInputStream_read_bytes) p"

definition Parcel_getInt :: "parcel \<Rightarrow> (int32 result \<times> parcel) option" where
  "Parcel_getInt p = parcel_get (DataInputStream_readInt ByteArrayInputStream_read_bytes) p"

definition Parcel_getLong :: "parcel \<Rightarrow> (uint64 result \<times> parcel) option" where
  "Parcel_getLong p = parcel_get (DataInputStream_readLong ByteArrayInputStream_read_bytes) p"

definition Parcel_getFloat :: "parcel \<Rightarrow> (uint32 result \<times> parcel) option" where
  "Parcel_getFloat p = parcel_get (DataInputStream_readFloat ByteArrayInputStream_read_bytes) p"

definition Parcel_getDouble :: "parcel \<Rightarrow> (uint64 result \<times> parcel) option" where
  "Parcel_getDouble p = parcel_get (DataInputStream_readDouble ByteArrayInputStream_read_bytes) p"

definition Parcel_getString :: "parcel \<Rightarrow> (bytes result \<times> parcel) option" where
  "Parcel_getString p = parcel_get (DataInputStream_readUTF ByteArrayInputStream_read_bytes) p"

text \<open>\<open>getBytes\<close> reads a block of what is left; the number of bytes read is ignored.\<close>

definition read_block :: "(byte_array_input \<Rightarrow> int result \<times> bytes option \<times> byte_array_input) \<Rightarrow> byte_array_input data_input \<Rightarrow>
    bytes result \<times> byte_array_input data_input" where
  "read_block read i =
     (let (r, buffer, i1) = read (diStream i) in (bind_result r (\<lambda>_. deref buffer), i\<lparr>diStream := i1\<rparr>))"

definition Parcel_getBytes :: "parcel \<Rightarrow> bytes result \<times> parcel" where
  "Parcel_getBytes p =
     (case mInputStream p of
        None \<Rightarrow> (Inl IllegalStateException, p)
      | Some i \<Rightarrow>
          let buffer = ByteArray_new (ByteArrayInputStream_available (diStream i));
              (r, i1) = read_block (ByteArrayInputStream_read_all (Some buffer)) i
          in (r, p\<lparr>mInputStream := Some i1\<rparr>))"

definition Parcel_getBytes_sized :: "size_t \<Rightarrow> parcel \<Rightarrow> bytes result \<times> parcel" where
  "Parcel_getBytes_sized n p =
     (case mInputStream p of
        None \<Rightarrow> (Inl IllegalStateException, p)
      | Some i \<Rightarrow>
          let n1 = min (ByteArrayInputStream_available (diStream i)) n;
              (r, i1) = read_block (ByteArrayInputStream_read_bytes (Some (ByteArray_new n1)) 0 n1) i
          in (r, p\<lparr>mInputStream := Some i1\<rparr>))"

section \<open>Extras\<close>

definition put_extra :: "(bundle_state \<Rightarrow> bundle_state result) \<Rightarrow> parcel \<Rightarrow> parcel result" where
  "put_extra put p =
     (let extras = (case mExtras p of None \<Rightarrow> Bundle_new | Some b \<Rightarrow> b)
      in bind_result (put extras) (\<lambda>b. Inr (p\<lparr>mExtras := Some b\<rparr>)))"

definition Parcel_putBooleanExtra :: "str option \<Rightarrow> bool \<Rightarrow> parcel \<Rightarrow> parcel result" where
  "Parcel_putBooleanExtra name value p = put_extra (Bundle_putBoolean name value) p"

definition Parcel_putBooleanExtra_cstr :: "cstr \<Rightarrow> bool \<Rightarrow> parcel \<Rightarrow> parcel result" where
  "Parcel_putBooleanExtra_cstr name value p = Parcel_putBooleanExtra (String_valueOf_cstr name) value p"

definition Parcel_putByteExtra :: "str option \<Rightarrow> uint8 \<Rightarrow> parcel \<Rightarrow> parcel result" where
  "Parcel_putByteExtra name value p = put_extra (Bundle_putByte name value) p"

definition Parcel_putByteExtra_cstr :: "cstr \<Rightarrow> uint8 \<Rightarrow> parcel \<Rightarrow> parcel result" where
  "Parcel_putByteExtra_cstr name value p = Parcel_putByteExtra (String_valueOf_cstr name) value p"

definition Parcel_putCharExtra :: "str option \<Rightarrow> uint8 \<Rightarrow> parcel \<Rightarrow> parcel result" where
  "Parcel_putCharExtra name value p = put_extra (Bundle_putChar name value) p"

definition Parcel_putCharExtra_cstr :: "cstr \<Rightarrow> uint8 \<Rightarrow> parcel \<Rightarrow> parcel result" where
  "Parcel_putCharExtra_cstr name value p = Parcel_putCharExtra (String_valueOf_cstr name) value p"

definition Parcel_putShortExtra :: "str option \<Rightarrow> int16 \<Rightarrow> parcel \<Rightarrow> parcel result" where
  "Parcel_putShortExtra name value p = put_extra (Bundle_putShort name value) p"

definition Parcel_putShortExtra_cstr :: "cstr \<Rightarrow> int16 \<Rightarrow> parcel \<Rightarrow> parcel result" where
  "Parcel_putShortExtra_cstr name value p = Parcel_putShortExtra (String_valueOf_cstr name) value p"

definition Parcel_putIntExtra :: "str option \<Rightarrow> int32 \<Rightarrow> parcel \<Rightarrow> parcel result" where
  "Parcel_putIntExtra name value p = put_extra (Bundle_putInt name value) p"

definition Parcel_putIntExtra_cstr :: "cstr \<Rightarrow> int32 \<Rightarrow> parcel \<Rightarrow> parcel result" where
  "Parcel_putIntExtra_cstr name value p = Parcel_putIntExtra (String_valueOf_cstr name) value p"

definition Parcel_putLongExtra :: "str option \<Rightarrow> int64 \<Rightarrow> parcel \<Rightarrow> parcel result" where
  "Parcel_putLongExtra name value p = put_extra (Bundle_putLong name value) p"

definition Parcel_putLongExtra_cstr :: "cstr \<Rightarrow> int64 \<Rightarrow> parcel \<Rightarrow> parcel result" where
  "Parcel_putLongExtra_cstr name value p = Parcel_putLongExtra (String_valueOf_cstr name) value p"

definition Parcel_putFloatExtra :: "str option \<Rightarrow> uint32 \<Rightarrow> parcel \<Rightarrow> parcel result" where
  "Parcel_putFloatExtra name value p = put_extra (Bundle_putFloat name value) p"

definition Parcel_putFloatExtra_cstr :: "cstr \<Rightarrow> uint32 \<Rightarrow> parcel \<Rightarrow> parcel result" where
  "Parcel_putFloatExtra_cstr name value p = Parcel_putFloatExtra (String_valueOf_cstr name) value p"

definition Parcel_putDoubleExtra :: "str option \<Rightarrow> uint64 \<Rightarrow> parcel \<Rightarrow> parcel result" where
  "Parcel_putDoubleExtra name value p = put_extra (Bundle_putDouble name value) p"

definition Parcel_putDoubleExtra_cstr :: "cstr \<Rightarrow> uint64 \<Rightarrow> parcel \<Rightarrow> parcel result" where
  "Parcel_putDoubleExtra_cstr name value p = Parcel_putDoubleExtra (String_valueOf_cstr name) value p"

definition Parcel_putStringExtra :: "str option \<Rightarrow> object_ptr \<Rightarrow> parcel \<Rightarrow> parcel result" where
  "Parcel_putStringExtra name value p = put_extra (Bundle_putString name value) p"

definition Parcel_putStringExtra_cstr :: "cstr \<Rightarrow> object_ptr \<Rightarrow> parcel \<Rightarrow> parcel result" where
  "Parcel_putStringExtra_cstr name value p = Parcel_putStringExtra (String_valueOf_cstr name) value p"

definition Parcel_putIntegerArrayListExtra :: "str option \<Rightarrow> object_ptr \<Rightarrow> parcel \<Rightarrow> parcel result" where
  "Parcel_putIntegerArrayListExtra name value p = put_extra (Bundle_putIntegerArrayList name value) p"

definition Parcel_putIntegerArrayListExtra_cstr :: "cstr \<Rightarrow> object_ptr \<Rightarrow> parcel \<Rightarrow> parcel result" where
  "Parcel_putIntegerArrayListExtra_cstr name value p = Parcel_putIntegerArrayListExtra (String_valueOf_cstr name) value p"

definition Parcel_putStringArrayListExtra :: "str option \<Rightarrow> object_ptr \<Rightarrow> parcel \<Rightarrow> parcel result" where
  "Parcel_putStringArrayListExtra name value p = put_extra (Bundle_putStringArrayList name value) p"

definition Parcel_putStringArrayListExtra_cstr :: "cstr \<Rightarrow> object_ptr \<Rightarrow> parcel \<Rightarrow> parcel result" where
  "Parcel_putStringArrayListExtra_cstr name value p = Parcel_putStringArrayListExtra (String_valueOf_cstr name) value p"

definition Parcel_putBundleExtra :: "str option \<Rightarrow> object_ptr \<Rightarrow> parcel \<Rightarrow> parcel result" where
  "Parcel_putBundleExtra name value p = put_extra (Bundle_putBundle name value) p"

definition Parcel_putBundleExtra_cstr :: "cstr \<Rightarrow> object_ptr \<Rightarrow> parcel \<Rightarrow> parcel result" where
  "Parcel_putBundleExtra_cstr name value p = Parcel_putBundleExtra (String_valueOf_cstr name) value p"

definition Parcel_putExtras :: "bundle_state option \<Rightarrow> parcel \<Rightarrow> parcel result option" where
  "Parcel_putExtras extras p =
     map_option (\<lambda>r. bind_result r (\<lambda>b. Inr (p\<lparr>mExtras := Some b\<rparr>)))
       (Bundle_putAll extras (case mExtras p of None \<Rightarrow> Bundle_new | Some b \<Rightarrow> b))"

definition Parcel_replaceExtras :: "bundle_state option \<Rightarrow> parcel \<Rightarrow> parcel result option" where
  "Parcel_replaceExtras extras p =
     (if extras \<noteq> None
      then map_option (\<lambda>r. bind_result r (\<lambda>b. Inr (p\<lparr>mExtras := Some b\<rparr>))) (Bundle_copy extras)
      else Some (Inr (p\<lparr>mExtras := None\<rparr>)))"

definition Parcel_removeExtra :: "str option \<Rightarrow> parcel \<Rightarrow> parcel result" where
  "Parcel_removeExtra name p =
     (case mExtras p of
        None \<Rightarrow> Inr p
      | Some b \<Rightarrow>
          bind_result (Bundle_remove name b) (\<lambda>b1.
          bind_result (Bundle_size b1) (\<lambda>n.
            Inr (p\<lparr>mExtras := (if n = 0 then None else Some b1)\<rparr>))))"

definition Parcel_removeExtra_cstr :: "cstr \<Rightarrow> parcel \<Rightarrow> parcel result" where
  "Parcel_removeExtra_cstr name p = Parcel_removeExtra (String_valueOf_cstr name) p"

definition Parcel_getExtras :: "parcel \<Rightarrow> bundle_state option result option" where
  "Parcel_getExtras p =
     (if mExtras p \<noteq> None then map_option (\<lambda>r. bind_result r (\<lambda>b. Inr (Some b))) (Bundle_copy (mExtras p))
      else Some (Inr None))"

definition Parcel_hasExtra :: "str option \<Rightarrow> parcel \<Rightarrow> bool result" where
  "Parcel_hasExtra name p = (case mExtras p of None \<Rightarrow> Inr False | Some b \<Rightarrow> Bundle_containsKey name b)"

definition Parcel_hasExtra_cstr :: "cstr \<Rightarrow> parcel \<Rightarrow> bool result" where
  "Parcel_hasExtra_cstr name p = Parcel_hasExtra (String_valueOf_cstr name) p"

definition Parcel_getBooleanExtra :: "str option \<Rightarrow> bool \<Rightarrow> parcel \<Rightarrow> bool result" where
  "Parcel_getBooleanExtra name defaultValue p =
     (case mExtras p of None \<Rightarrow> Inr defaultValue | Some b \<Rightarrow> Bundle_getBoolean name defaultValue b)"

definition Parcel_getBooleanExtra_cstr :: "cstr \<Rightarrow> bool \<Rightarrow> parcel \<Rightarrow> bool result" where
  "Parcel_getBooleanExtra_cstr name defaultValue p = Parcel_getBooleanExtra (String_valueOf_cstr name) defaultValue p"

definition Parcel_getByteExtra :: "str option \<Rightarrow> uint8 \<Rightarrow> parcel \<Rightarrow> uint8 result" where
  "Parcel_getByteExtra name defaultValue p =
     (case mExtras p of None \<Rightarrow> Inr defaultValue | Some b \<Rightarrow> Bundle_getByte name defaultValue b)"

definition Parcel_getByteExtra_cstr :: "cstr \<Rightarrow> uint8 \<Rightarrow> parcel \<Rightarrow> uint8 result" where
  "Parcel_getByteExtra_cstr name defaultValue p = Parcel_getByteExtra (String_valueOf_cstr name) defaultValue p"

definition Parcel_getShortExtra :: "str option \<Rightarrow> 16 word \<Rightarrow> parcel \<Rightarrow> (16 word) result" where
  "Parcel_getShortExtra name defaultValue p =
     (case mExtras p of None \<Rightarrow> Inr defaultValue | Some b \<Rightarrow> Bundle_getShort name defaultValue b)"

definition Parcel_getShortExtra_cstr :: "cstr \<Rightarrow> 16 word \<Rightarrow> parcel \<Rightarrow> (16 word) result" where
  "Parcel_getShortExtra_cstr name defaultValue p = Parcel_getShortExtra (String_valueOf_cstr name) defaultValue p"

definition Parcel_getCharExtra :: "str option \<Rightarrow> uint8 \<Rightarrow> parcel \<Rightarrow> uint8 result" where
  "Parcel_getCharExtra name defaultValue p =
     (case mExtras p of None \<Rightarrow> Inr defaultValue | Some b \<Rightarrow> Bundle_getChar name defaultValue b)"

definition Parcel_getCharExtra_cstr :: "cstr \<Rightarrow> uint8 \<Rightarrow> parcel \<Rightarrow> uint8 result" where
  "Parcel_getCharExtra_cstr name defaultValue p = Parcel_getCharExtra (String_valueOf_cstr name) defaultValue p"

definition Parcel_getIntExtra :: "str option \<Rightarrow> int32 \<Rightarrow> parcel \<Rightarrow> int32 result" where
  "Parcel_getIntExtra name defaultValue p =
     (case mExtras p of None \<Rightarrow> Inr defaultValue | Some b \<Rightarrow> Bundle_getInt name defaultValue b)"

definition Parcel_getIntExtra_cstr :: "cstr \<Rightarrow> int32 \<Rightarrow> parcel \<Rightarrow> int32 result" where
  "Parcel_getIntExtra_cstr name defaultValue p = Parcel_getIntExtra (String_valueOf_cstr name) defaultValue p"

definition Parcel_getLongExtra :: "str option \<Rightarrow> int64 \<Rightarrow> parcel \<Rightarrow> int64 result" where
  "Parcel_getLongExtra name defaultValue p =
     (case mExtras p of None \<Rightarrow> Inr defaultValue | Some b \<Rightarrow> Bundle_getLong name defaultValue b)"

definition Parcel_getLongExtra_cstr :: "cstr \<Rightarrow> int64 \<Rightarrow> parcel \<Rightarrow> int64 result" where
  "Parcel_getLongExtra_cstr name defaultValue p = Parcel_getLongExtra (String_valueOf_cstr name) defaultValue p"

definition Parcel_getFloatExtra :: "str option \<Rightarrow> uint32 \<Rightarrow> parcel \<Rightarrow> uint32 result" where
  "Parcel_getFloatExtra name defaultValue p =
     (case mExtras p of None \<Rightarrow> Inr defaultValue | Some b \<Rightarrow> Bundle_getFloat name defaultValue b)"

definition Parcel_getFloatExtra_cstr :: "cstr \<Rightarrow> uint32 \<Rightarrow> parcel \<Rightarrow> uint32 result" where
  "Parcel_getFloatExtra_cstr name defaultValue p = Parcel_getFloatExtra (String_valueOf_cstr name) defaultValue p"

definition Parcel_getDoubleExtra :: "str option \<Rightarrow> uint64 \<Rightarrow> parcel \<Rightarrow> uint64 result" where
  "Parcel_getDoubleExtra name defaultValue p =
     (case mExtras p of None \<Rightarrow> Inr defaultValue | Some b \<Rightarrow> Bundle_getDouble name defaultValue b)"

definition Parcel_getDoubleExtra_cstr :: "cstr \<Rightarrow> uint64 \<Rightarrow> parcel \<Rightarrow> uint64 result" where
  "Parcel_getDoubleExtra_cstr name defaultValue p = Parcel_getDoubleExtra (String_valueOf_cstr name) defaultValue p"

definition Parcel_getStringExtra :: "str option \<Rightarrow> parcel \<Rightarrow> object_ptr result" where
  "Parcel_getStringExtra name p = (case mExtras p of None \<Rightarrow> Inr None | Some b \<Rightarrow> Bundle_getString name b)"

definition Parcel_getStringExtra_cstr :: "cstr \<Rightarrow> parcel \<Rightarrow> object_ptr result" where
  "Parcel_getStringExtra_cstr name p = Parcel_getStringExtra (String_valueOf_cstr name) p"

definition Parcel_getIntegerArrayListExtra :: "str option \<Rightarrow> parcel \<Rightarrow> object_ptr result" where
  "Parcel_getIntegerArrayListExtra name p = (case mExtras p of None \<Rightarrow> Inr None | Some b \<Rightarrow> Bundle_getIntegerArrayList name b)"

definition Parcel_getIntegerArrayListExtra_cstr :: "cstr \<Rightarrow> parcel \<Rightarrow> object_ptr result" where
  "Parcel_getIntegerArrayListExtra_cstr name p = Parcel_getIntegerArrayListExtra (String_valueOf_cstr name) p"

definition Parcel_getStringArrayListExtra :: "str option \<Rightarrow> parcel \<Rightarrow> object_ptr result" where
  "Parcel_getStringArrayListExtra name p = (case mExtras p of None \<Rightarrow> Inr None | Some b \<Rightarrow> Bundle_getStringArrayList name b)"

definition Parcel_getStringArrayListExtra_cstr :: "cstr \<Rightarrow> parcel \<Rightarrow> object_ptr result" where
  "Parcel_getStringArrayListExtra_cstr name p = Parcel_getStringArrayListExtra (String_valueOf_cstr name) p"

definition Parcel_getBundleExtra :: "str option \<Rightarrow> parcel \<Rightarrow> object_ptr result" where
  "Parcel_getBundleExtra name p = (case mExtras p of None \<Rightarrow> Inr None | Some b \<Rightarrow> Bundle_getBundle name b)"

definition Parcel_getBundleExtra_cstr :: "cstr \<Rightarrow> parcel \<Rightarrow> object_ptr result" where
  "Parcel_getBundleExtra_cstr name p = Parcel_getBundleExtra (String_valueOf_cstr name) p"

section \<open>Sequences of values\<close>

fun Parcel_put_item :: "item \<Rightarrow> (unit, parcel) io" where
  "Parcel_put_item (Boolean_item b) p = Parcel_putBoolean b p"
| "Parcel_put_item (Byte_item b) p = Parcel_putByte b p"
| "Parcel_put_item (Char_item c) p = Parcel_putChar c p"
| "Parcel_put_item (Short_item v) p = Parcel_putShort v p"
| "Parcel_put_item (Int_item v) p = Parcel_putInt v p"
| "Parcel_put_item (Long_item v) p = Parcel_putLong v p"
| "Parcel_put_item (Float_item v) p = Parcel_putFloat v p"
| "Parcel_put_item (Double_item v) p = Parcel_putDouble v p"
| "Parcel_put_item (UTF_item str) p = Parcel_putString (Some str) p"

fun Parcel_put_items :: "item list \<Rightarrow> (unit, parcel) io" where
  "Parcel_put_items [] p = (Inr (), p)"
| "Parcel_put_items (x # xs) p =
     (case Parcel_put_item x p of (Inl e, p1) \<Rightarrow> (Inl e, p1) | (Inr _, p1) \<Rightarrow> Parcel_put_items xs p1)"

fun Parcel_get_item :: "item_kind \<Rightarrow> parcel \<Rightarrow> (item result \<times> parcel) option" where
  "Parcel_get_item Boolean_kind p = map_option (result_map Boolean_item) (Parcel_getBoolean p)"
| "Parcel_get_item Byte_kind p = map_option (result_map Byte_item) (Parcel_getByte p)"
| "Parcel_get_item Char_kind p = map_option (result_map Char_item) (Parcel_getChar p)"
| "Parcel_get_item Short_kind p = map_option (result_map Short_item) (Parcel_getShort p)"
| "Parcel_get_item Int_kind p = map_option (result_map Int_item) (Parcel_getInt p)"
| "Parcel_get_item Long_kind p = map_option (result_map Long_item) (Parcel_getLong p)"
| "Parcel_get_item Float_kind p = map_option (result_map Float_item) (Parcel_getFloat p)"
| "Parcel_get_item Double_kind p = map_option (result_map Double_item) (Parcel_getDouble p)"
| "Parcel_get_item UTF_kind p = map_option (result_map UTF_item) (Parcel_getString p)"

fun Parcel_get_items :: "item_kind list \<Rightarrow> parcel \<Rightarrow> (item list result \<times> parcel) option" where
  "Parcel_get_items [] p = Some (Inr [], p)"
| "Parcel_get_items (k # ks) p =
     Option.bind (Parcel_get_item k p) (\<lambda>(r, p1).
       case r of
         Inl e \<Rightarrow> Some (Inl e, p1)
       | Inr x \<Rightarrow> map_option (result_map (Cons x)) (Parcel_get_items ks p1))"

lemmas parcel_put_defs =
  Parcel_putBoolean_def Parcel_putByte_def Parcel_putChar_def Parcel_putShort_def Parcel_putInt_def
  Parcel_putLong_def Parcel_putFloat_def Parcel_putDouble_def Parcel_putString_def

lemmas parcel_get_defs =
  Parcel_getBoolean_def Parcel_getByte_def Parcel_getChar_def Parcel_getShort_def Parcel_getInt_def
  Parcel_getLong_def Parcel_getFloat_def Parcel_getDouble_def Parcel_getString_def

lemma to_remote_simps [simp]:
  "to_remote (Inr x) = Inr x"
  "to_remote (Inl IOException) = Inl RemoteException"
  "to_remote (Inl EOFException) = Inl RemoteException"
  by (simp_all add: to_remote_def)

lemma map_sum_Inr_iff: "map_sum (\<lambda>e. e) f r = Inr y \<longleftrightarrow> (\<exists>x. r = Inr x \<and> y = f x)"
  by (cases r) auto

lemma to_remote_map: "to_remote (map_sum (\<lambda>e. e) f r) = map_sum (\<lambda>e. e) f (to_remote r)"
  by (cases r) (simp_all add: to_remote_def)

lemma Parcel_put_item_alt:
  "mInputStream p = None \<Longrightarrow> Parcel_put_item x p =
     (let (r, o1) = write_item ByteArrayOutputStream_write ByteArrayOutputStream_write_bytes x (mOutputStream p)
      in (to_remote r, p\<lparr>mOutputStream := o1\<rparr>))"
  by (cases x) (simp_all add: parcel_put_defs parcel_put_def Parcel_checkOutput_def)

lemma Parcel_put_items_alt:
  "mInputStream p = None \<Longrightarrow> Parcel_put_items xs p =
     (let (r, o1) = write_items ByteArrayOutputStream_write ByteArrayOutputStream_write_bytes xs (mOutputStream p)
      in (to_remote r, p\<lparr>mOutputStream := o1\<rparr>))"
proof (induction xs arbitrary: p)
  case (Cons x xs)
  show ?case
    using Cons.prems Cons.IH
    by (auto simp: Parcel_put_item_alt Let_def to_remote_def split: prod.splits sum.splits)
qed simp

lemma Parcel_get_item_alt:
  assumes "mInputStream p = Some i"
  shows "Parcel_get_item k p =
     map_option (\<lambda>(r, i1). (to_remote r, p\<lparr>mInputStream := Some i1\<rparr>))
       (read_item ByteArrayInputStream_read ByteArrayInputStream_read_bytes k i)"
  using assms
  by (cases k)
    (auto simp: parcel_get_defs parcel_get_def result_map_def to_remote_map option.map_comp comp_def case_prod_unfold)

lemma Parcel_get_items_reads:
  "mInputStream p = Some i \<Longrightarrow>
   read_items ByteArrayInputStream_read ByteArrayInputStream_read_bytes ks i = Some (Inr xs, i') \<Longrightarrow>
     Parcel_get_items ks p = Some (Inr xs, p\<lparr>mInputStream := Some i'\<rparr>)"
proof (induction ks arbitrary: p i xs)
  case Nil
  then show ?case by (auto simp: parcel.equality)
next
  case (Cons k ks)
  let ?read = "read_items ByteArrayInputStream_read ByteArrayInputStream_read_bytes"
  obtain r i1 where r: "read_item ByteArrayInputStream_read ByteArrayInputStream_read_bytes k i = Some (r, i1)"
    using Cons.prems(2) by (cases "read_item ByteArrayInputStream_read ByteArrayInputStream_read_bytes k i") auto
  then obtain x ys where x: "r = Inr x" "?read ks i1 = Some (Inr ys, i')" "xs = x # ys"
    using Cons.prems(2) by (cases r) (auto simp: result_map_def map_sum_Inr_iff)
  have "Parcel_get_items ks (p\<lparr>mInputStream := Some i1\<rparr>) = Some (Inr ys, p\<lparr>mInputStream := Some i'\<rparr>)"
    using Cons.IH[of "p\<lparr>mInputStream := Some i1\<rparr>" i1] x(2) by simp
  then show ?case
    using Parcel_get_item_alt[OF Cons.prems(1), of k] r x by (simp add: result_map_def)
qed

section \<open>Well-formed parcels\<close>

definition output_ok :: "parcel \<Rightarrow> bool" where
  "output_ok p \<longleftrightarrow> mInputStream p = None \<and> baos_ok (doStream (mOutputStream p)) \<and> length (doScratchpad (mOutputStream p)) = 8"

definition written :: "parcel \<Rightarrow> bytes" where
  "written p = baos_sent (doStream (mOutputStream p))"

definition extras_ok :: "parcel \<Rightarrow> bool" where
  "extras_ok p = (case mExtras p of None \<Rightarrow> True | Some b \<Rightarrow> bundle_ok b)"

lemma put_items_writes:
  assumes "output_ok p" and "length (written p) + length (items_bytes xs) < 2 ^ 62"
  shows "\<exists>p'. Parcel_put_items xs p = (Inr (), p') \<and> output_ok p' \<and> written p' = written p @ items_bytes xs"
  using byte_array_output.write_items_sends[of "mOutputStream p" xs] assms
  by (auto simp: output_ok_def written_def Parcel_put_items_alt data_sends_def)

lemma asInput_output:
  "mInputStream p = None \<Longrightarrow> Parcel_asInput p = Inr (p\<lparr>mInputStream := Some (DataInputStream_new
     \<lparr>inBuffer = outBuffer (doStream (mOutputStream p)), inPosition = 0, inMark = 0,
      inCount = (if outCount (doStream (mOutputStream p)) > ByteArray_size (outBuffer (doStream (mOutputStream p)))
        then ByteArray_size (outBuffer (doStream (mOutputStream p))) else outCount (doStream (mOutputStream p)))\<rparr>)\<rparr>)"
  by (simp add: Parcel_asInput_def Parcel_asInputStream_def ByteArrayInputStream_range_def Let_def
      ByteArrayOutputStream_getByteArray_def ByteArrayOutputStream_size_def)

lemma asInput_reads_written:
  assumes "output_ok p"
  shows "\<exists>p' i. Parcel_asInput p = Inr p' \<and> mInputStream p' = Some i \<and> bais_ok (diStream i) \<and>
    bais_pending (diStream i) = written p \<and> length (diScratchpad i) = 8 \<and> output_ok (Parcel_asOutput p') \<and>
    written (Parcel_asOutput p') = written p"
proof -
  have "unat (outCount (doStream (mOutputStream p))) \<le> length (outBuffer (doStream (mOutputStream p)))"
    "length (outBuffer (doStream (mOutputStream p))) < 2 ^ 63"
    using assms by (auto simp: output_ok_def baos_ok_def)
  moreover have "mInputStream p = None" using assms by (simp add: output_ok_def)
  ultimately show ?thesis
    using assms of_nat_size[of "outBuffer (doStream (mOutputStream p))"]
    by (simp add: asInput_output output_ok_def bais_ok_def bais_pending_def written_def
        baos_sent_def DataInputStream_new_def ByteArray_new_def read_at_def Parcel_asOutput_def Parcel_asOutputStream_def
        word_less_nat_alt)
qed

lemma written_then_read:
  assumes "output_ok p" and "written p = items_bytes xs" and "\<forall>x \<in> set xs. representable x"
  shows "\<exists>p1 p2 i. Parcel_asInput p = Inr p1 \<and> Parcel_get_items (map kind_of xs) p1 = Some (Inr (map one_NaN xs), p2) \<and>
    mInputStream p2 = Some i \<and> bais_ok (diStream i) \<and> bais_pending (diStream i) = [] \<and> length (diScratchpad i) = 8 \<and>
    output_ok (Parcel_asOutput p2) \<and> written (Parcel_asOutput p2) = written p"
proof -
  obtain p1 i where 1: "Parcel_asInput p = Inr p1" "mInputStream p1 = Some i" "bais_ok (diStream i)"
    "bais_pending (diStream i) = items_bytes xs @ []" "length (diScratchpad i) = 8" "output_ok (Parcel_asOutput p1)"
    "written (Parcel_asOutput p1) = written p"
    using asInput_reads_written[OF assms(1)] assms(2) by auto
  obtain i2 where 2: "read_items ByteArrayInputStream_read ByteArrayInputStream_read_bytes (map kind_of xs) i =
      Some (Inr (map one_NaN xs), i2)" "bais_ok (diStream i2)" "length (diScratchpad i2) = 8" "bais_pending (diStream i2) = []"
    using byte_array_input.read_items_reads[OF 1(3,5,4) assms(3)] by (auto simp: data_reads_def)
  show ?thesis
    using 1 2 Parcel_get_items_reads[OF 1(2) 2(1)]
    by (auto simp: Parcel_asOutput_def Parcel_asOutputStream_def output_ok_def written_def)
qed

lemma Bundle_remove_spec:
  assumes "bundle_ok b"
  shows "\<exists>b'. Bundle_remove (Some k) b = Inr b' \<and> bundle_ok b' \<and>
    (\<forall>l. Bundle_containsKey (Some l) b' = Inr (\<not> string_keys k l \<and> Bundle_containsKey (Some l) b = Inr True))"
proof -
  obtain m where m: "b = Some m" "um_inv string_keys m" "list_all entry_ok m"
    using assms by (rule bundle_okE)
  have "list_all entry_ok (um_erase string_keys k m)"
    using m(3) by (auto simp: list_all_iff dest: um_erase_subset)
  then show ?thesis
    using m string_key.um_erase_inv[OF m(2), of k] string_key.um_find_erase[OF m(2)]
    by (simp add: Bundle_remove_def HashMapKV_remove_def bundle_ok_def Bundle_containsKey_def HashMapKV_containsKey_def)
qed

lemma containsKey_get:
  assumes "bundle_ok b"
  shows "Bundle_containsKey (Some l) b = Inr (Bundle_get (Some l) b \<noteq> Inr None)"
proof -
  obtain m where m: "b = Some m" "list_all entry_ok m"
    using assms by (rule bundle_okE)
  show ?thesis
    using m um_find_all[OF m(2), of string_keys l]
    by (cases "um_find string_keys l m")
      (auto simp: Bundle_containsKey_def HashMapKV_containsKey_def Bundle_get_def HashMapKV_get_def entry_ok_def split: option.splits)
qed

lemma Bundle_size_0: "bundle_ok b \<Longrightarrow> \<exists>n. Bundle_size b = Inr n \<and> (n = 0 \<longleftrightarrow> b = Some [])"
  by (auto elim!: bundle_okE simp: Bundle_size_def HashMapKV_size_def)

section \<open>Properties\<close>



text \<open>
  The two modes of a parcel exclude each other. In input mode every \<open>put\<close> throws \<open>IllegalStateException\<close>, in output mode
  every \<open>get\<close> does, and nothing changes. \<open>asInput\<close> in input mode keeps the position and \<open>asOutput\<close> in output mode does
  nothing; switching keeps the written bytes and the extras.
\<close>

theorem Parcel_modes:
  assumes "mInputStream p = Some i" and "output_ok q"
  shows "Parcel_put_item x p = (Inl IllegalStateException, p) \<and> Parcel_putBytes buffer p = (Inl IllegalStateException, p) \<and>
    Parcel_putBytes_range buffer offset n p = (Inl IllegalStateException, p) \<and>
    Parcel_get_item k q = Some (Inl IllegalStateException, q) \<and> Parcel_getBytes q = (Inl IllegalStateException, q) \<and>
    Parcel_getBytes_sized n q = (Inl IllegalStateException, q) \<and>
    Parcel_asInput p = Inr p \<and> Parcel_asOutput q = q \<and> mInputStream (Parcel_asOutput p) = None \<and>
    (\<exists>q'. Parcel_asInput q = Inr q' \<and> mInputStream q' \<noteq> None \<and> Parcel_size q' = Parcel_size q \<and> mExtras q' = mExtras q \<and>
      written q' = written q \<and> Parcel_asOutput q' = q)"
proof -
  have q: "mInputStream q = None" using assms(2) by (simp add: output_ok_def)
  have "Parcel_put_item x p = (Inl IllegalStateException, p)"
    using assms(1) by (cases x) (simp_all add: parcel_put_defs parcel_put_def Parcel_checkOutput_def)
  moreover have "Parcel_get_item k q = Some (Inl IllegalStateException, q)"
    using q by (cases k) (simp_all add: parcel_get_defs parcel_get_def result_map_def)
  moreover have "\<exists>q'. Parcel_asInput q = Inr q' \<and> mInputStream q' \<noteq> None \<and> Parcel_size q' = Parcel_size q \<and>
      mExtras q' = mExtras q \<and> written q' = written q \<and> Parcel_asOutput q' = q"
    using q by (cases q) (simp add: asInput_output Parcel_size_def written_def Parcel_asOutput_def Parcel_asOutputStream_def)
  ultimately show ?thesis
    using assms(1) q
    by (simp add: Parcel_putBytes_def Parcel_putBytes_range_def Parcel_checkOutput_def Parcel_getBytes_def
        Parcel_getBytes_sized_def Parcel_asInput_def Parcel_asInputStream_def Parcel_asOutput_def Parcel_asOutputStream_def)
qed

theorem Parcel_modes_witness:
  "\<exists>p. Parcel_asInput Parcel_obtain = Inr p \<and> Parcel_put_item (Int_item 1) p = (Inl IllegalStateException, p) \<and>
     Parcel_get_item Int_kind Parcel_obtain = Some (Inl IllegalStateException, Parcel_obtain)"
proof -
  have ok: "output_ok Parcel_obtain"
    using baos_new
    by (simp add: Parcel_obtain_def Parcel_new_def parcel_over_def output_ok_def DataOutputStream_new_def ByteArray_new_def)
  then obtain p i where "Parcel_asInput Parcel_obtain = Inr p" "mInputStream p = Some i"
    using asInput_reads_written by blast
  then show ?thesis
    using Parcel_modes[of p i Parcel_obtain "Int_item 1" None 0 0 Int_kind] ok by blast
qed

text \<open>
  The extras of a parcel. The first extra creates the bundle; an extra that was put is present and is returned, and the
  bytes of the parcel are not touched. Removing it takes it away again, and a bundle that becomes empty is dropped. Without
  extras every read returns its default, and \<open>hasExtra\<close> is false.
\<close>

theorem Parcel_extras:
  assumes "extras_ok p"
  shows "\<exists>p1 p2. Parcel_putIntExtra (Some k) v p = Inr p1 \<and> extras_ok p1 \<and> Parcel_hasExtra (Some k) p1 = Inr True \<and>
    Parcel_getIntExtra (Some k) d p1 = Inr v \<and> mOutputStream p1 = mOutputStream p \<and> mInputStream p1 = mInputStream p \<and>
    Parcel_removeExtra (Some k) p1 = Inr p2 \<and> extras_ok p2 \<and> Parcel_hasExtra (Some k) p2 = Inr False \<and>
    (\<forall>l. \<not> string_keys k l \<longrightarrow> Parcel_hasExtra (Some l) p2 = Parcel_hasExtra (Some l) p) \<and>
    (mExtras p = None \<longrightarrow> mExtras p2 = None \<and> Parcel_getIntExtra (Some k) d p = Inr d \<and> Parcel_hasExtra (Some k) p = Inr False)"
proof -
  define b where "b = (case mExtras p of None \<Rightarrow> Bundle_new | Some b \<Rightarrow> b)"
  have ok: "bundle_ok b"
    using assms by (auto simp: b_def extras_ok_def Bundle_new_def bundle_ok_def split: option.splits)
  have had: "Parcel_hasExtra (Some l) p = Bundle_containsKey (Some l) b" for l
    by (auto simp: Parcel_hasExtra_def b_def Bundle_new_def Bundle_containsKey_def HashMapKV_containsKey_def split: option.splits)
  obtain b1 where b1: "Bundle_putInt (Some k) v b = Inr b1" "bundle_ok b1" "Bundle_getInt (Some k) d b1 = Inr v"
    "\<forall>l. \<not> string_keys k l \<longrightarrow> Bundle_get (Some l) b1 = Bundle_get (Some l) b" "Bundle_get (Some k) b1 \<noteq> Inr None"
    using Bundle_put_spec[OF ok, of "Variant_of_int v" k]
    by (auto simp: Bundle_putInt_def Bundle_getInt_def typed_get_def read_simps Variant_of_int_def)
  obtain b2 where b2: "Bundle_remove (Some k) b1 = Inr b2" "bundle_ok b2"
    "\<forall>l. Bundle_containsKey (Some l) b2 = Inr (\<not> string_keys k l \<and> Bundle_containsKey (Some l) b1 = Inr True)"
    using Bundle_remove_spec[OF b1(2)] by blast
  obtain n where n: "Bundle_size b2 = Inr n" "n = 0 \<longleftrightarrow> b2 = Some []"
    using Bundle_size_0[OF b2(2)] by blast
  let ?p1 = "p\<lparr>mExtras := Some b1\<rparr>" and ?p2 = "p\<lparr>mExtras := (if n = 0 then None else Some b2)\<rparr>"
  have "Parcel_putIntExtra (Some k) v p = Inr ?p1"
    using b1(1) by (simp add: Parcel_putIntExtra_def put_extra_def b_def Let_def)
  moreover have "Parcel_removeExtra (Some k) ?p1 = Inr ?p2"
    using b2(1) n(1) by (simp add: Parcel_removeExtra_def)
  moreover have has2: "Parcel_hasExtra (Some l) ?p2 = Bundle_containsKey (Some l) b2" for l
    using n(2) by (auto simp: Parcel_hasExtra_def Bundle_containsKey_def HashMapKV_containsKey_def)
  moreover have "Bundle_containsKey (Some l) b2 = Bundle_containsKey (Some l) b" if "\<not> string_keys k l" for l
    using b2(3) b1(4) that by (simp add: containsKey_get[OF b1(2)] containsKey_get[OF ok])
  moreover have "n = 0" if "mExtras p = None"
  proof -
    have "b1 = Some [(k, Some (Variant_of_int v))]"
      using b1(1) that by (auto simp: b_def Bundle_new_def Bundle_putInt_def Bundle_put_def HashMapKV_put_def um_index_def)
    then show ?thesis
      using b2(1) n(2) by (auto simp: Bundle_remove_def HashMapKV_remove_def)
  qed
  ultimately show ?thesis
    using b1(2,3,5) b2(2,3) had
    by (intro exI[of _ ?p1] exI[of _ ?p2])
      (simp add: extras_ok_def Parcel_hasExtra_def Parcel_getIntExtra_def containsKey_get[OF b1(2)])
qed

theorem Parcel_extras_witness:
  "\<exists>p1. Parcel_putIntExtra (Some (Some [97])) 5 Parcel_obtain = Inr p1 \<and> Parcel_getIntExtra (Some (Some [97])) 0 p1 = Inr 5"
proof -
  have "extras_ok Parcel_obtain"
    by (simp add: extras_ok_def Parcel_obtain_def Parcel_new_def parcel_over_def)
  from Parcel_extras[OF this, of "Some [97]" 5 0] show ?thesis by blast
qed

end
