(* ===== verification/Promises.thy ===== *)
theory Promises
  imports Messages
begin

text \<open>
  Promises (\<open>src/mindroid/util/concurrent/Promise.h\<close>, \<open>Thenable.h\<close>, \<open>Future.h\<close>): values that are completed once,
  and the actions that are registered on them and run when they are.

  Promises, actions and the nodes of the action lists live in a store. An action may be registered with two
  promises, and running one completes another promise whose actions then run inside the first call, so a
  call of the library is executed by a stack of frames: \<open>work\<close> performs the topmost frame and returns the frames
  that replace it, \<open>execute\<close> runs a stack to its end. A function of the code that may run actions
  returns the frames of the calls that remain to be made. Every call holds the locks it takes for its whole duration, so
  calls from several threads interleave as wholes.

  The functions that clients register are parameters. Such a callback gets the result or the exception of the promise, makes
  calls that complete, fail or cancel promises, and returns or throws. A result is \<open>None\<close> for the value of a default
  constructed \<open>T\<close> (a null pointer for smart pointers). Exceptions are their class and cause; messages are left out.
\<close>

section \<open>Exceptions as objects\<close>

text \<open>The class is \<open>None\<close> for the base class \<open>Exception\<close>.\<close>

datatype throwable = Throwable (class_of: "exception option") (cause_of: "throwable option")

definition Exception_clone :: "throwable \<Rightarrow> throwable" where
  "Exception_clone e = Throwable None (cause_of e)"

definition isInstance :: "exception \<Rightarrow> throwable option \<Rightarrow> bool" where
  "isInstance c e = (case e of None \<Rightarrow> False | Some x \<Rightarrow> class_of x = Some c)"

definition CompletionException_of :: "throwable \<Rightarrow> throwable" where
  "CompletionException_of cause = Throwable (Some CompletionException) (Some cause)"

definition toCompletionException :: "throwable \<Rightarrow> throwable" where
  "toCompletionException e = (if isInstance CompletionException (Some e) then e else CompletionException_of e)"

definition toCompletionException_ref :: "throwable \<Rightarrow> throwable" where
  "toCompletionException_ref e = toCompletionException (Exception_clone e)"

text \<open>What a callback throws: an exception of the framework, or anything else.\<close>

datatype thrown = Mindroid_exception throwable | Other_exception

text \<open>The three handlers that enclose every call of a callback.\<close>

definition caught :: "thrown \<Rightarrow> throwable" where
  "caught t = (case t of
      Mindroid_exception e \<Rightarrow> toCompletionException_ref e
    | Other_exception \<Rightarrow> Throwable (Some CompletionException) None)"

section \<open>The store\<close>

text \<open>The synchronous executor runs a task at once; any other executor queues it for a thread of its own.\<close>

datatype executor = Synchronous_executor | Posting_executor nat

datatype 'v client_call =
    Call_complete addr "'v option"
  | Call_completeWith addr throwable
  | Call_cancel addr
  | Call_removeCallbacks nat

type_synonym 'v callback = "'v option \<Rightarrow> throwable option \<Rightarrow> 'v client_call list \<times> (thrown + 'v option)"
type_synonym 'v composer = "'v option \<Rightarrow> throwable option \<Rightarrow> 'v client_call list \<times> (thrown + addr option)"

datatype 'v action_class =
    RelayAction addr addr
  | BiRelayAction addr addr addr
  | FunctionAction addr addr "'v callback"
  | BiFunctionAction addr addr "'v callback"
  | CompositionFunctionAction addr addr "'v composer"
  | BiCompositionFunctionAction addr addr "'v composer"
  | ConsumerAction addr addr "'v callback"
  | BiConsumerAction addr addr "'v callback"
  | RunAction addr addr "'v callback"
  | AnyOfAction addr addr
  | ErrorRelayAction addr addr
  | ErrorFunctionAction addr addr "'v callback"
  | ErrorConsumerAction addr addr "'v callback"
  | DelayAction addr addr uint64

record 'v action =
  dynamic_class :: "'v action_class"
  mActionExecutor :: "executor option"
  mClaim :: bool

record 'v promise =
  mResult :: "'v option"
  mException :: "throwable option"
  mIsDone :: bool
  mExecutor :: "executor option"
  mActions :: "(nat \<times> addr) list option"

datatype 'v timer = Timeout_Completion addr "'v option" | Timeout_Exception addr "throwable option"

text \<open>
  \<open>posted\<close> holds the tasks given to queueing executors, in order. \<open>history\<close> is not part of the code: it records
  the actions whose \<open>run\<close> was entered.
\<close>

record 'v promise_store =
  promises :: "addr \<Rightarrow> 'v promise"
  promise_count :: nat
  actions :: "addr \<Rightarrow> 'v action"
  action_count :: nat
  node_count :: nat
  posted :: "(nat \<times> addr) list"
  timers :: "(nat \<times> 'v timer \<times> uint64) list"
  timer_count :: nat
  history :: "addr list"

abbreviation isDone :: "addr \<Rightarrow> 'v promise_store \<Rightarrow> bool" where
  "isDone p h \<equiv> mIsDone (promises h p)"

abbreviation getException :: "addr \<Rightarrow> 'v promise_store \<Rightarrow> throwable option" where
  "getException p h \<equiv> mException (promises h p)"

abbreviation getResult :: "addr \<Rightarrow> 'v promise_store \<Rightarrow> 'v option" where
  "getResult p h \<equiv> mResult (promises h p)"

definition upd_promise :: "addr \<Rightarrow> ('v promise \<Rightarrow> 'v promise) \<Rightarrow> 'v promise_store \<Rightarrow> 'v promise_store" where
  "upd_promise p f h = h\<lparr>promises := (promises h)(p := f (promises h p))\<rparr>"

definition upd_action :: "addr \<Rightarrow> ('v action \<Rightarrow> 'v action) \<Rightarrow> 'v promise_store \<Rightarrow> 'v promise_store" where
  "upd_action a f h = h\<lparr>actions := (actions h)(a := f (actions h a))\<rparr>"

definition Promise_new :: "executor option \<Rightarrow> 'v promise_store \<Rightarrow> addr \<times> 'v promise_store" where
  "Promise_new ex h =
     (promise_count h,
      h\<lparr>promises := (promises h)(promise_count h :=
           \<lparr>mResult = None, mException = None, mIsDone = False, mExecutor = ex, mActions = None\<rparr>),
        promise_count := promise_count h + 1\<rparr>)"

definition Action_new :: "'v action_class \<Rightarrow> executor option \<Rightarrow> 'v promise_store \<Rightarrow> addr \<times> 'v promise_store" where
  "Action_new c ex h =
     (action_count h,
      h\<lparr>actions := (actions h)(action_count h := \<lparr>dynamic_class = c, mActionExecutor = ex, mClaim = False\<rparr>),
        action_count := action_count h + 1\<rparr>)"

text \<open>The list of actions of a promise; the pointer is null before the first action is added.\<close>

definition action_nodes :: "addr \<Rightarrow> 'v promise_store \<Rightarrow> (nat \<times> addr) list" where
  "action_nodes p h = (case mActions (promises h p) of None \<Rightarrow> [] | Some l \<Rightarrow> l)"

section \<open>Frames\<close>

text \<open>
  \<open>Frame_runActions p itr\<close> is the loop of \<open>runActions\<close> with its iterator (the node it points to, \<open>None\<close> at the end);
  \<open>Frame_end\<close> and \<open>Frame_compose\<close> are the rest of a \<open>run\<close> after its callback.
\<close>

datatype 'v frame =
    Frame_runActions addr "nat option"
  | Frame_tryRun addr
  | Frame_run addr
  | Frame_call "'v client_call"
  | Frame_end addr "thrown + 'v option"
  | Frame_compose addr "thrown + addr option"

type_synonym 'v progress = "'v frame list \<times> 'v promise_store"

section \<open>Thenable\<close>

definition setException :: "addr \<Rightarrow> throwable \<Rightarrow> 'v promise_store \<Rightarrow> 'v promise_store" where
  "setException p e h =
     (if isDone p h then h else upd_promise p (\<lambda>x. x\<lparr>mException := Some e, mIsDone := True\<rparr>) h)"

definition setResult :: "addr \<Rightarrow> 'v option \<Rightarrow> 'v promise_store \<Rightarrow> 'v promise_store" where
  "setResult p v h =
     (if isDone p h then h else upd_promise p (\<lambda>x. x\<lparr>mResult := v, mIsDone := True\<rparr>) h)"

fun remove_action :: "addr \<Rightarrow> (nat \<times> addr) list \<Rightarrow> (nat \<times> addr) list" where
  "remove_action a [] = []"
| "remove_action a (x # xs) = (if snd x = a then xs else x # remove_action a xs)"

definition addAction :: "addr \<Rightarrow> addr \<Rightarrow> 'v promise_store \<Rightarrow> 'v progress" where
  "addAction p a h =
     (let h1 = upd_promise p (\<lambda>x. x\<lparr>mActions := Some (action_nodes p h @ [(node_count h, a)])\<rparr>) h;
          h2 = h1\<lparr>node_count := node_count h + 1\<rparr>
      in if isDone p h2
         then ([Frame_tryRun a], upd_promise p (\<lambda>x. x\<lparr>mActions := Some (remove_action a (action_nodes p h2))\<rparr>) h2)
         else ([], h2))"

definition removeAction :: "addr \<Rightarrow> addr \<Rightarrow> 'v promise_store \<Rightarrow> 'v promise_store" where
  "removeAction p a h = upd_promise p (\<lambda>x. x\<lparr>mActions := map_option (remove_action a) (mActions x)\<rparr>) h"

definition first_node :: "(nat \<times> addr) list \<Rightarrow> nat option" where
  "first_node l = map_option fst (hd_opt l)"

text \<open>\<open>onComplete\<close> wakes the waiting threads and runs the actions.\<close>

definition onComplete :: "addr \<Rightarrow> 'v promise_store \<Rightarrow> 'v frame list" where
  "onComplete p h =
     (case mActions (promises h p) of
        None \<Rightarrow> []
      | Some l \<Rightarrow> [Frame_runActions p (first_node l)])"

text \<open>
  One turn of the loop of \<open>runActions\<close>: \<open>next\<close> and \<open>remove\<close> of the iterator, then \<open>tryRun\<close>. An iterator whose
  node has been erased is dangling.
\<close>

definition runActions_turn :: "addr \<Rightarrow> nat option \<Rightarrow> 'v promise_store \<Rightarrow> 'v progress result" where
  "runActions_turn p itr h =
     (case itr of
        None \<Rightarrow> Inr ([], h)
      | Some n \<Rightarrow>
          (case dropWhile (\<lambda>x. fst x \<noteq> n) (action_nodes p h) of
             [] \<Rightarrow> Inl Undefined
           | x # rest \<Rightarrow>
               Inr ([Frame_tryRun (snd x), Frame_runActions p (first_node rest)],
                    upd_promise p (\<lambda>y. y\<lparr>mActions := Some (takeWhile (\<lambda>x. fst x \<noteq> n) (action_nodes p h) @ rest)\<rparr>) h)))"

section \<open>Completing a promise\<close>

definition valid :: "addr \<Rightarrow> 'v promise_store \<Rightarrow> bool" where
  "valid p h \<longleftrightarrow> p < promise_count h"

definition complete :: "addr \<Rightarrow> 'v option \<Rightarrow> 'v promise_store \<Rightarrow> (bool \<times> 'v progress) result" where
  "complete p v h =
     (if \<not> valid p h then Inl Undefined
      else if \<not> isDone p h
      then let h1 = upd_promise p (\<lambda>x. x\<lparr>mResult := v, mIsDone := True\<rparr>) h in Inr (True, onComplete p h1, h1)
      else Inr (False, [], h))"

definition completeWith :: "addr \<Rightarrow> throwable option \<Rightarrow> 'v promise_store \<Rightarrow> (bool \<times> 'v progress) result" where
  "completeWith p e h =
     (case e of
        None \<Rightarrow> Inl NullPointerException
      | Some x \<Rightarrow>
          if \<not> valid p h then Inl Undefined
          else if \<not> isDone p h
          then let h1 = upd_promise p (\<lambda>y. y\<lparr>mException := Some x, mIsDone := True\<rparr>) h in Inr (True, onComplete p h1, h1)
          else Inr (False, [], h))"

definition completeWith_ref :: "addr \<Rightarrow> throwable \<Rightarrow> 'v promise_store \<Rightarrow> (bool \<times> 'v progress) result" where
  "completeWith_ref p e h = completeWith p (Some (Exception_clone e)) h"

definition isCancelled :: "addr \<Rightarrow> 'v promise_store \<Rightarrow> bool" where
  "isCancelled p h = isInstance CancellationException (getException p h)"

definition isCompletedExceptionally :: "addr \<Rightarrow> 'v promise_store \<Rightarrow> bool" where
  "isCompletedExceptionally p h = (getException p h \<noteq> None)"

definition cancel :: "addr \<Rightarrow> 'v promise_store \<Rightarrow> (bool \<times> 'v progress) result" where
  "cancel p h =
     bind_result (completeWith p (Some (Throwable (Some CancellationException) None)) h)
       (\<lambda>(cancelled, fs, h1). Inr (cancelled \<or> isCancelled p h1, fs, h1))"

text \<open>
  \<open>if (p->isDone()) action->tryRun(); else p->addAction(action);\<close> ends every function that registers an action.
\<close>

definition attach :: "addr \<Rightarrow> addr \<Rightarrow> 'v promise_store \<Rightarrow> 'v progress" where
  "attach p a h = (if isDone p h then ([Frame_tryRun a], h) else addAction p a h)"

definition completeWith_supplier :: "addr \<Rightarrow> addr option \<Rightarrow> 'v promise_store \<Rightarrow> 'v progress result" where
  "completeWith_supplier p supplier h =
     (case supplier of
        None \<Rightarrow> Inl NullPointerException
      | Some s \<Rightarrow>
          if \<not> valid p h \<or> \<not> valid s h then Inl Undefined
          else let (a, h1) = Action_new (RelayAction s p) None h in Inr (attach s a h1))"

text \<open>
  The constructors. Without an executor a promise takes the one of the looper of its thread, if it has a looper; a constructor
  with an initial value completes the promise, on which no action is registered yet.
\<close>

definition Promise_on_looper :: "executor option \<Rightarrow> 'v promise_store \<Rightarrow> addr \<times> 'v promise_store" where
  "Promise_on_looper myLooper h =
     (case myLooper of Some ex \<Rightarrow> Promise_new (Some ex) h | None \<Rightarrow> Promise_new None h)"

definition Promise_on_handler :: "executor option \<Rightarrow> 'v promise_store \<Rightarrow> (addr \<times> 'v promise_store) result" where
  "Promise_on_handler handler h =
     (case handler of None \<Rightarrow> Inl NullPointerException | Some ex \<Rightarrow> Inr (Promise_new (Some ex) h))"

definition Promise_completed :: "executor option \<Rightarrow> 'v option \<Rightarrow> 'v promise_store \<Rightarrow> (addr \<times> 'v progress) result" where
  "Promise_completed ex v h =
     (let (p, h1) = Promise_new ex h in bind_result (complete p v h1) (\<lambda>(_, pr). Inr (p, pr)))"

definition Promise_failed :: "executor option \<Rightarrow> throwable option \<Rightarrow> 'v promise_store \<Rightarrow> (addr \<times> 'v progress) result" where
  "Promise_failed ex e h =
     (let (p, h1) = Promise_new ex h in bind_result (completeWith p e h1) (\<lambda>(_, pr). Inr (p, pr)))"

definition Promise_following :: "executor option \<Rightarrow> addr option \<Rightarrow> 'v promise_store \<Rightarrow> (addr \<times> 'v progress) result" where
  "Promise_following myLooper supplier h =
     (let (p, h1) = Promise_on_looper myLooper h in bind_result (completeWith_supplier p supplier h1) (\<lambda>pr. Inr (p, pr)))"

definition AsyncAwait_async :: "executor option \<Rightarrow> 'v promise_store \<Rightarrow> (addr \<times> 'v progress) result" where
  "AsyncAwait_async ex h = Promise_completed ex None h"

section \<open>Registering actions\<close>

text \<open>
  The common part of the functions that register an action: the new promise \<open>c\<close> gets the executor of this one, the
  action the given executor.
\<close>

definition register ::
  "executor option \<Rightarrow> addr \<Rightarrow> (addr \<Rightarrow> 'v action_class) \<Rightarrow> 'v promise_store \<Rightarrow> (addr \<times> 'v progress) result" where
  "register ex p mk h =
     (if \<not> valid p h then Inl Undefined
      else case ex of
        None \<Rightarrow> Inl NullPointerException
      | Some e \<Rightarrow>
          let (c, h1) = Promise_new (mExecutor (promises h p)) h;
              (a, h2) = Action_new (mk c) (Some e) h1
          in Inr (c, attach p a h2))"

definition thenApply where
  "thenApply ex p f = register ex p (\<lambda>c. FunctionAction p c f)"

definition thenApply_bi where
  "thenApply_bi ex p f = register ex p (\<lambda>c. BiFunctionAction p c f)"

definition thenCompose where
  "thenCompose ex p f = register ex p (\<lambda>c. CompositionFunctionAction p c f)"

definition thenCompose_bi where
  "thenCompose_bi ex p f = register ex p (\<lambda>c. BiCompositionFunctionAction p c f)"

definition thenAccept where
  "thenAccept ex p f = register ex p (\<lambda>c. ConsumerAction p c f)"

definition thenAccept_bi where
  "thenAccept_bi ex p f = register ex p (\<lambda>c. BiConsumerAction p c f)"

definition thenRun ::
  "executor option \<Rightarrow> addr \<Rightarrow> 'v callback option \<Rightarrow> 'v promise_store \<Rightarrow> (addr \<times> 'v progress) result" where
  "thenRun ex p f h =
     (case (ex, f) of
        (Some _, None) \<Rightarrow> Inl NullPointerException
      | (_, Some g) \<Rightarrow> register ex p (\<lambda>c. RunAction p c g) h
      | (None, None) \<Rightarrow> Inl NullPointerException)"

definition catchException where
  "catchException ex p f = register ex p (\<lambda>c. ErrorFunctionAction p c f)"

definition catchException_void where
  "catchException_void ex p f = register ex p (\<lambda>c. ErrorConsumerAction p c f)"


text \<open>The overloads that run the function on the executor of the promise.\<close>

definition thenApply_own where
  "thenApply_own p f h = thenApply (mExecutor (promises h p)) p f h"

definition thenApply_bi_own where
  "thenApply_bi_own p f h = thenApply_bi (mExecutor (promises h p)) p f h"

definition thenCompose_own where
  "thenCompose_own p f h = thenCompose (mExecutor (promises h p)) p f h"

definition thenCompose_bi_own where
  "thenCompose_bi_own p f h = thenCompose_bi (mExecutor (promises h p)) p f h"

definition thenAccept_own where
  "thenAccept_own p f h = thenAccept (mExecutor (promises h p)) p f h"

definition thenAccept_bi_own where
  "thenAccept_bi_own p f h = thenAccept_bi (mExecutor (promises h p)) p f h"

definition thenRun_own where
  "thenRun_own p f h = thenRun (mExecutor (promises h p)) p f h"

definition catchException_own where
  "catchException_own p f h = catchException (mExecutor (promises h p)) p f h"

definition catchException_void_own where
  "catchException_void_own p f h = catchException_void (mExecutor (promises h p)) p f h"

definition onExecutor :: "addr \<Rightarrow> executor option \<Rightarrow> 'v promise_store \<Rightarrow> 'v promise_store result" where
  "onExecutor p ex h =
     (case ex of
        None \<Rightarrow> Inl NullPointerException
      | Some e \<Rightarrow> if valid p h then Inr (upd_promise p (\<lambda>x. x\<lparr>mExecutor := Some e\<rparr>) h) else Inl Undefined)"

section \<open>Timeouts\<close>

text \<open>
  A timer is a runnable posted with a delay to the handler of a thread of its own; the function that \<open>add\<close> returns
  removes it again.
\<close>

definition Timeout_add :: "'v timer \<Rightarrow> uint64 \<Rightarrow> 'v promise_store \<Rightarrow> 'v callback \<times> 'v promise_store" where
  "Timeout_add t delay h =
     (\<lambda>_ _. ([Call_removeCallbacks (timer_count h)], Inr None),
      h\<lparr>timers := timers h @ [(timer_count h, t, delay)], timer_count := timer_count h + 1\<rparr>)"

definition removeCallbacks :: "nat \<Rightarrow> 'v promise_store \<Rightarrow> 'v promise_store" where
  "removeCallbacks i h = h\<lparr>timers := filter (\<lambda>t. fst t \<noteq> i) (timers h)\<rparr>"

text \<open>
  The timer is added before \<open>then\<close> is called, which throws when the promise has no executor; the promise is returned
  together with the timer that stays behind, so the store is part of the result in both cases.
\<close>

definition then_timeout :: "addr \<Rightarrow> 'v timer \<Rightarrow> uint64 \<Rightarrow> 'v promise_store \<Rightarrow> 'v progress result \<times> 'v promise_store" where
  "then_timeout p t delay h =
     (if isDone p h then (Inr ([], h), h)
      else let (f, h1) = Timeout_add t delay h
           in (bind_result (thenAccept_bi_own p f h1) (\<lambda>(_, fs, h2). Inr (fs, h2)), h1))"

definition orTimeout :: "addr \<Rightarrow> uint64 \<Rightarrow> throwable option \<Rightarrow> 'v promise_store \<Rightarrow> 'v progress result \<times> 'v promise_store" where
  "orTimeout p timeout cause h = then_timeout p (Timeout_Exception p cause) timeout h"

definition completeOnTimeout :: "addr \<Rightarrow> 'v option \<Rightarrow> uint64 \<Rightarrow> 'v promise_store \<Rightarrow> 'v progress result \<times> 'v promise_store" where
  "completeOnTimeout p value timeout h = then_timeout p (Timeout_Completion p value) timeout h"

definition delay :: "addr \<Rightarrow> uint64 \<Rightarrow> 'v promise_store \<Rightarrow> (addr \<times> 'v progress) result" where
  "delay p d h =
     (if \<not> valid p h then Inl Undefined
      else let (c, h1) = Promise_new (mExecutor (promises h p)) h;
               (a, h2) = Action_new (DelayAction p c d) None h1
           in Inr (c, attach p a h2))"

definition drop_flag :: "(bool \<times> 'v progress) result \<Rightarrow> 'v progress result" where
  "drop_flag r = bind_result r (\<lambda>(_, pr). Inr pr)"

definition Timeout_run :: "'v timer \<Rightarrow> 'v promise_store \<Rightarrow> 'v progress result" where
  "Timeout_run t h =
     (case t of
        Timeout_Completion c v \<Rightarrow> if isDone c h then Inr ([], h) else drop_flag (complete c v h)
      | Timeout_Exception c cause \<Rightarrow>
          if isDone c h then Inr ([], h)
          else drop_flag (completeWith c (Some (Throwable (Some TimeoutException) cause)) h))"

section \<open>Running actions\<close>

text \<open>\<open>mConsumer->onComplete()\<close> at the end of a \<open>run\<close>.\<close>

definition finish :: "addr \<Rightarrow> 'v promise_store \<Rightarrow> 'v progress" where
  "finish c h = (onComplete c h, h)"

definition propagate :: "addr \<Rightarrow> throwable \<Rightarrow> 'v promise_store \<Rightarrow> 'v progress" where
  "propagate c e h = finish c (setException c (toCompletionException e) h)"

definition RelayAction_run :: "addr \<Rightarrow> addr \<Rightarrow> 'v promise_store \<Rightarrow> 'v progress" where
  "RelayAction_run s c h =
     (case getException s h of
        None \<Rightarrow> finish c (setResult c (getResult s h) h)
      | Some e \<Rightarrow> propagate c e h)"

definition BiRelayAction_run :: "addr \<Rightarrow> addr \<Rightarrow> addr \<Rightarrow> 'v promise_store \<Rightarrow> 'v progress" where
  "BiRelayAction_run s1 s2 c h =
     (case getException s1 h of
        Some e \<Rightarrow> propagate c e h
      | None \<Rightarrow>
          (case getException s2 h of
             Some e \<Rightarrow> propagate c e h
           | None \<Rightarrow> finish c (setResult c None h)))"

text \<open>A callback makes its calls and then the rest of \<open>run\<close> follows.\<close>

definition invoke :: "('v client_call list \<times> 'r) \<Rightarrow> ('r \<Rightarrow> 'v frame) \<Rightarrow> 'v frame list" where
  "invoke r rest = map Frame_call (fst r) @ [rest (snd r)]"

definition FunctionAction_run :: "addr \<Rightarrow> addr \<Rightarrow> addr \<Rightarrow> 'v callback \<Rightarrow> 'v promise_store \<Rightarrow> 'v progress" where
  "FunctionAction_run a s c f h =
     (case getException s h of
        None \<Rightarrow> (invoke (f (getResult s h) None) (Frame_end a), h)
      | Some e \<Rightarrow> propagate c e h)"

definition FunctionAction_end :: "addr \<Rightarrow> thrown + 'v option \<Rightarrow> 'v promise_store \<Rightarrow> 'v progress" where
  "FunctionAction_end c r h =
     finish c (case r of Inl t \<Rightarrow> setException c (caught t) h | Inr u \<Rightarrow> setResult c u h)"

text \<open>What the functions of two arguments are called with.\<close>

definition bi_arguments :: "('v option \<Rightarrow> throwable option \<Rightarrow> 'r) \<Rightarrow> addr \<Rightarrow> 'v promise_store \<Rightarrow> 'r" where
  "bi_arguments f s h =
     (case getException s h of
        None \<Rightarrow> f (getResult s h) None
      | Some e \<Rightarrow> f None (Some e))"

definition BiFunctionAction_run :: "addr \<Rightarrow> addr \<Rightarrow> 'v callback \<Rightarrow> 'v promise_store \<Rightarrow> 'v progress" where
  "BiFunctionAction_run a s f h = (invoke (bi_arguments f s h) (Frame_end a), h)"

definition CompositionFunctionAction_run :: "addr \<Rightarrow> addr \<Rightarrow> addr \<Rightarrow> 'v composer \<Rightarrow> 'v promise_store \<Rightarrow> 'v progress" where
  "CompositionFunctionAction_run a s c f h =
     (case getException s h of
        None \<Rightarrow> (invoke (f (getResult s h) None) (Frame_compose a), h)
      | Some e \<Rightarrow> propagate c e h)"

definition CompositionFunctionAction_end :: "addr \<Rightarrow> thrown + addr option \<Rightarrow> 'v promise_store \<Rightarrow> 'v progress result" where
  "CompositionFunctionAction_end c r h =
     (case r of
        Inl t \<Rightarrow> Inr (finish c (setException c (caught t) h))
      | Inr u \<Rightarrow>
          (case completeWith_supplier c u h of
             Inr pr \<Rightarrow> Inr pr
           | Inl Undefined \<Rightarrow> Inl Undefined
           | Inl e \<Rightarrow> Inr (finish c (setException c (caught (Mindroid_exception (Throwable (Some e) None))) h))))"

definition BiCompositionFunctionAction_run :: "addr \<Rightarrow> addr \<Rightarrow> 'v composer \<Rightarrow> 'v promise_store \<Rightarrow> 'v progress" where
  "BiCompositionFunctionAction_run a s f h = (invoke (bi_arguments f s h) (Frame_compose a), h)"

definition ConsumerAction_run :: "addr \<Rightarrow> addr \<Rightarrow> addr \<Rightarrow> 'v callback \<Rightarrow> 'v promise_store \<Rightarrow> 'v progress" where
  "ConsumerAction_run a s c f h =
     (case getException s h of
        None \<Rightarrow> (invoke (f (getResult s h) None) (Frame_end a), h)
      | Some e \<Rightarrow> propagate c e h)"

definition RunAction_run :: "addr \<Rightarrow> addr \<Rightarrow> addr \<Rightarrow> 'v callback \<Rightarrow> 'v promise_store \<Rightarrow> 'v progress" where
  "RunAction_run a s c f h =
     (case getException s h of
        None \<Rightarrow> (invoke (f None None) (Frame_end a), h)
      | Some e \<Rightarrow> propagate c e h)"

definition ConsumerAction_end :: "addr \<Rightarrow> addr \<Rightarrow> thrown + 'v option \<Rightarrow> 'v promise_store \<Rightarrow> 'v progress" where
  "ConsumerAction_end s c r h =
     finish c (case r of Inl t \<Rightarrow> setException c (caught t) h | Inr _ \<Rightarrow> setResult c (getResult s h) h)"

definition BiConsumerAction_run :: "addr \<Rightarrow> addr \<Rightarrow> 'v callback \<Rightarrow> 'v promise_store \<Rightarrow> 'v progress" where
  "BiConsumerAction_run a s f h = (invoke (bi_arguments f s h) (Frame_end a), h)"

text \<open>With an exception the consumer of two arguments gets it, and the new promise the same exception.\<close>

definition BiConsumerAction_end :: "addr \<Rightarrow> addr \<Rightarrow> thrown + 'v option \<Rightarrow> 'v promise_store \<Rightarrow> 'v progress" where
  "BiConsumerAction_end s c r h =
     finish c (case r of
         Inl t \<Rightarrow> setException c (caught t) h
       | Inr _ \<Rightarrow>
           (case getException s h of
              None \<Rightarrow> setResult c (getResult s h) h
            | Some e \<Rightarrow> setException c e h))"

definition AnyOfAction_run :: "addr \<Rightarrow> addr \<Rightarrow> 'v promise_store \<Rightarrow> 'v progress" where
  "AnyOfAction_run s c h =
     (case getException s h of
        None \<Rightarrow> finish c (setResult c (getResult s h) h)
      | Some e \<Rightarrow> propagate c e h)"

definition ErrorRelayAction_run :: "addr \<Rightarrow> addr \<Rightarrow> 'v promise_store \<Rightarrow> 'v progress" where
  "ErrorRelayAction_run s c h =
     (case getException s h of
        None \<Rightarrow> ([], h)
      | Some e \<Rightarrow> propagate c e h)"

definition ErrorFunctionAction_run :: "addr \<Rightarrow> addr \<Rightarrow> addr \<Rightarrow> 'v callback \<Rightarrow> 'v promise_store \<Rightarrow> 'v progress" where
  "ErrorFunctionAction_run a s c f h =
     (case getException s h of
        Some e \<Rightarrow> (invoke (f None (Some e)) (Frame_end a), h)
      | None \<Rightarrow> finish c (setResult c (getResult s h) h))"

definition ErrorConsumerAction_run :: "addr \<Rightarrow> addr \<Rightarrow> addr \<Rightarrow> 'v callback \<Rightarrow> 'v promise_store \<Rightarrow> 'v progress" where
  "ErrorConsumerAction_run a s c f h =
     (case getException s h of
        Some e \<Rightarrow> (invoke (f None (Some e)) (Frame_end a), h)
      | None \<Rightarrow> finish c (setResult c (getResult s h) h))"

definition DelayAction_run :: "addr \<Rightarrow> addr \<Rightarrow> uint64 \<Rightarrow> 'v promise_store \<Rightarrow> 'v progress result" where
  "DelayAction_run s c d h =
     (case getException s h of
        Some e \<Rightarrow> Inr (propagate c e h)
      | None \<Rightarrow>
          (case completeOnTimeout c (getResult s h) d h of
             (Inr pr, _) \<Rightarrow> Inr pr
           | (Inl Undefined, _) \<Rightarrow> Inl Undefined
           | (Inl e, h1) \<Rightarrow> Inr (finish c (setException c (caught (Mindroid_exception (Throwable (Some e) None))) h1))))"


text \<open>The virtual call of \<open>run\<close>, and the rest of a \<open>run\<close> after its callback.\<close>

fun Action_run :: "addr \<Rightarrow> 'v action_class \<Rightarrow> 'v promise_store \<Rightarrow> 'v progress result" where
  "Action_run a (RelayAction s c) h = Inr (RelayAction_run s c h)"
| "Action_run a (BiRelayAction s1 s2 c) h = Inr (BiRelayAction_run s1 s2 c h)"
| "Action_run a (FunctionAction s c f) h = Inr (FunctionAction_run a s c f h)"
| "Action_run a (BiFunctionAction s c f) h = Inr (BiFunctionAction_run a s f h)"
| "Action_run a (CompositionFunctionAction s c f) h = Inr (CompositionFunctionAction_run a s c f h)"
| "Action_run a (BiCompositionFunctionAction s c f) h = Inr (BiCompositionFunctionAction_run a s f h)"
| "Action_run a (ConsumerAction s c f) h = Inr (ConsumerAction_run a s c f h)"
| "Action_run a (BiConsumerAction s c f) h = Inr (BiConsumerAction_run a s f h)"
| "Action_run a (RunAction s c f) h = Inr (RunAction_run a s c f h)"
| "Action_run a (AnyOfAction s c) h = Inr (AnyOfAction_run s c h)"
| "Action_run a (ErrorRelayAction s c) h = Inr (ErrorRelayAction_run s c h)"
| "Action_run a (ErrorFunctionAction s c f) h = Inr (ErrorFunctionAction_run a s c f h)"
| "Action_run a (ErrorConsumerAction s c f) h = Inr (ErrorConsumerAction_run a s c f h)"
| "Action_run a (DelayAction s c d) h = DelayAction_run s c d h"

fun Action_end :: "'v action_class \<Rightarrow> thrown + 'v option \<Rightarrow> 'v promise_store \<Rightarrow> 'v progress" where
  "Action_end (FunctionAction s c f) r h = FunctionAction_end c r h"
| "Action_end (BiFunctionAction s c f) r h = FunctionAction_end c r h"
| "Action_end (ErrorFunctionAction s c f) r h = FunctionAction_end c r h"
| "Action_end (ConsumerAction s c f) r h = ConsumerAction_end s c r h"
| "Action_end (RunAction s c f) r h = ConsumerAction_end s c r h"
| "Action_end (BiConsumerAction s c f) r h = BiConsumerAction_end s c r h"
| "Action_end (ErrorConsumerAction s c f) r h = BiConsumerAction_end s c r h"
| "Action_end _ r h = ([], h)"

fun consumer :: "'v action_class \<Rightarrow> addr" where
  "consumer (RelayAction s c) = c"
| "consumer (BiRelayAction s1 s2 c) = c"
| "consumer (FunctionAction s c f) = c"
| "consumer (BiFunctionAction s c f) = c"
| "consumer (CompositionFunctionAction s c g) = c"
| "consumer (BiCompositionFunctionAction s c g) = c"
| "consumer (ConsumerAction s c f) = c"
| "consumer (BiConsumerAction s c f) = c"
| "consumer (RunAction s c f) = c"
| "consumer (AnyOfAction s c) = c"
| "consumer (ErrorRelayAction s c) = c"
| "consumer (ErrorFunctionAction s c f) = c"
| "consumer (ErrorConsumerAction s c f) = c"
| "consumer (DelayAction s c d) = c"

text \<open>The promises an action reads; it is registered with each of them.\<close>

fun suppliers :: "'v action_class \<Rightarrow> addr list" where
  "suppliers (RelayAction s c) = [s]"
| "suppliers (BiRelayAction s1 s2 c) = [s1, s2]"
| "suppliers (FunctionAction s c f) = [s]"
| "suppliers (BiFunctionAction s c f) = [s]"
| "suppliers (CompositionFunctionAction s c g) = [s]"
| "suppliers (BiCompositionFunctionAction s c g) = [s]"
| "suppliers (ConsumerAction s c f) = [s]"
| "suppliers (BiConsumerAction s c f) = [s]"
| "suppliers (RunAction s c f) = [s]"
| "suppliers (AnyOfAction s c) = [s]"
| "suppliers (ErrorRelayAction s c) = [s]"
| "suppliers (ErrorFunctionAction s c f) = [s]"
| "suppliers (ErrorConsumerAction s c f) = [s]"
| "suppliers (DelayAction s c d) = [s]"

text \<open>The actions that override \<open>tryRun\<close> run at once; the others are given to their executor.\<close>

fun overrides_tryRun :: "'v action_class \<Rightarrow> bool" where
  "overrides_tryRun (RelayAction s c) = True"
| "overrides_tryRun (BiRelayAction s1 s2 c) = True"
| "overrides_tryRun (AnyOfAction s c) = True"
| "overrides_tryRun (ErrorRelayAction s c) = True"
| "overrides_tryRun (DelayAction s c d) = True"
| "overrides_tryRun _ = False"

fun is_BiRelayAction :: "'v action_class \<Rightarrow> bool" where
  "is_BiRelayAction (BiRelayAction s1 s2 c) = True"
| "is_BiRelayAction _ = False"

definition claim :: "addr \<Rightarrow> 'v promise_store \<Rightarrow> bool \<times> 'v promise_store" where
  "claim a h =
     (if mClaim (actions h a) then (False, h) else (True, upd_action a (\<lambda>x. x\<lparr>mClaim := True\<rparr>) h))"

definition Executor_execute :: "executor option \<Rightarrow> addr \<Rightarrow> 'v promise_store \<Rightarrow> 'v progress result" where
  "Executor_execute ex a h =
     (case ex of
        None \<Rightarrow> Inl Undefined
      | Some Synchronous_executor \<Rightarrow> Inr ([Frame_run a], h)
      | Some (Posting_executor n) \<Rightarrow> Inr ([], h\<lparr>posted := posted h @ [(n, a)]\<rparr>))"

text \<open>\<open>tryRun\<close>: the one of \<open>BiRelayAction\<close> first tests that both suppliers are done.\<close>

definition tryRun :: "addr \<Rightarrow> 'v promise_store \<Rightarrow> 'v progress result" where
  "tryRun a h =
     (let k = dynamic_class (actions h a)
      in if is_BiRelayAction k \<and> \<not> (\<forall>s \<in> set (suppliers k). isDone s h)
         then Inr ([], h)
         else let (claimed, h1) = claim a h
              in if \<not> claimed then Inr ([], h1)
                 else if overrides_tryRun k then Inr ([Frame_run a], h1)
                 else Executor_execute (mActionExecutor (actions h a)) a h1)"

definition client_call :: "'v client_call \<Rightarrow> 'v promise_store \<Rightarrow> 'v progress result" where
  "client_call c h =
     (case c of
        Call_complete p v \<Rightarrow> drop_flag (complete p v h)
      | Call_completeWith p e \<Rightarrow> drop_flag (completeWith p (Some e) h)
      | Call_cancel p \<Rightarrow> drop_flag (cancel p h)
      | Call_removeCallbacks i \<Rightarrow> Inr ([], removeCallbacks i h))"

definition enter_run :: "addr \<Rightarrow> 'v promise_store \<Rightarrow> 'v promise_store" where
  "enter_run a h = h\<lparr>history := history h @ [a]\<rparr>"

fun work :: "'v frame \<Rightarrow> 'v promise_store \<Rightarrow> 'v progress result" where
  "work (Frame_runActions p itr) h = runActions_turn p itr h"
| "work (Frame_tryRun a) h = tryRun a h"
| "work (Frame_run a) h = Action_run a (dynamic_class (actions h a)) (enter_run a h)"
| "work (Frame_call c) h = client_call c h"
| "work (Frame_end a r) h = Inr (Action_end (dynamic_class (actions h a)) r h)"
| "work (Frame_compose a r) h = CompositionFunctionAction_end (consumer (dynamic_class (actions h a))) r h"

partial_function (option) execute :: "'v frame list \<Rightarrow> 'v promise_store \<Rightarrow> 'v promise_store result option" where
  "execute fs h =
     (case fs of
        [] \<Rightarrow> Some (Inr h)
      | f # rest \<Rightarrow>
          (case work f h of
             Inl e \<Rightarrow> Some (Inl e)
           | Inr (new, h1) \<Rightarrow> execute (new @ rest) h1))"

declare execute.simps [code]

lemma execute_Nil [simp]: "execute [] h = Some (Inr h)"
  by (subst execute.simps) simp

lemma execute_Cons:
  "execute (f # fs) h = (case work f h of Inl e \<Rightarrow> Some (Inl e) | Inr (new, h1) \<Rightarrow> execute (new @ fs) h1)"
  by (subst execute.simps) simp

section \<open>Waiting for a promise\<close>

text \<open>
  \<open>get\<close> waits until the promise is done. For a cancelled promise it throws \<open>cast(mException)\<close>, which is a smart
  pointer and no exception object of the framework.
\<close>

datatype 'v get_outcome =
    Get_awaits
  | Get_value "'v option"
  | Get_throws throwable
  | Get_throws_pointer throwable

definition get_done :: "addr \<Rightarrow> 'v promise_store \<Rightarrow> 'v get_outcome" where
  "get_done p h =
     (case getException p h of
        Some e \<Rightarrow>
          if isInstance CancellationException (Some e) then Get_throws_pointer e
          else Get_throws (Throwable (Some ExecutionException)
            (Some (case (isInstance CompletionException (Some e), cause_of e) of
                     (True, Some cause) \<Rightarrow> cause
                   | _ \<Rightarrow> e)))
      | None \<Rightarrow> Get_value (getResult p h))"

definition get :: "addr \<Rightarrow> 'v promise_store \<Rightarrow> 'v get_outcome" where
  "get p h = (if isDone p h then get_done p h else Get_awaits)"

text \<open>
  One pass of \<open>get(timeout)\<close>: \<open>duration\<close> is signed, first the timeout itself and after each wait the remaining time.
\<close>

definition remaining_time :: "uint64 \<Rightarrow> uint64 \<Rightarrow> uint64 \<Rightarrow> int64" where
  "remaining_time start timeout now = start + timeout - now"

definition get_timeout_turn :: "int64 \<Rightarrow> addr \<Rightarrow> 'v promise_store \<Rightarrow> 'v get_outcome" where
  "get_timeout_turn duration p h =
     (if \<not> isDone p h \<and> 0 <s duration then Get_awaits
      else if \<not> isDone p h then Get_throws (Throwable (Some TimeoutException) None)
      else get_done p h)"


section \<open>Several promises\<close>

text \<open>Sequencing of calls that may not return or may throw.\<close>

definition then_do :: "'a result option \<Rightarrow> ('a \<Rightarrow> 'b result option) \<Rightarrow> 'b result option" where
  "then_do r f = Option.bind r (\<lambda>x. case x of Inl e \<Rightarrow> Some (Inl e) | Inr y \<Rightarrow> f y)"

lemma then_do_simps [simp]:
  "then_do None f = None" "then_do (Some (Inl e)) f = Some (Inl e)" "then_do (Some (Inr x)) f = f x"
  by (simp_all add: then_do_def)

lemma then_do_mono [partial_function_mono]:
  assumes "mono_option B" and "\<And>y. mono_option (\<lambda>f. C y f)"
  shows "mono_option (\<lambda>f. then_do (B f) (\<lambda>y. C y f))"
  unfolding then_do_def
proof (rule bind_mono[OF assms(1)])
  fix y
  show "mono_option (\<lambda>f. case y of Inl e \<Rightarrow> Some (Inl e) | Inr x \<Rightarrow> C x f)"
    by (cases y) (simp_all add: assms(2) option.const_mono)
qed

lemma then_do_eq: "then_do r f = Some (Inr y) \<longleftrightarrow> (\<exists>x. r = Some (Inr x) \<and> f x = Some (Inr y))"
  by (cases r) (auto simp: then_do_def split: sum.splits)

definition perform :: "'v progress \<Rightarrow> 'v promise_store result option" where
  "perform pr = execute (fst pr) (snd pr)"

text \<open>The action that waits for two promises; the code creates a second promise here that nothing uses.\<close>

definition relay_both :: "executor option \<Rightarrow> addr \<Rightarrow> addr \<Rightarrow> addr \<Rightarrow> 'v promise_store \<Rightarrow> 'v promise_store result option" where
  "relay_both ex s1 s2 c h =
     (let (_, h1) = Promise_new ex h;
          (a, h2) = Action_new (BiRelayAction s1 s2 c) None h1
      in then_do (perform (attach s1 a h2)) (\<lambda>h3. perform (attach s2 a h3)))"

definition join_suppliers :: "executor option \<Rightarrow> addr \<Rightarrow> addr \<Rightarrow> addr \<Rightarrow> 'v promise_store \<Rightarrow> (addr \<times> 'v promise_store) result option" where
  "join_suppliers ex s1 s2 c h =
     (if \<not> isDone s1 h \<or> \<not> isDone s2 h
      then then_do (relay_both ex s1 s2 c h) (\<lambda>h1. Some (Inr (c, h1)))
      else case (getException s1 h, getException s2 h) of
        (Some e, _) \<Rightarrow> Some (Inr (c, setException c (toCompletionException e) h))
      | (None, Some e) \<Rightarrow> Some (Inr (c, setException c (toCompletionException e) h))
      | (None, None) \<Rightarrow> Some (Inr (c, setResult c None h)))"

text \<open>The tree of promises; \<open>start\<close> and \<open>stop\<close> (the code's \<open>end\<close>) are the bounds of the part of the vector.\<close>

partial_function (option) andTree ::
  "executor option \<Rightarrow> addr option list \<Rightarrow> nat \<Rightarrow> nat \<Rightarrow> 'v promise_store \<Rightarrow> (addr \<times> 'v promise_store) result option" where
  "andTree ex ps start stop h =
     (let (c, h1) = Promise_new ex h;
          mid = (start + stop) div 2
      in then_do
           (if start = mid then Some (Inr (ps ! start, h1))
            else then_do (andTree ex ps start mid h1) (\<lambda>(s, h2). Some (Inr (Some s, h2))))
           (\<lambda>(supplier1, h2).
             case supplier1 of
               None \<Rightarrow> Some (Inl NullPointerException)
             | Some s1 \<Rightarrow>
                 then_do
                   (if start = stop then Some (Inr (supplier1, h2))
                    else if stop = mid + 1 then Some (Inr (ps ! stop, h2))
                    else then_do (andTree ex ps (mid + 1) stop h2) (\<lambda>(s, h3). Some (Inr (Some s, h3))))
                   (\<lambda>(supplier2, h3).
                     case supplier2 of
                       None \<Rightarrow> Some (Inl NullPointerException)
                     | Some s2 \<Rightarrow> join_suppliers ex s1 s2 c h3)))"

definition allOf :: "executor option \<Rightarrow> addr option list \<Rightarrow> 'v promise_store \<Rightarrow> (addr \<times> 'v promise_store) result option" where
  "allOf ex ps h =
     (if ps = []
      then let (p, h1) = Promise_new ex h
           in (case complete p None h1 of
                 Inl e \<Rightarrow> Some (Inl e)
               | Inr (_, pr) \<Rightarrow> then_do (perform pr) (\<lambda>h2. Some (Inr (p, h2))))
      else andTree ex ps 0 (length ps - 1) h)"

text \<open>\<open>anyOf\<close>: the first promise that is already done decides; otherwise each gets an action.\<close>

fun anyOf_done :: "addr option list \<Rightarrow> addr \<Rightarrow> 'v promise_store \<Rightarrow> (bool \<times> 'v promise_store) result" where
  "anyOf_done [] c h = Inr (False, h)"
| "anyOf_done (None # ps) c h = Inl NullPointerException"
| "anyOf_done (Some p # ps) c h =
     (if isDone p h
      then Inr (True, case getException p h of
                        None \<Rightarrow> setResult c (getResult p h) h
                      | Some e \<Rightarrow> setException c (toCompletionException e) h)
      else anyOf_done ps c h)"

fun anyOf_create :: "addr list \<Rightarrow> addr \<Rightarrow> 'v promise_store \<Rightarrow> addr list \<times> 'v promise_store" where
  "anyOf_create [] c h = ([], h)"
| "anyOf_create (p # ps) c h =
     (let (a, h1) = Action_new (AnyOfAction p c) None h;
          (as, h2) = anyOf_create ps c h1
      in (a # as, h2))"

fun anyOf_add :: "(addr \<times> addr) list \<Rightarrow> 'v promise_store \<Rightarrow> 'v promise_store result option" where
  "anyOf_add [] h = Some (Inr h)"
| "anyOf_add ((p, a) # xs) h = then_do (perform (addAction p a h)) (anyOf_add xs)"

fun anyOf_remove :: "(addr \<times> addr) list \<Rightarrow> 'v promise_store \<Rightarrow> 'v promise_store" where
  "anyOf_remove [] h = h"
| "anyOf_remove ((p, a) # xs) h = anyOf_remove xs (removeAction p a h)"

definition anyOf :: "executor option \<Rightarrow> addr option list \<Rightarrow> 'v promise_store \<Rightarrow> (addr \<times> 'v promise_store) result option" where
  "anyOf ex ps h =
     (let (c, h1) = Promise_new ex h
      in if ps = [] then Some (Inr (c, h1))
         else case anyOf_done ps c h1 of
           Inl e \<Rightarrow> Some (Inl e)
         | Inr (True, h2) \<Rightarrow> Some (Inr (c, h2))
         | Inr (False, h2) \<Rightarrow>
             let qs = map the ps;
                 (as, h3) = anyOf_create qs c h2
             in then_do (anyOf_add (zip qs as) h3) (\<lambda>h4.
                  Some (Inr (c, if isDone c h4 then anyOf_remove (zip qs as) h4 else h4))))"

text \<open>\<open>allOf\<close> that completes on the first exception.\<close>

fun relay_errors :: "addr list \<Rightarrow> addr \<Rightarrow> 'v promise_store \<Rightarrow> 'v promise_store result option" where
  "relay_errors [] c h = Some (Inr h)"
| "relay_errors (p # ps) c h =
     (let (a, h1) = Action_new (ErrorRelayAction p c) None h
      in then_do (perform (attach p a h1)) (relay_errors ps c))"

definition complete_callback :: "addr \<Rightarrow> 'v callback" where
  "complete_callback p = (\<lambda>value exception.
     ([case exception of None \<Rightarrow> Call_complete p None | Some e \<Rightarrow> Call_completeWith p e], Inr None))"

definition allOf_on_exception ::
  "executor option \<Rightarrow> bool \<Rightarrow> addr option list \<Rightarrow> 'v promise_store \<Rightarrow> (addr \<times> 'v promise_store) result option" where
  "allOf_on_exception ex completeOnException ps h =
     (if \<not> completeOnException then allOf ex ps h
      else let (p, h1) = Promise_new ex h
           in if ps = []
              then (case complete p None h1 of
                      Inl e \<Rightarrow> Some (Inl e)
                    | Inr (_, pr) \<Rightarrow> then_do (perform pr) (\<lambda>h2. Some (Inr (p, h2))))
              else then_do (allOf (Some Synchronous_executor) ps h1) (\<lambda>(vals, h2).
                let (errors, h3) = Promise_new (Some Synchronous_executor) h2
                in then_do (relay_errors (map the ps) errors h3) (\<lambda>h4.
                   then_do (anyOf (Some Synchronous_executor) [Some vals, Some errors] h4) (\<lambda>(first, h5).
                   (case thenAccept_bi_own first (complete_callback p) h5 of
                      Inl e \<Rightarrow> Some (Inl e)
                    | Inr (_, pr) \<Rightarrow> then_do (perform pr) (\<lambda>h6. Some (Inr (p, h6))))))))"

end
