(* ===== verification/Promise_Invariants.thy ===== *)
theory Promise_Invariants
  imports Promises
begin

text \<open>
  The invariant of promises under every frame of a running call, and what it gives between calls: a promise is settled
  once, an action runs at most once, no action is forgotten, and every call ends.
\<close>

section \<open>Reading the store after a write\<close>

lemma upd_promise_simps [heap_simps]:
  "promises (upd_promise p f h) q = (if q = p then f (promises h p) else promises h q)"
  "promise_count (upd_promise p f h) = promise_count h" "actions (upd_promise p f h) = actions h"
  "action_count (upd_promise p f h) = action_count h" "node_count (upd_promise p f h) = node_count h"
  "posted (upd_promise p f h) = posted h" "timers (upd_promise p f h) = timers h"
  "timer_count (upd_promise p f h) = timer_count h" "history (upd_promise p f h) = history h"
  by (simp_all add: upd_promise_def)

lemma upd_action_simps [heap_simps]:
  "actions (upd_action a f h) b = (if b = a then f (actions h a) else actions h b)"
  "promises (upd_action a f h) = promises h" "promise_count (upd_action a f h) = promise_count h"
  "action_count (upd_action a f h) = action_count h" "node_count (upd_action a f h) = node_count h"
  "posted (upd_action a f h) = posted h" "timers (upd_action a f h) = timers h"
  "timer_count (upd_action a f h) = timer_count h" "history (upd_action a f h) = history h"
  by (simp_all add: upd_action_def)

lemma enter_run_simps [heap_simps]:
  "promises (enter_run a h) = promises h" "promise_count (enter_run a h) = promise_count h"
  "actions (enter_run a h) = actions h" "action_count (enter_run a h) = action_count h"
  "node_count (enter_run a h) = node_count h" "posted (enter_run a h) = posted h" "history (enter_run a h) = history h @ [a]"
  by (simp_all add: enter_run_def)

lemma action_nodes_upd [heap_simps]:
  "(\<And>x. mActions (f x) = mActions x) \<Longrightarrow> action_nodes q (upd_promise p f h) = action_nodes q h"
  by (simp add: action_nodes_def heap_simps)

lemma action_nodes_set [heap_simps]:
  "action_nodes q (upd_promise p (\<lambda>x. x\<lparr>mActions := Some l\<rparr>) h) = (if q = p then l else action_nodes q h)"
  by (simp add: action_nodes_def heap_simps)

lemma action_nodes_other [heap_simps]:
  "action_nodes q (upd_action a g h) = action_nodes q h" "action_nodes q (enter_run a h) = action_nodes q h"
  "action_nodes q (h\<lparr>node_count := n\<rparr>) = action_nodes q h" "action_nodes q (h\<lparr>posted := l\<rparr>) = action_nodes q h"
  "action_nodes q (h\<lparr>timers := ts, timer_count := n\<rparr>) = action_nodes q h" "action_nodes q (h\<lparr>timers := ts\<rparr>) = action_nodes q h"
  by (simp_all add: action_nodes_def heap_simps)

section \<open>What every step keeps\<close>

text \<open>
  A later store extends an earlier one: promises and actions stay, a settled promise keeps its outcome, a claimed action stays
  claimed, and a promise that is not settled has neither a result nor an exception.
\<close>

definition clean :: "'v promise_store \<Rightarrow> bool" where
  "clean h \<longleftrightarrow> (\<forall>p < promise_count h. \<not> isDone p h \<longrightarrow> getException p h = None \<and> getResult p h = None)"

definition extends :: "'v promise_store \<Rightarrow> 'v promise_store \<Rightarrow> bool" where
  "extends h h' \<longleftrightarrow> promise_count h \<le> promise_count h' \<and> action_count h \<le> action_count h' \<and>
     (\<forall>p < promise_count h. isDone p h \<longrightarrow>
        isDone p h' \<and> getResult p h' = getResult p h \<and> getException p h' = getException p h) \<and>
     (\<forall>a < action_count h. dynamic_class (actions h' a) = dynamic_class (actions h a) \<and>
        mActionExecutor (actions h' a) = mActionExecutor (actions h a) \<and> (mClaim (actions h a) \<longrightarrow> mClaim (actions h' a))) \<and>
     set (history h) \<subseteq> set (history h') \<and> (clean h \<longrightarrow> clean h')"

lemma extends_refl [simp]: "extends h h"
  by (simp add: extends_def)

lemma extends_trans [trans]: "extends h h1 \<Longrightarrow> extends h1 h2 \<Longrightarrow> extends h h2"
  unfolding extends_def by (intro conjI) (auto dest: less_le_trans)

lemma extends_doneD: "extends h h' \<Longrightarrow> p < promise_count h \<Longrightarrow> isDone p h \<Longrightarrow> isDone p h'"
  by (simp add: extends_def)

lemma extends_settledD:
  "extends h h' \<Longrightarrow> p < promise_count h \<Longrightarrow> isDone p h \<Longrightarrow>
     isDone p h' \<and> getResult p h' = getResult p h \<and> getException p h' = getException p h"
  by (simp add: extends_def)

lemma extends_classD: "extends h h' \<Longrightarrow> a < action_count h \<Longrightarrow> dynamic_class (actions h' a) = dynamic_class (actions h a)"
  by (simp add: extends_def)

lemma extends_countD: "extends h h' \<Longrightarrow> promise_count h \<le> promise_count h'" "extends h h' \<Longrightarrow> action_count h \<le> action_count h'"
  by (simp_all add: extends_def)

lemma extends_upd_promise:
  "(\<And>x. mIsDone (f x) = mIsDone x \<and> mResult (f x) = mResult x \<and> mException (f x) = mException x) \<Longrightarrow>
     extends h (upd_promise p f h)"
  by (simp add: extends_def clean_def heap_simps)

lemma extends_settle:
  "\<not> isDone p h \<Longrightarrow> (\<And>x. mIsDone (f x)) \<Longrightarrow> extends h (upd_promise p f h)"
  by (simp add: extends_def clean_def heap_simps)

lemma extends_upd_action:
  "(\<And>x. dynamic_class (f x) = dynamic_class x \<and> mActionExecutor (f x) = mActionExecutor x \<and> (mClaim x \<longrightarrow> mClaim (f x))) \<Longrightarrow>
     extends h (upd_action a f h)"
  by (simp add: extends_def clean_def heap_simps)

lemma extends_Promise_new: "Promise_new ex h = (p, h') \<Longrightarrow> extends h h'"
  by (auto simp: Promise_new_def extends_def clean_def less_Suc_eq)

lemma extends_Action_new: "Action_new k ex h = (a, h') \<Longrightarrow> extends h h'"
  by (auto simp: Action_new_def extends_def clean_def)

lemma extends_set [simp]: "extends h (setResult p v h)" "extends h (setException p e h)"
  by (simp_all add: setResult_def setException_def extends_settle)

lemma extends_other [simp]:
  "extends h (enter_run a h)" "extends h (h\<lparr>node_count := n\<rparr>)" "extends h (h\<lparr>posted := l\<rparr>)" "extends h (removeCallbacks i h)"
  "extends h (h\<lparr>timers := ts, timer_count := n\<rparr>)" "extends h (removeAction p a h)"
  by (auto simp: extends_def clean_def enter_run_def removeCallbacks_def removeAction_def heap_simps)

lemma extends_addAction: "addAction p a h = (fs, h') \<Longrightarrow> extends h h'"
  by (auto simp: addAction_def Let_def extends_def clean_def heap_simps split: if_splits)

lemma extends_attach: "attach p a h = (fs, h') \<Longrightarrow> extends h h'"
  by (auto simp: attach_def dest: extends_addAction split: if_splits)

lemma extends_complete: "complete p v h = Inr (b, fs, h') \<Longrightarrow> extends h h'"
  by (auto simp: complete_def Let_def extends_settle split: if_splits)

lemma extends_completeWith: "completeWith p e h = Inr (b, fs, h') \<Longrightarrow> extends h h'"
  by (auto simp: completeWith_def Let_def extends_settle split: if_splits option.splits)

lemma extends_cancel: "cancel p h = Inr (b, fs, h') \<Longrightarrow> extends h h'"
  by (auto simp: cancel_def bind_result_eq_Inr dest: extends_completeWith)

lemma extends_completeWith_supplier: "completeWith_supplier p s h = Inr (fs, h') \<Longrightarrow> extends h h'"
  by (auto simp: completeWith_supplier_def split: option.splits if_splits prod.splits
      dest!: extends_Action_new extends_attach intro: extends_trans)

lemma extends_register: "register ex p mk h = Inr (c, fs, h') \<Longrightarrow> extends h h'"
  by (auto simp: register_def split: option.splits if_splits prod.splits
      dest!: extends_Promise_new extends_Action_new extends_attach intro: extends_trans)

lemma extends_Timeout_add: "Timeout_add t d h = (f, h') \<Longrightarrow> extends h h'"
  by (auto simp: Timeout_add_def)

lemma extends_then_timeout: "then_timeout p t d h = (r, h1) \<Longrightarrow> extends h h1 \<and> (r = Inr (fs, h') \<longrightarrow> extends h h')"
  by (auto simp: then_timeout_def thenAccept_bi_own_def thenAccept_bi_def bind_result_eq_Inr split: prod.splits if_splits
      dest!: extends_Timeout_add extends_register intro: extends_trans)

lemma drop_flag_eq_Inr: "drop_flag r = Inr pr \<longleftrightarrow> (\<exists>b. r = Inr (b, pr))"
  by (cases pr) (auto simp: drop_flag_def bind_result_eq_Inr)

lemma finish_eq: "finish c h = (fs, h') \<longleftrightarrow> fs = onComplete c h \<and> h' = h"
  by (auto simp: finish_def)


lemmas run_defs =
  RelayAction_run_def BiRelayAction_run_def FunctionAction_run_def BiFunctionAction_run_def
  CompositionFunctionAction_run_def BiCompositionFunctionAction_run_def ErrorRelayAction_run_def
  ErrorFunctionAction_run_def ConsumerAction_run_def BiConsumerAction_run_def RunAction_run_def AnyOfAction_run_def
  ErrorConsumerAction_run_def propagate_def finish_def

lemma extends_DelayAction_run: "DelayAction_run s c d h = Inr (fs, h') \<Longrightarrow> extends h h'"
proof -
  assume run: "DelayAction_run s c d h = Inr (fs, h')"
  obtain r h1 where t: "then_timeout c (Timeout_Completion c (getResult s h)) d h = (r, h1)" by fastforce
  then show ?thesis
    using run extends_then_timeout[OF t, of fs h']
    by (auto simp: DelayAction_run_def completeOnTimeout_def propagate_def finish_def
        split: option.splits sum.splits exception.splits intro: extends_trans)
qed

lemma extends_Action_run: "Action_run a k h = Inr (fs, h') \<Longrightarrow> extends h h'"
  by (cases k) (auto simp: run_defs extends_DelayAction_run split: option.splits)

lemma extends_Action_end: "Action_end k r h = (fs, h') \<Longrightarrow> extends h h'"
  by (cases k) (auto simp: FunctionAction_end_def ConsumerAction_end_def BiConsumerAction_end_def finish_def
      split: option.splits sum.splits)

lemma extends_Composition_end: "CompositionFunctionAction_end c r h = Inr (fs, h') \<Longrightarrow> extends h h'"
  by (auto simp: CompositionFunctionAction_end_def finish_def dest: extends_completeWith_supplier
      split: sum.splits exception.splits)

lemma extends_tryRun: "tryRun a h = Inr (fs, h') \<Longrightarrow> extends h h'"
  by (auto simp: tryRun_def claim_def Executor_execute_def Let_def extends_def clean_def heap_simps
      split: if_splits option.splits executor.splits)

lemma extends_work:
  assumes "work f h = Inr (fs, h')"
  shows "extends h h'"
proof (cases f)
  case (Frame_runActions p itr)
  then show ?thesis using assms
    by (auto simp: runActions_turn_def intro: extends_upd_promise split: option.splits list.splits)
next
  case (Frame_run a)
  then show ?thesis using assms by (auto dest!: extends_Action_run intro: extends_trans[of h "enter_run a h"])
next
  case (Frame_call c)
  then show ?thesis using assms
    by (auto simp: client_call_def drop_flag_eq_Inr dest: extends_complete extends_completeWith extends_cancel
        split: client_call.splits)
qed (use assms in \<open>auto dest: extends_tryRun extends_Action_end extends_Composition_end\<close>)

text \<open>Induction over a run of a stack that ends without anything undefined.\<close>

lemma execute_induct [consumes 1, case_names Nil step]:
  assumes "execute fs h = Some (Inr h')"
    and "\<And>h. P [] h h"
    and "\<And>f rest new h h1 h'. work f h = Inr (new, h1) \<Longrightarrow> execute (new @ rest) h1 = Some (Inr h') \<Longrightarrow>
           P (new @ rest) h1 h' \<Longrightarrow> P (f # rest) h h'"
  shows "P fs h h'"
proof -
  define Q where "Q = (\<lambda>fs h y. execute fs h = Some y \<and> (\<forall>h'. y = Inr h' \<longrightarrow> P fs h h'))"
  have "Q fs h (Inr h')"
  proof (rule execute.raw_induct[OF _ assms(1)])
    fix exec fs h y
    assume IH: "\<And>fs h y. exec fs h = Some y \<Longrightarrow> Q fs h y"
      and body: "(case fs of [] \<Rightarrow> Some (Inr h) | f # rest \<Rightarrow>
        (case work f h of Inl e \<Rightarrow> Some (Inl e) | Inr (new, h1) \<Rightarrow> exec (new @ rest) h1)) = Some y"
    show "Q fs h y"
    proof (cases fs)
      case Nil
      then show ?thesis using body assms(2) by (auto simp: Q_def)
    next
      case (Cons f rest)
      show ?thesis
      proof (cases "work f h")
        case (Inl e)
        then show ?thesis using body Cons by (auto simp: Q_def execute_Cons)
      next
        case (Inr r)
        then obtain new h1 where w: "work f h = Inr (new, h1)" by (cases r) auto
        then have "Q (new @ rest) h1 y" using IH body Cons by simp
        then show ?thesis using w Cons assms(3)[OF w] by (auto simp: Q_def execute_Cons)
      qed
    qed
  qed
  then show ?thesis by (simp add: Q_def)
qed

lemma extends_execute: "execute fs h = Some (Inr h') \<Longrightarrow> extends h h'"
  by (induction rule: execute_induct) (auto dest: extends_work extends_trans)

section \<open>The invariant\<close>

fun runs :: "'v frame list \<Rightarrow> addr list" where
  "runs [] = []"
| "runs (Frame_run a # fs) = a # runs fs"
| "runs (_ # fs) = runs fs"

definition suppliers_done :: "addr \<Rightarrow> 'v promise_store \<Rightarrow> bool" where
  "suppliers_done a h \<longleftrightarrow> (\<forall>s \<in> set (suppliers (dynamic_class (actions h a))). isDone s h)"

text \<open>Every address in the store is allocated, and an action is in the lists of its suppliers only.\<close>

definition store_ok :: "'v promise_store \<Rightarrow> bool" where
  "store_ok h \<longleftrightarrow>
     (\<forall>p \<ge> promise_count h. mActions (promises h p) = None \<and> \<not> isDone p h) \<and>
     (\<forall>a < action_count h. \<forall>s \<in> insert (consumer (dynamic_class (actions h a))) (set (suppliers (dynamic_class (actions h a)))).
        s < promise_count h) \<and>
     (\<forall>p. \<forall>(n, a) \<in> set (action_nodes p h).
        n < node_count h \<and> a < action_count h \<and> p \<in> set (suppliers (dynamic_class (actions h a)))) \<and>
     (\<forall>p. distinct (map fst (action_nodes p h)))"

fun frame_ok :: "'v promise_store \<Rightarrow> 'v frame \<Rightarrow> bool" where
  "frame_ok h (Frame_runActions p itr) \<longleftrightarrow> p < promise_count h \<and> isDone p h"
| "frame_ok h (Frame_tryRun a) \<longleftrightarrow>
     a < action_count h \<and> (is_BiRelayAction (dynamic_class (actions h a)) \<or> suppliers_done a h)"
| "frame_ok h (Frame_run a) \<longleftrightarrow> a < action_count h \<and> mClaim (actions h a) \<and> suppliers_done a h"
| "frame_ok h (Frame_call c) \<longleftrightarrow> True"
| "frame_ok h (Frame_end a r) \<longleftrightarrow> a < action_count h \<and> suppliers_done a h"
| "frame_ok h (Frame_compose a r) \<longleftrightarrow> a < action_count h \<and> suppliers_done a h"

text \<open>The actions left in the list of a promise that is done are those of a \<open>runActions\<close> in progress.\<close>

definition heads_ok :: "'v frame list \<Rightarrow> 'v promise_store \<Rightarrow> bool" where
  "heads_ok fs h \<longleftrightarrow>
     (\<forall>p. isDone p h \<longrightarrow> action_nodes p h \<noteq> [] \<longrightarrow>
        Frame_runActions p (Some (fst (hd (action_nodes p h)))) \<in> set fs)"

text \<open>An action that is not claimed waits in the list of each supplier that is not done, or is about to be tried.\<close>

definition waiting_ok :: "'v frame list \<Rightarrow> 'v promise_store \<Rightarrow> bool" where
  "waiting_ok fs h \<longleftrightarrow>
     (\<forall>a < action_count h. \<not> mClaim (actions h a) \<longrightarrow>
        (\<forall>s \<in> set (suppliers (dynamic_class (actions h a))). \<not> isDone s h \<longrightarrow> a \<in> snd ` set (action_nodes s h)) \<and>
        (suppliers_done a h \<longrightarrow> Frame_tryRun a \<in> set fs \<or>
           (\<exists>s \<in> set (suppliers (dynamic_class (actions h a))). a \<in> snd ` set (action_nodes s h))))"

text \<open>A claimed action is on the stack, posted to its executor, or was run; never twice.\<close>

definition claims_ok :: "'v frame list \<Rightarrow> 'v promise_store \<Rightarrow> bool" where
  "claims_ok fs h \<longleftrightarrow>
     (\<forall>a. count_list (runs fs) a + count_list (map snd (posted h)) a + count_list (history h) a =
        (if a < action_count h \<and> mClaim (actions h a) then 1 else 0)) \<and>
     (\<forall>(n, a) \<in> set (posted h). suppliers_done a h \<and> \<not> overrides_tryRun (dynamic_class (actions h a)))"

definition promise_inv :: "'v frame list \<Rightarrow> 'v promise_store \<Rightarrow> bool" where
  "promise_inv fs h \<longleftrightarrow> store_ok h \<and> (\<forall>f \<in> set fs. frame_ok h f) \<and> heads_ok fs h \<and> waiting_ok fs h \<and> claims_ok fs h"


lemma runs_append [simp]: "runs (xs @ ys) = runs xs @ runs ys"
  by (induction xs rule: runs.induct) auto

lemma runs_calls [simp]: "runs (map Frame_call cs) = []"
  by (induction cs) auto

lemma runs_onComplete [simp]: "runs (onComplete p h) = []"
  by (simp add: onComplete_def split: option.splits)

lemma promise_invD:
  assumes "promise_inv fs h"
  shows "store_ok h" and "\<And>f. f \<in> set fs \<Longrightarrow> frame_ok h f" and "heads_ok fs h" and "waiting_ok fs h" and "claims_ok fs h"
  using assms by (simp_all add: promise_inv_def)

lemma store_okD:
  assumes "store_ok h"
  shows "promise_count h \<le> p \<Longrightarrow> mActions (promises h p) = None \<and> \<not> isDone p h"
    and "a < action_count h \<Longrightarrow> s \<in> set (suppliers (dynamic_class (actions h a))) \<Longrightarrow> s < promise_count h"
    and "a < action_count h \<Longrightarrow> consumer (dynamic_class (actions h a)) < promise_count h"
    and "(n, a) \<in> set (action_nodes p h) \<Longrightarrow> n < node_count h \<and> a < action_count h \<and> p \<in> set (suppliers (dynamic_class (actions h a)))"
    and "distinct (map fst (action_nodes p h))"
  using assms by (auto simp: store_ok_def)

lemma suppliers_done_extends:
  "store_ok h \<Longrightarrow> extends h h' \<Longrightarrow> a < action_count h \<Longrightarrow> suppliers_done a h \<Longrightarrow> suppliers_done a h'"
  by (auto simp: suppliers_done_def extends_classD intro: extends_doneD store_okD(2))

lemma extends_actionD:
  "extends h h' \<Longrightarrow> a < action_count h \<Longrightarrow> a < action_count h'"
  "extends h h' \<Longrightarrow> a < action_count h \<Longrightarrow> mClaim (actions h a) \<Longrightarrow> mClaim (actions h' a)"
  by (simp_all add: extends_def)

lemma frame_ok_extends:
  assumes "store_ok h" and "extends h h'" and "frame_ok h f"
  shows "frame_ok h' f"
proof (cases f)
  case (Frame_runActions p itr)
  then show ?thesis using assms extends_doneD[OF assms(2), of p] extends_countD[OF assms(2)] by simp
next
  case (Frame_tryRun a)
  then show ?thesis using assms suppliers_done_extends[OF assms(1,2), of a]
    by (auto simp: extends_classD extends_actionD)
qed (use assms suppliers_done_extends[OF assms(1,2)] extends_actionD[OF assms(2)] in auto)

text \<open>The invariant depends on the frames only through the runs, the loops and the actions about to be tried.\<close>

lemma reframe_inv:
  assumes inv: "promise_inv fs h" and "runs fs' = runs fs" and "\<And>f. f \<in> set fs' \<Longrightarrow> frame_ok h f"
    and keep: "\<And>p n. Frame_runActions p (Some n) \<in> set fs \<Longrightarrow> Frame_runActions p (Some n) \<in> set fs'"
      "\<And>a. Frame_tryRun a \<in> set fs \<Longrightarrow> Frame_tryRun a \<in> set fs'"
  shows "promise_inv fs' h"
proof -
  note D = promise_invD[OF inv]
  have "heads_ok fs' h" using D(3) keep(1) by (simp add: heads_ok_def)
  moreover have "waiting_ok fs' h" using D(4) keep(2) unfolding waiting_ok_def by meson
  moreover have "claims_ok fs' h" using D(5) assms(2) by (simp add: claims_ok_def)
  ultimately show ?thesis using D(1) assms(3) by (simp add: promise_inv_def)
qed

lemma onComplete_inv:
  assumes "promise_inv fs h" and "p < promise_count h" and "isDone p h"
  shows "promise_inv (onComplete p h @ fs) h"
  using assms promise_invD(2)[OF assms(1)]
  by (auto intro!: reframe_inv[OF assms(1)] simp: onComplete_def split: option.splits)

lemma invoke_inv:
  assumes "promise_inv fs h" and "frame_ok h (rest (snd r))"
    and "(\<exists>a t. rest (snd r) = Frame_end a t) \<or> (\<exists>a t. rest (snd r) = Frame_compose a t)"
  shows "promise_inv (invoke r rest @ fs) h"
  using assms promise_invD(2)[OF assms(1)]
  by (auto intro!: reframe_inv[OF assms(1)] simp: invoke_def)

lemma drop_frame_inv:
  assumes "promise_inv (f # fs) h" and "(\<exists>c. f = Frame_call c) \<or> (\<exists>a r. f = Frame_end a r) \<or> (\<exists>a r. f = Frame_compose a r)"
  shows "promise_inv fs h"
  using assms promise_invD(2)[OF assms(1)]
  by (intro reframe_inv[OF assms(1)]) auto

lemma claims_posted:
  assumes "promise_inv fs h" and "(n, a) \<in> set (posted h)"
  shows "a < action_count h" and "mClaim (actions h a)"
proof -
  have "count_list (map snd (posted h)) a \<noteq> 0"
    using assms(2) by (simp add: count_list_0_iff image_iff) (metis snd_conv)
  moreover have "count_list (runs fs) a + count_list (map snd (posted h)) a + count_list (history h) a =
      (if a < action_count h \<and> mClaim (actions h a) then 1 else 0)"
    using promise_invD(5)[OF assms(1)] by (simp add: claims_ok_def)
  ultimately show "a < action_count h" and "mClaim (actions h a)" by (auto split: if_splits)
qed

text \<open>Settling a promise.\<close>

lemma settle_inv:
  assumes inv: "promise_inv fs h" and c: "c < promise_count h" "\<not> isDone c h"
    and keep: "\<And>x. mActions (g x) = mActions x" and fin: "\<And>x. mIsDone (g x)"
  shows "promise_inv (onComplete c (upd_promise c g h) @ fs) (upd_promise c g h)"
proof -
  let ?h = "upd_promise c g h"
  note D = promise_invD[OF inv]
  have ext: "extends h ?h" by (rule extends_settle[OF c(2)]) (rule fin)
  have nodes: "action_nodes q ?h = action_nodes q h" for q by (simp add: heap_simps keep)
  have store: "store_ok ?h"
    using D(1) c by (simp add: store_ok_def nodes) (auto simp: heap_simps keep fin)
  have frames: "frame_ok ?h f" if "f \<in> set (onComplete c ?h @ fs)" for f
    using that c D(2) frame_ok_extends[OF D(1) ext, of f]
    by (auto simp: onComplete_def heap_simps fin split: option.splits)
  have "heads_ok (onComplete c ?h @ fs) ?h"
  proof (unfold heads_ok_def, intro allI impI)
    fix p assume p: "isDone p ?h" "action_nodes p ?h \<noteq> []"
    show "Frame_runActions p (Some (fst (hd (action_nodes p ?h)))) \<in> set (onComplete c ?h @ fs)"
    proof (cases "p = c")
      case True
      then show ?thesis using p
        by (auto simp: onComplete_def first_node_def action_nodes_def hd_last_opt_nonempty split: option.splits)
    next
      case False
      then show ?thesis using p D(3) by (auto simp: heads_ok_def nodes heap_simps)
    qed
  qed
  moreover have "waiting_ok (onComplete c ?h @ fs) ?h"
  proof (unfold waiting_ok_def, intro allI impI)
    fix a assume a: "a < action_count ?h" "\<not> mClaim (actions ?h a)"
    let ?S = "set (suppliers (dynamic_class (actions h a)))"
    have old: "\<forall>s \<in> ?S. \<not> isDone s h \<longrightarrow> a \<in> snd ` set (action_nodes s h)"
      "suppliers_done a h \<longrightarrow> Frame_tryRun a \<in> set fs \<or> (\<exists>s \<in> ?S. a \<in> snd ` set (action_nodes s h))"
      using D(4) a by (auto simp: waiting_ok_def heap_simps)
    have "Frame_tryRun a \<in> set fs \<or> (\<exists>s \<in> ?S. a \<in> snd ` set (action_nodes s h))" if "suppliers_done a ?h"
    proof (cases "c \<in> ?S")
      case True
      then show ?thesis using old(1) c by blast
    next
      case False
      then have "suppliers_done a h" using that by (auto simp: suppliers_done_def heap_simps split: if_splits)
      then show ?thesis using old(2) by blast
    qed
    then show "(\<forall>s \<in> set (suppliers (dynamic_class (actions ?h a))). \<not> isDone s ?h \<longrightarrow> a \<in> snd ` set (action_nodes s ?h)) \<and>
      (suppliers_done a ?h \<longrightarrow> Frame_tryRun a \<in> set (onComplete c ?h @ fs) \<or>
        (\<exists>s \<in> set (suppliers (dynamic_class (actions ?h a))). a \<in> snd ` set (action_nodes s ?h)))"
      using old(1) by (auto simp: nodes heap_simps fin split: if_splits)
  qed
  moreover have "claims_ok (onComplete c ?h @ fs) ?h"
    using D(5) suppliers_done_extends[OF D(1) ext] claims_posted[OF inv]
    by (auto simp: claims_ok_def heap_simps)
  ultimately show ?thesis using store frames by (auto simp: promise_inv_def)
qed


lemma isDone_set [simp]: "isDone c (setResult c v h)" "isDone c (setException c e h)"
  by (simp_all add: setResult_def setException_def heap_simps)

lemma counts_set [simp]:
  "promise_count (setResult c v h) = promise_count h" "promise_count (setException c e h) = promise_count h"
  by (simp_all add: setResult_def setException_def heap_simps)

lemma set_inv:
  assumes "promise_inv fs h" and "c < promise_count h"
  shows "promise_inv (onComplete c (setResult c v h) @ fs) (setResult c v h)"
    and "promise_inv (onComplete c (setException c e h) @ fs) (setException c e h)"
  using onComplete_inv[OF assms] settle_inv[OF assms] by (auto simp: setResult_def setException_def)

lemma finish_set_inv:
  assumes "promise_inv fs h" and "c < promise_count h" and "finish c h1 = (new, h')"
    and "h1 = setResult c v h \<or> h1 = setException c e h"
  shows "promise_inv (new @ fs) h'"
  using assms set_inv[OF assms(1,2)] by (auto simp: finish_def)

lemma complete_inv:
  assumes "promise_inv fs h"
  shows "complete c v h = Inr (b, new, h') \<Longrightarrow> promise_inv (new @ fs) h'"
    and "completeWith c e h = Inr (b, new, h') \<Longrightarrow> promise_inv (new @ fs) h'"
    and "cancel c h = Inr (b, new, h') \<Longrightarrow> promise_inv (new @ fs) h'"
proof -
  show "complete c v h = Inr (b, new, h') \<Longrightarrow> promise_inv (new @ fs) h'"
    using assms settle_inv[OF assms] by (auto simp: complete_def valid_def Let_def split: if_splits)
  show failing: "completeWith c e h = Inr (b, new, h') \<Longrightarrow> promise_inv (new @ fs) h'" for b e
    using assms settle_inv[OF assms] by (auto simp: completeWith_def valid_def Let_def split: if_splits option.splits)
  show "cancel c h = Inr (b, new, h') \<Longrightarrow> promise_inv (new @ fs) h'"
    using failing by (auto simp: cancel_def bind_result_eq_Inr)
qed

text \<open>Stores that differ in the timers only.\<close>

lemma timers_inv:
  "promise_inv fs (h\<lparr>timers := ts\<rparr>) = promise_inv fs h"
  "promise_inv fs (h\<lparr>timers := ts, timer_count := n\<rparr>) = promise_inv fs h"
proof -
  have "frame_ok (h\<lparr>timers := ts\<rparr>) f = frame_ok h f" "frame_ok (h\<lparr>timers := ts, timer_count := n\<rparr>) f = frame_ok h f" for f
    by (cases f; simp add: suppliers_done_def)+
  then show "promise_inv fs (h\<lparr>timers := ts\<rparr>) = promise_inv fs h"
    "promise_inv fs (h\<lparr>timers := ts, timer_count := n\<rparr>) = promise_inv fs h"
    by (simp_all add: promise_inv_def store_ok_def heads_ok_def waiting_ok_def claims_ok_def suppliers_done_def heap_simps)
qed

lemma client_call_inv:
  assumes inv: "promise_inv (Frame_call c # fs) h" and "client_call c h = Inr (new, h')"
  shows "promise_inv (new @ fs) h'"
proof -
  have "promise_inv fs h" using drop_frame_inv[OF inv] by blast
  then show ?thesis
    using assms(2)
    by (auto simp: client_call_def drop_flag_eq_Inr removeCallbacks_def timers_inv complete_inv split: client_call.splits)
qed

lemma Action_end_inv:
  assumes inv: "promise_inv (Frame_end a r # fs) h" and step: "Action_end (dynamic_class (actions h a)) r h = (new, h')"
  shows "promise_inv (new @ fs) h'"
proof -
  have rest: "promise_inv fs h" using drop_frame_inv[OF inv] by blast
  have "a < action_count h" using promise_invD(2)[OF inv, of "Frame_end a r"] by simp
  then have c: "consumer (dynamic_class (actions h a)) < promise_count h"
    using promise_invD(1)[OF inv] by (simp add: store_okD(3))
  show ?thesis
    using step rest c set_inv[OF rest]
    by (cases "dynamic_class (actions h a)")
      (auto simp: FunctionAction_end_def ConsumerAction_end_def BiConsumerAction_end_def finish_def
        split: sum.splits option.splits)
qed

text \<open>Entering the \<open>run\<close> of an action moves it from the stack to the history.\<close>

lemma enter_run_inv:
  assumes "promise_inv (Frame_run a # fs) h"
  shows "promise_inv fs (enter_run a h)"
proof -
  note D = promise_invD[OF assms]
  have frames: "frame_ok (enter_run a h) f" if "f \<in> set fs" for f
    using frame_ok_extends[OF D(1), of "enter_run a h" f] D(2)[of f] that by simp
  have "heads_ok fs (enter_run a h)" using D(3) by (auto simp: heads_ok_def heap_simps)
  moreover have "waiting_ok fs (enter_run a h)" using D(4) by (auto simp: waiting_ok_def suppliers_done_def heap_simps)
  moreover have "claims_ok fs (enter_run a h)"
    using D(5) by (auto simp: claims_ok_def suppliers_done_def heap_simps split: if_splits)
  moreover have "store_ok (enter_run a h)" using D(1) by (simp add: store_ok_def heap_simps)
  ultimately show ?thesis using frames by (simp add: promise_inv_def)
qed


lemma single_supplier: "\<not> is_BiRelayAction k \<Longrightarrow> \<exists>s. suppliers k = [s]"
  by (cases k) auto

lemma runActions_turn_inv:
  assumes inv: "promise_inv (Frame_runActions p itr # fs) h" and step: "runActions_turn p itr h = Inr (new, h')"
  shows "promise_inv (new @ fs) h'"
proof (cases itr)
  case None
  then have "promise_inv fs h"
    using promise_invD(2)[OF inv] by (intro reframe_inv[OF inv]) auto
  then show ?thesis
    using None step by (auto simp: runActions_turn_def)
next
  case (Some n)
  note D = promise_invD[OF inv]
  let ?l = "action_nodes p h"
  obtain x rest where x: "dropWhile (\<lambda>x. fst x \<noteq> n) ?l = x # rest"
    and new: "new = [Frame_tryRun (snd x), Frame_runActions p (first_node rest)]"
    and h': "h' = upd_promise p (\<lambda>y. y\<lparr>mActions := Some (takeWhile (\<lambda>x. fst x \<noteq> n) ?l @ rest)\<rparr>) h"
    using step Some by (auto simp: runActions_turn_def split: list.splits)
  define tw where "tw = takeWhile (\<lambda>x. fst x \<noteq> n) ?l"
  have l: "?l = tw @ x # rest" by (simp add: tw_def flip: x)
  have x': "fst x = n" using hd_dropWhile[of "\<lambda>x. fst x \<noteq> n" ?l] x by simp
  have tw: "fst (hd tw) \<noteq> n" if "tw \<noteq> []"
    using that set_takeWhileD[of "hd tw" "\<lambda>x. fst x \<noteq> n" ?l] hd_in_set[OF that] by (auto simp: tw_def)
  have h'': "h' = upd_promise p (\<lambda>y. y\<lparr>mActions := Some (tw @ rest)\<rparr>) h" using h' by (simp add: tw_def)
  have nodes: "action_nodes q h' = (if q = p then tw @ rest else action_nodes q h)" for q
    by (simp add: h'' heap_simps)
  have same: "isDone q h' = isDone q h" "actions h' = actions h" "promise_count h' = promise_count h"
    "action_count h' = action_count h" "posted h' = posted h" "history h' = history h" "node_count h' = node_count h" for q
    by (simp_all add: h'' heap_simps)
  have sd: "suppliers_done b h' = suppliers_done b h" for b by (simp add: suppliers_done_def same)
  have p: "p < promise_count h" "isDone p h" using D(2)[of "Frame_runActions p itr"] by simp_all
  have "(fst x, snd x) \<in> set ?l" using l by simp
  then have sx: "snd x < action_count h" "p \<in> set (suppliers (dynamic_class (actions h (snd x))))"
    using store_okD(4)[OF D(1)] by blast+
  have "is_BiRelayAction (dynamic_class (actions h (snd x))) \<or> suppliers_done (snd x) h"
    using single_supplier[of "dynamic_class (actions h (snd x))"] sx(2) p(2) by (auto simp: suppliers_done_def)
  moreover have "frame_ok h' f" if "f \<in> set fs" for f
    using D(2)[of f] that by (cases f) (auto simp: same sd)
  ultimately have frames: "\<forall>f \<in> set (new @ fs). frame_ok h' f"
    using new p sx by (auto simp: same sd)
  have store: "store_ok h'"
  proof -
    have "mActions (promises h' q) = None" if "promise_count h \<le> q" for q
      using that p store_okD(1)[OF D(1)] by (auto simp: h'' heap_simps)
    moreover have "n' < node_count h \<and> a < action_count h \<and> q \<in> set (suppliers (dynamic_class (actions h a)))"
      if "(n', a) \<in> set (action_nodes q h')" for n' a q
      using that store_okD(4)[OF D(1), of n' a q] l by (auto simp: nodes split: if_splits)
    moreover have "distinct (map fst (action_nodes q h'))" for q
      using store_okD(5)[OF D(1), of q] l by (cases "q = p") (simp_all add: nodes Int_commute)
    ultimately show ?thesis
      using D(1) by (auto simp: store_ok_def same)
  qed
  have heads: "heads_ok (new @ fs) h'"
  proof (unfold heads_ok_def, intro allI impI)
    fix q assume q: "isDone q h'" "action_nodes q h' \<noteq> []"
    then have old: "action_nodes q h \<noteq> [] \<Longrightarrow> Frame_runActions q (Some (fst (hd (action_nodes q h)))) \<in> insert (Frame_runActions p itr) (set fs)"
      using D(3) by (simp add: heads_ok_def same)
    show "Frame_runActions q (Some (fst (hd (action_nodes q h')))) \<in> set (new @ fs)"
    proof (cases "q = p \<and> tw = []")
      case True
      then show ?thesis using q new by (simp add: nodes first_node_def hd_last_opt_nonempty)
    next
      case False
      then show ?thesis using q old tw l Some by (auto simp: nodes split: if_splits)
    qed
  qed
  have waiting: "waiting_ok (new @ fs) h'"
  proof (unfold waiting_ok_def same, intro allI impI)
    fix a assume a: "a < action_count h" "\<not> mClaim (actions h a)"
    let ?S = "set (suppliers (dynamic_class (actions h a)))"
    have old: "\<forall>s \<in> ?S. \<not> isDone s h \<longrightarrow> a \<in> snd ` set (action_nodes s h)"
      "suppliers_done a h \<longrightarrow> Frame_tryRun a \<in> set fs \<or> (\<exists>s \<in> ?S. a \<in> snd ` set (action_nodes s h))"
      using D(4) a by (auto simp: waiting_ok_def)
    have "a \<in> snd ` set (action_nodes s h) \<Longrightarrow> a \<in> snd ` set (action_nodes s h') \<or> a = snd x" for s
      using l by (cases "s = p") (auto simp: nodes image_Un)
    then have "suppliers_done a h \<longrightarrow> Frame_tryRun a \<in> set (new @ fs) \<or> (\<exists>s \<in> ?S. a \<in> snd ` set (action_nodes s h'))"
      using old(2) new by auto
    moreover have "\<forall>s \<in> ?S. \<not> isDone s h \<longrightarrow> a \<in> snd ` set (action_nodes s h')"
      using old(1) p(2) by (auto simp: nodes)
    ultimately show "(\<forall>s \<in> ?S. \<not> isDone s h \<longrightarrow> a \<in> snd ` set (action_nodes s h')) \<and>
      (suppliers_done a h' \<longrightarrow> Frame_tryRun a \<in> set (new @ fs) \<or> (\<exists>s \<in> ?S. a \<in> snd ` set (action_nodes s h')))"
      by (simp add: sd)
  qed
  have "claims_ok (new @ fs) h'" using D(5) new by (auto simp: claims_ok_def same sd)
  then show ?thesis using store frames heads waiting by (simp add: promise_inv_def)
qed


lemma tryRun_inv:
  assumes inv: "promise_inv (Frame_tryRun a # fs) h" and step: "tryRun a h = Inr (new, h')"
  shows "promise_inv (new @ fs) h'"
proof -
  note D = promise_invD[OF inv]
  let ?k = "dynamic_class (actions h a)"
  have a: "a < action_count h" "is_BiRelayAction ?k \<or> suppliers_done a h" using D(2)[of "Frame_tryRun a"] by simp_all
  have pop: "promise_inv fs h" if "mClaim (actions h a) \<or> \<not> suppliers_done a h"
  proof -
    have "waiting_ok fs h" using D(4) that by (auto simp: waiting_ok_def)
    then show ?thesis using inv by (auto simp: promise_inv_def heads_ok_def claims_ok_def)
  qed
  show ?thesis
  proof (cases "mClaim (actions h a) \<or> \<not> suppliers_done a h")
    case True
    then have "new = []" "h' = h"
      using step a by (auto simp: tryRun_def claim_def suppliers_done_def Let_def split: if_splits)
    then show ?thesis using pop[OF True] by simp
  next
    case False
    let ?h = "upd_action a (\<lambda>x. x\<lparr>mClaim := True\<rparr>) h"
    have queued: "new = [] \<Longrightarrow> \<not> overrides_tryRun ?k"
      using False step by (auto simp: tryRun_def claim_def suppliers_done_def Let_def split: if_splits)
    have cases: "new = [Frame_run a] \<and> h' = ?h \<or> (\<exists>n. new = [] \<and> h' = ?h\<lparr>posted := posted h @ [(n, a)]\<rparr>)"
      using False step
      by (auto simp: tryRun_def claim_def suppliers_done_def Let_def Executor_execute_def heap_simps
          split: if_splits option.splits executor.splits)
    then have same: "promises h' = promises h" "promise_count h' = promise_count h" "action_count h' = action_count h"
      "node_count h' = node_count h" "history h' = history h" "\<And>b. dynamic_class (actions h' b) = dynamic_class (actions h b)"
      "\<And>b. mClaim (actions h' b) \<longleftrightarrow> b = a \<or> mClaim (actions h b)" "\<And>q. action_nodes q h' = action_nodes q h"
      by (auto simp: heap_simps split: if_splits)
    have sd: "suppliers_done b h' = suppliers_done b h" for b by (simp add: suppliers_done_def same)
    have "frame_ok h' f" if "f \<in> set fs" for f
      using D(2)[of f] that by (cases f) (auto simp: same sd)
    moreover have "frame_ok h' (Frame_run a)" using a False by (simp add: same sd)
    ultimately have frames: "\<forall>f \<in> set (new @ fs). frame_ok h' f" using cases by auto
    have store: "store_ok h'" using D(1) by (simp add: store_ok_def same)
    have heads: "heads_ok (new @ fs) h'" using D(3) by (auto simp: heads_ok_def same)
    have waiting: "waiting_ok (new @ fs) h'" using D(4) by (auto simp: waiting_ok_def same sd)
    have counts: "count_list (runs (new @ fs)) b + count_list (map snd (posted h')) b =
        count_list (runs fs) b + count_list (map snd (posted h)) b + (if b = a then 1 else 0)" for b
      using cases by (auto simp: heap_simps)
    have "count_list (runs (new @ fs)) b + count_list (map snd (posted h')) b + count_list (history h') b =
        (if b < action_count h' \<and> mClaim (actions h' b) then 1 else 0)" for b
    proof -
      have "count_list (runs fs) b + count_list (map snd (posted h)) b + count_list (history h) b =
          (if b < action_count h \<and> mClaim (actions h b) then 1 else 0)"
        using D(5) by (simp add: claims_ok_def)
      then show ?thesis using counts[of b] a False same(3,5,7) by (cases "b = a") simp_all
    qed
    moreover have "\<forall>(n, b) \<in> set (posted h'). suppliers_done b h' \<and> \<not> overrides_tryRun (dynamic_class (actions h' b))"
      using D(5) cases queued False by (auto simp: claims_ok_def sd heap_simps split: if_splits)
    ultimately have "claims_ok (new @ fs) h'" by (simp add: claims_ok_def)
    then show ?thesis using store frames heads waiting by (simp add: promise_inv_def)
  qed
qed

text \<open>New promises, and new actions attached to their supplier.\<close>

lemma Promise_new_inv:
  assumes inv: "promise_inv fs h" and new: "Promise_new ex h = (p, h')"
  shows "promise_inv fs h'" and "p < promise_count h'" and "\<not> isDone p h'" and "action_nodes p h' = []"
    and "q < promise_count h \<Longrightarrow> promises h' q = promises h q"
proof -
  note D = promise_invD[OF inv]
  have p: "p = promise_count h" using new by (auto simp: Promise_new_def)
  have at: "mActions (promises h p) = None" "\<not> isDone p h" using store_okD(1)[OF D(1), of p] p by simp_all
  have same: "isDone q h' = isDone q h" "mActions (promises h' q) = mActions (promises h q)" "actions h' = actions h"
    "promise_count h' = promise_count h + 1" "action_count h' = action_count h" "posted h' = posted h" "history h' = history h"
    "node_count h' = node_count h" for q
    using new at p by (auto simp: Promise_new_def split: if_splits)
  have nodes: "action_nodes q h' = action_nodes q h" for q by (simp add: action_nodes_def same)
  have sd: "suppliers_done b h' = suppliers_done b h" for b by (simp add: suppliers_done_def same)
  have "frame_ok h' f" if "f \<in> set fs" for f
    using D(2)[of f] that by (cases f) (auto simp: same sd)
  moreover have "store_ok h'"
    using D(1) by (auto simp: store_ok_def same nodes intro: less_SucI)
  moreover have "heads_ok fs h'" using D(3) by (simp add: heads_ok_def same nodes)
  moreover have "waiting_ok fs h'" using D(4) by (simp add: waiting_ok_def same nodes sd)
  moreover have "claims_ok fs h'" using D(5) by (simp add: claims_ok_def same sd)
  ultimately show "promise_inv fs h'" by (simp add: promise_inv_def)
  show "p < promise_count h'" "\<not> isDone p h'" "action_nodes p h' = []" using at p same by (simp_all add: action_nodes_def)
  show "q < promise_count h \<Longrightarrow> promises h' q = promises h q" using new by (auto simp: Promise_new_def)
qed


text \<open>
  What registering a new action \<open>a\<close> of class \<open>k\<close> does to the store: the lists of the suppliers that are not done grow
  by nodes for \<open>a\<close>, and nothing else changes.
\<close>

definition registered :: "addr \<Rightarrow> 'v action_class \<Rightarrow> 'v promise_store \<Rightarrow> 'v promise_store \<Rightarrow> bool" where
  "registered a k h h' \<longleftrightarrow> a = action_count h \<and>
     (\<exists>ex. actions h' = (actions h)(a := \<lparr>dynamic_class = k, mActionExecutor = ex, mClaim = False\<rparr>)) \<and>
     promise_count h' = promise_count h \<and> action_count h' = a + 1 \<and> posted h' = posted h \<and> history h' = history h \<and>
     node_count h \<le> node_count h' \<and>
     (\<forall>q. isDone q h' = isDone q h \<and> getResult q h' = getResult q h \<and> getException q h' = getException q h) \<and>
     (\<forall>q. q \<notin> set (suppliers k) \<longrightarrow> mActions (promises h' q) = mActions (promises h q)) \<and>
     (\<forall>q. \<exists>new. action_nodes q h' = action_nodes q h @ new \<and> distinct (map fst new) \<and>
        (\<forall>(n, b) \<in> set new. b = a \<and> node_count h \<le> n \<and> n < node_count h' \<and> q \<in> set (suppliers k) \<and> \<not> isDone q h) \<and>
        (q \<in> set (suppliers k) \<longrightarrow> \<not> isDone q h \<longrightarrow> new \<noteq> []))"

lemma registeredD:
  assumes "registered a k h h'"
  shows "a = action_count h" and "b < a \<Longrightarrow> actions h' b = actions h b" and "dynamic_class (actions h' a) = k"
    and "\<not> mClaim (actions h' a)" and "promise_count h' = promise_count h" and "action_count h' = a + 1"
    and "posted h' = posted h" and "history h' = history h" and "node_count h \<le> node_count h'"
    and "isDone q h' = isDone q h" and "q \<notin> set (suppliers k) \<Longrightarrow> mActions (promises h' q) = mActions (promises h q)"
  using assms by (auto simp: registered_def)

lemma extends_registered: "registered a k h h' \<Longrightarrow> extends h h'"
  by (auto simp: registered_def extends_def clean_def)

lemma registered_nodes:
  assumes "registered a k h h'"
  shows "\<exists>new. action_nodes q h' = action_nodes q h @ new \<and> distinct (map fst new) \<and>
    (\<forall>(n, b) \<in> set new. b = a \<and> node_count h \<le> n \<and> n < node_count h' \<and> q \<in> set (suppliers k) \<and> \<not> isDone q h) \<and>
    (q \<in> set (suppliers k) \<longrightarrow> \<not> isDone q h \<longrightarrow> new \<noteq> [])"
  using assms unfolding registered_def by blast

lemma registered_memD:
  assumes "registered a k h h'"
  shows "(n, b) \<in> set (action_nodes q h') \<Longrightarrow> (n, b) \<in> set (action_nodes q h) \<or>
      b = a \<and> node_count h \<le> n \<and> n < node_count h' \<and> q \<in> set (suppliers k) \<and> \<not> isDone q h"
    and "x \<in> snd ` set (action_nodes q h) \<Longrightarrow> x \<in> snd ` set (action_nodes q h')"
    and "isDone q h \<Longrightarrow> action_nodes q h' = action_nodes q h"
    and "q \<in> set (suppliers k) \<Longrightarrow> \<not> isDone q h \<Longrightarrow> a \<in> snd ` set (action_nodes q h')"
proof -
  obtain new where new: "action_nodes q h' = action_nodes q h @ new"
    "\<forall>(n, b) \<in> set new. b = a \<and> node_count h \<le> n \<and> n < node_count h' \<and> q \<in> set (suppliers k) \<and> \<not> isDone q h"
    "q \<in> set (suppliers k) \<longrightarrow> \<not> isDone q h \<longrightarrow> new \<noteq> []"
    using registered_nodes[OF assms, of q] by blast
  show "(n, b) \<in> set (action_nodes q h') \<Longrightarrow> (n, b) \<in> set (action_nodes q h) \<or>
      b = a \<and> node_count h \<le> n \<and> n < node_count h' \<and> q \<in> set (suppliers k) \<and> \<not> isDone q h"
    using new(1,2) by auto
  show "x \<in> snd ` set (action_nodes q h) \<Longrightarrow> x \<in> snd ` set (action_nodes q h')"
    using new(1) by auto
  show "isDone q h \<Longrightarrow> action_nodes q h' = action_nodes q h"
    using new(1,2) by (cases new) auto
  show "q \<in> set (suppliers k) \<Longrightarrow> \<not> isDone q h \<Longrightarrow> a \<in> snd ` set (action_nodes q h')"
    using new by (cases new) (auto simp: image_iff)
qed

lemma registered_suppliers_done:
  assumes "registered a k h h'"
  shows "b < a \<Longrightarrow> suppliers_done b h' = suppliers_done b h"
    and "suppliers_done a h' \<longleftrightarrow> (\<forall>s \<in> set (suppliers k). isDone s h)"
  using registeredD[OF assms] by (simp_all add: suppliers_done_def)

lemma registered_store_ok:
  assumes reg: "registered a k h h'" and ok: "store_ok h"
    and k: "\<And>s. s \<in> set (suppliers k) \<Longrightarrow> s < promise_count h" "consumer k < promise_count h"
  shows "store_ok h'"
proof (unfold store_ok_def, intro conjI allI impI ballI)
  note R = registeredD[OF reg]
  fix q assume "promise_count h' \<le> q"
  then show "mActions (promises h' q) = None" "\<not> isDone q h'"
    using R(11)[of q] R(5,10) k(1)[of q] store_okD(1)[OF ok, of q] by force+
next
  note R = registeredD[OF reg]
  fix b q assume "b < action_count h'"
    "q \<in> insert (consumer (dynamic_class (actions h' b))) (set (suppliers (dynamic_class (actions h' b))))"
  then show "q < promise_count h'"
    using k store_okD(2,3)[OF ok, of b] R(1-6) by (cases "b = a") auto
next
  note R = registeredD[OF reg]
  fix q x assume x: "x \<in> set (action_nodes q h')"
  obtain n b where nb: "x = (n, b)" by (cases x) auto
  show "case x of (n, b) \<Rightarrow> n < node_count h' \<and> b < action_count h' \<and> q \<in> set (suppliers (dynamic_class (actions h' b)))"
  proof (cases "(n, b) \<in> set (action_nodes q h)")
    case True
    then show ?thesis using store_okD(4)[OF ok True] nb R(1,2,6,9) by simp
  next
    case False
    then show ?thesis using registered_memD(1)[OF reg, of n b q] x nb R(3,6) by simp
  qed
next
  fix q
  obtain new where new: "action_nodes q h' = action_nodes q h @ new" "distinct (map fst new)"
    "\<forall>(n, b) \<in> set new. b = a \<and> node_count h \<le> n \<and> n < node_count h' \<and> q \<in> set (suppliers k) \<and> \<not> isDone q h"
    using registered_nodes[OF reg, of q] by blast
  have "n < node_count h" if "n \<in> fst ` set (action_nodes q h)" for n
    using that store_okD(4)[OF ok, of n _ q] by auto
  moreover have "node_count h \<le> n" if "n \<in> fst ` set new" for n
    using that new(3) by auto
  ultimately have "fst ` set (action_nodes q h) \<inter> fst ` set new = {}"
    by (meson disjoint_iff leD)
  then show "distinct (map fst (action_nodes q h'))" using store_okD(5)[OF ok, of q] new by simp
qed

lemma registered_inv:
  assumes inv: "promise_inv fs h" and reg: "registered a k h h'"
    and k: "\<And>s. s \<in> set (suppliers k) \<Longrightarrow> s < promise_count h" "consumer k < promise_count h"
    and new: "new = (if \<forall>s \<in> set (suppliers k). isDone s h then [Frame_tryRun a] else [])"
  shows "promise_inv (new @ fs) h'"
proof -
  note D = promise_invD[OF inv] and R = registeredD[OF reg] and S = registered_suppliers_done[OF reg]
  have "frame_ok h' f" if "f \<in> set fs" for f
    using D(2)[of f] that R(1,2,5,6,10) S(1) by (cases f) auto
  then have frames: "\<forall>f \<in> set (new @ fs). frame_ok h' f" using new R(6) S(2) by auto
  have heads: "heads_ok (new @ fs) h'"
    using D(3) registered_memD(3)[OF reg] R(10) by (simp add: heads_ok_def)
  have waiting: "waiting_ok (new @ fs) h'"
  proof (unfold waiting_ok_def, intro allI impI)
    fix b assume b: "b < action_count h'" "\<not> mClaim (actions h' b)"
    show "(\<forall>q \<in> set (suppliers (dynamic_class (actions h' b))). \<not> isDone q h' \<longrightarrow> b \<in> snd ` set (action_nodes q h')) \<and>
      (suppliers_done b h' \<longrightarrow> Frame_tryRun b \<in> set (new @ fs) \<or>
        (\<exists>q \<in> set (suppliers (dynamic_class (actions h' b))). b \<in> snd ` set (action_nodes q h')))"
    proof (cases "b = a")
      case True
      then show ?thesis using new S(2) R(3,10) registered_memD(4)[OF reg] by simp
    next
      case False
      then have "b < a" "\<not> mClaim (actions h b)" "dynamic_class (actions h' b) = dynamic_class (actions h b)"
        using b R(2,6) by simp_all
      moreover from this have "(\<forall>q \<in> set (suppliers (dynamic_class (actions h b))). \<not> isDone q h \<longrightarrow> b \<in> snd ` set (action_nodes q h))"
        "suppliers_done b h \<longrightarrow> Frame_tryRun b \<in> set fs \<or>
        (\<exists>q \<in> set (suppliers (dynamic_class (actions h b))). b \<in> snd ` set (action_nodes q h))"
        using D(4) R(1) by (auto simp: waiting_ok_def)
      ultimately show ?thesis using registered_memD(2)[OF reg, of b] S(1) R(10) by simp blast
    qed
  qed
  have "runs (new @ fs) = runs fs" using new by simp
  then have "count_list (runs (new @ fs)) b + count_list (map snd (posted h')) b + count_list (history h') b =
      (if b < action_count h' \<and> mClaim (actions h' b) then 1 else 0)" for b
    using D(5) R by (cases "b = a"; cases "b < a") (auto simp: claims_ok_def)
  moreover have "\<forall>(n, b) \<in> set (posted h'). suppliers_done b h' \<and> \<not> overrides_tryRun (dynamic_class (actions h' b))"
    using D(5) claims_posted[OF inv] S(1) R(1,2,7) by (auto simp: claims_ok_def)
  ultimately have "claims_ok (new @ fs) h'" by (simp add: claims_ok_def)
  then show ?thesis
    using registered_store_ok[OF reg D(1) k] frames heads waiting by (simp add: promise_inv_def)
qed


lemma attach_registered:
  assumes new: "Action_new k ex h = (a, h1)" and att: "attach s a h1 = (new, h')" and k: "suppliers k = [s]"
  shows "registered a k h h'" and "new = (if isDone s h then [Frame_tryRun a] else [])"
proof -
  have h1: "a = action_count h" "actions h1 = (actions h)(a := \<lparr>dynamic_class = k, mActionExecutor = ex, mClaim = False\<rparr>)"
    "promises h1 = promises h" "promise_count h1 = promise_count h" "action_count h1 = a + 1" "posted h1 = posted h"
    "history h1 = history h" "node_count h1 = node_count h" "\<And>q. action_nodes q h1 = action_nodes q h"
    using new by (auto simp: Action_new_def action_nodes_def)
  have "(if isDone s h then new = [Frame_tryRun a] \<and> h' = h1
     else new = [] \<and> h' = (upd_promise s (\<lambda>x. x\<lparr>mActions := Some (action_nodes s h @ [(node_count h, a)])\<rparr>) h1)\<lparr>node_count := node_count h + 1\<rparr>)"
    using att by (auto simp: attach_def addAction_def Let_def h1 heap_simps)
  then show "registered a k h h'" and "new = (if isDone s h then [Frame_tryRun a] else [])"
    using k by (auto simp: registered_def h1 heap_simps split: if_splits)
qed

lemma attach_new_inv:
  assumes "promise_inv fs h" and "Action_new k ex h = (a, h1)" and "attach s a h1 = (new, h')"
    and "suppliers k = [s]" and "s < promise_count h" and "consumer k < promise_count h"
  shows "promise_inv (new @ fs) h'"
  using registered_inv[OF assms(1) attach_registered(1)[OF assms(2,3,4)]] attach_registered(2)[OF assms(2,3,4)] assms(4-6)
  by simp

lemma completeWith_supplier_inv:
  assumes "promise_inv fs h" and "completeWith_supplier c u h = Inr (new, h')"
  shows "promise_inv (new @ fs) h'"
  using assms
  by (auto simp: completeWith_supplier_def valid_def intro: attach_new_inv[OF assms(1)]
      split: option.splits if_splits prod.splits)

lemma register_inv:
  assumes inv: "promise_inv fs h" and reg: "register ex p mk h = Inr (c, new, h')"
    and mk: "\<And>c. suppliers (mk c) = [p]" "\<And>c. consumer (mk c) = c"
  shows "promise_inv (new @ fs) h'"
proof -
  obtain h1 a h2 e where 1: "Promise_new (mExecutor (promises h p)) h = (c, h1)" "Action_new (mk c) e h1 = (a, h2)"
    "attach p a h2 = (new, h')" "p < promise_count h"
    using reg by (auto simp: register_def valid_def split: if_splits option.splits prod.splits)
  note P = Promise_new_inv[OF inv 1(1)]
  have "promise_count h \<le> promise_count h1" using extends_Promise_new[OF 1(1)] by (simp add: extends_countD)
  then show ?thesis
    using attach_new_inv[OF P(1) 1(2,3)] mk P(2) 1(4) by simp
qed

lemma then_timeout_inv:
  assumes inv: "promise_inv fs h" and step: "then_timeout p t d h = (r, h1)"
  shows "promise_inv fs h1" and "r = Inr (new, h') \<Longrightarrow> promise_inv (new @ fs) h'"
proof -
  show 1: "promise_inv fs h1"
    using step inv timers_inv(2) by (auto simp: then_timeout_def Timeout_add_def split: if_splits)
  show "r = Inr (new, h') \<Longrightarrow> promise_inv (new @ fs) h'"
    using step inv register_inv[OF 1]
    by (auto simp: then_timeout_def thenAccept_bi_own_def thenAccept_bi_def bind_result_eq_Inr split: if_splits prod.splits)
qed

lemma propagate_inv:
  assumes "promise_inv fs h" and "c < promise_count h" and "propagate c e h = (new, h')"
  shows "promise_inv (new @ fs) h'"
  using assms set_inv(2)[OF assms(1,2)] by (auto simp: propagate_def finish_def)

lemma DelayAction_run_inv:
  assumes inv: "promise_inv fs h" and c: "c < promise_count h" and step: "DelayAction_run s c d h = Inr (new, h')"
  shows "promise_inv (new @ fs) h'"
proof (cases "getException s h")
  case (Some e)
  then show ?thesis using step propagate_inv[OF inv c, of e] by (simp add: DelayAction_run_def prod_eq_iff)
next
  case None
  obtain r h1 where t: "then_timeout c (Timeout_Completion c (getResult s h)) d h = (r, h1)" by fastforce
  have "c < promise_count h1"
    using extends_then_timeout[OF t] extends_countD(1)[of h h1] c by auto
  then show ?thesis
    using step None t then_timeout_inv[OF inv t] set_inv(2)[of fs h1 c]
    by (auto simp: DelayAction_run_def completeOnTimeout_def finish_def split: sum.splits exception.splits)
qed

lemma Composition_end_inv:
  assumes inv: "promise_inv (Frame_compose a r # fs) h"
    and step: "CompositionFunctionAction_end (consumer (dynamic_class (actions h a))) r h = Inr (new, h')"
  shows "promise_inv (new @ fs) h'"
proof -
  have rest: "promise_inv fs h" using drop_frame_inv[OF inv] by blast
  have "a < action_count h" using promise_invD(2)[OF inv, of "Frame_compose a r"] by simp
  then have c: "consumer (dynamic_class (actions h a)) < promise_count h"
    using promise_invD(1)[OF inv] by (simp add: store_okD(3))
  show ?thesis
    using step set_inv(2)[OF rest c] completeWith_supplier_inv[OF rest]
    by (auto simp: CompositionFunctionAction_end_def finish_def split: sum.splits exception.splits)
qed

lemma Action_run_inv:
  assumes inv: "promise_inv (Frame_run a # fs) h" and step: "Action_run a (dynamic_class (actions h a)) (enter_run a h) = Inr (new, h')"
  shows "promise_inv (new @ fs) h'"
proof -
  let ?h = "enter_run a h" and ?k = "dynamic_class (actions h a)"
  have ok: "frame_ok h (Frame_run a)" by (rule promise_invD(2)[OF inv]) simp
  have rest: "promise_inv fs ?h" by (rule enter_run_inv[OF inv])
  have c: "consumer ?k < promise_count ?h"
    using promise_invD(1)[OF inv] ok by (simp add: store_okD(3) heap_simps)
  have frame: "frame_ok ?h (Frame_end a r)" "frame_ok ?h (Frame_compose a t)" for r t
    using ok by (simp_all add: suppliers_done_def heap_simps)
  have ends: "promise_inv (invoke r (Frame_end a) @ fs) ?h" "promise_inv (invoke t (Frame_compose a) @ fs) ?h" for r t
    using invoke_inv[OF rest] frame by blast+
  show ?thesis
    using step set_inv[OF rest c] DelayAction_run_inv[OF rest c] rest
    by (cases ?k) (auto simp: run_defs intro: ends split: option.splits)
qed

lemma work_inv:
  assumes "promise_inv (f # fs) h" and "work f h = Inr (new, h')"
  shows "promise_inv (new @ fs) h'"
  using assms
  by (cases f) (auto intro: runActions_turn_inv tryRun_inv Action_run_inv client_call_inv Action_end_inv Composition_end_inv)

lemma execute_inv: "execute fs h = Some (Inr h') \<Longrightarrow> promise_inv fs h \<Longrightarrow> promise_inv [] h'"
  by (induction rule: execute_induct) (auto intro: work_inv)

end
