(* ===== verification/Promise_Termination.thy ===== *)
theory Promise_Termination
  imports Promise_Invariants
begin

text \<open>
  Every call on promises ends. Each frame either uses up part of what is pending in the actions (an action that is
  not claimed, a \<open>run\<close> that is not entered, a composition whose promise is not followed yet), or leaves that
  as it is and uses up nodes of the action lists and frames.
\<close>

fun composes :: "'v action_class \<Rightarrow> bool" where
  "composes (CompositionFunctionAction s c g) = True"
| "composes (BiCompositionFunctionAction s c g) = True"
| "composes (DelayAction s c d) = True"
| "composes _ = False"

definition waiting_cost :: "'v action_class \<Rightarrow> nat" where
  "waiting_cost k = (if composes k then 6 else 2)"

definition action_cost :: "'v action \<Rightarrow> nat" where
  "action_cost x = (if mClaim x then 0 else waiting_cost (dynamic_class x))"

definition pending_actions :: "'v promise_store \<Rightarrow> nat" where
  "pending_actions h = (\<Sum>a < action_count h. action_cost (actions h a))"

definition pending_nodes :: "'v promise_store \<Rightarrow> nat" where
  "pending_nodes h = (\<Sum>p < promise_count h. length (action_nodes p h))"

fun run_cost :: "'v promise_store \<Rightarrow> 'v frame \<Rightarrow> nat" where
  "run_cost h (Frame_run a) = (if composes (dynamic_class (actions h a)) then 5 else 1)"
| "run_cost h (Frame_compose a r) = 3"
| "run_cost h _ = 0"

fun frame_cost :: "'v frame \<Rightarrow> nat" where
  "frame_cost (Frame_runActions p itr) = 1"
| "frame_cost (Frame_tryRun a) = 1"
| "frame_cost (Frame_call c) = 2"
| "frame_cost (Frame_end a r) = 2"
| "frame_cost _ = 0"

definition runs_cost :: "'v promise_store \<Rightarrow> 'v frame list \<Rightarrow> nat" where
  "runs_cost h fs = sum_list (map (run_cost h) fs)"

definition frames_cost :: "'v frame list \<Rightarrow> nat" where
  "frames_cost fs = sum_list (map frame_cost fs)"

lemma cost_simps [simp]:
  "runs_cost h [] = 0" "runs_cost h (f # fs) = run_cost h f + runs_cost h fs" "runs_cost h (fs @ gs) = runs_cost h fs + runs_cost h gs"
  "frames_cost [] = 0" "frames_cost (f # fs) = frame_cost f + frames_cost fs" "frames_cost (fs @ gs) = frames_cost fs + frames_cost gs"
  by (simp_all add: runs_cost_def frames_cost_def)

definition pending_runs :: "'v frame list \<Rightarrow> 'v promise_store \<Rightarrow> nat" where
  "pending_runs fs h = pending_actions h + runs_cost h fs"

definition pending_frames :: "'v frame list \<Rightarrow> 'v promise_store \<Rightarrow> nat" where
  "pending_frames fs h = 3 * pending_nodes h + frames_cost fs"

lemma pending_actions_same:
  "actions h' = actions h \<Longrightarrow> action_count h' = action_count h \<Longrightarrow> pending_actions h' = pending_actions h"
  by (simp add: pending_actions_def)

lemma pending_actions_registered:
  assumes "registered a k h h'"
  shows "pending_actions h' = pending_actions h + waiting_cost k"
proof -
  have "action_cost (actions h' a) = waiting_cost k"
    using registeredD(3,4)[OF assms] by (simp add: action_cost_def)
  then show ?thesis
    using registeredD(1,2,6)[OF assms] by (simp add: pending_actions_def)
qed

lemma pending_actions_claim:
  assumes "a < action_count h" "\<not> mClaim (actions h a)"
  shows "pending_actions (upd_action a (\<lambda>x. x\<lparr>mClaim := True\<rparr>) h) + waiting_cost (dynamic_class (actions h a)) = pending_actions h"
proof -
  let ?f = "\<lambda>b. action_cost (actions h b)" and ?g = "\<lambda>b. action_cost (actions (upd_action a (\<lambda>x. x\<lparr>mClaim := True\<rparr>) h) b)"
  have split: "sum f {..<action_count h} = f a + sum f ({..<action_count h} - {a})" for f :: "nat \<Rightarrow> nat"
    using assms(1) by (simp add: sum.remove)
  have "sum ?g ({..<action_count h} - {a}) = sum ?f ({..<action_count h} - {a})"
    by (intro sum.cong) (simp_all add: heap_simps)
  moreover have "?g a = 0" "?f a = waiting_cost (dynamic_class (actions h a))"
    using assms(2) by (simp_all add: action_cost_def heap_simps)
  ultimately show ?thesis
    using split[of ?f] split[of ?g] by (simp add: pending_actions_def heap_simps)
qed

lemma run_cost_extends:
  "extends h h' \<Longrightarrow> frame_ok h f \<Longrightarrow> run_cost h' f = run_cost h f"
  by (cases f) (auto simp: extends_classD)

lemma onComplete_costs [simp]: "frames_cost (onComplete p h) \<le> Suc 0" "runs_cost g (onComplete p h) = 0"
  by (auto simp: onComplete_def split: option.splits)

lemma invoke_costs [simp]: "runs_cost h (invoke r rest) = run_cost h (rest (snd r))"
proof -
  have "runs_cost h (map Frame_call cs) = 0" for cs by (induction cs) auto
  then show ?thesis by (simp add: invoke_def)
qed

lemma nodes_set [simp]: "action_nodes q (setResult c v h) = action_nodes q h" "action_nodes q (setException c e h) = action_nodes q h"
  by (simp_all add: setResult_def setException_def heap_simps)

lemma actions_set [simp]:
  "actions (setResult c v h) = actions h" "actions (setException c e h) = actions h"
  "action_count (setResult c v h) = action_count h" "action_count (setException c e h) = action_count h"
  by (simp_all add: setResult_def setException_def heap_simps)

text \<open>Settling a promise and starting its loop costs one frame.\<close>

lemma pending_set [simp]:
  "pending_actions (setResult c v h) = pending_actions h" "pending_actions (setException c e h) = pending_actions h"
  "pending_nodes (setResult c v h) = pending_nodes h" "pending_nodes (setException c e h) = pending_nodes h"
  by (simp_all add: pending_actions_def pending_nodes_def)

lemma pending_settle:
  "(\<And>x. mActions (f x) = mActions x) \<Longrightarrow> pending_actions (upd_promise p f h) = pending_actions h"
  "(\<And>x. mActions (f x) = mActions x) \<Longrightarrow> pending_nodes (upd_promise p f h) = pending_nodes h"
  by (simp_all add: pending_actions_def pending_nodes_def heap_simps)

lemma client_call_costs:
  assumes "client_call c h = Inr (new, h')"
  shows "pending_actions h' = pending_actions h" and "pending_nodes h' = pending_nodes h"
    and "frames_cost new \<le> Suc 0" and "runs_cost g new = 0"
  using assms
  by (auto simp: client_call_def drop_flag_eq_Inr complete_def completeWith_def cancel_def bind_result_eq_Inr removeCallbacks_def
      Let_def pending_settle pending_actions_def pending_nodes_def heap_simps
      split: client_call.splits if_splits option.splits)

lemma Action_end_costs:
  assumes "Action_end k r h = (new, h')"
  shows "pending_actions h' = pending_actions h" and "pending_nodes h' = pending_nodes h"
    and "frames_cost new \<le> Suc 0" and "runs_cost g new = 0"
  using assms
  by (cases k; auto simp: FunctionAction_end_def ConsumerAction_end_def BiConsumerAction_end_def finish_def
      split: sum.splits option.splits)+

lemma attach_costs:
  assumes "Action_new k ex h = (a, h1)" and "attach s a h1 = (new, h')" and "suppliers k = [s]"
  shows "pending_actions h' = pending_actions h + waiting_cost k" and "runs_cost g new = 0"
  using pending_actions_registered[OF attach_registered(1)[OF assms]] attach_registered(2)[OF assms] by simp_all

lemma register_costs:
  assumes reg: "register ex p mk h = Inr (c, new, h')" and mk: "suppliers (mk c) = [p]"
  shows "pending_actions h' = pending_actions h + waiting_cost (mk c)" and "runs_cost g new = 0"
proof -
  obtain h1 a h2 e where 1: "Promise_new (mExecutor (promises h p)) h = (c, h1)" "Action_new (mk c) e h1 = (a, h2)"
    "attach p a h2 = (new, h')"
    using reg by (auto simp: register_def split: if_splits option.splits prod.splits)
  then have "pending_actions h1 = pending_actions h" by (auto simp: Promise_new_def pending_actions_def)
  then show "pending_actions h' = pending_actions h + waiting_cost (mk c)" "runs_cost g new = 0"
    using attach_costs[OF 1(2,3) mk] by simp_all
qed

text \<open>Registering the follower of a composition costs less than the composition had left.\<close>

lemma Composition_end_costs:
  assumes "CompositionFunctionAction_end c r h = Inr (new, h')"
  shows "pending_actions h' + runs_cost g new < pending_actions h + 3"
  using assms attach_costs(1)[of "RelayAction _ c" None h] attach_costs(2)[of "RelayAction _ c" None h]
  by (auto simp: CompositionFunctionAction_end_def completeWith_supplier_def finish_def waiting_cost_def
      split: sum.splits exception.splits option.splits if_splits prod.splits)

lemma DelayAction_run_costs:
  assumes "DelayAction_run s c d h = Inr (new, h')"
  shows "pending_actions h' + runs_cost g new < pending_actions h + 5"
proof (cases "getException s h")
  case None
  obtain r h1 where t: "then_timeout c (Timeout_Completion c (getResult s h)) d h = (r, h1)" by fastforce
  have h1: "pending_actions h1 = pending_actions h"
    using t by (auto simp: then_timeout_def Timeout_add_def pending_actions_def split: if_splits)
  have "pending_actions h2 + runs_cost g fs < pending_actions h + 5" if r: "r = Inr (fs, h2)" for fs h2
  proof (cases "isDone c h")
    case True
    then show ?thesis using t r by (auto simp: then_timeout_def)
  next
    case False
    then obtain f q where "register (mExecutor (promises h1 c)) c (\<lambda>q. BiConsumerAction c q f) h1 = Inr (q, fs, h2)"
      using t r
      by (auto simp: then_timeout_def thenAccept_bi_own_def thenAccept_bi_def bind_result_eq_Inr split: prod.splits)
    then show ?thesis
      using register_costs[of _ c "\<lambda>q. BiConsumerAction c q f" h1 q fs h2] h1 by (simp add: waiting_cost_def)
  qed
  then show ?thesis
    using assms None t h1
    by (auto simp: DelayAction_run_def completeOnTimeout_def finish_def split: sum.splits exception.splits)
qed (use assms in \<open>auto simp: DelayAction_run_def propagate_def finish_def\<close>)

lemma Action_run_costs:
  assumes "Action_run a k (enter_run a h) = Inr (new, h')"
  shows "pending_actions h' + runs_cost g new < pending_actions h + (if composes k then 5 else 1)"
proof -
  have same: "pending_actions (enter_run a h) = pending_actions h" by (simp add: pending_actions_def heap_simps)
  show ?thesis
    using assms DelayAction_run_costs[of _ _ _ "enter_run a h" new h' g]
    by (cases k) (auto simp: run_defs same split: option.splits)
qed


lemma runActions_turn_costs:
  assumes "p < promise_count h" and "runActions_turn p itr h = Inr (new, h')"
  shows "pending_actions h' = pending_actions h" and "3 * pending_nodes h' + frames_cost new < 3 * pending_nodes h + 1"
    and "runs_cost g new = 0"
proof (atomize (full), cases itr)
  case None
  then show "pending_actions h' = pending_actions h \<and> 3 * pending_nodes h' + frames_cost new < 3 * pending_nodes h + 1 \<and> runs_cost g new = 0"
    using assms(2) by (simp add: runActions_turn_def)
next
  case (Some n)
  let ?l = "action_nodes p h"
  obtain x rest where x: "dropWhile (\<lambda>x. fst x \<noteq> n) ?l = x # rest"
    and new: "new = [Frame_tryRun (snd x), Frame_runActions p (first_node rest)]"
    and h': "h' = upd_promise p (\<lambda>y. y\<lparr>mActions := Some (takeWhile (\<lambda>x. fst x \<noteq> n) ?l @ rest)\<rparr>) h"
    using assms(2) Some by (auto simp: runActions_turn_def split: list.splits)
  have "?l = takeWhile (\<lambda>x. fst x \<noteq> n) ?l @ x # rest" by (simp flip: x)
  then have "length ?l = length (takeWhile (\<lambda>x. fst x \<noteq> n) ?l @ x # rest)" by (rule arg_cong)
  then have len: "length ?l = Suc (length (takeWhile (\<lambda>x. fst x \<noteq> n) ?l @ rest))" by simp
  have split: "sum f {..<promise_count h} = f p + sum f ({..<promise_count h} - {p})" for f :: "nat \<Rightarrow> nat"
    using assms(1) by (simp add: sum.remove)
  have "sum (\<lambda>q. length (action_nodes q h')) ({..<promise_count h} - {p}) = sum (\<lambda>q. length (action_nodes q h)) ({..<promise_count h} - {p})"
    by (intro sum.cong) (simp_all add: h' heap_simps)
  moreover have "length (action_nodes p h) = Suc (length (action_nodes p h'))"
    using len by (simp add: h' heap_simps)
  moreover have "promise_count h' = promise_count h" by (simp add: h' heap_simps)
  ultimately have "pending_nodes h = Suc (pending_nodes h')"
    using split[of "\<lambda>q. length (action_nodes q h)"] split[of "\<lambda>q. length (action_nodes q h')"]
    by (simp add: pending_nodes_def)
  then show "pending_actions h' = pending_actions h \<and> 3 * pending_nodes h' + frames_cost new < 3 * pending_nodes h + 1 \<and> runs_cost g new = 0"
    using new by (simp add: h' pending_actions_def heap_simps)
qed

lemma tryRun_costs:
  assumes "a < action_count h" and "tryRun a h = Inr (new, h')"
  shows "pending_actions h' + runs_cost h new < pending_actions h \<or>
    pending_actions h' = pending_actions h \<and> pending_nodes h' = pending_nodes h \<and> new = []"
proof (cases "mClaim (actions h a)")
  case True
  then show ?thesis using assms(2) by (auto simp: tryRun_def claim_def Let_def split: if_splits)
next
  case False
  have "pending_actions (h\<lparr>posted := l\<rparr>) = pending_actions h" for h :: "'a promise_store" and l
    by (simp add: pending_actions_def)
  then show ?thesis
    using assms(2) False pending_actions_claim[OF assms(1) False]
    by (auto simp: tryRun_def claim_def Let_def Executor_execute_def waiting_cost_def
        split: if_splits option.splits executor.splits)
qed

text \<open>Every frame makes progress, so every stack is run to its end.\<close>

lemma work_progress:
  assumes inv: "promise_inv (f # fs) h" and step: "work f h = Inr (new, h')"
  shows "((pending_runs (new @ fs) h', pending_frames (new @ fs) h'), (pending_runs (f # fs) h, pending_frames (f # fs) h))
    \<in> less_than <*lex*> less_than"
proof -
  have ok: "frame_ok h f" using promise_invD(2)[OF inv] by simp
  have ext: "extends h h'" by (rule extends_work[OF step])
  have rest: "runs_cost h' fs = runs_cost h fs"
    using promise_invD(2)[OF inv] run_cost_extends[OF ext] by (simp add: runs_cost_def cong: map_cong)
  have "pending_actions h' + runs_cost h' new < pending_actions h + run_cost h f \<or>
    pending_actions h' + runs_cost h' new = pending_actions h + run_cost h f \<and>
    3 * pending_nodes h' + frames_cost new < 3 * pending_nodes h + frame_cost f"
  proof (cases f)
    case (Frame_runActions p itr)
    then show ?thesis using runActions_turn_costs[of p h itr new h'] ok step by simp
  next
    case (Frame_tryRun a)
    then have "runs_cost h' new = runs_cost h new"
      using step ok ext
      by (auto simp: tryRun_def claim_def Let_def Executor_execute_def heap_simps split: if_splits option.splits executor.splits)
    then show ?thesis using tryRun_costs[of a h new h'] Frame_tryRun ok step by auto
  next
    case (Frame_run a)
    then show ?thesis using Action_run_costs[of a _ h new h' h'] step by simp
  next
    case (Frame_call c)
    then show ?thesis using client_call_costs[of c h new h'] step by (simp add: less_Suc_eq_le)
  next
    case (Frame_end a r)
    then show ?thesis using Action_end_costs[of "dynamic_class (actions h a)" r h new h'] step by (simp add: less_Suc_eq_le)
  next
    case (Frame_compose a r)
    then show ?thesis using Composition_end_costs[of _ r h new h' h'] step by simp
  qed
  then show ?thesis using rest by (auto simp: pending_runs_def pending_frames_def)
qed

lemma execute_ends: "promise_inv fs h \<Longrightarrow> \<exists>r. execute fs h = Some r"
proof (induction "(pending_runs fs h, pending_frames fs h)" arbitrary: fs h
    rule: wf_induct_rule[OF wf_lex_prod[OF wf_less_than wf_less_than]])
  case 1
  show ?case
  proof (cases fs)
    case (Cons f rest)
    show ?thesis
    proof (cases "work f h")
      case (Inr r)
      then obtain new h1 where w: "work f h = Inr (new, h1)" by (cases r) auto
      have inv: "promise_inv (f # rest) h" using "1.prems" Cons by simp
      have "\<exists>r. execute (new @ rest) h1 = Some r"
        using "1.hyps"[OF _ work_inv[OF inv w]] work_progress[OF inv w] Cons by simp
      then show ?thesis using Cons w by (simp add: execute_Cons)
    qed (simp add: Cons execute_Cons)
  qed simp
qed

end
