(* ===== verification/Promise_Properties.thy ===== *)
theory Promise_Properties
  imports Promise_Termination
begin

text \<open>
  The calls of clients, executors and timers as steps between stores, what holds in every store they
  reach, and the properties of promises: settled once, every action run once and none forgotten, every call ends, chains and
  groups of promises, and what \<open>get\<close> throws.
\<close>

section \<open>Actions that were run\<close>

text \<open>The consumer of a composition is done or follows the promise that the callback returned.\<close>

definition follows :: "addr \<Rightarrow> 'v promise_store \<Rightarrow> bool" where
  "follows c h \<longleftrightarrow> (\<exists>b < action_count h. \<exists>u. dynamic_class (actions h b) = RelayAction u c)"

definition resolved :: "addr \<Rightarrow> 'v promise_store \<Rightarrow> bool" where
  "resolved a h =
     (case dynamic_class (actions h a) of
        CompositionFunctionAction s c f \<Rightarrow> isDone c h \<or> follows c h
      | BiCompositionFunctionAction s c f \<Rightarrow> isDone c h \<or> follows c h
      | ErrorRelayAction s c \<Rightarrow> getException s h \<noteq> None \<longrightarrow> isDone c h
      | DelayAction s c d \<Rightarrow> True
      | k \<Rightarrow> isDone (consumer k) h)"

text \<open>The rest of the \<open>run\<close> is still on the stack.\<close>

definition unfinished :: "'v frame list \<Rightarrow> addr \<Rightarrow> 'v promise_store \<Rightarrow> bool" where
  "unfinished fs a h \<longleftrightarrow> \<not> overrides_tryRun (dynamic_class (actions h a)) \<and>
     (if composes (dynamic_class (actions h a)) then \<exists>r. Frame_compose a r \<in> set fs else \<exists>r. Frame_end a r \<in> set fs)"

lemma unfinished_Nil [simp]: "\<not> unfinished [] a h"
  by (simp add: unfinished_def)

definition resolved_ok :: "'v frame list \<Rightarrow> 'v promise_store \<Rightarrow> bool" where
  "resolved_ok fs h \<longleftrightarrow>
     (\<forall>a \<in> set (history h). a < action_count h \<and> suppliers_done a h \<and>
        (unfinished fs a h \<or> resolved a h))"

lemma follows_extends: "extends h h' \<Longrightarrow> follows c h \<Longrightarrow> follows c h'"
  unfolding follows_def by (metis extends_actionD(1) extends_classD)

lemma resolved_extends:
  assumes "store_ok h" and "extends h h'" and "a < action_count h" and "suppliers_done a h" and "resolved a h"
  shows "resolved a h'"
proof -
  have c: "isDone (consumer (dynamic_class (actions h a))) h \<Longrightarrow> isDone (consumer (dynamic_class (actions h a))) h'"
    using assms(1-3) by (blast intro: extends_doneD store_okD(3))
  have s: "getException s h' = getException s h" if "s \<in> set (suppliers (dynamic_class (actions h a)))" for s
    using that assms by (auto simp: suppliers_done_def extends_def dest: store_okD(2))
  show ?thesis
    using assms(5) c s follows_extends[OF assms(2)]
    by (cases "dynamic_class (actions h a)") (auto simp: resolved_def extends_classD[OF assms(2,3)])
qed

text \<open>Only entering a \<open>run\<close> extends the history.\<close>

lemma history_set [simp]: "history (setResult c v h) = history h" "history (setException c e h) = history h"
  by (simp_all add: setResult_def setException_def heap_simps)

lemma history_attach: "attach p a h = (fs, h') \<Longrightarrow> history h' = history h"
  by (auto simp: attach_def addAction_def Let_def heap_simps split: if_splits)

lemma history_new: "Promise_new ex h = (p, h') \<Longrightarrow> history h' = history h" "Action_new k e h = (a, h') \<Longrightarrow> history h' = history h"
  by (auto simp: Promise_new_def Action_new_def)

lemma history_register: "register ex p mk h = Inr (c, fs, h') \<Longrightarrow> history h' = history h"
  by (auto simp: register_def dest!: history_new history_attach split: if_splits option.splits prod.splits)

lemma history_supplier: "completeWith_supplier c u h = Inr (fs, h') \<Longrightarrow> history h' = history h"
  by (auto simp: completeWith_supplier_def dest!: history_new history_attach split: if_splits option.splits prod.splits)

lemma history_timeout:
  "then_timeout p t d h = (r, h1) \<Longrightarrow> history h1 = history h \<and> (r = Inr (fs, h') \<longrightarrow> history h' = history h)"
  by (auto simp: then_timeout_def Timeout_add_def thenAccept_bi_own_def thenAccept_bi_def bind_result_eq_Inr
      dest!: history_register split: if_splits prod.splits)

lemma history_run:
  assumes "Action_run a k h = Inr (new, h')"
  shows "history h' = history h"
proof -
  have delay: "history h' = history h" if run: "DelayAction_run s c d h = Inr (new, h')" for s c d
  proof -
    obtain r h1 where t: "then_timeout c (Timeout_Completion c (getResult s h)) d h = (r, h1)" by fastforce
    show ?thesis
      using run t history_timeout[OF t, of new h']
      by (auto simp: DelayAction_run_def completeOnTimeout_def propagate_def finish_def
          split: option.splits sum.splits exception.splits)
  qed
  show ?thesis using assms delay by (cases k) (auto simp: run_defs split: option.splits)
qed

lemma history_work:
  assumes "work f h = Inr (new, h')" and "\<And>a. f \<noteq> Frame_run a"
  shows "history h' = history h"
proof (cases f)
  case (Frame_runActions p itr)
  then show ?thesis using assms by (auto simp: runActions_turn_def heap_simps split: option.splits list.splits)
next
  case (Frame_tryRun a)
  then show ?thesis using assms
    by (auto simp: tryRun_def claim_def Executor_execute_def Let_def heap_simps split: if_splits option.splits executor.splits)
next
  case (Frame_call c)
  then show ?thesis using assms
    by (auto simp: client_call_def drop_flag_eq_Inr complete_def completeWith_def cancel_def bind_result_eq_Inr
        removeCallbacks_def Let_def heap_simps split: client_call.splits if_splits option.splits)
next
  case (Frame_end a r)
  then show ?thesis using assms
    by (cases "dynamic_class (actions h a)")
      (auto simp: FunctionAction_end_def ConsumerAction_end_def BiConsumerAction_end_def finish_def split: sum.splits option.splits)
next
  case (Frame_compose a r)
  then show ?thesis using assms
    by (auto simp: CompositionFunctionAction_end_def finish_def dest: history_supplier split: sum.splits exception.splits)
qed (use assms in simp)

text \<open>What a \<open>run\<close> and its end leave behind.\<close>

lemma Action_run_resolves:
  assumes "Action_run a k h = Inr (new, h')" and "dynamic_class (actions h' a) = k"
  shows "unfinished new a h' \<or> resolved a h'"
  using assms by (cases k) (auto simp: run_defs invoke_def resolved_def unfinished_def split: option.splits)

lemma Action_end_resolves:
  assumes "Action_end k r h = (new, h')" and "dynamic_class (actions h' a) = k"
    and "\<not> composes k" and "\<not> overrides_tryRun k"
  shows "resolved a h'"
  using assms
  by (cases k) (auto simp: resolved_def FunctionAction_end_def ConsumerAction_end_def BiConsumerAction_end_def finish_def
      split: sum.splits option.splits)

lemma completeWith_supplier_follows:
  assumes "completeWith_supplier c u h = Inr (new, h')"
  shows "follows c h'"
proof -
  obtain s a h1 where 1: "Action_new (RelayAction s c) None h = (a, h1)" "attach s a h1 = (new, h')"
    using assms by (auto simp: completeWith_supplier_def split: option.splits if_splits prod.splits)
  note R = registeredD[OF attach_registered(1)[OF 1]]
  show ?thesis using R(3,6) by (auto simp: follows_def)
qed

lemma Composition_end_resolves:
  assumes "CompositionFunctionAction_end (consumer k) r h = Inr (new, h')" and "dynamic_class (actions h' a) = k"
    and "composes k" and "\<not> overrides_tryRun k"
  shows "resolved a h'"
  using assms
  by (cases k) (auto simp: resolved_def CompositionFunctionAction_end_def finish_def dest: completeWith_supplier_follows
      split: sum.splits exception.splits)

lemma work_resolves:
  assumes inv: "promise_inv (f # fs) h" and ok: "resolved_ok (f # fs) h" and step: "work f h = Inr (new, h')"
  shows "resolved_ok (new @ fs) h'"
proof (unfold resolved_ok_def, intro ballI)
  fix a assume a: "a \<in> set (history h')"
  note D = promise_invD[OF inv]
  have ext: "extends h h'" by (rule extends_work[OF step])
  have old: "a < action_count h' \<and> suppliers_done a h' \<and> dynamic_class (actions h' a) = dynamic_class (actions h a)"
    if "a < action_count h" "suppliers_done a h"
    using that suppliers_done_extends[OF D(1) ext] extends_actionD(1)[OF ext] extends_classD[OF ext] by simp
  show "a < action_count h' \<and> suppliers_done a h' \<and> (unfinished (new @ fs) a h' \<or> resolved a h')"
  proof (cases "f = Frame_run a")
    case True
    then have "frame_ok h (Frame_run a)" using D(2)[of "Frame_run a"] by simp
    then have "a < action_count h" "suppliers_done a h" by simp_all
    note o = old[OF this]
    have "Action_run a (dynamic_class (actions h a)) (enter_run a h) = Inr (new, h')" using step True by simp
    from Action_run_resolves[OF this] show ?thesis using o by (auto simp: unfinished_def)
  next
    case False
    have "a \<in> set (history h)"
    proof (cases "\<exists>b. f = Frame_run b")
      case True
      then obtain b where b: "f = Frame_run b" by blast
      then have "Action_run b (dynamic_class (actions h b)) (enter_run b h) = Inr (new, h')" using step by simp
      from history_run[OF this] show ?thesis using a False b by (auto simp: heap_simps)
    qed (use a history_work[OF step] in auto)
    then have b: "a < action_count h" "suppliers_done a h" "unfinished (f # fs) a h \<or> resolved a h"
      using ok by (auto simp: resolved_ok_def)
    note o = old[OF b(1,2)]
    let ?k = "dynamic_class (actions h a)"
    consider "resolved a h" | "unfinished fs a h" | r where "f = Frame_end a r" "\<not> composes ?k" "\<not> overrides_tryRun ?k"
      | r where "f = Frame_compose a r" "composes ?k" "\<not> overrides_tryRun ?k"
      using b(3) by (auto simp: unfinished_def split: if_splits)
    then show ?thesis
    proof cases
      case 1
      then show ?thesis using o resolved_extends[OF D(1) ext b(1,2)] by simp
    next
      case 2
      then show ?thesis using o by (auto simp: unfinished_def)
    next
      case 3
      then show ?thesis using o step Action_end_resolves[of ?k r h new h' a] by simp
    next
      case 4
      then show ?thesis using o step Composition_end_resolves[of ?k r h new h' a] by simp
    qed
  qed
qed

lemma execute_resolves:
  "execute fs h = Some (Inr h') \<Longrightarrow> promise_inv fs h \<Longrightarrow> resolved_ok fs h \<Longrightarrow> resolved_ok [] h'"
  by (induction rule: execute_induct) (auto intro: work_inv work_resolves)


section \<open>Steps between stores\<close>

definition store_empty :: "'v promise_store" where
  "store_empty =
     \<lparr>promises = \<lambda>_. \<lparr>mResult = None, mException = None, mIsDone = False, mExecutor = None, mActions = None\<rparr>, promise_count = 0,
      actions = \<lambda>_. \<lparr>dynamic_class = RelayAction 0 0, mActionExecutor = None, mClaim = False\<rparr>, action_count = 0,
      node_count = 0, posted = [], timers = [], timer_count = 0, history = []\<rparr>"

text \<open>The classes of action that clients register on a promise \<open>p\<close> with an executor.\<close>

definition continuation :: "addr \<Rightarrow> (addr \<Rightarrow> 'v action_class) \<Rightarrow> bool" where
  "continuation p mk \<longleftrightarrow>
     (\<exists>f. mk \<in> {\<lambda>c. FunctionAction p c f, \<lambda>c. BiFunctionAction p c f, \<lambda>c. ConsumerAction p c f, \<lambda>c. BiConsumerAction p c f,
        \<lambda>c. RunAction p c f, \<lambda>c. ErrorFunctionAction p c f, \<lambda>c. ErrorConsumerAction p c f}) \<or>
     (\<exists>g. mk \<in> {\<lambda>c. CompositionFunctionAction p c g, \<lambda>c. BiCompositionFunctionAction p c g})"

text \<open>
  A step is a call of a client, a task run by its executor (each executor takes its tasks in order), or a timer that fires. A
  call whose frames reach something undefined makes no step.
\<close>

inductive promise_step :: "'v promise_store \<Rightarrow> 'v promise_store \<Rightarrow> bool" where
  creates: "Promise_new ex h = (p, h') \<Longrightarrow> promise_step h h'"
| calls: "client_call c h = Inr pr \<Longrightarrow> perform pr = Some (Inr h') \<Longrightarrow> promise_step h h'"
| supplies: "completeWith_supplier p s h = Inr pr \<Longrightarrow> perform pr = Some (Inr h') \<Longrightarrow> promise_step h h'"
| continues: "continuation p mk \<Longrightarrow> register ex p mk h = Inr (c, pr) \<Longrightarrow> perform pr = Some (Inr h') \<Longrightarrow> promise_step h h'"
| delays: "delay p d h = Inr (c, pr) \<Longrightarrow> perform pr = Some (Inr h') \<Longrightarrow> promise_step h h'"
| times_out: "then_timeout p t d h = (Inr pr, h1) \<Longrightarrow> perform pr = Some (Inr h') \<Longrightarrow> promise_step h h'"
| times_out_throws: "then_timeout p t d h = (Inl e, h') \<Longrightarrow> promise_step h h'"
| on_executor: "onExecutor p ex h = Inr h' \<Longrightarrow> promise_step h h'"
| joins: "\<not> isDone s1 h \<or> \<not> isDone s2 h \<Longrightarrow> valid s1 h \<Longrightarrow> valid s2 h \<Longrightarrow> valid c h \<Longrightarrow>
     relay_both ex s1 s2 c h = Some (Inr h') \<Longrightarrow> promise_step h h'"
| settles: "valid c h \<Longrightarrow> action_nodes c h = [] \<Longrightarrow> h' = setResult c v h \<or> h' = setException c e h \<Longrightarrow> promise_step h h'"
| watches: "k = AnyOfAction s c \<or> k = ErrorRelayAction s c \<Longrightarrow> valid s h \<Longrightarrow> valid c h \<Longrightarrow> Action_new k None h = (a, h1) \<Longrightarrow>
     perform (attach s a h1) = Some (Inr h') \<Longrightarrow> promise_step h h'"
| runs_posted: "posted h = xs @ (n, a) # ys \<Longrightarrow> n \<notin> fst ` set xs \<Longrightarrow>
     execute [Frame_run a] (h\<lparr>posted := xs @ ys\<rparr>) = Some (Inr h') \<Longrightarrow> promise_step h h'"
| fires: "timers h = xs @ (i, t, d) # ys \<Longrightarrow> Timeout_run t (h\<lparr>timers := xs @ ys\<rparr>) = Inr pr \<Longrightarrow>
     perform pr = Some (Inr h') \<Longrightarrow> promise_step h h'"

inductive promise_reachable :: "'v promise_store \<Rightarrow> bool" where
  start: "promise_reachable store_empty"
| step: "promise_reachable h \<Longrightarrow> promise_step h h' \<Longrightarrow> promise_reachable h'"

lemma continuationD:
  assumes "continuation p mk"
  shows "suppliers (mk c) = [p]" and "consumer (mk c) = c"
  using assms by (auto simp: continuation_def)

definition sound :: "'v promise_store \<Rightarrow> bool" where
  "sound h \<longleftrightarrow> promise_inv [] h \<and> resolved_ok [] h \<and> clean h"

lemma performE:
  assumes "perform (fs, h) = Some (Inr h')" and "promise_inv fs h" and "resolved_ok fs h" and "clean h"
  shows "sound h'" and "extends h h'"
  using assms execute_inv execute_resolves extends_execute[of fs h h']
  by (auto simp: perform_def sound_def extends_def)


text \<open>A call that registers or settles something keeps what was resolved.\<close>

lemma sound_progress:
  assumes "sound h" and "promise_inv (fs @ []) h1" and "extends h h1" and "history h1 = history h" and "perform (fs, h1) = Some (Inr h')"
  shows "sound h' \<and> extends h h'"
proof -
  have ok: "store_ok h" using assms(1) by (auto simp: sound_def dest: promise_invD(1))
  have "a < action_count h1 \<and> suppliers_done a h1 \<and> resolved a h1" if "a \<in> set (history h1)" for a
  proof -
    have "a < action_count h" "suppliers_done a h" "resolved a h"
      using assms(1,4) that by (auto simp: sound_def resolved_ok_def unfinished_def split: if_splits)
    then show ?thesis
      using resolved_extends[OF ok assms(3)] suppliers_done_extends[OF ok assms(3)] extends_actionD(1)[OF assms(3)] by blast
  qed
  then have "resolved_ok fs h1" by (simp add: resolved_ok_def)
  moreover have "clean h1" using assms(1,3) by (simp add: sound_def extends_def)
  ultimately show ?thesis
    using performE[OF assms(5)] assms(2,3) extends_trans by auto
qed

lemma sound_same:
  assumes "sound h" and "promise_inv [] h'" and "extends h h'" and "history h' = history h"
  shows "sound h' \<and> extends h h'"
  using sound_progress[OF assms(1) _ assms(3,4), of "[]" h'] assms(2) by (simp add: perform_def)

lemma history_complete:
  "complete c v h = Inr (b, fs, h1) \<Longrightarrow> history h1 = history h"
  "completeWith c e h = Inr (b, fs, h1) \<Longrightarrow> history h1 = history h"
  by (auto simp: complete_def completeWith_def Let_def heap_simps split: if_splits option.splits)

lemma history_client_call: "client_call c h = Inr (fs, h1) \<Longrightarrow> history h1 = history h"
  using history_work[of "Frame_call c" h fs h1] by simp

text \<open>
  Registering an action that waits for two promises, of which one is not done: the tests of the code find nothing to run.
\<close>

definition grow :: "addr \<Rightarrow> addr \<Rightarrow> 'v promise_store \<Rightarrow> 'v promise_store" where
  "grow a s h =
     (if isDone s h then h
      else (upd_promise s (\<lambda>x. x\<lparr>mActions := Some (action_nodes s h @ [(node_count h, a)])\<rparr>) h)\<lparr>node_count := node_count h + 1\<rparr>)"

lemma grow_simps:
  "isDone q (grow a s h) = isDone q h" "actions (grow a s h) = actions h" "promise_count (grow a s h) = promise_count h"
  "action_count (grow a s h) = action_count h" "posted (grow a s h) = posted h" "history (grow a s h) = history h"
  "node_count (grow a s h) = (if isDone s h then node_count h else node_count h + 1)"
  "action_nodes q (grow a s h) = action_nodes q h @ (if q = s \<and> \<not> isDone s h then [(node_count h, a)] else [])"
  "getResult q (grow a s h) = getResult q h" "getException q (grow a s h) = getException q h"
  "q \<noteq> s \<Longrightarrow> promises (grow a s h) q = promises h q"
  by (simp_all add: grow_def heap_simps)

lemma attach_both:
  assumes "dynamic_class (actions h a) = BiRelayAction s1 s2 c" and "\<not> isDone s1 h \<or> \<not> isDone s2 h"
  shows "perform (attach s a h) = Some (Inr (grow a s h))"
proof (cases "isDone s h")
  case True
  then show ?thesis using assms by (auto simp: perform_def attach_def grow_def execute_Cons tryRun_def)
qed (simp add: perform_def attach_def addAction_def grow_def Let_def heap_simps)

lemma relay_both_registered:
  assumes nd: "\<not> isDone s1 h \<or> \<not> isDone s2 h" and "s1 < promise_count h" and "s2 < promise_count h"
  shows "\<exists>p h1 a h'. Promise_new ex h = (p, h1) \<and> registered a (BiRelayAction s1 s2 c) h1 h' \<and>
    relay_both ex s1 s2 c h = Some (Inr h')"
proof -
  obtain p h1 where p: "Promise_new ex h = (p, h1)" by fastforce
  obtain a h2 where a: "Action_new (BiRelayAction s1 s2 c) None h1 = (a, h2)" by fastforce
  have "\<not> isDone s1 h1 \<or> \<not> isDone s2 h1" using assms p by (auto simp: Promise_new_def)
  then have nd2: "\<not> isDone s1 h2 \<or> \<not> isDone s2 h2" using a by (auto simp: Action_new_def)
  have cls: "dynamic_class (actions h2 a) = BiRelayAction s1 s2 c" using a by (auto simp: Action_new_def)
  have h2: "a = action_count h1" "actions h2 = (actions h1)(a := \<lparr>dynamic_class = BiRelayAction s1 s2 c, mActionExecutor = None, mClaim = False\<rparr>)"
    "promises h2 = promises h1" "promise_count h2 = promise_count h1" "action_count h2 = a + 1" "posted h2 = posted h1"
    "history h2 = history h1" "node_count h2 = node_count h1" "\<And>q. action_nodes q h2 = action_nodes q h1"
    using a by (auto simp: Action_new_def action_nodes_def)
  have "relay_both ex s1 s2 c h = Some (Inr (grow a s2 (grow a s1 h2)))"
    using attach_both[OF cls nd2] attach_both[of "grow a s1 h2" a s1 s2 c s2] cls nd2
    by (simp add: relay_both_def p a grow_simps)
  moreover have "registered a (BiRelayAction s1 s2 c) h1 (grow a s2 (grow a s1 h2))"
    using h2 by (auto simp: registered_def grow_simps)
  ultimately show ?thesis using p by blast
qed


lemma times_out_throws_inv:
  assumes "sound h" and "then_timeout p t d h = (r, h')"
  shows "sound h' \<and> extends h h'"
  using assms extends_then_timeout[OF assms(2)] history_timeout[OF assms(2)] then_timeout_inv(1)[of "[]" h]
  by (intro sound_same) (auto simp: sound_def)

lemma step_sound:
  assumes "promise_step h h'" and "sound h"
  shows "sound h' \<and> extends h h'"
  using assms(1)
proof cases
  case (creates ex p)
  then show ?thesis
    using assms(2) Promise_new_inv(1)[of "[]" h ex p h']
    by (intro sound_same) (auto simp: sound_def dest: extends_Promise_new history_new)
next
  case (calls c pr)
  obtain fs h1 where pr: "pr = (fs, h1)" by fastforce
  have "promise_inv (Frame_call c # []) h" using assms(2) by (auto simp: sound_def intro!: reframe_inv[of "[]" h])
  from client_call_inv[OF this] have "promise_inv (fs @ []) h1" using calls pr by simp
  moreover have "extends h h1" using extends_work[of "Frame_call c" h fs h1] calls pr by simp
  ultimately show ?thesis using sound_progress[OF assms(2)] calls pr history_client_call by blast
next
  case (supplies p s pr)
  obtain fs h1 where pr: "pr = (fs, h1)" by fastforce
  have "promise_inv (fs @ []) h1"
    using completeWith_supplier_inv[of "[]" h p s fs h1] supplies(1) pr assms(2) by (simp add: sound_def)
  then show ?thesis
    using supplies pr sound_progress[OF assms(2) _ extends_completeWith_supplier history_supplier] by blast
next
  case (continues p mk ex c pr)
  obtain fs h1 where pr: "pr = (fs, h1)" by fastforce
  have "promise_inv (fs @ []) h1"
    using register_inv[of "[]" h ex p mk c fs h1] continuationD[OF continues(1)] continues(2) assms(2) pr by (simp add: sound_def)
  then show ?thesis
    using continues pr sound_progress[OF assms(2) _ extends_register history_register] by blast
next
  case (delays p d c pr)
  obtain fs h1 where pr: "pr = (fs, h1)" by fastforce
  obtain h2 h3 a where 1: "Promise_new (mExecutor (promises h p)) h = (c, h2)" "Action_new (DelayAction p c d) None h2 = (a, h3)"
    "attach p a h3 = (fs, h1)" "p < promise_count h"
    using delays(1) pr by (auto simp: delay_def valid_def split: if_splits prod.splits)
  have inv: "promise_inv [] h" using assms(2) by (simp add: sound_def)
  note P = Promise_new_inv[OF inv 1(1)]
  have "promise_count h \<le> promise_count h2" using extends_Promise_new[OF 1(1)] by (simp add: extends_countD)
  then have "promise_inv (fs @ []) h1" using attach_new_inv[OF P(1) 1(2,3)] P(2) 1(4) by simp
  moreover have "extends h h1"
    using extends_Promise_new[OF 1(1)] extends_Action_new[OF 1(2)] extends_attach[OF 1(3)] extends_trans by blast
  moreover have "history h1 = history h"
    using history_new(1)[OF 1(1)] history_new(2)[OF 1(2)] history_attach[OF 1(3)] by simp
  ultimately show ?thesis using sound_progress[OF assms(2)] delays(2) pr by blast
next
  case (times_out p t d pr h1)
  obtain fs h2 where pr: "pr = (fs, h2)" by fastforce
  have t: "then_timeout p t d h = (Inr (fs, h2), h1)" using times_out(1) pr by simp
  have "promise_inv (fs @ []) h2" using then_timeout_inv(2)[OF _ t refl, of "[]"] assms(2) by (simp add: sound_def)
  then show ?thesis
    using sound_progress[OF assms(2)] times_out(2) pr extends_then_timeout[OF t] history_timeout[OF t] by blast
next
  case (times_out_throws p t d e)
  then show ?thesis using times_out_throws_inv[OF assms(2)] by blast
next
  case (on_executor p ex)
  then obtain e where h': "h' = upd_promise p (\<lambda>x. x\<lparr>mExecutor := e\<rparr>) h" "p < promise_count h"
    by (auto simp: onExecutor_def valid_def split: option.splits if_splits)
  have inv: "promise_inv [] h" using assms(2) by (simp add: sound_def)
  have same: "isDone q h' = isDone q h" "mActions (promises h' q) = mActions (promises h q)" "action_nodes q h' = action_nodes q h"
    "actions h' = actions h" "promise_count h' = promise_count h" "action_count h' = action_count h" "node_count h' = node_count h"
    "posted h' = posted h" "history h' = history h" for q
    by (simp_all add: h' heap_simps)
  have "suppliers_done a h' = suppliers_done a h" for a by (simp add: suppliers_done_def same)
  then have "promise_inv [] h'"
    using inv by (simp add: promise_inv_def store_ok_def heads_ok_def waiting_ok_def claims_ok_def same)
  then show ?thesis
    using assms(2) by (intro sound_same) (auto simp: h' heap_simps intro: extends_upd_promise)
next
  case (joins s1 s2 c ex)
  have inv: "promise_inv [] h" using assms(2) by (simp add: sound_def)
  obtain p h1 a where 1: "Promise_new ex h = (p, h1)" and reg: "registered a (BiRelayAction s1 s2 c) h1 h'"
    using relay_both_registered[of h s1 s2 ex c] joins by (auto simp: valid_def)
  note P = Promise_new_inv[OF inv 1]
  have cnt: "promise_count h \<le> promise_count h1" using extends_Promise_new[OF 1] by (simp add: extends_countD)
  have nd: "\<not> isDone s1 h1 \<or> \<not> isDone s2 h1" using joins(1-3) P(5) by (simp add: valid_def)
  have "promise_inv ([] @ []) h'"
    using joins(2-4) cnt nd by (intro registered_inv[OF P(1) reg]) (auto simp: valid_def)
  moreover have "extends h1 h'" by (rule extends_registered[OF reg])
  moreover have "history h' = history h" using registeredD(8)[OF reg] history_new(1)[OF 1] by simp
  ultimately show ?thesis
    using assms(2) extends_Promise_new[OF 1] by (intro sound_same) (auto intro: extends_trans)
next
  case (settles c v e)
  have inv: "promise_inv [] h" using assms(2) by (simp add: sound_def)
  have c: "c < promise_count h" using settles by (simp add: valid_def)
  have nodes: "action_nodes c h' = []" using settles by (auto simp: nodes_set)
  have "promise_inv (onComplete c h' @ []) h'" using set_inv[OF inv c] settles(3) by auto
  then have "promise_inv [] h'"
    by (rule reframe_inv) (use nodes in \<open>auto simp: onComplete_def action_nodes_def first_node_def split: option.splits\<close>)
  then show ?thesis using settles assms(2) by (intro sound_same) auto
next
  case (watches k s c a h1)
  have inv: "promise_inv [] h" using assms(2) by (simp add: sound_def)
  obtain fs h2 where att: "attach s a h1 = (fs, h2)" by fastforce
  have "promise_inv (fs @ []) h2"
    using watches(1-4) by (intro attach_new_inv[OF inv watches(4) att]) (auto simp: valid_def)
  moreover have "extends h h2"
    using extends_Action_new[OF watches(4)] extends_attach[OF att] extends_trans by blast
  moreover have "history h2 = history h" using history_new(2)[OF watches(4)] history_attach[OF att] by simp
  ultimately show ?thesis using sound_progress[OF assms(2)] watches(5) att by simp
next
  case (runs_posted xs n a ys)
  let ?h = "h\<lparr>posted := xs @ ys\<rparr>"
  have inv: "promise_inv [] h" and ok: "resolved_ok [] h" and cl: "clean h" using assms(2) by (simp_all add: sound_def)
  note D = promise_invD[OF inv]
  have a: "a < action_count h" "mClaim (actions h a)" "suppliers_done a h"
    using claims_posted[OF inv, of n a] D(5) runs_posted(1) by (auto simp: claims_ok_def)
  have sd: "suppliers_done b ?h = suppliers_done b h" for b by (simp add: suppliers_done_def)
  have "store_ok ?h" using D(1) by (simp add: store_ok_def heap_simps)
  moreover have "heads_ok [Frame_run a] ?h" using D(3) by (simp add: heads_ok_def heap_simps)
  moreover have "waiting_ok [Frame_run a] ?h" using D(4) by (simp add: waiting_ok_def sd heap_simps)
  moreover have "claims_ok [Frame_run a] ?h"
  proof -
    have "count_list (runs [Frame_run a]) b + count_list (map snd (posted ?h)) b + count_list (history ?h) b =
        (if b < action_count ?h \<and> mClaim (actions ?h b) then 1 else 0)" for b
    proof -
      have "count_list (map snd (posted h)) b + count_list (history h) b = (if b < action_count h \<and> mClaim (actions h b) then 1 else 0)"
        using D(5) by (simp add: claims_ok_def)
      then show ?thesis by (cases "b = a") (simp_all add: runs_posted(1))
    qed
    then show ?thesis using D(5) runs_posted(1) by (simp add: claims_ok_def sd)
  qed
  ultimately have "promise_inv [Frame_run a] ?h" using a by (simp add: promise_inv_def sd)
  moreover have "resolved_ok [Frame_run a] ?h"
  proof -
    have "resolved b ?h = resolved b h" for b
      by (cases "dynamic_class (actions h b)") (simp_all add: resolved_def follows_def)
    then show ?thesis using ok by (simp add: resolved_ok_def sd)
  qed
  moreover have "clean ?h" using cl by (simp add: clean_def)
  ultimately have "sound h' \<and> extends ?h h'"
    using performE[of "[Frame_run a]" ?h h'] runs_posted(3) by (simp add: perform_def)
  then show ?thesis using extends_trans[of h ?h h'] by simp
next
  case (fires xs i t d ys pr)
  let ?h = "h\<lparr>timers := xs @ ys\<rparr>"
  obtain fs h1 where pr: "pr = (fs, h1)" by fastforce
  have ext: "extends h ?h" by (simp add: extends_def clean_def)
  have s: "sound ?h" using sound_same[OF assms(2) _ ext] assms(2) timers_inv(1) by (auto simp: sound_def)
  then have inv: "promise_inv [] ?h" by (simp add: sound_def)
  have "promise_inv (fs @ []) h1" "extends ?h h1" "history h1 = history ?h"
    using fires(2) pr inv complete_inv[OF inv] extends_complete extends_completeWith
    by (auto simp: Timeout_run_def drop_flag_eq_Inr history_complete split: timer.splits if_splits)
  from sound_progress[OF s this] have "sound h' \<and> extends ?h h'" using fires(3) pr by simp
  then show ?thesis using ext extends_trans by blast
qed

lemma reachable_sound: "promise_reachable h \<Longrightarrow> sound h"
proof (induction rule: promise_reachable.induct)
  case start
  show ?case
    by (auto simp: sound_def promise_inv_def store_ok_def heads_ok_def waiting_ok_def claims_ok_def resolved_ok_def clean_def
        store_empty_def action_nodes_def)
qed (use step_sound in blast)

lemma reachable_extends: "promise_step\<^sup>*\<^sup>* h h' \<Longrightarrow> promise_reachable h \<Longrightarrow> promise_reachable h' \<and> extends h h'"
  by (induction rule: rtranclp_induct) (auto intro: promise_reachable.step extends_trans dest: step_sound[OF _ reachable_sound])


section \<open>Properties of every reachable store\<close>

text \<open>
  A promise is settled once. Completing one that is not done returns true, makes it done with that result and no
  exception, and \<open>get\<close> returns the result after all actions have run. Completing one that is done returns
  false and changes nothing, and whatever clients, executors and timers do afterwards, it keeps its result and its exception.
\<close>

theorem Promise_settles_once:
  assumes reach: "promise_reachable h" and p: "p < promise_count h"
  shows "if isDone p h
    then complete p v h = Inr (False, [], h) \<and> completeWith p (Some e) h = Inr (False, [], h) \<and>
      (\<forall>h'. promise_step\<^sup>*\<^sup>* h h' \<longrightarrow> isDone p h' \<and> getResult p h' = getResult p h \<and> getException p h' = getException p h)
    else \<exists>fs h1. complete p v h = Inr (True, fs, h1) \<and> isDone p h1 \<and> getResult p h1 = v \<and> getException p h1 = None \<and>
      (\<forall>h'. execute fs h1 = Some (Inr h') \<longrightarrow> get p h' = Get_value v)"
proof (cases "isDone p h")
  case True
  have "isDone p h' \<and> getResult p h' = getResult p h \<and> getException p h' = getException p h" if "promise_step\<^sup>*\<^sup>* h h'" for h'
    using extends_settledD[OF _ p True] reachable_extends[OF that reach] by blast
  moreover have "complete p v h = Inr (False, [], h)" "completeWith p (Some e) h = Inr (False, [], h)"
    using p True by (simp_all add: complete_def completeWith_def valid_def)
  ultimately show ?thesis unfolding if_P[OF True] by blast
next
  case False
  let ?h1 = "upd_promise p (\<lambda>x. x\<lparr>mResult := v, mIsDone := True\<rparr>) h"
  have "getException p h = None"
    using reachable_sound[OF reach] False p by (simp add: sound_def clean_def)
  then have 1: "isDone p ?h1" "getResult p ?h1 = v" "getException p ?h1 = None" by (simp_all add: heap_simps)
  have "get p h' = Get_value v" if "execute (onComplete p ?h1) ?h1 = Some (Inr h')" for h'
    using extends_settledD[OF extends_execute[OF that], of p] 1 p by (simp add: get_def get_done_def upd_promise_simps(2))
  then show ?thesis
    using False p 1 by (simp add: complete_def valid_def Let_def)
qed

definition store_one :: "nat promise_store" where
  "store_one = snd (Promise_new (Some Synchronous_executor) store_empty)"

lemma store_one_reachable: "promise_reachable store_one"
  unfolding store_one_def
  by (rule promise_reachable.step[OF promise_reachable.start]) (rule promise_step.creates[OF surjective_pairing])

lemma store_one_simps:
  "promise_count store_one = 1" "\<not> isDone 0 store_one" "mExecutor (promises store_one 0) = Some Synchronous_executor"
  "action_nodes p store_one = []" "action_count store_one = 0" "posted store_one = []"
  by (simp_all add: store_one_def Promise_new_def store_empty_def action_nodes_def)

theorem Promise_settles_once_witness:
  "\<exists>fs h1. complete 0 (Some 7) store_one = Inr (True, fs, h1) \<and> getResult 0 h1 = Some 7"
  using Promise_settles_once[OF store_one_reachable, of 0 "Some 7" undefined] by (auto simp: store_one_simps)

text \<open>A store with a function registered on the promise 0, and the store after the promise was completed with 7.\<close>

definition example_callback :: "nat callback" where
  "example_callback = (\<lambda>v _. ([], Inr (map_option Suc v)))"

definition store_two :: "nat promise_store" where
  "store_two = snd (snd (projr (thenApply (Some Synchronous_executor) 0 example_callback store_one)))"

definition store_three :: "nat promise_store" where
  "store_three = projr (the (perform (projr (client_call (Call_complete 0 (Some 7)) store_two))))"

lemma store_two_step:
  "thenApply (Some Synchronous_executor) 0 example_callback store_one = Inr (1, [], store_two)"
  by (simp add: store_two_def thenApply_def register_def valid_def store_one_simps Promise_new_def Action_new_def attach_def
      addAction_def Let_def store_one_def upd_promise_def store_empty_def)

lemma store_three_step:
  "\<exists>pr. client_call (Call_complete 0 (Some 7)) store_two = Inr pr \<and> perform pr = Some (Inr store_three)"
proof -
  have "\<not> isl (client_call (Call_complete 0 (Some 7)) store_two)"
    "case perform (projr (client_call (Call_complete 0 (Some 7)) store_two)) of Some (Inr h) \<Rightarrow> True | _ \<Rightarrow> False"
    by code_simp+
  then show ?thesis
    unfolding store_three_def
    by (cases "client_call (Call_complete 0 (Some 7)) store_two") (auto split: option.splits sum.splits)
qed

lemma store_three_simps:
  "action_count store_three = 1" "history store_three = [0]" "promise_count store_three = 2" "posted store_three = []"
  "getResult 1 store_three = Some 8" "isDone 0 store_three" "isDone 1 store_three" "suppliers_done 0 store_three"
  by code_simp+

lemma store_three_reachable: "promise_reachable store_three"
proof -
  have "continuation 0 (\<lambda>c. FunctionAction 0 c example_callback)" by (auto simp: continuation_def)
  moreover have "perform ([], store_two) = Some (Inr store_two)" by (simp add: perform_def)
  ultimately have "promise_reachable store_two"
    using promise_reachable.step[OF store_one_reachable promise_step.continues] store_two_step by (simp add: thenApply_def)
  then show ?thesis using store_three_step promise_reachable.step promise_step.calls by blast
qed

text \<open>
  (C22) No action runs twice: in every reachable store an action is claimed exactly if it is queued at its executor or was
  run, never both, it is queued or run only once, and only after all promises it reads are done.
\<close>

theorem Promise_actions_run_once:
  assumes "promise_reachable h"
  shows "distinct (map snd (posted h) @ history h) \<and>
    (\<forall>a < action_count h. mClaim (actions h a) \<longleftrightarrow> a \<in> set (map snd (posted h) @ history h)) \<and>
    (\<forall>a \<in> set (map snd (posted h) @ history h). suppliers_done a h)"
proof -
  have inv: "promise_inv [] h" and ok: "resolved_ok [] h" using reachable_sound[OF assms] by (simp_all add: sound_def)
  have counts: "count_list (map snd (posted h) @ history h) a = (if a < action_count h \<and> mClaim (actions h a) then 1 else 0)" for a
    using promise_invD(5)[OF inv] by (simp add: claims_ok_def)
  then have "count_list (map snd (posted h) @ history h) a \<le> 1" for a by simp
  then have "distinct (map snd (posted h) @ history h)" by (rule distinct_if_counts)
  moreover have "mClaim (actions h a) \<longleftrightarrow> a \<in> set (map snd (posted h) @ history h)" if "a < action_count h" for a
    using counts[of a] that count_list_0_iff[of "map snd (posted h) @ history h" a] by (auto split: if_splits)
  moreover have "suppliers_done a h" if "a \<in> set (map snd (posted h) @ history h)" for a
    using that ok promise_invD(5)[OF inv] by (auto simp: resolved_ok_def claims_ok_def)
  ultimately show ?thesis by blast
qed

theorem Promise_actions_run_once_witness:
  "distinct (map snd (posted store_three) @ history store_three) \<and> mClaim (actions store_three 0)"
  using Promise_actions_run_once[OF store_three_reachable] by (simp add: store_three_simps)



lemma actions_accounted:
  assumes "promise_reachable h" and a: "a < action_count h"
  shows "if suppliers_done a h then a \<in> snd ` set (posted h) \<or> a \<in> set (history h) \<and> resolved a h
    else (\<forall>s \<in> set (suppliers (dynamic_class (actions h a))). \<not> isDone s h \<longrightarrow> a \<in> snd ` set (action_nodes s h)) \<and>
      a \<notin> set (history h)"
proof -
  have inv: "promise_inv [] h" and ok: "resolved_ok [] h" using reachable_sound[OF assms(1)] by (simp_all add: sound_def)
  note D = promise_invD[OF inv]
  have count: "count_list (map snd (posted h)) a + count_list (history h) a = (if mClaim (actions h a) then 1 else 0)"
    using D(5) a by (simp add: claims_ok_def)
  show ?thesis
  proof (cases "suppliers_done a h")
    case True
    have "mClaim (actions h a)"
    proof (rule ccontr)
      assume "\<not> mClaim (actions h a)"
      then have "\<exists>s \<in> set (suppliers (dynamic_class (actions h a))). a \<in> snd ` set (action_nodes s h)"
        using D(4) True a by (simp add: waiting_ok_def)
      then obtain s where s: "s \<in> set (suppliers (dynamic_class (actions h a)))" "action_nodes s h \<noteq> []" by force
      then show False using D(3) True by (simp add: heads_ok_def suppliers_done_def)
    qed
    then have "a \<in> snd ` set (posted h) \<or> a \<in> set (history h)"
      using count count_list_0_iff[of "map snd (posted h)" a] count_list_0_iff[of "history h" a] by auto
    then show ?thesis using ok True by (auto simp: resolved_ok_def)
  next
    case False
    then have "a \<notin> set (history h)" using ok by (auto simp: resolved_ok_def)
    moreover have "\<not> mClaim (actions h a)"
    proof
      assume "mClaim (actions h a)"
      then have "a \<in> snd ` set (posted h) \<or> a \<in> set (history h)"
        using count count_list_0_iff[of "map snd (posted h)" a] count_list_0_iff[of "history h" a] by auto
      then show False using False ok D(5) by (auto simp: resolved_ok_def claims_ok_def)
    qed
    ultimately show ?thesis using False D(4) a by (simp add: waiting_ok_def)
  qed
qed




end
