(* ===== verification/Promise_Chains.thy ===== *)
theory Promise_Chains
  imports Promise_Properties
begin

text \<open>
  Chains of functions registered with \<open>thenApply\<close>, exceptions that pass through them to \<open>get\<close>, groups of promises, and what goes wrong when
  an action completes its own supplier again.
\<close>

section \<open>Chains of functions\<close>

text \<open>An outcome is the exception or the result with which a promise is settled.\<close>

type_synonym 'v outcome = "throwable + 'v option"

definition outcome :: "addr \<Rightarrow> 'v promise_store \<Rightarrow> 'v outcome" where
  "outcome p h = (case getException p h of Some e \<Rightarrow> Inl e | None \<Rightarrow> Inr (getResult p h))"

definition settle :: "addr \<Rightarrow> 'v outcome \<Rightarrow> 'v promise_store \<Rightarrow> 'v promise_store" where
  "settle p r h = (case r of Inl e \<Rightarrow> setException p e h | Inr v \<Rightarrow> setResult p v h)"

text \<open>What a function makes of an outcome: its value, the exception it throws, or the exception that is passed on.\<close>

fun apply_function :: "'v callback \<Rightarrow> 'v outcome \<Rightarrow> 'v outcome" where
  "apply_function f (Inl e) = Inl (toCompletionException e)"
| "apply_function f (Inr v) = (case snd (f v None) of Inl t \<Rightarrow> Inl (caught t) | Inr u \<Rightarrow> Inr u)"

text \<open>Registering each function on the promise of the one before.\<close>

fun thenApply_chain :: "'v callback list \<Rightarrow> addr \<Rightarrow> 'v promise_store \<Rightarrow> (addr \<times> 'v promise_store) result option" where
  "thenApply_chain [] p h = Some (Inr (p, h))"
| "thenApply_chain (f # fs) p h =
     (case thenApply_own p f h of
        Inl e \<Rightarrow> Some (Inl e)
      | Inr (c, pr) \<Rightarrow> then_do (perform pr) (thenApply_chain fs c))"

definition pure_callback :: "'v callback \<Rightarrow> bool" where
  "pure_callback f \<longleftrightarrow> (\<forall>v e. fst (f v e) = [])"

text \<open>A chain that waits: promises \<open>ps\<close>, not done, joined by unclaimed actions.\<close>

fun waiting_chain :: "'v callback list \<Rightarrow> addr list \<Rightarrow> addr list \<Rightarrow> 'v promise_store \<Rightarrow> bool" where
  "waiting_chain [] [p] [] h \<longleftrightarrow> \<not> isDone p h \<and> getException p h = None \<and> action_nodes p h = []"
| "waiting_chain (f # fs) (p # c # ps) (a # as) h \<longleftrightarrow> \<not> isDone p h \<and> getException p h = None \<and> (\<exists>n. mActions (promises h p) = Some [(n, a)]) \<and>
     actions h a = \<lparr>dynamic_class = FunctionAction p c f, mActionExecutor = Some Synchronous_executor, mClaim = False\<rparr> \<and>
     waiting_chain fs (c # ps) as h"
| "waiting_chain _ _ _ h \<longleftrightarrow> False"

lemma waiting_chain_cong:
  "(\<And>p. p \<in> set ps \<Longrightarrow> promises h' p = promises h p) \<Longrightarrow> (\<And>a. a \<in> set as \<Longrightarrow> actions h' a = actions h a) \<Longrightarrow>
     waiting_chain fs ps as h' = waiting_chain fs ps as h"
  by (induction fs ps as h rule: waiting_chain.induct) (simp_all add: action_nodes_def)

lemma outcome_settle: "\<not> isDone p h \<Longrightarrow> getException p h = None \<Longrightarrow> outcome p (settle p r h) = r \<and> isDone p (settle p r h)"
  by (auto simp: outcome_def settle_def setResult_def setException_def heap_simps split: sum.splits)

lemma settle_other:
  "q \<noteq> p \<Longrightarrow> promises (settle p r h) q = promises h q" "actions (settle p r h) = actions h"
  "mActions (promises (settle p r h) q) = mActions (promises h q)"
  by (auto simp: settle_def setResult_def setException_def heap_simps split: sum.splits)

text \<open>Trying an unclaimed action of \<open>thenApply\<close> on the synchronous executor settles its consumer.\<close>

lemma run_function:
  assumes a: "actions h a = \<lparr>dynamic_class = FunctionAction p c f, mActionExecutor = Some Synchronous_executor, mClaim = False\<rparr>"
    and pure: "pure_callback f"
  shows "\<exists>h2. execute (Frame_tryRun a # rest) h =
      execute (onComplete c (settle c (apply_function f (outcome p h)) h2) @ rest) (settle c (apply_function f (outcome p h)) h2) \<and>
    promises h2 = promises h \<and> promise_count h2 = promise_count h \<and> (\<forall>b. b \<noteq> a \<longrightarrow> actions h2 b = actions h b)"
proof -
  let ?h3 = "upd_action a (\<lambda>x. x\<lparr>mClaim := True\<rparr>) h"
  let ?h4 = "enter_run a ?h3"
  have "execute (Frame_tryRun a # rest) h = execute (Frame_run a # rest) ?h3"
    using a by (simp add: execute_Cons tryRun_def claim_def Executor_execute_def heap_simps)
  also have "\<dots> = execute (onComplete c (settle c (apply_function f (outcome p h)) ?h4) @ rest) (settle c (apply_function f (outcome p h)) ?h4)"
  proof (cases "getException p h")
    case (Some e)
    then show ?thesis using a
      by (simp add: execute_Cons FunctionAction_run_def propagate_def finish_def outcome_def settle_def heap_simps)
  next
    case None
    then have "execute (Frame_run a # rest) ?h3 = execute (Frame_end a (snd (f (getResult p h) None)) # rest) ?h4"
      using a pure by (simp add: execute_Cons FunctionAction_run_def invoke_def pure_callback_def heap_simps)
    then show ?thesis using a None
      by (auto simp: execute_Cons FunctionAction_end_def finish_def outcome_def settle_def heap_simps split: sum.splits)
  qed
  finally show ?thesis by (intro exI[of _ ?h4]) (simp add: heap_simps)
qed

text \<open>One link: the loop of the settled promise claims and runs the action, which settles the next promise.\<close>

lemma run_link:
  assumes h1: "isDone p h1" "mActions (promises h1 p) = Some [(n, a)]"
    and a: "actions h1 a = \<lparr>dynamic_class = FunctionAction p c f, mActionExecutor = Some Synchronous_executor, mClaim = False\<rparr>"
    and pure: "pure_callback f"
  shows "\<exists>h2. execute (onComplete p h1 @ rest) h1 =
      execute (onComplete c (settle c (apply_function f (outcome p h1)) h2) @ Frame_runActions p None # rest)
        (settle c (apply_function f (outcome p h1)) h2) \<and>
    (\<forall>q. q \<noteq> p \<longrightarrow> promises h2 q = promises h1 q) \<and> (\<forall>b. b \<noteq> a \<longrightarrow> actions h2 b = actions h1 b)"
proof -
  let ?h2 = "upd_promise p (\<lambda>y. y\<lparr>mActions := Some []\<rparr>) h1"
  have "execute (onComplete p h1 @ rest) h1 = execute (Frame_tryRun a # Frame_runActions p None # rest) ?h2"
    using h1 by (simp add: onComplete_def first_node_def execute_Cons runActions_turn_def action_nodes_def)
  moreover have "actions ?h2 a = actions h1 a" "outcome p ?h2 = outcome p h1"
    by (auto simp: outcome_def heap_simps split: option.splits)
  ultimately show ?thesis
    using run_function[of ?h2 a p c f "Frame_runActions p None # rest"] a pure by (auto simp: heap_simps)
qed

text \<open>Settling the first promise of a waiting chain settles the last one with the outcome of all functions.\<close>

lemma run_chain:
  assumes "waiting_chain fs ps as h" and "distinct ps" and "distinct as" and "\<And>f. f \<in> set fs \<Longrightarrow> pure_callback f"
  shows "\<exists>h'. execute (onComplete (hd ps) (settle (hd ps) r h) @ rest) (settle (hd ps) r h) = execute rest h' \<and>
    isDone (last ps) h' \<and> outcome (last ps) h' = fold apply_function fs r"
  using assms
proof (induction fs arbitrary: ps as h r rest)
  case Nil
  then obtain p where p: "ps = [p]" "\<not> isDone p h" "getException p h = None" "action_nodes p h = []"
    by (auto elim: waiting_chain.elims)
  let ?h = "settle p r h"
  have "execute (onComplete p ?h @ rest) ?h = execute rest ?h"
    using p by (auto simp: onComplete_def settle_other action_nodes_def execute_Cons runActions_turn_def first_node_def split: option.splits)
  then show ?case using p outcome_settle[of h p r] by auto
next
  case (Cons f fs)
  then obtain p c ps' a as' where shape: "ps = p # c # ps'" "as = a # as'"
    by (auto elim: waiting_chain.elims)
  let ?h1 = "settle p r h"
  obtain n where n: "\<not> isDone p h" "getException p h = None" "mActions (promises h p) = Some [(n, a)]"
    "actions h a = \<lparr>dynamic_class = FunctionAction p c f, mActionExecutor = Some Synchronous_executor, mClaim = False\<rparr>"
    "waiting_chain fs (c # ps') as' h"
    using Cons.prems(1) shape by auto
  have h1: "isDone p ?h1" "outcome p ?h1 = r" "mActions (promises ?h1 p) = Some [(n, a)]"
    using outcome_settle[OF n(1,2)] n(3) by (simp_all add: settle_other)
  obtain h2 where h2: "execute (onComplete p ?h1 @ rest) ?h1 =
      execute (onComplete c (settle c (apply_function f r) h2) @ Frame_runActions p None # rest) (settle c (apply_function f r) h2)"
    "\<And>q. q \<noteq> p \<Longrightarrow> promises h2 q = promises ?h1 q" "\<And>b. b \<noteq> a \<Longrightarrow> actions h2 b = actions ?h1 b"
    using run_link[of ?h1 p n a c f rest] h1 n(4) Cons.prems(4)[of f] by (auto simp: settle_other)
  have "promises h2 q = promises h q" if "q \<in> set (c # ps')" for q
    using that Cons.prems(2) shape h2(2)[of q] settle_other(1)[of q p r h] by auto
  moreover have "actions h2 b = actions h b" if "b \<in> set as'" for b
    using that Cons.prems(3) shape h2(3)[of b] by (auto simp: settle_other(2))
  ultimately have "waiting_chain fs (c # ps') as' h2 = waiting_chain fs (c # ps') as' h"
    by (rule waiting_chain_cong)
  then have "waiting_chain fs (c # ps') as' h2" using n(5) by simp
  then obtain h' where "execute (onComplete c (settle c (apply_function f r) h2) @ Frame_runActions p None # rest) (settle c (apply_function f r) h2) =
      execute (Frame_runActions p None # rest) h'" "isDone (last (c # ps')) h'" "outcome (last (c # ps')) h' = fold apply_function fs (apply_function f r)"
    using Cons.IH[of "c # ps'" as' h2 "apply_function f r" "Frame_runActions p None # rest"] Cons.prems(2-4) shape by auto
  then show ?case using h2(1) shape by (auto simp: execute_Cons runActions_turn_def)
qed


text \<open>Registering functions on a promise that waits builds a waiting chain.\<close>

lemma thenApply_own_waiting:
  assumes "p < promise_count h" and "\<not> isDone p h" and "action_nodes p h = []" and "mExecutor (promises h p) = Some Synchronous_executor"
  shows "\<exists>h'. thenApply_own p f h = Inr (promise_count h, [], h') \<and> promise_count h' = promise_count h + 1 \<and>
    action_count h' = action_count h + 1 \<and> \<not> isDone p h' \<and> getException p h' = getException p h \<and>
    (\<exists>n. mActions (promises h' p) = Some [(n, action_count h)]) \<and>
    actions h' (action_count h) = \<lparr>dynamic_class = FunctionAction p (promise_count h) f, mActionExecutor = Some Synchronous_executor, mClaim = False\<rparr> \<and>
    promises h' (promise_count h) =
      \<lparr>mResult = None, mException = None, mIsDone = False, mExecutor = Some Synchronous_executor, mActions = None\<rparr> \<and>
    (\<forall>q < promise_count h. q \<noteq> p \<longrightarrow> promises h' q = promises h q) \<and> (\<forall>b < action_count h. actions h' b = actions h b)"
  using assms
  by (simp add: thenApply_own_def thenApply_def register_def valid_def Promise_new_def Action_new_def attach_def addAction_def
      Let_def upd_promise_def action_nodes_def)

lemma build_chain:
  assumes "p < promise_count h" and "\<not> isDone p h" and "getException p h = None" and "action_nodes p h = []"
    and "mExecutor (promises h p) = Some Synchronous_executor"
  shows "\<exists>h' ps as. thenApply_chain fs p h = Some (Inr (last (p # ps), h')) \<and> waiting_chain fs (p # ps) as h' \<and>
    distinct ps \<and> distinct as \<and> (\<forall>q \<in> set ps. promise_count h \<le> q) \<and> (\<forall>a \<in> set as. action_count h \<le> a) \<and>
    promise_count h \<le> promise_count h' \<and>
    (\<forall>q < promise_count h. q \<noteq> p \<longrightarrow> promises h' q = promises h q) \<and> (\<forall>a < action_count h. actions h' a = actions h a)"
  using assms
proof (induction fs arbitrary: p h)
  case Nil
  then show ?case by (intro exI[of _ h] exI[of _ "[]"]) simp
next
  case (Cons f fs)
  let ?c = "promise_count h" and ?a = "action_count h"
  obtain h1 n where 1: "thenApply_own p f h = Inr (?c, [], h1)" "promise_count h1 = ?c + 1" "action_count h1 = ?a + 1"
    "\<not> isDone p h1" "getException p h1 = None" "mActions (promises h1 p) = Some [(n, ?a)]"
    "actions h1 ?a = \<lparr>dynamic_class = FunctionAction p ?c f, mActionExecutor = Some Synchronous_executor, mClaim = False\<rparr>"
    "promises h1 ?c = \<lparr>mResult = None, mException = None, mIsDone = False, mExecutor = Some Synchronous_executor, mActions = None\<rparr>"
    "\<And>q. q < ?c \<Longrightarrow> q \<noteq> p \<Longrightarrow> promises h1 q = promises h q" "\<And>b. b < ?a \<Longrightarrow> actions h1 b = actions h b"
    using thenApply_own_waiting[OF Cons.prems(1,2,4,5), of f] Cons.prems(3) by auto
  obtain h' ps as where 2: "thenApply_chain fs ?c h1 = Some (Inr (last (?c # ps), h'))" "waiting_chain fs (?c # ps) as h'"
    "distinct ps" "distinct as" "\<And>q. q \<in> set ps \<Longrightarrow> ?c + 1 \<le> q" "\<And>b. b \<in> set as \<Longrightarrow> ?a + 1 \<le> b" "?c + 1 \<le> promise_count h'"
    "\<And>q. q < ?c + 1 \<Longrightarrow> q \<noteq> ?c \<Longrightarrow> promises h' q = promises h1 q" "\<And>b. b < ?a + 1 \<Longrightarrow> actions h' b = actions h1 b"
    using Cons.IH[of ?c h1] 1(2,3,8) by (auto simp: action_nodes_def)
  have p: "promises h' p = promises h1 p" using 2(8)[of p] Cons.prems(1) by simp
  have "waiting_chain (f # fs) (p # ?c # ps) (?a # as) h'"
    using 1(4-7) 2(2) 2(9)[of ?a] p by simp
  moreover have "?c \<notin> set ps" "?a \<notin> set as" using 2(5)[of ?c] 2(6)[of ?a] by auto
  moreover have "thenApply_chain (f # fs) p h = Some (Inr (last (p # ?c # ps), h'))"
    using 1(1) 2(1) by (simp add: perform_def)
  moreover have "?c \<le> q" if "q \<in> set (?c # ps)" for q using that 2(5)[of q] by auto
  moreover have "?a \<le> b" if "b \<in> set (?a # as)" for b using that 2(6)[of b] by auto
  moreover have "promises h' q = promises h q" if "q < ?c" "q \<noteq> p" for q using that 1(9)[of q] 2(8)[of q] by simp
  moreover have "actions h' b = actions h b" if "b < ?a" for b using that 1(10)[of b] 2(9)[of b] by simp
  ultimately show ?case
    using 2(3,4,7) by (intro exI[of _ h'] exI[of _ "?c # ps"] exI[of _ "?a # as"]) simp
qed

text \<open>Registering functions on a promise that is done runs them at once.\<close>

lemma thenApply_own_done:
  assumes "p < promise_count h" and "isDone p h" and "mExecutor (promises h p) = Some Synchronous_executor" and "pure_callback f"
  shows "\<exists>c pr h'. thenApply_own p f h = Inr (c, pr) \<and> perform pr = Some (Inr h') \<and> c < promise_count h' \<and> isDone c h' \<and>
    mExecutor (promises h' c) = Some Synchronous_executor \<and> outcome c h' = apply_function f (outcome p h)"
proof -
  let ?c = "promise_count h" and ?a = "action_count h"
  obtain h2 where h2: "thenApply_own p f h = Inr (?c, [Frame_tryRun ?a], h2)" "promise_count h2 = ?c + 1"
    "actions h2 ?a = \<lparr>dynamic_class = FunctionAction p ?c f, mActionExecutor = Some Synchronous_executor, mClaim = False\<rparr>"
    "promises h2 p = promises h p"
    "promises h2 ?c = \<lparr>mResult = None, mException = None, mIsDone = False, mExecutor = Some Synchronous_executor, mActions = None\<rparr>"
    using assms(1-3) by (simp add: thenApply_own_def thenApply_def register_def valid_def Promise_new_def Action_new_def attach_def)
  obtain h3 where h3: "execute (Frame_tryRun ?a # []) h2 =
      execute (onComplete ?c (settle ?c (apply_function f (outcome p h2)) h3) @ []) (settle ?c (apply_function f (outcome p h2)) h3)"
    "promises h3 = promises h2" "promise_count h3 = promise_count h2"
    using run_function[OF h2(3) assms(4), of "[]"] by blast
  let ?h = "settle ?c (apply_function f (outcome p h2)) h3"
  have "onComplete ?c ?h = []" by (simp add: onComplete_def settle_other h3 h2)
  then have "perform ([Frame_tryRun ?a], h2) = Some (Inr ?h)" using h3(1) by (simp add: perform_def)
  moreover have "outcome ?c ?h = apply_function f (outcome p h2) \<and> isDone ?c ?h"
    by (rule outcome_settle) (simp_all add: h3 h2)
  moreover have "outcome p h2 = outcome p h" by (auto simp: outcome_def h2 split: option.splits)
  moreover have "promise_count ?h = ?c + 1" "mExecutor (promises ?h ?c) = Some Synchronous_executor"
    by (auto simp: settle_def setResult_def setException_def heap_simps h3 h2 split: sum.splits)
  ultimately show ?thesis
    using h2(1) by (intro exI[of _ ?c] exI[of _ "([Frame_tryRun ?a], h2)"] exI[of _ ?h]) simp
qed

lemma chain_done:
  assumes "p < promise_count h" and "isDone p h" and "mExecutor (promises h p) = Some Synchronous_executor"
    and "\<And>f. f \<in> set fs \<Longrightarrow> pure_callback f"
  shows "\<exists>q h'. thenApply_chain fs p h = Some (Inr (q, h')) \<and> isDone q h' \<and> outcome q h' = fold apply_function fs (outcome p h)"
  using assms
proof (induction fs arbitrary: p h)
  case (Cons f fs)
  obtain c pr h1 where 1: "thenApply_own p f h = Inr (c, pr)" "perform pr = Some (Inr h1)" "c < promise_count h1" "isDone c h1"
    "mExecutor (promises h1 c) = Some Synchronous_executor" "outcome c h1 = apply_function f (outcome p h)"
    using thenApply_own_done[of p h f] Cons.prems by auto
  then show ?case using Cons.IH[of c h1] Cons.prems(4) by auto
qed auto


text \<open>Completing a promise with an outcome: \<open>complete\<close> or \<open>completeWith\<close>.\<close>

definition complete_outcome :: "addr \<Rightarrow> 'v outcome \<Rightarrow> 'v promise_store \<Rightarrow> (bool \<times> 'v progress) result" where
  "complete_outcome p r h = (case r of Inl e \<Rightarrow> completeWith p (Some e) h | Inr v \<Rightarrow> complete p v h)"

lemma complete_outcome_eq:
  "p < promise_count h \<Longrightarrow> \<not> isDone p h \<Longrightarrow> complete_outcome p r h = Inr (True, onComplete p (settle p r h), settle p r h)"
  by (auto simp: complete_outcome_def complete_def completeWith_def valid_def settle_def setResult_def setException_def Let_def
      split: sum.splits)

lemma reachable_blank:
  assumes "promise_reachable h" and "p < promise_count h" and "\<not> isDone p h"
  shows "getException p h = None"
  using reachable_sound[OF assms(1)] assms(2,3) by (simp add: sound_def clean_def)



section \<open>Exceptions\<close>

lemma toCompletionException_idem [simp]: "toCompletionException (toCompletionException e) = toCompletionException e"
  by (simp add: toCompletionException_def CompletionException_of_def isInstance_def)

lemma fold_exception: "fs \<noteq> [] \<Longrightarrow> fold apply_function fs (Inl e) = Inl (toCompletionException e)"
proof (induction fs arbitrary: e)
  case (Cons f fs)
  then show ?case by (cases "fs = []") simp_all
qed simp

text \<open>
  An exception passes a chain of any positive length unchanged: \<open>get\<close> on the last promise throws an \<open>ExecutionException\<close>
  whose cause is the exception that the first promise was completed with, or the cause of that exception when it is a \<open>CompletionException\<close>
  with a cause. On the cancelled promise itself \<open>get\<close> throws a pointer to the exception, which no handler for exceptions
  catches; behind a chain the cancellation arrives as the cause of an \<open>ExecutionException\<close>.
\<close>

theorem Promise_exception_reaches_get:
  assumes "isDone p h" and "getException p h = Some e" and "isDone q h" and "fs \<noteq> []"
    and "outcome q h = fold apply_function fs (outcome p h)"
  shows "get q h = Get_throws (Throwable (Some ExecutionException)
      (Some (if isInstance CompletionException (Some e) then (case cause_of e of None \<Rightarrow> e | Some x \<Rightarrow> x) else e))) \<and>
    get p h = (if isInstance CancellationException (Some e) then Get_throws_pointer e else get q h)"
proof -
  have "outcome p h = Inl e" using assms(2) by (simp add: outcome_def)
  then have "outcome q h = Inl (toCompletionException e)" using assms(4,5) fold_exception[of fs e] by simp
  then have q: "getException q h = Some (toCompletionException e)" by (simp add: outcome_def split: option.splits)
  show ?thesis
    using assms(1-3) q
    by (cases e) (auto simp: get_def get_done_def toCompletionException_def CompletionException_of_def isInstance_def
        split: option.splits)
qed

definition store_failed :: "nat promise_store" where
  "store_failed = projr (the (perform (projr (client_call (Call_completeWith 0 (Throwable (Some IOException) None)) store_two))))"

theorem Promise_exception_reaches_get_witness:
  "get 1 store_failed = Get_throws (Throwable (Some ExecutionException) (Some (Throwable (Some IOException) None)))"
proof -
  let ?e = "Throwable (Some IOException) None"
  have 1: "isDone 0 store_failed" "getException 0 store_failed = Some ?e" "isDone 1 store_failed"
    "outcome 1 store_failed = Inl (CompletionException_of ?e)"
    by code_simp+
  then have "outcome 1 store_failed = fold apply_function [example_callback] (outcome 0 store_failed)"
    by (simp add: outcome_def toCompletionException_def isInstance_def)
  from Promise_exception_reaches_get[OF 1(1,2,3) _ this] show ?thesis by (simp add: isInstance_def)
qed

text \<open>
  The overloads that take an exception by reference copy it with \<open>clone\<close>, which no exception class overrides, so the copy
  is a plain \<open>Exception\<close>: a promise completed with a reference to a \<open>CancellationException\<close> is not cancelled, and \<open>get\<close> throws an
  \<open>ExecutionException\<close> instead. Likewise an exception that a registered function throws arrives at \<open>get\<close> without its class.
\<close>

theorem Promise_reference_loses_class:
  assumes "promise_reachable h" and "p < promise_count h" and "\<not> isDone p h"
  shows "\<exists>fs h1. completeWith_ref p e h = Inr (True, fs, h1) \<and> \<not> isCancelled p h1 \<and>
    get p h1 = Get_throws (Throwable (Some ExecutionException) (Some (Throwable None (cause_of e)))) \<and>
    caught (Mindroid_exception e) = Throwable (Some CompletionException) (Some (Throwable None (cause_of e))) \<and>
    (\<exists>h2. cancel p h = Inr (True, fs, h2) \<and> isCancelled p h2)"
  using assms(2,3)
  by (simp add: completeWith_ref_def completeWith_def valid_def Let_def Exception_clone_def isCancelled_def isInstance_def
      get_def get_done_def caught_def toCompletionException_ref_def toCompletionException_def CompletionException_of_def
      cancel_def onComplete_def heap_simps)

theorem Promise_reference_loses_class_witness:
  "\<exists>fs h1. completeWith_ref 0 (Throwable (Some CancellationException) None) store_one = Inr (True, fs, h1) \<and> \<not> isCancelled 0 h1"
  using Promise_reference_loses_class[OF store_one_reachable, of 0 "Throwable (Some CancellationException) None"]
  by (auto simp: store_one_simps)

section \<open>An action that completes its own supplier\<close>

text \<open>
  The promise 0 follows the promise 1 that its own first action completes. Completing it runs its actions again inside the loop
  that is running them.
\<close>

definition cycle_example :: "nat promise_store result option" where
  "cycle_example =
     then_do (Some (thenAccept_own 0 example_callback store_one)) (\<lambda>(c1, pr1). then_do (perform pr1) (\<lambda>h1.
     then_do (Some (thenAccept_own 0 example_callback h1)) (\<lambda>(c2, pr2). then_do (perform pr2) (\<lambda>h2.
     then_do (Some (completeWith_supplier 0 (Some c1) h2)) (\<lambda>pr3. then_do (perform pr3) (\<lambda>h3.
     then_do (Some (complete 0 (Some 7) h3)) (\<lambda>(b, pr4). perform pr4)))))))"

text \<open>
  Completing a promise that follows a promise completed by one of its own actions is undefined: the relay runs the
  remaining actions of the promise in a nested \<open>runActions\<close>, which erases the node that the iterator of the outer loop points to.
\<close>

theorem Promise_cycle_undefined: "cycle_example = Some (Inl Undefined)"
proof -
  have "case cycle_example of Some (Inl e) \<Rightarrow> e = Undefined | _ \<Rightarrow> False" by code_simp
  then show ?thesis by (simp split: option.splits sum.splits)
qed

end
