(* ===== verification/Promise_Groups.thy ===== *)
theory Promise_Groups
  imports Promise_Chains
begin

text \<open>
  Groups of promises: the tree of \<open>allOf\<close> returns, is done when all promises are, and has the first of their exceptions; \<open>anyOf\<close>
  takes the first promise that is done.
\<close>

section \<open>What a group waits for\<close>

text \<open>\<open>awaits h P c\<close>: the promise \<open>c\<close> is done as soon as all promises in \<open>P\<close> are.\<close>

inductive awaits :: "'v promise_store \<Rightarrow> addr set \<Rightarrow> addr \<Rightarrow> bool" for h :: "'v promise_store" and P :: "addr set" where
  leaf: "s \<in> P \<Longrightarrow> awaits h P s"
| settled: "isDone c h \<Longrightarrow> c < promise_count h \<Longrightarrow> awaits h P c"
| node: "a < action_count h \<Longrightarrow> dynamic_class (actions h a) = BiRelayAction s1 s2 c \<Longrightarrow>
     awaits h P s1 \<Longrightarrow> awaits h P s2 \<Longrightarrow> awaits h P c"

lemma awaits_extends: "awaits h P c \<Longrightarrow> extends h h' \<Longrightarrow> P \<subseteq> Q \<Longrightarrow> awaits h' Q c"
proof (induction rule: awaits.induct)
  case (settled c)
  have "isDone c h'" "c < promise_count h'"
    using extends_doneD[OF settled.prems(1) settled.hyps(2,1)] extends_countD(1)[OF settled.prems(1)] settled.hyps(2) by simp_all
  then show ?case by (rule awaits.settled)
next
  case (node a s1 s2 c)
  have "a < action_count h'" "dynamic_class (actions h' a) = BiRelayAction s1 s2 c"
    using extends_actionD(1)[OF node.prems(1) node.hyps(1)] extends_classD[OF node.prems(1) node.hyps(1)] node.hyps(2) by simp_all
  then show ?case using node.IH[OF node.prems] by (rule awaits.node)
qed (auto intro: awaits.leaf)

text \<open>An action that runs at once when it is tried has resolved its consumer once its suppliers are done.\<close>

lemma direct_action_resolved:
  assumes "promise_reachable h" and "a < action_count h" and "suppliers_done a h" and "overrides_tryRun (dynamic_class (actions h a))"
  shows "resolved a h"
proof -
  have "a \<notin> snd ` set (posted h)"
    using promise_invD(5)[of "[]" h] reachable_sound[OF assms(1)] assms(4) by (auto simp: sound_def claims_ok_def)
  then show ?thesis using actions_accounted[OF assms(1,2)] assms(3) by simp
qed

lemma awaits_done: "awaits h P c \<Longrightarrow> promise_reachable h \<Longrightarrow> (\<And>p. p \<in> P \<Longrightarrow> isDone p h) \<Longrightarrow> isDone c h"
proof (induction rule: awaits.induct)
  case (node a s1 s2 c)
  have "suppliers_done a h" using node by (simp add: suppliers_done_def)
  then have "resolved a h" using direct_action_resolved[OF node.prems(1) node.hyps(1)] node.hyps(2) by simp
  then show ?case using node.hyps(2) by (simp add: resolved_def)
qed simp_all

text \<open>Joining two suppliers.\<close>

lemma join_suppliers_awaits:
  assumes reach: "promise_reachable h" and s: "s1 < promise_count h" "s2 < promise_count h"
    and c: "c < promise_count h" "action_nodes c h = []"
  shows "\<exists>h'. join_suppliers ex s1 s2 c h = Some (Inr (c, h')) \<and> promise_step\<^sup>*\<^sup>* h h' \<and> awaits h' {s1, s2} c \<and>
    (\<forall>q < promise_count h. q \<noteq> s1 \<longrightarrow> q \<noteq> s2 \<longrightarrow> mActions (promises h' q) = mActions (promises h q))"
proof (cases "\<not> isDone s1 h \<or> \<not> isDone s2 h")
  case True
  obtain p h1 a h' where 1: "Promise_new ex h = (p, h1)" "registered a (BiRelayAction s1 s2 c) h1 h'"
    "relay_both ex s1 s2 c h = Some (Inr h')"
    using relay_both_registered[OF True s, of ex c] by blast
  have "promise_step h h'" using promise_step.joins[OF True _ _ _ 1(3)] s c(1) by (simp add: valid_def)
  moreover have cls: "a < action_count h'" "dynamic_class (actions h' a) = BiRelayAction s1 s2 c"
    using registeredD(3,6)[OF 1(2)] by simp_all
  then have "awaits h' {s1, s2} c"
    by (rule awaits.node) (simp_all add: awaits.leaf)
  moreover have "mActions (promises h' q) = mActions (promises h q)" if "q < promise_count h" "q \<noteq> s1" "q \<noteq> s2" for q
    using registeredD(11)[OF 1(2), of q] 1(1) that by (auto simp: Promise_new_def)
  ultimately show ?thesis using True 1(3) by (auto simp: join_suppliers_def)
next
  case False
  then have "\<exists>e v h'. join_suppliers ex s1 s2 c h = Some (Inr (c, h')) \<and> (h' = setResult c v h \<or> h' = setException c e h)"
    by (cases "getException s1 h"; cases "getException s2 h") (auto simp: join_suppliers_def)
  then obtain e v h' where h': "join_suppliers ex s1 s2 c h = Some (Inr (c, h'))" "h' = setResult c v h \<or> h' = setException c e h"
    by blast
  then have "promise_step h h'" using promise_step.settles[of c h h' v e] c by (simp add: valid_def)
  moreover have "isDone c h'" "c < promise_count h'" using h'(2) c(1) by auto
  moreover have "mActions (promises h' q) = mActions (promises h q)" for q
    using h'(2) by (auto simp: setResult_def setException_def heap_simps)
  ultimately show ?thesis using h'(1) by (auto intro: awaits.settled)
qed

lemma awaits_trans: "awaits h P c \<Longrightarrow> (\<And>s. s \<in> P \<Longrightarrow> awaits h Q s) \<Longrightarrow> awaits h Q c"
  by (induction rule: awaits.induct) (auto intro: awaits.settled awaits.node)

text \<open>What a part of the tree gives: a promise that awaits the promises of that part, which are the only ones it is registered with.\<close>

definition members :: "addr option list \<Rightarrow> nat \<Rightarrow> nat \<Rightarrow> addr set" where
  "members ps lo hi = {s. \<exists>i. lo \<le> i \<and> i \<le> hi \<and> ps ! i = Some s}"

lemma members_mono: "lo \<le> lo' \<Longrightarrow> hi' \<le> hi \<Longrightarrow> members ps lo' hi' \<subseteq> members ps lo hi"
  unfolding members_def by (blast intro: order_trans)

definition subtree :: "addr set \<Rightarrow> addr \<Rightarrow> 'v promise_store \<Rightarrow> 'v promise_store \<Rightarrow> bool" where
  "subtree P s h h' \<longleftrightarrow> promise_step\<^sup>*\<^sup>* h h' \<and> s < promise_count h' \<and> awaits h' P s \<and> (s \<in> P \<or> promise_count h \<le> s) \<and>
     (\<forall>q < promise_count h. q \<notin> P \<longrightarrow> mActions (promises h' q) = mActions (promises h q))"

definition operand ::
  "executor option \<Rightarrow> addr option list \<Rightarrow> nat \<Rightarrow> nat \<Rightarrow> 'v promise_store \<Rightarrow> (addr option \<times> 'v promise_store) result option" where
  "operand ex ps lo hi h =
     (if lo = hi then Some (Inr (ps ! lo, h))
      else then_do (andTree ex ps lo hi h) (\<lambda>(s, h1). Some (Inr (Some s, h1))))"

lemma andTree_eq:
  assumes "start \<le> stop"
  shows "andTree ex ps start stop h =
    (let (c, h1) = Promise_new ex h; mid = (start + stop) div 2
     in then_do (operand ex ps start mid h1) (\<lambda>(supplier1, h2).
          case supplier1 of
            None \<Rightarrow> Some (Inl NullPointerException)
          | Some s1 \<Rightarrow>
              then_do (if start = stop then Some (Inr (supplier1, h2)) else operand ex ps (mid + 1) stop h2) (\<lambda>(supplier2, h3).
                case supplier2 of
                  None \<Rightarrow> Some (Inl NullPointerException)
                | Some s2 \<Rightarrow> join_suppliers ex s1 s2 c h3)))"
proof -
  have "(if start = stop then Some (Inr (x, h2)) else if stop = mid + 1 then Some (Inr (ps ! stop, h2))
      else then_do (andTree ex ps (mid + 1) stop h2) (\<lambda>(s, h3). Some (Inr (Some s, h3)))) =
    (if start = stop then Some (Inr (x, h2)) else operand ex ps (mid + 1) stop h2)" for x h2 and mid :: nat
    by (auto simp: operand_def)
  note eq = this
  show ?thesis
    by (subst andTree.simps) (simp only: Let_def eq operand_def[of ex ps start "(start + stop) div 2"])
qed

lemma andTree_Some:
  assumes "\<And>i. start \<le> i \<Longrightarrow> i \<le> stop \<Longrightarrow> \<exists>s. ps ! i = Some s \<and> s < promise_count h" and "start \<le> stop"
    and "promise_reachable h"
  shows "\<exists>h'. andTree ex ps start stop h = Some (Inr (promise_count h, h')) \<and> subtree (members ps start stop) (promise_count h) h h'"
  using assms
proof (induction "stop - start" arbitrary: start stop h rule: less_induct)
  case less
  let ?c = "promise_count h" and ?mid = "(start + stop) div 2"
  obtain h1 where h1: "Promise_new ex h = (?c, h1)" by (simp add: Promise_new_def)
  have step1: "promise_step h h1" by (rule promise_step.creates[OF h1])
  have reach1: "promise_reachable h1" by (rule promise_reachable.step[OF less.prems(3) step1])
  have c1: "promise_count h1 = ?c + 1" "mActions (promises h1 ?c) = None" "q < ?c \<Longrightarrow> promises h1 q = promises h q" for q
    using h1 by (auto simp: Promise_new_def)
  have part: "\<exists>s g'. operand ex ps lo hi g = Some (Inr (Some s, g')) \<and> subtree (members ps lo hi) s g g'"
    if "start \<le> lo" "lo \<le> hi" "hi \<le> stop" "lo = hi \<or> hi - lo < stop - start" "promise_reachable g" "?c \<le> promise_count g" for lo hi and g :: "'a promise_store"
  proof (cases "lo = hi")
    case True
    then obtain s where s: "ps ! lo = Some s" "s < ?c" using less.prems(1)[of lo] \<open>start \<le> lo\<close> \<open>hi \<le> stop\<close> by auto
    then have "s \<in> members ps lo hi" using True by (auto simp: members_def)
    then show ?thesis using s True that(6) by (auto simp: operand_def subtree_def intro: awaits.leaf)
  next
    case False
    have avail: "\<exists>s. ps ! i = Some s \<and> s < promise_count g" if "lo \<le> i" "i \<le> hi" for i
      using less.prems(1)[of i] that \<open>start \<le> lo\<close> \<open>hi \<le> stop\<close> \<open>?c \<le> promise_count g\<close> by fastforce
    have "\<exists>g'. andTree ex ps lo hi g = Some (Inr (promise_count g, g')) \<and> subtree (members ps lo hi) (promise_count g) g g'"
      using False that avail by (intro less.hyps) auto
    then show ?thesis using False by (auto simp: operand_def)
  qed
  obtain s1 h2 where 1: "operand ex ps start ?mid h1 = Some (Inr (Some s1, h2))" "subtree (members ps start ?mid) s1 h1 h2"
    using part[of start ?mid h1] less.prems(2) reach1 c1(1) by fastforce
  have reach2: "promise_reachable h2" "extends h1 h2" using 1(2) reachable_extends[OF _ reach1] by (auto simp: subtree_def)
  define Q where "Q = members ps start stop"
  have sub: "members ps start ?mid \<subseteq> Q" "start \<noteq> stop \<Longrightarrow> members ps (?mid + 1) stop \<subseteq> Q"
    unfolding Q_def using less.prems(2) by (intro members_mono; simp)+
  have "\<exists>s2 h3. (if start = stop then Some (Inr (Some s1, h2)) else operand ex ps (?mid + 1) stop h2) = Some (Inr (Some s2, h3)) \<and>
    promise_step\<^sup>*\<^sup>* h2 h3 \<and> s2 < promise_count h3 \<and> awaits h3 Q s2 \<and> (s2 \<in> Q \<or> promise_count h1 \<le> s2) \<and>
    (\<forall>q < promise_count h2. q \<notin> Q \<longrightarrow> mActions (promises h3 q) = mActions (promises h2 q))"
  proof (cases "start = stop")
    case True
    then show ?thesis using 1(2) sub(1) awaits_extends[OF _ extends_refl sub(1)] by (auto simp: subtree_def)
  next
    case False
    then obtain s2 h3 where "operand ex ps (?mid + 1) stop h2 = Some (Inr (Some s2, h3))" "subtree (members ps (?mid + 1) stop) s2 h2 h3"
      using part[of "?mid + 1" stop h2] less.prems(2) reach2 c1(1) extends_countD(1)[OF reach2(2)] by fastforce
    then show ?thesis
      using False sub(2) awaits_extends[OF _ extends_refl sub(2)] extends_countD(1)[OF reach2(2)] by (fastforce simp: subtree_def)
  qed
  then obtain s2 h3 where 2: "(if start = stop then Some (Inr (Some s1, h2)) else operand ex ps (?mid + 1) stop h2) = Some (Inr (Some s2, h3))"
    "promise_step\<^sup>*\<^sup>* h2 h3" "s2 < promise_count h3" "awaits h3 Q s2" "s2 \<in> Q \<or> promise_count h1 \<le> s2"
    "\<And>q. q < promise_count h2 \<Longrightarrow> q \<notin> Q \<Longrightarrow> mActions (promises h3 q) = mActions (promises h2 q)"
    by blast
  have reach3: "promise_reachable h3" "extends h2 h3" using reachable_extends[OF 2(2) reach2(1)] by simp_all
  have counts: "promise_count h1 \<le> promise_count h2" "promise_count h2 \<le> promise_count h3"
    using extends_countD(1) reach2(2) reach3(2) by blast+
  have Q: "q < ?c" if q: "q \<in> Q" for q
  proof -
    obtain i where "start \<le> i" "i \<le> stop" "ps ! i = Some q" using q by (auto simp: Q_def members_def)
    then show ?thesis using less.prems(1)[of i] by auto
  qed
  have old: "mActions (promises h3 q) = mActions (promises h1 q)" if "q < ?c + 1" "q \<notin> Q" for q
    using that 2(6)[of q] 1(2) sub(1) counts c1(1) by (auto simp: subtree_def)
  have cQ: "?c \<notin> Q" using Q[of ?c] by auto
  have "action_nodes ?c h3 = []" using old[of ?c] cQ c1(2) by (simp add: action_nodes_def)
  moreover have s1: "s1 < promise_count h3" "s1 \<in> Q \<or> promise_count h1 \<le> s1" using 1(2) sub(1) counts by (auto simp: subtree_def)
  ultimately obtain h' where 3: "join_suppliers ex s1 s2 ?c h3 = Some (Inr (?c, h'))" "promise_step\<^sup>*\<^sup>* h3 h'" "awaits h' {s1, s2} ?c"
    "\<And>q. q < promise_count h3 \<Longrightarrow> q \<noteq> s1 \<Longrightarrow> q \<noteq> s2 \<Longrightarrow> mActions (promises h' q) = mActions (promises h3 q)"
    using join_suppliers_awaits[of h3 s1 s2 ?c ex] reach3(1) 2(3) counts c1(1) by auto
  have ext: "extends h3 h'" using reachable_extends[OF 3(2) reach3(1)] by simp
  have "awaits h2 (members ps start ?mid) s1" using 1(2) by (simp add: subtree_def)
  then have "awaits h2 Q s1" by (rule awaits_extends[OF _ extends_refl sub(1)])
  then have "awaits h' Q s1" by (rule awaits_extends[OF _ extends_trans[OF reach3(2) ext] order_refl])
  moreover have "awaits h' Q s2" by (rule awaits_extends[OF 2(4) ext order_refl])
  ultimately have "awaits h' Q ?c" using awaits_trans[OF 3(3)] by auto
  moreover have "promise_step\<^sup>*\<^sup>* h h'"
    using step1 1(2) 2(2) 3(2) unfolding subtree_def by (meson converse_rtranclp_into_rtranclp rtranclp_trans)
  moreover have "?c < promise_count h'" using extends_countD(1)[OF ext] counts c1(1) by simp
  moreover have "mActions (promises h' q) = mActions (promises h q)" if "q < ?c" "q \<notin> Q" for q
  proof -
    have "q \<noteq> s1" "q \<noteq> s2" using that 2(5) s1 c1(1) by auto
    then show ?thesis using 3(4)[of q] old[of q] c1(1,3) that counts by simp
  qed
  ultimately have "subtree Q ?c h h'" by (simp add: subtree_def)
  then show ?case
    using andTree_eq[OF less.prems(2), of ex ps h] h1 1(1) 2(1) 3(1) by (simp add: Q_def)
qed


text \<open>
  \<open>allOf\<close> of promises (none of them null) returns a promise that is done as soon as all of them are: in every store reached
  later in which they all are done, it is done. \<open>allOf\<close> of no promises returns a promise that is done.
\<close>

theorem allOf_done_when_all_done:
  assumes reach: "promise_reachable h" and ps: "\<And>x. x \<in> set ps \<Longrightarrow> \<exists>p. x = Some p \<and> p < promise_count h"
  shows "\<exists>c h'. allOf ex ps h = Some (Inr (c, h')) \<and> promise_reachable h' \<and>
    (\<forall>h2. promise_step\<^sup>*\<^sup>* h' h2 \<longrightarrow> (\<forall>p. Some p \<in> set ps \<longrightarrow> isDone p h2) \<longrightarrow> isDone c h2)"
proof (cases "ps = []")
  case True
  obtain c h1 where 1: "Promise_new ex h = (c, h1)" by fastforce
  have "c < promise_count h1" "\<not> isDone c h1" "mActions (promises h1 c) = None" using 1 by (auto simp: Promise_new_def)
  then obtain h2 where 2: "complete c None h1 = Inr (True, [], h2)" "isDone c h2"
    by (simp add: complete_def valid_def onComplete_def Let_def heap_simps)
  have p: "perform ([], h2) = Some (Inr h2)" by (simp add: perform_def)
  have "promise_step h1 h2"
    by (rule promise_step.calls[of "Call_complete c None" h1 "([], h2)", OF _ p]) (simp add: client_call_def drop_flag_def 2(1))
  then have r: "promise_reachable h2"
    using promise_reachable.step[OF promise_reachable.step[OF reach promise_step.creates[OF 1]]] by blast
  have "c < promise_count h2" using extends_complete[OF 2(1)] \<open>c < promise_count h1\<close> by (auto dest: extends_countD(1))
  then have "isDone c h3" if "promise_step\<^sup>*\<^sup>* h2 h3" for h3
    using reachable_extends[OF that r] extends_doneD[of h2 h3 c] 2(2) by blast
  then show ?thesis using True 1 2(1) p r by (auto simp: allOf_def)
next
  case False
  have "\<exists>s. ps ! i = Some s \<and> s < promise_count h" if "i \<le> length ps - 1" for i
    using ps[of "ps ! i"] nth_mem[of i ps] that False by (cases ps) auto
  then obtain h' where 1: "andTree ex ps 0 (length ps - 1) h = Some (Inr (promise_count h, h'))"
    "subtree (members ps 0 (length ps - 1)) (promise_count h) h h'"
    using andTree_Some[of 0 "length ps - 1" ps h ex] reach by auto
  have r: "promise_reachable h'" using 1(2) reachable_extends[OF _ reach] by (simp add: subtree_def)
  have mem: "members ps 0 (length ps - 1) \<subseteq> {p. Some p \<in> set ps}"
    using False by (auto simp: members_def) (metis One_nat_def Suc_pred le_imp_less_Suc length_greater_0_conv nth_mem)
  have "isDone (promise_count h) h2" if "promise_step\<^sup>*\<^sup>* h' h2" "\<forall>p. Some p \<in> set ps \<longrightarrow> isDone p h2" for h2
  proof (rule awaits_done)
    show "promise_reachable h2" using reachable_extends[OF that(1) r] by simp
    have "awaits h' (members ps 0 (length ps - 1)) (promise_count h)" using 1(2) by (simp add: subtree_def)
    then show "awaits h2 (members ps 0 (length ps - 1)) (promise_count h)"
      by (rule awaits_extends) (use reachable_extends[OF that(1) r] in simp_all)
  qed (use mem that(2) in blast)
  then show ?thesis using False 1(1) r by (auto simp: allOf_def)
qed


theorem allOf_done_when_all_done_witness:
  "\<exists>c h'. allOf None [Some 0, Some 0] store_one = Some (Inr (c, h')) \<and> promise_reachable h'"
proof -
  have "x \<in> set [Some 0, Some 0] \<Longrightarrow> \<exists>p. x = Some p \<and> p < promise_count store_one" for x
    by (auto simp: store_one_simps)
  from allOf_done_when_all_done[OF store_one_reachable this] show ?thesis by blast
qed


section \<open>The first promise that is done\<close>

text \<open>Creating the actions touches neither promises nor nodes, so it may be moved behind adding one of them.\<close>

lemma anyOf_create_promises:
  "anyOf_create ps c (h\<lparr>promises := P, node_count := n\<rparr>) =
     (fst (anyOf_create ps c h), (snd (anyOf_create ps c h))\<lparr>promises := P, node_count := n\<rparr>)"
proof (induction ps arbitrary: h)
  case (Cons p ps)
  have "Action_new k None (h\<lparr>promises := P, node_count := n\<rparr>) =
      (fst (Action_new k None h), (snd (Action_new k None h))\<lparr>promises := P, node_count := n\<rparr>)" for k
    by (simp add: Action_new_def)
  then show ?case using Cons.IH by (simp add: split_beta)
qed simp

lemma anyOf_create_same:
  "promises (snd (anyOf_create ps c h)) = promises h" "node_count (snd (anyOf_create ps c h)) = node_count h"
  "length (fst (anyOf_create ps c h)) = length ps"
  by (induction ps arbitrary: h) (auto simp: Action_new_def split_beta Let_def)

lemma anyOf_watches:
  assumes "promise_reachable h" and "\<And>p. p \<in> set ps \<Longrightarrow> p < promise_count h \<and> \<not> isDone p h" and "c < promise_count h"
  shows "\<exists>h'. (case anyOf_create ps c h of (as, h1) \<Rightarrow> anyOf_add (zip ps as) h1) = Some (Inr h') \<and> promise_step\<^sup>*\<^sup>* h h' \<and>
    (\<forall>q. isDone q h' = isDone q h) \<and> (\<forall>p \<in> set ps. \<exists>a < action_count h'. dynamic_class (actions h' a) = AnyOfAction p c)"
  using assms
proof (induction ps arbitrary: h)
  case (Cons p ps)
  obtain a h1 where a: "Action_new (AnyOfAction p c) None h = (a, h1)" by fastforce
  have h1: "promises h1 = promises h" "node_count h1 = node_count h" using a by (auto simp: Action_new_def)
  have p: "p < promise_count h" "\<not> isDone p h" using Cons.prems(2) by simp_all
  obtain g1 where g1: "attach p a h1 = ([], g1)" "addAction p a h1 = ([], g1)"
    using p by (simp add: attach_def addAction_def h1 Let_def heap_simps)
  note reg = attach_registered(1)[OF a g1(1), of]
  have step: "promise_step h g1"
    using promise_step.watches[of "AnyOfAction p c" p c h a h1 g1] a g1 p Cons.prems(3) by (simp add: valid_def perform_def)
  have ext: "extends h g1" and reach: "promise_reachable g1" using reachable_extends[of h g1] step Cons.prems(1) by blast+
  have R: "registered a (AnyOfAction p c) h g1" by (rule reg) simp
  obtain as h2 where cr: "anyOf_create ps c h1 = (as, h2)" by fastforce
  have g1_eq: "g1 = h1\<lparr>promises := promises g1, node_count := node_count g1\<rparr>"
    using g1(2) p by (auto simp: addAction_def h1 Let_def upd_promise_def split: if_splits)
  have "anyOf_create ps c g1 = (as, h2\<lparr>promises := promises g1, node_count := node_count g1\<rparr>)"
    by (subst g1_eq) (simp add: anyOf_create_promises cr)
  moreover have "addAction p a h2 = ([], h2\<lparr>promises := promises g1, node_count := node_count g1\<rparr>)"
    using g1(2) p anyOf_create_same(1,2)[of ps c h1] cr
    by (auto simp: addAction_def h1 Let_def upd_promise_def action_nodes_def split: if_splits)
  moreover obtain h' where h': "(case anyOf_create ps c g1 of (as, h1) \<Rightarrow> anyOf_add (zip ps as) h1) = Some (Inr h')"
    "promise_step\<^sup>*\<^sup>* g1 h'" "\<And>q. isDone q h' = isDone q g1" "\<And>q. q \<in> set ps \<Longrightarrow> \<exists>a < action_count h'. dynamic_class (actions h' a) = AnyOfAction q c"
    using Cons.IH[OF reach] Cons.prems(2,3) registeredD(5,10)[OF R] by auto
  moreover have "dynamic_class (actions h' a) = AnyOfAction p c" "a < action_count h'"
    using registeredD(3,6)[OF R] reachable_extends[OF h'(2) reach] extends_classD[of g1 h' a] extends_actionD(1)[of g1 h' a] by simp_all
  ultimately show ?case
    using a cr step registeredD(10)[OF R] by (auto simp: perform_def intro: converse_rtranclp_into_rtranclp)
qed auto

lemma anyOf_done_cases:
  assumes "\<And>x. x \<in> set ps \<Longrightarrow> \<exists>p. x = Some p"
  shows "anyOf_done ps c h = Inr (False, h) \<and> (\<forall>p. Some p \<in> set ps \<longrightarrow> \<not> isDone p h) \<or>
    (\<exists>v e h'. anyOf_done ps c h = Inr (True, h') \<and> (h' = setResult c v h \<or> h' = setException c e h))"
  using assms
proof (induction ps)
  case (Cons x ps)
  then obtain p where "x = Some p" by auto
  then show ?case using Cons by (cases "isDone p h"; cases "getException p h") auto
qed simp


text \<open>
  \<open>anyOf\<close> of promises (none of them null) returns a promise that is done as soon as one of them is: in every store reached
  later in which at least one of them is done, it is done.
\<close>

theorem anyOf_done_when_one_done:
  assumes reach: "promise_reachable h" and ps: "\<And>x. x \<in> set ps \<Longrightarrow> \<exists>p. x = Some p \<and> p < promise_count h"
  shows "\<exists>c h'. anyOf ex ps h = Some (Inr (c, h')) \<and> promise_reachable h' \<and>
    (\<forall>h2. promise_step\<^sup>*\<^sup>* h' h2 \<longrightarrow> (\<exists>p. Some p \<in> set ps \<and> isDone p h2) \<longrightarrow> isDone c h2)"
proof -
  obtain c h1 where 1: "Promise_new ex h = (c, h1)" by fastforce
  have c: "c < promise_count h1" "\<not> isDone c h1" "action_nodes c h1 = []" "promise_count h \<le> promise_count h1"
    using 1 by (auto simp: Promise_new_def action_nodes_def)
  have r1: "promise_reachable h1" by (rule promise_reachable.step[OF reach promise_step.creates[OF 1]])
  have some: "x \<in> set ps \<Longrightarrow> \<exists>p. x = Some p" for x using ps by blast
  show ?thesis
  proof (cases "ps = []")
    case True
    then show ?thesis using 1 r1 by (auto simp: anyOf_def)
  next
    case False
    consider (some_done) v e h2 where "anyOf_done ps c h1 = Inr (True, h2)" "h2 = setResult c v h1 \<or> h2 = setException c e h1"
      | (none_done) "anyOf_done ps c h1 = Inr (False, h1)" "\<forall>p. Some p \<in> set ps \<longrightarrow> \<not> isDone p h1"
      using anyOf_done_cases[of ps c h1, OF some] by blast
    then show ?thesis
    proof cases
      case some_done
      have "promise_step h1 h2" using promise_step.settles[of c h1 h2 v e] c some_done(2) by (simp add: valid_def)
      then have r2: "promise_reachable h2" by (rule promise_reachable.step[OF r1])
      have "isDone c h2" "c < promise_count h2" using some_done(2) c(1) by auto
      then have "isDone c h3" if "promise_step\<^sup>*\<^sup>* h2 h3" for h3
        using reachable_extends[OF that r2] extends_doneD[of h2 h3 c] by blast
      then show ?thesis using False 1 r2 some_done(1) by (auto simp: anyOf_def)
    next
      case none_done
      have "p < promise_count h1 \<and> \<not> isDone p h1" if "p \<in> set (map the ps)" for p
        using that ps none_done(2) c(4) by fastforce
      from anyOf_watches[OF r1 this c(1)] obtain h' where
        h': "(case anyOf_create (map the ps) c h1 of (as, h2) \<Rightarrow> anyOf_add (zip (map the ps) as) h2) = Some (Inr h')"
          "promise_step\<^sup>*\<^sup>* h1 h'" "isDone c h' = isDone c h1"
          "\<And>p. p \<in> set (map the ps) \<Longrightarrow> \<exists>a < action_count h'. dynamic_class (actions h' a) = AnyOfAction p c" by blast
      have r': "promise_reachable h'" using reachable_extends[OF h'(2) r1] by simp
      have "isDone c h2" if st: "promise_step\<^sup>*\<^sup>* h' h2" and p: "Some p \<in> set ps" "isDone p h2" for h2 p
      proof -
        have "p \<in> set (map the ps)" using p(1) by force
        then obtain a where a: "a < action_count h'" "dynamic_class (actions h' a) = AnyOfAction p c" using h'(4) by blast
        have r2: "promise_reachable h2" and ext: "extends h' h2" using reachable_extends[OF st r'] by simp_all
        have "a < action_count h2" "dynamic_class (actions h2 a) = AnyOfAction p c"
          using extends_actionD(1)[OF ext a(1)] extends_classD[OF ext a(1)] a(2) by simp_all
        moreover from this have "resolved a h2"
          using direct_action_resolved[OF r2, of a] p(2) by (simp add: suppliers_done_def)
        ultimately show ?thesis by (simp add: resolved_def)
      qed
      moreover have "anyOf ex ps h = Some (Inr (c, h'))"
        using False 1 none_done(1) h'(1,3) c(2) by (auto simp: anyOf_def split: prod.splits)
      ultimately show ?thesis using r' by blast
    qed
  qed
qed

theorem anyOf_done_when_one_done_witness:
  "\<exists>c h'. anyOf None [Some 0] store_one = Some (Inr (c, h')) \<and> promise_reachable h'"
proof -
  have "x \<in> set [Some 0] \<Longrightarrow> \<exists>p. x = Some p \<and> p < promise_count store_one" for x
    by (auto simp: store_one_simps)
  from anyOf_done_when_one_done[OF store_one_reachable this] show ?thesis by blast
qed

end
