(* ===== verification/Log_Buffers.thy ===== *)
theory Log_Buffers
  imports Byte_Buffers Strings
begin

text \<open>
  The log buffer (\<open>src/mindroid/util/logging/LogBuffer.h\<close> and \<open>LogBuffer.cpp\<close>): a ring of bytes that holds log
  records, each as its length and its fields. Writing a record drops the oldest ones until there is room; a reader that finds
  the buffer empty waits with a promise, which the next record completes.

  The operations are translated with the 64-bit arithmetic of the indexes and the 32-bit arithmetic of the lengths. The
  abstraction of a buffer is the list of its records; the lemmas show that the operations implement a queue that forgets the
  oldest records, with the exception of a record that fills the ring exactly.
\<close>

section \<open>Records and the buffer\<close>

record log_record =
  mTimestamp :: uint64
  mThreadId :: uint64
  mPriority :: int32
  mTag :: str
  mMessage :: str

text \<open>The bytes of the ring, \<open>mBuffer\<close> in the code. A promise is its address.\<close>

record log_buffer =
  mSize :: size_t
  mRing :: bytes
  mReadIndex :: size_t
  mWriteIndex :: size_t
  mPromise :: "nat option"

text \<open>What \<open>get\<close> returns: a promise that is not done, or one that is completed with a record.\<close>

datatype log_promise = Waiting nat | Completed log_record

text \<open>The calls of \<open>Promise::complete\<close> that an operation makes.\<close>

type_synonym completions = "(nat \<times> log_record option) list"

definition LogBuffer_new :: "size_t \<Rightarrow> log_buffer" where
  "LogBuffer_new count =
     \<lparr>mSize = count, mRing = ByteArray_new count, mReadIndex = 0, mWriteIndex = 0, mPromise = None\<rparr>"

definition LogBuffer_reset :: "log_buffer \<Rightarrow> completions \<times> log_buffer" where
  "LogBuffer_reset lb =
     (let lb' = lb\<lparr>mReadIndex := 0, mWriteIndex := 0\<rparr>
      in case mPromise lb' of None \<Rightarrow> ([], lb') | Some p \<Rightarrow> ([(p, None)], lb'\<lparr>mPromise := None\<rparr>))"

definition LogBuffer_isEmpty :: "log_buffer \<Rightarrow> bool" where
  "LogBuffer_isEmpty lb = (mReadIndex lb = mWriteIndex lb)"

definition LogBuffer_isFull :: "log_buffer \<Rightarrow> bool" where
  "LogBuffer_isFull lb = ((mWriteIndex lb + 1) mod mSize lb = mReadIndex lb)"

definition LogBuffer_remainingCapacity :: "log_buffer \<Rightarrow> size_t" where
  "LogBuffer_remainingCapacity lb =
     (if mWriteIndex lb \<ge> mReadIndex lb then mSize lb - (mWriteIndex lb - mReadIndex lb)
      else mReadIndex lb - mWriteIndex lb)"

definition LogBuffer_readByteArray :: "size_t \<Rightarrow> log_buffer \<Rightarrow> (bytes \<times> log_buffer) result" where
  "LogBuffer_readByteArray count lb =
     (let data = ByteArray_new count;
          lb' = lb\<lparr>mReadIndex := (mReadIndex lb + count) mod mSize lb\<rparr>
      in if mReadIndex lb + count < mSize lb
         then bind_result (arraycopy (Some (mRing lb)) (mReadIndex lb) (Some data) 0 count) (\<lambda>data. Inr (data, lb'))
         else let partialSize = mSize lb - mReadIndex lb
              in bind_result (arraycopy (Some (mRing lb)) (mReadIndex lb) (Some data) 0 partialSize) (\<lambda>data.
                 bind_result (arraycopy (Some (mRing lb)) 0 (Some data) partialSize (count - partialSize)) (\<lambda>data.
                   Inr (data, lb'))))"

definition LogBuffer_intFromByteArray :: "bytes \<Rightarrow> int32 result" where
  "LogBuffer_intFromByteArray data = bind_result (raw_read 0 4 data) (\<lambda>bs. Inr (bytes_word bs))"

text \<open>The loop of \<open>writeByteArray\<close> that drops the oldest records.\<close>

partial_function (option) make_room :: "size_t \<Rightarrow> size_t \<Rightarrow> log_buffer \<Rightarrow> log_buffer result option" where
  "make_room count freeCapacity lb =
     (if freeCapacity < count
      then case bind_result (LogBuffer_readByteArray 4 lb) (\<lambda>(data, lb').
                  bind_result (LogBuffer_intFromByteArray data) (\<lambda>s. Inr (s, lb'))) of
             Inl e \<Rightarrow> Some (Inl e)
           | Inr (s, lb') \<Rightarrow>
               make_room count (freeCapacity + scast (s + 4)) (lb'\<lparr>mReadIndex := (mReadIndex lb' + scast s) mod mSize lb'\<rparr>)
      else Some (Inr lb))"

declare make_room.simps [code]

definition write_ring :: "bytes \<Rightarrow> log_buffer \<Rightarrow> log_buffer result" where
  "write_ring data lb =
     (let count = ByteArray_size data;
          w = (mWriteIndex lb + count) mod mSize lb
      in if mWriteIndex lb + count < mSize lb
         then bind_result (arraycopy (Some data) 0 (Some (mRing lb)) (mWriteIndex lb) count) (\<lambda>ring.
                Inr (lb\<lparr>mRing := ring, mWriteIndex := w\<rparr>))
         else let partialSize = mSize lb - mWriteIndex lb
              in bind_result (arraycopy (Some data) 0 (Some (mRing lb)) (mWriteIndex lb) partialSize) (\<lambda>ring.
                 bind_result (arraycopy (Some data) partialSize (Some ring) 0 (count - partialSize)) (\<lambda>ring.
                   Inr (lb\<lparr>mRing := ring, mWriteIndex := w\<rparr>))))"

definition LogBuffer_writeByteArray :: "bytes \<Rightarrow> log_buffer \<Rightarrow> log_buffer result option" where
  "LogBuffer_writeByteArray data lb =
     (case make_room (ByteArray_size data) (LogBuffer_remainingCapacity lb) lb of
        None \<Rightarrow> None
      | Some (Inl e) \<Rightarrow> Some (Inl e)
      | Some (Inr lb') \<Rightarrow> Some (write_ring data lb'))"

section \<open>Encoding and decoding\<close>

text \<open>
  The byte buffers live in a store of their own: \<open>0\<close> is the array of the encoded record, \<open>1\<close> and \<open>2\<close> the bytes of
  its tag and message. \<open>then_put\<close> and \<open>then_get\<close> sequence the operations on the buffer.
\<close>

definition then_put ::
  "(byte_buffer \<times> arrays) result \<Rightarrow> (byte_buffer \<Rightarrow> arrays \<Rightarrow> arrays result \<times> byte_buffer) \<Rightarrow> (byte_buffer \<times> arrays) result" where
  "then_put r op =
     bind_result r (\<lambda>(b, s). case op b s of (Inl e, b') \<Rightarrow> Inl e | (Inr s', b') \<Rightarrow> Inr (b', s'))"

definition then_get :: "'a result \<times> byte_buffer \<Rightarrow> ('a \<Rightarrow> byte_buffer \<Rightarrow> 'b result) \<Rightarrow> 'b result" where
  "then_get r f = (case r of (Inl e, b) \<Rightarrow> Inl e | (Inr v, b) \<Rightarrow> f v b)"

definition record_size :: "bytes \<Rightarrow> bytes \<Rightarrow> uint32" where
  "record_size tagBuffer messageBuffer = ucast (8 + 8 + 4 + 4 + ByteArray_size tagBuffer + 4 + ByteArray_size messageBuffer)"

definition encode_record :: "uint64 \<Rightarrow> uint64 \<Rightarrow> int32 \<Rightarrow> bytes \<Rightarrow> bytes \<Rightarrow> bytes result" where
  "encode_record timestamp threadId priority tagBuffer messageBuffer =
     (let count = record_size tagBuffer messageBuffer;
          (r, s) = ByteBuffer_allocate 0 (ucast (count + 4)) ((\<lambda>_. [])(1 := tagBuffer, 2 := messageBuffer))
      in bind_result
           (then_put (then_put (then_put (then_put (then_put (then_put (then_put (then_put
              (bind_result r (\<lambda>b. Inr (b, s)))
              (ByteBuffer_putInt count))
              (ByteBuffer_putLong timestamp))
              (ByteBuffer_putLong threadId))
              (ByteBuffer_putInt priority))
              (ByteBuffer_putInt (ucast (ByteArray_size tagBuffer))))
              (ByteBuffer_put_all (Some 1)))
              (ByteBuffer_putInt (ucast (ByteArray_size messageBuffer))))
              (ByteBuffer_put_all (Some 2)))
           (\<lambda>(b, s). Inr (s (mBuffer b))))"

definition decode_record :: "bytes \<Rightarrow> log_record result" where
  "decode_record buffer =
     (let s = (\<lambda>_. [])(0 := buffer)
      in bind_result (ByteBuffer_wrap (Some 0) s) (\<lambda>b.
         then_get (ByteBuffer_getLong b s) (\<lambda>timestamp b.
         then_get (ByteBuffer_getLong b s) (\<lambda>threadId b.
         then_get (ByteBuffer_getInt b s) (\<lambda>priority b.
         then_get (ByteBuffer_getInt b s) (\<lambda>tagSize b.
         then_get (ByteBuffer_get_all (Some 1) b (s(1 := ByteArray_new (scast (tagSize :: int32))))) (\<lambda>s b.
         then_get (ByteBuffer_getInt b s) (\<lambda>messageSize b.
         then_get (ByteBuffer_get_all (Some 2) b (s(2 := ByteArray_new (scast (messageSize :: int32))))) (\<lambda>s b.
           Inr \<lparr>mTimestamp = timestamp, mThreadId = threadId, mPriority = priority,
                mTag = String_of_ByteArray (Some (s 1)), mMessage = String_of_ByteArray (Some (s 2))\<rparr>)))))))))"

section \<open>put and get\<close>

definition LogBuffer_put ::
  "uint64 \<Rightarrow> uint64 \<Rightarrow> int32 \<Rightarrow> str option \<Rightarrow> str option \<Rightarrow> log_buffer \<Rightarrow> (bool \<times> completions \<times> log_buffer) result option" where
  "LogBuffer_put timestamp threadId priority tag message lb =
     (case (tag, message) of
        (Some t, Some m) \<Rightarrow>
          let tagBuffer = String_getBytes t; messageBuffer = String_getBytes m;
              count = record_size tagBuffer messageBuffer
          in if ucast (count + 4) > mSize lb then Some (Inr (False, [], lb))
             else (case encode_record timestamp threadId priority tagBuffer messageBuffer of
                     Inl e \<Rightarrow> Some (Inl e)
                   | Inr data \<Rightarrow>
                       (case mPromise lb of
                          Some p \<Rightarrow> Some (Inr (True,
                            [(p, Some \<lparr>mTimestamp = timestamp, mThreadId = threadId, mPriority = priority, mTag = t, mMessage = m\<rparr>)],
                            lb\<lparr>mPromise := None\<rparr>))
                        | None \<Rightarrow>
                            (case LogBuffer_writeByteArray data lb of
                               None \<Rightarrow> None
                             | Some (Inl e) \<Rightarrow> Some (Inl e)
                             | Some (Inr lb') \<Rightarrow> Some (Inr (True, [], lb')))))
      | _ \<Rightarrow> Some (Inr (False, [], lb)))"

definition LogBuffer_get :: "nat \<Rightarrow> log_buffer \<Rightarrow> (log_promise \<times> log_buffer) result" where
  "LogBuffer_get fresh lb =
     (case mPromise lb of
        Some p \<Rightarrow> Inr (Waiting p, lb)
      | None \<Rightarrow>
          if \<not> LogBuffer_isEmpty lb
          then bind_result (LogBuffer_readByteArray 4 lb) (\<lambda>(data, lb).
               bind_result (LogBuffer_intFromByteArray data) (\<lambda>count.
               bind_result (LogBuffer_readByteArray (scast count) lb) (\<lambda>(buffer, lb).
               bind_result (decode_record buffer) (\<lambda>r. Inr (Completed r, lb)))))
          else Inr (Waiting fresh, lb\<lparr>mPromise := Some fresh\<rparr>))"


section \<open>The ring\<close>

text \<open>The \<open>n\<close> bytes from index \<open>p\<close> on, around the end of the ring.\<close>

definition ring_get :: "'a list \<Rightarrow> nat \<Rightarrow> nat \<Rightarrow> 'a list" where
  "ring_get xs p n = map (\<lambda>i. xs ! ((p + i) mod length xs)) [0..<n]"

lemma length_ring_get [simp]: "length (ring_get xs p n) = n"
  by (simp add: ring_get_def)

lemma ring_get_0 [simp]: "ring_get xs p 0 = []"
  by (simp add: ring_get_def)

lemma ring_get_add: "ring_get xs p (m + n) = ring_get xs p m @ ring_get xs (p + m) n"
  by (rule nth_equalityI) (auto simp: ring_get_def nth_append add.assoc)

lemma ring_get_mod [simp]: "ring_get xs (p mod length xs) n = ring_get xs p n"
  by (simp add: ring_get_def mod_add_left_eq)

lemma ring_get_take: "m \<le> n \<Longrightarrow> take m (ring_get xs p n) = ring_get xs p m"
  using ring_get_add[of xs p m "n - m"] by simp

lemma ring_get_drop: "m \<le> n \<Longrightarrow> drop m (ring_get xs p n) = ring_get xs (p + m) (n - m)"
  using ring_get_add[of xs p m "n - m"] by simp

lemma ring_get_straight: "p + n \<le> length xs \<Longrightarrow> ring_get xs p n = read_at p n xs"
  by (rule nth_equalityI) (auto simp: ring_get_def nth_read_at)

lemma ring_get_around:
  assumes "p \<le> length xs" and "length xs \<le> p + n" and "n \<le> length xs"
  shows "ring_get xs p n = read_at p (length xs - p) xs @ read_at 0 (n - (length xs - p)) xs"
proof -
  have "ring_get xs p n = ring_get xs p (length xs - p) @ ring_get xs (length xs) (n - (length xs - p))"
    using ring_get_add[of xs p "length xs - p" "n - (length xs - p)"] assms by simp
  also have "ring_get xs (length xs) k = ring_get xs 0 k" for k
    using ring_get_mod[of xs "length xs" k] by (cases xs) simp_all
  finally show ?thesis using assms by (simp add: ring_get_straight)
qed

lemma arraycopy_eq:
  assumes "unat srcPos + unat n \<le> length s" and "unat destPos + unat n \<le> length d"
    and "length s < 2 ^ 63" and "length d < 2 ^ 63"
  shows "arraycopy (Some s) srcPos (Some d) destPos n = Inr (write_at (unat destPos) (read_at (unat srcPos) (unat n) s) d)"
proof -
  have "unat (srcPos + n) = unat srcPos + unat n" and "unat (destPos + n) = unat destPos + unat n"
    using assms by (simp_all add: unat_add_small')
  moreover have "unat (ByteArray_size s) = length s" and "unat (ByteArray_size d) = length d"
    using assms by (simp_all add: of_nat_size)
  ultimately show ?thesis using assms by (simp add: arraycopy_def word_less_nat_alt raw_read_def raw_write_def)
qed

text \<open>The indexes of a buffer that is in use, and its reads and writes around the end of the ring.\<close>

definition ring_ok :: "log_buffer \<Rightarrow> bool" where
  "ring_ok lb \<longleftrightarrow> length (mRing lb) = unat (mSize lb) \<and> unat (mSize lb) < 2 ^ 31 \<and>
     mReadIndex lb < mSize lb \<and> mWriteIndex lb < mSize lb"

lemma ring_okD:
  assumes "ring_ok lb"
  shows "length (mRing lb) = unat (mSize lb)" and "unat (mSize lb) < 2 ^ 31" and "0 < unat (mSize lb)"
    and "unat (mReadIndex lb) < unat (mSize lb)" and "unat (mWriteIndex lb) < unat (mSize lb)"
  using assms by (auto simp: ring_ok_def word_less_nat_alt)

lemma unat_ring_index:
  assumes "unat (i :: size_t) < 2 ^ 31" and "unat n < 2 ^ 62"
  shows "unat ((i + n) mod m) = (unat i + unat n) mod unat m"
proof -
  have "unat (i + n) = unat i + unat n" using assms by (intro unat_add_small') simp
  then show ?thesis by (simp add: unat_mod)
qed

lemma read_at_0_all [simp]: "read_at 0 (length xs) xs = xs"
  by (simp add: read_at_def)

lemma write_at_all: "length xs = length ys \<Longrightarrow> write_at 0 xs ys = xs"
  by (simp add: write_at_def)

lemma readByteArray_eq:
  assumes "ring_ok lb" and n: "unat n \<le> unat (mSize lb)"
  shows "LogBuffer_readByteArray n lb =
    Inr (ring_get (mRing lb) (unat (mReadIndex lb)) (unat n), lb\<lparr>mReadIndex := (mReadIndex lb + n) mod mSize lb\<rparr>)"
proof -
  note ok = ring_okD[OF assms(1)]
  have sum: "unat (mReadIndex lb + n) = unat (mReadIndex lb) + unat n" using ok n by (intro unat_add_small') simp
  show ?thesis
  proof (cases "mReadIndex lb + n < mSize lb")
    case True
    then have "unat (mReadIndex lb) + unat n \<le> length (mRing lb)" using ok sum by (simp add: word_less_nat_alt)
    then show ?thesis using True ok n
      by (simp add: LogBuffer_readByteArray_def Let_def arraycopy_eq ByteArray_new_def write_at_all ring_get_straight)
  next
    case False
    define k where "k = mSize lb - mReadIndex lb"
    have k: "unat k = unat (mSize lb) - unat (mReadIndex lb)"
      using ok unfolding k_def by (simp add: unat_sub word_le_nat_alt)
    have kn: "unat k \<le> unat n" using False ok sum k by (simp add: word_less_nat_alt)
    then have nk: "unat (n - k) = unat n - unat k" by (simp add: unat_sub word_le_nat_alt)
    have "write_at (unat k) ys (write_at 0 xs (replicate (unat n) 0)) = xs @ ys"
      if "length xs = unat k" "length ys = unat n - unat k" for xs ys :: bytes
      using that kn by (simp add: write_at_def)
    then show ?thesis using False ok n k kn nk
      by (simp add: LogBuffer_readByteArray_def Let_def k_def[symmetric] arraycopy_eq ByteArray_new_def ring_get_around)
  qed
qed

lemma mod_once: "a < m \<Longrightarrow> i < m \<Longrightarrow> (a + i) mod m = (if a + i < m then a + i else a + i - m)" for m :: nat
  by (auto simp: mod_if)

text \<open>A write puts its bytes behind the write index and leaves the others.\<close>

definition ring_written :: "nat \<Rightarrow> 'a list \<Rightarrow> 'a list \<Rightarrow> 'a list \<Rightarrow> bool" where
  "ring_written w data xs ys \<longleftrightarrow> length ys = length xs \<and> ring_get ys w (length data) = data \<and>
     ring_get ys (w + length data) (length xs - length data) = ring_get xs (w + length data) (length xs - length data)"

lemma ring_writtenI:
  assumes "w < length xs" and "length data \<le> length xs" and "length ys = length xs"
    and new: "\<And>i. i < length data \<Longrightarrow> ys ! ((w + i) mod length xs) = data ! i"
    and old: "\<And>i. length data \<le> i \<Longrightarrow> i < length xs \<Longrightarrow> ys ! ((w + i) mod length xs) = xs ! ((w + i) mod length xs)"
  shows "ring_written w data xs ys"
proof -
  have "ring_get ys w (length data) = data"
    using assms by (intro nth_equalityI) (simp_all add: ring_get_def)
  moreover have "ring_get ys (w + length data) (length xs - length data) = ring_get xs (w + length data) (length xs - length data)"
  proof (rule nth_equalityI)
    fix i assume "i < length (ring_get ys (w + length data) (length xs - length data))"
    then show "ring_get ys (w + length data) (length xs - length data) ! i = ring_get xs (w + length data) (length xs - length data) ! i"
      using old[of "length data + i"] assms(3) by (simp add: ring_get_def add.assoc)
  qed simp
  ultimately show ?thesis using assms(3) by (simp add: ring_written_def)
qed

lemma ring_written_straight:
  assumes "w + length data \<le> length xs" and "w < length xs"
  shows "ring_written w data xs (write_at w data xs)"
  using assms by (intro ring_writtenI) (auto simp: nth_write_at mod_once)

lemma ring_written_around:
  assumes "w < length xs" and "length xs \<le> w + length data" and "length data \<le> length xs"
    and k: "k = length xs - w"
  shows "ring_written w data xs (write_at 0 (drop k data) (write_at w (take k data) xs))"
proof -
  let ?xs = "write_at w (take k data) xs"
  have inner: "length ?xs = length xs" using assms by (intro length_write_at) simp
  then have "length (write_at 0 (drop k data) ?xs) = length xs" using assms by (subst length_write_at) simp_all
  moreover have "?xs ! j = (if w \<le> j \<and> j < w + k then data ! (j - w) else xs ! j)" if "j < length xs" for j
    using assms that by (subst nth_write_at) auto
  ultimately show ?thesis
    using assms inner by (intro ring_writtenI) (auto simp: nth_write_at mod_once)
qed

lemma write_ring_eq:
  assumes "ring_ok lb" and n: "length data \<le> unat (mSize lb)"
  shows "\<exists>ring. write_ring data lb =
      Inr (lb\<lparr>mRing := ring, mWriteIndex := (mWriteIndex lb + ByteArray_size data) mod mSize lb\<rparr>) \<and>
    ring_written (unat (mWriteIndex lb)) data (mRing lb) ring"
proof -
  note ok = ring_okD[OF assms(1)]
  have len: "unat (ByteArray_size data) = length data" using n ok by (intro of_nat_size) simp
  have sum: "unat (mWriteIndex lb + ByteArray_size data) = unat (mWriteIndex lb) + length data"
    using ok n len by (subst unat_add_small') simp_all
  show ?thesis
  proof (cases "mWriteIndex lb + ByteArray_size data < mSize lb")
    case True
    then have "unat (mWriteIndex lb) + length data \<le> length (mRing lb)" using ok sum by (simp add: word_less_nat_alt)
    then show ?thesis using True ok n len by (auto simp: write_ring_def Let_def arraycopy_eq ring_written_straight)
  next
    case False
    define k where "k = mSize lb - mWriteIndex lb"
    have k: "unat k = length (mRing lb) - unat (mWriteIndex lb)"
      using ok unfolding k_def by (simp add: unat_sub word_le_nat_alt)
    have wn: "length (mRing lb) \<le> unat (mWriteIndex lb) + length data" using False ok sum by (simp add: word_less_nat_alt)
    then have nk: "unat (ByteArray_size data - k) = length data - unat k"
      using len k by (simp add: unat_sub word_le_nat_alt)
    have "write_ring data lb = Inr (lb\<lparr>mRing := write_at 0 (drop (unat k) data) (write_at (unat (mWriteIndex lb)) (take (unat k) data) (mRing lb)),
        mWriteIndex := (mWriteIndex lb + ByteArray_size data) mod mSize lb\<rparr>)"
      using False ok n k nk wn by (simp add: write_ring_def Let_def k_def[symmetric] arraycopy_eq read_at_def)
    then show ?thesis using ring_written_around[OF _ wn _ k] ok n by auto
  qed
qed

section \<open>Records as bytes\<close>

definition record_body :: "log_record \<Rightarrow> bytes" where
  "record_body r = word_bytes 8 (mTimestamp r) @ word_bytes 8 (mThreadId r) @ word_bytes 4 (mPriority r) @
     word_bytes 4 (of_nat (length (String_getBytes (mTag r))) :: int32) @ String_getBytes (mTag r) @
     word_bytes 4 (of_nat (length (String_getBytes (mMessage r))) :: int32) @ String_getBytes (mMessage r)"

definition record_frame :: "log_record \<Rightarrow> bytes" where
  "record_frame r = word_bytes 4 (of_nat (length (record_body r)) :: int32) @ record_body r"

text \<open>A string without a buffer is read back as an empty string.\<close>

definition stored :: "log_record \<Rightarrow> log_record" where
  "stored r = r\<lparr>mTag := Some (String_getBytes (mTag r)), mMessage := Some (String_getBytes (mMessage r))\<rparr>"

lemma stored_simps [simp]:
  "record_body (stored r) = record_body r" "record_frame (stored r) = record_frame r" "stored (stored r) = stored r"
  by (simp_all add: stored_def record_body_def record_frame_def String_getBytes_def split: option.splits)

lemma length_record_body:
  "length (record_body r) = 28 + length (String_getBytes (mTag r)) + length (String_getBytes (mMessage r))"
  by (simp add: record_body_def)

lemma length_record_frame:
  "length (record_frame r) = 32 + length (String_getBytes (mTag r)) + length (String_getBytes (mMessage r))"
  by (simp add: record_frame_def length_record_body)

subsection \<open>Encoding\<close>

lemma writes_put_all:
  assumes "bb_inv b s" and "mBuffer b \<noteq> r" and "length (s r) < 2 ^ 62"
  shows "writes (s r) b s (ByteBuffer_put_all (Some r) b s)"
proof -
  note inv = bb_inv_nat[OF assms(1)]
  have len: "unat (ByteArray_size (s r)) = length (s r)" using assms(3) by (intro of_nat_size) simp
  have small: "unat (mPosition b) + length (s r) < 2 ^ 64" using inv assms(3) by simp
  have off: "unat (mOffset b + mPosition b) = unat (mOffset b) + unat (mPosition b)"
    using inv by (intro unat_add_small') simp
  have size: "ByteArray_size (s r) = of_nat (length (s r))" by (simp add: ByteArray_size_def)
  show ?thesis
  proof (cases "unat (mPosition b) + length (s r) \<le> unat (mLimit b)")
    case True
    have fits: "unat (mOffset b) + unat (mPosition b) + length (s r) \<le> length (s (mBuffer b))" using inv True by linarith
    have copy: "arraycopy (Some (s r)) 0 (Some (s (mBuffer b))) (mOffset b + mPosition b) (ByteArray_size (s r)) =
        Inr (write_at (unat (mOffset b) + unat (mPosition b)) (s r) (s (mBuffer b)))"
      using fits inv assms(3) len off by (simp add: arraycopy_eq)
    show ?thesis
      using copy True assms bb_inv_advance[OF assms(1) True] bb_inv_write[where s = s and r = "mBuffer b", OF _ fits]
      by (simp add: ByteBuffer_put_all_def ByteBuffer_put_bytes_def checkBufferOverflow_def store_arraycopy_def writes_def
          advance_after_def check_small[OF small, folded size] fits)
        (simp add: size)
  next
    case False
    then show ?thesis
      by (simp add: ByteBuffer_put_all_def ByteBuffer_put_bytes_def checkBufferOverflow_def writes_def
          advance_after_def check_small[OF small, folded size])
  qed
qed

text \<open>A sequence of writes to array \<open>0\<close> has filled it with \<open>pre\<close>.\<close>

definition filled :: "bytes \<Rightarrow> nat \<Rightarrow> arrays \<Rightarrow> (byte_buffer \<times> arrays) result \<Rightarrow> bool" where
  "filled pre cap s0 r \<longleftrightarrow> (\<exists>b s. r = Inr (b, s) \<and> bb_inv b s \<and> mBuffer b = 0 \<and> mOffset b = 0 \<and> unat (mLimit b) = cap \<and>
     unat (mPosition b) = length pre \<and> length (s 0) = cap \<and> take (length pre) (s 0) = pre \<and> (\<forall>r. r \<noteq> 0 \<longrightarrow> s r = s0 r))"

lemma filled_then_put:
  assumes "filled pre cap s0 r"
    and op: "\<And>b s. bb_inv b s \<Longrightarrow> mBuffer b = 0 \<Longrightarrow> (\<forall>r. r \<noteq> 0 \<longrightarrow> s r = s0 r) \<Longrightarrow> writes new b s (op b s)"
    and "length pre + length new \<le> cap"
  shows "filled (pre @ new) cap s0 (then_put r op)"
proof -
  obtain b s where r: "r = Inr (b, s)" and b: "bb_inv b s" "mBuffer b = 0" "mOffset b = 0" "unat (mLimit b) = cap"
      "unat (mPosition b) = length pre"
    and s: "length (s 0) = cap" "take (length pre) (s 0) = pre" "\<forall>r. r \<noteq> 0 \<longrightarrow> s r = s0 r"
    using assms(1) by (auto simp: filled_def)
  obtain b' where "op b s = (Inr (s(0 := write_at (length pre) new (s 0))), b')"
    and "bb_inv b' (s(0 := write_at (length pre) new (s 0)))" and "unat (mPosition b') = length pre + length new"
    and "mBuffer b' = 0" "mOffset b' = 0" "mLimit b' = mLimit b"
    using writesE[OF op[OF b(1,2) s(3)]] b assms(3) by auto
  moreover have "take (length pre + length new) (write_at (length pre) new (s 0)) = pre @ new"
    using s assms(3) by (simp add: write_at_def)
  ultimately show ?thesis using r b s assms(3) by (simp add: filled_def then_put_def)
qed

lemma filled_all: "filled pre cap s0 r \<Longrightarrow> length pre = cap \<Longrightarrow> bind_result r (\<lambda>(b, s). Inr (s (mBuffer b))) = Inr pre"
  by (auto simp: filled_def)

lemma unat_record_size:
  assumes "length tag + length msg < 2 ^ 30"
  shows "unat (record_size tag msg) = 28 + length tag + length msg"
    and "unat (ucast (record_size tag msg + 4) :: size_t) = 32 + length tag + length msg"
    and "record_size tag msg = of_nat (28 + length tag + length msg)"
proof -
  have sum: "8 + 8 + 4 + 4 + ByteArray_size tag + 4 + ByteArray_size msg = (of_nat (28 + length tag + length msg) :: size_t)"
    by (simp add: ByteArray_size_def)
  have x: "unat (of_nat (28 + length tag + length msg) :: size_t) = 28 + length tag + length msg"
    using assms by (simp only: unat_of_nat) (simp add: take_bit_nat_eq_self)
  show u: "unat (record_size tag msg) = 28 + length tag + length msg"
    unfolding record_size_def sum unsigned_ucast_eq x using assms by (simp add: take_bit_nat_eq_self)
  then show "record_size tag msg = of_nat (28 + length tag + length msg)"
    using assms by (simp only: word_unat_eq_iff unat_of_nat) (simp add: take_bit_nat_eq_self)
  have "unat (record_size tag msg + 4) = 32 + length tag + length msg"
    using assms u by (simp add: unat_word_ariths take_bit_nat_eq_self)
  then show "unat (ucast (record_size tag msg + 4) :: size_t) = 32 + length tag + length msg"
    using assms by (simp add: unsigned_ucast_eq take_bit_nat_eq_self)
qed

lemma filled_allocate:
  assumes "unat n < 2 ^ 62" and "unat n = cap" and "\<forall>r. r \<noteq> 0 \<longrightarrow> t r = s r"
  shows "filled [] cap t (case ByteBuffer_allocate 0 n s of (r, s') \<Rightarrow> bind_result r (\<lambda>b. Inr (b, s')))"
proof -
  have "unat (ByteArray_size (ByteArray_new n)) = cap" using assms by (subst of_nat_size) (simp_all add: ByteArray_new_def)
  then show ?thesis
    using assms by (simp add: ByteBuffer_allocate_def Let_def ByteArrayBuffer_new_def ByteBuffer_new_def filled_def bb_inv_def)
      (simp add: ByteArray_new_def)
qed

lemma filled_steps:
  assumes "filled pre cap s0 r"
  shows "length pre + 4 \<le> cap \<Longrightarrow> filled (pre @ word_bytes 4 i) cap s0 (then_put r (ByteBuffer_putInt i))"
    and "length pre + 8 \<le> cap \<Longrightarrow> filled (pre @ word_bytes 8 l) cap s0 (then_put r (ByteBuffer_putLong l))"
    and "length pre + length (s0 k) \<le> cap \<Longrightarrow> k \<noteq> 0 \<Longrightarrow> length (s0 k) < 2 ^ 62 \<Longrightarrow>
      filled (pre @ s0 k) cap s0 (then_put r (ByteBuffer_put_all (Some k)))"
proof -
  show "filled (pre @ word_bytes 4 i) cap s0 (then_put r (ByteBuffer_putInt i))" if "length pre + 4 \<le> cap"
    using that by (intro filled_then_put[OF assms] typed_writes(2)) simp_all
  show "filled (pre @ word_bytes 8 l) cap s0 (then_put r (ByteBuffer_putLong l))" if "length pre + 8 \<le> cap"
    using that by (intro filled_then_put[OF assms] typed_writes(3)) simp_all
  show "filled (pre @ s0 k) cap s0 (then_put r (ByteBuffer_put_all (Some k)))"
    if "length pre + length (s0 k) \<le> cap" "k \<noteq> 0" "length (s0 k) < 2 ^ 62"
  proof (rule filled_then_put[OF assms _ that(1)])
    fix b s assume "bb_inv b s" "mBuffer b = 0" "\<forall>r. r \<noteq> 0 \<longrightarrow> s r = s0 r"
    then show "writes (s0 k) b s (ByteBuffer_put_all (Some k) b s)" using that writes_put_all[of b s k] by simp
  qed
qed

lemma encode_record_eq:
  assumes "length (record_frame r) < 2 ^ 30"
  shows "encode_record (mTimestamp r) (mThreadId r) (mPriority r) (String_getBytes (mTag r)) (String_getBytes (mMessage r)) =
    Inr (record_frame r)"
proof -
  define t m where "t = String_getBytes (mTag r)" and "m = String_getBytes (mMessage r)"
  define s0 :: arrays where "s0 = (\<lambda>_. [])(1 := t, 2 := m)"
  have s0: "s0 1 = t" "s0 2 = m" by (simp_all add: s0_def)
  have cap: "length (record_frame r) = 32 + length t + length m" by (simp add: length_record_frame t_def m_def)
  then have len: "length t + length m < 2 ^ 30" using assms by simp
  note sz = unat_record_size[OF len]
  have conv: "ucast (ByteArray_size t) = (of_nat (length t) :: int32)" "ucast (ByteArray_size m) = (of_nat (length m) :: int32)"
    by (simp_all add: ByteArray_size_def word_unat_eq_iff unsigned_ucast_eq unsigned_of_nat)
  let ?start = "case ByteBuffer_allocate 0 (ucast (record_size t m + 4)) s0 of (r, s') \<Rightarrow> bind_result r (\<lambda>b. Inr (b, s'))"
  have 0: "filled [] (32 + length t + length m) s0 ?start" using sz len by (intro filled_allocate) simp_all
  note 1 = filled_steps(1)[OF 0, where i = "record_size t m"]
  note 2 = filled_steps(2)[OF 1, where l = "mTimestamp r"]
  note 3 = filled_steps(2)[OF 2, where l = "mThreadId r"]
  note 4 = filled_steps(1)[OF 3, where i = "mPriority r"]
  note 5 = filled_steps(1)[OF 4, where i = "of_nat (length t)"]
  note 6 = filled_steps(3)[OF 5, where k = 1, unfolded s0]
  note 7 = filled_steps(1)[OF 6, where i = "of_nat (length m)"]
  note 8 = filled_steps(3)[OF 7, where k = 2, unfolded s0]
  have "encode_record (mTimestamp r) (mThreadId r) (mPriority r) t m =
      Inr (word_bytes 4 (record_size t m) @ word_bytes 8 (mTimestamp r) @ word_bytes 8 (mThreadId r) @ word_bytes 4 (mPriority r) @
        word_bytes 4 (of_nat (length t) :: int32) @ t @ word_bytes 4 (of_nat (length m) :: int32) @ m)"
    using filled_all[OF 8] len unfolding encode_record_def Let_def case_prod_beta conv s0_def[symmetric] by simp
  then show ?thesis
    by (simp add: record_frame_def record_body_def sz(3) t_def[symmetric] m_def[symmetric] add.assoc)
qed

subsection \<open>Decoding\<close>

text \<open>A buffer over array \<open>0\<close> whose next bytes are \<open>rest\<close>.\<close>

definition reading :: "bytes \<Rightarrow> byte_buffer \<Rightarrow> arrays \<Rightarrow> bool" where
  "reading rest b s \<longleftrightarrow> bb_inv b s \<and> mBuffer b = 0 \<and> mOffset b = 0 \<and> unat (mLimit b) = length (s 0) \<and>
     drop (unat (mPosition b)) (s 0) = rest"

lemma reading_length: "reading rest b s \<Longrightarrow> unat (mPosition b) + length rest = length (s 0)"
  using bb_inv_nat(1)[of b s] by (auto simp: reading_def)

lemma reading_other: "reading rest b s \<Longrightarrow> k \<noteq> 0 \<Longrightarrow> reading rest b (s(k := xs))"
  by (auto simp: reading_def bb_inv_def)

lemma reading_step:
  assumes "reading (new @ rest) b s" and "reads (length new) decode b s r"
  shows "\<exists>b'. r = (Inr (decode new), b') \<and> reading rest b' s"
proof -
  have "drop (unat (mPosition b) + length new) (s 0) = rest"
    using assms(1) by (metis add.commute append_eq_conv_conj drop_drop reading_def)
  moreover have "unat (mPosition b) + length new \<le> unat (mLimit b)"
    using reading_length[OF assms(1)] assms(1) by (simp add: reading_def)
  ultimately show ?thesis using assms by (auto simp: reads_def reading_def read_at_def)
qed

lemma reading_then_getInt:
  assumes "reading (word_bytes 4 v @ rest) b s" and "\<And>b'. reading rest b' s \<Longrightarrow> f v b' = y"
  shows "then_get (ByteBuffer_getInt b s) f = y"
proof -
  have "bb_inv b s" using assms(1) by (simp add: reading_def)
  then have "reads (length (word_bytes 4 v)) bytes_word b s (ByteBuffer_getInt b s)" using typed_reads(2) by simp
  from reading_step[OF assms(1) this] obtain b' where "ByteBuffer_getInt b s = (Inr (bytes_word (word_bytes 4 v)), b')"
    and "reading rest b' s" by blast
  then show ?thesis using assms(2) by (simp add: then_get_def)
qed

lemma reading_then_getLong:
  assumes "reading (word_bytes 8 v @ rest) b s" and "\<And>b'. reading rest b' s \<Longrightarrow> f v b' = y"
  shows "then_get (ByteBuffer_getLong b s) f = y"
proof -
  have "bb_inv b s" using assms(1) by (simp add: reading_def)
  then have "reads (length (word_bytes 8 v)) bytes_word b s (ByteBuffer_getLong b s)" using typed_reads(3) by simp
  from reading_step[OF assms(1) this] obtain b' where "ByteBuffer_getLong b s = (Inr (bytes_word (word_bytes 8 v)), b')"
    and "reading rest b' s" by blast
  then show ?thesis using assms(2) by (simp add: then_get_def)
qed

lemma reading_then_get_all:
  assumes at: "reading (new @ rest) b s" and k: "k \<noteq> 0" and n: "unat n = length new"
    and f: "\<And>b'. reading rest b' s \<Longrightarrow> f (s(k := new)) b' = y"
  shows "then_get (ByteBuffer_get_all (Some k) b (s(k := ByteArray_new n))) f = y"
proof -
  have inv: "bb_inv b s" and b: "mBuffer b = 0" "mOffset b = 0" "unat (mLimit b) = length (s 0)"
    using at by (simp_all add: reading_def)
  have len: "unat (mPosition b) + length new \<le> length (s 0)" using reading_length[OF at] by simp
  have small: "length (s 0) < 2 ^ 63" using inv b by (simp add: bb_inv_def)
  have size: "ByteArray_size (ByteArray_new n) = n" using n len small
    by (simp add: word_unat_eq_iff of_nat_size ByteArray_new_def)
  have sum: "unat (mPosition b + n) = unat (mPosition b) + length new"
    using n len small by (subst unat_add_small') simp_all
  have now: "read_at (unat (mPosition b)) (length new) (s 0) = new"
    using at by (simp add: reading_def read_at_def)
  have "arraycopy (Some (s 0)) (mPosition b) (Some (ByteArray_new n)) 0 n = Inr new"
    using n len small now by (subst arraycopy_eq) (simp_all add: ByteArray_new_def write_at_all)
  moreover have "\<not> mLimit b < mPosition b + n" using sum b len by (simp add: word_less_nat_alt)
  moreover have "reading rest (b\<lparr>mPosition := mPosition b + n\<rparr>) s"
  proof -
    have "drop (unat (mPosition b) + length new) (s 0) = rest"
      using at by (metis add.commute append_eq_conv_conj drop_drop reading_def)
    moreover have "bb_inv (b\<lparr>mPosition := mPosition b + n\<rparr>) s"
      using inv sum b len by (simp add: bb_inv_def word_le_nat_alt)
    ultimately show ?thesis using b sum by (simp add: reading_def)
  qed
  ultimately show ?thesis
    using f b k size
    by (simp add: then_get_def ByteBuffer_get_all_def ByteBuffer_get_bytes_def advance_after_def checkBufferUnderflow_def
        store_arraycopy_def)
qed

lemma unat_scast_small: "n < 2 ^ 31 \<Longrightarrow> unat (scast (of_nat n :: int32) :: size_t) = n"
proof -
  assume n: "n < 2 ^ 31"
  have "sint (of_nat n :: int32) = int n" using n by (simp add: signed_of_nat signed_take_bit_int_eq_self)
  then show ?thesis using n by (simp add: scast_eq unat_of_nat take_bit_nat_eq_self)
qed

lemma decode_record_eq:
  assumes "length (record_frame r) < 2 ^ 30"
  shows "decode_record (record_body r) = Inr (stored r)"
proof -
  define t m where "t = String_getBytes (mTag r)" and "m = String_getBytes (mMessage r)"
  have "length (record_body r) < 2 ^ 30" using assms by (simp add: record_frame_def)
  define s :: arrays where "s = (\<lambda>_. [])(0 := record_body r)"
  obtain b where b: "ByteBuffer_wrap (Some 0) s = Inr b" and at: "reading (record_body r) b s"
    using \<open>length (record_body r) < 2 ^ 30\<close>
    by (auto simp: ByteBuffer_wrap_def ByteArrayBuffer_new_def ByteBuffer_new_def s_def reading_def bb_inv_def of_nat_size)
  have len: "length t < 2 ^ 31" "length m < 2 ^ 31" using assms by (simp_all add: length_record_frame t_def m_def)
  have body: "record_body r = word_bytes 8 (mTimestamp r) @ word_bytes 8 (mThreadId r) @ word_bytes 4 (mPriority r) @
     word_bytes 4 (of_nat (length t) :: int32) @ t @ word_bytes 4 (of_nat (length m) :: int32) @ m @ []"
    by (simp add: record_body_def t_def m_def)
  show ?thesis
    unfolding decode_record_def Let_def s_def[symmetric] b bind_result_simps stored_def
    apply (rule reading_then_getLong[OF at[unfolded body]])
    apply (rule reading_then_getLong, assumption)
    apply (rule reading_then_getInt, assumption)
    apply (rule reading_then_getInt, assumption)
    apply (rule reading_then_get_all, assumption, simp, rule unat_scast_small, rule len)
    apply (rule reading_then_getInt, erule reading_other, simp)
    apply (rule reading_then_get_all, assumption, simp, rule unat_scast_small, rule len)
    apply (simp add: String_of_ByteArray_def t_def m_def)
    done
qed

section \<open>The buffer as a queue of records\<close>

definition log_bytes :: "log_record list \<Rightarrow> bytes" where
  "log_bytes rs = concat (map record_frame rs)"

lemma log_bytes_simps [simp]:
  "log_bytes [] = []" "log_bytes (r # rs) = record_frame r @ log_bytes rs" "log_bytes (rs @ rs') = log_bytes rs @ log_bytes rs'"
  by (simp_all add: log_bytes_def)

text \<open>The records \<open>rs\<close> stand between the indexes, oldest first.\<close>

definition log_rep :: "log_buffer \<Rightarrow> log_record list \<Rightarrow> bool" where
  "log_rep lb rs \<longleftrightarrow> ring_ok lb \<and> length (log_bytes rs) < unat (mSize lb) \<and>
     unat (mWriteIndex lb) = (unat (mReadIndex lb) + length (log_bytes rs)) mod unat (mSize lb) \<and>
     ring_get (mRing lb) (unat (mReadIndex lb)) (length (log_bytes rs)) = log_bytes rs \<and>
     (\<forall>r \<in> set rs. length (record_frame r) < 2 ^ 30 \<and> stored r = r)"

text \<open>What writing a record does: the oldest records go until there is room, and a full ring counts as empty.\<close>

primrec drop_oldest :: "nat \<Rightarrow> nat \<Rightarrow> log_record list \<Rightarrow> log_record list" where
  "drop_oldest cap n [] = []"
| "drop_oldest cap n (r # rs) = (if length (log_bytes (r # rs)) + n \<le> cap then r # rs else drop_oldest cap n rs)"

definition log_add :: "nat \<Rightarrow> log_record \<Rightarrow> log_record list \<Rightarrow> log_record list" where
  "log_add cap r rs =
     (let rs' = drop_oldest cap (length (record_frame r)) rs @ [r]
      in if length (log_bytes rs') = cap then [] else rs')"

lemma drop_oldest_suffix: "\<exists>k. drop_oldest cap n rs = drop k rs"
proof (induction rs)
  case (Cons r rs)
  then obtain k where "drop_oldest cap n rs = drop k rs" ..
  then have "drop_oldest cap n (r # rs) = drop (if length (log_bytes (r # rs)) + n \<le> cap then 0 else Suc k) (r # rs)" by simp
  then show ?case ..
qed simp

lemma drop_oldest_fits: "n \<le> cap \<Longrightarrow> length (log_bytes (drop_oldest cap n rs)) + n \<le> cap"
  by (induction rs) auto

lemma log_rep_pop:
  assumes "log_rep lb (r # rs)"
  defines "m \<equiv> lb\<lparr>mReadIndex := (mReadIndex lb + 4) mod mSize lb\<rparr>"
    and "n \<equiv> of_nat (length (record_body r)) :: int32"
  defines "lb' \<equiv> m\<lparr>mReadIndex := (mReadIndex m + scast n) mod mSize m\<rparr>"
  shows "LogBuffer_readByteArray 4 lb = Inr (word_bytes 4 n, m)"
    and "LogBuffer_readByteArray (scast n) m = Inr (record_body r, lb')"
    and "log_rep lb' rs"
proof -
  let ?i = "unat (mReadIndex lb)" and ?s = "unat (mSize lb)" and ?k = "length (record_body r)"
  have ok: "ring_ok lb" and tot: "4 + ?k + length (log_bytes rs) < ?s"
    and w: "unat (mWriteIndex lb) = (?i + (4 + ?k + length (log_bytes rs))) mod ?s"
    and c: "ring_get (mRing lb) ?i (4 + ?k + length (log_bytes rs)) = word_bytes 4 n @ record_body r @ log_bytes rs"
    and rs: "\<forall>r \<in> set rs. length (record_frame r) < 2 ^ 30 \<and> stored r = r" and k: "?k < 2 ^ 30"
    using assms(1) by (simp_all add: log_rep_def record_frame_def n_def add.assoc)
  note okD = ring_okD[OF ok]
  have c1: "ring_get (mRing lb) ?i 4 = word_bytes 4 n"
    using ring_get_take[of 4 "4 + ?k + length (log_bytes rs)" "mRing lb" ?i] c by simp
  have c2: "ring_get (mRing lb) (?i + 4) (?k + length (log_bytes rs)) = record_body r @ log_bytes rs"
    using ring_get_drop[of 4 "4 + ?k + length (log_bytes rs)" "mRing lb" ?i] c by simp
  then have c3: "ring_get (mRing lb) (?i + 4) ?k = record_body r"
    using ring_get_take[of ?k "?k + length (log_bytes rs)" "mRing lb" "?i + 4"] by simp
  have c4: "ring_get (mRing lb) (?i + 4 + ?k) (length (log_bytes rs)) = log_bytes rs"
    using ring_get_drop[of ?k "?k + length (log_bytes rs)" "mRing lb" "?i + 4"] c2 by simp
  show "LogBuffer_readByteArray 4 lb = Inr (word_bytes 4 n, m)"
    using tot by (subst readByteArray_eq[OF ok]) (simp_all add: c1 m_def)
  have m_i: "unat (mReadIndex m) = (?i + 4) mod ?s"
    using okD by (simp add: m_def unat_ring_index)
  have ok_m: "ring_ok m" using ok okD(3) m_i by (simp add: ring_ok_def word_less_nat_alt) (simp add: m_def)
  have n: "unat (scast n :: size_t) = ?k" unfolding n_def using k by (intro unat_scast_small) simp
  show "LogBuffer_readByteArray (scast n) m = Inr (record_body r, lb')"
    unfolding lb'_def using tot okD(1)[symmetric] c3 m_i by (subst readByteArray_eq[OF ok_m]) (simp_all add: n m_def)
  have i: "unat (mReadIndex lb') = (?i + 4 + ?k) mod ?s"
    unfolding lb'_def using ring_okD[OF ok_m] n k m_i by (simp add: unat_ring_index mod_add_left_eq) (simp add: m_def mod_add_left_eq)
  then have "ring_ok lb'" using ok_m okD(3) by (simp add: ring_ok_def word_less_nat_alt lb'_def) (simp add: m_def)
  moreover have "ring_get (mRing lb') (unat (mReadIndex lb')) (length (log_bytes rs)) = log_bytes rs"
    using c4 i okD(1) by (simp add: lb'_def m_def) (metis ring_get_mod)
  moreover have "unat (mWriteIndex lb') = (unat (mReadIndex lb') + length (log_bytes rs)) mod ?s"
    using w i by (simp add: lb'_def m_def mod_add_left_eq add.assoc)
  ultimately show "log_rep lb' rs" using rs tot by (simp add: log_rep_def lb'_def m_def)
qed

lemma intFromByteArray_word [simp]: "LogBuffer_intFromByteArray (word_bytes 4 n) = Inr n"
  by (simp add: LogBuffer_intFromByteArray_def raw_read_def read_at_def)

lemma remainingCapacity_eq:
  assumes "log_rep lb rs"
  shows "unat (LogBuffer_remainingCapacity lb) = unat (mSize lb) - length (log_bytes rs)"
proof -
  have ok: "ring_ok lb" and t: "length (log_bytes rs) < unat (mSize lb)"
    and w: "unat (mWriteIndex lb) = (unat (mReadIndex lb) + length (log_bytes rs)) mod unat (mSize lb)"
    using assms by (simp_all add: log_rep_def)
  note ok = ring_okD[OF ok]
  show ?thesis
  proof (cases "unat (mReadIndex lb) + length (log_bytes rs) < unat (mSize lb)")
    case True
    then have "mReadIndex lb \<le> mWriteIndex lb" and "unat (mWriteIndex lb) = unat (mReadIndex lb) + length (log_bytes rs)"
      using w by (simp_all add: word_le_nat_alt)
    moreover have "mWriteIndex lb - mReadIndex lb \<le> mSize lb" and "unat (mWriteIndex lb - mReadIndex lb) = length (log_bytes rs)"
      using calculation t by (simp_all add: unat_sub word_le_nat_alt)
    ultimately show ?thesis by (simp add: LogBuffer_remainingCapacity_def unat_sub)
  next
    case False
    then have w: "unat (mWriteIndex lb) = unat (mReadIndex lb) + length (log_bytes rs) - unat (mSize lb)"
      using w t ok mod_once[of "unat (mReadIndex lb)" "unat (mSize lb)" "length (log_bytes rs)"] by simp
    then have "mWriteIndex lb < mReadIndex lb" using t False by (simp add: word_less_nat_alt)
    then show ?thesis using w t False ok
      by (simp add: LogBuffer_remainingCapacity_def unat_sub word_le_nat_alt word_less_nat_alt)
  qed
qed

lemma make_room_eq:
  assumes "log_rep lb rs" and "unat n \<le> unat (mSize lb)" and "unat free = unat (mSize lb) - length (log_bytes rs)"
  shows "\<exists>lb'. make_room n free lb = Some (Inr lb') \<and> log_rep lb' (drop_oldest (unat (mSize lb)) (unat n) rs) \<and>
    lb' = lb\<lparr>mReadIndex := mReadIndex lb'\<rparr>"
  using assms
proof (induction rs arbitrary: lb free)
  case Nil
  then have "\<not> free < n" by (simp add: word_less_nat_alt log_rep_def)
  then show ?case using Nil by (simp add: make_room.simps)
next
  case (Cons r rs)
  have t: "length (log_bytes (r # rs)) < unat (mSize lb)" and ok: "ring_ok lb"
    using Cons.prems(1) by (simp_all add: log_rep_def)
  show ?case
  proof (cases "free < n")
    case False
    then have "length (log_bytes (r # rs)) + unat n \<le> unat (mSize lb)"
      using Cons.prems(3) t by (simp add: word_less_nat_alt)
    then show ?thesis using False Cons.prems(1) by (simp add: make_room.simps)
  next
    case True
    define m where "m = lb\<lparr>mReadIndex := (mReadIndex lb + 4) mod mSize lb\<rparr>"
    define s where "s = (of_nat (length (record_body r)) :: int32)"
    define lb' where "lb' = m\<lparr>mReadIndex := (mReadIndex m + scast s) mod mSize m\<rparr>"
    note pop = log_rep_pop[OF Cons.prems(1), folded m_def s_def, folded lb'_def]
    have same: "mSize lb' = mSize lb" "lb' = lb\<lparr>mReadIndex := mReadIndex lb'\<rparr>" by (simp_all add: lb'_def m_def)
    have k: "length (record_body r) < 2 ^ 30" using Cons.prems(1) by (simp add: log_rep_def record_frame_def)
    have "s + 4 = of_nat (length (record_body r) + 4)" by (simp add: s_def)
    then have s4: "unat (scast (s + 4) :: size_t) = length (record_body r) + 4"
      using k by (simp only:) (rule unat_scast_small, simp)
    have "unat (free + scast (s + 4)) = unat free + (length (record_body r) + 4)"
      using s4 Cons.prems(3) ring_okD(2)[OF ok] k by (subst unat_add_small') simp_all
    also have "\<dots> = unat (mSize lb') - length (log_bytes rs)"
      using Cons.prems(3) t same by (simp add: record_frame_def)
    finally obtain lb'' where lb'': "make_room n (free + scast (s + 4)) lb' = Some (Inr lb'')"
      "log_rep lb'' (drop_oldest (unat (mSize lb')) (unat n) rs)" "lb'' = lb'\<lparr>mReadIndex := mReadIndex lb''\<rparr>"
      using Cons.IH[OF pop(3)] Cons.prems(2) same by auto
    have "make_room n free lb = Some (Inr lb'')"
      using lb''(1) True pop(1) by (simp add: make_room.simps[of n free] lb'_def)
    moreover have "\<not> length (log_bytes (r # rs)) + unat n \<le> unat (mSize lb)"
      using True Cons.prems(3) t by (simp add: word_less_nat_alt)
    then have "drop_oldest (unat (mSize lb)) (unat n) (r # rs) = drop_oldest (unat (mSize lb)) (unat n) rs" by simp
    moreover have "lb'' = lb\<lparr>mReadIndex := mReadIndex lb''\<rparr>"
      using lb''(3) by (metis same(2) log_buffer.update_convs(3) log_buffer.select_convs(3) log_buffer.surjective)
    ultimately show ?thesis using lb''(2) same(1) by (intro exI[of _ lb'']) (simp only: simp_thms)
  qed
qed

lemma ring_back:
  fixes i t s :: nat
  assumes "t < s" and "i < s"
  shows "((i + t) mod s + (s - t)) mod s = i"
proof -
  have "((i + t) mod s + (s - t)) mod s = (i + t + (s - t)) mod s" by (rule mod_add_left_eq)
  also have "i + t + (s - t) = i + s" using assms by simp
  finally show ?thesis using assms by simp
qed

lemma write_ring_rep:
  assumes "log_rep lb rs" and fits: "length (log_bytes rs) + length (record_frame r) \<le> unat (mSize lb)"
    and r: "length (record_frame r) < 2 ^ 30" "stored r = r"
  shows "\<exists>lb'. write_ring (record_frame r) lb = Inr lb' \<and> mSize lb' = mSize lb \<and> mPromise lb' = mPromise lb \<and>
    log_rep lb' (if length (log_bytes (rs @ [r])) = unat (mSize lb) then [] else rs @ [r])"
proof -
  let ?d = "record_frame r" and ?t = "length (log_bytes rs)" and ?s = "unat (mSize lb)"
  let ?i = "unat (mReadIndex lb)" and ?w = "unat (mWriteIndex lb)"
  have ok: "ring_ok lb" and t: "?t < ?s" and w: "?w = (?i + ?t) mod ?s"
    and c: "ring_get (mRing lb) ?i ?t = log_bytes rs"
    and rs: "\<forall>r \<in> set rs. length (record_frame r) < 2 ^ 30 \<and> stored r = r" using assms(1) by (simp_all add: log_rep_def)
  note okD = ring_okD[OF ok]
  obtain ring where "write_ring ?d lb = Inr (lb\<lparr>mRing := ring, mWriteIndex := (mWriteIndex lb + ByteArray_size ?d) mod mSize lb\<rparr>)"
    and ring: "ring_written ?w ?d (mRing lb) ring" using write_ring_eq[OF ok, of ?d] fits by auto
  moreover define lb' where "lb' = lb\<lparr>mRing := ring, mWriteIndex := (mWriteIndex lb + ByteArray_size ?d) mod mSize lb\<rparr>"
  ultimately have wr: "write_ring ?d lb = Inr lb'" by simp
  have len: "length ring = ?s" using ring okD(1) by (simp add: ring_written_def)
  have d: "unat (ByteArray_size ?d) = length ?d" using r by (intro of_nat_size) simp
  have "unat ((mWriteIndex lb + ByteArray_size ?d) mod mSize lb) = (?w + length ?d) mod ?s"
    using okD r d by (subst unat_ring_index) simp_all
  then have w': "unat (mWriteIndex lb') = (?i + (?t + length ?d)) mod ?s"
    using w by (simp add: lb'_def mod_add_left_eq add.assoc)
  then have ok': "ring_ok lb'" using ok okD(3) len by (simp add: ring_ok_def word_less_nat_alt) (simp add: lb'_def)
  have "ring_get ring (?i + ?t) (length ?d) = ?d"
    using ring w len by (metis ring_written_def ring_get_mod)
  moreover have "ring_get ring ?i ?t = log_bytes rs"
  proof -
    have eq: "ring_get ring (?w + length ?d) (?s - length ?d) = ring_get (mRing lb) (?w + length ?d) (?s - length ?d)"
      using ring okD(1) by (simp add: ring_written_def)
    have "ring_get xs ?i ?t = drop (?s - length ?d - ?t) (ring_get xs (?w + length ?d) (?s - length ?d))"
      if "length xs = ?s" for xs :: bytes
    proof -
      have "drop (?s - length ?d - ?t) (ring_get xs (?w + length ?d) (?s - length ?d)) = ring_get xs (?w + (?s - ?t)) ?t"
        using fits by (subst ring_get_drop) simp_all
      also have "\<dots> = ring_get xs ((?w + (?s - ?t)) mod ?s) ?t" using ring_get_mod[of xs "?w + (?s - ?t)"] that by simp
      also have "(?w + (?s - ?t)) mod ?s = ?i"
        unfolding w using t okD by (intro ring_back) simp_all
      finally show ?thesis ..
    qed
    from this[OF len] this[OF okD(1)] show ?thesis using eq c by simp
  qed
  ultimately have c': "ring_get (mRing lb') ?i (?t + length ?d) = log_bytes (rs @ [r])"
    by (simp add: ring_get_add lb'_def)
  have "log_rep lb' (if length (log_bytes (rs @ [r])) = ?s then [] else rs @ [r])"
    using ok' w' c' rs r fits okD by (auto simp: log_rep_def lb'_def)
  then show ?thesis using wr by (intro exI[of _ lb']) (simp add: lb'_def)
qed

section \<open>The operations refine the queue\<close>

text \<open>The calls of clients, what they return, and the specification: the waiting promise and the records, oldest first.\<close>

datatype log_call = Put log_record | Get nat | Reset

datatype log_outcome = Accepted bool completions | Got log_promise | Cleared completions

definition log_perform :: "log_call \<Rightarrow> log_buffer \<Rightarrow> (log_outcome \<times> log_buffer) result option" where
  "log_perform c lb =
     (case c of
        Put r \<Rightarrow> map_option (map_sum id (\<lambda>(b, calls, lb'). (Accepted b calls, lb')))
          (LogBuffer_put (mTimestamp r) (mThreadId r) (mPriority r) (Some (mTag r)) (Some (mMessage r)) lb)
      | Get fresh \<Rightarrow> Some (map_sum id (\<lambda>(p, lb'). (Got p, lb')) (LogBuffer_get fresh lb))
      | Reset \<Rightarrow> Some (Inr (case LogBuffer_reset lb of (calls, lb') \<Rightarrow> (Cleared calls, lb'))))"

definition log_spec ::
  "nat \<Rightarrow> log_call \<Rightarrow> nat option \<times> log_record list \<Rightarrow> log_outcome \<times> nat option \<times> log_record list" where
  "log_spec cap c = (\<lambda>(waiter, rs).
     (case c of
        Put r \<Rightarrow>
          if length (record_frame r) > cap then (Accepted False [], waiter, rs)
          else (case waiter of
                  Some p \<Rightarrow> (Accepted True [(p, Some r)], None, rs)
                | None \<Rightarrow> (Accepted True [], None, log_add cap (stored r) rs))
      | Get fresh \<Rightarrow>
          (case waiter of
             Some p \<Rightarrow> (Got (Waiting p), waiter, rs)
           | None \<Rightarrow> (case rs of [] \<Rightarrow> (Got (Waiting fresh), Some fresh, []) | r # rs' \<Rightarrow> (Got (Completed r), None, rs')))
      | Reset \<Rightarrow> (Cleared (case waiter of None \<Rightarrow> [] | Some p \<Rightarrow> [(p, None)]), None, [])))"

definition log_state :: "nat \<Rightarrow> nat option \<times> log_record list \<Rightarrow> log_buffer \<Rightarrow> bool" where
  "log_state cap = (\<lambda>(waiter, rs) lb. log_rep lb rs \<and> unat (mSize lb) = cap \<and> mPromise lb = waiter)"

primrec log_ok :: "log_call \<Rightarrow> bool" where
  "log_ok (Put r) \<longleftrightarrow> length (record_frame r) < 2 ^ 30"
| "log_ok (Get fresh) \<longleftrightarrow> True"
| "log_ok Reset \<longleftrightarrow> True"

lemma log_rep_update [simp]: "log_rep (lb\<lparr>mPromise := p\<rparr>) rs = log_rep lb rs"
  by (simp add: log_rep_def ring_ok_def)

lemma log_rep_new: "0 < n \<Longrightarrow> n < 2 ^ 31 \<Longrightarrow> log_rep (LogBuffer_new (of_nat n)) []"
  by (simp add: log_rep_def ring_ok_def LogBuffer_new_def ByteArray_new_def unat_of_nat take_bit_nat_eq_self word_less_nat_alt)

lemma isEmpty_iff: "log_rep lb rs \<Longrightarrow> LogBuffer_isEmpty lb \<longleftrightarrow> rs = []"
proof
  assume rep: "log_rep lb rs" and "LogBuffer_isEmpty lb"
  then have eq: "unat (mReadIndex lb) = (unat (mReadIndex lb) + length (log_bytes rs)) mod unat (mSize lb)"
    and t: "length (log_bytes rs) < unat (mSize lb)" and i: "unat (mReadIndex lb) < unat (mSize lb)"
    by (auto simp: LogBuffer_isEmpty_def log_rep_def ring_ok_def word_less_nat_alt)
  have "length (log_bytes rs) = 0" using eq mod_once[OF i t] t i by (simp split: if_splits)
  then show "rs = []" by (cases rs) (simp_all add: record_frame_def)
next
  assume rep: "log_rep lb rs" and "rs = []"
  then show "LogBuffer_isEmpty lb"
    using ring_okD[of lb] by (simp add: LogBuffer_isEmpty_def log_rep_def word_unat_eq_iff)
qed

lemma log_put_refines:
  assumes "log_state cap (waiter, rs) lb" and r: "length (record_frame r) < 2 ^ 30"
  shows "\<exists>lb'. log_perform (Put r) lb = Some (Inr (fst (log_spec cap (Put r) (waiter, rs)), lb')) \<and>
    log_state cap (snd (log_spec cap (Put r) (waiter, rs))) lb'"
proof -
  have rep: "log_rep lb rs" and cap: "unat (mSize lb) = cap" and p: "mPromise lb = waiter"
    using assms(1) by (simp_all add: log_state_def)
  have len: "length (String_getBytes (mTag r)) + length (String_getBytes (mMessage r)) < 2 ^ 30"
    using r by (simp add: length_record_frame)
  have refuse: "ucast (record_size (String_getBytes (mTag r)) (String_getBytes (mMessage r)) + 4) > mSize lb \<longleftrightarrow>
      length (record_frame r) > cap"
    using unat_record_size(2)[OF len] cap by (simp add: word_less_nat_alt length_record_frame)
  note put = LogBuffer_put_def Let_def log_perform_def encode_record_eq[OF r]
  show ?thesis
  proof (cases "length (record_frame r) > cap")
    case True
    then show ?thesis using assms(1) refuse by (simp add: put log_spec_def)
  next
    case False
    show ?thesis
    proof (cases waiter)
      case (Some q)
      then show ?thesis using False assms(1) refuse p by (simp add: put log_spec_def log_state_def)
    next
      case None
      have size: "unat (ByteArray_size (record_frame r)) = length (record_frame r)" using r by (intro of_nat_size) simp
      obtain m where m: "make_room (ByteArray_size (record_frame r)) (LogBuffer_remainingCapacity lb) lb = Some (Inr m)"
        "log_rep m (drop_oldest cap (length (record_frame r)) rs)" "m = lb\<lparr>mReadIndex := mReadIndex m\<rparr>"
        using make_room_eq[OF rep _ remainingCapacity_eq[OF rep], of "ByteArray_size (record_frame r)"] False cap size by auto
      then have same: "mSize m = mSize lb" "mPromise m = mPromise lb"
        by (metis log_buffer.select_convs(1,5) log_buffer.surjective log_buffer.update_convs(3))+
      obtain lb' where "write_ring (record_frame r) m = Inr lb'" "mSize lb' = mSize m" "mPromise lb' = mPromise m"
        "log_rep lb' (log_add cap (stored r) rs)"
        using write_ring_rep[OF m(2), of "stored r"] drop_oldest_fits[of "length (record_frame r)" cap rs] same cap r False
        by (auto simp: log_add_def Let_def)
      then show ?thesis
        using None False assms(1) refuse p m(1) same
        by (simp add: put log_spec_def log_state_def LogBuffer_writeByteArray_def)
    qed
  qed
qed

lemma log_get_refines:
  assumes "log_state cap (waiter, rs) lb"
  shows "\<exists>lb'. log_perform (Get fresh) lb = Some (Inr (fst (log_spec cap (Get fresh) (waiter, rs)), lb')) \<and>
    log_state cap (snd (log_spec cap (Get fresh) (waiter, rs))) lb'"
proof -
  have rep: "log_rep lb rs" and cap: "unat (mSize lb) = cap" and p: "mPromise lb = waiter"
    using assms(1) by (simp_all add: log_state_def)
  show ?thesis
  proof (cases waiter)
    case (Some q)
    then show ?thesis using assms p by (simp add: log_perform_def LogBuffer_get_def log_spec_def)
  next
    case None
    show ?thesis
    proof (cases rs)
      case Nil
      then show ?thesis using None assms p isEmpty_iff[OF rep]
        by (simp add: log_perform_def LogBuffer_get_def log_spec_def log_state_def)
    next
      case (Cons r rs')
      note pop = log_rep_pop[OF rep[unfolded Cons]]
      have r: "length (record_frame r) < 2 ^ 30" "stored r = r" using rep Cons by (simp_all add: log_rep_def)
      show ?thesis using None Cons p isEmpty_iff[OF rep] pop cap decode_record_eq[OF r(1)] r(2)
        by (simp add: log_perform_def LogBuffer_get_def log_spec_def log_state_def)
    qed
  qed
qed

lemma log_reset_refines:
  assumes "log_state cap (waiter, rs) lb"
  shows "\<exists>lb'. log_perform Reset lb = Some (Inr (fst (log_spec cap Reset (waiter, rs)), lb')) \<and>
    log_state cap (snd (log_spec cap Reset (waiter, rs))) lb'"
  using assms
  by (cases waiter) (auto simp: log_perform_def LogBuffer_reset_def log_spec_def log_state_def Let_def log_rep_def ring_ok_def word_less_nat_alt)

lemma log_perform_PutD:
  assumes "log_perform (Put r) lb = Some (Inr (Accepted b calls, lb'))"
  shows "LogBuffer_put (mTimestamp r) (mThreadId r) (mPriority r) (Some (mTag r)) (Some (mMessage r)) lb = Some (Inr (b, calls, lb'))"
proof -
  obtain z where z: "LogBuffer_put (mTimestamp r) (mThreadId r) (mPriority r) (Some (mTag r)) (Some (mMessage r)) lb = Some z"
    using assms by (auto simp: log_perform_def)
  then show ?thesis using assms by (cases z) (auto simp: log_perform_def)
qed

lemma log_perform_refines:
  assumes "log_state cap st lb" and "log_ok c"
  shows "\<exists>lb'. log_perform c lb = Some (Inr (fst (log_spec cap c st), lb')) \<and> log_state cap (snd (log_spec cap c st)) lb'"
  using assms log_put_refines log_get_refines log_reset_refines by (cases st; cases c) auto

text \<open>A sequence of calls, and what the queue says that they return.\<close>

primrec log_run :: "log_call list \<Rightarrow> log_buffer \<Rightarrow> (log_outcome list \<times> log_buffer) result option" where
  "log_run [] lb = Some (Inr ([], lb))"
| "log_run (c # cs) lb =
     (case log_perform c lb of
        None \<Rightarrow> None
      | Some (Inl e) \<Rightarrow> Some (Inl e)
      | Some (Inr (out, lb')) \<Rightarrow> map_option (map_sum id (\<lambda>(outs, lb''). (out # outs, lb''))) (log_run cs lb'))"

primrec log_spec_run ::
  "nat \<Rightarrow> log_call list \<Rightarrow> nat option \<times> log_record list \<Rightarrow> log_outcome list \<times> nat option \<times> log_record list" where
  "log_spec_run cap [] st = ([], st)"
| "log_spec_run cap (c # cs) st =
     (case log_spec cap c st of (out, st') \<Rightarrow> case log_spec_run cap cs st' of (outs, st'') \<Rightarrow> (out # outs, st''))"

lemma log_run_refines:
  assumes "log_state cap st lb" and "\<forall>c \<in> set cs. log_ok c"
  shows "\<exists>lb'. log_run cs lb = Some (Inr (fst (log_spec_run cap cs st), lb')) \<and> log_state cap (snd (log_spec_run cap cs st)) lb'"
  using assms
proof (induction cs arbitrary: st lb)
  case (Cons c cs)
  obtain lb1 where 1: "log_perform c lb = Some (Inr (fst (log_spec cap c st), lb1))" "log_state cap (snd (log_spec cap c st)) lb1"
    using log_perform_refines[OF Cons.prems(1), of c] Cons.prems(2) by auto
  then show ?case using Cons.IH[OF 1(2)] Cons.prems(2) by (auto simp: case_prod_beta)
qed simp

lemma log_state_new: "0 < n \<Longrightarrow> n < 2 ^ 31 \<Longrightarrow> log_state n (None, []) (LogBuffer_new (of_nat n))"
  using log_rep_new[of n] by (simp add: log_state_def LogBuffer_new_def unat_of_nat take_bit_nat_eq_self)

lemma log_spec_puts:
  assumes "\<forall>r \<in> set rs. length (record_frame r) \<le> cap"
  shows "snd (log_spec_run cap (map Put rs) (None, qs)) = (None, fold (log_add cap) (map stored rs) qs)"
  using assms by (induction rs arbitrary: qs) (simp_all add: log_spec_def case_prod_beta)

lemma log_add_suffix: "\<exists>k. log_add cap r qs = drop k (qs @ [r])"
proof -
  obtain k where k: "drop_oldest cap (length (record_frame r)) qs = drop k qs" using drop_oldest_suffix by blast
  then have "log_add cap r qs = drop (if length (log_bytes (drop k qs @ [r])) = cap then Suc (length qs) else min k (length qs)) (qs @ [r])"
    by (auto simp: log_add_def Let_def min_def)
  then show ?thesis ..
qed

lemma fold_log_add_suffix: "\<exists>k. fold (log_add cap) rs qs = drop k (qs @ rs)"
proof (induction rs arbitrary: qs)
  case (Cons r rs)
  obtain k where k: "log_add cap r qs = drop k (qs @ [r])" using log_add_suffix by blast
  obtain l where "fold (log_add cap) rs (drop k (qs @ [r])) = drop l (drop k (qs @ [r]) @ rs)" using Cons.IH by blast
  moreover have "drop k (qs @ [r]) @ rs = drop (min k (length (qs @ [r]))) (qs @ r # rs)"
    by (cases "k \<le> length qs") (auto simp: min_def le_Suc_eq)
  ultimately show ?case using k by (metis drop_drop fold_simps(2))
qed (auto intro: exI[of _ 0])

section \<open>Properties\<close>


definition example_record :: "uint8 \<Rightarrow> log_record" where
  "example_record c = \<lparr>mTimestamp = 1, mThreadId = 2, mPriority = 3, mTag = Some [65], mMessage = Some [c, 66, 67]\<rparr>"

lemma length_example_record [simp]: "length (record_frame (example_record c)) = 36"
  by (simp add: length_record_frame example_record_def String_getBytes_def)

lemma stored_example_record [simp]: "stored (example_record c) = example_record c"
  by (simp add: stored_def example_record_def String_getBytes_def)


text \<open>
  A record that fills the ring exactly empties it. When a buffer holds records and a new one fits without dropping any, but
  leaves no free byte, \<open>put\<close> returns true, and then the buffer is empty: the new record and all others are lost, and
  the next \<open>get\<close> waits.
\<close>

theorem LogBuffer_full_ring_loses_records:
  assumes "log_rep lb rs" and "mPromise lb = None" and "length (record_frame r) < 2 ^ 30"
    and "length (log_bytes rs) + length (record_frame r) = unat (mSize lb)"
  shows "\<exists>lb' lb''. LogBuffer_put (mTimestamp r) (mThreadId r) (mPriority r) (Some (mTag r)) (Some (mMessage r)) lb = Some (Inr (True, [], lb')) \<and>
    LogBuffer_isEmpty lb' \<and> LogBuffer_get fresh lb' = Inr (Waiting fresh, lb'')"
proof -
  let ?cap = "unat (mSize lb)"
  have st: "log_state ?cap (None, rs) lb" using assms(1,2) by (simp add: log_state_def)
  have "drop_oldest ?cap (length (record_frame r)) rs = rs" using assms(4) by (cases rs) simp_all
  then have "log_spec ?cap (Put r) (None, rs) = (Accepted True [], None, [])"
    using assms(4) by (simp add: log_spec_def log_add_def)
  then obtain lb' where "LogBuffer_put (mTimestamp r) (mThreadId r) (mPriority r) (Some (mTag r)) (Some (mMessage r)) lb = Some (Inr (True, [], lb'))"
    and st': "log_state ?cap (None, []) lb'"
    using log_put_refines[OF st assms(3)] log_perform_PutD by fastforce
  moreover have "LogBuffer_isEmpty lb'" using st' isEmpty_iff by (auto simp: log_state_def)
  ultimately show ?thesis using st' by (simp add: LogBuffer_get_def log_state_def)
qed

theorem LogBuffer_full_ring_loses_records_witness:
  "\<exists>lb outs. log_run [Put (example_record 1)] (LogBuffer_new 72) = Some (Inr (outs, lb)) \<and> log_rep lb [example_record 1] \<and>
    (\<exists>lb' lb''. LogBuffer_put 1 2 3 (Some (Some [65])) (Some (Some [2, 66, 67])) lb = Some (Inr (True, [], lb')) \<and>
      LogBuffer_isEmpty lb' \<and> LogBuffer_get 5 lb' = Inr (Waiting 5, lb''))"
proof -
  obtain lb where run: "log_run [Put (example_record 1)] (LogBuffer_new (of_nat 72)) = Some (Inr ([Accepted True []], lb))"
    and st: "log_state 72 (None, [example_record 1]) lb"
    using log_run_refines[OF log_state_new[of 72], of "[Put (example_record 1)]"]
    by (auto simp: log_spec_def log_add_def)
  then have "log_rep lb [example_record 1]" "mPromise lb = None" "unat (mSize lb) = 72" by (simp_all add: log_state_def)
  then obtain lb' lb'' where "LogBuffer_put 1 2 3 (Some (Some [65])) (Some (Some [2, 66, 67])) lb = Some (Inr (True, [], lb'))"
    "LogBuffer_isEmpty lb'" "LogBuffer_get 5 lb' = Inr (Waiting 5, lb'')"
    using LogBuffer_full_ring_loses_records[of lb "[example_record 1]" "example_record 2" 5]
    by (auto simp: example_record_def length_record_frame String_getBytes_def)
  moreover have "log_run [Put (example_record 1)] (LogBuffer_new 72) = Some (Inr ([Accepted True []], lb))" using run by simp
  ultimately show ?thesis using \<open>log_rep lb [example_record 1]\<close> by blast
qed

end
