(* ===== verification/Blocking_Queues.thy ===== *)
theory Blocking_Queues
  imports Prelude
begin

text \<open>
  The blocking queue (\<open>src/mindroid/util/concurrent/LinkedBlockingQueue.h\<close>): a singly linked list of nodes in a store.
  A node that was deleted is no longer in the store, so that a theorem which rules out \<open>Undefined\<close> rules out
  null pointers and uses after a deletion. The lock makes every operation atomic; \<open>take\<close> on an empty queue
  waits, which is an outcome of the operation, and is tried again after a signal.
\<close>

section \<open>Operations\<close>

record 'a queue_node =
  item :: 'a
  nextNode :: "nat option"

record 'a blocking_queue =
  nodes :: "nat \<Rightarrow> 'a queue_node option"
  mHeadNode :: "nat option"
  mFresh :: nat
  mSignalled :: nat

definition LinkedBlockingQueue_new :: "'a blocking_queue" where
  "LinkedBlockingQueue_new = \<lparr>nodes = Map.empty, mHeadNode = None, mFresh = 0, mSignalled = 0\<rparr>"

definition node_at :: "'a blocking_queue \<Rightarrow> nat \<Rightarrow> 'a queue_node result" where
  "node_at q a = deref (nodes q a)"

definition set_next :: "nat \<Rightarrow> nat option \<Rightarrow> 'a blocking_queue \<Rightarrow> 'a blocking_queue result" where
  "set_next a n q = bind_result (node_at q a) (\<lambda>x. Inr (q\<lparr>nodes := (nodes q)(a \<mapsto> x\<lparr>nextNode := n\<rparr>)\<rparr>))"

definition delete_node :: "nat \<Rightarrow> 'a blocking_queue \<Rightarrow> 'a blocking_queue" where
  "delete_node a q = q\<lparr>nodes := (nodes q)(a := None)\<rparr>"

text \<open>\<open>put\<close> walks to the last node.\<close>

partial_function (option) last_node :: "nat option \<Rightarrow> nat option \<Rightarrow> 'a blocking_queue \<Rightarrow> nat option result option" where
  "last_node prevNode curNode q =
     (case curNode of
        None \<Rightarrow> Some (Inr prevNode)
      | Some c \<Rightarrow> (case node_at q c of Inl e \<Rightarrow> Some (Inl e) | Inr x \<Rightarrow> last_node (Some c) (nextNode x) q))"

declare last_node.simps [code]

definition LinkedBlockingQueue_put :: "'a \<Rightarrow> 'a blocking_queue \<Rightarrow> (bool \<times> 'a blocking_queue) result option" where
  "LinkedBlockingQueue_put x q =
     (let n = mFresh q;
          q1 = q\<lparr>nodes := (nodes q)(n \<mapsto> \<lparr>item = x, nextNode = None\<rparr>), mFresh := n + 1\<rparr>
      in case mHeadNode q1 of
           None \<Rightarrow> Some (bind_result (set_next n None q1) (\<lambda>q2.
             Inr (True, q2\<lparr>mHeadNode := Some n, mSignalled := mSignalled q2 + 1\<rparr>)))
         | Some c \<Rightarrow>
             map_option (\<lambda>r. bind_result r (\<lambda>prevNode. bind_result (deref prevNode) (\<lambda>p.
               bind_result (node_at q1 p) (\<lambda>y. bind_result (set_next n (nextNode y) q1) (\<lambda>q2.
               bind_result (set_next p (Some n) q2) (\<lambda>q3. Inr (True, q3\<lparr>mSignalled := mSignalled q3 + 1\<rparr>)))))))
               (last_node None (Some c) q1))"

definition getNextNode :: "'a blocking_queue \<Rightarrow> (nat option \<times> 'a blocking_queue) result" where
  "getNextNode q =
     (case mHeadNode q of
        None \<Rightarrow> Inr (None, q)
      | Some n \<Rightarrow> bind_result (node_at q n) (\<lambda>x. Inr (Some n, q\<lparr>mHeadNode := nextNode x\<rparr>)))"

text \<open>A turn of the loop of \<open>take\<close>; \<open>None\<close> is that the thread waits for the condition.\<close>

definition LinkedBlockingQueue_take :: "'a blocking_queue \<Rightarrow> ('a option \<times> 'a blocking_queue) result" where
  "LinkedBlockingQueue_take q =
     bind_result (getNextNode q) (\<lambda>(node, q1).
       case node of
         None \<Rightarrow> Inr (None, q1)
       | Some n \<Rightarrow> bind_result (node_at q1 n) (\<lambda>x. Inr (Some (item x), delete_node n q1)))"

text \<open>\<open>remove\<close>: the loop at the front, and the loop behind a node that stays.\<close>

partial_function (option) remove_at_front ::
  "'a \<Rightarrow> bool \<Rightarrow> nat option \<Rightarrow> 'a blocking_queue \<Rightarrow> (bool \<times> nat option \<times> 'a blocking_queue) result option" where
  "remove_at_front x foundItem curNode q =
     (case curNode of
        None \<Rightarrow> Some (Inr (foundItem, None, q))
      | Some c \<Rightarrow>
          (case node_at q c of
             Inl e \<Rightarrow> Some (Inl e)
           | Inr y \<Rightarrow>
               if item y = x then remove_at_front x True (nextNode y) (delete_node c (q\<lparr>mHeadNode := nextNode y\<rparr>))
               else Some (Inr (foundItem, Some c, q))))"

declare remove_at_front.simps [code]

partial_function (option) remove_behind ::
  "'a \<Rightarrow> bool \<Rightarrow> nat option \<Rightarrow> 'a blocking_queue \<Rightarrow> (bool \<times> 'a blocking_queue) result option" where
  "remove_behind x foundItem curNode q =
     (case curNode of
        None \<Rightarrow> Some (Inr (foundItem, q))
      | Some c \<Rightarrow>
          (case node_at q c of
             Inl e \<Rightarrow> Some (Inl e)
           | Inr y \<Rightarrow>
               (case nextNode y of
                  None \<Rightarrow> remove_behind x foundItem None q
                | Some n \<Rightarrow>
                    (case node_at q n of
                       Inl e \<Rightarrow> Some (Inl e)
                     | Inr z \<Rightarrow>
                         if item z = x
                         then (case set_next c (nextNode z) (delete_node n q) of
                                 Inl e \<Rightarrow> Some (Inl e)
                               | Inr q' \<Rightarrow> remove_behind x True (Some c) q')
                         else remove_behind x foundItem (Some n) q))))"

declare remove_behind.simps [code]

definition LinkedBlockingQueue_remove :: "'a \<Rightarrow> 'a blocking_queue \<Rightarrow> (bool \<times> 'a blocking_queue) result option" where
  "LinkedBlockingQueue_remove x q =
     (case remove_at_front x False (mHeadNode q) q of
        None \<Rightarrow> None
      | Some (Inl e) \<Rightarrow> Some (Inl e)
      | Some (Inr (foundItem, curNode, q1)) \<Rightarrow> remove_behind x foundItem curNode q1)"

section \<open>The list of items\<close>

text \<open>The nodes \<open>as\<close> lead from the pointer \<open>p\<close> to the pointer \<open>e\<close> and hold the items \<open>xs\<close>.\<close>

fun seg :: "(nat \<Rightarrow> 'a queue_node option) \<Rightarrow> nat option \<Rightarrow> nat list \<Rightarrow> nat option \<Rightarrow> 'a list \<Rightarrow> bool" where
  "seg ns p [] e xs \<longleftrightarrow> p = e \<and> xs = []"
| "seg ns p (a # as) e xs \<longleftrightarrow> p = Some a \<and> (\<exists>y ys. xs = item y # ys \<and> ns a = Some y \<and> seg ns (nextNode y) as e ys)"

definition queue_rep :: "'a blocking_queue \<Rightarrow> nat list \<Rightarrow> 'a list \<Rightarrow> bool" where
  "queue_rep q as xs \<longleftrightarrow> seg (nodes q) (mHeadNode q) as None xs \<and> distinct as \<and> set as = dom (nodes q) \<and> (\<forall>a \<in> dom (nodes q). a < mFresh q)"

text \<open>The queue holds the items \<open>xs\<close>, and there is no other node: none is lost, and none is used after its deletion.\<close>

definition holds :: "'a blocking_queue \<Rightarrow> 'a list \<Rightarrow> bool" where
  "holds q xs \<longleftrightarrow> (\<exists>as. queue_rep q as xs)"

lemma seg_cong: "seg ns p as e xs \<Longrightarrow> (\<And>a. a \<in> set as \<Longrightarrow> ms a = ns a) \<Longrightarrow> seg ms p as e xs"
  by (induction as arbitrary: p xs) fastforce+

lemma seg_append: "seg ns p (as @ bs) e zs \<longleftrightarrow> (\<exists>m xs ys. zs = xs @ ys \<and> seg ns p as m xs \<and> seg ns m bs e ys)"
proof (induction as arbitrary: p zs)
  case (Cons a as)
  show ?case by (auto simp: Cons.IH) (metis append_Cons)+
qed simp

lemma seg_split:
  "length pre = length xs \<Longrightarrow> seg ns p (pre @ a # as) e (xs @ y # ys) \<Longrightarrow>
     \<exists>n. ns a = Some n \<and> item n = y \<and> seg ns p pre (Some a) xs \<and> seg ns (nextNode n) as e ys"
proof (induction pre xs arbitrary: p rule: list_induct2)
  case (Cons b bs x xs)
  from Cons.prems obtain m where m: "p = Some b" "ns b = Some m" "item m = x" "seg ns (nextNode m) (bs @ a # as) e (xs @ y # ys)"
    by auto
  from Cons.IH[OF m(4)] m(1-3) show ?case by auto
qed auto

lemma seg_length: "seg ns p as e xs \<Longrightarrow> length as = length xs"
  by (induction as arbitrary: p xs) auto

lemma last_node_eq: "seg (nodes q) p as None xs \<Longrightarrow> last_node prev p q = Some (Inr (last_or prev as))"
proof (induction as arbitrary: p prev xs)
  case (Cons a as)
  then show ?case by (auto simp: last_node.simps[of prev] node_at_def)
qed (simp add: last_node.simps)

lemma seg_snoc:
  assumes "seg ns p (as @ [a]) None xs" and "n \<notin> set (as @ [a])" and "a \<notin> set as" and "ns a = Some y"
  shows "seg (ns(n \<mapsto> \<lparr>item = x, nextNode = None\<rparr>, a \<mapsto> y\<lparr>nextNode := Some n\<rparr>)) p (as @ [a, n]) None (xs @ [x])"
proof -
  obtain xs1 where xs1: "seg ns p as (Some a) xs1" "xs = xs1 @ [item y]" using assms(1,4) by (auto simp: seg_append)
  have "seg (ns(n \<mapsto> \<lparr>item = x, nextNode = None\<rparr>, a \<mapsto> y\<lparr>nextNode := Some n\<rparr>)) p as (Some a) xs1"
    using xs1(1) assms(2,3) by (elim seg_cong) auto
  then show ?thesis using xs1(2) assms(2) by (auto simp: seg_append)
qed

lemma put_rep:
  assumes "holds q xs"
  shows "\<exists>q'. LinkedBlockingQueue_put x q = Some (Inr (True, q')) \<and> holds q' (xs @ [x]) \<and> mSignalled q' = mSignalled q + 1"
proof -
  obtain as where as: "seg (nodes q) (mHeadNode q) as None xs" "distinct as" "set as = dom (nodes q)" "\<forall>a \<in> dom (nodes q). a < mFresh q"
    using assms by (auto simp: holds_def queue_rep_def)
  have fresh: "mFresh q \<notin> set as" using as(3,4) by auto
  show ?thesis
  proof (cases as rule: rev_cases)
    case Nil
    then show ?thesis using as
      by (auto simp: LinkedBlockingQueue_put_def Let_def set_next_def node_at_def holds_def queue_rep_def intro!: exI[of _ "[mFresh q]"])
  next
    case (snoc bs a)
    let ?n = "mFresh q"
    obtain y where y: "nodes q a = Some y" "nextNode y = None" using as(1) snoc by (auto simp: seg_append)
    obtain h where h: "mHeadNode q = Some h" using as(1) snoc by (cases bs) auto
    let ?q1 = "q\<lparr>nodes := (nodes q)(?n \<mapsto> \<lparr>item = x, nextNode = None\<rparr>), mFresh := ?n + 1\<rparr>"
    let ?ns = "(nodes q)(?n \<mapsto> \<lparr>item = x, nextNode = None\<rparr>, a \<mapsto> y\<lparr>nextNode := Some ?n\<rparr>)"
    have "seg (nodes ?q1) (Some h) as None xs" using as(1) h fresh by (auto elim!: seg_cong)
    then have "last_node None (Some h) ?q1 = Some (Inr (Some a))" by (simp add: last_node_eq snoc)
    moreover have an: "a \<noteq> ?n" using fresh snoc by auto
    ultimately have "LinkedBlockingQueue_put x q = Some (Inr (True, ?q1\<lparr>nodes := ?ns, mSignalled := mSignalled q + 1\<rparr>))"
      using h y by (simp add: LinkedBlockingQueue_put_def Let_def set_next_def node_at_def fun_upd_idem)
    moreover have rep: "queue_rep (?q1\<lparr>nodes := ?ns, mSignalled := mSignalled q + 1\<rparr>) (bs @ [a, ?n]) (xs @ [x])"
    proof -
    have "seg ?ns (mHeadNode q) (bs @ [a, ?n]) None (xs @ [x])"
      using as snoc fresh y(1) by (intro seg_snoc) auto
    moreover have "\<forall>c \<in> dom ?ns. c < Suc ?n" using as(3,4) snoc by (auto simp: dom_def less_Suc_eq)
    moreover have "set (bs @ [a, ?n]) = dom ?ns" "distinct (bs @ [a, ?n])" using as(2,3) snoc fresh by auto
    ultimately show ?thesis by (simp add: queue_rep_def)
    qed
    ultimately show ?thesis by (auto simp: holds_def)
  qed
qed

lemma take_rep:
  assumes "holds q xs"
  shows "\<exists>q'. LinkedBlockingQueue_take q = Inr (case xs of [] \<Rightarrow> None | x # _ \<Rightarrow> Some x, q') \<and> holds q' (tl xs)"
proof -
  obtain as where as: "seg (nodes q) (mHeadNode q) as None xs" "distinct as" "set as = dom (nodes q)" "\<forall>a \<in> dom (nodes q). a < mFresh q"
    using assms by (auto simp: holds_def queue_rep_def)
  show ?thesis
  proof (cases as)
    case Nil
    then show ?thesis using as(1) assms by (auto simp: LinkedBlockingQueue_take_def getNextNode_def)
  next
    case (Cons a bs)
    then obtain y ys where y: "mHeadNode q = Some a" "xs = item y # ys" "nodes q a = Some y" "seg (nodes q) (nextNode y) bs None ys"
      using as(1) by auto
    let ?q = "delete_node a (q\<lparr>mHeadNode := nextNode y\<rparr>)"
    have "seg (nodes ?q) (nextNode y) bs None ys" using y(4) as(2) Cons by (elim seg_cong) (auto simp: delete_node_def)
    then have "queue_rep ?q bs ys" using as Cons by (auto simp: queue_rep_def delete_node_def)
    then show ?thesis using y(1-3)
      by (intro exI[of _ ?q]) (auto simp: LinkedBlockingQueue_take_def getNextNode_def node_at_def holds_def)
  qed
qed

lemma remove_at_front_rep:
  assumes "queue_rep q as xs"
  shows "\<exists>q' as'. remove_at_front x f (mHeadNode q) q = Some (Inr (f \<or> (xs \<noteq> [] \<and> hd xs = x), mHeadNode q', q')) \<and>
    queue_rep q' as' (dropWhile (\<lambda>z. z = x) xs)"
  using assms
proof (induction as arbitrary: q f xs)
  case Nil
  then show ?case by (auto simp: queue_rep_def remove_at_front.simps intro!: exI[of _ q] exI[of _ "[]"])
next
  case (Cons a as)
  then obtain y ys where y: "mHeadNode q = Some a" "xs = item y # ys" "nodes q a = Some y" "seg (nodes q) (nextNode y) as None ys"
    by (auto simp: queue_rep_def)
  have d: "a \<notin> set as" "distinct as" "insert a (set as) = dom (nodes q)" "\<forall>b \<in> dom (nodes q). b < mFresh q"
    using Cons.prems by (simp_all add: queue_rep_def)
  show ?case
  proof (cases "item y = x")
    case True
    let ?q = "delete_node a (q\<lparr>mHeadNode := nextNode y\<rparr>)"
    have "seg (nodes ?q) (nextNode y) as None ys" using y(4) d(1) by (elim seg_cong) (auto simp: delete_node_def)
    then have "queue_rep ?q as ys" using d by (auto simp: queue_rep_def delete_node_def)
    from Cons.IH[OF this, of True] show ?thesis using True y(1-3)
      by (simp add: remove_at_front.simps[of x f "Some a"] node_at_def) (simp add: delete_node_def)
  next
    case False
    then show ?thesis using Cons.prems y(1-3)
      by (intro exI[of _ q] exI[of _ "a # as"]) (simp add: remove_at_front.simps node_at_def)
  qed
qed

lemma remove_behind_rep:
  assumes "queue_rep q (pre @ a # as) (xs @ y # ys)" and "length pre = length xs"
  shows "\<exists>q' as'. remove_behind x f (Some a) q = Some (Inr (f \<or> x \<in> set ys, q')) \<and> queue_rep q' as' (xs @ y # filter (\<lambda>z. z \<noteq> x) ys)"
  using assms
proof (induction as arbitrary: q pre a xs y ys f)
  case Nil
  then have "seg (nodes q) (mHeadNode q) (pre @ a # []) None (xs @ y # ys)" by (simp add: queue_rep_def)
  from seg_split[OF Nil.prems(2) this] obtain n where "nodes q a = Some n" "nextNode n = None" "ys = []" by auto
  then show ?case using Nil.prems by (auto simp: remove_behind.simps[of x f "Some a"] remove_behind.simps[of x _ None] node_at_def)
next
  case (Cons b as)
  have "seg (nodes q) (mHeadNode q) (pre @ a # b # as) None (xs @ y # ys)" using Cons.prems(1) by (simp add: queue_rep_def)
  from seg_split[OF Cons.prems(2) this] obtain n where n: "nodes q a = Some n" "item n = y" "nextNode n = Some b"
    and s1: "seg (nodes q) (mHeadNode q) pre (Some a) xs" and tail: "seg (nodes q) (nextNode n) (b # as) None ys" by auto
  from tail obtain m zs where m: "nodes q b = Some m" "ys = item m # zs" and s2: "seg (nodes q) (nextNode m) as None zs" by auto
  note s = s1 s2
  have d: "distinct (pre @ a # b # as)" "set (pre @ a # b # as) = dom (nodes q)" "\<forall>c \<in> dom (nodes q). c < mFresh q"
    using Cons.prems by (simp_all add: queue_rep_def)
  show ?case
  proof (cases "item m = x")
    case True
    let ?ns = "(nodes q)(b := None, a \<mapsto> n\<lparr>nextNode := nextNode m\<rparr>)"
    let ?q = "q\<lparr>nodes := ?ns\<rparr>"
    have "seg ?ns (mHeadNode q) pre (Some a) xs" "seg ?ns (nextNode m) as None zs"
      using s d(1) by (auto elim!: seg_cong)
    then have "queue_rep ?q (pre @ a # as) (xs @ y # zs)" using d n(2) by (auto simp: queue_rep_def seg_append)
    from Cons.IH[OF this Cons.prems(2), of True] show ?thesis using True n m d(1)
      by (simp add: remove_behind.simps[of x f "Some a"] node_at_def set_next_def delete_node_def)
  next
    case False
    have "queue_rep q ((pre @ [a]) @ b # as) ((xs @ [y]) @ item m # zs)" using Cons.prems m by simp
    from Cons.IH[OF this, of f] Cons.prems(2) show ?thesis using False n m
      by (simp add: remove_behind.simps[of x f "Some a"] node_at_def)
  qed
qed

lemma remove_rep:
  assumes "holds q xs"
  shows "\<exists>q'. LinkedBlockingQueue_remove x q = Some (Inr (x \<in> set xs, q')) \<and> holds q' (filter (\<lambda>z. z \<noteq> x) xs)"
proof -
  obtain as q1 bs where front: "remove_at_front x False (mHeadNode q) q = Some (Inr (xs \<noteq> [] \<and> hd xs = x, mHeadNode q1, q1))"
    and rep: "queue_rep q1 bs (dropWhile (\<lambda>z. z = x) xs)"
    using remove_at_front_rep[of q _ xs x False] assms unfolding holds_def by fastforce
  show ?thesis
  proof (cases bs)
    case Nil
    then have all: "dropWhile (\<lambda>z. z = x) xs = []" "mHeadNode q1 = None" using rep by (auto simp: queue_rep_def)
    from all(1) have same: "\<forall>z \<in> set xs. z = x" by (simp add: dropWhile_eq_Nil_conv)
    then have "filter (\<lambda>z. z \<noteq> x) xs = []" by (simp add: filter_empty_conv)
    moreover have "(xs \<noteq> [] \<and> hd xs = x) = (x \<in> set xs)" using same by (cases xs) auto
    moreover have "holds q1 []" using rep all(1) by (auto simp: holds_def)
    ultimately show ?thesis using front all(2)
      by (simp add: LinkedBlockingQueue_remove_def remove_behind.simps[of x _ None])
  next
    case (Cons a cs)
    then obtain y ys where y: "dropWhile (\<lambda>z. z = x) xs = y # ys" "mHeadNode q1 = Some a" using rep by (auto simp: queue_rep_def)
    have yx: "y \<noteq> x" using y(1) by (metis (mono_tags, lifting) dropWhile_eq_Cons_conv)
    have xs: "filter (\<lambda>z. z \<noteq> x) xs = y # filter (\<lambda>z. z \<noteq> x) ys" "(x \<in> set xs) = (xs \<noteq> [] \<and> hd xs = x \<or> x \<in> set ys)"
    proof -
      have eq: "xs = takeWhile (\<lambda>z. z = x) xs @ y # ys" using y(1) by (metis takeWhile_dropWhile_id)
      have "filter (\<lambda>z. z \<noteq> x) (takeWhile (\<lambda>z. z = x) xs) = []" by (auto simp: filter_empty_conv dest: set_takeWhileD)
      then show "filter (\<lambda>z. z \<noteq> x) xs = y # filter (\<lambda>z. z \<noteq> x) ys" by (subst eq) (simp add: yx)
      show "(x \<in> set xs) = (xs \<noteq> [] \<and> hd xs = x \<or> x \<in> set ys)" using y(1) yx by (cases xs) (auto split: if_splits)
    qed
    obtain q' as' where "remove_behind x (xs \<noteq> [] \<and> hd xs = x) (Some a) q1 = Some (Inr (x \<in> set xs, q'))"
      "queue_rep q' as' (filter (\<lambda>z. z \<noteq> x) xs)"
      using remove_behind_rep[of q1 "[]" a cs "[]" y ys x "xs \<noteq> [] \<and> hd xs = x"] rep y Cons xs by auto
    then show ?thesis using front y(2) by (auto simp: LinkedBlockingQueue_remove_def holds_def)
  qed
qed

section \<open>The contract of a blocking queue\<close>

text \<open>Putting a list of items, and taking a number of items.\<close>

fun put_all :: "('a \<Rightarrow> 's \<Rightarrow> (bool \<times> 's) result option) \<Rightarrow> 'a list \<Rightarrow> 's \<Rightarrow> 's result option" where
  "put_all put [] q = Some (Inr q)"
| "put_all put (x # xs) q =
     (case put x q of None \<Rightarrow> None | Some (Inl e) \<Rightarrow> Some (Inl e) | Some (Inr (b, q')) \<Rightarrow> put_all put xs q')"

fun take_n :: "('s \<Rightarrow> ('a option \<times> 's) result) \<Rightarrow> nat \<Rightarrow> 's \<Rightarrow> ('a option list \<times> 's) result" where
  "take_n tak 0 q = Inr ([], q)"
| "take_n tak (Suc n) q = bind_result (tak q) (\<lambda>(x, q1). bind_result (take_n tak n q1) (\<lambda>(xs, q2). Inr (x # xs, q2)))"

text \<open>What the clients of a blocking queue rely on: the queue holds a list, and \<open>take\<close> waits exactly when it is empty.\<close>

locale fifo_queue =
  fixes contents :: "'s \<Rightarrow> 'a list \<Rightarrow> bool"
    and put :: "'a \<Rightarrow> 's \<Rightarrow> (bool \<times> 's) result option"
    and tak :: "'s \<Rightarrow> ('a option \<times> 's) result"
    and rem :: "'a \<Rightarrow> 's \<Rightarrow> (bool \<times> 's) result option"
  assumes put_law: "contents q xs \<Longrightarrow> \<exists>q'. put x q = Some (Inr (True, q')) \<and> contents q' (xs @ [x])"
    and take_law: "contents q xs \<Longrightarrow> \<exists>q'. tak q = Inr (case xs of [] \<Rightarrow> None | x # _ \<Rightarrow> Some x, q') \<and> contents q' (tl xs)"
    and remove_law: "contents q xs \<Longrightarrow> \<exists>q'. rem x q = Some (Inr (x \<in> set xs, q')) \<and> contents q' (filter (\<lambda>z. z \<noteq> x) xs)"
begin

lemma put_all_contents: "contents q xs \<Longrightarrow> \<exists>q'. put_all put ys q = Some (Inr q') \<and> contents q' (xs @ ys)"
proof (induction ys arbitrary: q xs)
  case (Cons y ys)
  obtain q1 where "put y q = Some (Inr (True, q1))" "contents q1 (xs @ [y])" using put_law[OF Cons.prems] by blast
  then show ?case using Cons.IH[of q1 "xs @ [y]"] by simp
qed simp

lemma take_n_contents: "contents q (xs @ ys) \<Longrightarrow> \<exists>q'. take_n tak (length xs) q = Inr (map Some xs, q') \<and> contents q' ys"
proof (induction xs arbitrary: q)
  case (Cons x xs)
  obtain q1 where q1: "tak q = Inr (Some x, q1)" "contents q1 (xs @ ys)" using take_law[OF Cons.prems] by auto
  from Cons.IH[OF q1(2)] q1(1) show ?case by auto
qed simp

lemma put_all_take_n:
  assumes "contents q xs"
  shows "\<exists>q1 q2. put_all put ys q = Some (Inr q1) \<and> take_n tak (length xs + length ys) q1 = Inr (map Some (xs @ ys), q2) \<and> contents q2 []"
proof -
  obtain q1 where "put_all put ys q = Some (Inr q1)" "contents q1 (xs @ ys)" using put_all_contents[OF assms] by blast
  then show ?thesis using take_n_contents[of q1 "xs @ ys" "[]"] by auto
qed

end

interpretation lbq: fifo_queue holds LinkedBlockingQueue_put LinkedBlockingQueue_take LinkedBlockingQueue_remove
proof
  show "\<exists>q'. LinkedBlockingQueue_put x q = Some (Inr (True, q')) \<and> holds q' (xs @ [x])"
    if "holds q xs" for q :: "'a blocking_queue" and xs x using put_rep[OF that] by blast
qed (rule take_rep remove_rep, assumption)+

lemma holds_new: "holds LinkedBlockingQueue_new []"
  by (auto simp: holds_def queue_rep_def LinkedBlockingQueue_new_def intro!: exI[of _ "[]"])

section \<open>Properties\<close>



end
