(* ===== verification/Thread_Pools.thy ===== *)
theory Thread_Pools
  imports Blocking_Queues "HOL-Library.Multiset" "HOL-Library.Sublist"
begin

text \<open>
  The thread pool (\<open>src/mindroid/util/concurrent/ThreadPoolExecutor.h\<close> and \<open>ThreadPoolExecutor.cpp\<close>): worker threads that take runnables out of
  a blocking queue, and the shutdown that interrupts and wakes them and waits for their end. A runnable
  is a reference, its \<open>run\<close> is code of the application that returns; a null reference makes a worker stop.
  The interleavings of clients, workers and the thread that shuts down are a step relation.
\<close>

section \<open>The pool and its operations\<close>

text \<open>Where a worker is: before the test of \<open>isInterrupted\<close>, in \<open>take\<close>, in the \<open>run\<close> of a runnable, or after its own \<open>run\<close>.\<close>

datatype worker = Checking | Taking | Running nat | Done

text \<open>
  Where the thread that shuts down is: before it, before \<open>interrupt\<close> and before \<open>put(nullptr)\<close> of a worker, in \<open>join\<close> of a worker, or after it.
\<close>

datatype shutdown = Not_called | Interrupting nat | Waking nat | Joining nat | Returned

text \<open>\<open>accepted\<close>, \<open>begun\<close> and \<open>cancelled\<close> record the history: the runnables that were passed to \<open>execute\<close>, started, and removed.\<close>

record thread_pool =
  mQueue :: "nat option blocking_queue"
  mWorkerThreads :: "worker list"
  mInterrupted :: "bool list"
  mShutdownAllowed :: bool
  progress :: shutdown
  accepted :: "nat list"
  begun :: "nat list"
  cancelled :: "nat list"

definition ThreadPoolExecutor_start :: "nat \<Rightarrow> bool \<Rightarrow> thread_pool" where
  "ThreadPoolExecutor_start n shutdownAllowed =
     \<lparr>mQueue = LinkedBlockingQueue_new, mWorkerThreads = replicate n Checking, mInterrupted = replicate n False,
      mShutdownAllowed = shutdownAllowed, progress = Not_called, accepted = [], begun = [], cancelled = []\<rparr>"

text \<open>A result of an operation on the queue, as the new state of the pool.\<close>

definition with_queue ::
  "('b \<times> nat option blocking_queue) result option \<Rightarrow> ('b \<Rightarrow> thread_pool \<Rightarrow> thread_pool) \<Rightarrow> thread_pool \<Rightarrow> thread_pool result option" where
  "with_queue r f tp = map_option (map_sum id (\<lambda>(b, q). f b (tp\<lparr>mQueue := q\<rparr>))) r"

lemma map_outcome_eq: "map_sum id f z = Inr y \<longleftrightarrow> (\<exists>x. z = Inr x \<and> y = f x)"
  by (cases z) auto

definition ThreadPoolExecutor_execute :: "nat option \<Rightarrow> thread_pool \<Rightarrow> thread_pool result option" where
  "ThreadPoolExecutor_execute runnable tp =
     with_queue (LinkedBlockingQueue_put runnable (mQueue tp))
       (\<lambda>_ tp. tp\<lparr>accepted := accepted tp @ (case runnable of None \<Rightarrow> [] | Some r \<Rightarrow> [r])\<rparr>) tp"

definition ThreadPoolExecutor_cancel :: "nat \<Rightarrow> thread_pool \<Rightarrow> thread_pool result option" where
  "ThreadPoolExecutor_cancel r tp =
     with_queue (LinkedBlockingQueue_remove (Some r) (mQueue tp))
       (\<lambda>found tp. if found then tp\<lparr>cancelled := cancelled tp @ [r]\<rparr> else tp) tp"

text \<open>A turn of the loop of \<open>WorkerThread::run\<close> in the worker \<open>i\<close>; \<open>None\<close> in \<open>take\<close> is that it waits.\<close>

definition WorkerThread_turn :: "nat \<Rightarrow> thread_pool \<Rightarrow> thread_pool result option" where
  "WorkerThread_turn i tp =
     (case mWorkerThreads tp ! i of
        Checking \<Rightarrow>
          Some (Inr (tp\<lparr>mWorkerThreads := (mWorkerThreads tp)[i := if \<not> mInterrupted tp ! i then Taking else Done]\<rparr>))
      | Taking \<Rightarrow>
          (case LinkedBlockingQueue_take (mQueue tp) of
             Inl e \<Rightarrow> Some (Inl e)
           | Inr (None, q) \<Rightarrow> None
           | Inr (Some (Some r), q) \<Rightarrow>
               Some (Inr (tp\<lparr>mQueue := q, mWorkerThreads := (mWorkerThreads tp)[i := Running r], begun := begun tp @ [r]\<rparr>))
           | Inr (Some None, q) \<Rightarrow> Some (Inr (tp\<lparr>mQueue := q, mWorkerThreads := (mWorkerThreads tp)[i := Done]\<rparr>)))
      | Running r \<Rightarrow> Some (Inr (tp\<lparr>mWorkerThreads := (mWorkerThreads tp)[i := Checking]\<rparr>))
      | Done \<Rightarrow> None)"

text \<open>A turn of \<open>shutdown\<close>; \<open>None\<close> is that it waits in \<open>join\<close> or has returned. The result is true unless it is not allowed.\<close>

definition ThreadPoolExecutor_shutdown_turn :: "thread_pool \<Rightarrow> (bool option \<times> thread_pool) result option" where
  "ThreadPoolExecutor_shutdown_turn tp =
     (let n = length (mWorkerThreads tp);
          next = (\<lambda>i. if i < n then Interrupting i else Joining 0)
      in case progress tp of
           Not_called \<Rightarrow>
             if \<not> mShutdownAllowed tp then Some (Inr (Some False, tp)) else Some (Inr (None, tp\<lparr>progress := next 0\<rparr>))
         | Interrupting i \<Rightarrow>
             Some (Inr (None, tp\<lparr>mInterrupted := (mInterrupted tp)[i := True], progress := Waking i\<rparr>))
         | Waking i \<Rightarrow>
             map_option (map_sum id (\<lambda>tp. (None, tp)))
               (with_queue (LinkedBlockingQueue_put None (mQueue tp)) (\<lambda>_ tp. tp\<lparr>progress := next (i + 1)\<rparr>) tp)
         | Joining i \<Rightarrow>
             if i < n then (if mWorkerThreads tp ! i = Done then Some (Inr (None, tp\<lparr>progress := Joining (i + 1)\<rparr>)) else None)
             else Some (Inr (Some True, tp\<lparr>progress := Returned\<rparr>))
         | Returned \<Rightarrow> None)"

section \<open>Interleavings\<close>

inductive pool_step :: "thread_pool \<Rightarrow> thread_pool \<Rightarrow> bool" where
  execute: "ThreadPoolExecutor_execute runnable tp = Some (Inr tp') \<Longrightarrow> pool_step tp tp'"
| cancel: "ThreadPoolExecutor_cancel r tp = Some (Inr tp') \<Longrightarrow> pool_step tp tp'"
| work: "i < length (mWorkerThreads tp) \<Longrightarrow> WorkerThread_turn i tp = Some (Inr tp') \<Longrightarrow> pool_step tp tp'"
| shut_down: "ThreadPoolExecutor_shutdown_turn tp = Some (Inr (b, tp')) \<Longrightarrow> pool_step tp tp'"

inductive pool_reachable :: "nat \<Rightarrow> bool \<Rightarrow> thread_pool \<Rightarrow> bool" for n allowed where
  start: "pool_reachable n allowed (ThreadPoolExecutor_start n allowed)"
| step: "pool_reachable n allowed tp \<Longrightarrow> pool_step tp tp' \<Longrightarrow> pool_reachable n allowed tp'"

text \<open>The runnables among the entries of the queue.\<close>

definition runnables :: "nat option list \<Rightarrow> nat list" where
  "runnables xs = map the (filter (\<lambda>x. x \<noteq> None) xs)"

lemma runnables_simps [simp]:
  "runnables [] = []" "runnables (None # xs) = runnables xs" "runnables (Some r # xs) = r # runnables xs"
  "runnables (xs @ ys) = runnables xs @ runnables ys"
  by (simp_all add: runnables_def)

lemma runnables_filter [simp]: "runnables (filter (\<lambda>z. z \<noteq> Some r) xs) = filter (\<lambda>z. z \<noteq> r) (runnables xs)"
proof (induction xs)
  case (Cons x xs)
  then show ?case by (cases x) simp_all
qed simp

lemma in_runnables [simp]: "r \<in> set (runnables xs) \<longleftrightarrow> Some r \<in> set xs"
  by (force simp: runnables_def)

text \<open>Every runnable is accounted for, in the order of its submission.\<close>

definition pool_accounted :: "thread_pool \<Rightarrow> nat option list \<Rightarrow> bool" where
  "pool_accounted tp xs \<longleftrightarrow> subseq (begun tp @ runnables xs) (accepted tp) \<and>
     (\<forall>r. r \<notin> set (cancelled tp) \<longrightarrow> count_list (accepted tp) r = count_list (begun tp @ runnables xs) r)"

text \<open>The workers that shutdown has interrupted and woken.\<close>

primrec interrupted_upto :: "nat \<Rightarrow> shutdown \<Rightarrow> nat" where
  "interrupted_upto n Not_called = 0"
| "interrupted_upto n (Interrupting i) = i"
| "interrupted_upto n (Waking i) = Suc i"
| "interrupted_upto n (Joining i) = n"
| "interrupted_upto n Returned = n"

primrec woken_upto :: "nat \<Rightarrow> shutdown \<Rightarrow> nat" where
  "woken_upto n Not_called = 0"
| "woken_upto n (Interrupting i) = i"
| "woken_upto n (Waking i) = i"
| "woken_upto n (Joining i) = n"
| "woken_upto n Returned = n"

primrec next_worker_ok :: "nat \<Rightarrow> shutdown \<Rightarrow> bool" where
  "next_worker_ok n Not_called \<longleftrightarrow> True"
| "next_worker_ok n (Interrupting i) \<longleftrightarrow> i < n"
| "next_worker_ok n (Waking i) \<longleftrightarrow> i < n"
| "next_worker_ok n (Joining i) \<longleftrightarrow> True"
| "next_worker_ok n Returned \<longleftrightarrow> True"

definition stoppable :: "thread_pool \<Rightarrow> nat option list \<Rightarrow> bool" where
  "stoppable tp xs \<longleftrightarrow>
     (let n = length (mWorkerThreads tp)
      in length (mInterrupted tp) = n \<and> next_worker_ok n (progress tp) \<and>
         (\<forall>i < interrupted_upto n (progress tp). mInterrupted tp ! i) \<and>
         woken_upto n (progress tp) \<le> count_list xs None + count_list (mWorkerThreads tp) Done)"

primrec joined_upto :: "nat \<Rightarrow> shutdown \<Rightarrow> nat" where
  "joined_upto n Not_called = 0"
| "joined_upto n (Interrupting i) = 0"
| "joined_upto n (Waking i) = 0"
| "joined_upto n (Joining i) = i"
| "joined_upto n Returned = n"

definition joined :: "thread_pool \<Rightarrow> bool" where
  "joined tp \<longleftrightarrow> (\<forall>j < joined_upto (length (mWorkerThreads tp)) (progress tp).
     j < length (mWorkerThreads tp) \<longrightarrow> mWorkerThreads tp ! j = Done)"

definition pool_inv :: "thread_pool \<Rightarrow> bool" where
  "pool_inv tp \<longleftrightarrow> (\<exists>xs. holds (mQueue tp) xs \<and> pool_accounted tp xs \<and> stoppable tp xs) \<and> joined tp"

lemma count_list_update:
  "i < length xs \<Longrightarrow> count_list (xs[i := y]) z + (if xs ! i = z then 1 else 0) = count_list xs z + (if y = z then 1 else 0)"
proof (induction xs arbitrary: i)
  case (Cons x xs)
  show ?case
  proof (cases i)
    case (Suc j)
    then have "count_list (xs[j := y]) z + (if xs ! j = z then 1 else 0) = count_list xs z + (if y = z then 1 else 0)"
      using Cons by simp
    then show ?thesis using Suc by (auto split: if_splits)
  qed auto
qed simp

lemma count_list_filter_other: "x \<noteq> y \<Longrightarrow> count_list (filter (\<lambda>z. z \<noteq> x) xs) y = count_list xs y"
  by (induction xs) auto

section \<open>The invariant\<close>

lemma pool_invI:
  "holds (mQueue tp) xs \<Longrightarrow> pool_accounted tp xs \<Longrightarrow> stoppable tp xs \<Longrightarrow> joined tp \<Longrightarrow> pool_inv tp"
  by (auto simp: pool_inv_def)

lemma pool_invE:
  assumes "pool_inv tp"
  obtains xs where "holds (mQueue tp) xs" and "pool_accounted tp xs" and "stoppable tp xs" and "joined tp"
  using assms by (auto simp: pool_inv_def)

lemma pool_execute_inv:
  assumes "pool_inv tp"
  shows "\<exists>tp'. ThreadPoolExecutor_execute x tp = Some (Inr tp') \<and> pool_inv tp'"
proof -
  obtain xs where xs: "holds (mQueue tp) xs" "pool_accounted tp xs" "stoppable tp xs" "joined tp"
    using assms by (rule pool_invE)
  obtain q where q: "LinkedBlockingQueue_put x (mQueue tp) = Some (Inr (True, q))" "holds q (xs @ [x])"
    using lbq.put_law[OF xs(1)] by blast
  let ?tp = "tp\<lparr>mQueue := q, accepted := accepted tp @ (case x of None \<Rightarrow> [] | Some r \<Rightarrow> [r])\<rparr>"
  have "pool_accounted ?tp (xs @ [x])" using xs(2)
    by (cases x) (auto simp: pool_accounted_def list_emb_append_mono simp flip: append_assoc)
  moreover have "stoppable ?tp (xs @ [x])" using xs(3) by (auto simp: stoppable_def Let_def)
  ultimately have "pool_inv ?tp" using q(2) xs(4) by (intro pool_invI) (auto simp: joined_def)
  then show ?thesis using q(1) by (simp add: ThreadPoolExecutor_execute_def with_queue_def)
qed

lemma cancel_inv:
  assumes "pool_inv tp"
  shows "\<exists>tp'. ThreadPoolExecutor_cancel r tp = Some (Inr tp') \<and> pool_inv tp'"
proof -
  obtain xs where xs: "holds (mQueue tp) xs" "pool_accounted tp xs" "stoppable tp xs" "joined tp"
    using assms by (rule pool_invE)
  let ?ys = "filter (\<lambda>z. z \<noteq> Some r) xs"
  obtain q where q: "LinkedBlockingQueue_remove (Some r) (mQueue tp) = Some (Inr (Some r \<in> set xs, q))" "holds q ?ys"
    using lbq.remove_law[OF xs(1)] by blast
  let ?tp = "if Some r \<in> set xs then tp\<lparr>mQueue := q, cancelled := cancelled tp @ [r]\<rparr> else tp\<lparr>mQueue := q\<rparr>"
  have "pool_accounted ?tp ?ys"
  proof (cases "Some r \<in> set xs")
    case True
    have "subseq (begun tp @ filter (\<lambda>z. z \<noteq> r) (runnables xs)) (begun tp @ runnables xs)"
      by (simp add: list_emb_append_mono)
    then have "subseq (begun tp @ filter (\<lambda>z. z \<noteq> r) (runnables xs)) (accepted tp)"
      using xs(2) by (auto simp: pool_accounted_def intro: subseq_order.trans)
    then show ?thesis using True xs(2) by (auto simp: pool_accounted_def count_list_filter_other)
  next
    case False
    then have "?ys = xs" by (intro filter_True) auto
    then show ?thesis using False xs(2) by (auto simp: pool_accounted_def)
  qed
  moreover have "stoppable ?tp ?ys" using xs(3) by (auto simp: stoppable_def Let_def count_list_filter_other)
  ultimately have "pool_inv ?tp" using q(2) xs(4) by (intro pool_invI[of _ ?ys]) (auto simp: joined_def)
  then show ?thesis using q(1) by (auto simp: ThreadPoolExecutor_cancel_def with_queue_def)
qed

lemma joined_update:
  "joined tp \<Longrightarrow> i < length (mWorkerThreads tp) \<Longrightarrow> mWorkerThreads tp ! i \<noteq> Done \<Longrightarrow>
     joined (tp\<lparr>mWorkerThreads := (mWorkerThreads tp)[i := w]\<rparr>)"
  by (auto simp: joined_def nth_list_update)

lemma joined_frame [simp]:
  "joined (tp\<lparr>mQueue := q\<rparr>) = joined tp" "joined (tp\<lparr>begun := b\<rparr>) = joined tp"
  by (simp_all add: joined_def)

lemma worker_inv:
  assumes "pool_inv tp" and i: "i < length (mWorkerThreads tp)"
  shows "case WorkerThread_turn i tp of None \<Rightarrow> mWorkerThreads tp ! i \<in> {Taking, Done}
    | Some (Inl e) \<Rightarrow> False | Some (Inr tp') \<Rightarrow> pool_inv tp'"
proof -
  obtain xs where xs: "holds (mQueue tp) xs" "pool_accounted tp xs" "stoppable tp xs" "joined tp"
    using assms(1) by (rule pool_invE)
  have move: "stoppable (tp\<lparr>mWorkerThreads := (mWorkerThreads tp)[i := w]\<rparr>) ys"
    if "mWorkerThreads tp ! i \<noteq> Done"
      "count_list xs None \<le> count_list ys None + (if w = Done then 1 else 0)" for w :: worker and ys :: "nat option list"
    using xs(3) that count_list_update[OF i, of w Done] by (auto simp: stoppable_def Let_def)
  show ?thesis
  proof (cases "mWorkerThreads tp ! i")
    case Checking
    have "pool_inv (tp\<lparr>mWorkerThreads := (mWorkerThreads tp)[i := w]\<rparr>)" for w
      using xs move[of xs w] joined_update[OF xs(4) i] Checking by (intro pool_invI[of _ xs]) (auto simp: pool_accounted_def)
    then show ?thesis using Checking by (simp add: WorkerThread_turn_def)
  next
    case Taking
    obtain q where q: "LinkedBlockingQueue_take (mQueue tp) = Inr (case xs of [] \<Rightarrow> None | x # _ \<Rightarrow> Some x, q)" "holds q (tl xs)"
      using lbq.take_law[OF xs(1)] by blast
    show ?thesis
    proof (cases xs)
      case Nil
      then show ?thesis using q(1) Taking by (simp add: WorkerThread_turn_def)
    next
      case (Cons x ys)
      have ok: "pool_inv (tp\<lparr>mQueue := q, mWorkerThreads := (mWorkerThreads tp)[i := w], begun := b\<rparr>)"
        if "w = Done \<longleftrightarrow> x = None" "pool_accounted (tp\<lparr>begun := b\<rparr>) ys" for w b
      proof (rule pool_invI[of _ ys])
        show "stoppable (tp\<lparr>mQueue := q, mWorkerThreads := (mWorkerThreads tp)[i := w], begun := b\<rparr>) ys"
          using Cons move[of ys w] Taking that(1) by (cases x) (auto simp: stoppable_def)
        show "joined (tp\<lparr>mQueue := q, mWorkerThreads := (mWorkerThreads tp)[i := w], begun := b\<rparr>)"
          using joined_update[OF xs(4) i, of w] Taking by (simp add: joined_def)
      qed (use q(2) Cons that(2) in \<open>simp_all add: pool_accounted_def\<close>)
      show ?thesis
      proof (cases x)
        case None
        have "pool_inv (tp\<lparr>mQueue := q, mWorkerThreads := (mWorkerThreads tp)[i := Done], begun := begun tp\<rparr>)"
          using None xs(2) Cons by (intro ok) (simp_all add: pool_accounted_def)
        also have "tp\<lparr>mQueue := q, mWorkerThreads := (mWorkerThreads tp)[i := Done], begun := begun tp\<rparr> =
            tp\<lparr>mQueue := q, mWorkerThreads := (mWorkerThreads tp)[i := Done]\<rparr>" by (cases tp) simp
        finally show ?thesis using q(1) Taking Cons None by (simp add: WorkerThread_turn_def)
      next
        case (Some r)
        have "pool_inv (tp\<lparr>mQueue := q, mWorkerThreads := (mWorkerThreads tp)[i := Running r], begun := begun tp @ [r]\<rparr>)"
          using Some xs(2) Cons by (intro ok) (simp_all add: pool_accounted_def)
        then show ?thesis using q(1) Taking Cons Some by (simp add: WorkerThread_turn_def)
      qed
    qed
  next
    case (Running r)
    have "pool_inv (tp\<lparr>mWorkerThreads := (mWorkerThreads tp)[i := Checking]\<rparr>)"
      using xs move[of xs Checking] joined_update[OF xs(4) i] Running by (intro pool_invI[of _ xs]) (auto simp: pool_accounted_def)
    then show ?thesis using Running by (simp add: WorkerThread_turn_def)
  next
    case Done
    then show ?thesis by (simp add: WorkerThread_turn_def)
  qed
qed

lemma shutdown_inv:
  assumes "pool_inv tp"
  shows "case ThreadPoolExecutor_shutdown_turn tp of None \<Rightarrow> True | Some (Inl e) \<Rightarrow> False | Some (Inr (b, tp')) \<Rightarrow> pool_inv tp'"
proof -
  obtain xs where xs: "holds (mQueue tp) xs" "pool_accounted tp xs" "stoppable tp xs" "joined tp"
    using assms(1) by (rule pool_invE)
  note st = xs(3)[unfolded stoppable_def Let_def]
  have frame: "pool_accounted (tp\<lparr>progress := p\<rparr>) xs" "pool_accounted (tp\<lparr>mInterrupted := b, progress := p\<rparr>) xs" for p b
    using xs(2) by (simp_all add: pool_accounted_def)
  show ?thesis
  proof (cases "progress tp")
    case Not_called
    then have "pool_inv (tp\<lparr>progress := if 0 < length (mWorkerThreads tp) then Interrupting 0 else Joining 0\<rparr>)"
      using xs frame by (intro pool_invI[of _ xs]) (auto simp: stoppable_def joined_def Let_def)
    then show ?thesis using Not_called assms by (auto simp: ThreadPoolExecutor_shutdown_turn_def Let_def)
  next
    case (Interrupting i)
    then have "pool_inv (tp\<lparr>mInterrupted := (mInterrupted tp)[i := True], progress := Waking i\<rparr>)"
      using xs frame st
      by (intro pool_invI[of _ xs]) (auto simp: stoppable_def joined_def Let_def nth_list_update less_Suc_eq)
    then show ?thesis using Interrupting by (simp add: ThreadPoolExecutor_shutdown_turn_def)
  next
    case (Waking i)
    obtain q where q: "LinkedBlockingQueue_put None (mQueue tp) = Some (Inr (True, q))" "holds q (xs @ [None])"
      using lbq.put_law[OF xs(1)] by blast
    let ?tp = "tp\<lparr>mQueue := q, progress := if i + 1 < length (mWorkerThreads tp) then Interrupting (i + 1) else Joining 0\<rparr>"
    have "stoppable ?tp (xs @ [None])"
    proof (cases "Suc i < length (mWorkerThreads tp)")
      case False
      then have "length (mWorkerThreads tp) = Suc i" using st Waking by simp
      then show ?thesis using st Waking by (auto simp: stoppable_def Let_def)
    qed (use st Waking in \<open>auto simp: stoppable_def Let_def\<close>)
    moreover have "pool_accounted ?tp (xs @ [None])" using xs(2) by (simp add: pool_accounted_def)
    ultimately have "pool_inv ?tp" using q(2) by (intro pool_invI) (auto simp: joined_def)
    then show ?thesis using Waking q(1) by (auto simp: ThreadPoolExecutor_shutdown_turn_def Let_def with_queue_def)
  next
    case (Joining i)
    then have "pool_inv (tp\<lparr>progress := Joining (i + 1)\<rparr>)" if "mWorkerThreads tp ! i = Done"
      using xs frame that by (intro pool_invI[of _ xs]) (auto simp: stoppable_def joined_def Let_def less_Suc_eq)
    moreover have "pool_inv (tp\<lparr>progress := Returned\<rparr>)" if "\<not> i < length (mWorkerThreads tp)"
      using xs frame that Joining by (intro pool_invI[of _ xs]) (auto simp: stoppable_def joined_def Let_def)
    ultimately show ?thesis using Joining by (auto simp: ThreadPoolExecutor_shutdown_turn_def Let_def)
  next
    case Returned
    then show ?thesis by (simp add: ThreadPoolExecutor_shutdown_turn_def)
  qed
qed

lemma pool_step_inv:
  assumes "pool_step tp tp'" and "pool_inv tp"
  shows "pool_inv tp'" and "length (mWorkerThreads tp') = length (mWorkerThreads tp)"
proof -
  show "pool_inv tp'"
    using assms
  proof cases
    case (execute runnable)
    then show ?thesis using pool_execute_inv[OF assms(2), of runnable] by auto
  next
    case (cancel r)
    then show ?thesis using cancel_inv[OF assms(2), of r] by auto
  next
    case (work i)
    then show ?thesis using worker_inv[OF assms(2), of i] by auto
  next
    case (shut_down b)
    then show ?thesis using shutdown_inv[OF assms(2)] by auto
  qed
  show "length (mWorkerThreads tp') = length (mWorkerThreads tp)"
    using assms(1)
    by cases (auto simp: ThreadPoolExecutor_execute_def ThreadPoolExecutor_cancel_def WorkerThread_turn_def with_queue_def map_outcome_eq
        ThreadPoolExecutor_shutdown_turn_def Let_def split: worker.splits sum.splits option.splits prod.splits shutdown.splits if_splits)
qed

lemma pool_start_inv: "pool_inv (ThreadPoolExecutor_start n allowed)"
  by (intro pool_invI[of _ "[]"])
    (simp_all add: ThreadPoolExecutor_start_def holds_new pool_accounted_def stoppable_def joined_def)

lemma pool_reachable_inv: "pool_reachable n allowed tp \<Longrightarrow> pool_inv tp \<and> length (mWorkerThreads tp) = n"
proof (induction rule: pool_reachable.induct)
  case start
  show ?case by (simp add: pool_start_inv) (simp add: ThreadPoolExecutor_start_def)
next
  case (step tp tp')
  then show ?case using pool_step_inv[OF step.hyps(2)] by auto
qed

section \<open>Stopping\<close>

text \<open>The number of turns that a worker still takes once it is interrupted and its queue has what it needs.\<close>

primrec turns_left :: "worker \<Rightarrow> nat" where
  "turns_left Checking = 1"
| "turns_left Taking = 3"
| "turns_left (Running r) = 2"
| "turns_left Done = 0"

definition pool_turns_left :: "thread_pool \<Rightarrow> nat" where
  "pool_turns_left tp = sum_list (map turns_left (mWorkerThreads tp))"

lemma turns_left_update:
  assumes "i < length ws" and "turns_left w < turns_left (ws ! i)"
  shows "sum_list (map turns_left (ws[i := w])) < sum_list (map turns_left ws)"
  using assms
proof (induction ws arbitrary: i)
  case (Cons v ws)
  then show ?case by (cases i) auto
qed simp

lemma count_list_less: "i < length xs \<Longrightarrow> xs ! i \<noteq> z \<Longrightarrow> count_list xs z < length xs"
proof (induction xs arbitrary: i)
  case (Cons x xs)
  then show ?case using count_le_length[of xs z] by (cases i) (auto simp: less_Suc_eq_le Suc_le_eq)
qed simp

lemma count_list_pos: "0 < count_list xs z \<longleftrightarrow> z \<in> set xs"
  by (metis count_list_0_iff gr0I less_irrefl)

lemma joining_worker_turn:
  assumes "pool_inv tp" and p: "progress tp = Joining k" and i: "i < length (mWorkerThreads tp)" "mWorkerThreads tp ! i \<noteq> Done"
  shows "\<exists>tp'. WorkerThread_turn i tp = Some (Inr tp') \<and> pool_turns_left tp' < pool_turns_left tp \<and> progress tp' = Joining k"
proof -
  obtain xs where xs: "holds (mQueue tp) xs" "stoppable tp xs"
    using assms(1) by (rule pool_invE)
  have int: "mInterrupted tp ! i" and some: "length (mWorkerThreads tp) \<le> count_list xs None + count_list (mWorkerThreads tp) Done"
    using xs(2) p i(1) by (auto simp: stoppable_def Let_def)
  show ?thesis
  proof (cases "mWorkerThreads tp ! i")
    case Checking
    then show ?thesis using int p turns_left_update[OF i(1), of Done]
      by (simp add: WorkerThread_turn_def pool_turns_left_def)
  next
    case Taking
    have "0 < count_list xs None" using some count_list_less[OF i] by linarith
    then obtain y ys where ys: "xs = y # ys" by (cases xs) auto
    obtain q where q: "LinkedBlockingQueue_take (mQueue tp) = Inr (Some y, q)" using lbq.take_law[OF xs(1)] ys by auto
    show ?thesis
    proof (cases y)
      case None
      then show ?thesis using Taking q p turns_left_update[OF i(1), of Done] by (simp add: WorkerThread_turn_def pool_turns_left_def)
    next
      case (Some r)
      then show ?thesis using Taking q p turns_left_update[OF i(1), of "Running r"] by (simp add: WorkerThread_turn_def pool_turns_left_def)
    qed
  next
    case (Running r)
    then show ?thesis using p turns_left_update[OF i(1), of Checking] by (simp add: WorkerThread_turn_def pool_turns_left_def)
  qed (use i in simp)
qed

lemma client_keeps_turns:
  "ThreadPoolExecutor_execute x tp = Some (Inr tp') \<Longrightarrow> pool_turns_left tp' = pool_turns_left tp \<and> progress tp' = progress tp"
  "ThreadPoolExecutor_cancel r tp = Some (Inr tp') \<Longrightarrow> pool_turns_left tp' = pool_turns_left tp \<and> progress tp' = progress tp"
  by (auto simp: ThreadPoolExecutor_execute_def ThreadPoolExecutor_cancel_def with_queue_def pool_turns_left_def map_outcome_eq)

lemma no_turns_left: "pool_turns_left tp = 0 \<longleftrightarrow> (\<forall>i < length (mWorkerThreads tp). mWorkerThreads tp ! i = Done)"
proof -
  have "turns_left w = 0 \<longleftrightarrow> w = Done" for w by (cases w) simp_all
  then show ?thesis by (auto simp: pool_turns_left_def sum_list_eq_0_iff all_set_conv_all_nth)
qed

section \<open>Properties\<close>





end
