(* ===== verification/Serial_Executors.thy ===== *)
theory Serial_Executors
  imports Looper
begin

text \<open>
  The serial executor (\<open>src/mindroid/util/concurrent/SerialExecutor.h\<close>, \<open>SerialExecutor.cpp\<close>) and the thread with a looper that
  it runs on (\<open>src/mindroid/os/HandlerThread.h\<close>, \<open>HandlerThread.cpp\<close>). Executing a runnable sends a message to the
  handler of the thread; the message queue then is the list of runnables in the order of their submission.
\<close>

section \<open>HandlerThread\<close>

text \<open>
  \<open>mSelf\<close> is set from \<open>start\<close> to the end of \<open>run\<close>, \<open>hLooper\<close> is the member \<open>mLooper\<close>, the thread-local looper of the thread.
  Waiting in \<open>getLooper\<close> is the outcome \<open>Looper_await\<close>.
\<close>

record handler_thread =
  mSelf :: bool
  htThread :: tid
  htLooper :: "looper option"

datatype looper_outcome = Looper_await | Looper_is "looper option"

definition Thread_start :: "handler_thread \<Rightarrow> handler_thread" where
  "Thread_start ht = ht\<lparr>mSelf := True\<rparr>"

text \<open>\<open>run\<close> up to \<open>Looper::loop\<close>; the loop itself is \<open>Looper_loop_enter\<close> and \<open>Looper_loop_turn\<close>.\<close>

definition HandlerThread_run :: "handler_thread \<Rightarrow> tls \<Rightarrow> (handler_thread \<times> tls) result" where
  "HandlerThread_run ht tls =
     bind_result (Looper_prepare True (htThread ht) tls) (\<lambda>tls'.
       Inr (ht\<lparr>htLooper := Looper_myLooper (htThread ht) tls'\<rparr>, tls'))"

definition HandlerThread_getLooper :: "handler_thread \<Rightarrow> looper_outcome" where
  "HandlerThread_getLooper ht =
     (if \<not> mSelf ht then Looper_is None
      else if htLooper ht = None then Looper_await else Looper_is (htLooper ht))"

definition HandlerThread_quit ::
  "handler_thread \<Rightarrow> 'b message_heap \<Rightarrow> (bool \<times> handler_thread \<times> 'b message_heap) option" where
  "HandlerThread_quit ht h =
     (case HandlerThread_getLooper ht of
        Looper_await \<Rightarrow> None
      | Looper_is None \<Rightarrow> Some (False, ht, h)
      | Looper_is (Some l) \<Rightarrow> map_option (\<lambda>(l', h'). (True, ht\<lparr>htLooper := Some l'\<rparr>, h')) (Looper_quit l h))"

section \<open>SerialExecutor\<close>

definition Handler_obtainMessage_callback :: "ref \<Rightarrow> ref option \<Rightarrow> 'b message_heap \<Rightarrow> addr \<times> 'b message_heap" where
  "Handler_obtainMessage_callback self runnable h = Message_obtain_callback (Some self) runnable h"

text \<open>\<open>self\<close> is the handler \<open>mHandler\<close>, \<open>q\<close> the queue of its looper.\<close>

definition SerialExecutor_execute ::
  "uint64 \<Rightarrow> ref \<Rightarrow> ref option \<Rightarrow> message_queue \<Rightarrow> 'b message_heap \<Rightarrow> 'b send_out" where
  "SerialExecutor_execute now self runnable q h =
     (let (m, h1) = Handler_obtainMessage_callback self runnable h in Message_sendToTarget now m q h1)"

definition SerialExecutor_cancel ::
  "ref \<Rightarrow> ref option \<Rightarrow> message_queue \<Rightarrow> 'b message_heap \<Rightarrow> (bool \<times> message_queue \<times> 'b message_heap) option" where
  "SerialExecutor_cancel self runnable q h = Handler_removeCallbacks self runnable q h"

text \<open>\<open>shutdown\<close> up to \<open>join\<close>; \<open>thread\<close> says that \<open>mHandlerThread\<close> is not null. The looper is null after its thread has ended.\<close>

definition SerialExecutor_shutdown ::
  "bool \<Rightarrow> bool \<Rightarrow> looper option \<Rightarrow> 'b message_heap \<Rightarrow> (bool \<times> looper option \<times> 'b message_heap) result option" where
  "SerialExecutor_shutdown shutdownAllowed thread l h =
     (if \<not> shutdownAllowed then Some (Inr (False, l, h))
      else if thread then
        (case l of
           None \<Rightarrow> Some (Inl Undefined)
         | Some lo \<Rightarrow> map_option (\<lambda>(lo', h'). Inr (True, Some lo', h')) (Looper_quit lo h))
      else Some (Inr (True, l, h)))"

text \<open>What the thread does next: the calls that dispatching the next due message makes, or nothing.\<close>

definition serial_turn ::
  "(ref \<Rightarrow> addr \<Rightarrow> bool) \<Rightarrow> uint64 \<Rightarrow> handler \<Rightarrow> message_queue \<Rightarrow> 'b message_heap \<Rightarrow>
     (dispatch_call list \<times> message_queue \<times> 'b message_heap) option" where
  "serial_turn handled now handler q h =
     (case MessageQueue_dequeueMessage now q h of
        (Dequeue_message m, q1, h1) \<Rightarrow> Some (Handler_dispatchMessage handled handler m h1, q1, Message_recycle m h1)
      | _ \<Rightarrow> None)"

text \<open>Executing a list of runnables at the times of a clock, and a number of turns of the thread.\<close>

fun serial_submit :: "ref \<Rightarrow> (uint64 \<times> ref) list \<Rightarrow> message_queue \<Rightarrow> 'b message_heap \<Rightarrow> (message_queue \<times> 'b message_heap) option" where
  "serial_submit self [] q h = Some (q, h)"
| "serial_submit self ((now, r) # rs) q h =
     (case SerialExecutor_execute now self (Some r) q h of
        Some (Inr True, q', h') \<Rightarrow> serial_submit self rs q' h'
      | _ \<Rightarrow> None)"

fun serial_work ::
  "(ref \<Rightarrow> addr \<Rightarrow> bool) \<Rightarrow> uint64 \<Rightarrow> handler \<Rightarrow> nat \<Rightarrow> message_queue \<Rightarrow> 'b message_heap \<Rightarrow>
     (dispatch_call list \<times> message_queue \<times> 'b message_heap) option" where
  "serial_work handled now handler 0 q h = Some ([], q, h)"
| "serial_work handled now handler (Suc n) q h =
     (case serial_turn handled now handler q h of
        None \<Rightarrow> None
      | Some (calls, q1, h1) \<Rightarrow>
          map_option (\<lambda>(calls', q2, h2). (calls @ calls', q2, h2)) (serial_work handled now handler n q1 h1))"

section \<open>The queue of runnables\<close>

definition serial_holds :: "ref \<Rightarrow> uint64 \<Rightarrow> ref list \<Rightarrow> message_queue \<Rightarrow> 'b message_heap \<Rightarrow> bool" where
  "serial_holds self now rs q h \<longleftrightarrow>
     (\<exists>xs ps. mq_inv q h xs ps \<and> \<not> mQuitting q \<and> map (\<lambda>a. callback (messages h a)) xs = map Some rs \<and>
        (\<forall>a \<in> set xs. target (messages h a) = Some self \<and> whenMs (messages h a) \<le> now))"

lemma serial_holds_later: "serial_holds self t rs q h \<Longrightarrow> t \<le> now \<Longrightarrow> serial_holds self now rs q h"
  by (auto simp: serial_holds_def) (meson order_trans)

lemma insert_by_time_last: "w \<noteq> 0 \<Longrightarrow> (\<And>x. x \<in> set xs \<Longrightarrow> due x \<le> w) \<Longrightarrow> insert_by_time due m w xs = xs @ [m]"
  by (simp add: insert_by_time_def takeWhile_eq_all_conv[THEN iffD2] dropWhile_eq_Nil_conv[THEN iffD2])

lemma serial_execute:
  assumes "serial_holds self t rs q h" and "t \<le> now" and "now \<noteq> 0"
  shows "\<exists>q' h'. SerialExecutor_execute now self (Some r) q h = Some (Inr True, q', h') \<and> serial_holds self now (rs @ [r]) q' h'"
proof -
  obtain xs ps where inv: "mq_inv q h xs ps" "\<not> mQuitting q" and cb: "map (\<lambda>a. callback (messages h a)) xs = map Some rs"
    and due: "\<And>a. a \<in> set xs \<Longrightarrow> target (messages h a) = Some self \<and> whenMs (messages h a) \<le> t"
    using assms(1) by (auto simp: serial_holds_def)
  obtain m h1 where ob: "Message_obtain h = (m, h1)" by fastforce
  let ?h2 = "upd_msg m (\<lambda>x. x\<lparr>target := Some self, callback := Some r\<rparr>) h1"
  note mo = mq_inv_obtain[OF inv(1) ob]
  have idle1: "\<not> isInUse (messages h1 m)" by (simp add: mo(4) Message_new_def)
  then have "\<not> isInUse (messages ?h2 m)" by (simp add: isInUse_def)
  note idle = idle1 this
  have inv2: "mq_inv q ?h2 xs (tl ps)" using mo(1) idle(1) by (rule mq_inv_upd_idle) (simp add: isInUse_def)
  let ?xs = "insert_by_time (\<lambda>a. whenMs (messages ?h2 a)) m now xs"
  from sendMessageAtTime_idle[OF inv2 inv(2) idle(2), of self now] mo(3) obtain q' h' where
    snd: "Handler_sendMessageAtTime self m now q ?h2 = Some (Inr True, q', h')" and inv': "mq_inv q' h' ?xs (tl ps)"
    and q': "mQuitting q' = mQuitting q" and rl: "relinked (insert m (set xs)) (stamped m now (retargeted self m ?h2)) h'" by auto
  have old: "messages ?h2 a = messages h a" if "a \<in> set xs" for a using that mo(2,5) by auto
  have last: "?xs = xs @ [m]"
    using due assms(2,3) old by (intro insert_by_time_last) (auto intro: order_trans)
  have new: "unlinked (messages h' a) = unlinked (messages (stamped m now (retargeted self m ?h2)) a)" for a
    using rl by (simp add: relinked_def)
  have "callback (messages h' a) = callback (messages h a) \<and> target (messages h' a) = Some self \<and> whenMs (messages h' a) \<le> now"
    if "a \<in> set xs" for a
    using unlinked_eqD(1,3,5)[OF new[of a]] that mo(2) old[OF that] due[OF that] assms(2)
    by (auto simp: upd_msg_def intro: order_trans)
  moreover have "callback (messages h' m) = Some r" "target (messages h' m) = Some self" "whenMs (messages h' m) = now"
    using unlinked_eqD(1,3,5)[OF new[of m]] by simp_all
  ultimately have "serial_holds self now (rs @ [r]) q' h'"
    unfolding serial_holds_def using inv' last q' inv(2) cb
    by (intro exI[of _ "xs @ [m]"] exI[of _ "tl ps"]) (auto cong: map_cong)
  moreover have "SerialExecutor_execute now self (Some r) q h = Some (Inr True, q', h')"
    using snd ob by (simp add: SerialExecutor_execute_def Handler_obtainMessage_callback_def Message_obtain_callback_def
        Message_sendToTarget_def Handler_sendMessage_def Handler_sendMessageDelayed_def)
  ultimately show ?thesis by blast
qed

lemma serial_cancel:
  assumes "serial_holds self now rs q h"
  shows "\<exists>q' h'. SerialExecutor_cancel self (Some r) q h = Some (r \<in> set rs, q', h') \<and>
    serial_holds self now (filter (\<lambda>x. x \<noteq> r) rs) q' h'"
proof -
  obtain xs ps where inv: "mq_inv q h xs ps" "\<not> mQuitting q" and cb: "map (\<lambda>a. callback (messages h a)) xs = map Some rs"
    and due: "\<And>a. a \<in> set xs \<Longrightarrow> target (messages h a) = Some self \<and> whenMs (messages h a) \<le> now"
    using assms by (auto simp: serial_holds_def)
  let ?p = "match_callback self (Some r) None"
  have match: "?p (messages h a) \<longleftrightarrow> callback (messages h a) = Some r" if "a \<in> set xs" for a
    using due[OF that] by (simp add: match_callback_def)
  obtain q' h' ps' where r: "Handler_removeCallbacks self (Some r) q h = Some (\<exists>a \<in> set xs. ?p (messages h a), q', h')"
    "mq_inv q' h' (filter (\<lambda>a. \<not> ?p (messages h a)) xs) ps'"
    "trimmed (set xs) (filter (\<lambda>a. ?p (messages h a)) xs) h h'" "mQuitting q' = mQuitting q"
    using remove_matching_removes(2)[OF inv(1), of self "Some r" None]
    by (auto simp: Handler_removeCallbacks_def MessageQueue_removeCallbacks_def removes_def)
  have kept: "filter (\<lambda>a. \<not> ?p (messages h a)) xs = filter (\<lambda>a. callback (messages h a) \<noteq> Some r) xs"
    using match by (intro filter_cong) auto
  have same: "unlinked (messages h' a) = unlinked (messages h a)" if "a \<in> set (filter (\<lambda>a. callback (messages h a) \<noteq> Some r) xs)" for a
    using r(3) that match by (auto simp: trimmed_def)
  have cb': "map (\<lambda>a. callback (messages h' a)) (filter (\<lambda>a. callback (messages h a) \<noteq> Some r) xs) = map Some (filter (\<lambda>x. x \<noteq> r) rs)"
  proof -
    have "map (\<lambda>a. callback (messages h' a)) (filter (\<lambda>a. callback (messages h a) \<noteq> Some r) xs) =
        map (\<lambda>a. callback (messages h a)) (filter (\<lambda>a. callback (messages h a) \<noteq> Some r) xs)"
      using unlinked_eqD(5)[OF same] by (intro map_cong) auto
    also have "\<dots> = filter (\<lambda>c. c \<noteq> Some r) (map (\<lambda>a. callback (messages h a)) xs)" by (simp add: filter_map comp_def)
    also have "\<dots> = map Some (filter (\<lambda>x. x \<noteq> r) rs)" unfolding cb by (simp add: filter_map comp_def)
    finally show ?thesis .
  qed
  have "serial_holds self now (filter (\<lambda>x. x \<noteq> r) rs) q' h'"
    unfolding serial_holds_def
    using r(2,4) inv(2) kept cb' unlinked_eqD(1,3)[OF same] due
    by (intro exI[of _ "filter (\<lambda>a. callback (messages h a) \<noteq> Some r) xs"] exI[of _ ps']) auto
  moreover have "(\<exists>a \<in> set xs. ?p (messages h a)) = (r \<in> set rs)"
  proof -
    have "(\<exists>a \<in> set xs. ?p (messages h a)) = (Some r \<in> set (map (\<lambda>a. callback (messages h a)) xs))" using match by force
    then show ?thesis unfolding cb by auto
  qed
  ultimately show ?thesis using r(1) by (auto simp: SerialExecutor_cancel_def)
qed

lemma serial_turn_runs:
  assumes "serial_holds self now rs q h" and "hSelf handler = self"
  shows "case rs of
      [] \<Rightarrow> serial_turn handled now handler q h = None
    | r # rs' \<Rightarrow> \<exists>q' h'. serial_turn handled now handler q h = Some ([Runnable_run r], q', h') \<and> serial_holds self now rs' q' h'"
proof -
  obtain xs ps where inv: "mq_inv q h xs ps" "\<not> mQuitting q" and cb: "map (\<lambda>a. callback (messages h a)) xs = map Some rs"
    and due: "\<And>a. a \<in> set xs \<Longrightarrow> target (messages h a) = Some self \<and> whenMs (messages h a) \<le> now"
    using assms(1) by (auto simp: serial_holds_def)
  show ?thesis
  proof (cases xs)
    case Nil
    then show ?thesis using inv cb by (auto simp: serial_turn_def MessageQueue_dequeueMessage_def mq_inv_def mq_rep_def)
  next
    case (Cons m ms)
    then obtain r rs' where rs: "rs = r # rs'" "callback (messages h m) = Some r"
      "map (\<lambda>a. callback (messages h a)) ms = map Some rs'" using cb by auto
    obtain q1 h1 where t: "MessageQueue_dequeueMessage now q h = (Dequeue_message m, q1, h1)" "mq_inv q1 h1 ms ps"
      "messages h1 m = unlinked (messages h m)" "relinked (set (m # ms)) h h1" "mQuitting q1 = mQuitting q"
      using dequeueMessage_take[of q h m ms ps now] inv due Cons by auto
    have m: "m \<notin> set ms" "m \<notin> set ps" "m < nextAddr h1"
      using inv Cons relinked_fields(1)[OF t(4)] by (auto simp: mq_inv_def mq_rep_def queued_ok_def)
    obtain ps' where inv': "mq_inv q1 (Message_recycle m h1) ms ps'" using mq_inv_recycle_foreign[OF t(2) m] by blast
    have same: "unlinked (messages (Message_recycle m h1) a) = unlinked (messages h a)" if "a \<in> set ms" for a
      using that m(1) t(4) by (auto simp: Message_recycle_alt relinked_def)
    have "serial_holds self now rs' q1 (Message_recycle m h1)"
      unfolding serial_holds_def
      using inv' inv(2) t(5) rs(3) unlinked_eqD(1,3,5)[OF same] due Cons
      by (intro exI[of _ ms] exI[of _ ps']) (auto cong: map_cong)
    moreover have "callback (messages h1 m) = Some r" using rs(2) t(3) by (simp add: unlinked_def)
    ultimately show ?thesis using rs(1) t(1) by (simp add: serial_turn_def Handler_dispatchMessage_def)
  qed
qed

lemma serial_submit_holds:
  assumes "serial_holds self t rs q h" and "sorted (t # map fst xs)" and "\<And>w. w \<in> fst ` set xs \<Longrightarrow> w \<noteq> 0"
    and "\<And>w. w \<in> fst ` set xs \<Longrightarrow> w \<le> now" and "t \<le> now"
  shows "\<exists>q' h'. serial_submit self xs q h = Some (q', h') \<and> serial_holds self now (rs @ map snd xs) q' h'"
  using assms
proof (induction xs arbitrary: t rs q h)
  case Nil
  then show ?case by (auto intro: serial_holds_later)
next
  case (Cons x xs)
  obtain w r where x: "x = (w, r)" by (cases x)
  obtain q1 h1 where 1: "SerialExecutor_execute w self (Some r) q h = Some (Inr True, q1, h1)" "serial_holds self w (rs @ [r]) q1 h1"
    using serial_execute[OF Cons.prems(1), of w r] Cons.prems(2,3) x by force
  have "\<exists>q' h'. serial_submit self xs q1 h1 = Some (q', h') \<and> serial_holds self now ((rs @ [r]) @ map snd xs) q' h'"
    using Cons.prems x by (intro Cons.IH[OF 1(2)]) auto
  then show ?case using 1(1) x by simp
qed

lemma serial_work_runs:
  assumes "serial_holds self now rs q h" and "hSelf handler = self"
  shows "\<exists>q' h'. serial_work handled now handler (length rs) q h = Some (map Runnable_run rs, q', h') \<and> serial_holds self now [] q' h'"
  using assms
proof (induction rs arbitrary: q h)
  case (Cons r rs)
  obtain q1 h1 where "serial_turn handled now handler q h = Some ([Runnable_run r], q1, h1)" "serial_holds self now rs q1 h1"
    using serial_turn_runs[OF Cons.prems, of handled] by auto
  then show ?case using Cons.IH[of q1 h1] Cons.prems(2) by auto
qed simp

section \<open>Properties\<close>

text \<open>
  (C9) The serial executor runs runnables in the order of their submission. Runnables submitted at the times of a clock that does not go
  back (and is not 0) are all accepted, and the thread then runs exactly these, each once and in this order, after those that were pending, and
  waits when none is left. Cancelling a runnable removes every pending occurrence of it, keeps the order of the others, and
  tells whether there was one.
\<close>

theorem SerialExecutor_runs_in_order:
  assumes "serial_holds self t rs q h" and "sorted (t # map fst xs)" and "\<forall>w \<in> fst ` set xs. w \<noteq> 0 \<and> w \<le> now" and "t \<le> now"
    and "hSelf handler = self"
  shows "(\<exists>q1 h1 q2 h2. serial_submit self xs q h = Some (q1, h1) \<and>
      serial_work handled now handler (length rs + length xs) q1 h1 = Some (map Runnable_run (rs @ map snd xs), q2, h2) \<and>
      serial_turn handled now handler q2 h2 = None) \<and>
    (\<exists>q' h'. SerialExecutor_cancel self (Some r) q h = Some (r \<in> set rs, q', h') \<and>
      serial_holds self t (filter (\<lambda>x. x \<noteq> r) rs) q' h')"
proof -
  obtain q1 h1 where 1: "serial_submit self xs q h = Some (q1, h1)" "serial_holds self now (rs @ map snd xs) q1 h1"
    using serial_submit_holds[OF assms(1,2) _ _ assms(4)] assms(3) by blast
  obtain q2 h2 where 2: "serial_work handled now handler (length (rs @ map snd xs)) q1 h1 = Some (map Runnable_run (rs @ map snd xs), q2, h2)"
    "serial_holds self now [] q2 h2"
    using serial_work_runs[OF 1(2) assms(5)] by blast
  show ?thesis
    using 1(1) 2(1) serial_turn_runs[OF 2(2) assms(5), of handled] serial_cancel[OF assms(1)] by auto
qed

lemma serial_holds_new: "serial_holds self 0 [] (MessageQueue_new True) (MessagePool_new bs)"
  unfolding serial_holds_def using mq_inv_new[of True bs] by (intro exI[of _ "[]"]) (auto simp: MessageQueue_new_def)

theorem SerialExecutor_runs_in_order_witness:
  "\<exists>q1 h1 q2 h2. serial_submit 7 [(5, 1), (5, 2), (6, 1)] (MessageQueue_new True) (MessagePool_new (\<lambda>_. 0 :: nat)) = Some (q1, h1) \<and>
     serial_work (\<lambda>_ _. True) 9 \<lparr>hSelf = 7, hLooper = 0, mCallback = None\<rparr> 3 q1 h1 =
       Some ([Runnable_run 1, Runnable_run 2, Runnable_run 1], q2, h2)"
proof -
  have "sorted (0 # map fst [(5 :: uint64, 1 :: ref), (5, 2), (6, 1)])" by simp
  from conjunct1[OF SerialExecutor_runs_in_order, OF serial_holds_new[of 7 "\<lambda>_. 0 :: nat"] this, of 9
      "\<lparr>hSelf = 7, hLooper = 0, mCallback = None\<rparr>" "\<lambda>_ _. True"]
  show ?thesis by (simp add: numeral_3_eq_3 del: serial_submit.simps serial_work.simps) blast
qed

end
