(* ===== verification/Async_Tasks.thy ===== *)
theory Async_Tasks
  imports Serial_Executors Thread_Pools
begin

text \<open>
  Tasks that run in the background and report to the thread that made them (\<open>src/mindroid/os/AsyncTask.h\<close>, \<open>AsyncTask.cpp\<close>), on any executor
  that keeps its runnables in order: the contract of an executor is a locale, which the serial executor and the thread pool both
  satisfy. The messages of a task to its handler are the list \<open>mailbox\<close>; that a looper delivers them in order is what the theories of the message
  queue show. The methods that an application overrides are recorded in the order of their calls; of these, \<open>onPreExecute\<close> may
  cancel the task.
\<close>

section \<open>Executors\<close>

text \<open>
  The operations of an executor on its state: \<open>execute\<close>, \<open>cancel\<close> with its result, a turn of one of its threads with the runnable that it
  starts, and what happens to it otherwise: the passing of time, or a turn of a shutdown.
\<close>

record 'e executor_interface =
  ex_execute :: "nat \<Rightarrow> 'e \<Rightarrow> 'e result option"
  ex_cancel :: "nat \<Rightarrow> 'e \<Rightarrow> (bool \<times> 'e) result option"
  ex_turn :: "nat \<Rightarrow> 'e \<Rightarrow> (nat option \<times> 'e) result option"
  ex_elapse :: "nat \<Rightarrow> 'e \<Rightarrow> 'e"

text \<open>The serial executor with its handler and the current time, which does not go back.\<close>

type_synonym 'b serial_state = "uint64 \<times> message_queue \<times> 'b message_heap"

definition serial_executor :: "(ref \<Rightarrow> addr \<Rightarrow> bool) \<Rightarrow> handler \<Rightarrow> 'b serial_state executor_interface" where
  "serial_executor handled handler =
     \<lparr>ex_execute = (\<lambda>r (now, q, h).
        map_option (\<lambda>(res, q', h'). map_sum id (\<lambda>_. (now, q', h')) res) (SerialExecutor_execute now (hSelf handler) (Some r) q h)),
      ex_cancel = (\<lambda>r (now, q, h).
        map_option (\<lambda>(b, q', h'). Inr (b, now, q', h')) (SerialExecutor_cancel (hSelf handler) (Some r) q h)),
      ex_turn = (\<lambda>_ (now, q, h).
        map_option (\<lambda>(calls, q', h'). Inr (case calls of Runnable_run r # _ \<Rightarrow> Some r | _ \<Rightarrow> None, now, q', h'))
          (serial_turn handled now handler q h)),
      ex_elapse = (\<lambda>t (now, q, h). (max now (of_nat t), q, h))\<rparr>"

text \<open>
  The thread pool; a turn is one of the worker with the number \<open>i\<close>. Cancelling has found the runnable if it is recorded as cancelled.
\<close>

definition pool_executor :: "thread_pool executor_interface" where
  "pool_executor =
     \<lparr>ex_execute = (\<lambda>r tp. ThreadPoolExecutor_execute (Some r) tp),
      ex_cancel = (\<lambda>r tp. map_option (map_sum id (\<lambda>tp'. (cancelled tp' \<noteq> cancelled tp, tp'))) (ThreadPoolExecutor_cancel r tp)),
      ex_turn = (\<lambda>i tp.
        if i < length (mWorkerThreads tp) then
          map_option (map_sum id (\<lambda>tp'. (case mWorkerThreads tp' ! i of Running r \<Rightarrow> Some r | _ \<Rightarrow> None, tp'))) (WorkerThread_turn i tp)
        else None),
      ex_elapse = (\<lambda>_ tp. case ThreadPoolExecutor_shutdown_turn tp of Some (Inr (_, tp')) \<Rightarrow> tp' | _ \<Rightarrow> tp)\<rparr>"

section \<open>AsyncTask\<close>

datatype task_status = PENDING | RUNNING | FINISHED

datatype ('r, 'p) task_message = Post_result "'r option" | Post_progress 'p

datatype ('r, 'p) task_call =
    On_pre_execute
  | On_progress_update 'p
  | On_post_execute "'r option"
  | On_cancelled "'r option"

datatype ('a, 'r) background_event = Began "'a option" | Ended "'r option"

text \<open>
  \<open>mExecutor\<close> is its state, \<open>workers\<close> the number of threads that are in the \<open>run\<close> of the task's runnable. \<open>calls\<close> and \<open>background\<close> record the
  calls of the methods that the handler makes, and the calls of \<open>doInBackground\<close> with the parameters and their results. A result
  may be null.
\<close>

record ('e, 'a, 'r, 'p) async_task =
  mExecutor :: 'e
  mStatus :: task_status
  mCancelled :: bool
  mRunnable :: "nat option"
  mParams :: "'a option"
  keepsItself :: bool
  mailbox :: "('r, 'p) task_message list"
  workers :: nat
  calls :: "('r, 'p) task_call list"
  background :: "('a, 'r) background_event list"

definition AsyncTask_new :: "nat \<Rightarrow> 'e \<Rightarrow> ('e, 'a, 'r, 'p) async_task" where
  "AsyncTask_new r e =
     \<lparr>mExecutor = e, mStatus = PENDING, mCancelled = False, mRunnable = Some r, mParams = None, keepsItself = False, mailbox = [],
      workers = 0, calls = [], background = []\<rparr>"

definition sendToTask :: "('r, 'p) task_message \<Rightarrow> ('e, 'a, 'r, 'p) async_task \<Rightarrow> ('e, 'a, 'r, 'p) async_task" where
  "sendToTask m t = t\<lparr>mailbox := mailbox t @ [m]\<rparr>"

definition AsyncTask_isCancelled :: "('e, 'a, 'r, 'p) async_task \<Rightarrow> bool" where
  "AsyncTask_isCancelled t = mCancelled t"

text \<open>\<open>cancel\<close>, on the thread of the handler: first its test and then what it does. The runnable is not null as long as the task is running.\<close>

definition AsyncTask_cancel_act ::
  "'e executor_interface \<Rightarrow> ('e, 'a, 'r, 'p) async_task \<Rightarrow> (bool \<times> ('e, 'a, 'r, 'p) async_task) result option" where
  "AsyncTask_cancel_act ex t =
     (let t1 = t\<lparr>mCancelled := True\<rparr>
      in case mRunnable t1 of
           None \<Rightarrow> Some (Inl Undefined)
         | Some r \<Rightarrow>
             map_option (map_sum id (\<lambda>(cancelled, e).
               (True, if cancelled then sendToTask (Post_result None) (t1\<lparr>mExecutor := e\<rparr>) else t1\<lparr>mExecutor := e\<rparr>)))
               (ex_cancel ex r (mExecutor t1)))"

definition AsyncTask_cancel ::
  "'e executor_interface \<Rightarrow> ('e, 'a, 'r, 'p) async_task \<Rightarrow> (bool \<times> ('e, 'a, 'r, 'p) async_task) result option" where
  "AsyncTask_cancel ex t =
     (if \<not> AsyncTask_isCancelled t \<and> mStatus t = RUNNING then AsyncTask_cancel_act ex t else Some (Inr (False, t)))"

text \<open>\<open>pre\<close> says whether \<open>onPreExecute\<close> calls \<open>cancel\<close>.\<close>

definition AsyncTask_executeOnExecutor ::
  "'e executor_interface \<Rightarrow> bool \<Rightarrow> 'a \<Rightarrow> ('e, 'a, 'r, 'p) async_task \<Rightarrow> ('e, 'a, 'r, 'p) async_task result option" where
  "AsyncTask_executeOnExecutor ex pre params t =
     (if mStatus t \<noteq> PENDING then Some (Inl IllegalStateException)
      else
        let t1 = t\<lparr>keepsItself := True, mStatus := RUNNING, calls := calls t @ [On_pre_execute]\<rparr>
        in case (if pre then map_option (map_sum id snd) (AsyncTask_cancel ex t1) else Some (Inr t1)) of
             None \<Rightarrow> None
           | Some (Inl x) \<Rightarrow> Some (Inl x)
           | Some (Inr t2) \<Rightarrow>
               (case mRunnable t2 of
                  None \<Rightarrow> Some (Inl Undefined)
                | Some r \<Rightarrow>
                    map_option (map_sum id (\<lambda>e. t2\<lparr>mParams := Some params, mExecutor := e\<rparr>)) (ex_execute ex r (mExecutor t2))))"

definition AsyncTask_execute ::
  "(ref \<Rightarrow> addr \<Rightarrow> bool) \<Rightarrow> handler \<Rightarrow> bool \<Rightarrow> 'a \<Rightarrow> ('b serial_state, 'a, 'r, 'p) async_task \<Rightarrow>
     ('b serial_state, 'a, 'r, 'p) async_task result option" where
  "AsyncTask_execute handled handler pre params t = AsyncTask_executeOnExecutor (serial_executor handled handler) pre params t"

definition AsyncTask_publishProgress :: "'p \<Rightarrow> ('e, 'a, 'r, 'p) async_task \<Rightarrow> ('e, 'a, 'r, 'p) async_task" where
  "AsyncTask_publishProgress v t = (if \<not> AsyncTask_isCancelled t then sendToTask (Post_progress v) t else t)"

text \<open>\<open>run\<close> of the runnable up to the call of \<open>doInBackground\<close>, and from its return.\<close>

definition WorkerRunnable_run_begin :: "('e, 'a, 'r, 'p) async_task \<Rightarrow> ('e, 'a, 'r, 'p) async_task" where
  "WorkerRunnable_run_begin t = t\<lparr>workers := workers t + 1, background := background t @ [Began (mParams t)]\<rparr>"

definition WorkerRunnable_run_end :: "'r option \<Rightarrow> ('e, 'a, 'r, 'p) async_task \<Rightarrow> ('e, 'a, 'r, 'p) async_task" where
  "WorkerRunnable_run_end res t =
     sendToTask (Post_result res) (t\<lparr>workers := workers t - 1, background := background t @ [Ended res]\<rparr>)"

definition AsyncTask_finish :: "'r option \<Rightarrow> ('e, 'a, 'r, 'p) async_task \<Rightarrow> ('e, 'a, 'r, 'p) async_task" where
  "AsyncTask_finish res t =
     t\<lparr>calls := calls t @ [if AsyncTask_isCancelled t then On_cancelled res else On_post_execute res],
       mStatus := FINISHED, mRunnable := None, keepsItself := False\<rparr>"

definition InternalHandler_handleMessage :: "('r, 'p) task_message \<Rightarrow> ('e, 'a, 'r, 'p) async_task \<Rightarrow> ('e, 'a, 'r, 'p) async_task" where
  "InternalHandler_handleMessage m t =
     (case m of
        Post_result res \<Rightarrow> AsyncTask_finish res t
      | Post_progress v \<Rightarrow> t\<lparr>calls := calls t @ [On_progress_update v]\<rparr>)"

section \<open>Interleavings\<close>

text \<open>
  One task with the runnable \<open>own\<close>, on an executor that others use too. A thread of the executor may go on before the run of the
  task has ended, which only adds interleavings.
\<close>

inductive task_step :: "'e executor_interface \<Rightarrow> nat \<Rightarrow> ('e, 'a, 'r, 'p) async_task \<Rightarrow> ('e, 'a, 'r, 'p) async_task \<Rightarrow> bool" for ex own where
  execute: "AsyncTask_executeOnExecutor ex pre params t = Some (Inr t') \<Longrightarrow> task_step ex own t t'"
| cancel: "AsyncTask_cancel ex t = Some (Inr (b, t')) \<Longrightarrow> task_step ex own t t'"
| run: "ex_turn ex i (mExecutor t) = Some (Inr (Some own, e)) \<Longrightarrow> task_step ex own t (WorkerRunnable_run_begin (t\<lparr>mExecutor := e\<rparr>))"
| publish: "workers t \<noteq> 0 \<Longrightarrow> task_step ex own t (AsyncTask_publishProgress v t)"
| finish: "workers t \<noteq> 0 \<Longrightarrow> task_step ex own t (WorkerRunnable_run_end res t)"
| handle: "mailbox t = m # ms \<Longrightarrow> task_step ex own t (InternalHandler_handleMessage m (t\<lparr>mailbox := ms\<rparr>))"
| run_other: "ex_turn ex i (mExecutor t) = Some (Inr (r, e)) \<Longrightarrow> r \<noteq> Some own \<Longrightarrow> task_step ex own t (t\<lparr>mExecutor := e\<rparr>)"
| execute_other: "ex_execute ex r (mExecutor t) = Some (Inr e) \<Longrightarrow> r \<noteq> own \<Longrightarrow> task_step ex own t (t\<lparr>mExecutor := e\<rparr>)"
| cancel_other: "ex_cancel ex r (mExecutor t) = Some (Inr (b, e)) \<Longrightarrow> r \<noteq> own \<Longrightarrow> task_step ex own t (t\<lparr>mExecutor := e\<rparr>)"
| elapse: "task_step ex own t (t\<lparr>mExecutor := ex_elapse ex n (mExecutor t)\<rparr>)"

inductive task_reachable :: "'e executor_interface \<Rightarrow> nat \<Rightarrow> ('e, 'a, 'r, 'p) async_task \<Rightarrow> ('e, 'a, 'r, 'p) async_task \<Rightarrow> bool" for ex own t0 where
  start: "task_reachable ex own t0 t0"
| step: "task_reachable ex own t0 t \<Longrightarrow> task_step ex own t t' \<Longrightarrow> task_reachable ex own t0 t'"


section \<open>What a task does\<close>

text \<open>How the run of a task whose result is \<open>r\<close> went: it was cancelled before it began, or it ran once and returned \<open>r\<close>.\<close>

definition ends_as :: "'r option \<Rightarrow> ('e, 'a, 'r, 'p) async_task \<Rightarrow> bool" where
  "ends_as r t \<longleftrightarrow> background t = [] \<and> mCancelled t \<and> r = None \<or> (\<exists>a. background t = [Began a, Ended r])"

text \<open>
  The states of a task while \<open>rs\<close> are the runnables that wait in its executor: not executed; waiting there, in the background, or with its
  result on the way to the handler; finished.
\<close>

definition task_waits :: "nat \<Rightarrow> ('e, 'a, 'r, 'p) async_task \<Rightarrow> nat list \<Rightarrow> bool" where
  "task_waits own t rs \<longleftrightarrow> count_list rs own = 1 \<and> workers t = 0 \<and> mailbox t = [] \<and> background t = []"

definition task_runs :: "nat \<Rightarrow> ('e, 'a, 'r, 'p) async_task \<Rightarrow> nat list \<Rightarrow> bool" where
  "task_runs own t rs \<longleftrightarrow> own \<notin> set rs \<and> workers t = 1 \<and> (\<exists>vs. mailbox t = map Post_progress vs) \<and> (\<exists>a. background t = [Began a])"

definition task_reports :: "nat \<Rightarrow> ('e, 'a, 'r, 'p) async_task \<Rightarrow> nat list \<Rightarrow> bool" where
  "task_reports own t rs \<longleftrightarrow> own \<notin> set rs \<and> workers t = 0 \<and>
     (\<exists>vs r. mailbox t = map Post_progress vs @ [Post_result r] \<and> ends_as r t)"

definition task_ok :: "nat \<Rightarrow> ('e, 'a, 'r, 'p) async_task \<Rightarrow> nat list \<Rightarrow> bool" where
  "task_ok own t rs \<longleftrightarrow>
     (case mStatus t of
        PENDING \<Rightarrow> own \<notin> set rs \<and> workers t = 0 \<and> mailbox t = [] \<and> calls t = [] \<and> background t = [] \<and> \<not> mCancelled t \<and>
          mRunnable t = Some own
      | RUNNING \<Rightarrow> mRunnable t = Some own \<and> (\<exists>ps. calls t = On_pre_execute # map On_progress_update ps) \<and>
          (task_waits own t rs \<or> task_runs own t rs \<or> task_reports own t rs)
      | FINISHED \<Rightarrow> own \<notin> set rs \<and> workers t = 0 \<and> mailbox t = [] \<and>
          (\<exists>ps r. calls t = On_pre_execute # map On_progress_update ps @ [if mCancelled t then On_cancelled r else On_post_execute r] \<and>
             ends_as r t))"

lemmas task_states = task_ok_def task_waits_def task_runs_def task_reports_def ends_as_def

lemma task_ok_count:
  "task_ok own t rs \<Longrightarrow> count_list rs' own = count_list rs own \<Longrightarrow> task_ok own (t\<lparr>mExecutor := e\<rparr>) rs'"
  by (cases "mStatus t") (auto simp: task_states count_list_0_iff simp flip: count_list_0_iff)

lemma task_publish_ok: "task_ok own t rs \<Longrightarrow> workers t \<noteq> 0 \<Longrightarrow> task_ok own (AsyncTask_publishProgress v t) rs"
proof -
  assume ok: "task_ok own t rs" and w: "workers t \<noteq> 0"
  then have run: "mStatus t = RUNNING" "task_runs own t rs" by (auto simp: task_states split: task_status.splits)
  then obtain vs where "mailbox t = map Post_progress vs" by (auto simp: task_runs_def)
  then have "\<exists>ws. mailbox t @ [Post_progress v] = map Post_progress ws" by (intro exI[of _ "vs @ [v]"]) simp
  then show ?thesis using ok run by (auto simp: task_ok_def task_runs_def AsyncTask_publishProgress_def sendToTask_def AsyncTask_isCancelled_def)
qed

lemma task_end_ok: "task_ok own t rs \<Longrightarrow> workers t \<noteq> 0 \<Longrightarrow> task_ok own (WorkerRunnable_run_end res t) rs"
proof -
  assume ok: "task_ok own t rs" and w: "workers t \<noteq> 0"
  then have run: "mStatus t = RUNNING" "task_runs own t rs" by (auto simp: task_states split: task_status.splits)
  then have "task_reports own (WorkerRunnable_run_end res t) rs"
    by (auto simp: task_runs_def task_reports_def ends_as_def WorkerRunnable_run_end_def sendToTask_def)
  then show ?thesis using ok run by (simp add: task_ok_def WorkerRunnable_run_end_def sendToTask_def)
qed

lemma task_handle_ok:
  assumes "task_ok own t rs" and "mailbox t = m # ms"
  shows "task_ok own (InternalHandler_handleMessage m (t\<lparr>mailbox := ms\<rparr>)) rs"
proof -
  have run: "mStatus t = RUNNING" "mRunnable t = Some own" "task_runs own t rs \<or> task_reports own t rs"
    using assms by (auto simp: task_states split: task_status.splits)
  obtain ps where ps: "calls t = On_pre_execute # map On_progress_update ps" using assms(1) run(1) by (auto simp: task_ok_def)
  have more: "\<exists>qs. On_pre_execute # map On_progress_update ps @ [On_progress_update v] = On_pre_execute # map On_progress_update qs" for v
    by (intro exI[of _ "ps @ [v]"]) simp
  from run(3) show ?thesis
  proof
    assume runs: "task_runs own t rs"
    then obtain v vs where "m = Post_progress v" "ms = map Post_progress vs" using assms(2) by (auto simp: task_runs_def)
    moreover from this have "task_runs own (InternalHandler_handleMessage m (t\<lparr>mailbox := ms\<rparr>)) rs"
      using runs by (auto simp: task_runs_def InternalHandler_handleMessage_def)
    ultimately show ?thesis using run(1,2) ps more by (simp add: task_ok_def InternalHandler_handleMessage_def)
  next
    assume rep: "task_reports own t rs"
    then obtain vs r where vs: "m # ms = map Post_progress vs @ [Post_result r]" "ends_as r t" using assms(2) by (auto simp: task_reports_def)
    show ?thesis
    proof (cases vs)
      case Nil
      then show ?thesis using vs rep run(1,2) ps
        by (auto simp: task_ok_def task_reports_def ends_as_def InternalHandler_handleMessage_def AsyncTask_finish_def AsyncTask_isCancelled_def)
    next
      case (Cons v ws)
      then have "m = Post_progress v" "ms = map Post_progress ws @ [Post_result r]" using vs(1) by auto
      moreover from this have "task_reports own (InternalHandler_handleMessage m (t\<lparr>mailbox := ms\<rparr>)) rs"
        using rep vs(2) by (auto simp: task_reports_def ends_as_def InternalHandler_handleMessage_def)
      ultimately show ?thesis using run(1,2) ps more by (simp add: task_ok_def InternalHandler_handleMessage_def)
    qed
  qed
qed


definition task_inv :: "(nat list \<Rightarrow> 'e \<Rightarrow> bool) \<Rightarrow> nat \<Rightarrow> ('e, 'a, 'r, 'p) async_task \<Rightarrow> bool" where
  "task_inv rep own t \<longleftrightarrow> (\<exists>rs. rep rs (mExecutor t) \<and> task_ok own t rs)"

text \<open>The contract of an executor: \<open>rep rs e\<close> says that the runnables that wait in its state \<open>e\<close> are \<open>rs\<close>, in order.\<close>

locale task_executor =
  fixes rep :: "nat list \<Rightarrow> 'e \<Rightarrow> bool" and ex :: "'e executor_interface"
  assumes execute_law: "rep rs e \<Longrightarrow> \<exists>e'. ex_execute ex r e = Some (Inr e') \<and> rep (rs @ [r]) e'"
    and cancel_law: "rep rs e \<Longrightarrow> \<exists>e'. ex_cancel ex r e = Some (Inr (r \<in> set rs, e')) \<and> rep (filter (\<lambda>x. x \<noteq> r) rs) e'"
    and turn_law: "rep rs e \<Longrightarrow> ex_turn ex i e = Some (Inr (s, e')) \<Longrightarrow>
      (case s of None \<Rightarrow> rep rs e' | Some r \<Rightarrow> rs \<noteq> [] \<and> r = hd rs \<and> rep (tl rs) e')"
    and elapse_law: "rep rs e \<Longrightarrow> rep rs (ex_elapse ex n e)"
begin

lemma task_cancel_inv:
  assumes "rep rs (mExecutor t)" and "task_ok own t rs"
  shows "\<exists>b t'. AsyncTask_cancel ex t = Some (Inr (b, t')) \<and> task_inv rep own t' \<and>
    (b \<longleftrightarrow> mStatus t = RUNNING \<and> \<not> mCancelled t) \<and> (b \<longrightarrow> mStatus t' = RUNNING \<and> mCancelled t')"
proof (cases "\<not> mCancelled t \<and> mStatus t = RUNNING")
  case False
  then show ?thesis using assms by (auto simp: AsyncTask_cancel_def AsyncTask_isCancelled_def task_inv_def)
next
  case True
  then have run: "mRunnable t = Some own" "task_waits own t rs \<or> task_runs own t rs \<or> task_reports own t rs"
    using assms(2) by (simp_all add: task_ok_def)
  obtain e where e: "ex_cancel ex own (mExecutor t) = Some (Inr (own \<in> set rs, e))" "rep (filter (\<lambda>x. x \<noteq> own) rs) e"
    using cancel_law[OF assms(1)] by blast
  let ?t = "t\<lparr>mCancelled := True, mExecutor := e\<rparr>"
  let ?u = "if own \<in> set rs then sendToTask (Post_result None) ?t else ?t"
  have act: "AsyncTask_cancel ex t = Some (Inr (True, ?u))"
    using True run(1) e(1) by (simp add: AsyncTask_cancel_def AsyncTask_isCancelled_def AsyncTask_cancel_act_def Let_def)
  have "task_ok own ?u (filter (\<lambda>x. x \<noteq> own) rs)"
  proof (cases "own \<in> set rs")
    case in_queue: True
    then have "task_waits own t rs" using run(2) by (auto simp: task_runs_def task_reports_def)
    then have "task_reports own ?u (filter (\<lambda>x. x \<noteq> own) rs)"
      using in_queue by (auto simp: task_waits_def task_reports_def ends_as_def sendToTask_def)
    then show ?thesis using assms(2) True in_queue by (simp add: task_ok_def sendToTask_def)
  next
    case False
    then have "\<not> task_waits own t rs" by (auto simp: task_waits_def count_list_0_iff)
    moreover have "task_runs own ?u (filter (\<lambda>x. x \<noteq> own) rs)" if "task_runs own t rs"
      using that False by (simp add: task_runs_def)
    moreover have "task_reports own ?u (filter (\<lambda>x. x \<noteq> own) rs)" if reports: "task_reports own t rs"
    proof -
      obtain vs r where "mailbox t = map Post_progress vs @ [Post_result r]" "ends_as r t" using reports by (auto simp: task_reports_def)
      moreover from this have "ends_as r ?u" using False by (simp add: ends_as_def) blast
      ultimately show ?thesis using reports False unfolding task_reports_def by auto
    qed
    ultimately have "task_runs own ?u (filter (\<lambda>x. x \<noteq> own) rs) \<or> task_reports own ?u (filter (\<lambda>x. x \<noteq> own) rs)"
      using run(2) by blast
    then show ?thesis using assms(2) True False by (simp add: task_ok_def)
  qed
  then have "task_inv rep own ?u" using e(2) unfolding task_inv_def by (intro exI[of _ "filter (\<lambda>x. x \<noteq> own) rs"]) (simp add: sendToTask_def)
  then show ?thesis using act True by (intro exI[of _ True] exI[of _ ?u]) (simp add: sendToTask_def)
qed

lemma task_execute_inv:
  assumes "rep rs (mExecutor t)" and "task_ok own t rs"
  shows "case AsyncTask_executeOnExecutor ex pre params t of
      None \<Rightarrow> False
    | Some (Inl x) \<Rightarrow> x = IllegalStateException \<and> mStatus t \<noteq> PENDING
    | Some (Inr t') \<Rightarrow> mStatus t = PENDING \<and> mStatus t' = RUNNING \<and> mCancelled t' = pre \<and> mParams t' = Some params \<and>
        (\<exists>rs'. rep rs' (mExecutor t') \<and> own \<in> set rs' \<and> task_ok own t' rs')"
proof (cases "mStatus t = PENDING")
  case False
  then show ?thesis by (simp add: AsyncTask_executeOnExecutor_def)
next
  case True
  then have new: "own \<notin> set rs" "workers t = 0" "mailbox t = []" "calls t = []" "background t = []" "\<not> mCancelled t" "mRunnable t = Some own"
    using assms(2) by (simp_all add: task_ok_def)
  let ?t = "t\<lparr>keepsItself := True, mStatus := RUNNING, calls := calls t @ [On_pre_execute]\<rparr>"
  obtain e where e: "ex_cancel ex own (mExecutor t) = Some (Inr (False, e))" "rep rs e"
    using cancel_law[OF assms(1), of own] new(1) by (auto simp: filter_id_conv) (metis (mono_tags, lifting) filter_True)
  let ?u = "if pre then ?t\<lparr>mCancelled := True, mExecutor := e\<rparr> else ?t"
  have pre: "(if pre then map_option (map_sum id snd) (AsyncTask_cancel ex ?t) else Some (Inr ?t)) = Some (Inr ?u)"
    using e(1) new by (simp add: AsyncTask_cancel_def AsyncTask_isCancelled_def AsyncTask_cancel_act_def Let_def)
  obtain e' where e': "ex_execute ex own (mExecutor ?u) = Some (Inr e')" "rep (rs @ [own]) e'"
    using execute_law[of rs "mExecutor ?u" own] e(2) assms(1) by (cases pre) auto
  let ?v = "?u\<lparr>mParams := Some params, mExecutor := e'\<rparr>"
  have "mRunnable ?u = Some own" using new(7) by simp
  then have run: "AsyncTask_executeOnExecutor ex pre params t = Some (Inr ?v)"
    using True pre e'(1) by (simp add: AsyncTask_executeOnExecutor_def Let_def)
  have "task_waits own ?v (rs @ [own])"
    using new by (simp add: task_waits_def count_list_0_iff)
  then have "task_ok own ?v (rs @ [own])" using new by (cases pre) (simp_all add: task_ok_def)
  then have "\<exists>rs'. rep rs' (mExecutor ?v) \<and> own \<in> set rs' \<and> task_ok own ?v rs'" using e'(2) by (intro exI[of _ "rs @ [own]"]) simp
  then show ?thesis unfolding run using True new(6) by simp
qed

lemma task_step_inv: "task_step ex own t t' \<Longrightarrow> task_inv rep own t \<Longrightarrow> task_inv rep own t'"
proof (induction rule: task_step.induct)
  case (execute pre params t t')
  then show ?case using task_execute_inv[of _ t own pre params] by (auto simp: task_inv_def)
next
  case (cancel t b t')
  then show ?case using task_cancel_inv[of _ t own] by (auto simp: task_inv_def)
next
  case (run i t e)
  then obtain rs where rs: "rep rs (mExecutor t)" "task_ok own t rs" by (auto simp: task_inv_def)
  then have hd: "rs \<noteq> []" "own = hd rs" "rep (tl rs) e" using turn_law[OF rs(1) run.hyps] by simp_all
  then obtain qs where qs: "rs = own # qs" by (cases rs) auto
  then have "mStatus t = RUNNING" "task_waits own t rs"
    using rs(2) by (auto simp: task_states split: task_status.splits)
  then have "task_ok own (WorkerRunnable_run_begin (t\<lparr>mExecutor := e\<rparr>)) qs"
    using rs(2) qs by (auto simp: task_ok_def task_waits_def task_runs_def count_list_0_iff WorkerRunnable_run_begin_def)
  then show ?case using hd(3) qs by (auto simp: task_inv_def WorkerRunnable_run_begin_def)
next
  case (publish t v)
  then show ?case using task_publish_ok[of own t _ v] by (auto simp: task_inv_def AsyncTask_publishProgress_def sendToTask_def)
next
  case (finish t res)
  then show ?case using task_end_ok[of own t _ res] by (auto simp: task_inv_def WorkerRunnable_run_end_def sendToTask_def)
next
  case (handle t m ms)
  then show ?case using task_handle_ok[of own t _ m ms]
    by (auto simp: task_inv_def InternalHandler_handleMessage_def AsyncTask_finish_def split: task_message.splits)
next
  case (run_other i t r e)
  then obtain rs where rs: "rep rs (mExecutor t)" "task_ok own t rs" by (auto simp: task_inv_def)
  obtain qs where "rep qs e" "count_list qs own = count_list rs own"
    using turn_law[OF rs(1) run_other.hyps(1)] run_other.hyps(2) by (cases rs) (auto split: option.splits)
  then show ?case using task_ok_count[OF rs(2)] by (auto simp: task_inv_def)
next
  case (execute_other r t e)
  then obtain rs where rs: "rep rs (mExecutor t)" "task_ok own t rs" by (auto simp: task_inv_def)
  have "rep (rs @ [r]) e" "count_list (rs @ [r]) own = count_list rs own"
    using execute_law[OF rs(1), of r] execute_other.hyps by auto
  then show ?case using task_ok_count[OF rs(2)] unfolding task_inv_def by (intro exI[of _ "rs @ [r]"]) simp
next
  case (cancel_other r t b e)
  then obtain rs where rs: "rep rs (mExecutor t)" "task_ok own t rs" by (auto simp: task_inv_def)
  have "rep (filter (\<lambda>x. x \<noteq> r) rs) e" "count_list (filter (\<lambda>x. x \<noteq> r) rs) own = count_list rs own"
    using cancel_law[OF rs(1), of r] cancel_other.hyps count_list_filter_other[of r own rs] by auto
  then show ?case using task_ok_count[OF rs(2)] unfolding task_inv_def by (intro exI[of _ "filter (\<lambda>x. x \<noteq> r) rs"]) simp
next
  case (elapse t n)
  then obtain rs where rs: "rep rs (mExecutor t)" "task_ok own t rs" by (auto simp: task_inv_def)
  then show ?case using elapse_law[OF rs(1), of n] task_ok_count[OF rs(2) refl] by (auto simp: task_inv_def)
qed

lemma task_reachable_inv:
  assumes "task_reachable ex own (AsyncTask_new own e) t" and "rep rs e" and "own \<notin> set rs"
  shows "task_inv rep own t"
  using assms(1)
proof (induction rule: task_reachable.induct)
  case start
  then show ?case using assms(2,3) by (auto simp: task_inv_def task_ok_def AsyncTask_new_def)
qed (rule task_step_inv)

text \<open>What a task has done and what is left of it, for runnables that wait as \<open>rs\<close>.\<close>

lemma task_outcome:
  assumes "task_inv rep own t"
  shows "\<exists>ps fin qs. calls t = (if mStatus t = PENDING then [] else On_pre_execute # map On_progress_update ps @ fin) \<and>
    (mStatus t \<noteq> FINISHED \<longrightarrow> fin = []) \<and>
    (mStatus t = FINISHED \<longrightarrow> (\<exists>r. fin = [if mCancelled t then On_cancelled r else On_post_execute r] \<and> ends_as r t) \<and>
      mailbox t = [] \<and> workers t = 0) \<and>
    (\<exists>a r. background t \<in> {[], [Began a], [Began a, Ended r]}) \<and> rep qs (mExecutor t) \<and>
    (mStatus t = RUNNING \<longrightarrow> own \<in> set qs \<or> workers t = 1 \<or> (\<exists>r. Post_result r \<in> set (mailbox t)))"
proof -
  obtain rs where rs: "rep rs (mExecutor t)" "task_ok own t rs" using assms by (auto simp: task_inv_def)
  have bg: "\<exists>a r. background t \<in> {[], [Began a], [Began a, Ended r]}"
    using rs(2) by (cases "mStatus t") (auto simp: task_states)
  have left: "mStatus t = RUNNING \<longrightarrow> own \<in> set rs \<or> workers t = 1 \<or> (\<exists>r. Post_result r \<in> set (mailbox t))"
  proof
    assume "mStatus t = RUNNING"
    then have "task_waits own t rs \<or> task_runs own t rs \<or> task_reports own t rs" using rs(2) by (simp add: task_ok_def)
    moreover have "own \<in> set rs" if "task_waits own t rs"
      using that by (intro ccontr[of "own \<in> set rs"]) (simp add: task_waits_def)
    ultimately show "own \<in> set rs \<or> workers t = 1 \<or> (\<exists>r. Post_result r \<in> set (mailbox t))"
      by (auto simp: task_runs_def task_reports_def)
  qed
  show ?thesis
  proof (cases "mStatus t = FINISHED")
    case True
    then obtain ps r where "calls t = On_pre_execute # map On_progress_update ps @ [if mCancelled t then On_cancelled r else On_post_execute r]"
      "ends_as r t" "mailbox t = []" "workers t = 0" using rs(2) by (auto simp: task_ok_def)
    then show ?thesis using bg rs(1) True
      by (intro exI[of _ ps] exI[of _ "[if mCancelled t then On_cancelled r else On_post_execute r]"] exI[of _ rs] conjI) simp_all
  next
    case False
    then obtain ps where "calls t = (if mStatus t = PENDING then [] else On_pre_execute # map On_progress_update ps)"
      using rs(2) by (cases "mStatus t") (auto simp: task_ok_def)
    then show ?thesis using bg left rs(1) False by (intro exI[of _ ps] exI[of _ "[]"] exI[of _ rs] conjI) simp_all
  qed
qed

text \<open>A task that was cancelled before it ran never runs; one that was cancelled stays cancelled.\<close>

definition never_runs :: "nat \<Rightarrow> ('e, 'a, 'r, 'p) async_task \<Rightarrow> bool" where
  "never_runs own t \<longleftrightarrow> mCancelled t \<and> background t = [] \<and> mStatus t \<noteq> PENDING \<and> workers t = 0 \<and> (\<exists>rs. rep rs (mExecutor t) \<and> own \<notin> set rs)"

lemma never_runs_step: "task_step ex own t t' \<Longrightarrow> never_runs own t \<Longrightarrow> never_runs own t'"
proof (induction rule: task_step.induct)
  case (run i t e)
  then show ?case using turn_law[OF _ run.hyps] by (auto simp: never_runs_def)
next
  case (run_other i t r e)
  then obtain rs where rs: "rep rs (mExecutor t)" "own \<notin> set rs" by (auto simp: never_runs_def)
  obtain qs where "rep qs e" "own \<notin> set qs"
    using turn_law[OF rs(1) run_other.hyps(1)] rs(2) by (cases rs) (auto split: option.splits)
  then show ?case using run_other.prems by (auto simp: never_runs_def)
next
  case (execute_other r t e)
  then obtain rs where rs: "rep rs (mExecutor t)" "own \<notin> set rs" by (auto simp: never_runs_def)
  then have "rep (rs @ [r]) e" "own \<notin> set (rs @ [r])" using execute_law[OF rs(1), of r] execute_other.hyps by auto
  then show ?case using execute_other.prems by (auto simp: never_runs_def)
next
  case (cancel_other r t b e)
  then obtain rs where rs: "rep rs (mExecutor t)" "own \<notin> set rs" by (auto simp: never_runs_def)
  then have "rep (filter (\<lambda>x. x \<noteq> r) rs) e" "own \<notin> set (filter (\<lambda>x. x \<noteq> r) rs)"
    using cancel_law[OF rs(1), of r] cancel_other.hyps by auto
  then show ?case using cancel_other.prems unfolding never_runs_def by auto
next
  case (handle t m ms)
  then show ?case by (auto simp: never_runs_def InternalHandler_handleMessage_def AsyncTask_finish_def split: task_message.splits)
qed (use elapse_law in \<open>auto simp: never_runs_def AsyncTask_executeOnExecutor_def AsyncTask_cancel_def AsyncTask_isCancelled_def
      AsyncTask_publishProgress_def\<close>)

lemma cancelled_step: "task_step ex own t t' \<Longrightarrow> mCancelled t \<Longrightarrow> mCancelled t'"
proof (induction rule: task_step.induct)
  case (execute pre params t t')
  then show ?case
    by (auto simp: AsyncTask_executeOnExecutor_def AsyncTask_cancel_def AsyncTask_isCancelled_def Let_def map_outcome_eq split: if_splits option.splits sum.splits)
qed (auto simp: AsyncTask_cancel_def AsyncTask_isCancelled_def AsyncTask_publishProgress_def WorkerRunnable_run_begin_def WorkerRunnable_run_end_def
    InternalHandler_handleMessage_def AsyncTask_finish_def sendToTask_def split: task_message.splits)

lemma after_cancel:
  assumes "task_reachable ex own t0 t" and "mCancelled t0" and "task_inv rep own t0"
  shows "task_inv rep own t \<and> mCancelled t \<and> On_post_execute r \<notin> set (calls t) \<and> (never_runs own t0 \<longrightarrow> background t = [])"
proof -
  have "task_inv rep own t \<and> mCancelled t \<and> (never_runs own t0 \<longrightarrow> never_runs own t)"
    using assms(1)
  proof (induction rule: task_reachable.induct)
    case (step t t')
    then show ?case using task_step_inv cancelled_step never_runs_step by blast
  qed (use assms(2,3) in simp)
  moreover from this have "On_post_execute r \<notin> set (calls t)"
    by (cases "mStatus t") (auto simp: task_inv_def task_ok_def)
  ultimately show ?thesis by (auto simp: never_runs_def)
qed

lemma cancel_waiting:
  assumes "rep rs (mExecutor t)" and "task_ok own t rs" and "own \<in> set rs" and "AsyncTask_cancel ex t = Some (Inr (True, t'))"
  shows "never_runs own t'"
proof -
  have run: "mStatus t = RUNNING" "task_waits own t rs" "mRunnable t = Some own" "\<not> mCancelled t"
    using assms(2,3,4) by (auto simp: task_states AsyncTask_cancel_def AsyncTask_isCancelled_def split: task_status.splits if_splits)
  obtain e where e: "ex_cancel ex own (mExecutor t) = Some (Inr (True, e))" "rep (filter (\<lambda>x. x \<noteq> own) rs) e"
    using cancel_law[OF assms(1), of own] assms(3) by auto
  have "t' = sendToTask (Post_result None) (t\<lparr>mCancelled := True, mExecutor := e\<rparr>)"
    using assms(4) run(1,3,4) e(1) by (simp add: AsyncTask_cancel_def AsyncTask_isCancelled_def AsyncTask_cancel_act_def Let_def)
  then show ?thesis using e(2) run(1,2) unfolding never_runs_def task_waits_def
    by (auto simp: sendToTask_def intro!: exI[of _ "filter (\<lambda>x. x \<noteq> own) rs"])
qed

end

section \<open>The executors of the library\<close>

definition serial_rep :: "handler \<Rightarrow> nat list \<Rightarrow> 'b serial_state \<Rightarrow> bool" where
  "serial_rep handler rs e \<longleftrightarrow> (case e of (now, q, h) \<Rightarrow> serial_holds (hSelf handler) now rs q h \<and> now \<noteq> 0)"

definition pool_rep :: "nat list \<Rightarrow> thread_pool \<Rightarrow> bool" where
  "pool_rep rs tp \<longleftrightarrow> (\<exists>xs. holds (mQueue tp) xs \<and> runnables xs = rs)"

interpretation serial: task_executor "serial_rep handler" "serial_executor handled handler" for handled handler
proof
  fix rs r i n s and e e' :: "'b serial_state"
  assume rep: "serial_rep handler rs e"
  obtain now q h where e: "e = (now, q, h)" by (cases e)
  have serial: "serial_holds (hSelf handler) now rs q h" "now \<noteq> 0" using rep e by (simp_all add: serial_rep_def)
  show "\<exists>e'. ex_execute (serial_executor handled handler) r e = Some (Inr e') \<and> serial_rep handler (rs @ [r]) e'"
    using serial_execute[OF serial(1) order_refl serial(2), of r] serial(2) e by (auto simp: serial_executor_def serial_rep_def)
  show "\<exists>e'. ex_cancel (serial_executor handled handler) r e = Some (Inr (r \<in> set rs, e')) \<and> serial_rep handler (filter (\<lambda>x. x \<noteq> r) rs) e'"
    using serial_cancel[OF serial(1), of r] serial(2) e by (auto simp: serial_executor_def serial_rep_def)
  show "serial_rep handler rs (ex_elapse (serial_executor handled handler) n e)"
    using serial_holds_later[OF serial(1), of "max now (of_nat n)"] serial(2) e
    by (auto simp: serial_executor_def serial_rep_def max_def simp flip: word_neq_0_conv split: if_splits)
  assume turn: "ex_turn (serial_executor handled handler) i e = Some (Inr (s, e'))"
  show "case s of None \<Rightarrow> serial_rep handler rs e' | Some r \<Rightarrow> rs \<noteq> [] \<and> r = hd rs \<and> serial_rep handler (tl rs) e'"
    using turn serial_turn_runs[OF serial(1) refl, of handled] serial(2) e
    by (cases rs) (auto simp: serial_executor_def serial_rep_def)
qed

lemma pool_turn_rep:
  assumes "pool_rep rs tp" and "i < length (mWorkerThreads tp)" and "WorkerThread_turn i tp = Some (Inr tp')"
  shows "case mWorkerThreads tp' ! i of Running r \<Rightarrow> rs \<noteq> [] \<and> r = hd rs \<and> pool_rep (tl rs) tp' | _ \<Rightarrow> pool_rep rs tp'"
proof -
  obtain xs where xs: "holds (mQueue tp) xs" "runnables xs = rs" using assms(1) by (auto simp: pool_rep_def)
  show ?thesis
  proof (cases "mWorkerThreads tp ! i")
    case Taking
    obtain q where q: "LinkedBlockingQueue_take (mQueue tp) = Inr (case xs of [] \<Rightarrow> None | x # _ \<Rightarrow> Some x, q)" "holds q (tl xs)"
      using lbq.take_law[OF xs(1)] by blast
    then obtain x ys where "xs = x # ys" using assms(3) Taking by (cases xs) (auto simp: WorkerThread_turn_def)
    then show ?thesis
      using q assms(2,3) xs(2) Taking by (cases x) (auto simp: WorkerThread_turn_def pool_rep_def)
  qed (use assms(2,3) xs in \<open>auto simp: WorkerThread_turn_def pool_rep_def split: if_splits\<close>)
qed

lemma pool_shutdown_rep:
  assumes "pool_rep rs tp" and "ThreadPoolExecutor_shutdown_turn tp = Some (Inr (b, tp'))"
  shows "pool_rep rs tp'"
proof -
  obtain xs where xs: "holds (mQueue tp) xs" "runnables xs = rs" using assms(1) by (auto simp: pool_rep_def)
  obtain q where "LinkedBlockingQueue_put None (mQueue tp) = Some (Inr (True, q))" "holds q (xs @ [None])"
    using lbq.put_law[OF xs(1)] by blast
  moreover from this have "pool_rep rs (tp\<lparr>mQueue := q, progress := p\<rparr>)" for p
    unfolding pool_rep_def using xs(2) by (intro exI[of _ "xs @ [None]"]) simp
  ultimately show ?thesis using assms
    by (auto simp: ThreadPoolExecutor_shutdown_turn_def Let_def with_queue_def pool_rep_def split: shutdown.splits if_splits)
qed

interpretation pool: task_executor pool_rep pool_executor
proof
  fix rs r i n s and e e' :: thread_pool
  assume rep: "pool_rep rs e"
  then obtain xs where xs: "holds (mQueue e) xs" "runnables xs = rs" by (auto simp: pool_rep_def)
  show "\<exists>e'. ex_execute pool_executor r e = Some (Inr e') \<and> pool_rep (rs @ [r]) e'"
    using lbq.put_law[OF xs(1), of "Some r"] xs(2)
    by (fastforce simp: pool_executor_def pool_rep_def ThreadPoolExecutor_execute_def with_queue_def)
  show "\<exists>e'. ex_cancel pool_executor r e = Some (Inr (r \<in> set rs, e')) \<and> pool_rep (filter (\<lambda>x. x \<noteq> r) rs) e'"
  proof -
    obtain q where q: "LinkedBlockingQueue_remove (Some r) (mQueue e) = Some (Inr (Some r \<in> set xs, q))" "holds q (filter (\<lambda>z. z \<noteq> Some r) xs)"
      using lbq.remove_law[OF xs(1)] by blast
    moreover have "Some r \<in> set xs \<longleftrightarrow> r \<in> set rs" using xs(2) by auto
    moreover have "runnables (filter (\<lambda>z. z \<noteq> Some r) xs) = filter (\<lambda>x. x \<noteq> r) rs" using xs(2) by simp
    ultimately show ?thesis
      by (auto simp: pool_executor_def pool_rep_def ThreadPoolExecutor_cancel_def with_queue_def)
  qed
  show "pool_rep rs (ex_elapse pool_executor n e)"
    using rep pool_shutdown_rep[OF rep] by (auto simp: pool_executor_def split: option.splits sum.splits)
  assume turn: "ex_turn pool_executor i e = Some (Inr (s, e'))"
  then show "case s of None \<Rightarrow> pool_rep rs e' | Some r \<Rightarrow> rs \<noteq> [] \<and> r = hd rs \<and> pool_rep (tl rs) e'"
    using pool_turn_rep[OF rep, of i e'] by (auto simp: pool_executor_def map_outcome_eq split: if_splits worker.splits)
qed


section \<open>Properties\<close>

text \<open>
  (C10) Whatever the interleaving of a task with its executor and with other runnables: the application's methods are called in the order
  \<open>onPreExecute\<close>, \<open>onProgressUpdate\<close> any number of times, and then exactly one of \<open>onPostExecute\<close> and \<open>onCancelled\<close>, the latter
  exactly if the task was cancelled, with the result that \<open>doInBackground\<close> returned (or null if the task did not run); \<open>doInBackground\<close> runs at most
  once; and a task that is not finished waits in the executor, runs, or has its result on the way.
\<close>

theorem AsyncTask_one_outcome:
  assumes "task_reachable (serial_executor handled handler) own (AsyncTask_new own (now, q, h)) t"
    and "serial_holds (hSelf handler) now rs q h" and "now \<noteq> 0" and "own \<notin> set rs"
  shows "\<exists>ps fin qs. calls t = (if mStatus t = PENDING then [] else On_pre_execute # map On_progress_update ps @ fin) \<and>
    (mStatus t \<noteq> FINISHED \<longrightarrow> fin = []) \<and>
    (mStatus t = FINISHED \<longrightarrow> (\<exists>r. fin = [if mCancelled t then On_cancelled r else On_post_execute r] \<and> ends_as r t) \<and>
      mailbox t = [] \<and> workers t = 0) \<and>
    (\<exists>a r. background t \<in> {[], [Began a], [Began a, Ended r]}) \<and> serial_rep handler qs (mExecutor t) \<and>
    (mStatus t = RUNNING \<longrightarrow> own \<in> set qs \<or> workers t = 1 \<or> (\<exists>r. Post_result r \<in> set (mailbox t)))"
proof -
  have "serial_rep handler rs (now, q, h)" using assms(2,3) by (simp add: serial_rep_def)
  from serial.task_reachable_inv[OF assms(1) this assms(4)] show ?thesis by (rule serial.task_outcome)
qed

definition example_task :: "(nat serial_state, nat, nat, nat) async_task" where
  "example_task = AsyncTask_new 1 (5, MessageQueue_new True, MessagePool_new (\<lambda>_. 0))"

theorem AsyncTask_one_outcome_witness:
  "\<exists>t fin. AsyncTask_execute (\<lambda>_ _. True) \<lparr>hSelf = 7, hLooper = 0, mCallback = None\<rparr> False 3 example_task = Some (Inr t) \<and>
     mStatus t = RUNNING \<and> calls t = On_pre_execute # fin"
proof -
  let ?h = "\<lparr>hSelf = 7, hLooper = 0, mCallback = None\<rparr>" and ?e = "(5, MessageQueue_new True, MessagePool_new (\<lambda>_. 0 :: nat)) :: nat serial_state"
  have new: "serial_holds 7 5 [] (MessageQueue_new True) (MessagePool_new (\<lambda>_. 0 :: nat))"
    using serial_holds_later[OF serial_holds_new] by simp
  then have rep: "serial_rep ?h [] ?e" by (simp add: serial_rep_def)
  have ok: "task_ok 1 example_task []" by (simp add: example_task_def task_ok_def AsyncTask_new_def)
  have ex: "mExecutor example_task = ?e" "mStatus example_task = PENDING" by (simp_all add: example_task_def AsyncTask_new_def)
  obtain t where t: "AsyncTask_executeOnExecutor (serial_executor (\<lambda>_ _. True) ?h) False 3 example_task = Some (Inr t)" "mStatus t = RUNNING"
    using serial.task_execute_inv[of ?h "[]" example_task 1 False 3 "\<lambda>_ _. True"] rep ok ex by (auto split: option.splits sum.splits)
  have "task_reachable (serial_executor (\<lambda>_ _. True) ?h) 1 (AsyncTask_new 1 ?e) t"
    using task_step.execute[OF t(1)] by (auto simp: example_task_def intro: task_reachable.intros)
  from AsyncTask_one_outcome[OF this] show ?thesis using new t by (fastforce simp: AsyncTask_execute_def)
qed



text \<open>
  A task is executed once; but cancelling it in \<open>onPreExecute\<close> returns true and does not keep it from running: its runnable is put into the executor
  all the same.
\<close>

lemma AsyncTask_cancel_in_onPreExecute:
  assumes "task_reachable (serial_executor handled handler) own (AsyncTask_new own (now, q, h)) t"
    and "serial_holds (hSelf handler) now rs q h" and "now \<noteq> 0" and "own \<notin> set rs"
  shows "if mStatus t \<noteq> PENDING then AsyncTask_execute handled handler pre params t = Some (Inl IllegalStateException)
    else \<exists>t' rs'. AsyncTask_execute handled handler True params t = Some (Inr t') \<and> mCancelled t' \<and>
      serial_rep handler rs' (mExecutor t') \<and> own \<in> set rs'"
proof -
  have "serial_rep handler rs (now, q, h)" using assms(2,3) by (simp add: serial_rep_def)
  from serial.task_reachable_inv[OF assms(1) this assms(4)] obtain rs where rs: "serial_rep handler rs (mExecutor t)" "task_ok own t rs"
    by (auto simp: task_inv_def)
  show ?thesis
  proof (cases "mStatus t = PENDING")
    case True
    then show ?thesis using serial.task_execute_inv[OF rs, of True params handled]
      by (auto simp: AsyncTask_execute_def split: option.splits sum.splits)
  qed (simp add: AsyncTask_execute_def AsyncTask_executeOnExecutor_def)
qed

end
