(* ===== verification/Base64.thy ===== *)
theory Base64
  imports Strings Sequences
begin

text \<open>
  The Base64 encoder and decoder (\<open>src/mindroid/util/Base64.h\<close> and \<open>Base64.cpp\<close>), with their 32-bit accumulators, whose old
  bits are shifted out at the top. The encoder equals a definition by groups of three bytes; the decoder treats
  characters outside the alphabet, the padding included, like the first letter of the alphabet.
\<close>

section \<open>Tables\<close>

text \<open>The characters of \<open>sChars\<close>, and \<open>sIndex\<close> with its 123 explicit entries, the others being 0.\<close>

definition sChars :: bytes where
  "sChars = map of_nat ([65..<91] @ [97..<123] @ [48..<58] @ [43, 47])"

definition sIndex_entries :: "int32 list" where
  "sIndex_entries =
    [     0, 0, 0, 0, 0, 0, 0, 0, 0, 0, 0, 0, 0, 0, 0, 0, 0, 0, 0, 0, 0, 0, 0, 0, 0, 0, 0, 0, 0, 0, 0, 0, 0, 0, 0, 0, 0, 0,
      0, 0, 0, 0, 0, 62, 63, 62, 62, 63, 52, 53, 54, 55, 56, 57, 58, 59, 60, 61, 0, 0, 0, 0, 0, 0, 0, 0, 1, 2, 3, 4, 5,
      6, 7, 8, 9, 10, 11, 12, 13, 14, 15, 16, 17, 18, 19, 20, 21, 22, 23, 24, 25, 0, 0, 0, 0, 63, 0, 26, 27, 28, 29,
      30, 31, 32, 33, 34, 35, 36, 37, 38, 39, 40, 41, 42, 43, 44, 45, 46, 47, 48, 49, 50, 51]"

definition sIndex :: "uint8 \<Rightarrow> int32" where
  "sIndex c = (if unat c < length sIndex_entries then sIndex_entries ! unat c else 0)"

text \<open>\<open>a >> b\<close> on \<open>int32_t\<close>.\<close>

definition shift_right :: "int32 \<Rightarrow> int \<Rightarrow> int32" where
  "shift_right a b = signed_drop_bit (nat b) a"

definition charAt6 :: "int32 \<Rightarrow> uint8" where
  "charAt6 a = sChars ! unat (a AND 0x3F)"

section \<open>Decoder\<close>

fun decode_loop :: "int32 \<Rightarrow> int \<Rightarrow> bytes \<Rightarrow> bytes \<Rightarrow> bytes" where
  "decode_loop a b [] dst = dst"
| "decode_loop a b (c # src) dst =
     (if sIndex c = - 1 then dst
      else let a = push_bit 6 a + sIndex c; b = b + 6
           in if b \<ge> 0 then decode_loop a (b - 8) src (dst @ [ucast (shift_right a b AND 0xFF)])
              else decode_loop a b src dst)"

definition Decoder_decode_into :: "bytes \<Rightarrow> bytes \<Rightarrow> bytes" where
  "Decoder_decode_into src dst = decode_loop 0 (- 8) src dst"

definition Decoder_decode :: "bytes \<Rightarrow> bytes" where
  "Decoder_decode src = Decoder_decode_into src []"

definition Decoder_decode_string :: "str \<Rightarrow> bytes result" where
  "Decoder_decode_string src =
     (let byteArray = String_getBytes src
      in bind_result (ArrayList_of_array (Some byteArray) (length byteArray)) (\<lambda>l. Inr (Decoder_decode l)))"

section \<open>Encoder\<close>

function encode_digits :: "int32 \<Rightarrow> int \<Rightarrow> bytes \<Rightarrow> int \<times> bytes" where
  "encode_digits a b dst = (if b \<ge> 0 then encode_digits a (b - 6) (dst @ [charAt6 (shift_right a b)]) else (b, dst))"
  by pat_completeness auto
termination by (relation "measure (\<lambda>(a, b, dst). nat (b + 6))") auto

declare encode_digits.simps [simp del]

fun encode_loop :: "int32 \<Rightarrow> int \<Rightarrow> bytes \<Rightarrow> bytes \<Rightarrow> int32 \<times> int \<times> bytes" where
  "encode_loop a b [] dst = (a, b, dst)"
| "encode_loop a b (c # src) dst =
     (let a = push_bit 8 a + ucast c; (b, dst) = encode_digits a (b + 8) dst in encode_loop a b src dst)"

lemma pad_measure:
  assumes "n mod 4 \<noteq> (0 :: nat)"
  shows "(4 - Suc n mod 4) mod 4 < (4 - n mod 4) mod 4"
proof -
  have "n mod 4 < 4" by simp
  with assms consider "n mod 4 = 1" | "n mod 4 = 2" | "n mod 4 = 3" by linarith
  then show ?thesis by cases (simp_all add: mod_Suc)
qed

function pad_loop :: "bytes \<Rightarrow> bytes" where
  "pad_loop dst = (if length dst mod 4 \<noteq> 0 then pad_loop (dst @ [61]) else dst)"
  by pat_completeness auto
termination by (relation "measure (\<lambda>dst. (4 - length dst mod 4) mod 4)") (simp, simp only: in_measure length_append list.size One_nat_def add_0 add_Suc_right add_0_right, rule pad_measure)

declare pad_loop.simps [simp del]

definition Encoder_encode_into :: "bytes \<Rightarrow> bytes \<Rightarrow> bytes" where
  "Encoder_encode_into src dst =
     (let (a, b, dst) = encode_loop 0 (- 6) src dst;
          dst = (if b > - 6 then dst @ [charAt6 (shift_right (push_bit 8 a) (b + 8))] else dst)
      in pad_loop dst)"

definition Encoder_encode :: "bytes \<Rightarrow> bytes" where
  "Encoder_encode src = Encoder_encode_into src []"

definition Encoder_encodeToString :: "bytes \<Rightarrow> str result" where
  "Encoder_encodeToString src =
     (let dst = Encoder_encode_into src [] @ [0] in String_of_chars (Some dst) (length dst))"

section \<open>The encoding by groups\<close>

fun base64 :: "bytes \<Rightarrow> nat list" where
  "base64 [] = []"
| "base64 [x] = [unat x div 4, unat x mod 4 * 16]"
| "base64 [x, y] = [unat x div 4, unat x mod 4 * 16 + unat y div 16, unat y mod 16 * 4]"
| "base64 (x # y # z # zs) =
     [unat x div 4, unat x mod 4 * 16 + unat y div 16, unat y mod 16 * 4 + unat z div 64, unat z mod 64] @ base64 zs"

definition padding :: "nat \<Rightarrow> nat" where
  "padding n = (3 - n mod 3) mod 3"

section \<open>Digits of the accumulator\<close>

lemma unat_byte: "unat (x :: uint8) < 256"
  using unsigned_less[of x] by simp

text \<open>\<open>a\<close> holds the low 32 bits of \<open>m\<close>.\<close>

definition holds_low :: "int32 \<Rightarrow> nat \<Rightarrow> bool" where
  "holds_low a m \<longleftrightarrow> unat a = m mod 2 ^ 32"

lemma holds_low_self: "holds_low a (unat a)"
proof -
  have "unat a < 2 ^ LENGTH(32)" by (rule unsigned_less)
  then show ?thesis by (simp add: holds_low_def)
qed

lemma take_shift_right: "k + n \<le> 32 \<Longrightarrow> take_bit n (shift_right a (int k)) = take_bit n (drop_bit k a)"
  by (rule bit_word_eqI) (auto simp: shift_right_def bit_simps)

lemma digit_of:
  assumes "holds_low a m" and "k + n \<le> 32"
  shows "unat (take_bit n (shift_right a (int k))) = m div 2 ^ k mod 2 ^ n"
proof -
  have "unat (drop_bit k a) = drop_bit k (take_bit 32 m)"
    using assms(1) by (simp add: unsigned_drop_bit_eq holds_low_def take_bit_eq_mod)
  then have "unat (take_bit n (shift_right a (int k))) = take_bit n (drop_bit k (take_bit 32 m))"
    unfolding take_shift_right[OF assms(2)] by (simp only: unsigned_take_bit_eq)
  also have "\<dots> = take_bit n (drop_bit k m)" using assms(2) by (simp add: drop_bit_take_bit min_absorb1)
  finally show ?thesis by (simp add: take_bit_eq_mod drop_bit_eq_div)
qed

lemma charAt6_digit:
  assumes "holds_low a m" and "k + 6 \<le> 32"
  shows "charAt6 (shift_right a (int k)) = sChars ! (m div 2 ^ k mod 64)"
proof -
  have "shift_right a (int k) AND 0x3F = take_bit 6 (shift_right a (int k))" by (simp add: take_bit_eq_mask mask_eq_exp_minus_1)
  then show ?thesis using digit_of[OF assms] by (simp add: charAt6_def)
qed

lemma byte_digit:
  assumes "holds_low a m" and "k + 8 \<le> 32"
  shows "ucast (shift_right a (int k) AND 0xFF) = (of_nat (m div 2 ^ k) :: uint8)"
proof -
  have "shift_right a (int k) AND 0xFF = take_bit 8 (shift_right a (int k))" by (simp add: take_bit_eq_mask mask_eq_exp_minus_1)
  then show ?thesis using digit_of[OF assms]
    by (simp add: word_unat_eq_iff unsigned_ucast_eq unsigned_of_nat take_bit_eq_mod)
qed

lemma holds_low_shift8: "holds_low a m \<Longrightarrow> holds_low (push_bit 8 a) (m * 256)"
  by (simp add: holds_low_def push_bit_eq_mult unat_word_ariths mod_mult_left_eq)

lemma holds_low_byte: "holds_low a m \<Longrightarrow> holds_low (push_bit 8 a + ucast (c :: uint8)) (m * 256 + unat c)"
  using holds_low_shift8[of a m]
  by (simp add: holds_low_def unat_word_ariths unsigned_ucast_eq take_bit_eq_mod mod_add_left_eq mod_add_right_eq)

lemma holds_low_digit:
  assumes "holds_low a m" and "unat d < 64"
  shows "holds_low (push_bit 6 a + d) (m * 64 + unat d)"
  using assms
  by (simp add: holds_low_def push_bit_eq_mult unat_word_ariths mod_mult_left_eq mod_add_left_eq)

section \<open>The encoder\<close>

lemma digit_split:
  fixes n p q r y :: nat
  assumes "y < p * q" and "q * r = 64" and "0 < p"
  shows "(n * (p * q) + y) div p mod 64 = n mod r * q + y div p"
proof -
  have q: "0 < q" using assms(2) by (cases q) simp_all
  have y: "y div p < q" using assms(1) by (simp add: less_mult_imp_div_less mult.commute)
  have "(n * (p * q) + y) div p = n * q + y div p"
    using div_mult_self1[of p y "n * q"] assms(3) by (simp add: ac_simps)
  moreover have "(n * q + y div p) mod (q * r) = q * ((n * q + y div p) div q mod r) + (n * q + y div p) mod q"
    by (rule mod_mult2_eq)
  moreover have "(n * q + y div p) div q = n" "(n * q + y div p) mod q = y div p"
    using y q by simp_all
  ultimately show ?thesis using assms(2) by (simp add: mult.commute)
qed

lemma mod_shift [simp]:
  "(m * 256 + x) mod 4 = x mod 4" "(m * 256 + x) mod 16 = x mod 16" "(m * 256 + x) mod 64 = x mod (64 :: nat)"
  using mod_mult_self1[of x "m * 64" 4] mod_mult_self1[of x "m * 16" 16] mod_mult_self1[of x "m * 4" 64]
  by (simp_all add: ac_simps)

lemma encode_first:
  assumes "holds_low a m"
  shows "encode_digits (push_bit 8 a + ucast (x :: uint8)) 2 dst = (- 4, dst @ [sChars ! (unat x div 4)])"
proof -
  have "unat x < 256" by (rule unat_byte)
  then have "(m * 256 + unat x) div 4 mod 64 = unat x div 4" using digit_split[of "unat x" 4 64 1 m] by simp
  then show ?thesis using charAt6_digit[OF holds_low_byte[OF assms, of x], of 2] by (simp add: encode_digits.simps)
qed

lemma encode_second:
  assumes "holds_low a (m * 256 + x)" and "x < 256"
  shows "encode_digits (push_bit 8 a + ucast (y :: uint8)) 4 dst = (- 2, dst @ [sChars ! (x mod 4 * 16 + unat y div 16)])"
proof -
  have "unat y < 256" by (rule unat_byte)
  then have "((m * 256 + x) * 256 + unat y) div 16 mod 64 = x mod 4 * 16 + unat y div 16"
    using digit_split[of "unat y" 16 16 4 "m * 256 + x"] by simp
  then show ?thesis using charAt6_digit[OF holds_low_byte[OF assms(1), of y], of 4] by (simp add: encode_digits.simps)
qed

lemma encode_third:
  assumes "holds_low a (m * 256 + y)" and "y < 256"
  shows "encode_digits (push_bit 8 a + ucast (z :: uint8)) 6 dst =
    (- 6, dst @ [sChars ! (y mod 16 * 4 + unat z div 64), sChars ! (unat z mod 64)])"
proof -
  have "unat z < 256" by (rule unat_byte)
  then have "((m * 256 + y) * 256 + unat z) div 64 mod 64 = y mod 16 * 4 + unat z div 64"
    "((m * 256 + y) * 256 + unat z) mod 64 = unat z mod 64"
    using digit_split[of "unat z" 64 4 16 "m * 256 + y"] mod_shift(3)[of "m * 256 + y" "unat z"] by simp_all
  then show ?thesis
    using charAt6_digit[OF holds_low_byte[OF assms(1), of z], of 6] charAt6_digit[OF holds_low_byte[OF assms(1), of z], of 0]
    by (simp add: encode_digits.simps)
qed

lemma encode_tail:
  assumes "holds_low a (m * 256 + x)" and "x < 256"
  shows "charAt6 (shift_right (push_bit 8 a) 4) = sChars ! (x mod 4 * 16)"
    and "charAt6 (shift_right (push_bit 8 a) 6) = sChars ! (x mod 16 * 4)"
proof -
  have "(m * 256 + x) * 256 div 16 mod 64 = x mod 4 * 16" "(m * 256 + x) * 256 div 64 mod 64 = x mod 16 * 4"
    using digit_split[of 0 16 16 4 "m * 256 + x"] digit_split[of 0 64 4 16 "m * 256 + x"] by simp_all
  then show "charAt6 (shift_right (push_bit 8 a) 4) = sChars ! (x mod 4 * 16)"
    and "charAt6 (shift_right (push_bit 8 a) 6) = sChars ! (x mod 16 * 4)"
    using charAt6_digit[OF holds_low_shift8[OF assms(1)], of 4] charAt6_digit[OF holds_low_shift8[OF assms(1)], of 6] by simp_all
qed

text \<open>The encoder without the padding.\<close>

definition encode_end :: "int32 \<times> int \<times> bytes \<Rightarrow> bytes" where
  "encode_end = (\<lambda>(a, b, dst). if b > - 6 then dst @ [charAt6 (shift_right (push_bit 8 a) (b + 8))] else dst)"

lemma encode_loop_base64:
  "encode_end (encode_loop a (- 6) src dst) = dst @ map (\<lambda>n. sChars ! n) (base64 src)"
proof (induction src arbitrary: a dst rule: base64.induct)
  case 1
  then show ?case by (simp add: encode_end_def)
next
  case (2 x)
  let ?a = "push_bit 8 a + ucast x :: int32"
  have "unat x < 256" by (rule unat_byte)
  then show ?case
    using encode_first[OF holds_low_self[of a], of x dst] encode_tail(1)[OF holds_low_byte[OF holds_low_self[of a], of x]]
    by (simp add: encode_end_def)
next
  case (3 x y)
  let ?a = "push_bit 8 a + ucast x :: int32"
  note l1 = holds_low_byte[OF holds_low_self[of a], of x]
  note l2 = holds_low_byte[OF l1, of y]
  have "unat x < 256" "unat y < 256" by (rule unat_byte)+
  then show ?case
    using encode_first[OF holds_low_self[of a], of x dst] encode_second[OF l1, of y "dst @ [sChars ! (unat x div 4)]"]
      encode_tail(2)[OF l2]
    by (simp add: encode_end_def)
next
  case (4 x y z zs)
  note l1 = holds_low_byte[OF holds_low_self[of a], of x]
  note l2 = holds_low_byte[OF l1, of y]
  have "unat x < 256" "unat y < 256" by (rule unat_byte)+
  then show ?case
    using encode_first[OF holds_low_self[of a], of x dst] encode_second[OF l1, of y "dst @ [sChars ! (unat x div 4)]"]
      encode_third[OF l2, of z] 4
    by simp
qed

lemma pad_count:
  assumes "n mod 4 \<noteq> (0 :: nat)"
  shows "(4 - n mod 4) mod 4 = Suc ((4 - Suc n mod 4) mod 4)"
proof -
  have "n mod 4 < 4" by simp
  with assms consider "n mod 4 = 1" | "n mod 4 = 2" | "n mod 4 = 3" by linarith
  then show ?thesis by cases (simp_all add: mod_Suc)
qed

lemma pad_loop_eq: "pad_loop dst = dst @ replicate ((4 - length dst mod 4) mod 4) 61"
proof (induction dst rule: pad_loop.induct)
  case (1 dst)
  show ?case
  proof (cases "length dst mod 4 = 0")
    case True
    then show ?thesis unfolding pad_loop.simps[of dst] by simp
  next
    case False
    have "pad_loop dst = (dst @ [61]) @ replicate ((4 - length (dst @ [61]) mod 4) mod 4) 61"
      unfolding pad_loop.simps[of dst] using 1[OF False] False by simp
    moreover have "(4 - length dst mod 4) mod 4 = Suc ((4 - length (dst @ [61]) mod 4) mod 4)"
      using pad_count[OF False] by simp
    ultimately show ?thesis by (simp only: replicate_Suc append_assoc append_Cons append_Nil)
  qed
qed

lemma padding_simps [simp]:
  "padding 0 = 0" "padding (Suc 0) = 2" "padding (Suc (Suc 0)) = 1" "padding (Suc (Suc (Suc n))) = padding n"
proof -
  have "Suc (Suc (Suc n)) mod 3 = n mod 3" using mod_add_self2[of n 3] by simp
  then show "padding (Suc (Suc (Suc n))) = padding n" by (simp add: padding_def)
qed (simp_all add: padding_def)

lemma length_base64:
  "length (base64 src) + padding (length src) = 4 * ((length src + 2) div 3)"
  "(4 - length (base64 src) mod 4) mod 4 = padding (length src)"
proof (induction src rule: base64.induct)
  case (4 x y z zs)
  { case 1 have "(length (x # y # z # zs) + 2) div 3 = Suc ((length zs + 2) div 3)"
      using div_add_self2[of 3 "length zs + 2"] by (simp add: ac_simps)
    then show ?case using 4(1) by simp }
  { case 2 show ?case using 4(2) mod_add_self2[of "length (base64 zs)" 4] by simp }
qed simp_all

lemma encode_eq: "Encoder_encode src = map (\<lambda>n. sChars ! n) (base64 src) @ replicate (padding (length src)) 61"
proof -
  have "Encoder_encode src = pad_loop (encode_end (encode_loop 0 (- 6) src []))"
    by (simp add: Encoder_encode_def Encoder_encode_into_def encode_end_def case_prod_beta Let_def)
  then show ?thesis by (simp add: encode_loop_base64 pad_loop_eq length_base64(2))
qed

section \<open>The decoder\<close>

text \<open>The bytes of a sequence of 6-bit digits, by groups of four.\<close>

fun unbase64 :: "nat list \<Rightarrow> bytes" where
  "unbase64 [] = []"
| "unbase64 [i] = []"
| "unbase64 [i, j] = [of_nat (i * 4 + j div 16)]"
| "unbase64 [i, j, k] = [of_nat (i * 4 + j div 16), of_nat (j * 16 + k div 4)]"
| "unbase64 (i # j # k # l # ds) =
     [of_nat (i * 4 + j div 16), of_nat (j * 16 + k div 4), of_nat (k * 64 + l)] @ unbase64 ds"

lemma sIndex_entries_range: "list_all (\<lambda>d. unat d < 64) sIndex_entries"
  by (simp add: sIndex_entries_def)

lemma sIndex_digit: "unat (sIndex c) < 64"
  using sIndex_entries_range by (simp add: sIndex_def list_all_length)

lemma sIndex_valid [simp]: "sIndex c \<noteq> - 1"
proof
  assume c: "sIndex c = - 1"
  have "unat (- 1 :: int32) < 64" using sIndex_digit[of c] unfolding c .
  then show False by (simp add: unsigned_minus_1_eq_mask mask_eq_exp_minus_1)
qed

lemma sIndex_sChars_all: "list_all (\<lambda>n. unat (sIndex (sChars ! n)) = n) [0..<64]"
  by code_simp

lemma sIndex_sChars: "n < 64 \<Longrightarrow> unat (sIndex (sChars ! n)) = n"
  using sIndex_sChars_all by (simp add: list_all_iff)

lemma of_nat_byte_drop: "(of_nat (m * 256 + n) :: uint8) = of_nat n"
  by (simp only: word_unat_eq_iff unat_of_nat) simp

lemma decode_second_digit:
  "holds_low a m \<Longrightarrow> i < 64 \<Longrightarrow> j < 64 \<Longrightarrow> m = (n * 64 + i) * 64 + j \<Longrightarrow>
    ucast (shift_right a 4 AND 0xFF) = (of_nat (i * 4 + j div 16) :: uint8)"
  using byte_digit[of a m 4] of_nat_byte_drop[of n "i * 4 + j div 16"] div_mult_self1[of 16 j "n * 256 + i * 4"]
  by (simp add: algebra_simps)

lemma decode_third_digit:
  "holds_low a m \<Longrightarrow> m = (n * 64 + j) * 64 + k \<Longrightarrow>
    ucast (shift_right a 2 AND 0xFF) = (of_nat (j * 16 + k div 4) :: uint8)"
  using byte_digit[of a m 2] of_nat_byte_drop[of "n * 4" "j * 16 + k div 4"] div_mult_self1[of 4 k "n * 1024 + j * 16"]
  by (simp add: algebra_simps)

lemma decode_fourth_digit:
  "holds_low a m \<Longrightarrow> m = (n * 64 + k) * 64 + l \<Longrightarrow>
    ucast (shift_right a 0 AND 0xFF) = (of_nat (k * 64 + l) :: uint8)"
  using byte_digit[of a m 0] of_nat_byte_drop[of "n * 16" "k * 64 + l"]
  by (simp add: algebra_simps)

lemma decode_loop_unbase64: "decode_loop a (- 8) src dst = dst @ unbase64 (map (\<lambda>c. unat (sIndex c)) src)"
proof (induction "map (\<lambda>c. unat (sIndex c)) src" arbitrary: src a dst rule: unbase64.induct)
  case 1
  then show ?case by simp
next
  case (2 i)
  then obtain c where "src = [c]" by (auto simp: Cons_eq_map_conv)
  then show ?case by simp
next
  case (3 i j)
  then obtain c d where src: "src = [c, d]" by (auto simp: Cons_eq_map_conv)
  note l1 = holds_low_digit[OF holds_low_self[of a] sIndex_digit[of c]]
  note l2 = holds_low_digit[OF l1 sIndex_digit[of d]]
  show ?case using decode_second_digit[OF l2 sIndex_digit sIndex_digit refl] by (simp add: src)
next
  case (4 i j k)
  then obtain c d e where src: "src = [c, d, e]" by (auto simp: Cons_eq_map_conv)
  note l1 = holds_low_digit[OF holds_low_self[of a] sIndex_digit[of c]]
  note l2 = holds_low_digit[OF l1 sIndex_digit[of d]]
  note l3 = holds_low_digit[OF l2 sIndex_digit[of e]]
  show ?case using decode_second_digit[OF l2 sIndex_digit sIndex_digit refl] decode_third_digit[OF l3 refl]
    by (simp add: src)
next
  case (5 i j k l ds)
  then obtain c d e f cs where src: "src = c # d # e # f # cs" and ds: "ds = map (\<lambda>c. unat (sIndex c)) cs"
    by (auto simp: Cons_eq_map_conv)
  note l1 = holds_low_digit[OF holds_low_self[of a] sIndex_digit[of c]]
  note l2 = holds_low_digit[OF l1 sIndex_digit[of d]]
  note l3 = holds_low_digit[OF l2 sIndex_digit[of e]]
  note l4 = holds_low_digit[OF l3 sIndex_digit[of f]]
  show ?case
    using decode_second_digit[OF l2 sIndex_digit sIndex_digit refl] decode_third_digit[OF l3 refl]
      decode_fourth_digit[OF l4 refl] 5(1)[OF ds]
    by (simp add: src)
qed

lemma decode_eq: "Decoder_decode src = unbase64 (map (\<lambda>c. unat (sIndex c)) src)"
  by (simp add: Decoder_decode_def Decoder_decode_into_def decode_loop_unbase64)

section \<open>Properties\<close>

lemma base64_digits: "n \<in> set (base64 src) \<Longrightarrow> n < 64"
proof (induction src rule: base64.induct)
  case (2 x)
  have "unat x < 256" by (rule unat_byte)
  then show ?case using 2 by auto
next
  case (3 x y)
  have "unat x < 256" "unat y < 256" by (rule unat_byte)+
  then show ?case using 3 by auto
next
  case (4 x y z zs)
  have "unat x < 256" "unat y < 256" "unat z < 256" by (rule unat_byte)+
  then show ?case using 4 by auto
qed simp

lemma byte_first: "(of_nat (unat x div 4 * 4 + (unat x mod 4 * 16 + unat (y :: uint8) div 16) div 16) :: uint8) = x"
proof -
  have "unat y < 256" by (rule unat_byte)
  then have "(unat x mod 4 * 16 + unat y div 16) div 16 = unat x mod 4" by simp
  then show ?thesis by simp
qed

lemma byte_second:
  "(of_nat ((unat (x :: uint8) mod 4 * 16 + unat y div 16) * 16 + (unat y mod 16 * 4 + unat (z :: uint8) div 64) div 4) :: uint8) = y"
proof -
  have "unat z < 256" by (rule unat_byte)
  then have "(unat y mod 16 * 4 + unat z div 64) div 4 = unat y mod 16" by simp
  then have "(unat x mod 4 * 16 + unat y div 16) * 16 + (unat y mod 16 * 4 + unat z div 64) div 4 = unat x mod 4 * 256 + unat y"
    by (simp add: add_mult_distrib)
  then show ?thesis by (simp only: of_nat_byte_drop) simp
qed

lemma byte_third: "(of_nat ((unat (y :: uint8) mod 16 * 4 + unat z div 64) * 64 + unat z mod 64) :: uint8) = z"
proof -
  have "(unat y mod 16 * 4 + unat z div 64) * 64 + unat z mod 64 = unat y mod 16 * 256 + unat z"
    by (simp add: add_mult_distrib)
  then show ?thesis by (simp only: of_nat_byte_drop) simp
qed

lemma unbase64_base64:
  "unbase64 (base64 xs @ replicate (padding (length xs)) 0) = xs @ replicate (padding (length xs)) 0"
proof (induction xs rule: base64.induct)
  case (2 x)
  show ?case using byte_first[of x 0] byte_second[of x 0 0] by (simp add: numeral_2_eq_2)
next
  case (3 x y)
  show ?case using byte_first[of x y] byte_second[of x y 0] byte_third[of y 0] by simp
next
  case (4 x y z zs)
  then show ?case using byte_first[of x y] byte_second[of x y z] byte_third[of y z] by simp
qed simp

text \<open>
  (C39) The encoder with its 32-bit accumulator, whose old bits are lost at the top, is the encoding of each group of three
  bytes by four characters of the alphabet; the result is filled with '=' to a multiple of four characters, of which there
  are four for every three bytes, rounded up.
\<close>

theorem Base64_encode_reference:
  "Encoder_encode src = map (\<lambda>n. sChars ! n) (base64 src) @ replicate (padding (length src)) 61 \<and>
   length (Encoder_encode src) = 4 * ((length src + 2) div 3)"
  by (simp add: encode_eq length_base64(1))

text \<open>
  (C40) Decoding what was encoded returns the bytes, followed by one zero byte for each '=' of the padding: \<open>sIndex\<close> has 0
  and not -1 for the characters outside the alphabet, so the loop never stops at one.
\<close>

theorem Base64_decode_encode: "Decoder_decode (Encoder_encode xs) = xs @ replicate (padding (length xs)) 0"
proof -
  have "unat (sIndex 61) = 0" by code_simp
  moreover have "map (\<lambda>n. unat (sIndex (sChars ! n))) (base64 xs) = base64 xs"
    by (rule map_idI) (simp add: sIndex_sChars base64_digits)
  ultimately show ?thesis by (simp add: decode_eq encode_eq comp_def unbase64_base64)
qed

end
