(* ===== verification/Services.thy ===== *)
theory Services
  imports Strings "HOL-Library.AList"
begin

text \<open>
  The service manager and its processes (\<open>src/mindroid/os/ServiceManager.h\<close>, \<open>ServiceManager.cpp\<close>, \<open>Process.cpp\<close>,
  \<open>IServiceManager.cpp\<close>, \<open>IProcess.cpp\<close>, \<open>RemoteCallback.h\<close>, \<open>app/Service.cpp\<close>). Each runs its messages on a thread of its own: the
  manager those of its clients and the results of the processes, a process the requests of the manager, and the process
  manager the stops of processes. The theory has the operations and the step relation of their interleavings;
  \<open>Service_Properties\<close> has what holds in every reachable state.

  Objects that are shared by reference are addresses in a store. Binders deliver a call as a message, in order, and fail with an
  exception when the looper of the receiver has quit. An intent is its component and the three extras that the manager
  reads; it is not changed once it was sent. The package manager (\<open>resolveService\<close>) and the registered classes are
  parameters, and so is the code of the services: what it calls is among the requests of the clients.
\<close>

section \<open>Data\<close>

datatype component = ComponentName (getPackageName: bytes) (getClassName: bytes)

type_synonym address = nat
type_synonym connection = nat
type_synonym promise_id = nat

record intent =
  mComponent :: component
  systemServiceExtra :: "bool option"
  nameExtra :: "bytes option"
  processExtra :: "bytes option"

definition Intent_getBooleanExtra_systemService :: "intent \<Rightarrow> bool" where
  "Intent_getBooleanExtra_systemService i = (case systemServiceExtra i of None \<Rightarrow> False | Some b \<Rightarrow> b)"

record service_info =
  siName :: bytes
  siPackageName :: bytes
  siProcessName :: bytes
  siEnabled :: bool

text \<open>The listeners of the manager, and the callbacks that carry them, told apart by the identities of their binders.\<close>

datatype listener =
    Service_created intent
  | Service_started component promise_id
  | Service_stopped "promise_id option"

type_synonym remote_callback = "nat \<times> listener"

datatype request =
    MSG_START_SERVICE intent promise_id
  | MSG_STOP_SERVICE intent "promise_id option"
  | MSG_BIND_SERVICE intent connection int32 promise_id
  | MSG_UNBIND_SERVICE intent connection
  | MSG_START_SYSTEM_SERVICE intent promise_id
  | MSG_STOP_SYSTEM_SERVICE intent promise_id
  | MSG_SEND_RESULT remote_callback bool

datatype process_request =
    CreateService intent remote_callback
  | StartService intent int32 int32 remote_callback
  | StopService intent "remote_callback option"
  | BindService intent connection int32
  | UnbindService intent

datatype answer = Component "component option" | Outcome bool

text \<open>What the code of a service sees, and the result that a client's callback of \<open>bindService\<close> gets.\<close>

datatype service_event =
    OnCreate component
  | OnStartCommand component int32 int32
  | OnDestroy component
  | OnBind component
  | OnUnbind component
  | ServiceConnection_result connection bool

record process_record =
  prName :: bytes
  prProcess :: address
  prServices :: "(component \<times> address) list"

record service_record =
  srName :: "bytes option"
  srProcessRecord :: address
  srSystemService :: bool
  srAlive :: bool
  srRunning :: bool
  srServiceConnections :: "connection list"

record process =
  pName :: bytes
  pServices :: "component list"
  pMessages :: "process_request list"
  pQuit :: bool

text \<open>
  \<open>mManaged\<close> is the map of the process manager, \<open>mStops\<close> are the runnables on its handler and \<open>mStopping\<close> is the process that its thread is
  stopping. \<open>answers\<close> and \<open>events\<close> record the promises that were completed and the calls of the services' code.
\<close>

record services =
  mServices :: "component \<rightharpoonup> address"
  mProcesses :: "bytes \<rightharpoonup> address"
  mServiceCallbacks :: "remote_callback list"
  mStartId :: int32
  mMessages :: "request list"
  mManaged :: "bytes \<rightharpoonup> address"
  mStops :: "address list"
  mStopping :: "address option"
  service_records :: "address \<Rightarrow> service_record"
  process_records :: "address \<Rightarrow> process_record"
  processes :: "address \<Rightarrow> process"
  next_address :: address
  answers :: "(promise_id \<times> answer) list"
  events :: "(address \<times> service_event) list"

definition upd_process :: "address \<Rightarrow> (process \<Rightarrow> process) \<Rightarrow> services \<Rightarrow> services" where
  "upd_process a f w = w\<lparr>processes := (processes w)(a := f (processes w a))\<rparr>"

definition upd_service :: "address \<Rightarrow> (service_record \<Rightarrow> service_record) \<Rightarrow> services \<Rightarrow> services" where
  "upd_service a f w = w\<lparr>service_records := (service_records w)(a := f (service_records w a))\<rparr>"

definition upd_process_record :: "address \<Rightarrow> (process_record \<Rightarrow> process_record) \<Rightarrow> services \<Rightarrow> services" where
  "upd_process_record a f w = w\<lparr>process_records := (process_records w)(a := f (process_records w a))\<rparr>"

definition complete_promise :: "promise_id \<Rightarrow> answer \<Rightarrow> services \<Rightarrow> services" where
  "complete_promise p x w = w\<lparr>answers := answers w @ [(p, x)]\<rparr>"

definition complete_optional :: "promise_id option \<Rightarrow> answer \<Rightarrow> services \<Rightarrow> services" where
  "complete_optional p x w = (case p of None \<Rightarrow> w | Some p \<Rightarrow> complete_promise p x w)"

text \<open>A call through the proxy of a process: the message is refused when its looper has quit.\<close>

definition IProcess_send :: "address \<Rightarrow> process_request \<Rightarrow> services \<Rightarrow> services result" where
  "IProcess_send a m w =
     (if pQuit (processes w a) then Inl RuntimeException
      else Inr (upd_process a (\<lambda>p. p\<lparr>pMessages := pMessages p @ [m]\<rparr>) w))"

definition new_callback :: "listener \<Rightarrow> services \<Rightarrow> remote_callback \<times> services" where
  "new_callback l w =
     (let cb = (next_address w, l)
      in (cb, w\<lparr>next_address := next_address w + 1, mServiceCallbacks := mServiceCallbacks w @ [cb]\<rparr>))"

section \<open>Process manager\<close>

definition ProcessManager_startProcess :: "bytes \<Rightarrow> services \<Rightarrow> address \<times> services" where
  "ProcessManager_startProcess name w =
     (case mManaged w name of
        None \<Rightarrow>
          let a = next_address w
          in (a, w\<lparr>next_address := a + 1, mManaged := (mManaged w)(name \<mapsto> a),
                processes := (processes w)(a := \<lparr>pName = name, pServices = [], pMessages = [], pQuit = False\<rparr>)\<rparr>)
      | Some a \<Rightarrow> (a, w))"

definition ProcessManager_stopProcess :: "bytes \<Rightarrow> services \<Rightarrow> bool \<times> services" where
  "ProcessManager_stopProcess name w =
     (case mManaged w name of
        Some a \<Rightarrow> (True, w\<lparr>mManaged := (mManaged w)(name := None), mStops := mStops w @ [a]\<rparr>)
      | None \<Rightarrow> (False, w))"

text \<open>
  \<open>Process::stop\<close> on the thread of the process manager: it asks the services to stop, then waits until there are none or the
  time is over, and quits the thread of the process, whose pending messages are dropped.
\<close>

definition Process_stop_begin :: "services \<Rightarrow> services result option" where
  "Process_stop_begin w =
     (case (mStopping w, mStops w) of
        (None, a # as) \<Rightarrow>
          Some (if pQuit (processes w a) then Inl RuntimeException
                else Inr (upd_process a (\<lambda>p. p\<lparr>pMessages := pMessages p @
                    map (\<lambda>c. StopService \<lparr>mComponent = c, systemServiceExtra = None, nameExtra = None, processExtra = None\<rparr> None) (pServices p)\<rparr>)
                  (w\<lparr>mStops := as, mStopping := Some a\<rparr>)))
      | _ \<Rightarrow> None)"

definition Process_stop_end :: "bool \<Rightarrow> services \<Rightarrow> services option" where
  "Process_stop_end timed_out w =
     (case mStopping w of
        Some a \<Rightarrow>
          if pServices (processes w a) = [] \<or> timed_out
          then Some (upd_process a (\<lambda>p. p\<lparr>pQuit := True, pMessages := []\<rparr>) (w\<lparr>mStopping := None\<rparr>))
          else None
      | None \<Rightarrow> None)"

section \<open>Service manager\<close>

definition ProcessRecord_addService :: "component \<Rightarrow> address \<Rightarrow> process_record \<Rightarrow> process_record" where
  "ProcessRecord_addService c s pr = pr\<lparr>prServices := AList.update c s (prServices pr)\<rparr>"

definition ProcessRecord_removeService :: "component \<Rightarrow> process_record \<Rightarrow> process_record" where
  "ProcessRecord_removeService c pr = pr\<lparr>prServices := AList.delete c (prServices pr)\<rparr>"

definition ProcessRecord_getService :: "component \<Rightarrow> process_record \<Rightarrow> address option" where
  "ProcessRecord_getService c pr = map_of (prServices pr) c"

definition ProcessRecord_containsService :: "component \<Rightarrow> process_record \<Rightarrow> bool" where
  "ProcessRecord_containsService c pr \<longleftrightarrow> map_of (prServices pr) c \<noteq> None"

definition ProcessRecord_numServices :: "process_record \<Rightarrow> nat" where
  "ProcessRecord_numServices pr = length (prServices pr)"

definition ServiceRecord_new :: "bytes option \<Rightarrow> address \<Rightarrow> bool \<Rightarrow> service_record" where
  "ServiceRecord_new name pr system = \<lparr>srName = name, srProcessRecord = pr, srSystemService = system, srAlive = False,
     srRunning = False, srServiceConnections = []\<rparr>"

definition ServiceRecord_addServiceConnection :: "connection \<Rightarrow> service_record \<Rightarrow> service_record" where
  "ServiceRecord_addServiceConnection conn sr = sr\<lparr>srServiceConnections := srServiceConnections sr @ [conn]\<rparr>"

definition ServiceRecord_removeServiceConnection :: "connection \<Rightarrow> service_record \<Rightarrow> service_record" where
  "ServiceRecord_removeServiceConnection conn sr = sr\<lparr>srServiceConnections := remove1 conn (srServiceConnections sr)\<rparr>"

definition ServiceRecord_getNumServiceConnections :: "service_record \<Rightarrow> nat" where
  "ServiceRecord_getNumServiceConnections sr = length (srServiceConnections sr)"

definition ServiceRecord_hasServiceConnection :: "connection \<Rightarrow> service_record \<Rightarrow> bool" where
  "ServiceRecord_hasServiceConnection conn sr \<longleftrightarrow> conn \<in> set (srServiceConnections sr)"

text \<open>\<open>process\<close> is never null: starting a process returns the interface of its stub.\<close>

definition ServiceManager_prepareProcess :: "bytes \<Rightarrow> services \<Rightarrow> address \<times> services" where
  "ServiceManager_prepareProcess name w =
     (case mProcesses w name of
        Some r \<Rightarrow> (prProcess (process_records w r), w)
      | None \<Rightarrow>
          let (a, w) = ProcessManager_startProcess name w; r = next_address w
          in (a, w\<lparr>next_address := r + 1, mProcesses := (mProcesses w)(name \<mapsto> r),
                process_records := (process_records w)(r := \<lparr>prName = name, prProcess = a, prServices = []\<rparr>)\<rparr>))"

text \<open>A system service has the process of its extra (a null reference is used as a key); the others are resolved.\<close>

definition prepare_serviceInfo :: "(component \<Rightarrow> service_info option) \<Rightarrow> intent \<Rightarrow> service_info option result" where
  "prepare_serviceInfo resolve i =
     (if Intent_getBooleanExtra_systemService i
      then bind_result (deref (processExtra i))
        (\<lambda>name. Inr (Some \<lparr>siName = getClassName (mComponent i), siPackageName = getPackageName (mComponent i), siProcessName = name, siEnabled = True\<rparr>))
      else Inr (resolve (mComponent i)))"

definition prepare_record :: "intent \<Rightarrow> service_info \<Rightarrow> services \<Rightarrow> services result" where
  "prepare_record i si w =
     (case mServices w (mComponent i) of
        Some s \<Rightarrow> Inr w
      | None \<Rightarrow>
          let (a, w) = ServiceManager_prepareProcess (siProcessName si) w
          in bind_result (deref (mProcesses w (siProcessName si))) (\<lambda>r.
               let system = Intent_getBooleanExtra_systemService i;
                   name = (if system then nameExtra i else Some (siPackageName si @ [58, 58] @ siName si));
                   s = next_address w;
                   w = w\<lparr>next_address := s + 1, service_records := (service_records w)(s := ServiceRecord_new name r system),
                         mServices := (mServices w)(mComponent i \<mapsto> s)\<rparr>
               in Inr (if ProcessRecord_containsService (mComponent i) (process_records w r) then w
                       else upd_process_record r (ProcessRecord_addService (mComponent i) s) w)))"

definition process_of_service :: "address \<Rightarrow> services \<Rightarrow> address" where
  "process_of_service s w = prProcess (process_records w (srProcessRecord (service_records w s)))"

definition create_service :: "intent \<Rightarrow> address \<Rightarrow> services \<Rightarrow> services result" where
  "create_service i s w =
     (if \<not> srAlive (service_records w s)
      then let w = upd_service s (\<lambda>sr. sr\<lparr>srAlive := True\<rparr>) w; (cb, w) = new_callback (Service_created i) w
           in IProcess_send (process_of_service s w) (CreateService i cb) w
      else Inr w)"

definition ServiceManager_prepareService :: "(component \<Rightarrow> service_info option) \<Rightarrow> intent \<Rightarrow> services \<Rightarrow> (bool \<times> services) result" where
  "ServiceManager_prepareService resolve i w =
     bind_result (prepare_serviceInfo resolve i) (\<lambda>info. case info of
       None \<Rightarrow> Inr (False, w)
     | Some si \<Rightarrow> bind_result (prepare_record i si w) (\<lambda>w.
         bind_result (deref (mServices w (mComponent i))) (\<lambda>s.
         bind_result (create_service i s w) (\<lambda>w. Inr (True, w)))))"

definition ServiceManager_startService :: "(component \<Rightarrow> service_info option) \<Rightarrow> intent \<Rightarrow> promise_id \<Rightarrow> services \<Rightarrow> services result" where
  "ServiceManager_startService resolve i p w =
     bind_result (ServiceManager_prepareService resolve i w) (\<lambda>(prepared, w).
       if \<not> prepared then Inr (complete_promise p (Component None) w)
       else bind_result (deref (mServices w (mComponent i))) (\<lambda>s.
         let w = upd_service s (\<lambda>sr. sr\<lparr>srRunning := True\<rparr>) w;
             (cb, w) = new_callback (Service_started (mComponent i) p) w
         in IProcess_send (process_of_service s w) (StartService i 0 (mStartId w) cb) (w\<lparr>mStartId := mStartId w + 1\<rparr>)))"

text \<open>The end of \<open>stopService\<close> and of \<open>cleanupService\<close>: the record goes, and a process without services is stopped.\<close>

definition forget_service :: "component \<Rightarrow> address \<Rightarrow> services \<Rightarrow> services" where
  "forget_service c s w =
     (let r = srProcessRecord (service_records w s);
          w = upd_service s (\<lambda>sr. sr\<lparr>srAlive := False, srRunning := False\<rparr>) w;
          w = upd_process_record r (ProcessRecord_removeService c) (w\<lparr>mServices := (mServices w)(c := None)\<rparr>);
          name = prName (process_records w r)
      in if ProcessRecord_numServices (process_records w r) = 0
         then let w = snd (ProcessManager_stopProcess name w) in w\<lparr>mProcesses := (mProcesses w)(name := None)\<rparr>
         else w)"

definition ServiceManager_cleanupService :: "intent \<Rightarrow> services \<Rightarrow> bool \<times> services" where
  "ServiceManager_cleanupService i w =
     (case mServices w (mComponent i) of
        Some s \<Rightarrow> (True, forget_service (mComponent i) s w)
      | None \<Rightarrow> (False, w))"

section \<open>Requests of the clients\<close>

definition ServiceManagerImpl_startService :: "(component \<Rightarrow> service_info option) \<Rightarrow> intent \<Rightarrow> promise_id \<Rightarrow> services \<Rightarrow> services result" where
  "ServiceManagerImpl_startService resolve i p w =
     ServiceManager_startService resolve (i\<lparr>systemServiceExtra := Some False\<rparr>) p w"

definition ServiceManagerImpl_stopService :: "intent \<Rightarrow> promise_id option \<Rightarrow> services \<Rightarrow> services result" where
  "ServiceManagerImpl_stopService i p w =
     (case mServices w (mComponent i) of
        Some s \<Rightarrow>
          let sr = service_records w s
          in if \<not> srAlive sr then Inr (complete_optional p (Outcome False) w)
             else if ServiceRecord_getNumServiceConnections sr \<noteq> 0 then Inr (complete_optional p (Outcome False) w)
             else let (cb, w) = new_callback (Service_stopped p) w
                  in bind_result (IProcess_send (process_of_service s w) (StopService i (Some cb)) w)
                       (\<lambda>w. Inr (forget_service (mComponent i) s w))
      | None \<Rightarrow> Inr (complete_optional p (Outcome False) w))"

definition ServiceManagerImpl_bindService ::
  "(component \<Rightarrow> service_info option) \<Rightarrow> intent \<Rightarrow> connection \<Rightarrow> int32 \<Rightarrow> promise_id \<Rightarrow> services \<Rightarrow> services result" where
  "ServiceManagerImpl_bindService resolve i conn flags p w =
     (let i = i\<lparr>systemServiceExtra := Some False\<rparr>
      in bind_result (ServiceManager_prepareService resolve i w) (\<lambda>(prepared, w).
        if \<not> prepared then Inr (complete_promise p (Outcome False) w)
        else case mServices w (mComponent i) of
            Some s \<Rightarrow>
              if \<not> ServiceRecord_hasServiceConnection conn (service_records w s)
              then let w = upd_service s (ServiceRecord_addServiceConnection conn) w
                   in bind_result (IProcess_send (process_of_service s w) (BindService i conn flags) w)
                        (\<lambda>w. Inr (complete_promise p (Outcome True) w))
              else Inr (complete_promise p (Outcome True) w)
          | None \<Rightarrow> Inr (complete_promise p (Outcome False) w)))"

text \<open>
  The stub never passes the callback of \<open>unbindService\<close> on. Without connections the service is stopped by a message that
  the manager sends to itself, whose promise nobody keeps.
\<close>

definition ServiceManagerImpl_unbindService :: "intent \<Rightarrow> connection \<Rightarrow> services \<Rightarrow> services result" where
  "ServiceManagerImpl_unbindService i conn w =
     (case mServices w (mComponent i) of
        Some s \<Rightarrow> bind_result (IProcess_send (process_of_service s w) (UnbindService i) w) (\<lambda>w.
          let w = upd_service s (ServiceRecord_removeServiceConnection conn) w
          in Inr (if ServiceRecord_getNumServiceConnections (service_records w s) = 0
                  then w\<lparr>mMessages := mMessages w @ [MSG_STOP_SERVICE i None]\<rparr> else w))
      | None \<Rightarrow> Inr w)"

definition or_else :: "'a option \<Rightarrow> 'a \<Rightarrow> 'a option" where
  "or_else x y = (case x of None \<Rightarrow> Some y | Some _ \<Rightarrow> x)"

definition ServiceManagerImpl_startSystemService ::
  "(component \<Rightarrow> service_info option) \<Rightarrow> intent \<Rightarrow> promise_id \<Rightarrow> services \<Rightarrow> services result" where
  "ServiceManagerImpl_startSystemService resolve i p w =
     ServiceManager_startService resolve
       (i\<lparr>nameExtra := or_else (nameExtra i) (getClassName (mComponent i)), processExtra := or_else (processExtra i) (getPackageName (mComponent i)),
          systemServiceExtra := Some True\<rparr>) p w"

definition ServiceManagerImpl_stopSystemService :: "intent \<Rightarrow> promise_id \<Rightarrow> services \<Rightarrow> services result" where
  "ServiceManagerImpl_stopSystemService i p w = ServiceManagerImpl_stopService (i\<lparr>systemServiceExtra := Some True\<rparr>) (Some p) w"

section \<open>Results of the processes\<close>

definition remove_callback :: "remote_callback \<Rightarrow> services \<Rightarrow> services" where
  "remove_callback cb w = w\<lparr>mServiceCallbacks := remove1 cb (mServiceCallbacks w)\<rparr>"

definition created_onResult :: "intent \<Rightarrow> bool \<Rightarrow> services \<Rightarrow> services" where
  "created_onResult i res w =
     (if mServices w (mComponent i) \<noteq> None \<and> \<not> res then snd (ServiceManager_cleanupService i w) else w)"

definition started_onResult :: "component \<Rightarrow> promise_id \<Rightarrow> services \<Rightarrow> services" where
  "started_onResult c p w = complete_promise p (Component (Some c)) w"

definition stopped_onResult :: "promise_id option \<Rightarrow> bool \<Rightarrow> services \<Rightarrow> services" where
  "stopped_onResult p res w = complete_optional p (Outcome res) w"

definition RemoteCallback_onResult :: "remote_callback \<Rightarrow> bool \<Rightarrow> services \<Rightarrow> services" where
  "RemoteCallback_onResult cb res w = remove_callback cb
     (case snd cb of
        Service_created i \<Rightarrow> created_onResult i res w
      | Service_started c p \<Rightarrow> started_onResult c p w
      | Service_stopped p \<Rightarrow> stopped_onResult p res w)"

text \<open>One turn of the manager's looper.\<close>

definition ServiceManager_onTransact :: "(component \<Rightarrow> service_info option) \<Rightarrow> request \<Rightarrow> services \<Rightarrow> services result" where
  "ServiceManager_onTransact resolve m w =
     (case m of
        MSG_START_SERVICE i p \<Rightarrow> ServiceManagerImpl_startService resolve i p w
      | MSG_STOP_SERVICE i p \<Rightarrow> ServiceManagerImpl_stopService i p w
      | MSG_BIND_SERVICE i conn flags p \<Rightarrow> ServiceManagerImpl_bindService resolve i conn flags p w
      | MSG_UNBIND_SERVICE i conn \<Rightarrow> ServiceManagerImpl_unbindService i conn w
      | MSG_START_SYSTEM_SERVICE i p \<Rightarrow> ServiceManagerImpl_startSystemService resolve i p w
      | MSG_STOP_SYSTEM_SERVICE i p \<Rightarrow> ServiceManagerImpl_stopSystemService i p w
      | MSG_SEND_RESULT cb res \<Rightarrow> Inr (RemoteCallback_onResult cb res w))"

definition ServiceManager_turn :: "(component \<Rightarrow> service_info option) \<Rightarrow> services \<Rightarrow> services result option" where
  "ServiceManager_turn resolve w =
     (case mMessages w of [] \<Rightarrow> None | m # ms \<Rightarrow> Some (ServiceManager_onTransact resolve m (w\<lparr>mMessages := ms\<rparr>)))"

section \<open>Processes\<close>

definition sendResult :: "remote_callback \<Rightarrow> bool \<Rightarrow> services \<Rightarrow> services" where
  "sendResult cb res w = w\<lparr>mMessages := mMessages w @ [MSG_SEND_RESULT cb res]\<rparr>"

definition service_event :: "address \<Rightarrow> service_event \<Rightarrow> services \<Rightarrow> services" where
  "service_event a e w = w\<lparr>events := events w @ [(a, e)]\<rparr>"

text \<open>Whether a class is registered, and for an ordinary service whether the package manager has it, enabled.\<close>

definition instantiates :: "(component \<Rightarrow> service_info option) \<Rightarrow> (component \<Rightarrow> bool) \<Rightarrow> intent \<Rightarrow> bool" where
  "instantiates resolve factory i =
     (if Intent_getBooleanExtra_systemService i then factory (mComponent i)
      else case resolve (mComponent i) of None \<Rightarrow> False | Some si \<Rightarrow> siEnabled si \<and> factory (mComponent i))"

definition ProcessImpl_createService ::
  "(component \<Rightarrow> service_info option) \<Rightarrow> (component \<Rightarrow> bool) \<Rightarrow> address \<Rightarrow> intent \<Rightarrow> remote_callback \<Rightarrow> services \<Rightarrow> services" where
  "ProcessImpl_createService resolve factory a i cb w =
     (if instantiates resolve factory i
      then sendResult cb True (upd_process a (\<lambda>p. p\<lparr>pServices := List.insert (mComponent i) (pServices p)\<rparr>)
             (service_event a (OnCreate (mComponent i)) w))
      else sendResult cb False w)"

definition ProcessImpl_startService :: "address \<Rightarrow> intent \<Rightarrow> int32 \<Rightarrow> int32 \<Rightarrow> remote_callback \<Rightarrow> services \<Rightarrow> services" where
  "ProcessImpl_startService a i flags startId cb w =
     (if mComponent i \<in> set (pServices (processes w a))
      then sendResult cb True (service_event a (OnStartCommand (mComponent i) flags startId) w)
      else sendResult cb False w)"

definition ProcessImpl_stopService :: "address \<Rightarrow> intent \<Rightarrow> remote_callback option \<Rightarrow> services \<Rightarrow> services" where
  "ProcessImpl_stopService a i cb w =
     (let (res, w) =
        (if mComponent i \<in> set (pServices (processes w a))
         then (True, upd_process a (\<lambda>p. p\<lparr>pServices := remove1 (mComponent i) (pServices p)\<rparr>) (service_event a (OnDestroy (mComponent i)) w))
         else (False, w))
      in case cb of None \<Rightarrow> w | Some cb \<Rightarrow> sendResult cb res w)"

definition ProcessImpl_bindService :: "address \<Rightarrow> intent \<Rightarrow> connection \<Rightarrow> int32 \<Rightarrow> services \<Rightarrow> services" where
  "ProcessImpl_bindService a i conn flags w =
     (if mComponent i \<in> set (pServices (processes w a))
      then service_event a (ServiceConnection_result conn True) (service_event a (OnBind (mComponent i)) w)
      else service_event a (ServiceConnection_result conn False) w)"

definition ProcessImpl_unbindService :: "address \<Rightarrow> intent \<Rightarrow> services \<Rightarrow> services" where
  "ProcessImpl_unbindService a i w =
     (if mComponent i \<in> set (pServices (processes w a)) then service_event a (OnUnbind (mComponent i)) w else w)"

definition Process_onTransact ::
  "(component \<Rightarrow> service_info option) \<Rightarrow> (component \<Rightarrow> bool) \<Rightarrow> address \<Rightarrow> process_request \<Rightarrow> services \<Rightarrow> services" where
  "Process_onTransact resolve factory a m w =
     (case m of
        CreateService i cb \<Rightarrow> ProcessImpl_createService resolve factory a i cb w
      | StartService i flags startId cb \<Rightarrow> ProcessImpl_startService a i flags startId cb w
      | StopService i cb \<Rightarrow> ProcessImpl_stopService a i cb w
      | BindService i conn flags \<Rightarrow> ProcessImpl_bindService a i conn flags w
      | UnbindService i \<Rightarrow> ProcessImpl_unbindService a i w)"

definition Process_turn ::
  "(component \<Rightarrow> service_info option) \<Rightarrow> (component \<Rightarrow> bool) \<Rightarrow> address \<Rightarrow> services \<Rightarrow> services option" where
  "Process_turn resolve factory a w =
     (case pMessages (processes w a) of
        [] \<Rightarrow> None
      | m # ms \<Rightarrow> Some (Process_onTransact resolve factory a m (upd_process a (\<lambda>p. p\<lparr>pMessages := ms\<rparr>) w)))"

text \<open>A service stops itself on the thread of its process, past the manager.\<close>

definition Service_stopSelf :: "address \<Rightarrow> component \<Rightarrow> services \<Rightarrow> services" where
  "Service_stopSelf a c w =
     ProcessImpl_stopService a \<lparr>mComponent = c, systemServiceExtra = None, nameExtra = None, processExtra = None\<rparr> None w"

section \<open>Interleavings\<close>

text \<open>The manager after \<open>start\<close>, and its steps with its clients, its processes and the process manager.\<close>

definition ServiceManager_start :: services where
  "ServiceManager_start =
     \<lparr>mServices = Map.empty, mProcesses = Map.empty, mServiceCallbacks = [], mStartId = 0, mMessages = [], mManaged = Map.empty,
      mStops = [], mStopping = None,
      service_records = (\<lambda>_. ServiceRecord_new None 0 False),
      process_records = (\<lambda>_. \<lparr>prName = [], prProcess = 0, prServices = []\<rparr>),
      processes = (\<lambda>_. \<lparr>pName = [], pServices = [], pMessages = [], pQuit = False\<rparr>),
      next_address = 0, answers = [], events = []\<rparr>"

fun client_request :: "request \<Rightarrow> bool" where
  "client_request (MSG_SEND_RESULT cb res) = False"
| "client_request _ = True"

text \<open>\<open>self_stops\<close> says whether services may stop themselves; an exception on the thread of the manager ends the program.\<close>

inductive services_step ::
  "(component \<Rightarrow> service_info option) \<Rightarrow> (component \<Rightarrow> bool) \<Rightarrow> bool \<Rightarrow> services \<Rightarrow> services \<Rightarrow> bool"
  for resolve factory self_stops where
  request: "client_request m \<Longrightarrow> services_step resolve factory self_stops w (w\<lparr>mMessages := mMessages w @ [m]\<rparr>)"
| manager: "ServiceManager_turn resolve w = Some (Inr w') \<Longrightarrow> services_step resolve factory self_stops w w'"
| process: "Process_turn resolve factory a w = Some w' \<Longrightarrow> services_step resolve factory self_stops w w'"
| stop_begin: "Process_stop_begin w = Some (Inr w') \<Longrightarrow> services_step resolve factory self_stops w w'"
| stop_end: "Process_stop_end timed_out w = Some w' \<Longrightarrow> services_step resolve factory self_stops w w'"
| stop_self: "self_stops \<Longrightarrow> c \<in> set (pServices (processes w a)) \<Longrightarrow>
    services_step resolve factory self_stops w (Service_stopSelf a c w)"

inductive services_reachable ::
  "(component \<Rightarrow> service_info option) \<Rightarrow> (component \<Rightarrow> bool) \<Rightarrow> bool \<Rightarrow> services \<Rightarrow> bool"
  for resolve factory self_stops where
  start: "services_reachable resolve factory self_stops ServiceManager_start"
| step: "services_reachable resolve factory self_stops w \<Longrightarrow> services_step resolve factory self_stops w w' \<Longrightarrow>
    services_reachable resolve factory self_stops w'"

end
