(* ===== verification/Service_Properties.thy ===== *)
theory Service_Properties
  imports Services
begin

text \<open>
  What holds in every reachable state of the service manager: its two registries, the process records and the map of the process
  manager agree, its messages always reach a running process, and a process will have, after its pending messages, exactly
  the services that the manager has recorded for it.
\<close>

section \<open>The registries\<close>

text \<open>
  \<open>open_names\<close> are the names of processes that may still be without services, and \<open>open_services\<close> the components whose record may not
  be alive yet: both are empty between two turns of the manager.
\<close>

definition service_ok :: "component set \<Rightarrow> services \<Rightarrow> component \<Rightarrow> address \<Rightarrow> bool" where
  "service_ok open_services w c s \<longleftrightarrow>
     (let sr = service_records w s; r = srProcessRecord sr; pr = process_records w r
      in s < next_address w \<and> (c \<notin> open_services \<longrightarrow> srAlive sr) \<and>
         mProcesses w (prName pr) = Some r \<and> map_of (prServices pr) c = Some s)"

definition process_ok :: "bytes set \<Rightarrow> services \<Rightarrow> bytes \<Rightarrow> address \<Rightarrow> bool" where
  "process_ok open_names w n r \<longleftrightarrow>
     (let pr = process_records w r
      in r < next_address w \<and> prName pr = n \<and> (n \<notin> open_names \<longrightarrow> prServices pr \<noteq> []) \<and> distinct (map fst (prServices pr)) \<and>
         (\<forall>c s. map_of (prServices pr) c = Some s \<longrightarrow> mServices w c = Some s \<and> srProcessRecord (service_records w s) = r) \<and>
         mManaged w n = Some (prProcess pr))"

definition managed_ok :: "services \<Rightarrow> bytes \<Rightarrow> address \<Rightarrow> bool" where
  "managed_ok w n a \<longleftrightarrow> a < next_address w \<and> \<not> pQuit (processes w a) \<and> pName (processes w a) = n \<and>
     a \<notin> set (mStops w) \<and> mStopping w \<noteq> Some a \<and> mProcesses w n \<noteq> None"

definition stops_ok :: "services \<Rightarrow> bool" where
  "stops_ok w \<longleftrightarrow> distinct (mStops w) \<and>
     (\<forall>a \<in> set (mStops w). a < next_address w \<and> \<not> pQuit (processes w a) \<and> mStopping w \<noteq> Some a) \<and>
     (\<forall>a. mStopping w = Some a \<longrightarrow> a < next_address w)"

definition registry :: "bytes set \<Rightarrow> component set \<Rightarrow> services \<Rightarrow> bool" where
  "registry open_names open_services w \<longleftrightarrow>
     (\<forall>c s. mServices w c = Some s \<longrightarrow> service_ok open_services w c s) \<and>
     (\<forall>n r. mProcesses w n = Some r \<longrightarrow> process_ok open_names w n r) \<and>
     (\<forall>n a. mManaged w n = Some a \<longrightarrow> managed_ok w n a) \<and> stops_ok w \<and> inj_on (mServices w) (dom (mServices w))"

lemma registryD:
  assumes "registry N D w"
  shows "mServices w c = Some s \<Longrightarrow> service_ok D w c s"
    and "mProcesses w n = Some r \<Longrightarrow> process_ok N w n r"
    and "mManaged w n = Some a \<Longrightarrow> managed_ok w n a"
    and "stops_ok w"
    and "inj_on (mServices w) (dom (mServices w))"
  using assms by (simp_all add: registry_def)

lemma service_okD:
  assumes "service_ok D w c s"
  shows "s < next_address w" and "c \<notin> D \<Longrightarrow> srAlive (service_records w s)"
    and "mProcesses w (prName (process_records w (srProcessRecord (service_records w s)))) = Some (srProcessRecord (service_records w s))"
    and "map_of (prServices (process_records w (srProcessRecord (service_records w s)))) c = Some s"
  using assms by (simp_all add: service_ok_def Let_def)

lemma process_okD:
  assumes "process_ok N w n r"
  shows "r < next_address w" and "prName (process_records w r) = n" and "n \<notin> N \<Longrightarrow> prServices (process_records w r) \<noteq> []"
    and "distinct (map fst (prServices (process_records w r)))"
    and "map_of (prServices (process_records w r)) c = Some s \<Longrightarrow> mServices w c = Some s"
    and "map_of (prServices (process_records w r)) c = Some s \<Longrightarrow> srProcessRecord (service_records w s) = r"
    and "mManaged w n = Some (prProcess (process_records w r))"
  using assms by (simp_all add: process_ok_def Let_def)

lemma registry_mono: "registry N D w \<Longrightarrow> N \<subseteq> N' \<Longrightarrow> D \<subseteq> D' \<Longrightarrow> registry N' D' w"
proof -
  assume "registry N D w" and sub: "N \<subseteq> N'" "D \<subseteq> D'"
  moreover have "service_ok D w c s \<Longrightarrow> service_ok D' w c s" "process_ok N w n r \<Longrightarrow> process_ok N' w n r" for c s n r
    using sub by (auto simp: service_ok_def process_ok_def Let_def)
  ultimately show ?thesis by (simp add: registry_def)
qed

text \<open>The parts of the state that the registries do not read.\<close>

definition same_registry :: "services \<Rightarrow> services \<Rightarrow> bool" where
  "same_registry w w' \<longleftrightarrow>
     mServices w' = mServices w \<and> mProcesses w' = mProcesses w \<and> mManaged w' = mManaged w \<and> mStops w' = mStops w \<and>
     mStopping w' = mStopping w \<and> process_records w' = process_records w \<and> next_address w \<le> next_address w' \<and>
     (\<forall>s. srAlive (service_records w s) \<longrightarrow> srAlive (service_records w' s)) \<and>
     (\<forall>s. srProcessRecord (service_records w' s) = srProcessRecord (service_records w s)) \<and>
     (\<forall>a. pQuit (processes w' a) = pQuit (processes w a) \<and> pName (processes w' a) = pName (processes w a))"

lemma registry_same:
  assumes "registry N D w" and same: "same_registry w w'"
  shows "registry N D w'"
proof -
  have le: "x < next_address w'" if "x < next_address w" for x
    using that same by (simp add: same_registry_def)
  have "service_ok D w' c s" if "mServices w' c = Some s" for c s
    using registryD(1)[OF assms(1), of c s] that same le by (auto simp: service_ok_def same_registry_def Let_def)
  moreover have "process_ok N w' n r" if "mProcesses w' n = Some r" for n r
    using registryD(2)[OF assms(1), of n r] that same le by (auto simp: process_ok_def same_registry_def Let_def)
  moreover have "managed_ok w' n a" if "mManaged w' n = Some a" for n a
    using registryD(3)[OF assms(1), of n a] that same le by (auto simp: managed_ok_def same_registry_def)
  moreover have "stops_ok w'" using registryD(4)[OF assms(1)] same le by (auto simp: stops_ok_def same_registry_def)
  moreover have "inj_on (mServices w') (dom (mServices w'))" using registryD(5)[OF assms(1)] same by (simp add: same_registry_def)
  ultimately show ?thesis by (simp add: registry_def)
qed

lemma same_registry_refl [simp]: "same_registry w w"
  by (simp add: same_registry_def)

lemma same_registry_trans: "same_registry w w' \<Longrightarrow> same_registry w' w'' \<Longrightarrow> same_registry w w''"
  by (simp add: same_registry_def)

named_theorems service_ops \<open>the elementary changes of the state\<close>

lemmas [service_ops] = upd_process_def upd_service_def upd_process_record_def complete_promise_def complete_optional_def
  new_callback_def sendResult_def service_event_def remove_callback_def

lemma same_registry_ops:
  "same_registry w (complete_promise p x w)"
  "same_registry w (complete_optional q x w)"
  "same_registry w (snd (new_callback l w))"
  "same_registry w (sendResult cb res w)"
  "same_registry w (service_event a e w)"
  "same_registry w (remove_callback cb w)"
  "same_registry w (w\<lparr>mMessages := ms\<rparr>)"
  "same_registry w (w\<lparr>mStartId := k\<rparr>)"
  "same_registry w (upd_process a (\<lambda>p. p\<lparr>pMessages := f p\<rparr>) w)"
  "same_registry w (upd_process a (\<lambda>p. p\<lparr>pServices := g p\<rparr>) w)"
  "same_registry w (upd_service s (\<lambda>sr. sr\<lparr>srRunning := b\<rparr>) w)"
  "same_registry w (upd_service s (ServiceRecord_addServiceConnection conn) w)"
  "same_registry w (upd_service s (ServiceRecord_removeServiceConnection conn) w)"
  by (simp_all add: same_registry_def service_ops ServiceRecord_addServiceConnection_def
        ServiceRecord_removeServiceConnection_def Let_def split: option.split)

section \<open>Agreement of the manager with its processes\<close>

text \<open>The services of a process after its pending messages.\<close>

fun effect :: "(intent \<Rightarrow> bool) \<Rightarrow> process_request \<Rightarrow> component set \<Rightarrow> component set" where
  "effect inst (CreateService i cb) S = (if inst i then insert (mComponent i) S else S)"
| "effect inst (StopService i cb) S = S - {mComponent i}"
| "effect inst _ S = S"

definition services_after :: "(intent \<Rightarrow> bool) \<Rightarrow> process \<Rightarrow> component set" where
  "services_after inst p = fold (effect inst) (pMessages p) (set (pServices p))"

text \<open>
  \<open>uncreated\<close> are the components that are recorded, but not created any more or not yet; a component whose class is not registered
  is never created.
\<close>

definition agree :: "(intent \<Rightarrow> bool) \<Rightarrow> (component \<Rightarrow> bool) \<Rightarrow> component set \<Rightarrow> services \<Rightarrow> bool" where
  "agree inst factory uncreated w \<longleftrightarrow>
     (\<forall>n r c. mProcesses w n = Some r \<longrightarrow>
        (c \<in> services_after inst (processes w (prProcess (process_records w r))) \<longleftrightarrow>
         factory c \<and> map_of (prServices (process_records w r)) c \<noteq> None \<and> c \<notin> uncreated))"

fun request_ok :: "(intent \<Rightarrow> bool) \<Rightarrow> (component \<Rightarrow> bool) \<Rightarrow> process_request \<Rightarrow> bool" where
  "request_ok inst factory (CreateService i cb) \<longleftrightarrow> snd cb = Service_created i \<and> (inst i \<longleftrightarrow> factory (mComponent i))"
| "request_ok inst factory (StartService i flags startId cb) \<longleftrightarrow> (\<exists>c p. snd cb = Service_started c p)"
| "request_ok inst factory (StopService i cb) \<longleftrightarrow> (\<forall>x. cb = Some x \<longrightarrow> (\<exists>p. snd x = Service_stopped p))"
| "request_ok inst factory _ \<longleftrightarrow> True"

fun result_ok :: "(component \<Rightarrow> bool) \<Rightarrow> request \<Rightarrow> bool" where
  "result_ok factory (MSG_SEND_RESULT cb res) \<longleftrightarrow> (\<forall>i. snd cb = Service_created i \<longrightarrow> \<not> res \<longrightarrow> \<not> factory (mComponent i))"
| "result_ok factory _ \<longleftrightarrow> True"

definition messages_ok :: "(intent \<Rightarrow> bool) \<Rightarrow> (component \<Rightarrow> bool) \<Rightarrow> services \<Rightarrow> bool" where
  "messages_ok inst factory w \<longleftrightarrow>
     (\<forall>a. distinct (pServices (processes w a)) \<and> (\<forall>m \<in> set (pMessages (processes w a)). request_ok inst factory m)) \<and>
     (\<forall>m \<in> set (mMessages w). result_ok factory m)"

definition consistent :: "(intent \<Rightarrow> bool) \<Rightarrow> (component \<Rightarrow> bool) \<Rightarrow> component set \<Rightarrow> services \<Rightarrow> bool" where
  "consistent inst factory D w \<longleftrightarrow> agree inst factory D w \<and> messages_ok inst factory w"

text \<open>Changes that leave the processes and the registries alone.\<close>

lemma consistent_same:
  assumes "consistent inst factory D w" and "same_registry w w'" and "processes w' = processes w"
    and "\<forall>m \<in> set (mMessages w'). result_ok factory m"
  shows "consistent inst factory D w'"
  using assms by (simp add: consistent_def agree_def messages_ok_def same_registry_def)

lemma consistent_ops:
  assumes "consistent inst factory D w"
  shows "consistent inst factory D (complete_promise p x w)"
    and "consistent inst factory D (complete_optional q x w)"
    and "consistent inst factory D (snd (new_callback l w))"
    and "consistent inst factory D (service_event a e w)"
    and "consistent inst factory D (remove_callback cb w)"
    and "consistent inst factory D (w\<lparr>mStartId := k\<rparr>)"
    and "consistent inst factory D (upd_service s (\<lambda>sr. sr\<lparr>srRunning := b\<rparr>) w)"
    and "consistent inst factory D (upd_service s (\<lambda>sr. sr\<lparr>srAlive := b\<rparr>) w)"
    and "consistent inst factory D (upd_service s (ServiceRecord_addServiceConnection conn) w)"
    and "consistent inst factory D (upd_service s (ServiceRecord_removeServiceConnection conn) w)"
  using assms by (auto simp: consistent_def agree_def messages_ok_def service_ops Let_def split: option.split)

lemma consistent_message:
  "consistent inst factory D w \<Longrightarrow> result_ok factory m \<Longrightarrow> consistent inst factory D (w\<lparr>mMessages := mMessages w @ [m]\<rparr>)"
  by (auto simp: consistent_def agree_def messages_ok_def)

lemma managed_inj:
  assumes "registry N D w" and "mManaged w n = Some a" and "mManaged w m = Some a"
  shows "n = m"
  using registryD(3)[OF assms(1,2)] registryD(3)[OF assms(1,3)] by (simp add: managed_ok_def)

text \<open>A message to a process changes what it will have as the message says, and leaves the others alone.\<close>

lemma send_consistent:
  assumes reg: "registry N D w" and con: "consistent inst factory U w"
    and n: "mProcesses w n = Some r" "mManaged w n = Some a" and m: "request_ok inst factory m"
    and at: "\<And>c. c \<in> effect inst m (services_after inst (processes w a)) \<longleftrightarrow>
      factory c \<and> map_of (prServices (process_records w r)) c \<noteq> None \<and> c \<notin> U'"
    and others: "\<And>k q c. mProcesses w k = Some q \<Longrightarrow> q \<noteq> r \<Longrightarrow>
      (map_of (prServices (process_records w q)) c \<noteq> None \<and> c \<notin> U \<longleftrightarrow> map_of (prServices (process_records w q)) c \<noteq> None \<and> c \<notin> U')"
  shows "consistent inst factory U' (upd_process a (\<lambda>p. p\<lparr>pMessages := pMessages p @ [m]\<rparr>) w)" (is "consistent _ _ _ ?w")
proof -
  have "c \<in> services_after inst (processes ?w (prProcess (process_records ?w q))) \<longleftrightarrow>
      factory c \<and> map_of (prServices (process_records ?w q)) c \<noteq> None \<and> c \<notin> U'" if q: "mProcesses ?w k = Some q" for k q c
  proof (cases "q = r")
    case True
    have "prProcess (process_records w r) = a" using process_okD(7)[OF registryD(2)[OF reg n(1)]] n(2) by simp
    then show ?thesis using at[of c] True by (simp add: upd_process_def services_after_def)
  next
    case False
    have q': "mProcesses w k = Some q" using q by (simp add: upd_process_def)
    have "prProcess (process_records w q) \<noteq> a"
    proof
      assume "prProcess (process_records w q) = a"
      then have "mManaged w k = Some a" using process_okD(7)[OF registryD(2)[OF reg q']] by simp
      then show False using managed_inj[OF reg n(2)] n(1) q' False by auto
    qed
    then show ?thesis using con q' others[OF q' False, of c] by (auto simp: upd_process_def consistent_def agree_def)
  qed
  then show ?thesis using con m by (auto simp: consistent_def agree_def messages_ok_def upd_process_def)
qed

section \<open>Preparing a service\<close>

lemma IProcess_send_eq:
  "registry N D w \<Longrightarrow> mManaged w n = Some a \<Longrightarrow> IProcess_send a m w = Inr (upd_process a (\<lambda>p. p\<lparr>pMessages := pMessages p @ [m]\<rparr>) w)"
  using registryD(3)[of N D w n a] by (simp add: IProcess_send_def managed_ok_def)

lemma prepareProcess_registry:
  assumes reg: "registry {} {} w" and prep: "ServiceManager_prepareProcess name w = (a, w')"
  shows "(\<exists>r. mProcesses w' name = Some r \<and> prProcess (process_records w' r) = a) \<and> registry {name} {} w' \<and>
    mServices w' = mServices w \<and> (consistent inst factory {} w \<longrightarrow> consistent inst factory {} w')"
proof -
  note D = registryD[OF reg]
  show ?thesis
  proof (cases "mProcesses w name")
    case (Some r)
    then show ?thesis using prep registry_mono[OF reg, of "{name}" "{}"] by (auto simp: ServiceManager_prepareProcess_def)
  next
    case None
    then have unmanaged: "mManaged w name = None" using D(3)[of name] by (cases "mManaged w name") (auto simp: managed_ok_def)
    let ?b = "next_address w" and ?r = "next_address w + 1"
    have w': "w' = w\<lparr>mManaged := (mManaged w)(name \<mapsto> ?b),
        processes := (processes w)(?b := \<lparr>pName = name, pServices = [], pMessages = [], pQuit = False\<rparr>),
        next_address := ?r + 1, mProcesses := (mProcesses w)(name \<mapsto> ?r),
        process_records := (process_records w)(?r := \<lparr>prName = name, prProcess = ?b, prServices = []\<rparr>)\<rparr>" and a: "a = ?b"
      using prep None unmanaged by (auto simp: ServiceManager_prepareProcess_def ProcessManager_startProcess_def Let_def)
    have fresh: "r < ?b" if "mProcesses w n = Some r" for n r using D(2)[OF that] by (simp add: process_ok_def Let_def)
    have "service_ok {} w' c s" if "mServices w' c = Some s" for c s
      using D(1)[of c s] that None fresh by (fastforce simp: w' service_ok_def Let_def)
    moreover have "process_ok {name} w' n r" if "mProcesses w' n = Some r" for n r
      using D(2)[of n r] that fresh[of n r] by (auto simp: w' process_ok_def Let_def split: if_splits)
    moreover have "managed_ok w' n b" if "mManaged w' n = Some b" for n b
      using D(3)[of n b] D(4) that by (auto simp: w' managed_ok_def stops_ok_def split: if_splits)
    moreover have "stops_ok w'" using D(4) by (auto simp: w' stops_ok_def)
    moreover have "inj_on (mServices w') (dom (mServices w'))" using D(5) by (simp add: w')
    ultimately have "registry {name} {} w'" by (simp add: registry_def)
    moreover have "consistent inst factory {} w'" if con: "consistent inst factory {} w"
    proof -
      have "prProcess (process_records w r) \<noteq> ?b" "r \<noteq> ?r" if r: "mProcesses w n = Some r" for n r
        using D(3)[OF process_okD(7)[OF D(2)[OF r]]] fresh[OF r] by (auto simp: managed_ok_def)
      then show ?thesis using con
        by (auto simp: consistent_def agree_def messages_ok_def w' services_after_def split: if_splits)
    qed
    ultimately show ?thesis by (simp add: w' a)
  qed
qed

lemma prepare_record_registry:
  assumes reg: "registry {} {} w"
  shows "\<exists>w' s. prepare_record i si w = Inr w' \<and> mServices w' (mComponent i) = Some s \<and> registry {} {mComponent i} w' \<and>
    (consistent inst factory {} w \<longrightarrow> consistent inst factory (if srAlive (service_records w' s) then {} else {mComponent i}) w')"
proof (cases "mServices w (mComponent i)")
  case (Some s)
  then show ?thesis using registry_mono[OF reg, of "{}" "{mComponent i}"] service_okD(2)[OF registryD(1)[OF reg Some]]
    by (simp add: prepare_record_def)
next
  case None
  obtain a v where prep: "ServiceManager_prepareProcess (siProcessName si) w = (a, v)" by (cases "ServiceManager_prepareProcess (siProcessName si) w") 
  let ?n = "siProcessName si" and ?c = "mComponent i"
  from prepareProcess_registry[OF reg prep] obtain r where r: "mProcesses v ?n = Some r" and regv: "registry {?n} {} v"
    and same: "mServices v = mServices w" and con: "consistent inst factory {} w \<Longrightarrow> consistent inst factory {} v" by blast
  note D = registryD[OF regv]
  have pr: "process_ok {?n} v ?n r" by (rule D(2)[OF r])
  have absent: "map_of (prServices (process_records v r)) ?c = None"
    using pr None by (cases "map_of (prServices (process_records v r)) ?c") (auto simp: process_ok_def same Let_def)
  define sr where "sr = ServiceRecord_new (if Intent_getBooleanExtra_systemService i then nameExtra i
      else Some (siPackageName si @ [58, 58] @ siName si)) r (Intent_getBooleanExtra_systemService i)"
  define w' where "w' = upd_process_record r (ProcessRecord_addService ?c (next_address v))
      (v\<lparr>next_address := next_address v + 1, service_records := (service_records v)(next_address v := sr),
         mServices := (mServices v)(?c \<mapsto> next_address v)\<rparr>)"
  have eq: "prepare_record i si w = Inr w'"
    using None absent by (simp add: prepare_record_def prep r ProcessRecord_containsService_def Let_def w'_def sr_def del: One_nat_def)
  have sr: "srProcessRecord sr = r" "\<not> srAlive sr" by (simp_all add: sr_def ServiceRecord_new_def)
  have lt: "s < next_address v" if "mServices v c = Some s" for c s using D(1)[OF that] by (simp add: service_ok_def Let_def)
  have other: "prName (process_records v q) \<noteq> ?n" if "mProcesses v m = Some q" "q \<noteq> r" for m q
    using D(2)[OF that(1)] that r by (auto simp: process_ok_def Let_def)
  note w'_simps = w'_def upd_process_record_def ProcessRecord_addService_def
  have "service_ok {?c} w' c s" if "mServices w' c = Some s" for c s
  proof (cases "c = ?c")
    case True
    then show ?thesis using that pr r sr by (simp add: w'_simps service_ok_def process_ok_def Let_def update_Some_unfold)
  next
    case False
    then show ?thesis using that D(1)[of c s] lt[of c s] sr
      by (auto simp: w'_simps service_ok_def Let_def update_conv')
  qed
  moreover have "process_ok {} w' n q" if "mProcesses w' n = Some q" for n q
  proof (cases "q = r")
    case True
    then have "n = ?n" using D(2)[of n q] that pr by (auto simp: w'_simps process_ok_def Let_def)
    then show ?thesis using True pr sr lt by (auto simp: w'_simps process_ok_def Let_def update_conv' distinct_update update_nonempty)
  next
    case False
    then show ?thesis using that D(2)[of n q] other[of n q] lt None same by (fastforce simp: w'_simps process_ok_def Let_def)
  qed
  moreover have "managed_ok w' n b" if "mManaged w' n = Some b" for n b
    using D(3)[of n b] that by (auto simp: w'_simps managed_ok_def)
  moreover have "stops_ok w'" using D(4) by (auto simp: w'_simps stops_ok_def)
  moreover have "inj_on (mServices w') (dom (mServices w'))"
    using D(5) lt by (fastforce simp: w'_simps inj_on_def dom_def)
  ultimately have "registry {} {?c} w'" by (simp add: registry_def)
  moreover have "consistent inst factory {?c} w'" if "consistent inst factory {} w"
  proof -
    have "map_of (prServices (process_records v q)) ?c = None" if "mProcesses v m = Some q" for m q
      using process_okD(5)[OF D(2)[OF that], of ?c] None same by (cases "map_of (prServices (process_records v q)) ?c") auto
    then show ?thesis using con[OF that] by (auto simp: consistent_def agree_def messages_ok_def w'_simps update_conv')
  qed
  ultimately show ?thesis using eq sr(2) by (auto simp: w'_simps)
qed

lemma service_process:
  assumes "registry N D w" and "mServices w c = Some s"
  shows "\<exists>n. mProcesses w n = Some (srProcessRecord (service_records w s)) \<and> mManaged w n = Some (process_of_service s w)"
proof -
  have "service_ok D w c s" by (rule registryD(1)[OF assms])
  note r = service_okD(3)[OF this]
  show ?thesis using r process_okD(7)[OF registryD(2)[OF assms(1) r]] unfolding process_of_service_def by blast
qed

lemma recorded_once:
  assumes reg: "registry N D w" and s: "mServices w c = Some s"
    and q: "mProcesses w k = Some q" "q \<noteq> srProcessRecord (service_records w s)"
  shows "map_of (prServices (process_records w q)) c = None"
  using process_okD(5,6)[OF registryD(2)[OF reg q(1)]] s q(2) by (cases "map_of (prServices (process_records w q)) c") fastforce+

lemma create_service_registry:
  assumes reg: "registry {} {mComponent i} w" and s: "mServices w (mComponent i) = Some s"
  shows "\<exists>w'. create_service i s w = Inr w' \<and> registry {} {} w' \<and> mServices w' (mComponent i) = Some s \<and>
    (consistent inst factory (if srAlive (service_records w s) then {} else {mComponent i}) w \<longrightarrow>
     (inst i \<longleftrightarrow> factory (mComponent i)) \<longrightarrow> consistent inst factory {} w')"
proof -
  have alive: "registry {} {} v" if v: "registry {} {mComponent i} v" "srAlive (service_records v s)" "mServices v (mComponent i) = Some s" for v
  proof -
    have "service_ok {} v c t" if "mServices v c = Some t" for c t
      using registryD(1)[OF v(1) that] v(2,3) that by (cases "c = mComponent i") (auto simp: service_ok_def Let_def)
    then show ?thesis using v(1) by (simp add: registry_def)
  qed
  show ?thesis
  proof (cases "srAlive (service_records w s)")
    case True
    then show ?thesis using alive[OF reg] s by (simp add: create_service_def)
  next
    case False
    define u where "u = upd_service s (\<lambda>sr. sr\<lparr>srAlive := True\<rparr>) w"
    obtain cb v where cb: "new_callback (Service_created i) u = (cb, v)" by (cases "new_callback (Service_created i) u")
    have same: "same_registry w v" "srAlive (service_records v s)" "snd cb = Service_created i"
      using cb by (auto simp: u_def same_registry_def service_ops Let_def)
    have regv: "registry {} {mComponent i} v" by (rule registry_same[OF reg same(1)])
    have s': "mServices v (mComponent i) = Some s" using s same by (simp add: same_registry_def)
    let ?r = "srProcessRecord (service_records v s)"
    obtain n where n: "mProcesses v n = Some ?r" "mManaged v n = Some (process_of_service s v)" using service_process[OF regv s'] by blast
    let ?w = "upd_process (process_of_service s v) (\<lambda>p. p\<lparr>pMessages := pMessages p @ [CreateService i cb]\<rparr>) v"
    have "create_service i s w = Inr ?w"
      using False IProcess_send_eq[OF regv n(2), of "CreateService i cb"] cb by (simp add: create_service_def u_def Let_def)
    moreover have "registry {} {} ?w"
    proof (rule alive)
      show "registry {} {mComponent i} ?w" by (rule registry_same[OF regv]) (rule same_registry_ops)
    qed (use s' same(2) in \<open>simp_all add: service_ops\<close>)
    moreover have "mServices ?w (mComponent i) = Some s" using s' by (simp add: service_ops)
    moreover have "consistent inst factory {} ?w"
      if "consistent inst factory {mComponent i} w" and inst: "inst i \<longleftrightarrow> factory (mComponent i)"
    proof (rule send_consistent[OF regv _ n])
      show con: "consistent inst factory {mComponent i} v" using consistent_ops(3)[OF consistent_ops(8)[OF that(1)], of "Service_created i" s True] cb
        by (simp add: u_def)
      show "request_ok inst factory (CreateService i cb)" using inst same(3) by simp
      have rec: "map_of (prServices (process_records v ?r)) (mComponent i) = Some s" by (rule service_okD(4)[OF registryD(1)[OF regv s']])
      show "c \<in> effect inst (CreateService i cb) (services_after inst (processes v (process_of_service s v))) \<longleftrightarrow>
          factory c \<and> map_of (prServices (process_records v ?r)) c \<noteq> None \<and> c \<notin> {}" for c
        using con n(1) inst rec by (auto simp: consistent_def agree_def process_of_service_def)
      show "map_of (prServices (process_records v q)) c \<noteq> None \<and> c \<notin> {mComponent i} \<longleftrightarrow>
          map_of (prServices (process_records v q)) c \<noteq> None \<and> c \<notin> {}" if "mProcesses v k = Some q" "q \<noteq> ?r" for k q c
        using recorded_once[OF regv s' that] by auto
    qed
    ultimately show ?thesis using False by auto
  qed
qed

text \<open>The invariant between two turns; \<open>P\<close> is what the agreement needs.\<close>

definition manager_ok :: "(intent \<Rightarrow> bool) \<Rightarrow> (component \<Rightarrow> bool) \<Rightarrow> bool \<Rightarrow> services \<Rightarrow> bool" where
  "manager_ok inst factory P w \<longleftrightarrow> registry {} {} w \<and> (P \<longrightarrow> consistent inst factory {} w)"

lemma prepareService_ok:
  assumes ok: "manager_ok inst factory P w" and info: "prepare_serviceInfo resolve i = Inr info"
    and inst: "info \<noteq> None \<Longrightarrow> P \<Longrightarrow> inst i \<longleftrightarrow> factory (mComponent i)"
  shows "\<exists>w'. ServiceManager_prepareService resolve i w = Inr (info \<noteq> None, w') \<and> manager_ok inst factory P w' \<and>
    (info = None \<longrightarrow> w' = w) \<and> (info \<noteq> None \<longrightarrow> mServices w' (mComponent i) \<noteq> None)"
proof (cases info)
  case None
  then show ?thesis using info ok by (simp add: ServiceManager_prepareService_def)
next
  case (Some si)
  have reg: "registry {} {} w" using ok by (simp add: manager_ok_def)
  from prepare_record_registry[OF reg, of i si inst factory] obtain v s
    where v: "prepare_record i si w = Inr v" "mServices v (mComponent i) = Some s" "registry {} {mComponent i} v"
      "consistent inst factory {} w \<Longrightarrow> consistent inst factory (if srAlive (service_records v s) then {} else {mComponent i}) v" by blast
  from create_service_registry[OF v(3,2), of inst factory] obtain w' where w': "create_service i s v = Inr w'" "registry {} {} w'"
    "mServices w' (mComponent i) = Some s"
    "consistent inst factory (if srAlive (service_records v s) then {} else {mComponent i}) v \<Longrightarrow>
      (inst i \<longleftrightarrow> factory (mComponent i)) \<Longrightarrow> consistent inst factory {} w'" by blast
  then show ?thesis using v(1,2,4) Some info inst ok by (simp add: ServiceManager_prepareService_def manager_ok_def)
qed

section \<open>Forgetting a service\<close>

lemma forget_service_registry:
  assumes reg: "registry {} {} w" and s: "mServices w c = Some s"
  shows "registry {} {} (forget_service c s w)"
proof -
  note D = registryD[OF reg]
  define r where "r = srProcessRecord (service_records w s)"
  define n where "n = prName (process_records w r)"
  define a where "a = prProcess (process_records w r)"
  note names = r_def[symmetric] n_def[symmetric] a_def[symmetric]
  have so: "service_ok {} w c s" by (rule D(1)[OF s])
  have r: "mProcesses w n = Some r" using service_okD(3)[OF so] unfolding names .
  have po: "process_ok {} w n r" by (rule D(2)[OF r])
  have a: "mManaged w n = Some a" using process_okD(7)[OF po] unfolding names .
  have mo: "managed_ok w n a" by (rule D(3)[OF a])
  define v where "v = upd_process_record r (ProcessRecord_removeService c)
      (upd_service s (\<lambda>sr. sr\<lparr>srAlive := False, srRunning := False\<rparr>) w\<lparr>mServices := (mServices w)(c := None)\<rparr>)"
  note v_simps = v_def upd_process_record_def upd_service_def ProcessRecord_removeService_def
  have v: "prName (process_records v q) = prName (process_records w q)" "prProcess (process_records v q) = prProcess (process_records w q)"
    "srProcessRecord (service_records v t) = srProcessRecord (service_records w t)" "next_address v = next_address w"
    "mProcesses v = mProcesses w" "mManaged v = mManaged w" "mStops v = mStops w" "mStopping v = mStopping w" "processes v = processes w"
    "mServices v = (mServices w)(c := None)"
    "q \<noteq> r \<Longrightarrow> process_records v q = process_records w q"
    "prServices (process_records v r) = AList.delete c (prServices (process_records w r))"
    "t \<noteq> s \<Longrightarrow> service_records v t = service_records w t" for q t
    by (simp_all add: v_simps)
  have other: "q = r" if "mProcesses w m = Some q" "prName (process_records w q) = n" for m q
    using process_okD(2)[OF D(2)[OF that(1)]] that r by simp
  have serv: "service_ok {} v d t" if "mServices v d = Some t" for d t
  proof -
    have d: "d \<noteq> c" "mServices w d = Some t" using that by (auto simp: v split: if_splits)
    have "t \<noteq> s" using inj_onD[OF D(5), of d c] s d by auto
    then show ?thesis using D(1)[OF d(2)] d(1) by (cases "srProcessRecord (service_records w t) = r") (simp_all add: v service_ok_def Let_def delete_conv')
  qed
  have proc: "process_ok {n} v m q" if "mProcesses v m = Some q" for m q
  proof (cases "q = r")
    case True
    then have "m = n" using process_okD(2)[OF D(2)[of m q]] that n_def by (simp add: v)
    then show ?thesis using True process_okD[OF po] by (simp add: v process_ok_def Let_def delete_conv' distinct_delete)
  next
    case False
    have q: "process_ok {} w m q" using D(2) that by (simp add: v)
    have "d \<noteq> c" if "map_of (prServices (process_records w q)) d = Some t" for d t
      using process_okD(5,6)[OF q that] s False by (auto simp: r_def)
    then show ?thesis using False q by (auto simp: v process_ok_def Let_def)
  qed
  have inj: "inj_on (mServices v) (dom (mServices v))"
    using D(5) by (auto simp: v inj_on_def dom_def)
  have regv: "registry {n} {} v"
    using serv proc D(3,4) inj by (simp add: registry_def managed_ok_def stops_ok_def v)
  have forget: "forget_service c s w =
      (if prServices (process_records v r) = [] then let w = snd (ProcessManager_stopProcess n v) in w\<lparr>mProcesses := (mProcesses w)(n := None)\<rparr> else v)"
    unfolding forget_service_def Let_def ProcessRecord_numServices_def v_def r_def n_def
    by (simp add: upd_service_def upd_process_record_def ProcessRecord_removeService_def)
  show ?thesis
  proof (cases "prServices (process_records v r) = []")
    case False
    moreover have "process_ok {} v m q" if "mProcesses v m = Some q" for m q
    proof (cases "m = n")
      case True
      then have "q = r" using that r by (simp add: v)
      then show ?thesis using proc[OF that] False by (simp add: process_ok_def Let_def)
    qed (use proc[OF that] in \<open>simp add: process_ok_def Let_def\<close>)
    ultimately show ?thesis using regv forget by (simp add: registry_def)
  next
    case True
    define u where "u = v\<lparr>mManaged := (mManaged w)(n := None), mStops := mStops w @ [a], mProcesses := (mProcesses w)(n := None)\<rparr>"
    have "forget_service c s w = u" using True a forget by (simp add: u_def ProcessManager_stopProcess_def v)
    moreover have "service_ok {} u d t" if "mServices u d = Some t" for d t
    proof -
      have d: "service_ok {} v d t" using that serv by (simp add: u_def)
      have "srProcessRecord (service_records v t) \<noteq> r" using service_okD(4)[OF d] True by auto
      then have "prName (process_records v (srProcessRecord (service_records v t))) \<noteq> n"
        using service_okD(3)[OF d] other by (simp add: v) blast
      then show ?thesis using d by (simp add: u_def service_ok_def Let_def v)
    qed
    moreover have "process_ok {} u m q" if "mProcesses u m = Some q" for m q
    proof -
      have m: "m \<noteq> n" "mProcesses v m = Some q" using that by (auto simp: u_def v split: if_splits)
      show ?thesis using proc[OF m(2)] m(1) by (simp add: u_def process_ok_def Let_def v(6))
    qed
    moreover have "managed_ok u m b" if "mManaged u m = Some b" for m b
      using D(3)[of m b] mo that by (auto simp: u_def managed_ok_def v split: if_splits)
    moreover have "stops_ok u" using D(4) mo by (auto simp: u_def stops_ok_def managed_ok_def v)
    moreover have "inj_on (mServices u) (dom (mServices u))" using inj by (simp add: u_def)
    ultimately show ?thesis by (simp add: registry_def)
  qed
qed

lemma forget_service_consistent:
  assumes reg: "registry {} {} w" and s: "mServices w c = Some s" and con: "consistent inst factory {c} w"
  shows "consistent inst factory {} (forget_service c s w)"
proof -
  let ?r = "srProcessRecord (service_records w s)" and ?w = "forget_service c s w"
  have f: "processes ?w = processes w" "mMessages ?w = mMessages w" "\<And>q. prProcess (process_records ?w q) = prProcess (process_records w q)"
    "\<And>q. prServices (process_records ?w q) = (if q = ?r then AList.delete c (prServices (process_records w q)) else prServices (process_records w q))"
    "\<And>k q. mProcesses ?w k = Some q \<Longrightarrow> mProcesses w k = Some q"
    by (auto simp: forget_service_def Let_def ProcessManager_stopProcess_def service_ops ProcessRecord_removeService_def
        split: option.splits if_splits)
  have "agree inst factory {} ?w" unfolding agree_def
  proof (intro allI impI)
    fix n q d
    assume "mProcesses ?w n = Some q"
    then have q: "mProcesses w n = Some q" by (rule f(5))
    have "map_of (prServices (process_records ?w q)) d \<noteq> None \<longleftrightarrow> map_of (prServices (process_records w q)) d \<noteq> None \<and> d \<notin> {c}"
      using recorded_once[OF reg s q] by (auto simp: f(4) delete_conv')
    moreover have "d \<in> services_after inst (processes w (prProcess (process_records w q))) \<longleftrightarrow>
        factory d \<and> map_of (prServices (process_records w q)) d \<noteq> None \<and> d \<notin> {c}"
      using con q unfolding consistent_def agree_def by blast
    ultimately show "d \<in> services_after inst (processes ?w (prProcess (process_records ?w q))) \<longleftrightarrow>
        factory d \<and> map_of (prServices (process_records ?w q)) d \<noteq> None \<and> d \<notin> {}"
      unfolding f(1,3) by simp
  qed
  then show ?thesis using con by (simp add: consistent_def messages_ok_def f(1,2))
qed

section \<open>The turns of the manager\<close>

lemma manager_ok_same:
  assumes "manager_ok inst factory P w" and "same_registry w w'" and "consistent inst factory {} w \<Longrightarrow> consistent inst factory {} w'"
  shows "manager_ok inst factory P w'"
  using assms registry_same[of "{}" "{}" w w'] by (auto simp: manager_ok_def)

lemma manager_ok_ops:
  assumes "manager_ok inst factory P w"
  shows "manager_ok inst factory P (complete_promise p x w)"
    and "manager_ok inst factory P (complete_optional q x w)"
    and "manager_ok inst factory P (snd (new_callback l w))"
    and "manager_ok inst factory P (service_event a e w)"
    and "manager_ok inst factory P (remove_callback cb w)"
    and "manager_ok inst factory P (w\<lparr>mStartId := k\<rparr>)"
    and "manager_ok inst factory P (upd_service s (\<lambda>sr. sr\<lparr>srRunning := b\<rparr>) w)"
    and "manager_ok inst factory P (upd_service s (ServiceRecord_addServiceConnection conn) w)"
    and "manager_ok inst factory P (upd_service s (ServiceRecord_removeServiceConnection conn) w)"
    and "result_ok factory m \<Longrightarrow> manager_ok inst factory P (w\<lparr>mMessages := mMessages w @ [m]\<rparr>)"
  by (rule manager_ok_same[OF assms], rule same_registry_ops, rule consistent_ops consistent_message, assumption+)+

lemma send_ok:
  assumes ok: "manager_ok inst factory P w" and s: "mServices w c = Some s"
    and m: "request_ok inst factory m" "\<And>S. effect inst m S = S"
  shows "IProcess_send (process_of_service s w) m w = Inr (upd_process (process_of_service s w) (\<lambda>p. p\<lparr>pMessages := pMessages p @ [m]\<rparr>) w)"
    and "manager_ok inst factory P (upd_process (process_of_service s w) (\<lambda>p. p\<lparr>pMessages := pMessages p @ [m]\<rparr>) w)"
proof -
  have reg: "registry {} {} w" using ok by (simp add: manager_ok_def)
  obtain n where n: "mProcesses w n = Some (srProcessRecord (service_records w s))" "mManaged w n = Some (process_of_service s w)"
    using service_process[OF reg s] by blast
  show "IProcess_send (process_of_service s w) m w = Inr (upd_process (process_of_service s w) (\<lambda>p. p\<lparr>pMessages := pMessages p @ [m]\<rparr>) w)"
    by (rule IProcess_send_eq[OF reg n(2)])
  show "manager_ok inst factory P (upd_process (process_of_service s w) (\<lambda>p. p\<lparr>pMessages := pMessages p @ [m]\<rparr>) w)"
  proof (rule manager_ok_same[OF ok same_registry_ops(9)])
    assume con: "consistent inst factory {} w"
    show "consistent inst factory {} (upd_process (process_of_service s w) (\<lambda>p. p\<lparr>pMessages := pMessages p @ [m]\<rparr>) w)"
      by (rule send_consistent[OF reg con n m(1)]) (use con n(1) m(2) in \<open>auto simp: consistent_def agree_def process_of_service_def\<close>)
  qed
qed

lemma stop_ok:
  assumes ok: "manager_ok inst factory P w" and s: "mServices w (mComponent i) = Some s"
  shows "\<exists>w'. bind_result (IProcess_send (process_of_service s (snd (new_callback (Service_stopped p) w)))
      (StopService i (Some (fst (new_callback (Service_stopped p) w)))) (snd (new_callback (Service_stopped p) w)))
        (\<lambda>w. Inr (forget_service (mComponent i) s w)) = Inr w' \<and> manager_ok inst factory P w'"
proof -
  obtain cb v where cb: "new_callback (Service_stopped p) w = (cb, v)" by (cases "new_callback (Service_stopped p) w")
  have okv: "manager_ok inst factory P v" using manager_ok_ops(3)[OF ok, of "Service_stopped p"] cb by simp
  have same: "mServices v = mServices w" "snd cb = Service_stopped p" using cb by (auto simp: new_callback_def Let_def)
  have reg: "registry {} {} v" using okv by (simp add: manager_ok_def)
  have s': "mServices v (mComponent i) = Some s" using s same by simp
  obtain n where n: "mProcesses v n = Some (srProcessRecord (service_records v s))" "mManaged v n = Some (process_of_service s v)"
    using service_process[OF reg s'] by blast
  let ?w = "upd_process (process_of_service s v) (\<lambda>p. p\<lparr>pMessages := pMessages p @ [StopService i (Some cb)]\<rparr>) v"
  have regw: "registry {} {} ?w" by (rule registry_same[OF reg]) (rule same_registry_ops)
  have sw: "mServices ?w (mComponent i) = Some s" using s' by (simp add: upd_process_def)
  have "consistent inst factory {mComponent i} ?w" if con: "consistent inst factory {} v"
  proof (rule send_consistent[OF reg con n])
    show "request_ok inst factory (StopService i (Some cb))" using same(2) by simp
    show "d \<in> effect inst (StopService i (Some cb)) (services_after inst (processes v (process_of_service s v))) \<longleftrightarrow>
        factory d \<and> map_of (prServices (process_records v (srProcessRecord (service_records v s)))) d \<noteq> None \<and> d \<notin> {mComponent i}" for d
      using con n(1) by (auto simp: consistent_def agree_def process_of_service_def)
    show "map_of (prServices (process_records v q)) d \<noteq> None \<and> d \<notin> {} \<longleftrightarrow>
        map_of (prServices (process_records v q)) d \<noteq> None \<and> d \<notin> {mComponent i}"
      if "mProcesses v k = Some q" "q \<noteq> srProcessRecord (service_records v s)" for k q d
      using recorded_once[OF reg s' that] by auto
  qed
  then have "manager_ok inst factory P (forget_service (mComponent i) s ?w)"
    using forget_service_registry[OF regw sw] forget_service_consistent[OF regw sw, of inst factory] okv by (simp add: manager_ok_def)
  then show ?thesis using IProcess_send_eq[OF reg n(2), of "StopService i (Some cb)"] cb by simp
qed

lemma start_ok:
  assumes ok: "manager_ok inst factory P w" and info: "prepare_serviceInfo resolve i = Inr info"
    and inst: "info \<noteq> None \<Longrightarrow> P \<Longrightarrow> inst i \<longleftrightarrow> factory (mComponent i)"
  shows "\<exists>w'. ServiceManager_startService resolve i p w = Inr w' \<and> manager_ok inst factory P w'"
proof -
  have "\<exists>v. ServiceManager_prepareService resolve i w = Inr (info \<noteq> None, v) \<and> manager_ok inst factory P v \<and>
      (info = None \<longrightarrow> v = w) \<and> (info \<noteq> None \<longrightarrow> mServices v (mComponent i) \<noteq> None)"
    by (rule prepareService_ok[OF ok info]) (erule (1) inst)
  then obtain v where v: "ServiceManager_prepareService resolve i w = Inr (info \<noteq> None, v)"
    "manager_ok inst factory P v" "info \<noteq> None \<longrightarrow> mServices v (mComponent i) \<noteq> None" by (elim exE conjE) (rule that)
  show ?thesis
  proof (cases "info = None")
    case True
    then show ?thesis using v manager_ok_ops(1)[OF v(2)] by (simp add: ServiceManager_startService_def)
  next
    case False
    then obtain s where s: "mServices v (mComponent i) = Some s" using v(3) by auto
    define u where "u = upd_service s (\<lambda>sr. sr\<lparr>srRunning := True\<rparr>) v"
    obtain cb t where cb: "new_callback (Service_started (mComponent i) p) u = (cb, t)" by (cases "new_callback (Service_started (mComponent i) p) u")
    define x where "x = t\<lparr>mStartId := mStartId t + 1\<rparr>"
    have "manager_ok inst factory P t"
      using manager_ok_ops(3)[OF manager_ok_ops(7)[OF v(2)], of "Service_started (mComponent i) p" s True] cb by (simp add: u_def)
    then have okx: "manager_ok inst factory P x" unfolding x_def by (rule manager_ok_ops(6))
    have "mServices x (mComponent i) = Some s" "snd cb = Service_started (mComponent i) p"
      using cb s by (auto simp: x_def u_def new_callback_def upd_service_def Let_def)
    note send = send_ok[OF okx this(1), of "StartService i 0 (mStartId t) cb"]
    have "process_of_service s t = process_of_service s x" by (simp add: process_of_service_def x_def)
    then have "ServiceManager_startService resolve i p w = IProcess_send (process_of_service s x) (StartService i 0 (mStartId t) cb) x"
      using v(1) False s cb by (simp add: ServiceManager_startService_def u_def x_def Let_def)
    then show ?thesis using send \<open>snd cb = _\<close> by simp
  qed
qed

lemma instantiates_plain:
  "(\<forall>c si. resolve c = Some si \<longrightarrow> siEnabled si) \<Longrightarrow> resolve (mComponent i) \<noteq> None \<Longrightarrow> systemServiceExtra i = Some False \<Longrightarrow>
    instantiates resolve factory i \<longleftrightarrow> factory (mComponent i)"
  by (auto simp: instantiates_def Intent_getBooleanExtra_systemService_def)

lemma stopService_ok:
  assumes ok: "manager_ok inst factory P w"
  shows "\<exists>w'. ServiceManagerImpl_stopService i p w = Inr w' \<and> manager_ok inst factory P w'"
proof (cases "mServices w (mComponent i)")
  case None
  then show ?thesis using manager_ok_ops(2)[OF ok] by (simp add: ServiceManagerImpl_stopService_def)
next
  case (Some s)
  then show ?thesis using manager_ok_ops(2)[OF ok] stop_ok[OF ok Some, of p]
    by (simp add: ServiceManagerImpl_stopService_def case_prod_beta Let_def)
qed

lemma manager_turn_ok:
  assumes ok: "manager_ok (instantiates resolve factory) factory P w" and enabled: "P \<Longrightarrow> \<forall>c si. resolve c = Some si \<longrightarrow> siEnabled si"
    and res: "P \<Longrightarrow> result_ok factory m"
  shows "\<exists>w'. ServiceManager_onTransact resolve m w = Inr w' \<and> manager_ok (instantiates resolve factory) factory P w'"
proof (cases m)
  case (MSG_START_SERVICE i p)
  let ?i = "i\<lparr>systemServiceExtra := Some False\<rparr>"
  have "prepare_serviceInfo resolve ?i = Inr (resolve (mComponent i))"
    by (simp add: prepare_serviceInfo_def Intent_getBooleanExtra_systemService_def)
  from start_ok[OF ok this, of p] show ?thesis using enabled instantiates_plain[of resolve ?i factory]
    by (simp add: MSG_START_SERVICE ServiceManager_onTransact_def ServiceManagerImpl_startService_def)
next
  case (MSG_STOP_SERVICE i p)
  then show ?thesis using stopService_ok[OF ok] by (simp add: ServiceManager_onTransact_def)
next
  case (MSG_BIND_SERVICE i conn flags p)
  let ?i = "i\<lparr>systemServiceExtra := Some False\<rparr>"
  have info: "prepare_serviceInfo resolve ?i = Inr (resolve (mComponent i))"
    by (simp add: prepare_serviceInfo_def Intent_getBooleanExtra_systemService_def)
  have "\<exists>v. ServiceManager_prepareService resolve ?i w = Inr (resolve (mComponent i) \<noteq> None, v) \<and>
      manager_ok (instantiates resolve factory) factory P v"
    using prepareService_ok[OF ok info] enabled instantiates_plain[of resolve ?i factory] by simp blast
  then obtain v where v: "ServiceManager_prepareService resolve ?i w = Inr (resolve (mComponent i) \<noteq> None, v)"
    "manager_ok (instantiates resolve factory) factory P v" by blast
  show ?thesis
  proof (cases "mServices v (mComponent i)")
    case None
    then show ?thesis using v manager_ok_ops(1)[OF v(2)]
      by (simp add: MSG_BIND_SERVICE ServiceManager_onTransact_def ServiceManagerImpl_bindService_def Let_def)
  next
    case (Some s)
    define u where "u = upd_service s (ServiceRecord_addServiceConnection conn) v"
    have oku: "manager_ok (instantiates resolve factory) factory P u" unfolding u_def by (rule manager_ok_ops(8)[OF v(2)])
    have "mServices u (mComponent i) = Some s" using Some by (simp add: u_def upd_service_def)
    note send = send_ok[OF oku this, of "BindService ?i conn flags"]
    then show ?thesis using v Some manager_ok_ops(1)[OF v(2)] manager_ok_ops(1)[OF send(2)]
      by (simp add: MSG_BIND_SERVICE ServiceManager_onTransact_def ServiceManagerImpl_bindService_def Let_def u_def[symmetric])
  qed
next
  case (MSG_UNBIND_SERVICE i conn)
  show ?thesis
  proof (cases "mServices w (mComponent i)")
    case None
    then show ?thesis using ok by (simp add: MSG_UNBIND_SERVICE ServiceManager_onTransact_def ServiceManagerImpl_unbindService_def)
  next
    case (Some s)
    note send = send_ok[OF ok Some, of "UnbindService i"]
    have "manager_ok (instantiates resolve factory) factory P (upd_service s (ServiceRecord_removeServiceConnection conn)
        (upd_process (process_of_service s w) (\<lambda>p. p\<lparr>pMessages := pMessages p @ [UnbindService i]\<rparr>) w))"
      using manager_ok_ops(9) send(2) by simp
    from this manager_ok_ops(10)[OF this, of "MSG_STOP_SERVICE i None"] show ?thesis using send(1) Some
      by (simp add: MSG_UNBIND_SERVICE ServiceManager_onTransact_def ServiceManagerImpl_unbindService_def Let_def)
  qed
next
  case (MSG_START_SYSTEM_SERVICE i p)
  let ?i = "i\<lparr>nameExtra := or_else (nameExtra i) (getClassName (mComponent i)),
      processExtra := or_else (processExtra i) (getPackageName (mComponent i)), systemServiceExtra := Some True\<rparr>"
  have "\<exists>info. prepare_serviceInfo resolve ?i = Inr info"
    by (simp add: prepare_serviceInfo_def Intent_getBooleanExtra_systemService_def or_else_def split: option.split)
  then obtain info where "prepare_serviceInfo resolve ?i = Inr info" by blast
  from start_ok[OF ok this, of p] show ?thesis
    by (simp add: MSG_START_SYSTEM_SERVICE ServiceManager_onTransact_def ServiceManagerImpl_startSystemService_def
        instantiates_def Intent_getBooleanExtra_systemService_def)
next
  case (MSG_STOP_SYSTEM_SERVICE i p)
  then show ?thesis using stopService_ok[OF ok] by (simp add: ServiceManager_onTransact_def ServiceManagerImpl_stopSystemService_def)
next
  case (MSG_SEND_RESULT cb r)
  have reg: "registry {} {} w" using ok by (simp add: manager_ok_def)
  have "manager_ok (instantiates resolve factory) factory P (forget_service (mComponent i) s w)"
    if "snd cb = Service_created i" "\<not> r" "mServices w (mComponent i) = Some s" for i s
  proof -
    have "consistent (instantiates resolve factory) factory {mComponent i} w" if P
      using ok res that \<open>snd cb = _\<close> \<open>\<not> r\<close> by (auto simp: MSG_SEND_RESULT manager_ok_def consistent_def agree_def)
    then show ?thesis
      using forget_service_registry[OF reg that(3)] forget_service_consistent[OF reg that(3)] by (auto simp: manager_ok_def)
  qed
  then show ?thesis using ok manager_ok_ops(1,2,5)
    by (auto simp: MSG_SEND_RESULT ServiceManager_onTransact_def RemoteCallback_onResult_def created_onResult_def
        started_onResult_def stopped_onResult_def ServiceManager_cleanupService_def split: listener.split option.split)
qed

section \<open>The turns of the processes\<close>

text \<open>A turn of a process: its next message is gone, its services are what the message says, and it may send a result.\<close>

lemma Process_onTransact_frame:
  assumes "distinct (pServices (processes w a))" and "request_ok inst factory m" and inst: "inst = instantiates resolve factory"
  shows "same_registry w (Process_onTransact resolve factory a m w)"
    and "set (pServices (processes (Process_onTransact resolve factory a m w) a)) = effect inst m (set (pServices (processes w a)))"
    and "distinct (pServices (processes (Process_onTransact resolve factory a m w) a))"
    and "pMessages (processes (Process_onTransact resolve factory a m w) b) = pMessages (processes w b)"
    and "b \<noteq> a \<Longrightarrow> processes (Process_onTransact resolve factory a m w) b = processes w b"
    and "\<forall>x \<in> set (mMessages w). result_ok factory x \<Longrightarrow> \<forall>x \<in> set (mMessages (Process_onTransact resolve factory a m w)). result_ok factory x"
  using assms(1,2) unfolding inst
  by (cases m; auto simp: Process_onTransact_def ProcessImpl_createService_def ProcessImpl_startService_def ProcessImpl_stopService_def
      ProcessImpl_bindService_def ProcessImpl_unbindService_def same_registry_def service_ops Let_def split: option.split; fail)+

lemma process_turn_ok:
  assumes ok: "manager_ok (instantiates resolve factory) factory P w" and turn: "Process_turn resolve factory a w = Some w'"
  shows "manager_ok (instantiates resolve factory) factory P w'"
proof -
  let ?inst = "instantiates resolve factory"
  from turn obtain m ms where ms: "pMessages (processes w a) = m # ms"
    and w': "w' = Process_onTransact resolve factory a m (upd_process a (\<lambda>p. p\<lparr>pMessages := ms\<rparr>) w)"
    by (auto simp: Process_turn_def split: list.splits)
  let ?v = "upd_process a (\<lambda>p. p\<lparr>pMessages := ms\<rparr>) w"
  have same: "same_registry w w'"
  proof (rule same_registry_trans)
    show "same_registry w ?v" by (rule same_registry_ops)
    show "same_registry ?v w'" unfolding w'
      by (cases m) (auto simp: Process_onTransact_def ProcessImpl_createService_def ProcessImpl_startService_def ProcessImpl_stopService_def
        ProcessImpl_bindService_def ProcessImpl_unbindService_def same_registry_def service_ops Let_def split: option.split)
  qed
  show ?thesis
  proof (rule manager_ok_same[OF ok same])
    assume con: "consistent ?inst factory {} w"
    then have d: "distinct (pServices (processes ?v a))" and mes: "\<forall>x \<in> set (mMessages ?v). result_ok factory x"
      and "\<forall>m \<in> set (pMessages (processes w a)). request_ok ?inst factory m"
      by (simp_all add: consistent_def messages_ok_def upd_process_def)
    then have m: "request_ok ?inst factory m" using ms by simp
    note f = Process_onTransact_frame[OF d m refl, folded w']
    have after: "services_after ?inst (processes w' b) = services_after ?inst (processes w b)" for b
    proof (cases "b = a")
      case True
      then show ?thesis using f(2,4) ms by (simp add: services_after_def upd_process_def)
    qed (simp add: f(5) upd_process_def)
    have "messages_ok ?inst factory w'"
      unfolding messages_ok_def
    proof (intro conjI allI)
      show "distinct (pServices (processes w' b))" for b
        using f(3) f(5)[of b] con by (cases "b = a") (simp_all add: consistent_def messages_ok_def upd_process_def)
      show "\<forall>x \<in> set (pMessages (processes w' b)). request_ok ?inst factory x" for b
      proof -
        have "\<forall>x \<in> set (pMessages (processes w b)). request_ok ?inst factory x" using con by (simp add: consistent_def messages_ok_def)
        then show ?thesis using f(4)[of b] ms by (auto simp: upd_process_def)
      qed
      show "\<forall>x \<in> set (mMessages w'). result_ok factory x" by (rule f(6)[OF mes])
    qed
    then show "consistent ?inst factory {} w'" using con same by (simp add: consistent_def agree_def after same_registry_def)
  qed
qed

lemma not_managed_consistent:
  assumes reg: "registry {} {} w" and con: "consistent inst factory {} w"
    and a: "\<And>n. mManaged w n \<noteq> Some a" and f: "pServices (f (processes w a)) = pServices (processes w a)"
      "\<forall>m \<in> set (pMessages (f (processes w a))). request_ok inst factory m"
    and v: "mProcesses v = mProcesses w" "process_records v = process_records w" "processes v = processes w" "mMessages v = mMessages w"
  shows "consistent inst factory {} (upd_process a f v)"
proof -
  have "prProcess (process_records w r) \<noteq> a" if "mProcesses w n = Some r" for n r
    using process_okD(7)[OF registryD(2)[OF reg that]] a[of n] by auto
  then show ?thesis using con f v by (auto simp: consistent_def agree_def messages_ok_def upd_process_def)
qed

lemma stop_begin_ok:
  assumes ok: "manager_ok inst factory P w" and turn: "Process_stop_begin w = Some out"
  shows "\<exists>w'. out = Inr w' \<and> manager_ok inst factory P w'"
proof -
  have reg: "registry {} {} w" using ok by (simp add: manager_ok_def)
  note D = registryD[OF reg]
  from turn obtain a as where as: "mStopping w = None" "mStops w = a # as"
    by (auto simp: Process_stop_begin_def split: option.splits list.splits)
  define stops where "stops = map (\<lambda>c. StopService \<lparr>mComponent = c, systemServiceExtra = None, nameExtra = None, processExtra = None\<rparr> None)
      (pServices (processes w a))"
  define v where "v = w\<lparr>mStops := as, mStopping := Some a\<rparr>"
  let ?w = "upd_process a (\<lambda>p. p\<lparr>pMessages := pMessages p @ map (\<lambda>c. StopService \<lparr>mComponent = c, systemServiceExtra = None,
      nameExtra = None, processExtra = None\<rparr> None) (pServices p)\<rparr>) v"
  have out: "out = Inr ?w" using turn as D(4) by (simp add: Process_stop_begin_def stops_ok_def v_def)
  have not_managed: "mManaged w n \<noteq> Some a" for n using D(3)[of n a] as by (auto simp: managed_ok_def)
  have "managed_ok v n b" if "mManaged v n = Some b" for n b
    using D(3)[of n b] that as not_managed[of n] by (auto simp: managed_ok_def v_def)
  moreover have "stops_ok v" using D(4) as by (auto simp: stops_ok_def v_def)
  ultimately have "registry {} {} v" using D(1,2,5) by (simp add: registry_def v_def service_ok_def process_ok_def)
  then have "registry {} {} ?w" by (rule registry_same) (rule same_registry_ops)
  moreover have "consistent inst factory {} ?w" if con: "consistent inst factory {} w"
    by (rule not_managed_consistent[OF reg con not_managed])
      (use con in \<open>auto simp: consistent_def messages_ok_def v_def\<close>)
  ultimately show ?thesis using out ok by (simp add: manager_ok_def)
qed

lemma stop_end_ok:
  assumes ok: "manager_ok inst factory P w" and turn: "Process_stop_end timed_out w = Some w'"
  shows "manager_ok inst factory P w'"
proof -
  have reg: "registry {} {} w" using ok by (simp add: manager_ok_def)
  note D = registryD[OF reg]
  from turn obtain a where a: "mStopping w = Some a"
    and w': "w' = upd_process a (\<lambda>p. p\<lparr>pQuit := True, pMessages := []\<rparr>) (w\<lparr>mStopping := None\<rparr>)"
    by (auto simp: Process_stop_end_def split: option.splits if_splits)
  have not_managed: "mManaged w n \<noteq> Some a" for n using D(3)[of n a] a by (auto simp: managed_ok_def)
  have "managed_ok w' n b" if "mManaged w' n = Some b" for n b
    using D(3)[of n b] that a by (auto simp: managed_ok_def w' upd_process_def)
  moreover have "stops_ok w'" using D(4) a by (auto simp: stops_ok_def w' upd_process_def)
  ultimately have "registry {} {} w'" using D(1,2,5) by (simp add: registry_def w' upd_process_def service_ok_def process_ok_def)
  moreover have "consistent inst factory {} w'" if con: "consistent inst factory {} w" unfolding w'
    by (rule not_managed_consistent[OF reg con not_managed]) (use con in \<open>auto simp: consistent_def messages_ok_def\<close>)
  ultimately show ?thesis using ok by (simp add: manager_ok_def)
qed

lemma client_result_ok: "client_request m \<Longrightarrow> result_ok factory m"
  by (cases m) simp_all

lemma services_reachable_ok:
  assumes "services_reachable resolve factory self_stops w"
  shows "manager_ok (instantiates resolve factory) factory (\<not> self_stops \<and> (\<forall>c si. resolve c = Some si \<longrightarrow> siEnabled si)) w"
  using assms
proof (induction rule: services_reachable.induct)
  case start
  show ?case
    by (auto simp: manager_ok_def registry_def stops_ok_def consistent_def agree_def messages_ok_def ServiceManager_start_def)
next
  case (step w w')
  let ?P = "\<not> self_stops \<and> (\<forall>c si. resolve c = Some si \<longrightarrow> siEnabled si)"
  note ok = step.IH
  from step.hyps(2) show ?case
  proof cases
    case (request m)
    then show ?thesis using manager_ok_ops(10)[OF ok client_result_ok] by simp
  next
    case manager
    then obtain m ms where ms: "mMessages w = m # ms" "ServiceManager_onTransact resolve m (w\<lparr>mMessages := ms\<rparr>) = Inr w'"
      by (auto simp: ServiceManager_turn_def split: list.splits)
    have "manager_ok (instantiates resolve factory) factory ?P (w\<lparr>mMessages := ms\<rparr>)"
    proof (rule manager_ok_same[OF ok same_registry_ops(7)])
      assume "consistent (instantiates resolve factory) factory {} w"
      then show "consistent (instantiates resolve factory) factory {} (w\<lparr>mMessages := ms\<rparr>)"
        using ms(1) by (auto simp: consistent_def agree_def messages_ok_def)
    qed
    from manager_turn_ok[OF this, of m] show ?thesis
      using ms ok by (auto simp: manager_ok_def consistent_def messages_ok_def)
  next
    case (process a)
    then show ?thesis using process_turn_ok[OF ok] by blast
  next
    case stop_begin
    then show ?thesis using stop_begin_ok[OF ok] by blast
  next
    case (stop_end timed_out)
    then show ?thesis using stop_end_ok[OF ok] by blast
  next
    case (stop_self c a)
    have "same_registry w (Service_stopSelf a c w)"
      by (simp add: Service_stopSelf_def ProcessImpl_stopService_def same_registry_def service_ops Let_def)
    from registry_same[OF _ this] show ?thesis using ok stop_self by (simp add: manager_ok_def)
  qed
qed

section \<open>Properties\<close>

text \<open>Sequences of steps, for concrete runs.\<close>

datatype services_action =
    Request request
  | Manager_turn
  | Process_acts address
  | Stop_begin
  | Stop_end
  | Stop_self address component

fun do_action ::
  "(component \<Rightarrow> service_info option) \<Rightarrow> (component \<Rightarrow> bool) \<Rightarrow> services_action \<Rightarrow> services \<Rightarrow> services option" where
  "do_action resolve factory (Request m) w = (if client_request m then Some (w\<lparr>mMessages := mMessages w @ [m]\<rparr>) else None)"
| "do_action resolve factory Manager_turn w = (case ServiceManager_turn resolve w of Some (Inr w') \<Rightarrow> Some w' | _ \<Rightarrow> None)"
| "do_action resolve factory (Process_acts a) w = Process_turn resolve factory a w"
| "do_action resolve factory Stop_begin w = (case Process_stop_begin w of Some (Inr w') \<Rightarrow> Some w' | _ \<Rightarrow> None)"
| "do_action resolve factory Stop_end w = Process_stop_end False w"
| "do_action resolve factory (Stop_self a c) w = (if c \<in> set (pServices (processes w a)) then Some (Service_stopSelf a c w) else None)"

fun do_actions ::
  "(component \<Rightarrow> service_info option) \<Rightarrow> (component \<Rightarrow> bool) \<Rightarrow> services_action list \<Rightarrow> services \<Rightarrow> services option" where
  "do_actions resolve factory [] w = Some w"
| "do_actions resolve factory (x # xs) w = (case do_action resolve factory x w of None \<Rightarrow> None | Some w \<Rightarrow> do_actions resolve factory xs w)"

fun stops_self :: "services_action \<Rightarrow> bool" where
  "stops_self (Stop_self a c) = True"
| "stops_self _ = False"

lemma do_action_step:
  "do_action resolve factory x w = Some w' \<Longrightarrow> stops_self x \<longrightarrow> self_stops \<Longrightarrow> services_step resolve factory self_stops w w'"
  by (cases x) (auto split: if_splits option.splits sum.splits intro: services_step.intros)

lemma do_actions_reachable:
  "do_actions resolve factory xs w = Some w' \<Longrightarrow> services_reachable resolve factory self_stops w \<Longrightarrow> list_ex stops_self xs \<longrightarrow> self_stops \<Longrightarrow>
    services_reachable resolve factory self_stops w'"
proof (induction xs arbitrary: w)
  case (Cons x xs)
  from Cons.prems(1) obtain v where v: "do_action resolve factory x w = Some v" "do_actions resolve factory xs v = Some w'"
    by (auto split: option.splits)
  have "services_step resolve factory self_stops w v" using do_action_step[OF v(1)] Cons.prems(3) by auto
  with Cons.prems(2) have "services_reachable resolve factory self_stops v" by (rule services_reachable.step)
  then show ?case using Cons.IH[OF v(2)] Cons.prems(3) by simp
qed simp

text \<open>
  (C6) The manager never fails. In every reachable state, its next turn and the next stop of a process end without an exception, every
  recorded service is alive and stands in the record of a process that is registered under its name, is known to the process
  manager and has a running thread, so that messages reach it; every registered process has a service, and only services
  that are recorded under their names.
\<close>

theorem ServiceManager_registry_safe:
  assumes "services_reachable resolve factory self_stops w"
  shows "(\<forall>out. ServiceManager_turn resolve w = Some out \<longrightarrow> (\<exists>w'. out = Inr w')) \<and>
    (\<forall>out. Process_stop_begin w = Some out \<longrightarrow> (\<exists>w'. out = Inr w')) \<and>
    (\<forall>c s. mServices w c = Some s \<longrightarrow> srAlive (service_records w s) \<and>
       (\<exists>n r. srProcessRecord (service_records w s) = r \<and> mProcesses w n = Some r \<and> map_of (prServices (process_records w r)) c = Some s \<and>
          mManaged w n = Some (process_of_service s w) \<and> \<not> pQuit (processes w (process_of_service s w)))) \<and>
    (\<forall>n r. mProcesses w n = Some r \<longrightarrow> prServices (process_records w r) \<noteq> [] \<and>
       (\<forall>c s. map_of (prServices (process_records w r)) c = Some s \<longrightarrow> mServices w c = Some s))"
proof -
  let ?P = "\<not> self_stops \<and> (\<forall>c si. resolve c = Some si \<longrightarrow> siEnabled si)"
  have ok: "manager_ok (instantiates resolve factory) factory ?P w" by (rule services_reachable_ok[OF assms])
  then have reg: "registry {} {} w" by (simp add: manager_ok_def)
  have "\<exists>w'. out = Inr w'" if "ServiceManager_turn resolve w = Some out" for out
  proof -
    from that obtain m ms where ms: "mMessages w = m # ms" "out = ServiceManager_onTransact resolve m (w\<lparr>mMessages := ms\<rparr>)"
      by (auto simp: ServiceManager_turn_def split: list.splits)
    have "manager_ok (instantiates resolve factory) factory False (w\<lparr>mMessages := ms\<rparr>)"
      using registry_same[OF reg same_registry_ops(7)] by (simp add: manager_ok_def)
    then have "\<exists>w'. ServiceManager_onTransact resolve m (w\<lparr>mMessages := ms\<rparr>) = Inr w' \<and>
        manager_ok (instantiates resolve factory) factory False w'" by (rule manager_turn_ok) simp_all
    then show ?thesis using ms(2) by blast
  qed
  moreover have "\<exists>w'. out = Inr w'" if "Process_stop_begin w = Some out" for out using stop_begin_ok[OF ok that] by blast
  moreover have "srAlive (service_records w s) \<and>
       (\<exists>n r. srProcessRecord (service_records w s) = r \<and> mProcesses w n = Some r \<and> map_of (prServices (process_records w r)) c = Some s \<and>
          mManaged w n = Some (process_of_service s w) \<and> \<not> pQuit (processes w (process_of_service s w)))"
    if s: "mServices w c = Some s" for c s
  proof -
    note so = registryD(1)[OF reg s]
    obtain n where n: "mProcesses w n = Some (srProcessRecord (service_records w s))" "mManaged w n = Some (process_of_service s w)"
      using service_process[OF reg s] by blast
    moreover have "\<not> pQuit (processes w (process_of_service s w))" using registryD(3)[OF reg n(2)] by (simp add: managed_ok_def)
    ultimately show ?thesis using service_okD(2,4)[OF so] by blast
  qed
  moreover have "prServices (process_records w r) \<noteq> [] \<and>
       (\<forall>c s. map_of (prServices (process_records w r)) c = Some s \<longrightarrow> mServices w c = Some s)" if "mProcesses w n = Some r" for n r
    using process_okD(3,5)[OF registryD(2)[OF reg that]] by simp
  ultimately show ?thesis by blast
qed


definition example_component :: component where
  "example_component = ComponentName [97] [98]"

definition example_resolve :: "component \<Rightarrow> service_info option" where
  "example_resolve c = (if c = example_component
     then Some \<lparr>siName = [98], siPackageName = [97], siProcessName = [112], siEnabled = True\<rparr> else None)"

definition example_intent :: intent where
  "example_intent = \<lparr>mComponent = example_component, systemServiceExtra = None, nameExtra = None, processExtra = None\<rparr>"

text \<open>Nothing is left to do: no message is pending anywhere, and no process is to be stopped.\<close>

definition services_quiet :: "services \<Rightarrow> bool" where
  "services_quiet w \<longleftrightarrow> mMessages w = [] \<and> mStops w = [] \<and> mStopping w = None \<and>
     list_all (\<lambda>a. pMessages (processes w a) = []) [0..<next_address w]"

abbreviation example_run :: "services_action list \<Rightarrow> services option" where
  "example_run xs \<equiv> do_actions example_resolve (\<lambda>_. True) xs ServiceManager_start"

lemma example_reachable:
  "example_run xs = Some w \<Longrightarrow> list_ex stops_self xs \<longrightarrow> self_stops \<Longrightarrow>
    services_reachable example_resolve (\<lambda>_. True) self_stops w"
  by (erule do_actions_reachable) (rule services_reachable.start)

lemma example_started:
  "map_option (\<lambda>w. (answers w, mServices w example_component, mProcesses w [112], pServices (processes w 0), next_address w))
     (example_run [Request (MSG_START_SERVICE example_intent 1), Manager_turn, Process_acts 0, Process_acts 0, Manager_turn, Manager_turn]) =
   Some ([(1, Component (Some example_component))], Some 2, Some 1, [example_component], 5)"
  by code_simp

theorem ServiceManager_registry_safe_witness:
  "\<exists>w s. services_reachable example_resolve (\<lambda>_. True) True w \<and> mServices w example_component = Some s \<and>
     srAlive (service_records w s) \<and> \<not> pQuit (processes w (process_of_service s w))"
proof -
  obtain w where run: "example_run [Request (MSG_START_SERVICE example_intent 1), Manager_turn, Process_acts 0, Process_acts 0,
      Manager_turn, Manager_turn] = Some w" and s: "mServices w example_component = Some 2"
    using example_started by auto
  from run have reach: "services_reachable example_resolve (\<lambda>_. True) True w" by (rule example_reachable) simp
  then show ?thesis using ServiceManager_registry_safe[OF reach] s by blast
qed


text \<open>
  A service that stops itself is not noticed. \<open>stopSelf\<close> goes to the process and not to the manager, which goes on with a record that
  is alive. A later \<open>startService\<close> does not create the service again and never reaches its code, and its promise is
  completed with the component all the same; no message is left.
\<close>

theorem stopSelf_leaves_dead_record:
  "\<exists>w s. services_reachable example_resolve (\<lambda>_. True) True w \<and> services_quiet w \<and>
     mServices w example_component = Some s \<and> srAlive (service_records w s) \<and> srRunning (service_records w s) \<and>
     answers w = [(1, Component (Some example_component)), (2, Component (Some example_component))] \<and>
     events w = [(0, OnCreate example_component), (0, OnStartCommand example_component 0 0), (0, OnDestroy example_component)] \<and>
     pServices (processes w (process_of_service s w)) = []"
proof -
  let ?run = "[Request (MSG_START_SERVICE example_intent 1), Manager_turn, Process_acts 0, Process_acts 0, Manager_turn, Manager_turn,
      Stop_self 0 example_component, Request (MSG_START_SERVICE example_intent 2), Manager_turn, Process_acts 0, Manager_turn]"
  have "map_option (\<lambda>w. (services_quiet w, mServices w example_component, srAlive (service_records w 2), srRunning (service_records w 2),
        answers w, events w, pServices (processes w (process_of_service 2 w)))) (example_run ?run) =
      Some (True, Some 2, True, True, [(1, Component (Some example_component)), (2, Component (Some example_component))],
        [(0, OnCreate example_component), (0, OnStartCommand example_component 0 0), (0, OnDestroy example_component)], [])"
    by code_simp
  then obtain w where run: "example_run ?run = Some w" and w: "services_quiet w" "mServices w example_component = Some 2"
      "srAlive (service_records w 2)" "srRunning (service_records w 2)"
      "answers w = [(1, Component (Some example_component)), (2, Component (Some example_component))]"
      "events w = [(0, OnCreate example_component), (0, OnStartCommand example_component 0 0), (0, OnDestroy example_component)]"
      "pServices (processes w (process_of_service 2 w)) = []"
    by (auto simp only: map_option_eq_Some prod.inject)
  from run have "services_reachable example_resolve (\<lambda>_. True) True w" by (rule example_reachable) simp
  with w show ?thesis by blast
qed

text \<open>
  Stopping a service too early loses the promises. When the process manager stops a process that has not yet created its service, it has
  no services and its thread quits at once; the pending messages are dropped with their callbacks. Nothing is left
  to do then, but neither the promise of \<open>startService\<close> nor that of \<open>stopService\<close> is completed, and the callbacks stay with the manager.
\<close>

theorem stopService_loses_promises:
  "\<exists>w. services_reachable example_resolve (\<lambda>_. True) False w \<and> services_quiet w \<and> answers w = [] \<and> events w = [] \<and>
     mServices w example_component = None \<and>
     mServiceCallbacks w = [(3, Service_created (example_intent\<lparr>systemServiceExtra := Some False\<rparr>)),
       (4, Service_started example_component 1), (5, Service_stopped (Some 2))]"
proof -
  let ?run = "[Request (MSG_START_SERVICE example_intent 1), Request (MSG_STOP_SERVICE example_intent (Some 2)), Manager_turn, Manager_turn,
      Stop_begin, Stop_end]"
  have "map_option (\<lambda>w. (services_quiet w, answers w, events w, mServices w example_component, mServiceCallbacks w)) (example_run ?run) =
      Some (True, [], [], None, [(3, Service_created (example_intent\<lparr>systemServiceExtra := Some False\<rparr>)),
       (4, Service_started example_component 1), (5, Service_stopped (Some 2))])"
    by code_simp
  then obtain w where run: "example_run ?run = Some w" and w: "services_quiet w" "answers w = []" "events w = []"
      "mServices w example_component = None"
      "mServiceCallbacks w = [(3, Service_created (example_intent\<lparr>systemServiceExtra := Some False\<rparr>)),
        (4, Service_started example_component 1), (5, Service_stopped (Some 2))]"
    by (auto simp only: map_option_eq_Some prod.inject)
  from run have "services_reachable example_resolve (\<lambda>_. True) False w" by (rule example_reachable) simp
  with w show ?thesis by blast
qed

lemma delete_last: "distinct (map fst xs) \<Longrightarrow> map_of xs c \<noteq> None \<Longrightarrow> AList.delete c xs = [] \<longleftrightarrow> map fst xs = [c]"
  by (cases xs) auto

lemma forget_service_effects:
  assumes reg: "registry {} {} w" and s: "mServices w c = Some s" and r: "srProcessRecord (service_records w s) = r"
    and n: "mProcesses w n = Some r"
  shows "mServices (forget_service c s w) = (mServices w)(c := None)" and "answers (forget_service c s w) = answers w"
    and "processes (forget_service c s w) = processes w"
    and "map fst (prServices (process_records w r)) = [c] \<Longrightarrow> mStops (forget_service c s w) = mStops w @ [process_of_service s w] \<and>
      mProcesses (forget_service c s w) = (mProcesses w)(n := None)"
    and "map fst (prServices (process_records w r)) \<noteq> [c] \<Longrightarrow> mStops (forget_service c s w) = mStops w \<and>
      mProcesses (forget_service c s w) = mProcesses w"
proof -
  note so = registryD(1)[OF reg s] and po = registryD(2)[OF reg n]
  have "map_of (prServices (process_records w r)) c \<noteq> None" using service_okD(4)[OF so] r by simp
  note last = delete_last[OF process_okD(4)[OF po] this]
  have managed: "mManaged w n = Some (prProcess (process_records w r))" "prName (process_records w r) = n"
    using process_okD[OF po] by simp_all
  note defs = forget_service_def Let_def ProcessRecord_numServices_def ProcessRecord_removeService_def service_ops
    ProcessManager_stopProcess_def r process_of_service_def
  show "mServices (forget_service c s w) = (mServices w)(c := None)" "answers (forget_service c s w) = answers w"
    "processes (forget_service c s w) = processes w"
    by (simp_all add: defs split: option.split)
  show "mStops (forget_service c s w) = mStops w @ [process_of_service s w] \<and> mProcesses (forget_service c s w) = (mProcesses w)(n := None)"
    if "map fst (prServices (process_records w r)) = [c]"
    using last that managed by (simp add: defs)
  show "mStops (forget_service c s w) = mStops w \<and> mProcesses (forget_service c s w) = mProcesses w"
    if "map fst (prServices (process_records w r)) \<noteq> [c]"
    using last that by (simp add: defs)
qed

text \<open>
  (C8) Stopping and unbinding. A bound service is not stopped. Stopping one without connections takes it out of the registry, sends its
  process one last message for it, whose result completes the promise, and stops the process exactly if this was its last
  service. \<open>unbindService\<close> makes the manager send itself a stop when no connection is left afterwards, also when the connection was never
  bound and the service was started.
\<close>

theorem ServiceManager_stops_unbound_services:
  assumes "services_reachable resolve factory self_stops w" and s: "mServices w (mComponent i) = Some s"
    and r: "srProcessRecord (service_records w s) = r" and n: "mProcesses w n = Some r"
  shows "(srServiceConnections (service_records w s) \<noteq> [] \<longrightarrow>
      ServiceManagerImpl_stopService i (Some p) w = Inr (complete_promise p (Outcome False) w)) \<and>
    (srServiceConnections (service_records w s) = [] \<longrightarrow>
      (\<exists>w' cb. ServiceManagerImpl_stopService i (Some p) w = Inr w' \<and> mServices w' = (mServices w)(mComponent i := None) \<and>
         answers w' = answers w \<and> snd cb = Service_stopped (Some p) \<and>
         pMessages (processes w' (process_of_service s w)) = pMessages (processes w (process_of_service s w)) @ [StopService i (Some cb)] \<and>
         (if map fst (prServices (process_records w r)) = [mComponent i]
          then mStops w' = mStops w @ [process_of_service s w] \<and> mProcesses w' = (mProcesses w)(n := None)
          else mStops w' = mStops w \<and> mProcesses w' = mProcesses w))) \<and>
    (remove1 conn (srServiceConnections (service_records w s)) = [] \<longrightarrow>
      (\<exists>w'. ServiceManagerImpl_unbindService i conn w = Inr w' \<and> mMessages w' = mMessages w @ [MSG_STOP_SERVICE i None]))"
proof -
  have ok: "manager_ok (instantiates resolve factory) factory False w"
    using services_reachable_ok[OF assms(1)] by (simp add: manager_ok_def)
  then have reg: "registry {} {} w" by (simp add: manager_ok_def)
  have alive: "srAlive (service_records w s)" using service_okD(2)[OF registryD(1)[OF reg s]] by simp
  obtain cb v where cb: "new_callback (Service_stopped (Some p)) w = (cb, v)" by (cases "new_callback (Service_stopped (Some p)) w")
  then have v: "v = w\<lparr>next_address := next_address w + 1, mServiceCallbacks := mServiceCallbacks w @ [cb]\<rparr>" "snd cb = Service_stopped (Some p)"
    by (auto simp: new_callback_def Let_def)
  have regv: "registry {} {} v" by (rule registry_same[OF reg]) (simp add: v same_registry_def)
  obtain m where m: "mManaged v m = Some (process_of_service s v)"
    using service_process[OF regv, of "mComponent i" s] s by (auto simp: v)
  let ?u = "upd_process (process_of_service s v) (\<lambda>q. q\<lparr>pMessages := pMessages q @ [StopService i (Some cb)]\<rparr>) v"
  have a: "process_of_service s v = process_of_service s w" "process_of_service s ?u = process_of_service s w"
    by (simp_all add: v process_of_service_def upd_process_def)
  have regu: "registry {} {} ?u" by (rule registry_same[OF regv]) (rule same_registry_ops)
  have u: "mServices ?u (mComponent i) = Some s" "srProcessRecord (service_records ?u s) = r" "mProcesses ?u n = Some r"
    using s r n by (simp_all add: v upd_process_def)
  note f = forget_service_effects[OF regu u, unfolded a(2)]
  have "\<exists>w' cb. ServiceManagerImpl_stopService i (Some p) w = Inr w' \<and> mServices w' = (mServices w)(mComponent i := None) \<and>
         answers w' = answers w \<and> snd cb = Service_stopped (Some p) \<and>
         pMessages (processes w' (process_of_service s w)) = pMessages (processes w (process_of_service s w)) @ [StopService i (Some cb)] \<and>
         (if map fst (prServices (process_records w r)) = [mComponent i]
          then mStops w' = mStops w @ [process_of_service s w] \<and> mProcesses w' = (mProcesses w)(n := None)
          else mStops w' = mStops w \<and> mProcesses w' = mProcesses w)"
    if "srServiceConnections (service_records w s) = []"
  proof (intro exI conjI)
    show "ServiceManagerImpl_stopService i (Some p) w = Inr (forget_service (mComponent i) s ?u)"
      using s alive that cb IProcess_send_eq[OF regv m, of "StopService i (Some cb)"]
      by (simp add: ServiceManagerImpl_stopService_def ServiceRecord_getNumServiceConnections_def Let_def)
    show "snd cb = Service_stopped (Some p)" by (rule v(2))
    show "if map fst (prServices (process_records w r)) = [mComponent i]
          then mStops (forget_service (mComponent i) s ?u) = mStops w @ [process_of_service s w] \<and>
            mProcesses (forget_service (mComponent i) s ?u) = (mProcesses w)(n := None)
          else mStops (forget_service (mComponent i) s ?u) = mStops w \<and> mProcesses (forget_service (mComponent i) s ?u) = mProcesses w"
      using f(4,5) by (simp add: v upd_process_def)
  qed (use f(1-3) in \<open>simp_all add: v upd_process_def process_of_service_def\<close>)
  moreover have "\<exists>w'. ServiceManagerImpl_unbindService i conn w = Inr w' \<and> mMessages w' = mMessages w @ [MSG_STOP_SERVICE i None]"
    if "remove1 conn (srServiceConnections (service_records w s)) = []"
    using send_ok(1)[OF ok s, of "UnbindService i"] s that
    by (simp add: ServiceManagerImpl_unbindService_def Let_def service_ops ServiceRecord_removeServiceConnection_def
        ServiceRecord_getNumServiceConnections_def)
  ultimately show ?thesis using s alive
    by (auto simp: ServiceManagerImpl_stopService_def ServiceRecord_getNumServiceConnections_def Let_def complete_optional_def)
qed

theorem ServiceManager_stops_unbound_services_witness:
  "\<exists>w w'. services_reachable example_resolve (\<lambda>_. True) True w \<and> mServices w example_component = Some 2 \<and>
     ServiceManagerImpl_unbindService example_intent 9 w = Inr w' \<and> mMessages w' = [MSG_STOP_SERVICE example_intent None]"
proof -
  let ?run = "[Request (MSG_START_SERVICE example_intent 1), Manager_turn, Process_acts 0, Process_acts 0, Manager_turn, Manager_turn]"
  have "map_option (\<lambda>w. (mServices w example_component, srProcessRecord (service_records w 2), mProcesses w [112], mMessages w,
      srServiceConnections (service_records w 2))) (example_run ?run) = Some (Some 2, 1, Some 1, [], [])"
    by code_simp
  then obtain w where run: "example_run ?run = Some w" and w: "mServices w example_component = Some 2"
      "srProcessRecord (service_records w 2) = 1" "mProcesses w [112] = Some 1" "mMessages w = []" "srServiceConnections (service_records w 2) = []"
    by (auto simp only: map_option_eq_Some prod.inject)
  from run have reach: "services_reachable example_resolve (\<lambda>_. True) True w" by (rule example_reachable) simp
  have "mServices w (mComponent example_intent) = Some 2" using w(1) by (simp add: example_intent_def)
  from ServiceManager_stops_unbound_services[OF reach this w(2,3), of 7 9] show ?thesis using reach w(1,4,5) by auto
qed

end
