(* ===== verification/References.thy ===== *)
theory References
  imports Prelude "HOL-Library.Multiset"
begin

text \<open>
  Reference counts (\<open>src/mindroid/lang/Object.h\<close> and \<open>Object.cpp\<close>): one object with its \<open>WeakReferenceImpl\<close>, and any number
  of threads that copy, drop and convert smart pointers to it. Every access to an atomic variable is one step, so that all
  interleavings of the operations are covered; a weak compare-and-exchange may fail spuriously. The memory order of the
  accesses is not modelled. The lifetime mode of the object is fixed (\<open>setObjectLifetime\<close> is used in constructors only),
  and it has no destroyer of its own.

  \<open>fault\<close> records a failed assertion, an access to the counters after they were deleted, and a second deletion.
\<close>

section \<open>Memory\<close>

record reference_memory =
  mStrongReferenceCounter :: int
  mWeakReferenceCounter :: int
  weak_lifetime :: bool
  object_alive :: bool
  reference_alive :: bool
  fault :: bool

definition INITIAL_STRONG_REFERENCE_VALUE :: int where
  "INITIAL_STRONG_REFERENCE_VALUE = push_bit 28 1"

definition Object_new :: "bool \<Rightarrow> reference_memory" where
  "Object_new weak = \<lparr>mStrongReferenceCounter = INITIAL_STRONG_REFERENCE_VALUE, mWeakReferenceCounter = 0, weak_lifetime = weak,
     object_alive = True, reference_alive = True, fault = False\<rparr>"

definition check :: "bool \<Rightarrow> reference_memory \<Rightarrow> reference_memory" where
  "check b m = m\<lparr>fault := fault m \<or> \<not> b \<or> \<not> reference_alive m\<rparr>"

definition delete_reference :: "reference_memory \<Rightarrow> reference_memory" where
  "delete_reference m = (check True m)\<lparr>reference_alive := False\<rparr>"

text \<open>The destructor of \<open>Object\<close>, with the test that the object was not deleted before.\<close>

definition delete_object :: "reference_memory \<Rightarrow> reference_memory" where
  "delete_object m =
     (let m = (check (object_alive m) m)\<lparr>object_alive := False\<rparr>
      in if weak_lifetime m
         then if mWeakReferenceCounter m = 0 then delete_reference m else m
         else if mStrongReferenceCounter m = INITIAL_STRONG_REFERENCE_VALUE then delete_reference m else m)"

definition add_strong :: "int \<Rightarrow> reference_memory \<Rightarrow> reference_memory" where
  "add_strong k m = m\<lparr>mStrongReferenceCounter := mStrongReferenceCounter m + k\<rparr>"

definition add_weak :: "int \<Rightarrow> reference_memory \<Rightarrow> reference_memory" where
  "add_weak k m = m\<lparr>mWeakReferenceCounter := mWeakReferenceCounter m + k\<rparr>"

section \<open>Operations as sequences of steps\<close>

text \<open>
  The pointer an operation starts from stays with it: nobody else drops it while the operation runs. \<open>By_raw\<close> is the pointer that
  \<open>new\<close> returned.
\<close>

datatype owner = By_raw | By_sp | By_wp

datatype reference_operation =
    IncStrong_weak owner
  | IncStrong_strong owner
  | IncStrong_first owner
  | DecStrong
  | DecStrong_last
  | DecWeak "owner option"
  | DecWeak_last "owner option"
  | IncWeak owner
  | TryInc_weak
  | TryInc_load
  | TryInc_exchange int
  | TryInc_initial int
  | TryInc_add
  | TryInc_first

text \<open>
  What a step leads to: the rest of the operation, or its end with the number of \<open>sp\<close> and of \<open>wp\<close> that the thread holds then (the one
  it started from included).
\<close>

datatype outcome = Continue reference_operation | Ends nat nat

fun ends_with :: "owner option \<Rightarrow> nat \<Rightarrow> nat \<Rightarrow> outcome" where
  "ends_with None s w = Ends s w"
| "ends_with (Some By_raw) s w = Ends s w"
| "ends_with (Some By_sp) s w = Ends (s + 1) w"
| "ends_with (Some By_wp) s w = Ends s (w + 1)"

definition incWeakReference :: "reference_memory \<Rightarrow> reference_memory" where
  "incWeakReference m = add_weak 1 (check (mWeakReferenceCounter m \<ge> 0) m)"

definition decWeakReference :: "owner option \<Rightarrow> reference_memory \<Rightarrow> outcome \<times> reference_memory" where
  "decWeakReference r m =
     (let old = mWeakReferenceCounter m; m = add_weak (- 1) (check (old \<ge> 1) m)
      in if old \<noteq> 1 then (ends_with r 0 0, m) else (Continue (DecWeak_last r), m))"

definition decWeakReference_last :: "owner option \<Rightarrow> reference_memory \<Rightarrow> outcome \<times> reference_memory" where
  "decWeakReference_last r m =
     (ends_with r 0 0,
      if \<not> weak_lifetime m
      then if mStrongReferenceCounter m = INITIAL_STRONG_REFERENCE_VALUE then delete_object (check True m)
           else delete_reference (check True m)
      else delete_object (check True m))"

text \<open>\<open>incStrongReference\<close> after the weak count: the first reference takes the initial value away.\<close>

definition incStrongReference :: "owner \<Rightarrow> reference_memory \<Rightarrow> outcome \<times> reference_memory" where
  "incStrongReference r m =
     (let old = mStrongReferenceCounter m; m = add_strong 1 (check (old > 0) m)
      in if old \<noteq> INITIAL_STRONG_REFERENCE_VALUE then (ends_with (Some r) 1 0, m) else (Continue (IncStrong_first r), m))"

definition decStrongReference :: "reference_memory \<Rightarrow> outcome \<times> reference_memory" where
  "decStrongReference m =
     (let old = mStrongReferenceCounter m; m = add_strong (- 1) (check (old \<ge> 1) m)
      in if old = 1 then (Continue DecStrong_last, m) else (Continue (DecWeak None), m))"

definition decStrongReference_last :: "reference_memory \<Rightarrow> outcome \<times> reference_memory" where
  "decStrongReference_last m = (Continue (DecWeak None), if \<not> weak_lifetime m then delete_object (check True m) else check True m)"

text \<open>
  \<open>tryIncStrongReference\<close>: the two loops of compare-and-exchange (\<open>spurious\<close> makes one fail without a reason), the branch on the
  lifetime in between, and the end, which returns true with a new \<open>sp\<close> or false.
\<close>

definition tryInc_branch :: "int \<Rightarrow> reference_memory \<Rightarrow> outcome" where
  "tryInc_branch s m =
     (if s > 0 \<and> s \<noteq> INITIAL_STRONG_REFERENCE_VALUE then Continue (TryInc_exchange s)
      else if \<not> weak_lifetime m
      then if s \<le> 0 then Continue (DecWeak (Some By_wp)) else Continue (TryInc_initial s)
      else Continue TryInc_add)"

definition tryInc_end :: "int \<Rightarrow> outcome" where
  "tryInc_end s = (if s = INITIAL_STRONG_REFERENCE_VALUE then Continue TryInc_first else Ends 1 1)"

definition tryInc_load :: "reference_memory \<Rightarrow> outcome \<times> reference_memory" where
  "tryInc_load m = (tryInc_branch (mStrongReferenceCounter m) m, check (mStrongReferenceCounter m \<ge> 0) m)"

definition tryInc_exchange :: "bool \<Rightarrow> int \<Rightarrow> reference_memory \<Rightarrow> outcome \<times> reference_memory" where
  "tryInc_exchange spurious s m =
     (if mStrongReferenceCounter m = s \<and> \<not> spurious then (tryInc_end s, add_strong 1 (check True m))
      else (tryInc_branch (mStrongReferenceCounter m) m, check True m))"

definition tryInc_initial :: "bool \<Rightarrow> int \<Rightarrow> reference_memory \<Rightarrow> outcome \<times> reference_memory" where
  "tryInc_initial spurious s m =
     (if mStrongReferenceCounter m = s \<and> \<not> spurious then (tryInc_end s, add_strong 1 (check True m))
      else (let s = mStrongReferenceCounter m
            in if s > 0 then Continue (TryInc_initial s) else Continue (DecWeak (Some By_wp)), check True m))"

definition tryInc_add :: "reference_memory \<Rightarrow> outcome \<times> reference_memory" where
  "tryInc_add m = (tryInc_end (mStrongReferenceCounter m), add_strong 1 (check True m))"

fun reference_turn :: "bool \<Rightarrow> reference_operation \<Rightarrow> reference_memory \<Rightarrow> outcome \<times> reference_memory" where
  "reference_turn spurious (IncStrong_weak r) m = (Continue (IncStrong_strong r), incWeakReference m)"
| "reference_turn spurious (IncStrong_strong r) m = incStrongReference r m"
| "reference_turn spurious (IncStrong_first r) m = (ends_with (Some r) 1 0, add_strong (- INITIAL_STRONG_REFERENCE_VALUE) (check True m))"
| "reference_turn spurious DecStrong m = decStrongReference m"
| "reference_turn spurious DecStrong_last m = decStrongReference_last m"
| "reference_turn spurious (DecWeak r) m = decWeakReference r m"
| "reference_turn spurious (DecWeak_last r) m = decWeakReference_last r m"
| "reference_turn spurious (IncWeak r) m = (ends_with (Some r) 0 1, incWeakReference m)"
| "reference_turn spurious TryInc_weak m = (Continue TryInc_load, incWeakReference m)"
| "reference_turn spurious TryInc_load m = tryInc_load m"
| "reference_turn spurious (TryInc_exchange s) m = tryInc_exchange spurious s m"
| "reference_turn spurious (TryInc_initial s) m = tryInc_initial spurious s m"
| "reference_turn spurious TryInc_add m = tryInc_add m"
| "reference_turn spurious TryInc_first m = (Ends 1 1, add_strong (- INITIAL_STRONG_REFERENCE_VALUE) (check True m))"

section \<open>Threads\<close>

text \<open>
  \<open>raw\<close> says that the pointer of \<open>new\<close> was not used yet, \<open>sps\<close> and \<open>wps\<close> count the smart pointers at rest, and \<open>active\<close> are the operations that
  run.
\<close>

record reference_state =
  memory :: reference_memory
  raw :: bool
  sps :: nat
  wps :: nat
  active :: "reference_operation multiset"

definition references_start :: "bool \<Rightarrow> reference_state" where
  "references_start weak = \<lparr>memory = Object_new weak, raw = True, sps = 0, wps = 0, active = {#}\<rparr>"

definition references_used :: "reference_state \<Rightarrow> nat" where
  "references_used st = sps st + wps st + 2 * size (active st)"

definition start_operation :: "reference_operation \<Rightarrow> reference_state \<Rightarrow> reference_state" where
  "start_operation x st = st\<lparr>active := add_mset x (active st)\<rparr>"

fun after_turn :: "outcome \<times> reference_memory \<Rightarrow> reference_operation \<Rightarrow> reference_state \<Rightarrow> reference_state" where
  "after_turn (Continue y, m) x st = st\<lparr>memory := m, active := add_mset y (active st - {#x#})\<rparr>"
| "after_turn (Ends s w, m) x st = st\<lparr>memory := m, sps := sps st + s, wps := wps st + w, active := active st - {#x#}\<rparr>"

text \<open>A thread starts an operation on a pointer that it holds, or goes on with one; there are fewer than \<open>2 ^ 28\<close> references.\<close>

inductive references_step :: "reference_state \<Rightarrow> reference_state \<Rightarrow> bool" where
  sp_of_raw: "raw st \<Longrightarrow> references_step st (start_operation (IncStrong_weak By_raw) (st\<lparr>raw := False\<rparr>))"
| wp_of_raw: "raw st \<Longrightarrow> references_step st (start_operation (IncWeak By_raw) (st\<lparr>raw := False\<rparr>))"
| sp_of_sp: "0 < sps st \<Longrightarrow> references_used st + 4 < 2 ^ 28 \<Longrightarrow>
    references_step st (start_operation (IncStrong_weak By_sp) (st\<lparr>sps := sps st - 1\<rparr>))"
| wp_of_sp: "0 < sps st \<Longrightarrow> references_used st + 4 < 2 ^ 28 \<Longrightarrow>
    references_step st (start_operation (IncWeak By_sp) (st\<lparr>sps := sps st - 1\<rparr>))"
| wp_of_wp: "0 < wps st \<Longrightarrow> references_used st + 4 < 2 ^ 28 \<Longrightarrow>
    references_step st (start_operation (IncWeak By_wp) (st\<lparr>wps := wps st - 1\<rparr>))"
| get: "0 < wps st \<Longrightarrow> references_used st + 4 < 2 ^ 28 \<Longrightarrow>
    references_step st (start_operation TryInc_weak (st\<lparr>wps := wps st - 1\<rparr>))"
| drop_sp: "0 < sps st \<Longrightarrow> references_used st + 4 < 2 ^ 28 \<Longrightarrow>
    references_step st (start_operation DecStrong (st\<lparr>sps := sps st - 1\<rparr>))"
| drop_wp: "0 < wps st \<Longrightarrow> references_used st + 4 < 2 ^ 28 \<Longrightarrow>
    references_step st (start_operation (DecWeak None) (st\<lparr>wps := wps st - 1\<rparr>))"
| turn: "x \<in># active st \<Longrightarrow> references_step st (after_turn (reference_turn spurious x (memory st)) x st)"

inductive references_reachable :: "bool \<Rightarrow> reference_state \<Rightarrow> bool" for weak where
  start: "references_reachable weak (references_start weak)"
| step: "references_reachable weak st \<Longrightarrow> references_step st st' \<Longrightarrow> references_reachable weak st'"

section \<open>What the counters count\<close>

text \<open>The references that an operation stands for, its starting pointer included.\<close>

fun owned_sp :: "owner \<Rightarrow> nat" where
  "owned_sp By_sp = 1"
| "owned_sp _ = 0"

fun owned :: "owner \<Rightarrow> nat" where
  "owned By_raw = 0"
| "owned _ = 1"

fun strong_share :: "reference_operation \<Rightarrow> nat" where
  "strong_share (IncStrong_weak r) = owned_sp r"
| "strong_share (IncStrong_strong r) = owned_sp r"
| "strong_share (IncStrong_first r) = owned_sp r + 1"
| "strong_share DecStrong = 1"
| "strong_share (DecWeak (Some r)) = owned_sp r"
| "strong_share (DecWeak_last (Some r)) = owned_sp r"
| "strong_share (IncWeak r) = owned_sp r"
| "strong_share TryInc_first = 1"
| "strong_share _ = 0"

fun weak_share :: "reference_operation \<Rightarrow> nat" where
  "weak_share (IncStrong_weak r) = owned r"
| "weak_share (IncStrong_strong r) = owned r + 1"
| "weak_share (IncStrong_first r) = owned r + 1"
| "weak_share DecStrong = 1"
| "weak_share DecStrong_last = 1"
| "weak_share (DecWeak None) = 1"
| "weak_share (DecWeak (Some r)) = owned r + 1"
| "weak_share (DecWeak_last None) = 0"
| "weak_share (DecWeak_last (Some r)) = owned r"
| "weak_share (IncWeak r) = owned r"
| "weak_share TryInc_weak = 1"
| "weak_share _ = 2"

text \<open>The operations that take the initial value away, that delete the object, that delete at the end, and that start from \<open>new\<close>.\<close>

fun first_share :: "reference_operation \<Rightarrow> nat" where
  "first_share (IncStrong_first r) = 1"
| "first_share TryInc_first = 1"
| "first_share _ = 0"

fun last_share :: "reference_operation \<Rightarrow> nat" where
  "last_share DecStrong_last = 1"
| "last_share _ = 0"

fun end_share :: "reference_operation \<Rightarrow> nat" where
  "end_share (DecWeak_last r) = 1"
| "end_share _ = 0"

fun raw_share :: "reference_operation \<Rightarrow> nat" where
  "raw_share (IncStrong_weak By_raw) = 1"
| "raw_share (IncStrong_strong By_raw) = 1"
| "raw_share (IncWeak By_raw) = 1"
| "raw_share _ = 0"

fun raw_weak_share :: "reference_operation \<Rightarrow> nat" where
  "raw_weak_share (IncStrong_strong By_raw) = 1"
| "raw_weak_share _ = 0"

text \<open>What an operation remembers between its steps.\<close>

fun local_ok :: "bool \<Rightarrow> reference_operation \<Rightarrow> bool" where
  "local_ok weak (IncStrong_weak r) \<longleftrightarrow> r \<noteq> By_wp"
| "local_ok weak (IncStrong_strong r) \<longleftrightarrow> r \<noteq> By_wp"
| "local_ok weak (TryInc_exchange s) \<longleftrightarrow> s > 0 \<and> s \<noteq> INITIAL_STRONG_REFERENCE_VALUE"
| "local_ok weak (TryInc_initial s) \<longleftrightarrow> s > 0 \<and> \<not> weak"
| "local_ok weak TryInc_add \<longleftrightarrow> weak"
| "local_ok weak _ \<longleftrightarrow> True"

definition total_share :: "(reference_operation \<Rightarrow> nat) \<Rightarrow> reference_operation multiset \<Rightarrow> nat" where
  "total_share f M = sum_mset (image_mset f M)"

lemma total_share_simps [simp]:
  "total_share f {#} = 0"
  "total_share f (add_mset x M) = f x + total_share f M"
  by (simp_all add: total_share_def)

lemma total_share_mono:
  assumes "\<And>x. f x \<le> g x"
  shows "total_share f M \<le> total_share g M"
  by (induction M) (use assms in \<open>simp_all add: add_mono\<close>)

lemma shares_le:
  "first_share x \<le> strong_share x \<and> strong_share x + last_share x \<le> weak_share x \<and> raw_weak_share x \<le> raw_share x \<and>
   raw_weak_share x \<le> weak_share x \<and> strong_share x \<le> 2"
proof (cases x)
  case (IncStrong_weak r)
  then show ?thesis by (cases r) simp_all
next
  case (IncStrong_strong r)
  then show ?thesis by (cases r) simp_all
next
  case (IncStrong_first r)
  then show ?thesis by (cases r) simp_all
next
  case (DecWeak r)
  then show ?thesis by (cases r; cases "the r") simp_all
next
  case (DecWeak_last r)
  then show ?thesis by (cases r; cases "the r") simp_all
next
  case (IncWeak r)
  then show ?thesis by (cases r) simp_all
qed simp_all

lemma total_share_le:
  "total_share first_share M \<le> total_share strong_share M \<and> total_share strong_share M + total_share last_share M \<le> total_share weak_share M \<and>
   total_share raw_weak_share M \<le> total_share raw_share M \<and> total_share raw_weak_share M \<le> total_share weak_share M \<and>
   total_share strong_share M \<le> 2 * size M"
proof (induction M)
  case (add x M)
  then show ?case using shares_le[of x] by simp
qed simp

lemma total_share_weak_le: "total_share weak_share M \<le> 2 * size M"
proof (induction M)
  case (add x M)
  have "weak_share x \<le> 2" by (cases x rule: weak_share.cases; simp; cases "case x of IncStrong_weak r \<Rightarrow> r | IncStrong_strong r \<Rightarrow> r | IncStrong_first r \<Rightarrow> r | IncWeak r \<Rightarrow> r | DecWeak r \<Rightarrow> the r | DecWeak_last r \<Rightarrow> the r | _ \<Rightarrow> By_raw"; simp)
  then show ?case using add by simp
qed simp

lemma no_share: "\<not> (weak_share x = 0 \<and> end_share x = 0 \<and> raw_share x = 0)"
proof (cases x)
  case (IncStrong_weak r)
  then show ?thesis by (cases r) simp_all
next
  case (DecWeak r)
  then show ?thesis by (cases r) simp_all
next
  case (IncWeak r)
  then show ?thesis by (cases r) simp_all
qed simp_all

lemma no_shares: "total_share weak_share M = 0 \<Longrightarrow> total_share end_share M = 0 \<Longrightarrow> total_share raw_share M = 0 \<Longrightarrow> M = {#}"
proof (cases M)
  case (add x N)
  moreover assume "total_share weak_share M = 0" "total_share end_share M = 0" "total_share raw_share M = 0"
  ultimately show ?thesis using no_share[of x] by simp
qed simp

section \<open>The invariant\<close>

text \<open>
  The counters against the numbers of references: \<open>S\<close> strong and \<open>W\<close> strong or weak ones, \<open>F\<close>, \<open>L\<close>, \<open>E\<close> and \<open>R\<close> operations of the kinds above (\<open>T\<close>
  of the last kind that already count as a weak reference). The initial value is in the strong counter until the first
  reference has taken it away. The object lives as long as that, as a strong reference, or, with a weak lifetime, as any reference.
\<close>

definition initial_strong :: "reference_memory \<Rightarrow> bool" where
  "initial_strong m \<longleftrightarrow> mStrongReferenceCounter m \<ge> INITIAL_STRONG_REFERENCE_VALUE"

definition counts_ok :: "reference_memory \<Rightarrow> nat \<Rightarrow> nat \<Rightarrow> nat \<Rightarrow> nat \<Rightarrow> nat \<Rightarrow> nat \<Rightarrow> nat \<Rightarrow> bool" where
  "counts_ok m S W F L E R T \<longleftrightarrow>
     reference_alive m \<and> mWeakReferenceCounter m = int W \<and>
     mStrongReferenceCounter m = int S + (if initial_strong m then INITIAL_STRONG_REFERENCE_VALUE else 0) \<and>
     F \<le> 1 \<and> (F = 1 \<longrightarrow> initial_strong m) \<and> (initial_strong m \<and> 0 < S \<longrightarrow> F = 1) \<and>
     (if weak_lifetime m then object_alive m
      else (object_alive m \<longleftrightarrow> initial_strong m \<or> 0 < S \<or> 0 < L) \<and> (0 < L \<longrightarrow> L = 1 \<and> S = 0 \<and> \<not> initial_strong m)) \<and>
     (0 < E \<longrightarrow> E = 1 \<and> W = 0) \<and> (W = 0 \<longrightarrow> R = 1 \<or> E = 1) \<and>
     R \<le> 1 \<and> (R = 1 \<longrightarrow> initial_strong m \<and> S = 0 \<and> E = 0 \<and> L = 0 \<and> W = T)"

definition strong_references :: "reference_state \<Rightarrow> nat" where
  "strong_references st = sps st + total_share strong_share (active st)"

definition all_references :: "reference_state \<Rightarrow> nat" where
  "all_references st = sps st + wps st + total_share weak_share (active st)"

definition references_ok :: "bool \<Rightarrow> reference_state \<Rightarrow> bool" where
  "references_ok weak st \<longleftrightarrow>
     \<not> fault (memory st) \<and> weak_lifetime (memory st) = weak \<and> references_used st < 2 ^ 28 \<and>
     (\<forall>x \<in># active st. local_ok weak x) \<and>
     (if reference_alive (memory st)
      then counts_ok (memory st) (strong_references st) (all_references st) (total_share first_share (active st))
        (total_share last_share (active st)) (total_share end_share (active st))
        ((if raw st then 1 else 0) + total_share raw_share (active st)) (total_share raw_weak_share (active st))
      else \<not> raw st \<and> sps st = 0 \<and> wps st = 0 \<and> active st = {#} \<and> \<not> object_alive (memory st))"

lemma INITIAL_eq: "INITIAL_STRONG_REFERENCE_VALUE = 268435456"
  by (simp add: INITIAL_STRONG_REFERENCE_VALUE_def push_bit_eq_mult)

lemma references_start_ok: "references_ok weak (references_start weak)"
  by (simp add: references_ok_def references_start_def Object_new_def counts_ok_def initial_strong_def INITIAL_eq
      references_used_def strong_references_def all_references_def)

text \<open>Only the memory of a living object without an operation of its deletion is left to smart pointers at rest.\<close>

lemma references_alive:
  assumes "references_ok weak st" and "0 < sps st \<or> 0 < wps st \<or> raw st \<or> active st \<noteq> {#}"
  shows "reference_alive (memory st)"
  using assms by (auto simp: references_ok_def split: if_splits)


lemma client_step_ok:
  assumes ok: "references_ok weak st" and alive: "reference_alive (memory st)"
    and "memory st' = memory st" and "active st' = add_mset x (active st)" and "local_ok weak x" and "references_used st' < 2 ^ 28"
    and "strong_references st' = strong_references st" and "all_references st' = all_references st"
    and "first_share x = 0" and "last_share x = 0" and "end_share x = 0" and "raw_weak_share x = 0"
    and "(if raw st' then 1 else 0) + raw_share x = (if raw st then 1 else 0)"
  shows "references_ok weak st'"
proof -
  have R: "(if raw st' then 1 else 0) + total_share raw_share (active st') = (if raw st then 1 else 0) + total_share raw_share (active st)"
    using assms(4,13) by simp
  show ?thesis unfolding references_ok_def assms(7,8) R
    using ok alive assms(3-6,9-12) by (simp add: references_ok_def)
qed

section \<open>Turns\<close>

text \<open>The references that an outcome stands for.\<close>

fun out_share :: "(reference_operation \<Rightarrow> nat) \<Rightarrow> nat \<Rightarrow> nat \<Rightarrow> outcome \<Rightarrow> nat" where
  "out_share f s w (Continue y) = f y"
| "out_share f s w (Ends a b) = s * a + w * b"

fun out_ok :: "bool \<Rightarrow> outcome \<Rightarrow> bool" where
  "out_ok weak (Continue y) \<longleftrightarrow> local_ok weak y"
| "out_ok weak (Ends a b) \<longleftrightarrow> a + b \<le> 2"

text \<open>
  One step of an operation beside others with the shares \<open>S\<close>, \<open>W\<close> and so on: no fault, and either the counters are right again or
  nobody is left.
\<close>

definition turn_keeps :: "reference_operation \<Rightarrow> outcome \<times> reference_memory \<Rightarrow> nat \<Rightarrow> nat \<Rightarrow> nat \<Rightarrow> nat \<Rightarrow> nat \<Rightarrow> nat \<Rightarrow> nat \<Rightarrow> bool \<Rightarrow> bool" where
  "turn_keeps x r S W F L E R T weak \<longleftrightarrow>
     (case r of (y, m) \<Rightarrow> \<not> fault m \<and> weak_lifetime m = weak \<and> out_ok weak y \<and>
        (if reference_alive m
         then counts_ok m (S + out_share strong_share 1 0 y) (W + out_share weak_share 1 1 y) (F + out_share first_share 0 0 y)
           (L + out_share last_share 0 0 y) (E + out_share end_share 0 0 y) (R + out_share raw_share 0 0 y) (T + out_share raw_weak_share 0 0 y)
         else W + out_share weak_share 1 1 y = 0 \<and> E + out_share end_share 0 0 y = 0 \<and> R + out_share raw_share 0 0 y = 0 \<and> \<not> object_alive m))"

lemmas turn_defs = turn_keeps_def counts_ok_def initial_strong_def INITIAL_eq check_def delete_reference_def delete_object_def add_strong_def add_weak_def
  Let_def

text \<open>What holds before a turn of \<open>x\<close> beside others with these shares.\<close>

definition turn_pre :: "reference_memory \<Rightarrow> reference_operation \<Rightarrow> nat \<Rightarrow> nat \<Rightarrow> nat \<Rightarrow> nat \<Rightarrow> nat \<Rightarrow> nat \<Rightarrow> nat \<Rightarrow> bool \<Rightarrow> bool" where
  "turn_pre m x S W F L E R T weak \<longleftrightarrow>
     counts_ok m (S + strong_share x) (W + weak_share x) (F + first_share x) (L + last_share x) (E + end_share x) (R + raw_share x)
       (T + raw_weak_share x) \<and>
     \<not> fault m \<and> weak_lifetime m = weak \<and> local_ok weak x \<and> F \<le> S \<and> S + L \<le> W \<and> T \<le> R \<and> T \<le> W \<and> S + 2 < 2 ^ 28"

text \<open>The memory before a turn, written out.\<close>

lemma turn_memory:
  assumes "turn_pre m x S W F L E R T weak"
  obtains b oa where "m = \<lparr>mStrongReferenceCounter = int (S + strong_share x) + (if b then 268435456 else 0), mWeakReferenceCounter = int (W + weak_share x),
      weak_lifetime = weak, object_alive = oa, reference_alive = True, fault = False\<rparr>"
    and "S + strong_share x < 268435456 \<or> b"
    and "F + first_share x \<le> 1" "F + first_share x = 1 \<Longrightarrow> b" "b \<Longrightarrow> 0 < S + strong_share x \<Longrightarrow> F + first_share x = 1"
    and "weak \<Longrightarrow> oa" "\<not> weak \<Longrightarrow> oa \<longleftrightarrow> b \<or> 0 < S + strong_share x \<or> 0 < L + last_share x"
    and "\<not> weak \<Longrightarrow> 0 < L + last_share x \<Longrightarrow> L + last_share x = 1 \<and> S + strong_share x = 0 \<and> \<not> b"
    and "0 < E + end_share x \<Longrightarrow> E + end_share x = 1 \<and> W + weak_share x = 0"
    and "W + weak_share x = 0 \<Longrightarrow> R + raw_share x = 1 \<or> E + end_share x = 1"
    and "R + raw_share x = 0 \<or> R + raw_share x = 1 \<and> b \<and> S + strong_share x = 0 \<and> E + end_share x = 0 \<and> L + last_share x = 0 \<and> W + weak_share x = T + raw_weak_share x"
    and "local_ok weak x" "F \<le> S" "S + L \<le> W" "T \<le> R" "T \<le> W" "S + 2 < 268435456"
proof (rule that[of "initial_strong m" "object_alive m"])
  show "m = \<lparr>mStrongReferenceCounter = int (S + strong_share x) + (if initial_strong m then 268435456 else 0), mWeakReferenceCounter = int (W + weak_share x),
      weak_lifetime = weak, object_alive = object_alive m, reference_alive = True, fault = False\<rparr>"
    by (rule reference_memory.equality) (use assms in \<open>simp_all add: turn_pre_def counts_ok_def INITIAL_eq\<close>)
next
  have "mStrongReferenceCounter m = int (S + strong_share x) + (if initial_strong m then INITIAL_STRONG_REFERENCE_VALUE else 0)"
    using assms by (simp add: turn_pre_def counts_ok_def)
  then show "S + strong_share x < 268435456 \<or> initial_strong m"
    by (cases "initial_strong m") (simp_all add: initial_strong_def INITIAL_eq)
next
  show "S + 2 < 268435456"
    using assms by (simp add: turn_pre_def)
next
  assume "weak"
  then show "object_alive m"
    using assms by (simp add: turn_pre_def counts_ok_def)
next
  assume "\<not> weak"
  then have c: "(object_alive m \<longleftrightarrow> initial_strong m \<or> 0 < S + strong_share x \<or> 0 < L + last_share x) \<and>
      (0 < L + last_share x \<longrightarrow> L + last_share x = 1 \<and> S + strong_share x = 0 \<and> \<not> initial_strong m)"
    using assms unfolding turn_pre_def counts_ok_def by presburger
  show "object_alive m \<longleftrightarrow> initial_strong m \<or> 0 < S + strong_share x \<or> 0 < L + last_share x"
    by (rule conjunct1[OF c])
  show "L + last_share x = 1 \<and> S + strong_share x = 0 \<and> \<not> initial_strong m"
    if "0 < L + last_share x" using c that by blast
next
  have c: "R + raw_share x \<le> 1 \<and>
      (R + raw_share x = 1 \<longrightarrow> initial_strong m \<and> S + strong_share x = 0 \<and> E + end_share x = 0 \<and> L + last_share x = 0 \<and> W + weak_share x = T + raw_weak_share x)"
    using assms unfolding turn_pre_def counts_ok_def by (elim conjE) (intro conjI)
  show "R + raw_share x = 0 \<or> R + raw_share x = 1 \<and> initial_strong m \<and> S + strong_share x = 0 \<and> E + end_share x = 0 \<and> L + last_share x = 0 \<and> W + weak_share x = T + raw_weak_share x"
  proof (cases "R + raw_share x = 1")
    case False
    then have "R + raw_share x = 0" using c by linarith
    then show ?thesis by (rule disjI1)
  qed (use c in blast)
next
  show "F + first_share x \<le> 1"
    using assms unfolding turn_pre_def counts_ok_def by (elim conjE) blast
next
  assume p: "F + first_share x = 1"
  have "F + first_share x = 1 \<longrightarrow> initial_strong m"
    using assms unfolding turn_pre_def counts_ok_def by (elim conjE) assumption
  then show "initial_strong m"
    using p by blast
next
  assume p: "initial_strong m" "0 < S + strong_share x"
  have "initial_strong m \<and> 0 < S + strong_share x \<longrightarrow> F + first_share x = 1"
    using assms unfolding turn_pre_def counts_ok_def by (elim conjE) assumption
  then show "F + first_share x = 1"
    using p by blast
next
  assume p: "0 < E + end_share x"
  have "0 < E + end_share x \<longrightarrow> E + end_share x = 1 \<and> W + weak_share x = 0"
    using assms unfolding turn_pre_def counts_ok_def by (elim conjE) assumption
  then show "E + end_share x = 1 \<and> W + weak_share x = 0"
    using p by blast
next
  assume p: "W + weak_share x = 0"
  have "W + weak_share x = 0 \<longrightarrow> R + raw_share x = 1 \<or> E + end_share x = 1"
    using assms unfolding turn_pre_def counts_ok_def by (elim conjE) assumption
  then show "R + raw_share x = 1 \<or> E + end_share x = 1"
    using p by blast
qed (use assms in \<open>simp_all only: turn_pre_def\<close>)

lemma turn_IncStrong_weak:
  assumes "turn_pre m (IncStrong_weak r) S W F L E R T weak"
  shows "turn_keeps (IncStrong_weak r) (reference_turn spurious (IncStrong_weak r) m) S W F L E R T weak"
  apply (rule turn_memory[OF assms])
  subgoal for b oa
    by (cases b; cases weak; cases r; auto simp: incWeakReference_def turn_defs)
  done

lemma turn_IncStrong_strong:
  assumes "turn_pre m (IncStrong_strong r) S W F L E R T weak"
  shows "turn_keeps (IncStrong_strong r) (reference_turn spurious (IncStrong_strong r) m) S W F L E R T weak"
  apply (rule turn_memory[OF assms])
  subgoal for b oa
    by (cases b; cases weak; cases r; auto simp: incStrongReference_def turn_defs)
  done

lemma turn_IncStrong_first:
  assumes "turn_pre m (IncStrong_first r) S W F L E R T weak"
  shows "turn_keeps (IncStrong_first r) (reference_turn spurious (IncStrong_first r) m) S W F L E R T weak"
  apply (rule turn_memory[OF assms])
  subgoal for b oa
    by (cases b; cases weak; cases r; auto simp:  turn_defs)
  done

lemma turn_DecStrong:
  assumes "turn_pre m DecStrong S W F L E R T weak"
  shows "turn_keeps DecStrong (reference_turn spurious DecStrong m) S W F L E R T weak"
  apply (rule turn_memory[OF assms])
  subgoal for b oa
    by (cases b; cases weak; auto simp: decStrongReference_def turn_defs)
  done

lemma turn_DecStrong_last:
  assumes "turn_pre m DecStrong_last S W F L E R T weak"
  shows "turn_keeps DecStrong_last (reference_turn spurious DecStrong_last m) S W F L E R T weak"
  apply (rule turn_memory[OF assms])
  subgoal for b oa
    by (cases b; cases weak; auto simp: decStrongReference_last_def turn_defs)
  done

lemma turn_DecWeak:
  assumes "turn_pre m (DecWeak r) S W F L E R T weak"
  shows "turn_keeps (DecWeak r) (reference_turn spurious (DecWeak r) m) S W F L E R T weak"
  apply (rule turn_memory[OF assms])
  subgoal for b oa
    by (cases b; cases weak; cases r; cases "the r"; auto simp: decWeakReference_def turn_defs)
  done

lemma turn_DecWeak_last:
  assumes "turn_pre m (DecWeak_last r) S W F L E R T weak"
  shows "turn_keeps (DecWeak_last r) (reference_turn spurious (DecWeak_last r) m) S W F L E R T weak"
  apply (rule turn_memory[OF assms])
  subgoal for b oa
    by (cases b; cases weak; cases r; cases "the r"; auto simp: decWeakReference_last_def turn_defs)
  done

lemma turn_IncWeak:
  assumes "turn_pre m (IncWeak r) S W F L E R T weak"
  shows "turn_keeps (IncWeak r) (reference_turn spurious (IncWeak r) m) S W F L E R T weak"
  apply (rule turn_memory[OF assms])
  subgoal for b oa
    by (cases b; cases weak; cases r; auto simp: incWeakReference_def turn_defs)
  done

lemma turn_TryInc_weak:
  assumes "turn_pre m TryInc_weak S W F L E R T weak"
  shows "turn_keeps TryInc_weak (reference_turn spurious TryInc_weak m) S W F L E R T weak"
  apply (rule turn_memory[OF assms])
  subgoal for b oa
    by (cases b; cases weak; auto simp: incWeakReference_def turn_defs)
  done

lemma turn_TryInc_load:
  assumes "turn_pre m TryInc_load S W F L E R T weak"
  shows "turn_keeps TryInc_load (reference_turn spurious TryInc_load m) S W F L E R T weak"
  apply (rule turn_memory[OF assms])
  subgoal for b oa
    by (cases b; cases weak; auto simp: tryInc_load_def tryInc_branch_def turn_defs)
  done

lemma turn_TryInc_exchange:
  assumes "turn_pre m (TryInc_exchange s) S W F L E R T weak"
  shows "turn_keeps (TryInc_exchange s) (reference_turn spurious (TryInc_exchange s) m) S W F L E R T weak"
  apply (rule turn_memory[OF assms])
  subgoal for b oa
    by (cases b; cases weak; auto simp: tryInc_exchange_def tryInc_branch_def tryInc_end_def turn_defs)
  done

lemma turn_TryInc_initial:
  assumes "turn_pre m (TryInc_initial s) S W F L E R T weak"
  shows "turn_keeps (TryInc_initial s) (reference_turn spurious (TryInc_initial s) m) S W F L E R T weak"
  apply (rule turn_memory[OF assms])
  subgoal for b oa
    by (cases b; cases weak; auto simp: tryInc_initial_def tryInc_end_def turn_defs)
  done

lemma turn_TryInc_add:
  assumes "turn_pre m TryInc_add S W F L E R T weak"
  shows "turn_keeps TryInc_add (reference_turn spurious TryInc_add m) S W F L E R T weak"
  apply (rule turn_memory[OF assms])
  subgoal for b oa
    by (cases b; cases weak; auto simp: tryInc_add_def tryInc_end_def turn_defs)
  done

lemma turn_TryInc_first:
  assumes "turn_pre m TryInc_first S W F L E R T weak"
  shows "turn_keeps TryInc_first (reference_turn spurious TryInc_first m) S W F L E R T weak"
  apply (rule turn_memory[OF assms])
  subgoal for b oa
    by (cases b; cases weak; auto simp:  turn_defs)
  done

lemma turn_keeps_counts: "turn_pre m x S W F L E R T weak \<Longrightarrow> turn_keeps x (reference_turn spurious x m) S W F L E R T weak"
  by (cases x)
    (simp_all only: turn_IncStrong_weak turn_IncStrong_strong turn_IncStrong_first turn_DecStrong turn_DecStrong_last turn_DecWeak turn_DecWeak_last
    turn_IncWeak turn_TryInc_weak turn_TryInc_load turn_TryInc_exchange turn_TryInc_initial turn_TryInc_add turn_TryInc_first)

section \<open>The invariant holds in every reachable state\<close>

lemma references_turn_ok:
  assumes ok: "references_ok weak st" and x: "x \<in># active st"
  shows "references_ok weak (after_turn (reference_turn spurious x (memory st)) x st)"
proof -
  obtain M where M: "active st = add_mset x M" using x by (meson multi_member_split)
  define S W F L E R T where "S = sps st + total_share strong_share M" and "W = sps st + wps st + total_share weak_share M"
    and "F = total_share first_share M" and "L = total_share last_share M" and "E = total_share end_share M"
    and "R = (if raw st then 1 else 0) + total_share raw_share M" and "T = total_share raw_weak_share M"
  note defs = S_def W_def F_def L_def E_def R_def T_def
  have alive: "reference_alive (memory st)" using references_alive[OF ok] M by simp
  have le: "F \<le> S" "S + L \<le> W" "T \<le> R" "T \<le> W" "S + 2 < 2 ^ 28"
    using total_share_le[of M] ok M by (simp_all add: defs references_ok_def references_used_def)
  have "turn_pre (memory st) x S W F L E R T weak"
    using ok alive le M by (simp add: turn_pre_def references_ok_def strong_references_def all_references_def defs add.assoc add.commute add.left_commute)
  then have keeps: "turn_keeps x (reference_turn spurious x (memory st)) S W F L E R T weak" by (rule turn_keeps_counts)
  obtain y m where r: "reference_turn spurious x (memory st) = (y, m)" by (cases "reference_turn spurious x (memory st)")
  have k: "\<not> fault m" "weak_lifetime m = weak" "out_ok weak y" using keeps by (simp_all add: turn_keeps_def r)
  have locals: "\<forall>z \<in># M. local_ok weak z" and used: "references_used st < 2 ^ 28" using ok M by (simp_all add: references_ok_def)
  show ?thesis
  proof (cases y)
    case (Continue z)
    show ?thesis
    proof (cases "reference_alive m")
      case True
      have "counts_ok m (S + strong_share z) (W + weak_share z) (F + first_share z) (L + last_share z) (E + end_share z) (R + raw_share z)
          (T + raw_weak_share z)"
        using keeps True by (simp add: turn_keeps_def r Continue)
      then show ?thesis using k True locals used M
        by (simp add: r Continue references_ok_def references_used_def strong_references_def all_references_def defs
            add.assoc add.commute add.left_commute)
    next
      case False
      then show ?thesis using keeps no_share[of z] by (simp add: turn_keeps_def r Continue)
    qed
  next
    case (Ends a b)
    show ?thesis
    proof (cases "reference_alive m")
      case True
      have "counts_ok m (S + a) (W + a + b) F L E R T"
        using keeps True by (simp add: turn_keeps_def r Ends add.assoc)
      then show ?thesis using k True locals used M
        by (simp add: r Ends references_ok_def references_used_def strong_references_def all_references_def defs
            add.assoc add.commute add.left_commute)
    next
      case False
      have "W + a + b = 0" "E = 0" "R = 0" "\<not> object_alive m" using keeps False by (simp_all add: turn_keeps_def r Ends)
      then show ?thesis using k False used M no_shares[of M]
        by (simp add: r Ends references_ok_def references_used_def defs split: if_splits)
    qed
  qed
qed

lemma references_raw:
  assumes ok: "references_ok weak st" and raw: "raw st"
  shows "sps st = 0 \<and> wps st = 0 \<and> active st = {#}"
proof -
  have c: "1 + total_share raw_share (active st) \<le> 1"
    "1 + total_share raw_share (active st) = 1 \<Longrightarrow> total_share end_share (active st) = 0 \<and> all_references st = total_share raw_weak_share (active st)"
    using ok raw by (auto simp: references_ok_def counts_ok_def split: if_splits)
  then have "total_share end_share (active st) = 0" "total_share raw_share (active st) = 0" "all_references st = 0"
    using total_share_le[of "active st"] by auto
  then show ?thesis using no_shares[of "active st"] by (simp add: all_references_def)
qed

lemma references_step_ok: "references_step st st' \<Longrightarrow> references_ok weak st \<Longrightarrow> references_ok weak st'"
proof (induction rule: references_step.induct)
  case (sp_of_raw st)
  then show ?case using references_raw[OF sp_of_raw(2) sp_of_raw(1)]
    by (intro client_step_ok[OF sp_of_raw(2) references_alive[OF sp_of_raw(2)], where x = "IncStrong_weak By_raw"])
      (auto simp: start_operation_def strong_references_def all_references_def references_used_def)
next
  case (wp_of_raw st)
  then show ?case using references_raw[OF wp_of_raw(2) wp_of_raw(1)]
    by (intro client_step_ok[OF wp_of_raw(2) references_alive[OF wp_of_raw(2)], where x = "IncWeak By_raw"])
      (auto simp: start_operation_def strong_references_def all_references_def references_used_def)
next
  case (sp_of_sp st)
  then show ?case
    by (intro client_step_ok[OF sp_of_sp(3) references_alive[OF sp_of_sp(3)], where x = "IncStrong_weak By_sp"])
      (auto simp: start_operation_def strong_references_def all_references_def references_used_def)
next
  case (wp_of_sp st)
  then show ?case
    by (intro client_step_ok[OF wp_of_sp(3) references_alive[OF wp_of_sp(3)], where x = "IncWeak By_sp"])
      (auto simp: start_operation_def strong_references_def all_references_def references_used_def)
next
  case (wp_of_wp st)
  then show ?case
    by (intro client_step_ok[OF wp_of_wp(3) references_alive[OF wp_of_wp(3)], where x = "IncWeak By_wp"])
      (auto simp: start_operation_def strong_references_def all_references_def references_used_def)
next
  case (get st)
  then show ?case
    by (intro client_step_ok[OF get(3) references_alive[OF get(3)], where x = "TryInc_weak"])
      (auto simp: start_operation_def strong_references_def all_references_def references_used_def)
next
  case (drop_sp st)
  then show ?case
    by (intro client_step_ok[OF drop_sp(3) references_alive[OF drop_sp(3)], where x = "DecStrong"])
      (auto simp: start_operation_def strong_references_def all_references_def references_used_def)
next
  case (drop_wp st)
  then show ?case
    by (intro client_step_ok[OF drop_wp(3) references_alive[OF drop_wp(3)], where x = "DecWeak None"])
      (auto simp: start_operation_def strong_references_def all_references_def references_used_def)
next
  case (turn x st spurious)
  then show ?case by (blast intro: references_turn_ok)
qed

lemma references_reachable_ok: "references_reachable weak st \<Longrightarrow> references_ok weak st"
  by (induction rule: references_reachable.induct) (auto intro: references_start_ok references_step_ok)

text \<open>A run of one thread: the first \<open>sp\<close> of a new object, and its end.\<close>

lemma references_reach_turn:
  "references_reachable weak st \<Longrightarrow> x \<in># active st \<Longrightarrow> st' = after_turn (reference_turn False x (memory st)) x st \<Longrightarrow> references_reachable weak st'"
  by (auto intro: references_reachable.step turn)

definition references_run_state :: "int \<Rightarrow> int \<Rightarrow> bool \<Rightarrow> bool \<Rightarrow> nat \<Rightarrow> reference_operation multiset \<Rightarrow> reference_state" where
  "references_run_state s w oa ra n M =
     \<lparr>memory = \<lparr>mStrongReferenceCounter = s, mWeakReferenceCounter = w, weak_lifetime = False, object_alive = oa, reference_alive = ra, fault = False\<rparr>,
      raw = False, sps = n, wps = 0, active = M\<rparr>"

lemmas references_run_defs = references_run_state_def references_start_def Object_new_def INITIAL_eq start_operation_def check_def delete_reference_def
  delete_object_def add_strong_def add_weak_def Let_def incWeakReference_def incStrongReference_def decStrongReference_def
  decStrongReference_last_def decWeakReference_def decWeakReference_last_def

lemma references_run_sp: "references_reachable False (references_run_state 1 1 True True 1 {#})"
proof -
  have "references_step (references_start False) (references_run_state 268435456 0 True True 0 {#IncStrong_weak By_raw#})"
    using sp_of_raw[of "references_start False"] by (simp add: references_run_defs)
  then have 1: "references_reachable False (references_run_state 268435456 0 True True 0 {#IncStrong_weak By_raw#})"
    by (rule references_reachable.step[OF references_reachable.start])
  have 2: "references_reachable False (references_run_state 268435456 1 True True 0 {#IncStrong_strong By_raw#})"
    by (rule references_reach_turn[OF 1, of "IncStrong_weak By_raw"]) (simp_all add: references_run_defs)
  have 3: "references_reachable False (references_run_state 268435457 1 True True 0 {#IncStrong_first By_raw#})"
    by (rule references_reach_turn[OF 2, of "IncStrong_strong By_raw"]) (simp_all add: references_run_defs)
  show ?thesis
    by (rule references_reach_turn[OF 3, of "IncStrong_first By_raw"]) (simp_all add: references_run_defs)
qed

lemma references_run_end: "references_reachable False (references_run_state 0 0 False False 0 {#})"
proof -
  have "references_step (references_run_state 1 1 True True 1 {#}) (references_run_state 1 1 True True 0 {#DecStrong#})"
    using drop_sp[of "references_run_state 1 1 True True 1 {#}"] by (simp add: references_run_defs references_used_def)
  then have 1: "references_reachable False (references_run_state 1 1 True True 0 {#DecStrong#})"
    by (rule references_reachable.step[OF references_run_sp])
  have 2: "references_reachable False (references_run_state 0 1 True True 0 {#DecStrong_last#})"
    by (rule references_reach_turn[OF 1, of DecStrong]) (simp_all add: references_run_defs)
  have 3: "references_reachable False (references_run_state 0 1 False True 0 {#DecWeak None#})"
    by (rule references_reach_turn[OF 2, of DecStrong_last]) (simp_all add: references_run_defs)
  have 4: "references_reachable False (references_run_state 0 0 False True 0 {#DecWeak_last None#})"
    by (rule references_reach_turn[OF 3, of "DecWeak None"]) (simp_all add: references_run_defs)
  show ?thesis
    by (rule references_reach_turn[OF 4, of "DecWeak_last None"]) (simp_all add: references_run_defs)
qed

section \<open>Properties\<close>

text \<open>
  (C16) Whatever the interleaving of threads that copy, convert and drop smart pointers to an object: no assertion of the counters
  fails, nothing is used after it was deleted, nothing is deleted twice, and the counters fit their 32 bits; while an \<open>sp\<close> exists
  the object and its counters exist, while a \<open>wp\<close> exists the counters exist (and the object too, with a weak lifetime); and at rest without an
  \<open>sp\<close> an object with the strong lifetime is alive exactly if it never had one.
\<close>

theorem references_safe:
  assumes "references_reachable weak st"
  shows "\<not> fault (memory st) \<and> (0 < sps st \<longrightarrow> object_alive (memory st)) \<and> (0 < sps st \<or> 0 < wps st \<longrightarrow> reference_alive (memory st)) \<and>
    (weak \<and> 0 < wps st \<longrightarrow> object_alive (memory st)) \<and>
    (reference_alive (memory st) \<longrightarrow> mStrongReferenceCounter (memory st) \<in> {0 ..< 2 ^ 29} \<and> mWeakReferenceCounter (memory st) \<in> {0 ..< 2 ^ 28}) \<and>
    (\<not> weak \<and> 0 < wps st \<and> sps st = 0 \<and> active st = {#} \<longrightarrow>
       (object_alive (memory st) \<longleftrightarrow> mStrongReferenceCounter (memory st) = INITIAL_STRONG_REFERENCE_VALUE))"
proof -
  have ok: "references_ok weak st" using assms by (rule references_reachable_ok)
  show ?thesis
  proof (cases "reference_alive (memory st)")
    case True
    have k: "counts_ok (memory st) (strong_references st) (all_references st) (total_share first_share (active st))
        (total_share last_share (active st)) (total_share end_share (active st))
        ((if raw st then 1 else 0) + total_share raw_share (active st)) (total_share raw_weak_share (active st))"
      and fault: "\<not> fault (memory st)" and bound: "references_used st < 268435456" and life: "weak_lifetime (memory st) = weak"
      using ok True by (simp_all add: references_ok_def)
    have weak_count: "mWeakReferenceCounter (memory st) = int (all_references st)"
      using k unfolding counts_ok_def by (elim conjE) assumption
    have strong_count: "mStrongReferenceCounter (memory st) =
        int (strong_references st) + (if initial_strong (memory st) then INITIAL_STRONG_REFERENCE_VALUE else 0)"
      using k unfolding counts_ok_def by (elim conjE) assumption
    have "if weak_lifetime (memory st) then object_alive (memory st)
      else (object_alive (memory st) \<longleftrightarrow> initial_strong (memory st) \<or> 0 < strong_references st \<or> 0 < total_share last_share (active st)) \<and>
        (0 < total_share last_share (active st) \<longrightarrow> total_share last_share (active st) = 1 \<and> strong_references st = 0 \<and> \<not> initial_strong (memory st))"
      using k unfolding counts_ok_def by (elim conjE) assumption
    then have alive: "if weak then object_alive (memory st) else object_alive (memory st) \<longleftrightarrow>
         initial_strong (memory st) \<or> 0 < strong_references st \<or> 0 < total_share last_share (active st)"
      unfolding life by (cases weak) (simp_all only: if_True if_False)
    have used: "strong_references st \<le> references_used st" "all_references st \<le> references_used st"
      using total_share_le[of "active st"] total_share_weak_le[of "active st"]
      by (simp_all add: references_used_def strong_references_def all_references_def)
    have counters: "mStrongReferenceCounter (memory st) \<in> {0 ..< 2 ^ 29} \<and> mWeakReferenceCounter (memory st) \<in> {0 ..< 2 ^ 28}"
      using weak_count strong_count bound used by (auto simp: INITIAL_eq)
    have rest: "object_alive (memory st) \<longleftrightarrow> mStrongReferenceCounter (memory st) = INITIAL_STRONG_REFERENCE_VALUE"
      if "\<not> weak" "sps st = 0" "active st = {#}"
      using alive strong_count that by (auto simp: strong_references_def INITIAL_eq split: if_splits)
    show ?thesis using alive fault counters rest True by (auto simp: strong_references_def split: if_splits)
  next
    case False
    then show ?thesis using ok by (simp add: references_ok_def)
  qed
qed

theorem references_safe_witness:
  "\<not> fault (memory (references_run_state 1 1 True True 1 {#})) \<and> object_alive (memory (references_run_state 1 1 True True 1 {#}))"
  using references_safe[OF references_run_sp] by (simp add: references_run_state_def)

text \<open>
  (C17) When no smart pointer, no unused pointer of \<open>new\<close> and no running operation is left, the object and its counters have both been
  deleted, each once: no interleaving leaks them.
\<close>

theorem references_no_leak:
  assumes "references_reachable weak st" and "\<not> raw st" and "sps st = 0" and "wps st = 0" and "active st = {#}"
  shows "\<not> object_alive (memory st) \<and> \<not> reference_alive (memory st) \<and> \<not> fault (memory st)"
  using references_reachable_ok[OF assms(1)] assms(2-5)
  by (auto simp: references_ok_def counts_ok_def all_references_def split: if_splits)

theorem references_no_leak_witness:
  "\<not> object_alive (memory (references_run_state 0 0 False False 0 {#})) \<and> \<not> reference_alive (memory (references_run_state 0 0 False False 0 {#}))"
  using references_no_leak[OF references_run_end] by (simp add: references_run_state_def)

end
