(* ===== verification/Smart_Pointers.thy ===== *)
theory Smart_Pointers
  imports Prelude "HOL-Library.Multiset"
begin

text \<open>
  The smart pointers \<open>sp\<close> and \<open>wp\<close> of \<open>src/mindroid/lang/Object.h\<close>: each operation as the change it makes to the pointer variables of a
  program and the calls it makes to the reference counts (the theory \<open>References\<close> shows what those calls do). A variable is an index, so that
  the two operands of an assignment can be the same variable. The versions for another element type differ in a cast only, and
  \<open>moveStrongReference\<close> does nothing but bookkeeping for debugging. The test for data races (it prints a message) is not modelled.
\<close>

section \<open>Variables and calls\<close>

datatype 'o reference_call =
    Call_incStrong 'o
  | Call_decStrong 'o
  | Call_incWeak 'o
  | Call_decWeak 'o
  | Call_tryIncStrong 'o bool

record 'o pointers =
  sp_pointer :: "'o option list"
  wp_pointer :: "'o option list"
  calls :: "'o reference_call list"

definition no_pointers :: "'o pointers" where
  "no_pointers = \<lparr>sp_pointer = [], wp_pointer = [], calls = []\<rparr>"

definition call_on :: "('o \<Rightarrow> 'o reference_call) \<Rightarrow> 'o option \<Rightarrow> 'o pointers \<Rightarrow> 'o pointers" where
  "call_on f p s = (case p of None \<Rightarrow> s | Some x \<Rightarrow> s\<lparr>calls := calls s @ [f x]\<rparr>)"

definition set_sp :: "nat \<Rightarrow> 'o option \<Rightarrow> 'o pointers \<Rightarrow> 'o pointers" where
  "set_sp i p s = s\<lparr>sp_pointer := (sp_pointer s)[i := p]\<rparr>"

definition set_wp :: "nat \<Rightarrow> 'o option \<Rightarrow> 'o pointers \<Rightarrow> 'o pointers" where
  "set_wp i p s = s\<lparr>wp_pointer := (wp_pointer s)[i := p]\<rparr>"

definition new_sp :: "'o option \<Rightarrow> 'o pointers \<Rightarrow> 'o pointers" where
  "new_sp p s = s\<lparr>sp_pointer := sp_pointer s @ [p]\<rparr>"

definition new_wp :: "'o option \<Rightarrow> 'o pointers \<Rightarrow> 'o pointers" where
  "new_wp p s = s\<lparr>wp_pointer := wp_pointer s @ [p]\<rparr>"

section \<open>Strong pointers\<close>

definition sp_new :: "'o option \<Rightarrow> 'o pointers \<Rightarrow> 'o pointers" where
  "sp_new other s = call_on Call_incStrong other (new_sp other s)"

definition sp_copy :: "nat \<Rightarrow> 'o pointers \<Rightarrow> 'o pointers" where
  "sp_copy j s = (let other = sp_pointer s ! j in call_on Call_incStrong other (new_sp other s))"

definition sp_move :: "nat \<Rightarrow> 'o pointers \<Rightarrow> 'o pointers" where
  "sp_move j s = (let s = new_sp (sp_pointer s ! j) s in set_sp j None s)"

text \<open>The destructor, which leaves no variable, and \<open>clear\<close>.\<close>

definition sp_destroy :: "nat \<Rightarrow> 'o pointers \<Rightarrow> 'o pointers" where
  "sp_destroy i s = set_sp i None (call_on Call_decStrong (sp_pointer s ! i) s)"

definition sp_clear :: "nat \<Rightarrow> 'o pointers \<Rightarrow> 'o pointers" where
  "sp_clear i s = (let pointer = sp_pointer s ! i; s = set_sp i None s in call_on Call_decStrong pointer s)"

definition sp_assign :: "nat \<Rightarrow> nat \<Rightarrow> 'o pointers \<Rightarrow> 'o pointers" where
  "sp_assign i j s =
     (let pointer = sp_pointer s ! i; other = sp_pointer s ! j;
          s = call_on Call_incStrong other s;
          s = call_on Call_decStrong pointer s
      in set_sp i other s)"

definition sp_assign_move :: "nat \<Rightarrow> nat \<Rightarrow> 'o pointers \<Rightarrow> 'o pointers" where
  "sp_assign_move i j s =
     (let pointer = sp_pointer s ! i;
          s = call_on Call_decStrong pointer s;
          s = set_sp i (sp_pointer s ! j) s
      in set_sp j None s)"

definition sp_assign_pointer :: "nat \<Rightarrow> 'o option \<Rightarrow> 'o pointers \<Rightarrow> 'o pointers" where
  "sp_assign_pointer i other s =
     (let pointer = sp_pointer s ! i;
          s = call_on Call_incStrong other s;
          s = call_on Call_decStrong pointer s
      in set_sp i other s)"

section \<open>Weak pointers\<close>

definition wp_new :: "'o option \<Rightarrow> 'o pointers \<Rightarrow> 'o pointers" where
  "wp_new other s = call_on Call_incWeak other (new_wp other s)"

definition wp_copy :: "nat \<Rightarrow> 'o pointers \<Rightarrow> 'o pointers" where
  "wp_copy j s = (let other = wp_pointer s ! j in call_on Call_incWeak other (new_wp other s))"

definition wp_of_strong :: "nat \<Rightarrow> 'o pointers \<Rightarrow> 'o pointers" where
  "wp_of_strong j s = (let other = sp_pointer s ! j in call_on Call_incWeak other (new_wp other s))"

definition wp_destroy :: "nat \<Rightarrow> 'o pointers \<Rightarrow> 'o pointers" where
  "wp_destroy i s = set_wp i None (call_on Call_decWeak (wp_pointer s ! i) s)"

definition wp_clear :: "nat \<Rightarrow> 'o pointers \<Rightarrow> 'o pointers" where
  "wp_clear i s = (let pointer = wp_pointer s ! i; s = set_wp i None s in call_on Call_decWeak pointer s)"

definition wp_assign_pointer :: "nat \<Rightarrow> 'o option \<Rightarrow> 'o pointers \<Rightarrow> 'o pointers" where
  "wp_assign_pointer i other s =
     (let s = call_on Call_incWeak other s;
          s = call_on Call_decWeak (wp_pointer s ! i) s
      in set_wp i other s)"

definition wp_assign :: "nat \<Rightarrow> nat \<Rightarrow> 'o pointers \<Rightarrow> 'o pointers" where
  "wp_assign i j s =
     (let other = wp_pointer s ! j;
          s = call_on Call_incWeak other s;
          s = call_on Call_decWeak (wp_pointer s ! i) s
      in set_wp i other s)"

definition wp_assign_strong :: "nat \<Rightarrow> nat \<Rightarrow> 'o pointers \<Rightarrow> 'o pointers" where
  "wp_assign_strong i j s =
     (let other = sp_pointer s ! j;
          s = call_on Call_incWeak other s;
          s = call_on Call_decWeak (wp_pointer s ! i) s
      in set_wp i other s)"

text \<open>\<open>get\<close> makes a new \<open>sp\<close>; \<open>result\<close> is what \<open>tryIncStrongReference\<close> returned.\<close>

definition wp_get :: "nat \<Rightarrow> bool \<Rightarrow> 'o pointers \<Rightarrow> 'o pointers" where
  "wp_get i result s =
     (case wp_pointer s ! i of
        None \<Rightarrow> new_sp None s
      | Some x \<Rightarrow> new_sp (if result then Some x else None) (s\<lparr>calls := calls s @ [Call_tryIncStrong x result]\<rparr>))"

section \<open>What the calls add up to\<close>

fun strong_change :: "'o \<Rightarrow> 'o reference_call \<Rightarrow> int" where
  "strong_change x (Call_incStrong y) = (if x = y then 1 else 0)"
| "strong_change x (Call_decStrong y) = (if x = y then - 1 else 0)"
| "strong_change x (Call_tryIncStrong y b) = (if x = y \<and> b then 1 else 0)"
| "strong_change x _ = 0"

fun weak_change :: "'o \<Rightarrow> 'o reference_call \<Rightarrow> int" where
  "weak_change x (Call_incWeak y) = (if x = y then 1 else 0)"
| "weak_change x (Call_decWeak y) = (if x = y then - 1 else 0)"
| "weak_change x _ = 0"

definition balance :: "('o reference_call \<Rightarrow> int) \<Rightarrow> 'o reference_call list \<Rightarrow> int" where
  "balance f cs = sum_list (map f cs)"

text \<open>No count is ever taken below zero.\<close>

definition covered :: "('o reference_call \<Rightarrow> int) \<Rightarrow> 'o reference_call list \<Rightarrow> bool" where
  "covered f cs \<longleftrightarrow> (\<forall>n \<le> length cs. 0 \<le> balance f (take n cs))"

definition points_to :: "'o \<Rightarrow> 'o option list \<Rightarrow> int" where
  "points_to x ps = int (count_list ps (Some x))"

definition pointers_ok :: "'o pointers \<Rightarrow> bool" where
  "pointers_ok s \<longleftrightarrow>
     (\<forall>x. balance (strong_change x) (calls s) = points_to x (sp_pointer s) \<and> covered (strong_change x) (calls s) \<and>
          balance (weak_change x) (calls s) = points_to x (wp_pointer s) \<and> covered (weak_change x) (calls s))"

lemma balance_simps [simp]: "balance f [] = 0" "balance f (cs @ [c]) = balance f cs + f c"
  by (simp_all add: balance_def)

lemma covered_simps [simp]: "covered f []" "covered f (cs @ [c]) \<longleftrightarrow> covered f cs \<and> 0 \<le> balance f cs + f c"
proof -
  show "covered f []" by (simp add: covered_def)
  have "n \<le> length (cs @ [c]) \<longleftrightarrow> n \<le> length cs \<or> n = length (cs @ [c])" for n by auto
  then show "covered f (cs @ [c]) \<longleftrightarrow> covered f cs \<and> 0 \<le> balance f cs + f c"
    unfolding covered_def by (auto simp: balance_def)
qed

lemma two_calls [simp]:
  "balance f (cs @ [c, d]) = balance f cs + f c + f d"
  "covered f (cs @ [c, d]) \<longleftrightarrow> covered f cs \<and> 0 \<le> balance f cs + f c \<and> 0 \<le> balance f cs + f c + f d"
  using balance_simps(2)[of f "cs @ [c]" d] covered_simps(2)[of f "cs @ [c]" d] by auto

lemma holds_simps [simp]: "points_to x [] = 0" "points_to x (ps @ [p]) = points_to x ps + (if p = Some x then 1 else 0)"
  by (simp_all add: points_to_def)

lemma holds_nonneg [simp]: "0 \<le> points_to x ps"
  by (simp add: points_to_def)

lemma holds_update:
  assumes "i < length ps"
  shows "points_to x (ps[i := p]) = points_to x ps - (if ps ! i = Some x then 1 else 0) + (if p = Some x then 1 else 0)"
  using assms
proof (induction ps arbitrary: i)
  case (Cons q ps)
  show ?case
  proof (cases i)
    case (Suc k)
    then show ?thesis using Cons.IH[of k] Cons.prems by (auto simp: points_to_def split: if_splits)
  qed (auto simp: points_to_def)
qed simp

lemma holds_pos: "i < length ps \<Longrightarrow> ps ! i = Some x \<Longrightarrow> 1 \<le> points_to x ps"
  using count_list_0_iff[of ps "Some x"] nth_mem[of i ps] by (force simp: points_to_def)

lemmas pointer_defs = pointers_ok_def call_on_def set_sp_def set_wp_def new_sp_def new_wp_def Let_def

section \<open>Every operation keeps the accounts\<close>

lemma no_pointers_ok: "pointers_ok no_pointers"
  by (simp add: no_pointers_def pointers_ok_def)

lemma sp_makers_ok:
  assumes "pointers_ok s"
  shows "pointers_ok (sp_new p s)" and "pointers_ok (sp_copy j s)" and "j < length (sp_pointer s) \<Longrightarrow> pointers_ok (sp_move j s)"
    and "pointers_ok (wp_get j b s)"
  using assms by (auto simp: sp_new_def sp_copy_def sp_move_def wp_get_def pointer_defs holds_update nth_append split: option.splits)

lemma wp_makers_ok:
  assumes "pointers_ok s"
  shows "pointers_ok (wp_new p s)" and "pointers_ok (wp_copy j s)" and "pointers_ok (wp_of_strong j s)"
  using assms by (auto simp: wp_new_def wp_copy_def wp_of_strong_def pointer_defs split: option.splits)

lemma sp_enders_ok:
  assumes "pointers_ok s" and "i < length (sp_pointer s)"
  shows "pointers_ok (sp_destroy i s)" and "pointers_ok (sp_clear i s)"
  using assms holds_pos[OF assms(2)] by (auto simp: sp_destroy_def sp_clear_def pointer_defs holds_update split: option.splits)

lemma wp_enders_ok:
  assumes "pointers_ok s" and "i < length (wp_pointer s)"
  shows "pointers_ok (wp_destroy i s)" and "pointers_ok (wp_clear i s)"
  using assms holds_pos[OF assms(2)] by (auto simp: wp_destroy_def wp_clear_def pointer_defs holds_update split: option.splits)

lemma sp_assign_pointer_ok:
  assumes "pointers_ok s" and "i < length (sp_pointer s)"
  shows "pointers_ok (sp_assign_pointer i p s)"
  using assms holds_pos[OF assms(2)]
  by (auto simp: sp_assign_pointer_def pointer_defs holds_update add_increasing2 split: option.splits)

lemma sp_assign_eq: "sp_assign i j s = sp_assign_pointer i (sp_pointer s ! j) s"
  by (simp add: sp_assign_def sp_assign_pointer_def Let_def)

lemma sp_assign_move_ok:
  assumes "pointers_ok s" and "i < length (sp_pointer s)" and "j < length (sp_pointer s)"
  shows "pointers_ok (sp_assign_move i j s)"
  using assms holds_pos[OF assms(2)]
  by (cases "i = j") (auto simp: sp_assign_move_def pointer_defs holds_update split: option.splits)

lemma wp_assign_pointer_ok:
  assumes "pointers_ok s" and "i < length (wp_pointer s)"
  shows "pointers_ok (wp_assign_pointer i p s)"
  using assms holds_pos[OF assms(2)]
  by (auto simp: wp_assign_pointer_def pointer_defs holds_update add_increasing2 split: option.splits)

lemma wp_assign_eq:
  "wp_assign i j s = wp_assign_pointer i (wp_pointer s ! j) s" "wp_assign_strong i j s = wp_assign_pointer i (sp_pointer s ! j) s"
  by (simp_all add: wp_assign_def wp_assign_strong_def wp_assign_pointer_def Let_def)

section \<open>Programs\<close>

text \<open>A statement of a program, with a raw pointer, the variables it names and the outcome of \<open>tryIncStrongReference\<close> where it needs them.\<close>

datatype 'o pointer_statement =
    Sp_new "'o option" | Sp_copy nat | Sp_move nat | Sp_destroy nat | Sp_clear nat | Sp_assign nat nat | Sp_assign_move nat nat
  | Sp_assign_pointer nat "'o option" | Wp_new "'o option" | Wp_copy nat | Wp_of_strong nat | Wp_destroy nat | Wp_clear nat
  | Wp_assign nat nat | Wp_assign_strong nat nat | Wp_assign_pointer nat "'o option" | Wp_get nat bool

fun run_statement :: "'o pointer_statement \<Rightarrow> 'o pointers \<Rightarrow> 'o pointers" where
  "run_statement (Sp_new p) s = sp_new p s"
| "run_statement (Sp_copy j) s = sp_copy j s"
| "run_statement (Sp_move j) s = sp_move j s"
| "run_statement (Sp_destroy i) s = sp_destroy i s"
| "run_statement (Sp_clear i) s = sp_clear i s"
| "run_statement (Sp_assign i j) s = sp_assign i j s"
| "run_statement (Sp_assign_move i j) s = sp_assign_move i j s"
| "run_statement (Sp_assign_pointer i p) s = sp_assign_pointer i p s"
| "run_statement (Wp_new p) s = wp_new p s"
| "run_statement (Wp_copy j) s = wp_copy j s"
| "run_statement (Wp_of_strong j) s = wp_of_strong j s"
| "run_statement (Wp_destroy i) s = wp_destroy i s"
| "run_statement (Wp_clear i) s = wp_clear i s"
| "run_statement (Wp_assign i j) s = wp_assign i j s"
| "run_statement (Wp_assign_strong i j) s = wp_assign_strong i j s"
| "run_statement (Wp_assign_pointer i p) s = wp_assign_pointer i p s"
| "run_statement (Wp_get i b) s = wp_get i b s"

fun names_variables :: "'o pointer_statement \<Rightarrow> 'o pointers \<Rightarrow> bool" where
  "names_variables (Sp_copy j) s \<longleftrightarrow> j < length (sp_pointer s)"
| "names_variables (Sp_move j) s \<longleftrightarrow> j < length (sp_pointer s)"
| "names_variables (Sp_destroy i) s \<longleftrightarrow> i < length (sp_pointer s)"
| "names_variables (Sp_clear i) s \<longleftrightarrow> i < length (sp_pointer s)"
| "names_variables (Sp_assign i j) s \<longleftrightarrow> i < length (sp_pointer s) \<and> j < length (sp_pointer s)"
| "names_variables (Sp_assign_move i j) s \<longleftrightarrow> i < length (sp_pointer s) \<and> j < length (sp_pointer s)"
| "names_variables (Sp_assign_pointer i p) s \<longleftrightarrow> i < length (sp_pointer s)"
| "names_variables (Wp_copy j) s \<longleftrightarrow> j < length (wp_pointer s)"
| "names_variables (Wp_of_strong j) s \<longleftrightarrow> j < length (sp_pointer s)"
| "names_variables (Wp_destroy i) s \<longleftrightarrow> i < length (wp_pointer s)"
| "names_variables (Wp_clear i) s \<longleftrightarrow> i < length (wp_pointer s)"
| "names_variables (Wp_assign i j) s \<longleftrightarrow> i < length (wp_pointer s) \<and> j < length (wp_pointer s)"
| "names_variables (Wp_assign_strong i j) s \<longleftrightarrow> i < length (wp_pointer s) \<and> j < length (sp_pointer s)"
| "names_variables (Wp_assign_pointer i p) s \<longleftrightarrow> i < length (wp_pointer s)"
| "names_variables (Wp_get i b) s \<longleftrightarrow> i < length (wp_pointer s)"
| "names_variables _ s \<longleftrightarrow> True"

fun run_program :: "'o pointer_statement list \<Rightarrow> 'o pointers \<Rightarrow> 'o pointers option" where
  "run_program [] s = Some s"
| "run_program (c # cs) s = (if names_variables c s then run_program cs (run_statement c s) else None)"

lemma run_statement_ok: "pointers_ok s \<Longrightarrow> names_variables c s \<Longrightarrow> pointers_ok (run_statement c s)"
  by (cases c)
    (simp_all add: sp_makers_ok wp_makers_ok sp_enders_ok wp_enders_ok sp_assign_eq sp_assign_pointer_ok sp_assign_move_ok wp_assign_eq wp_assign_pointer_ok)

lemma run_program_ok: "run_program cs s = Some s' \<Longrightarrow> pointers_ok s \<Longrightarrow> pointers_ok s'"
  by (induction cs arbitrary: s) (auto simp: run_statement_ok split: if_splits)



end
