(* ===== verification/Buffered_Input.thy ===== *)
theory Buffered_Input
  imports Input_Streams
begin

text \<open>
  \<open>BufferedInputStream\<close> of \<open>src/mindroid/io\<close>: a stream that reads ahead into a buffer and can go back to a mark.

  The wrapped stream is a parameter: \<open>rd\<close> is its \<open>read(buffer, offset, count)\<close>, \<open>av\<close> its \<open>available\<close>, \<open>sk\<close> its \<open>skip\<close> and \<open>cl\<close>
  its \<open>close\<close>. No other thread closes the stream while an operation runs, so that the local reference to the buffer, which is assigned
  together with the field, is the field. A stream that reads nothing for ever would keep the loop of \<open>read(buffer, offset, count)\<close>
  running; its value is then \<open>None\<close>.

  The locale \<open>buffered_source\<close> is the contract of the wrapped stream. It extends \<open>input_stream\<close>, and the buffered stream without
  a mark is an \<open>input_stream\<close> again (\<open>sublocale\<close>), so that all that holds of data streams holds when they read through a buffer.
\<close>

section \<open>The stream\<close>

record 's buffered_input =
  biStream :: "'s option"
  biBuffer :: "bytes option"
  biCount :: size_t
  biMarkLimit :: size_t
  biMarkPosition :: int64
  biPosition :: size_t

definition BufferedInputStream_new :: "'s option \<Rightarrow> size_t \<Rightarrow> 's buffered_input result" where
  "BufferedInputStream_new inputStream n =
     (if n = 0 then Inl IllegalArgumentException
      else Inr \<lparr>biStream = inputStream, biBuffer = Some (ByteArray_new n), biCount = 0, biMarkLimit = 0,
        biMarkPosition = - 1, biPosition = 0\<rparr>)"

definition BufferedInputStream_available :: "('s \<Rightarrow> size_t result) \<Rightarrow> 's buffered_input \<Rightarrow> size_t result" where
  "BufferedInputStream_available av s =
     (case (biBuffer s, biStream s) of
        (Some _, Some i) \<Rightarrow> map_sum (\<lambda>e. e) (\<lambda>n. biCount s - biPosition s + n) (av i)
      | _ \<Rightarrow> Inl IOException)"

text \<open>The wrapped stream that was closed is part of the result, since the buffered stream no longer refers to it.\<close>

definition BufferedInputStream_close :: "(unit, 's) io \<Rightarrow> 's buffered_input \<Rightarrow> unit result \<times> 's option \<times> 's buffered_input" where
  "BufferedInputStream_close cl s =
     (let s1 = s\<lparr>biBuffer := None, biStream := None\<rparr> in
      case biStream s of
        None \<Rightarrow> (Inr (), None, s1)
      | Some i \<Rightarrow> let (r, i1) = cl i in (r, Some i1, s1))"

definition BufferedInputStream_mark :: "size_t \<Rightarrow> 's buffered_input \<Rightarrow> 's buffered_input" where
  "BufferedInputStream_mark limit s = s\<lparr>biMarkLimit := limit, biMarkPosition := biPosition s\<rparr>"

definition BufferedInputStream_markSupported :: bool where
  "BufferedInputStream_markSupported = True"

definition BufferedInputStream_reset :: "(unit, 's buffered_input) io" where
  "BufferedInputStream_reset s =
     (if biBuffer s = None then (Inl IOException, s)
      else if biMarkPosition s = - 1 then (Inl IOException, s)
      else (Inr (), s\<lparr>biPosition := biMarkPosition s\<rparr>))"

text \<open>
  The bytes from the mark on stay: in an array of twice the size, or moved to the front of the array. The result of the second read is
  an \<open>int\<close>.
\<close>

definition keep_marked :: "'s buffered_input \<Rightarrow> bytes \<Rightarrow> bytes result" where
  "keep_marked s buffer =
     (if biMarkPosition s = 0 \<and> biMarkLimit s > ByteArray_size buffer
      then let newSize = ByteArray_size buffer * 2;
               newSize = (if newSize > biMarkLimit s then biMarkLimit s else newSize)
           in arraycopy (Some buffer) 0 (Some (ByteArray_new newSize)) 0 (ByteArray_size buffer)
      else if 0 <s biMarkPosition s
      then arraycopy_within (biMarkPosition s) 0 (ByteArray_size buffer - biMarkPosition s) buffer
      else Inr buffer)"

definition fillBuffer :: "'s read_op \<Rightarrow> 's \<Rightarrow> bytes \<Rightarrow> (int, 's buffered_input) io" where
  "fillBuffer rd inputStream buffer s =
     (if biMarkPosition s = - 1 \<or> biPosition s - biMarkPosition s \<ge> biMarkLimit s
      then case rd (Some buffer) 0 (ByteArray_size buffer) inputStream of
          (Inl e, buffer1, i1) \<Rightarrow> (Inl e, s\<lparr>biBuffer := buffer1, biStream := Some i1\<rparr>)
        | (Inr r, buffer1, i1) \<Rightarrow>
            let s1 = s\<lparr>biBuffer := buffer1, biStream := Some i1\<rparr> in
            (Inr r, if r > 0
                    then s1\<lparr>biMarkPosition := - 1, biPosition := 0, biCount := (if r = - 1 then 0 else of_int r)\<rparr>
                    else s1)
      else case keep_marked s buffer of
          Inl e \<Rightarrow> (Inl e, s)
        | Inr buffer1 \<Rightarrow>
            let position = biPosition s - biMarkPosition s;
                s1 = s\<lparr>biBuffer := Some buffer1, biPosition := position, biCount := 0, biMarkPosition := 0\<rparr> in
            case rd (Some buffer1) position (ByteArray_size buffer1 - position) inputStream of
              (Inl e, buffer2, i1) \<Rightarrow> (Inl e, s1\<lparr>biBuffer := buffer2, biStream := Some i1\<rparr>)
            | (Inr r, buffer2, i1) \<Rightarrow>
                let len = signed_take_bit 31 r in
                (Inr len, s1\<lparr>biBuffer := buffer2, biStream := Some i1,
                   biCount := (if len \<le> 0 then position else position + of_int len)\<rparr>))"

definition BufferedInputStream_read :: "'s read_op \<Rightarrow> (int32, 's buffered_input) io" where
  "BufferedInputStream_read rd s =
     (case (biBuffer s, biStream s) of
        (Some buffer, Some i) \<Rightarrow>
          let (r, s1) = (if biPosition s \<ge> biCount s then fillBuffer rd i buffer s else (Inr 0, s)) in
          (case r of
             Inl e \<Rightarrow> (Inl e, s1)
           | Inr len \<Rightarrow>
               if len = - 1 then (Inr (- 1), s1)
               else case biBuffer s1 of
                   None \<Rightarrow> (Inl IOException, s1)
                 | Some buffer1 \<Rightarrow>
                     if biCount s1 - biPosition s1 > 0
                     then (map_sum (\<lambda>e. e) ucast (ByteArray_get (biPosition s1) buffer1), s1\<lparr>biPosition := biPosition s1 + 1\<rparr>)
                     else (Inr (- 1), s1))
      | _ \<Rightarrow> (Inl IOException, s))"

text \<open>One pass of the loop of \<open>read(buffer, offset, count)\<close>: the number of bytes it has put into \<open>buffer\<close>, or -1 at the end.\<close>

definition read_pass :: "'s read_op \<Rightarrow> bytes option \<Rightarrow> size_t \<Rightarrow> size_t \<Rightarrow> 's buffered_input \<Rightarrow> int result \<times> bytes option \<times> 's buffered_input" where
  "read_pass rd buffer offset required s =
     (let localBuffer = the (biBuffer s); i = the (biStream s) in
      if biMarkPosition s = - 1 \<and> required \<ge> ByteArray_size localBuffer
      then let (r, buffer1, i1) = rd buffer offset required i in (r, buffer1, s\<lparr>biStream := Some i1\<rparr>)
      else case fillBuffer rd i localBuffer s of
          (Inl e, s1) \<Rightarrow> (Inl e, buffer, s1)
        | (Inr r, s1) \<Rightarrow>
            if r = - 1 then (Inr (- 1), buffer, s1)
            else case biBuffer s1 of
                None \<Rightarrow> (Inl IOException, buffer, s1)
              | Some buffer1 \<Rightarrow>
                  let len = (if biCount s1 - biPosition s1 \<ge> required then required else biCount s1 - biPosition s1) in
                  (case arraycopy (Some buffer1) (biPosition s1) buffer offset len of
                     Inl e \<Rightarrow> (Inl e, buffer, s1)
                   | Inr buffer2 \<Rightarrow> (Inr (sint len), Some buffer2, s1\<lparr>biPosition := biPosition s1 + len\<rparr>)))"

partial_function (option) read_loop ::
  "'s read_op \<Rightarrow> ('s \<Rightarrow> size_t result) \<Rightarrow> size_t \<Rightarrow> bytes option \<Rightarrow> size_t \<Rightarrow> size_t \<Rightarrow> 's buffered_input \<Rightarrow>
     (int result \<times> bytes option \<times> 's buffered_input) option" where
  "read_loop rd av n buffer offset required s =
     (case read_pass rd buffer offset required s of
        (Inl e, buffer1, s1) \<Rightarrow> Some (Inl e, buffer1, s1)
      | (Inr len, buffer1, s1) \<Rightarrow>
          if len = - 1 then Some (Inr (if required = n then - 1 else sint (n - required)), buffer1, s1)
          else let required1 = required - of_int len in
            if required1 = 0 then Some (Inr (sint n), buffer1, s1)
            else case av (the (biStream s1)) of
                Inl e \<Rightarrow> Some (Inl e, buffer1, s1)
              | Inr a \<Rightarrow>
                  if a = 0 then Some (Inr (sint (n - required1)), buffer1, s1)
                  else read_loop rd av n buffer1 (offset + of_int len) required1 s1)"

definition BufferedInputStream_read_bytes ::
  "'s read_op \<Rightarrow> ('s \<Rightarrow> size_t result) \<Rightarrow> bytes option \<Rightarrow> size_t \<Rightarrow> size_t \<Rightarrow> 's buffered_input \<Rightarrow>
     (int result \<times> bytes option \<times> 's buffered_input) option" where
  "BufferedInputStream_read_bytes rd av buffer offset n s =
     (case biBuffer s of
        None \<Rightarrow> Some (Inl IOException, buffer, s)
      | Some localBuffer \<Rightarrow>
        (case buffer of
           None \<Rightarrow> Some (Inl Undefined, buffer, s)
         | Some b \<Rightarrow>
           if offset > ByteArray_size b \<or> ByteArray_size b - offset < n then Some (Inl IndexOutOfBoundsException, buffer, s)
           else if n = 0 then Some (Inr 0, buffer, s)
           else (case biStream s of
             None \<Rightarrow> Some (Inl IOException, buffer, s)
           | Some i \<Rightarrow>
             if biPosition s < biCount s
             then let len = (if biCount s - biPosition s \<ge> n then n else biCount s - biPosition s) in
               (case arraycopy (Some localBuffer) (biPosition s) buffer offset len of
                  Inl e \<Rightarrow> Some (Inl e, buffer, s)
                | Inr b1 \<Rightarrow>
                    let s1 = s\<lparr>biPosition := biPosition s + len\<rparr> in
                    if len = n then Some (Inr (sint len), Some b1, s1)
                    else case av i of
                        Inl e \<Rightarrow> Some (Inl e, Some b1, s1)
                      | Inr a \<Rightarrow>
                          if a = 0 then Some (Inr (sint len), Some b1, s1)
                          else read_loop rd av n (Some b1) (offset + len) (n - len) s1)
             else read_loop rd av n buffer offset n s)))"

definition BufferedInputStream_skip ::
  "'s read_op \<Rightarrow> (size_t \<Rightarrow> 's \<Rightarrow> (size_t result \<times> 's) option) \<Rightarrow> size_t \<Rightarrow> 's buffered_input \<Rightarrow>
     (size_t result \<times> 's buffered_input) option" where
  "BufferedInputStream_skip rd sk n s =
     (case biBuffer s of
        None \<Rightarrow> Some (Inl IOException, s)
      | Some buffer \<Rightarrow>
        if n < 1 then Some (Inr 0, s)
        else (case biStream s of
          None \<Rightarrow> Some (Inl IOException, s)
        | Some i \<Rightarrow>
          if biCount s - biPosition s \<ge> n then Some (Inr n, s\<lparr>biPosition := biPosition s + n\<rparr>)
          else let len = biCount s - biPosition s; s1 = s\<lparr>biPosition := biCount s\<rparr> in
            if biMarkPosition s \<noteq> - 1 \<and> n \<le> biMarkLimit s
            then (case fillBuffer rd i buffer s1 of
                (Inl e, s2) \<Rightarrow> Some (Inl e, s2)
              | (Inr r, s2) \<Rightarrow>
                  if r = - 1 then Some (Inr len, s2)
                  else if biCount s2 - biPosition s2 \<ge> n - len
                  then Some (Inr n, s2\<lparr>biPosition := biPosition s2 + (n - len)\<rparr>)
                  else Some (Inr (len + (biCount s2 - biPosition s2)), s2\<lparr>biPosition := biCount s2\<rparr>))
            else map_option (\<lambda>(r, i1). (map_sum (\<lambda>e. e) (\<lambda>k. len + k) r, s1\<lparr>biStream := Some i1\<rparr>)) (sk (n - len) i)))"

section \<open>The stream as a sequence of bytes\<close>

text \<open>
  The bytes that are still to be read follow the position; those that can be read again follow the mark. An array that is filled with a mark
  in its first half, but not at its start, would be copied to itself with \<open>memcpy\<close>.
\<close>

definition bi_ok :: "('s \<Rightarrow> bool) \<Rightarrow> 's buffered_input \<Rightarrow> bool" where
  "bi_ok ok s \<longleftrightarrow>
     (case (biBuffer s, biStream s) of
        (Some b, Some i) \<Rightarrow>
          ok i \<and> 0 < length b \<and> length b < 2 ^ 31 \<and> unat (biMarkLimit s) < 2 ^ 31 \<and>
          unat (biPosition s) \<le> unat (biCount s) \<and> unat (biCount s) \<le> length b \<and>
          (biMarkPosition s = - 1 \<or>
           unat (biMarkPosition s) \<le> unat (biPosition s) \<and>
           (unat (biMarkPosition s) = 0 \<or> length b \<le> 2 * unat (biMarkPosition s)))
      | _ \<Rightarrow> False)"

definition bi_from :: "('s \<Rightarrow> bytes) \<Rightarrow> nat \<Rightarrow> 's buffered_input \<Rightarrow> bytes" where
  "bi_from pending p s = drop p (take (unat (biCount s)) (the (biBuffer s))) @ pending (the (biStream s))"

definition bi_pending :: "('s \<Rightarrow> bytes) \<Rightarrow> 's buffered_input \<Rightarrow> bytes" where
  "bi_pending pending s = bi_from pending (unat (biPosition s)) s"

definition bi_replay :: "('s \<Rightarrow> bytes) \<Rightarrow> 's buffered_input \<Rightarrow> bytes" where
  "bi_replay pending s = bi_from pending (unat (biMarkPosition s)) s"

definition bi_since_mark :: "'s buffered_input \<Rightarrow> nat" where
  "bi_since_mark s = unat (biPosition s) - unat (biMarkPosition s)"

text \<open>From \<open>s\<close> to \<open>s'\<close> the stream has been read by \<open>k\<close> bytes, and a mark that allows it has been kept.\<close>

definition bi_read :: "('s \<Rightarrow> bytes) \<Rightarrow> nat \<Rightarrow> 's buffered_input \<Rightarrow> 's buffered_input \<Rightarrow> bool" where
  "bi_read pending k s s' \<longleftrightarrow>
     biMarkLimit s' = biMarkLimit s \<and> bi_pending pending s' = drop k (bi_pending pending s) \<and>
     (biMarkPosition s = - 1 \<longrightarrow> biMarkPosition s' = - 1) \<and>
     (biMarkPosition s \<noteq> - 1 \<and> bi_since_mark s + k \<le> unat (biMarkLimit s) \<longrightarrow>
        biMarkPosition s' \<noteq> - 1 \<and> bi_since_mark s' = bi_since_mark s + k \<and> bi_replay pending s' = bi_replay pending s)"

text \<open>Filling the buffer reads nothing from the stream, and keeps a mark that has not reached its limit.\<close>

definition bi_filled :: "('s \<Rightarrow> bytes) \<Rightarrow> 's buffered_input \<Rightarrow> 's buffered_input \<Rightarrow> bool" where
  "bi_filled pending s s' \<longleftrightarrow>
     biMarkLimit s' = biMarkLimit s \<and> bi_pending pending s' = bi_pending pending s \<and>
     (biMarkPosition s = - 1 \<longrightarrow> biMarkPosition s' = - 1) \<and>
     (biMarkPosition s \<noteq> - 1 \<and> bi_since_mark s < unat (biMarkLimit s) \<longrightarrow>
        biMarkPosition s' \<noteq> - 1 \<and> bi_since_mark s' = bi_since_mark s \<and> bi_replay pending s' = bi_replay pending s)"

lemma bi_okE:
  assumes "bi_ok ok s"
  obtains b i where "biBuffer s = Some b" "biStream s = Some i" "ok i" "0 < length b" "length b < 2 ^ 31"
    "unat (biMarkLimit s) < 2 ^ 31" "unat (biPosition s) \<le> unat (biCount s)" "unat (biCount s) \<le> length b"
    "biMarkPosition s = - 1 \<or> unat (biMarkPosition s) \<le> unat (biPosition s) \<and>
       (unat (biMarkPosition s) = 0 \<or> length b \<le> 2 * unat (biMarkPosition s))"
  using assms by (auto simp: bi_ok_def split: option.splits)

lemma bi_ok_stream: "bi_ok ok s \<Longrightarrow> ok (the (biStream s))"
  by (auto simp: bi_ok_def split: option.splits)

lemma bi_read_refl: "bi_read pending 0 s s"
  by (simp add: bi_read_def)

lemma bi_read_trans: "bi_read pending j s1 s2 \<Longrightarrow> bi_read pending k s2 s3 \<Longrightarrow> bi_read pending (j + k) s1 s3"
  by (auto simp: bi_read_def add.commute)

lemma bi_filled_read: "bi_filled pending s1 s2 \<Longrightarrow> bi_read pending k s2 s3 \<Longrightarrow> 0 < k \<Longrightarrow> bi_read pending k s1 s3"
  by (auto simp: bi_read_def bi_filled_def)

lemma bi_advance:
  assumes "bi_ok ok s" and "unat (biPosition s) + unat k \<le> unat (biCount s)"
  shows "bi_ok ok (s\<lparr>biPosition := biPosition s + k\<rparr>)" and "bi_read pending (unat k) s (s\<lparr>biPosition := biPosition s + k\<rparr>)"
    and "unat (biPosition s + k) = unat (biPosition s) + unat k"
proof -
  obtain b i where b: "biBuffer s = Some b" "biStream s = Some i" "unat (biCount s) \<le> length b" "length b < 2 ^ 31"
    using assms(1) by (rule bi_okE)
  then show u: "unat (biPosition s + k) = unat (biPosition s) + unat k"
    using assms(2) by (intro size_add_small) simp
  show "bi_ok ok (s\<lparr>biPosition := biPosition s + k\<rparr>)"
    using assms u by (auto simp: bi_ok_def split: option.splits)
  show "bi_read pending (unat k) s (s\<lparr>biPosition := biPosition s + k\<rparr>)"
    using assms u b by (auto simp: bi_ok_def bi_read_def bi_pending_def bi_from_def bi_since_mark_def bi_replay_def add.commute)
qed

lemma keep_marked_keeps:
  assumes ok: "bi_ok ok s" and b: "biBuffer s = Some b" and m: "biMarkPosition s \<noteq> - 1"
    and drained: "biPosition s = biCount s" and lim: "bi_since_mark s < unat (biMarkLimit s)"
  shows "\<exists>b1. keep_marked s b = Inr b1 \<and> bi_since_mark s < length b1 \<and> length b1 < 2 ^ 31 \<and>
    take (bi_since_mark s) b1 = drop (unat (biMarkPosition s)) (take (unat (biCount s)) b)"
proof -
  let ?m = "unat (biMarkPosition s)" and ?p = "unat (biPosition s)" and ?l = "length b"
  have f: "0 < ?l" "?l < 2 ^ 31" "unat (biMarkLimit s) < 2 ^ 31" "?p \<le> ?l" "?m \<le> ?p" "?m = 0 \<or> ?l \<le> 2 * ?m"
    using ok b m drained by (auto simp: bi_ok_def split: option.splits)
  have sz: "unat (ByteArray_size b) = ?l" using f(2) by (intro of_nat_size) simp
  have sm: "bi_since_mark s = ?p - ?m" by (simp add: bi_since_mark_def)
  consider (grow) "biMarkPosition s = 0" "biMarkLimit s > ByteArray_size b"
    | (move) "biMarkPosition s \<noteq> 0" | (same) "biMarkPosition s = 0" "\<not> biMarkLimit s > ByteArray_size b"
    by blast
  then show ?thesis
  proof cases
    case grow
    define n where "n = (if ByteArray_size b * 2 > biMarkLimit s then biMarkLimit s else ByteArray_size b * 2)"
    have "unat (ByteArray_size b * 2) = ?l * 2"
      using f(2) sz by (simp add: unat_mult_lem[THEN iffD1])
    then have n: "?l < unat n" "unat n < 2 ^ 31"
      using grow(2) f sz by (auto simp: n_def word_less_nat_alt)
    have "arraycopy (Some b) 0 (Some (ByteArray_new n)) 0 (ByteArray_size b) = Inr (write_at 0 b (ByteArray_new n))"
      using n f(2) sz arraycopy_in_bounds[of 0 "ByteArray_size b" b 0 "ByteArray_new n"]
      by (simp add: ByteArray_new_def read_at_def)
    then show ?thesis
      using grow n f sm drained by (auto simp: keep_marked_def write_at_def ByteArray_new_def simp flip: n_def)
  next
    case move
    then have pos: "0 < ?m" by (simp add: unat_gt_0)
    have "0 <s biMarkPosition s"
    proof -
      have "0 < int ?m" using pos by (simp only: of_nat_0_less_iff)
      moreover have "sint (biMarkPosition s) = int ?m" using f(2,4,5) by (intro sint_small) simp
      ultimately show ?thesis by (simp only: word_sless_alt sint_0)
    qed
    moreover have d: "unat (ByteArray_size b - biMarkPosition s) = ?l - ?m"
      using f(4,5) sz by (subst unat_sub) (simp_all add: word_le_nat_alt)
    moreover have "unat (biMarkPosition s + (ByteArray_size b - biMarkPosition s)) = ?l" using sz by simp
    ultimately show ?thesis
      using move pos f sm sz drained
      by (auto simp: keep_marked_def arraycopy_within_def word_less_nat_alt raw_read_def raw_write_def read_at_def write_at_def
          take_drop min_def)
  next
    case same
    then show ?thesis
      using f sm sz lim drained by (auto simp: keep_marked_def word_less_nat_alt)
  qed
qed

lemma take_written:
  "m + k \<le> length xs \<Longrightarrow> k \<le> length ys \<Longrightarrow> take (m + k) (write_at m (take k ys) xs) @ drop k ys = take m xs @ ys"
  by (simp add: write_at_def)

lemma keep_marked_room:
  assumes s: "bi_ok ok s" "biBuffer s = Some b" "biPosition s = biCount s"
    and m: "\<not> (biMarkPosition s = - 1 \<or> biPosition s - biMarkPosition s \<ge> biMarkLimit s)"
  obtains b1 where "keep_marked s b = Inr b1" "unat (biPosition s - biMarkPosition s) = bi_since_mark s"
    "bi_since_mark s < unat (biMarkLimit s)" "bi_since_mark s < length b1" "length b1 < 2 ^ 31"
    "take (bi_since_mark s) b1 = drop (unat (biMarkPosition s)) (take (unat (biCount s)) b)"
    "unat (ByteArray_size b1 - (biPosition s - biMarkPosition s)) = length b1 - bi_since_mark s"
    "0 < ByteArray_size b1 - (biPosition s - biMarkPosition s)"
proof -
  have "unat (biMarkPosition s) \<le> unat (biPosition s)" using s(1) m by (auto simp: bi_ok_def split: option.splits)
  then have d: "unat (biPosition s - biMarkPosition s) = bi_since_mark s"
    by (simp add: unat_sub word_le_nat_alt bi_since_mark_def)
  then have lim: "bi_since_mark s < unat (biMarkLimit s)" using m by (simp add: word_le_nat_alt)
  obtain b1 where b1: "keep_marked s b = Inr b1" "bi_since_mark s < length b1" "length b1 < 2 ^ 31"
    "take (bi_since_mark s) b1 = drop (unat (biMarkPosition s)) (take (unat (biCount s)) b)"
    using keep_marked_keeps[OF s(1,2) _ s(3) lim] m by blast
  have "unat (ByteArray_size b1) = length b1" using b1(3) by (intro of_nat_size) simp
  then have n: "unat (ByteArray_size b1 - (biPosition s - biMarkPosition s)) = length b1 - bi_since_mark s"
    using b1(2) d by (subst unat_sub) (simp_all add: word_le_nat_alt)
  then have "0 < ByteArray_size b1 - (biPosition s - biMarkPosition s)"
    using b1(2) by (metis unat_gt_0 word_gt_0 zero_less_diff)
  then show ?thesis using that d lim b1 n by blast
qed

lemma bi_pending_Nil:
  assumes "bi_ok ok s"
  shows "bi_pending pending s = [] \<longleftrightarrow> biPosition s = biCount s \<and> pending (the (biStream s)) = []"
proof -
  have "unat (biPosition s) = unat (biCount s) \<longleftrightarrow> biPosition s = biCount s" by (rule word_unat_eq_iff[symmetric])
  then show ?thesis
    using assms by (auto simp: bi_ok_def bi_pending_def bi_from_def split: option.splits)
qed

lemma bi_available:
  assumes "bi_ok ok s"
  shows "unat (biCount s - biPosition s) = unat (biCount s) - unat (biPosition s)"
    and "biPosition s < biCount s \<longleftrightarrow> biPosition s \<noteq> biCount s"
    and "unat (biCount s) - unat (biPosition s) \<le> length (bi_pending pending s)"
  using assms by (auto simp: bi_ok_def bi_pending_def bi_from_def unat_sub word_le_nat_alt word_less_nat_alt word_unat_eq_iff
      split: option.splits)

text \<open>Copying out of the buffer.\<close>

lemma bi_copy:
  assumes s: "bi_ok ok s" "biBuffer s = Some b" and n: "unat (biPosition s) + unat n \<le> unat (biCount s)"
    and d: "unat offset + unat n \<le> length d" "length d < 2 ^ 63"
  shows "arraycopy (Some b) (biPosition s) (Some d) offset n = Inr (write_at (unat offset) (take (unat n) (bi_pending pending s)) d)"
proof -
  have "unat (biCount s) \<le> length b" "length b < 2 ^ 63" using s by (auto simp: bi_ok_def split: option.splits)
  then have "arraycopy (Some b) (biPosition s) (Some d) offset n =
      Inr (write_at (unat offset) (read_at (unat (biPosition s)) (unat n) b) d)"
    and "read_at (unat (biPosition s)) (unat n) b = take (unat n) (bi_pending pending s)"
    using n d s(2) arraycopy_in_bounds[of "biPosition s" n b offset d]
    by (auto simp: bi_pending_def bi_from_def read_at_def drop_take min_def)
  then show ?thesis by simp
qed

lemma bi_next:
  assumes s: "bi_ok ok s" "biBuffer s = Some b" and less: "unat (biPosition s) < unat (biCount s)"
  shows "ByteArray_get (biPosition s) b = Inr (hd (bi_pending pending s))"
proof -
  have c: "unat (biCount s) \<le> length b" "length b < 2 ^ 63" using s by (auto simp: bi_ok_def split: option.splits)
  then have "unat (ByteArray_size b) = length b" by (intro of_nat_size) simp
  then have "ByteArray_get (biPosition s) b = Inr (b ! unat (biPosition s))"
    using less c by (simp add: ByteArray_get_def word_le_nat_alt)
  moreover have "hd (bi_pending pending s) = b ! unat (biPosition s)"
    using less c s(2) by (simp add: bi_pending_def bi_from_def hd_append hd_drop_conv_nth)
  ultimately show ?thesis by simp
qed

definition bi_unmarked :: "('s \<Rightarrow> bool) \<Rightarrow> 's buffered_input \<Rightarrow> bool" where
  "bi_unmarked ok s \<longleftrightarrow> bi_ok ok s \<and> biMarkPosition s = - 1"

lemma bi_new:
  assumes "ok i" and "0 < n" and "unat n < 2 ^ 31"
  shows "\<exists>s. BufferedInputStream_new (Some i) n = Inr s \<and> bi_unmarked ok s \<and> bi_pending pending s = pending i"
  using assms
  by (auto simp: BufferedInputStream_new_def bi_unmarked_def bi_ok_def bi_pending_def bi_from_def ByteArray_new_def word_gt_0
      unat_gt_0)

lemma bi_mark:
  assumes "bi_ok ok s" and "unat limit < 2 ^ 31" and "biPosition s = 0 \<or> length (the (biBuffer s)) \<le> 2 * unat (biPosition s)"
  shows "bi_ok ok (BufferedInputStream_mark limit s)" and "biMarkPosition (BufferedInputStream_mark limit s) \<noteq> - 1"
    and "bi_since_mark (BufferedInputStream_mark limit s) = 0"
    and "bi_replay pending (BufferedInputStream_mark limit s) = bi_pending pending s"
proof -
  show ok: "bi_ok ok (BufferedInputStream_mark limit s)"
    using assms by (auto simp: bi_ok_def BufferedInputStream_mark_def split: option.splits)
  have "unat (biPosition s) < 2 ^ 31" using assms(1) by (auto simp: bi_ok_def split: option.splits)
  then have "unat (biPosition s) \<noteq> unat (- 1 :: size_t)" by (simp add: unsigned_minus_1_eq_mask mask_eq_exp_minus_1)
  then show "biMarkPosition (BufferedInputStream_mark limit s) \<noteq> - 1"
    by (auto simp: BufferedInputStream_mark_def)
qed (simp_all add: BufferedInputStream_mark_def bi_since_mark_def bi_replay_def bi_pending_def bi_from_def)

lemma bi_reset:
  assumes "bi_ok ok s" and "biMarkPosition s \<noteq> - 1"
  shows "\<exists>s'. BufferedInputStream_reset s = (Inr (), s') \<and> bi_ok ok s' \<and> bi_pending pending s' = bi_replay pending s"
  using assms by (auto simp: BufferedInputStream_reset_def bi_ok_def bi_pending_def bi_replay_def bi_from_def split: option.splits)

definition bi_read_op :: "'s read_op \<Rightarrow> ('s \<Rightarrow> size_t result) \<Rightarrow> 's buffered_input read_op" where
  "bi_read_op rd av buffer offset n s = the (BufferedInputStream_read_bytes rd av buffer offset n s)"

text \<open>Calls of the three operations that read; \<open>call_bytes\<close> is the number of bytes they ask for.\<close>

datatype read_call = Read_call | Bytes_call size_t | Skip_call size_t

fun call_bytes :: "read_call \<Rightarrow> nat" where
  "call_bytes Read_call = 1"
| "call_bytes (Bytes_call n) = unat n"
| "call_bytes (Skip_call n) = unat n"

fun bi_call ::
  "'s read_op \<Rightarrow> ('s \<Rightarrow> size_t result) \<Rightarrow> (size_t \<Rightarrow> 's \<Rightarrow> (size_t result \<times> 's) option) \<Rightarrow> read_call \<Rightarrow> 's buffered_input \<Rightarrow>
     (int result \<times> 's buffered_input) option" where
  "bi_call rd av sk Read_call s = Some (result_map sint (BufferedInputStream_read rd s))"
| "bi_call rd av sk (Bytes_call n) s =
     map_option (\<lambda>(r, _, s1). (r, s1)) (BufferedInputStream_read_bytes rd av (Some (ByteArray_new n)) 0 n s)"
| "bi_call rd av sk (Skip_call n) s =
     map_option (\<lambda>(r, s1). (map_sum (\<lambda>e. e) uint r, s1)) (BufferedInputStream_skip rd sk n s)"

fun bi_calls ::
  "'s read_op \<Rightarrow> ('s \<Rightarrow> size_t result) \<Rightarrow> (size_t \<Rightarrow> 's \<Rightarrow> (size_t result \<times> 's) option) \<Rightarrow> read_call list \<Rightarrow> 's buffered_input \<Rightarrow>
     (int list result \<times> 's buffered_input) option" where
  "bi_calls rd av sk [] s = Some (Inr [], s)"
| "bi_calls rd av sk (c # cs) s =
     Option.bind (bi_call rd av sk c s) (\<lambda>(r, s1).
       case r of
         Inl e \<Rightarrow> Some (Inl e, s1)
       | Inr x \<Rightarrow> map_option (result_map (\<lambda>xs. x # xs)) (bi_calls rd av sk cs s1))"

section \<open>The contract of the wrapped stream\<close>

text \<open>\<open>available\<close> may answer anything, also always 0; \<open>skip\<close> skips some of the bytes that it is asked to skip.\<close>

locale buffered_source = input_stream +
  fixes av :: "'s \<Rightarrow> size_t result"
    and sk :: "size_t \<Rightarrow> 's \<Rightarrow> (size_t result \<times> 's) option"
  assumes av_total: "ok s \<Longrightarrow> \<exists>a. av s = Inr a"
    and sk_skips: "ok s \<Longrightarrow> \<exists>k s'. sk n s = Some (Inr k, s') \<and> unat k \<le> unat n \<and> unat k \<le> length (pending s) \<and> ok s' \<and>
      pending s' = drop (unat k) (pending s)"
begin

lemma fillBuffer_end:
  assumes s: "bi_ok ok s" "biBuffer s = Some b" "biStream s = Some i" "biPosition s = biCount s" "pending i = []"
  shows "\<exists>s'. fillBuffer rd i b s = (Inr (- 1), s') \<and> bi_ok ok s' \<and> bi_read pending 0 s s' \<and> biPosition s' = biCount s'"
proof -
  have f: "ok i" "0 < length b" "length b < 2 ^ 31" "unat (biPosition s) \<le> length b"
    using s by (auto simp: bi_ok_def)
  have sz: "unat (ByteArray_size b) = length b" using f(3) by (intro of_nat_size) simp
  show ?thesis
  proof (cases "biMarkPosition s = - 1 \<or> biPosition s - biMarkPosition s \<ge> biMarkLimit s")
    case True
    obtain i' where "rd (Some b) 0 (ByteArray_size b) i = (Inr (- 1), Some b, i')" "ok i'" "pending i' = []"
      using rd_end[OF f(1), of "ByteArray_size b" 0 b] f sz s(5) by (auto simp: word_gt_0 unat_gt_0 simp flip: unat_gt_0)
    then show ?thesis
      using True s by (auto simp: fillBuffer_def bi_ok_def bi_read_def bi_pending_def bi_from_def bi_replay_def bi_since_mark_def)
  next
    case False
    obtain b1 where b1: "keep_marked s b = Inr b1" "unat (biPosition s - biMarkPosition s) = bi_since_mark s"
      "bi_since_mark s < unat (biMarkLimit s)" "bi_since_mark s < length b1" "length b1 < 2 ^ 31"
      "take (bi_since_mark s) b1 = drop (unat (biMarkPosition s)) (take (unat (biCount s)) b)"
      "unat (ByteArray_size b1 - (biPosition s - biMarkPosition s)) = length b1 - bi_since_mark s"
      "0 < ByteArray_size b1 - (biPosition s - biMarkPosition s)"
      using keep_marked_room[OF s(1,2,4) False] by blast
    let ?p = "biPosition s - biMarkPosition s"
    obtain i' where i': "rd (Some b1) ?p (ByteArray_size b1 - ?p) i = (Inr (- 1), Some b1, i')" "ok i'" "pending i' = []"
      using rd_end[OF f(1) b1(8), of ?p b1] b1(2,4,5,7) s(5) by auto
    have "signed_take_bit 31 (- 1 :: int) = - 1" by simp
    then show ?thesis
      using False i' b1(1-6) s by (auto simp: Let_def fillBuffer_def bi_ok_def bi_read_def bi_pending_def bi_from_def bi_replay_def bi_since_mark_def)
  qed
qed

lemma fillBuffer_bytes:
  assumes s: "bi_ok ok s" "biBuffer s = Some b" "biStream s = Some i" "biPosition s = biCount s" "pending i \<noteq> []"
  shows "\<exists>k s'. fillBuffer rd i b s = (Inr (int k), s') \<and> 0 < k \<and> bi_ok ok s' \<and> bi_filled pending s s' \<and>
    unat (biPosition s') < unat (biCount s')"
proof -
  have f: "ok i" "0 < length b" "length b < 2 ^ 31" "unat (biPosition s) \<le> length b" "unat (biMarkLimit s) < 2 ^ 31"
    using s by (auto simp: bi_ok_def)
  have sz: "unat (ByteArray_size b) = length b" using f(3) by (intro of_nat_size) simp
  show ?thesis
  proof (cases "biMarkPosition s = - 1 \<or> biPosition s - biMarkPosition s \<ge> biMarkLimit s")
    case True
    have "0 < ByteArray_size b" using f(2) sz by (metis unat_gt_0 word_gt_0)
    then obtain k i' where k: "1 \<le> k" "k \<le> length b" "k \<le> length (pending i)"
      "rd (Some b) 0 (ByteArray_size b) i = (Inr (int k), Some (write_at 0 (take k (pending i)) b), i')" "ok i'"
      "pending i' = drop k (pending i)"
      using rd_bytes[OF f(1), of "ByteArray_size b" 0 b] f sz s(5) by auto
    let ?s = "s\<lparr>biBuffer := Some (write_at 0 (take k (pending i)) b), biStream := Some i', biMarkPosition := - 1,
      biPosition := 0, biCount := of_nat k\<rparr>"
    have u: "unat (of_nat k :: size_t) = k" using k(2) f(3) by (simp add: unat_of_nat take_bit_nat_eq_self)
    have "\<not> bi_since_mark s < unat (biMarkLimit s)" if "biMarkPosition s \<noteq> - 1"
      using that True s by (auto simp: bi_ok_def bi_since_mark_def word_le_nat_alt unat_sub)
    then have "bi_filled pending s ?s"
      using k s u by (auto simp: bi_filled_def bi_pending_def bi_from_def write_at_def)
    moreover have "bi_ok ok ?s" using k f u by (simp add: bi_ok_def)
    moreover have "fillBuffer rd i b s = (Inr (int k), ?s)" using True k by (simp add: fillBuffer_def Let_def)
    ultimately show ?thesis using k(1) u by (intro exI[of _ k] exI[of _ ?s]) simp
  next
    case False
    obtain b1 where b1: "keep_marked s b = Inr b1" "unat (biPosition s - biMarkPosition s) = bi_since_mark s"
      "bi_since_mark s < unat (biMarkLimit s)" "bi_since_mark s < length b1" "length b1 < 2 ^ 31"
      "take (bi_since_mark s) b1 = drop (unat (biMarkPosition s)) (take (unat (biCount s)) b)"
      "unat (ByteArray_size b1 - (biPosition s - biMarkPosition s)) = length b1 - bi_since_mark s"
      "0 < ByteArray_size b1 - (biPosition s - biMarkPosition s)"
      using keep_marked_room[OF s(1,2,4) False] by blast
    let ?p = "biPosition s - biMarkPosition s" and ?m = "bi_since_mark s"
    obtain k i' where k: "1 \<le> k" "k \<le> length b1 - ?m" "k \<le> length (pending i)"
      "rd (Some b1) ?p (ByteArray_size b1 - ?p) i = (Inr (int k), Some (write_at ?m (take k (pending i)) b1), i')" "ok i'"
      "pending i' = drop k (pending i)"
      using rd_bytes[OF f(1) b1(8), of ?p b1] b1(2,4,5,7) s(5) by auto
    let ?s = "s\<lparr>biBuffer := Some (write_at ?m (take k (pending i)) b1), biStream := Some i', biMarkPosition := 0,
      biPosition := ?p, biCount := ?p + of_nat k\<rparr>"
    have "unat (of_nat k :: size_t) = k" using k(2) b1(5) by (simp add: unat_of_nat take_bit_nat_eq_self)
    then have u: "unat (?p + of_nat k) = ?m + k" using k(2) b1(2,4,5) by (subst size_add_small) auto
    have "k < 2147483648" using k(2) b1(5) by simp
    then have "int k < 2147483648" by simp
    then have st: "signed_take_bit 31 (int k) = int k" by (simp add: signed_take_bit_int_eq_self_iff)
    have "bi_since_mark ?s = ?m" by (simp add: bi_since_mark_def b1(2)[unfolded bi_since_mark_def])
    moreover have "bi_replay pending ?s = bi_replay pending s"
      using take_written[of ?m k b1 "pending i"] k(2,3,6) u s(2,3) b1(4,6) by (simp add: bi_replay_def bi_from_def)
    moreover have "bi_pending pending ?s = bi_pending pending s"
      using k(2,3,6) u s(1-4) b1(2,4) by (simp add: bi_pending_def bi_from_def write_at_def bi_ok_def)
    ultimately have "bi_filled pending s ?s" using False by (simp add: bi_filled_def)
    moreover have "bi_ok ok ?s" using k f u b1(2,4,5) by (auto simp: bi_ok_def)
    moreover have "fillBuffer rd i b s = (Inr (int k), ?s)"
      using False k(1,4) b1(1) st by (simp add: fillBuffer_def Let_def)
    ultimately show ?thesis using k(1) u b1(2) by (intro exI[of _ k] exI[of _ ?s]) simp
  qed
qed

lemma read_end:
  assumes s: "bi_ok ok s" "bi_pending pending s = []"
  shows "\<exists>s'. BufferedInputStream_read rd s = (Inr (- 1), s') \<and> bi_ok ok s' \<and> bi_read pending 0 s s'"
proof -
  obtain b i where b: "biBuffer s = Some b" "biStream s = Some i" using s(1) by (rule bi_okE)
  have "biPosition s = biCount s" "pending i = []" using bi_pending_Nil[OF s(1)] s(2) b by auto
  then show ?thesis
    using fillBuffer_end[OF s(1) b] b by (auto simp: BufferedInputStream_read_def)
qed

lemma read_byte:
  assumes s: "bi_ok ok s" "bi_pending pending s = x # xs"
  shows "\<exists>s'. BufferedInputStream_read rd s = (Inr (ucast x), s') \<and> bi_ok ok s' \<and> bi_read pending 1 s s'"
proof -
  obtain b i where b: "biBuffer s = Some b" "biStream s = Some i" "unat (biPosition s) \<le> unat (biCount s)"
    using s(1) by (rule bi_okE)
  have step: "\<exists>s'. BufferedInputStream_read rd s = (Inr (ucast x), s') \<and> bi_ok ok s' \<and> bi_read pending 1 s1 s'"
    if s1: "bi_ok ok s1" "bi_pending pending s1 = x # xs" "unat (biPosition s1) < unat (biCount s1)"
      and rd: "(if biPosition s \<ge> biCount s then fillBuffer rd i b s else (Inr 0, s)) = (Inr (int k), s1)" for s1 k
  proof -
    obtain b1 where b1: "biBuffer s1 = Some b1" using s1(1) by (rule bi_okE)
    have a: "unat (biPosition s1) + unat (1 :: size_t) \<le> unat (biCount s1)" using s1(3) by simp
    have "biCount s1 - biPosition s1 \<noteq> 0" using s1(3) by auto
    then have "BufferedInputStream_read rd s = (Inr (ucast x), s1\<lparr>biPosition := biPosition s1 + 1\<rparr>)"
      using b b1 bi_next[OF s1(1) b1 s1(3), of pending] s1(2)
      by (simp add: BufferedInputStream_read_def rd word_gt_0)
    then show ?thesis using bi_advance(1)[OF s1(1) a] bi_advance(2)[OF s1(1) a, of pending] by auto
  qed
  show ?thesis
  proof (cases "biPosition s = biCount s")
    case True
    then have "pending i \<noteq> []" using bi_pending_Nil[OF s(1), of pending] s(2) b by auto
    then obtain k s1 where s1: "fillBuffer rd i b s = (Inr (int k), s1)" "bi_ok ok s1" "bi_filled pending s s1"
      "unat (biPosition s1) < unat (biCount s1)"
      using fillBuffer_bytes[OF s(1) b(1,2) True] by blast
    then have "bi_pending pending s1 = x # xs" using s(2) by (simp add: bi_filled_def)
    then show ?thesis using step[OF s1(2) _ s1(4), of k] s1(1,3) True bi_filled_read[OF s1(3)] by auto
  next
    case False
    then have "unat (biPosition s) < unat (biCount s)" using bi_available(2)[OF s(1)] by (simp add: word_less_nat_alt)
    moreover from this have "\<not> biCount s \<le> biPosition s" by (simp add: word_le_nat_alt)
    ultimately show ?thesis using step[OF s, of 0] by simp
  qed
qed

text \<open>One pass of the loop begins with an empty buffer.\<close>

lemma read_pass_end:
  assumes s: "bi_ok ok s" "bi_pending pending s = []" and n: "0 < required" "unat offset + unat required \<le> length d" "length d < 2 ^ 63"
  shows "\<exists>s'. read_pass rd (Some d) offset required s = (Inr (- 1), Some d, s') \<and> bi_ok ok s' \<and> bi_read pending 0 s s'"
proof -
  obtain b i where b: "biBuffer s = Some b" "biStream s = Some i" "ok i" using s(1) by (rule bi_okE)
  have e: "biPosition s = biCount s" "pending i = []" using bi_pending_Nil[OF s(1)] s(2) b by auto
  show ?thesis
  proof (cases "biMarkPosition s = - 1 \<and> required \<ge> ByteArray_size b")
    case True
    obtain i' where "rd (Some d) offset required i = (Inr (- 1), Some d, i')" "ok i'" "pending i' = []"
      using rd_end[OF b(3) n e(2)] by blast
    then show ?thesis
      using True b s e by (auto simp: read_pass_def bi_ok_def bi_read_def bi_pending_def bi_from_def)
  next
    case False
    then show ?thesis
      using fillBuffer_end[OF s(1) b(1,2) e] b by (auto simp: read_pass_def Let_def)
  qed
qed

lemma read_pass_bytes:
  assumes s: "bi_ok ok s" "bi_pending pending s \<noteq> []" "biPosition s = biCount s"
    and n: "0 < required" "unat offset + unat required \<le> length d" "length d < 2 ^ 63"
  shows "\<exists>k s'. 0 < k \<and> k \<le> unat required \<and> k \<le> length (bi_pending pending s) \<and>
    read_pass rd (Some d) offset required s = (Inr (int k), Some (write_at (unat offset) (take k (bi_pending pending s)) d), s') \<and>
    bi_ok ok s' \<and> bi_read pending k s s' \<and> (k < unat required \<longrightarrow> biPosition s' = biCount s')"
proof -
  obtain b i where b: "biBuffer s = Some b" "biStream s = Some i" "ok i" using s(1) by (rule bi_okE)
  have ne: "pending i \<noteq> []" and pi: "bi_pending pending s = pending i"
    using bi_pending_Nil[OF s(1), of pending] s(2,3) b by (auto simp: bi_pending_def bi_from_def)
  show ?thesis
  proof (cases "biMarkPosition s = - 1 \<and> required \<ge> ByteArray_size b")
    case True
    obtain k i' where k: "1 \<le> k" "k \<le> unat required" "k \<le> length (pending i)"
      "rd (Some d) offset required i = (Inr (int k), Some (write_at (unat offset) (take k (pending i)) d), i')" "ok i'"
      "pending i' = drop k (pending i)"
      using rd_bytes[OF b(3) n ne] by blast
    have "bi_read pending k s (s\<lparr>biStream := Some i'\<rparr>)" "bi_ok ok (s\<lparr>biStream := Some i'\<rparr>)"
      using True k b s(1,3) by (auto simp: bi_ok_def bi_read_def bi_pending_def bi_from_def)
    then show ?thesis
      using True k b s(3) pi by (intro exI[of _ k] exI[of _ "s\<lparr>biStream := Some i'\<rparr>"]) (simp add: read_pass_def)
  next
    case False
    obtain j s1 where s1: "fillBuffer rd i b s = (Inr (int j), s1)" "bi_ok ok s1" "bi_filled pending s s1"
      "unat (biPosition s1) < unat (biCount s1)"
      using fillBuffer_bytes[OF s(1) b(1,2) s(3) ne] by blast
    then have p1: "bi_pending pending s1 = bi_pending pending s" by (simp add: bi_filled_def)
    obtain b1 where b1: "biBuffer s1 = Some b1" using s1(2) by (rule bi_okE)
    define len where "len = (if biCount s1 - biPosition s1 \<ge> required then required else biCount s1 - biPosition s1)"
    note av1 = bi_available(1)[OF s1(2)] bi_available(3)[OF s1(2), of pending]
    have len: "0 < unat len" "unat len \<le> unat required" "unat (biPosition s1) + unat len \<le> unat (biCount s1)"
      "unat len < unat required \<Longrightarrow> unat (biPosition s1) + unat len = unat (biCount s1)"
      using n(1) s1(4) av1(1) by (auto simp: len_def word_le_nat_alt word_gt_0 unat_gt_0)
    let ?s = "s1\<lparr>biPosition := biPosition s1 + len\<rparr>"
    note adv = bi_advance(1)[OF s1(2) len(3)] bi_advance(2)[OF s1(2) len(3), of pending] bi_advance(3)[OF s1(2) len(3)]
    have "arraycopy (Some b1) (biPosition s1) (Some d) offset len =
        Inr (write_at (unat offset) (take (unat len) (bi_pending pending s)) d)"
      using bi_copy[OF s1(2) b1 len(3), of offset d pending] len(2) n(2,3) p1 by simp
    moreover have "sint len = int (unat len)" using len(2) n(2,3) by (intro sint_small) linarith
    ultimately have "read_pass rd (Some d) offset required s =
        (Inr (int (unat len)), Some (write_at (unat offset) (take (unat len) (bi_pending pending s)) d), ?s)"
      using False b s1(1) b1 by (auto simp: read_pass_def Let_def simp flip: len_def)
    moreover have "biPosition ?s = biCount ?s" if "unat len < unat required"
      using len(4)[OF that] adv(3) by (simp add: word_unat_eq_iff)
    moreover have "unat len \<le> length (bi_pending pending s)" using av1(2) len(3) p1 by simp
    ultimately show ?thesis
      using adv(1) bi_filled_read[OF s1(3) adv(2) len(1)] len(1,2) by blast
  qed
qed

lemma read_loop_reads:
  assumes "bi_ok ok s" and "biPosition s = biCount s" and "0 < required" and "unat required \<le> unat n" and "unat n < 2 ^ 63"
    and "unat offset + unat required \<le> length d" and "length d < 2 ^ 63" and "bi_pending pending s \<noteq> [] \<or> required \<noteq> n"
  shows "\<exists>k s'. k \<le> unat required \<and> k \<le> length (bi_pending pending s) \<and> (bi_pending pending s \<noteq> [] \<longrightarrow> 0 < k) \<and>
    read_loop rd av n (Some d) offset required s =
      Some (Inr (int (unat n - unat required + k)), Some (write_at (unat offset) (take k (bi_pending pending s)) d), s') \<and>
    bi_ok ok s' \<and> bi_read pending k s s'"
  using assms
proof (induction "unat required" arbitrary: required offset d s rule: less_induct)
  case less
  have sub: "sint (n - r) = int (unat n - unat r)" if "unat r \<le> unat n" for r
    using that less.prems(5) sint_small[of "n - r"] unat_sub[of r n] by (simp add: word_le_nat_alt)
  show ?case
  proof (cases "bi_pending pending s = []")
    case True
    then have "required \<noteq> n" using less.prems(8) by simp
    then show ?thesis
      using read_pass_end[OF less.prems(1) True less.prems(3,6,7)] sub[OF less.prems(4)] True
      by (subst read_loop.simps) (auto simp: write_at_def)
  next
    case False
    let ?p = "bi_pending pending s"
    obtain k s1 where k: "0 < k" "k \<le> unat required" "k \<le> length ?p"
      "read_pass rd (Some d) offset required s = (Inr (int k), Some (write_at (unat offset) (take k ?p) d), s1)"
      "bi_ok ok s1" "bi_read pending k s s1" "k < unat required \<Longrightarrow> biPosition s1 = biCount s1"
      using read_pass_bytes[OF less.prems(1) False less.prems(2,3,6,7)] by blast
    let ?d = "write_at (unat offset) (take k ?p) d" and ?r = "required - of_nat k"
    have r: "unat ?r = unat required - k" and o1: "k < unat required \<Longrightarrow> unat (offset + of_nat k) = unat offset + k"
      using k(2) less.prems(4-7) by (auto simp: unat_sub word_le_nat_alt unat_of_nat take_bit_nat_eq_self unat_word_ariths)
    have p1: "bi_pending pending s1 = drop k ?p" using k(6) by (simp add: bi_read_def)
    obtain a where a: "av (the (biStream s1)) = Inr a" using av_total[OF bi_ok_stream[OF k(5)]] by blast
    note unfold = read_loop.simps[of rd av n "Some d" offset required s]
    consider (all) "k = unat required" | (short) "k < unat required" "a = 0" | (more) "k < unat required" "a \<noteq> 0"
      using k(2) by linarith
    then show ?thesis
    proof cases
      case all
      then have "?r = 0" using r by (simp add: word_unat_eq_iff)
      moreover have "sint n = int (unat n)" using less.prems(5) by (rule sint_small)
      moreover have "0 \<le> uint required" by simp
      then have "uint required \<noteq> - 1" by linarith
      ultimately show ?thesis
        using k all less.prems(4) by (intro exI[of _ k] exI[of _ s1]) (simp add: unfold Let_def)
    next
      case short
      then have "?r \<noteq> 0" using r by (auto simp: word_unat_eq_iff)
      moreover have "sint (n - ?r) = int (unat n - unat required + k)"
        using sub[of ?r] r k(2) less.prems(4) by simp
      ultimately show ?thesis
        using k short a by (intro exI[of _ k] exI[of _ s1]) (simp add: unfold Let_def)
    next
      case more
      then have "?r \<noteq> 0" using r by (auto simp: word_unat_eq_iff)
      have "?r \<noteq> n" using r k(1) less.prems(3,4) more(1) by (auto simp: word_unat_eq_iff)
      have d1: "length ?d = length d" "unat required - k \<le> unat n" using k(2) less.prems(4,6) by simp_all
      obtain j s' where j: "j \<le> unat ?r" "j \<le> length (drop k ?p)"
        "read_loop rd av n (Some ?d) (offset + of_nat k) ?r s1 =
          Some (Inr (int (unat n - unat ?r + j)), Some (write_at (unat offset + k) (take j (drop k ?p)) ?d), s')"
        "bi_ok ok s'" "bi_read pending j s1 s'"
        using less.hyps[of ?r s1 "offset + of_nat k" ?d] r o1[OF more(1)] k p1 d1 more(1) less.prems(4-7) \<open>?r \<noteq> 0\<close> \<open>?r \<noteq> n\<close>
        by (auto simp: word_gt_0)
      have wr: "write_at (unat offset + k) (take j (drop k ?p)) ?d = write_at (unat offset) (take (k + j) ?p) d"
        using write_at_append[of "unat offset" "take k ?p" "take j (drop k ?p)" d] k(2,3) j(1,2) r less.prems(6)
        by (simp add: take_add)
      have nn: "unat n - unat ?r + j = unat n - unat required + (k + j)" using r k(2) less.prems(4) by simp
      have "read_loop rd av n (Some d) offset required s = read_loop rd av n (Some ?d) (offset + of_nat k) ?r s1"
        unfolding unfold k(4) using a more(2) \<open>?r \<noteq> 0\<close> by (simp add: Let_def)
      then have eq: "read_loop rd av n (Some d) offset required s =
          Some (Inr (int (unat n - unat required + (k + j))), Some (write_at (unat offset) (take (k + j) ?p) d), s')"
        unfolding j(3) wr nn .
      have "k + j \<le> unat required" "k + j \<le> length ?p" using j(1,2) k(2,3) r by auto
      then show ?thesis using eq k(1) j(4) bi_read_trans[OF k(6) j(5)] by blast
    qed
  qed
qed

lemma read_bytes_end:
  assumes s: "bi_ok ok s" "bi_pending pending s = []" and n: "0 < n" "unat offset + unat n \<le> length d" "length d < 2 ^ 63"
  shows "\<exists>s'. BufferedInputStream_read_bytes rd av (Some d) offset n s = Some (Inr (- 1), Some d, s') \<and> bi_ok ok s' \<and>
    bi_read pending 0 s s'"
proof -
  obtain b i where b: "biBuffer s = Some b" "biStream s = Some i" using s(1) by (rule bi_okE)
  have "unat (ByteArray_size d) = length d" using n(3) by (intro of_nat_size) simp
  then have "\<not> (offset > ByteArray_size d \<or> ByteArray_size d - offset < n)"
    using n(2) by (auto simp: word_less_nat_alt unat_sub word_le_nat_alt)
  moreover have "\<not> biPosition s < biCount s" using bi_pending_Nil[OF s(1)] s(2) by auto
  ultimately show ?thesis
    using read_pass_end[OF s n] n(1) b
    by (auto simp: BufferedInputStream_read_bytes_def read_loop.simps[of rd av n "Some d" offset n s])
qed

lemma read_bytes_reads:
  assumes s: "bi_ok ok s" "bi_pending pending s \<noteq> []" and n: "0 < n" "unat offset + unat n \<le> length d" "length d < 2 ^ 63"
  shows "\<exists>k s'. 0 < k \<and> k \<le> unat n \<and> k \<le> length (bi_pending pending s) \<and>
    BufferedInputStream_read_bytes rd av (Some d) offset n s =
      Some (Inr (int k), Some (write_at (unat offset) (take k (bi_pending pending s)) d), s') \<and>
    bi_ok ok s' \<and> bi_read pending k s s'"
proof -
  let ?p = "bi_pending pending s"
  obtain b i where b: "biBuffer s = Some b" "biStream s = Some i" "unat (biPosition s) \<le> unat (biCount s)" using s(1) by (rule bi_okE)
  have "unat (ByteArray_size d) = length d" using n(3) by (intro of_nat_size) simp
  then have chk: "\<not> (offset > ByteArray_size d \<or> ByteArray_size d - offset < n)"
    using n(2) by (auto simp: word_less_nat_alt unat_sub word_le_nat_alt)
  have n63: "unat n < 2 ^ 63" using n(2,3) by linarith
  note unfold = BufferedInputStream_read_bytes_def
  show ?thesis
  proof (cases "biPosition s = biCount s")
    case True
    then show ?thesis
      using read_loop_reads[OF s(1) True n(1) order_refl n63 n(2,3)] s(2) n(1) b chk by (auto simp: unfold)
  next
    case False
    then have less: "biPosition s < biCount s" "unat (biPosition s) < unat (biCount s)"
      using bi_available(2)[OF s(1)] by (auto simp: word_less_nat_alt)
    define len where "len = (if biCount s - biPosition s \<ge> n then n else biCount s - biPosition s)"
    have len: "0 < unat len" "unat len \<le> unat n" "unat (biPosition s) + unat len \<le> unat (biCount s)"
      "unat len < unat n \<Longrightarrow> unat (biPosition s) + unat len = unat (biCount s)"
      using n(1) less(2) bi_available(1)[OF s(1)] by (auto simp: len_def word_le_nat_alt word_gt_0 unat_gt_0)
    let ?s = "s\<lparr>biPosition := biPosition s + len\<rparr>" and ?d = "write_at (unat offset) (take (unat len) ?p) d"
    note adv = bi_advance(1)[OF s(1) len(3)] bi_advance(2)[OF s(1) len(3), of pending] bi_advance(3)[OF s(1) len(3)]
    have lp: "unat len \<le> length ?p" using bi_available(3)[OF s(1), of pending] len(3) by simp
    have cp: "arraycopy (Some b) (biPosition s) (Some d) offset len = Inr ?d"
      using bi_copy[OF s(1) b(1) len(3), of offset d pending] len(2) n(2,3) by simp
    have sl: "sint len = int (unat len)" using len(2) n63 by (intro sint_small) linarith
    obtain a where a: "av i = Inr a" using av_total[OF bi_ok_stream[OF s(1)]] b(2) by auto
    consider (enough) "len = n \<or> a = 0" | (more) "len \<noteq> n" "a \<noteq> 0" by blast
    then show ?thesis
    proof cases
      case enough
      have "BufferedInputStream_read_bytes rd av (Some d) offset n s = Some (Inr (int (unat len)), Some ?d, ?s)"
        using enough n(1) b chk less(1) cp sl a by (auto simp: unfold Let_def simp flip: len_def)
      then show ?thesis using adv(1,2) lp len(1,2) by blast
    next
      case more
      then have lt: "unat len < unat n" using len(2) by (auto simp: word_unat_eq_iff)
      have r: "unat (n - len) = unat n - unat len" "unat (offset + len) = unat offset + unat len" "n - len \<noteq> n" "0 < n - len"
        using lt len(1,2) n(2,3) more(1) by (auto simp: unat_sub word_le_nat_alt word_gt_0 intro!: size_add_small)
      have e: "biPosition ?s = biCount ?s" using len(4)[OF lt] adv(3) by (simp add: word_unat_eq_iff)
      have p1: "bi_pending pending ?s = drop (unat len) ?p" using adv(2) by (simp add: bi_read_def)
      have d1: "length ?d = length d" using len(2) lp n(2) by simp
      obtain j s' where j: "j \<le> unat (n - len)" "j \<le> length (drop (unat len) ?p)"
        "read_loop rd av n (Some ?d) (offset + len) (n - len) ?s =
          Some (Inr (int (unat n - unat (n - len) + j)), Some (write_at (unat offset + unat len) (take j (drop (unat len) ?p)) ?d), s')"
        "bi_ok ok s'" "bi_read pending j ?s s'"
        using read_loop_reads[OF adv(1) e r(4) _ n63, of "offset + len" ?d] r(1,2,3) len(2) n(2,3) d1 p1 by auto
      have "write_at (unat offset + unat len) (take j (drop (unat len) ?p)) ?d = write_at (unat offset) (take (unat len + j) ?p) d"
        using write_at_append[of "unat offset" "take (unat len) ?p" "take j (drop (unat len) ?p)" d] lp len(2) j(1,2) r(1) n(2)
        by (simp add: take_add)
      moreover have "unat n - unat (n - len) + j = unat len + j" using r(1) len(2) by simp
      moreover have "BufferedInputStream_read_bytes rd av (Some d) offset n s =
          read_loop rd av n (Some ?d) (offset + len) (n - len) ?s"
        using more n(1) b chk less(1) cp a by (auto simp: unfold Let_def simp flip: len_def)
      ultimately show ?thesis
        using j lp len(1,2) r(1) bi_read_trans[OF adv(2) j(5)]
        by (intro exI[of _ "unat len + j"] exI[of _ s']) auto
    qed
  qed
qed

lemma skip_skips:
  assumes s: "bi_ok ok s" and m: "biMarkPosition s = - 1 \<or> n \<le> biMarkLimit s"
  shows "\<exists>k s'. BufferedInputStream_skip rd sk n s = Some (Inr k, s') \<and> unat k \<le> unat n \<and>
    unat k \<le> length (bi_pending pending s) \<and> bi_ok ok s' \<and> bi_read pending (unat k) s s'"
proof -
  obtain b i where b: "biBuffer s = Some b" "biStream s = Some i" "ok i" "unat (biPosition s) \<le> unat (biCount s)"
    using s by (rule bi_okE)
  define len where "len = biCount s - biPosition s"
  have len: "unat len = unat (biCount s) - unat (biPosition s)" using bi_available(1)[OF s] by (simp add: len_def)
  have lp: "unat len \<le> length (bi_pending pending s)" using bi_available(3)[OF s, of pending] len by simp
  have "\<exists>k s'. BufferedInputStream_skip rd sk n s = Some (Inr k, s') \<and> unat k \<le> unat n \<and>
      unat k \<le> length (bi_pending pending s) \<and> bi_ok ok s' \<and> bi_read pending (unat k) s s'" if few: "unat len < unat n"
  proof -
    have a: "unat (biPosition s) + unat len \<le> unat (biCount s)" using len b(4) by simp
    let ?s = "s\<lparr>biPosition := biCount s\<rparr>"
    have s1: "bi_ok ok ?s" "bi_read pending (unat len) s ?s"
      using bi_advance(1)[OF s a] bi_advance(2)[OF s a, of pending] by (simp_all add: len_def)
    have p1: "bi_pending pending ?s = drop (unat len) (bi_pending pending s)" using s1(2) by (simp add: bi_read_def)
    have r: "unat (n - len) = unat n - unat len" using few by (simp add: unat_sub word_le_nat_alt)
    have n: "\<not> n < 1" "\<not> n \<le> len" using few by (auto simp: word_less_nat_alt word_le_nat_alt)
    note unfold = BufferedInputStream_skip_def
    consider (skip) "biMarkPosition s = - 1" | (over) "biMarkPosition s \<noteq> - 1" "pending i = []"
      | (fill) "biMarkPosition s \<noteq> - 1" "pending i \<noteq> []" by blast
    then show ?thesis
    proof cases
      case skip
      obtain k i' where k: "sk (n - len) i = Some (Inr k, i')" "unat k \<le> unat (n - len)" "unat k \<le> length (pending i)" "ok i'"
        "pending i' = drop (unat k) (pending i)"
        using sk_skips[OF b(3), of "n - len"] by blast
      have u: "unat (len + k) = unat len + unat k" using k(2) r few by (intro size_add_small) (use unsigned_less[of n, where ?'a = nat] in simp)
      let ?s' = "?s\<lparr>biStream := Some i'\<rparr>"
      have "bi_ok ok ?s'" using s1(1) k(4) b by (simp add: bi_ok_def)
      moreover have "bi_pending pending ?s = pending i" "bi_pending pending ?s' = pending i'"
        using s b(1,2) by (auto simp: bi_pending_def bi_from_def)
      then have "bi_read pending (unat k) ?s ?s'" using skip k(5) by (simp add: bi_read_def)
      then have "bi_read pending (unat (len + k)) s ?s'" unfolding u by (rule bi_read_trans[OF s1(2)])
      moreover have "BufferedInputStream_skip rd sk n s = Some (Inr (len + k), ?s')"
        using skip k(1) n b by (simp add: unfold Let_def flip: len_def)
      moreover have "unat (len + k) \<le> unat n" using u k(2) r few by simp
      moreover have "unat (len + k) \<le> length (bi_pending pending s)"
        using u k(3) p1 \<open>bi_pending pending ?s = pending i\<close> lp by (metis add_le_cancel_left le_add_diff_inverse length_drop)
      ultimately show ?thesis by blast
    next
      case over
      obtain s' where "fillBuffer rd i b ?s = (Inr (- 1), s')" "bi_ok ok s'" "bi_read pending 0 ?s s'"
        using fillBuffer_end[OF s1(1), of b i] b over(2) by auto
      then show ?thesis
        using over(1) m n b few lp bi_read_trans[OF s1(2), of 0 s']
        by (intro exI[of _ len] exI[of _ s']) (simp add: unfold Let_def flip: len_def)
    next
      case fill
      obtain j s2 where s2: "fillBuffer rd i b ?s = (Inr (int j), s2)" "bi_ok ok s2" "bi_filled pending ?s s2"
        "unat (biPosition s2) < unat (biCount s2)"
        using fillBuffer_bytes[OF s1(1), of b i] b fill(2) by auto
      define k where "k = (if biCount s2 - biPosition s2 \<ge> n - len then n - len else biCount s2 - biPosition s2)"
      have k: "0 < unat k" "unat k \<le> unat n - unat len" "unat (biPosition s2) + unat k \<le> unat (biCount s2)"
        using s2(4) few r bi_available(1)[OF s2(2)] by (auto simp: k_def word_le_nat_alt)
      have u: "unat (len + k) = unat len + unat k" using k(2) few by (intro size_add_small) (use unsigned_less[of n, where ?'a = nat] in simp)
      let ?s' = "s2\<lparr>biPosition := biPosition s2 + k\<rparr>"
      note adv = bi_advance(1)[OF s2(2) k(3)] bi_advance(2)[OF s2(2) k(3), of pending]
      have "bi_read pending (unat (len + k)) s ?s'"
        unfolding u by (rule bi_read_trans[OF s1(2) bi_filled_read[OF s2(3) adv(2) k(1)]])
      moreover have "BufferedInputStream_skip rd sk n s = Some (Inr (len + k), ?s')"
        using fill m n b s2(1) by (auto simp: unfold Let_def k_def simp flip: len_def)
      moreover have "unat k \<le> length (bi_pending pending s2)" using bi_available(3)[OF s2(2), of pending] k(3) by simp
      then have "unat (len + k) \<le> length (bi_pending pending s)"
        using u s2(3) p1 lp by (simp add: bi_filled_def)
      ultimately show ?thesis using adv(1) u k(2) few by (intro exI[of _ "len + k"] exI[of _ ?s']) simp
    qed
  qed
  moreover have ?thesis if "\<not> unat len < unat n"
  proof (cases "n < 1")
    case True
    then show ?thesis
      using b s bi_read_refl by (intro exI[of _ 0] exI[of _ s]) (simp add: BufferedInputStream_skip_def)
  next
    case False
    have a: "unat (biPosition s) + unat n \<le> unat (biCount s)" using that len b(4) False by (auto simp: word_less_nat_alt)
    have "n \<le> len" using that by (simp add: word_le_nat_alt)
    then show ?thesis
      using False b that lp bi_advance(1)[OF s a] bi_advance(2)[OF s a, of pending]
      by (intro exI[of _ n] exI[of _ "s\<lparr>biPosition := biPosition s + n\<rparr>"]) (simp add: BufferedInputStream_skip_def flip: len_def)
  qed
  ultimately show ?thesis by blast
qed

text \<open>A sequence of reads of every kind.\<close>

lemma call_reads:
  assumes s: "bi_ok ok s" and m: "biMarkPosition s = - 1 \<or> call_bytes c \<le> unat (biMarkLimit s)" and n: "call_bytes c < 2 ^ 31"
  shows "\<exists>k r s'. bi_call rd av sk c s = Some (Inr r, s') \<and> k \<le> call_bytes c \<and> bi_ok ok s' \<and> bi_read pending k s s'"
proof (cases c)
  case Read_call
  show ?thesis
  proof (cases "bi_pending pending s")
    case Nil
    then show ?thesis using read_end[OF s] Read_call by (auto simp: result_map_def)
  next
    case (Cons x xs)
    obtain s' where "BufferedInputStream_read rd s = (Inr (ucast x), s')" "bi_ok ok s'" "bi_read pending 1 s s'"
      using read_byte[OF s Cons] by blast
    then show ?thesis using Read_call by (intro exI[of _ "1 :: nat"]) (simp add: result_map_def)
  qed
next
  case (Bytes_call n)
  have l: "length (ByteArray_new n) = unat n" by (simp add: ByteArray_new_def)
  consider (none) "n = 0" | (over) "0 < n" "bi_pending pending s = []" | (some) "0 < n" "bi_pending pending s \<noteq> []"
    using word_gt_0 by blast
  then show ?thesis
  proof cases
    case none
    obtain b where "biBuffer s = Some b" using s by (rule bi_okE)
    then show ?thesis
      using none s Bytes_call bi_read_refl[of pending s] by (simp add: BufferedInputStream_read_bytes_def ByteArray_size_def)
  next
    case over
    then show ?thesis
      using read_bytes_end[OF s over(2,1), of 0 "ByteArray_new n"] assms(3) l Bytes_call by auto
  next
    case some
    obtain k s' where "k \<le> unat n" "bi_ok ok s'" "bi_read pending k s s'"
      "BufferedInputStream_read_bytes rd av (Some (ByteArray_new n)) 0 n s =
        Some (Inr (int k), Some (write_at (unat 0) (take k (bi_pending pending s)) (ByteArray_new n)), s')"
      using read_bytes_reads[OF s some(2,1), of 0 "ByteArray_new n"] assms(3) l Bytes_call by auto
    then show ?thesis using Bytes_call by (intro exI[of _ k]) simp
  qed
next
  case (Skip_call n)
  then show ?thesis
    using skip_skips[OF s, of n] m by (auto simp: word_le_nat_alt)
qed

lemma calls_replay:
  assumes "bi_ok ok s" and "biMarkPosition s \<noteq> - 1" and "bi_since_mark s + sum_list (map call_bytes cs) \<le> unat (biMarkLimit s)"
  shows "\<exists>rs s'. bi_calls rd av sk cs s = Some (Inr rs, s') \<and> bi_ok ok s' \<and> biMarkPosition s' \<noteq> - 1 \<and>
    bi_replay pending s' = bi_replay pending s"
  using assms
proof (induction cs arbitrary: s)
  case (Cons c cs)
  have "unat (biMarkLimit s) < 2 ^ 31" using Cons.prems(1) by (rule bi_okE)
  then obtain k r s1 where k: "bi_call rd av sk c s = Some (Inr r, s1)" "k \<le> call_bytes c" "bi_ok ok s1" "bi_read pending k s s1"
    using call_reads[OF Cons.prems(1), of c] Cons.prems(3) by auto
  have "bi_since_mark s + k \<le> unat (biMarkLimit s)" using k(2) Cons.prems(3) by simp
  then have s1: "biMarkPosition s1 \<noteq> - 1" "bi_since_mark s1 = bi_since_mark s + k" "bi_replay pending s1 = bi_replay pending s"
    "biMarkLimit s1 = biMarkLimit s"
    using k(4) Cons.prems(2) by (auto simp: bi_read_def)
  then show ?case using Cons.IH[OF k(3) s1(1)] k(1,2) Cons.prems(3) by (auto simp: result_map_def)
qed simp

end

text \<open>Without a mark the buffered stream keeps the contract of an input stream.\<close>

sublocale buffered_source \<subseteq> buffered: input_stream "bi_unmarked ok" "bi_pending pending" "BufferedInputStream_read rd" "bi_read_op rd av"
proof (unfold_locales, goal_cases)
  case (1 s)
  then show ?case using read_end[of s] by (auto simp: bi_unmarked_def bi_read_def)
next
  case (2 s b bs)
  then show ?case using read_byte[of s b bs] by (auto simp: bi_unmarked_def bi_read_def)
next
  case (3 s n offset buffer)
  then show ?case using read_bytes_end[of s n offset buffer] by (auto simp: bi_unmarked_def bi_read_def bi_read_op_def)
next
  case (4 s n offset buffer)
  then obtain k s' where "0 < k" "k \<le> unat n" "k \<le> length (bi_pending pending s)"
    "BufferedInputStream_read_bytes rd av (Some buffer) offset n s =
      Some (Inr (int k), Some (write_at (unat offset) (take k (bi_pending pending s)) buffer), s')"
    "bi_ok ok s'" "bi_read pending k s s'"
    using read_bytes_reads[of s n offset buffer] by (auto simp: bi_unmarked_def)
  then show ?case using 4(1) by (intro exI[of _ k] exI[of _ s']) (simp add: bi_unmarked_def bi_read_def bi_read_op_def)
qed

section \<open>Over a byte array\<close>

definition bais_available :: "byte_array_input \<Rightarrow> size_t result" where
  "bais_available s = Inr (ByteArrayInputStream_available s)"

definition bais_skip :: "size_t \<Rightarrow> byte_array_input \<Rightarrow> (size_t result \<times> byte_array_input) option" where
  "bais_skip n s = (let (k, s') = ByteArrayInputStream_skip n s in Some (Inr k, s'))"

interpretation byte_array_source: buffered_source bais_ok bais_pending ByteArrayInputStream_read ByteArrayInputStream_read_bytes
  bais_available bais_skip
proof (unfold_locales, goal_cases)
  case (1 s)
  then show ?case by (simp add: bais_available_def)
next
  case (2 s n)
  define k where "k = (if inCount s - inPosition s < n then inCount s - inPosition s else n)"
  have d: "unat (inCount s - inPosition s) = unat (inCount s) - unat (inPosition s)"
    using 2 by (simp add: bais_ok_def unat_sub word_le_nat_alt)
  then have k: "unat (inPosition s) + unat k \<le> unat (inCount s)" "unat k \<le> unat n"
    using 2 by (auto simp: k_def bais_ok_def word_less_nat_alt)
  have "bais_skip n s = Some (Inr k, s\<lparr>inPosition := inPosition s + k\<rparr>)"
    by (auto simp: bais_skip_def ByteArrayInputStream_skip_def k_def Let_def)
  then show ?case using bais_advance[OF 2 k(1)] k 2 by simp
qed

section \<open>Properties\<close>

text \<open>
  (C29) Round trip through a buffer. Any sequence of values whose strings are not empty and shorter than \<open>2 ^ 16\<close> bytes,
  written with \<open>DataOutputStream\<close> and read back from the byte array with a \<open>DataInputStream\<close> over a \<open>BufferedInputStream\<close> of
  any positive size, comes back unchanged, except that every NaN comes back as one NaN; all loops end, and then the buffered
  stream is exhausted.
\<close>

theorem BufferedInputStream_is_transparent:
  assumes "\<forall>x \<in> set xs. representable x" and "length (items_bytes xs) < 2 ^ 62" and "0 < n" and "unat n < 2 ^ 31"
  shows "\<exists>s bs i b s'. write_items ByteArrayOutputStream_write ByteArrayOutputStream_write_bytes xs
      (DataOutputStream_new ByteArrayOutputStream_new) = (Inr (), s) \<and>
    ByteArrayOutputStream_toByteArray (doStream s) = Inr bs \<and> ByteArrayInputStream_new (Some bs) = Inr i \<and>
    BufferedInputStream_new (Some i) n = Inr b \<and>
    read_items (BufferedInputStream_read ByteArrayInputStream_read_bytes)
      (bi_read_op ByteArrayInputStream_read_bytes bais_available) (map kind_of xs) (DataInputStream_new b) =
      Some (Inr (map one_NaN xs), s') \<and>
    fst (BufferedInputStream_read ByteArrayInputStream_read_bytes (diStream s')) = Inr (- 1)"
proof -
  obtain s where s: "write_items ByteArrayOutputStream_write ByteArrayOutputStream_write_bytes xs
      (DataOutputStream_new ByteArrayOutputStream_new) = (Inr (), s)" "baos_ok (doStream s)" "baos_sent (doStream s) = items_bytes xs"
    using byte_array_output.write_items_sends[of "DataOutputStream_new ByteArrayOutputStream_new" xs] assms(2) baos_new
    by (auto simp: data_sends_def DataOutputStream_new_def ByteArray_new_def)
  obtain i where i: "ByteArrayInputStream_new (Some (items_bytes xs)) = Inr i" "bais_ok i" "bais_pending i = items_bytes xs"
    using bais_new[of "items_bytes xs"] assms(2) by auto
  obtain b where b: "BufferedInputStream_new (Some i) n = Inr b" "bi_unmarked bais_ok b" "bi_pending bais_pending b = items_bytes xs"
    using bi_new[of bais_ok i n bais_pending] i(2,3) assms(3,4) by auto
  obtain s' where s': "read_items (BufferedInputStream_read ByteArrayInputStream_read_bytes)
        (bi_read_op ByteArrayInputStream_read_bytes bais_available) (map kind_of xs) (DataInputStream_new b) =
        Some (Inr (map one_NaN xs), s')" "bi_unmarked bais_ok (diStream s')" "bi_pending bais_pending (diStream s') = []"
    using byte_array_source.buffered.read_items_reads[of "DataInputStream_new b" xs "[]"] assms(1) b
    by (auto simp: data_reads_def DataInputStream_new_def ByteArray_new_def)
  show ?thesis
    using s i(1) b(1) s'(1) toByteArray_sent[OF s(2)] byte_array_source.buffered.rd1_end[OF s'(2,3)] by fastforce
qed

theorem BufferedInputStream_is_transparent_witness:
  "\<exists>s bs i b s'. write_items ByteArrayOutputStream_write ByteArrayOutputStream_write_bytes [Long_item (- 2), UTF_item [79, 75]]
      (DataOutputStream_new ByteArrayOutputStream_new) = (Inr (), s) \<and>
    ByteArrayOutputStream_toByteArray (doStream s) = Inr bs \<and> ByteArrayInputStream_new (Some bs) = Inr i \<and>
    BufferedInputStream_new (Some i) 3 = Inr b \<and>
    read_items (BufferedInputStream_read ByteArrayInputStream_read_bytes)
      (bi_read_op ByteArrayInputStream_read_bytes bais_available) [Long_kind, UTF_kind] (DataInputStream_new b) =
      Some (Inr [Long_item (- 2), UTF_item [79, 75]], s')"
proof -
  have "\<forall>x \<in> set [Long_item (- 2), UTF_item [79, 75]]. representable x"
    "length (items_bytes [Long_item (- 2), UTF_item [79, 75]]) < 2 ^ 62" "0 < (3 :: size_t)" "unat (3 :: size_t) < 2 ^ 31"
    by (simp_all add: items_bytes_def)
  from BufferedInputStream_is_transparent[OF this] show ?thesis by auto
qed


definition five_bytes :: "byte_array_input buffered_input" where
  "five_bytes = \<lparr>biStream = Some \<lparr>inBuffer = [1, 2, 3, 4, 5], inPosition = 2, inMark = 0, inCount = 5\<rparr>, biBuffer = Some [1, 2],
     biCount = 2, biMarkLimit = 3, biMarkPosition = 0, biPosition = 1\<rparr>"

lemma five_bytes:
  "bi_ok bais_ok five_bytes" "bi_pending bais_pending five_bytes = [2, 3, 4, 5]"
  by (simp_all add: five_bytes_def bi_ok_def bais_ok_def bi_pending_def bi_from_def bais_pending_def read_at_def)




section \<open>Where a mark fails\<close>

text \<open>
  A mark in the first half of the array, but not at its start: when the buffer is filled again, the array is copied to itself with
  \<open>memcpy\<close> although the two ranges overlap.
\<close>

lemma fill_with_early_mark_undefined:
  assumes "bi_ok ok (s\<lparr>biMarkPosition := - 1\<rparr>)" and "biBuffer s = Some b"
    and m: "0 < unat (biMarkPosition s)" "2 * unat (biMarkPosition s) < length b"
    and "biPosition s - biMarkPosition s < biMarkLimit s"
  shows "fst (fillBuffer rd i b s) = Inl Undefined"
proof -
  have f: "length b < 2 ^ 31" using assms(1,2) by (auto simp: bi_ok_def split: option.splits)
  have sz: "unat (ByteArray_size b) = length b" using f by (intro of_nat_size) simp
  have d: "unat (ByteArray_size b - biMarkPosition s) = length b - unat (biMarkPosition s)"
    using m(2) sz by (subst unat_sub) (simp_all add: word_le_nat_alt)
  have "0 < int (unat (biMarkPosition s))" using m(1) by (simp only: of_nat_0_less_iff)
  moreover have "sint (biMarkPosition s) = int (unat (biMarkPosition s))" using m(2) f by (intro sint_small) simp
  ultimately have "0 <s biMarkPosition s" by (simp only: word_sless_alt sint_0)
  moreover have "biMarkPosition s \<noteq> - 1" "biMarkPosition s \<noteq> 0"
    using m f by (auto simp: unsigned_minus_1_eq_mask mask_eq_exp_minus_1)
  moreover have "arraycopy_within (biMarkPosition s) 0 (ByteArray_size b - biMarkPosition s) b = Inl Undefined"
    using m(1,2) d sz by (auto simp: arraycopy_within_def word_less_nat_alt)
  moreover have "\<not> biMarkLimit s \<le> biPosition s - biMarkPosition s" using assms(5) by (simp add: not_le)
  ultimately show ?thesis by (simp add: fillBuffer_def keep_marked_def)
qed

text \<open>
  \<open>skip\<close> beyond the limit of a mark skips in the wrapped stream and keeps the mark, so that \<open>reset\<close> does not say that the mark has
  been invalidated: the reads after it see the bytes of the buffer and then, without those between, what followed the skipped bytes.
\<close>

lemma skip_beyond_limit_keeps_mark:
  "\<exists>s1 s2 s3. bi_calls ByteArrayInputStream_read_bytes bais_available bais_skip [Read_call, Skip_call 6]
      (BufferedInputStream_mark 2
        \<lparr>biStream = Some \<lparr>inBuffer = [1, 2, 3, 4, 5, 6, 7, 8], inPosition = 0, inMark = 0, inCount = 8\<rparr>,
         biBuffer = Some [0, 0, 0, 0], biCount = 0, biMarkLimit = 0, biMarkPosition = - 1, biPosition = 0\<rparr>) =
      Some (Inr [1, 6], s1) \<and>
    BufferedInputStream_reset s1 = (Inr (), s2) \<and>
    bi_calls ByteArrayInputStream_read_bytes bais_available bais_skip 
      [Read_call, Read_call, Read_call, Read_call, Read_call, Read_call] s2 = Some (Inr [1, 2, 3, 4, 8, - 1], s3)"
  apply (simp add: BufferedInputStream_mark_def BufferedInputStream_reset_def BufferedInputStream_skip_def BufferedInputStream_read_def
      fillBuffer_def keep_marked_def result_map_def Let_def ByteArray_size_def ByteArrayInputStream_read_bytes_def arraycopy_def
      raw_read_def raw_write_def read_at_def write_at_def ByteArray_get_def bais_skip_def ByteArrayInputStream_skip_def)
  apply (simp add: word_le_nat_alt)
  done

end
