(* ===== verification/String_Builders.thy ===== *)
theory String_Builders
  imports Strings
begin

text \<open>
  \<open>StringBuilder\<close> (\<open>src/mindroid/lang/StringBuilder.cpp\<close>) and \<open>StringArray\<close> (\<open>StringArray.cpp\<close>). A builder is the characters of its \<open>std::string\<close>
  \<open>mString\<close>; the operations of \<open>std::string\<close> are written out, with the exception \<open>out_of_range\<close> for a position behind the end. Positions and sizes are \<open>size_t\<close>,
  so that the differences the code computes wrap; the limits of memory are left out. Formatting of floating-point numbers and
  the capacity are not modelled.
\<close>

section \<open>Operations of the standard string\<close>

definition std_erase :: "size_t \<Rightarrow> size_t \<Rightarrow> bytes \<Rightarrow> bytes result" where
  "std_erase pos n s =
     (if length s < unat pos then Inl out_of_range else Inr (take (unat pos) s @ drop (unat n) (drop (unat pos) s)))"

definition std_insert :: "size_t \<Rightarrow> bytes \<Rightarrow> bytes \<Rightarrow> bytes result" where
  "std_insert pos x s = (if length s < unat pos then Inl out_of_range else Inr (take (unat pos) s @ x @ drop (unat pos) s))"

definition std_replace :: "size_t \<Rightarrow> size_t \<Rightarrow> bytes \<Rightarrow> bytes \<Rightarrow> bytes result" where
  "std_replace pos n x s =
     (if length s < unat pos then Inl out_of_range else Inr (take (unat pos) s @ x @ drop (unat n) (drop (unat pos) s)))"

definition std_substr :: "size_t \<Rightarrow> size_t \<Rightarrow> bytes \<Rightarrow> bytes result" where
  "std_substr pos n s = (if length s < unat pos then Inl out_of_range else Inr (take (unat n) (drop (unat pos) s)))"

definition std_resize :: "size_t \<Rightarrow> bytes \<Rightarrow> bytes" where
  "std_resize n s = take (unat n) s @ replicate (unat n - length s) 0"

text \<open>\<open>npos\<close> is \<open>- 1\<close> as a \<open>size_t\<close> and as the \<open>ssize_t\<close> that the code makes of it.\<close>

definition std_find_first_of :: "bytes \<Rightarrow> size_t \<Rightarrow> bytes \<Rightarrow> int" where
  "std_find_first_of chars pos s =
     (case find_index (\<lambda>c. c \<in> set chars) (drop (unat pos) s) of Some i \<Rightarrow> int (unat pos + i) | None \<Rightarrow> - 1)"

definition std_find_last_of :: "bytes \<Rightarrow> size_t \<Rightarrow> bytes \<Rightarrow> int" where
  "std_find_last_of chars pos s = index_or_minus_one (find_last_index (\<lambda>c. c \<in> set chars) (take (Suc (unat pos)) s))"

text \<open>\<open>string->c_str()\<close> as an argument of \<open>std::string\<close>; null is not allowed there.\<close>

definition c_str_chars :: "str option \<Rightarrow> bytes result" where
  "c_str_chars string = bind_result (deref string) (\<lambda>s. bind_result (deref (String_c_str s)) (\<lambda>bs. Inr (c_string bs)))"

section \<open>The builder\<close>

definition StringBuilder_of_cstr :: "cstr \<Rightarrow> bytes result" where
  "StringBuilder_of_cstr string = bind_result (deref string) (\<lambda>bs. Inr (c_string bs))"

definition StringBuilder_new :: "str option \<Rightarrow> bytes result" where
  "StringBuilder_new string = c_str_chars string"

definition StringBuilder_append_cstr :: "cstr \<Rightarrow> bytes \<Rightarrow> bytes result" where
  "StringBuilder_append_cstr string sb = bind_result (deref string) (\<lambda>bs. Inr (sb @ c_string bs))"

definition StringBuilder_append_bool :: "bool \<Rightarrow> bytes \<Rightarrow> bytes result" where
  "StringBuilder_append_bool b =
     StringBuilder_append_cstr (Some (if b then [116, 114, 117, 101] else [102, 97, 108, 115, 101]))"

definition StringBuilder_append_char :: "uint8 \<Rightarrow> bytes \<Rightarrow> bytes" where
  "StringBuilder_append_char c sb = sb @ [c]"

definition StringBuilder_append_bytes :: "bytes option \<Rightarrow> bytes \<Rightarrow> bytes result" where
  "StringBuilder_append_bytes charSequence sb = bind_result (deref charSequence) (\<lambda>bs. Inr (sb @ bs))"

definition StringBuilder_append_chars :: "cstr \<Rightarrow> size_t \<Rightarrow> bytes \<Rightarrow> bytes result" where
  "StringBuilder_append_chars string n sb =
     bind_result (deref string) (\<lambda>bs. bind_result (raw_read 0 (unat n) (bs @ [0])) (\<lambda>x. Inr (sb @ x)))"

definition StringBuilder_append_part :: "bytes option \<Rightarrow> size_t \<Rightarrow> size_t \<Rightarrow> bytes \<Rightarrow> bytes result" where
  "StringBuilder_append_part charSequence offset n sb =
     bind_result (deref charSequence) (\<lambda>bs.
       let n = min (ByteArray_size bs - offset) n
       in bind_result (raw_read (unat offset) (unat n) bs) (\<lambda>x. Inr (sb @ x)))"

definition StringBuilder_append_int8 :: "8 word \<Rightarrow> bytes \<Rightarrow> bytes" where
  "StringBuilder_append_int8 value sb = sb @ decimal_int (sint (scast value :: int32))"

definition StringBuilder_append_uint8 :: "uint8 \<Rightarrow> bytes \<Rightarrow> bytes" where
  "StringBuilder_append_uint8 value sb = sb @ decimal (unat (ucast value :: uint32))"

definition StringBuilder_append_int16 :: "int16 \<Rightarrow> bytes \<Rightarrow> bytes" where
  "StringBuilder_append_int16 value sb = sb @ decimal_int (sint (scast value :: int32))"

definition StringBuilder_append_uint16 :: "16 word \<Rightarrow> bytes \<Rightarrow> bytes" where
  "StringBuilder_append_uint16 value sb = sb @ decimal (unat (ucast value :: uint32))"

definition StringBuilder_append_int32 :: "int32 \<Rightarrow> bytes \<Rightarrow> bytes" where
  "StringBuilder_append_int32 value sb = sb @ decimal_int (sint value)"

definition StringBuilder_append_uint32 :: "uint32 \<Rightarrow> bytes \<Rightarrow> bytes" where
  "StringBuilder_append_uint32 value sb = sb @ decimal (unat value)"

definition StringBuilder_append_int64 :: "int64 \<Rightarrow> bytes \<Rightarrow> bytes" where
  "StringBuilder_append_int64 value sb = sb @ decimal_int (sint value)"

definition StringBuilder_append_uint64 :: "uint64 \<Rightarrow> bytes \<Rightarrow> bytes" where
  "StringBuilder_append_uint64 value sb = sb @ decimal (unat value)"

definition StringBuilder_append :: "str option \<Rightarrow> bytes \<Rightarrow> bytes result" where
  "StringBuilder_append string sb = bind_result (c_str_chars string) (\<lambda>x. Inr (sb @ x))"

definition StringBuilder_appendCodePoint :: "int32 \<Rightarrow> bytes \<Rightarrow> bytes result" where
  "StringBuilder_appendCodePoint codePoint sb =
     (if 256 \<le> sint codePoint then Inl RuntimeException else Inr (sb @ [ucast codePoint]))"

definition StringBuilder_charAt :: "size_t \<Rightarrow> bytes \<Rightarrow> uint8 result" where
  "StringBuilder_charAt index sb = (if length sb \<le> unat index then Inl IndexOutOfBoundsException else Inr (sb ! unat index))"

definition StringBuilder_deleteRange :: "size_t \<Rightarrow> size_t \<Rightarrow> bytes \<Rightarrow> bytes result" where
  "StringBuilder_deleteRange start endIndex sb = std_erase start (endIndex - start) sb"

definition StringBuilder_deleteCharAt :: "size_t \<Rightarrow> bytes \<Rightarrow> bytes result" where
  "StringBuilder_deleteCharAt index sb = std_erase index 1 sb"

text \<open>\<open>dst\<close> after the copy; a pointer outside of an array is undefined.\<close>

definition StringBuilder_getChars :: "size_t \<Rightarrow> size_t \<Rightarrow> bytes \<Rightarrow> size_t \<Rightarrow> bytes \<Rightarrow> bytes result" where
  "StringBuilder_getChars srcBegin srcEnd dst dstBegin sb =
     (let srcSize = min (srcEnd - srcBegin) (of_nat (length sb) - srcBegin);
          dstSize = min srcSize (ByteArray_size dst - dstBegin)
      in bind_result (raw_read (unat srcBegin) (unat dstSize) sb) (\<lambda>x. raw_write (unat dstBegin) x dst))"

definition StringBuilder_indexOf :: "str option \<Rightarrow> bytes \<Rightarrow> int result" where
  "StringBuilder_indexOf string sb = bind_result (c_str_chars string) (\<lambda>x. Inr (std_find_first_of x 0 sb))"

definition StringBuilder_indexOf_from :: "str option \<Rightarrow> size_t \<Rightarrow> bytes \<Rightarrow> int result" where
  "StringBuilder_indexOf_from string fromIndex sb = bind_result (c_str_chars string) (\<lambda>x. Inr (std_find_first_of x fromIndex sb))"

definition StringBuilder_insert_bool :: "size_t \<Rightarrow> bool \<Rightarrow> bytes \<Rightarrow> bytes result" where
  "StringBuilder_insert_bool offset b sb = std_insert offset (if b then [116, 114, 117, 101] else [102, 97, 108, 115, 101]) sb"

definition StringBuilder_insert_char :: "size_t \<Rightarrow> uint8 \<Rightarrow> bytes \<Rightarrow> bytes result" where
  "StringBuilder_insert_char offset c sb = std_insert offset [c] sb"

definition StringBuilder_insert_bytes :: "size_t \<Rightarrow> bytes option \<Rightarrow> bytes \<Rightarrow> bytes result" where
  "StringBuilder_insert_bytes offset charSequence sb = bind_result (deref charSequence) (\<lambda>bs. std_insert offset bs sb)"

definition StringBuilder_insert_part :: "size_t \<Rightarrow> bytes option \<Rightarrow> size_t \<Rightarrow> size_t \<Rightarrow> bytes \<Rightarrow> bytes result" where
  "StringBuilder_insert_part index charSequence offset n sb =
     bind_result (deref charSequence) (\<lambda>bs.
       bind_result (raw_read (unat offset) (unat (min n (ByteArray_size bs - offset))) bs) (\<lambda>x. std_insert offset x sb))"

definition StringBuilder_insert_int32 :: "size_t \<Rightarrow> int32 \<Rightarrow> bytes \<Rightarrow> bytes result" where
  "StringBuilder_insert_int32 offset value sb = std_insert offset (decimal_int (sint value)) sb"

definition StringBuilder_insert_uint32 :: "size_t \<Rightarrow> uint32 \<Rightarrow> bytes \<Rightarrow> bytes result" where
  "StringBuilder_insert_uint32 offset value sb = std_insert offset (decimal (unat value)) sb"

definition StringBuilder_insert_int64 :: "size_t \<Rightarrow> int64 \<Rightarrow> bytes \<Rightarrow> bytes result" where
  "StringBuilder_insert_int64 offset value sb = std_insert offset (decimal_int (sint value)) sb"

definition StringBuilder_insert_uint64 :: "size_t \<Rightarrow> uint64 \<Rightarrow> bytes \<Rightarrow> bytes result" where
  "StringBuilder_insert_uint64 offset value sb = std_insert offset (decimal (unat value)) sb"

definition StringBuilder_insert :: "size_t \<Rightarrow> str option \<Rightarrow> bytes \<Rightarrow> bytes result" where
  "StringBuilder_insert offset string sb = bind_result (c_str_chars string) (\<lambda>x. std_insert offset x sb)"

definition StringBuilder_lastIndexOf :: "str option \<Rightarrow> bytes \<Rightarrow> int result" where
  "StringBuilder_lastIndexOf string sb = bind_result (c_str_chars string) (\<lambda>x. Inr (std_find_last_of x (- 1) sb))"

definition StringBuilder_lastIndexOf_from :: "str option \<Rightarrow> size_t \<Rightarrow> bytes \<Rightarrow> int result" where
  "StringBuilder_lastIndexOf_from string fromIndex sb = bind_result (c_str_chars string) (\<lambda>x. Inr (std_find_last_of x fromIndex sb))"

definition StringBuilder_length :: "bytes \<Rightarrow> size_t" where
  "StringBuilder_length sb = of_nat (length sb)"

definition StringBuilder_replace :: "size_t \<Rightarrow> size_t \<Rightarrow> str option \<Rightarrow> bytes \<Rightarrow> bytes result" where
  "StringBuilder_replace start endIndex string sb = bind_result (c_str_chars string) (\<lambda>x. std_replace start (endIndex - start) x sb)"

definition StringBuilder_reverse :: "bytes \<Rightarrow> bytes" where
  "StringBuilder_reverse sb = rev sb"

definition StringBuilder_setCharAt :: "size_t \<Rightarrow> uint8 \<Rightarrow> bytes \<Rightarrow> bytes result" where
  "StringBuilder_setCharAt index c sb = (if index \<ge> StringBuilder_length sb then Inl IndexOutOfBoundsException else Inr (sb[unat index := c]))"

definition StringBuilder_setLength :: "size_t \<Rightarrow> bytes \<Rightarrow> bytes" where
  "StringBuilder_setLength newLength sb = std_resize newLength sb"

definition StringBuilder_substring :: "size_t \<Rightarrow> bytes \<Rightarrow> str result" where
  "StringBuilder_substring start sb = bind_result (std_substr start (- 1) sb) (\<lambda>x. Inr (String_of_cstr (Some x)))"

definition StringBuilder_substring2 :: "size_t \<Rightarrow> size_t \<Rightarrow> bytes \<Rightarrow> str result" where
  "StringBuilder_substring2 start endIndex sb =
     (if endIndex < start then Inl IndexOutOfBoundsException
      else bind_result (std_substr start (endIndex - start) sb) (\<lambda>x. Inr (String_of_cstr (Some x))))"

definition StringBuilder_toString :: "bytes \<Rightarrow> str" where
  "StringBuilder_toString sb = String_of_cstr (Some sb)"

section \<open>String arrays\<close>

definition StringArray_new :: "nat \<Rightarrow> str option list" where
  "StringArray_new n = replicate n None"

definition StringArray_valueOf_cstrs :: "cstr list \<Rightarrow> str option list" where
  "StringArray_valueOf_cstrs xs = map (\<lambda>x. Some (String_of_cstr x)) xs"

definition StringArray_valueOf :: "str option list option \<Rightarrow> str option list option" where
  "StringArray_valueOf xs = xs"

definition StringArray_size :: "str option list \<Rightarrow> nat" where
  "StringArray_size sa = length sa"

definition StringArray_get :: "nat \<Rightarrow> str option list \<Rightarrow> str option result" where
  "StringArray_get position sa = (if length sa \<le> position then Inl IndexOutOfBoundsException else Inr (sa ! position))"

definition StringArray_set :: "nat \<Rightarrow> str option \<Rightarrow> str option list \<Rightarrow> str option list result" where
  "StringArray_set position string sa = (if length sa \<le> position then Inl IndexOutOfBoundsException else Inr (sa[position := string]))"


section \<open>Properties\<close>

lemma find_index_first:
  "find_index p xs = Some i \<longleftrightarrow> i < length xs \<and> p (xs ! i) \<and> (\<forall>j < i. \<not> p (xs ! j))"
proof (induction xs arbitrary: i)
  case (Cons x xs)
  show ?case by (cases i) (auto simp: Cons.IH All_less_Suc2)
qed simp

lemma find_index_none: "find_index p xs = None \<longleftrightarrow> (\<forall>x \<in> set xs. \<not> p x)"
  by (induction xs) auto

lemma find_last_index_last:
  "find_last_index p xs = Some i \<longleftrightarrow> i < length xs \<and> p (xs ! i) \<and> (\<forall>j < length xs. i < j \<longrightarrow> \<not> p (xs ! j))"
proof (induction xs arbitrary: i)
  case (Cons x xs)
  show ?case
  proof (cases "find_last_index p xs")
    case None
    then have "\<not> p y" if "y \<in> set xs" for y using that by (induction xs) (auto split: option.splits if_splits)
    then show ?thesis using None by (cases i) (auto simp: All_less_Suc2)
  next
    case (Some k)
    then have k: "k < length xs" "p (xs ! k)" "\<forall>j < length xs. k < j \<longrightarrow> \<not> p (xs ! j)" using Cons.IH[of k] by auto
    have "k = n \<longleftrightarrow> n < length xs \<and> p (xs ! n) \<and> (\<forall>j < length xs. n < j \<longrightarrow> \<not> p (xs ! j))" for n
      using k by (metis linorder_neqE_nat)
    then show ?thesis using Some k by (cases i) (auto simp: All_less_Suc2)
  qed
qed simp

lemma unat_size_t: "n < 2 ^ 64 \<Longrightarrow> unat (of_nat n :: size_t) = n"
  by (simp add: unsigned_of_nat take_bit_nat_eq_self)

lemma unat_minus_one_size_t: "unat (- 1 :: size_t) = 18446744073709551615"
  by (simp add: unsigned_minus_1_eq_mask mask_eq_exp_minus_1)

lemma of_nat_minus_size_t: "(of_nat (a + b) :: size_t) - of_nat a = of_nat b"
  by simp

text \<open>
  Edits undo each other: inserting characters and deleting their range gives the builder back, the range of an insertion reads as what was
  inserted, replacing a range is deleting it and inserting there, and reversing twice changes nothing.
\<close>

theorem StringBuilder_edits:
  assumes "i \<le> length sb" and "length sb + length x < 2 ^ 64" and "0 \<notin> set x" and "i + n \<le> length sb"
  shows "bind_result (StringBuilder_insert (of_nat i) (Some (Some x)) sb) (StringBuilder_deleteRange (of_nat i) (of_nat (i + length x))) = Inr sb \<and>
    bind_result (StringBuilder_insert (of_nat i) (Some (Some x)) sb) (StringBuilder_substring2 (of_nat i) (of_nat (i + length x))) = Inr (Some x) \<and>
    StringBuilder_replace (of_nat i) (of_nat (i + n)) (Some (Some x)) sb =
      bind_result (StringBuilder_deleteRange (of_nat i) (of_nat (i + n)) sb) (StringBuilder_insert (of_nat i) (Some (Some x))) \<and>
    StringBuilder_reverse (StringBuilder_reverse sb) = sb"
proof -
  have w: "unat (of_nat i :: size_t) = i" "unat (of_nat n :: size_t) = n" "unat (of_nat (length x) :: size_t) = length x"
    and le: "\<not> (of_nat (i + length x) :: size_t) < of_nat i"
    using assms by (simp_all add: unat_size_t word_less_nat_alt del: of_nat_add)
  show ?thesis using assms w le
    by (simp add: StringBuilder_insert_def StringBuilder_deleteRange_def StringBuilder_substring2_def StringBuilder_replace_def StringBuilder_reverse_def
        c_str_chars_def String_c_str_def String_of_cstr_def std_insert_def std_erase_def std_substr_def std_replace_def drop_append)
qed

theorem StringBuilder_edits_witness:
  "bind_result (StringBuilder_insert (of_nat 1) (Some (Some [98, 99])) [97, 100]) (StringBuilder_deleteRange (of_nat 1) (of_nat (1 + length [98 :: uint8, 99]))) =
   Inr [97, 100]"
  using StringBuilder_edits[of 1 "[97, 100]" "[98, 99]" 1] by simp

text \<open>
  \<open>indexOf\<close> and \<open>lastIndexOf\<close> do not search the string that they are given: they return the first and the last position of any of its characters,
  or - 1. With a single character this is the search of that string, with more it is not.
\<close>

theorem StringBuilder_indexOf_finds_characters:
  "(StringBuilder_indexOf (Some (Some x)) sb = Inr (int i) \<longleftrightarrow>
      i < length sb \<and> sb ! i \<in> set (c_string x) \<and> (\<forall>j < i. sb ! j \<notin> set (c_string x))) \<and>
   (length sb < 2 ^ 64 \<longrightarrow> (StringBuilder_lastIndexOf (Some (Some x)) sb = Inr (int i) \<longleftrightarrow>
      i < length sb \<and> sb ! i \<in> set (c_string x) \<and> (\<forall>j < length sb. i < j \<longrightarrow> sb ! j \<notin> set (c_string x)))) \<and>
   (StringBuilder_indexOf (Some (Some x)) sb = Inr (- 1) \<longleftrightarrow> set sb \<inter> set (c_string x) = {}) \<and>
   StringBuilder_indexOf (Some (Some [99, 98])) [97, 98, 99] = Inr 1 \<and> first_occurrence [99, 98] [97, 98, 99 :: uint8] = None"
proof -
  have "StringBuilder_indexOf (Some (Some x)) sb = Inr (int i) \<longleftrightarrow> find_index (\<lambda>c. c \<in> set (c_string x)) sb = Some i" for i
    by (auto simp: StringBuilder_indexOf_def c_str_chars_def String_c_str_def std_find_first_of_def split: option.splits)
  moreover have "StringBuilder_lastIndexOf (Some (Some x)) sb = Inr (int i) \<longleftrightarrow> find_last_index (\<lambda>c. c \<in> set (c_string x)) sb = Some i"
    if "length sb < 2 ^ 64"
    using that by (auto simp: StringBuilder_lastIndexOf_def c_str_chars_def String_c_str_def std_find_last_of_def index_or_minus_one_def
        unat_minus_one_size_t split: option.splits)
  moreover have "StringBuilder_indexOf (Some (Some x)) sb = Inr (- 1) \<longleftrightarrow> find_index (\<lambda>c. c \<in> set (c_string x)) sb = None"
    by (auto simp: StringBuilder_indexOf_def c_str_chars_def String_c_str_def std_find_first_of_def split: option.splits)
  moreover have "StringBuilder_indexOf (Some (Some [99, 98])) [97, 98, 99] = Inr 1" "first_occurrence [99, 98] [97, 98, 99 :: uint8] = None"
    by (simp_all add: StringBuilder_indexOf_def c_str_chars_def String_c_str_def std_find_first_of_def c_string_def)
  ultimately show ?thesis by (auto simp: find_index_first find_index_none find_last_index_last)
qed

theorem StringBuilder_indexOf_finds_characters_witness:
  "StringBuilder_lastIndexOf (Some (Some [97])) [97, 97] = Inr (int 1)"
proof -
  have "length [97, 97 :: uint8] < 2 ^ 64" by simp
  moreover have "1 < length [97, 97 :: uint8] \<and> [97, 97 :: uint8] ! 1 \<in> set (c_string [97]) \<and>
      (\<forall>j < length [97, 97 :: uint8]. 1 < j \<longrightarrow> [97, 97 :: uint8] ! j \<notin> set (c_string [97]))"
    by (auto simp: c_string_def)
  ultimately show ?thesis using StringBuilder_indexOf_finds_characters[of "[97]" "[97, 97]" 1] by blast
qed

text \<open>A range whose end is before its start is not refused: everything behind the start is deleted.\<close>

lemma StringBuilder_delete_reversed_range:
  assumes "endIndex < start" and "unat start \<le> length sb" and "length sb < 2 ^ 63"
  shows "StringBuilder_deleteRange start endIndex sb = Inr (take (unat start) sb)"
proof -
  have "unat (endIndex - start) = unat endIndex + 2 ^ 64 - unat start"
    using assms(1) by (simp add: unat_sub_if' word_less_nat_alt)
  then have "length sb - unat start \<le> unat (endIndex - start)" using assms(2,3) by simp
  then show ?thesis using assms by (simp add: StringBuilder_deleteRange_def std_erase_def)
qed

end
