(* ===== verification/Numbers.thy ===== *)
theory Numbers
  imports Strings
begin

text \<open>
  The boxed numbers of \<open>src/mindroid/lang\<close> (\<open>Integer.cpp\<close>, \<open>Long.cpp\<close>, \<open>Short.cpp\<close>, \<open>Byte.cpp\<close>, \<open>Boolean.cpp\<close>, \<open>Float.cpp\<close>): how they are read from strings with \<open>strtol\<close> of the
  C library (a 64-bit \<open>long\<close>, the C locale). A box is its value. A radix that \<open>strtol\<close> does not know is \<open>Undefined\<close>. Floating-point
  numbers are a type parameter with the conversion of an integer.
\<close>

section \<open>The C library\<close>

definition digit_value :: "uint8 \<Rightarrow> nat option" where
  "digit_value c =
     (if 48 \<le> c \<and> c \<le> 57 then Some (unat c - 48)
      else if 97 \<le> c \<and> c \<le> 122 then Some (unat c - 87)
      else if 65 \<le> c \<and> c \<le> 90 then Some (unat c - 55)
      else None)"

definition is_digit :: "nat \<Rightarrow> uint8 \<Rightarrow> bool" where
  "is_digit base c = (case digit_value c of Some d \<Rightarrow> d < base | None \<Rightarrow> False)"

definition digits_value :: "nat \<Rightarrow> bytes \<Rightarrow> nat" where
  "digits_value base ds = foldl (\<lambda>n c. n * base + the (digit_value c)) 0 ds"

definition hex_prefix :: "bytes \<Rightarrow> bool" where
  "hex_prefix s = (case s of a # b # c # _ \<Rightarrow> a = 48 \<and> (b = 120 \<or> b = 88) \<and> is_digit 16 c | _ \<Rightarrow> False)"

text \<open>The base, and what is left to read, after the sign.\<close>

definition strtol_base :: "nat \<Rightarrow> bytes \<Rightarrow> nat \<times> bytes" where
  "strtol_base base s =
     (if (base = 0 \<or> base = 16) \<and> hex_prefix s then (16, drop 2 s)
      else if base = 0 then (if s \<noteq> [] \<and> hd s = 48 then 8 else 10, s)
      else (base, s))"

definition LONG_MAX :: int where
  "LONG_MAX = 2 ^ 63 - 1"

definition LONG_MIN :: int where
  "LONG_MIN = - (2 ^ 63)"

text \<open>The value and the characters from \<open>endptr\<close> on.\<close>

definition strtol :: "bytes \<Rightarrow> int \<Rightarrow> (int \<times> bytes) result" where
  "strtol s radix =
     (if radix < 0 \<or> radix = 1 \<or> 36 < radix then Inl Undefined
      else let s1 = dropWhile isspace s;
               neg = (s1 \<noteq> [] \<and> hd s1 = 45);
               s2 = (if s1 \<noteq> [] \<and> (hd s1 = 45 \<or> hd s1 = 43) then tl s1 else s1);
               (base, s3) = strtol_base (nat radix) s2;
               ds = takeWhile (is_digit base) s3;
               n = int (digits_value base ds)
           in if ds = [] then Inr (0, s)
              else Inr (if neg then max LONG_MIN (- n) else min LONG_MAX n, dropWhile (is_digit base) s3))"

section \<open>Integers\<close>

text \<open>\<open>strtol\<close> and the conversion of its result to the type of the box, the same in the four classes.\<close>

definition Integer_valueOf :: "str option \<Rightarrow> int \<Rightarrow> int32 result" where
  "Integer_valueOf string radix =
     (case string of
        None \<Rightarrow> Inl NumberFormatException
      | Some s \<Rightarrow>
          if String_isEmpty s then Inl NumberFormatException
          else bind_result (String_charAt 0 s) (\<lambda>c.
            if isspace c then Inl NumberFormatException
            else bind_result (deref (String_c_str s)) (\<lambda>bs.
              bind_result (strtol (c_string bs) radix) (\<lambda>(value, endptr).
                if endptr \<noteq> [] then Inl NumberFormatException else Inr (word_of_int value)))))"

definition Long_valueOf :: "str option \<Rightarrow> int \<Rightarrow> int64 result" where
  "Long_valueOf string radix =
     (case string of
        None \<Rightarrow> Inl NumberFormatException
      | Some s \<Rightarrow>
          if String_isEmpty s then Inl NumberFormatException
          else bind_result (String_charAt 0 s) (\<lambda>c.
            if isspace c then Inl NumberFormatException
            else bind_result (deref (String_c_str s)) (\<lambda>bs.
              bind_result (strtol (c_string bs) radix) (\<lambda>(value, endptr).
                if endptr \<noteq> [] then Inl NumberFormatException else Inr (word_of_int value)))))"

definition Short_valueOf :: "str option \<Rightarrow> int \<Rightarrow> int16 result" where
  "Short_valueOf string radix =
     (case string of
        None \<Rightarrow> Inl NumberFormatException
      | Some s \<Rightarrow>
          if String_isEmpty s then Inl NumberFormatException
          else bind_result (String_charAt 0 s) (\<lambda>c.
            if isspace c then Inl NumberFormatException
            else bind_result (deref (String_c_str s)) (\<lambda>bs.
              bind_result (strtol (c_string bs) radix) (\<lambda>(value, endptr).
                if endptr \<noteq> [] then Inl NumberFormatException else Inr (word_of_int value)))))"

definition Byte_valueOf :: "str option \<Rightarrow> int \<Rightarrow> 8 word result" where
  "Byte_valueOf string radix =
     (case string of
        None \<Rightarrow> Inl NumberFormatException
      | Some s \<Rightarrow>
          if String_isEmpty s then Inl NumberFormatException
          else bind_result (String_charAt 0 s) (\<lambda>c.
            if isspace c then Inl NumberFormatException
            else bind_result (deref (String_c_str s)) (\<lambda>bs.
              bind_result (strtol (c_string bs) radix) (\<lambda>(value, endptr).
                if endptr \<noteq> [] then Inl NumberFormatException else Inr (word_of_int value)))))"

definition Integer_valueOf_decimal :: "str option \<Rightarrow> int32 result" where
  "Integer_valueOf_decimal string = Integer_valueOf string 10"

definition Integer_valueOf_cstr :: "cstr \<Rightarrow> int \<Rightarrow> int32 result" where
  "Integer_valueOf_cstr string radix = Integer_valueOf (String_valueOf_cstr string) radix"

definition Long_valueOf_decimal :: "str option \<Rightarrow> int64 result" where
  "Long_valueOf_decimal string = Long_valueOf string 10"

definition Long_valueOf_cstr :: "cstr \<Rightarrow> int \<Rightarrow> int64 result" where
  "Long_valueOf_cstr string radix = Long_valueOf (String_valueOf_cstr string) radix"

definition Short_valueOf_decimal :: "str option \<Rightarrow> int16 result" where
  "Short_valueOf_decimal string = Short_valueOf string 10"

definition Short_valueOf_cstr :: "cstr \<Rightarrow> int \<Rightarrow> int16 result" where
  "Short_valueOf_cstr string radix = Short_valueOf (String_valueOf_cstr string) radix"

definition Byte_valueOf_decimal :: "str option \<Rightarrow> 8 word result" where
  "Byte_valueOf_decimal string = Byte_valueOf string 10"

definition Byte_valueOf_cstr :: "cstr \<Rightarrow> int \<Rightarrow> 8 word result" where
  "Byte_valueOf_cstr string radix = Byte_valueOf (String_valueOf_cstr string) radix"

section \<open>Booleans and floating-point numbers\<close>

definition Boolean_valueOf_cstr :: "cstr \<Rightarrow> bool result" where
  "Boolean_valueOf_cstr s =
     bind_result (deref s) (\<lambda>bs.
       if strcmp_eq [116, 114, 117, 101] bs \<or> strcmp_eq [84, 82, 85, 69] bs then Inr True
       else bind_result (strtol (c_string bs) 10) (\<lambda>(value, endptr). Inr (value \<noteq> 0)))"

definition Boolean_valueOf :: "str option \<Rightarrow> bool result" where
  "Boolean_valueOf s = bind_result (deref s) (\<lambda>t. Boolean_valueOf_cstr (String_c_str t))"

definition Float_valueOf_cstr :: "(int \<Rightarrow> 'f) \<Rightarrow> cstr \<Rightarrow> 'f result" where
  "Float_valueOf_cstr to_float s =
     bind_result (deref s) (\<lambda>bs. bind_result (strtol (c_string bs) 10) (\<lambda>(value, endptr). Inr (to_float value)))"

definition Float_valueOf :: "(int \<Rightarrow> 'f) \<Rightarrow> str option \<Rightarrow> 'f result" where
  "Float_valueOf to_float s = bind_result (deref s) (\<lambda>t. Float_valueOf_cstr to_float (String_c_str t))"

section \<open>Reading decimal numbers\<close>

lemma digit_value_decimal: "d < 10 \<Longrightarrow> digit_value (of_nat (48 + d)) = Some d"
proof -
  assume "d < 10"
  moreover have "unat (of_nat (48 + d) :: uint8) = 48 + d" if "d < 10"
    using that by (simp add: unsigned_of_nat take_bit_nat_eq_self del: of_nat_add)
  ultimately show ?thesis unfolding digit_value_def word_le_nat_alt by simp
qed

lemma digits_value_snoc: "digits_value b (ds @ [c]) = digits_value b ds * b + the (digit_value c)"
  by (simp add: digits_value_def)

lemma digits_value_decimal: "digits_value 10 (decimal n) = n"
proof (induction n rule: decimal.induct)
  case (1 n)
  show ?case
  proof (cases "n < 10")
    case True
    then show ?thesis by (subst decimal.simps) (simp add: digits_value_def digit_value_decimal[simplified])
  next
    case False
    then have "digits_value 10 (decimal n) = n div 10 * 10 + n mod 10"
      using 1 digit_value_decimal[of "n mod 10"] by (subst decimal.simps) (simp add: digits_value_snoc)
    then show ?thesis by simp
  qed
qed

lemma decimal_digits: "c \<in> set (decimal n) \<Longrightarrow> \<exists>d < 10. c = of_nat (48 + d)"
proof (induction n rule: decimal.induct)
  case (1 n)
  then show ?case by (subst (asm) (2) decimal.simps) (force split: if_splits)
qed

lemma decimal_not_Nil [simp]: "decimal n \<noteq> []"
  by (subst decimal.simps) simp

lemma decimal_char:
  assumes "c \<in> set (decimal n)"
  shows "is_digit 10 c" and "\<not> isspace c" and "c \<noteq> 45" and "c \<noteq> 43" and "c \<noteq> 0"
proof -
  obtain d where d: "d < 10" and c: "c = of_nat (48 + d)" using decimal_digits[OF assms] by blast
  have u: "unat c = 48 + d" using d c by (simp add: unsigned_of_nat take_bit_nat_eq_self del: of_nat_add)
  show "is_digit 10 c" using d c digit_value_decimal[of d] by (simp add: is_digit_def)
  show "\<not> isspace c" "c \<noteq> 45" "c \<noteq> 43" "c \<noteq> 0"
    using u by (auto simp: isspace_def word_le_nat_alt)
qed

lemma decimal_no_NUL [simp]: "0 \<notin> set (decimal n)"
  using decimal_char(5) by blast

lemma decimal_takeWhile: "takeWhile (is_digit 10) (decimal n) = decimal n" "dropWhile (is_digit 10) (decimal n) = []"
  using decimal_char(1) by (auto simp: takeWhile_eq_all_conv dropWhile_eq_Nil_conv)

lemma hd_decimal: "hd (decimal n) \<in> set (decimal n)"
  by simp

lemma strtol_decimal_nat: "strtol (decimal n) 10 = Inr (min LONG_MAX (int n), [])"
proof -
  have "dropWhile isspace (decimal n) = decimal n"
    using decimal_char(2)[OF hd_decimal[of n]] by (cases "decimal n") auto
  then show ?thesis
    using decimal_char(3,4)[OF hd_decimal[of n]]
    by (simp add: strtol_def strtol_base_def decimal_takeWhile digits_value_decimal)
qed

lemma strtol_decimal_neg: "strtol (45 # decimal n) 10 = Inr (max LONG_MIN (- int n), [])"
  by (simp add: strtol_def strtol_base_def decimal_takeWhile digits_value_decimal isspace_def)

definition saturate :: "int \<Rightarrow> int" where
  "saturate i = max LONG_MIN (min LONG_MAX i)"

lemma strtol_decimal: "strtol (decimal_int i) 10 = Inr (saturate i, [])"
  by (simp add: decimal_int_def strtol_decimal_nat strtol_decimal_neg saturate_def LONG_MIN_def LONG_MAX_def)

lemma c_string_decimal: "c_string (decimal_int i) = decimal_int i"
  using decimal_no_NUL by (simp add: decimal_int_def)

lemma hd_decimal_int: "decimal_int i \<noteq> []" "\<not> isspace (decimal_int i ! 0)"
proof -
  show "decimal_int i \<noteq> []" by (simp add: decimal_int_def)
  show "\<not> isspace (decimal_int i ! 0)"
    using decimal_char(2)[OF hd_decimal[of "nat i"]] by (simp add: decimal_int_def isspace_def hd_conv_nth)
qed

lemma valueOf_decimal:
  "Integer_valueOf (Some (Some (decimal_int i))) 10 = Inr (word_of_int (saturate i))"
  "Long_valueOf (Some (Some (decimal_int i))) 10 = Inr (word_of_int (saturate i))"
  "Short_valueOf (Some (Some (decimal_int i))) 10 = Inr (word_of_int (saturate i))"
  "Byte_valueOf (Some (Some (decimal_int i))) 10 = Inr (word_of_int (saturate i))"
  using hd_decimal_int[of i]
  by (simp_all add: Integer_valueOf_def Long_valueOf_def Short_valueOf_def Byte_valueOf_def String_isEmpty_def String_length_def String_charAt_def
      String_c_str_def c_string_decimal strtol_decimal)

section \<open>Properties\<close>

text \<open>
  The numbers read back what they print: \<open>valueOf\<close> of the decimal string of a 32-bit, 16-bit or 8-bit integer is that integer; the same holds for the
  decimal string of a 64-bit integer and \<open>Long\<close>.
\<close>

theorem numbers_roundtrip:
  "Integer_valueOf_decimal (Some (String_valueOf_int32 a)) = Inr a \<and>
   Short_valueOf_decimal (Some (String_valueOf_int16 b)) = Inr b \<and>
   Byte_valueOf_decimal (Some (String_valueOf_int8 c)) = Inr c \<and>
   Long_valueOf_decimal (Some (Some (decimal_int (sint d)))) = Inr d"
proof -
  have "saturate (sint x) = sint x" if "LENGTH('a) \<le> 64" for x :: "'a::len word"
  proof -
    have "- (2 ^ (LENGTH('a) - 1)) \<le> sint x" "sint x < 2 ^ (LENGTH('a) - 1)"
      using sint_greater_eq[of x] sint_lt[of x] by simp_all
    moreover have "(2 :: int) ^ (LENGTH('a) - 1) \<le> 2 ^ 63"
      using that by (intro power_increasing) auto
    ultimately show ?thesis unfolding saturate_def LONG_MIN_def LONG_MAX_def by linarith
  qed
  from this[of a] this[of b] this[of c] this[of d] show ?thesis
    by (simp add: Integer_valueOf_decimal_def Short_valueOf_decimal_def Byte_valueOf_decimal_def Long_valueOf_decimal_def String_valueOf_int32_def
        String_valueOf_int16_def String_valueOf_int8_def valueOf_decimal)
qed

text \<open>
  A number that does not fit is not refused: \<open>Integer\<close>, \<open>Short\<close> and \<open>Byte\<close> keep the low bits of what \<open>strtol\<close> returns, which clamps at the
  limits of 64 bits, so that the decimal strings of \<open>2 ^ 32\<close> and of \<open>2 ^ 63\<close> read as \<open>0\<close> and \<open>- 1\<close>; and \<open>Float\<close> reads the integer part only.
\<close>

theorem numbers_wrap:
  "Integer_valueOf_decimal (Some (Some (decimal_int i))) = Inr (word_of_int (max LONG_MIN (min LONG_MAX i))) \<and>
   Short_valueOf_decimal (Some (Some (decimal_int i))) = Inr (word_of_int (max LONG_MIN (min LONG_MAX i))) \<and>
   Byte_valueOf_decimal (Some (Some (decimal_int i))) = Inr (word_of_int (max LONG_MIN (min LONG_MAX i))) \<and>
   Integer_valueOf_decimal (Some (Some (decimal_int (2 ^ 32)))) = Inr 0 \<and>
   Integer_valueOf_decimal (Some (Some (decimal_int (2 ^ 63)))) = Inr (- 1) \<and>
   Float_valueOf to_float (Some (Some (decimal_int i @ 46 # x))) = Inr (to_float (max LONG_MIN (min LONG_MAX i)))"
proof -
  have "\<not> is_digit 10 46" by (simp add: is_digit_def digit_value_def)
  then have stop: "takeWhile (is_digit 10) (decimal n @ 46 # y) = decimal n" for n y
    using decimal_char(1) by (subst takeWhile_append2) auto
  have nat: "strtol (decimal n @ 46 # y) 10 = Inr (min LONG_MAX (int n), dropWhile (is_digit 10) (decimal n @ 46 # y))" for n y
  proof -
    have "dropWhile isspace (decimal n @ 46 # y) = decimal n @ 46 # y"
      using decimal_char(2)[OF hd_decimal[of n]] by (cases "decimal n") auto
    then show ?thesis
      using decimal_char(3,4)[OF hd_decimal[of n]] by (simp add: strtol_def strtol_base_def stop digits_value_decimal Let_def)
  qed
  have neg: "strtol (45 # decimal n @ 46 # y) 10 = Inr (max LONG_MIN (- int n), dropWhile (is_digit 10) (decimal n @ 46 # y))" for n y
    by (simp add: strtol_def strtol_base_def stop digits_value_decimal isspace_def Let_def)
  have c: "c_string (decimal_int i @ 46 # x) = decimal_int i @ 46 # c_string x"
    by (auto simp: c_string_def decimal_int_def takeWhile_append)
  have "Float_valueOf to_float (Some (Some (decimal_int i @ 46 # x))) = Inr (to_float (saturate i))"
    unfolding Float_valueOf_def Float_valueOf_cstr_def deref_simps bind_result_simps String_c_str_def c
    by (simp add: decimal_int_def nat neg saturate_def LONG_MIN_def LONG_MAX_def)
  then show ?thesis
    by (simp add: Integer_valueOf_decimal_def Short_valueOf_decimal_def Byte_valueOf_decimal_def valueOf_decimal saturate_def LONG_MIN_def LONG_MAX_def)
qed

end
