(* ===== verification/Intents.thy ===== *)
theory Intents
  imports Bundles
begin

text \<open>
  The classes \<open>ComponentName\<close> and \<open>Intent\<close> of \<open>src/mindroid/content\<close>. The extras of an intent are a bundle of its own, which
  is made by the first \<open>putExtra\<close>; a null pointer is \<open>None\<close>. Objects in the extras are pointers.
\<close>

section \<open>Component names\<close>

datatype component_name = ComponentName (mPackage: str) (mClass: str)

definition ComponentName_new :: "str option \<Rightarrow> str option \<Rightarrow> component_name result" where
  "ComponentName_new pkg cls =
     (case pkg of None \<Rightarrow> Inl NullPointerException
      | Some p \<Rightarrow> (case cls of None \<Rightarrow> Inl NullPointerException | Some c \<Rightarrow> Inr (ComponentName p c)))"

definition ComponentName_new_cstr :: "cstr \<Rightarrow> cstr \<Rightarrow> component_name result" where
  "ComponentName_new_cstr pkg cls =
     (if pkg = None then Inl NullPointerException
      else if cls = None then Inl NullPointerException
      else bind_result (deref (String_valueOf_cstr pkg)) (\<lambda>p. bind_result (deref (String_valueOf_cstr cls)) (\<lambda>c. Inr (ComponentName p c))))"

definition component_equals :: "component_name \<Rightarrow> component_name \<Rightarrow> bool" where
  "component_equals a b \<longleftrightarrow> string_keys (mPackage a) (mPackage b) \<and> string_keys (mClass a) (mClass b)"

definition ComponentName_hashCode :: "component_name \<Rightarrow> size_t" where
  "ComponentName_hashCode c = String_hashCode (mPackage c) + String_hashCode (mClass c)"

interpretation component_key: key_equality component_equals
  by unfold_locales (auto simp: component_equals_def intro: string_key.eq_sym string_key.eq_trans)

section \<open>Intents\<close>

record intent_object =
  mAction :: "str option"
  mComponent :: "component_name option"
  mExtras :: "bundle_state option"

definition Intent_new :: intent_object where
  "Intent_new = \<lparr>mAction = None, mComponent = None, mExtras = None\<rparr>"

definition Intent_copy :: "intent_object option \<Rightarrow> intent_object result option" where
  "Intent_copy other =
     (case other of
        None \<Rightarrow> Some (Inl Undefined)
      | Some i \<Rightarrow>
          (case mExtras i of
             None \<Rightarrow> Some (Inr i)
           | Some b \<Rightarrow> map_option (\<lambda>r. bind_result r (\<lambda>b'. Inr (i\<lparr>mExtras := Some b'\<rparr>))) (Bundle_copy (Some b))))"

definition Intent_of_action :: "str option \<Rightarrow> intent_object" where
  "Intent_of_action action = Intent_new\<lparr>mAction := action\<rparr>"

definition Intent_getAction :: "intent_object \<Rightarrow> str option" where
  "Intent_getAction i = mAction i"

definition Intent_setAction :: "str option \<Rightarrow> intent_object \<Rightarrow> intent_object" where
  "Intent_setAction action i = i\<lparr>mAction := action\<rparr>"

definition Intent_getComponent :: "intent_object \<Rightarrow> component_name option" where
  "Intent_getComponent i = mComponent i"

definition Intent_setComponent :: "component_name option \<Rightarrow> intent_object \<Rightarrow> intent_object" where
  "Intent_setComponent c i = i\<lparr>mComponent := c\<rparr>"

definition Intent_setClassName :: "str option \<Rightarrow> str option \<Rightarrow> intent_object \<Rightarrow> intent_object result" where
  "Intent_setClassName packageName className i =
     bind_result (ComponentName_new packageName className) (\<lambda>c. Inr (i\<lparr>mComponent := Some c\<rparr>))"

section \<open>Extras\<close>

text \<open>The common bodies: a \<open>put\<close> into the extras, which are made when there are none, and a \<open>get\<close> with what it returns without extras.\<close>

definition put_intent_extra :: "(bundle_state \<Rightarrow> bundle_state result) \<Rightarrow> intent_object \<Rightarrow> intent_object result" where
  "put_intent_extra put i =
     (let extras = (case mExtras i of None \<Rightarrow> Bundle_new | Some b \<Rightarrow> b) in bind_result (put extras) (\<lambda>b. Inr (i\<lparr>mExtras := Some b\<rparr>)))"

definition get_intent_extra :: "(bundle_state \<Rightarrow> 'a result) \<Rightarrow> 'a \<Rightarrow> intent_object \<Rightarrow> 'a result" where
  "get_intent_extra get dflt i = (case mExtras i of None \<Rightarrow> Inr dflt | Some b \<Rightarrow> get b)"

definition Intent_hasExtra :: "str option \<Rightarrow> intent_object \<Rightarrow> bool result" where
  "Intent_hasExtra name i = (case mExtras i of None \<Rightarrow> Inr False | Some b \<Rightarrow> Bundle_containsKey name b)"

definition Intent_hasExtra_cstr :: "cstr \<Rightarrow> intent_object \<Rightarrow> bool result" where
  "Intent_hasExtra_cstr name i = Intent_hasExtra (String_valueOf_cstr name) i"

definition Intent_getBooleanExtra :: "str option \<Rightarrow> bool \<Rightarrow> intent_object \<Rightarrow> bool result" where
  "Intent_getBooleanExtra name defaultValue i = get_intent_extra (Bundle_getBoolean name defaultValue) defaultValue i"

definition Intent_getBooleanExtra_cstr :: "cstr \<Rightarrow> bool \<Rightarrow> intent_object \<Rightarrow> bool result" where
  "Intent_getBooleanExtra_cstr name defaultValue i = Intent_getBooleanExtra (String_valueOf_cstr name) defaultValue i"

definition Intent_getByteExtra :: "str option \<Rightarrow> uint8 \<Rightarrow> intent_object \<Rightarrow> uint8 result" where
  "Intent_getByteExtra name defaultValue i = get_intent_extra (Bundle_getByte name defaultValue) defaultValue i"

definition Intent_getByteExtra_cstr :: "cstr \<Rightarrow> uint8 \<Rightarrow> intent_object \<Rightarrow> uint8 result" where
  "Intent_getByteExtra_cstr name defaultValue i = Intent_getByteExtra (String_valueOf_cstr name) defaultValue i"

definition Intent_getShortExtra :: "str option \<Rightarrow> 16 word \<Rightarrow> intent_object \<Rightarrow> (16 word) result" where
  "Intent_getShortExtra name defaultValue i = get_intent_extra (Bundle_getShort name defaultValue) defaultValue i"

definition Intent_getShortExtra_cstr :: "cstr \<Rightarrow> 16 word \<Rightarrow> intent_object \<Rightarrow> (16 word) result" where
  "Intent_getShortExtra_cstr name defaultValue i = Intent_getShortExtra (String_valueOf_cstr name) defaultValue i"

definition Intent_getCharExtra :: "str option \<Rightarrow> uint8 \<Rightarrow> intent_object \<Rightarrow> uint8 result" where
  "Intent_getCharExtra name defaultValue i = get_intent_extra (Bundle_getChar name defaultValue) defaultValue i"

definition Intent_getCharExtra_cstr :: "cstr \<Rightarrow> uint8 \<Rightarrow> intent_object \<Rightarrow> uint8 result" where
  "Intent_getCharExtra_cstr name defaultValue i = Intent_getCharExtra (String_valueOf_cstr name) defaultValue i"

definition Intent_getIntExtra :: "str option \<Rightarrow> int32 \<Rightarrow> intent_object \<Rightarrow> int32 result" where
  "Intent_getIntExtra name defaultValue i = get_intent_extra (Bundle_getInt name defaultValue) defaultValue i"

definition Intent_getIntExtra_cstr :: "cstr \<Rightarrow> int32 \<Rightarrow> intent_object \<Rightarrow> int32 result" where
  "Intent_getIntExtra_cstr name defaultValue i = Intent_getIntExtra (String_valueOf_cstr name) defaultValue i"

definition Intent_getLongExtra :: "str option \<Rightarrow> int64 \<Rightarrow> intent_object \<Rightarrow> int64 result" where
  "Intent_getLongExtra name defaultValue i = get_intent_extra (Bundle_getLong name defaultValue) defaultValue i"

definition Intent_getLongExtra_cstr :: "cstr \<Rightarrow> int64 \<Rightarrow> intent_object \<Rightarrow> int64 result" where
  "Intent_getLongExtra_cstr name defaultValue i = Intent_getLongExtra (String_valueOf_cstr name) defaultValue i"

definition Intent_getFloatExtra :: "str option \<Rightarrow> uint32 \<Rightarrow> intent_object \<Rightarrow> uint32 result" where
  "Intent_getFloatExtra name defaultValue i = get_intent_extra (Bundle_getFloat name defaultValue) defaultValue i"

definition Intent_getFloatExtra_cstr :: "cstr \<Rightarrow> uint32 \<Rightarrow> intent_object \<Rightarrow> uint32 result" where
  "Intent_getFloatExtra_cstr name defaultValue i = Intent_getFloatExtra (String_valueOf_cstr name) defaultValue i"

definition Intent_getDoubleExtra :: "str option \<Rightarrow> uint64 \<Rightarrow> intent_object \<Rightarrow> uint64 result" where
  "Intent_getDoubleExtra name defaultValue i = get_intent_extra (Bundle_getDouble name defaultValue) defaultValue i"

definition Intent_getDoubleExtra_cstr :: "cstr \<Rightarrow> uint64 \<Rightarrow> intent_object \<Rightarrow> uint64 result" where
  "Intent_getDoubleExtra_cstr name defaultValue i = Intent_getDoubleExtra (String_valueOf_cstr name) defaultValue i"

definition Intent_getStringExtra :: "str option \<Rightarrow> intent_object \<Rightarrow> object_ptr result" where
  "Intent_getStringExtra name i = get_intent_extra (Bundle_getString name) None i"

definition Intent_getStringExtra_cstr :: "cstr \<Rightarrow> intent_object \<Rightarrow> object_ptr result" where
  "Intent_getStringExtra_cstr name i = Intent_getStringExtra (String_valueOf_cstr name) i"

definition Intent_getIntegerArrayListExtra :: "str option \<Rightarrow> intent_object \<Rightarrow> object_ptr result" where
  "Intent_getIntegerArrayListExtra name i = get_intent_extra (Bundle_getIntegerArrayList name) None i"

definition Intent_getIntegerArrayListExtra_cstr :: "cstr \<Rightarrow> intent_object \<Rightarrow> object_ptr result" where
  "Intent_getIntegerArrayListExtra_cstr name i = Intent_getIntegerArrayListExtra (String_valueOf_cstr name) i"

definition Intent_getStringArrayListExtra :: "str option \<Rightarrow> intent_object \<Rightarrow> object_ptr result" where
  "Intent_getStringArrayListExtra name i = get_intent_extra (Bundle_getStringArrayList name) None i"

definition Intent_getStringArrayListExtra_cstr :: "cstr \<Rightarrow> intent_object \<Rightarrow> object_ptr result" where
  "Intent_getStringArrayListExtra_cstr name i = Intent_getStringArrayListExtra (String_valueOf_cstr name) i"

definition Intent_getBundleExtra :: "str option \<Rightarrow> intent_object \<Rightarrow> object_ptr result" where
  "Intent_getBundleExtra name i = get_intent_extra (Bundle_getBundle name) None i"

definition Intent_getBundleExtra_cstr :: "cstr \<Rightarrow> intent_object \<Rightarrow> object_ptr result" where
  "Intent_getBundleExtra_cstr name i = Intent_getBundleExtra (String_valueOf_cstr name) i"

definition Intent_putBooleanExtra :: "str option \<Rightarrow> bool \<Rightarrow> intent_object \<Rightarrow> intent_object result" where
  "Intent_putBooleanExtra name value i = put_intent_extra (Bundle_putBoolean name value) i"

definition Intent_putBooleanExtra_cstr :: "cstr \<Rightarrow> bool \<Rightarrow> intent_object \<Rightarrow> intent_object result" where
  "Intent_putBooleanExtra_cstr name value i = Intent_putBooleanExtra (String_valueOf_cstr name) value i"

definition Intent_putByteExtra :: "str option \<Rightarrow> uint8 \<Rightarrow> intent_object \<Rightarrow> intent_object result" where
  "Intent_putByteExtra name value i = put_intent_extra (Bundle_putByte name value) i"

definition Intent_putByteExtra_cstr :: "cstr \<Rightarrow> uint8 \<Rightarrow> intent_object \<Rightarrow> intent_object result" where
  "Intent_putByteExtra_cstr name value i = Intent_putByteExtra (String_valueOf_cstr name) value i"

definition Intent_putCharExtra :: "str option \<Rightarrow> uint8 \<Rightarrow> intent_object \<Rightarrow> intent_object result" where
  "Intent_putCharExtra name value i = put_intent_extra (Bundle_putChar name value) i"

definition Intent_putCharExtra_cstr :: "cstr \<Rightarrow> uint8 \<Rightarrow> intent_object \<Rightarrow> intent_object result" where
  "Intent_putCharExtra_cstr name value i = Intent_putCharExtra (String_valueOf_cstr name) value i"

definition Intent_putShortExtra :: "str option \<Rightarrow> int16 \<Rightarrow> intent_object \<Rightarrow> intent_object result" where
  "Intent_putShortExtra name value i = put_intent_extra (Bundle_putShort name value) i"

definition Intent_putShortExtra_cstr :: "cstr \<Rightarrow> int16 \<Rightarrow> intent_object \<Rightarrow> intent_object result" where
  "Intent_putShortExtra_cstr name value i = Intent_putShortExtra (String_valueOf_cstr name) value i"

definition Intent_putIntExtra :: "str option \<Rightarrow> int32 \<Rightarrow> intent_object \<Rightarrow> intent_object result" where
  "Intent_putIntExtra name value i = put_intent_extra (Bundle_putInt name value) i"

definition Intent_putIntExtra_cstr :: "cstr \<Rightarrow> int32 \<Rightarrow> intent_object \<Rightarrow> intent_object result" where
  "Intent_putIntExtra_cstr name value i = Intent_putIntExtra (String_valueOf_cstr name) value i"

definition Intent_putLongExtra :: "str option \<Rightarrow> int64 \<Rightarrow> intent_object \<Rightarrow> intent_object result" where
  "Intent_putLongExtra name value i = put_intent_extra (Bundle_putLong name value) i"

definition Intent_putLongExtra_cstr :: "cstr \<Rightarrow> int64 \<Rightarrow> intent_object \<Rightarrow> intent_object result" where
  "Intent_putLongExtra_cstr name value i = Intent_putLongExtra (String_valueOf_cstr name) value i"

definition Intent_putFloatExtra :: "str option \<Rightarrow> uint32 \<Rightarrow> intent_object \<Rightarrow> intent_object result" where
  "Intent_putFloatExtra name value i = put_intent_extra (Bundle_putFloat name value) i"

definition Intent_putFloatExtra_cstr :: "cstr \<Rightarrow> uint32 \<Rightarrow> intent_object \<Rightarrow> intent_object result" where
  "Intent_putFloatExtra_cstr name value i = Intent_putFloatExtra (String_valueOf_cstr name) value i"

definition Intent_putDoubleExtra :: "str option \<Rightarrow> uint64 \<Rightarrow> intent_object \<Rightarrow> intent_object result" where
  "Intent_putDoubleExtra name value i = put_intent_extra (Bundle_putDouble name value) i"

definition Intent_putDoubleExtra_cstr :: "cstr \<Rightarrow> uint64 \<Rightarrow> intent_object \<Rightarrow> intent_object result" where
  "Intent_putDoubleExtra_cstr name value i = Intent_putDoubleExtra (String_valueOf_cstr name) value i"

definition Intent_putStringExtra :: "str option \<Rightarrow> object_ptr \<Rightarrow> intent_object \<Rightarrow> intent_object result" where
  "Intent_putStringExtra name value i = put_intent_extra (Bundle_putString name value) i"

definition Intent_putStringExtra_cstr :: "cstr \<Rightarrow> object_ptr \<Rightarrow> intent_object \<Rightarrow> intent_object result" where
  "Intent_putStringExtra_cstr name value i = Intent_putStringExtra (String_valueOf_cstr name) value i"

definition Intent_putIntegerArrayListExtra :: "str option \<Rightarrow> object_ptr \<Rightarrow> intent_object \<Rightarrow> intent_object result" where
  "Intent_putIntegerArrayListExtra name value i = put_intent_extra (Bundle_putIntegerArrayList name value) i"

definition Intent_putIntegerArrayListExtra_cstr :: "cstr \<Rightarrow> object_ptr \<Rightarrow> intent_object \<Rightarrow> intent_object result" where
  "Intent_putIntegerArrayListExtra_cstr name value i = Intent_putIntegerArrayListExtra (String_valueOf_cstr name) value i"

definition Intent_putStringArrayListExtra :: "str option \<Rightarrow> object_ptr \<Rightarrow> intent_object \<Rightarrow> intent_object result" where
  "Intent_putStringArrayListExtra name value i = put_intent_extra (Bundle_putStringArrayList name value) i"

definition Intent_putStringArrayListExtra_cstr :: "cstr \<Rightarrow> object_ptr \<Rightarrow> intent_object \<Rightarrow> intent_object result" where
  "Intent_putStringArrayListExtra_cstr name value i = Intent_putStringArrayListExtra (String_valueOf_cstr name) value i"

definition Intent_putBundleExtra :: "str option \<Rightarrow> object_ptr \<Rightarrow> intent_object \<Rightarrow> intent_object result" where
  "Intent_putBundleExtra name value i = put_intent_extra (Bundle_putBundle name value) i"

definition Intent_putBundleExtra_cstr :: "cstr \<Rightarrow> object_ptr \<Rightarrow> intent_object \<Rightarrow> intent_object result" where
  "Intent_putBundleExtra_cstr name value i = Intent_putBundleExtra (String_valueOf_cstr name) value i"

definition Intent_getExtras :: "intent_object \<Rightarrow> bundle_state option result option" where
  "Intent_getExtras i =
     (case mExtras i of
        None \<Rightarrow> Some (Inr None)
      | Some b \<Rightarrow> map_option (\<lambda>r. bind_result r (\<lambda>b'. Inr (Some b'))) (Bundle_copy (Some b)))"

definition Intent_putExtras :: "bundle_state option \<Rightarrow> intent_object \<Rightarrow> intent_object result option" where
  "Intent_putExtras extras i =
     (let b = (case mExtras i of None \<Rightarrow> Bundle_new | Some b \<Rightarrow> b)
      in map_option (\<lambda>r. bind_result r (\<lambda>b'. Inr (i\<lparr>mExtras := Some b'\<rparr>))) (Bundle_putAll extras b))"

definition Intent_replaceExtras :: "bundle_state option \<Rightarrow> intent_object \<Rightarrow> intent_object result option" where
  "Intent_replaceExtras extras i =
     (case extras of
        None \<Rightarrow> Some (Inr (i\<lparr>mExtras := None\<rparr>))
      | Some b \<Rightarrow> map_option (\<lambda>r. bind_result r (\<lambda>b'. Inr (i\<lparr>mExtras := Some b'\<rparr>))) (Bundle_copy (Some b)))"

definition Intent_removeExtra :: "str option \<Rightarrow> intent_object \<Rightarrow> intent_object result" where
  "Intent_removeExtra name i =
     (case mExtras i of
        None \<Rightarrow> Inr i
      | Some b \<Rightarrow>
          bind_result (Bundle_remove name b) (\<lambda>b'. bind_result (Bundle_size b') (\<lambda>n.
            Inr (i\<lparr>mExtras := if n = 0 then None else Some b'\<rparr>))))"

definition Intent_removeExtra_cstr :: "cstr \<Rightarrow> intent_object \<Rightarrow> intent_object result" where
  "Intent_removeExtra_cstr name i = Intent_removeExtra (String_valueOf_cstr name) i"

section \<open>The contract of an extra\<close>

definition intent_ok :: "intent_object \<Rightarrow> bool" where
  "intent_ok i \<longleftrightarrow> (\<forall>b. mExtras i = Some b \<longrightarrow> bundle_ok b)"

lemma bundle_ok_new: "bundle_ok Bundle_new"
  by (simp add: bundle_ok_def Bundle_new_def)

context bundle_entry
begin

lemma extra_put_get:
  assumes "intent_ok i" and "admissible x"
  shows "\<exists>j. put_intent_extra (put (Some k) x) i = Inr j \<and> intent_ok j \<and> mAction j = mAction i \<and> mComponent j = mComponent i \<and>
    (\<forall>l. get_intent_extra (get (Some l)) d j = (if string_keys k l then Inr x else get_intent_extra (get (Some l)) d (i\<lparr>mExtras := Some (case mExtras i of None \<Rightarrow> Bundle_new | Some b \<Rightarrow> b)\<rparr>)))"
proof -
  let ?b = "case mExtras i of None \<Rightarrow> Bundle_new | Some b \<Rightarrow> b"
  have "bundle_ok ?b" using assms(1) bundle_ok_new by (auto simp: intent_ok_def split: option.splits)
  then obtain b where b: "put (Some k) x ?b = Inr b" "bundle_ok b" "\<forall>l. string_keys k l \<longrightarrow> get (Some l) b = Inr x"
    "\<forall>l. \<not> string_keys k l \<longrightarrow> Bundle_get (Some l) b = Bundle_get (Some l) ?b"
    using put_get[of ?b x k] assms(2) by blast
  have frame: "get (Some l) b = get (Some l) ?b" if "\<not> string_keys k l" for l
    using b(4) that by (intro get_frame) blast
  show ?thesis
    using b(1-3) frame by (intro exI[of _ "i\<lparr>mExtras := Some b\<rparr>"]) (simp add: put_intent_extra_def get_intent_extra_def intent_ok_def)
qed

end

text \<open>An extra that was put is read back, other keys keep their extras, and action and component are left alone.\<close>

definition intent_stores ::
  "('a \<Rightarrow> bool) \<Rightarrow> (str option \<Rightarrow> 'a \<Rightarrow> intent_object \<Rightarrow> intent_object result) \<Rightarrow> (str option \<Rightarrow> intent_object \<Rightarrow> 'a result) \<Rightarrow> bool" where
  "intent_stores admissible put get \<longleftrightarrow>
     (\<forall>i k x. intent_ok i \<and> admissible x \<longrightarrow>
       (\<exists>j. put (Some k) x i = Inr j \<and> intent_ok j \<and> mAction j = mAction i \<and> mComponent j = mComponent i \<and>
         (\<forall>l. get (Some l) j = (if string_keys k l then Inr x else get (Some l) i))))"

lemma intent_stores_law:
  assumes "bundle_entry admissible put get" and "\<And>l. get (Some l) Bundle_new = Inr d"
    and "\<And>k x i. iput k x i = put_intent_extra (put k x) i" and "\<And>k i. iget k i = get_intent_extra (get k) d i"
  shows "intent_stores admissible iput iget"
  unfolding intent_stores_def assms(3,4)
proof (intro allI impI)
  fix i k x
  assume *: "intent_ok i \<and> admissible x"
  have eq: "get_intent_extra (get (Some l)) d (i\<lparr>mExtras := Some (case mExtras i of None \<Rightarrow> Bundle_new | Some b \<Rightarrow> b)\<rparr>) = get_intent_extra (get (Some l)) d i" for l
    using assms(2) by (simp add: get_intent_extra_def split: option.splits)
  show "\<exists>j. put_intent_extra (put (Some k) x) i = Inr j \<and> intent_ok j \<and> mAction j = mAction i \<and> mComponent j = mComponent i \<and>
      (\<forall>l. get_intent_extra (get (Some l)) d j = (if string_keys k l then Inr x else get_intent_extra (get (Some l)) d i))"
    using bundle_entry.extra_put_get[OF assms(1), of i x k d, unfolded eq] * by blast
qed

lemma new_bundle_get:
  "Bundle_getBoolean (Some l) a Bundle_new = Inr a" "Bundle_getByte (Some l) b Bundle_new = Inr b" "Bundle_getChar (Some l) b Bundle_new = Inr b"
  "Bundle_getShort (Some l) c Bundle_new = Inr c" "Bundle_getInt (Some l) d Bundle_new = Inr d" "Bundle_getLong (Some l) e Bundle_new = Inr e"
  "Bundle_getFloat (Some l) f Bundle_new = Inr f" "Bundle_getDouble (Some l) g Bundle_new = Inr g" "Bundle_getString (Some l) Bundle_new = Inr None"
  "Bundle_getIntegerArrayList (Some l) Bundle_new = Inr None" "Bundle_getStringArrayList (Some l) Bundle_new = Inr None"
  "Bundle_getBundle (Some l) Bundle_new = Inr None"
  by (simp_all add: bundle_get_defs typed_get_def Bundle_get_def Bundle_new_def HashMapKV_get_def um_find_def)

lemma intent_remove:
  assumes "intent_ok i"
  shows "\<exists>j. Intent_removeExtra (Some k) i = Inr j \<and> intent_ok j \<and>
    (\<forall>l. Intent_hasExtra (Some l) j = (if string_keys k l then Inr False else Intent_hasExtra (Some l) i))"
proof (cases "mExtras i")
  case None
  then show ?thesis using assms by (auto simp: Intent_removeExtra_def Intent_hasExtra_def)
next
  case (Some b)
  then have "bundle_ok b" using assms by (simp add: intent_ok_def)
  then obtain m where m: "b = Some m" "um_inv string_keys m" "list_all entry_ok m" by (rule bundle_okE)
  let ?m = "um_erase string_keys k m"
  have ok: "bundle_ok (Some ?m)"
    using m string_key.um_erase_inv[OF m(2), of k] by (auto simp: bundle_ok_def list_all_iff dest: um_erase_subset)
  have find: "um_find string_keys l ?m = (if string_keys k l then None else um_find string_keys l m)" for l
    using m(2) by (rule string_key.um_find_erase)
  have "Intent_removeExtra (Some k) i = Inr (i\<lparr>mExtras := if length ?m = 0 then None else Some (Some ?m)\<rparr>)"
    using Some m(1) by (simp add: Intent_removeExtra_def Bundle_remove_def HashMapKV_remove_def Bundle_size_def HashMapKV_size_def)
  moreover have "um_find string_keys l m = None" if "?m = []" "\<not> string_keys k l" for l
    using find[of l] that by (simp add: um_find_def)
  ultimately show ?thesis using ok Some m(1) find
    by (auto simp: intent_ok_def Intent_hasExtra_def Bundle_containsKey_def HashMapKV_containsKey_def Bundle_new_def)
qed

section \<open>Properties\<close>

text \<open>
  Every typed extra of an intent, whether it had extras before or not, is read back by the \<open>get\<close> of its type, without a change to other extras,
  the action or the component.
\<close>

theorem Intent_extras_roundtrip:
  "intent_stores (\<lambda>_. True) Intent_putBooleanExtra (\<lambda>k. Intent_getBooleanExtra k a) \<and>
   intent_stores (\<lambda>_. True) Intent_putByteExtra (\<lambda>k. Intent_getByteExtra k b) \<and>
   intent_stores (\<lambda>_. True) Intent_putCharExtra (\<lambda>k. Intent_getCharExtra k b) \<and>
   intent_stores (\<lambda>_. True) Intent_putShortExtra (\<lambda>k. Intent_getShortExtra k c) \<and>
   intent_stores (\<lambda>_. True) Intent_putIntExtra (\<lambda>k. Intent_getIntExtra k d) \<and>
   intent_stores (\<lambda>_. True) Intent_putLongExtra (\<lambda>k. Intent_getLongExtra k e) \<and>
   intent_stores (\<lambda>_. True) Intent_putFloatExtra (\<lambda>k. Intent_getFloatExtra k f) \<and>
   intent_stores (\<lambda>_. True) Intent_putDoubleExtra (\<lambda>k. Intent_getDoubleExtra k g) \<and>
   intent_stores (has_class String_class) Intent_putStringExtra Intent_getStringExtra \<and>
   intent_stores (has_class IntegerArrayList_class) Intent_putIntegerArrayListExtra Intent_getIntegerArrayListExtra \<and>
   intent_stores (has_class StringArrayList_class) Intent_putStringArrayListExtra Intent_getStringArrayListExtra \<and>
   intent_stores (has_class Bundle_class) Intent_putBundleExtra Intent_getBundleExtra"
  by (intro conjI
      intent_stores_law[OF boolean_entry.bundle_entry_axioms new_bundle_get(1) Intent_putBooleanExtra_def Intent_getBooleanExtra_def]
      intent_stores_law[OF byte_entry.bundle_entry_axioms new_bundle_get(2) Intent_putByteExtra_def Intent_getByteExtra_def]
      intent_stores_law[OF char_entry.bundle_entry_axioms new_bundle_get(3) Intent_putCharExtra_def Intent_getCharExtra_def]
      intent_stores_law[OF short_entry.bundle_entry_axioms new_bundle_get(4) Intent_putShortExtra_def Intent_getShortExtra_def]
      intent_stores_law[OF int_entry.bundle_entry_axioms new_bundle_get(5) Intent_putIntExtra_def Intent_getIntExtra_def]
      intent_stores_law[OF long_entry.bundle_entry_axioms new_bundle_get(6) Intent_putLongExtra_def Intent_getLongExtra_def]
      intent_stores_law[OF float_entry.bundle_entry_axioms new_bundle_get(7) Intent_putFloatExtra_def Intent_getFloatExtra_def]
      intent_stores_law[OF double_entry.bundle_entry_axioms new_bundle_get(8) Intent_putDoubleExtra_def Intent_getDoubleExtra_def]
      intent_stores_law[OF string_entry.bundle_entry_axioms new_bundle_get(9) Intent_putStringExtra_def Intent_getStringExtra_def]
      intent_stores_law[OF integer_list_entry.bundle_entry_axioms new_bundle_get(10) Intent_putIntegerArrayListExtra_def Intent_getIntegerArrayListExtra_def]
      intent_stores_law[OF string_list_entry.bundle_entry_axioms new_bundle_get(11) Intent_putStringArrayListExtra_def Intent_getStringArrayListExtra_def]
      intent_stores_law[OF nested_bundle_entry.bundle_entry_axioms new_bundle_get(12) Intent_putBundleExtra_def Intent_getBundleExtra_def])

end
