(* ===== verification/Package_Manager.thy ===== *)
theory Package_Manager
  imports Intents
begin

text \<open>
  \<open>PackageManagerService\<close> (\<open>src/mindroid/content/pm/PackageManagerService.cpp\<close>): how manifests become packages and services, which
  services are resolved, and which are started and stopped. A manifest is the tree of elements that the XML
  library has read, or nothing if it could not read it; the library's conversions of attributes to integers and booleans are the
  parameters \<open>int_value\<close> and \<open>bool_value\<close>. An \<open>ApplicationInfo\<close> is shared by its package and all its services, so it lives in a store; the
  other objects do not change once they are built and are values. The services of the service manager are called with
  the requests that \<open>onStartCommand\<close> lists.
\<close>

section \<open>Data\<close>

datatype xml_element = Element (element_name: bytes) (element_attributes: "(bytes \<times> bytes) list") (element_children: "xml_element list")

record application_info =
  ai_packageName :: "str option"
  ai_processName :: "str option"
  ai_enabled :: bool

record package_service =
  si_name :: "str option"
  si_packageName :: "str option"
  si_processName :: "str option"
  si_applicationInfo :: nat
  si_enabled :: bool
  si_flags :: int32

record package_info =
  pi_packageName :: "str option"
  pi_versionCode :: int32
  pi_versionName :: "str option"
  pi_applicationInfo :: nat
  pi_services :: "package_service list option"

record package_manager =
  mPackages :: "(str \<times> package_info option) list"
  mComponents :: "(component_name \<times> package_service option) list"
  application_infos :: "nat \<Rightarrow> application_info"
  infos :: nat

definition FLAG_AUTO_START :: int32 where
  "FLAG_AUTO_START = 1"

definition GET_SERVICES :: int32 where
  "GET_SERVICES = 4"

definition hasFlag :: "int32 \<Rightarrow> package_service \<Rightarrow> bool" where
  "hasFlag flag si = ((si_flags si AND flag) = flag)"

definition isEnabled :: "package_manager \<Rightarrow> package_service \<Rightarrow> bool" where
  "isEnabled pm si \<longleftrightarrow> si_enabled si \<and> ai_enabled (application_infos pm (si_applicationInfo si))"

definition ApplicationInfo_new :: application_info where
  "ApplicationInfo_new = \<lparr>ai_packageName = None, ai_processName = None, ai_enabled = True\<rparr>"

text \<open>ASCII names as characters, and the value of an attribute.\<close>

definition ascii :: "string \<Rightarrow> bytes" where
  "ascii s = map (\<lambda>c. of_nat (of_char c)) s"

definition find_attribute :: "string \<Rightarrow> xml_element \<Rightarrow> bytes option" where
  "find_attribute n e = map_of (element_attributes e) (ascii n)"

section \<open>Parsing\<close>

definition service_name :: "str option \<Rightarrow> bytes option \<Rightarrow> str option result" where
  "service_name pkg attribute =
     (case attribute of
        None \<Rightarrow> Inr None
      | Some v \<Rightarrow>
          bind_result (deref (String_valueOf_cstr (Some v))) (\<lambda>name.
          bind_result (String_startsWith_cstr (Some (ascii ''.'')) name) (\<lambda>relative.
            if relative then String_substring 1 name
            else bind_result (String_startsWith pkg name) (\<lambda>absolute.
              if absolute then bind_result (deref pkg) (\<lambda>p. String_substring (String_length p + 1) name)
              else Inr None))))"

definition parseService :: "(bytes \<Rightarrow> bool) \<Rightarrow> nat \<Rightarrow> application_info \<Rightarrow> xml_element \<Rightarrow> package_service option result" where
  "parseService bool_value a ai e =
     bind_result (service_name (ai_packageName ai) (find_attribute ''mindroid:name'' e)) (\<lambda>name.
       let processName = (case find_attribute ''mindroid:process'' e of None \<Rightarrow> ai_packageName ai | Some v \<Rightarrow> String_valueOf_cstr (Some v));
           enabled = (case find_attribute ''mindroid:enabled'' e of None \<Rightarrow> True | Some v \<Rightarrow> bool_value v);
           autostart = (case find_attribute ''mindroid:autostart'' e of None \<Rightarrow> False | Some v \<Rightarrow> bool_value v)
       in case name of
            None \<Rightarrow> Inr None
          | Some n \<Rightarrow>
              if String_length n = 0 then Inr None
              else Inr (Some \<lparr>si_name = Some n, si_packageName = ai_packageName ai, si_processName = processName, si_applicationInfo = a,
                si_enabled = enabled, si_flags = (if autostart then 0 OR FLAG_AUTO_START else 0)\<rparr>))"

fun parse_services :: "(bytes \<Rightarrow> bool) \<Rightarrow> nat \<Rightarrow> application_info \<Rightarrow> xml_element list \<Rightarrow> package_service list result" where
  "parse_services bool_value a ai [] = Inr []"
| "parse_services bool_value a ai (e # es) =
     (if element_name e = ascii ''service''
      then bind_result (parseService bool_value a ai e) (\<lambda>si.
        bind_result (parse_services bool_value a ai es) (\<lambda>services. Inr (case si of None \<Rightarrow> services | Some s \<Rightarrow> s # services)))
      else parse_services bool_value a ai es)"

definition parseApplication ::
  "(bytes \<Rightarrow> bool) \<Rightarrow> nat \<Rightarrow> application_info \<Rightarrow> xml_element \<Rightarrow> (package_service list \<times> application_info) result" where
  "parseApplication bool_value a ai e =
     (let ai = (case find_attribute ''process'' e of None \<Rightarrow> ai | Some v \<Rightarrow> ai\<lparr>ai_processName := String_valueOf_cstr (Some v)\<rparr>);
          ai = (case find_attribute ''enabled'' e of None \<Rightarrow> ai | Some v \<Rightarrow> ai\<lparr>ai_enabled := bool_value v\<rparr>)
      in bind_result (parse_services bool_value a ai (element_children e)) (\<lambda>services. Inr (services, ai)))"

text \<open>The loop over the elements of a manifest; a second application replaces the services of the first.\<close>

fun parse_applications ::
  "(bytes \<Rightarrow> bool) \<Rightarrow> nat \<Rightarrow> xml_element list \<Rightarrow> application_info \<Rightarrow> package_service list option \<Rightarrow> (package_service list option \<times> application_info) result" where
  "parse_applications bool_value a [] ai services = Inr (services, ai)"
| "parse_applications bool_value a (e # es) ai services =
     (if element_name e = ascii ''application''
      then bind_result (parseApplication bool_value a ai e) (\<lambda>(ss, ai). parse_applications bool_value a es ai (Some ss))
      else parse_applications bool_value a es ai services)"

definition parseManifest ::
  "(bytes \<Rightarrow> int32) \<Rightarrow> (bytes \<Rightarrow> bool) \<Rightarrow> xml_element list option \<Rightarrow> package_manager \<Rightarrow> (package_info option \<times> package_manager) result" where
  "parseManifest int_value bool_value doc pm =
     (case doc of
        None \<Rightarrow> Inr (None, pm)
      | Some elements \<Rightarrow>
          (case find (\<lambda>e. element_name e = ascii ''manifest'') elements of
             None \<Rightarrow> Inr (None, pm)
           | Some root \<Rightarrow>
               let packageName = (case find_attribute ''package'' root of None \<Rightarrow> None | Some v \<Rightarrow> String_valueOf_cstr (Some v))
               in case packageName of
                    None \<Rightarrow> Inr (None, pm)
                  | Some p \<Rightarrow>
                      if String_length p = 0 then Inr (None, pm)
                      else let versionCode = (case find_attribute ''mindroid:versionCode'' root of None \<Rightarrow> 0 | Some v \<Rightarrow> int_value v);
                               versionName = (case find_attribute ''mindroid:versionName'' root of
                                                None \<Rightarrow> Some String_new | Some v \<Rightarrow> String_valueOf_cstr (Some v));
                               a = infos pm
                           in bind_result (parse_applications bool_value a (element_children root)
                                (ApplicationInfo_new\<lparr>ai_packageName := Some p\<rparr>) None) (\<lambda>(services, ai).
                                Inr (Some \<lparr>pi_packageName = Some p, pi_versionCode = versionCode, pi_versionName = versionName,
                                    pi_applicationInfo = a, pi_services = services\<rparr>,
                                  pm\<lparr>application_infos := (application_infos pm)(a := ai), infos := a + 1\<rparr>))))"

section \<open>The service\<close>

definition PackageManagerService_new :: package_manager where
  "PackageManagerService_new = \<lparr>mPackages = [], mComponents = [], application_infos = (\<lambda>_. ApplicationInfo_new), infos = 0\<rparr>"

definition ManifestFilenameFilter_accept :: "str option \<Rightarrow> bool result" where
  "ManifestFilenameFilter_accept filename =
     bind_result (deref filename) (\<lambda>f. String_endsWith_cstr (Some (ascii ''.xml'')) (String_toLowerCase f))"

fun put_components :: "package_service list \<Rightarrow> package_manager \<Rightarrow> package_manager result" where
  "put_components [] pm = Inr pm"
| "put_components (si # sis) pm =
     bind_result (ComponentName_new (si_packageName si) (si_name si)) (\<lambda>c.
     bind_result (HashMapKV_put component_equals (Some c) (Some si) (mComponents pm)) (\<lambda>(_, m).
     put_components sis (pm\<lparr>mComponents := m\<rparr>)))"

definition add_package :: "package_info \<Rightarrow> package_manager \<Rightarrow> package_manager result" where
  "add_package p pm =
     bind_result (HashMapKV_put string_keys (pi_packageName p) (Some p) (mPackages pm)) (\<lambda>(_, m).
     bind_result (deref (pi_services p)) (\<lambda>services. put_components services (pm\<lparr>mPackages := m\<rparr>)))"

fun read_manifests ::
  "(bytes \<Rightarrow> int32) \<Rightarrow> (bytes \<Rightarrow> bool) \<Rightarrow> xml_element list option list \<Rightarrow> package_manager \<Rightarrow> package_manager result" where
  "read_manifests int_value bool_value [] pm = Inr pm"
| "read_manifests int_value bool_value (doc # docs) pm =
     bind_result (parseManifest int_value bool_value doc pm) (\<lambda>(info, pm).
     bind_result (case info of None \<Rightarrow> Inr pm | Some p \<Rightarrow> add_package p pm) (read_manifests int_value bool_value docs))"

text \<open>\<open>apps\<close> are the documents of the files in the directory of the applications, null if it cannot be listed.\<close>

definition PackageManagerService_onCreate ::
  "(bytes \<Rightarrow> int32) \<Rightarrow> (bytes \<Rightarrow> bool) \<Rightarrow> xml_element list option list option \<Rightarrow> package_manager \<Rightarrow> package_manager result" where
  "PackageManagerService_onCreate int_value bool_value apps pm =
     (case apps of None \<Rightarrow> Inr pm | Some docs \<Rightarrow> read_manifests int_value bool_value docs pm)"

definition PackageManagerService_getInstalledPackages :: "int32 \<Rightarrow> package_manager \<Rightarrow> package_info option list option" where
  "PackageManagerService_getInstalledPackages flags pm =
     (if (flags AND GET_SERVICES) = GET_SERVICES
      then let packages = map snd (mPackages pm) in if packages = [] then None else Some packages
      else None)"

definition PackageManagerService_resolveService :: "component_name option \<Rightarrow> package_manager \<Rightarrow> package_service option result" where
  "PackageManagerService_resolveService c pm =
     (if HashMapKV_containsKey component_equals c (mComponents pm)
      then HashMapKV_get component_equals c (mComponents pm)
      else Inr None)"

datatype service_request = Start_service "component_name" | Stop_service "component_name"

definition package_requests ::
  "(package_service \<Rightarrow> bool) \<Rightarrow> (component_name \<Rightarrow> service_request) \<Rightarrow> package_info option \<Rightarrow> service_request list result" where
  "package_requests chosen request info =
     bind_result (deref info) (\<lambda>p.
       case pi_services p of
         None \<Rightarrow> Inr []
       | Some services \<Rightarrow>
           foldr (\<lambda>si r. if chosen si
                   then bind_result (ComponentName_new (si_packageName si) (si_name si)) (\<lambda>c. bind_result r (\<lambda>rs. Inr (request c # rs)))
                   else r) services (Inr []))"

fun all_requests ::
  "(package_service \<Rightarrow> bool) \<Rightarrow> (component_name \<Rightarrow> service_request) \<Rightarrow> package_info option list \<Rightarrow> service_request list result" where
  "all_requests chosen request [] = Inr []"
| "all_requests chosen request (p # ps) =
     bind_result (package_requests chosen request p) (\<lambda>rs. bind_result (all_requests chosen request ps) (\<lambda>rs'. Inr (rs @ rs')))"

definition PackageManagerService_onStartCommand :: "str option \<Rightarrow> package_manager \<Rightarrow> service_request list result" where
  "PackageManagerService_onStartCommand action pm =
     (case action of
        None \<Rightarrow> Inr []
      | Some a \<Rightarrow>
          if String_equals_cstr a (Some (ascii ''mindroid.content.pm.START_APPLICATIONS''))
          then (case PackageManagerService_getInstalledPackages GET_SERVICES pm of
                  None \<Rightarrow> Inr []
                | Some packages \<Rightarrow> all_requests (\<lambda>si. isEnabled pm si \<and> hasFlag FLAG_AUTO_START si) Start_service packages)
          else if String_equals_cstr a (Some (ascii ''mindroid.content.pm.SHUTDOWN_APPLICATIONS''))
          then (case PackageManagerService_getInstalledPackages GET_SERVICES pm of
                  None \<Rightarrow> Inr []
                | Some packages \<Rightarrow> all_requests (isEnabled pm) Stop_service packages)
          else Inr [])"

section \<open>Named services\<close>

definition named :: "package_service \<Rightarrow> bool" where
  "named si \<longleftrightarrow> (\<exists>p n. si_packageName si = Some p \<and> si_name si = Some n \<and> String_length n \<noteq> 0)"

definition component_of :: "package_service \<Rightarrow> component_name" where
  "component_of si = ComponentName (the (si_packageName si)) (the (si_name si))"

lemma ComponentName_named: "named si \<Longrightarrow> ComponentName_new (si_packageName si) (si_name si) = Inr (component_of si)"
  by (auto simp: named_def ComponentName_new_def component_of_def)

section \<open>What the parser returns\<close>

lemma parseService_named:
  "parseService bool_value a ai e = Inr (Some si) \<Longrightarrow> ai_packageName ai \<noteq> None \<Longrightarrow>
   named si \<and> si_packageName si = ai_packageName ai \<and> si_applicationInfo si = a"
  by (auto simp: parseService_def named_def bind_result_eq_Inr Let_def split: option.splits if_splits)

lemma parse_services_named:
  "parse_services bool_value a ai es = Inr ss \<Longrightarrow> ai_packageName ai \<noteq> None \<Longrightarrow> si \<in> set ss \<Longrightarrow>
   named si \<and> si_packageName si = ai_packageName ai \<and> si_applicationInfo si = a"
proof (induction es arbitrary: ss)
  case (Cons e es)
  show ?case
  proof (cases "element_name e = ascii ''service''")
    case True
    with Cons.prems(1) obtain s rest where s: "parseService bool_value a ai e = Inr s" and rest: "parse_services bool_value a ai es = Inr rest"
      and ss: "ss = (case s of None \<Rightarrow> rest | Some x \<Rightarrow> x # rest)"
      by (auto simp: bind_result_eq_Inr)
    show ?thesis
    proof (cases "si \<in> set rest")
      case True
      then show ?thesis by (rule Cons.IH[OF rest Cons.prems(2)])
    next
      case False
      with ss Cons.prems(3) have "s = Some si" by (auto split: option.splits)
      with s show ?thesis using Cons.prems(2) by (simp add: parseService_named)
    qed
  next
    case False
    with Cons show ?thesis by simp
  qed
qed simp

lemma parseApplication_named:
  assumes "parseApplication bool_value a ai e = Inr (ss, ai')" and "ai_packageName ai = Some p"
  shows "ai_packageName ai' = Some p \<and> (\<forall>si \<in> set ss. named si \<and> si_packageName si = Some p \<and> si_applicationInfo si = a)"
proof -
  have "parse_services bool_value a ai' (element_children e) = Inr ss" and "ai_packageName ai' = Some p"
    using assms by (auto simp: parseApplication_def bind_result_eq_Inr Let_def split: option.splits)
  then show ?thesis using parse_services_named[of bool_value a ai' "element_children e" ss] by simp
qed

lemma parse_applications_named:
  "parse_applications bool_value a es ai services = Inr (services', ai') \<Longrightarrow> ai_packageName ai = Some p \<Longrightarrow>
   (\<forall>ss. services = Some ss \<longrightarrow> (\<forall>si \<in> set ss. named si \<and> si_packageName si = Some p \<and> si_applicationInfo si = a)) \<Longrightarrow>
   (\<forall>ss. services' = Some ss \<longrightarrow> (\<forall>si \<in> set ss. named si \<and> si_packageName si = Some p \<and> si_applicationInfo si = a))"
proof (induction es arbitrary: ai services)
  case (Cons e es)
  show ?case
  proof (cases "element_name e = ascii ''application''")
    case True
    with Cons.prems(1) obtain ss ai1 where 1: "parseApplication bool_value a ai e = Inr (ss, ai1)"
      and 2: "parse_applications bool_value a es ai1 (Some ss) = Inr (services', ai')"
      by (auto simp: bind_result_eq_Inr)
    note n = parseApplication_named[OF 1 Cons.prems(2)]
    show ?thesis by (rule Cons.IH[OF 2 conjunct1[OF n]]) (use n in simp)
  next
    case False
    with Cons.prems(1) have "parse_applications bool_value a es ai services = Inr (services', ai')" by simp
    from this Cons.prems(2,3) show ?thesis by (rule Cons.IH)
  qed
qed simp

lemma parseManifest_cases:
  assumes "parseManifest int_value bool_value doc pm = Inr (info, pm')"
  obtains (nothing) "info = None" "pm' = pm"
  | (package) root p n ai where "info = Some p" "pi_packageName p = Some n" "mPackages pm' = mPackages pm" "mComponents pm' = mComponents pm"
      "parse_applications bool_value (infos pm) (element_children root) (ApplicationInfo_new\<lparr>ai_packageName := Some n\<rparr>) None =
        Inr (pi_services p, ai)"
proof (cases doc)
  case None
  with assms have "info = None \<and> pm' = pm" by (simp add: parseManifest_def)
  then show ?thesis by (elim conjE) (rule nothing)
next
  case (Some els)
  note doc = this
  show ?thesis
  proof (cases "find (\<lambda>e. element_name e = ascii ''manifest'') els")
    case None
    with assms doc have "info = None \<and> pm' = pm" by (simp add: parseManifest_def)
    then show ?thesis by (elim conjE) (rule nothing)
  next
    case (Some root)
    note root = this
    show ?thesis
    proof (cases "case find_attribute ''package'' root of None \<Rightarrow> None | Some v \<Rightarrow> String_valueOf_cstr (Some v)")
      case None
      with assms doc root have "info = None \<and> pm' = pm" by (simp add: parseManifest_def)
      then show ?thesis by (elim conjE) (rule nothing)
    next
      case (Some n)
      show ?thesis
      proof (cases "String_length n = 0")
        case True
        with assms doc root Some have "info = None \<and> pm' = pm" by (simp add: parseManifest_def)
        then show ?thesis by (elim conjE) (rule nothing)
      next
        case False
        with assms doc root Some obtain services ai where
          1: "parse_applications bool_value (infos pm) (element_children root) (ApplicationInfo_new\<lparr>ai_packageName := Some n\<rparr>) None = Inr (services, ai)"
          and 2: "info = Some \<lparr>pi_packageName = Some n,
              pi_versionCode = (case find_attribute ''mindroid:versionCode'' root of None \<Rightarrow> 0 | Some v \<Rightarrow> int_value v),
              pi_versionName = (case find_attribute ''mindroid:versionName'' root of None \<Rightarrow> Some String_new | Some v \<Rightarrow> String_valueOf_cstr (Some v)),
              pi_applicationInfo = infos pm, pi_services = services\<rparr>"
            "pm' = pm\<lparr>application_infos := (application_infos pm)(infos pm := ai), infos := infos pm + 1\<rparr>"
          unfolding parseManifest_def by (auto simp only: bind_result_eq_Inr Let_def option.case prod.case Inr_inject prod.inject if_False)
        from 1 2 show ?thesis by (intro package[where p = "the info" and n = n and root = root and ai = ai]) simp_all
      qed
    qed
  qed
qed

lemma parseManifest_Inr:
  assumes "parseManifest int_value bool_value doc pm = Inr (info, pm')"
  shows "mPackages pm' = mPackages pm \<and> mComponents pm' = mComponents pm \<and>
    (\<forall>p. info = Some p \<longrightarrow> pi_packageName p \<noteq> None \<and>
      (\<forall>ss. pi_services p = Some ss \<longrightarrow> (\<forall>si \<in> set ss. named si \<and> si_packageName si = pi_packageName p)))"
  using assms
proof (cases rule: parseManifest_cases)
  case (package root p n ai)
  then show ?thesis using parse_applications_named[OF package(5), of n] by simp
qed simp

section \<open>The maps\<close>

lemma find_append: "find p (xs @ ys) = (case find p xs of None \<Rightarrow> find p ys | Some x \<Rightarrow> Some x)"
  by (induction xs) auto

lemma put_components_lookup:
  assumes "\<forall>si \<in> set sis. named si"
  shows "\<exists>pm'. put_components sis pm = Inr pm' \<and> mPackages pm' = mPackages pm \<and>
    (\<forall>c. um_find component_equals c (mComponents pm') =
       (case find (\<lambda>si. component_equals (component_of si) c) (rev sis) of
          Some si \<Rightarrow> Some (Some si) | None \<Rightarrow> um_find component_equals c (mComponents pm)))"
  using assms
proof (induction sis arbitrary: pm)
  case (Cons si sis)
  define m where "m = um_store component_equals (component_of si) (Some si) (um_index None component_equals (component_of si) (mComponents pm))"
  obtain pm' where IH: "put_components sis (pm\<lparr>mComponents := m\<rparr>) = Inr pm'" "mPackages pm' = mPackages pm"
    "\<forall>c. um_find component_equals c (mComponents pm') =
       (case find (\<lambda>si. component_equals (component_of si) c) (rev sis) of
          Some si \<Rightarrow> Some (Some si) | None \<Rightarrow> um_find component_equals c m)"
  proof -
    have "\<forall>si \<in> set sis. named si" using Cons.prems by simp
    from Cons.IH[OF this, of "pm\<lparr>mComponents := m\<rparr>"] show ?thesis
      by (elim exE conjE) (rule that, assumption, simp_all cong: option.case_cong)
  qed
  have "put_components (si # sis) pm = Inr pm'"
    using Cons.prems IH(1) by (simp add: ComponentName_named HashMapKV_put_def m_def)
  moreover have "um_find component_equals c m = (if component_equals (component_of si) c then Some (Some si) else um_find component_equals c (mComponents pm))" for c
    unfolding m_def by (rule component_key.um_assign_find)
  ultimately show ?case using IH(2,3) by (auto simp: find_append split: option.splits)
qed simp

definition declares :: "package_service \<Rightarrow> package_manager \<Rightarrow> bool" where
  "declares si pm \<longleftrightarrow> named si \<and> um_find component_equals (component_of si) (mComponents pm) \<noteq> None"

definition packages_ok :: "package_manager \<Rightarrow> bool" where
  "packages_ok pm \<longleftrightarrow>
     (\<forall>e \<in> set (mPackages pm). \<exists>p ss. snd e = Some p \<and> pi_services p = Some ss \<and> (\<forall>si \<in> set ss. declares si pm)) \<and>
     (\<forall>c v. um_find component_equals c (mComponents pm) = Some v \<longrightarrow> (\<exists>si. v = Some si \<and> named si \<and> component_equals (component_of si) c))"

lemma um_assign_set:
  assumes "eq k k"
  shows "e \<in> set (um_store eq k v (um_index d eq k m)) \<Longrightarrow> e \<in> set m \<or> snd e = v"
proof (induction m)
  case Nil
  then show ?case using assms by (auto simp: um_index_def um_find_def)
next
  case (Cons f m)
  then show ?case by (auto simp: um_index_def split: if_splits option.splits)
qed

lemma add_package_ok:
  assumes ok: "packages_ok pm" and ss: "pi_services p = Some ss" "\<forall>si \<in> set ss. named si" and name: "pi_packageName p = Some n"
  shows "\<exists>pm'. add_package p pm = Inr pm' \<and> packages_ok pm'"
proof -
  define m where "m = um_store string_keys n (Some p) (um_index None string_keys n (mPackages pm))"
  obtain pm' where put: "put_components ss (pm\<lparr>mPackages := m\<rparr>) = Inr pm'" and packages: "mPackages pm' = m"
    and lookup: "\<forall>c. um_find component_equals c (mComponents pm') =
       (case find (\<lambda>si. component_equals (component_of si) c) (rev ss) of
          Some si \<Rightarrow> Some (Some si) | None \<Rightarrow> um_find component_equals c (mComponents pm))"
    using put_components_lookup[OF ss(2), of "pm\<lparr>mPackages := m\<rparr>"]
    by (elim exE conjE) (rule that, assumption, simp_all cong: option.case_cong)
  have add: "add_package p pm = Inr pm'"
    using put name ss(1) by (simp add: add_package_def HashMapKV_put_def m_def)
  have old: "declares si pm'" if "declares si pm" for si
    using that lookup by (auto simp: declares_def split: option.splits)
  have new: "declares si pm'" if "si \<in> set ss" for si
  proof -
    have "find (\<lambda>s. component_equals (component_of s) (component_of si)) (rev ss) \<noteq> None"
      using that by (auto simp: find_None_iff)
    then show ?thesis using that ss(2) lookup by (auto simp: declares_def)
  qed
  have "\<exists>q ts. snd e = Some q \<and> pi_services q = Some ts \<and> (\<forall>si \<in> set ts. declares si pm')" if "e \<in> set m" for e
  proof -
    have "e \<in> set (mPackages pm) \<or> snd e = Some p"
      using that unfolding m_def by (rule um_assign_set[where eq = string_keys and k = n, OF string_key.eq_refl])
    then show ?thesis
    proof
      assume "e \<in> set (mPackages pm)"
      then show ?thesis using ok old unfolding packages_ok_def by blast
    next
      assume "snd e = Some p"
      then show ?thesis using ss(1) new by blast
    qed
  qed
  moreover have "\<exists>si. v = Some si \<and> named si \<and> component_equals (component_of si) c"
    if "um_find component_equals c (mComponents pm') = Some v" for c v
  proof (cases "find (\<lambda>si. component_equals (component_of si) c) (rev ss)")
    case None
    then show ?thesis using that lookup ok by (auto simp: packages_ok_def)
  next
    case (Some si)
    then have "si \<in> set (rev ss)" "component_equals (component_of si) c" unfolding find_Some_iff by (metis nth_mem, blast)
    then have "si \<in> set ss" "component_equals (component_of si) c" by simp_all
    then show ?thesis using that lookup Some ss(2) by auto
  qed
  ultimately show ?thesis using add packages by (auto simp: packages_ok_def)
qed

lemma packages_ok_cong:
  "packages_ok pm \<Longrightarrow> mPackages pm' = mPackages pm \<Longrightarrow> mComponents pm' = mComponents pm \<Longrightarrow> packages_ok pm'"
  by (simp add: packages_ok_def declares_def)

lemma add_package_Inr: "add_package p pm = Inr pm' \<Longrightarrow> pi_services p \<noteq> None"
  by (auto simp: add_package_def bind_result_eq_Inr deref_def split: option.splits)

lemma read_manifests_ok: "read_manifests int_value bool_value docs pm = Inr pm' \<Longrightarrow> packages_ok pm \<Longrightarrow> packages_ok pm'"
proof (induction docs arbitrary: pm)
  case (Cons doc docs)
  from Cons.prems(1) obtain info pm1 pm2 where 1: "parseManifest int_value bool_value doc pm = Inr (info, pm1)"
    and 2: "(case info of None \<Rightarrow> Inr pm1 | Some p \<Rightarrow> add_package p pm1) = Inr pm2" and 3: "read_manifests int_value bool_value docs pm2 = Inr pm'"
    by (auto simp: bind_result_eq_Inr)
  note parsed = parseManifest_Inr[OF 1]
  have ok1: "packages_ok pm1" using packages_ok_cong[OF Cons.prems(2)] parsed by blast
  have "packages_ok pm2"
  proof (cases info)
    case None
    then show ?thesis using 2 ok1 by simp
  next
    case (Some p)
    then have add: "add_package p pm1 = Inr pm2" using 2 by simp
    obtain n ss where "pi_packageName p = Some n" "pi_services p = Some ss" using parsed Some add_package_Inr[OF add] by blast
    then have "\<exists>pm'. add_package p pm1 = Inr pm' \<and> packages_ok pm'"
      using parsed Some by (intro add_package_ok[OF ok1]) blast+
    then show ?thesis using add by simp
  qed
  then show ?case by (rule Cons.IH[OF 3])
qed simp

lemma packages_ok_new: "packages_ok PackageManagerService_new"
  by (simp add: packages_ok_def PackageManagerService_new_def um_find_def)

lemma onCreate_ok:
  "PackageManagerService_onCreate int_value bool_value apps PackageManagerService_new = Inr pm \<Longrightarrow> packages_ok pm"
  using packages_ok_new by (auto simp: PackageManagerService_onCreate_def split: option.splits dest: read_manifests_ok)

section \<open>Requests\<close>

lemma package_requests_named:
  assumes "\<forall>si \<in> set ss. named si"
  shows "foldr (\<lambda>si r. if chosen si
           then bind_result (ComponentName_new (si_packageName si) (si_name si)) (\<lambda>c. bind_result r (\<lambda>rs. Inr (request c # rs)))
           else r) ss (Inr []) = Inr (map (request \<circ> component_of) (filter chosen ss))"
  using assms by (induction ss) (simp_all add: ComponentName_named)

definition installed_services :: "package_manager \<Rightarrow> package_service list" where
  "installed_services pm = concat (map (\<lambda>e. the (pi_services (the (snd e)))) (mPackages pm))"

lemma all_requests_named:
  assumes "\<forall>e \<in> set es. \<exists>p ss. snd e = Some p \<and> pi_services p = Some ss \<and> (\<forall>si \<in> set ss. named si)"
  shows "all_requests chosen request (map snd es) =
    Inr (map (request \<circ> component_of) (filter chosen (concat (map (\<lambda>e. the (pi_services (the (snd e)))) es))))"
  using assms
proof (induction es)
  case (Cons e es)
  then obtain p ss where "snd e = Some p" "pi_services p = Some ss" "\<forall>si \<in> set ss. named si" by auto
  then show ?case using Cons by (simp add: package_requests_def package_requests_named)
qed simp

lemma packages_ok_entries:
  "packages_ok pm \<Longrightarrow> \<forall>e \<in> set (mPackages pm). \<exists>p ss. snd e = Some p \<and> pi_services p = Some ss \<and> (\<forall>si \<in> set ss. named si)"
  unfolding packages_ok_def declares_def by blast

lemma onStartCommand_ok:
  assumes "packages_ok pm"
  shows "PackageManagerService_onStartCommand (Some (Some (ascii ''mindroid.content.pm.START_APPLICATIONS''))) pm =
      Inr (map (Start_service \<circ> component_of) (filter (\<lambda>si. isEnabled pm si \<and> hasFlag FLAG_AUTO_START si) (installed_services pm)))"
    and "PackageManagerService_onStartCommand (Some (Some (ascii ''mindroid.content.pm.SHUTDOWN_APPLICATIONS''))) pm =
      Inr (map (Stop_service \<circ> component_of) (filter (isEnabled pm) (installed_services pm)))"
  using all_requests_named[OF packages_ok_entries[OF assms]]
  by (auto simp: PackageManagerService_onStartCommand_def PackageManagerService_getInstalledPackages_def GET_SERVICES_def installed_services_def
      String_equals_cstr_def strcmp_eq_def ascii_def c_string_def)

lemma installed_declared: "packages_ok pm \<Longrightarrow> si \<in> set (installed_services pm) \<Longrightarrow> declares si pm"
  unfolding installed_services_def packages_ok_def by fastforce

lemma resolveService_declared:
  assumes "packages_ok pm"
  shows "PackageManagerService_resolveService (Some c) pm =
    Inr (case um_find component_equals c (mComponents pm) of None \<Rightarrow> None | Some v \<Rightarrow> v)"
  by (auto simp: PackageManagerService_resolveService_def HashMapKV_containsKey_def HashMapKV_get_def split: option.splits)

section \<open>Properties\<close>

definition example_manifest :: "xml_element list" where
  "example_manifest =
     [Element (ascii ''manifest'') [(ascii ''package'', ascii ''a.b'')]
       [Element (ascii ''application'') []
         [Element (ascii ''service'') [(ascii ''mindroid:name'', ascii ''.S''), (ascii ''mindroid:autostart'', ascii ''true'')] []]]]"

definition example_manager :: package_manager where
  "example_manager =
     (case PackageManagerService_onCreate (\<lambda>_. 0) (\<lambda>v. v = ascii ''true'') (Some [Some example_manifest]) PackageManagerService_new of
        Inr pm \<Rightarrow> pm | Inl _ \<Rightarrow> PackageManagerService_new)"

lemma example_created:
  "PackageManagerService_onCreate (\<lambda>_. 0) (\<lambda>v. v = ascii ''true'') (Some [Some example_manifest]) PackageManagerService_new = Inr example_manager"
proof -
  have "case PackageManagerService_onCreate (\<lambda>_. 0) (\<lambda>v. v = ascii ''true'') (Some [Some example_manifest]) PackageManagerService_new of
      Inr _ \<Rightarrow> True | Inl _ \<Rightarrow> False" by code_simp
  then show ?thesis unfolding example_manager_def by (auto split: sum.splits)
qed

text \<open>
  (C21) When the package manager has read the manifests, whatever they contain, \<open>resolveService\<close> finds every service of an installed package,
  whatever it finds has a name and answers to the component it was asked for, and it never fails.
\<close>

theorem PackageManager_resolves:
  assumes "PackageManagerService_onCreate int_value bool_value apps PackageManagerService_new = Inr pm"
  shows "(\<forall>si \<in> set (installed_services pm). \<exists>si'. PackageManagerService_resolveService (Some (component_of si)) pm = Inr (Some si') \<and>
      component_equals (component_of si') (component_of si)) \<and>
    (\<forall>c. \<exists>r. PackageManagerService_resolveService (Some c) pm = Inr r \<and>
      (\<forall>si. r = Some si \<longrightarrow> named si \<and> component_equals (component_of si) c))"
proof -
  note ok = onCreate_ok[OF assms]
  have found: "\<exists>si. v = Some si \<and> named si \<and> component_equals (component_of si) c"
    if "um_find component_equals c (mComponents pm) = Some v" for c v
    using ok that unfolding packages_ok_def by blast
  have "\<exists>si'. PackageManagerService_resolveService (Some (component_of si)) pm = Inr (Some si') \<and>
      component_equals (component_of si') (component_of si)" if "si \<in> set (installed_services pm)" for si
    using installed_declared[OF ok that] found[of "component_of si"]
    by (auto simp: resolveService_declared[OF ok] declares_def)
  moreover have "\<exists>r. PackageManagerService_resolveService (Some c) pm = Inr r \<and>
      (\<forall>si. r = Some si \<longrightarrow> named si \<and> component_equals (component_of si) c)" for c
    using found[of c] by (cases "um_find component_equals c (mComponents pm)") (auto simp: resolveService_declared[OF ok])
  ultimately show ?thesis by blast
qed

theorem PackageManager_resolves_witness:
  "\<exists>si'. PackageManagerService_resolveService (Some (component_of (hd (installed_services example_manager)))) example_manager = Inr (Some si')"
proof -
  have "installed_services example_manager \<noteq> []" by code_simp
  then have "hd (installed_services example_manager) \<in> set (installed_services example_manager)" by simp
  then show ?thesis using PackageManager_resolves[OF example_created] by blast
qed

text \<open>
  The command that starts the applications requests exactly the installed services that are enabled, in their package too, and marked
  for it, in the order of the packages; the one that shuts them down requests the end of all enabled ones; and every service
  that either requests is one that \<open>resolveService\<close> finds.
\<close>

theorem PackageManager_starts_enabled:
  assumes "PackageManagerService_onCreate int_value bool_value apps PackageManagerService_new = Inr pm"
  shows "PackageManagerService_onStartCommand (Some (Some (ascii ''mindroid.content.pm.START_APPLICATIONS''))) pm =
      Inr (map (Start_service \<circ> component_of) (filter (\<lambda>si. isEnabled pm si \<and> hasFlag FLAG_AUTO_START si) (installed_services pm))) \<and>
    PackageManagerService_onStartCommand (Some (Some (ascii ''mindroid.content.pm.SHUTDOWN_APPLICATIONS''))) pm =
      Inr (map (Stop_service \<circ> component_of) (filter (isEnabled pm) (installed_services pm))) \<and>
    (\<forall>si \<in> set (installed_services pm). PackageManagerService_resolveService (Some (component_of si)) pm \<noteq> Inr None)"
proof -
  note ok = onCreate_ok[OF assms]
  have "PackageManagerService_resolveService (Some (component_of si)) pm \<noteq> Inr None" if "si \<in> set (installed_services pm)" for si
    using installed_declared[OF ok that] ok unfolding declares_def packages_ok_def resolveService_declared[OF ok]
    by (auto split: option.splits) (metis option.distinct(1))
  then show ?thesis using onStartCommand_ok[OF ok] by blast
qed

theorem PackageManager_starts_enabled_witness:
  "PackageManagerService_onStartCommand (Some (Some (ascii ''mindroid.content.pm.START_APPLICATIONS''))) example_manager =
   Inr [Start_service (ComponentName (Some (ascii ''a.b'')) (Some (ascii ''S'')))]"
proof -
  have "map (Start_service \<circ> component_of) (filter (\<lambda>si. isEnabled example_manager si \<and> hasFlag FLAG_AUTO_START si) (installed_services example_manager)) =
      [Start_service (ComponentName (Some (ascii ''a.b'')) (Some (ascii ''S'')))]" by code_simp
  then show ?thesis using PackageManager_starts_enabled[OF example_created] by simp
qed

text \<open>
  Two manifests stop the package manager: one with a package name but without an application makes \<open>onCreate\<close> dereference null, and one whose service has
  the name of the package itself makes it throw \<open>IndexOutOfBoundsException\<close>, whatever the other manifests are.
\<close>

theorem PackageManager_bad_manifests:
  assumes "find (\<lambda>e. element_name e = ascii ''manifest'') elements = Some root" and "find_attribute ''package'' root = Some v" and "c_string v \<noteq> []"
  shows "((\<forall>e \<in> set (element_children root). element_name e \<noteq> ascii ''application'') \<longrightarrow>
      PackageManagerService_onCreate int_value bool_value (Some (Some elements # docs)) pm = Inl Undefined) \<and>
    (\<forall>ap aps e es w. element_children root = ap # aps \<and> element_name ap = ascii ''application'' \<and>
      element_children ap = e # es \<and> element_name e = ascii ''service'' \<and> find_attribute ''mindroid:name'' e = Some w \<and>
      c_string w = c_string v \<and> hd (c_string v) \<noteq> 46 \<longrightarrow>
      PackageManagerService_onCreate int_value bool_value (Some (Some elements # docs)) pm = Inl IndexOutOfBoundsException)"
proof (intro conjI impI allI)
  assume none: "\<forall>e \<in> set (element_children root). element_name e \<noteq> ascii ''application''"
  have "parse_applications bool_value a es ai s = Inr (s, ai)" if "\<forall>e \<in> set es. element_name e \<noteq> ascii ''application''" for a es ai s
    using that by (induction es) simp_all
  from this[OF none] show "PackageManagerService_onCreate int_value bool_value (Some (Some elements # docs)) pm = Inl Undefined"
    using assms by (simp add: PackageManagerService_onCreate_def parseManifest_def String_valueOf_cstr_def String_of_cstr_def String_length_def
        add_package_def HashMapKV_put_def Let_def)
next
  fix ap aps e es w
  assume *: "element_children root = ap # aps \<and> element_name ap = ascii ''application'' \<and>
      element_children ap = e # es \<and> element_name e = ascii ''service'' \<and> find_attribute ''mindroid:name'' e = Some w \<and>
      c_string w = c_string v \<and> hd (c_string v) \<noteq> 46"
  have c: "c_string (c_string v) = c_string v" by (rule c_string_id) (auto simp: c_string_def dest: set_takeWhileD)
  have dot: "ascii ''.'' = [46]" by code_simp
  obtain x xs where v: "c_string v = x # xs" using assms(3) by (cases "c_string v") auto
  have x: "c_string (x # xs) = x # xs" "x \<noteq> 46" using c v * by simp_all
  have "service_name (Some (Some (x # xs))) (Some w) = Inl IndexOutOfBoundsException"
    using * v x by (simp add: service_name_def String_valueOf_cstr_def String_of_cstr_def String_startsWith_cstr_def dot strlen_def
        c_string_def[of "[46]"] String_length_def String_c_str_def strncmp_eq_def String_startsWith_def String_substring_def)
  then have "parse_services bool_value a ai (element_children ap) = Inl IndexOutOfBoundsException" if "ai_packageName ai = Some (Some (x # xs))" for a ai
    using * that by (simp add: parseService_def)
  then have "parseApplication bool_value a (ApplicationInfo_new\<lparr>ai_packageName := Some (Some (c_string v))\<rparr>) ap = Inl IndexOutOfBoundsException" for a
    unfolding v by (simp add: parseApplication_def Let_def split: option.splits)
  then show "PackageManagerService_onCreate int_value bool_value (Some (Some elements # docs)) pm = Inl IndexOutOfBoundsException"
    using assms * by (simp add: PackageManagerService_onCreate_def parseManifest_def String_valueOf_cstr_def String_of_cstr_def String_length_def Let_def)
qed

theorem PackageManager_bad_manifests_witness:
  "PackageManagerService_onCreate (\<lambda>_. 0) (\<lambda>_. True) (Some [Some [Element (ascii ''manifest'') [(ascii ''package'', ascii ''a'')] []]])
     PackageManagerService_new = Inl Undefined"
proof -
  let ?e = "Element (ascii ''manifest'') [(ascii ''package'', ascii ''a'')] []"
  have "find (\<lambda>e. element_name e = ascii ''manifest'') [?e] = Some ?e" by simp
  moreover have "find_attribute ''package'' ?e = Some (ascii ''a'')" by (simp add: find_attribute_def)
  moreover have "c_string (ascii ''a'') \<noteq> []" by code_simp
  ultimately show ?thesis using PackageManager_bad_manifests[of "[?e]" ?e "ascii ''a''"] by simp
qed

end
