(* ===== verification/Shared_Preferences.thy ===== *)
theory Shared_Preferences
  imports Bundles
begin

text \<open>
  \<open>SharedPreferencesImpl\<close> (\<open>src/mindroid/app/SharedPreferencesImpl.h\<close> and \<open>.cpp\<close>): the map of preferences, the editor that collects changes, \<open>commit\<close>, and how the
  map is stored in a file with a backup file beside it.

  A preference is one of the variants that the class stores, with the content of its string or set of strings; every other variant is
  \<open>Pref_other\<close>. The XML library is a parameter: how it prints and reads the values of attributes (\<open>codec\<close>). Whether an
  operation on a file succeeds is a choice of the environment, and a process can be killed between any two of them and in the
  middle of writing a file; renaming is atomic. \<open>fsync\<close> and the log are not modelled.
\<close>

section \<open>Preferences\<close>

datatype pref_value =
    Pref_null
  | Pref_bool bool
  | Pref_int int32
  | Pref_long int64
  | Pref_float uint32
  | Pref_string str
  | Pref_set "str list"
  | Pref_other

type_synonym pref_map = "(str \<times> pref_value option) list"

text \<open>\<open>Variant::equals\<close>; a set is equal to itself only, and \<open>commit\<close> never compares one with itself.\<close>

fun pref_equals :: "pref_value \<Rightarrow> pref_value \<Rightarrow> bool" where
  "pref_equals Pref_null Pref_null \<longleftrightarrow> True"
| "pref_equals (Pref_bool a) (Pref_bool b) \<longleftrightarrow> a = b"
| "pref_equals (Pref_int a) (Pref_int b) \<longleftrightarrow> a = b"
| "pref_equals (Pref_long a) (Pref_long b) \<longleftrightarrow> a = b"
| "pref_equals (Pref_float a) (Pref_float b) \<longleftrightarrow> float_equal a b"
| "pref_equals (Pref_string a) (Pref_string b) \<longleftrightarrow> string_keys a b"
| "pref_equals _ _ \<longleftrightarrow> False"

definition pref_get :: "(pref_value \<Rightarrow> 'a option) \<Rightarrow> str option \<Rightarrow> 'a \<Rightarrow> pref_map \<Rightarrow> 'a result" where
  "pref_get select key defValue m =
     bind_result (HashMapKV_get string_keys key m) (\<lambda>value.
       Inr (case value of None \<Rightarrow> defValue | Some v \<Rightarrow> (case select v of Some x \<Rightarrow> x | None \<Rightarrow> defValue)))"

definition SharedPreferences_getString :: "str option \<Rightarrow> str option \<Rightarrow> pref_map \<Rightarrow> str option result" where
  "SharedPreferences_getString key defValue m = pref_get (\<lambda>v. case v of Pref_string s \<Rightarrow> Some (Some s) | _ \<Rightarrow> None) key defValue m"

definition SharedPreferences_getStringSet :: "str option \<Rightarrow> str list option \<Rightarrow> pref_map \<Rightarrow> str list option result" where
  "SharedPreferences_getStringSet key defValues m = pref_get (\<lambda>v. case v of Pref_set s \<Rightarrow> Some (Some s) | _ \<Rightarrow> None) key defValues m"

definition SharedPreferences_getInt :: "str option \<Rightarrow> int32 \<Rightarrow> pref_map \<Rightarrow> int32 result" where
  "SharedPreferences_getInt key defValue m = pref_get (\<lambda>v. case v of Pref_int i \<Rightarrow> Some i | _ \<Rightarrow> None) key defValue m"

definition SharedPreferences_getLong :: "str option \<Rightarrow> int64 \<Rightarrow> pref_map \<Rightarrow> int64 result" where
  "SharedPreferences_getLong key defValue m = pref_get (\<lambda>v. case v of Pref_long i \<Rightarrow> Some i | _ \<Rightarrow> None) key defValue m"

definition SharedPreferences_getFloat :: "str option \<Rightarrow> uint32 \<Rightarrow> pref_map \<Rightarrow> uint32 result" where
  "SharedPreferences_getFloat key defValue m = pref_get (\<lambda>v. case v of Pref_float i \<Rightarrow> Some i | _ \<Rightarrow> None) key defValue m"

definition SharedPreferences_getBoolean :: "str option \<Rightarrow> bool \<Rightarrow> pref_map \<Rightarrow> bool result" where
  "SharedPreferences_getBoolean key defValue m = pref_get (\<lambda>v. case v of Pref_bool b \<Rightarrow> Some b | _ \<Rightarrow> None) key defValue m"

definition SharedPreferences_contains :: "str option \<Rightarrow> pref_map \<Rightarrow> bool" where
  "SharedPreferences_contains key m = HashMapKV_containsKey string_keys key m"

section \<open>The editor\<close>

record editor =
  mModifications :: pref_map
  mClearMap :: bool

definition Editor_new :: editor where
  "Editor_new = \<lparr>mModifications = [], mClearMap = False\<rparr>"

definition editor_put :: "str option \<Rightarrow> pref_value option \<Rightarrow> editor \<Rightarrow> editor result" where
  "editor_put key v ed = bind_result (HashMapKV_put string_keys key v (mModifications ed)) (\<lambda>(_, m). Inr (ed\<lparr>mModifications := m\<rparr>))"

definition Editor_putString :: "str option \<Rightarrow> str option \<Rightarrow> editor \<Rightarrow> editor result" where
  "Editor_putString key value ed = editor_put key (map_option Pref_string value) ed"

definition Editor_putStringSet :: "str option \<Rightarrow> str list option \<Rightarrow> editor \<Rightarrow> editor result" where
  "Editor_putStringSet key values ed = editor_put key (map_option Pref_set values) ed"

definition Editor_putInt :: "str option \<Rightarrow> int32 \<Rightarrow> editor \<Rightarrow> editor result" where
  "Editor_putInt key value ed = editor_put key (Some (Pref_int value)) ed"

definition Editor_putLong :: "str option \<Rightarrow> int64 \<Rightarrow> editor \<Rightarrow> editor result" where
  "Editor_putLong key value ed = editor_put key (Some (Pref_long value)) ed"

definition Editor_putFloat :: "str option \<Rightarrow> uint32 \<Rightarrow> editor \<Rightarrow> editor result" where
  "Editor_putFloat key value ed = editor_put key (Some (Pref_float value)) ed"

definition Editor_putBoolean :: "str option \<Rightarrow> bool \<Rightarrow> editor \<Rightarrow> editor result" where
  "Editor_putBoolean key value ed = editor_put key (Some (Pref_bool value)) ed"

definition Editor_remove :: "str option \<Rightarrow> editor \<Rightarrow> editor result" where
  "Editor_remove key ed = editor_put key None ed"

definition Editor_clear :: "editor \<Rightarrow> editor" where
  "Editor_clear ed = ed\<lparr>mClearMap := True\<rparr>"

section \<open>Documents\<close>

datatype xml_node = Element_node bytes "(bytes \<times> bytes) list" "xml_node list" | Text_node bytes

record codec =
  print_int :: "int32 \<Rightarrow> bytes"
  int_value :: "bytes \<Rightarrow> int32"
  print_float :: "uint32 \<Rightarrow> bytes"
  float_value :: "bytes \<Rightarrow> uint32"
  bool_value :: "bytes \<Rightarrow> bool"

definition tag :: "string \<Rightarrow> bytes" where
  "tag s = map (\<lambda>c. of_nat (of_char c)) s"

text \<open>\<open>c_str\<close> as a value of the document; null is not allowed.\<close>

definition xml_string :: "str \<Rightarrow> bytes result" where
  "xml_string s = bind_result (deref (String_c_str s)) (\<lambda>bs. Inr (c_string bs))"

fun write_strings :: "str list \<Rightarrow> xml_node list result" where
  "write_strings [] = Inr []"
| "write_strings (s # ss) =
     bind_result (xml_string s) (\<lambda>t. bind_result (write_strings ss) (\<lambda>es. Inr (Element_node (tag ''string'') [] [Text_node t] # es)))"

definition writeValue :: "codec \<Rightarrow> str \<Rightarrow> pref_value option \<Rightarrow> xml_node option result" where
  "writeValue cd name value =
     (case value of
        None \<Rightarrow> Inr None
      | Some v \<Rightarrow>
          bind_result (xml_string name) (\<lambda>n.
            case v of
              Pref_bool b \<Rightarrow> Inr (Some (Element_node (tag ''boolean'')
                [(tag ''name'', n), (tag ''value'', if b then tag ''true'' else tag ''false'')] []))
            | Pref_int i \<Rightarrow> Inr (Some (Element_node (tag ''int'') [(tag ''name'', n), (tag ''value'', print_int cd i)] []))
            | Pref_long i \<Rightarrow> Inr (Some (Element_node (tag ''long'') [(tag ''name'', n), (tag ''value'', print_int cd (ucast i))] []))
            | Pref_float f \<Rightarrow> Inr (Some (Element_node (tag ''float'') [(tag ''name'', n), (tag ''value'', print_float cd f)] []))
            | Pref_string s \<Rightarrow> bind_result (xml_string s) (\<lambda>t. Inr (Some (Element_node (tag ''string'') [(tag ''name'', n)] [Text_node t])))
            | Pref_set ss \<Rightarrow> bind_result (write_strings ss) (\<lambda>es. Inr (Some (Element_node (tag ''set'') [(tag ''name'', n)] es)))
            | _ \<Rightarrow> Inr None))"

fun writeMap :: "codec \<Rightarrow> pref_map \<Rightarrow> xml_node list result" where
  "writeMap cd [] = Inr []"
| "writeMap cd ((k, v) # m) =
     bind_result (writeValue cd k v) (\<lambda>e. bind_result (writeMap cd m) (\<lambda>es. Inr (case e of None \<Rightarrow> es | Some x \<Rightarrow> x # es)))"

text \<open>\<open>FirstChild()->Value()\<close>: the text, or the name of a child element.\<close>

fun node_value :: "xml_node \<Rightarrow> bytes" where
  "node_value (Text_node t) = t"
| "node_value (Element_node n as cs) = n"

definition attribute_string :: "bytes \<Rightarrow> str" where
  "attribute_string v = Some (c_string v)"

definition put_pref :: "bytes \<Rightarrow> pref_value \<Rightarrow> pref_map \<Rightarrow> pref_map result" where
  "put_pref name v m = bind_result (HashMapKV_put string_keys (Some (attribute_string name)) (Some v) m) (\<lambda>(_, m). Inr m)"

definition parse_attribute :: "(bytes \<Rightarrow> pref_value) \<Rightarrow> (bytes \<times> bytes) list \<Rightarrow> pref_map \<Rightarrow> pref_map result" where
  "parse_attribute convert as m =
     (case (map_of as (tag ''name''), map_of as (tag ''value'')) of
        (Some name, Some value) \<Rightarrow> put_pref name (convert value) m
      | _ \<Rightarrow> Inr m)"

definition parseBoolean :: "codec \<Rightarrow> (bytes \<times> bytes) list \<Rightarrow> pref_map \<Rightarrow> pref_map result" where
  "parseBoolean cd as m = parse_attribute (\<lambda>v. Pref_bool (bool_value cd v)) as m"

definition parseInt :: "codec \<Rightarrow> (bytes \<times> bytes) list \<Rightarrow> pref_map \<Rightarrow> pref_map result" where
  "parseInt cd as m = parse_attribute (\<lambda>v. Pref_int (int_value cd v)) as m"

definition parseLong :: "codec \<Rightarrow> (bytes \<times> bytes) list \<Rightarrow> pref_map \<Rightarrow> pref_map result" where
  "parseLong cd as m = parse_attribute (\<lambda>v. Pref_long (scast (int_value cd v))) as m"

definition parseFloat :: "codec \<Rightarrow> (bytes \<times> bytes) list \<Rightarrow> pref_map \<Rightarrow> pref_map result" where
  "parseFloat cd as m = parse_attribute (\<lambda>v. Pref_float (float_value cd v)) as m"

definition parseString :: "(bytes \<times> bytes) list \<Rightarrow> xml_node list \<Rightarrow> pref_map \<Rightarrow> pref_map result" where
  "parseString as cs m =
     (case map_of as (tag ''name'') of
        None \<Rightarrow> Inr m
      | Some name \<Rightarrow> put_pref name (Pref_string (attribute_string (case cs of [] \<Rightarrow> [] | c # _ \<Rightarrow> node_value c))) m)"

fun parse_strings :: "xml_node list \<Rightarrow> str list \<Rightarrow> str list" where
  "parse_strings [] s = s"
| "parse_strings (Element_node n as cs # es) s =
     (if n = tag ''string''
      then (case cs of [] \<Rightarrow> parse_strings es s | c # _ \<Rightarrow> parse_strings es (snd (us_insert string_keys (attribute_string (node_value c)) s)))
      else parse_strings es s)"
| "parse_strings (Text_node t # es) s = parse_strings es s"

definition parseStringSet :: "(bytes \<times> bytes) list \<Rightarrow> xml_node list \<Rightarrow> pref_map \<Rightarrow> pref_map result" where
  "parseStringSet as cs m =
     (case map_of as (tag ''name'') of None \<Rightarrow> Inr m | Some name \<Rightarrow> put_pref name (Pref_set (parse_strings cs [])) m)"

fun read_elements :: "codec \<Rightarrow> xml_node list \<Rightarrow> pref_map \<Rightarrow> pref_map result" where
  "read_elements cd [] m = Inr m"
| "read_elements cd (Text_node t # es) m = read_elements cd es m"
| "read_elements cd (Element_node n as cs # es) m =
     bind_result
       (if n = tag ''boolean'' then parseBoolean cd as m
        else if n = tag ''int'' then parseInt cd as m
        else if n = tag ''long'' then parseLong cd as m
        else if n = tag ''float'' then parseFloat cd as m
        else if n = tag ''string'' then parseString as cs m
        else if n = tag ''set'' then parseStringSet as cs m
        else Inr m)
       (read_elements cd es)"

text \<open>The elements below \<open>map\<close>, or null.\<close>

definition readMap :: "codec \<Rightarrow> xml_node list option \<Rightarrow> pref_map option result" where
  "readMap cd doc = (case doc of None \<Rightarrow> Inr None | Some es \<Rightarrow> bind_result (read_elements cd es []) (\<lambda>m. Inr (Some m)))"

section \<open>Files\<close>

text \<open>A file that was not written to its end cannot be read.\<close>

datatype file_content = Document "xml_node list" | Partial

record files =
  main_file :: "file_content option"
  backup_file :: "file_content option"

datatype saving = Saved | Broken_off | Not_opened

record file_choices =
  rename_succeeds :: bool
  remove_main_succeeds :: bool
  saving :: saving
  remove_backup_succeeds :: bool
  remove_partial_succeeds :: bool

text \<open>\<open>storeSharedPrefs\<close>: its result, and the files after each of its steps.\<close>

definition save_prefs :: "file_choices \<Rightarrow> xml_node list \<Rightarrow> files \<Rightarrow> bool \<times> files list" where
  "save_prefs ch doc s1 =
     (case saving ch of
        Saved \<Rightarrow>
          let s2 = s1\<lparr>main_file := Some Partial\<rparr>; s3 = s1\<lparr>main_file := Some (Document doc)\<rparr>;
              s4 = (if backup_file s3 \<noteq> None \<and> remove_backup_succeeds ch then s3\<lparr>backup_file := None\<rparr> else s3)
          in (True, [s2, s3, s4])
      | Broken_off \<Rightarrow>
          let s2 = s1\<lparr>main_file := Some Partial\<rparr>; s3 = (if remove_partial_succeeds ch then s2\<lparr>main_file := None\<rparr> else s2)
          in (False, [s2, s3])
      | Not_opened \<Rightarrow>
          (False, [if main_file s1 \<noteq> None \<and> remove_partial_succeeds ch then s1\<lparr>main_file := None\<rparr> else s1]))"

definition storeSharedPrefs :: "codec \<Rightarrow> file_choices \<Rightarrow> pref_map \<Rightarrow> files \<Rightarrow> (bool \<times> files list) result" where
  "storeSharedPrefs cd ch m s0 =
     (if main_file s0 \<noteq> None \<and> backup_file s0 = None \<and> \<not> rename_succeeds ch then Inr (False, [s0])
      else let s1 = (if main_file s0 = None then s0
                     else if backup_file s0 = None then \<lparr>main_file = None, backup_file = main_file s0\<rparr>
                     else if remove_main_succeeds ch then s0\<lparr>main_file := None\<rparr>
                     else s0)
           in bind_result (writeMap cd m) (\<lambda>doc. let (r, ss) = save_prefs ch doc s1 in Inr (r, s0 # s1 # ss)))"

record load_choices =
  load_remove_succeeds :: bool
  load_rename_succeeds :: bool
  can_read :: bool

definition loadSharedPrefs :: "codec \<Rightarrow> load_choices \<Rightarrow> files \<Rightarrow> (pref_map \<times> files) result" where
  "loadSharedPrefs cd ch s0 =
     (let s1 = (if backup_file s0 \<noteq> None
                then let s = (if load_remove_succeeds ch then s0\<lparr>main_file := None\<rparr> else s0)
                     in if load_rename_succeeds ch then \<lparr>main_file = backup_file s, backup_file = None\<rparr> else s
                else s0)
      in case main_file s1 of
           None \<Rightarrow> Inr ([], s1)
         | Some c \<Rightarrow>
             if can_read ch
             then bind_result (readMap cd (case c of Document es \<Rightarrow> Some es | Partial \<Rightarrow> None)) (\<lambda>map.
                    Inr (case map of None \<Rightarrow> [] | Some m \<Rightarrow> m, s1))
             else Inr ([], s1))"

section \<open>Committing\<close>

definition commit_entry :: "str \<Rightarrow> pref_value option \<Rightarrow> pref_map \<Rightarrow> (bool \<times> pref_map) result" where
  "commit_entry k v m =
     (if v = None \<or> v = Some Pref_null
      then if \<not> HashMapKV_containsKey string_keys (Some k) m then Inr (False, m)
           else bind_result (HashMapKV_remove string_keys (Some k) m) (\<lambda>(_, m). Inr (True, m))
      else if HashMapKV_containsKey string_keys (Some k) m
      then bind_result (HashMapKV_get string_keys (Some k) m) (\<lambda>existing.
             if existing \<noteq> None \<and> pref_equals (the existing) (the v) then Inr (False, m)
             else bind_result (HashMapKV_put string_keys (Some k) v m) (\<lambda>(_, m). Inr (True, m)))
      else bind_result (HashMapKV_put string_keys (Some k) v m) (\<lambda>(_, m). Inr (True, m)))"

text \<open>The loop over the modifications; the keys are those that were changed.\<close>

fun commit_entries :: "pref_map \<Rightarrow> pref_map \<Rightarrow> (str list \<times> pref_map) result" where
  "commit_entries [] m = Inr ([], m)"
| "commit_entries ((k, v) # es) m =
     bind_result (commit_entry k v m) (\<lambda>(changed, m).
     bind_result (commit_entries es m) (\<lambda>(keys, m). Inr (if changed then k # keys else keys, m)))"

text \<open>
  \<open>commit\<close>: its result, the editor, the map, the files after each step if it stores, and the keys that the listeners (\<open>listeners\<close> says
  whether there are any) are told of.
\<close>

definition EditorImpl_commit ::
  "codec \<Rightarrow> file_choices \<Rightarrow> bool \<Rightarrow> editor \<Rightarrow> pref_map \<Rightarrow> files \<Rightarrow> (bool \<times> editor \<times> pref_map \<times> files list \<times> str list option) result" where
  "EditorImpl_commit cd ch listeners ed m fs =
     (let cleared = (mClearMap ed \<and> \<not> HashMapKV_isEmpty m);
          m = (if cleared then HashMapKV_clear m else m)
      in bind_result (commit_entries (mModifications ed) m) (\<lambda>(keys, m).
           let ed = Editor_new
           in if cleared \<or> keys \<noteq> []
              then bind_result (storeSharedPrefs cd ch m fs) (\<lambda>(r, ss).
                     Inr (r, ed, m, ss, if r \<and> listeners then Some keys else None))
              else Inr (False, ed, m, [fs], None)))"

section \<open>Crash safety\<close>

text \<open>What a process reads that starts with these files.\<close>

definition prefs_stored :: "codec \<Rightarrow> files \<Rightarrow> pref_map result" where
  "prefs_stored cd s = map_sum id fst (loadSharedPrefs cd \<lparr>load_remove_succeeds = True, load_rename_succeeds = True, can_read = True\<rparr> s)"

definition content_read :: "codec \<Rightarrow> file_content option \<Rightarrow> pref_map result" where
  "content_read cd c =
     (case c of Some (Document es) \<Rightarrow> read_elements cd es [] | _ \<Rightarrow> Inr [])"

lemma prefs_stored_content: "prefs_stored cd s = content_read cd (if backup_file s \<noteq> None then backup_file s else main_file s)"
  by (auto simp: prefs_stored_def content_read_def loadSharedPrefs_def readMap_def bind_result_def split: option.splits file_content.splits sum.splits)


text \<open>A printer and reader of numbers that are inverse to each other, for examples.\<close>

definition example_codec :: codec where
  "example_codec = \<lparr>print_int = (\<lambda>i. word_bytes 4 i), int_value = (\<lambda>bs. bytes_word bs), print_float = (\<lambda>_. []), float_value = (\<lambda>_. 0),
     bool_value = (\<lambda>v. v = tag ''true'')\<rparr>"

definition example_choices :: file_choices where
  "example_choices = \<lparr>rename_succeeds = True, remove_main_succeeds = True, saving = Saved, remove_backup_succeeds = False,
     remove_partial_succeeds = True\<rparr>"

definition example_files :: files where
  "example_files = \<lparr>main_file = Some (Document [Text_node []]), backup_file = None\<rparr>"


section \<open>What a commit changes\<close>

text \<open>A modification \<open>v\<close> and what is found under its key afterwards: nothing, or the new value or one equal to it.\<close>

definition committed :: "pref_value option \<Rightarrow> pref_value option option \<Rightarrow> bool" where
  "committed v found \<longleftrightarrow>
     (if v = None \<or> v = Some Pref_null then found = None
      else \<exists>w. found = Some (Some w) \<and> (w = the v \<or> pref_equals w (the v)))"

lemma commit_entry_lookup:
  assumes "um_inv string_keys m"
  shows "\<exists>b m'. commit_entry k v m = Inr (b, m') \<and> um_inv string_keys m' \<and>
    (\<forall>l. \<not> string_keys k l \<longrightarrow> um_find string_keys l m' = um_find string_keys l m) \<and>
    committed v (um_find string_keys k m') \<and> (\<not> b \<longrightarrow> m' = m)"
proof (cases "v = None \<or> v = Some Pref_null")
  case True
  show ?thesis
  proof (cases "um_find string_keys k m")
    case None
    then show ?thesis using True assms by (auto simp: committed_def commit_entry_def HashMapKV_containsKey_def)
  next
    case (Some x)
    then show ?thesis using True assms string_key.um_erase_inv[OF assms, of k] string_key.um_find_erase[OF assms, of _ k]
      by (auto simp: committed_def commit_entry_def HashMapKV_containsKey_def HashMapKV_remove_def)
  qed
next
  case False
  then obtain x where x: "v = Some x" by auto
  let ?m = "um_store string_keys k v (um_index None string_keys k m)"
  have put: "HashMapKV_put string_keys (Some k) v m = Inr (case um_find string_keys k m of Some w \<Rightarrow> w | None \<Rightarrow> None, ?m)"
    by (simp add: HashMapKV_put_def Let_def)
  note find = string_key.um_assign_find[of _ k v None m] and inv = string_key.um_assign_inv[OF assms, of k v None]
  show ?thesis
  proof (cases "\<exists>w. um_find string_keys k m = Some (Some w) \<and> pref_equals w x")
    case True
    then show ?thesis using False x assms by (auto simp: committed_def commit_entry_def HashMapKV_containsKey_def HashMapKV_get_def)
  next
    case no: False
    have "commit_entry k v m = Inr (True, ?m)"
      using False x no put by (auto simp: commit_entry_def HashMapKV_containsKey_def HashMapKV_get_def split: option.splits)
    then show ?thesis using False x find inv by (auto simp: committed_def)
  qed
qed

lemma commit_entries_lookup:
  assumes "um_inv string_keys es" and "um_inv string_keys m"
  shows "\<exists>keys m'. commit_entries es m = Inr (keys, m') \<and> um_inv string_keys m' \<and> (keys = [] \<longrightarrow> m' = m) \<and>
    (\<forall>l. case um_find string_keys l es of None \<Rightarrow> um_find string_keys l m' = um_find string_keys l m
      | Some v \<Rightarrow> committed v (um_find string_keys l m'))"
  using assms
proof (induction es arbitrary: m)
  case (Cons e es)
  obtain k v where e: "e = (k, v)" by (cases e)
  obtain b m1 where 1: "commit_entry k v m = Inr (b, m1)" "um_inv string_keys m1"
    "\<And>l. \<not> string_keys k l \<Longrightarrow> um_find string_keys l m1 = um_find string_keys l m" "committed v (um_find string_keys k m1)" "\<not> b \<longrightarrow> m1 = m"
    using commit_entry_lookup[OF Cons.prems(2), of k v] by blast
  obtain keys m2 where 2: "commit_entries es m1 = Inr (keys, m2)" "um_inv string_keys m2" "keys = [] \<longrightarrow> m2 = m1"
    "\<And>l. case um_find string_keys l es of None \<Rightarrow> um_find string_keys l m2 = um_find string_keys l m1
      | Some w \<Rightarrow> committed w (um_find string_keys l m2)"
    using Cons.IH[of m1] Cons.prems(1) 1(2) e by auto
  have "case um_find string_keys l (e # es) of None \<Rightarrow> um_find string_keys l m2 = um_find string_keys l m
      | Some w \<Rightarrow> committed w (um_find string_keys l m2)" for l
  proof (cases "string_keys l k")
    case True
    have "um_find string_keys l es = None"
      using Cons.prems(1) e True string_key.eq_trans[OF string_key.eq_sym[OF True]] by (fastforce simp: um_find_None)
    then have "um_find string_keys l m2 = um_find string_keys k m1"
      using 2(4)[of l] string_key.um_find_cong[OF True, of m1] by simp
    then show ?thesis using True e 1(4) by simp
  next
    case False
    then have "\<not> string_keys k l" using string_key.eq_sym by blast
    then show ?thesis using False e 2(4)[of l] 1(3)[of l] by (simp split: option.splits)
  qed
  moreover have "commit_entries (e # es) m = Inr (if b then k # keys else keys, m2)" using e 1(1) 2(1) by simp
  ultimately show ?case using 2(2,3) 1(5) by (intro exI[of _ "if b then k # keys else keys"] exI[of _ m2]) simp
qed simp



section \<open>Round trip\<close>

text \<open>What a stored preference is read as: a long keeps its low 32 bits, and other variants are not stored.\<close>

fun reread :: "codec \<Rightarrow> pref_value \<Rightarrow> pref_value option" where
  "reread cd (Pref_bool b) = Some (Pref_bool b)"
| "reread cd (Pref_int i) = Some (Pref_int i)"
| "reread cd (Pref_long i) = Some (Pref_long (scast (ucast i :: int32)))"
| "reread cd (Pref_float f) = Some (Pref_float (float_value cd (print_float cd f)))"
| "reread cd (Pref_string s) = Some (Pref_string s)"
| "reread cd (Pref_set ss) = Some (Pref_set ss)"
| "reread cd _ = None"

text \<open>Strings without null pointers and NUL characters, and sets without equal strings.\<close>

definition plain_string :: "str \<Rightarrow> bool" where
  "plain_string s \<longleftrightarrow> (\<exists>bs. s = Some bs \<and> 0 \<notin> set bs)"

fun plain_pref :: "pref_value \<Rightarrow> bool" where
  "plain_pref (Pref_string s) \<longleftrightarrow> plain_string s"
| "plain_pref (Pref_set ss) \<longleftrightarrow> (\<forall>s \<in> set ss. plain_string s) \<and> distinct ss"
| "plain_pref _ \<longleftrightarrow> True"

definition plain_map :: "pref_map \<Rightarrow> bool" where
  "plain_map m \<longleftrightarrow> distinct (map fst m) \<and> (\<forall>(k, v) \<in> set m. plain_string k \<and> (\<forall>x. v = Some x \<longrightarrow> plain_pref x))"

definition codec_ok :: "codec \<Rightarrow> bool" where
  "codec_ok cd \<longleftrightarrow> (\<forall>i. int_value cd (print_int cd i) = i) \<and> bool_value cd (tag ''true'') \<and> \<not> bool_value cd (tag ''false'')"

lemma plain_keys: "plain_string a \<Longrightarrow> plain_string b \<Longrightarrow> string_keys a b \<longleftrightarrow> a = b"
  by (auto simp: plain_string_def string_keys_def String_equals_def String_equals_string_def strcmp_eq_def)

lemma xml_plain: "plain_string s \<Longrightarrow> \<exists>bs. s = Some bs \<and> xml_string s = Inr bs \<and> attribute_string bs = s"
  by (auto simp: plain_string_def xml_string_def String_c_str_def attribute_string_def)

lemma write_strings_plain:
  "\<forall>s \<in> set ss. plain_string s \<Longrightarrow> distinct (acc @ ss) \<Longrightarrow> \<forall>s \<in> set acc. plain_string s \<Longrightarrow>
   \<exists>es. write_strings ss = Inr es \<and> parse_strings es acc = acc @ ss"
proof (induction ss arbitrary: acc)
  case (Cons s ss)
  obtain bs where bs: "s = Some bs" "xml_string s = Inr bs" "attribute_string bs = s" using xml_plain[of s] Cons.prems(1) by auto
  have "\<not> string_keys s a" if "a \<in> set acc" for a
    using that Cons.prems plain_keys[of s a] by auto
  then have "us_insert string_keys s acc = (True, acc @ [s])" by (auto simp: us_insert_def)
  moreover obtain es where "write_strings ss = Inr es" "parse_strings es (acc @ [s]) = (acc @ [s]) @ ss"
    using Cons.IH[of "acc @ [s]"] Cons.prems by auto
  ultimately show ?case using bs by simp
qed simp

lemma put_pref_new:
  assumes "plain_string k" "\<forall>l \<in> fst ` set m. plain_string l \<and> l \<noteq> k" "attribute_string n = k"
  shows "put_pref n v m = Inr (m @ [(k, Some v)])"
proof -
  have none: "um_find string_keys k m = None" using assms(1,2) by (auto simp: um_find_None plain_keys)
  have "um_store string_keys k (Some v) (m @ [(k, None)]) = m @ [(k, Some v)]"
    using none by (induction m) (auto split: if_splits)
  then show ?thesis using none assms(3) by (simp add: put_pref_def HashMapKV_put_def um_index_def)
qed

lemma tags: "distinct [tag ''set'', tag ''string'', tag ''float'', tag ''long'', tag ''int'', tag ''boolean'']" "tag ''name'' \<noteq> tag ''value''"
  "tag ''value'' \<noteq> tag ''name''"
  by code_simp+

lemma write_pref_plain:
  assumes "plain_string k" and "plain_pref x" and "codec_ok cd" and "\<forall>l \<in> fst ` set acc. plain_string l \<and> l \<noteq> k"
  shows "\<exists>e. writeValue cd k (Some x) = Inr e \<and>
    (\<forall>es. read_elements cd (case e of None \<Rightarrow> es | Some el \<Rightarrow> el # es) acc =
      read_elements cd es (acc @ (case reread cd x of None \<Rightarrow> [] | Some w \<Rightarrow> [(k, Some w)])))"
proof -
  obtain n where n: "xml_string k = Inr n" "attribute_string n = k" using xml_plain[OF assms(1)] by blast
  note put = put_pref_new[OF assms(1,4) n(2)]
  note defs = writeValue_def n(1) parse_attribute_def parseBoolean_def parseInt_def parseLong_def parseFloat_def parseString_def parseStringSet_def put
  show ?thesis
  proof (cases x)
    case (Pref_string s)
    then obtain t where "xml_string s = Inr t" "attribute_string t = s" using assms(2) xml_plain by auto
    then show ?thesis using Pref_string tags by (simp add: defs)
  next
    case (Pref_set ss)
    then obtain es where "write_strings ss = Inr es" "parse_strings es [] = ss" using assms(2) write_strings_plain[of ss "[]"] by auto
    then show ?thesis using Pref_set tags by (simp add: defs)
  qed (use assms(3) tags in \<open>simp_all add: defs codec_ok_def\<close>)
qed

definition reread_map :: "codec \<Rightarrow> pref_map \<Rightarrow> pref_map" where
  "reread_map cd m =
     concat (map (\<lambda>(k, v). case v of None \<Rightarrow> [] | Some x \<Rightarrow> (case reread cd x of None \<Rightarrow> [] | Some w \<Rightarrow> [(k, Some w)])) m)"

lemma write_map_plain:
  assumes "plain_map m" and "codec_ok cd" and "\<forall>l \<in> fst ` set acc. plain_string l \<and> l \<notin> fst ` set m"
  shows "\<exists>doc. writeMap cd m = Inr doc \<and> read_elements cd doc acc = Inr (acc @ reread_map cd m)"
  using assms(1,3)
proof (induction m arbitrary: acc)
  case (Cons e m)
  obtain k v where e: "e = (k, v)" by (cases e)
  have m: "plain_map m" "plain_string k" "k \<notin> fst ` set m" using Cons.prems(1) e by (auto simp: plain_map_def)
  have acc: "\<forall>l \<in> fst ` set acc. plain_string l \<and> l \<noteq> k" using Cons.prems(2) e by auto
  show ?case
  proof (cases v)
    case None
    then show ?thesis using Cons.IH[OF m(1), of acc] Cons.prems(2) e by (auto simp: writeValue_def reread_map_def)
  next
    case (Some x)
    then have "plain_pref x" using Cons.prems(1) e by (auto simp: plain_map_def)
    from write_pref_plain[OF m(2) this assms(2) acc] obtain el where el: "writeValue cd k (Some x) = Inr el"
      "\<And>es. read_elements cd (case el of None \<Rightarrow> es | Some el \<Rightarrow> el # es) acc =
        read_elements cd es (acc @ (case reread cd x of None \<Rightarrow> [] | Some w \<Rightarrow> [(k, Some w)]))" by blast
    let ?acc = "acc @ (case reread cd x of None \<Rightarrow> [] | Some w \<Rightarrow> [(k, Some w)])"
    have "\<forall>l \<in> fst ` set ?acc. plain_string l \<and> l \<notin> fst ` set m"
      using Cons.prems(2) e m by (force split: option.splits)
    then obtain doc where "writeMap cd m = Inr doc" "read_elements cd doc ?acc = Inr (?acc @ reread_map cd m)"
      using Cons.IH[OF m(1)] by blast
    then show ?thesis using el e Some by (simp add: reread_map_def split: option.splits)
  qed
qed (simp add: reread_map_def)



end
