(* ===== verification/URIs.thy ===== *)
theory URIs
  imports Numbers String_Builders
begin

text \<open>
  URIs (\<open>src/mindroid/net/URI.h\<close>, \<open>URI.cpp\<close>): the parser of a URI and of its authority, the constructors that put one together from its components,
  equality and hash codes. An object whose constructor throws does not exist. A length is below \<open>2 ^ 31\<close> where the code keeps an
  index in an \<open>int\<close>.
\<close>

section \<open>The object\<close>

text \<open>\<open>mOpaque\<close> has no initial value, which is \<open>None\<close> here; \<open>- 1\<close> is the port that is not given.\<close>

record uri =
  mString :: "str option"
  mScheme :: "str option"
  mSchemeSpecificPart :: "str option"
  mAuthority :: "str option"
  mUserInfo :: "str option"
  mHost :: "str option"
  mPort :: int32
  mPath :: "str option"
  mQuery :: "str option"
  mFragment :: "str option"
  mOpaque :: "bool option"
  mHashCode :: size_t

definition uri_blank :: uri where
  "uri_blank =
     \<lparr>mString = None, mScheme = None, mSchemeSpecificPart = None, mAuthority = None, mUserInfo = None, mHost = None, mPort = - 1,
      mPath = None, mQuery = None, mFragment = None, mOpaque = None, mHashCode = 0\<rparr>"

definition URI_isAbsolute :: "uri \<Rightarrow> bool" where
  "URI_isAbsolute u = (case mScheme u of None \<Rightarrow> False | Some s \<Rightarrow> \<not> String_isEmpty s)"

definition URI_isOpaque :: "uri \<Rightarrow> bool result" where
  "URI_isOpaque u = deref (mOpaque u)"

section \<open>Searching\<close>

text \<open>The first one looks for the first \<open>c\<close> of the whole string and ignores \<open>start\<close>.\<close>

definition URI_indexOf_char :: "str \<Rightarrow> uint8 \<Rightarrow> nat \<Rightarrow> nat \<Rightarrow> nat result" where
  "URI_indexOf_char string c start stop =
     bind_result (String_indexOf_char c string) (\<lambda>index.
       if 0 \<le> index \<and> nat index < stop then Inr (nat index) else Inr stop)"

function index_of_any :: "str \<Rightarrow> bytes \<Rightarrow> nat \<Rightarrow> nat \<Rightarrow> nat result" where
  "index_of_any string chars i stop =
     (if i < stop
      then case String_charAt i string of
             Inl e \<Rightarrow> Inl e
           | Inr c \<Rightarrow> if strchr chars c \<noteq> None then Inr i else index_of_any string chars (i + 1) stop
      else Inr stop)"
  by pat_completeness auto
termination by (relation "measure (\<lambda>(_, _, i, stop). stop - i)") auto

declare index_of_any.simps [simp del]

definition URI_indexOf_chars :: "str \<Rightarrow> bytes \<Rightarrow> nat \<Rightarrow> nat \<Rightarrow> nat result" where
  "URI_indexOf_chars string chars start stop =
     (if start \<ge> String_length string \<or> start > stop \<or> stop > String_length string then Inl IndexOutOfBoundsException
      else index_of_any string chars start stop)"

section \<open>Parsing\<close>

text \<open>The host and the port of an authority without user information, or null if it is not a server.\<close>

definition parse_port :: "bool \<Rightarrow> str \<Rightarrow> (str option \<times> int32) option result" where
  "parse_port serverBasedNamingAuthority authority =
     bind_result (String_lastIndexOf_char 58 authority) (\<lambda>portIndex.
     bind_result (String_indexOf_char 93 authority) (\<lambda>endIndex.
       if portIndex \<noteq> - 1 \<and> endIndex < portIndex
       then bind_result (String_substring2 0 (nat portIndex) authority) (\<lambda>host.
              if portIndex < int (String_length authority) - 1
              then bind_result (String_substring (nat portIndex + 1) authority) (\<lambda>digits.
                     case Integer_valueOf_decimal digits of
                       Inr port \<Rightarrow>
                         if sint port < 0 then (if serverBasedNamingAuthority then Inl URISyntaxException else Inr None)
                         else Inr (Some (host, port))
                     | Inl e \<Rightarrow>
                         if e \<noteq> NumberFormatException then Inl e
                         else if serverBasedNamingAuthority then Inl URISyntaxException else Inr None)
              else Inr (Some (host, - 1)))
       else Inr (Some (Some authority, - 1))))"

definition URI_parseAuthority :: "bool \<Rightarrow> uri \<Rightarrow> uri result" where
  "URI_parseAuthority serverBasedNamingAuthority u =
     (case mAuthority u of
        None \<Rightarrow> Inr u
      | Some authority \<Rightarrow>
          bind_result (String_indexOf_char 64 authority) (\<lambda>userIndex.
          bind_result
            (if userIndex \<noteq> - 1
             then bind_result (String_substring2 0 (nat userIndex) authority) (\<lambda>userInfo.
                  bind_result (String_substring (nat userIndex + 1) authority) (\<lambda>authority. Inr (userInfo, authority)))
             else Inr (None, Some authority)) (\<lambda>(userInfo, authority).
          bind_result (deref authority) (\<lambda>authority.
          bind_result (parse_port serverBasedNamingAuthority authority) (\<lambda>hostPort.
            case hostPort of
              None \<Rightarrow> Inr u
            | Some (host, port) \<Rightarrow>
                bind_result (deref host) (\<lambda>h.
                  if String_isEmpty h then (if serverBasedNamingAuthority then Inl URISyntaxException else Inr u)
                  else Inr (u\<lparr>mUserInfo := userInfo, mHost := host, mPort := port\<rparr>)))))))"

text \<open>The path, the query and the authority, from the index where the hierarchical part starts.\<close>

definition parse_hierarchical :: "bool \<Rightarrow> str \<Rightarrow> nat \<Rightarrow> nat \<Rightarrow> uri \<Rightarrow> uri result" where
  "parse_hierarchical serverBasedNamingAuthority uri hierPartStart fragmentStart u =
     bind_result (String_substring2 hierPartStart fragmentStart uri) (\<lambda>part.
     bind_result (String_regionMatches_cstr (of_nat hierPartStart) (Some [47, 47]) 0 2 uri) (\<lambda>hasAuthority.
     bind_result
       (if hasAuthority
        then let authorityStart = hierPartStart + 2
             in if authorityStart = String_length uri then Inl URISyntaxException
                else bind_result (URI_indexOf_chars uri [47, 63] authorityStart fragmentStart) (\<lambda>pathStart.
                       if authorityStart < pathStart
                       then bind_result (String_substring2 authorityStart pathStart uri) (\<lambda>authority. Inr (authority, pathStart))
                       else Inr (None, pathStart))
        else Inr (None, hierPartStart)) (\<lambda>(authority, pathStart).
     bind_result (URI_indexOf_char uri 63 pathStart fragmentStart) (\<lambda>queryStart.
     bind_result (String_substring2 pathStart queryStart uri) (\<lambda>path.
     bind_result (if queryStart < fragmentStart then String_substring2 (queryStart + 1) fragmentStart uri else Inr None) (\<lambda>query.
     URI_parseAuthority serverBasedNamingAuthority
       (u\<lparr>mOpaque := Some False, mSchemeSpecificPart := part, mAuthority := authority, mPath := path, mQuery := query\<rparr>)))))))"

definition URI_parseURI :: "bool \<Rightarrow> str \<Rightarrow> uri \<Rightarrow> uri result" where
  "URI_parseURI serverBasedNamingAuthority uri u =
     bind_result (URI_indexOf_char uri 35 0 (String_length uri)) (\<lambda>fragmentStart.
     bind_result (if fragmentStart < String_length uri then String_substring (fragmentStart + 1) uri else Inr None) (\<lambda>fragment.
     bind_result (URI_indexOf_char uri 58 0 fragmentStart) (\<lambda>colon.
     bind_result (URI_indexOf_chars uri [47, 63, 35] 0 fragmentStart) (\<lambda>delimiter.
       let u = u\<lparr>mString := Some uri, mFragment := fragment\<rparr>
       in if colon < delimiter
          then bind_result (String_substring2 0 colon uri) (\<lambda>scheme.
                 let hierPartStart = colon + 1
                 in if hierPartStart = fragmentStart then Inl URISyntaxException
                    else bind_result (String_regionMatches_cstr (of_nat hierPartStart) (Some [47]) 0 1 uri) (\<lambda>slash.
                      if \<not> slash
                      then bind_result (String_substring2 hierPartStart fragmentStart uri) (\<lambda>part.
                             Inr (u\<lparr>mScheme := scheme, mOpaque := Some True, mSchemeSpecificPart := part\<rparr>))
                      else parse_hierarchical serverBasedNamingAuthority uri hierPartStart fragmentStart (u\<lparr>mScheme := scheme\<rparr>)))
          else parse_hierarchical serverBasedNamingAuthority uri 0 fragmentStart u))))"

section \<open>Construction\<close>

definition URI_new :: "str option \<Rightarrow> uri result" where
  "URI_new spec = (case spec of None \<Rightarrow> Inl NullPointerException | Some s \<Rightarrow> URI_parseURI False s uri_blank)"

definition URI_new_cstr :: "cstr \<Rightarrow> uri result" where
  "URI_new_cstr spec =
     (if spec = None then Inl NullPointerException
      else bind_result (deref (String_valueOf_cstr spec)) (\<lambda>s. URI_parseURI False s uri_blank))"

definition URI_create :: "str option \<Rightarrow> uri result" where
  "URI_create uri = (case URI_new uri of Inl URISyntaxException \<Rightarrow> Inl IllegalArgumentException | r \<Rightarrow> r)"

definition URI_create_cstr :: "cstr \<Rightarrow> uri result" where
  "URI_create_cstr uri = (case URI_new_cstr uri of Inl URISyntaxException \<Rightarrow> Inl IllegalArgumentException | r \<Rightarrow> r)"

text \<open>Appending a string if it is not null, with what stands before it and after it.\<close>

definition append_component :: "bytes \<Rightarrow> str option \<Rightarrow> bytes \<Rightarrow> bytes \<Rightarrow> bytes result" where
  "append_component before x after sb =
     (if x = None then Inr sb else bind_result (StringBuilder_append x (sb @ before)) (\<lambda>sb. Inr (sb @ after)))"

definition relative_path :: "str option \<Rightarrow> str option \<Rightarrow> bool result" where
  "relative_path scheme path =
     (case path of
        Some p \<Rightarrow>
          if scheme \<noteq> None \<and> \<not> String_isEmpty p then bind_result (String_charAt 0 p) (\<lambda>c. Inr (c \<noteq> 47)) else Inr False
      | None \<Rightarrow> Inr False)"

text \<open>A host with a colon and without brackets is an IPv6 address, which gets its brackets.\<close>

definition bracket_host :: "str \<Rightarrow> str result" where
  "bracket_host host =
     bind_result (String_indexOf_char 58 host) (\<lambda>colon.
     bind_result (String_indexOf_char 93 host) (\<lambda>right.
     bind_result (String_indexOf_char 91 host) (\<lambda>left.
       if colon \<noteq> - 1 \<and> right = - 1 \<and> left = - 1
       then bind_result (deref (String_c_str host)) (\<lambda>bs. Inr (Some (91 # c_string bs @ [93])))
       else Inr host)))"

definition append_server :: "str option \<Rightarrow> str option \<Rightarrow> int32 \<Rightarrow> bytes \<Rightarrow> bytes result" where
  "append_server userInfo host port sb =
     (let sb = (if userInfo \<noteq> None \<or> host \<noteq> None \<or> port \<noteq> - 1 then sb @ [47, 47] else sb)
      in bind_result (append_component [] userInfo [64] sb) (\<lambda>sb.
         bind_result (case host of
             None \<Rightarrow> Inr sb
           | Some h \<Rightarrow> bind_result (bracket_host h) (\<lambda>h. StringBuilder_append (Some h) sb)) (\<lambda>sb.
         Inr (if port \<noteq> - 1 then StringBuilder_append_int32 port (StringBuilder_append_char 58 sb) else sb))))"

definition append_rest :: "str option \<Rightarrow> str option \<Rightarrow> str option \<Rightarrow> bytes \<Rightarrow> bytes result" where
  "append_rest path query fragment sb =
     bind_result (append_component [] path [] sb) (\<lambda>sb.
     bind_result (append_component [63] query [] sb) (\<lambda>sb.
     append_component [35] fragment [] sb))"

definition URI_new_server ::
  "str option \<Rightarrow> str option \<Rightarrow> str option \<Rightarrow> int32 \<Rightarrow> str option \<Rightarrow> str option \<Rightarrow> str option \<Rightarrow> uri result" where
  "URI_new_server scheme userInfo host port path query fragment =
     (if scheme = None \<and> userInfo = None \<and> host = None \<and> path = None \<and> query = None \<and> fragment = None
      then Inr (uri_blank\<lparr>mPath := Some (Some [])\<rparr>)
      else bind_result (relative_path scheme path) (\<lambda>relative.
        if relative then Inl URISyntaxException
        else bind_result (append_component [] scheme [58] []) (\<lambda>sb.
             bind_result (append_server userInfo host port sb) (\<lambda>sb.
             bind_result (append_rest path query fragment sb) (\<lambda>sb.
             URI_parseURI True (StringBuilder_toString sb) uri_blank)))))"

definition URI_new_authority ::
  "str option \<Rightarrow> str option \<Rightarrow> str option \<Rightarrow> str option \<Rightarrow> str option \<Rightarrow> uri result" where
  "URI_new_authority scheme authority path query fragment =
     bind_result (relative_path scheme path) (\<lambda>relative.
       if relative then Inl URISyntaxException
       else bind_result (append_component [] scheme [58] []) (\<lambda>sb.
            bind_result (append_component [47, 47] authority [] sb) (\<lambda>sb.
            bind_result (append_rest path query fragment sb) (\<lambda>sb.
            URI_parseURI False (StringBuilder_toString sb) uri_blank))))"


section \<open>Equality and hash codes\<close>

lemma bind_result_cong [fundef_cong]:
  "r = r' \<Longrightarrow> (\<And>x. r' = Inr x \<Longrightarrow> f x = g x) \<Longrightarrow> bind_result r f = bind_result r' g"
  by (cases r') simp_all

lemma strchr_takeWhile:
  assumes "c \<noteq> 0" and "0 \<notin> set bs"
  shows "strchr bs c = (if c \<in> set bs then Some (length (takeWhile (\<lambda>x. x \<noteq> c) bs)) else None)"
proof -
  have "find_index (\<lambda>b. b = c) (bs @ [0]) = (if c \<in> set bs then Some (length (takeWhile (\<lambda>x. x \<noteq> c) bs)) else None)"
    using assms(1) by (induction bs) auto
  then show ?thesis using assms(2) by (simp add: strchr_def)
qed

lemma strchr_c_string: "strchr (c_string bs) c = strchr bs c"
  by (simp add: strchr_def c_string_id c_string_no_NUL)

lemma length_takeWhile_less: "c \<in> set xs \<Longrightarrow> length (takeWhile (\<lambda>x. x \<noteq> c) xs) < length xs"
  by (induction xs) auto

lemma indexOf_char_from_bound:
  assumes "String_indexOf_char_from c n s = Inr i" and "i \<noteq> - 1" and "c \<noteq> 0"
  shows "n \<le> nat i \<and> nat i < String_length s"
proof -
  obtain bs where n: "s = Some bs" "n < length bs"
    using assms(1,2) by (cases s) (auto simp: String_indexOf_char_from_def String_length_def split: if_splits)
  then have "i = index_or_minus_one (map_option (\<lambda>i. n + i) (strchr (drop n bs) c))"
    using assms(1) by (simp add: String_indexOf_char_from_def String_length_def advance_def String_c_str_def)
  then obtain j where "strchr (drop n bs) c = Some j" "i = int (n + j)"
    using assms(2) by (cases "strchr (drop n bs) c") (auto simp: index_or_minus_one_def)
  note bs = n this
  let ?cs = "c_string (drop n bs)"
  have "c \<in> set ?cs" "j = length (takeWhile (\<lambda>x. x \<noteq> c) ?cs)"
    using bs(3) strchr_takeWhile[OF assms(3) c_string_no_NUL, of "drop n bs"] by (auto simp: strchr_c_string split: if_splits)
  then have "j < length ?cs" by (simp add: length_takeWhile_less)
  moreover have "length ?cs \<le> length bs - n" by (metis c_string_def length_drop length_takeWhile_le)
  ultimately show ?thesis using bs by (simp add: String_length_def nat_int_add)
qed

definition substring_equals :: "nat \<Rightarrow> nat \<Rightarrow> str \<Rightarrow> str \<Rightarrow> bool result" where
  "substring_equals start stop first second =
     bind_result (String_substring2 start stop first) (\<lambda>a.
     bind_result (String_substring2 start stop second) (\<lambda>b.
     bind_result (deref a) (\<lambda>a. String_equals_string a b)))"

definition substring_equalsIgnoreCase :: "nat \<Rightarrow> nat \<Rightarrow> str \<Rightarrow> str \<Rightarrow> bool result" where
  "substring_equalsIgnoreCase start stop first second =
     bind_result (String_substring2 start stop first) (\<lambda>a.
     bind_result (String_substring2 start stop second) (\<lambda>b.
     bind_result (deref a) (\<lambda>a. String_equalsIgnoreCase a b)))"

definition rest_equals :: "nat \<Rightarrow> str \<Rightarrow> str \<Rightarrow> bool result" where
  "rest_equals start first second =
     bind_result (String_substring start first) (\<lambda>a.
     bind_result (String_substring start second) (\<lambda>b.
     bind_result (deref a) (\<lambda>a. String_equals_string a b)))"

function escaped_loop :: "str \<Rightarrow> str \<Rightarrow> nat \<Rightarrow> bool result" where
  "escaped_loop first second prevIndex =
     bind_result (String_indexOf_char_from 37 prevIndex first) (\<lambda>index.
       if index = - 1 then rest_equals prevIndex first second
       else bind_result (String_indexOf_char_from 37 prevIndex second) (\<lambda>other.
         if other \<noteq> index then rest_equals prevIndex first second
         else bind_result (substring_equals prevIndex (nat index) first second) (\<lambda>match.
           if \<not> match then Inr False
           else bind_result (substring_equalsIgnoreCase (nat index + 1) (nat index + 3) first second) (\<lambda>match.
             if \<not> match then Inr False else escaped_loop first second (nat index + 3)))))"
  by pat_completeness auto
termination
  by (relation "measure (\<lambda>(first, _, n). String_length first - n)") (auto dest!: indexOf_char_from_bound)

declare escaped_loop.simps [simp del]

definition URI_escapedEqualsIgnoreCase :: "str option \<Rightarrow> str option \<Rightarrow> bool result" where
  "URI_escapedEqualsIgnoreCase first second =
     (case (first, second) of
        (Some a, Some b) \<Rightarrow>
          bind_result (String_indexOf_char 37 a) (\<lambda>i. bind_result (String_indexOf_char 37 b) (\<lambda>j.
            if i \<noteq> j then String_equals_string a (Some b) else escaped_loop a b 0))
      | _ \<Rightarrow> Inl NullPointerException)"

text \<open>Two components that may be null: equal by \<open>eq\<close> if neither is; a result that decides, or \<open>None\<close> to go on.\<close>

definition component_differs :: "(str \<Rightarrow> str \<Rightarrow> bool result) \<Rightarrow> str option \<Rightarrow> str option \<Rightarrow> bool result" where
  "component_differs eq a b =
     (case (a, b) of
        (None, None) \<Rightarrow> Inr False
      | (Some x, Some y) \<Rightarrow> bind_result (eq x y) (\<lambda>e. Inr (\<not> e))
      | _ \<Rightarrow> Inr True)"

abbreviation escaped :: "str \<Rightarrow> str \<Rightarrow> bool result" where
  "escaped a b \<equiv> URI_escapedEqualsIgnoreCase (Some a) (Some b)"

abbreviation ignore_case :: "str \<Rightarrow> str \<Rightarrow> bool result" where
  "ignore_case a b \<equiv> String_equalsIgnoreCase a (Some b)"

text \<open>The comparison of two authorities that are not both null.\<close>

definition authority_equals :: "uri \<Rightarrow> uri \<Rightarrow> bool result" where
  "authority_equals u uri =
     (if (mHost uri \<noteq> None) \<noteq> (mHost u \<noteq> None) then Inr False
      else if mHost uri = None then URI_escapedEqualsIgnoreCase (mAuthority uri) (mAuthority u)
      else bind_result (component_differs ignore_case (mHost u) (mHost uri)) (\<lambda>host.
        if host then Inr False
        else if mPort u \<noteq> mPort uri then Inr False
        else bind_result (component_differs escaped (mUserInfo u) (mUserInfo uri)) (\<lambda>d. Inr (\<not> d))))"

definition hierarchical_equals :: "uri \<Rightarrow> uri \<Rightarrow> bool result" where
  "hierarchical_equals u uri =
     bind_result (URI_escapedEqualsIgnoreCase (mPath u) (mPath uri)) (\<lambda>path.
       if \<not> path then Inr False
       else bind_result (component_differs escaped (mQuery uri) (mQuery u)) (\<lambda>query.
         if query then Inr False
         else if (mAuthority uri \<noteq> None) \<noteq> (mAuthority u \<noteq> None) then Inr False
         else if mAuthority uri \<noteq> None then authority_equals u uri
         else Inr True))"

definition URI_equals :: "uri \<Rightarrow> uri \<Rightarrow> bool result" where
  "URI_equals u uri =
     bind_result (component_differs escaped (mFragment uri) (mFragment u)) (\<lambda>fragment.
       if fragment then Inr False
       else bind_result (component_differs ignore_case (mScheme uri) (mScheme u)) (\<lambda>scheme.
         if scheme then Inr False
         else bind_result (deref (mOpaque uri)) (\<lambda>o1. bind_result (deref (mOpaque u)) (\<lambda>o2.
           if o1 \<and> o2 then URI_escapedEqualsIgnoreCase (mSchemeSpecificPart uri) (mSchemeSpecificPart u)
           else if \<not> o1 \<and> \<not> o2 then hierarchical_equals u uri
           else Inr False))))"

text \<open>\<open>equals\<close> of an object: the same one, another URI, or none of the class.\<close>

definition URI_equals_object :: "bool \<Rightarrow> uri \<Rightarrow> uri option \<Rightarrow> bool result" where
  "URI_equals_object same u other =
     (if same then Inr True else case other of None \<Rightarrow> Inr False | Some uri \<Rightarrow> URI_equals u uri)"

function hex_loop :: "str \<Rightarrow> nat \<Rightarrow> bytes \<Rightarrow> bytes result" where
  "hex_loop string prevIndex sb =
     bind_result (String_indexOf_char_from 37 prevIndex string) (\<lambda>index.
       if index = - 1 then bind_result (String_substring prevIndex string) (\<lambda>s. StringBuilder_append s sb)
       else bind_result (String_substring2 prevIndex (nat index + 1) string) (\<lambda>s.
            bind_result (StringBuilder_append s sb) (\<lambda>sb.
            bind_result (String_substring2 (nat index + 1) (nat index + 3) string) (\<lambda>s.
            bind_result (deref s) (\<lambda>s.
            bind_result (StringBuilder_append (Some (String_toLowerCase s)) sb) (\<lambda>sb.
            hex_loop string (nat index + 3) sb))))))"
  by pat_completeness auto
termination
  by (relation "measure (\<lambda>(string, n, _). String_length string - n)") (auto dest!: indexOf_char_from_bound)

declare hex_loop.simps [simp del]

definition URI_convertHexSequencesToLowerCase :: "str \<Rightarrow> str result" where
  "URI_convertHexSequencesToLowerCase string =
     bind_result (String_indexOf_char 37 string) (\<lambda>index.
       if index = - 1 then Inr string
       else bind_result (hex_loop string 0 []) (\<lambda>sb. Inr (StringBuilder_toString sb)))"

definition lower_case :: "str option \<Rightarrow> str option" where
  "lower_case = map_option String_toLowerCase"

definition hash_authority :: "uri \<Rightarrow> bytes \<Rightarrow> bytes result" where
  "hash_authority u sb =
     (if mAuthority u = None then Inr sb
      else let sb = sb @ [47, 47]
           in if mHost u = None then StringBuilder_append (mAuthority u) sb
              else bind_result (append_component [] (mUserInfo u) [64] sb) (\<lambda>sb.
                   bind_result (StringBuilder_append (lower_case (mHost u)) sb) (\<lambda>sb.
                   Inr (if mPort u \<noteq> - 1 then StringBuilder_append_int32 (mPort u) (StringBuilder_append_char 58 sb) else sb))))"

definition URI_getHashString :: "uri \<Rightarrow> str result" where
  "URI_getHashString u =
     bind_result (append_component [] (lower_case (mScheme u)) [58] []) (\<lambda>sb.
     bind_result (deref (mOpaque u)) (\<lambda>opaque.
     bind_result
       (if opaque then StringBuilder_append (mSchemeSpecificPart u) sb
        else bind_result (hash_authority u sb) (\<lambda>sb.
             bind_result (append_component [] (mPath u) [] sb) (\<lambda>sb. append_component [63] (mQuery u) [] sb))) (\<lambda>sb.
     bind_result (append_component [35] (mFragment u) [] sb) (\<lambda>sb.
     URI_convertHexSequencesToLowerCase (StringBuilder_toString sb)))))"

definition URI_hashCode :: "uri \<Rightarrow> (size_t \<times> uri) result" where
  "URI_hashCode u =
     (if mHashCode u = 0
      then bind_result (URI_getHashString u) (\<lambda>s. let u = u\<lparr>mHashCode := String_hashCode s\<rparr> in Inr (mHashCode u, u))
      else Inr (mHashCode u, u))"


section \<open>What the parser computes\<close>

text \<open>The characters before the first \<open>c\<close>, and those behind it if there is one.\<close>

definition split_first :: "uint8 \<Rightarrow> bytes \<Rightarrow> bytes \<times> bytes option" where
  "split_first c s = (takeWhile (\<lambda>x. x \<noteq> c) s, if c \<in> set s then Some (tl (dropWhile (\<lambda>x. x \<noteq> c) s)) else None)"

definition hierarchical_spec :: "bool \<Rightarrow> bytes \<Rightarrow> bytes option \<Rightarrow> uri \<Rightarrow> uri result" where
  "hierarchical_spec server part fragment u =
     (if part = [47, 47] \<and> fragment = None then Inl URISyntaxException
      else let authority = (if prefix [47, 47] part then takeWhile (\<lambda>c. c \<noteq> 47 \<and> c \<noteq> 63) (drop 2 part) else []);
               rest = (if prefix [47, 47] part then dropWhile (\<lambda>c. c \<noteq> 47 \<and> c \<noteq> 63) (drop 2 part) else part);
               (path, query) = split_first 63 rest
           in URI_parseAuthority server
                (u\<lparr>mOpaque := Some False, mSchemeSpecificPart := Some (Some part),
                  mAuthority := if authority = [] then None else Some (Some authority),
                  mPath := Some (Some path), mQuery := map_option Some query\<rparr>))"

definition uri_spec :: "bool \<Rightarrow> bytes \<Rightarrow> uri result" where
  "uri_spec server s =
     (let (body, fragment) = split_first 35 s;
          scheme = takeWhile (\<lambda>c. c \<noteq> 58 \<and> c \<noteq> 47 \<and> c \<noteq> 63) body;
          rest = dropWhile (\<lambda>c. c \<noteq> 58 \<and> c \<noteq> 47 \<and> c \<noteq> 63) body;
          u = uri_blank\<lparr>mString := Some (Some s), mFragment := map_option Some fragment\<rparr>
      in if rest \<noteq> [] \<and> hd rest = 58
         then let u = u\<lparr>mScheme := Some (Some scheme)\<rparr>
              in if tl rest = [] then Inl URISyntaxException
                 else if hd (tl rest) \<noteq> 47 then Inr (u\<lparr>mOpaque := Some True, mSchemeSpecificPart := Some (Some (tl rest))\<rparr>)
                 else hierarchical_spec server (tl rest) fragment u
         else hierarchical_spec server body fragment u)"

lemma String_substring_eq: "n \<le> length bs \<Longrightarrow> String_substring n (Some bs) = Inr (Some (Some (drop n bs)))"
  using String_valueOf_chars_drop[of n "length bs - n" bs]
  by (simp add: String_substring_def String_length_def advance_def String_c_str_def)

lemma indexOf_char_eq:
  assumes "c \<noteq> 0" and "0 \<notin> set s" and "stop \<le> length s"
  shows "URI_indexOf_char (Some s) c start stop = Inr (min stop (length (takeWhile (\<lambda>x. x \<noteq> c) s)))"
proof (cases "c \<in> set s")
  case True
  then show ?thesis using assms
    by (simp add: URI_indexOf_char_def String_indexOf_char_def String_c_str_def strchr_takeWhile index_or_minus_one_def)
next
  case False
  then have "length (takeWhile (\<lambda>x. x \<noteq> c) s) = length s" by (subst takeWhile_eq_all_conv[THEN iffD2]) auto
  then show ?thesis using False assms
    by (simp add: URI_indexOf_char_def String_indexOf_char_def String_c_str_def strchr_takeWhile index_or_minus_one_def)
qed

lemma index_of_any_eq:
  assumes "i \<le> stop" and "stop \<le> length s" and "\<And>c. c \<in> set s \<Longrightarrow> strchr chars c \<noteq> None \<longleftrightarrow> \<not> p c"
  shows "index_of_any (Some s) chars i stop = Inr (min stop (i + length (takeWhile p (drop i s))))"
  using assms(1)
proof (induction "stop - i" arbitrary: i)
  case (Suc n)
  then have i: "i < stop" "i < length s" using assms(2) by auto
  then have d: "drop i s = s ! i # drop (Suc i) s" by (simp add: Cons_nth_drop_Suc)
  show ?case
  proof (cases "p (s ! i)")
    case True
    then have "index_of_any (Some s) chars i stop = index_of_any (Some s) chars (i + 1) stop"
      using i assms(3)[of "s ! i"] by (subst index_of_any.simps) (simp add: String_charAt_def String_length_def)
    then show ?thesis using Suc.hyps(1)[of "i + 1"] Suc.hyps(2) i True d by simp
  next
    case False
    then show ?thesis using i assms(3)[of "s ! i"] d
      by (subst index_of_any.simps) (simp add: String_charAt_def String_length_def)
  qed
qed (subst index_of_any.simps, simp)

lemma strchr_delimiters: "c \<noteq> 0 \<Longrightarrow> strchr [47, 63] c \<noteq> None \<longleftrightarrow> c = 47 \<or> c = 63"
  "c \<noteq> 0 \<Longrightarrow> strchr [47, 63, 35] c \<noteq> None \<longleftrightarrow> c = 47 \<or> c = 63 \<or> c = 35"
  by (auto simp: strchr_def)

lemma regionMatches_eq:
  assumes "n \<le> length s" and "length s < 2 ^ 63" and "0 \<notin> set s" and "x \<in> {[47], [47, 47]}"
  shows "String_regionMatches_cstr (of_nat n) (Some x) 0 (of_nat (length x)) (Some s) = Inr (prefix x (drop n s))"
proof -
  have x: "c_string x = x" "0 \<notin> set x" "length x \<le> 2" "x \<noteq> []" using assms(4) by (auto simp: c_string_def)
  have size: "unat (of_nat m :: size_t) = m" if "m \<le> length s + 2" for m
    using that assms(2) by (intro unat_size_t) simp
  have n: "unat (of_nat n :: size_t) = n" "unat (of_nat (length x) :: size_t) = length x" "unat (of_nat (length s - n) :: size_t) = length s - n"
    using assms(1) x(3) by (intro size, simp)+
  have left: "(of_nat (length s) :: size_t) - of_nat n = of_nat (length s - n)" using assms(1) by (simp add: of_nat_diff)
  have "(of_nat (length s - n) :: size_t) < of_nat (length x) \<longleftrightarrow> length s - n < length x"
    unfolding word_less_nat_alt n ..
  moreover have "\<not> (of_nat (length x) :: size_t) \<le> 0" using x(4) n(2) by (auto simp: word_le_nat_alt)
  moreover have "\<not> prefix x (drop n s)" if "length s - n < length x" using that by (auto dest: prefix_length_le)
  moreover have "strncmp_eq (drop n s) x (length x) = prefix x (drop n s)" if "length x \<le> length s - n"
    using that assms(3) x(2) by (intro strncmp_eq_prefix) (auto dest: in_set_dropD)
  moreover have "String_regionMatches_cstr (of_nat n) (Some x) 0 (of_nat (length x)) (Some s) =
      (if (of_nat (length s) :: size_t) - of_nat n < of_nat (length x) then Inr False
       else if (of_nat (length x) :: size_t) \<le> 0 then Inr True
       else bind_result (advance (Some s) (unat (of_nat n :: size_t))) (\<lambda>p. bind_result (deref p) (\<lambda>a.
         Inr (strncmp_eq a x (unat (of_nat (length x) :: size_t))))))"
    unfolding String_regionMatches_cstr_def String_regionMatches_def String_valueOf_cstr_def String_of_cstr_def
    by (simp add: x(1) String_length_def advance_def String_c_str_def cong: if_cong)
  moreover have "advance (Some s) n = Inr (Some (drop n s))" using assms(1) by (simp add: advance_def)
  ultimately show ?thesis unfolding left n by (cases "length s - n < length x") simp_all
qed

lemma length_takeWhile_append: "min (length xs) (length (takeWhile p (xs @ ys))) = length (takeWhile p xs)"
  by (induction xs) auto

lemma takeWhile_append_left: "takeWhile p (xs @ ys) = takeWhile p xs @ (if takeWhile p xs = xs then takeWhile p ys else [])"
  by (induction xs) auto

lemma split_first_cases:
  obtains (without) "c \<notin> set s" "split_first c s = (s, None)"
  | (at) xs ys where "s = xs @ c # ys" "c \<notin> set xs" "split_first c s = (xs, Some ys)"
proof (cases "c \<in> set s")
  case True
  then obtain xs ys where "s = xs @ c # ys" "c \<notin> set xs" by (auto dest: split_list_first)
  moreover from this have "split_first c s = (xs, Some ys)" by (auto simp: split_first_def takeWhile_tail takeWhile_append dropWhile_append)
  ultimately show ?thesis by (rule at)
next
  case False
  then have "takeWhile (\<lambda>x. x \<noteq> c) s = s" by (subst takeWhile_eq_all_conv) auto
  then show ?thesis using False without by (simp add: split_first_def)
qed

text \<open>The path and the query of \<open>rest\<close>, which starts behind \<open>front\<close>.\<close>

lemma path_query:
  assumes s: "s = front @ rest @ tail" and "0 \<notin> set s" and "63 \<notin> set front" and "split_first 63 rest = (path, query)"
  defines "stop \<equiv> length front + length rest" and "q \<equiv> length front + length path"
  shows "URI_indexOf_char (Some s) 63 (length front) stop = Inr q"
    and "String_substring2 (length front) q (Some s) = Inr (Some (Some path))"
    and "(if q < stop then String_substring2 (q + 1) stop (Some s) else Inr None) = Inr (map_option Some query)"
proof -
  have front: "takeWhile (\<lambda>x. x \<noteq> 63) (front @ xs) = front @ takeWhile (\<lambda>x. x \<noteq> 63) xs" for xs
    using assms(3) by (intro takeWhile_append2) auto
  have path: "path = takeWhile (\<lambda>x. x \<noteq> 63) rest" using assms(4) by (simp add: split_first_def)
  have "min stop (length (takeWhile (\<lambda>x. x \<noteq> 63) s)) = q"
    using length_takeWhile_append[of rest "\<lambda>x. x \<noteq> 63" tail] unfolding s front stop_def q_def path by simp
  then show "URI_indexOf_char (Some s) 63 (length front) stop = Inr q"
    using assms(2) by (subst indexOf_char_eq) (simp_all add: s stop_def)
  have 1: "rest = path \<and> query = None \<or> (\<exists>ys. rest = path @ 63 # ys \<and> query = Some ys)"
    using assms(4) by (cases rule: split_first_cases[of 63 rest]) auto
  then show "String_substring2 (length front) q (Some s) = Inr (Some (Some path))"
    by (subst String_substring2_eq) (auto simp: s q_def)
  show "(if q < stop then String_substring2 (q + 1) stop (Some s) else Inr None) = Inr (map_option Some query)"
    using 1
  proof
    assume "\<exists>ys. rest = path @ 63 # ys \<and> query = Some ys"
    then show ?thesis by (auto simp: s stop_def q_def String_substring2_eq)
  qed (simp add: stop_def q_def)
qed

lemma parse_hierarchical_eq:
  assumes s: "s = front @ part @ tail" and no: "0 \<notin> set s" "63 \<notin> set front" and size: "length s < 2 ^ 63"
    and tail: "tail = [] \<or> hd tail = 35"
  shows "parse_hierarchical server (Some s) (length front) (length front + length part) u =
    hierarchical_spec server part (if tail = [] then None else Some (tl tail)) u"
proof -
  let ?stop = "length front + length part"
  have sub: "String_substring2 (length front) ?stop (Some s) = Inr (Some (Some part))"
    by (subst String_substring2_eq) (simp_all add: s)
  have "prefix [47, 47] (part @ tail) = prefix [47, 47] part"
    using tail by (cases part; cases "tl part"; cases tail) (auto simp: prefix_Cons)
  then have region: "String_regionMatches_cstr (of_nat (length front)) (Some [47, 47]) 0 2 (Some s) = Inr (prefix [47, 47] part)"
    using regionMatches_eq[of "length front" s "[47, 47]"] size no(1) by (simp add: s)
  show ?thesis
  proof (cases "prefix [47, 47] part")
    case False
    obtain path query where sp: "split_first 63 part = (path, query)" by (cases "split_first 63 part")
    note pq = path_query[OF s no sp]
    show ?thesis unfolding parse_hierarchical_def hierarchical_spec_def using False sub region pq sp
      by (simp add: Let_def) auto
  next
    case True
    then obtain p where p: "part = 47 # 47 # p" by (auto simp: prefix_def)
    let ?P = "\<lambda>c :: uint8. c \<noteq> 47 \<and> c \<noteq> 63"
    let ?a = "takeWhile ?P p" and ?r = "dropWhile ?P p"
    show ?thesis
    proof (cases "p = [] \<and> tail = []")
      case True
      then show ?thesis unfolding parse_hierarchical_def hierarchical_spec_def sub region by (simp add: p s String_length_def Let_def)
    next
      case nonempty: False
      then have less: "length front + 2 < length s" by (auto simp: s p)
      have delimiter: "strchr [47, 63] c \<noteq> None \<longleftrightarrow> \<not> ?P c" if "c \<in> set s" for c
      proof -
        have "c \<noteq> 0" using that no(1) by auto
        from strchr_delimiters(1)[OF this] show ?thesis by simp
      qed
      have "index_of_any (Some s) [47, 63] (length front + 2) ?stop = Inr (min ?stop (length front + 2 + length (takeWhile ?P (drop (length front + 2) s))))"
        using delimiter by (intro index_of_any_eq) (auto simp: s p)
      also have "drop (length front + 2) s = p @ tail" by (simp add: s p)
      also have "min ?stop (length front + 2 + length (takeWhile ?P (p @ tail))) = length front + 2 + length ?a"
        using length_takeWhile_append[of p ?P tail] by (simp add: p)
      finally have index: "URI_indexOf_chars (Some s) [47, 63] (length front + 2) ?stop = Inr (length front + 2 + length ?a)"
        using less by (simp add: URI_indexOf_chars_def String_length_def s p)
      have pa: "p = ?a @ ?r" by simp
      have s': "s = (front @ [47, 47] @ ?a) @ ?r @ tail" using s p pa by simp
      have "63 \<notin> set (front @ [47, 47] @ ?a)" using no(2) by (auto dest: set_takeWhileD)
      obtain path query where sp: "split_first 63 ?r = (path, query)" by (cases "split_first 63 ?r")
      note pq = path_query[OF s' no(1) \<open>63 \<notin> set (front @ [47, 47] @ ?a)\<close> sp]
      have len: "length (front @ [47, 47] @ ?a) = length front + 2 + length ?a" by simp
      have stop: "length (front @ [47, 47] @ ?a) + length ?r = ?stop" using arg_cong[OF pa, of length] unfolding length_append by (simp add: p)
      note pq = pq[unfolded stop, unfolded len]
      have auth: "String_substring2 (length front + 2) (length front + 2 + length ?a) (Some s) = Inr (Some (Some ?a))"
        by (subst String_substring2_eq) (use length_takeWhile_le[of ?P p] in \<open>simp_all add: s p takeWhile_eq_take[symmetric]\<close>)
      have ne: "length front + 2 \<noteq> String_length (Some s)" using less by (simp add: String_length_def)
      have "drop 2 part = p" "\<not> (part = [47, 47] \<and> tail = [])" using p nonempty by simp_all
      then show ?thesis
        unfolding parse_hierarchical_def hierarchical_spec_def sub region
        using True ne index auth pq sp by (cases "?a = []") (auto simp: Let_def)
    qed
  qed
qed


lemma split_scheme_cases:
  fixes body :: bytes
  defines "Q \<equiv> \<lambda>c :: uint8. c \<noteq> 58 \<and> c \<noteq> 47 \<and> c \<noteq> 63"
  obtains (scheme) sch r where "body = sch @ 58 # r" "takeWhile Q body = sch" "dropWhile Q body = 58 # r" "63 \<notin> set sch"
      "length (takeWhile (\<lambda>x. x \<noteq> 58) body) = length sch" "length sch < length (takeWhile (\<lambda>x. x \<noteq> 47 \<and> x \<noteq> 63) body)"
  | (none) "\<not> (dropWhile Q body \<noteq> [] \<and> hd (dropWhile Q body) = 58)"
      "\<not> length (takeWhile (\<lambda>x. x \<noteq> 58) body) < length (takeWhile (\<lambda>x. x \<noteq> 47 \<and> x \<noteq> 63) body)"
proof (cases "dropWhile Q body")
  case Nil
  then have all: "x \<in> set body \<Longrightarrow> Q x" for x by (simp add: dropWhile_eq_Nil_conv)
  have "takeWhile (\<lambda>x. x \<noteq> 58) body = body" "takeWhile (\<lambda>x. x \<noteq> 47 \<and> x \<noteq> 63) body = body"
    using all unfolding Q_def by (simp_all add: takeWhile_eq_all_conv)
  then have "\<not> length (takeWhile (\<lambda>x. x \<noteq> 58) body) < length (takeWhile (\<lambda>x. x \<noteq> 47 \<and> x \<noteq> 63) body)" by (simp only: less_irrefl not_False_eq_True)
  with _ show ?thesis by (rule none) (simp add: Nil)
next
  case (Cons c r)
  let ?sch = "takeWhile Q body"
  have body: "body = ?sch @ c # r" using Cons takeWhile_dropWhile_id[of Q body] by simp
  have sch: "Q x" if "x \<in> set ?sch" for x using that by (rule set_takeWhileD[THEN conjunct2])
  have c: "\<not> Q c" using hd_dropWhile[of Q body] Cons by simp
  have extend: "takeWhile R body = ?sch @ takeWhile R (c # r)" if "\<And>x. Q x \<Longrightarrow> R x" for R
  proof -
    have "takeWhile R body = takeWhile R (?sch @ c # r)" using arg_cong[OF body] .
    also have "\<dots> = ?sch @ takeWhile R (c # r)" using sch that by (intro takeWhile_append2) blast
    finally show ?thesis .
  qed
  have 1: "takeWhile (\<lambda>x. x \<noteq> 58) body = ?sch @ takeWhile (\<lambda>x. x \<noteq> 58) (c # r)"
    by (rule extend) (simp add: Q_def)
  have 2: "takeWhile (\<lambda>x. x \<noteq> 47 \<and> x \<noteq> 63) body = ?sch @ takeWhile (\<lambda>x. x \<noteq> 47 \<and> x \<noteq> 63) (c # r)"
    by (rule extend) (simp add: Q_def)
  show ?thesis
  proof (cases "c = 58")
    case True
    show ?thesis
    proof (rule scheme[of ?sch r])
      show "63 \<notin> set ?sch" using sch[of 63] by (auto simp: Q_def)
      show "length (takeWhile (\<lambda>x. x \<noteq> 58) body) = length ?sch" unfolding 1 using True by simp
      show "length ?sch < length (takeWhile (\<lambda>x. x \<noteq> 47 \<and> x \<noteq> 63) body)" unfolding 2 using True by simp
    qed (use body Cons True in auto)
  next
    case False
    then have "c = 47 \<or> c = 63" using c by (auto simp: Q_def)
    then have "length (takeWhile (\<lambda>x. x \<noteq> 47 \<and> x \<noteq> 63) body) = length ?sch" unfolding 2 by auto
    moreover have "length ?sch \<le> length (takeWhile (\<lambda>x. x \<noteq> 58) body)" unfolding 1 by simp
    ultimately show ?thesis using none Cons False by simp
  qed
qed

lemma URI_parseURI_eq:
  assumes "s \<noteq> []" and no: "0 \<notin> set s" and size: "length s < 2 ^ 63"
  shows "URI_parseURI server (Some s) uri_blank = uri_spec server s"
proof -
  obtain body fragment where sp: "split_first 35 s = (body, fragment)" by (cases "split_first 35 s")
  obtain tail where s: "s = body @ tail" and tail: "tail = [] \<or> hd tail = 35" and body: "35 \<notin> set body"
    and fragment: "fragment = (if tail = [] then None else Some (tl tail))"
    using sp by (cases rule: split_first_cases[of 35 s]) (auto intro: that[of "[]"] that[of "35 # _"])
  have "takeWhile (\<lambda>x. x \<noteq> 35) s = body" using sp by (simp add: split_first_def)
  then have f1: "URI_indexOf_char (Some s) 35 0 (length s) = Inr (length body)"
    using no by (subst indexOf_char_eq) (simp_all add: s)
  have f2: "(if length body < length s then String_substring (length body + 1) (Some s) else Inr None) = Inr (map_option Some fragment)"
    by (cases tail) (simp_all add: s fragment String_substring_eq)
  have f3: "URI_indexOf_char (Some s) 58 0 (length body) = Inr (length (takeWhile (\<lambda>x. x \<noteq> 58) body))"
    using no length_takeWhile_append[of body "\<lambda>x. x \<noteq> 58" tail] by (subst indexOf_char_eq) (simp_all add: s)
  let ?P = "\<lambda>x :: uint8. x \<noteq> 47 \<and> x \<noteq> 63"
  have delimiter: "strchr [47, 63, 35] c \<noteq> None \<longleftrightarrow> \<not> (c \<noteq> 47 \<and> c \<noteq> 63 \<and> c \<noteq> 35)" if "c \<in> set s" for c
  proof -
    have "c \<noteq> 0" using that no by auto
    from strchr_delimiters(2)[OF this] show ?thesis by simp
  qed
  have "takeWhile (\<lambda>x. x \<noteq> 47 \<and> x \<noteq> 63 \<and> x \<noteq> 35) body = takeWhile ?P body"
    using body by (intro takeWhile_cong) auto
  then have "index_of_any (Some s) [47, 63, 35] 0 (length body) = Inr (length (takeWhile ?P body))"
    using index_of_any_eq[of 0 "length body" s "[47, 63, 35]", OF _ _ delimiter]
      length_takeWhile_append[of body "\<lambda>x. x \<noteq> 47 \<and> x \<noteq> 63 \<and> x \<noteq> 35" tail] by (simp add: s)
  then have f4: "URI_indexOf_chars (Some s) [47, 63, 35] 0 (length body) = Inr (length (takeWhile ?P body))"
    using assms(1) by (simp add: URI_indexOf_chars_def String_length_def s)
  have len: "String_length (Some s) = length s" by (simp add: String_length_def)
  note parse = URI_parseURI_def len f1 bind_result_simps f2 f3 f4 Let_def
  show ?thesis
  proof (cases rule: split_scheme_cases[of body])
    case none
    have "parse_hierarchical server (Some s) 0 (length body) u = hierarchical_spec server body fragment u" for u
      using parse_hierarchical_eq[of s "[]" body tail server u] s no size tail fragment by simp
    moreover have "uri_spec server s = hierarchical_spec server body fragment (uri_blank\<lparr>mString := Some (Some s), mFragment := map_option Some fragment\<rparr>)"
      unfolding uri_spec_def sp Let_def prod.case by (rule if_not_P[OF none(1)])
    ultimately show ?thesis unfolding parse using none(2) by simp
  next
    case (scheme sch r)
    have s': "s = (sch @ [58]) @ r @ tail" using s scheme(1) by simp
    have sub: "String_substring2 0 (length sch) (Some s) = Inr (Some (Some sch))"
      by (subst String_substring2_eq) (simp_all add: s')
    have part: "String_substring2 (length sch + 1) (length body) (Some s) = Inr (Some (Some r))"
      by (subst String_substring2_eq) (simp_all add: s scheme(1))
    have region: "String_regionMatches_cstr (of_nat (length sch + 1)) (Some [47]) 0 1 (Some s) = Inr (prefix [47] (r @ tail))"
      using regionMatches_eq[of "length sch + 1" s "[47]"] size no by (simp add: s')
    have "prefix [47] (r @ tail) \<longleftrightarrow> hd r = 47" if "r \<noteq> []" using that by (cases r) auto
    moreover have "parse_hierarchical server (Some s) (length sch + 1) (length body) u = hierarchical_spec server r fragment u" for u
      using parse_hierarchical_eq[OF s' no _ size tail, of server u] scheme(1,4) fragment by simp
    moreover have "length sch + 1 = length body \<longleftrightarrow> r = []" using scheme(1) by simp
    ultimately show ?thesis unfolding parse uri_spec_def sp using scheme(1-3,5,6) sub part region by (simp add: Let_def)
  qed
qed


section \<open>The authority\<close>

lemma indexOf_char_cases:
  assumes "c \<noteq> 0" and "0 \<notin> set s"
  obtains (without) "c \<notin> set s" "String_indexOf_char c (Some s) = Inr (- 1)"
  | (at) xs ys where "s = xs @ c # ys" "c \<notin> set xs" "String_indexOf_char c (Some s) = Inr (int (length xs))"
proof (cases "c \<in> set s")
  case True
  then obtain xs ys where xs: "s = xs @ c # ys" "c \<notin> set xs" by (auto dest: split_list_first)
  moreover from xs have "takeWhile (\<lambda>x. x \<noteq> c) s = xs" by (auto simp: takeWhile_tail takeWhile_append)
  ultimately show ?thesis using at assms True
    by (simp add: String_indexOf_char_def String_c_str_def strchr_takeWhile index_or_minus_one_def)
next
  case False
  then show ?thesis using without assms
    by (simp add: String_indexOf_char_def String_c_str_def strchr_takeWhile index_or_minus_one_def)
qed

lemma find_last_index_append:
  "c \<notin> set ys \<Longrightarrow> find_last_index (\<lambda>b. b = c) (xs @ c # ys) = Some (length xs)"
proof (induction xs)
  case Nil
  have "find_last_index (\<lambda>b. b = c) zs = None" if "c \<notin> set zs" for zs using that by (induction zs) auto
  then show ?case using Nil by simp
qed simp

lemma lastIndexOf_char_cases:
  assumes "c \<noteq> 0" and "0 \<notin> set s"
  obtains (without) "c \<notin> set s" "String_lastIndexOf_char c (Some s) = Inr (- 1)"
  | (at) xs ys where "s = xs @ c # ys" "c \<notin> set ys" "String_lastIndexOf_char c (Some s) = Inr (int (length xs))"
proof (cases "c \<in> set s")
  case True
  then obtain xs ys where xs: "s = xs @ c # ys" "c \<notin> set ys" by (auto dest: split_list_last)
  then have "strrchr s c = Some (length xs)"
    using assms find_last_index_append[of c "ys @ [0]" xs] by (simp add: strrchr_def)
  then show ?thesis using at xs by (simp add: String_lastIndexOf_char_def String_c_str_def index_or_minus_one_def)
next
  case False
  have "find_last_index (\<lambda>b. b = c) zs = None" if "c \<notin> set zs" for zs using that by (induction zs) auto
  then have "strrchr s c = None" using False assms by (simp add: strrchr_def)
  then show ?thesis using without False by (simp add: String_lastIndexOf_char_def String_c_str_def index_or_minus_one_def)
qed

lemma valueOf_decimal_error:
  assumes "Integer_valueOf_decimal (Some (Some bs)) = Inl e"
  shows "e = NumberFormatException"
proof -
  have "strtol (c_string bs) 10 \<noteq> Inl x" for x by (simp add: strtol_def Let_def split: prod.splits)
  then show ?thesis
    using assms by (auto simp: Integer_valueOf_decimal_def Integer_valueOf_def String_isEmpty_def String_charAt_def String_length_def String_c_str_def
        bind_result_def split: if_splits sum.splits)
qed

lemma parse_port_total:
  assumes "0 \<notin> set bs"
  shows "parse_port server (Some bs) = Inl URISyntaxException \<and> server \<or> parse_port server (Some bs) = Inr None \<or>
    (\<exists>h port. parse_port server (Some bs) = Inr (Some (Some (Some h), port)))"
proof -
  obtain endIndex where e: "String_indexOf_char 93 (Some bs) = Inr endIndex"
    by (rule indexOf_char_cases[of 93 bs]) (use assms that in auto)
  have nonzero: "(58 :: uint8) \<noteq> 0" by simp
  show ?thesis
  proof (cases rule: lastIndexOf_char_cases[OF nonzero assms])
    case 1
    then show ?thesis using e by (simp add: parse_port_def)
  next
    case (2 xs ys)
    have sub: "String_substring2 0 (length xs) (Some bs) = Inr (Some (Some xs))" by (subst String_substring2_eq) (simp_all add: 2(1))
    have digits: "String_substring (length xs + 1) (Some bs) = Inr (Some (Some ys))" by (subst String_substring_eq) (simp_all add: 2(1))
    have len: "int (length xs) < int (String_length (Some bs)) - 1 \<longleftrightarrow> ys \<noteq> []" by (simp add: String_length_def 2(1))
    show ?thesis
    proof (cases "Integer_valueOf_decimal (Some (Some ys))")
      case (Inl x)
      then show ?thesis using valueOf_decimal_error[OF Inl] e 2(3) sub digits len by (simp add: parse_port_def)
    next
      case (Inr port)
      then show ?thesis using e 2(3) sub digits len by (simp add: parse_port_def)
    qed
  qed
qed

text \<open>The parser of the authority does not fail, except for a server that has to be one, and sets nothing but the parts of a server.\<close>

lemma parseAuthority_total:
  assumes "\<And>a. mAuthority u = Some a \<Longrightarrow> \<exists>bs. a = Some bs \<and> 0 \<notin> set bs"
  shows "URI_parseAuthority server u = Inl URISyntaxException \<and> server \<or>
    (\<exists>userInfo host port. URI_parseAuthority server u = Inr (u\<lparr>mUserInfo := userInfo, mHost := host, mPort := port\<rparr>))"
proof (cases "mAuthority u")
  case None
  then show ?thesis by (intro disjI2 exI[of _ "mUserInfo u"] exI[of _ "mHost u"] exI[of _ "mPort u"]) (simp add: URI_parseAuthority_def)
next
  case (Some a)
  then obtain bs where bs: "mAuthority u = Some (Some bs)" "0 \<notin> set bs" using assms by blast
  have same: "u = u\<lparr>mUserInfo := mUserInfo u, mHost := mHost u, mPort := mPort u\<rparr>" by simp
  define rest where "rest = (\<lambda>(userInfo, authority).
      bind_result (deref authority) (\<lambda>authority. bind_result (parse_port server authority) (\<lambda>hostPort.
        case hostPort of None \<Rightarrow> Inr u
        | Some (host, port) \<Rightarrow> bind_result (deref host) (\<lambda>h.
            if String_isEmpty h then (if server then Inl URISyntaxException else Inr u)
            else Inr (u\<lparr>mUserInfo := userInfo, mHost := host, mPort := port\<rparr>)))))"
  have rest: "rest (ui, Some (Some xs)) = Inl URISyntaxException \<and> server \<or>
      (\<exists>userInfo host port. rest (ui, Some (Some xs)) = Inr (u\<lparr>mUserInfo := userInfo, mHost := host, mPort := port\<rparr>))"
    if "0 \<notin> set xs" for ui xs
  proof -
    have keep: "rest (ui, Some (Some xs)) = Inr u \<Longrightarrow> ?thesis" using same by metis
    from parse_port_total[OF that, of server] show ?thesis
    proof (elim disjE exE conjE)
      fix h port
      assume p: "parse_port server (Some xs) = Inr (Some (Some (Some h), port))"
      show ?thesis
      proof (cases "String_isEmpty (Some h)")
        case True
        then show ?thesis using p keep by (cases server) (simp_all add: rest_def)
      next
        case False
        then have "rest (ui, Some (Some xs)) = Inr (u\<lparr>mUserInfo := ui, mHost := Some (Some h), mPort := port\<rparr>)" using p by (simp add: rest_def)
        then show ?thesis by blast
      qed
    qed (use keep in \<open>simp_all add: rest_def\<close>)
  qed
  have nonzero: "(64 :: uint8) \<noteq> 0" by simp
  show ?thesis
  proof (cases rule: indexOf_char_cases[OF nonzero bs(2)])
    case 1
    then have "URI_parseAuthority server u = rest (None, Some (Some bs))" using bs(1) 1(2) by (simp add: URI_parseAuthority_def rest_def)
    then show ?thesis using rest[OF bs(2)] by simp
  next
    case (2 xs ys)
    have "String_substring2 0 (length xs) (Some bs) = Inr (Some (Some xs))" by (subst String_substring2_eq) (simp_all add: 2(1))
    moreover have "String_substring (length xs + 1) (Some bs) = Inr (Some (Some ys))" by (subst String_substring_eq) (simp_all add: 2(1))
    ultimately have "URI_parseAuthority server u = rest (Some (Some xs), Some (Some ys))"
      using bs(1) 2(3) by (simp add: URI_parseAuthority_def rest_def)
    then show ?thesis using rest[of ys] bs(2) 2(1) by simp
  qed
qed


section \<open>Properties\<close>

lemma split_first_append: "split_first c s = (xs, ys) \<Longrightarrow> s = xs @ (case ys of None \<Rightarrow> [] | Some y \<Rightarrow> c # y)"
  by (cases rule: split_first_cases[of c s]) auto

text \<open>A component as it stands in a URI: nothing if it is null.\<close>

fun printed :: "bytes \<Rightarrow> str option \<Rightarrow> bytes \<Rightarrow> bytes" where
  "printed before (Some (Some x)) after = before @ x @ after"
| "printed before _ after = []"

lemma hierarchical_parts:
  assumes "hierarchical_spec server part fragment u = r" and "0 \<notin> set part"
  shows "case r of
      Inl e \<Rightarrow> e = URISyntaxException
    | Inr v \<Rightarrow> mString v = mString u \<and> mScheme v = mScheme u \<and> mFragment v = mFragment u \<and> mOpaque v = Some False \<and>
        mSchemeSpecificPart v = Some (Some part) \<and> mPath v \<noteq> None \<and>
        (\<exists>slashes \<in> {[], [47, 47]}. part = slashes @ printed [] (mAuthority v) [] @ printed [] (mPath v) [] @ printed [63] (mQuery v) [] \<and>
          (mAuthority v \<noteq> None \<longrightarrow> slashes = [47, 47]))"
proof (cases "part = [47, 47] \<and> fragment = None")
  case True
  then show ?thesis using assms(1) by (auto simp: hierarchical_spec_def)
next
  case False
  let ?P = "\<lambda>c :: uint8. c \<noteq> 47 \<and> c \<noteq> 63"
  define authority where "authority = (if prefix [47, 47] part then takeWhile ?P (drop 2 part) else [])"
  define rest where "rest = (if prefix [47, 47] part then dropWhile ?P (drop 2 part) else part)"
  obtain path query where sp: "split_first 63 rest = (path, query)" by (cases "split_first 63 rest")
  let ?v = "u\<lparr>mOpaque := Some False, mSchemeSpecificPart := Some (Some part), mAuthority := if authority = [] then None else Some (Some authority),
    mPath := Some (Some path), mQuery := map_option Some query\<rparr>"
  have spec: "hierarchical_spec server part fragment u = URI_parseAuthority server ?v"
    unfolding hierarchical_spec_def if_not_P[OF False] Let_def authority_def[symmetric] rest_def[symmetric] sp by simp
  have part: "\<exists>slashes \<in> {[], [47, 47]}. part = slashes @ authority @ rest \<and> (authority \<noteq> [] \<longrightarrow> slashes = [47, 47])"
    unfolding authority_def rest_def by (cases "prefix [47, 47] part") (auto simp: prefix_def)
  have "set authority \<subseteq> set part" using part by auto
  then have "0 \<notin> set authority" using assms(2) by blast
  then have total: "URI_parseAuthority server ?v = Inl URISyntaxException \<and> server \<or>
      (\<exists>userInfo host port. URI_parseAuthority server ?v = Inr (?v\<lparr>mUserInfo := userInfo, mHost := host, mPort := port\<rparr>))"
    by (intro parseAuthority_total) (auto split: if_splits)
  have "rest = path @ printed [63] (map_option Some query) []" using split_first_append[OF sp] by (cases query) simp_all
  then have "\<exists>slashes \<in> {[], [47, 47]}. part = slashes @ printed [] (mAuthority ?v) [] @ printed [] (mPath ?v) [] @ printed [63] (mQuery ?v) [] \<and>
      (mAuthority ?v \<noteq> None \<longrightarrow> slashes = [47, 47])" using part by (cases "authority = []") auto
  with total show ?thesis using assms(1) spec by auto
qed

text \<open>
  (C36) Parsing a string that is not empty (and has no NUL) either fails with \<open>URISyntaxException\<close> or loses nothing of it: the string is the scheme, the scheme-specific part and
  the fragment with their delimiters, and the scheme-specific part of a hierarchical URI is the authority, the path and the query
  with theirs, where an authority stands behind two slashes; nothing outside of the string is read. The empty string is refused with \<open>IndexOutOfBoundsException\<close>.
\<close>

theorem URI_parses_all_of_it:
  assumes "0 \<notin> set s" and "length s < 2 ^ 63"
  shows "case URI_new (Some (Some s)) of
      Inl e \<Rightarrow> e = (if s = [] then IndexOutOfBoundsException else URISyntaxException)
    | Inr u \<Rightarrow> s \<noteq> [] \<and> mString u = Some (Some s) \<and>
        (\<exists>part. mSchemeSpecificPart u = Some (Some part) \<and> s = printed [] (mScheme u) [58] @ part @ printed [35] (mFragment u) [] \<and>
          (mOpaque u = Some True \<and> mScheme u \<noteq> None \<and> part \<noteq> [] \<and> hd part \<noteq> 47 \<or>
           mOpaque u = Some False \<and>
           (\<exists>slashes \<in> {[], [47, 47]}. part = slashes @ printed [] (mAuthority u) [] @ printed [] (mPath u) [] @ printed [63] (mQuery u) [] \<and>
             (mAuthority u \<noteq> None \<longrightarrow> slashes = [47, 47]))))"
proof (cases "s = []")
  case True
  then show ?thesis by (simp add: URI_new_def URI_parseURI_def URI_indexOf_char_def URI_indexOf_chars_def String_indexOf_char_def String_c_str_def
        strchr_def c_string_def String_length_def index_or_minus_one_def)
next
  case False
  obtain body fragment where sp: "split_first 35 s = (body, fragment)" by (cases "split_first 35 s")
  have s: "s = body @ printed [35] (map_option Some fragment) []" using split_first_append[OF sp] by (cases fragment) simp_all
  let ?u = "uri_blank\<lparr>mString := Some (Some s), mFragment := map_option Some fragment\<rparr>"
  have new: "URI_new (Some (Some s)) = uri_spec False s" using URI_parseURI_eq[OF False assms] by (simp add: URI_new_def)
  have body: "0 \<notin> set body" using assms(1) s by (metis Un_iff set_append)
  show ?thesis
  proof (cases rule: split_scheme_cases[of body])
    case none
    have "uri_spec False s = hierarchical_spec False body fragment ?u"
      unfolding uri_spec_def sp Let_def prod.case by (rule if_not_P[OF none(1)])
    from hierarchical_parts[OF this[symmetric] body] show ?thesis unfolding new using False s
      by (auto simp: uri_blank_def split: sum.splits)
  next
    case (scheme sch r)
    let ?v = "?u\<lparr>mScheme := Some (Some sch)\<rparr>"
    have spec: "uri_spec False s =
        (if r = [] then Inl URISyntaxException
         else if hd r \<noteq> 47 then Inr (?v\<lparr>mOpaque := Some True, mSchemeSpecificPart := Some (Some r)\<rparr>)
         else hierarchical_spec False r fragment ?v)"
      unfolding uri_spec_def sp Let_def prod.case scheme(2,3) by simp
    have s': "s = printed [] (Some (Some sch)) [58] @ r @ printed [35] (map_option Some fragment) []" using s scheme(1) by simp
    show ?thesis
    proof (cases "r = [] \<or> hd r \<noteq> 47")
      case True
      then show ?thesis unfolding new spec using False s' by auto
    next
      case hier: False
      then have "uri_spec False s = hierarchical_spec False r fragment ?v" using spec by simp
      from hierarchical_parts[OF this[symmetric]] body scheme(1) show ?thesis unfolding new using False s'
        by (auto simp: uri_blank_def split: sum.splits)
    qed
  qed
qed


theorem URI_parses_all_of_it_witness:
  "URI_new (Some (Some [97, 58])) = Inl URISyntaxException"
proof -
  have "isl (URI_new (Some (Some [97, 58])))" by code_simp
  moreover have "0 \<notin> set [97, 58 :: uint8]" "length [97, 58 :: uint8] < 2 ^ 63" by simp_all
  ultimately show ?thesis using URI_parses_all_of_it[of "[97, 58]"] by (auto simp: isl_def)
qed

text \<open>A component that is null or a string without NUL and without the characters \<open>cs\<close>.\<close>

fun free_of :: "uint8 list \<Rightarrow> str option \<Rightarrow> bool" where
  "free_of cs None \<longleftrightarrow> True"
| "free_of cs (Some None) \<longleftrightarrow> False"
| "free_of cs (Some (Some bs)) \<longleftrightarrow> 0 \<notin> set bs \<and> set cs \<inter> set bs = {}"

lemma append_component_printed: "free_of cs x \<Longrightarrow> append_component before x after sb = Inr (sb @ printed before x after)"
  by (cases "(cs, x)" rule: free_of.cases) (auto simp: append_component_def StringBuilder_append_def c_str_chars_def String_c_str_def)

lemma free_of_printed: "free_of cs x \<Longrightarrow> 0 \<notin> set before \<union> set after \<Longrightarrow> 0 \<notin> set (printed before x after)"
  "free_of cs x \<Longrightarrow> set cs \<inter> (set before \<union> set after) = {} \<Longrightarrow> set cs \<inter> set (printed before x after) = {}"
  by (cases "(cs, x)" rule: free_of.cases; auto)+

lemma decimal_int_port:
  assumes "0 \<le> sint (port :: int32)"
  shows "Integer_valueOf_decimal (Some (Some (decimal_int (sint port)))) = Inr port"
    and "set (decimal_int (sint port)) \<inter> {0, 35, 47, 58, 63, 64, 93} = {}"
proof -
  have "- (2 ^ 31) \<le> sint port" "sint port < 2 ^ 31" using sint_greater_eq[of port] sint_lt[of port] by simp_all
  then have "saturate (sint port) = sint port" by (simp add: saturate_def LONG_MIN_def LONG_MAX_def)
  then show "Integer_valueOf_decimal (Some (Some (decimal_int (sint port)))) = Inr port"
    by (simp add: Integer_valueOf_decimal_def valueOf_decimal)
  have digits: "c \<notin> {0, 35, 47, 58, 63, 64, 93}" if c: "c \<in> set (decimal n)" for c n
  proof -
    obtain d where d: "d < 10" "c = of_nat (48 + d)" using decimal_digits[OF c] by blast
    then have "unat c = 48 + d" by (simp add: unsigned_of_nat take_bit_nat_eq_self del: of_nat_add)
    then show ?thesis using d(1) by auto
  qed
  have "decimal_int (sint port) = decimal (nat (sint port))" using assms by (simp add: decimal_int_def)
  then show "set (decimal_int (sint port)) \<inter> {0, 35, 47, 58, 63, 64, 93} = {}"
    using digits[of _ "nat (sint port)"] by (metis disjoint_iff)
qed

text \<open>The authority of a server, printed and parsed.\<close>

definition print_authority :: "str option \<Rightarrow> bytes \<Rightarrow> int32 \<Rightarrow> bytes" where
  "print_authority userInfo h port = printed [] userInfo [64] @ h @ (if port = - 1 then [] else 58 # decimal_int (sint port))"

lemma parse_port_printed:
  assumes "0 \<notin> set h" and "58 \<notin> set h" and "port = - 1 \<or> 0 \<le> sint port"
  shows "parse_port True (Some (h @ (if port = - 1 then [] else 58 # decimal_int (sint port)))) = Inr (Some (Some (Some h), port))"
proof -
  have nonzero: "(58 :: uint8) \<noteq> 0" "(93 :: uint8) \<noteq> 0" by simp_all
  show ?thesis
  proof (cases "port = - 1")
    case True
    obtain i where i: "String_indexOf_char 93 (Some h) = Inr i"
      using indexOf_char_cases[OF nonzero(2) assms(1)] by metis
    have "String_lastIndexOf_char 58 (Some h) = Inr (- 1)"
      by (rule lastIndexOf_char_cases[OF nonzero(1) assms(1)]) (use assms(2) in auto)
    then show ?thesis using True i by (simp add: parse_port_def)
  next
    case False
    let ?d = "decimal_int (sint port)" and ?s = "h @ 58 # decimal_int (sint port)"
    have pos: "0 \<le> sint port" using assms(3) False by simp
    note d = decimal_int_port[OF pos]
    have d': "0 \<notin> set ?d" "58 \<notin> set ?d" "93 \<notin> set ?d" "?d \<noteq> []" using d(2) hd_decimal_int(1)[of "sint port"] by blast+
    have s: "0 \<notin> set ?s" using assms(1) d'(1) by simp
    have last: "String_lastIndexOf_char 58 (Some ?s) = Inr (int (length h))"
      using find_last_index_append[of 58 "?d @ [0]" h] d'(2) s
      by (simp add: String_lastIndexOf_char_def String_c_str_def strrchr_def index_or_minus_one_def)
    obtain i where i: "String_indexOf_char 93 (Some ?s) = Inr i" "i < int (length h)"
    proof (rule indexOf_char_cases[OF nonzero(2) s])
      fix xs ys
      assume at: "?s = xs @ 93 # ys" "93 \<notin> set xs" "String_indexOf_char 93 (Some ?s) = Inr (int (length xs))"
      have "length xs < length h"
      proof (rule ccontr)
        assume "\<not> length xs < length h"
        then have "93 \<in> set (drop (length h) ?s)" unfolding at(1) by simp
        then show False using d'(3) by simp
      qed
      then show ?thesis using at(3) that by simp
    qed (use that[of "- 1"] in simp)
    have "String_substring2 0 (length h) (Some ?s) = Inr (Some (Some h))" by (subst String_substring2_eq) simp_all
    moreover have "String_substring (length h + 1) (Some ?s) = Inr (Some (Some ?d))" by (subst String_substring_eq) simp_all
    moreover have "int (length h) < int (String_length (Some ?s)) - 1" using d'(4) by (simp add: String_length_def)
    ultimately show ?thesis using False last i d(1) pos by (simp add: parse_port_def)
  qed
qed

lemma parseAuthority_printed:
  assumes "mAuthority u = Some (Some (print_authority userInfo h port))" and "h \<noteq> []" and "free_of [58, 64] (Some (Some h))"
    and "free_of [64] userInfo" and "port = - 1 \<or> 0 \<le> sint port"
  shows "URI_parseAuthority True u = Inr (u\<lparr>mUserInfo := userInfo, mHost := Some (Some h), mPort := port\<rparr>)"
proof -
  let ?hp = "h @ (if port = - 1 then [] else 58 # decimal_int (sint port))"
  have nonzero: "(64 :: uint8) \<noteq> 0" by simp
  have hp: "0 \<notin> set ?hp" "64 \<notin> set ?hp" using assms(3,5) decimal_int_port(2)[of port] by auto
  have port: "parse_port True (Some ?hp) = Inr (Some (Some (Some h), port))" using assms(3,5) by (intro parse_port_printed) auto
  show ?thesis
  proof (cases userInfo)
    case None
    then have a: "print_authority userInfo h port = ?hp" by (simp add: print_authority_def)
    have "String_indexOf_char 64 (Some ?hp) = Inr (- 1)"
      by (rule indexOf_char_cases[OF nonzero hp(1)]) (use hp(2) in auto)
    then show ?thesis using port None assms(2) unfolding URI_parseAuthority_def assms(1) a by (simp add: String_isEmpty_def String_length_def)
  next
    case (Some x)
    then obtain ui where ui: "userInfo = Some (Some ui)" "0 \<notin> set ui" "64 \<notin> set ui" using assms(4) by (cases x) auto
    then have a: "print_authority userInfo h port = ui @ 64 # ?hp" by (simp add: print_authority_def)
    have all: "0 \<notin> set (ui @ 64 # ?hp)" using ui(2) hp(1) by simp
    have "takeWhile (\<lambda>c. c \<noteq> 64) (ui @ 64 # ?hp) = ui" using ui(3) by (subst takeWhile_append2) auto
    then have "String_indexOf_char 64 (Some (ui @ 64 # ?hp)) = Inr (int (length ui))"
      unfolding String_indexOf_char_def String_c_str_def using strchr_takeWhile[OF nonzero all] by (simp add: index_or_minus_one_def)
    moreover have "String_substring2 0 (length ui) (Some (ui @ 64 # ?hp)) = Inr (Some (Some ui))" by (subst String_substring2_eq) simp_all
    moreover have "String_substring (length ui + 1) (Some (ui @ 64 # ?hp)) = Inr (Some (Some ?hp))" by (subst String_substring_eq) simp_all
    ultimately show ?thesis using port ui(1) assms(2) unfolding URI_parseAuthority_def assms(1) a
      by (simp add: String_isEmpty_def String_length_def)
  qed
qed


lemma split_first_printed: "free_of cs x \<Longrightarrow> c \<notin> set xs \<Longrightarrow> split_first c (xs @ printed [c] x []) = (xs, map_option the x)"
proof (cases "(cs, x)" rule: free_of.cases)
  case (1 cs')
  assume "c \<notin> set xs"
  then have "takeWhile (\<lambda>y. y \<noteq> c) xs = xs" by (subst takeWhile_eq_all_conv) auto
  then show ?thesis using 1 \<open>c \<notin> set xs\<close> by (simp add: split_first_def)
next
  case (3 cs' bs)
  assume fresh: "c \<notin> set xs"
  have "takeWhile (\<lambda>y. y \<noteq> c) (xs @ c # bs) = xs" using fresh by (subst takeWhile_append2) auto
  moreover have "dropWhile (\<lambda>y. y \<noteq> c) (xs @ c # bs) = c # bs" using fresh by (subst dropWhile_append2) auto
  ultimately show ?thesis using 3 by (simp add: split_first_def)
qed simp

lemma Some_the_printed: "free_of cs x \<Longrightarrow> map_option Some (map_option the x) = x"
  by (cases "(cs, x)" rule: free_of.cases) auto

definition print_server :: "bytes \<Rightarrow> str option \<Rightarrow> bytes \<Rightarrow> int32 \<Rightarrow> bytes \<Rightarrow> str option \<Rightarrow> str option \<Rightarrow> bytes" where
  "print_server sc userInfo h port p query fragment =
     sc @ [58, 47, 47] @ print_authority userInfo h port @ p @ printed [63] query [] @ printed [35] fragment []"

lemma append_server_printed:
  assumes "free_of cs userInfo" and "free_of [58] (Some (Some h))"
  shows "append_server userInfo (Some (Some h)) port sb = Inr (sb @ [47, 47] @ print_authority userInfo h port)"
proof -
  have nonzero: "(58 :: uint8) \<noteq> 0" "(93 :: uint8) \<noteq> 0" "(91 :: uint8) \<noteq> 0" by simp_all
  have h: "0 \<notin> set h" "58 \<notin> set h" using assms(2) by auto
  obtain i j where ij: "String_indexOf_char 93 (Some h) = Inr i" "String_indexOf_char 91 (Some h) = Inr j"
    using indexOf_char_cases[OF nonzero(2) h(1)] indexOf_char_cases[OF nonzero(3) h(1)] by metis
  have "String_indexOf_char 58 (Some h) = Inr (- 1)" by (rule indexOf_char_cases[OF nonzero(1) h(1)]) (use h(2) in auto)
  then have "bracket_host (Some h) = Inr (Some h)" using ij by (simp add: bracket_host_def)
  then show ?thesis using h(1)
    by (simp add: append_server_def append_component_printed[OF assms(1)] StringBuilder_append_def c_str_chars_def String_c_str_def
        StringBuilder_append_int32_def StringBuilder_append_char_def print_authority_def)
qed

lemma uri_spec_printed:
  assumes sc: "free_of [35, 47, 58, 63] (Some (Some sc))" and ui: "free_of [35, 47, 63, 64] userInfo"
    and h: "h \<noteq> []" "free_of [35, 47, 58, 63, 64] (Some (Some h))" and port: "port = - 1 \<or> 0 \<le> sint port"
    and p: "free_of [35, 63] (Some (Some p))" "p = [] \<or> hd p = 47" and q: "free_of [35] query" and f: "free_of [] fragment"
    and t: "t = print_server sc userInfo h port p query fragment"
  shows "uri_spec True t =
    Inr \<lparr>mString = Some (Some t), mScheme = Some (Some sc),
      mSchemeSpecificPart = Some (Some ([47, 47] @ print_authority userInfo h port @ p @ printed [63] query [])),
      mAuthority = Some (Some (print_authority userInfo h port)), mUserInfo = userInfo, mHost = Some (Some h), mPort = port,
      mPath = Some (Some p), mQuery = query, mFragment = fragment, mOpaque = Some False, mHashCode = 0\<rparr>"
proof -
  let ?a = "print_authority userInfo h port" and ?q = "printed [63] query []"
  have digits: "set (if port = - 1 then [] else 58 # decimal_int (sint port)) \<inter> {35, 47, 63} = {}"
    using port decimal_int_port(2)[of port] by auto
  have "set (printed [] userInfo [64]) \<inter> {35, 47, 63} = {}" using free_of_printed(2)[OF ui, of "[]" "[]"]
    by (cases "([] :: uint8 list, userInfo)" rule: free_of.cases) auto
  then have a: "set ?a \<inter> {35, 47, 63} = {}" "?a \<noteq> []" using h digits by (auto simp: print_authority_def)
  have "35 \<notin> set ?q" using free_of_printed(2)[OF q, of "[63]" "[]"] by simp
  then have "35 \<notin> set (sc @ 58 # 47 # 47 # ?a @ p @ ?q)" using sc a p(1) by auto
  from split_first_printed[OF f this]
  have body: "split_first 35 t = (sc @ 58 # 47 # 47 # ?a @ p @ ?q, map_option the fragment)"
    by (simp add: t print_server_def)
  let ?Q = "\<lambda>c :: uint8. c \<noteq> 58 \<and> c \<noteq> 47 \<and> c \<noteq> 63"
  have scheme: "takeWhile ?Q (sc @ 58 # xs) = sc" "dropWhile ?Q (sc @ 58 # xs) = 58 # xs" for xs
    using sc by (subst takeWhile_append2; auto) (subst dropWhile_append2; use sc in auto)
  let ?P = "\<lambda>c :: uint8. c \<noteq> 47 \<and> c \<noteq> 63"
  have stop: "takeWhile ?P (p @ ?q) = []" "dropWhile ?P (p @ ?q) = p @ ?q"
    using p(2) by (cases p; cases "([] :: uint8 list, query)" rule: free_of.cases; simp)+
  have authority: "takeWhile ?P (?a @ p @ ?q) = ?a" "dropWhile ?P (?a @ p @ ?q) = p @ ?q"
    using a(1) stop by (subst takeWhile_append2; auto) (subst dropWhile_append2; use a(1) stop in auto)
  have path: "split_first 63 (p @ ?q) = (p, map_option the query)" using split_first_printed[OF q] p(1) by simp
  have parse: "URI_parseAuthority True v = Inr (v\<lparr>mUserInfo := userInfo, mHost := Some (Some h), mPort := port\<rparr>)"
    if "mAuthority v = Some (Some ?a)" for v
    using that h ui port by (intro parseAuthority_printed) (cases "([] :: uint8 list, userInfo)" rule: free_of.cases; auto)+
  have "hierarchical_spec True (47 # 47 # ?a @ p @ ?q) fr u =
      Inr (u\<lparr>mOpaque := Some False, mSchemeSpecificPart := Some (Some (47 # 47 # ?a @ p @ ?q)), mAuthority := Some (Some ?a),
        mPath := Some (Some p), mQuery := query, mUserInfo := userInfo, mHost := Some (Some h), mPort := port\<rparr>)" for fr u
    unfolding hierarchical_spec_def using a(2) authority path parse Some_the_printed[OF q] by (simp add: Let_def)
  then show ?thesis unfolding uri_spec_def body using scheme Some_the_printed[OF f] by (simp add: Let_def uri_blank_def)
qed




text \<open>An escape that is cut off makes the comparison of a URI with itself throw.\<close>

lemma URI_broken_escape:
  "bind_result (URI_new (Some (Some [97, 58, 37]))) (\<lambda>u. URI_equals u u) = Inl IndexOutOfBoundsException"
  by code_simp

end
