(* ===== verification/Spec2Isabelle.thy ===== *)
theory Spec2Isabelle
  imports Looper Byte_Buffers Parcels Promise_Groups Log_Buffers Thread_Pools Async_Tasks Base64 Service_Properties References Smart_Pointers
    Buffered_Input String_Builders Numbers Package_Manager Shared_Preferences URIs
begin

text \<open>
  A verification development for Mindroid.cpp, an application framework in C++ that is modelled on
  Android: reference-counted objects, messages and loopers, promises and executors, containers, streams and parcels, services,
  packages and preferences. All paths below are relative to \<open>src/src/mindroid/\<close>.

  \<^bold>\<open>How the parts interact.\<close> A client sends messages through a \<open>Handler\<close>, which puts them into the
  \<open>MessageQueue\<close> of a \<open>Looper\<close>; the thread of the looper takes them out when they are due, dispatches
  them to their handler and returns them to the pool of messages. A \<open>Promise\<close> runs its actions on an
  executor: the handler of such a looper, a \<open>SerialExecutor\<close>, which is a looper with its own thread, or a thread pool, whose workers
  take runnables from a blocking queue; an \<open>AsyncTask\<close> runs in the background on an executor and reports through messages to the handler
  of its maker. The service manager and the processes of the services are loopers too, which answer requests of clients with promises and
  with messages to each other; the package manager reads the manifests and resolves an intent to the services that are then
  created. Preferences are a map of variants that is kept in a file with a backup. Data crosses components in a \<open>Parcel\<close>, which is
  a byte stream (the output and input streams over byte arrays) together with a \<open>Bundle\<close> of extras; a
  bundle is a \<open>HashMap\<close> from strings to \<open>Variant\<close>s. All objects are shared by the smart pointers \<open>sp\<close> and \<open>wp\<close>.

  \<^bold>\<open>The theories\<close>, part by part:
  \<^item> \<open>Prelude\<close>: exceptions and results, machine types, pointers to the ends of lists, and generic lemmas.
    A function into \<open>'a result\<close> is an operation that may throw; the error \<open>Undefined\<close> is not an
    exception but undefined behaviour of C++ (null dereferenced, access outside an array), so that
    excluding it is memory safety.
  \<^item> \<open>References\<close>, \<open>Smart_Pointers\<close>: \<open>lang/Object\<close>. Every atomic access to the two counters of an object is a step of an inductive
    relation, with any number of threads; each operation of \<open>sp\<close> and \<open>wp\<close> is its change of the variables and its calls to the
    counters. Together: nothing is used after it was deleted, deleted twice, or left over.
  \<^item> \<open>Messages\<close>: \<open>os/Message\<close>, with a store from addresses to messages and the free list of the pool.
  \<^item> \<open>Timed_Queue\<close>: the abstract queue of messages with due times as a locale, and what a looper may
    conclude from it.
  \<^item> \<open>Message_Queue\<close>: \<open>os/MessageQueue\<close> on the linked store. Every operation keeps the list and the pool
    well formed and is described on every branch; the queue interprets \<open>timed_queue\<close>.
  \<^item> \<open>Looper\<close>: \<open>os/Handler\<close> and \<open>os/Looper\<close>; the interleavings of clients and the looper are an inductive
    step relation, in which every accepted message is accounted for exactly once.
  \<^item> \<open>Blocking_Queues\<close>, \<open>Thread_Pools\<close>, \<open>Serial_Executors\<close>: \<open>util/concurrent/LinkedBlockingQueue.h\<close> on linked nodes (a refinement of a
    list), \<open>ThreadPoolExecutor\<close> as a step relation of clients, workers and the thread that shuts down, and \<open>SerialExecutor\<close> with
    \<open>os/HandlerThread\<close> on the message queue.
  \<^item> \<open>Async_Tasks\<close>: \<open>os/AsyncTask\<close> over any executor that satisfies the locale \<open>task_executor\<close>, which the serial executor and the thread
    pool interpret.
  \<^item> \<open>Services\<close>, \<open>Service_Properties\<close>: \<open>os/ServiceManager\<close>, \<open>os/Process\<close>, \<open>app/Service\<close> and their callbacks as a step relation over the
    messages in flight; the registries agree with each other and with what the processes will have done.
  \<^item> \<open>Sequences\<close>, \<open>Hash_Tables\<close>: \<open>util/ArrayList.h\<close>, \<open>LinkedList.h\<close>, \<open>HashMap.h\<close>, \<open>HashSet.h\<close> in all their
    templates, with locales for sequences, for the iterator that removes while it walks, and for maps up to an
    equality of keys. The containers of the C++ library are lists (association lists for \<open>unordered_map\<close>).
  \<^item> \<open>Bytes\<close>, \<open>Byte_Buffers\<close>: \<open>lang/ByteArray\<close>, \<open>System::arraycopy\<close> and \<open>nio/\<close>: buffers over a store of shared
    arrays, with bounds and views.
  \<^item> \<open>Output_Streams\<close>, \<open>Input_Streams\<close>, \<open>Buffered_Input\<close>: \<open>io/\<close>: byte-array, buffered and data streams. A wrapped stream is a
    parameter with the contract \<open>output_stream\<close> (\<open>input_stream\<close>, \<open>buffered_source\<close>), which the byte-array streams interpret; a buffered
    input stream keeps the contract of the stream that it wraps (a \<open>sublocale\<close>), and \<open>reset\<close> goes back to its mark.
  \<^item> \<open>Strings\<close>, \<open>String_Builders\<close>, \<open>Numbers\<close>: \<open>lang/String\<close>, \<open>StringBuilder\<close>, \<open>StringArray\<close> and the numbers that are read from strings:
    searching, splitting, trimming, comparing, editing, \<open>strtol\<close>.
  \<^item> \<open>Base64\<close>: \<open>util/Base64\<close>: the accumulators of encoder and decoder against an encoding by groups of three bytes.
  \<^item> \<open>URIs\<close>: \<open>net/URI\<close>: parser, constructors, equality; what is put together from components is parsed into them.
  \<^item> \<open>Log_Buffers\<close>: \<open>util/logging/LogBuffer\<close>: the ring of bytes as a queue of records that forgets the oldest.
  \<^item> \<open>Variants\<close>, \<open>Bundles\<close>, \<open>Parcels\<close>: \<open>util/Variant\<close>, \<open>os/Bundle\<close>, \<open>os/Parcel\<close>: typed values that are read back
    with their type.
  \<^item> \<open>Intents\<close>, \<open>Package_Manager\<close>: \<open>content/Intent\<close>, \<open>content/ComponentName\<close> and \<open>content/pm/PackageManagerService\<close>: the parser of the
    manifests, the maps of packages and components, and \<open>resolveService\<close>.
  \<^item> \<open>Shared_Preferences\<close>: \<open>app/SharedPreferencesImpl\<close>: editor and commit, the values as XML elements, and the file with its backup,
    where the process may die between any two operations on files.
  \<^item> \<open>Promises\<close>: \<open>util/concurrent/Promise.h\<close>, \<open>Thenable\<close>, \<open>AsyncAwait.h\<close>, \<open>Executors.h\<close>: a store of promises, actions and nodes of the action
    lists. A call runs callbacks that make further calls; the call stack is an explicit list of frames.
    \<open>Promise_Invariants\<close> proves the invariant under every frame, \<open>Promise_Termination\<close> that every call ends,
    \<open>Promise_Properties\<close> what holds in every reachable store, and \<open>Promise_Chains\<close> and \<open>Promise_Groups\<close> the
    behaviour of chains and of \<open>allOf\<close> and \<open>anyOf\<close>.

  \<^bold>\<open>Conventions.\<close> Integers keep their width: \<open>size_t\<close> is a 64-bit word and its arithmetic wraps; a bound in a theorem
  (for example \<open>2 ^ 62\<close> on lengths) states the range in which the code does not wrap. A reference of type \<open>sp\<close>
  is an \<open>option\<close>, an address or the object itself where it is not shared. A loop that may not end is a
  \<open>partial_function\<close> into \<open>option\<close>, and its termination is a theorem; no definition uses fuel without a theorem that
  says how much is enough. \<open>char\<close> is 8 bits, the machine is little-endian, and the locale of the C library
  is \<open>C\<close>. A critical section under a lock is one atomic step.

  \<^bold>\<open>Parameters.\<close> Code of the application is a parameter: the handlers' code, the functions registered with promises, \<open>equals\<close> and
  \<open>hashCode\<close> of keys, the code of services and tasks. So are the vendored XML library (the tree that it has read, and how it prints and
  reads the values of attributes), the conversions of floating-point numbers, and the outcome of each operation on a file. The
  current time is an argument of the operations that read the clock.

  \<^bold>\<open>Not modelled\<close>: the memory order of atomic accesses; messages of exceptions; the text of log records and where loggers write it;
  the formatting of floating-point numbers and regular expressions of the C++ library; system calls (sockets, files,
  threads); the transactions of binders, which deliver calls in order; the loading of plugins; the vendored libraries
  (tinyxml2, googletest), the tests and the examples. Outside \<open>References\<close> and \<open>Smart_Pointers\<close> an object lives as long as it is needed, so
  that its counters do not appear.
\<close>

end
